(* ===== verification/Prelude.thy ===== *)
theory Prelude
  imports Main "HOL-Library.Word" "HOL-Library.Signed_Division" "HOL-Library.Multiset"
begin

text \<open>
  Shared material of the libproc development: the names of the C types the components use,
  the theorem collections their proofs draw on, and generic facts on lists and words.
  \<^item> \<open>ptr\<close> is the address of a heap object; the objects themselves live in an explicit store
    wherever the C code reaches one object along several paths.
  \<^item> \<open>u8\<close>, \<open>u32\<close>, \<open>u64\<close> are the fixed-width unsigned integers; the signed types share the
    bit patterns and are read with \<open>sint\<close>.
  \<^item> \<open>size_t\<close> values are natural numbers. Where the code subtracts or converts a signed
    value into a \<open>size_t\<close>, the wrap-around at 64 bits is written out
    (\<open>size_sub\<close>, \<open>size_of_int\<close>).
\<close>

type_synonym ptr = nat
type_synonym u8 = "8 word"
type_synonym u32 = "32 word"
type_synonym u64 = "64 word"

named_theorems tv_simps \<open>facts on struct timeval\<close>
named_theorems pq_simps \<open>field and frame facts of the priority queue\<close>
named_theorems hash_simps \<open>facts on the hash table\<close>
named_theorems xdr_simps \<open>facts on the XDR codecs\<close>
named_theorems evt_simps \<open>facts on the event loop\<close>

section \<open>Integer conversions\<close>

definition size_of_int :: "int \<Rightarrow> nat" where
  "size_of_int x = nat (x mod 2 ^ 64)"

definition size_sub :: "nat \<Rightarrow> nat \<Rightarrow> nat" where
  "size_sub a b = nat ((int a - int b) mod 2 ^ 64)"

lemma size_of_int_nonneg [simp]: "0 \<le> x \<Longrightarrow> x < 2 ^ 64 \<Longrightarrow> size_of_int x = nat x"
  by (simp add: size_of_int_def)

lemma size_sub_le [simp]: "b \<le> a \<Longrightarrow> a < 2 ^ 64 \<Longrightarrow> size_sub a b = a - b"
  by (simp add: size_sub_def of_nat_diff [symmetric] nat_mod_distrib flip: of_nat_diff)

section \<open>Lists as arrays\<close>

lemma nth_list_update_if: "i < length xs \<Longrightarrow> xs[i := x] ! j = (if i = j then x else xs ! j)"
  by simp

lemma mset_list_swap:
  assumes "i < length xs" "j < length xs"
  shows "mset (xs[i := xs ! j, j := xs ! i]) = mset xs"
  using assms by (simp add: mset_swap)

section \<open>Cardinalities\<close>

lemma int_card_remove: "finite A \<Longrightarrow> int (card (A - {x})) = int (card A) - (if x \<in> A then 1 else 0)"
  by (simp add: card_Diff_singleton_if card_gt_0_iff Suc_le_eq of_nat_diff) (metis card_gt_0_iff empty_iff of_nat_diff Suc_le_eq One_nat_def of_nat_1)

lemma int_card_insert: "finite A \<Longrightarrow> int (card (insert x A)) = int (card A) + (if x \<in> A then 0 else 1)"
  by (simp add: card_insert_if)

end
