(* ===== verification/Timeval.thy ===== *)
theory Timeval
  imports Prelude
begin

text \<open>
  The \<open>struct timeval\<close> arithmetic of \<open>events.c\<close> and \<open>eventTimer.c\<close>: the macros \<open>timercmp\<close>,
  \<open>timeradd\<close>, \<open>timersub\<close>, the function \<open>timeval_subtract\<close>, and the millisecond conversion
  \<open>EVT_ms2tv\<close>. The order of \<open>timercmp\<close> is the lexicographic one and makes \<open>timeval\<close> a linear
  order; \<open>tv_us\<close> abstracts a value to its microseconds, and on normalised values the macros
  refine integer comparison, addition and subtraction.
\<close>

datatype timeval = Timeval (tv_sec: int) (tv_usec: int)

definition timercmp :: "timeval \<Rightarrow> timeval \<Rightarrow> (int \<Rightarrow> int \<Rightarrow> bool) \<Rightarrow> bool" where
  "timercmp a b CMP =
     (if tv_sec a = tv_sec b then CMP (tv_usec a) (tv_usec b) else CMP (tv_sec a) (tv_sec b))"

definition timeradd :: "timeval \<Rightarrow> timeval \<Rightarrow> timeval" where
  "timeradd t u =
     (let s = tv_sec t + tv_sec u; us = tv_usec t + tv_usec u
      in if us \<ge> 1000000 then Timeval (s + 1) (us - 1000000) else Timeval s us)"

definition timersub :: "timeval \<Rightarrow> timeval \<Rightarrow> timeval" where
  "timersub t u =
     (let s = tv_sec t - tv_sec u; us = tv_usec t - tv_usec u
      in if us < 0 then Timeval (s - 1) (us + 1000000) else Timeval s us)"

text \<open>
  \<open>timeval_subtract\<close> adjusts its third argument in place, so the model returns the return
  code, the difference (unwritten on the two early returns) and the changed \<open>y\<close>.
\<close>

definition timeval_subtract :: "timeval \<Rightarrow> timeval \<Rightarrow> int \<times> timeval option \<times> timeval" where
  "timeval_subtract x y =
     (if tv_usec x < 0 then (1, None, y)
      else if tv_usec y < 0 then (1, None, y)
      else
        let y1 = (if tv_usec x < tv_usec y
                  then let nsec = (tv_usec y - tv_usec x) sdiv 1000000 + 1
                       in Timeval (tv_sec y + nsec) (tv_usec y - 1000000 * nsec)
                  else y);
            y2 = (if tv_usec x - tv_usec y1 > 1000000
                  then let nsec = (tv_usec x - tv_usec y1) sdiv 1000000
                       in Timeval (tv_sec y1 - nsec) (tv_usec y1 + 1000000 * nsec)
                  else y1)
        in (if tv_sec x < tv_sec y2 then 1 else 0,
            Some (Timeval (tv_sec x - tv_sec y2) (tv_usec x - tv_usec y2)), y2))"

definition EVT_ms2tv :: "int \<Rightarrow> timeval" where
  "EVT_ms2tv ms = (let s = ms sdiv 1000 in Timeval s ((ms - s * 1000) * 1000))"

section \<open>The order and the abstraction to microseconds\<close>

instantiation timeval :: linorder
begin

definition less_eq_timeval :: "timeval \<Rightarrow> timeval \<Rightarrow> bool" where
  "less_eq_timeval a b \<longleftrightarrow> tv_sec a < tv_sec b \<or> tv_sec a = tv_sec b \<and> tv_usec a \<le> tv_usec b"

definition less_timeval :: "timeval \<Rightarrow> timeval \<Rightarrow> bool" where
  "less_timeval a b \<longleftrightarrow> tv_sec a < tv_sec b \<or> tv_sec a = tv_sec b \<and> tv_usec a < tv_usec b"

instance
  by intro_classes (auto simp: less_eq_timeval_def less_timeval_def timeval.expand)

end

definition tv_normal :: "timeval \<Rightarrow> bool" where
  "tv_normal t \<longleftrightarrow> 0 \<le> tv_usec t \<and> tv_usec t < 1000000"

definition tv_us :: "timeval \<Rightarrow> int" where
  "tv_us t = tv_sec t * 1000000 + tv_usec t"

lemma timercmp_order [simp, tv_simps]:
  "timercmp a b (\<lambda>x y. x \<le> y) \<longleftrightarrow> a \<le> b" "timercmp a b (\<lambda>x y. x < y) \<longleftrightarrow> a < b"
  "timercmp a b (\<lambda>x y. x \<ge> y) \<longleftrightarrow> b \<le> a" "timercmp a b (\<lambda>x y. x > y) \<longleftrightarrow> b < a"
  by (auto simp: timercmp_def less_eq_timeval_def less_timeval_def)

lemma tv_order_us [tv_simps]:
  assumes "tv_normal a" "tv_normal b"
  shows "a \<le> b \<longleftrightarrow> tv_us a \<le> tv_us b" "a < b \<longleftrightarrow> tv_us a < tv_us b"
  using assms by (auto simp: tv_normal_def tv_us_def less_eq_timeval_def less_timeval_def)

lemma tv_us_inject:
  assumes "tv_normal a" "tv_normal b"
  shows "tv_us a = tv_us b \<longleftrightarrow> a = b"
  using tv_order_us [OF assms] by auto

lemma timeradd_us [tv_simps]: "tv_us (timeradd t u) = tv_us t + tv_us u"
  by (simp add: timeradd_def tv_us_def Let_def)

lemma timersub_us [tv_simps]: "tv_us (timersub t u) = tv_us t - tv_us u"
  by (simp add: timersub_def tv_us_def Let_def)

lemma timeradd_normal [tv_simps]: "tv_normal t \<Longrightarrow> tv_normal u \<Longrightarrow> tv_normal (timeradd t u)"
  by (auto simp: timeradd_def tv_normal_def Let_def)

lemma timersub_normal [tv_simps]: "tv_normal t \<Longrightarrow> tv_normal u \<Longrightarrow> tv_normal (timersub t u)"
  by (auto simp: timersub_def tv_normal_def Let_def)

text \<open>
  \<open>timeval_subtract\<close> (events.c) on normalised inputs writes the exact difference in
  microseconds, normalised, and its return value is 1 exactly when the difference is negative.
\<close>

theorem timeval_subtract_correct:
  assumes "tv_normal x" "tv_normal y"
  shows "\<exists>r y'. timeval_subtract x y = (if x < y then 1 else 0, Some r, y')
           \<and> tv_us r = tv_us x - tv_us y \<and> tv_normal r"
  using assms
  by (auto simp: timeval_subtract_def Let_def tv_normal_def tv_us_def less_timeval_def
      signed_divide_int_def sgn_if)

theorem timeval_subtract_witness:
  "\<exists>r y'. timeval_subtract (Timeval 5 100) (Timeval 3 200) = (0, Some r, y')
     \<and> tv_us r = 1999900 \<and> tv_normal r"
  using timeval_subtract_correct [of "Timeval 5 100" "Timeval 3 200"]
  by (simp add: tv_normal_def tv_us_def less_timeval_def)

end
