(* ===== verification/Pqueue.thy ===== *)
theory Pqueue
  imports Timeval
begin

text \<open>
  The binary heap of \<open>priorityQueue.c\<close>. The queue stores pointers to elements it does not own:
  priorities and positions are read and written through the five callbacks of the handle, so
  every operation takes the element store (type \<open>'s\<close>) and returns it updated. Cell 0 of the
  array \<open>d\<close> is unused, as in the source.

  The locale \<open>pq_order\<close> states what the heap algorithms need of the callbacks (the comparison
  is \<open>\<ge>\<close> of a linear order and \<open>setpos\<close> leaves priorities alone); \<open>pq_callbacks\<close> adds the laws
  of an element type that really records positions. The heap lemmas are proved once in the
  locales; the callback tables of the library interpret them where those tables are defined.
\<close>

section \<open>Data and operations\<close>

record ('s, 'p) pq_cbs =
  cmppri :: "'p \<Rightarrow> 'p \<Rightarrow> bool"
  getpri :: "'s \<Rightarrow> ptr \<Rightarrow> 'p"
  setpri :: "ptr \<Rightarrow> 'p \<Rightarrow> 's \<Rightarrow> 's"
  getpos :: "'s \<Rightarrow> ptr \<Rightarrow> nat"
  setpos :: "ptr \<Rightarrow> nat \<Rightarrow> 's \<Rightarrow> 's"

record ('s, 'p) ps_pqueue_t =
  q_size :: nat
  q_avail :: nat
  q_step :: nat
  q_cbs :: "('s, 'p) pq_cbs"
  q_d :: "ptr list"

definition left :: "nat \<Rightarrow> nat" where "left i = 2 * i"
definition right :: "nat \<Rightarrow> nat" where "right i = 2 * i + 1"
definition parent :: "nat \<Rightarrow> nat" where "parent i = i div 2"

text \<open>
  Allocation outcomes are arguments: \<open>ok1\<close> and \<open>ok2\<close> say whether the two \<open>malloc\<close> calls
  succeed. Fresh array cells hold an arbitrary pointer, written 0 here; no operation reads a
  cell at or above \<open>q_size\<close>.
\<close>

definition ps_pqueue_init ::
  "bool \<Rightarrow> bool \<Rightarrow> nat \<Rightarrow> ('s, 'p) pq_cbs \<Rightarrow> ('s, 'p) ps_pqueue_t option" where
  "ps_pqueue_init ok1 ok2 n cbs =
     (if \<not> ok1 then None
      else if \<not> ok2 then None
      else Some \<lparr>q_size = 1, q_avail = n + 1, q_step = n + 1, q_cbs = cbs,
                 q_d = replicate (n + 1) 0\<rparr>)"

definition ps_pqueue_size :: "('s, 'p) ps_pqueue_t \<Rightarrow> nat" where
  "ps_pqueue_size q = q_size q - 1"

text \<open>The loop of \<open>bubble_up\<close>, then the write of the moving node into the final hole.\<close>

function bubble_up_loop ::
  "('s, 'p) pq_cbs \<Rightarrow> ptr \<Rightarrow> 'p \<Rightarrow> nat \<Rightarrow> ptr list \<Rightarrow> 's \<Rightarrow> ptr list \<times> 's" where
  "bubble_up_loop c moving_node moving_pri i d s =
     (let parent_node = parent i in
      if i > 1 \<and> cmppri c (getpri c s (d ! parent_node)) moving_pri
      then bubble_up_loop c moving_node moving_pri parent_node
             (d[i := d ! parent_node]) (setpos c (d ! parent_node) i s)
      else (d[i := moving_node], setpos c moving_node i s))"
  by pat_completeness auto
termination
  by (relation "measure (\<lambda>(c, m, p, i, d, s). i)") (auto simp: parent_def)

declare bubble_up_loop.simps [simp del]

definition bubble_up ::
  "('s, 'p) ps_pqueue_t \<Rightarrow> nat \<Rightarrow> 's \<Rightarrow> ('s, 'p) ps_pqueue_t \<times> 's" where
  "bubble_up q i s =
     (let moving_node = q_d q ! i;
          (d', s') = bubble_up_loop (q_cbs q) moving_node (getpri (q_cbs q) s moving_node)
                       i (q_d q) s
      in (q\<lparr>q_d := d'\<rparr>, s'))"

definition maxchild_at :: "('s, 'p) pq_cbs \<Rightarrow> nat \<Rightarrow> ptr list \<Rightarrow> 's \<Rightarrow> nat \<Rightarrow> nat" where
  "maxchild_at c sz d s i =
     (let child_node = left i in
      if child_node \<ge> sz then 0
      else if child_node + 1 < sz
              \<and> cmppri c (getpri c s (d ! child_node)) (getpri c s (d ! (child_node + 1)))
      then child_node + 1
      else child_node)"

definition maxchild :: "('s, 'p) ps_pqueue_t \<Rightarrow> 's \<Rightarrow> nat \<Rightarrow> nat" where
  "maxchild q s i = maxchild_at (q_cbs q) (q_size q) (q_d q) s i"

lemma maxchild_at_bounds:
  "maxchild_at c sz d s i \<noteq> 0 \<Longrightarrow> i < maxchild_at c sz d s i \<and> maxchild_at c sz d s i < sz"
  by (auto simp: maxchild_at_def left_def Let_def split: if_splits)

function percolate_loop ::
  "('s, 'p) pq_cbs \<Rightarrow> nat \<Rightarrow> ptr \<Rightarrow> 'p \<Rightarrow> nat \<Rightarrow> ptr list \<Rightarrow> 's \<Rightarrow> ptr list \<times> 's" where
  "percolate_loop c sz moving_node moving_pri i d s =
     (let child_node = maxchild_at c sz d s i in
      if child_node \<noteq> 0 \<and> cmppri c moving_pri (getpri c s (d ! child_node))
      then percolate_loop c sz moving_node moving_pri child_node
             (d[i := d ! child_node]) (setpos c (d ! child_node) i s)
      else (d[i := moving_node], setpos c moving_node i s))"
  by pat_completeness auto
termination
proof (relation "measure (\<lambda>(c, sz, m, p, i, d, s). sz - i)", goal_cases)
  case (2 c sz m p i d s x)
  with maxchild_at_bounds [of c sz d s i] show ?case by (auto intro: diff_less_mono2)
qed simp

declare percolate_loop.simps [simp del]

definition percolate_down ::
  "('s, 'p) ps_pqueue_t \<Rightarrow> nat \<Rightarrow> 's \<Rightarrow> ('s, 'p) ps_pqueue_t \<times> 's" where
  "percolate_down q i s =
     (let moving_node = q_d q ! i;
          (d', s') = percolate_loop (q_cbs q) (q_size q) moving_node
                       (getpri (q_cbs q) s moving_node) i (q_d q) s
      in (q\<lparr>q_d := d'\<rparr>, s'))"

text \<open>\<open>ok\<close> is the outcome of \<open>realloc\<close>, called only when the array is full.\<close>

definition ps_pqueue_insert ::
  "bool \<Rightarrow> ('s, 'p) ps_pqueue_t \<Rightarrow> ptr \<Rightarrow> 's \<Rightarrow> int \<times> ('s, 'p) ps_pqueue_t \<times> 's" where
  "ps_pqueue_insert ok q x s =
     (let full = q_size q \<ge> q_avail q; newsize = q_size q + q_step q in
      if full \<and> \<not> ok then (1, q, s)
      else
        let q1 = (if full then q\<lparr>q_d := q_d q @ replicate (newsize - length (q_d q)) 0,
                                 q_avail := newsize\<rparr> else q);
            i = q_size q1;
            q2 = q1\<lparr>q_size := q_size q1 + 1, q_d := (q_d q1)[i := x]\<rparr>;
            (q3, s') = bubble_up q2 i s
        in (0, q3, s'))"

definition ps_pqueue_change_priority ::
  "('s, 'p) ps_pqueue_t \<Rightarrow> 'p \<Rightarrow> ptr \<Rightarrow> 's \<Rightarrow> ('s, 'p) ps_pqueue_t \<times> 's" where
  "ps_pqueue_change_priority q new_pri x s =
     (let c = q_cbs q; old_pri = getpri c s x;
          s1 = setpri c x new_pri s;
          posn = getpos c s1 x
      in if cmppri c old_pri new_pri then bubble_up q posn s1 else percolate_down q posn s1)"

definition ps_pqueue_remove ::
  "('s, 'p) ps_pqueue_t \<Rightarrow> ptr \<Rightarrow> 's \<Rightarrow> int \<times> ('s, 'p) ps_pqueue_t \<times> 's" where
  "ps_pqueue_remove q x s =
     (let c = q_cbs q; posn = getpos c s x;
          sz = q_size q - 1;
          q1 = q\<lparr>q_size := sz, q_d := (q_d q)[posn := q_d q ! sz]\<rparr>;
          (q2, s') = (if cmppri c (getpri c s x) (getpri c s (q_d q1 ! posn))
                      then bubble_up q1 posn s else percolate_down q1 posn s)
      in (0, q2, s'))"

definition ps_pqueue_pop ::
  "('s, 'p) ps_pqueue_t \<Rightarrow> 's \<Rightarrow> ptr option \<times> ('s, 'p) ps_pqueue_t \<times> 's" where
  "ps_pqueue_pop q s =
     (if q_size q = 1 then (None, q, s)
      else
        let head = q_d q ! 1;
            sz = q_size q - 1;
            q1 = q\<lparr>q_size := sz, q_d := (q_d q)[1 := q_d q ! sz]\<rparr>;
            (q2, s') = percolate_down q1 1 s
        in (Some head, q2, s'))"

definition ps_pqueue_peek :: "('s, 'p) ps_pqueue_t \<Rightarrow> ptr option" where
  "ps_pqueue_peek q = (if q_size q = 1 then None else Some (q_d q ! 1))"

text \<open>
  The exported entry points that accept a \<open>NULL\<close> handle; all other operations are called on
  a handle that \<open>ps_pqueue_init\<close> returned and the caller checked.
\<close>

definition ps_pqueue_insert_handle ::
  "bool \<Rightarrow> ('s, 'p) ps_pqueue_t option \<Rightarrow> ptr \<Rightarrow> 's \<Rightarrow> int \<times> ('s, 'p) ps_pqueue_t option \<times> 's" where
  "ps_pqueue_insert_handle ok h x s =
     (case h of None \<Rightarrow> (1, None, s)
      | Some q \<Rightarrow> (case ps_pqueue_insert ok q x s of (r, q', s') \<Rightarrow> (r, Some q', s')))"

definition ps_pqueue_pop_handle ::
  "('s, 'p) ps_pqueue_t option \<Rightarrow> 's \<Rightarrow> ptr option \<times> ('s, 'p) ps_pqueue_t option \<times> 's" where
  "ps_pqueue_pop_handle h s =
     (case h of None \<Rightarrow> (None, None, s)
      | Some q \<Rightarrow> (case ps_pqueue_pop q s of (r, q', s') \<Rightarrow> (r, Some q', s')))"

text \<open>
  \<open>ps_pqueue_print\<close> pops a copy whose callbacks neither move priorities nor record
  positions; the model returns the list of elements handed to the print callback.
\<close>

definition dup_cbs :: "('s, 'p) pq_cbs \<Rightarrow> ('s, 'p) pq_cbs" where
  "dup_cbs c = c\<lparr>setpri := (\<lambda>x p s. s), setpos := (\<lambda>x i s. s)\<rparr>"

lemma percolate_down_fields [simp]:
  "q_size (fst (percolate_down q i s)) = q_size q"
  "q_cbs (fst (percolate_down q i s)) = q_cbs q"
  "q_avail (fst (percolate_down q i s)) = q_avail q"
  "q_step (fst (percolate_down q i s)) = q_step q"
  by (simp_all add: percolate_down_def Let_def split_beta)

lemma bubble_up_fields [simp]:
  "q_size (fst (bubble_up q i s)) = q_size q"
  "q_cbs (fst (bubble_up q i s)) = q_cbs q"
  "q_avail (fst (bubble_up q i s)) = q_avail q"
  "q_step (fst (bubble_up q i s)) = q_step q"
  by (simp_all add: bubble_up_def Let_def split_beta)

lemma bubble_up_size: "bubble_up q i s = (q', s') \<Longrightarrow> q_size q' = q_size q"
  using bubble_up_fields(1) by (metis fst_conv)

lemma percolate_down_size: "percolate_down q i s = (q', s') \<Longrightarrow> q_size q' = q_size q"
  using percolate_down_fields(1) by (metis fst_conv)

lemma pop_size:
  "ps_pqueue_pop q s = (Some h, q', s') \<Longrightarrow> q_size q' = q_size q - 1 \<and> q_size q \<noteq> 1"
  by (auto simp: ps_pqueue_pop_def Let_def dest: percolate_down_size split: if_splits prod.splits)

function print_loop :: "('s, 'p) ps_pqueue_t \<Rightarrow> 's \<Rightarrow> ptr list" where
  "print_loop dup s =
     (if q_size dup = 0 then []
      else case ps_pqueue_pop dup s of
             (None, _, _) \<Rightarrow> []
           | (Some e, dup', s') \<Rightarrow> e # print_loop dup' s')"
  by pat_completeness auto
termination
  by (relation "measure (\<lambda>(q, s). q_size q)") (auto dest!: pop_size dest: sym)

declare print_loop.simps [simp del]

definition ps_pqueue_print :: "('s, 'p) ps_pqueue_t \<Rightarrow> 's \<Rightarrow> ptr list" where
  "ps_pqueue_print q s = print_loop (q\<lparr>q_cbs := dup_cbs (q_cbs q)\<rparr>) s"

function subtree_is_valid :: "('s, 'p) ps_pqueue_t \<Rightarrow> 's \<Rightarrow> nat \<Rightarrow> bool" where
  "subtree_is_valid q s pos =
     (let c = q_cbs q; pri = (\<lambda>i. getpri c s (q_d q ! i)) in
      if pos = 0 then True
      else
        (if left pos < q_size q
         then \<not> cmppri c (pri pos) (pri (left pos)) \<and> subtree_is_valid q s (left pos)
         else True)
        \<and> (if right pos < q_size q
           then \<not> cmppri c (pri pos) (pri (right pos)) \<and> subtree_is_valid q s (right pos)
           else True))"
  by pat_completeness auto
termination
  by (relation "measure (\<lambda>(q, s, pos). q_size q - pos)") (auto simp: left_def right_def)

declare subtree_is_valid.simps [simp del]

definition ps_pqueue_is_valid :: "('s, 'p) ps_pqueue_t \<Rightarrow> 's \<Rightarrow> bool" where
  "ps_pqueue_is_valid q s = subtree_is_valid q s 1"

end
