(* ===== verification/Pqueue_Heap.thy ===== *)
theory Pqueue_Heap
  imports Pqueue
begin

text \<open>
  Correctness of the binary heap: the heap order and its two weakened forms (violated only
  above or only below one index), the agreement of recorded positions with array indices,
  and the multiset of queued elements. The lemmas of the two locales carry the properties
  stated at the end of the theory and those of the event scheduler.
\<close>

section \<open>Heap order on an array\<close>

definition heap_ok :: "(ptr \<Rightarrow> 'p::linorder) \<Rightarrow> ptr list \<Rightarrow> nat \<Rightarrow> bool" where
  "heap_ok P d sz \<longleftrightarrow> (\<forall>j. 2 \<le> j \<and> j < sz \<longrightarrow> P (d ! (j div 2)) \<le> P (d ! j))"

definition heap_gap :: "(ptr \<Rightarrow> 'p::linorder) \<Rightarrow> ptr list \<Rightarrow> nat \<Rightarrow> nat \<Rightarrow> bool" where
  "heap_gap P d sz i \<longleftrightarrow>
     (\<forall>j. 2 \<le> j \<and> j < sz \<and> j div 2 = i \<and> 2 \<le> i \<longrightarrow> P (d ! (i div 2)) \<le> P (d ! j))"

definition heap_up :: "(ptr \<Rightarrow> 'p::linorder) \<Rightarrow> ptr list \<Rightarrow> nat \<Rightarrow> nat \<Rightarrow> bool" where
  "heap_up P d sz i \<longleftrightarrow> heap_gap P d sz i \<and>
     (\<forall>j. 2 \<le> j \<and> j < sz \<and> j \<noteq> i \<longrightarrow> P (d ! (j div 2)) \<le> P (d ! j))"

definition heap_down :: "(ptr \<Rightarrow> 'p::linorder) \<Rightarrow> ptr list \<Rightarrow> nat \<Rightarrow> nat \<Rightarrow> bool" where
  "heap_down P d sz i \<longleftrightarrow> heap_gap P d sz i \<and>
     (\<forall>j. 2 \<le> j \<and> j < sz \<and> j div 2 \<noteq> i \<longrightarrow> P (d ! (j div 2)) \<le> P (d ! j))"

definition pos_ok :: "(ptr \<Rightarrow> nat) \<Rightarrow> ptr list \<Rightarrow> nat \<Rightarrow> bool" where
  "pos_ok G d sz \<longleftrightarrow> (\<forall>j. 1 \<le> j \<and> j < sz \<longrightarrow> G (d ! j) = j)"

lemma heap_root_least:
  assumes "heap_ok P d sz" "1 \<le> j" "j < sz"
  shows "P (d ! 1) \<le> P (d ! j)"
  using assms(2,3)
proof (induction j rule: less_induct)
  case (less j)
  show ?case
  proof (cases "j = 1")
    case False
    with less.prems have "1 \<le> j div 2" "j div 2 < j" "j div 2 < sz" by auto
    with less.IH have "P (d ! 1) \<le> P (d ! (j div 2))" by blast
    also have "\<dots> \<le> P (d ! j)" using assms(1) less.prems False by (auto simp: heap_ok_def)
    finally show ?thesis .
  qed simp
qed

lemma heap_up_stop:
  assumes "heap_up P d sz i" "i \<le> 1 \<or> P (d ! (i div 2)) \<le> P (d ! i)"
  shows "heap_ok P d sz"
  using assms by (auto simp: heap_up_def heap_ok_def)

lemma heap_up_step:
  assumes up: "heap_up P d sz i" and i: "2 \<le> i" "i < sz" "sz \<le> length d"
    and le: "P (d ! i) \<le> P (d ! (i div 2))"
  shows "heap_up P (d[i := d ! (i div 2), i div 2 := d ! i]) sz (i div 2)"
proof -
  let ?p = "i div 2" and ?v = "d[i := d ! (i div 2), i div 2 := d ! i]"
  have bnd: "?p < i" "1 \<le> ?p" "?p < length d" "i < length d" using i by auto
  have nth: "?v ! j = (if j = ?p then d ! i else if j = i then d ! ?p else d ! j)" for j
    using bnd by simp
  have ord: "P (d ! (j div 2)) \<le> P (d ! j)" if "2 \<le> j" "j < sz" "j \<noteq> i" for j
    using up that by (auto simp: heap_up_def)
  have gap: "P (d ! ?p) \<le> P (d ! j)" if "2 \<le> j" "j < sz" "j div 2 = i" for j
    using up that i by (auto simp: heap_up_def heap_gap_def)
  have 1: "P (?v ! (j div 2)) \<le> P (?v ! j)" if j: "2 \<le> j" "j < sz" "j \<noteq> ?p" for j
  proof (cases "j = i")
    case True with le bnd show ?thesis by (simp add: nth)
  next
    case False
    consider "j div 2 = i" | "j div 2 = ?p" | "j div 2 \<noteq> i" "j div 2 \<noteq> ?p" by blast
    then show ?thesis
    proof cases
      case 1
      moreover have "i \<noteq> ?p" using bnd by linarith
      ultimately show ?thesis using gap [of j] j False by (simp add: nth)
    next
      case 2 with ord [OF j(1,2) False] le j False bnd show ?thesis by (simp add: nth)
    next
      case 3 with ord [OF j(1,2) False] j False show ?thesis by (simp add: nth)
    qed
  qed
  have 2: "P (?v ! (?p div 2)) \<le> P (?v ! j)" if j: "2 \<le> j" "j < sz" "j div 2 = ?p" "2 \<le> ?p" for j
  proof -
    have "P (d ! (?p div 2)) \<le> P (d ! ?p)" using ord [of ?p] j bnd i by simp
    moreover have "P (d ! ?p) \<le> P (d ! j)" if "j \<noteq> i" using ord [of j] j that by simp
    ultimately show ?thesis using j bnd by (auto simp: nth)
  qed
  show ?thesis unfolding heap_up_def heap_gap_def using 1 2 by blast
qed

lemma heap_down_stop:
  assumes "heap_down P d sz i"
    and "\<And>j. 2 \<le> j \<Longrightarrow> j < sz \<Longrightarrow> j div 2 = i \<Longrightarrow> P (d ! i) \<le> P (d ! j)"
  shows "heap_ok P d sz"
  using assms by (auto simp: heap_down_def heap_ok_def)

lemma heap_down_step:
  assumes dn: "heap_down P d sz i" and i: "1 \<le> i" and k: "k < sz" "sz \<le> length d" "k div 2 = i"
    and best: "\<And>j. 2 \<le> j \<Longrightarrow> j < sz \<Longrightarrow> j div 2 = i \<Longrightarrow> P (d ! k) \<le> P (d ! j)"
    and le: "P (d ! k) \<le> P (d ! i)"
  shows "heap_down P (d[i := d ! k, k := d ! i]) sz k"
proof -
  let ?v = "d[i := d ! k, k := d ! i]"
  have bnd: "i < k" "2 \<le> k" "i < length d" "k < length d" using i k by auto
  have nth: "?v ! j = (if j = k then d ! i else if j = i then d ! k else d ! j)" for j
    using bnd by simp
  have ord: "P (d ! (j div 2)) \<le> P (d ! j)" if "2 \<le> j" "j < sz" "j div 2 \<noteq> i" for j
    using dn that by (auto simp: heap_down_def)
  have gap: "P (d ! (i div 2)) \<le> P (d ! j)" if "2 \<le> j" "j < sz" "j div 2 = i" "2 \<le> i" for j
    using dn that by (auto simp: heap_down_def heap_gap_def)
  have 1: "P (?v ! (j div 2)) \<le> P (?v ! j)" if j: "2 \<le> j" "j < sz" "j div 2 \<noteq> k" for j
  proof -
    consider "j = k" | "j = i" | "j \<noteq> k" "j \<noteq> i" "j div 2 = i" | "j \<noteq> k" "j \<noteq> i" "j div 2 \<noteq> i"
      by blast
    then show ?thesis
    proof cases
      case 1 with le bnd k show ?thesis by (simp add: nth)
    next
      case 2
      with gap [of k] bnd k j show ?thesis by (simp add: nth)
    next
      case 3 with best [of j] j show ?thesis by (simp add: nth)
    next
      case 4 with ord [of j] j show ?thesis by (simp add: nth)
    qed
  qed
  have 2: "P (?v ! (k div 2)) \<le> P (?v ! j)" if j: "2 \<le> j" "j < sz" "j div 2 = k" for j
    using ord [of j] j k bnd by (auto simp: nth)
  show ?thesis unfolding heap_down_def heap_gap_def using 1 2 by blast
qed

section \<open>Queue invariants\<close>

definition pq_mset :: "('s, 'p) ps_pqueue_t \<Rightarrow> ptr multiset" where
  "pq_mset q = mset (tl (take (q_size q) (q_d q)))"

definition pq_shape :: "('s, 'p) ps_pqueue_t \<Rightarrow> bool" where
  "pq_shape q \<longleftrightarrow> 1 \<le> q_size q \<and> q_size q \<le> q_avail q \<and> q_avail q = length (q_d q) \<and> 1 \<le> q_step q"

definition pq_wf :: "('s, 'p::linorder) pq_cbs \<Rightarrow> ('s, 'p) ps_pqueue_t \<Rightarrow> 's \<Rightarrow> bool" where
  "pq_wf c q s \<longleftrightarrow> q_cbs q = c \<and> pq_shape q \<and> heap_ok (getpri c s) (q_d q) (q_size q)"

definition pq_inv :: "('s, 'p::linorder) pq_cbs \<Rightarrow> ('s, 'p) ps_pqueue_t \<Rightarrow> 's \<Rightarrow> bool" where
  "pq_inv c q s \<longleftrightarrow> pq_wf c q s \<and> pos_ok (getpos c s) (q_d q) (q_size q)"

lemma pq_mset_take:
  assumes "1 \<le> q_size q" "q_size q \<le> length (q_d q)"
  shows "mset (take (q_size q) (q_d q)) = add_mset (q_d q ! 0) (pq_mset q)"
proof -
  obtain x xs where "take (q_size q) (q_d q) = x # xs" using assms by (cases "take (q_size q) (q_d q)") auto
  moreover from this have "x = q_d q ! 0" using assms
    by (metis One_nat_def Suc_le_lessD nth_Cons_0 nth_take)
  ultimately show ?thesis by (simp add: pq_mset_def)
qed

lemma pq_mset_eqI:
  assumes "1 \<le> q_size q" "q_size q \<le> length (q_d q)" "q_size q' = q_size q"
    "length (q_d q') = length (q_d q)" "q_d q' ! 0 = q_d q ! 0"
    "mset (take (q_size q) (q_d q')) = mset (take (q_size q) (q_d q))"
  shows "pq_mset q' = pq_mset q"
  using pq_mset_take [of q] pq_mset_take [of q'] assms by simp

lemma in_pq_mset:
  assumes "1 \<le> q_size q" "q_size q \<le> length (q_d q)"
  shows "x \<in># pq_mset q \<longleftrightarrow> (\<exists>j. 1 \<le> j \<and> j < q_size q \<and> q_d q ! j = x)"
proof -
  have "x \<in># pq_mset q \<longleftrightarrow> (\<exists>j < q_size q - 1. q_d q ! Suc j = x)"
    using assms by (auto simp: pq_mset_def in_set_conv_nth nth_tl)
  also have "\<dots> \<longleftrightarrow> (\<exists>j. 1 \<le> j \<and> j < q_size q \<and> q_d q ! j = x)"
  proof
    assume "\<exists>j < q_size q - 1. q_d q ! Suc j = x"
    then show "\<exists>j. 1 \<le> j \<and> j < q_size q \<and> q_d q ! j = x" by force
  next
    assume "\<exists>j. 1 \<le> j \<and> j < q_size q \<and> q_d q ! j = x"
    then obtain j where "1 \<le> j" "j < q_size q" "q_d q ! j = x" by blast
    then have "j - 1 < q_size q - 1" "q_d q ! Suc (j - 1) = x" by auto
    then show "\<exists>j < q_size q - 1. q_d q ! Suc j = x" by blast
  qed
  finally show ?thesis .
qed

lemma heap_ok_cong:
  assumes "\<And>j. 1 \<le> j \<Longrightarrow> j < sz \<Longrightarrow> d ! j = d' ! j" "sz \<le> sz'" "heap_ok P d sz'"
  shows "heap_ok P d' sz"
  unfolding heap_ok_def
proof (intro allI impI)
  fix j assume "2 \<le> j \<and> j < sz"
  moreover from this have "1 \<le> j div 2" "j div 2 < sz" by auto
  ultimately show "P (d' ! (j div 2)) \<le> P (d' ! j)"
    using assms(2,3) assms(1) [of j] assms(1) [of "j div 2"] by (auto simp: heap_ok_def)
qed

lemma heap_up_append:
  assumes "heap_ok P d sz" "\<And>j. j < sz \<Longrightarrow> d' ! j = d ! j"
  shows "heap_up P d' (Suc sz) sz"
  using assms by (auto simp: heap_up_def heap_gap_def heap_ok_def less_Suc_eq)

text \<open>Overwriting one cell with an element that is early enough, or late enough.\<close>

lemma heap_up_replace:
  assumes h: "heap_ok P d sz" and p: "1 \<le> p" "p < sz" "sz \<le> length d" and le: "P y \<le> P (d ! p)"
  shows "heap_up P (d[p := y]) sz p"
proof -
  have ord: "P (d ! (j div 2)) \<le> P (d ! j)" if "2 \<le> j" "j < sz" for j
    using h that by (simp add: heap_ok_def)
  have "P (d[p := y] ! (j div 2)) \<le> P (d[p := y] ! j)" if "2 \<le> j" "j < sz" "j \<noteq> p" for j
    using ord [of j] that p le by (cases "j div 2 = p") auto
  moreover have "P (d[p := y] ! (p div 2)) \<le> P (d[p := y] ! j)"
    if "2 \<le> j" "j < sz" "j div 2 = p" "2 \<le> p" for j
    using ord [of j] ord [of p] that p by auto
  ultimately show ?thesis unfolding heap_up_def heap_gap_def by blast
qed

lemma heap_down_replace:
  assumes h: "heap_ok P d sz" and p: "1 \<le> p" "p < sz" "sz \<le> length d"
    and le: "2 \<le> p \<Longrightarrow> P (d ! (p div 2)) \<le> P y"
  shows "heap_down P (d[p := y]) sz p"
proof -
  have ord: "P (d ! (j div 2)) \<le> P (d ! j)" if "2 \<le> j" "j < sz" for j
    using h that by (simp add: heap_ok_def)
  have "P (d[p := y] ! (j div 2)) \<le> P (d[p := y] ! j)" if "2 \<le> j" "j < sz" "j div 2 \<noteq> p" for j
    using ord [of j] that p le by (cases "j = p") auto
  moreover have "P (d[p := y] ! (p div 2)) \<le> P (d[p := y] ! j)"
    if "2 \<le> j" "j < sz" "j div 2 = p" "2 \<le> p" for j
    using ord [of j] ord [of p] that p by auto
  ultimately show ?thesis unfolding heap_down_def heap_gap_def by blast
qed

lemma pq_mset_append:
  assumes "pq_shape q" "q_size q < length (q_d q)"
  shows "pq_mset (q\<lparr>q_size := q_size q + 1, q_d := (q_d q)[q_size q := x]\<rparr>) = add_mset x (pq_mset q)"
proof -
  have "take (q_size q) (q_d q) \<noteq> []" using assms by (auto simp: pq_shape_def)
  with assms show ?thesis by (simp add: pq_mset_def take_Suc_conv_app_nth)
qed

lemma pq_mset_drop_last:
  assumes "pq_shape q" "1 \<le> p" "p < q_size q"
  shows "add_mset (q_d q ! p)
           (pq_mset (q\<lparr>q_size := q_size q - 1, q_d := (q_d q)[p := q_d q ! (q_size q - 1)]\<rparr>))
         = pq_mset q"
proof -
  let ?sz = "q_size q - 1" and ?d = "q_d q"
  let ?q = "q\<lparr>q_size := ?sz, q_d := ?d[p := ?d ! ?sz]\<rparr>"
  have b: "1 \<le> ?sz" "?sz < length ?d" "q_size q = Suc ?sz" using assms by (auto simp: pq_shape_def)
  have t: "take (q_size q) ?d = take ?sz ?d @ [?d ! ?sz]"
    using b by (metis take_Suc_conv_app_nth)
  have "mset (take ?sz (?d[p := ?d ! ?sz])) + {#?d ! p#} = mset (take (q_size q) ?d)"
  proof (cases "p < ?sz")
    case True
    moreover from this b have "?d ! p \<in> set (take ?sz ?d)"
      by (metis in_set_conv_nth length_take min.absorb4 nth_take)
    ultimately show ?thesis using b by (simp add: t take_update_swap mset_update)
  next
    case False
    with assms have "p = ?sz" by simp
    then show ?thesis by (simp add: t)
  qed
  moreover have "mset (take ?sz (?d[p := ?d ! ?sz])) = add_mset (?d ! 0) (pq_mset ?q)"
    using pq_mset_take [of ?q] b assms(2) by simp
  moreover have "mset (take (q_size q) ?d) = add_mset (?d ! 0) (pq_mset q)"
    using pq_mset_take [of q] b by simp
  ultimately show ?thesis by simp
qed

section \<open>Frame facts of the two loops\<close>

lemma bubble_up_loop_frame:
  "(\<And>x j s. f (setpos c x j s) = f s) \<Longrightarrow> f (snd (bubble_up_loop c m p i d s)) = f s"
  by (induction c m p i d s rule: bubble_up_loop.induct)
    (subst bubble_up_loop.simps, auto simp: Let_def)

lemma percolate_loop_frame:
  "(\<And>x j s. f (setpos c x j s) = f s) \<Longrightarrow> f (snd (percolate_loop c sz m p i d s)) = f s"
  by (induction c sz m p i d s rule: percolate_loop.induct)
    (subst percolate_loop.simps, auto simp: Let_def)

lemma bubble_up_frame:
  "(\<And>x j s. f (setpos (q_cbs q) x j s) = f s) \<Longrightarrow> f (snd (bubble_up q i s)) = f s"
  by (simp add: bubble_up_def Let_def split_beta bubble_up_loop_frame)

lemma percolate_down_frame:
  "(\<And>x j s. f (setpos (q_cbs q) x j s) = f s) \<Longrightarrow> f (snd (percolate_down q i s)) = f s"
  by (simp add: percolate_down_def Let_def split_beta percolate_loop_frame)

text \<open>
  The same for an observation that ignores \<open>setpos\<close> on a set \<open>A\<close> of elements only: it survives
  when every cell an operation can touch holds an element of \<open>A\<close>.
\<close>

lemma bubble_up_loop_frame_in:
  assumes "\<And>x j s. x \<in> A \<Longrightarrow> f (setpos c x j s) = f s" "m \<in> A"
    "\<And>j. 1 \<le> j \<Longrightarrow> j < i \<Longrightarrow> d ! j \<in> A"
  shows "f (snd (bubble_up_loop c m p i d s)) = f s"
  using assms(3)
proof (induction i arbitrary: d s rule: less_induct)
  case (less i)
  show ?case
  proof (cases "i > 1 \<and> cmppri c (getpri c s (d ! parent i)) p")
    case True
    then have b: "parent i < i" "1 \<le> parent i" by (auto simp: parent_def)
    with less.prems have "d[i := d ! parent i] ! j \<in> A" if "1 \<le> j" "j < parent i" for j
      using that by simp
    with True b less show ?thesis
      by (subst bubble_up_loop.simps) (simp add: Let_def assms(1))
  next
    case False
    with assms(1,2) show ?thesis by (subst bubble_up_loop.simps) (auto simp: Let_def)
  qed
qed

lemma percolate_loop_frame_in:
  assumes "\<And>x j s. x \<in> A \<Longrightarrow> f (setpos c x j s) = f s" "m \<in> A"
    "\<And>j. i < j \<Longrightarrow> j < sz \<Longrightarrow> d ! j \<in> A"
  shows "f (snd (percolate_loop c sz m p i d s)) = f s"
  using assms(3)
proof (induction "sz - i" arbitrary: i d s rule: less_induct)
  case less
  let ?k = "maxchild_at c sz d s i"
  show ?case
  proof (cases "?k \<noteq> 0 \<and> cmppri c p (getpri c s (d ! ?k))")
    case True
    then have b: "i < ?k" "?k < sz" using maxchild_at_bounds [of c sz d s i] by auto
    with less.prems have "d[i := d ! ?k] ! j \<in> A" if "?k < j" "j < sz" for j
      using that by simp
    with True b less.prems less.hyps [of ?k] show ?thesis
      by (subst percolate_loop.simps) (simp add: Let_def assms(1))
  next
    case False
    with assms(1,2) show ?thesis by (subst percolate_loop.simps) (auto simp: Let_def)
  qed
qed

lemma cell_in_pq_mset:
  "pq_shape q \<Longrightarrow> 1 \<le> j \<Longrightarrow> j < q_size q \<Longrightarrow> q_d q ! j \<in># pq_mset q"
  using in_pq_mset [of q] by (auto simp: pq_shape_def)

text \<open>The invariant depends only on what the callbacks say about the queued elements.\<close>

lemma pq_inv_frame:
  assumes "pq_inv c q s" "\<And>x. x \<in># pq_mset q \<Longrightarrow> getpri c s' x = getpri c s x \<and> getpos c s' x = getpos c s x"
  shows "pq_inv c q s'"
proof -
  have sh: "pq_shape q" "q_cbs q = c"
    and inv: "heap_ok (getpri c s) (q_d q) (q_size q)" "pos_ok (getpos c s) (q_d q) (q_size q)"
    using assms(1) by (auto simp: pq_inv_def pq_wf_def)
  have eq: "getpri c s' (q_d q ! j) = getpri c s (q_d q ! j)" "getpos c s' (q_d q ! j) = getpos c s (q_d q ! j)"
    if "1 \<le> j" "j < q_size q" for j
    using assms(2) [OF cell_in_pq_mset [OF sh(1) that]] by auto
  have "heap_ok (getpri c s') (q_d q) (q_size q)"
    unfolding heap_ok_def
  proof (intro allI impI)
    fix j assume j: "2 \<le> j \<and> j < q_size q"
    then have "1 \<le> j div 2" "j div 2 < q_size q" by auto
    with j inv(1) show "getpri c s' (q_d q ! (j div 2)) \<le> getpri c s' (q_d q ! j)"
      by (simp add: eq heap_ok_def)
  qed
  moreover have "pos_ok (getpos c s') (q_d q) (q_size q)"
    using inv(2) eq by (auto simp: pos_ok_def)
  ultimately show ?thesis using sh by (simp add: pq_inv_def pq_wf_def)
qed

lemma pq_inv_init:
  "ps_pqueue_init a b n c = Some q \<Longrightarrow> pq_inv c q s \<and> pq_mset q = {#} \<and> q_size q = 1 \<and> q_avail q = n + 1"
  by (auto simp: ps_pqueue_init_def pq_inv_def pq_wf_def pq_shape_def heap_ok_def pos_ok_def pq_mset_def
      split: if_splits)

lemma bubble_up_frame_in:
  assumes "pq_shape q" "1 \<le> i" "i < q_size q"
    "\<And>x j s. x \<in># pq_mset q \<Longrightarrow> f (setpos (q_cbs q) x j s) = f s"
  shows "f (snd (bubble_up q i s)) = f s"
  using assms bubble_up_loop_frame_in [of "set_mset (pq_mset q)" f "q_cbs q" "q_d q ! i" i "q_d q"]
  by (simp add: bubble_up_def Let_def split_beta cell_in_pq_mset)

lemma percolate_down_frame_in:
  assumes "pq_shape q" "1 \<le> i" "i < q_size q"
    "\<And>x j s. x \<in># pq_mset q \<Longrightarrow> f (setpos (q_cbs q) x j s) = f s"
  shows "f (snd (percolate_down q i s)) = f s"
  using assms percolate_loop_frame_in [of "set_mset (pq_mset q)" f "q_cbs q" "q_d q ! i" i "q_size q" "q_d q"]
  by (simp add: percolate_down_def Let_def split_beta cell_in_pq_mset)

lemma take_swap:
  assumes "i < sz" "k < sz" "sz \<le> length d"
  shows "mset (take sz (d[i := d ! k, k := m])) = mset (take sz (d[i := m]))"
proof -
  let ?v = "take sz (d[i := m])"
  have "take sz (d[i := d ! k, k := m]) = ?v[i := ?v ! k, k := ?v ! i]"
    using assms by (cases "i = k") (auto simp: take_update_swap list_update_swap)
  moreover have "mset (?v[i := ?v ! k, k := ?v ! i]) = mset ?v"
    by (rule mset_list_swap) (use assms in auto)
  ultimately show ?thesis by (simp only:)
qed

lemma nth_zero_update: "0 < i \<Longrightarrow> d[i := x] ! 0 = d ! 0"
  by simp

lemma bubble_up_loop_mset:
  assumes "1 \<le> i" "i < sz" "sz \<le> length d"
  shows "mset (take sz (fst (bubble_up_loop c m p i d s))) = mset (take sz (d[i := m]))
    \<and> length (fst (bubble_up_loop c m p i d s)) = length d
    \<and> fst (bubble_up_loop c m p i d s) ! 0 = d ! 0"
  using assms
proof (induction c m p i d s rule: bubble_up_loop.induct)
  case (1 c m p i d s)
  show ?case
  proof (cases "i > 1 \<and> cmppri c (getpri c s (d ! parent i)) p")
    case True
    then have "1 \<le> parent i" "parent i < sz" using "1.prems" by (auto simp: parent_def)
    with True "1.IH" [OF refl True] "1.prems" take_swap [of i sz "parent i" d m]
    show ?thesis by (subst (1 2 3) bubble_up_loop.simps) (simp add: Let_def)
  next
    case False
    with "1.prems" show ?thesis by (subst (1 2 3) bubble_up_loop.simps) (auto simp: Let_def)
  qed
qed

lemma percolate_loop_mset:
  assumes "1 \<le> i" "i < sz" "sz \<le> length d"
  shows "mset (take sz (fst (percolate_loop c sz m p i d s))) = mset (take sz (d[i := m]))
    \<and> length (fst (percolate_loop c sz m p i d s)) = length d
    \<and> fst (percolate_loop c sz m p i d s) ! 0 = d ! 0"
  using assms
proof (induction c sz m p i d s rule: percolate_loop.induct)
  case (1 c sz m p i d s)
  let ?k = "maxchild_at c sz d s i"
  show ?case
  proof (cases "?k \<noteq> 0 \<and> cmppri c p (getpri c s (d ! ?k))")
    case True
    then have "1 \<le> ?k" "?k < sz" using maxchild_at_bounds [of c sz d s i] by auto
    with True "1.IH" [OF refl True] "1.prems" take_swap [of i sz ?k d m]
    show ?thesis by (subst (1 2 3) percolate_loop.simps) (simp add: Let_def)
  next
    case False
    with "1.prems" show ?thesis by (subst (1 2 3) percolate_loop.simps) (auto simp: Let_def)
  qed
qed

lemma insert_bubble:
  assumes sh: "pq_shape q" and ok: "ok \<or> q_size q < q_avail q"
  obtains q2 where "pq_shape q2" "q_cbs q2 = q_cbs q" "q_size q2 = q_size q + 1"
    "pq_mset q2 = add_mset x (pq_mset q)" "\<And>j. j < q_size q \<Longrightarrow> q_d q2 ! j = q_d q ! j"
    "ps_pqueue_insert ok q x s = (0, bubble_up q2 (q_size q) s)" "q_d q2 ! q_size q = x"
proof -
  let ?full = "q_size q \<ge> q_avail q" and ?new = "q_size q + q_step q"
  let ?q1 = "if ?full then q\<lparr>q_d := q_d q @ replicate (?new - length (q_d q)) 0, q_avail := ?new\<rparr> else q"
  let ?q2 = "?q1\<lparr>q_size := q_size q + 1, q_d := (q_d ?q1)[q_size q := x]\<rparr>"
  have q1: "pq_shape ?q1" "q_size ?q1 = q_size q" "q_cbs ?q1 = q_cbs q" "q_size q < length (q_d ?q1)"
    "pq_mset ?q1 = pq_mset q"
    using sh by (auto simp: pq_shape_def pq_mset_def)
  have "ps_pqueue_insert ok q x s = (0, bubble_up ?q2 (q_size q) s)"
    using ok q1(2) by (auto simp: ps_pqueue_insert_def Let_def split_beta)
  moreover have "q_d ?q2 ! j = q_d q ! j" if "j < q_size q" for j
    using that sh by (auto simp: pq_shape_def nth_append)
  moreover have "pq_shape ?q2" "q_d ?q2 ! q_size q = x" using q1 by (auto simp: pq_shape_def)
  moreover have "pq_mset ?q2 = add_mset x (pq_mset q)" using pq_mset_append [OF q1(1), of x] q1 by simp
  ultimately show thesis using that [of ?q2] q1 by simp
qed

lemma insert_frame_in:
  assumes "pq_shape q" "\<And>y j s. y = x \<or> y \<in># pq_mset q \<Longrightarrow> f (setpos (q_cbs q) y j s) = f s"
  shows "f (snd (snd (ps_pqueue_insert ok q x s))) = f s"
proof (cases "ok \<or> q_size q < q_avail q")
  case True
  with assms(1) obtain q2 where "pq_shape q2" "q_cbs q2 = q_cbs q" "q_size q2 = q_size q + 1"
    "pq_mset q2 = add_mset x (pq_mset q)" "ps_pqueue_insert ok q x s = (0, bubble_up q2 (q_size q) s)"
    by (rule insert_bubble [where x = x and s = s]) blast
  with assms bubble_up_frame_in [of q2 "q_size q" f s] show ?thesis
    by (simp add: pq_shape_def)
qed (auto simp: ps_pqueue_insert_def)

lemma remove_frame_in:
  assumes "pq_shape q" "1 \<le> getpos (q_cbs q) s x" "getpos (q_cbs q) s x < q_size q"
    "\<And>y j s. y \<in># pq_mset q \<Longrightarrow> f (setpos (q_cbs q) y j s) = f s"
  shows "f (snd (snd (ps_pqueue_remove q x s))) = f s"
proof -
  let ?p = "getpos (q_cbs q) s x" and ?sz = "q_size q - 1" and ?A = "set_mset (pq_mset q)"
  let ?d = "(q_d q)[?p := q_d q ! ?sz]"
  have b: "?sz < q_size q" "1 \<le> ?sz" "?p < length (q_d q)" using assms(1-3) by (auto simp: pq_shape_def)
  have m: "q_d q ! ?sz \<in> ?A" using assms(1) b by (intro cell_in_pq_mset) auto
  have in_A: "?d ! j \<in> ?A" if "1 \<le> j" "j < q_size q" for j
    using cell_in_pq_mset [OF assms(1) that] m b by (cases "j = ?p") (auto simp only: nth_list_update_eq nth_list_update_neq)
  have "f (snd (bubble_up_loop (q_cbs q) (q_d q ! ?sz) pr ?p ?d s)) = f s" for pr
    by (rule bubble_up_loop_frame_in [where A = ?A, OF assms(4) m in_A])
      (use assms(3) in simp_all)
  moreover have "f (snd (percolate_loop (q_cbs q) ?sz (q_d q ! ?sz) pr ?p ?d s)) = f s" for pr
    by (rule percolate_loop_frame_in [where A = ?A, OF assms(4) m in_A])
      (use assms(2) b in simp_all)
  ultimately show ?thesis
    using b by (simp add: ps_pqueue_remove_def bubble_up_def percolate_down_def Let_def split_beta)
qed

lemma pop_frame_in:
  assumes "pq_shape q" "\<And>y j s. y \<in># pq_mset q \<Longrightarrow> f (setpos (q_cbs q) y j s) = f s"
  shows "f (snd (snd (ps_pqueue_pop q s))) = f s"
proof (cases "q_size q = 1")
  case False
  let ?sz = "q_size q - 1" and ?A = "set_mset (pq_mset q)"
  let ?d = "(q_d q)[1 := q_d q ! ?sz]"
  have b: "1 \<le> ?sz" "?sz < q_size q" "1 < length (q_d q)" using False assms(1) by (auto simp: pq_shape_def)
  have m: "q_d q ! ?sz \<in> ?A" using assms(1) b by (intro cell_in_pq_mset) auto
  have in_A: "?d ! j \<in> ?A" if "1 \<le> j" "j < q_size q" for j
    using cell_in_pq_mset [OF assms(1) that] m b by (cases "j = 1") (auto simp only: nth_list_update_eq nth_list_update_neq)
  have "f (snd (percolate_loop (q_cbs q) ?sz (q_d q ! ?sz) pr 1 ?d s)) = f s" for pr
    by (rule percolate_loop_frame_in [where A = ?A, OF assms(2) m in_A])
      (use b in simp_all)
  then show ?thesis
    using b False by (simp add: ps_pqueue_pop_def percolate_down_def Let_def split_beta)
qed (simp add: ps_pqueue_pop_def)

section \<open>The heap under an ordering callback table\<close>

locale pq_order =
  fixes c :: "('s, 'p::linorder) pq_cbs"
  assumes cmppri_ge: "cmppri c a b \<longleftrightarrow> b \<le> a"
    and getpri_setpos: "getpri c (setpos c x i s) y = getpri c s y"
begin

lemma getpri_setpos_fun: "getpri c (setpos c x i s) = getpri c s"
  by (rule ext) (rule getpri_setpos)

lemma bubble_up_loop_heap:
  assumes "1 \<le> i" "i < sz" "sz \<le> length d"
    and "heap_up (getpri c s) (d[i := m]) sz i"
  shows "heap_ok (getpri c s) (fst (bubble_up_loop c m (getpri c s m) i d s)) sz"
  using assms
proof (induction i arbitrary: d s rule: less_induct)
  case (less i)
  let ?P = "getpri c s" and ?p = "i div 2" and ?v = "d[i := m]"
  show ?case
  proof (cases "i > 1 \<and> cmppri c (?P (d ! ?p)) (?P m)")
    case True
    let ?d' = "d[i := d ! ?p]" and ?s' = "setpos c (d ! ?p) i s"
    have P': "getpri c ?s' = ?P" by (rule getpri_setpos_fun)
    have b: "?p < i" "1 \<le> ?p" "?p < sz" "i \<noteq> ?p" using True less.prems by auto
    have "heap_up ?P (?v[i := ?v ! ?p, ?p := ?v ! i]) sz ?p"
      using True b less.prems by (intro heap_up_step) (auto simp: cmppri_ge)
    moreover have "?v[i := ?v ! ?p, ?p := ?v ! i] = ?d'[?p := m]" using b less.prems by simp
    ultimately have "heap_up (getpri c ?s') (?d'[?p := m]) sz ?p" by (simp add: P')
    then have "heap_ok (getpri c ?s') (fst (bubble_up_loop c m (getpri c ?s' m) ?p ?d' ?s')) sz"
      using b less.prems by (intro less.IH) auto
    with True show ?thesis
      by (subst bubble_up_loop.simps) (simp add: P' parent_def Let_def)
  next
    case False
    then have "i \<le> 1 \<or> ?P (?v ! ?p) \<le> ?P (?v ! i)"
      using less.prems by (auto simp: cmppri_ge nth_list_update_if)
    with less.prems have "heap_ok ?P ?v sz" by (auto intro: heap_up_stop)
    with False show ?thesis by (subst bubble_up_loop.simps) (auto simp: parent_def Let_def)
  qed
qed

lemma maxchild_least:
  assumes "maxchild_at c sz d s i \<noteq> 0" "2 \<le> j" "j < sz" "j div 2 = i"
  shows "getpri c s (d ! maxchild_at c sz d s i) \<le> getpri c s (d ! j)"
proof -
  have "j = 2 * i \<or> j = 2 * i + 1" using assms(4) by auto
  with assms show ?thesis
    by (auto simp: maxchild_at_def left_def Let_def cmppri_ge split: if_splits)
qed

lemma maxchild_parent:
  assumes "maxchild_at c sz d s i \<noteq> 0"
  shows "maxchild_at c sz d s i div 2 = i"
  using assms by (auto simp: maxchild_at_def left_def Let_def split: if_splits)

lemma maxchild_none:
  assumes "maxchild_at c sz d s i = 0" "1 \<le> i" "j < sz"
  shows "j div 2 \<noteq> i"
  using assms by (auto simp: maxchild_at_def left_def Let_def split: if_splits)

lemma percolate_loop_heap:
  assumes "1 \<le> i" "i < sz" "sz \<le> length d"
    and "heap_down (getpri c s) (d[i := m]) sz i"
  shows "heap_ok (getpri c s) (fst (percolate_loop c sz m (getpri c s m) i d s)) sz"
  using assms
proof (induction "sz - i" arbitrary: i d s rule: less_induct)
  case less
  let ?P = "getpri c s" and ?k = "maxchild_at c sz d s i" and ?v = "d[i := m]"
  show ?case
  proof (cases "?k \<noteq> 0 \<and> cmppri c (?P m) (?P (d ! ?k))")
    case True
    let ?d' = "d[i := d ! ?k]" and ?s' = "setpos c (d ! ?k) i s"
    have P': "getpri c ?s' = ?P" by (rule getpri_setpos_fun)
    have b: "i < ?k" "?k < sz" "?k div 2 = i" "i \<noteq> ?k"
      using True maxchild_at_bounds [of c sz d s i] maxchild_parent by auto
    have best: "?P (?v ! ?k) \<le> ?P (?v ! j)" if "2 \<le> j" "j < sz" "j div 2 = i" for j
    proof -
      have "j \<noteq> i" using that less.prems by auto
      with maxchild_least [of sz d s i j] that True b show ?thesis by simp
    qed
    have "heap_down ?P (?v[i := ?v ! ?k, ?k := ?v ! i]) sz ?k"
      using True b less.prems best by (intro heap_down_step) (auto simp: cmppri_ge)
    moreover have "?v[i := ?v ! ?k, ?k := ?v ! i] = ?d'[?k := m]" using b less.prems by simp
    ultimately have "heap_down (getpri c ?s') (?d'[?k := m]) sz ?k" by (simp add: P')
    then have "heap_ok (getpri c ?s') (fst (percolate_loop c sz m (getpri c ?s' m) ?k ?d' ?s')) sz"
      using b less.prems by (intro less.hyps) auto
    with True show ?thesis by (subst percolate_loop.simps) (simp add: P' Let_def)
  next
    case False
    have "?P (?v ! i) \<le> ?P (?v ! j)" if j: "2 \<le> j" "j < sz" "j div 2 = i" for j
    proof -
      have k: "?k \<noteq> 0" using maxchild_none [of sz d s i j] j less.prems by auto
      with False have "?P m \<le> ?P (d ! ?k)" by (auto simp: cmppri_ge)
      also have "\<dots> \<le> ?P (d ! j)" using maxchild_least k j by blast
      finally show ?thesis using j less.prems by (auto simp: nth_list_update_if)
    qed
    with less.prems have "heap_ok ?P ?v sz" by (auto intro: heap_down_stop)
    with False show ?thesis by (subst percolate_loop.simps) (auto simp: Let_def)
  qed
qed

lemma bubble_up_wf:
  assumes "q_cbs q = c" "pq_shape q" "1 \<le> i" "i < q_size q"
    and "heap_up (getpri c s) (q_d q) (q_size q) i"
  shows "pq_wf c (fst (bubble_up q i s)) (snd (bubble_up q i s))
    \<and> pq_mset (fst (bubble_up q i s)) = pq_mset q
    \<and> getpri c (snd (bubble_up q i s)) = getpri c s"
proof -
  let ?m = "q_d q ! i" and ?r = "bubble_up q i s"
  have P: "getpri c (snd ?r) = getpri c s"
    using assms(1) by (intro ext bubble_up_frame) (auto simp: getpri_setpos)
  have d: "q_d (fst ?r) = fst (bubble_up_loop c ?m (getpri c s ?m) i (q_d q) s)"
    using assms(1) by (simp add: bubble_up_def Let_def split_beta)
  note ms = bubble_up_loop_mset [of i "q_size q" "q_d q" c ?m "getpri c s ?m" s]
  have "heap_ok (getpri c s) (q_d (fst ?r)) (q_size q)"
    unfolding d using assms by (intro bubble_up_loop_heap) (auto simp: pq_shape_def)
  moreover have "pq_mset (fst ?r) = pq_mset q"
    using ms assms(2-4) by (intro pq_mset_eqI) (auto simp: d pq_shape_def)
  ultimately show ?thesis
    using P ms assms by (simp add: pq_wf_def pq_shape_def d)
qed

lemma percolate_down_wf:
  assumes "q_cbs q = c" "pq_shape q" "1 \<le> i" "i < q_size q"
    and "heap_down (getpri c s) (q_d q) (q_size q) i"
  shows "pq_wf c (fst (percolate_down q i s)) (snd (percolate_down q i s))
    \<and> pq_mset (fst (percolate_down q i s)) = pq_mset q
    \<and> getpri c (snd (percolate_down q i s)) = getpri c s"
proof -
  let ?m = "q_d q ! i" and ?r = "percolate_down q i s"
  have P: "getpri c (snd ?r) = getpri c s"
    using assms(1) by (intro ext percolate_down_frame) (auto simp: getpri_setpos)
  have d: "q_d (fst ?r) = fst (percolate_loop c (q_size q) ?m (getpri c s ?m) i (q_d q) s)"
    using assms(1) by (simp add: percolate_down_def Let_def split_beta)
  note ms = percolate_loop_mset [of i "q_size q" "q_d q" c ?m "getpri c s ?m" s]
  have "heap_ok (getpri c s) (q_d (fst ?r)) (q_size q)"
    unfolding d using assms by (intro percolate_loop_heap) (auto simp: pq_shape_def)
  moreover have "pq_mset (fst ?r) = pq_mset q"
    using ms assms(2-4) by (intro pq_mset_eqI) (auto simp: d pq_shape_def)
  ultimately show ?thesis
    using P ms assms by (simp add: pq_wf_def pq_shape_def d)
qed

lemma insert_wf:
  assumes wf: "pq_wf c q s" and ok: "ok \<or> q_size q < q_avail q"
    and r: "ps_pqueue_insert ok q x s = (r, q', s')"
  shows "r = 0 \<and> pq_wf c q' s' \<and> pq_mset q' = add_mset x (pq_mset q)
    \<and> getpri c s' = getpri c s \<and> q_size q' = q_size q + 1"
proof -
  have sh: "pq_shape q" "q_cbs q = c" using wf by (auto simp: pq_wf_def)
  from sh(1) ok obtain q2 where q2: "pq_shape q2" "q_cbs q2 = q_cbs q" "q_size q2 = q_size q + 1"
    "pq_mset q2 = add_mset x (pq_mset q)" "\<And>j. j < q_size q \<Longrightarrow> q_d q2 ! j = q_d q ! j"
    "ps_pqueue_insert ok q x s = (0, bubble_up q2 (q_size q) s)"
    by (rule insert_bubble [where x = x and s = s]) blast
  have "heap_up (getpri c s) (q_d q2) (q_size q2) (q_size q)"
    using wf q2(3,5) heap_up_append [of "getpri c s" "q_d q" "q_size q" "q_d q2"]
    by (simp add: pq_wf_def)
  moreover from r q2(6) have "bubble_up q2 (q_size q) s = (q', s')" "r = 0" by simp_all
  ultimately show ?thesis
    using bubble_up_wf [of q2 "q_size q" s] bubble_up_size [of q2 "q_size q" s q' s'] q2(1-4) sh
    by (simp add: pq_shape_def)
qed

lemma percolate_down_empty:
  assumes "q_size q = 1"
  shows "percolate_down q 1 s = (q, setpos (q_cbs q) (q_d q ! 1) 1 s)"
  using assms by (simp add: percolate_down_def percolate_loop.simps maxchild_at_def left_def Let_def)

lemma pop_wf:
  assumes wf: "pq_wf c q s" and ne: "q_size q \<noteq> 1"
  obtains h q' s' where "ps_pqueue_pop q s = (Some h, q', s')" "pq_wf c q' s'"
    "pq_mset q = add_mset h (pq_mset q')" "\<And>x. x \<in># pq_mset q \<Longrightarrow> getpri c s h \<le> getpri c s x"
    "getpri c s' = getpri c s" "q_size q' = q_size q - 1" "h = q_d q ! 1"
proof -
  let ?sz = "q_size q - 1"
  let ?q1 = "q\<lparr>q_size := ?sz, q_d := (q_d q)[1 := q_d q ! ?sz]\<rparr>"
  let ?r = "percolate_down ?q1 1 s"
  have sh: "pq_shape q" "q_cbs q = c" and heap: "heap_ok (getpri c s) (q_d q) (q_size q)"
    using wf by (auto simp: pq_wf_def)
  have b: "1 < q_size q" "q_size q \<le> length (q_d q)" using sh ne by (auto simp: pq_shape_def)
  have sh1: "pq_shape ?q1" using sh b by (auto simp: pq_shape_def)
  have least: "getpri c s (q_d q ! 1) \<le> getpri c s x" if "x \<in># pq_mset q" for x
    using that heap_root_least [OF heap] in_pq_mset [of q] b by auto
  have ms: "pq_mset q = add_mset (q_d q ! 1) (pq_mset ?q1)"
    using pq_mset_drop_last [OF sh(1), of 1] b by simp
  have perc: "pq_wf c (fst ?r) (snd ?r) \<and> pq_mset (fst ?r) = pq_mset ?q1
    \<and> getpri c (snd ?r) = getpri c s"
  proof (cases "?sz = 1")
    case True
    then have "?r = (?q1, setpos c (q_d ?q1 ! 1) 1 s)" using percolate_down_empty [of ?q1 s] sh by simp
    with True sh1 sh show ?thesis by (simp add: pq_wf_def heap_ok_def getpri_setpos_fun)
  next
    case False
    have "heap_ok (getpri c s) (q_d q) ?sz"
      using heap by (rule heap_ok_cong [rotated 2]) auto
    then have "heap_down (getpri c s) (q_d ?q1) ?sz 1"
      using False b heap_down_replace [of "getpri c s" "q_d q" ?sz 1 "q_d q ! ?sz"] by simp
    with False b sh sh1 show ?thesis by (intro percolate_down_wf) auto
  qed
  have pop: "ps_pqueue_pop q s = (Some (q_d q ! 1), fst ?r, snd ?r)"
    using ne by (simp add: ps_pqueue_pop_def Let_def split_beta)
  show thesis
    by (rule that [OF pop]) (use perc ms least in simp_all)
qed

text \<open>
  Removal from an inner slot restores the order. Removal from the last slot leaves nothing to
  restore unless \<open>bubble_up\<close> moves: then the removed element climbs back into the array.
\<close>

lemma remove_inner_wf:
  assumes wf: "pq_wf c q s" and p: "getpos c s x = p" "1 \<le> p" "p < q_size q - 1" "q_d q ! p = x"
    and r: "ps_pqueue_remove q x s = (r, q', s')"
  shows "r = 0 \<and> pq_wf c q' s' \<and> pq_mset q = add_mset x (pq_mset q') \<and> getpri c s' = getpri c s"
proof -
  let ?sz = "q_size q - 1" and ?P = "getpri c s"
  let ?y = "q_d q ! ?sz"
  let ?q1 = "q\<lparr>q_size := ?sz, q_d := (q_d q)[p := ?y]\<rparr>"
  have sh: "pq_shape q" "q_cbs q = c" and heap: "heap_ok ?P (q_d q) (q_size q)"
    using wf by (auto simp: pq_wf_def)
  have b: "q_size q \<le> length (q_d q)" using sh by (auto simp: pq_shape_def)
  have sh1: "pq_shape ?q1" using sh p by (auto simp: pq_shape_def)
  have heap': "heap_ok ?P (q_d q) ?sz" using heap by (rule heap_ok_cong [rotated 2]) auto
  have ms: "pq_mset q = add_mset x (pq_mset ?q1)"
    using pq_mset_drop_last [OF sh(1), of p] p by simp
  show ?thesis
  proof (cases "cmppri c (?P x) (?P ?y)")
    case True
    then have "heap_up ?P (q_d ?q1) (q_size ?q1) p"
      using heap_up_replace [OF heap', of p ?y] p b by (auto simp: cmppri_ge)
    moreover have "q' = fst (bubble_up ?q1 p s)" "s' = snd (bubble_up ?q1 p s)" "r = 0"
      using r True p sh b by (auto simp: ps_pqueue_remove_def Let_def split_beta)
    ultimately show ?thesis using bubble_up_wf [of ?q1 p s] sh sh1 p ms by simp
  next
    case False
    then have "?P x \<le> ?P ?y" by (auto simp: cmppri_ge)
    then have "?P (q_d q ! (p div 2)) \<le> ?P ?y" if "2 \<le> p"
      using heap that p by (fastforce simp: heap_ok_def)
    then have "heap_down ?P (q_d ?q1) (q_size ?q1) p"
      using heap_down_replace [OF heap', of p ?y] p b by auto
    moreover have "q' = fst (percolate_down ?q1 p s)" "s' = snd (percolate_down ?q1 p s)" "r = 0"
      using r False p sh b by (auto simp: ps_pqueue_remove_def Let_def split_beta)
    ultimately show ?thesis using percolate_down_wf [of ?q1 p s] sh sh1 p ms by simp
  qed
qed

lemma remove_last_eq:
  assumes wf: "pq_wf c q s" and p: "getpos c s x = p" "1 \<le> p" "p = q_size q - 1" "q_d q ! p = x"
  shows "ps_pqueue_remove q x s =
    (0, q\<lparr>q_size := p, q_d := fst (bubble_up_loop c x (getpri c s x) p (q_d q) s)\<rparr>,
        snd (bubble_up_loop c x (getpri c s x) p (q_d q) s))"
proof -
  have "(q_d q)[p := x] = q_d q" using p(4) list_update_id [of "q_d q" p] by simp
  moreover have "q_cbs q = c" using wf by (simp add: pq_wf_def)
  ultimately show ?thesis using p
    by (simp add: ps_pqueue_remove_def bubble_up_def Let_def split_beta cmppri_ge)
qed

lemma remove_last_wf:
  assumes wf: "pq_wf c q s" and p: "getpos c s x = p" "1 \<le> p" "p = q_size q - 1" "q_d q ! p = x"
    and strict: "p = 1 \<or> getpri c s (q_d q ! (p div 2)) < getpri c s x"
    and r: "ps_pqueue_remove q x s = (r, q', s')"
  shows "r = 0 \<and> pq_wf c q' s' \<and> pq_mset q = add_mset x (pq_mset q') \<and> getpri c s' = getpri c s"
proof -
  have sh: "pq_shape q" "q_cbs q = c" and heap: "heap_ok (getpri c s) (q_d q) (q_size q)"
    using wf by (auto simp: pq_wf_def)
  have up: "bubble_up_loop c x (getpri c s x) p (q_d q) s = ((q_d q)[p := x], setpos c x p s)"
    using strict by (subst bubble_up_loop.simps) (auto simp: Let_def parent_def cmppri_ge)
  have idle: "(q_d q)[p := x] = q_d q" using p(4) list_update_id [of "q_d q" p] by simp
  have eq: "r = 0" "q' = q\<lparr>q_size := p\<rparr>" "s' = setpos c x p s"
    using r remove_last_eq [OF wf p] up idle by auto
  have "heap_ok (getpri c s) (q_d q) p" using heap by (rule heap_ok_cong [rotated 2]) (use p in auto)
  moreover have "pq_mset q = add_mset x (pq_mset q')"
    using pq_mset_drop_last [OF sh(1), of p] p idle by (simp add: eq)
  ultimately show ?thesis using sh p by (auto simp: eq pq_wf_def pq_shape_def getpri_setpos_fun)
qed

end

section \<open>Elements that record their position\<close>

definition pos_hole :: "(ptr \<Rightarrow> nat) \<Rightarrow> ptr list \<Rightarrow> nat \<Rightarrow> nat \<Rightarrow> ptr \<Rightarrow> bool" where
  "pos_hole G d sz i m \<longleftrightarrow> (\<forall>j. 1 \<le> j \<and> j < sz \<and> j \<noteq> i \<longrightarrow> G (d ! j) = j \<and> d ! j \<noteq> m)"

lemma pos_hole_cell: "pos_hole G (d[i := x]) sz i m \<longleftrightarrow> pos_hole G d sz i m"
  by (auto simp: pos_hole_def)

lemma pos_hole_pos_ok: "pos_ok G d sz \<Longrightarrow> pos_hole G d sz i (d ! i) \<or> i = 0 \<or> sz \<le> i"
  unfolding pos_ok_def pos_hole_def
  by (metis One_nat_def Suc_leI not_le_imp_less not_gr_zero)

locale pq_callbacks = pq_order c for c :: "('s, 'p::linorder) pq_cbs" +
  assumes getpos_setpos: "getpos c (setpos c x i s) y = (if y = x then i else getpos c s y)"
    and getpri_setpri: "getpri c (setpri c x p s) y = (if y = x then p else getpri c s y)"
    and getpos_setpri: "getpos c (setpri c x p s) y = getpos c s y"
begin

lemma pos_hole_move:
  assumes "pos_hole (getpos c s) d sz i m" "1 \<le> i" "i < sz" "sz \<le> length d" "1 \<le> k" "k < sz" "k \<noteq> i"
  shows "pos_hole (getpos c (setpos c (d ! k) i s)) (d[i := d ! k]) sz k m"
proof -
  have k: "getpos c s (d ! k) = k" "d ! k \<noteq> m" using assms by (auto simp: pos_hole_def)
  have "d ! j \<noteq> d ! k" if "1 \<le> j" "j < sz" "j \<noteq> i" "j \<noteq> k" for j
    using assms(1) k that by (metis pos_hole_def)
  moreover have "i < length d" using assms by simp
  ultimately show ?thesis using assms k by (auto simp: pos_hole_def getpos_setpos nth_list_update)
qed

lemma pos_hole_fill:
  assumes "pos_hole (getpos c s) d sz i m" "i < length d"
  shows "pos_ok (getpos c (setpos c m i s)) (d[i := m]) sz"
  using assms by (auto simp: pos_hole_def pos_ok_def getpos_setpos nth_list_update)

lemma bubble_up_loop_pos:
  assumes "pos_hole (getpos c s) d sz i m" "1 \<le> i" "i < sz" "sz \<le> length d"
  shows "pos_ok (getpos c (snd (bubble_up_loop c m p i d s))) (fst (bubble_up_loop c m p i d s)) sz"
  using assms
proof (induction i arbitrary: d s rule: less_induct)
  case (less i)
  show ?case
  proof (cases "i > 1 \<and> cmppri c (getpri c s (d ! parent i)) p")
    case True
    then have b: "parent i < i" "1 \<le> parent i" by (auto simp: parent_def)
    with less.prems have "pos_hole (getpos c (setpos c (d ! parent i) i s)) (d[i := d ! parent i]) sz (parent i) m"
      by (intro pos_hole_move) auto
    with True b less.prems less.IH [OF b(1)] show ?thesis
      by (subst (1 2) bubble_up_loop.simps) (auto simp: Let_def)
  next
    case False
    with less.prems pos_hole_fill [of s d sz i m] show ?thesis
      by (subst (1 2) bubble_up_loop.simps) (auto simp: Let_def)
  qed
qed

lemma percolate_loop_pos:
  assumes "pos_hole (getpos c s) d sz i m" "1 \<le> i" "i < sz" "sz \<le> length d"
  shows "pos_ok (getpos c (snd (percolate_loop c sz m p i d s))) (fst (percolate_loop c sz m p i d s)) sz"
  using assms
proof (induction "sz - i" arbitrary: i d s rule: less_induct)
  case less
  let ?k = "maxchild_at c sz d s i"
  show ?case
  proof (cases "?k \<noteq> 0 \<and> cmppri c p (getpri c s (d ! ?k))")
    case True
    then have b: "i < ?k" "?k < sz" using maxchild_at_bounds [of c sz d s i] by auto
    with less.prems have "pos_hole (getpos c (setpos c (d ! ?k) i s)) (d[i := d ! ?k]) sz ?k m"
      by (intro pos_hole_move) auto
    with True b less.prems less.hyps [of ?k] show ?thesis
      by (subst (1 2) percolate_loop.simps) (auto simp: Let_def)
  next
    case False
    with less.prems pos_hole_fill [of s d sz i m] show ?thesis
      by (subst (1 2) percolate_loop.simps) (auto simp: Let_def)
  qed
qed

lemma bubble_up_pos:
  assumes "q_cbs q = c" "pq_shape q" "1 \<le> i" "i < q_size q"
    "pos_hole (getpos c s) (q_d q) (q_size q) i (q_d q ! i)"
  shows "pos_ok (getpos c (snd (bubble_up q i s))) (q_d (fst (bubble_up q i s))) (q_size q)"
  using assms bubble_up_loop_pos [of s "q_d q" "q_size q" i "q_d q ! i"]
  by (simp add: bubble_up_def Let_def split_beta pq_shape_def)

lemma percolate_down_pos:
  assumes "q_cbs q = c" "pq_shape q" "1 \<le> i" "i < q_size q"
    "pos_hole (getpos c s) (q_d q) (q_size q) i (q_d q ! i)"
  shows "pos_ok (getpos c (snd (percolate_down q i s))) (q_d (fst (percolate_down q i s))) (q_size q)"
  using assms percolate_loop_pos [of s "q_d q" "q_size q" i "q_d q ! i"]
  by (simp add: percolate_down_def Let_def split_beta pq_shape_def)

lemma inv_distinct:
  assumes "pq_inv c q s" "1 \<le> i" "i < q_size q" "1 \<le> j" "j < q_size q" "q_d q ! i = q_d q ! j"
  shows "i = j"
  using assms by (metis pos_ok_def pq_inv_def)

lemma insert_inv:
  assumes inv: "pq_inv c q s" and ok: "ok \<or> q_size q < q_avail q" and new: "x \<notin># pq_mset q"
    and r: "ps_pqueue_insert ok q x s = (r, q', s')"
  shows "r = 0 \<and> pq_inv c q' s' \<and> pq_mset q' = add_mset x (pq_mset q) \<and> getpri c s' = getpri c s"
proof -
  have wf: "pq_wf c q s" and sh: "pq_shape q" "q_cbs q = c"
    and pos: "pos_ok (getpos c s) (q_d q) (q_size q)"
    using inv by (auto simp: pq_inv_def pq_wf_def)
  from sh(1) ok obtain q2 where q2: "pq_shape q2" "q_cbs q2 = q_cbs q" "q_size q2 = q_size q + 1"
    "\<And>j. j < q_size q \<Longrightarrow> q_d q2 ! j = q_d q ! j" "q_d q2 ! q_size q = x"
    "ps_pqueue_insert ok q x s = (0, bubble_up q2 (q_size q) s)"
    by (rule insert_bubble [where x = x and s = s]) blast
  have "q_d q ! j \<noteq> x" if "1 \<le> j" "j < q_size q" for j
    using new in_pq_mset [of q] sh that by (auto simp: pq_shape_def)
  with pos q2 have "pos_hole (getpos c s) (q_d q2) (q_size q2) (q_size q) (q_d q2 ! q_size q)"
    by (auto simp: pos_hole_def pos_ok_def)
  moreover from r q2(6) have "bubble_up q2 (q_size q) s = (q', s')" by simp
  ultimately have "pos_ok (getpos c s') (q_d q') (q_size q')"
    using bubble_up_pos [of q2 "q_size q" s] bubble_up_size [of q2 "q_size q" s q' s'] q2(1-3) sh
    by (simp add: pq_shape_def)
  with insert_wf [OF wf ok r] show ?thesis by (auto simp: pq_inv_def)
qed

lemma drop_last_pos:
  assumes inv: "pq_inv c q s" and p: "1 \<le> p" "p < q_size q - 1"
  shows "pos_hole (getpos c s) ((q_d q)[p := q_d q ! (q_size q - 1)]) (q_size q - 1) p
           ((q_d q)[p := q_d q ! (q_size q - 1)] ! p)"
proof -
  let ?sz = "q_size q - 1"
  have "q_d q ! j \<noteq> q_d q ! ?sz" if "1 \<le> j" "j < ?sz" for j
    using inv_distinct [OF inv, of j ?sz] that by auto
  moreover have "p < length (q_d q)" using inv p by (auto simp: pq_inv_def pq_wf_def pq_shape_def)
  ultimately show ?thesis using inv
    by (auto simp: pos_hole_cell pos_hole_def pq_inv_def pos_ok_def)
qed

lemma pop_inv:
  assumes inv: "pq_inv c q s" and r: "ps_pqueue_pop q s = (Some h, q', s')"
  shows "pq_inv c q' s' \<and> pq_mset q = add_mset h (pq_mset q') \<and> getpri c s' = getpri c s
    \<and> (\<forall>x \<in># pq_mset q. getpri c s h \<le> getpri c s x)"
proof -
  let ?sz = "q_size q - 1"
  let ?q1 = "q\<lparr>q_size := ?sz, q_d := (q_d q)[1 := q_d q ! ?sz]\<rparr>"
  have wf: "pq_wf c q s" and sh: "pq_shape q" "q_cbs q = c" using inv by (auto simp: pq_inv_def pq_wf_def)
  have ne: "q_size q \<noteq> 1" using r by (auto simp: ps_pqueue_pop_def)
  have q': "q' = fst (percolate_down ?q1 1 s)" "s' = snd (percolate_down ?q1 1 s)"
    using r ne by (auto simp: ps_pqueue_pop_def Let_def split_beta)
  have "pos_ok (getpos c s') (q_d q') (q_size q')"
  proof (cases "?sz = 1")
    case True
    then show ?thesis using q' by (simp add: pos_ok_def)
  next
    case False
    then have "1 < ?sz" using sh ne by (auto simp: pq_shape_def)
    with drop_last_pos [OF inv, of 1] percolate_down_pos [of ?q1 1 s] sh show ?thesis
      by (auto simp: q' pq_shape_def)
  qed
  with wf ne show ?thesis by (rule_tac pop_wf [OF wf ne]) (use r in \<open>auto simp: pq_inv_def\<close>)
qed

lemma remove_inv:
  assumes inv: "pq_inv c q s" and x: "x \<in># pq_mset q"
    and strict: "getpos c s x = q_size q - 1 \<Longrightarrow> getpos c s x = 1
      \<or> getpri c s (q_d q ! (getpos c s x div 2)) < getpri c s x"
    and r: "ps_pqueue_remove q x s = (r, q', s')"
  shows "r = 0 \<and> pq_inv c q' s' \<and> pq_mset q = add_mset x (pq_mset q') \<and> getpri c s' = getpri c s"
proof -
  have wf: "pq_wf c q s" and sh: "pq_shape q" "q_cbs q = c"
    and pos: "pos_ok (getpos c s) (q_d q) (q_size q)"
    using inv by (auto simp: pq_inv_def pq_wf_def)
  obtain p where p: "1 \<le> p" "p < q_size q" "q_d q ! p = x" "getpos c s x = p"
    using x in_pq_mset [of q] sh pos by (auto simp: pq_shape_def pos_ok_def)
  show ?thesis
  proof (cases "p = q_size q - 1")
    case True
    have up: "bubble_up_loop c x (getpri c s x) p (q_d q) s = ((q_d q)[p := x], setpos c x p s)"
      using strict True p by (subst bubble_up_loop.simps) (auto simp: Let_def parent_def cmppri_ge)
    have "q_d q ! j \<noteq> x" if "1 \<le> j" "j < p" for j using inv_distinct [OF inv, of j p] that p by auto
    then have "pos_ok (getpos c s') (q_d q') (q_size q')"
      using r remove_last_eq [OF wf p(4,1) True p(3)] up p pos
      by (auto simp: pos_ok_def getpos_setpos)
    with remove_last_wf [OF wf p(4,1) True p(3) _ r] strict True p show ?thesis
      by (auto simp: pq_inv_def)
  next
    case False
    let ?q1 = "q\<lparr>q_size := q_size q - 1, q_d := (q_d q)[p := q_d q ! (q_size q - 1)]\<rparr>"
    have lt: "p < q_size q - 1" and sh1: "pq_shape ?q1" using False p sh by (auto simp: pq_shape_def)
    have "pos_ok (getpos c s') (q_d q') (q_size q')"
      using r drop_last_pos [OF inv p(1) lt] bubble_up_pos [of ?q1 p s] percolate_down_pos [of ?q1 p s]
        sh sh1 lt p
      by (auto simp: ps_pqueue_remove_def Let_def split_beta split: if_splits
          dest: bubble_up_size percolate_down_size)
    with remove_inner_wf [OF wf p(4,1) lt p(3) r] show ?thesis by (auto simp: pq_inv_def)
  qed
qed

lemma change_priority_inv:
  assumes inv: "pq_inv c q s" and x: "x \<in># pq_mset q"
    and r: "ps_pqueue_change_priority q new x s = (q', s')"
  shows "pq_inv c q' s' \<and> pq_mset q' = pq_mset q \<and> getpri c s' = (getpri c s)(x := new)"
proof -
  let ?s1 = "setpri c x new s" and ?P = "getpri c s" and ?d = "q_d q" and ?sz = "q_size q"
  have sh: "pq_shape q" "q_cbs q = c" and heap: "heap_ok ?P ?d ?sz" and pos: "pos_ok (getpos c s) ?d ?sz"
    using inv by (auto simp: pq_inv_def pq_wf_def)
  have P1: "getpri c ?s1 = ?P(x := new)" and G1: "getpos c ?s1 = getpos c s"
    by (auto simp: getpri_setpri getpos_setpri)
  obtain p where p: "1 \<le> p" "p < ?sz" "?d ! p = x" "getpos c s x = p"
    using x in_pq_mset [of q] sh pos by (auto simp: pq_shape_def pos_ok_def)
  have other: "?d ! j = x \<longleftrightarrow> j = p" if "1 \<le> j" "j < ?sz" for j
    using inv_distinct [OF inv, of j p] that p by auto
  have hole: "pos_hole (getpos c ?s1) ?d ?sz p (?d ! p)"
    using pos other by (simp add: pos_hole_def pos_ok_def G1 p(3))
  have ord: "?P (?d ! (j div 2)) \<le> ?P (?d ! j)" if "2 \<le> j" "j < ?sz" for j
    using heap that by (simp add: heap_ok_def)
  have gap: "heap_gap (getpri c ?s1) ?d ?sz p"
    unfolding heap_gap_def P1
  proof (intro allI impI)
    fix j assume j: "2 \<le> j \<and> j < ?sz \<and> j div 2 = p \<and> 2 \<le> p"
    then have "p div 2 \<noteq> p" "1 \<le> p div 2" "p div 2 < ?sz" "j \<noteq> p" by auto
    with j ord [of j] ord [of p] other [of j] other [of "p div 2"] p
    show "(?P(x := new)) (?d ! (p div 2)) \<le> (?P(x := new)) (?d ! j)" by auto
  qed
  show ?thesis
  proof (cases "cmppri c (?P x) new")
    case True
    have "heap_up (getpri c ?s1) ?d ?sz p"
      unfolding heap_up_def
    proof (intro conjI gap allI impI)
      fix j assume j: "2 \<le> j \<and> j < ?sz \<and> j \<noteq> p"
      then have "1 \<le> j div 2" "j div 2 < ?sz" by auto
      with j True ord [of j] other [of j] other [of "j div 2"] p
      show "getpri c ?s1 (?d ! (j div 2)) \<le> getpri c ?s1 (?d ! j)" by (auto simp: P1 cmppri_ge)
    qed
    moreover have "bubble_up q p ?s1 = (q', s')"
      using r True sh p by (simp add: ps_pqueue_change_priority_def Let_def getpos_setpri)
    ultimately show ?thesis
      using bubble_up_wf [of q p ?s1] bubble_up_pos [of q p ?s1] bubble_up_size [of q p ?s1 q' s']
        sh p hole P1 by (simp add: pq_inv_def)
  next
    case False
    have "heap_down (getpri c ?s1) ?d ?sz p"
      unfolding heap_down_def
    proof (intro conjI gap allI impI)
      fix j assume j: "2 \<le> j \<and> j < ?sz \<and> j div 2 \<noteq> p"
      then have "1 \<le> j div 2" "j div 2 < ?sz" by auto
      with j False ord [of j] other [of j] other [of "j div 2"] p
      show "getpri c ?s1 (?d ! (j div 2)) \<le> getpri c ?s1 (?d ! j)" by (auto simp: P1 cmppri_ge)
    qed
    moreover have "percolate_down q p ?s1 = (q', s')"
      using r False sh p by (simp add: ps_pqueue_change_priority_def Let_def getpos_setpri)
    ultimately show ?thesis
      using percolate_down_wf [of q p ?s1] percolate_down_pos [of q p ?s1]
        percolate_down_size [of q p ?s1 q' s'] sh p hole P1 by (simp add: pq_inv_def)
  qed
qed

end

section \<open>Draining a queue and the validity check\<close>

context pq_order
begin

lemma print_loop_sorted:
  "pq_wf c q s \<Longrightarrow> sorted (map (getpri c s) (print_loop q s)) \<and> mset (print_loop q s) = pq_mset q"
proof (induction "q_size q" arbitrary: q s rule: less_induct)
  case less
  then have sz: "1 \<le> q_size q" "q_size q \<le> length (q_d q)" by (auto simp: pq_wf_def pq_shape_def)
  show ?case
  proof (cases "q_size q = 1")
    case True
    with sz have "pq_mset q = {#}" by (cases "q_d q") (auto simp: pq_mset_def)
    with True show ?thesis by (subst (1 2) print_loop.simps) (simp add: ps_pqueue_pop_def)
  next
    case False
    from less.prems False obtain h q' s' where h: "ps_pqueue_pop q s = (Some h, q', s')" "pq_wf c q' s'"
      "pq_mset q = add_mset h (pq_mset q')" "\<And>x. x \<in># pq_mset q \<Longrightarrow> getpri c s h \<le> getpri c s x"
      "getpri c s' = getpri c s" "q_size q' = q_size q - 1"
      by (rule pop_wf) blast
    with less.hyps [of q' s'] sz
    have IH: "sorted (map (getpri c s) (print_loop q' s'))" "mset (print_loop q' s') = pq_mset q'" by auto
    have "\<forall>x \<in> set (print_loop q' s'). getpri c s h \<le> getpri c s x"
      using h(3,4) IH(2) by (metis set_mset_mset union_iff add_mset_add_single)
    with h IH sz show ?thesis by (subst (1 2) print_loop.simps) auto
  qed
qed

lemma subtree_valid_strict:
  assumes cbs: "q_cbs q = c" and "1 \<le> pos"
    and strict: "\<And>j. 2 \<le> j \<Longrightarrow> j < q_size q \<Longrightarrow> getpri c s (q_d q ! (j div 2)) < getpri c s (q_d q ! j)"
  shows "subtree_is_valid q s pos"
  using assms(2)
proof (induction "q_size q - pos" arbitrary: pos rule: less_induct)
  case less
  show ?case
    using less strict [of "left pos"] strict [of "right pos"]
    by (subst subtree_is_valid.simps) (auto simp: cbs cmppri_ge left_def right_def Let_def not_le)
qed

lemma is_valid_iff:
  assumes cbs: "q_cbs q = c"
  shows "ps_pqueue_is_valid q s \<longleftrightarrow>
    (\<forall>j. 2 \<le> j \<and> j < q_size q \<longrightarrow> getpri c s (q_d q ! (j div 2)) < getpri c s (q_d q ! j))"
proof
  assume v: "ps_pqueue_is_valid q s"
  have step: "subtree_is_valid q s (i div 2) \<Longrightarrow> 2 \<le> i \<Longrightarrow> i < q_size q \<Longrightarrow>
      subtree_is_valid q s i \<and> getpri c s (q_d q ! (i div 2)) < getpri c s (q_d q ! i)" for i
    by (subst (asm) subtree_is_valid.simps, cases "even i")
      (auto simp: cbs cmppri_ge left_def right_def Let_def not_le elim!: evenE oddE)
  have all: "1 \<le> i \<Longrightarrow> i < q_size q \<Longrightarrow> subtree_is_valid q s i" for i
  proof (induction i rule: less_induct)
    case (less i)
    then show ?case using v step [of i] by (cases "i = 1") (auto simp: ps_pqueue_is_valid_def)
  qed
  show "\<forall>j. 2 \<le> j \<and> j < q_size q \<longrightarrow> getpri c s (q_d q ! (j div 2)) < getpri c s (q_d q ! j)"
  proof (intro allI impI)
    fix j assume j: "2 \<le> j \<and> j < q_size q"
    then have "1 \<le> j div 2" "j div 2 < q_size q" by auto
    with j all [of "j div 2"] step [of j]
    show "getpri c s (q_d q ! (j div 2)) < getpri c s (q_d q ! j)" by blast
  qed
next
  assume "\<forall>j. 2 \<le> j \<and> j < q_size q \<longrightarrow> getpri c s (q_d q ! (j div 2)) < getpri c s (q_d q ! j)"
  then show "ps_pqueue_is_valid q s"
    unfolding ps_pqueue_is_valid_def by (intro subtree_valid_strict [OF cbs]) auto
qed

end

lemma dup_pq_order: "(\<And>a b. cmppri c a b \<longleftrightarrow> b \<le> a) \<Longrightarrow> pq_order (dup_cbs c)"
  by unfold_locales (auto simp: dup_cbs_def)

end
