(* ===== verification/Event_State.thy ===== *)
theory Event_State
  imports Pqueue_Heap
begin

text \<open>
  The state of the event handler (\<open>struct EventState\<close> of \<open>events.c\<close>) and the objects it
  reaches: timed events (\<open>ScheduleCB\<close>), file-descriptor events (\<open>EventCB\<close>) and deferred
  events. Objects are reached along several paths (queue arrays, hash buckets, the debugger's
  parked events), so they live in stores indexed by address, with the set of addresses that are
  currently allocated beside them. \<open>ub\<close> records that the code reached undefined behaviour: it
  followed a dangling pointer or indexed an array out of its bounds.

  The theory also holds the callback table that \<open>EVT_initWithSize\<close> hands to both queues and its
  interpretation of the queue's interface, \<open>sched.*\<close>.
\<close>

section \<open>Constants\<close>

definition NULL :: ptr where "NULL = 0"
definition null_evt :: ptr where "null_evt = 1"
definition SIZE_MAX :: nat where "SIZE_MAX = 2 ^ 64 - 1"

definition EVENT_FD_READ :: nat where "EVENT_FD_READ = 0"
definition EVENT_FD_WRITE :: nat where "EVENT_FD_WRITE = 1"
definition EVENT_FD_ERROR :: nat where "EVENT_FD_ERROR = 2"
definition EVENT_MAX :: nat where "EVENT_MAX = 3"
definition EVENT_KEEP :: int where "EVENT_KEEP = 1"
definition EVENT_REMOVE :: int where "EVENT_REMOVE = 2"

datatype EVTDebuggerState = EDBG_DISABLED | EDBG_ENABLED | EDBG_STOPPED

section \<open>Timed events\<close>

text \<open>The value of the field \<open>queue\<close> of an event: \<open>NULL\<close>, or one of the two queues of the handler.\<close>

datatype queue_ref = NoQueue | MainQueue | DbgQueue

record ScheduleCB =
  scheduleTime :: timeval
  nextAwake :: timeval
  sc_callback :: ptr
  sc_arg :: ptr
  sc_pos :: nat
  timeStep :: timeval
  sc_queue :: queue_ref
  sc_count :: u32
  sc_breakpoint :: bool
  sc_critical :: u8
  sc_inCallback :: nat
  sc_name :: string

definition zero_ScheduleCB :: ScheduleCB where
  "zero_ScheduleCB = \<lparr>scheduleTime = Timeval 0 0, nextAwake = Timeval 0 0, sc_callback = NULL,
     sc_arg = NULL, sc_pos = 0, timeStep = Timeval 0 0, sc_queue = NoQueue, sc_count = 0,
     sc_breakpoint = False, sc_critical = 0, sc_inCallback = 0, sc_name = []\<rparr>"

type_synonym store = "ptr \<Rightarrow> ScheduleCB"
type_synonym sched_pq = "(store, timeval) ps_pqueue_t"

definition cmp_pri :: "timeval \<Rightarrow> timeval \<Rightarrow> bool" where
  "cmp_pri a b = timercmp a b (\<ge>)"

definition get_pri :: "store \<Rightarrow> ptr \<Rightarrow> timeval" where
  "get_pri m a = nextAwake (m a)"

definition set_pri :: "ptr \<Rightarrow> timeval \<Rightarrow> store \<Rightarrow> store" where
  "set_pri a pri m = m(a := (m a)\<lparr>nextAwake := pri\<rparr>)"

definition get_pos :: "store \<Rightarrow> ptr \<Rightarrow> nat" where
  "get_pos m a = sc_pos (m a)"

definition set_pos :: "ptr \<Rightarrow> nat \<Rightarrow> store \<Rightarrow> store" where
  "set_pos a pos m = m(a := (m a)\<lparr>sc_pos := pos\<rparr>)"

definition sched_cbs :: "(store, timeval) pq_cbs" where
  "sched_cbs = \<lparr>cmppri = cmp_pri, getpri = get_pri, setpri = set_pri, getpos = get_pos, setpos = set_pos\<rparr>"

lemma sched_cbs_fields [simp]:
  "cmppri sched_cbs = cmp_pri" "getpri sched_cbs = get_pri" "setpri sched_cbs = set_pri"
  "getpos sched_cbs = get_pos" "setpos sched_cbs = set_pos"
  by (simp_all add: sched_cbs_def)

lemma cmp_pri_ge [simp]: "cmp_pri a b \<longleftrightarrow> b \<le> a"
  by (simp add: cmp_pri_def timercmp_order)

interpretation sched: pq_callbacks sched_cbs
  by unfold_locales (auto simp: get_pri_def set_pri_def get_pos_def set_pos_def)

lemmas sched_insert_inv = sched.insert_inv [unfolded sched_cbs_fields]
lemmas sched_pop_inv = sched.pop_inv [unfolded sched_cbs_fields]
lemmas sched_remove_inv = sched.remove_inv [unfolded sched_cbs_fields]
lemmas sched_change_priority_inv = sched.change_priority_inv [unfolded sched_cbs_fields]

interpretation sched_dup: pq_order "dup_cbs sched_cbs"
  by (rule dup_pq_order) simp

section \<open>File-descriptor events, deferred events and GPIO interrupts\<close>

record EventCB =
  e_cb :: "nat \<Rightarrow> ptr"
  e_cleanup :: "nat \<Rightarrow> ptr"
  e_arg :: "nat \<Rightarrow> ptr"
  e_counts :: "nat \<Rightarrow> u32"
  e_breakpoint :: "nat \<Rightarrow> bool"
  e_inCallback :: "nat \<Rightarrow> nat"
  e_pausable :: bool
  e_critical :: u8
  e_fd :: int
  e_name :: string

definition zero_EventCB :: EventCB where
  "zero_EventCB = \<lparr>e_cb = (\<lambda>_. NULL), e_cleanup = (\<lambda>_. NULL), e_arg = (\<lambda>_. NULL), e_counts = (\<lambda>_. 0),
     e_breakpoint = (\<lambda>_. False), e_inCallback = (\<lambda>_. 0), e_pausable = False, e_critical = 0,
     e_fd = 0, e_name = []\<rparr>"

record DeferredEvent =
  def_id :: ptr
  def_cb :: ptr
  def_arg :: ptr

record GPIOInterruptDesc =
  gpio_fd :: int
  gpio_tripped :: bool
  gpio_callbacks :: "(ptr \<times> ptr) list"

section \<open>The handler\<close>

text \<open>
  \<open>mem\<close>/\<open>live\<close> and \<open>fmem\<close>/\<open>flive\<close> are the heap objects of the two event kinds. A hash bucket is
  the list of the addresses on its chain. \<open>calls\<close> logs the cleanup callbacks in the order the
  code makes them (callback, event, argument).
\<close>

record EventState =
  eventSet :: "nat \<Rightarrow> int set"
  blockedSet :: "nat \<Rightarrow> int set"
  maxFd :: int
  maxFds :: "nat \<Rightarrow> int"
  eventCnt :: "nat \<Rightarrow> int"
  hashSize :: nat
  keepGoing :: bool
  gpio_intrs :: "nat \<Rightarrow> GPIOInterruptDesc"
  queue :: sched_pq
  dbg_queue :: sched_pq
  custom_timer :: bool
  initialDebuggerState :: EVTDebuggerState
  debuggerState :: EVTDebuggerState
  dbgPort :: int
  dbgServer :: ptr
  loop_counter :: u64
  timed_event_counter :: u64
  fd_event_counter :: u64
  steps_to_break :: int
  next_timed_event :: ptr
  next_fd_event :: ptr
  next_fd_event_evt :: nat
  dbg_step :: bool
  dump_evt :: ptr
  dbg_reply_evt :: ptr
  breakpoint_evt :: ptr
  critical_sched_count :: int
  critical_fd_count :: int
  break_on_next :: bool
  dump_every_loop :: bool
  full_dump_format :: bool
  in_loop :: bool
  deferred :: "DeferredEvent list"
  cmds_pending :: ptr
  events :: "nat \<Rightarrow> ptr list"
  mem :: store
  live :: "ptr set"
  fmem :: "ptr \<Rightarrow> EventCB"
  flive :: "ptr set"
  calls :: "(ptr \<times> nat \<times> ptr) list"
  ub :: bool

section \<open>Queue operations through the pointer stored in an event\<close>

definition queue_of :: "queue_ref \<Rightarrow> EventState \<Rightarrow> sched_pq" where
  "queue_of r st = (if r = DbgQueue then dbg_queue st else queue st)"

definition set_queue :: "queue_ref \<Rightarrow> sched_pq \<Rightarrow> EventState \<Rightarrow> EventState" where
  "set_queue r q st = (if r = DbgQueue then st\<lparr>dbg_queue := q\<rparr> else st\<lparr>queue := q\<rparr>)"

definition slot_ok :: "sched_pq \<Rightarrow> nat \<Rightarrow> bool" where
  "slot_ok q pos \<longleftrightarrow> 1 \<le> pos \<and> pos < q_size q"

definition evt_insert :: "bool \<Rightarrow> ptr \<Rightarrow> EventState \<Rightarrow> int \<times> EventState" where
  "evt_insert ok x st =
     (let r = sc_queue (mem st x) in
      if r = NoQueue then (1, st)
      else case ps_pqueue_insert ok (queue_of r st) x (mem st) of
             (res, q, m) \<Rightarrow> (res, set_queue r q (st\<lparr>mem := m\<rparr>)))"

definition evt_remove :: "ptr \<Rightarrow> EventState \<Rightarrow> int \<times> EventState" where
  "evt_remove x st =
     (let r = sc_queue (mem st x) in
      if r = NoQueue \<or> \<not> slot_ok (queue_of r st) (sc_pos (mem st x)) then (0, st\<lparr>ub := True\<rparr>)
      else case ps_pqueue_remove (queue_of r st) x (mem st) of
             (res, q, m) \<Rightarrow> (res, set_queue r q (st\<lparr>mem := m\<rparr>)))"

definition evt_change_priority :: "timeval \<Rightarrow> ptr \<Rightarrow> EventState \<Rightarrow> EventState" where
  "evt_change_priority pri x st =
     (let r = sc_queue (mem st x) in
      if r = NoQueue \<or> \<not> slot_ok (queue_of r st) (sc_pos (mem st x)) then st\<lparr>ub := True\<rparr>
      else case ps_pqueue_change_priority (queue_of r st) pri x (mem st) of
             (q, m) \<Rightarrow> set_queue r q (st\<lparr>mem := m\<rparr>))"

section \<open>Creation\<close>

definition zero_EventState :: EventState where
  "zero_EventState = \<lparr>eventSet = (\<lambda>_. {}), blockedSet = (\<lambda>_. {}), maxFd = 0, maxFds = (\<lambda>_. 0),
     eventCnt = (\<lambda>_. 0), hashSize = 0, keepGoing = False,
     gpio_intrs = (\<lambda>_. \<lparr>gpio_fd = 0, gpio_tripped = False, gpio_callbacks = []\<rparr>),
     queue = \<lparr>q_size = 0, q_avail = 0, q_step = 0, q_cbs = sched_cbs, q_d = []\<rparr>,
     dbg_queue = \<lparr>q_size = 0, q_avail = 0, q_step = 0, q_cbs = sched_cbs, q_d = []\<rparr>,
     custom_timer = False, initialDebuggerState = EDBG_DISABLED, debuggerState = EDBG_DISABLED,
     dbgPort = 0, dbgServer = NULL, loop_counter = 0, timed_event_counter = 0, fd_event_counter = 0,
     steps_to_break = 0, next_timed_event = NULL, next_fd_event = NULL, next_fd_event_evt = 0,
     dbg_step = False, dump_evt = NULL, dbg_reply_evt = NULL, breakpoint_evt = NULL,
     critical_sched_count = 0, critical_fd_count = 0, break_on_next = False,
     dump_every_loop = False, full_dump_format = False, in_loop = False, deferred = [],
     cmds_pending = NULL, events = (\<lambda>_. []), mem = (\<lambda>_. zero_ScheduleCB), live = {},
     fmem = (\<lambda>_. zero_EventCB), flive = {}, calls = [], ub = False\<rparr>"

text \<open>
  \<open>env\<close> is the value of \<open>LIBPROC_DEBUGGER\<close> with letters in upper case (the code compares without
  regard to case); \<open>ok1\<close>, \<open>okq\<close> and \<open>okt\<close> are the outcomes of the allocation of the handler, of the
  four allocations of the two queues and of the default timer. \<open>null_cb\<close> is the address of
  \<open>null_evt_callback\<close>.
\<close>

definition EVT_initWithSize ::
  "bool \<Rightarrow> bool \<times> bool \<Rightarrow> bool \<times> bool \<Rightarrow> bool \<Rightarrow> ptr \<Rightarrow> string option \<Rightarrow> nat \<Rightarrow> EventState option" where
  "EVT_initWithSize ok1 okq okd okt null_cb env n =
     (if \<not> ok1 then None else
      let ini = (if env = Some ''ENABLED'' then EDBG_ENABLED
                 else if env = Some ''STOPPED'' then EDBG_STOPPED else EDBG_DISABLED);
          dbg = (if ini \<noteq> EDBG_DISABLED then EDBG_ENABLED else EDBG_DISABLED);
          st = zero_EventState\<lparr>initialDebuggerState := ini, debuggerState := dbg, keepGoing := True,
                               hashSize := n\<rparr>
      in case ps_pqueue_init (fst okq) (snd okq) n sched_cbs of
           None \<Rightarrow> None
         | Some q \<Rightarrow>
             (case ps_pqueue_init (fst okd) (snd okd) n sched_cbs of
                None \<Rightarrow> None
              | Some dq \<Rightarrow>
                  if \<not> okt then None
                  else Some (st\<lparr>queue := q, dbg_queue := dq, full_dump_format := True,
                       mem := (mem st)(null_evt := zero_ScheduleCB\<lparr>sc_callback := null_cb\<rparr>)\<rparr>)))"

definition EVT_create_handler ::
  "bool \<Rightarrow> bool \<times> bool \<Rightarrow> bool \<times> bool \<Rightarrow> bool \<Rightarrow> ptr \<Rightarrow> string option \<Rightarrow> EventState option" where
  "EVT_create_handler ok1 okq okd okt null_cb env = EVT_initWithSize ok1 okq okd okt null_cb env 19"

definition null_evt_callback :: "ptr \<Rightarrow> int" where
  "null_evt_callback arg = EVENT_REMOVE"

end
