(* ===== verification/Sched.thy ===== *)
theory Sched
  imports Event_State
begin

text \<open>
  The timed-event interface of \<open>events.c\<close>: adding, removing, updating and naming scheduled
  events. The result of \<open>malloc\<close> (\<open>m\<close>, \<open>None\<close> for \<open>NULL\<close>), the outcome of the queue's \<open>realloc\<close>
  (\<open>ok\<close>) and the clock readings are arguments. An access through an address that is not
  allocated sets \<open>ub\<close>.
\<close>

section \<open>Operations\<close>

definition EVT_sched_remaining :: "timeval \<Rightarrow> EventState \<Rightarrow> ptr \<Rightarrow> timeval" where
  "EVT_sched_remaining now st eventId = timersub (nextAwake (mem st eventId)) now"

definition free_evt :: "ptr \<Rightarrow> EventState \<Rightarrow> EventState" where
  "free_evt x st = (if x \<noteq> null_evt then st\<lparr>live := live st - {x}\<rparr> else st)"

definition EVT_sched_add ::
  "ptr option \<Rightarrow> bool \<Rightarrow> timeval \<Rightarrow> EventState \<Rightarrow> timeval \<Rightarrow> ptr \<Rightarrow> ptr \<Rightarrow> ptr \<times> EventState" where
  "EVT_sched_add m ok now st time cb arg =
     (case m of
        None \<Rightarrow> (NULL, st)
      | Some p \<Rightarrow>
          let new = zero_ScheduleCB\<lparr>scheduleTime := now, timeStep := time,
                      nextAwake := timeradd now time, sc_callback := cb, sc_arg := arg,
                      sc_queue := MainQueue, sc_critical := 1\<rparr>;
              st1 = st\<lparr>mem := (mem st)(p := new), live := insert p (live st)\<rparr>;
              (r, st2) = evt_insert ok p st1
          in if r = 0
             then (p, st2\<lparr>critical_sched_count := critical_sched_count st2 + 1\<rparr>)
             else (NULL, st2\<lparr>live := live st2 - {p}\<rparr>))"

definition EVT_sched_add_with_timestep ::
  "ptr option \<Rightarrow> bool \<Rightarrow> timeval \<Rightarrow> EventState \<Rightarrow> timeval \<Rightarrow> timeval \<Rightarrow> ptr \<Rightarrow> ptr
     \<Rightarrow> ptr \<times> EventState" where
  "EVT_sched_add_with_timestep m ok now st time timestep cb arg =
     (case m of
        None \<Rightarrow> (NULL, st)
      | Some p \<Rightarrow>
          let new = zero_ScheduleCB\<lparr>scheduleTime := now, timeStep := timestep,
                      nextAwake := timeradd now time, sc_callback := cb, sc_arg := arg,
                      sc_queue := MainQueue, sc_critical := 1\<rparr>;
              st1 = st\<lparr>mem := (mem st)(p := new), live := insert p (live st)\<rparr>;
              (r, st2) = evt_insert ok p st1
          in if r = 0
             then (p, st2\<lparr>critical_sched_count := critical_sched_count st2 + 1\<rparr>)
             else (NULL, st2\<lparr>live := live st2 - {p}\<rparr>))"

text \<open>The \<open>int\<close> argument is stored into a \<open>char\<close>, keeping its low eight bits.\<close>

definition EVT_sched_set_critical :: "EventState \<Rightarrow> ptr \<Rightarrow> int \<Rightarrow> EventState" where
  "EVT_sched_set_critical st eventId critical =
     (if eventId = NULL then st
      else if eventId \<notin> live st then st\<lparr>ub := True\<rparr>
      else
        let evt = mem st eventId;
            n = (if sc_critical evt \<noteq> 0 \<and> critical = 0 then critical_sched_count st - 1
                 else if sc_critical evt = 0 \<and> critical \<noteq> 0 then critical_sched_count st + 1
                 else critical_sched_count st)
        in st\<lparr>critical_sched_count := n,
              mem := (mem st)(eventId := evt\<lparr>sc_critical := word_of_int critical\<rparr>)\<rparr>)"

definition EVT_sched_remove :: "EventState \<Rightarrow> ptr \<Rightarrow> ptr \<times> EventState" where
  "EVT_sched_remove st eventId =
     (if eventId = NULL then (NULL, st)
      else if eventId \<noteq> null_evt \<and> eventId \<notin> live st then (NULL, st\<lparr>ub := True\<rparr>)
      else
        let evt = mem st eventId in
        if sc_inCallback evt \<noteq> 0 then (NULL, st)
        else
          let st1 = (if sc_critical evt \<noteq> 0
                     then st\<lparr>critical_sched_count := critical_sched_count st - 1\<rparr> else st);
              st2 = (if next_timed_event st1 = eventId
                     then st1\<lparr>next_timed_event := null_evt\<rparr> else st1)
          in if sc_pos evt = SIZE_MAX then (sc_arg evt, free_evt eventId st2)
             else
               let (r, st3) = evt_remove eventId st2 in
               if r = 0
               then let st4 = st3\<lparr>mem := (mem st3)(eventId := (mem st3 eventId)\<lparr>sc_pos := SIZE_MAX\<rparr>)\<rparr>
                    in (sc_arg (mem st4 eventId), free_evt eventId st4)
               else (NULL, st3))"

text \<open>
  \<open>now\<close> is the reading of the clock the code selects: the handler's timer for the main queue,
  \<open>ET_default_monotonic\<close> otherwise.
\<close>

definition EVT_sched_update :: "timeval \<Rightarrow> EventState \<Rightarrow> ptr \<Rightarrow> timeval \<Rightarrow> int \<times> EventState" where
  "EVT_sched_update now st eventId time =
     (if eventId = NULL then (1, st)
      else if eventId \<notin> live st then (0, st\<lparr>ub := True\<rparr>)
      else
        let evt = (mem st eventId)\<lparr>scheduleTime := now, nextAwake := timeradd now time, timeStep := time\<rparr>;
            st1 = st\<lparr>mem := (mem st)(eventId := evt)\<rparr>
        in if sc_inCallback evt = 0
           then (0, evt_change_priority (nextAwake evt) eventId st1)
           else (0, st1\<lparr>mem := (mem st1)(eventId := evt\<lparr>sc_inCallback := 2\<rparr>)\<rparr>))"

definition EVT_sched_make_breakpoint :: "EventState \<Rightarrow> ptr \<Rightarrow> EventState" where
  "EVT_sched_make_breakpoint st eventId =
     (if eventId = NULL then st
      else if eventId \<notin> live st then st\<lparr>ub := True\<rparr>
      else st\<lparr>mem := (mem st)(eventId := (mem st eventId)\<lparr>sc_breakpoint := True\<rparr>)\<rparr>)"

definition EVT_sched_move_to_mono :: "bool \<Rightarrow> timeval \<Rightarrow> EventState \<Rightarrow> ptr \<Rightarrow> int \<times> EventState" where
  "EVT_sched_move_to_mono ok now st eventId =
     (if eventId = NULL then (1, st)
      else if eventId \<notin> live st then (0, st\<lparr>ub := True\<rparr>)
      else
        let (r, st1) = evt_remove eventId st;
            evt = (mem st1 eventId)\<lparr>scheduleTime := now,
                    nextAwake := timeradd now (timeStep (mem st1 eventId)), sc_queue := DbgQueue\<rparr>;
            (r', st2) = evt_insert ok eventId (st1\<lparr>mem := (mem st1)(eventId := evt)\<rparr>);
            st3 = (if sc_critical (mem st2 eventId) \<noteq> 0
                   then st2\<lparr>critical_sched_count := critical_sched_count st2 - 1\<rparr> else st2)
        in (0, st3\<lparr>mem := (mem st3)(eventId := (mem st3 eventId)\<lparr>sc_critical := 0\<rparr>)\<rparr>))"

definition EVT_sched_update_partial_credit ::
  "timeval \<Rightarrow> EventState \<Rightarrow> ptr \<Rightarrow> timeval \<Rightarrow> int \<times> EventState" where
  "EVT_sched_update_partial_credit now st eventId time =
     (if eventId = NULL then (1, st)
      else if eventId \<notin> live st then (0, st\<lparr>ub := True\<rparr>)
      else
        let awake = timeradd (scheduleTime (mem st eventId)) time;
            awake' = (if timercmp awake now (\<le>) then now else awake);
            evt = (mem st eventId)\<lparr>nextAwake := awake', timeStep := time\<rparr>;
            st1 = st\<lparr>mem := (mem st)(eventId := evt)\<rparr>
        in if sc_inCallback evt = 0
           then (0, evt_change_priority (nextAwake evt) eventId st1)
           else (0, st1\<lparr>mem := (mem st1)(eventId := evt\<lparr>sc_inCallback := 2\<rparr>)\<rparr>))"

text \<open>\<open>s\<close> is the string that \<open>vsnprintf\<close> formats; the buffer keeps 127 characters of it.\<close>

definition EVT_sched_set_name :: "EventState \<Rightarrow> ptr \<Rightarrow> string \<Rightarrow> EventState" where
  "EVT_sched_set_name st eventId s =
     (if eventId \<notin> live st then st\<lparr>ub := True\<rparr>
      else st\<lparr>mem := (mem st)(eventId := (mem st eventId)\<lparr>sc_name := take 127 s\<rparr>)\<rparr>)"

section \<open>The scheduler invariant\<close>

definition crit_set :: "EventState \<Rightarrow> ptr set" where
  "crit_set st = {x \<in> live st. sc_critical (mem st x) \<noteq> 0}"

definition queue_set :: "queue_ref \<Rightarrow> EventState \<Rightarrow> ptr set" where
  "queue_set r st = (if r = NoQueue then {} else set_mset (pq_mset (queue_of r st)))"

definition queued :: "EventState \<Rightarrow> ptr set" where
  "queued st = queue_set MainQueue st \<union> queue_set DbgQueue st"

definition queue_ok :: "queue_ref \<Rightarrow> EventState \<Rightarrow> bool" where
  "queue_ok r st \<longleftrightarrow> pq_inv sched_cbs (queue_of r st) (mem st) \<and> q_size (queue_of r st) < SIZE_MAX
     \<and> (\<forall>x \<in># pq_mset (queue_of r st). sc_queue (mem st x) = r \<and> sc_inCallback (mem st x) = 0)"

definition queues_ok :: "EventState \<Rightarrow> bool" where
  "queues_ok st \<longleftrightarrow> queue_ok MainQueue st \<and> queue_ok DbgQueue st"

definition heap_objs_ok :: "EventState \<Rightarrow> bool" where
  "heap_objs_ok st \<longleftrightarrow> finite (live st) \<and> queued st \<subseteq> live st
     \<and> NULL \<notin> live st \<and> null_evt \<notin> live st
     \<and> (\<forall>x \<in> live st. x \<in> queued st \<or> sc_pos (mem st x) = SIZE_MAX)
     \<and> (next_timed_event st = NULL \<or> next_timed_event st = null_evt
        \<or> next_timed_event st \<in> live st \<and> sc_pos (mem st (next_timed_event st)) = SIZE_MAX)
     \<and> critical_sched_count st = int (card (crit_set st)) \<and> \<not> ub st"

definition sched_inv :: "EventState \<Rightarrow> bool" where
  "sched_inv st \<longleftrightarrow> queues_ok st \<and> heap_objs_ok st"

text \<open>
  The case the queue's removal mishandles: the event is in the last slot of its queue, is not
  the only one, and is due at the same time as the event in the parent slot.
\<close>

definition tied_last :: "EventState \<Rightarrow> ptr \<Rightarrow> bool" where
  "tied_last st x =
     (let q = queue_of (sc_queue (mem st x)) st; p = sc_pos (mem st x)
      in p = q_size q - 1 \<and> p \<noteq> 1 \<and> nextAwake (mem st (q_d q ! (p div 2))) = nextAwake (mem st x))"

section \<open>Field facts\<close>

lemma set_queue_fields [simp]:
  "mem (set_queue r q st) = mem st" "live (set_queue r q st) = live st"
  "next_timed_event (set_queue r q st) = next_timed_event st"
  "critical_sched_count (set_queue r q st) = critical_sched_count st" "ub (set_queue r q st) = ub st"
  by (simp_all add: set_queue_def)

lemma queue_of_set_queue:
  "r \<noteq> NoQueue \<Longrightarrow> r' \<noteq> NoQueue \<Longrightarrow> queue_of r' (set_queue r q st) = (if r = r' then q else queue_of r' st)"
  by (cases r; cases r') (auto simp: queue_of_def set_queue_def)

lemma queue_of_upd [simp]:
  "queue_of r (st\<lparr>mem := m\<rparr>) = queue_of r st" "queue_of r (st\<lparr>live := l\<rparr>) = queue_of r st"
  "queue_of r (st\<lparr>critical_sched_count := n\<rparr>) = queue_of r st"
  "queue_of r (st\<lparr>next_timed_event := e\<rparr>) = queue_of r st"
  by (simp_all add: queue_of_def)

lemma queues_okD: "queues_ok st \<Longrightarrow> r \<noteq> NoQueue \<Longrightarrow> queue_ok r st"
  by (cases r) (auto simp: queues_ok_def)

lemma queues_okI: "(\<And>r. r \<noteq> NoQueue \<Longrightarrow> queue_ok r st) \<Longrightarrow> queues_ok st"
  by (auto simp: queues_ok_def)

lemma in_queued: "x \<in> queued st \<longleftrightarrow> (\<exists>r. r \<noteq> NoQueue \<and> x \<in># pq_mset (queue_of r st))"
  by (auto simp: queued_def queue_set_def) (metis queue_ref.exhaust)

definition core :: "ScheduleCB \<Rightarrow> ScheduleCB" where
  "core e = e\<lparr>sc_pos := 0\<rparr>"

lemma core_set_pos: "core (set_pos a i m y) = core (m y)"
  by (simp add: core_def set_pos_def)

lemma core_eqD:
  assumes "core a = core b"
  shows "nextAwake a = nextAwake b" "sc_queue a = sc_queue b" "sc_inCallback a = sc_inCallback b"
    "sc_critical a = sc_critical b" "sc_arg a = sc_arg b" "sc_callback a = sc_callback b"
    "scheduleTime a = scheduleTime b" "timeStep a = timeStep b"
  using assms by (cases a; cases b; simp add: core_def)+

text \<open>A queue whose elements' priorities and positions are unchanged keeps its invariant.\<close>

lemma pq_inv_cong:
  assumes "pq_inv sched_cbs q m" "\<And>x. x \<in># pq_mset q \<Longrightarrow> get_pri m' x = get_pri m x \<and> get_pos m' x = get_pos m x"
  shows "pq_inv sched_cbs q m'"
  using pq_inv_frame [OF assms(1), of m'] assms(2) by simp

lemma queue_ok_cong:
  assumes "queue_ok r st" "queue_of r st' = queue_of r st"
    "\<And>x. x \<in># pq_mset (queue_of r st) \<Longrightarrow> mem st' x = mem st x"
  shows "queue_ok r st'"
proof -
  have "pq_inv sched_cbs (queue_of r st) (mem st')"
    by (rule pq_inv_cong [of _ "mem st"]) (use assms in \<open>auto simp: queue_ok_def get_pri_def get_pos_def\<close>)
  with assms show ?thesis by (simp add: queue_ok_def)
qed

lemma pq_inv_shape: "pq_inv c q s \<Longrightarrow> pq_shape q \<and> q_cbs q = c"
  by (auto simp: pq_inv_def pq_wf_def)

lemma queue_ok_facts:
  assumes "queue_ok r st"
  shows "pq_inv sched_cbs (queue_of r st) (mem st)" "pq_shape (queue_of r st)"
    "q_cbs (queue_of r st) = sched_cbs" "q_size (queue_of r st) < SIZE_MAX"
    "\<And>x. x \<in># pq_mset (queue_of r st) \<Longrightarrow> sc_queue (mem st x) = r \<and> sc_inCallback (mem st x) = 0"
  using assms by (auto simp: queue_ok_def dest: pq_inv_shape)

lemma queued_slot:
  assumes "queue_ok r st" "x \<in># pq_mset (queue_of r st)"
  shows "slot_ok (queue_of r st) (sc_pos (mem st x))" "q_d (queue_of r st) ! sc_pos (mem st x) = x"
    "sc_pos (mem st x) \<noteq> SIZE_MAX"
proof -
  note f = queue_ok_facts [OF assms(1)]
  obtain j where "1 \<le> j" "j < q_size (queue_of r st)" "q_d (queue_of r st) ! j = x"
    using in_pq_mset [of "queue_of r st" x] f(2) assms(2) by (auto simp: pq_shape_def)
  moreover from this f(1) have "sc_pos (mem st x) = j" by (auto simp: pq_inv_def pos_ok_def get_pos_def)
  ultimately show "slot_ok (queue_of r st) (sc_pos (mem st x))" "q_d (queue_of r st) ! sc_pos (mem st x) = x"
    "sc_pos (mem st x) \<noteq> SIZE_MAX"
    using f(4) by (auto simp: slot_ok_def)
qed

lemma queue_count:
  assumes "queue_ok r st"
  shows "count (pq_mset (queue_of r st)) x \<le> 1"
proof -
  let ?q = "queue_of r st" and ?xs = "tl (take (q_size (queue_of r st)) (q_d (queue_of r st)))"
  note f = queue_ok_facts [OF assms]
  have "?xs ! i = ?xs ! j \<Longrightarrow> i = j" if "i < length ?xs" "j < length ?xs" for i j
    using that f(2) sched.inv_distinct [OF f(1), of "Suc i" "Suc j"]
    by (auto simp: nth_tl pq_shape_def)
  then have "distinct ?xs" by (metis distinct_conv_nth)
  then show ?thesis by (simp add: pq_mset_def distinct_count_atmost_1)
qed

lemma queue_disjoint:
  assumes "queues_ok st" "r \<noteq> NoQueue" "r' \<noteq> NoQueue" "x \<in># pq_mset (queue_of r st)"
    "x \<in># pq_mset (queue_of r' st)"
  shows "r = r'"
  using queue_ok_facts(5) [OF queues_okD [OF assms(1,2)] assms(4)]
    queue_ok_facts(5) [OF queues_okD [OF assms(1,3)] assms(5)] by simp

section \<open>The queue operations on the handler's state\<close>

text \<open>
  Common shape of the three operations: queue \<open>r\<close> becomes \<open>q\<close>, the store becomes \<open>m\<close>, which
  differs from the old one in the positions of the elements of \<open>A\<close> only.
\<close>

lemma queue_step:
  assumes ok: "queues_ok st" and r: "r \<noteq> NoQueue" and inv: "pq_inv sched_cbs q m" "q_size q < SIZE_MAX"
    and core: "\<And>y. core (m y) = core (mem st y)" and out: "\<And>y. y \<notin> A \<Longrightarrow> m y = mem st y"
    and A: "\<And>r'. r' \<noteq> NoQueue \<Longrightarrow> r' \<noteq> r \<Longrightarrow> A \<inter> queue_set r' st = {}"
    and elems: "\<And>y. y \<in># pq_mset q \<Longrightarrow> sc_queue (mem st y) = r \<and> sc_inCallback (mem st y) = 0"
  shows "queues_ok (set_queue r q (st\<lparr>mem := m\<rparr>))"
proof (rule queues_okI)
  fix r' assume r': "r' \<noteq> NoQueue"
  show "queue_ok r' (set_queue r q (st\<lparr>mem := m\<rparr>))"
  proof (cases "r' = r")
    case True
    with r inv elems core_eqD [OF core] show ?thesis by (simp add: queue_ok_def queue_of_set_queue)
  next
    case False
    have same: "mem (set_queue r q (st\<lparr>mem := m\<rparr>)) y = mem st y" if "y \<in># pq_mset (queue_of r' st)" for y
      using A [OF r' False] that r' out [of y] by (auto simp: queue_set_def)
    show ?thesis
      by (rule queue_ok_cong [OF queues_okD [OF ok r'] _ same])
        (use False r r' in \<open>simp add: queue_of_set_queue\<close>)
  qed
qed

lemma evt_insert_ok:
  assumes ok: "queues_ok st" and r: "sc_queue (mem st x) = r" "r \<noteq> NoQueue"
    and x: "x \<notin> queued st" "sc_inCallback (mem st x) = 0"
    and room: "al \<or> q_size (queue_of r st) < q_avail (queue_of r st)" "q_size (queue_of r st) + 1 < SIZE_MAX"
  shows "\<exists>q m. evt_insert al x st = (0, set_queue r q (st\<lparr>mem := m\<rparr>))
    \<and> queues_ok (set_queue r q (st\<lparr>mem := m\<rparr>)) \<and> pq_mset q = add_mset x (pq_mset (queue_of r st))
    \<and> q_size q = q_size (queue_of r st) + 1
    \<and> (\<forall>y. core (m y) = core (mem st y)) \<and> (\<forall>y. y \<noteq> x \<and> y \<notin> queue_set r st \<longrightarrow> m y = mem st y)"
proof -
  let ?q = "queue_of r st"
  obtain res q m where e: "ps_pqueue_insert al ?q x (mem st) = (res, q, m)" by (metis prod_cases3)
  note f = queue_ok_facts [OF queues_okD [OF ok r(2)]]
  have new: "x \<notin># pq_mset ?q" using x(1) r(2) by (auto simp: in_queued)
  note ins = sched_insert_inv [OF f(1) room(1) new e] sched.insert_wf [of ?q "mem st" al x res q m]
  have sz: "q_size q = q_size ?q + 1" using ins(2) f(1) room(1) e by (simp add: pq_inv_def)
  have core: "core (m y) = core (mem st y)" for y
    using insert_frame_in [where f = "\<lambda>m. core (m y)", OF f(2), of x al "mem st"] e f(3)
    by (simp add: core_set_pos)
  have out: "m y = mem st y" if "y \<noteq> x" "y \<notin># pq_mset ?q" for y
  proof -
    have "set_pos z j s y = s y" if "z = x \<or> z \<in># pq_mset ?q" for z j s
      using that \<open>y \<noteq> x\<close> \<open>y \<notin># pq_mset ?q\<close> by (auto simp: set_pos_def)
    then show ?thesis
      using insert_frame_in [where f = "\<lambda>m. m y", OF f(2), of x al "mem st"] e f(3) by simp
  qed
  have "queues_ok (set_queue r q (st\<lparr>mem := m\<rparr>))"
  proof (rule queue_step [where A = "insert x (queue_set r st)"])
    fix r' assume "r' \<noteq> NoQueue" "r' \<noteq> r"
    then show "insert x (queue_set r st) \<inter> queue_set r' st = {}"
      using queue_disjoint [OF ok] r(2) x(1) by (auto simp: queue_set_def in_queued)
  qed (use ok r ins(1) sz room core out f(5) x in \<open>auto simp: queue_set_def\<close>)
  moreover have "evt_insert al x st = (0, set_queue r q (st\<lparr>mem := m\<rparr>))"
    using e r ins(1) by (simp add: evt_insert_def Let_def)
  ultimately show ?thesis using ins(1) sz core out r(2) by (auto simp: queue_set_def)
qed

lemma evt_insert_fail:
  assumes ok: "queues_ok st" and r: "sc_queue (mem st x) = r" "r \<noteq> NoQueue"
    and room: "\<not> al" "q_size (queue_of r st) \<ge> q_avail (queue_of r st)"
  shows "evt_insert al x st = (1, st)"
proof -
  have "set_queue r (queue_of r st) st = st" by (simp add: set_queue_def queue_of_def)
  with r room show ?thesis by (simp add: evt_insert_def ps_pqueue_insert_def Let_def)
qed

lemma not_tied_strict:
  assumes ok: "queue_ok r st" and x: "x \<in># pq_mset (queue_of r st)" and nt: "\<not> tied_last st x"
    and last: "get_pos (mem st) x = q_size (queue_of r st) - 1"
  shows "get_pos (mem st) x = 1 \<or>
    get_pri (mem st) (q_d (queue_of r st) ! (get_pos (mem st) x div 2)) < get_pri (mem st) x"
proof (cases "get_pos (mem st) x = 1")
  case False
  note s = queued_slot [OF ok x] and f = queue_ok_facts [OF ok]
  have "2 \<le> get_pos (mem st) x" "get_pos (mem st) x < q_size (queue_of r st)"
    using s(1) False by (auto simp: slot_ok_def get_pos_def)
  then have "get_pri (mem st) (q_d (queue_of r st) ! (get_pos (mem st) x div 2)) \<le> get_pri (mem st) x"
    using f(1) s(2) by (auto simp: pq_inv_def pq_wf_def heap_ok_def get_pos_def)
  moreover have "sc_queue (mem st x) = r" using f(5) [OF x] by simp
  ultimately show ?thesis
    using nt last False by (auto simp: tied_last_def Let_def get_pos_def get_pri_def)
qed simp

lemma remove_size: "ps_pqueue_remove q x s = (r, q', s') \<Longrightarrow> q_size q' = q_size q - 1"
  by (auto simp: ps_pqueue_remove_def Let_def split: prod.splits if_splits
      dest: bubble_up_size percolate_down_size)

lemma evt_remove_ok:
  assumes ok: "queues_ok st" and r: "r \<noteq> NoQueue" and x: "x \<in># pq_mset (queue_of r st)"
    and nt: "\<not> tied_last st x"
  shows "\<exists>q m. evt_remove x st = (0, set_queue r q (st\<lparr>mem := m\<rparr>))
    \<and> queues_ok (set_queue r q (st\<lparr>mem := m\<rparr>)) \<and> add_mset x (pq_mset q) = pq_mset (queue_of r st)
    \<and> q_size q + 1 = q_size (queue_of r st) \<and> x \<notin># pq_mset q
    \<and> (\<forall>y. core (m y) = core (mem st y)) \<and> (\<forall>y. y \<notin> queue_set r st \<longrightarrow> m y = mem st y)"
proof -
  let ?q = "queue_of r st"
  obtain res q m where e: "ps_pqueue_remove ?q x (mem st) = (res, q, m)" by (metis prod_cases3)
  note qok = queues_okD [OF ok r]
  note f = queue_ok_facts [OF qok] and sl = queued_slot [OF qok x]
  note rem = sched_remove_inv [OF f(1) x not_tied_strict [OF qok x nt] e]
  have sz: "q_size q + 1 = q_size ?q" using remove_size [OF e] f(2) by (auto simp: pq_shape_def)
  have pos: "1 \<le> get_pos (mem st) x" "get_pos (mem st) x < q_size ?q"
    using sl(1) by (auto simp: slot_ok_def get_pos_def)
  have core: "core (m y) = core (mem st y)" for y
    using remove_frame_in [where f = "\<lambda>m. core (m y)", OF f(2), of "mem st" x] e f(3) pos
    by (simp add: core_set_pos)
  have out: "m y = mem st y" if "y \<notin># pq_mset ?q" for y
  proof -
    have "set_pos z j s y = s y" if "z \<in># pq_mset ?q" for z j s
      using that \<open>y \<notin># pq_mset ?q\<close> by (auto simp: set_pos_def)
    then show ?thesis
      using remove_frame_in [where f = "\<lambda>m. m y", OF f(2), of "mem st" x] e f(3) pos by simp
  qed
  have gone: "x \<notin># pq_mset q"
  proof
    assume "x \<in># pq_mset q"
    then have "count (pq_mset ?q) x \<ge> 2" using rem by (auto simp: Suc_le_eq)
    then show False using queue_count [OF qok, of x] by simp
  qed
  have "queues_ok (set_queue r q (st\<lparr>mem := m\<rparr>))"
  proof (rule queue_step [where A = "queue_set r st"])
    fix r' assume "r' \<noteq> NoQueue" "r' \<noteq> r"
    then show "queue_set r st \<inter> queue_set r' st = {}"
      using queue_disjoint [OF ok] r by (auto simp: queue_set_def)
  qed (use ok r rem sz core out f(4,5) in \<open>auto simp: queue_set_def\<close>)
  moreover have "evt_remove x st = (0, set_queue r q (st\<lparr>mem := m\<rparr>))"
    using e r rem sl(1) f(5) [OF x] by (simp add: evt_remove_def Let_def)
  ultimately show ?thesis using rem sz core out r gone by (auto simp: queue_set_def)
qed

lemma change_size: "ps_pqueue_change_priority q p x s = (q', s') \<Longrightarrow> q_size q' = q_size q"
  by (auto simp: ps_pqueue_change_priority_def Let_def split: if_splits
      dest: bubble_up_size percolate_down_size)

lemma change_frame_in:
  assumes "pq_shape q" "slot_ok q (get_pos s x)" "q_cbs q = sched_cbs"
    "\<And>y j s. y \<in># pq_mset q \<Longrightarrow> f (set_pos y j s) = f s"
  shows "f (snd (ps_pqueue_change_priority q p x s)) = f (set_pri x p s)"
  using assms bubble_up_frame_in [of q "get_pos s x" f "set_pri x p s"]
    percolate_down_frame_in [of q "get_pos s x" f "set_pri x p s"]
  by (simp add: ps_pqueue_change_priority_def Let_def slot_ok_def get_pos_def set_pri_def)

text \<open>
  The callers of \<open>ps_pqueue_change_priority\<close> have already stored the new awake time, so the old
  and the new priority it compares are the same and it always bubbles up. That is right when
  the event moves to an earlier (or the same) time.
\<close>

lemma change_priority_prestored:
  assumes "q_cbs q = sched_cbs" "new \<le> nextAwake e" "sc_pos e = sc_pos e'"
  shows "ps_pqueue_change_priority q new x (m(x := e\<lparr>nextAwake := new\<rparr>)) =
    ps_pqueue_change_priority q new x (m(x := e))"
  using assms by (simp add: ps_pqueue_change_priority_def Let_def set_pri_def get_pri_def get_pos_def)

lemma evt_change_priority_earlier:
  assumes ok: "queues_ok st" and r: "r \<noteq> NoQueue" and x: "x \<in># pq_mset (queue_of r st)"
    and new: "new \<le> nextAwake (mem st x)"
    and e: "nextAwake e = new" "sc_queue e = r" "sc_inCallback e = 0" "sc_pos e = sc_pos (mem st x)"
  shows "\<exists>q m. evt_change_priority new x (st\<lparr>mem := (mem st)(x := e)\<rparr>) = set_queue r q (st\<lparr>mem := m\<rparr>)
    \<and> queues_ok (set_queue r q (st\<lparr>mem := m\<rparr>)) \<and> pq_mset q = pq_mset (queue_of r st)
    \<and> (\<forall>y. core (m y) = core (((mem st)(x := e)) y)) \<and> (\<forall>y. y \<notin> queue_set r st \<longrightarrow> m y = mem st y)"
proof -
  let ?q = "queue_of r st" and ?e0 = "e\<lparr>nextAwake := nextAwake (mem st x)\<rparr>"
  let ?m0 = "(mem st)(x := ?e0)" and ?m1 = "(mem st)(x := e)"
  note qok = queues_okD [OF ok r]
  note f = queue_ok_facts [OF qok] and sl = queued_slot [OF qok x]
  obtain q m where c: "ps_pqueue_change_priority ?q new x ?m0 = (q, m)" by (metis prod.exhaust)
  have e_new: "?e0\<lparr>nextAwake := new\<rparr> = e" using e(1) by (cases e) simp
  have c1: "ps_pqueue_change_priority ?q new x ?m1 = (q, m)"
    using change_priority_prestored [of ?q new ?e0 ?e0 x "mem st"] f(3) new c by (simp add: e_new)
  have inv0: "pq_inv sched_cbs ?q ?m0"
    by (rule pq_inv_cong [OF f(1)]) (simp add: get_pri_def get_pos_def e(4))
  note chg = sched_change_priority_inv [OF inv0 x c]
  have slot0: "slot_ok ?q (get_pos ?m0 x)" using sl(1) e(4) by (simp add: get_pos_def)
  have pri0: "set_pri x new ?m0 = ?m1" by (simp add: set_pri_def e_new [simplified])
  have core: "core (m y) = core (?m1 y)" for y
    using change_frame_in [where f = "\<lambda>m. core (m y)", OF f(2) slot0 f(3), of new] c
    by (simp only: core_set_pos pri0 snd_conv)
  have out: "m y = ?m1 y" if "y \<notin># pq_mset ?q" for y
  proof -
    have "set_pos z j s y = s y" if "z \<in># pq_mset ?q" for z j s
      using that \<open>y \<notin># pq_mset ?q\<close> by (auto simp: set_pos_def)
    then show ?thesis
      using change_frame_in [where f = "\<lambda>m. m y", OF f(2) slot0 f(3), of new] c
      by (simp only: pri0 snd_conv)
  qed
  let ?st1 = "st\<lparr>mem := ?m1\<rparr>" let ?st' = "set_queue r q (st\<lparr>mem := m\<rparr>)"
  have elems: "sc_queue (m y) = r \<and> sc_inCallback (m y) = 0" if "y \<in># pq_mset ?q" for y
    using f(5) [OF that] core_eqD(2,3) [OF core [of y]] e by auto
  have "queues_ok ?st'"
  proof (rule queues_okI)
    fix r' assume r': "r' \<noteq> NoQueue"
    show "queue_ok r' ?st'"
    proof (cases "r' = r")
      case True
      with r chg elems change_size [OF c] f(4) show ?thesis by (simp add: queue_ok_def queue_of_set_queue)
    next
      case False
      have same: "mem ?st' y = mem st y" if "y \<in># pq_mset (queue_of r' st)" for y
      proof -
        have "y \<notin># pq_mset ?q" using queue_disjoint [OF ok r' r that] False by blast
        with out x show ?thesis by auto
      qed
      show ?thesis
        by (rule queue_ok_cong [OF queues_okD [OF ok r'] _ same])
          (use False r r' in \<open>simp add: queue_of_set_queue\<close>)
    qed
  qed
  moreover have "evt_change_priority new x ?st1 = ?st'"
    using c1 r sl(1) e by (simp add: evt_change_priority_def Let_def)
  moreover have "m y = mem st y" if "y \<notin> queue_set r st" for y
    using out [of y] x r that by (auto simp: queue_set_def)
  ultimately show ?thesis using chg core by (intro exI [of _ q] exI [of _ m]) blast
qed

section \<open>The object invariant\<close>

lemma queued_set_queue:
  "r \<noteq> NoQueue \<Longrightarrow> queued (set_queue r q st) =
     set_mset (pq_mset q) \<union> queue_set (if r = MainQueue then DbgQueue else MainQueue) st"
  by (cases r) (auto simp: queued_def queue_set_def queue_of_set_queue)

lemma queued_split:
  "r \<noteq> NoQueue \<Longrightarrow> queued st = set_mset (pq_mset (queue_of r st))
     \<union> queue_set (if r = MainQueue then DbgQueue else MainQueue) st"
  by (cases r) (auto simp: queued_def queue_set_def)

lemma queued_upd [simp]:
  "queued (st\<lparr>mem := m\<rparr>) = queued st" "queued (st\<lparr>live := l\<rparr>) = queued st"
  "queued (st\<lparr>critical_sched_count := n\<rparr>) = queued st" "queued (st\<lparr>next_timed_event := e\<rparr>) = queued st"
  "queue_set r (st\<lparr>mem := m\<rparr>) = queue_set r st" "queue_set r (st\<lparr>live := l\<rparr>) = queue_set r st"
  by (simp_all add: queued_def queue_set_def)

lemma queues_ok_upd [simp]:
  "queues_ok (st\<lparr>live := l\<rparr>) = queues_ok st" "queues_ok (st\<lparr>critical_sched_count := n\<rparr>) = queues_ok st"
  "queues_ok (st\<lparr>next_timed_event := e\<rparr>) = queues_ok st"
  by (simp_all add: queues_ok_def queue_ok_def)

lemma queues_ok_write:
  assumes "queues_ok st" "x \<notin> queued st"
  shows "queues_ok (st\<lparr>mem := (mem st)(x := e)\<rparr>)"
proof (rule queues_okI)
  fix r :: queue_ref assume r: "r \<noteq> NoQueue"
  show "queue_ok r (st\<lparr>mem := (mem st)(x := e)\<rparr>)"
    by (rule queue_ok_cong [OF queues_okD [OF assms(1) r]]) (use assms(2) r in \<open>auto simp: in_queued\<close>)
qed

lemma crit_set_core:
  assumes "\<And>y. y \<in> live st' \<Longrightarrow> core (mem st' y) = core (mem st y)" "live st' = live st"
  shows "crit_set st' = crit_set st"
proof -
  have "sc_critical (mem st' y) = sc_critical (mem st y)" if "y \<in> live st'" for y
    by (rule core_eqD(4)) (rule assms(1) [OF that])
  with assms(2) show ?thesis by (auto simp: crit_set_def)
qed

lemma finite_crit_set: "finite (live st) \<Longrightarrow> finite (crit_set st)"
  by (simp add: crit_set_def)

lemma heap_objs_okD:
  assumes "heap_objs_ok st"
  shows "finite (live st)" "queued st \<subseteq> live st" "NULL \<notin> live st" "null_evt \<notin> live st"
    "\<And>x. x \<in> live st \<Longrightarrow> x \<notin> queued st \<Longrightarrow> sc_pos (mem st x) = SIZE_MAX"
    "next_timed_event st = NULL \<or> next_timed_event st = null_evt
        \<or> next_timed_event st \<in> live st \<and> sc_pos (mem st (next_timed_event st)) = SIZE_MAX"
    "critical_sched_count st = int (card (crit_set st))" "\<not> ub st"
  using assms unfolding heap_objs_ok_def by blast+

lemma not_queued_pos:
  assumes "queues_ok st" "sc_pos (mem st x) = SIZE_MAX"
  shows "x \<notin> queued st"
  using assms queued_slot(3) [OF queues_okD [OF assms(1)]] by (auto simp: in_queued)

section \<open>Adding an event\<close>

lemma EVT_sched_add_eq:
  "EVT_sched_add m ok now st time cb arg = EVT_sched_add_with_timestep m ok now st time time cb arg"
  by (simp add: EVT_sched_add_def EVT_sched_add_with_timestep_def)

lemma sched_add_ok:
  assumes inv: "sched_inv st" and p: "p \<notin> live st" "p \<noteq> NULL" "p \<noteq> null_evt"
    and room: "ok \<or> q_size (queue st) < q_avail (queue st)" "q_size (queue st) + 1 < SIZE_MAX"
    and r: "EVT_sched_add_with_timestep (Some p) ok now st time step cb arg = (e, st')"
  shows "e = p \<and> sched_inv st' \<and> pq_mset (queue st') = add_mset p (pq_mset (queue st))
    \<and> dbg_queue st' = dbg_queue st \<and> live st' = insert p (live st)
    \<and> core (mem st' p) = zero_ScheduleCB\<lparr>scheduleTime := now, timeStep := step, nextAwake := timeradd now time,
        sc_callback := cb, sc_arg := arg, sc_queue := MainQueue, sc_critical := 1\<rparr>
    \<and> (\<forall>y \<in> live st. core (mem st' y) = core (mem st y))
    \<and> critical_sched_count st' = critical_sched_count st + 1"
proof -
  let ?new = "zero_ScheduleCB\<lparr>scheduleTime := now, timeStep := step, nextAwake := timeradd now time,
        sc_callback := cb, sc_arg := arg, sc_queue := MainQueue, sc_critical := 1\<rparr>"
  let ?st1 = "st\<lparr>mem := (mem st)(p := ?new), live := insert p (live st)\<rparr>"
  have ok: "queues_ok st" and objs: "heap_objs_ok st" using inv by (auto simp: sched_inv_def)
  note h = heap_objs_okD [OF objs]
  have pq: "p \<notin> queued st" using h(2) p(1) by blast
  have ok1: "queues_ok ?st1" using queues_ok_write [OF ok pq] by simp
  have qm: "queue_of MainQueue st' = queue st'" for st' by (simp add: queue_of_def)
  obtain q m where i: "evt_insert ok p ?st1 = (0, set_queue MainQueue q (?st1\<lparr>mem := m\<rparr>))"
    "queues_ok (set_queue MainQueue q (?st1\<lparr>mem := m\<rparr>))"
    "pq_mset q = add_mset p (pq_mset (queue st))"
    and core: "\<And>y. core (m y) = core (((mem st)(p := ?new)) y)"
    and out: "\<And>y. y \<noteq> p \<Longrightarrow> y \<notin> queue_set MainQueue st \<Longrightarrow> m y = mem st y"
    using evt_insert_ok [OF ok1, of p MainQueue ok] pq room
    by (auto simp: zero_ScheduleCB_def qm)
  have st': "e = p" "st' = (set_queue MainQueue q (?st1\<lparr>mem := m\<rparr>))\<lparr>critical_sched_count := critical_sched_count st + 1\<rparr>"
    using r i(1) by (auto simp: EVT_sched_add_with_timestep_def Let_def)
  have q': "queued st' = insert p (queued st)"
    by (simp add: st' queued_set_queue queued_split [of MainQueue st] i(3) qm)
  have crit: "crit_set st' = insert p (crit_set st)"
    using core_eqD(4) [OF core] p(1) by (auto simp: crit_set_def st')
  have "heap_objs_ok st'"
    unfolding heap_objs_ok_def q' crit
  proof (intro conjI ballI)
    fix x assume x: "x \<in> live st'"
    show "x \<in> insert p (queued st) \<or> sc_pos (mem st' x) = SIZE_MAX"
    proof (cases "x \<in> insert p (queued st)")
      case False
      with x have "x \<in> live st" "x \<noteq> p" "x \<notin> queue_set MainQueue st" by (auto simp: st' queued_def)
      with h(5) [of x] out [of x] False show ?thesis by (simp add: st')
    qed simp
  next
    show "next_timed_event st' = NULL \<or> next_timed_event st' = null_evt
        \<or> next_timed_event st' \<in> live st' \<and> sc_pos (mem st' (next_timed_event st')) = SIZE_MAX"
      using h(6) p(1) out [of "next_timed_event st"] not_queued_pos [OF ok, of "next_timed_event st"]
      by (cases "next_timed_event st = p") (auto simp: st' queued_def)
  qed (use h p finite_crit_set [OF h(1)] in \<open>auto simp: st' crit_set_def\<close>)
  with i core p(1) show ?thesis
    by (auto simp: sched_inv_def st' set_queue_def core_def zero_ScheduleCB_def)
qed

section \<open>Updating and removing events\<close>

lemma heap_objs_same:
  assumes "heap_objs_ok st" "live st' = live st" "queued st' = queued st"
    "next_timed_event st' = next_timed_event st" "critical_sched_count st' = critical_sched_count st"
    "ub st' = ub st" "queues_ok st"
    "\<And>y. y \<in> live st \<Longrightarrow> sc_critical (mem st' y) = sc_critical (mem st y)"
    "\<And>y. y \<in> live st \<Longrightarrow> y \<notin> queued st \<Longrightarrow> sc_pos (mem st' y) = sc_pos (mem st y)"
  shows "heap_objs_ok st'"
proof -
  note h = heap_objs_okD [OF assms(1)]
  have "crit_set st' = crit_set st" using assms(2,8) by (auto simp: crit_set_def)
  moreover have "sc_pos (mem st' x) = SIZE_MAX" if "x \<in> live st" "x \<notin> queued st" for x
    using h(5) [OF that] assms(9) [OF that] by simp
  moreover have "sc_pos (mem st' x) = SIZE_MAX" if "x \<in> live st" "sc_pos (mem st x) = SIZE_MAX" for x
    using that assms(9) [OF that(1) not_queued_pos [OF assms(7) that(2)]] by simp
  ultimately show ?thesis using h assms(2-6) unfolding heap_objs_ok_def by auto
qed

lemma queued_ref:
  assumes "queues_ok st" "x \<in> queued st"
  obtains r where "r \<noteq> NoQueue" "x \<in># pq_mset (queue_of r st)" "sc_queue (mem st x) = r"
    "sc_inCallback (mem st x) = 0"
  using assms queue_ok_facts(5) [OF queues_okD] by (metis in_queued)

lemma sched_reprioritise:
  assumes inv: "sched_inv st" and x: "x \<in> queued st" and new: "new \<le> nextAwake (mem st x)"
    and e: "nextAwake e = new" "sc_queue e = sc_queue (mem st x)" "sc_inCallback e = 0"
      "sc_pos e = sc_pos (mem st x)" "sc_critical e = sc_critical (mem st x)"
    and st': "st' = evt_change_priority new x (st\<lparr>mem := (mem st)(x := e)\<rparr>)"
  shows "sched_inv st' \<and> queued st' = queued st \<and> live st' = live st
    \<and> (\<forall>y. core (mem st' y) = core (((mem st)(x := e)) y))"
proof -
  have ok: "queues_ok st" and objs: "heap_objs_ok st" using inv by (auto simp: sched_inv_def)
  obtain r where r: "r \<noteq> NoQueue" "x \<in># pq_mset (queue_of r st)" "sc_queue (mem st x) = r"
    by (rule queued_ref [OF ok x])
  have er: "sc_queue e = r" using e(2) r(3) by simp
  obtain q m where c: "st' = set_queue r q (st\<lparr>mem := m\<rparr>)" "queues_ok st'"
    "pq_mset q = pq_mset (queue_of r st)"
    and core: "\<And>y. core (m y) = core (((mem st)(x := e)) y)"
    and out: "\<And>y. y \<notin> queue_set r st \<Longrightarrow> m y = mem st y"
    using evt_change_priority_earlier [OF ok r(1,2) new e(1) er e(3,4)] st' by auto
  have q': "queued st' = queued st"
    using r(1) by (simp add: c(1) queued_set_queue queued_split [of r st] c(3))
  have "heap_objs_ok st'"
  proof (rule heap_objs_same [OF objs])
    fix y assume "y \<notin> queued st"
    then have "y \<notin> queue_set r st" using r(1) by (auto simp: in_queued queue_set_def)
    then show "sc_pos (mem st' y) = sc_pos (mem st y)" by (simp add: c(1) out)
  next
    fix y show "sc_critical (mem st' y) = sc_critical (mem st y)"
      using core_eqD(4) [OF core [of y]] e(5) by (simp add: c(1) split: if_splits)
  qed (use q' ok in \<open>auto simp: c(1)\<close>)
  with c q' core show ?thesis by (auto simp: sched_inv_def)
qed

lemma evt_remove_queued:
  assumes ok: "queues_ok st" and x: "x \<in> queued st" and nt: "\<not> tied_last st x"
  obtains r q m where "r \<noteq> NoQueue" "sc_queue (mem st x) = r"
    "evt_remove x st = (0, set_queue r q (st\<lparr>mem := m\<rparr>))" "queues_ok (set_queue r q (st\<lparr>mem := m\<rparr>))"
    "queued (set_queue r q (st\<lparr>mem := m\<rparr>)) = queued st - {x}"
    "q_size (queue_of MainQueue (set_queue r q (st\<lparr>mem := m\<rparr>))) \<le> q_size (queue st)"
    "q_size (queue_of DbgQueue (set_queue r q (st\<lparr>mem := m\<rparr>))) \<le> q_size (dbg_queue st)"
    "\<And>y. core (m y) = core (mem st y)" "\<And>y. y \<notin> queued st \<Longrightarrow> m y = mem st y"
proof -
  obtain r where r: "r \<noteq> NoQueue" "x \<in># pq_mset (queue_of r st)" "sc_queue (mem st x) = r"
    by (rule queued_ref [OF ok x])
  obtain q m where c: "evt_remove x st = (0, set_queue r q (st\<lparr>mem := m\<rparr>))"
    "queues_ok (set_queue r q (st\<lparr>mem := m\<rparr>))" "add_mset x (pq_mset q) = pq_mset (queue_of r st)"
    "q_size q + 1 = q_size (queue_of r st)" "x \<notin># pq_mset q"
    and core: "\<And>y. core (m y) = core (mem st y)" and out: "\<And>y. y \<notin> queue_set r st \<Longrightarrow> m y = mem st y"
    using evt_remove_ok [OF ok r(1,2) nt] by blast
  let ?o = "if r = MainQueue then DbgQueue else MainQueue"
  have "?o \<noteq> NoQueue" "?o \<noteq> r" using r(1) by (cases r; simp)+
  then have xo: "x \<notin> queue_set ?o st"
    using queue_disjoint [OF ok r(1) _ r(2), of ?o] by (metis queue_set_def)
  have xs: "set_mset (pq_mset q) = set_mset (pq_mset (queue_of r st)) - {x}"
    using c(3,5) by (metis Diff_insert_absorb set_mset_add_mset_insert)
  have q': "queued (set_queue r q (st\<lparr>mem := m\<rparr>)) = queued st - {x}"
    unfolding queued_set_queue [OF r(1)] queued_split [OF r(1), of st] xs using xo by (auto simp: queue_set_def)
  have "queue_set r st \<subseteq> queued st" using r(1) by (auto simp: in_queued queue_set_def)
  with out have out': "\<And>y. y \<notin> queued st \<Longrightarrow> m y = mem st y" by blast
  show thesis
    by (rule that [OF r(1,3) c(1,2) q' _ _ core out'])
      (use c(4) r(1) in \<open>auto simp: queue_of_def set_queue_def split: if_splits\<close>)
qed

lemma sched_remove_queued:
  assumes inv: "sched_inv st" and x: "x \<in> queued st" and nt: "\<not> tied_last st x"
    and r: "EVT_sched_remove st x = (a, st')"
  shows "a = sc_arg (mem st x) \<and> sched_inv st' \<and> queued st' = queued st - {x} \<and> live st' = live st - {x}
    \<and> (\<forall>y. y \<noteq> x \<longrightarrow> core (mem st' y) = core (mem st y))"
proof -
  have ok: "queues_ok st" and objs: "heap_objs_ok st" using inv by (auto simp: sched_inv_def)
  note h = heap_objs_okD [OF objs]
  obtain qr where qr: "qr \<noteq> NoQueue" "x \<in># pq_mset (queue_of qr st)" "sc_queue (mem st x) = qr"
    "sc_inCallback (mem st x) = 0"
    by (rule queued_ref [OF ok x])
  have pos: "sc_pos (mem st x) \<noteq> SIZE_MAX" using queued_slot(3) [OF queues_okD [OF ok qr(1)] qr(2)] .
  have xl: "x \<in> live st" "x \<noteq> NULL" "x \<noteq> null_evt" using h x by auto
  then have nx: "next_timed_event st \<noteq> x" using h(6) pos by auto
  define n where "n = (if sc_critical (mem st x) \<noteq> 0 then critical_sched_count st - 1 else critical_sched_count st)"
  let ?st1 = "st\<lparr>critical_sched_count := n\<rparr>"
  have t1: "queues_ok ?st1" "x \<in> queued ?st1" "\<not> tied_last ?st1 x" using ok x nt by (auto simp: tied_last_def)
  obtain qr' q m where c: "evt_remove x ?st1 = (0, set_queue qr' q (?st1\<lparr>mem := m\<rparr>))"
    "queues_ok (set_queue qr' q (?st1\<lparr>mem := m\<rparr>))" "queued (set_queue qr' q (?st1\<lparr>mem := m\<rparr>)) = queued ?st1 - {x}"
    and core: "\<And>y. core (m y) = core (mem ?st1 y)" and out: "\<And>y. y \<notin> queued ?st1 \<Longrightarrow> m y = mem ?st1 y"
    by (rule evt_remove_queued [OF t1]) blast
  let ?st2 = "set_queue qr' q (?st1\<lparr>mem := m\<rparr>)"
  have core: "core (m y) = core (mem st y)" and out: "y \<notin> queued st \<Longrightarrow> m y = mem st y" for y
    using core [of y] out [of y] by simp_all
  have s1: "(if sc_critical (mem st x) \<noteq> 0 then st\<lparr>critical_sched_count := critical_sched_count st - 1\<rparr>
      else st) = ?st1" by (simp add: n_def)
  have st': "a = sc_arg (m x)" "st' = ?st2\<lparr>mem := m(x := (m x)\<lparr>sc_pos := SIZE_MAX\<rparr>), live := live st - {x}\<rparr>"
    using r xl nx qr(4) pos c(1) unfolding EVT_sched_remove_def Let_def s1
    by (auto simp: free_evt_def)
  have q2: "queued ?st2 = queued st - {x}" using c(3) by simp
  have "queues_ok (?st2\<lparr>mem := (mem ?st2)(x := (m x)\<lparr>sc_pos := SIZE_MAX\<rparr>)\<rparr>)"
    by (rule queues_ok_write [OF c(2)]) (simp add: q2)
  then have ok': "queues_ok st'" by (simp add: st')
  have q': "queued st' = queued st - {x}" using q2 by (simp add: st')
  have crit: "crit_set st' = crit_set st - {x}"
    using core_eqD(4) [OF core] by (auto simp: crit_set_def st')
  have "heap_objs_ok st'"
    unfolding heap_objs_ok_def q' crit
  proof (intro conjI ballI)
    fix y assume y: "y \<in> live st'"
    show "y \<in> queued st - {x} \<or> sc_pos (mem st' y) = SIZE_MAX"
    proof (cases "y \<in> queued st - {x}")
      case False
      with y have "y \<in> live st" "y \<noteq> x" "y \<notin> queued st" by (auto simp: st')
      with h(5) [of y] out [of y] show ?thesis by (simp add: st')
    qed simp
  next
    have "next_timed_event st \<notin> queued st" if "sc_pos (mem st (next_timed_event st)) = SIZE_MAX"
      by (rule not_queued_pos [OF ok that])
    then show "next_timed_event st' = NULL \<or> next_timed_event st' = null_evt
        \<or> next_timed_event st' \<in> live st' \<and> sc_pos (mem st' (next_timed_event st')) = SIZE_MAX"
      using h(6) nx out [of "next_timed_event st"] by (auto simp: st')
  next
    have "finite (crit_set st)" "x \<in> crit_set st \<longleftrightarrow> sc_critical (mem st x) \<noteq> 0"
      using h(1) xl by (auto simp: crit_set_def)
    then show "critical_sched_count st' = int (card (crit_set st - {x}))"
      using h(7) by (auto simp: st' n_def int_card_remove)
  qed (use h in \<open>auto simp: st'\<close>)
  with ok' q' core core_eqD(5) [OF core] show ?thesis by (auto simp: sched_inv_def st')
qed

end
