(* ===== verification/Sched_Correct.thy ===== *)
theory Sched_Correct
  imports Sched
begin

text \<open>
  The properties of the priority queue and of the timed-event interface of \<open>events.c\<close>:
  the invariant is established by \<open>EVT_initWithSize\<close> and kept by every operation outside two
  situations in which the code breaks it, which have theorems of their own: removal of an event
  in the last slot that is tied with its parent, and an update to a later time.
\<close>

section \<open>Writes that do not move an event\<close>

lemma queues_ok_write_same:
  assumes ok: "queues_ok st" and e: "nextAwake e = nextAwake (mem st x)" "sc_pos e = sc_pos (mem st x)"
    "sc_queue e = sc_queue (mem st x)" "sc_inCallback e = sc_inCallback (mem st x)"
  shows "queues_ok (st\<lparr>mem := (mem st)(x := e)\<rparr>)"
proof (rule queues_okI)
  fix r :: queue_ref assume r: "r \<noteq> NoQueue"
  note f = queue_ok_facts [OF queues_okD [OF ok r]]
  have "pq_inv sched_cbs (queue_of r st) ((mem st)(x := e))"
    by (rule pq_inv_cong [OF f(1)]) (simp add: get_pri_def get_pos_def e)
  with f(4,5) e show "queue_ok r (st\<lparr>mem := (mem st)(x := e)\<rparr>)"
    by (auto simp: queue_ok_def)
qed

lemma sched_write_same:
  assumes inv: "sched_inv st" and e: "nextAwake e = nextAwake (mem st x)" "sc_pos e = sc_pos (mem st x)"
    "sc_queue e = sc_queue (mem st x)" "sc_inCallback e = sc_inCallback (mem st x)"
    "sc_critical e = sc_critical (mem st x)"
  shows "sched_inv (st\<lparr>mem := (mem st)(x := e)\<rparr>)"
proof -
  have ok: "queues_ok st" and objs: "heap_objs_ok st" using inv by (auto simp: sched_inv_def)
  have "heap_objs_ok (st\<lparr>mem := (mem st)(x := e)\<rparr>)"
    by (rule heap_objs_same [OF objs]) (use ok e in auto)
  with queues_ok_write_same [OF ok e(1-4)] show ?thesis by (simp add: sched_inv_def)
qed

lemma EVT_sched_make_breakpoint_inv: "sched_inv st \<Longrightarrow> x \<in> live st \<Longrightarrow> sched_inv (EVT_sched_make_breakpoint st x)"
  by (auto simp: EVT_sched_make_breakpoint_def intro!: sched_write_same)

lemma EVT_sched_set_name_inv: "sched_inv st \<Longrightarrow> x \<in> live st \<Longrightarrow> sched_inv (EVT_sched_set_name st x s)"
  by (auto simp: EVT_sched_set_name_def intro!: sched_write_same)

lemma crit_set_write:
  "crit_set (st\<lparr>mem := (mem st)(x := e)\<rparr>) =
     (if x \<in> live st \<and> sc_critical e \<noteq> 0 then insert x (crit_set st) else crit_set st - {x})"
  by (auto simp: crit_set_def)

lemma crit_set_count [simp]: "crit_set (st\<lparr>critical_sched_count := n\<rparr>) = crit_set st"
  by (simp add: crit_set_def)

section \<open>Removing a tied event from the last slot\<close>

lemma bubble_up_loop_above: "i < j \<Longrightarrow> fst (bubble_up_loop c m p i d s) ! j = d ! j"
proof (induction i arbitrary: d s rule: less_induct)
  case (less i)
  then show ?case by (subst bubble_up_loop.simps) (auto simp: Let_def parent_def)
qed

lemma sched_remove_tied:
  assumes inv: "pq_inv sched_cbs q m" and p: "get_pos m x = p" "p = q_size q - 1" "1 \<le> p" "p \<noteq> 1" "q_d q ! p = x"
    and tie: "get_pri m (q_d q ! (p div 2)) = get_pri m x"
    and r: "ps_pqueue_remove q x m = (res, q', m')"
  shows "x \<in># pq_mset q' \<and> res = 0"
proof -
  let ?l = "bubble_up_loop sched_cbs x (get_pri m x) p (q_d q) m"
  have wf: "pq_wf sched_cbs q m" and sh: "pq_shape q" using inv by (auto simp: pq_inv_def pq_wf_def)
  have q': "res = 0" "q' = q\<lparr>q_size := p, q_d := fst ?l\<rparr>"
    using sched.remove_last_eq [OF wf, of x p] p r by auto
  have b: "p < length (q_d q)" "p div 2 < p" "1 \<le> p div 2" "2 \<le> p" "p < q_size q"
    using sh p by (auto simp: pq_shape_def)
  have "q_d q ! (p div 2) \<noteq> x"
    using sched.inv_distinct [OF inv, of "p div 2" p] b p(5) by auto
  moreover have "fst ?l ! p = q_d q ! (p div 2)"
    using tie b by (subst bubble_up_loop.simps) (simp add: Let_def parent_def bubble_up_loop_above)
  ultimately have neq: "fst ?l ! p \<noteq> x" by simp
  note ms = bubble_up_loop_mset [of p "Suc p" "q_d q" sched_cbs x "get_pri m x" m]
  let ?q2 = "q\<lparr>q_size := Suc p, q_d := fst ?l\<rparr>"
  have idle: "(q_d q)[p := x] = q_d q" using p(5) list_update_id [of "q_d q" p] by simp
  have "pq_mset ?q2 = pq_mset q"
    by (rule pq_mset_eqI) (use ms b p sh idle in \<open>auto simp: pq_shape_def\<close>)
  moreover have "x \<in># pq_mset q" using cell_in_pq_mset [OF sh p(3) b(5)] p(5) by simp
  ultimately have "x \<in># pq_mset ?q2" by simp
  then obtain j where "1 \<le> j" "j < Suc p" "fst ?l ! j = x"
    using in_pq_mset [of ?q2 x] ms b by auto
  with neq have "1 \<le> j" "j < p" "fst ?l ! j = x" by (auto simp: less_Suc_eq)
  then show ?thesis using in_pq_mset [of q' x] q' ms b by auto
qed

section \<open>The initial state\<close>

lemma init_queue_ok:
  assumes "ps_pqueue_init a b n sched_cbs = Some q" "n + 1 < SIZE_MAX"
  shows "pq_inv sched_cbs q m \<and> q_size q < SIZE_MAX \<and> pq_mset q = {#}"
  using assms
  by (auto simp: ps_pqueue_init_def pq_inv_def pq_wf_def pq_shape_def heap_ok_def pos_ok_def pq_mset_def
      split: if_splits)

lemma init_sched_inv:
  assumes "EVT_initWithSize a b c d f e n = Some st" "n + 1 < SIZE_MAX"
  shows "sched_inv st \<and> queued st = {} \<and> live st = {}"
proof -
  from assms obtain q dq where q: "ps_pqueue_init (fst b) (snd b) n sched_cbs = Some q"
    "ps_pqueue_init (fst c) (snd c) n sched_cbs = Some dq"
    and st: "queue st = q" "dbg_queue st = dq" "live st = {}" "next_timed_event st = NULL"
      "critical_sched_count st = 0" "\<not> ub st"
    by (auto simp: EVT_initWithSize_def Let_def zero_EventState_def split: option.splits if_splits)
  note i = init_queue_ok [OF q(1) assms(2), of "mem st"] init_queue_ok [OF q(2) assms(2), of "mem st"]
  have em: "queued st = {}" using i by (auto simp: queued_def queue_set_def queue_of_def st)
  have "queue_ok r st" for r using i by (simp add: queue_ok_def queue_of_def st)
  with em show ?thesis
    by (auto simp: sched_inv_def queues_ok_def heap_objs_ok_def crit_set_def st)
qed

section \<open>A small handler for the examples\<close>

definition st_init :: EventState where
  "st_init = the (EVT_initWithSize True (True, True) (True, True) True 7 None 19)"

definition st_one :: EventState where
  "st_one = snd (EVT_sched_add (Some 10) True (Timeval 100 0) st_init (Timeval 5 0) 20 30)"

lemma st_init_eq: "EVT_initWithSize True (True, True) (True, True) True 7 None 19 = Some st_init"
  by (simp add: st_init_def EVT_initWithSize_def ps_pqueue_init_def)

lemma st_init_inv: "sched_inv st_init" "queued st_init = {}" "live st_init = {}"
  using init_sched_inv [OF st_init_eq] by (simp_all add: SIZE_MAX_def)

lemma st_init_queue: "queue st_init = \<lparr>q_size = 1, q_avail = 20, q_step = 20, q_cbs = sched_cbs, q_d = replicate 20 0\<rparr>"
  by (simp add: st_init_def EVT_initWithSize_def ps_pqueue_init_def)

lemma st_one_facts:
  "sched_inv st_one" "queued st_one = {10}" "live st_one = {10}" "nextAwake (mem st_one 10) = Timeval 105 0"
  "sc_arg (mem st_one 10) = 30" "sc_pos (mem st_one 10) = 1" "sc_queue (mem st_one 10) = MainQueue"
proof -
  obtain e st' where e: "EVT_sched_add_with_timestep (Some 10) True (Timeval 100 0) st_init (Timeval 5 0) (Timeval 5 0) 20 30 = (e, st')"
    by (metis prod.exhaust)
  have st1: "st_one = st'" using e by (simp add: st_one_def EVT_sched_add_eq)
  have a: "e = 10 \<and> sched_inv st' \<and> pq_mset (queue st') = add_mset 10 (pq_mset (queue st_init))
    \<and> dbg_queue st' = dbg_queue st_init \<and> live st' = insert 10 (live st_init)
    \<and> core (mem st' 10) = zero_ScheduleCB\<lparr>scheduleTime := Timeval 100 0, timeStep := Timeval 5 0,
        nextAwake := timeradd (Timeval 100 0) (Timeval 5 0),
        sc_callback := 20, sc_arg := 30, sc_queue := MainQueue, sc_critical := 1\<rparr>
    \<and> (\<forall>y \<in> live st_init. core (mem st' y) = core (mem st_init y))
    \<and> critical_sched_count st' = critical_sched_count st_init + 1"
    by (rule sched_add_ok [OF st_init_inv(1) _ _ _ _ _ e])
      (simp_all add: st_init_inv NULL_def null_evt_def st_init_queue SIZE_MAX_def)
  then have c: "core (mem st' 10) = core (zero_ScheduleCB\<lparr>scheduleTime := Timeval 100 0, timeStep := Timeval 5 0,
        nextAwake := timeradd (Timeval 100 0) (Timeval 5 0),
        sc_callback := 20, sc_arg := 30, sc_queue := MainQueue, sc_critical := 1\<rparr>)"
    by (simp add: core_def zero_ScheduleCB_def)
  have em: "pq_mset (queue st_init) = {#}" "pq_mset (dbg_queue st_init) = {#}"
    using st_init_inv(2) by (auto simp: queued_def queue_set_def queue_of_def)
  show "sched_inv st_one" "queued st_one = {10}" "live st_one = {10}"
    using a em st_init_inv by (auto simp: st1 queued_def queue_set_def queue_of_def)
  show "nextAwake (mem st_one 10) = Timeval 105 0" "sc_arg (mem st_one 10) = 30" "sc_queue (mem st_one 10) = MainQueue"
    using core_eqD [OF c] by (simp_all add: st1 timeradd_def)
  show "sc_pos (mem st_one 10) = 1"
    using e by (auto simp: st1 EVT_sched_add_with_timestep_def evt_insert_def queue_of_def set_queue_def
        ps_pqueue_insert_def st_init_queue bubble_up_def bubble_up_loop.simps set_pos_def Let_def zero_ScheduleCB_def)
qed

lemma st_one_queue:
  "queue st_one = \<lparr>q_size = 2, q_avail = 20, q_step = 20, q_cbs = sched_cbs, q_d = (replicate 20 0)[1 := 10]\<rparr>"
  by (simp add: st_one_def EVT_sched_add_def evt_insert_def queue_of_def set_queue_def
        ps_pqueue_insert_def st_init_queue bubble_up_def bubble_up_loop.simps set_pos_def Let_def zero_ScheduleCB_def)

definition st_two :: EventState where
  "st_two = snd (EVT_sched_add (Some 11) True (Timeval 100 0) st_one (Timeval 5 0) 20 31)"

lemmas sched_eval = EVT_sched_add_def evt_insert_def queue_of_def set_queue_def ps_pqueue_insert_def
  bubble_up_def bubble_up_loop.simps parent_def set_pos_def get_pri_def get_pos_def Let_def zero_ScheduleCB_def

lemma mem_st_one: "mem st_one = (mem st_init)(10 := zero_ScheduleCB\<lparr>scheduleTime := Timeval 100 0,
    timeStep := Timeval 5 0, nextAwake := Timeval 105 0, sc_callback := 20, sc_arg := 30,
    sc_queue := MainQueue, sc_critical := 1, sc_pos := 1\<rparr>)"
  by (simp add: st_one_def st_init_queue sched_eval timeradd_def)

lemma st_two_eval:
  "queue st_two = \<lparr>q_size = 3, q_avail = 20, q_step = 20, q_cbs = sched_cbs,
     q_d = (replicate 20 0)[1 := 11, 2 := 10]\<rparr>"
  "sc_pos (mem st_two 10) = 2" "sc_pos (mem st_two 11) = 1" "sc_queue (mem st_two 10) = MainQueue"
  "nextAwake (mem st_two 10) = Timeval 105 0" "nextAwake (mem st_two 11) = Timeval 105 0"
  by (simp_all add: st_two_def st_one_queue mem_st_one sched_eval timeradd_def list_update_swap)

lemma st_two_inv: "sched_inv st_two" "queued st_two = {10, 11}" "live st_two = {10, 11}"
proof -
  obtain e st' where e: "EVT_sched_add_with_timestep (Some 11) True (Timeval 100 0) st_one (Timeval 5 0) (Timeval 5 0) 20 31 = (e, st')"
    by (metis prod.exhaust)
  have st1: "st_two = st'" using e by (simp add: st_two_def EVT_sched_add_eq)
  have a: "sched_inv st' \<and> pq_mset (queue st') = add_mset 11 (pq_mset (queue st_one))
    \<and> dbg_queue st' = dbg_queue st_one \<and> live st' = insert 11 (live st_one)"
    using sched_add_ok [OF st_one_facts(1) _ _ _ _ _ e]
    by (simp add: st_one_facts NULL_def null_evt_def st_one_queue SIZE_MAX_def)
  then show "sched_inv st_two" "queued st_two = {10, 11}" "live st_two = {10, 11}"
    using st_one_facts(2,3) by (auto simp: st1 queued_def queue_set_def queue_of_def)
qed

section \<open>Properties of the queue on the scheduler's callbacks\<close>

text \<open>
  C1: \<open>ps_pqueue_pop\<close> on a well-formed queue of timed events takes out an event with the earliest
  awake time, exactly that one, keeps the heap order and the recorded positions, and changes no
  awake time.
\<close>

theorem pop_earliest:
  assumes "pq_inv sched_cbs q m" "q_size q \<noteq> 1"
  shows "\<exists>h q' m'. ps_pqueue_pop q m = (Some h, q', m') \<and> ps_pqueue_peek q = Some h
    \<and> (\<forall>x \<in># pq_mset q. nextAwake (m h) \<le> nextAwake (m x))
    \<and> pq_mset q = add_mset h (pq_mset q') \<and> pq_inv sched_cbs q' m' \<and> get_pri m' = get_pri m"
proof -
  let ?r = "ps_pqueue_pop q m"
  have p: "?r = (Some (q_d q ! 1), fst (snd ?r), snd (snd ?r))" "ps_pqueue_peek q = Some (q_d q ! 1)"
    using assms(2) by (simp_all add: ps_pqueue_pop_def ps_pqueue_peek_def Let_def split_beta)
  then obtain q' m' where r: "?r = (Some (q_d q ! 1), q', m')" by blast
  then show ?thesis using sched_pop_inv [OF assms(1) r] p(2) by (auto simp: get_pri_def)
qed

theorem pop_earliest_witness:
  "\<exists>h q' m'. ps_pqueue_pop (queue st_one) (mem st_one) = (Some h, q', m')
     \<and> pq_mset (queue st_one) = add_mset h (pq_mset q') \<and> pq_inv sched_cbs q' m'"
proof -
  have inv: "pq_inv sched_cbs (queue st_one) (mem st_one)" and sh: "pq_shape (queue st_one)"
    using st_one_facts(1) queue_ok_facts(1,2) [OF queues_okD [of st_one MainQueue]]
    by (auto simp: sched_inv_def queue_of_def)
  have "q_size (queue st_one) \<noteq> 1" by (simp add: st_one_queue)
  then show ?thesis using pop_earliest [OF inv] by blast
qed

text \<open>
  \<open>ps_pqueue_print\<close> hands the queued events to the print callback in order of their awake
  times, each exactly once.
\<close>

theorem ps_pqueue_print_sorted:
  assumes "pq_inv sched_cbs q m"
  shows "sorted (map (\<lambda>x. nextAwake (m x)) (ps_pqueue_print q m)) \<and> mset (ps_pqueue_print q m) = pq_mset q"
proof -
  have "pq_wf (dup_cbs sched_cbs) (q\<lparr>q_cbs := dup_cbs sched_cbs\<rparr>) m"
    using assms by (simp add: pq_inv_def pq_wf_def pq_shape_def dup_cbs_def)
  then have "sorted (map (get_pri m) (print_loop (q\<lparr>q_cbs := dup_cbs sched_cbs\<rparr>) m))
    \<and> mset (print_loop (q\<lparr>q_cbs := dup_cbs sched_cbs\<rparr>) m) = pq_mset (q\<lparr>q_cbs := dup_cbs sched_cbs\<rparr>)"
    using sched_dup.print_loop_sorted [of "q\<lparr>q_cbs := dup_cbs sched_cbs\<rparr>" m] by (simp add: dup_cbs_def)
  moreover have "q_cbs q = sched_cbs" using assms by (simp add: pq_inv_def pq_wf_def)
  moreover have "get_pri m = (\<lambda>x. nextAwake (m x))" by (rule ext) (simp add: get_pri_def)
  ultimately show ?thesis by (simp add: ps_pqueue_print_def pq_mset_def)
qed

theorem ps_pqueue_print_witness:
  "sorted (map (\<lambda>x. nextAwake (mem st_one x)) (ps_pqueue_print (queue st_one) (mem st_one)))"
  using ps_pqueue_print_sorted [of "queue st_one" "mem st_one"] st_one_facts(1)
    queue_ok_facts(1) [OF queues_okD [of st_one MainQueue]]
  by (simp add: sched_inv_def queue_of_def)

text \<open>
  \<open>ps_pqueue_is_valid\<close> accepts a queue of timed events exactly when every event is strictly
  later than its parent; a well-formed heap with two events due at the same time may be rejected.
\<close>

theorem ps_pqueue_is_valid_strict:
  assumes "q_cbs q = sched_cbs"
  shows "ps_pqueue_is_valid q m \<longleftrightarrow>
    (\<forall>j. 2 \<le> j \<and> j < q_size q \<longrightarrow> nextAwake (m (q_d q ! (j div 2))) < nextAwake (m (q_d q ! j)))"
  using sched.is_valid_iff [OF assms, of m] by (simp add: get_pri_def)

theorem ps_pqueue_is_valid_witness:
  "\<not> ps_pqueue_is_valid \<lparr>q_size = 3, q_avail = 3, q_step = 3, q_cbs = sched_cbs, q_d = [0, 10, 11]\<rparr>
       (\<lambda>_. zero_ScheduleCB)
   \<and> heap_ok (get_pri (\<lambda>_. zero_ScheduleCB)) [0, 10, 11] 3"
  using ps_pqueue_is_valid_strict [of "\<lparr>q_size = 3, q_avail = 3, q_step = 3, q_cbs = sched_cbs, q_d = [0, 10, 11]\<rparr>"
      "\<lambda>_. zero_ScheduleCB"]
  by (auto simp: heap_ok_def get_pri_def intro: exI [of _ 2])

section \<open>Properties of the timed-event interface\<close>

text \<open>
  \<open>EVT_initWithSize\<close>, when it returns a handler, returns one that satisfies the scheduler's
  invariant, with empty queues and no event allocated.
\<close>

theorem EVT_initWithSize_inv:
  assumes "EVT_initWithSize ok1 okq okd okt null_cb env n = Some st" "n + 1 < SIZE_MAX"
  shows "sched_inv st \<and> queued st = {} \<and> live st = {} \<and> (initialDebuggerState st = EDBG_DISABLED \<longleftrightarrow> debuggerState st = EDBG_DISABLED)"
proof -
  have "initialDebuggerState st = EDBG_DISABLED \<longleftrightarrow> debuggerState st = EDBG_DISABLED"
    using assms(1) by (auto simp: EVT_initWithSize_def Let_def split: if_splits option.splits)
  with init_sched_inv [OF assms] show ?thesis by simp
qed

theorem EVT_initWithSize_witness: "sched_inv st_init \<and> queued st_init = {}"
  using EVT_initWithSize_inv [OF st_init_eq] by (simp add: SIZE_MAX_def)

text \<open>
  C2: A successful \<open>EVT_sched_add\<close> returns the new event, queues it at the current time plus the
  requested delay with that delay as its period, counts it as critical work, keeps the
  scheduler's invariant and leaves every other event as it was.
\<close>

theorem EVT_sched_add_correct:
  assumes "sched_inv st" "p \<notin> live st" "p \<noteq> NULL" "p \<noteq> null_evt"
    and "ok \<or> q_size (queue st) < q_avail (queue st)" "q_size (queue st) + 1 < SIZE_MAX"
    and "EVT_sched_add (Some p) ok now st time cb arg = (e, st')"
  shows "e = p \<and> sched_inv st' \<and> pq_mset (queue st') = add_mset p (pq_mset (queue st))
    \<and> dbg_queue st' = dbg_queue st \<and> live st' = insert p (live st)
    \<and> nextAwake (mem st' p) = timeradd now time \<and> timeStep (mem st' p) = time
    \<and> sc_callback (mem st' p) = cb \<and> sc_arg (mem st' p) = arg
    \<and> critical_sched_count st' = critical_sched_count st + 1
    \<and> (\<forall>y \<in> live st. core (mem st' y) = core (mem st y))"
proof -
  note a = sched_add_ok [OF assms(1-6) assms(7) [unfolded EVT_sched_add_eq]]
  let ?new = "zero_ScheduleCB\<lparr>scheduleTime := now, timeStep := time, nextAwake := timeradd now time,
        sc_callback := cb, sc_arg := arg, sc_queue := MainQueue, sc_critical := 1\<rparr>"
  have "core (mem st' p) = core ?new" using a by (simp add: core_def zero_ScheduleCB_def)
  note c = core_eqD [OF this]
  with a c show ?thesis by simp
qed

theorem EVT_sched_add_witness:
  "sched_inv (snd (EVT_sched_add (Some 10) True (Timeval 100 0) st_init (Timeval 5 0) 20 30))
   \<and> nextAwake (mem (snd (EVT_sched_add (Some 10) True (Timeval 100 0) st_init (Timeval 5 0) 20 30)) 10)
     = Timeval 105 0"
  using EVT_sched_add_correct [OF st_init_inv(1), of 10 True "Timeval 100 0" "Timeval 5 0" 20 30]
  by (cases "EVT_sched_add (Some 10) True (Timeval 100 0) st_init (Timeval 5 0) 20 30")
    (simp add: st_init_inv NULL_def null_evt_def st_init_queue SIZE_MAX_def timeradd_def)

text \<open>
  When an allocation fails, \<open>EVT_sched_add\<close> returns \<open>NULL\<close>, frees what it allocated and leaves
  the queues, the count of critical work and every allocated event unchanged.
\<close>

theorem EVT_sched_add_failure:
  assumes "sched_inv st" "m = None \<or> \<not> ok \<and> q_size (queue st) = q_avail (queue st)"
    "\<And>p. m = Some p \<Longrightarrow> p \<notin> live st" "EVT_sched_add m ok now st time cb arg = (e, st')"
  shows "e = NULL \<and> sched_inv st' \<and> queue st' = queue st \<and> dbg_queue st' = dbg_queue st \<and> live st' = live st
    \<and> critical_sched_count st' = critical_sched_count st \<and> (\<forall>y \<in> live st. mem st' y = mem st y)"
proof (cases m)
  case None
  with assms show ?thesis by (simp add: EVT_sched_add_def)
next
  case (Some p)
  let ?new = "zero_ScheduleCB\<lparr>scheduleTime := now, timeStep := time, nextAwake := timeradd now time,
        sc_callback := cb, sc_arg := arg, sc_queue := MainQueue, sc_critical := 1\<rparr>"
  let ?st1 = "st\<lparr>mem := (mem st)(p := ?new), live := insert p (live st)\<rparr>"
  have p: "p \<notin> live st" and inv: "queues_ok st" "heap_objs_ok st"
    using assms Some by (auto simp: sched_inv_def)
  then have pq: "p \<notin> queued st" using heap_objs_okD(2) [OF inv(2)] by blast
  have "evt_insert ok p ?st1 = (1, ?st1)"
    by (rule evt_insert_fail [where r = MainQueue])
      (use assms(2) Some queues_ok_write [OF inv(1) pq, of ?new] in \<open>simp_all add: queue_of_def\<close>)
  with assms(4) Some p have st': "e = NULL" "st' = st\<lparr>mem := (mem st)(p := ?new), live := live st\<rparr>"
    by (auto simp: EVT_sched_add_def Let_def)
  have "heap_objs_ok st'"
    by (rule heap_objs_same [OF inv(2)]) (use inv(1) p in \<open>auto simp: st'\<close>)
  moreover have "queues_ok st'" using queues_ok_write [OF inv(1) pq, of ?new] by (simp add: st')
  ultimately show ?thesis using p by (auto simp: st' sched_inv_def)
qed

theorem EVT_sched_add_failure_witness:
  "fst (EVT_sched_add None True (Timeval 100 0) st_one (Timeval 5 0) 20 30) = NULL
   \<and> sched_inv (snd (EVT_sched_add None True (Timeval 100 0) st_one (Timeval 5 0) 20 30))"
  using EVT_sched_add_failure [OF st_one_facts(1), of None True "Timeval 100 0" "Timeval 5 0" 20 30]
  by (cases "EVT_sched_add None True (Timeval 100 0) st_one (Timeval 5 0) 20 30") simp

text \<open>
  C3: \<open>EVT_sched_remove\<close> on a queued event that is not tied with its parent in the last slot
  returns the event's argument, takes exactly that event out of its queue, frees it, adjusts the
  count of critical work and keeps the scheduler's invariant and every other event.
\<close>

theorem EVT_sched_remove_correct:
  assumes "sched_inv st" "x \<in> queued st" "\<not> tied_last st x" "EVT_sched_remove st x = (a, st')"
  shows "a = sc_arg (mem st x) \<and> sched_inv st' \<and> queued st' = queued st - {x} \<and> live st' = live st - {x}
    \<and> (\<forall>y. y \<noteq> x \<longrightarrow> core (mem st' y) = core (mem st y))"
  by (rule sched_remove_queued [OF assms])

theorem EVT_sched_remove_witness:
  "fst (EVT_sched_remove st_one 10) = 30 \<and> sched_inv (snd (EVT_sched_remove st_one 10))
   \<and> queued (snd (EVT_sched_remove st_one 10)) = {}"
proof -
  have "\<not> tied_last st_one 10" by (simp add: tied_last_def st_one_facts Let_def)
  then show ?thesis
    using EVT_sched_remove_correct [OF st_one_facts(1), of 10] st_one_facts
    by (cases "EVT_sched_remove st_one 10") simp
qed

text \<open>
  \<open>EVT_sched_remove\<close> on an event whose time is tied with its parent's and which sits in the last
  slot frees the event and leaves it in the queue: the queue's removal lets the removed
  element bubble up over its parent, which is dropped instead.
\<close>

theorem EVT_sched_remove_tied:
  assumes inv: "sched_inv st" and x: "x \<in> queued st" and tied: "tied_last st x"
    and r: "EVT_sched_remove st x = (a, st')"
  shows "x \<notin> live st' \<and> x \<in> queued st'"
proof -
  have ok: "queues_ok st" and objs: "heap_objs_ok st" using inv by (auto simp: sched_inv_def)
  note h = heap_objs_okD [OF objs]
  obtain qr where qr: "qr \<noteq> NoQueue" "x \<in># pq_mset (queue_of qr st)" "sc_queue (mem st x) = qr"
    "sc_inCallback (mem st x) = 0"
    by (rule queued_ref [OF ok x])
  note qok = queues_okD [OF ok qr(1)]
  note f = queue_ok_facts [OF qok] and sl = queued_slot [OF qok qr(2)]
  have xl: "x \<in> live st" "x \<noteq> NULL" "x \<noteq> null_evt" using h x by auto
  then have nx: "next_timed_event st \<noteq> x" using h(6) sl(3) by auto
  obtain res q m where e: "ps_pqueue_remove (queue_of qr st) x (mem st) = (res, q, m)" by (metis prod_cases3)
  have "x \<in># pq_mset q \<and> res = 0"
    using sched_remove_tied [OF f(1), of x "sc_pos (mem st x)" res q m] sl tied qr(3) e
    by (auto simp: tied_last_def Let_def slot_ok_def get_pos_def get_pri_def)
  then show ?thesis
    using r xl nx qr sl e
    by (auto simp: EVT_sched_remove_def evt_remove_def free_evt_def Let_def in_queued queue_of_set_queue
        split: if_splits)
qed

theorem EVT_sched_remove_tied_witness:
  "10 \<notin> live (snd (EVT_sched_remove st_two 10)) \<and> 10 \<in> queued (snd (EVT_sched_remove st_two 10))"
proof -
  have "tied_last st_two 10" by (simp add: tied_last_def Let_def st_two_eval queue_of_def)
  then show ?thesis
    using EVT_sched_remove_tied [OF st_two_inv(1), of 10] st_two_inv(2)
    by (cases "EVT_sched_remove st_two 10") simp
qed

text \<open>
  \<open>EVT_sched_update\<close> that moves a queued event to an earlier or equal time keeps the scheduler's
  invariant, the set of queued events and every other event, and the event is then due at the
  current time plus the requested delay, which also becomes its period.
\<close>

theorem EVT_sched_update_earlier:
  assumes inv: "sched_inv st" and x: "x \<in> queued st" and new: "timeradd now time \<le> nextAwake (mem st x)"
    and r: "EVT_sched_update now st x time = (res, st')"
  shows "res = 0 \<and> sched_inv st' \<and> queued st' = queued st \<and> live st' = live st
    \<and> nextAwake (mem st' x) = timeradd now time \<and> scheduleTime (mem st' x) = now \<and> timeStep (mem st' x) = time
    \<and> (\<forall>y. y \<noteq> x \<longrightarrow> core (mem st' y) = core (mem st y))"
proof -
  let ?e = "(mem st x)\<lparr>scheduleTime := now, nextAwake := timeradd now time, timeStep := time\<rparr>"
  have ok: "queues_ok st" and objs: "heap_objs_ok st" using inv by (auto simp: sched_inv_def)
  have "sc_inCallback (mem st x) = 0" by (rule queued_ref [OF ok x])
  moreover have "x \<in> live st" "x \<noteq> NULL" using heap_objs_okD [OF objs] x by auto
  ultimately have st': "res = 0" "st' = evt_change_priority (timeradd now time) x (st\<lparr>mem := (mem st)(x := ?e)\<rparr>)"
    using r by (auto simp: EVT_sched_update_def Let_def)
  have c: "sched_inv st' \<and> queued st' = queued st \<and> live st' = live st
      \<and> (\<forall>y. core (mem st' y) = core (((mem st)(x := ?e)) y))"
    by (rule sched_reprioritise [OF inv x new _ _ _ _ _ st'(2)]) (use \<open>sc_inCallback (mem st x) = 0\<close> in simp_all)
  then have "core (mem st' x) = core ?e" by simp
  from core_eqD(1,7,8) [OF this] c st'(1) show ?thesis by auto
qed

theorem EVT_sched_update_witness:
  "sched_inv (snd (EVT_sched_update (Timeval 101 0) st_two 10 (Timeval 2 0)))
   \<and> nextAwake (mem (snd (EVT_sched_update (Timeval 101 0) st_two 10 (Timeval 2 0))) 10) = Timeval 103 0"
  using EVT_sched_update_earlier [OF st_two_inv(1), of 10 "Timeval 101 0" "Timeval 2 0"] st_two_inv(2) st_two_eval(5)
  by (cases "EVT_sched_update (Timeval 101 0) st_two 10 (Timeval 2 0)") (simp add: timeradd_def less_eq_timeval_def)

text \<open>
  \<open>EVT_sched_update\<close> that moves the event at the head of the main queue to a later time leaves
  it at the head: the code stores the new time before it asks the queue to change the
  priority, so the queue sees no change and never moves an event down. The next event the loop
  looks at is then not the earliest one.
\<close>

theorem EVT_sched_update_later_stuck:
  assumes inv: "sched_inv st" and x: "ps_pqueue_peek (queue st) = Some x"
    and y: "y \<in># pq_mset (queue st)" "y \<noteq> x" "nextAwake (mem st y) < timeradd now time"
    and r: "EVT_sched_update now st x time = (res, st')"
  shows "ps_pqueue_peek (queue st') = Some x \<and> y \<in># pq_mset (queue st')
    \<and> nextAwake (mem st' y) < nextAwake (mem st' x)"
proof -
  let ?e = "(mem st x)\<lparr>scheduleTime := now, nextAwake := timeradd now time, timeStep := time\<rparr>"
  have ok: "queues_ok st" and objs: "heap_objs_ok st" using inv by (auto simp: sched_inv_def)
  have qm: "queue_of MainQueue st = queue st" for st by (simp add: queue_of_def)
  have qok: "queue_ok MainQueue st" using queues_okD [OF ok] by simp
  note f = queue_ok_facts [OF qok, unfolded qm]
  have sz: "1 < q_size (queue st)" "q_d (queue st) ! 1 = x"
    using x f(2) by (auto simp: ps_pqueue_peek_def pq_shape_def split: if_splits)
  then have xq: "x \<in># pq_mset (queue st)" using cell_in_pq_mset [OF f(2), of 1] by simp
  have pos: "sc_pos (mem st x) = 1" using f(1) sz by (auto simp: pq_inv_def pos_ok_def get_pos_def)
  have "x \<in> queued st" using xq by (auto simp: queued_def queue_set_def qm)
  then have "x \<in> live st" "x \<noteq> NULL" using heap_objs_okD [OF objs] by auto
  then have st': "st' = evt_change_priority (timeradd now time) x (st\<lparr>mem := (mem st)(x := ?e)\<rparr>)"
    using r f(5) [OF xq] by (auto simp: EVT_sched_update_def Let_def)
  have idle: "(q_d (queue st))[Suc 0 := x] = q_d (queue st)"
    using sz(2) list_update_id [of "q_d (queue st)" "Suc 0"] by simp
  have "st' = st\<lparr>queue := queue st, mem := ((mem st)(x := (mem st x)\<lparr>scheduleTime := now, timeStep := time,
      nextAwake := timeradd now time, sc_pos := 1\<rparr>))\<rparr>"
    using st' f(3) f(5) [OF xq] sz pos idle
    by (simp add: evt_change_priority_def Let_def qm set_queue_def slot_ok_def ps_pqueue_change_priority_def
        bubble_up_def bubble_up_loop.simps set_pri_def get_pri_def get_pos_def set_pos_def)
  with x y show ?thesis by simp
qed

theorem EVT_sched_update_later_witness:
  "ps_pqueue_peek (queue (snd (EVT_sched_update (Timeval 101 0) st_two 11 (Timeval 900 0)))) = Some 11
   \<and> nextAwake (mem (snd (EVT_sched_update (Timeval 101 0) st_two 11 (Timeval 900 0))) 10)
     < nextAwake (mem (snd (EVT_sched_update (Timeval 101 0) st_two 11 (Timeval 900 0))) 11)"
proof -
  have "10 \<in># pq_mset (queue st_two)"
    using in_pq_mset [of "queue st_two" 10] by (auto simp: st_two_eval intro: exI [of _ 2])
  then show ?thesis
    using EVT_sched_update_later_stuck [OF st_two_inv(1), of 11 10 "Timeval 101 0" "Timeval 900 0"]
    by (cases "EVT_sched_update (Timeval 101 0) st_two 11 (Timeval 900 0)")
      (simp add: st_two_eval ps_pqueue_peek_def timeradd_def less_timeval_def)
qed

text \<open>
  \<open>EVT_sched_update\<close> on an event the debugger has parked (popped from its queue, its callback not
  running) indexes the queue's array with the position \<open>SIZE_MAX\<close>: undefined behaviour.
\<close>

theorem EVT_sched_update_parked:
  assumes inv: "sched_inv st" and x: "x \<in> live st" "x \<notin> queued st" "sc_inCallback (mem st x) = 0"
  shows "ub (snd (EVT_sched_update now st x time))"
proof -
  have ok: "queues_ok st" and objs: "heap_objs_ok st" using inv by (auto simp: sched_inv_def)
  note h = heap_objs_okD [OF objs]
  have "sc_pos (mem st x) = SIZE_MAX" using h(5) [OF x(1,2)] .
  moreover have "q_size (queue_of r st) < SIZE_MAX" if "r \<noteq> NoQueue" for r
    using queue_ok_facts(4) [OF queues_okD [OF ok that]] .
  ultimately have "sc_queue (mem st x) = NoQueue \<or> \<not> slot_ok (queue_of (sc_queue (mem st x)) st) (sc_pos (mem st x))"
    by (fastforce simp: slot_ok_def)
  then show ?thesis using x(1,3) h(3)
    by (auto simp: EVT_sched_update_def Let_def evt_change_priority_def)
qed

definition st_parked :: EventState where
  "st_parked = st_init\<lparr>live := {10}, critical_sched_count := 1, next_timed_event := 10,
     mem := (mem st_init)(10 := zero_ScheduleCB\<lparr>sc_queue := MainQueue, sc_critical := 1, sc_pos := SIZE_MAX\<rparr>)\<rparr>"

lemma st_parked_inv: "sched_inv st_parked" "queued st_parked = {}" "live st_parked = {10}"
proof -
  have e: "queued st_parked = {}" using st_init_inv(2) by (simp add: st_parked_def)
  have "queues_ok (st_init\<lparr>mem := (mem st_init)(10 := zero_ScheduleCB\<lparr>sc_queue := MainQueue, sc_critical := 1, sc_pos := SIZE_MAX\<rparr>)\<rparr>)"
    using st_init_inv by (intro queues_ok_write) (auto simp: sched_inv_def)
  then have q: "queues_ok st_parked" by (simp add: st_parked_def queues_ok_def queue_ok_def)
  have "crit_set st_parked = {10}" by (auto simp: crit_set_def st_parked_def zero_ScheduleCB_def)
  moreover have "\<not> ub st_init" using st_init_inv(1) by (simp add: sched_inv_def heap_objs_ok_def)
  ultimately have "heap_objs_ok st_parked"
    unfolding heap_objs_ok_def e
    by (simp add: st_parked_def NULL_def null_evt_def zero_ScheduleCB_def)
  with q show "sched_inv st_parked" by (simp add: sched_inv_def)
  show "queued st_parked = {}" "live st_parked = {10}" by (rule e) (simp add: st_parked_def)
qed

theorem EVT_sched_update_parked_witness:
  "ub (snd (EVT_sched_update (Timeval 101 0) st_parked 10 (Timeval 1 0)))"
  by (rule EVT_sched_update_parked [OF st_parked_inv(1)])
    (simp_all add: st_parked_inv, simp add: st_parked_def zero_ScheduleCB_def)

text \<open>
  \<open>EVT_sched_update_partial_credit\<close> on a queued event makes it due at its schedule time plus the
  new delay, or now if that has passed, never before now; when this is not later than before,
  the scheduler's invariant and all other events are kept.
\<close>

theorem EVT_sched_update_partial_credit_correct:
  assumes inv: "sched_inv st" and x: "x \<in> queued st"
    and new: "max now (timeradd (scheduleTime (mem st x)) time) \<le> nextAwake (mem st x)"
    and r: "EVT_sched_update_partial_credit now st x time = (res, st')"
  shows "res = 0 \<and> sched_inv st' \<and> queued st' = queued st \<and> live st' = live st
    \<and> nextAwake (mem st' x) = max now (timeradd (scheduleTime (mem st x)) time)
    \<and> scheduleTime (mem st' x) = scheduleTime (mem st x) \<and> timeStep (mem st' x) = time
    \<and> (\<forall>y. y \<noteq> x \<longrightarrow> core (mem st' y) = core (mem st y))"
proof -
  let ?t = "max now (timeradd (scheduleTime (mem st x)) time)"
  let ?e = "(mem st x)\<lparr>nextAwake := ?t, timeStep := time\<rparr>"
  have ok: "queues_ok st" and objs: "heap_objs_ok st" using inv by (auto simp: sched_inv_def)
  have ic: "sc_inCallback (mem st x) = 0" by (rule queued_ref [OF ok x])
  have xl: "x \<in> live st" "x \<noteq> NULL" using heap_objs_okD [OF objs] x by auto
  have mx: "(if timercmp (timeradd (scheduleTime (mem st x)) time) now (\<le>) then now
      else timeradd (scheduleTime (mem st x)) time) = ?t" by (auto simp: max_def)
  have st': "res = 0" "st' = evt_change_priority ?t x (st\<lparr>mem := (mem st)(x := ?e)\<rparr>)"
    using r ic xl unfolding EVT_sched_update_partial_credit_def mx Let_def by auto
  have c: "sched_inv st' \<and> queued st' = queued st \<and> live st' = live st
      \<and> (\<forall>y. core (mem st' y) = core (((mem st)(x := ?e)) y))"
    by (rule sched_reprioritise [OF inv x new _ _ _ _ _ st'(2)]) (use ic in simp_all)
  then have "core (mem st' x) = core ?e" by simp
  from core_eqD(1,7,8) [OF this] c st'(1) show ?thesis by auto
qed

theorem EVT_sched_update_partial_credit_witness:
  "nextAwake (mem (snd (EVT_sched_update_partial_credit (Timeval 103 0) st_one 10 (Timeval 2 0))) 10) = Timeval 103 0"
proof -
  have t: "max (Timeval 103 0) (timeradd (scheduleTime (mem st_one 10)) (Timeval 2 0)) = Timeval 103 0"
    by (simp add: mem_st_one timeradd_def max_def less_eq_timeval_def)
  have le: "Timeval 103 0 \<le> nextAwake (mem st_one 10)"
    by (simp add: st_one_facts less_eq_timeval_def)
  obtain res st' where r: "EVT_sched_update_partial_credit (Timeval 103 0) st_one 10 (Timeval 2 0) = (res, st')"
    by (metis prod.exhaust)
  have "nextAwake (mem st' 10) = Timeval 103 0"
    using EVT_sched_update_partial_credit_correct [OF st_one_facts(1) _ _ r] st_one_facts(2) t le by simp
  then show ?thesis by (simp add: r)
qed

text \<open>
  \<open>EVT_sched_set_critical\<close> with a value that a \<open>char\<close> keeps non-zero (or with zero) keeps the
  scheduler's invariant: the count of critical work stays the number of allocated critical events.
\<close>

theorem EVT_sched_set_critical_inv:
  assumes inv: "sched_inv st" and x: "x \<in> live st" and c: "critical \<noteq> 0 \<Longrightarrow> (word_of_int critical :: u8) \<noteq> 0"
  shows "sched_inv (EVT_sched_set_critical st x critical)
    \<and> (sc_critical (mem (EVT_sched_set_critical st x critical) x) \<noteq> 0 \<longleftrightarrow> critical \<noteq> 0)"
proof -
  let ?st' = "EVT_sched_set_critical st x critical"
  let ?e = "(mem st x)\<lparr>sc_critical := word_of_int critical\<rparr>"
  have ok: "queues_ok st" and objs: "heap_objs_ok st" using inv by (auto simp: sched_inv_def)
  note h = heap_objs_okD [OF objs]
  have c': "(word_of_int critical :: u8) \<noteq> 0 \<longleftrightarrow> critical \<noteq> 0" using c by auto
  define n where n: "n = (if sc_critical (mem st x) \<noteq> 0 \<and> critical = 0 then critical_sched_count st - 1
                 else if sc_critical (mem st x) = 0 \<and> critical \<noteq> 0 then critical_sched_count st + 1
                 else critical_sched_count st)"
  have "x \<noteq> NULL" using x h(3) by auto
  with x have st': "?st' = st\<lparr>mem := (mem st)(x := ?e), critical_sched_count := n\<rparr>"
    by (simp add: EVT_sched_set_critical_def Let_def n)
  have fin: "finite (crit_set st)" and xc: "x \<in> crit_set st \<longleftrightarrow> sc_critical (mem st x) \<noteq> 0"
    using h(1) x by (auto simp: crit_set_def)
  have "critical_sched_count ?st' = int (card (crit_set ?st'))"
    unfolding st' using h(7) fin xc c' x
    by (auto simp: crit_set_write n int_card_remove int_card_insert
        simp del: card_Diff_singleton card_Diff_insert)
  moreover have "queued ?st' = queued st" "queues_ok ?st'"
    unfolding st' using queues_ok_write_same [OF ok, of ?e x] by simp_all
  ultimately show ?thesis
    using h c' unfolding sched_inv_def heap_objs_ok_def by (auto simp: st')
qed

theorem EVT_sched_set_critical_witness: "sched_inv (EVT_sched_set_critical st_two 10 0)"
  using EVT_sched_set_critical_inv [OF st_two_inv(1), of 10 0] st_two_inv(3) by simp

end
