(* ===== verification/Fd_Events.thy ===== *)
theory Fd_Events
  imports Sched
begin

text \<open>
  The file-descriptor events of \<open>events.c\<close>: the hash buckets of \<open>EventCB\<close> objects, the two
  \<open>fd_set\<close>s per event kind, their maxima and counts. A \<open>struct EventCB **\<close> of the source is a
  \<open>link\<close>: the link of a bucket chain that holds the pointer, or the field \<open>next_fd_event\<close>, which
  the debugger's single step passes. Cleanup callbacks release the caller's argument; the model
  logs the calls in \<open>calls\<close>.

  A descriptor outside \<open>[0, FD_SETSIZE)\<close> indexes the buckets or an \<open>fd_set\<close> out of bounds and sets
  \<open>ub\<close>; so does an access to an \<open>EventCB\<close> that has been freed.
\<close>

section \<open>Operations\<close>

datatype link = Chain nat nat | NextFd

definition bucket :: "EventState \<Rightarrow> int \<Rightarrow> nat" where
  "bucket st fd = nat fd mod hashSize st"

definition fd_ok :: "int \<Rightarrow> bool" where
  "fd_ok fd \<longleftrightarrow> 0 \<le> fd \<and> fd < 1024"

definition deref :: "EventState \<Rightarrow> link \<Rightarrow> ptr" where
  "deref st l =
     (case l of Chain b i \<Rightarrow> if i < length (events st b) then events st b ! i else NULL
              | NextFd \<Rightarrow> next_fd_event st)"

fun next_in :: "ptr \<Rightarrow> ptr list \<Rightarrow> ptr" where
  "next_in x [] = NULL"
| "next_in x [y] = NULL"
| "next_in x (y # z # zs) = (if x = y then z else next_in x (z # zs))"

text \<open>\<open>*curr = tmp->next\<close>.\<close>

definition unlink :: "link \<Rightarrow> ptr \<Rightarrow> EventState \<Rightarrow> EventState" where
  "unlink l x st =
     (case l of
        Chain b i \<Rightarrow> st\<lparr>events := (events st)(b := take i (events st b) @ drop (Suc i) (events st b))\<rparr>
      | NextFd \<Rightarrow> st\<lparr>next_fd_event := next_in x (events st (bucket st (e_fd (fmem st x))))\<rparr>)"

text \<open>The loop that looks for the highest remaining descriptor below \<open>fd\<close>.\<close>

definition next_highest :: "int set \<Rightarrow> int \<Rightarrow> int" where
  "next_highest s fd = foldl (\<lambda>mx i. if i \<in> s then i else mx) 0 [1 .. fd - 1]"

definition max_of_maxFds :: "(nat \<Rightarrow> int) \<Rightarrow> int" where
  "max_of_maxFds f = foldl (\<lambda>mx i. if f i > mx then f i else mx) (f 0) [1 ..< EVENT_MAX]"

definition drop_max :: "int \<Rightarrow> nat \<Rightarrow> EventState \<Rightarrow> EventState" where
  "drop_max fd event st =
     (if fd = maxFds st event
      then if eventCnt st event > 0
           then let mf = (maxFds st)(event := next_highest (eventSet st event) fd)
                in st\<lparr>maxFds := mf, maxFd := max_of_maxFds mf\<rparr>
           else st\<lparr>maxFds := (maxFds st)(event := 0)\<rparr>
      else st)"

definition EVT_remove_internal :: "EventState \<Rightarrow> link \<Rightarrow> nat \<Rightarrow> bool \<times> EventState" where
  "EVT_remove_internal st cur event =
     (let tmp = deref st cur in
      if tmp = NULL then (False, st)
      else if tmp \<notin> flive st then (False, st\<lparr>ub := True\<rparr>)
      else
        let x = fmem st tmp in
        if e_cb x event = NULL then (False, st)
        else
          let st1 = (if e_cleanup x event \<noteq> NULL
                     then st\<lparr>calls := calls st @ [(e_cleanup x event, event, e_arg x event)]\<rparr> else st);
              x1 = x\<lparr>e_cb := (e_cb x)(event := NULL), e_cleanup := (e_cleanup x)(event := NULL),
                     e_arg := (e_arg x)(event := NULL)\<rparr>;
              st2 = st1\<lparr>eventCnt := (eventCnt st1)(event := eventCnt st1 event - 1),
                        fmem := (fmem st1)(tmp := x1),
                        eventSet := (eventSet st1)(event := eventSet st1 event - {e_fd x}),
                        blockedSet := (blockedSet st1)(event := blockedSet st1 event - {e_fd x})\<rparr>;
              st3 = drop_max (e_fd x) event st2;
              deleteIt = (\<forall>i \<in> set [0 ..< EVENT_MAX]. e_cb x1 i = NULL)
          in if deleteIt
             then let st4 = (if e_critical x1 \<noteq> 0
                             then st3\<lparr>critical_fd_count := critical_fd_count st3 - 1\<rparr> else st3);
                      st5 = unlink cur tmp st4
                  in (True, st5\<lparr>flive := flive st5 - {tmp}\<rparr>)
             else (False, st3))"

lemma drop_max_frame [simp]:
  "events (drop_max fd e st) = events st" "flive (drop_max fd e st) = flive st"
  "fmem (drop_max fd e st) = fmem st" "hashSize (drop_max fd e st) = hashSize st"
  "eventSet (drop_max fd e st) = eventSet st" "eventCnt (drop_max fd e st) = eventCnt st"
  "blockedSet (drop_max fd e st) = blockedSet st" "ub (drop_max fd e st) = ub st"
  "critical_fd_count (drop_max fd e st) = critical_fd_count st"
  "next_fd_event (drop_max fd e st) = next_fd_event st"
  by (simp_all add: drop_max_def Let_def)

lemma EVT_remove_internal_chain:
  assumes "EVT_remove_internal st (Chain b i) event = (d, st')"
  shows "length (events st' b) = (if d then length (events st b) - 1 else length (events st b))
    \<and> (d \<longrightarrow> i < length (events st b))"
  using assms
  by (auto simp: EVT_remove_internal_def Let_def deref_def unlink_def split: if_splits)

function fd_remove_loop :: "bool \<Rightarrow> int \<Rightarrow> nat \<Rightarrow> nat \<Rightarrow> nat \<Rightarrow> EventState \<Rightarrow> EventState" where
  "fd_remove_loop force fd event b i st =
     (if i \<ge> length (events st b) then st
      else
        let x = events st b ! i in
        if x \<notin> flive st then st\<lparr>ub := True\<rparr>
        else if e_fd (fmem st x) = fd \<and> e_inCallback (fmem st x) event = 0
        then case EVT_remove_internal st (Chain b i) event of
               (deleted, st') \<Rightarrow> fd_remove_loop force fd event b (if deleted then i else Suc i) st'
        else
          let st1 = (if force \<and> e_fd (fmem st x) = fd
                     then st\<lparr>fmem := (fmem st)(x := (fmem st x)
                            \<lparr>e_inCallback := (e_inCallback (fmem st x))(event := 3)\<rparr>)\<rparr>
                     else st)
          in fd_remove_loop force fd event b (Suc i) st1)"
  by pat_completeness auto
termination
  by (relation "measure (\<lambda>(force, fd, event, b, i, st). length (events st b) - i)")
    (auto dest!: sym [of "(_, _)"] EVT_remove_internal_chain split: if_splits)

declare fd_remove_loop.simps [simp del]

text \<open>The two entry points differ in what they do when the event's callback is running.\<close>

definition EVT_fd_remove :: "EventState \<Rightarrow> int \<Rightarrow> nat \<Rightarrow> EventState" where
  "EVT_fd_remove st fd event =
     (if fd < 0 then st\<lparr>ub := True\<rparr> else fd_remove_loop False fd event (bucket st fd) 0 st)"

definition EVT_fd_force_remove :: "EventState \<Rightarrow> int \<Rightarrow> nat \<Rightarrow> EventState" where
  "EVT_fd_force_remove st fd event =
     (if fd < 0 then st\<lparr>ub := True\<rparr> else fd_remove_loop True fd event (bucket st fd) 0 st)"

definition find_fd :: "EventState \<Rightarrow> int \<Rightarrow> ptr" where
  "find_fd st fd =
     (case find (\<lambda>x. e_fd (fmem st x) = fd) (events st (bucket st fd)) of None \<Rightarrow> NULL | Some x \<Rightarrow> x)"

text \<open>
  \<open>m\<close> is the result of \<open>malloc\<close>, used when the descriptor has no entry yet; \<open>fd_register\<close> is the
  part after the entry has been found or created.
\<close>

definition fd_register :: "EventState \<Rightarrow> ptr \<Rightarrow> int \<Rightarrow> nat \<Rightarrow> ptr \<Rightarrow> ptr \<Rightarrow> ptr \<Rightarrow> EventState" where
  "fd_register st cur fd event cb cleanup_cb p =
     (let x = fmem st cur;
          st1 = (if e_cb x event = NULL
                 then st\<lparr>eventCnt := (eventCnt st)(event := eventCnt st event + 1)\<rparr>
                 else if e_cb x event \<noteq> cb \<or> e_arg x event \<noteq> p
                 then if e_cleanup x event \<noteq> NULL \<and> e_arg x event \<noteq> p
                      then st\<lparr>calls := calls st @ [(e_cleanup x event, event, e_arg x event)]\<rparr>
                      else st
                 else st);
          x1 = x\<lparr>e_cb := (e_cb x)(event := cb), e_cleanup := (e_cleanup x)(event := cleanup_cb),
                 e_arg := (e_arg x)(event := p)\<rparr>
      in if e_inCallback x event \<noteq> 0
         then st1\<lparr>fmem := (fmem st1)(cur := x1\<lparr>e_inCallback := (e_inCallback x)(event := 2)\<rparr>)\<rparr>
         else
           let st2 = st1\<lparr>fmem := (fmem st1)(cur := x1),
                         eventSet := (eventSet st1)(event := insert fd (eventSet st1 event)),
                         blockedSet := (if \<not> e_pausable x \<or> \<not> e_breakpoint x event
                            then (blockedSet st1)(event := insert fd (blockedSet st1 event))
                            else blockedSet st1)\<rparr>;
               mf = (if fd > maxFds st2 event then (maxFds st2)(event := fd) else maxFds st2)
           in st2\<lparr>maxFds := mf, maxFd := max_of_maxFds mf\<rparr>)"

definition EVT_fd_add_with_cleanup ::
  "ptr option \<Rightarrow> EventState \<Rightarrow> int \<Rightarrow> nat \<Rightarrow> ptr \<Rightarrow> ptr \<Rightarrow> ptr \<Rightarrow> int \<times> EventState" where
  "EVT_fd_add_with_cleanup m st fd event cb cleanup_cb p =
     (if cb = NULL then (0, EVT_fd_remove st fd event)
      else if \<not> fd_ok fd then (1, st\<lparr>ub := True\<rparr>)
      else if find_fd st fd \<noteq> NULL then (1, fd_register st (find_fd st fd) fd event cb cleanup_cb p)
      else case m of
             None \<Rightarrow> (-1, st)
           | Some cur \<Rightarrow>
               let b = bucket st fd;
                   st1 = st\<lparr>fmem := (fmem st)(cur := zero_EventCB\<lparr>e_critical := 1, e_pausable := True, e_fd := fd\<rparr>),
                            flive := insert cur (flive st),
                            events := (events st)(b := events st b @ [cur]),
                            critical_fd_count := critical_fd_count st + 1\<rparr>
               in (1, fd_register st1 cur fd event cb cleanup_cb p))"

definition EVT_fd_add :: "ptr option \<Rightarrow> EventState \<Rightarrow> int \<Rightarrow> nat \<Rightarrow> ptr \<Rightarrow> ptr \<Rightarrow> int \<times> EventState" where
  "EVT_fd_add m st fd event cb p = EVT_fd_add_with_cleanup m st fd event cb NULL p"

text \<open>
  \<open>bad\<close> says for which descriptors the probing \<open>select\<close> fails with \<open>EBADF\<close>. The bound of the loop is
  read before it starts.
\<close>

definition clean_one :: "(int \<Rightarrow> bool) \<Rightarrow> int \<Rightarrow> bool \<times> EventState \<Rightarrow> bool \<times> EventState" where
  "clean_one bad i acc =
     (case acc of (foundOne, st) \<Rightarrow>
        if (\<forall>e \<in> set [0 ..< EVENT_MAX]. i \<notin> eventSet st e) then (foundOne, st)
        else if bad i
        then (True, EVT_fd_remove (EVT_fd_remove (EVT_fd_remove st i EVENT_FD_READ) i EVENT_FD_WRITE)
                      i EVENT_FD_ERROR)
        else (foundOne, st))"

definition EVT_clean_fdsets :: "(int \<Rightarrow> bool) \<Rightarrow> EventState \<Rightarrow> bool \<times> EventState" where
  "EVT_clean_fdsets bad st = fold (clean_one bad) [0 .. maxFd st] (False, st)"

text \<open>Operations on every entry of a descriptor's bucket that belongs to the descriptor.\<close>

definition set_crit_one :: "int \<Rightarrow> int \<Rightarrow> ptr \<Rightarrow> EventState \<Rightarrow> EventState" where
  "set_crit_one fd critical x st =
     (if e_fd (fmem st x) = fd
      then let n = (if e_critical (fmem st x) \<noteq> 0 \<and> critical = 0 then critical_fd_count st - 1
                    else if e_critical (fmem st x) = 0 \<and> critical \<noteq> 0 then critical_fd_count st + 1
                    else critical_fd_count st)
           in st\<lparr>critical_fd_count := n,
                 fmem := (fmem st)(x := (fmem st x)\<lparr>e_critical := word_of_int critical\<rparr>)\<rparr>
      else st)"

definition EVT_fd_set_critical :: "EventState \<Rightarrow> int \<Rightarrow> int \<Rightarrow> EventState" where
  "EVT_fd_set_critical st fd critical =
     (if fd < 0 then st\<lparr>ub := True\<rparr>
      else fold (set_crit_one fd critical) (events st (bucket st fd)) st)"

definition EVT_fd_set_name :: "EventState \<Rightarrow> int \<Rightarrow> string \<Rightarrow> EventState" where
  "EVT_fd_set_name st fd s =
     (if fd < 0 then st\<lparr>ub := True\<rparr>
      else fold (\<lambda>x st. if e_fd (fmem st x) = fd
                        then st\<lparr>fmem := (fmem st)(x := (fmem st x)\<lparr>e_name := take 127 s\<rparr>)\<rparr> else st)
             (events st (bucket st fd)) st)"

definition set_blocked :: "int \<Rightarrow> EventCB \<Rightarrow> nat \<Rightarrow> EventState \<Rightarrow> EventState" where
  "set_blocked fd x event st =
     st\<lparr>blockedSet := (blockedSet st)(event :=
          if e_cb x event \<noteq> NULL \<and> (\<not> e_pausable x \<or> \<not> e_breakpoint x event)
          then insert fd (blockedSet st event) else blockedSet st event - {fd})\<rparr>"

definition evt_fd_set_pausable :: "EventState \<Rightarrow> int \<Rightarrow> bool \<Rightarrow> EventState" where
  "evt_fd_set_pausable st fd pausable =
     (if fd < 0 then st\<lparr>ub := True\<rparr>
      else fold (\<lambda>x st. if e_fd (fmem st x) = fd
                        then let x1 = (fmem st x)\<lparr>e_pausable := pausable\<rparr>
                             in fold (set_blocked fd x1) [0 ..< EVENT_MAX] (st\<lparr>fmem := (fmem st)(x := x1)\<rparr>)
                        else st)
             (events st (bucket st fd)) st)"

text \<open>The breakpoint of each event is set just before its bit is recomputed.\<close>

definition pause_event :: "int \<Rightarrow> bool \<Rightarrow> ptr \<Rightarrow> nat \<Rightarrow> EventState \<Rightarrow> EventState" where
  "pause_event fd paused x event st =
     (let x1 = (fmem st x)\<lparr>e_breakpoint := (e_breakpoint (fmem st x))(event := paused)\<rparr>
      in set_blocked fd x1 event (st\<lparr>fmem := (fmem st)(x := x1)\<rparr>))"

definition evt_fd_set_paused :: "EventState \<Rightarrow> int \<Rightarrow> bool \<Rightarrow> EventState" where
  "evt_fd_set_paused st fd paused =
     (if fd < 0 then st\<lparr>ub := True\<rparr>
      else fold (\<lambda>x st. if e_fd (fmem st x) = fd
                        then fold (pause_event fd paused x) [0 ..< EVENT_MAX] st else st)
             (events st (bucket st fd)) st)"

end
