(* ===== verification/Event_Loop.thy ===== *)
theory Event_Loop
  imports Fd_Events
begin

text \<open>
  The event loop of \<open>events.c\<close>: running timed and descriptor events, deferred events, the
  debugger's single step, the automatic exit and the loop itself.

  Application callbacks are parameters: \<open>run cb arg st\<close> is the call of a scheduled callback,
  \<open>run_fd cb fd event arg st\<close> that of a descriptor callback; both return the callback's result and
  the state it leaves. Clock readings are lists, consumed one per reading: a list that is too
  short makes the loop return \<open>None\<close>, so a finite list stands for a finite run. \<open>ok\<close> is the outcome
  of the queue's \<open>realloc\<close>. \<open>edbg_report_state\<close> only sends a report and is left out.
\<close>

section \<open>Timed events\<close>

definition edbg_breakpoint :: "EventState \<Rightarrow> EventState" where
  "edbg_breakpoint st = st\<lparr>debuggerState := EDBG_STOPPED, break_on_next := False\<rparr>"

definition run_timed ::
  "(ptr \<Rightarrow> ptr \<Rightarrow> EventState \<Rightarrow> int \<times> EventState) \<Rightarrow> bool \<Rightarrow> EventState \<Rightarrow> ptr \<Rightarrow> timeval \<Rightarrow> EventState" where
  "run_timed run ok st cur curTime =
     (let st1 = st\<lparr>timed_event_counter := timed_event_counter st + 1,
                   mem := (mem st)(cur := (mem st cur)\<lparr>sc_count := sc_count (mem st cur) + 1, sc_inCallback := 1\<rparr>)\<rparr>;
          (keep, st2) = run (sc_callback (mem st1 cur)) (sc_arg (mem st1 cur)) st1;
          e = mem st2 cur
      in if keep = EVENT_KEEP
         then let e1 = (if sc_inCallback e = 1
                        then e\<lparr>scheduleTime := curTime, nextAwake := timeradd (nextAwake e) (timeStep e)\<rparr> else e);
                  st3 = st2\<lparr>mem := (mem st2)(cur := e1\<lparr>sc_inCallback := 0\<rparr>)\<rparr>
              in snd (evt_insert ok cur st3)
         else
           let st3 = (if sc_critical e \<noteq> 0
                      then st2\<lparr>critical_sched_count := critical_sched_count st2 - 1\<rparr> else st2)
           in free_evt cur st3)"

definition evt_process_timed_event ::
  "(ptr \<Rightarrow> ptr \<Rightarrow> EventState \<Rightarrow> int \<times> EventState) \<Rightarrow> bool \<Rightarrow> EventState \<Rightarrow> ptr \<Rightarrow> timeval \<Rightarrow> bool
     \<Rightarrow> bool \<times> EventState" where
  "evt_process_timed_event run ok st cur curTime stepping =
     (if cur \<noteq> null_evt \<and> cur \<notin> live st then (True, st\<lparr>ub := True\<rparr>)
      else if \<not> stepping \<and> (break_on_next st \<or> sc_breakpoint (mem st cur))
      then let st1 = st\<lparr>steps_to_break := steps_to_break st - 1\<rparr>
           in if steps_to_break st1 \<le> 0
              then (False, edbg_breakpoint (st1\<lparr>next_timed_event := cur\<rparr>))
              else (True, run_timed run ok st1 cur curTime)
      else (True, run_timed run ok st cur curTime))"

text \<open>The loop over the main queue; \<open>False\<close> in the result is the jump to the next iteration.\<close>

fun timed_loop ::
  "(ptr \<Rightarrow> ptr \<Rightarrow> EventState \<Rightarrow> int \<times> EventState) \<Rightarrow> bool \<Rightarrow> timeval list \<Rightarrow> bool \<Rightarrow> EventState
     \<Rightarrow> (bool \<times> bool \<times> EventState) option" where
  "timed_loop run ok ts real_event st =
     (case ps_pqueue_peek (queue st) of
        None \<Rightarrow> Some (True, real_event, st)
      | Some cur \<Rightarrow>
          (case ts of
             [] \<Rightarrow> None
           | curTime # ts' \<Rightarrow>
               if cur \<notin> live st then Some (True, real_event, st\<lparr>ub := True\<rparr>)
               else if timercmp (nextAwake (mem st cur)) curTime (>) then Some (True, real_event, st)
               else
                 let (h, q, m) = ps_pqueue_pop (queue st) (mem st);
                     st1 = st\<lparr>queue := q, mem := m(cur := (m cur)\<lparr>sc_pos := SIZE_MAX\<rparr>)\<rparr>;
                     (go, st2) = evt_process_timed_event run ok st1 cur curTime False
                 in if go then timed_loop run ok ts' True st2 else Some (False, real_event, st2)))"

declare timed_loop.simps [simp del]

text \<open>
  The loop over the debugger's queue sets \<open>pos\<close> before it pops, so the pop of the only queued
  event writes position 1 over it.
\<close>

fun dbg_loop ::
  "(ptr \<Rightarrow> ptr \<Rightarrow> EventState \<Rightarrow> int \<times> EventState) \<Rightarrow> bool \<Rightarrow> timeval list \<Rightarrow> EventState \<Rightarrow> EventState option" where
  "dbg_loop run ok ts st =
     (case ps_pqueue_peek (dbg_queue st) of
        None \<Rightarrow> Some st
      | Some cur \<Rightarrow>
          (case ts of
             [] \<Rightarrow> None
           | curTime # ts' \<Rightarrow>
               if cur \<notin> live st then Some (st\<lparr>ub := True\<rparr>)
               else if timercmp (nextAwake (mem st cur)) curTime (>) then Some st
               else
                 let (h, q, m) = ps_pqueue_pop (dbg_queue st) ((mem st)(cur := (mem st cur)\<lparr>sc_pos := SIZE_MAX\<rparr>));
                     (go, st2) = evt_process_timed_event run ok (st\<lparr>dbg_queue := q, mem := m\<rparr>) cur curTime True
                 in dbg_loop run ok ts' st2))"

declare dbg_loop.simps [simp del]

section \<open>Descriptor events\<close>

text \<open>
  A link at index \<open>i > 0\<close> of a chain is the field \<open>next\<close> of the entry before it. \<open>relink\<close> finds the
  same link after a callback has run; it is gone when that entry has been freed.
\<close>

fun index_of :: "ptr \<Rightarrow> ptr list \<Rightarrow> nat" where
  "index_of x [] = 0"
| "index_of x (y # ys) = (if x = y then 0 else Suc (index_of x ys))"

definition relink :: "EventState \<Rightarrow> link \<Rightarrow> EventState \<Rightarrow> link option" where
  "relink st l st1 =
     (case l of
        NextFd \<Rightarrow> Some NextFd
      | Chain b i \<Rightarrow>
          if i = 0 then Some (Chain b 0)
          else let owner = events st b ! (i - 1)
               in if owner \<in> flive st1 then Some (Chain b (Suc (index_of owner (events st1 b)))) else None)"

definition finish_fd :: "EventState \<Rightarrow> link \<Rightarrow> nat \<Rightarrow> int \<Rightarrow> EventState" where
  "finish_fd st1 l event keep =
     (let p1 = deref st1 l; x1 = fmem st1 p1;
          st2 = st1\<lparr>fmem := (fmem st1)(p1 := x1\<lparr>e_inCallback := (e_inCallback x1)(event := 0)\<rparr>)\<rparr>
      in if p1 \<notin> flive st1 then st1\<lparr>ub := True\<rparr>
         else if e_inCallback x1 event = 3 \<or> (keep = EVENT_REMOVE \<and> e_inCallback x1 event = 1)
         then snd (EVT_remove_internal st2 l event)
         else st2)"

definition run_fd_cb ::
  "(ptr \<Rightarrow> int \<Rightarrow> nat \<Rightarrow> ptr \<Rightarrow> EventState \<Rightarrow> int \<times> EventState) \<Rightarrow> EventState \<Rightarrow> link \<Rightarrow> nat \<Rightarrow> EventState" where
  "run_fd_cb run_fd st evtCurr event =
     (let p = deref st evtCurr; x = fmem st p in
      if e_cb x event \<noteq> NULL
      then let (keep, s) = run_fd (e_cb x event) (e_fd x) event (e_arg x event)
                 (st\<lparr>fmem := (fmem st)(p := x\<lparr>e_counts := (e_counts x)(event := e_counts x event + 1),
                                            e_inCallback := (e_inCallback x)(event := 1)\<rparr>)\<rparr>);
               st1 = s\<lparr>fd_event_counter := fd_event_counter s + 1\<rparr>
           in (case relink st evtCurr st1 of
                 None \<Rightarrow> st1\<lparr>ub := True\<rparr>
               | Some l \<Rightarrow> finish_fd st1 l event keep)
      else finish_fd st evtCurr event EVENT_KEEP)"

definition evt_process_fd_event ::
  "(ptr \<Rightarrow> int \<Rightarrow> nat \<Rightarrow> ptr \<Rightarrow> EventState \<Rightarrow> int \<times> EventState) \<Rightarrow> EventState \<Rightarrow> link \<Rightarrow> nat \<Rightarrow> bool
     \<Rightarrow> bool \<times> EventState" where
  "evt_process_fd_event run_fd st evtCurr event stepping =
     (let p = deref st evtCurr in
      if p = NULL then (True, st)
      else if p \<notin> flive st then (True, st\<lparr>ub := True\<rparr>)
      else if \<not> stepping \<and> e_pausable (fmem st p) \<and> (break_on_next st \<or> e_breakpoint (fmem st p) event)
      then let st1 = st\<lparr>steps_to_break := steps_to_break st - 1\<rparr>
           in if steps_to_break st1 \<le> 0
              then (False, edbg_breakpoint (st1\<lparr>next_fd_event := p, next_fd_event_evt := event\<rparr>))
              else (True, run_fd_cb run_fd st1 evtCurr event)
      else (True, run_fd_cb run_fd st evtCurr event))"

text \<open>The link of the first entry of the descriptor in its bucket.\<close>

fun find_link :: "EventState \<Rightarrow> int \<Rightarrow> nat \<Rightarrow> ptr list \<Rightarrow> nat option" where
  "find_link st fd i [] = None"
| "find_link st fd i (x # xs) = (if e_fd (fmem st x) = fd then Some i else find_link st fd (Suc i) xs)"

text \<open>
  One pass of the inner do-loop: the remaining descriptors in cyclic order, \<open>retval\<close> counted
  down at every ready one. The result carries the jump flag, the remaining count and whether an
  event ran.
\<close>

fun fd_scan ::
  "(ptr \<Rightarrow> int \<Rightarrow> nat \<Rightarrow> ptr \<Rightarrow> EventState \<Rightarrow> int \<times> EventState) \<Rightarrow> int set \<Rightarrow> nat \<Rightarrow> int list \<Rightarrow> int \<Rightarrow> bool \<Rightarrow> EventState
     \<Rightarrow> bool \<times> int \<times> bool \<times> EventState" where
  "fd_scan run_fd ready event [] retval real_event st = (True, retval, real_event, st)"
| "fd_scan run_fd ready event (fd # fds) retval real_event st =
     (if fd \<in> ready
      then let b = bucket st fd in
           (case find_link st fd 0 (events st b) of
              None \<Rightarrow> if retval - 1 > 0 then fd_scan run_fd ready event fds (retval - 1) real_event st
                      else (True, retval - 1, real_event, st)
            | Some i \<Rightarrow>
                (case evt_process_fd_event run_fd st (Chain b i) event False of
                   (False, st') \<Rightarrow> (False, retval - 1, real_event, st')
                 | (True, st') \<Rightarrow>
                     if retval - 1 > 0 then fd_scan run_fd ready event fds (retval - 1) True st'
                     else (True, retval - 1, True, st')))
      else if retval > 0 then fd_scan run_fd ready event fds retval real_event st
      else (True, retval, real_event, st))"

fun event_scan ::
  "(ptr \<Rightarrow> int \<Rightarrow> nat \<Rightarrow> ptr \<Rightarrow> EventState \<Rightarrow> int \<times> EventState) \<Rightarrow> (nat \<Rightarrow> int set option) \<Rightarrow> int list \<Rightarrow> nat list \<Rightarrow> int \<Rightarrow> bool
     \<Rightarrow> EventState \<Rightarrow> bool \<times> bool \<times> EventState" where
  "event_scan run_fd ready fds [] retval real_event st = (True, real_event, st)"
| "event_scan run_fd ready fds (event # es) retval real_event st =
     (case (case ready event of
              None \<Rightarrow> (True, retval, real_event, st)
            | Some s \<Rightarrow> fd_scan run_fd s event fds retval real_event st) of
        (False, r, re, st') \<Rightarrow> (False, re, st')
      | (True, r, re, st') \<Rightarrow>
          if r > 0 then event_scan run_fd ready fds es r re st' else (True, re, st'))"

definition cyclic :: "nat \<Rightarrow> nat \<Rightarrow> nat list" where
  "cyclic start n = map (\<lambda>k. (start + k) mod n) [0 ..< n]"

section \<open>Waiting\<close>

text \<open>
  The timeout handed to \<open>select\<close>: the timer's own (\<open>None\<close> for no timeout) or the time until the
  debugger's next event, whichever is shorter.
\<close>

definition select_timeout :: "timeval option \<Rightarrow> timeval option \<Rightarrow> timeval \<Rightarrow> timeval option" where
  "select_timeout nextAwk mono_to now =
     (case mono_to of
        None \<Rightarrow> nextAwk
      | Some mt \<Rightarrow>
          let diff = (if timercmp now mt (\<ge>) then Timeval 0 0 else timersub mt now)
          in (case nextAwk of
                None \<Rightarrow> Some diff
              | Some t \<Rightarrow> if timercmp diff t (<) then Some diff else Some t))"

section \<open>Deferred events\<close>

definition EVT_defer_add ::
  "(ptr \<Rightarrow> ptr \<Rightarrow> EventState \<Rightarrow> int \<times> EventState) \<Rightarrow> ptr \<Rightarrow> EventState \<Rightarrow> ptr \<Rightarrow> ptr \<Rightarrow> ptr \<times> EventState" where
  "EVT_defer_add run m st cb arg =
     (if in_loop st
      then (m, st\<lparr>deferred := \<lparr>def_id = m, def_cb = cb, def_arg = arg\<rparr> # deferred st\<rparr>)
      else (NULL, snd (run cb arg st)))"

definition EVT_defer_cancel :: "EventState \<Rightarrow> ptr \<Rightarrow> EventState" where
  "EVT_defer_cancel st d =
     (if d = NULL then st
      else st\<lparr>deferred := map (\<lambda>e. if def_id e = d then e\<lparr>def_cb := NULL\<rparr> else e) (deferred st)\<rparr>)"

text \<open>Callbacks may defer further events, so the loop over the list needs fuel.\<close>

fun run_deferred :: "(ptr \<Rightarrow> ptr \<Rightarrow> EventState \<Rightarrow> int \<times> EventState) \<Rightarrow> nat \<Rightarrow> EventState \<Rightarrow> EventState option" where
  "run_deferred run n st =
     (case deferred st of
        [] \<Rightarrow> Some st
      | d # ds \<Rightarrow>
          (case n of
             0 \<Rightarrow> None
           | Suc k \<Rightarrow>
               let st1 = st\<lparr>deferred := ds\<rparr>;
                   st2 = (if def_cb d \<noteq> NULL then snd (run (def_cb d) (def_arg d) st1) else st1)
               in run_deferred run k st2))"

declare run_deferred.simps [simp del]

section \<open>One iteration of the loop\<close>

datatype sel_errno = ENone | EINTR | EBADF | EOther

text \<open>
  What the surroundings supply to one iteration: the pseudo threads, the callbacks, the clock
  readings of the single step and of the two queues, the timer's \<open>block\<close> (given the next awake
  time, the pause flag, the debugger's deadline and the descriptors to watch, it returns the
  result, the ready descriptors and \<open>errno\<close>), the descriptors that a probe finds invalid, the
  answer of \<open>cmds_pending\<close>, whether the timer is a virtual one, and the outcomes of allocations.
\<close>

record loop_env =
  le_pt :: "EventState \<Rightarrow> EventState"
  le_run :: "ptr \<Rightarrow> ptr \<Rightarrow> EventState \<Rightarrow> int \<times> EventState"
  le_run_fd :: "ptr \<Rightarrow> int \<Rightarrow> nat \<Rightarrow> ptr \<Rightarrow> EventState \<Rightarrow> int \<times> EventState"
  le_step_now :: timeval
  le_timed :: "timeval list"
  le_dbg :: "timeval list"
  le_block :: "timeval option \<Rightarrow> bool \<Rightarrow> timeval option \<Rightarrow> (nat \<Rightarrow> int set option) \<Rightarrow> int \<Rightarrow> int \<times> (nat \<Rightarrow> int set) \<times> sel_errno"
  le_bad :: "int \<Rightarrow> bool"
  le_pending :: "EventState \<Rightarrow> bool"
  le_virt :: bool
  le_mono :: timeval
  le_timer_now :: timeval
  le_malloc :: "ptr option"
  le_ok :: bool
  le_fuel :: nat

record loop_vars =
  startEvent :: nat
  startFd :: nat

datatype loop_result = Again loop_vars EventState | Return int EventState

definition single_step :: "loop_env \<Rightarrow> EventState \<Rightarrow> bool \<times> EventState" where
  "single_step env st =
     (let (real1, st1) =
            (if dbg_step st \<and> next_timed_event st \<noteq> NULL
             then (True, (snd (evt_process_timed_event (le_run env) (le_ok env) st (next_timed_event st)
                                 (le_step_now env) True))\<lparr>next_timed_event := NULL, debuggerState := EDBG_ENABLED\<rparr>)
             else (False, st));
          (real2, st2) =
            (if dbg_step st1 \<and> next_fd_event st1 \<noteq> NULL
             then (True, (snd (evt_process_fd_event (le_run_fd env) st1 NextFd (next_fd_event_evt st1) True))
                            \<lparr>next_fd_event := NULL, debuggerState := EDBG_ENABLED\<rparr>)
             else (real1, st1))
      in (real2, st2\<lparr>dbg_step := False\<rparr>))"

definition loop_paused :: "EventState \<Rightarrow> bool" where
  "loop_paused st \<longleftrightarrow> next_timed_event st \<noteq> NULL \<or> next_fd_event st \<noteq> NULL \<or> dbg_reply_evt st \<noteq> NULL"

definition watch_sets :: "EventState \<Rightarrow> nat \<Rightarrow> int set option" where
  "watch_sets st i =
     (if eventCnt st i > 0 then Some (if loop_paused st then blockedSet st i else eventSet st i) else None)"

definition queue_deadline :: "EventState \<Rightarrow> sched_pq \<Rightarrow> timeval option" where
  "queue_deadline st q = map_option (\<lambda>x. nextAwake (mem st x)) (ps_pqueue_peek q)"

definition EVT_EXIT_FD :: int where "EVT_EXIT_FD = 1"
definition EVT_EXIT_SCHED :: int where "EVT_EXIT_SCHED = 2"

definition remaining_work :: "EventState \<Rightarrow> int" where
  "remaining_work st =
     (if critical_sched_count st > 0 then EVT_EXIT_SCHED else 0)
     + (if critical_fd_count st > 0 then EVT_EXIT_FD else 0)"

definition auto_exit_now :: "int \<Rightarrow> EventState \<Rightarrow> bool" where
  "auto_exit_now auto_exit st \<longleftrightarrow> auto_exit \<noteq> 0 \<and> and auto_exit (remaining_work st) = 0"

text \<open>
  The wait for command responses while debugging: \<open>Reply Timeout\<close> is the event the code adds.
  \<open>to_cb\<close> is the address of \<open>edbg_response_timeout\<close>.
\<close>

definition edbg_response_timeout :: "EventState \<Rightarrow> int \<times> EventState" where
  "edbg_response_timeout st = (EVENT_KEEP, st\<lparr>dbg_reply_evt := NULL\<rparr>)"

definition wait_for_reply :: "ptr \<Rightarrow> loop_env \<Rightarrow> EventState \<Rightarrow> EventState" where
  "wait_for_reply to_cb env st =
     (if debuggerState st \<noteq> EDBG_DISABLED \<and> le_virt env \<and> cmds_pending st \<noteq> NULL
      then if le_pending env st
           then let st1 =
                  (if dbg_reply_evt st = NULL
                   then let (e, s1) = EVT_sched_add (le_malloc env) (le_ok env) (le_timer_now env) st (EVT_ms2tv 300) to_cb NULL;
                            s2 = snd (EVT_sched_move_to_mono (le_ok env) (le_mono env) (s1\<lparr>dbg_reply_evt := e\<rparr>) e);
                            s3 = EVT_sched_set_name s2 e ''Reply Timeout''
                        in EVT_sched_set_critical s3 e 0
                   else st)
                in st1\<lparr>dbg_step := False\<rparr>
           else if dbg_reply_evt st \<noteq> NULL
                then (snd (EVT_sched_remove st (dbg_reply_evt st)))\<lparr>dbg_reply_evt := NULL\<rparr>
                else st
      else st)"

text \<open>From the label \<open>next_loop_iteration\<close> to the end of the body.\<close>

definition end_iteration :: "ptr \<Rightarrow> loop_env \<Rightarrow> EventState \<Rightarrow> EventState option" where
  "end_iteration to_cb env st =
     (case run_deferred (le_run env) (le_fuel env) st of
        None \<Rightarrow> None
      | Some st1 \<Rightarrow> let st2 = wait_for_reply to_cb env st1
                    in Some (st2\<lparr>loop_counter := loop_counter st2 + 1\<rparr>))"

text \<open>The events after \<open>block\<close> returned: timed events, debugger events, descriptor events.\<close>

definition loop_events ::
  "ptr \<Rightarrow> loop_env \<Rightarrow> loop_vars \<Rightarrow> bool \<Rightarrow> int \<Rightarrow> int \<times> (nat \<Rightarrow> int set option) \<times> sel_errno \<Rightarrow> EventState \<Rightarrow> loop_result option" where
  "loop_events to_cb env vars paused maxfd blk st =
     (case blk of (retval, ready, err) \<Rightarrow>
      (case (if paused then Some (True, False, st) else timed_loop (le_run env) (le_ok env) (le_timed env) False st) of
         None \<Rightarrow> None
       | Some (False, re, st1) \<Rightarrow> map_option (Again vars) (end_iteration to_cb env st1)
       | Some (True, re, st1) \<Rightarrow>
           (case dbg_loop (le_run env) (le_ok env) (le_dbg env) st1 of
              None \<Rightarrow> None
            | Some st2 \<Rightarrow>
                if retval > 0
                then let n = nat maxfd; sf = (startFd vars + 1) mod n;
                         vars1 = vars\<lparr>startFd := sf\<rparr>
                     in (case event_scan (le_run_fd env) ready (map int (cyclic sf n)) (cyclic (startEvent vars) EVENT_MAX) retval re st2 of
                           (False, re', st3) \<Rightarrow> map_option (Again vars1) (end_iteration to_cb env st3)
                         | (True, re', st3) \<Rightarrow>
                             map_option (Again (vars1\<lparr>startEvent := (startEvent vars + 1) mod EVENT_MAX\<rparr>))
                               (end_iteration to_cb env st3))
                else if retval = -1
                then (case err of
                        ENone \<Rightarrow> Some (Again vars (st2\<lparr>loop_counter := loop_counter st2 + 1\<rparr>))
                      | EINTR \<Rightarrow> Some (Again vars (st2\<lparr>loop_counter := loop_counter st2 + 1\<rparr>))
                      | EBADF \<Rightarrow> (case EVT_clean_fdsets (le_bad env) st2 of
                                    (found, st3) \<Rightarrow>
                                      if found then map_option (Again vars) (end_iteration to_cb env st3)
                                      else Some (Return (-1) st3))
                      | EOther \<Rightarrow> Some (Return (-1) st2))
                else map_option (Again vars) (end_iteration to_cb env st2))))"

definition loop_body ::
  "ptr \<Rightarrow> int \<Rightarrow> loop_env \<Rightarrow> loop_vars \<Rightarrow> EventState \<Rightarrow> loop_result option" where
  "loop_body to_cb auto_exit env vars st =
     (if \<not> keepGoing st then Some (Return 0 (st\<lparr>in_loop := False\<rparr>))
      else
        let st1 = le_pt env st in
        if \<not> keepGoing st1 then Some (Return 0 (st1\<lparr>in_loop := False\<rparr>))
        else
          let (re, st2) = single_step env st1;
              paused = loop_paused st2;
              watch = watch_sets st2;
              maxfd = maxFd st2 + 1;
              nextAwk = (if paused then None else queue_deadline st2 (queue st2));
              mono_to = queue_deadline st2 (dbg_queue st2)
          in if auto_exit_now auto_exit st2
             then Some (Return 0 (st2\<lparr>keepGoing := False, in_loop := False\<rparr>))
             else
               (case le_block env nextAwk paused mono_to watch maxfd of
                  (retval, sel, err) \<Rightarrow>
                    loop_events to_cb env vars paused maxfd
                      (retval, (\<lambda>i. case watch i of None \<Rightarrow> None | Some _ \<Rightarrow> Some (sel i)), err) st2))"

text \<open>The whole loop, one environment per iteration; \<open>edbg_init\<close> is a parameter here.\<close>

fun loop_from :: "ptr \<Rightarrow> int \<Rightarrow> loop_env list \<Rightarrow> loop_vars \<Rightarrow> EventState \<Rightarrow> (int \<times> EventState) option" where
  "loop_from to_cb auto_exit [] vars st = None"
| "loop_from to_cb auto_exit (env # envs) vars st =
     (case loop_body to_cb auto_exit env vars st of
        None \<Rightarrow> None
      | Some (Return r st') \<Rightarrow> Some (r, st')
      | Some (Again vars' st') \<Rightarrow> loop_from to_cb auto_exit envs vars' st')"

definition EVT_start_loop_auto_exit ::
  "(EventState \<Rightarrow> EventState) \<Rightarrow> ptr \<Rightarrow> loop_env list \<Rightarrow> EventState \<Rightarrow> int \<Rightarrow> (int \<times> EventState) option" where
  "EVT_start_loop_auto_exit init to_cb envs st auto_exit =
     loop_from to_cb auto_exit envs \<lparr>startEvent = EVENT_FD_READ, startFd = 0\<rparr>
       (init (st\<lparr>in_loop := True, keepGoing := True,
                 break_on_next := (initialDebuggerState st = EDBG_STOPPED)\<rparr>))"

definition EVT_start_loop ::
  "(EventState \<Rightarrow> EventState) \<Rightarrow> ptr \<Rightarrow> loop_env list \<Rightarrow> EventState \<Rightarrow> (int \<times> EventState) option" where
  "EVT_start_loop init to_cb envs st = EVT_start_loop_auto_exit init to_cb envs st 0"

definition EVT_exit_loop :: "EventState \<Rightarrow> EventState" where
  "EVT_exit_loop st = st\<lparr>keepGoing := False\<rparr>"

end
