(* ===== verification/C_Text.thy ===== *)
theory C_Text
  imports Prelude
begin

text \<open>
  Characters and numbers as the string functions of C read and write them: comparison without case, \<open>strtol\<close> and the conversions of \<open>sscanf\<close>
  on the one side, \<open>%d\<close>, \<open>%u\<close> and \<open>%02X\<close> on the other, and that reading what was written gives the number back.
\<close>

section \<open>Characters\<close>

definition tolower :: "char \<Rightarrow> char" where
  "tolower c = (if of_char c \<in> {65 .. 90 :: nat} then char_of (of_char c + 32 :: nat) else c)"

definition strcaseeq :: "string \<Rightarrow> string \<Rightarrow> bool" where
  "strcaseeq a b = (map tolower a = map tolower b)"

lemma strcaseeq_refl [simp]: "strcaseeq a a"
  by (simp add: strcaseeq_def)

definition isspace :: "char \<Rightarrow> bool" where
  "isspace c = (c = CHR '' '' \<or> of_char c \<in> {9 .. 13 :: nat})"

text \<open>The characters of a C string, up to its terminator.\<close>

definition cstr :: "string \<Rightarrow> string" where
  "cstr s = takeWhile (\<lambda>c. c \<noteq> CHR 0x00) s"

lemma cstr_plain: "CHR 0x00 \<notin> set s \<Longrightarrow> cstr s = s"
  by (auto simp: cstr_def takeWhile_eq_all_conv)

section \<open>Reading integers\<close>

definition digit_value :: "char \<Rightarrow> nat option" where
  "digit_value c =
     (let n = of_char c :: nat
      in if n \<in> {48 .. 57} then Some (n - 48) else if n \<in> {97 .. 122} then Some (n - 87) else if n \<in> {65 .. 90} then Some (n - 55) else None)"

definition is_digit :: "nat \<Rightarrow> char \<Rightarrow> bool" where
  "is_digit base c = (case digit_value c of None \<Rightarrow> False | Some d \<Rightarrow> d < base)"

primrec digits_value :: "nat \<Rightarrow> nat \<Rightarrow> string \<Rightarrow> nat" where
  "digits_value base acc [] = acc"
| "digits_value base acc (c # cs) = (if is_digit base c then digits_value base (acc * base + the (digit_value c)) cs else acc)"

text \<open>
  White space, a sign, a prefix that selects the base when \<open>base\<close> is 0, and digits: the number, before it is fitted into a type, or \<open>None\<close> when
  there is no digit.
\<close>

definition c_integer :: "nat \<Rightarrow> string \<Rightarrow> int option" where
  "c_integer base s =
     (let s1 = dropWhile isspace s;
          neg = (take 1 s1 = ''-'');
          s2 = (if take 1 s1 = ''-'' \<or> take 1 s1 = ''+'' then tl s1 else s1);
          hex = (base = 0 \<and> (take 2 s2 = ''0x'' \<or> take 2 s2 = ''0X'') \<and> drop 2 s2 \<noteq> [] \<and> is_digit 16 (s2 ! 2));
          b = (if base \<noteq> 0 then base else if hex then 16 else if take 1 s2 = ''0'' then 8 else 10);
          s3 = (if hex then drop 2 s2 else s2)
      in if s3 = [] \<or> \<not> is_digit b (hd s3) then None
         else Some (if neg then - int (digits_value b 0 s3) else int (digits_value b 0 s3)))"

text \<open>A \<open>long\<close> has 64 bits: the value and whether \<open>errno\<close> is set to \<open>ERANGE\<close>.\<close>

definition clamp64 :: "int \<Rightarrow> int \<times> bool" where
  "clamp64 v = (if v < - (2 ^ 63) then (- (2 ^ 63), True) else if v > 2 ^ 63 - 1 then (2 ^ 63 - 1, True) else (v, False))"

definition strtol :: "nat \<Rightarrow> string \<Rightarrow> int \<times> bool" where
  "strtol base s = (case c_integer base s of None \<Rightarrow> (0, False) | Some v \<Rightarrow> clamp64 v)"

definition atol :: "string \<Rightarrow> int" where
  "atol s = fst (strtol 10 s)"

section \<open>Writing integers\<close>

definition digit_char :: "nat \<Rightarrow> char" where
  "digit_char d = char_of (if d < 10 then 48 + d else 55 + d)"

fun show_nat :: "nat \<Rightarrow> string" where
  "show_nat n = (if n < 10 then [digit_char n] else show_nat (n div 10) @ [digit_char (n mod 10)])"

declare show_nat.simps [simp del]

definition show_int :: "int \<Rightarrow> string" where
  "show_int i = (if i < 0 then CHR ''-'' # show_nat (nat (- i)) else show_nat (nat i))"

definition pad_left :: "nat \<Rightarrow> char \<Rightarrow> string \<Rightarrow> string" where
  "pad_left n c s = replicate (n - length s) c @ s"

definition EOL :: char where "EOL = CHR 0x0A"
definition QUOTE :: char where "QUOTE = CHR 0x22"

definition show_hex_byte :: "u8 \<Rightarrow> string" where
  "show_hex_byte w = [digit_char (unat w div 16), digit_char (unat w mod 16)]"

section \<open>Reading what was written\<close>

lemma digit_char_cases: "d < 10 \<Longrightarrow> digit_char d \<in> set ''0123456789''"
proof -
  assume "d < 10"
  then have "d \<in> {0, 1, 2, 3, 4, 5, 6, 7, 8, 9}" by auto
  moreover have "map digit_char [0, 1, 2, 3, 4, 5, 6, 7, 8, 9] = ''0123456789''" by (simp add: digit_char_def char_of_def bit_0)
  ultimately show ?thesis by auto
qed

lemma digit_char_value [simp]: "d < 10 \<Longrightarrow> digit_value (digit_char d) = Some d"
  by (simp add: digit_value_def digit_char_def Let_def)

lemma digit_char_is_digit: "d < 10 \<Longrightarrow> d < b \<Longrightarrow> is_digit b (digit_char d)"
  by (simp add: is_digit_def)

lemma digits_value_append: "list_all (is_digit b) xs \<Longrightarrow> digits_value b acc (xs @ ys) = digits_value b (digits_value b acc xs) ys"
  by (induction xs arbitrary: acc) auto

lemma show_nat_digits: "set (show_nat n) \<subseteq> digit_char ` {..< 10}"
proof (induction n rule: show_nat.induct)
  case (1 n)
  then show ?case by (subst show_nat.simps) auto
qed

lemma show_nat_digit_chars: "c \<in> set (show_nat n) \<Longrightarrow>
    c \<in> set ''0123456789''"
  using show_nat_digits [of n] digit_char_cases by fastforce

lemma show_nat_value: "list_all (is_digit 10) (show_nat n) \<and> digits_value 10 0 (show_nat n) = n"
proof (induction n rule: show_nat.induct)
  case (1 n)
  have "is_digit 10 (digit_char (n mod 10))" "n < 10 \<Longrightarrow> is_digit 10 (digit_char n)" by (simp_all add: digit_char_is_digit)
  then show ?case using 1 by (subst show_nat.simps, subst (2) show_nat.simps) (auto simp: digits_value_append)
qed

lemma show_nat_nonempty [simp]: "show_nat n \<noteq> []"
  by (subst show_nat.simps) auto

lemma show_nat_head: "0 < n \<Longrightarrow> hd (show_nat n) \<noteq> CHR ''0''"
proof (induction n rule: show_nat.induct)
  case (1 n)
  show ?case
  proof (cases "n < 10")
    case True
    then have "n \<in> {1, 2, 3, 4, 5, 6, 7, 8, 9}" using 1(2) by auto
    then show ?thesis by (subst show_nat.simps) (auto simp: digit_char_def char_of_def bit_0)
  next
    case False
    then show ?thesis using 1(1) by (subst show_nat.simps) auto
  qed
qed

lemma show_nat_0: "show_nat 0 = ''0''"
  by (subst show_nat.simps) (simp add: digit_char_def char_of_def bit_0)

text \<open>The first character of a printed number is neither white space nor a sign, and starts no prefix.\<close>

lemma show_nat_start:
  "\<not> isspace (hd (show_nat n))" "hd (show_nat n) \<noteq> CHR ''-''" "hd (show_nat n) \<noteq> CHR ''+''" "is_digit 10 (hd (show_nat n))"
proof -
  have "hd (show_nat n) \<in> set (show_nat n)" by simp
  then show "\<not> isspace (hd (show_nat n))" "hd (show_nat n) \<noteq> CHR ''-''" "hd (show_nat n) \<noteq> CHR ''+''"
    using show_nat_digit_chars [of "hd (show_nat n)" n] by (auto simp: isspace_def)
  show "is_digit 10 (hd (show_nat n))" using show_nat_value [of n] by (cases "show_nat n") auto
qed

lemma take1_hd: "s \<noteq> [] \<Longrightarrow> (take (Suc 0) s = [c]) = (hd s = c)"
  by (cases s) auto

lemma take2_hd: "take 2 s = [c, d] \<Longrightarrow> hd s = c"
  by (cases s) auto

lemma nat_read:
  assumes "base = 0 \<or> base = 10"
  shows "c_integer base (show_nat n) = Some (int n)"
proof (cases "n = 0")
  case True
  have "is_digit 10 (CHR ''0'')" "is_digit 8 (CHR ''0'')" "digit_value (CHR ''0'') = Some 0" by (simp_all add: is_digit_def digit_value_def)
  then show ?thesis using assms True by (auto simp: show_nat_0 c_integer_def isspace_def Let_def)
next
  case False
  let ?s = "show_nat n"
  have d: "dropWhile isspace ?s = ?s" using show_nat_start(1) [of n] by (cases ?s) auto
  have t: "take 1 ?s \<noteq> ''-''" "take 1 ?s \<noteq> ''+''" "take 1 ?s \<noteq> ''0''"
    using show_nat_start [of n] show_nat_head [of n] False by (simp_all add: take1_hd)
  have t2: "take 2 ?s \<noteq> ''0x''" "take 2 ?s \<noteq> ''0X''" using take2_hd [of ?s] show_nat_head [of n] False by blast+
  have v: "digits_value 10 0 ?s = n" using show_nat_value [of n] by blast
  show ?thesis unfolding c_integer_def d Let_def using assms by (elim disjE) (simp_all add: t [simplified] t2 v show_nat_start(4))
qed

lemma negative_read:
  assumes "base = 0 \<or> base = 10"
  shows "c_integer base (CHR ''-'' # show_nat n) = Some (- int n)"
proof (cases "n = 0")
  case True
  have "is_digit 10 (CHR ''0'')" "is_digit 8 (CHR ''0'')" "digit_value (CHR ''0'') = Some 0" by (simp_all add: is_digit_def digit_value_def)
  then show ?thesis using assms True by (auto simp: show_nat_0 c_integer_def isspace_def Let_def)
next
  case False
  let ?s = "show_nat n"
  have d: "dropWhile isspace (CHR ''-'' # ?s) = CHR ''-'' # ?s" by (simp add: isspace_def)
  have t: "take (Suc 0) ?s \<noteq> ''0''" using show_nat_head [of n] False take1_hd [of ?s] by simp
  have t2: "take 2 ?s \<noteq> ''0x''" "take 2 ?s \<noteq> ''0X''" using take2_hd [of ?s] show_nat_head [of n] False by blast+
  have v: "digits_value 10 0 ?s = n" using show_nat_value [of n] by blast
  show ?thesis unfolding c_integer_def d Let_def using assms by (elim disjE) (simp_all add: t [simplified] t2 v show_nat_start(4))
qed

lemma show_int_read: "base = 0 \<or> base = 10 \<Longrightarrow> c_integer base (show_int i) = Some i"
  using nat_read [of base "nat i"] negative_read [of base "nat (- i)"] by (auto simp: show_int_def)

lemma strtol_show_int: "base = 0 \<or> base = 10 \<Longrightarrow> - (2 ^ 63) \<le> i \<Longrightarrow> i < 2 ^ 63 \<Longrightarrow> strtol base (show_int i) = (i, False)"
  by (simp add: strtol_def show_int_read clamp64_def)

lemma show_int_nonempty [simp]: "show_int i \<noteq> []"
  by (simp add: show_int_def)

end
