(* ===== verification/Event_Admin.thy ===== *)
theory Event_Admin
  imports Event_Loop C_Text
begin

text \<open>
  The rest of \<open>events.c\<close>: tearing a handler down, the GPIO interrupt callbacks, and the commands
  of the event debugger. The JSON accessors of \<open>json.c\<close> appear as the values they return for a
  message; the value of the uninitialised local \<open>steps\<close> is the parameter \<open>junk\<close>.
\<close>

section \<open>Tearing down\<close>

definition remove_all_events :: "nat \<Rightarrow> EventState \<Rightarrow> EventState" where
  "remove_all_events b st = foldl (\<lambda>s event. snd (EVT_remove_internal s (Chain b 0) event)) st [0 ..< EVENT_MAX]"

fun free_bucket :: "nat \<Rightarrow> nat \<Rightarrow> EventState \<Rightarrow> EventState option" where
  "free_bucket 0 b st = (if events st b = [] then Some st else None)"
| "free_bucket (Suc n) b st = (if events st b = [] then Some st else free_bucket n b (remove_all_events b st))"

fun free_buckets :: "nat \<Rightarrow> nat list \<Rightarrow> EventState \<Rightarrow> EventState option" where
  "free_buckets n [] st = Some st"
| "free_buckets n (b # bs) st =
     (case free_bucket n b st of None \<Rightarrow> None | Some st' \<Rightarrow> free_buckets n bs st')"

text \<open>The two loops that pop and free what is still queued.\<close>

lemma free_queue_decreases:
  assumes "(Some cur, q, m) = ps_pqueue_pop (queue_of r st) (mem st)" "q_size (queue_of r st) \<noteq> 0"
  shows "q_size (queue_of r (free_evt cur (set_queue r q (st\<lparr>mem := m\<rparr>)))) < q_size (queue_of r st)"
proof -
  have "q_size q < q_size (queue_of r st)" using pop_size [OF assms(1) [symmetric]] assms(2) by simp
  moreover have "queue_of r (free_evt cur (set_queue r q (st\<lparr>mem := m\<rparr>))) = q"
    by (simp add: free_evt_def queue_of_def set_queue_def)
  ultimately show ?thesis by simp
qed

function free_queue :: "queue_ref \<Rightarrow> EventState \<Rightarrow> EventState" where
  "free_queue r st =
     (if q_size (queue_of r st) = 0 then st
      else case ps_pqueue_pop (queue_of r st) (mem st) of
             (None, _, _) \<Rightarrow> st
           | (Some cur, q, m) \<Rightarrow> free_queue r (free_evt cur (set_queue r q (st\<lparr>mem := m\<rparr>))))"
  by pat_completeness auto
termination
  by (relation "measure (\<lambda>(r, st). q_size (queue_of r st))") (simp_all add: free_queue_decreases)

declare free_queue.simps [simp del]

definition remove_if :: "ptr \<Rightarrow> EventState \<Rightarrow> EventState" where
  "remove_if e st = (if e \<noteq> NULL then snd (EVT_sched_remove st e) else st)"

text \<open>\<open>n\<close> bounds the deferred callbacks and the passes over one bucket.\<close>

definition EVT_free_handler ::
  "(ptr \<Rightarrow> ptr \<Rightarrow> EventState \<Rightarrow> int \<times> EventState) \<Rightarrow> nat \<Rightarrow> EventState \<Rightarrow> EventState option" where
  "EVT_free_handler run n st =
     (case run_deferred run n st of
        None \<Rightarrow> None
      | Some st1 \<Rightarrow>
          let st2 = remove_if (dbg_reply_evt st1) (remove_if (dump_evt st1) (remove_if (breakpoint_evt st1) st1))
          in (case free_buckets n [0 ..< hashSize st2] st2 of
                None \<Rightarrow> None
              | Some st3 \<Rightarrow> Some (free_queue DbgQueue (free_queue MainQueue st3))))"

section \<open>GPIO interrupts\<close>

definition ENOMEM :: int where "ENOMEM = 12"

text \<open>Callback lists hold callback and argument; \<open>log\<close> collects the callbacks run, in order.\<close>

definition add_gpio_intr_callback ::
  "bool \<Rightarrow> GPIOInterruptDesc \<Rightarrow> ptr \<Rightarrow> ptr \<Rightarrow> int \<times> GPIOInterruptDesc \<times> (ptr \<times> ptr) list" where
  "add_gpio_intr_callback ok intr cb arg =
     (if \<not> gpio_tripped intr
      then if ok then (0, intr\<lparr>gpio_callbacks := (cb, arg) # gpio_callbacks intr\<rparr>, [])
           else (- ENOMEM, intr, [])
      else (0, intr, [(cb, arg)]))"

fun remove_cb :: "ptr \<Rightarrow> ptr \<Rightarrow> (ptr \<times> ptr) list \<Rightarrow> (ptr \<times> ptr) list" where
  "remove_cb cb arg [] = []"
| "remove_cb cb arg ((c, a) # xs) =
     (if c = cb \<and> a = arg then remove_cb cb arg xs else (c, a) # remove_cb cb arg xs)"

definition remove_gpio_intr_callback :: "GPIOInterruptDesc \<Rightarrow> ptr \<Rightarrow> ptr \<Rightarrow> int \<times> GPIOInterruptDesc" where
  "remove_gpio_intr_callback intr cb arg =
     (0, intr\<lparr>gpio_callbacks := remove_cb cb arg (gpio_callbacks intr)\<rparr>)"

text \<open>\<open>buff\<close> is what \<open>read\<close> delivers: the bytes read, or fewer than two on a short read or an error.\<close>

definition trip_gpio_intr_callback ::
  "string \<Rightarrow> GPIOInterruptDesc \<Rightarrow> int \<times> GPIOInterruptDesc \<times> (ptr \<times> ptr) list" where
  "trip_gpio_intr_callback buff intr =
     (if length buff \<noteq> 2 then (EVENT_KEEP, intr, [])
      else if hd buff \<noteq> CHR ''Y'' then (EVENT_KEEP, intr, [])
      else (EVENT_REMOVE,
            intr\<lparr>gpio_tripped := True, gpio_fd := (if gpio_fd intr > 0 then -1 else gpio_fd intr),
                 gpio_callbacks := []\<rparr>,
            filter (\<lambda>(c, a). c \<noteq> NULL) (gpio_callbacks intr)))"

text \<open>
  \<open>fd\<close> is the result of \<open>open\<close>, \<open>err\<close> the value of \<open>errno\<close> after it, \<open>trip_cb\<close> the address of
  \<open>trip_gpio_intr_callback\<close>, \<open>self\<close> that of the descriptor passed as its argument.
\<close>

definition setup_gpio_intr ::
  "ptr option \<Rightarrow> ptr \<Rightarrow> ptr \<Rightarrow> int \<Rightarrow> int \<Rightarrow> EventState \<Rightarrow> nat \<Rightarrow> int \<times> EventState" where
  "setup_gpio_intr m trip_cb self fd err st k =
     (let intr = gpio_intrs st k in
      if gpio_tripped intr \<or> gpio_fd intr > 0 then (0, st)
      else
        let st1 = st\<lparr>gpio_intrs := (gpio_intrs st)(k := \<lparr>gpio_fd = fd, gpio_tripped = False, gpio_callbacks = []\<rparr>)\<rparr>
        in if fd < 0 then (- err, st1)
           else
             let (r, st2) = EVT_fd_add m st1 fd EVENT_FD_READ trip_cb self;
                 (fd', st3) = (if r = 0
                               then (0, st2\<lparr>gpio_intrs := (gpio_intrs st2)(k := (gpio_intrs st2 k)\<lparr>gpio_fd := 0\<rparr>)\<rparr>)
                               else (fd, st2));
                 st4 = EVT_fd_set_name st3 fd' ''GPIO''
             in (0, EVT_fd_set_critical st4 fd' 0))"

definition EVT_add_intr_cb ::
  "bool \<Rightarrow> ptr option \<Rightarrow> ptr \<Rightarrow> ptr \<Rightarrow> int \<Rightarrow> int \<Rightarrow> EventState \<Rightarrow> nat \<Rightarrow> ptr \<Rightarrow> ptr
     \<Rightarrow> int \<times> EventState \<times> (ptr \<times> ptr) list" where
  "EVT_add_intr_cb ok m trip_cb self fd err st k cb arg =
     (case setup_gpio_intr m trip_cb self fd err st k of
        (ret, st1) \<Rightarrow>
          if ret < 0 then (ret, st1, [])
          else case add_gpio_intr_callback ok (gpio_intrs st1 k) cb arg of
                 (r, intr, log) \<Rightarrow> (r, st1\<lparr>gpio_intrs := (gpio_intrs st1)(k := intr)\<rparr>, log))"

text \<open>Interrupt 0 is the P-POD deployment switch, interrupt 1 the pending reboot.\<close>

definition EVT_add_ppod_deployment_cb where
  "EVT_add_ppod_deployment_cb ok m trip_cb self fd err st cb arg = EVT_add_intr_cb ok m trip_cb self fd err st 0 cb arg"

definition EVT_add_pending_reboot_cb where
  "EVT_add_pending_reboot_cb ok m trip_cb self fd err st cb arg = EVT_add_intr_cb ok m trip_cb self fd err st 1 cb arg"

definition EVT_remove_ppod_deployment_cb :: "EventState \<Rightarrow> ptr \<Rightarrow> ptr \<Rightarrow> int \<times> EventState" where
  "EVT_remove_ppod_deployment_cb st cb arg =
     (case remove_gpio_intr_callback (gpio_intrs st 0) cb arg of
        (r, intr) \<Rightarrow> (r, st\<lparr>gpio_intrs := (gpio_intrs st)(0 := intr)\<rparr>))"

definition EVT_remove_pending_reboot_cb :: "EventState \<Rightarrow> ptr \<Rightarrow> ptr \<Rightarrow> int \<times> EventState" where
  "EVT_remove_pending_reboot_cb st cb arg =
     (case remove_gpio_intr_callback (gpio_intrs st 1) cb arg of
        (r, intr) \<Rightarrow> (r, st\<lparr>gpio_intrs := (gpio_intrs st)(1 := intr)\<rparr>))"

section \<open>The debugger\<close>

definition EVT_set_initial_debugger_state :: "EventState \<Rightarrow> EVTDebuggerState \<Rightarrow> EventState" where
  "EVT_set_initial_debugger_state st s =
     (let st1 = st\<lparr>initialDebuggerState := s\<rparr>
      in if initialDebuggerState st1 \<noteq> EDBG_DISABLED then st1\<lparr>debuggerState := EDBG_ENABLED\<rparr> else st1)"

definition edbg_breakpoint_cb :: "EventState \<Rightarrow> int \<times> EventState" where
  "edbg_breakpoint_cb st = (EVENT_REMOVE, st\<lparr>breakpoint_evt := NULL\<rparr>)"

text \<open>
  The properties of a message: \<open>command\<close>, the integers \<open>ms\<close>, \<open>steps\<close> and \<open>fd\<close>, the pointer \<open>id\<close> and
  the address that \<open>dlsym\<close> finds for \<open>function\<close> (\<open>None\<close> when the property is missing).
\<close>

record dbg_msg =
  m_command :: "string option"
  m_ms :: "int option"
  m_steps :: "int option"
  m_fd :: "int option"
  m_id :: "ptr option"
  m_function :: "ptr option"

text \<open>
  The parameters of a timed event the command adds: the result of \<open>malloc\<close>, of \<open>realloc\<close>, the
  readings of the handler's clock and of the monotonic clock, the callback's address.
\<close>

record dbg_env =
  de_malloc :: "ptr option"
  de_ok :: bool
  de_now :: timeval
  de_mono :: timeval
  de_cb :: ptr
  de_junk :: int

definition dbg_add_event :: "dbg_env \<Rightarrow> int \<Rightarrow> EventState \<Rightarrow> ptr \<times> EventState" where
  "dbg_add_event env ms st = EVT_sched_add (de_malloc env) (de_ok env) (de_now env) st (EVT_ms2tv ms) (de_cb env) NULL"

definition cmd_run :: "dbg_env \<Rightarrow> dbg_msg \<Rightarrow> EventState \<Rightarrow> EventState" where
  "cmd_run env msg st =
     (let st1 = st\<lparr>break_on_next := False, dbg_step := True\<rparr>;
          st2 = (remove_if (breakpoint_evt st1) st1)\<lparr>breakpoint_evt := NULL\<rparr>;
          steps = (case m_ms msg of None \<Rightarrow> de_junk env | Some n \<Rightarrow> n)
      in if steps > 0
         then let (e, st3) = dbg_add_event env steps st2;
                  st4 = EVT_sched_make_breakpoint (st3\<lparr>breakpoint_evt := e\<rparr>) e;
                  st5 = EVT_sched_set_name st4 e ''Debug Breakpoint''
              in EVT_sched_set_critical st5 e 0
         else st2)"

definition cmd_periodic_dump :: "dbg_env \<Rightarrow> dbg_msg \<Rightarrow> EventState \<Rightarrow> EventState" where
  "cmd_periodic_dump env msg st =
     (let steps = (case m_ms msg of None \<Rightarrow> 0 | Some n \<Rightarrow> n);
          st1 = (remove_if (dump_evt st) st)\<lparr>dump_evt := NULL\<rparr>
      in if steps \<ge> 500
         then let (e, st2) = dbg_add_event env steps st1;
                  st3 = snd (EVT_sched_move_to_mono (de_ok env) (de_mono env) (st2\<lparr>dump_evt := e\<rparr>) e);
                  st4 = EVT_sched_set_name st3 e ''Debug State Dump''
              in EVT_sched_set_critical st4 e 0
         else st1)"

text \<open>The search through the array of the main queue, slots \<open>1 \<dots> size\<close>.\<close>

definition queued_list :: "EventState \<Rightarrow> ptr list" where
  "queued_list st = map (\<lambda>i. q_d (queue st) ! i) [1 ..< ps_pqueue_size (queue st) + 1]"

definition find_timed :: "dbg_msg \<Rightarrow> EventState \<Rightarrow> ptr option" where
  "find_timed msg st =
     (case m_id msg of
        Some i \<Rightarrow> find (\<lambda>x. x = i) (queued_list st)
      | None \<Rightarrow>
          (case m_function msg of
             None \<Rightarrow> None
           | Some f \<Rightarrow> if f = NULL then None else find (\<lambda>x. sc_callback (mem st x) = f) (queued_list st)))"

definition set_timed_breakpoint :: "dbg_msg \<Rightarrow> bool \<Rightarrow> EventState \<Rightarrow> EventState" where
  "set_timed_breakpoint msg on st =
     (case find_timed msg st of
        None \<Rightarrow> st
      | Some x \<Rightarrow> st\<lparr>mem := (mem st)(x := (mem st x)\<lparr>sc_breakpoint := on\<rparr>)\<rparr>)"

definition set_fd_breakpoint :: "dbg_msg \<Rightarrow> bool \<Rightarrow> EventState \<Rightarrow> EventState" where
  "set_fd_breakpoint msg on st =
     (let fd = (case m_fd msg of None \<Rightarrow> 0 | Some n \<Rightarrow> n)
      in if fd > 2 then evt_fd_set_paused st fd on else st)"

definition edbg_client_msg :: "dbg_env \<Rightarrow> dbg_msg \<Rightarrow> EventState \<Rightarrow> EventState" where
  "edbg_client_msg env msg st =
     (case m_command msg of
        None \<Rightarrow> st
      | Some cmd \<Rightarrow>
          if strcaseeq cmd ''run'' then cmd_run env msg st
          else if strcaseeq cmd ''stop'' then st\<lparr>break_on_next := True, steps_to_break := 1\<rparr>
          else if strcaseeq cmd ''next''
          then st\<lparr>break_on_next := True, dbg_step := True,
                  steps_to_break := (case m_steps msg of None \<Rightarrow> 1 | Some n \<Rightarrow> n)\<rparr>
          else if strcaseeq cmd ''start_dumping_every_loop'' then st\<lparr>dump_every_loop := True\<rparr>
          else if strcaseeq cmd ''stop_dumping_every_loop'' then st\<lparr>dump_every_loop := False\<rparr>
          else if strcaseeq cmd ''dump_now'' then st
          else if strcaseeq cmd ''periodic_dump'' then cmd_periodic_dump env msg st
          else if strcaseeq cmd ''set_fd_breakpoint'' then set_fd_breakpoint msg True st
          else if strcaseeq cmd ''clear_fd_breakpoint'' then set_fd_breakpoint msg False st
          else if strcaseeq cmd ''set_timed_breakpoint'' then set_timed_breakpoint msg True st
          else if strcaseeq cmd ''clear_timed_breakpoint'' then set_timed_breakpoint msg False st
          else st)"

text \<open>\<open>clients\<close> is the number of debugger clients that remain.\<close>

definition edbg_debugger_disconnect :: "nat \<Rightarrow> EventState \<Rightarrow> EventState" where
  "edbg_debugger_disconnect clients st =
     (if clients = 0 then (remove_if (dump_evt st) st)\<lparr>dump_evt := NULL\<rparr> else st)"

definition EVT_set_debugger_port :: "EventState \<Rightarrow> int \<Rightarrow> EventState" where
  "EVT_set_debugger_port st port = st\<lparr>dbgPort := port\<rparr>"

definition EVT_set_cmds_pending :: "EventState \<Rightarrow> ptr \<Rightarrow> EventState" where
  "EVT_set_cmds_pending st cb = st\<lparr>cmds_pending := cb\<rparr>"

end
