(* ===== verification/Fd_Correct.thy ===== *)
theory Fd_Correct
  imports Fd_Events Sched_Correct
begin

text \<open>
  The invariant of the descriptor tables and its preservation: the bucket chains hold exactly
  the allocated entries, one per descriptor, in the right bucket; the \<open>fd_set\<close>s, the counts and
  the per-event maxima are determined by the registered callbacks; the count of critical
  entries is exact.
\<close>

section \<open>Invariant\<close>

definition reg :: "EventState \<Rightarrow> nat \<Rightarrow> int set" where
  "reg st e = {e_fd (fmem st x) |x. x \<in> flive st \<and> e_cb (fmem st x) e \<noteq> NULL}"

definition unblocked :: "EventCB \<Rightarrow> nat \<Rightarrow> bool" where
  "unblocked x e \<longleftrightarrow> e_cb x e \<noteq> NULL \<and> (\<not> e_pausable x \<or> \<not> e_breakpoint x e)"

definition blk :: "EventState \<Rightarrow> nat \<Rightarrow> int set" where
  "blk st e = {e_fd (fmem st x) |x. x \<in> flive st \<and> unblocked (fmem st x) e}"

definition fd_crit :: "EventState \<Rightarrow> ptr set" where
  "fd_crit st = {x \<in> flive st. e_critical (fmem st x) \<noteq> 0}"

definition fd_chains :: "EventState \<Rightarrow> bool" where
  "fd_chains st \<longleftrightarrow> 0 < hashSize st \<and> finite (flive st) \<and> NULL \<notin> flive st \<and> \<not> ub st
     \<and> flive st = (\<Union>b < hashSize st. set (events st b))
     \<and> (\<forall>b < hashSize st. distinct (events st b) \<and> (\<forall>x \<in> set (events st b). bucket st (e_fd (fmem st x)) = b))
     \<and> (\<forall>x \<in> flive st. fd_ok (e_fd (fmem st x))) \<and> inj_on (\<lambda>x. e_fd (fmem st x)) (flive st)"

definition entry_busy :: "EventCB \<Rightarrow> bool" where
  "entry_busy x \<longleftrightarrow> (\<exists>e < EVENT_MAX. e_cb x e \<noteq> NULL)
     \<and> (\<forall>e < EVENT_MAX. e_inCallback x e \<noteq> 0 \<longrightarrow> e_cb x e \<noteq> NULL)"

definition fd_busy :: "EventState \<Rightarrow> bool" where
  "fd_busy st \<longleftrightarrow> (\<forall>x \<in> flive st. entry_busy (fmem st x))"

definition top_fd :: "int set \<Rightarrow> int" where
  "top_fd s = (if s = {} then 0 else Max s)"

definition fd_sets :: "EventState \<Rightarrow> bool" where
  "fd_sets st \<longleftrightarrow> critical_fd_count st = int (card (fd_crit st))
     \<and> (\<forall>e < EVENT_MAX. eventSet st e = reg st e \<and> blockedSet st e = blk st e
          \<and> eventCnt st e = int (card (reg st e)) \<and> maxFds st e = top_fd (reg st e) \<and> top_fd (reg st e) \<le> maxFd st)"

definition fd_inv :: "EventState \<Rightarrow> bool" where
  "fd_inv st \<longleftrightarrow> fd_chains st \<and> fd_busy st \<and> fd_sets st"

section \<open>Maxima\<close>

lemma top_fd_simps [simp]: "top_fd {} = 0" "top_fd {x} = x"
  by (simp_all add: top_fd_def)

lemma next_highest_nat:
  assumes "s \<subseteq> {0 ..}"
  shows "foldl (\<lambda>mx i. if i \<in> s then i else mx) 0 [1 .. int n] = top_fd (s \<inter> {..int n})"
proof (induction n)
  case 0
  have "s \<inter> {..0} \<subseteq> {0}" using assms by auto
  then have "s \<inter> {..0} = {} \<or> s \<inter> {..0} = {0}" by (rule subset_singletonD)
  then have "top_fd (s \<inter> {..0}) = 0" by (elim disjE) (simp_all only: top_fd_simps)
  then show ?case by simp
next
  case (Suc n)
  let ?A = "s \<inter> {..int n}" and ?N = "int (Suc n)"
  have fin: "finite ?A" using assms by (intro finite_subset [of ?A "{0..int n}"]) auto
  have ext: "s \<inter> {..?N} = (if ?N \<in> s then insert ?N ?A else ?A)" by (auto simp: order.order_iff_strict)
  have "top_fd (insert ?N ?A) = ?N"
    unfolding top_fd_def using fin by (auto simp: intro!: Max_eqI)
  moreover have "[1 .. ?N] = [1 .. int n] @ [?N]" using upto_rec2 [of 1 ?N] by simp
  ultimately show ?case using Suc ext by simp
qed

lemma next_highest_top:
  assumes "s \<subseteq> {0 ..< fd}" "0 \<le> fd"
  shows "next_highest s fd = top_fd s"
proof (cases "fd = 0")
  case True
  with assms show ?thesis by (auto simp: next_highest_def top_fd_def)
next
  case False
  have "next_highest s fd = top_fd (s \<inter> {..fd - 1})"
    using next_highest_nat [of s "nat (fd - 1)"] assms False
    by (simp add: next_highest_def subset_iff)
  moreover have "s \<inter> {..fd - 1} = s" using assms by auto
  ultimately show ?thesis by simp
qed

lemma max_of_maxFds_ge: "e < EVENT_MAX \<Longrightarrow> f e \<le> max_of_maxFds f"
  by (auto simp: max_of_maxFds_def EVENT_MAX_def upt_rec less_Suc_eq numeral_eq_Suc)

lemma top_insert: "finite s \<Longrightarrow> s \<subseteq> {0 ..} \<Longrightarrow> 0 \<le> fd \<Longrightarrow> top_fd (insert fd s) = max fd (top_fd s)"
  by (auto simp: top_fd_def max_def)

lemma top_ge: "finite s \<Longrightarrow> x \<in> s \<Longrightarrow> x \<le> top_fd s"
  by (auto simp: top_fd_def)

lemma top_remove: "finite s \<Longrightarrow> fd \<noteq> top_fd s \<Longrightarrow> top_fd (s - {fd}) = top_fd s \<or> fd \<notin> s \<or> s = {fd}"
proof -
  assume fin: "finite s" and ne: "fd \<noteq> top_fd s"
  show ?thesis
  proof (cases "fd \<in> s \<and> s \<noteq> {fd}")
    case True
    then have "s \<noteq> {}" "Max s \<in> s" using fin Max_in [of s] by blast+
    with ne have "Max s \<in> s - {fd}" by (auto simp: top_fd_def)
    then have "Max (s - {fd}) = Max s" using fin by (intro Max_eqI) auto
    with True show ?thesis by (auto simp: top_fd_def)
  qed auto
qed

section \<open>Writing one entry\<close>

lemma reg_write:
  assumes "x \<in> flive st" "inj_on (\<lambda>x. e_fd (fmem st x)) (flive st)" "e_fd y = e_fd (fmem st x)"
  shows "reg (st\<lparr>fmem := (fmem st)(x := y)\<rparr>) e =
    (if e_cb y e \<noteq> NULL then insert (e_fd y) (reg st e) else reg st e - {e_fd y})"
  using assms by (auto simp: reg_def inj_on_def)

lemma blk_write:
  assumes "x \<in> flive st" "inj_on (\<lambda>x. e_fd (fmem st x)) (flive st)" "e_fd y = e_fd (fmem st x)"
  shows "blk (st\<lparr>fmem := (fmem st)(x := y)\<rparr>) e =
    (if unblocked y e then insert (e_fd y) (blk st e) else blk st e - {e_fd y})"
  using assms by (auto simp: blk_def inj_on_def)

lemma reg_mem: "x \<in> flive st \<Longrightarrow> inj_on (\<lambda>x. e_fd (fmem st x)) (flive st) \<Longrightarrow>
    e_fd (fmem st x) \<in> reg st e \<longleftrightarrow> e_cb (fmem st x) e \<noteq> NULL"
  by (auto simp: reg_def inj_on_def)

lemma blk_mem: "x \<in> flive st \<Longrightarrow> inj_on (\<lambda>x. e_fd (fmem st x)) (flive st) \<Longrightarrow>
    e_fd (fmem st x) \<in> blk st e \<longleftrightarrow> unblocked (fmem st x) e"
  by (auto simp: blk_def inj_on_def)

lemma reg_finite: "finite (flive st) \<Longrightarrow> finite (reg st e)"
  by (simp add: reg_def setcompr_eq_image)

lemma reg_nonneg: "\<forall>x \<in> flive st. fd_ok (e_fd (fmem st x)) \<Longrightarrow> reg st e \<subseteq> {0 ..}"
  by (auto simp: reg_def fd_ok_def)

lemma fd_chainsD:
  assumes "fd_chains st"
  shows "0 < hashSize st" "finite (flive st)" "NULL \<notin> flive st" "\<not> ub st"
    "flive st = (\<Union>b < hashSize st. set (events st b))"
    "\<And>b. b < hashSize st \<Longrightarrow> distinct (events st b)"
    "\<And>b x. b < hashSize st \<Longrightarrow> x \<in> set (events st b) \<Longrightarrow> bucket st (e_fd (fmem st x)) = b"
    "\<And>x. x \<in> flive st \<Longrightarrow> fd_ok (e_fd (fmem st x))" "inj_on (\<lambda>x. e_fd (fmem st x)) (flive st)"
  using assms unfolding fd_chains_def by blast+

lemma fd_chain_of:
  assumes "fd_chains st" "x \<in> flive st"
  shows "x \<in> set (events st (bucket st (e_fd (fmem st x))))"
  using fd_chainsD(5,7) [OF assms(1)] assms(2) by auto

lemma bucket_less: "0 < hashSize st \<Longrightarrow> bucket st fd < hashSize st"
  by (simp add: bucket_def)

section \<open>Removing a callback\<close>

text \<open>
  The state after the callback of \<open>event\<close> of entry \<open>x\<close> has been cleared, before the entry is
  deleted when it has no callback left.
\<close>

definition cleared :: "EventCB \<Rightarrow> nat \<Rightarrow> EventCB" where
  "cleared x event = x\<lparr>e_cb := (e_cb x)(event := NULL), e_cleanup := (e_cleanup x)(event := NULL),
     e_arg := (e_arg x)(event := NULL)\<rparr>"

definition clear_event :: "EventState \<Rightarrow> ptr \<Rightarrow> nat \<Rightarrow> EventState" where
  "clear_event st tmp event =
     (let x = fmem st tmp;
          st1 = (if e_cleanup x event \<noteq> NULL
                 then st\<lparr>calls := calls st @ [(e_cleanup x event, event, e_arg x event)]\<rparr> else st)
      in drop_max (e_fd x) event
           (st1\<lparr>eventCnt := (eventCnt st1)(event := eventCnt st1 event - 1),
                fmem := (fmem st1)(tmp := cleared x event),
                eventSet := (eventSet st1)(event := eventSet st1 event - {e_fd x}),
                blockedSet := (blockedSet st1)(event := blockedSet st1 event - {e_fd x})\<rparr>))"

lemma cleared_fields [simp]:
  "e_fd (cleared x e) = e_fd x" "e_cb (cleared x e) i = (if i = e then NULL else e_cb x i)"
  "e_critical (cleared x e) = e_critical x" "e_inCallback (cleared x e) = e_inCallback x"
  "unblocked (cleared x e) i = (i \<noteq> e \<and> unblocked x i)"
  by (auto simp: cleared_def unblocked_def)

lemma clear_event_fields [simp]:
  "fmem (clear_event st x event) = (fmem st)(x := cleared (fmem st x) event)"
  "flive (clear_event st x event) = flive st" "events (clear_event st x event) = events st"
  "hashSize (clear_event st x event) = hashSize st" "ub (clear_event st x event) = ub st"
  "critical_fd_count (clear_event st x event) = critical_fd_count st"
  "eventSet (clear_event st x event) e = (if e = event then eventSet st e - {e_fd (fmem st x)} else eventSet st e)"
  "blockedSet (clear_event st x event) e = (if e = event then blockedSet st e - {e_fd (fmem st x)} else blockedSet st e)"
  "eventCnt (clear_event st x event) e = (if e = event then eventCnt st e - 1 else eventCnt st e)"
  by (simp_all add: clear_event_def Let_def)

lemma reg_clear:
  assumes "fd_chains st" "x \<in> flive st"
  shows "reg (clear_event st x event) e = (if e = event then reg st e - {e_fd (fmem st x)} else reg st e)"
    "blk (clear_event st x event) e = (if e = event then blk st e - {e_fd (fmem st x)} else blk st e)"
proof -
  note c = fd_chainsD [OF assms(1)]
  let ?w = "st\<lparr>fmem := (fmem st)(x := cleared (fmem st x) event)\<rparr>"
  have "reg (clear_event st x event) e = reg ?w e" "blk (clear_event st x event) e = blk ?w e"
    by (simp_all add: reg_def blk_def)
  then show "reg (clear_event st x event) e = (if e = event then reg st e - {e_fd (fmem st x)} else reg st e)"
    "blk (clear_event st x event) e = (if e = event then blk st e - {e_fd (fmem st x)} else blk st e)"
    using reg_write [OF assms(2) c(9), of "cleared (fmem st x) event" e] reg_mem [OF assms(2) c(9), of e]
      blk_write [OF assms(2) c(9), of "cleared (fmem st x) event" e] blk_mem [OF assms(2) c(9), of e]
    by (auto simp: insert_absorb)
qed

lemma clear_event_chains: "fd_chains st \<Longrightarrow> fd_chains (clear_event st x event)"
proof -
  assume a: "fd_chains st"
  have fd: "e_fd (fmem (clear_event st x event) y) = e_fd (fmem st y)" for y by simp
  have b: "bucket (clear_event st x event) = bucket st" by (rule ext) (simp add: bucket_def)
  show ?thesis using a unfolding fd_chains_def fd b clear_event_fields(2-5) .
qed

lemma drop_max_maxFds:
  assumes "maxFds st event = top_fd S" "eventSet st event = S - {fd}" "fd \<in> S" "finite S" "S \<subseteq> {0 ..}"
    "eventCnt st event = int (card (S - {fd}))"
  shows "maxFds (drop_max fd event st) = (maxFds st)(event := top_fd (S - {fd}))"
proof (cases "fd = top_fd S")
  case True
  have below: "S - {fd} \<subseteq> {0 ..< fd}"
  proof
    fix y assume y: "y \<in> S - {fd}"
    then have "y \<le> fd" "0 \<le> y" using top_ge [OF assms(4), of y] True assms(5) by auto
    with y show "y \<in> {0 ..< fd}" by simp
  qed
  show ?thesis
  proof (cases "S - {fd} = {}")
    case e: True
    then have "\<not> eventCnt st event > 0" using assms(6) by (simp only: card.empty of_nat_0)
    with True assms(1) e show ?thesis by (simp only: drop_max_def top_fd_def if_True if_False) simp
  next
    case False
    then have "eventCnt st event > 0" using assms(4,6) by (simp add: card_gt_0_iff)
    moreover have "next_highest (S - {fd}) fd = top_fd (S - {fd})"
      using next_highest_top [OF below] assms(3,5) by auto
    ultimately show ?thesis using True assms(1,2) by (simp add: drop_max_def Let_def)
  qed
next
  case False
  with top_remove [of S fd] assms(3,4) have "top_fd (S - {fd}) = top_fd S"
    by (metis top_fd_simps(2))
  with False assms(1) show ?thesis by (auto simp: drop_max_def fun_eq_iff)
qed

lemma drop_max_bound:
  assumes "\<And>e. e < EVENT_MAX \<Longrightarrow> maxFds st e \<le> maxFd st" "e < EVENT_MAX" "0 \<le> maxFd st"
  shows "maxFds (drop_max fd event st) e \<le> maxFd (drop_max fd event st)"
  using assms max_of_maxFds_ge [OF assms(2), of "(maxFds st)(event := next_highest (eventSet st event) fd)"]
  by (auto simp: drop_max_def Let_def)

lemma clear_event_sets:
  assumes inv: "fd_chains st" "fd_sets st" and x: "x \<in> flive st" "e_cb (fmem st x) event \<noteq> NULL"
    and e: "event < EVENT_MAX"
  shows "fd_sets (clear_event st x event)"
proof -
  let ?st = "clear_event st x event" and ?fd = "e_fd (fmem st x)" and ?S = "reg st event"
  note c = fd_chainsD [OF inv(1)]
  have s: "critical_fd_count st = int (card (fd_crit st))"
    "\<And>e. e < EVENT_MAX \<Longrightarrow> eventSet st e = reg st e \<and> blockedSet st e = blk st e
          \<and> eventCnt st e = int (card (reg st e)) \<and> maxFds st e = top_fd (reg st e) \<and> top_fd (reg st e) \<le> maxFd st"
    using inv(2) by (auto simp: fd_sets_def)
  have fd: "?fd \<in> ?S" using reg_mem [OF x(1) c(9)] x(2) by simp
  have fin: "finite (reg st e)" for e using reg_finite [OF c(2)] .
  have nn: "?S \<subseteq> {0 ..}" using reg_nonneg [of st event] c(8) by blast
  have cnt: "int (card (?S - {?fd})) = int (card ?S) - 1" using fd fin by (simp only: int_card_remove if_True)
  let ?st1 = "(if e_cleanup (fmem st x) event \<noteq> NULL
       then st\<lparr>calls := calls st @ [(e_cleanup (fmem st x) event, event, e_arg (fmem st x) event)]\<rparr> else st)"
  let ?st2 = "?st1\<lparr>eventCnt := (eventCnt ?st1)(event := eventCnt ?st1 event - 1),
       fmem := (fmem ?st1)(x := cleared (fmem st x) event),
       eventSet := (eventSet ?st1)(event := eventSet ?st1 event - {?fd}),
       blockedSet := (blockedSet ?st1)(event := blockedSet ?st1 event - {?fd})\<rparr>"
  have st: "?st = drop_max ?fd event ?st2" by (simp add: clear_event_def Let_def)
  have mf2: "maxFds ?st2 = maxFds st" "maxFd ?st2 = maxFd st" by simp_all
  have mf: "maxFds ?st = (maxFds st)(event := top_fd (?S - {?fd}))"
    unfolding st mf2 [symmetric] by (rule drop_max_maxFds) (use s(2) [OF e] fd fin nn cnt in simp_all)
  have nonneg: "0 \<le> maxFd st"
  proof -
    have "0 \<le> top_fd ?S" using fd nn top_ge [OF fin fd] by auto
    with s(2) [OF e] show ?thesis by linarith
  qed
  have bd2: "maxFds ?st2 i \<le> maxFd ?st2" if "i < EVENT_MAX" for i
    unfolding mf2 using s(2) [OF that] by simp
  have bd: "maxFds ?st i \<le> maxFd ?st" if "i < EVENT_MAX" for i
    unfolding st by (rule drop_max_bound [OF bd2 that]) (use nonneg in \<open>simp_all only: mf2\<close>)
  have crit: "fd_crit ?st = fd_crit st" by (auto simp: fd_crit_def)
  show ?thesis
    unfolding fd_sets_def crit reg_clear [OF inv(1) x(1)] mf
  proof (intro conjI allI impI)
    fix i assume i: "i < EVENT_MAX"
    show "top_fd (if i = event then reg st i - {?fd} else reg st i) \<le> maxFd ?st"
      using bd [OF i] s(2) [OF i] by (auto simp: mf split: if_splits)
  qed (use s cnt in auto)
qed

definition idle :: "EventCB \<Rightarrow> bool" where
  "idle x \<longleftrightarrow> (\<forall>e < EVENT_MAX. e_cb x e = NULL)"

definition delete_entry :: "link \<Rightarrow> ptr \<Rightarrow> EventState \<Rightarrow> EventState" where
  "delete_entry l x st =
     (let st4 = (if e_critical (fmem st x) \<noteq> 0 then st\<lparr>critical_fd_count := critical_fd_count st - 1\<rparr> else st);
          st5 = unlink l x st4
      in st5\<lparr>flive := flive st5 - {x}\<rparr>)"

lemma remove_internal_eq:
  assumes "deref st l = x" "x \<noteq> NULL" "x \<in> flive st" "e_cb (fmem st x) event \<noteq> NULL"
  shows "EVT_remove_internal st l event =
    (if idle (cleared (fmem st x) event) then (True, delete_entry l x (clear_event st x event))
     else (False, clear_event st x event))"
proof -
  have "idle (cleared (fmem st x) event) \<longleftrightarrow> (\<forall>i \<in> set [0 ..< EVENT_MAX]. e_cb (cleared (fmem st x) event) i = NULL)"
    by (auto simp: idle_def)
  then show ?thesis using assms
    by (simp add: EVT_remove_internal_def Let_def delete_entry_def clear_event_def cleared_def)
qed

lemma unlink_chain_fields [simp]:
  "flive (unlink (Chain b i) x st) = flive st" "fmem (unlink l x st) = fmem st"
  "hashSize (unlink l x st) = hashSize st" "ub (unlink l x st) = ub st"
  "eventSet (unlink l x st) = eventSet st" "blockedSet (unlink l x st) = blockedSet st"
  "eventCnt (unlink l x st) = eventCnt st" "maxFds (unlink l x st) = maxFds st"
  "maxFd (unlink l x st) = maxFd st" "critical_fd_count (unlink l x st) = critical_fd_count st"
  "events (unlink (Chain b i) x st) = (events st)(b := take i (events st b) @ drop (Suc i) (events st b))"
  by (simp_all add: unlink_def split: link.splits)

lemma set_remove_nth:
  assumes "distinct xs" "i < length xs"
  shows "set (take i xs @ drop (Suc i) xs) = set xs - {xs ! i}" "distinct (take i xs @ drop (Suc i) xs)"
proof -
  have xs: "xs = take i xs @ xs ! i # drop (Suc i) xs" using assms(2) by (rule id_take_nth_drop)
  have d: "distinct (take i xs @ xs ! i # drop (Suc i) xs)" using assms(1) xs by simp
  then show "distinct (take i xs @ drop (Suc i) xs)" by simp
  have "set xs = set (take i xs @ xs ! i # drop (Suc i) xs)" using xs by simp
  with d show "set (take i xs @ drop (Suc i) xs) = set xs - {xs ! i}" by auto
qed

lemma delete_entry_inv:
  assumes c: "fd_chains st" and s: "fd_sets st" and b: "b < hashSize st" "i < length (events st b)" "x = events st b ! i"
    and idle: "idle (fmem st x)"
  shows "fd_chains (delete_entry (Chain b i) x st) \<and> fd_sets (delete_entry (Chain b i) x st)
    \<and> flive (delete_entry (Chain b i) x st) = flive st - {x} \<and> fmem (delete_entry (Chain b i) x st) = fmem st"
proof -
  let ?st = "delete_entry (Chain b i) x st"
  note h = fd_chainsD [OF c]
  have f: "flive ?st = flive st - {x}" "fmem ?st = fmem st" "hashSize ?st = hashSize st" "ub ?st = ub st"
    "eventSet ?st = eventSet st" "blockedSet ?st = blockedSet st" "eventCnt ?st = eventCnt st"
    "maxFds ?st = maxFds st" "maxFd ?st = maxFd st"
    "events ?st = (events st)(b := take i (events st b) @ drop (Suc i) (events st b))"
    "critical_fd_count ?st = critical_fd_count st - (if e_critical (fmem st x) \<noteq> 0 then 1 else 0)"
    by (simp_all add: delete_entry_def Let_def)
  have xl: "x \<in> flive st" using h(5) b by (auto intro!: bexI [of _ b])
  note rm = set_remove_nth [OF h(6) [OF b(1)] b(2)]
  have xother: "x \<notin> set (events st b')" if "b' < hashSize st" "b' \<noteq> b" for b'
    using h(7) [OF that(1), of x] h(7) [OF b(1), of x] b that(2) by auto
  have live: "flive st - {x} = (\<Union>b' < hashSize st. set (events ?st b'))"
    unfolding f h(5) using b rm(1) xother by (auto split: if_splits)
  have buck: "bucket ?st = bucket st" by (rule ext) (simp add: bucket_def f)
  have "fd_chains ?st"
    unfolding fd_chains_def buck f(1-4)
  proof (intro conjI allI impI ballI)
    show "flive st - {x} = (\<Union>b' < hashSize st. set (events ?st b'))" by (rule live)
    fix b' assume b': "b' < hashSize st"
    show "distinct (events ?st b')" using rm(2) h(6) [OF b'] by (simp add: f)
    fix y assume "y \<in> set (events ?st b')"
    then have "y \<in> set (events st b')" using rm(1) unfolding f(10) by (auto split: if_splits)
    then show "bucket st (e_fd (fmem st y)) = b'" using h(7) [OF b'] by blast
  next
    show "inj_on (\<lambda>x. e_fd (fmem st x)) (flive st - {x})" using h(9) by (rule inj_on_subset) blast
  qed (use h in auto)
  moreover have "reg ?st e = reg st e" "blk ?st e = blk st e" if "e < EVENT_MAX" for e
    using idle that by (auto simp: reg_def blk_def f idle_def unblocked_def)
  moreover have "fd_crit ?st = fd_crit st - {x}" by (auto simp: fd_crit_def f)
  moreover have "finite (fd_crit st)" "x \<in> fd_crit st \<longleftrightarrow> e_critical (fmem st x) \<noteq> 0"
    using h(2) xl by (auto simp: fd_crit_def)
  ultimately show ?thesis
    using s f by (simp add: fd_sets_def int_card_remove del: card_Diff_singleton card_Diff_insert)
qed

lemma fd_busy_clear:
  assumes "fd_busy st" "\<not> idle (cleared (fmem st x) event)" "e_inCallback (fmem st x) event = 0"
  shows "fd_busy (clear_event st x event)"
  using assms by (auto simp: fd_busy_def idle_def entry_busy_def)

lemma remove_internal_inv:
  assumes inv: "fd_inv st" and b: "b < hashSize st" "i < length (events st b)" and e: "event < EVENT_MAX"
    and x: "events st b ! i = x" "e_cb (fmem st x) event \<noteq> NULL" "e_inCallback (fmem st x) event = 0"
    and r: "EVT_remove_internal st (Chain b i) event = (d, st')"
  shows "fd_inv st' \<and> hashSize st' = hashSize st \<and> (d \<longrightarrow> flive st' = flive st - {x}) \<and> (\<not> d \<longrightarrow> flive st' = flive st)
    \<and> fmem st' = (fmem st)(x := cleared (fmem st x) event)
    \<and> events st' = (if d then (events st)(b := take i (events st b) @ drop (Suc i) (events st b)) else events st)"
proof -
  have c: "fd_chains st" and busy: "fd_busy st" and s: "fd_sets st" using inv by (auto simp: fd_inv_def)
  note h = fd_chainsD [OF c]
  have xl: "x \<in> flive st" using h(5) b x(1) by (auto intro!: bexI [of _ b])
  then have xn: "x \<noteq> NULL" using h(3) by auto
  have dr: "deref st (Chain b i) = x" using b x(1) by (simp add: deref_def)
  let ?c = "clear_event st x event"
  note c1 = clear_event_chains [OF c, of x event] and s1 = clear_event_sets [OF c s xl x(2) e]
  note eq = remove_internal_eq [OF dr xn xl x(2)]
  show ?thesis
  proof (cases "idle (cleared (fmem st x) event)")
    case True
    then have st': "d = True" "st' = delete_entry (Chain b i) x ?c" using eq r by auto
    have del: "fd_chains st' \<and> fd_sets st' \<and> flive st' = flive ?c - {x} \<and> fmem st' = fmem ?c"
      unfolding st' by (rule delete_entry_inv [OF c1 s1]) (use b x True in simp_all)
    moreover have "fd_busy st'" using busy del by (auto simp: fd_busy_def)
    moreover have "hashSize st' = hashSize st"
      "events st' = (events st)(b := take i (events st b) @ drop (Suc i) (events st b))"
      by (simp_all add: st' delete_entry_def Let_def)
    ultimately show ?thesis by (simp add: fd_inv_def st'(1))
  next
    case False
    then have "d = False" "st' = ?c" using eq r by auto
    with c1 s1 fd_busy_clear [OF busy False x(3)] show ?thesis by (simp add: fd_inv_def)
  qed
qed

lemma callback_write:
  assumes "st' = st\<lparr>fmem := (fmem st)(p := (fmem st p)\<lparr>e_inCallback := f\<rparr>)\<rparr>"
  shows "(\<And>e. e < EVENT_MAX \<Longrightarrow> f e \<noteq> 0 \<Longrightarrow> e_cb (fmem st p) e \<noteq> NULL) \<Longrightarrow> fd_inv st \<Longrightarrow> fd_inv st'"
    "reg st' e = reg st e" "blk st' e = blk st e"
proof -
  have eq: "e_fd (fmem st' y) = e_fd (fmem st y)" "e_cb (fmem st' y) = e_cb (fmem st y)"
    "unblocked (fmem st' y) = unblocked (fmem st y)" "e_critical (fmem st' y) = e_critical (fmem st y)" for y
    using assms by (auto simp: unblocked_def fun_eq_iff)
  have fl: "flive st' = flive st" "hashSize st' = hashSize st" "events st' = events st" "ub st' = ub st"
    by (simp_all add: assms)
  show r: "reg st' e = reg st e" "blk st' e = blk st e" for e by (simp_all add: reg_def blk_def eq fl)
  have "bucket st' = bucket st" by (rule ext) (simp add: bucket_def fl)
  then have "fd_chains st' = fd_chains st" unfolding fd_chains_def by (simp only: eq fl)
  moreover have "fd_crit st' = fd_crit st" unfolding fd_crit_def by (simp only: eq fl)
  moreover have "eventSet st' = eventSet st" "blockedSet st' = blockedSet st" "eventCnt st' = eventCnt st"
    "maxFds st' = maxFds st" "maxFd st' = maxFd st" "critical_fd_count st' = critical_fd_count st"
    by (simp_all add: assms)
  ultimately have "fd_sets st' = fd_sets st" unfolding fd_sets_def by (simp only: r)
  then show "fd_inv st'" if "\<And>e. e < EVENT_MAX \<Longrightarrow> f e \<noteq> 0 \<Longrightarrow> e_cb (fmem st p) e \<noteq> NULL" "fd_inv st"
    using that \<open>fd_chains st' = fd_chains st\<close> by (auto simp: fd_inv_def fd_busy_def entry_busy_def assms)
qed

lemma removed_reg:
  assumes "fd_inv st" "x \<in> flive st" "fmem st' = (fmem st)(x := cleared (fmem st x) event)"
    "flive st' = flive st \<or> flive st' = flive st - {x} \<and> idle (cleared (fmem st x) event)" "e < EVENT_MAX"
  shows "reg st' e = (if e = event then reg st e - {e_fd (fmem st x)} else reg st e)"
proof -
  have c: "fd_chains st" using assms(1) by (simp add: fd_inv_def)
  have "reg st' e = reg (clear_event st x event) e"
    using assms(3-5) by (auto simp: reg_def idle_def)
  with reg_clear(1) [OF c assms(2)] show ?thesis by simp
qed

lemma remove_idle:
  "EVT_remove_internal st (Chain b i) event = (d, st') \<Longrightarrow> d \<Longrightarrow> i < length (events st b) \<Longrightarrow>
     idle (cleared (fmem st (events st b ! i)) event)"
  by (auto simp: EVT_remove_internal_def Let_def deref_def idle_def split: if_splits)

lemma fd_remove_loop_inv:
  assumes "fd_inv st" "b < hashSize st" "event < EVENT_MAX"
  shows "fd_inv (fd_remove_loop force fd event b i st)
    \<and> hashSize (fd_remove_loop force fd event b i st) = hashSize st
    \<and> (\<forall>e < EVENT_MAX. e \<noteq> event \<longrightarrow> reg (fd_remove_loop force fd event b i st) e = reg st e)
    \<and> reg st event - {fd} \<subseteq> reg (fd_remove_loop force fd event b i st) event
    \<and> reg (fd_remove_loop force fd event b i st) event \<subseteq> reg st event
    \<and> (fd \<in> reg (fd_remove_loop force fd event b i st) event \<longrightarrow> bucket st fd = b \<longrightarrow>
        (\<exists>x \<in> flive st. e_fd (fmem st x) = fd \<and> (x \<in> set (take i (events st b)) \<or> e_inCallback (fmem st x) event \<noteq> 0)))"
  using assms
proof (induction force fd event b i st rule: fd_remove_loop.induct)
  case (1 force fd event b i st)
  have c: "fd_chains st" using "1.prems" by (simp add: fd_inv_def)
  note h = fd_chainsD [OF c]
  show ?case
  proof (cases "i \<ge> length (events st b)")
    case True
    then have "fd_remove_loop force fd event b i st = st" by (subst fd_remove_loop.simps) simp
    moreover have "\<exists>x \<in> flive st. e_fd (fmem st x) = fd \<and> x \<in> set (take i (events st b))"
      if "fd \<in> reg st event" "bucket st fd = b"
      using that True fd_chain_of [OF c] by (auto simp: reg_def)
    ultimately show ?thesis using "1.prems" by auto
  next
    case False
    define x where "x = events st b ! i"
    have xs: "x \<in> set (events st b)" using False by (simp add: x_def)
    have xl: "x \<in> flive st" using h(5) "1.prems"(2) xs by auto
    show ?thesis
    proof (cases "e_fd (fmem st x) = fd \<and> e_inCallback (fmem st x) event = 0")
      case match: True
      obtain d st1 where r: "EVT_remove_internal st (Chain b i) event = (d, st1)" by (metis prod.exhaust)
      have step: "fd_remove_loop force fd event b i st = fd_remove_loop force fd event b (if d then i else Suc i) st1"
        using False match xl r by (subst fd_remove_loop.simps) (simp add: x_def [symmetric] Let_def)
      show ?thesis
      proof (cases "e_cb (fmem st x) event = NULL")
        case True
        have dr: "deref st (Chain b i) = x" "x \<noteq> NULL" using False xl h(3) by (auto simp: deref_def x_def)
        then have "d = False" "st1 = st" using r xl True by (auto simp: EVT_remove_internal_def Let_def)
        moreover have "fd \<notin> reg st event" using reg_mem [OF xl h(9), of event] True match by simp
        ultimately show ?thesis
          using step "1.IH"(1) [OF False x_def _ match r [symmetric]] "1.prems" xl by auto
      next
        case cb: False
        note rm = remove_internal_inv [OF "1.prems"(1,2) _ "1.prems"(3) x_def [symmetric] cb conjunct2 [OF match] r]
        have reg1: "reg st1 e = (if e = event then reg st e - {fd} else reg st e)" if "e < EVENT_MAX" for e
          by (rule removed_reg [OF "1.prems"(1) xl _ _ that, of st1 event, unfolded match [THEN conjunct1]])
            (use rm False remove_idle [OF r] in \<open>auto simp: x_def\<close>)
        show ?thesis
          using step "1.IH"(1) [OF False x_def _ match r [symmetric]] "1.prems" xl rm False reg1 by auto
      qed
    next
      case no: False
      define st1 where "st1 = (if force \<and> e_fd (fmem st x) = fd
          then st\<lparr>fmem := (fmem st)(x := (fmem st x)\<lparr>e_inCallback := (e_inCallback (fmem st x))(event := 3)\<rparr>)\<rparr>
          else st)"
      have step: "fd_remove_loop force fd event b i st = fd_remove_loop force fd event b (Suc i) st1"
        using False no xl by (subst fd_remove_loop.simps) (auto simp: x_def [symmetric] Let_def st1_def)
      have busy: "e_inCallback (fmem st x) e \<noteq> 0 \<Longrightarrow> e_cb (fmem st x) e \<noteq> NULL" if "e < EVENT_MAX" for e
        using "1.prems"(1) xl that by (auto simp: fd_inv_def fd_busy_def entry_busy_def)
      have "fd_inv st1"
      proof (cases "force \<and> e_fd (fmem st x) = fd")
        case True
        then have "e_cb (fmem st x) event \<noteq> NULL" using busy [OF "1.prems"(3)] no by blast
        then show ?thesis using True busy
          by (intro callback_write(1) [of st1 st x "(e_inCallback (fmem st x))(event := 3)", OF _ _ "1.prems"(1)])
            (auto simp: st1_def split: if_splits)
      qed (use "1.prems"(1) in \<open>auto simp: st1_def\<close>)
      then have inv1: "fd_inv st1" "reg st1 = reg st" "hashSize st1 = hashSize st" "events st1 = events st"
        "flive st1 = flive st" "e_fd (fmem st1 y) = e_fd (fmem st y)"
        "e_inCallback (fmem st1 y) event \<noteq> 0 \<longrightarrow> e_inCallback (fmem st y) event \<noteq> 0" for y
        using callback_write(2) [of st1 st x] no by (auto simp: st1_def fun_eq_iff)
      have buck: "bucket st1 = bucket st" by (rule ext) (simp add: bucket_def inv1)
      have tk: "y \<in> set (take (Suc i) (events st b)) \<longleftrightarrow> y = x \<or> y \<in> set (take i (events st b))" for y
        using False by (auto simp: take_Suc_conv_app_nth x_def)
      have prem: "b < hashSize st1" "\<not> x \<notin> flive st" using "1.prems"(2) inv1(3) xl by simp_all
      note IH = "1.IH"(2) [OF False x_def prem(2) no st1_def inv1(1) prem(1) "1.prems"(3), unfolded inv1(2-6) buck]
      have "\<exists>y \<in> flive st. e_fd (fmem st y) = fd \<and> (y \<in> set (take i (events st b)) \<or> e_inCallback (fmem st y) event \<noteq> 0)"
        if inreg: "fd \<in> reg (fd_remove_loop force fd event b (Suc i) st1) event" "bucket st fd = b"
      proof -
        obtain y where y: "y \<in> flive st" "e_fd (fmem st y) = fd"
          "y \<in> set (take (Suc i) (events st b)) \<or> e_inCallback (fmem st1 y) event \<noteq> 0"
          using IH inreg by blast
        then have "y = x \<or> y \<in> set (take i (events st b)) \<or> e_inCallback (fmem st y) event \<noteq> 0"
          using tk inv1(7) by blast
        with y(1,2) no show ?thesis by blast
      qed
      with IH show ?thesis unfolding step by blast
    qed
  qed
qed

section \<open>Registering a callback\<close>

lemma chains_write:
  assumes "fd_chains st" "flive st' = flive st" "events st' = events st" "hashSize st' = hashSize st" "ub st' = ub st"
    "\<And>y. e_fd (fmem st' y) = e_fd (fmem st y)"
  shows "fd_chains st'"
proof -
  have b: "bucket st' = bucket st" by (rule ext) (simp add: bucket_def assms)
  show ?thesis using assms(1) unfolding fd_chains_def b assms(2-6) .
qed

lemma registered_sets:
  assumes c: "fd_chains st" and x: "x \<in> flive st" "e_fd (fmem st x) = fd" and cb: "cb \<noteq> NULL"
    and y: "e_fd y = fd" "e_cb y = (e_cb (fmem st x))(event := cb)" "e_pausable y = e_pausable (fmem st x)"
      "e_breakpoint y = e_breakpoint (fmem st x)"
    and st': "flive st' = flive st" "fmem st' = (fmem st)(x := y)"
  shows "reg st' e = (if e = event then insert fd (reg st e) else reg st e)"
    "blk st' e = (if e = event \<and> (\<not> e_pausable y \<or> \<not> e_breakpoint y event) then insert fd (blk st e) else blk st e)"
proof -
  note h = fd_chainsD [OF c]
  let ?w = "st\<lparr>fmem := (fmem st)(x := y)\<rparr>"
  have eq: "reg st' e = reg ?w e" "blk st' e = blk ?w e" by (simp_all add: reg_def blk_def st')
  have yf: "e_fd y = e_fd (fmem st x)" using y(1) x(2) by simp
  show "reg st' e = (if e = event then insert fd (reg st e) else reg st e)"
    unfolding eq reg_write [OF x(1) h(9) yf] using y(2) cb reg_mem [OF x(1) h(9), of e] x(2) y(1)
    by (auto simp: insert_absorb)
  show "blk st' e = (if e = event \<and> (\<not> e_pausable y \<or> \<not> e_breakpoint y event) then insert fd (blk st e) else blk st e)"
    unfolding eq blk_write [OF x(1) h(9) yf] using y cb blk_mem [OF x(1) h(9), of e] x(2)
    by (auto simp: insert_absorb unblocked_def)
qed

lemma new_entry_inv:
  assumes inv: "fd_inv st" and fd: "fd_ok fd" "\<And>y. y \<in> flive st \<Longrightarrow> e_fd (fmem st y) \<noteq> fd"
    and x: "x \<notin> flive st" "x \<noteq> NULL"
    and st': "st' = st\<lparr>fmem := (fmem st)(x := zero_EventCB\<lparr>e_critical := 1, e_pausable := True, e_fd := fd\<rparr>),
       flive := insert x (flive st), events := (events st)(bucket st fd := events st (bucket st fd) @ [x]),
       critical_fd_count := critical_fd_count st + 1\<rparr>"
  shows "fd_chains st' \<and> fd_sets st'" "e < EVENT_MAX \<Longrightarrow> reg st' e = reg st e"
proof -
  have c: "fd_chains st" and s: "fd_sets st" using inv by (auto simp: fd_inv_def)
  note h = fd_chainsD [OF c]
  let ?b = "bucket st fd"
  have b: "?b < hashSize st" using bucket_less [OF h(1)] .
  have buck: "bucket st' = bucket st" by (rule ext) (simp add: bucket_def st')
  have xs: "x \<notin> set (events st b')" if "b' < hashSize st" for b' using h(5) x(1) that by auto
  have ch: "events st' b' = (if b' = ?b then events st ?b @ [x] else events st b')" for b' by (simp add: st')
  have live: "flive st' = insert x (flive st)" and hs: "hashSize st' = hashSize st" "ub st' = ub st" by (simp_all add: st')
  have fds: "e_fd (fmem st' y) = (if y = x then fd else e_fd (fmem st y))" for y
    by (simp add: st')
  have same: "e_cb (fmem st' y) = (if y = x then (\<lambda>_. NULL) else e_cb (fmem st y))"
    "unblocked (fmem st' y) e = (y \<noteq> x \<and> unblocked (fmem st y) e)" for y e
    by (simp_all add: st' zero_EventCB_def unblocked_def)
  show r: "reg st' e = reg st e" for e
    using x(1) by (auto simp: reg_def live fds same)
  have bl: "blk st' e = blk st e" for e using x(1) by (auto simp: blk_def live fds same)
  have crit: "fd_crit st' = insert x (fd_crit st)" "x \<notin> fd_crit st" "finite (fd_crit st)"
    using x(1) h(2) by (auto simp: fd_crit_def st' zero_EventCB_def)
  have "fd_chains st'"
    unfolding fd_chains_def buck hs live
  proof (intro conjI allI impI ballI)
    show "insert x (flive st) = (\<Union>b' < hashSize st. set (events st' b'))"
      using b by (auto simp: ch h(5) split: if_splits)
    show "inj_on (\<lambda>x. e_fd (fmem st' x)) (insert x (flive st))"
      using h(9) fd(2) x(1) by (auto simp: inj_on_def fds)
    fix b' assume b': "b' < hashSize st"
    show "distinct (events st' b')" using h(6) [OF b'] xs [OF b'] by (auto simp: ch)
    fix y assume "y \<in> set (events st' b')"
    then show "bucket st (e_fd (fmem st' y)) = b'"
      using h(7) [OF b', of y] xs [OF b'] by (auto simp: ch fds split: if_splits)
  qed (use h(1-4,8) x fd in \<open>auto simp: fds\<close>)
  moreover have "fd_sets st'"
    using s crit unfolding fd_sets_def r bl by (simp add: st')
  ultimately show "fd_chains st' \<and> fd_sets st'" by blast
qed

lemma fd_register_inv:
  assumes c: "fd_chains st" and s: "fd_sets st" and e: "event < EVENT_MAX"
    and x: "x \<in> flive st" "e_fd (fmem st x) = fd" and cb: "cb \<noteq> NULL"
    and busy: "\<And>y. y \<in> flive st \<Longrightarrow> y \<noteq> x \<Longrightarrow> entry_busy (fmem st y)"
    and xbusy: "\<And>e. e < EVENT_MAX \<Longrightarrow> e_inCallback (fmem st x) e \<noteq> 0 \<Longrightarrow> e_cb (fmem st x) e \<noteq> NULL"
    and st': "st' = fd_register st x fd event cb cl p"
  shows "fd_inv st' \<and> flive st' = flive st \<and> fd \<in> eventSet st' event
    \<and> e_cb (fmem st' x) event = cb \<and> e_arg (fmem st' x) event = p \<and> e_cleanup (fmem st' x) event = cl
    \<and> (\<forall>e < EVENT_MAX. eventSet st' e = (if e = event then insert fd (eventSet st e) else eventSet st e))
    \<and> (\<forall>y. y \<noteq> x \<longrightarrow> fmem st' y = fmem st y)"
proof -
  note h = fd_chainsD [OF c]
  let ?x = "fmem st x"
  let ?x1 = "?x\<lparr>e_cb := (e_cb ?x)(event := cb), e_cleanup := (e_cleanup ?x)(event := cl), e_arg := (e_arg ?x)(event := p)\<rparr>"
  have s': "critical_fd_count st = int (card (fd_crit st))"
    "\<And>e. e < EVENT_MAX \<Longrightarrow> eventSet st e = reg st e \<and> blockedSet st e = blk st e
          \<and> eventCnt st e = int (card (reg st e)) \<and> maxFds st e = top_fd (reg st e) \<and> top_fd (reg st e) \<le> maxFd st"
    using s by (auto simp: fd_sets_def)
  have fin: "finite (reg st e)" and nn: "reg st e \<subseteq> {0 ..}" for e
    using reg_finite [OF h(2)] reg_nonneg [of st] h(8) by blast+
  have fdnn: "0 \<le> fd" using h(8) [OF x(1)] x(2) by (simp add: fd_ok_def)
  have mem: "fd \<in> reg st event \<longleftrightarrow> e_cb ?x event \<noteq> NULL" using reg_mem [OF x(1) h(9)] x(2) by simp
  define y where "y = (if e_inCallback ?x event \<noteq> 0 then ?x1\<lparr>e_inCallback := (e_inCallback ?x)(event := 2)\<rparr> else ?x1)"
  have y: "e_fd y = fd" "e_cb y = (e_cb ?x)(event := cb)" "e_pausable y = e_pausable ?x" "e_breakpoint y = e_breakpoint ?x"
    "e_critical y = e_critical ?x" "e_arg y event = p" "e_cleanup y event = cl" "e_inCallback y e \<noteq> 0 \<longleftrightarrow> e_inCallback ?x e \<noteq> 0" for e
    using x(2) by (auto simp: y_def)
  have f: "fmem st' = (fmem st)(x := y)" "flive st' = flive st" "events st' = events st" "hashSize st' = hashSize st"
    "ub st' = ub st" "critical_fd_count st' = critical_fd_count st"
    by (simp_all add: st' fd_register_def Let_def y_def)
  note rs = registered_sets [OF c x cb y(1-4) f(2,1)]
  have c': "fd_chains st'" by (rule chains_write [OF c]) (use f x(2) y(1) in auto)
  have ybusy: "entry_busy y"
    using xbusy e cb y by (auto simp: entry_busy_def)
  have b': "fd_busy st'" using busy ybusy by (auto simp: fd_busy_def f)
  have crit: "fd_crit st' = fd_crit st" using y(5) by (auto simp: fd_crit_def f)
  have sets: "eventSet st' i = reg st' i \<and> blockedSet st' i = blk st' i \<and> eventCnt st' i = int (card (reg st' i))
      \<and> maxFds st' i = top_fd (reg st' i) \<and> top_fd (reg st' i) \<le> maxFd st'" if i: "i < EVENT_MAX" for i
  proof (cases "e_inCallback ?x event = 0")
    case False
    then have "e_cb ?x event \<noteq> NULL" using xbusy e by blast
    then have "fd \<in> reg st event" "(\<not> e_pausable ?x \<or> \<not> e_breakpoint ?x event) \<longrightarrow> fd \<in> blk st event"
      using mem blk_mem [OF x(1) h(9), of event] x(2) by (auto simp: unblocked_def)
    then have same: "reg st' i = reg st i" "blk st' i = blk st i" using rs y by (auto simp: insert_absorb)
    have "eventSet st' = eventSet st" "blockedSet st' = blockedSet st" "eventCnt st' = eventCnt st"
      "maxFds st' = maxFds st" "maxFd st' = maxFd st"
      using False \<open>e_cb ?x event \<noteq> NULL\<close> by (simp_all add: st' fd_register_def Let_def)
    with s'(2) [OF i] same show ?thesis by simp
  next
    case True
    let ?mf = "if fd > maxFds st event then (maxFds st)(event := fd) else maxFds st"
    have g: "eventSet st' = (eventSet st)(event := insert fd (eventSet st event))"
      "blockedSet st' = (if \<not> e_pausable ?x \<or> \<not> e_breakpoint ?x event
         then (blockedSet st)(event := insert fd (blockedSet st event)) else blockedSet st)"
      "eventCnt st' = (if e_cb ?x event = NULL then (eventCnt st)(event := eventCnt st event + 1) else eventCnt st)"
      "maxFds st' = ?mf" "maxFd st' = max_of_maxFds ?mf"
      using True by (simp_all add: st' fd_register_def Let_def)
    have mx: "?mf i = top_fd (reg st' i)"
      using s'(2) [OF i] s'(2) [OF e] top_insert [OF fin nn fdnn, of event] by (simp add: rs max_def)
    moreover have "?mf i \<le> max_of_maxFds ?mf" by (rule max_of_maxFds_ge [OF i])
    ultimately have mx2: "top_fd (reg st' i) \<le> max_of_maxFds ?mf" by simp
    have "eventSet st' i = reg st' i" using s'(2) [OF i] by (auto simp: g rs)
    moreover have "blockedSet st' i = blk st' i" using s'(2) [OF i] y by (auto simp: g rs)
    moreover have "eventCnt st' i = int (card (reg st' i))"
      using s'(2) [OF i] mem fin by (auto simp: g rs insert_absorb)
    ultimately show ?thesis using mx mx2 by (simp only: g(4,5))
  qed
  have "fd_inv st'" unfolding fd_inv_def fd_sets_def using c' b' sets s'(1) crit f(6) by simp
  moreover have "\<forall>e < EVENT_MAX. eventSet st' e = (if e = event then insert fd (eventSet st e) else eventSet st e)"
    using sets s'(2) rs(1) by simp
  ultimately show ?thesis using f y e by auto
qed

lemma find_SomeD: "find P xs = Some x \<Longrightarrow> x \<in> set xs \<and> P x"
  by (auto simp: find_Some_iff)

lemma find_fd_correct:
  assumes c: "fd_chains st"
  shows "find_fd st fd = NULL \<Longrightarrow> y \<in> flive st \<Longrightarrow> e_fd (fmem st y) \<noteq> fd"
    "find_fd st fd \<noteq> NULL \<Longrightarrow> find_fd st fd \<in> flive st \<and> e_fd (fmem st (find_fd st fd)) = fd"
proof -
  note h = fd_chainsD [OF c]
  have b: "bucket st fd < hashSize st" using bucket_less [OF h(1)] .
  have sub: "set (events st (bucket st fd)) \<subseteq> flive st" using h(5) b by auto
  {
    assume "find_fd st fd = NULL" and y: "y \<in> flive st"
    then have "find (\<lambda>x. e_fd (fmem st x) = fd) (events st (bucket st fd)) = None"
      using sub h(3) find_SomeD by (fastforce simp: find_fd_def split: option.splits)
    then show "e_fd (fmem st y) \<noteq> fd" using fd_chain_of [OF c y] by (auto simp: find_None_iff)
  next
    assume "find_fd st fd \<noteq> NULL"
    then show "find_fd st fd \<in> flive st \<and> e_fd (fmem st (find_fd st fd)) = fd"
      using sub by (cases "find (\<lambda>x. e_fd (fmem st x) = fd) (events st (bucket st fd))")
        (auto simp: find_fd_def dest: find_SomeD)
  }
qed

lemma init_fd_inv:
  assumes "EVT_initWithSize a b c d f e n = Some st" "0 < n"
  shows "fd_inv st"
proof -
  have st: "hashSize st = n" "flive st = {}" "\<And>b. events st b = []" "\<not> ub st" "\<And>e. eventSet st e = {}"
    "\<And>e. blockedSet st e = {}" "\<And>e. eventCnt st e = 0" "\<And>e. maxFds st e = 0" "maxFd st = 0" "critical_fd_count st = 0"
    using assms(1) by (auto simp: EVT_initWithSize_def Let_def zero_EventState_def split: option.splits if_splits)
  then have "reg st e = {}" "blk st e = {}" "fd_crit st = {}" for e by (auto simp: reg_def blk_def fd_crit_def)
  with st assms(2) show ?thesis
    by (simp add: fd_inv_def fd_chains_def fd_busy_def fd_sets_def)
qed

lemma fd_remove_sets:
  assumes inv: "fd_inv st" and fd: "0 \<le> fd" and e: "event < EVENT_MAX"
    and idle: "\<forall>x \<in> flive st. e_fd (fmem st x) = fd \<longrightarrow> e_inCallback (fmem st x) event = 0"
    and st': "st' = EVT_fd_remove st fd event \<or> st' = EVT_fd_force_remove st fd event"
  shows "fd_inv st' \<and> (\<forall>e < EVENT_MAX. eventSet st' e = (if e = event then eventSet st e - {fd} else eventSet st e))"
proof -
  obtain force where eq: "st' = fd_remove_loop force fd event (bucket st fd) 0 st"
    using st' fd by (auto simp: EVT_fd_remove_def EVT_fd_force_remove_def)
  have c: "fd_chains st" using inv by (simp add: fd_inv_def)
  note l = fd_remove_loop_inv [OF inv bucket_less [OF fd_chainsD(1) [OF c], of fd] e, where force = force and fd = fd and i = 0,
      folded eq]
  have "fd \<notin> reg st' event" using l idle by auto
  with l have "reg st' event = reg st event - {fd}" by blast
  with l inv e show ?thesis by (auto simp: fd_inv_def fd_sets_def)
qed

section \<open>Properties\<close>

text \<open>
  C6: \<open>EVT_fd_add_with_cleanup\<close> with a callback, on a descriptor below \<open>FD_SETSIZE\<close> and with memory
  available, registers exactly that callback, cleanup and argument for the descriptor and event,
  adds the descriptor to the event's \<open>fd_set\<close> and keeps the invariant of the descriptor tables.
\<close>

theorem EVT_fd_add_correct:
  assumes inv: "fd_inv st" and fd: "fd_ok fd" and e: "event < EVENT_MAX" and cb: "cb \<noteq> NULL"
    and p: "p \<notin> flive st" "p \<noteq> NULL"
    and r: "EVT_fd_add_with_cleanup (Some p) st fd event cb cl arg = (res, st')"
  shows "res = 1 \<and> fd_inv st' \<and> (\<exists>x \<in> flive st'. e_fd (fmem st' x) = fd \<and> e_cb (fmem st' x) event = cb
      \<and> e_arg (fmem st' x) event = arg \<and> e_cleanup (fmem st' x) event = cl \<and> (\<forall>y \<in> flive st. y \<noteq> x \<longrightarrow> fmem st' y = fmem st y))
    \<and> (\<forall>e < EVENT_MAX. eventSet st' e = (if e = event then insert fd (eventSet st e) else eventSet st e))"
proof -
  have c: "fd_chains st" and s: "fd_sets st" and b: "fd_busy st" using inv by (auto simp: fd_inv_def)
  note h = fd_chainsD [OF c]
  show ?thesis
  proof (cases "find_fd st fd = NULL")
    case False
    let ?x = "find_fd st fd"
    have x: "?x \<in> flive st" "e_fd (fmem st ?x) = fd" using find_fd_correct(2) [OF c False] by auto
    have st': "res = 1" "st' = fd_register st ?x fd event cb cl arg"
      using r cb fd False by (auto simp: EVT_fd_add_with_cleanup_def)
    have reg: "fd_inv st' \<and> flive st' = flive st \<and> fd \<in> eventSet st' event
        \<and> e_cb (fmem st' ?x) event = cb \<and> e_arg (fmem st' ?x) event = arg \<and> e_cleanup (fmem st' ?x) event = cl
        \<and> (\<forall>e < EVENT_MAX. eventSet st' e = (if e = event then insert fd (eventSet st e) else eventSet st e))
        \<and> (\<forall>y. y \<noteq> ?x \<longrightarrow> fmem st' y = fmem st y)"
      by (rule fd_register_inv [OF c s e x cb _ _ st'(2)])
        (use b x(1) in \<open>auto simp: fd_busy_def entry_busy_def\<close>)
    have "e_fd (fmem st' ?x) = fd" using x(2) by (simp add: st' fd_register_def Let_def)
    with reg st'(1) x(1) show ?thesis by auto
  next
    case True
    let ?st1 = "st\<lparr>fmem := (fmem st)(p := zero_EventCB\<lparr>e_critical := 1, e_pausable := True, e_fd := fd\<rparr>),
       flive := insert p (flive st), events := (events st)(bucket st fd := events st (bucket st fd) @ [p]),
       critical_fd_count := critical_fd_count st + 1\<rparr>"
    have n: "fd_chains ?st1 \<and> fd_sets ?st1"
      by (rule new_entry_inv(1) [OF inv fd _ p refl]) (use find_fd_correct(1) [OF c True] in blast)
    have st': "res = 1" "st' = fd_register ?st1 p fd event cb cl arg"
      using r cb fd True by (auto simp: EVT_fd_add_with_cleanup_def Let_def)
    have reg: "fd_inv st' \<and> flive st' = flive ?st1 \<and> fd \<in> eventSet st' event
        \<and> e_cb (fmem st' p) event = cb \<and> e_arg (fmem st' p) event = arg \<and> e_cleanup (fmem st' p) event = cl
        \<and> (\<forall>e < EVENT_MAX. eventSet st' e = (if e = event then insert fd (eventSet ?st1 e) else eventSet ?st1 e))
        \<and> (\<forall>y. y \<noteq> p \<longrightarrow> fmem st' y = fmem ?st1 y)"
      by (rule fd_register_inv [OF _ _ e _ _ cb _ _ st'(2)])
        (use n b in \<open>auto simp: fd_busy_def entry_busy_def zero_EventCB_def\<close>)
    have "e_fd (fmem st' p) = fd" by (simp add: st' fd_register_def Let_def)
    with reg st'(1) p(1) show ?thesis by auto
  qed
qed

definition st_fd :: EventState where
  "st_fd = snd (EVT_fd_add (Some 50) st_init 5 EVENT_FD_READ 60 70)"

lemma st_init_fd: "fd_inv st_init" "flive st_init = {}" "\<And>b. events st_init b = []" "\<And>e. eventSet st_init e = {}"
  using init_fd_inv [OF st_init_eq] by (simp_all add: st_init_def EVT_initWithSize_def ps_pqueue_init_def zero_EventState_def)

theorem EVT_fd_add_witness: "fd_inv st_fd \<and> 5 \<in> eventSet st_fd EVENT_FD_READ"
  using EVT_fd_add_correct [OF st_init_fd(1), of 5 EVENT_FD_READ 60 50 NULL 70]
  by (cases "EVT_fd_add_with_cleanup (Some 50) st_init 5 EVENT_FD_READ 60 NULL 70")
    (simp add: st_fd_def EVT_fd_add_def fd_ok_def EVENT_FD_READ_def EVENT_MAX_def NULL_def st_init_fd)

lemma st_fd_facts: "fd_inv st_fd" "flive st_fd = {50}" "e_inCallback (fmem st_fd 50) e = 0" "eventSet st_fd 0 = {5}"
proof -
  have f: "find_fd st_init 5 = NULL" by (simp add: find_fd_def st_init_fd)
  let ?st1 = "st_init\<lparr>fmem := (fmem st_init)(50 := zero_EventCB\<lparr>e_critical := 1, e_pausable := True, e_fd := 5\<rparr>),
       flive := insert 50 (flive st_init), events := (events st_init)(bucket st_init 5 := events st_init (bucket st_init 5) @ [50]),
       critical_fd_count := critical_fd_count st_init + 1\<rparr>"
  have st: "st_fd = fd_register ?st1 50 5 0 60 NULL 70"
    by (simp add: st_fd_def EVT_fd_add_def EVT_fd_add_with_cleanup_def f fd_ok_def NULL_def EVENT_FD_READ_def Let_def)
  have n: "fd_chains ?st1 \<and> fd_sets ?st1"
    by (rule new_entry_inv(1) [OF st_init_fd(1) _ _ _ _ refl]) (simp_all add: fd_ok_def st_init_fd NULL_def)
  show "fd_inv st_fd" using fd_register_inv [OF _ _ _ _ _ _ _ _ st] n
    by (simp add: EVENT_MAX_def st_init_fd NULL_def zero_EventCB_def)
  show "flive st_fd = {50}" "e_inCallback (fmem st_fd 50) e = 0" "eventSet st_fd 0 = {5}"
    by (simp_all add: st fd_register_def Let_def st_init_fd zero_EventCB_def)
qed

text \<open>
  C7: \<open>EVT_fd_remove\<close> (and \<open>EVT_fd_force_remove\<close>) of an event whose callback is not running removes the
  descriptor from exactly that event's \<open>fd_set\<close> and keeps the invariant of the descriptor tables;
  no freed entry is reached.
\<close>

theorem EVT_fd_remove_correct:
  assumes inv: "fd_inv st" and fd: "0 \<le> fd" and e: "event < EVENT_MAX"
    and idle: "\<forall>x \<in> flive st. e_fd (fmem st x) = fd \<longrightarrow> e_inCallback (fmem st x) event = 0"
    and st': "st' = EVT_fd_remove st fd event \<or> st' = EVT_fd_force_remove st fd event"
  shows "fd_inv st' \<and> (\<forall>e < EVENT_MAX. eventSet st' e = (if e = event then eventSet st e - {fd} else eventSet st e))"
  by (rule fd_remove_sets [OF assms])

theorem EVT_fd_remove_witness: "fd_inv (EVT_fd_remove st_fd 5 0) \<and> 5 \<notin> eventSet (EVT_fd_remove st_fd 5 0) 0"
  using EVT_fd_remove_correct [OF st_fd_facts(1), of 5 0 "EVT_fd_remove st_fd 5 0"]
  by (simp add: st_fd_facts EVENT_MAX_def)

end
