(* ===== verification/Loop_Correct.thy ===== *)
theory Loop_Correct
  imports Event_Admin Fd_Correct
begin

text \<open>
  Correctness of the event loop. The locale \<open>timed_callbacks\<close> is the contract between the loop and
  the scheduled callbacks it runs: a callback may use the whole timed-event interface as long as
  the scheduler's invariant holds when it returns and the event it was called for is still
  allocated and outside the queues. The callbacks of the event debugger interpret it.
\<close>

section \<open>The contract of scheduled callbacks\<close>

definition room :: "EventState \<Rightarrow> bool" where
  "room st \<longleftrightarrow> q_size (queue st) + 1 < SIZE_MAX"

definition running :: "EventState \<Rightarrow> ptr \<Rightarrow> bool" where
  "running st x \<longleftrightarrow> sched_inv st \<and> q_size (queue st) + 2 < SIZE_MAX \<and> x \<in> live st \<and> x \<notin> queued st
     \<and> next_timed_event st \<noteq> x \<and> sc_inCallback (mem st x) \<noteq> 0 \<and> sc_queue (mem st x) = MainQueue"

locale timed_callbacks =
  fixes run :: "ptr \<Rightarrow> ptr \<Rightarrow> EventState \<Rightarrow> int \<times> EventState"
  assumes run_keeps: "running st x \<Longrightarrow> run cb arg st = (r, st') \<Longrightarrow> running st' x"

lemma running_upd [simp]:
  "running (st\<lparr>breakpoint_evt := e\<rparr>) x = running st x" "running (st\<lparr>dbg_reply_evt := e\<rparr>) x = running st x"
  by (simp_all add: running_def room_def sched_inv_def queues_ok_def queue_ok_def heap_objs_ok_def crit_set_def
      queued_def queue_set_def queue_of_def)

interpretation dbg_break: timed_callbacks "\<lambda>cb arg. edbg_breakpoint_cb"
  by unfold_locales (auto simp: edbg_breakpoint_cb_def)

interpretation dbg_reply: timed_callbacks "\<lambda>cb arg. edbg_response_timeout"
  by unfold_locales (auto simp: edbg_response_timeout_def)

section \<open>Taking an event out and putting it back\<close>

lemma sched_inv_next:
  assumes "sched_inv st" "e = NULL \<or> e = null_evt \<or> e \<in> live st \<and> sc_pos (mem st e) = SIZE_MAX"
  shows "sched_inv (st\<lparr>next_timed_event := e\<rparr>)"
proof -
  have "crit_set (st\<lparr>next_timed_event := e\<rparr>) = crit_set st" by (simp add: crit_set_def)
  with assms show ?thesis by (auto simp: sched_inv_def heap_objs_ok_def)
qed

lemma sched_inv_upd [simp]:
  "sched_inv (st\<lparr>timed_event_counter := n\<rparr>) = sched_inv st" "sched_inv (st\<lparr>steps_to_break := k\<rparr>) = sched_inv st"
  "sched_inv (st\<lparr>debuggerState := d\<rparr>) = sched_inv st" "sched_inv (st\<lparr>break_on_next := b\<rparr>) = sched_inv st"
  by (simp_all add: sched_inv_def queues_ok_def queue_ok_def heap_objs_ok_def crit_set_def queued_def queue_set_def queue_of_def)

lemma queued_upd2 [simp]:
  "queued (st\<lparr>timed_event_counter := n\<rparr>) = queued st" "queued (st\<lparr>steps_to_break := k\<rparr>) = queued st"
  "queued (st\<lparr>debuggerState := d\<rparr>) = queued st" "queued (st\<lparr>break_on_next := b\<rparr>) = queued st"
  by (simp_all add: queued_def queue_set_def queue_of_def)

lemma sched_write_outside:
  assumes inv: "sched_inv st" and x: "x \<notin> queued st" and e: "sc_pos e = sc_pos (mem st x)" "sc_critical e = sc_critical (mem st x)"
  shows "sched_inv (st\<lparr>mem := (mem st)(x := e)\<rparr>)"
proof -
  have ok: "queues_ok st" and objs: "heap_objs_ok st" using inv by (auto simp: sched_inv_def)
  have "heap_objs_ok (st\<lparr>mem := (mem st)(x := e)\<rparr>)"
    by (rule heap_objs_same [OF objs]) (use ok e in auto)
  with queues_ok_write [OF ok x] show ?thesis by (simp add: sched_inv_def)
qed

lemma evt_insert_inv:
  assumes inv: "sched_inv st" and x: "x \<in> live st" "x \<notin> queued st" "sc_inCallback (mem st x) = 0"
    "sc_queue (mem st x) \<noteq> NoQueue" "next_timed_event st \<noteq> x"
    and rm: "q_size (queue_of (sc_queue (mem st x)) st) + 1 < SIZE_MAX"
  shows "\<exists>st'. evt_insert True x st = (0, st') \<and> sched_inv st' \<and> queued st' = insert x (queued st) \<and> live st' = live st
    \<and> q_size (queue st') \<le> q_size (queue st) + 1
    \<and> (\<forall>y. core (mem st' y) = core (mem st y)) \<and> next_timed_event st' = next_timed_event st"
proof -
  have ok: "queues_ok st" and objs: "heap_objs_ok st" using inv by (auto simp: sched_inv_def)
  note h = heap_objs_okD [OF objs]
  define r where "r = sc_queue (mem st x)"
  have r: "sc_queue (mem st x) = r" "r \<noteq> NoQueue" using x(4) by (auto simp: r_def)
  have sz: "q_size (queue_of r st) + 1 < SIZE_MAX" using rm by (simp add: r_def)
  obtain q m where i: "evt_insert True x st = (0, set_queue r q (st\<lparr>mem := m\<rparr>))"
    "queues_ok (set_queue r q (st\<lparr>mem := m\<rparr>))" "pq_mset q = add_mset x (pq_mset (queue_of r st))"
    "q_size q = q_size (queue_of r st) + 1"
    and core: "\<And>y. core (m y) = core (mem st y)"
    and out: "\<And>y. y \<noteq> x \<Longrightarrow> y \<notin> queue_set r st \<Longrightarrow> m y = mem st y"
    using evt_insert_ok [OF ok r x(2,3) _ sz, of True] by auto
  let ?st = "set_queue r q (st\<lparr>mem := m\<rparr>)"
  have q': "queued ?st = insert x (queued st)"
    by (simp add: queued_set_queue [OF r(2)] queued_split [OF r(2), of st] i(3))
  have qs: "queue_set r st \<subseteq> queued st" using r(2) by (auto simp: in_queued queue_set_def)
  have crit: "crit_set ?st = crit_set st" by (rule crit_set_core) (simp_all add: core)
  have "heap_objs_ok ?st"
    unfolding heap_objs_ok_def q' crit
  proof (intro conjI ballI)
    fix y assume y: "y \<in> live ?st"
    show "y \<in> insert x (queued st) \<or> sc_pos (mem ?st y) = SIZE_MAX"
    proof (cases "y \<in> insert x (queued st)")
      case False
      with y qs have "y \<in> live st" "y \<noteq> x" "y \<notin> queue_set r st" by auto
      with h(5) [of y] out [of y] False show ?thesis by simp
    qed simp
  next
    have "next_timed_event st \<notin> queue_set r st" if "sc_pos (mem st (next_timed_event st)) = SIZE_MAX"
      using not_queued_pos [OF ok that] qs by blast
    then show "next_timed_event ?st = NULL \<or> next_timed_event ?st = null_evt
        \<or> next_timed_event ?st \<in> live ?st \<and> sc_pos (mem ?st (next_timed_event ?st)) = SIZE_MAX"
      using h(6) out [of "next_timed_event st"] x(5) by auto
  qed (use h x(1) in auto)
  moreover have "q_size (queue ?st) \<le> q_size (queue st) + 1"
    using i(4) r(2) by (auto simp: set_queue_def queue_of_def)
  ultimately show ?thesis using i q' core by (auto simp: sched_inv_def)
qed

lemma free_evt_inv:
  assumes inv: "sched_inv st" and x: "x \<in> live st" "x \<notin> queued st" "next_timed_event st \<noteq> x"
    and n: "n = critical_sched_count st - (if sc_critical (mem st x) \<noteq> 0 then 1 else 0)"
  shows "sched_inv (free_evt x (st\<lparr>critical_sched_count := n\<rparr>))"
    "live (free_evt x (st\<lparr>critical_sched_count := n\<rparr>)) = live st - {x}"
proof -
  have ok: "queues_ok st" and objs: "heap_objs_ok st" using inv by (auto simp: sched_inv_def)
  note h = heap_objs_okD [OF objs]
  let ?st = "free_evt x (st\<lparr>critical_sched_count := n\<rparr>)"
  have xn: "x \<noteq> null_evt" using x(1) h(4) by auto
  then have st: "?st = st\<lparr>critical_sched_count := n, live := live st - {x}\<rparr>" by (simp add: free_evt_def)
  let ?s = "st\<lparr>critical_sched_count := n, live := live st - {x}\<rparr>"
  have crit: "crit_set ?s = crit_set st - {x}" by (auto simp: crit_set_def)
  have "finite (crit_set st)" "x \<in> crit_set st \<longleftrightarrow> sc_critical (mem st x) \<noteq> 0"
    using h(1) x(1) by (auto simp: crit_set_def)
  then have cnt: "n = int (card (crit_set st - {x}))" using n h(7) by (simp only: int_card_remove)
  have "heap_objs_ok ?s"
    unfolding heap_objs_ok_def crit cnt [symmetric] using h(1-6,8) x by auto
  with ok show "sched_inv ?st" by (simp add: sched_inv_def st)
  show "live ?st = live st - {x}" by (simp add: st)
qed

lemma main_pop_inv:
  assumes inv: "sched_inv st" and pk: "ps_pqueue_peek (queue st) = Some x"
    and pop: "ps_pqueue_pop (queue st) (mem st) = (h, q, m)"
    and st': "st' = st\<lparr>queue := q, mem := m(x := (m x)\<lparr>sc_pos := SIZE_MAX\<rparr>)\<rparr>"
  shows "sched_inv st' \<and> queued st' = queued st - {x} \<and> x \<in> live st' \<and> live st' = live st \<and> x \<notin> queued st'
    \<and> sc_inCallback (mem st' x) = 0 \<and> sc_queue (mem st' x) = MainQueue \<and> next_timed_event st' \<noteq> x
    \<and> (\<forall>y. core (mem st' y) = core (mem st y)) \<and> (\<forall>y \<in># pq_mset (queue st). nextAwake (mem st x) \<le> nextAwake (mem st y))
    \<and> q_size (queue st') + 1 = q_size (queue st) \<and> dbg_queue st' = dbg_queue st
    \<and> pq_mset (queue st) = add_mset x (pq_mset (queue st'))"
proof -
  have ok: "queues_ok st" and objs: "heap_objs_ok st" using inv by (auto simp: sched_inv_def)
  note h = heap_objs_okD [OF objs]
  have qm: "queue_of MainQueue st = queue st" by (simp add: queue_of_def)
  have qok: "queue_ok MainQueue st" using queues_okD [OF ok] by simp
  note f = queue_ok_facts [OF qok, unfolded qm]
  have hx: "h = Some x" "q_size (queue st) \<noteq> 1"
    using pk pop by (auto simp: ps_pqueue_peek_def ps_pqueue_pop_def Let_def split: if_splits prod.splits)
  note pi = sched_pop_inv [OF f(1) pop [unfolded hx(1)]]
  have sz: "q_size q + 1 = q_size (queue st)"
    using pop_size [OF pop [unfolded hx(1)]] f(2) by (auto simp: pq_shape_def)
  have xq: "x \<in># pq_mset (queue st)" using pi by simp
  have core: "core (m y) = core (mem st y)" for y
    using pop_frame_in [where f = "\<lambda>m. core (m y)", OF f(2), of "mem st"] pop f(3) by (simp add: core_set_pos)
  have out: "m y = mem st y" if "y \<notin># pq_mset (queue st)" for y
  proof -
    have "set_pos z j s y = s y" if "z \<in># pq_mset (queue st)" for z j s
      using that \<open>y \<notin># pq_mset (queue st)\<close> by (auto simp: set_pos_def)
    then show ?thesis using pop_frame_in [where f = "\<lambda>m. m y", OF f(2), of "mem st"] pop f(3) by simp
  qed
  let ?s = "set_queue MainQueue q (st\<lparr>mem := m\<rparr>)"
  have ok2: "queues_ok ?s"
  proof (rule queue_step [where A = "queue_set MainQueue st"])
    fix r' assume "r' \<noteq> NoQueue" "r' \<noteq> MainQueue"
    then show "queue_set MainQueue st \<inter> queue_set r' st = {}"
      using queue_disjoint [OF ok, of MainQueue r'] by (auto simp: queue_set_def)
  next
    fix y assume "y \<in># pq_mset q"
    then show "sc_queue (mem st y) = MainQueue \<and> sc_inCallback (mem st y) = 0" using pi f(5) by auto
  qed (use ok pi sz f(4) core out in \<open>auto simp: queue_set_def qm\<close>)
  have gone: "x \<notin># pq_mset q"
  proof
    assume "x \<in># pq_mset q"
    then have "count (pq_mset (queue st)) x \<ge> 2" using pi by (auto simp: Suc_le_eq)
    then show False using queue_count [OF qok, of x] by (simp add: qm)
  qed
  have xd: "x \<notin> queue_set DbgQueue st"
    using queue_disjoint [OF ok, of MainQueue DbgQueue x] xq by (auto simp: queue_set_def qm)
  have q2: "queued ?s = queued st - {x}"
    using pi gone xd by (auto simp: queued_def queue_set_def set_queue_def queue_of_def)
  have st2: "st' = ?s\<lparr>mem := (mem ?s)(x := (m x)\<lparr>sc_pos := SIZE_MAX\<rparr>)\<rparr>" by (simp add: st' set_queue_def)
  have ok': "queues_ok st'" unfolding st2 by (rule queues_ok_write [OF ok2]) (simp add: q2)
  have q': "queued st' = queued st - {x}" using q2 by (simp add: st2)
  have core': "core (mem st' y) = core (mem st y)" for y
    using core [of y] by (cases "y = x") (simp_all add: st' core_def)
  have xl: "x \<in> live st" "x \<in> queued st" using xq h(2) by (auto simp: queued_def queue_set_def qm)
  have nx: "next_timed_event st \<noteq> x"
    using h(6) not_queued_pos [OF ok, of x] xl h(3,4) by auto
  have crit: "crit_set st' = crit_set st" by (rule crit_set_core) (use core' in \<open>simp_all add: st'\<close>)
  have "heap_objs_ok st'"
    unfolding heap_objs_ok_def q' crit
  proof (intro conjI ballI)
    fix y assume y: "y \<in> live st'"
    show "y \<in> queued st - {x} \<or> sc_pos (mem st' y) = SIZE_MAX"
    proof (cases "y \<in> queued st - {x} \<or> y = x")
      case False
      then have "y \<notin> queued st" "y \<notin># pq_mset (queue st)" by (auto simp: queued_def queue_set_def qm)
      with h(5) [of y] out [of y] y show ?thesis by (simp add: st')
    qed (auto simp: st')
  next
    have "next_timed_event st \<notin># pq_mset (queue st)" if "sc_pos (mem st (next_timed_event st)) = SIZE_MAX"
      using not_queued_pos [OF ok that] by (auto simp: queued_def queue_set_def qm)
    then show "next_timed_event st' = NULL \<or> next_timed_event st' = null_evt
        \<or> next_timed_event st' \<in> live st' \<and> sc_pos (mem st' (next_timed_event st')) = SIZE_MAX"
      using h(6) out [of "next_timed_event st"] nx by (auto simp: st')
  qed (use h in \<open>auto simp: st'\<close>)
  moreover have "\<forall>y \<in># pq_mset (queue st). nextAwake (mem st x) \<le> nextAwake (mem st y)"
    using pi by (simp add: get_pri_def)
  ultimately show ?thesis
    using ok' q' core' core_eqD(2,3) [OF core' [of x]] f(5) [OF xq] xl nx sz pi
    by (auto simp: sched_inv_def st')
qed

section \<open>Running one event\<close>

lemma peek_none_empty: "sched_inv st \<Longrightarrow> ps_pqueue_peek (queue st) = None \<Longrightarrow> pq_mset (queue st) = {#}"
  using queue_ok_facts(2) [OF queues_okD [of st MainQueue]]
  by (cases "q_d (queue st)")
    (auto simp: sched_inv_def queue_of_def ps_pqueue_peek_def pq_mset_def pq_shape_def split: if_splits)

context timed_callbacks
begin

lemma run_timed_inv:
  assumes inv: "sched_inv st" and rm: "q_size (queue st) + 2 < SIZE_MAX"
    and x: "x \<in> live st" "x \<notin> queued st" "next_timed_event st \<noteq> x" "sc_queue (mem st x) = MainQueue"
  shows "sched_inv (run_timed run True st x t) \<and> room (run_timed run True st x t)"
proof -
  let ?e = "(mem st x)\<lparr>sc_count := sc_count (mem st x) + 1, sc_inCallback := 1\<rparr>"
  let ?st0 = "st\<lparr>timed_event_counter := timed_event_counter st + 1\<rparr>"
  let ?st1 = "?st0\<lparr>mem := (mem ?st0)(x := ?e)\<rparr>"
  have "sched_inv ?st1" by (rule sched_write_outside) (use inv x(2) in simp_all)
  then have r1: "running ?st1 x" using rm x by (simp add: running_def)
  obtain keep st2 where k: "run (sc_callback ?e) (sc_arg ?e) ?st1 = (keep, st2)" by (metis prod.exhaust)
  have r2: "running st2 x" by (rule run_keeps [OF r1 k])
  then have i2: "sched_inv st2" "q_size (queue st2) + 2 < SIZE_MAX" "x \<in> live st2" "x \<notin> queued st2" "next_timed_event st2 \<noteq> x"
    "sc_queue (mem st2 x) = MainQueue" by (auto simp: running_def)
  show ?thesis
  proof (cases "keep = EVENT_KEEP")
    case True
    let ?e2 = "mem st2 x"
    define e1 where "e1 = (if sc_inCallback ?e2 = 1
      then ?e2\<lparr>scheduleTime := t, nextAwake := timeradd (nextAwake ?e2) (timeStep ?e2)\<rparr> else ?e2)\<lparr>sc_inCallback := 0\<rparr>"
    let ?st3 = "st2\<lparr>mem := (mem st2)(x := e1)\<rparr>"
    have e1: "sc_pos e1 = sc_pos ?e2" "sc_critical e1 = sc_critical ?e2" "sc_queue e1 = sc_queue ?e2" "sc_inCallback e1 = 0"
      by (simp_all add: e1_def)
    have i3: "sched_inv ?st3" by (rule sched_write_outside [OF i2(1,4) e1(1,2)])
    have "\<exists>st'. evt_insert True x ?st3 = (0, st') \<and> sched_inv st' \<and> q_size (queue st') \<le> q_size (queue ?st3) + 1"
      using evt_insert_inv [OF i3, of x] i2 e1 by (auto simp: queue_of_def)
    moreover have "run_timed run True st x t = snd (evt_insert True x ?st3)"
      using k True by (simp add: run_timed_def Let_def e1_def if_distrib cong: if_cong)
    ultimately show ?thesis using i2(2) by (auto simp: room_def)
  next
    case False
    define n where "n = critical_sched_count st2 - (if sc_critical (mem st2 x) \<noteq> 0 then 1 else 0)"
    have "run_timed run True st x t = free_evt x (st2\<lparr>critical_sched_count := n\<rparr>)"
      using k False by (simp add: run_timed_def Let_def n_def)
    with free_evt_inv(1) [OF i2(1,3-5) n_def] i2(2) show ?thesis by (simp add: room_def free_evt_def)
  qed
qed

lemma process_timed_inv:
  assumes inv: "sched_inv st" and rm: "q_size (queue st) + 2 < SIZE_MAX"
    and x: "x \<in> live st" "x \<notin> queued st" "next_timed_event st \<noteq> x" "sc_queue (mem st x) = MainQueue"
    and r: "evt_process_timed_event run True st x t stepping = (go, st')"
  shows "sched_inv st' \<and> room st' \<and> (\<not> go \<longrightarrow> next_timed_event st' = x \<and> debuggerState st' = EDBG_STOPPED
    \<and> live st' = live st)"
proof -
  have pos: "sc_pos (mem st x) = SIZE_MAX" using heap_objs_okD(5) [of st x] inv x by (simp add: sched_inv_def)
  have brk: "sched_inv (edbg_breakpoint (st\<lparr>steps_to_break := k, next_timed_event := x\<rparr>))" for k
  proof -
    have "sched_inv ((st\<lparr>steps_to_break := k\<rparr>)\<lparr>next_timed_event := x\<rparr>)"
      by (rule sched_inv_next) (use inv x(1) pos in simp_all)
    then show ?thesis by (simp add: edbg_breakpoint_def)
  qed
  have step: "sched_inv (run_timed run True (st\<lparr>steps_to_break := k\<rparr>) x t) \<and> room (run_timed run True (st\<lparr>steps_to_break := k\<rparr>) x t)" for k
    by (rule run_timed_inv) (use inv rm x in simp_all)
  have "room (edbg_breakpoint (st\<lparr>steps_to_break := k, next_timed_event := x\<rparr>))" for k
    using rm by (simp add: edbg_breakpoint_def room_def)
  with run_timed_inv [OF inv rm x, of t] brk step show ?thesis
    using r x(1) by (auto simp: evt_process_timed_event_def Let_def edbg_breakpoint_def split: if_splits)
qed

lemma timed_loop_inv:
  assumes "sched_inv st" "room st" "timed_loop run True ts re st = Some (go, re', st')" "\<forall>t \<in> set ts. t0 \<le> t"
  shows "sched_inv st' \<and> room st' \<and> (go \<longrightarrow> (\<forall>x \<in># pq_mset (queue st'). t0 < nextAwake (mem st' x)))
    \<and> (\<not> go \<longrightarrow> debuggerState st' = EDBG_STOPPED \<and> next_timed_event st' \<in> live st')"
  using assms
proof (induction ts arbitrary: re st)
  case Nil
  then have pk: "ps_pqueue_peek (queue st) = None" and st': "st' = st" "go"
    by (subst (asm) timed_loop.simps; auto split: option.splits)+
  have "pq_mset (queue st) = {#}" using peek_none_empty [OF _ pk] Nil.prems(1) by blast
  with Nil.prems st' show ?case by simp
next
  case (Cons t ts)
  show ?case
  proof (cases "ps_pqueue_peek (queue st)")
    case None
    with Cons.prems have st': "st' = st" "go" by (subst (asm) timed_loop.simps; auto)+
    have "pq_mset (queue st) = {#}" using peek_none_empty [OF _ None] Cons.prems(1) by blast
    with Cons.prems st' show ?thesis by simp
  next
    case (Some x)
    obtain h q m where pop: "ps_pqueue_pop (queue st) (mem st) = (h, q, m)" by (metis prod_cases3)
    let ?st1 = "st\<lparr>queue := q, mem := m(x := (m x)\<lparr>sc_pos := SIZE_MAX\<rparr>)\<rparr>"
    note p = main_pop_inv [OF Cons.prems(1) Some pop refl]
    have xl: "x \<in> live st" using p by simp
    show ?thesis
    proof (cases "t < nextAwake (mem st x)")
      case True
      then have "st' = st" "go" using Cons.prems(3) Some xl by (subst (asm) timed_loop.simps; auto)+
      moreover have "t0 < nextAwake (mem st y)" if "y \<in># pq_mset (queue st)" for y
        using p that True Cons.prems(4) by fastforce
      ultimately show ?thesis using Cons.prems(1,2) by blast
    next
      case False
      obtain g st2 where pr: "evt_process_timed_event run True ?st1 x t False = (g, st2)" by (metis prod.exhaust)
      have step: "timed_loop run True (t # ts) re st = (if g then timed_loop run True ts True st2 else Some (False, re, st2))"
        using Some xl False pop pr by (subst timed_loop.simps) (simp add: Let_def)
      have i1: "sched_inv ?st1" "x \<in> live ?st1" "x \<notin> queued ?st1" "next_timed_event ?st1 \<noteq> x" "sc_queue (mem ?st1 x) = MainQueue"
        and sz: "q_size (queue ?st1) + 2 < SIZE_MAX"
        using p Cons.prems(2) by (auto simp: room_def)
      note st2 = process_timed_inv [OF i1(1) sz i1(2-5) pr]
      show ?thesis
      proof (cases g)
        case True
        with step Cons.prems Cons.IH [of st2 True] st2 show ?thesis by simp
      next
        case False
        with step Cons.prems(3) have "st' = st2" "\<not> go" by auto
        with False st2 i1(2) show ?thesis by simp
      qed
    qed
  qed
qed

end

section \<open>Descriptor callbacks\<close>

definition fd_running :: "EventState \<Rightarrow> ptr \<Rightarrow> nat \<Rightarrow> bool" where
  "fd_running st p event \<longleftrightarrow> fd_inv st \<and> p \<in> flive st \<and> e_inCallback (fmem st p) event \<noteq> 0"

text \<open>
  The contract of descriptor callbacks: they may register callbacks and change flags of entries,
  but they delete no entry of the tables (the loop keeps a link into the chain across the call).
\<close>

locale fd_callbacks =
  fixes run_fd :: "ptr \<Rightarrow> int \<Rightarrow> nat \<Rightarrow> ptr \<Rightarrow> EventState \<Rightarrow> int \<times> EventState"
  assumes run_fd_keeps: "fd_running st p event \<Longrightarrow> run_fd cb fd event arg st = (r, st') \<Longrightarrow>
      fd_running st' p event \<and> flive st \<subseteq> flive st' \<and> hashSize st' = hashSize st"
    and run_fd_chains: "fd_running st p event \<Longrightarrow> run_fd cb fd event arg st = (r, st') \<Longrightarrow>
      \<exists>ys. events st' b = events st b @ ys"

lemma fd_inv_upd [simp]:
  "fd_inv (st\<lparr>gpio_intrs := g\<rparr>) = fd_inv st" "fd_inv (st\<lparr>steps_to_break := k\<rparr>) = fd_inv st"
  "fd_inv (st\<lparr>fd_event_counter := n\<rparr>) = fd_inv st" "fd_inv (st\<lparr>debuggerState := d\<rparr>) = fd_inv st"
  "fd_inv (st\<lparr>break_on_next := b\<rparr>) = fd_inv st" "fd_inv (st\<lparr>next_fd_event := e\<rparr>) = fd_inv st"
  "fd_inv (st\<lparr>next_fd_event_evt := v\<rparr>) = fd_inv st"
  by (simp_all add: fd_inv_def fd_chains_def fd_busy_def fd_sets_def fd_crit_def reg_def blk_def bucket_def)

text \<open>The GPIO interrupt callback with the bytes that \<open>read\<close> delivers, as a descriptor callback.\<close>

definition gpio_run :: "string \<Rightarrow> nat \<Rightarrow> ptr \<Rightarrow> int \<Rightarrow> nat \<Rightarrow> ptr \<Rightarrow> EventState \<Rightarrow> int \<times> EventState" where
  "gpio_run buff k cb fd event arg st =
     (case trip_gpio_intr_callback buff (gpio_intrs st k) of
        (r, intr, log) \<Rightarrow> (r, st\<lparr>gpio_intrs := (gpio_intrs st)(k := intr)\<rparr>))"

interpretation gpio: fd_callbacks "gpio_run buff k"
  by unfold_locales (auto simp: gpio_run_def fd_running_def split: prod.splits)

lemma counted_callback:
  assumes inv: "fd_inv st" and p: "p \<in> flive st" and e: "event < EVENT_MAX" and cb: "e_cb (fmem st p) event \<noteq> NULL"
  shows "fd_inv (st\<lparr>fmem := (fmem st)(p := (fmem st p)\<lparr>e_counts := n, e_inCallback := (e_inCallback (fmem st p))(event := 1)\<rparr>)\<rparr>)"
proof -
  let ?st' = "st\<lparr>fmem := (fmem st)(p := (fmem st p)\<lparr>e_counts := n, e_inCallback := (e_inCallback (fmem st p))(event := 1)\<rparr>)\<rparr>"
  have eq: "e_fd (fmem ?st' y) = e_fd (fmem st y)" "e_cb (fmem ?st' y) = e_cb (fmem st y)"
    "unblocked (fmem ?st' y) = unblocked (fmem st y)" "e_critical (fmem ?st' y) = e_critical (fmem st y)" for y
    by (auto simp: unblocked_def fun_eq_iff)
  have r: "reg ?st' e = reg st e" "blk ?st' e = blk st e" "fd_crit ?st' = fd_crit st" for e
    unfolding reg_def blk_def fd_crit_def by (simp_all only: eq) simp_all
  have c: "fd_chains ?st'" by (rule chains_write) (use inv in \<open>auto simp: fd_inv_def\<close>)
  moreover have "fd_busy ?st'"
    using inv cb e p unfolding fd_inv_def fd_busy_def entry_busy_def by auto
  moreover have "fd_sets ?st'" using inv unfolding fd_inv_def fd_sets_def r by simp
  ultimately show ?thesis by (simp add: fd_inv_def)
qed

lemma index_of_nth:
  "distinct xs \<Longrightarrow> i < length xs \<Longrightarrow> index_of (xs ! i) (xs @ ys) = i"
  by (induction xs arbitrary: i) (auto simp: nth_Cons split: nat.splits)

context fd_callbacks
begin

lemma finish_fd_inv:
  assumes inv: "fd_inv st" and b: "b < hashSize st" "i < length (events st b)" and e: "event < EVENT_MAX"
    and cb: "e_inCallback (fmem st (events st b ! i)) event = 3 \<or> keep = EVENT_REMOVE \<Longrightarrow> e_cb (fmem st (events st b ! i)) event \<noteq> NULL"
  shows "fd_inv (finish_fd st (Chain b i) event keep)"
proof -
  let ?p = "events st b ! i"
  have c: "fd_chains st" using inv by (simp add: fd_inv_def)
  note h = fd_chainsD [OF c]
  have pl: "?p \<in> flive st" using h(5) b by (auto intro!: bexI [of _ b])
  have dr: "deref st (Chain b i) = ?p" using b by (simp add: deref_def)
  let ?f = "(e_inCallback (fmem st ?p))(event := 0)"
  let ?st2 = "st\<lparr>fmem := (fmem st)(?p := (fmem st ?p)\<lparr>e_inCallback := ?f\<rparr>)\<rparr>"
  have i2: "fd_inv ?st2"
    by (rule callback_write(1) [OF refl _ inv])
      (use inv pl in \<open>auto simp: fd_inv_def fd_busy_def entry_busy_def split: if_splits\<close>)
  show ?thesis
  proof (cases "e_inCallback (fmem st ?p) event = 3 \<or> (keep = EVENT_REMOVE \<and> e_inCallback (fmem st ?p) event = 1)")
    case True
    obtain d st' where r: "EVT_remove_internal ?st2 (Chain b i) event = (d, st')" by (metis prod.exhaust)
    have "fd_inv st'"
      using remove_internal_inv [OF i2 _ _ e refl _ _ r] b True cb by auto
    with True r pl show ?thesis unfolding finish_fd_def dr by (simp add: Let_def)
  next
    case False
    with i2 pl show ?thesis unfolding finish_fd_def dr by (auto simp: Let_def)
  qed
qed

lemma run_fd_cb_inv:
  assumes inv: "fd_inv st" and b: "b < hashSize st" "i < length (events st b)" and e: "event < EVENT_MAX"
  shows "fd_inv (run_fd_cb run_fd st (Chain b i) event)"
proof -
  let ?p = "events st b ! i"
  let ?x = "fmem st ?p"
  have c: "fd_chains st" using inv by (simp add: fd_inv_def)
  note h = fd_chainsD [OF c]
  have pl: "?p \<in> flive st" using h(5) b by (auto intro!: bexI [of _ b])
  have dr: "deref st (Chain b i) = ?p" using b by (simp add: deref_def)
  show ?thesis
  proof (cases "e_cb ?x event = NULL")
    case True
    then have "e_inCallback ?x event = 0" using inv pl e by (auto simp: fd_inv_def fd_busy_def entry_busy_def)
    with finish_fd_inv [OF inv b e, of EVENT_KEEP] True dr show ?thesis
      by (simp add: run_fd_cb_def Let_def EVENT_KEEP_def EVENT_REMOVE_def)
  next
    case False
    let ?x0 = "?x\<lparr>e_counts := (e_counts ?x)(event := e_counts ?x event + 1), e_inCallback := (e_inCallback ?x)(event := 1)\<rparr>"
    let ?st0 = "st\<lparr>fmem := (fmem st)(?p := ?x0)\<rparr>"
    have r0: "fd_running ?st0 ?p event" using counted_callback [OF inv pl e False] pl by (simp add: fd_running_def)
    obtain keep s where k: "run_fd (e_cb ?x event) (e_fd ?x) event (e_arg ?x event) ?st0 = (keep, s)" by (metis prod.exhaust)
    let ?s1 = "s\<lparr>fd_event_counter := fd_event_counter s + 1\<rparr>"
    note k1 = run_fd_keeps [OF r0 k]
    obtain ys where ys: "events s b = events st b @ ys" using run_fd_chains [OF r0 k, of b] by auto
    have rl: "relink st (Chain b i) ?s1 = Some (Chain b i)"
    proof (cases i)
      case (Suc j)
      have jl: "j < length (events st b)" using Suc b(2) by simp
      have "events st b ! j \<in> flive st" using h(5) b(1) jl by (auto intro!: bexI [of _ b])
      then have "events st b ! j \<in> flive s" using k1 by auto
      moreover have "index_of (events st b ! j) (events s b) = j" unfolding ys by (rule index_of_nth [OF h(6) [OF b(1)] jl])
      ultimately show ?thesis using Suc by (simp add: relink_def)
    qed (simp add: relink_def)
    have s: "fd_inv ?s1" "b < hashSize ?s1" "i < length (events ?s1 b)" "events ?s1 b ! i = ?p"
      using k1 b ys by (auto simp: fd_running_def nth_append)
    have "e_cb (fmem s ?p) event \<noteq> NULL"
      using k1 e by (auto simp: fd_running_def fd_inv_def fd_busy_def entry_busy_def)
    then have "fd_inv (finish_fd ?s1 (Chain b i) event keep)"
      by (intro finish_fd_inv [OF s(1-3) e]) (simp only: s(4), simp)
    with False k rl show ?thesis unfolding run_fd_cb_def dr by (simp add: Let_def)
  qed
qed

lemma process_fd_inv:
  assumes inv: "fd_inv st" and b: "b < hashSize st" "i < length (events st b)" and e: "event < EVENT_MAX"
    and r: "evt_process_fd_event run_fd st (Chain b i) event stepping = (go, st')"
  shows "fd_inv st'"
proof -
  let ?p = "events st b ! i"
  have c: "fd_chains st" using inv by (simp add: fd_inv_def)
  note h = fd_chainsD [OF c]
  have pl: "?p \<in> flive st" using h(5) b by (auto intro!: bexI [of _ b])
  have dr: "deref st (Chain b i) = ?p" using b by (simp add: deref_def)
  have "fd_inv (run_fd_cb run_fd (st\<lparr>steps_to_break := k\<rparr>) (Chain b i) event)" for k
    by (rule run_fd_cb_inv) (use inv b e in simp_all)
  with run_fd_cb_inv [OF inv b e] r pl inv show ?thesis
    unfolding evt_process_fd_event_def dr
    by (auto simp: Let_def edbg_breakpoint_def split: if_splits)
qed

end

lemma remove_internal_keeps_fd: "EVT_remove_internal st l event = (d, st') \<Longrightarrow> e_fd (fmem st' y) = e_fd (fmem st y)"
  by (auto simp: EVT_remove_internal_def Let_def split: if_splits)

lemma fd_remove_loop_keeps_fd: "e_fd (fmem (fd_remove_loop force fd event b i st) y) = e_fd (fmem st y)"
proof (induction force fd event b i st rule: fd_remove_loop.induct)
  case (1 force fd event b i st)
  show ?case
    using "1.IH" by (subst fd_remove_loop.simps)
      (auto simp: Let_def remove_internal_keeps_fd split: prod.splits)
qed

lemma fd_remove_keeps_fd: "e_fd (fmem (EVT_fd_remove st fd event) y) = e_fd (fmem st y)"
  by (simp add: EVT_fd_remove_def fd_remove_loop_keeps_fd)

section \<open>Properties\<close>

text \<open>
  C4: The timed-event loop, with callbacks that honour the contract of scheduled callbacks, keeps
  the scheduler's invariant; when it runs to its end, no event that was due at the first clock
  reading is left in the main queue; when it stops at a breakpoint, the debugger is stopped and the
  event it stopped at is allocated and parked.
\<close>

theorem timed_loop_correct:
  assumes "timed_callbacks run" "sched_inv st" "room st"
    "timed_loop run True ts re st = Some (go, re', st')" "\<forall>t \<in> set ts. t0 \<le> t"
  shows "sched_inv st' \<and> (go \<longrightarrow> (\<forall>x \<in># pq_mset (queue st'). t0 < nextAwake (mem st' x)))
    \<and> (\<not> go \<longrightarrow> debuggerState st' = EDBG_STOPPED \<and> next_timed_event st' \<in> live st')"
  using timed_callbacks.timed_loop_inv [OF assms] by blast

theorem timed_loop_witness:
  "case timed_loop (\<lambda>cb arg. edbg_breakpoint_cb) True [Timeval 103 0] False st_two of
     Some (go, re', st') \<Rightarrow> sched_inv st' \<and> (\<forall>x \<in># pq_mset (queue st'). Timeval 103 0 < nextAwake (mem st' x))
   | None \<Rightarrow> False"
proof -
  have "timed_loop (\<lambda>cb arg. edbg_breakpoint_cb) True [Timeval 103 0] False st_two = Some (True, False, st_two)"
    by (subst timed_loop.simps) (simp add: ps_pqueue_peek_def st_two_eval st_two_inv less_timeval_def)
  moreover have "room st_two" by (simp add: room_def st_two_eval SIZE_MAX_def)
  ultimately show ?thesis
    using timed_loop_correct [OF dbg_break.timed_callbacks_axioms st_two_inv(1), of "[Timeval 103 0]" False True False st_two "Timeval 103 0"]
    by simp
qed



text \<open>
  Running a descriptor event whose callback honours the contract of descriptor callbacks keeps
  the invariant of the descriptor tables, whether the callback asks to be kept or removed and
  whether the loop stops at a breakpoint.
\<close>

theorem evt_process_fd_event_inv:
  assumes "fd_callbacks run_fd" "fd_inv st" "b < hashSize st" "i < length (events st b)" "event < EVENT_MAX"
    "evt_process_fd_event run_fd st (Chain b i) event stepping = (go, st')"
  shows "fd_inv st'"
  using fd_callbacks.process_fd_inv [OF assms] .

lemma st_fd_chain: "hashSize st_fd = 19" "events st_fd 5 = [50]" "e_cb (fmem st_fd 50) = (\<lambda>_. NULL)(0 := 60)" "e_fd (fmem st_fd 50) = 5"
  "e_cleanup (fmem st_fd 50) = (\<lambda>_. NULL)" "e_inCallback (fmem st_fd 50) = (\<lambda>_. 0)" "e_critical (fmem st_fd 50) = 1"
proof -
  have hs: "hashSize st_init = 19" by (simp add: st_init_def EVT_initWithSize_def ps_pqueue_init_def)
  have f: "find_fd st_init 5 = NULL" by (simp add: find_fd_def st_init_fd)
  show "hashSize st_fd = 19" "events st_fd 5 = [50]" "e_cb (fmem st_fd 50) = (\<lambda>_. NULL)(0 := 60)" "e_fd (fmem st_fd 50) = 5"
    "e_cleanup (fmem st_fd 50) = (\<lambda>_. NULL)" "e_inCallback (fmem st_fd 50) = (\<lambda>_. 0)" "e_critical (fmem st_fd 50) = 1"
    by (simp_all add: st_fd_def EVT_fd_add_def EVT_fd_add_with_cleanup_def f fd_ok_def NULL_def EVENT_FD_READ_def Let_def
        fd_register_def bucket_def hs st_init_fd zero_EventCB_def fun_eq_iff)
qed

theorem evt_process_fd_event_witness:
  "fd_inv (snd (evt_process_fd_event (gpio_run ''Y0'' 0) st_fd (Chain 5 0) 0 False))"
  using evt_process_fd_event_inv [OF gpio.fd_callbacks_axioms st_fd_facts(1), of 5 0 0]
  by (cases "evt_process_fd_event (gpio_run ''Y0'' 0) st_fd (Chain 5 0) 0 False") (simp add: st_fd_chain EVENT_MAX_def)

text \<open>
  The debugger's single step of a descriptor event passes the address of \<open>next_fd_event\<close> instead
  of the link in the bucket: when the callback asks to be removed and was the entry's only one, the
  entry is freed while its bucket still points to it.
\<close>

theorem single_step_fd_dangling:
  assumes inv: "fd_inv st" and x: "next_fd_event st = x" "x \<in> flive st" and e: "event < EVENT_MAX"
    and cb: "e_cb (fmem st x) event \<noteq> NULL" "\<And>i. i \<noteq> event \<Longrightarrow> e_cb (fmem st x) i = NULL"
    and run: "\<And>cb fd arg s. run_fd cb fd event arg s = (EVENT_REMOVE, s)"
    and r: "evt_process_fd_event run_fd st NextFd event True = (go, st')"
  shows "x \<notin> flive st' \<and> x \<in> set (events st' (bucket st' (e_fd (fmem st' x))))"
proof -
  have c: "fd_chains st" using inv by (simp add: fd_inv_def)
  note h = fd_chainsD [OF c]
  have xn: "x \<noteq> NULL" using x(2) h(3) by auto
  have dr: "deref s NextFd = next_fd_event s" for s by (simp add: deref_def)
  let ?x = "fmem st x"
  let ?x0 = "?x\<lparr>e_counts := (e_counts ?x)(event := e_counts ?x event + 1), e_inCallback := (e_inCallback ?x)(event := 1)\<rparr>"
  let ?s1 = "st\<lparr>fmem := (fmem st)(x := ?x0), fd_event_counter := fd_event_counter st + 1\<rparr>"
  let ?x2 = "?x0\<lparr>e_inCallback := (e_inCallback ?x0)(event := 0)\<rparr>"
  let ?s2 = "?s1\<lparr>fmem := (fmem ?s1)(x := ?x2)\<rparr>"
  have st': "st' = snd (EVT_remove_internal ?s2 NextFd event)"
    using r x xn cb(1) unfolding evt_process_fd_event_def dr x(1)
    by (simp add: run_fd_cb_def Let_def run relink_def finish_fd_def dr x(1))
  have idle: "idle (cleared (fmem ?s2 x) event)" using cb(2) by (auto simp: idle_def)
  have eq: "EVT_remove_internal ?s2 NextFd event = (True, delete_entry NextFd x (clear_event ?s2 x event))"
    using remove_internal_eq [of ?s2 NextFd x event] idle x xn cb(1) by (simp add: dr)
  have f: "flive st' = flive st - {x}" "events st' = events st" "hashSize st' = hashSize st"
    "e_fd (fmem st' x) = e_fd (fmem st x)"
    unfolding st' eq by (simp_all add: delete_entry_def Let_def unlink_def)
  have "bucket st' = bucket st" by (rule ext) (simp add: bucket_def f)
  with fd_chain_of [OF c x(2)] f show ?thesis by simp
qed

theorem single_step_fd_witness:
  "50 \<notin> flive (snd (evt_process_fd_event (\<lambda>cb fd e arg s. (EVENT_REMOVE, s)) (st_fd\<lparr>next_fd_event := 50\<rparr>) NextFd 0 True))"
  using single_step_fd_dangling [of "st_fd\<lparr>next_fd_event := 50\<rparr>" 50 0 "\<lambda>cb fd e arg s. (EVENT_REMOVE, s)"]
  by (cases "evt_process_fd_event (\<lambda>cb fd e arg s. (EVENT_REMOVE, s)) (st_fd\<lparr>next_fd_event := 50\<rparr>) NextFd 0 True")
    (simp add: st_fd_facts st_fd_chain EVENT_MAX_def NULL_def)

text \<open>
  A descriptor callback that removes the only callback of the entry before its own in the same
  hash bucket makes the loop follow a link inside freed memory.
\<close>

theorem fd_callback_removes_predecessor:
  assumes inv: "fd_inv st" and b: "b < hashSize st" "0 < i" "i < length (events st b)"
    and p: "p = events st b ! (i - 1)" "e_inCallback (fmem st p) e' = 0" "e' < EVENT_MAX" "\<And>k. k \<noteq> e' \<Longrightarrow> e_cb (fmem st p) k = NULL"
    and x: "x = events st b ! i" "e_cb (fmem st x) event \<noteq> NULL" "event < EVENT_MAX"
    and go: "\<not> break_on_next st" "\<not> e_breakpoint (fmem st x) event"
    and run: "\<And>cb fd arg s. run_fd cb fd event arg s = (k, EVT_fd_remove s (e_fd (fmem st p)) e')"
  shows "ub (snd (evt_process_fd_event run_fd st (Chain b i) event False))"
proof -
  have c: "fd_chains st" using inv by (simp add: fd_inv_def)
  note h = fd_chainsD [OF c]
  have dist: "distinct (events st b)" using h(6) [OF b(1)] .
  have pl: "p \<in> flive st" "x \<in> flive st" "p \<noteq> x"
    using h(5) b dist p(1) x(1) by (auto intro!: bexI [of _ b] simp: nth_eq_iff_index_eq)
  have dr: "deref st (Chain b i) = x" "x \<noteq> NULL" using b x(1) pl(2) h(3) by (auto simp: deref_def)
  let ?x0 = "(fmem st x)\<lparr>e_counts := (e_counts (fmem st x))(event := e_counts (fmem st x) event + 1),
      e_inCallback := (e_inCallback (fmem st x))(event := 1)\<rparr>"
  let ?s0 = "st\<lparr>fmem := (fmem st)(x := ?x0)\<rparr>" and ?fd = "e_fd (fmem st p)"
  have i0: "fd_inv ?s0" using counted_callback [OF inv pl(2) x(3,2)] .
  have fd0: "0 \<le> ?fd" using h(8) [OF pl(1)] by (simp add: fd_ok_def)
  have xfd: "e_fd (fmem st x) \<noteq> ?fd" using h(9) pl by (auto simp: inj_on_def)
  let ?s1 = "EVT_fd_remove ?s0 ?fd e'"
  have idle: "\<forall>y \<in> flive ?s0. e_fd (fmem ?s0 y) = ?fd \<longrightarrow> e_inCallback (fmem ?s0 y) e' = 0"
    using h(9) pl p(2) xfd by (auto simp: inj_on_def)
  have rm: "fd_inv ?s1 \<and> (\<forall>e < EVENT_MAX. eventSet ?s1 e = (if e = e' then eventSet ?s0 e - {?fd} else eventSet ?s0 e))"
    by (rule fd_remove_sets [OF i0 fd0 p(3) idle]) simp
  have none: "?fd \<notin> reg ?s1 e" if "e < EVENT_MAX" for e
  proof -
    have "eventSet ?s1 e = reg ?s1 e" "eventSet st e = reg st e"
      using rm inv that by (auto simp: fd_inv_def fd_sets_def)
    moreover have "e \<noteq> e' \<Longrightarrow> ?fd \<notin> reg st e" using reg_mem [OF pl(1) h(9), of e] p(4) by simp
    ultimately show ?thesis using rm that by (auto split: if_splits)
  qed
  have gone: "p \<notin> flive ?s1"
  proof
    assume "p \<in> flive ?s1"
    then obtain e where e: "e < EVENT_MAX" "e_cb (fmem ?s1 p) e \<noteq> NULL"
      using rm by (auto simp: fd_inv_def fd_busy_def entry_busy_def)
    then have "e_fd (fmem ?s1 p) \<in> reg ?s1 e" using \<open>p \<in> flive ?s1\<close> by (auto simp: reg_def)
    moreover have "e_fd (fmem ?s1 p) = ?fd" using fd_remove_keeps_fd [of ?s0 ?fd e' p] pl(3) by simp
    ultimately show False using none [OF e(1)] by simp
  qed
  have rl: "relink st (Chain b i) (?s1\<lparr>fd_event_counter := n\<rparr>) = None" for n
    using b(2) gone p(1) by (simp add: relink_def)
  show ?thesis
    using pl(2) dr(2) go x(2) rl unfolding evt_process_fd_event_def dr(1)
    by (simp add: run_fd_cb_def dr(1) Let_def run)
qed

definition st_fd2 :: EventState where
  "st_fd2 = snd (EVT_fd_add (Some 51) st_fd 24 EVENT_FD_READ 61 71)"

lemma st_fd2_facts: "fd_inv st_fd2" "hashSize st_fd2 = 19" "events st_fd2 5 = [50, 51]" "fmem st_fd2 50 = fmem st_fd 50"
  "e_cb (fmem st_fd2 51) 0 = 61" "\<not> e_breakpoint (fmem st_fd2 51) 0" "\<not> break_on_next st_fd2"
proof -
  have brk: "\<not> break_on_next st_fd" using st_init_eq
    by (simp add: st_fd_def EVT_fd_add_def EVT_fd_add_with_cleanup_def fd_register_def Let_def find_fd_def st_init_fd
        fd_ok_def NULL_def st_init_def EVT_initWithSize_def ps_pqueue_init_def zero_EventState_def)
  have bk: "bucket st_fd 24 = 5" by (simp add: bucket_def st_fd_chain)
  have f: "find_fd st_fd 24 = NULL" by (simp add: find_fd_def bk st_fd_chain)
  let ?st1 = "st_fd\<lparr>fmem := (fmem st_fd)(51 := zero_EventCB\<lparr>e_critical := 1, e_pausable := True, e_fd := 24\<rparr>),
       flive := insert 51 (flive st_fd), events := (events st_fd)(bucket st_fd 24 := events st_fd (bucket st_fd 24) @ [51]),
       critical_fd_count := critical_fd_count st_fd + 1\<rparr>"
  have st: "st_fd2 = fd_register ?st1 51 24 0 61 NULL 71"
    by (simp add: st_fd2_def EVT_fd_add_def EVT_fd_add_with_cleanup_def f fd_ok_def NULL_def EVENT_FD_READ_def Let_def)
  have n: "fd_chains ?st1 \<and> fd_sets ?st1"
    by (rule new_entry_inv(1) [OF st_fd_facts(1) _ _ _ _ refl]) (simp_all add: fd_ok_def st_fd_facts st_fd_chain NULL_def)
  show "fd_inv st_fd2" using fd_register_inv [OF _ _ _ _ _ _ _ _ st] n
    by (simp add: EVENT_MAX_def st_fd_facts st_fd_chain NULL_def zero_EventCB_def entry_busy_def)
  show "hashSize st_fd2 = 19" "events st_fd2 5 = [50, 51]" "fmem st_fd2 50 = fmem st_fd 50" "e_cb (fmem st_fd2 51) 0 = 61"
    "\<not> e_breakpoint (fmem st_fd2 51) 0" "\<not> break_on_next st_fd2"
    using brk by (simp_all add: st fd_register_def Let_def st_fd_chain bk zero_EventCB_def)
qed

theorem fd_callback_removes_predecessor_witness:
  "ub (snd (evt_process_fd_event (\<lambda>cb fd e arg s. (EVENT_KEEP, EVT_fd_remove s 5 0)) st_fd2 (Chain 5 1) 0 False))"
  by (rule fd_callback_removes_predecessor [OF st_fd2_facts(1), where p = 50 and x = 51 and e' = 0 and k = EVENT_KEEP])
    (simp_all add: st_fd2_facts st_fd_chain EVENT_MAX_def NULL_def)

text \<open>
  The automatic exit of the loop happens exactly when no critical work of the requested kinds
  is left: no critical timed event is allocated, no critical descriptor entry exists, or both.
\<close>

theorem auto_exit_correct:
  assumes "sched_inv st" "fd_inv st"
  shows "(auto_exit_now EVT_EXIT_SCHED st \<longleftrightarrow> (\<forall>x \<in> live st. sc_critical (mem st x) = 0))
    \<and> (auto_exit_now EVT_EXIT_FD st \<longleftrightarrow> (\<forall>x \<in> flive st. e_critical (fmem st x) = 0))
    \<and> (auto_exit_now (EVT_EXIT_SCHED + EVT_EXIT_FD) st \<longleftrightarrow>
        (\<forall>x \<in> live st. sc_critical (mem st x) = 0) \<and> (\<forall>x \<in> flive st. e_critical (fmem st x) = 0))
    \<and> \<not> auto_exit_now 0 st"
proof -
  have fin: "finite (live st)" "finite (flive st)" using assms by (auto simp: sched_inv_def heap_objs_ok_def fd_inv_def fd_chains_def)
  have s: "critical_sched_count st > 0 \<longleftrightarrow> \<not> (\<forall>x \<in> live st. sc_critical (mem st x) = 0)"
    using assms(1) finite_crit_set [OF fin(1)]
    by (auto simp: sched_inv_def heap_objs_ok_def card_gt_0_iff crit_set_def)
  have f: "critical_fd_count st > 0 \<longleftrightarrow> \<not> (\<forall>x \<in> flive st. e_critical (fmem st x) = 0)"
    using assms(2) fin(2) by (auto simp: fd_inv_def fd_sets_def card_gt_0_iff fd_crit_def)
  show ?thesis unfolding auto_exit_now_def remaining_work_def EVT_EXIT_SCHED_def EVT_EXIT_FD_def
    using s f by auto
qed

theorem auto_exit_witness: "\<not> auto_exit_now EVT_EXIT_FD st_fd \<and> auto_exit_now EVT_EXIT_SCHED st_fd"
proof -
  have same: "queue st_fd = queue st_init" "dbg_queue st_fd = dbg_queue st_init" "mem st_fd = mem st_init" "live st_fd = {}"
    "next_timed_event st_fd = next_timed_event st_init" "critical_sched_count st_fd = critical_sched_count st_init"
    using st_init_inv(3) by (simp_all add: st_fd_def EVT_fd_add_def EVT_fd_add_with_cleanup_def fd_register_def Let_def find_fd_def st_init_fd fd_ok_def NULL_def)
  have "\<not> ub st_fd" using st_fd_facts(1) by (simp add: fd_inv_def fd_chains_def)
  with st_init_inv(1) same have "sched_inv st_fd"
    by (simp add: sched_inv_def queues_ok_def queue_ok_def heap_objs_ok_def crit_set_def queued_def queue_set_def queue_of_def st_init_inv(3))
  from auto_exit_correct [OF this st_fd_facts(1)] show ?thesis by (simp add: same(4) st_fd_facts st_fd_chain)
qed

end
