(* ===== verification/Hash_Table.thy ===== *)
theory Hash_Table
  imports Prelude "HOL-Library.AList"
begin

text \<open>
  The chained hash table of \<open>hashtable.c\<close>. Keys are the pointer-sized integers the callers cast
  their keys to, with 0 for \<open>NULL\<close>; data pointers are values of an arbitrary type, \<open>None\<close> where the
  caller passes or receives \<open>NULL\<close>. A bucket is the list of its nodes. Outcomes of \<open>malloc\<close> are
  arguments.

  The locale \<open>hash_keys\<close> is the interface the table needs of its three callbacks; under it the
  table is shown to implement a finite map from keys to data.
\<close>

section \<open>Data and operations\<close>

record 'd HashNode =
  n_hash :: nat
  n_key :: nat
  n_data :: 'd

record 'd HashTable =
  h_size :: nat
  h_hashFunc :: "nat \<Rightarrow> nat"
  h_keyCmp :: "nat \<Rightarrow> nat \<Rightarrow> bool"
  h_keyForData :: "'d \<Rightarrow> nat"
  h_buckets :: "'d HashNode list list"

definition HASH_create_table ::
  "bool \<Rightarrow> nat \<Rightarrow> (nat \<Rightarrow> nat) \<Rightarrow> (nat \<Rightarrow> nat \<Rightarrow> bool) \<Rightarrow> ('d \<Rightarrow> nat) \<Rightarrow> 'd HashTable option" where
  "HASH_create_table ok n hf cmp kfd =
     (if \<not> ok then None
      else Some \<lparr>h_size = n, h_hashFunc = hf, h_keyCmp = cmp, h_keyForData = kfd,
                 h_buckets = replicate n []\<rparr>)"

definition bucket_of :: "'d HashTable \<Rightarrow> nat \<Rightarrow> nat" where
  "bucket_of t key = h_hashFunc t key mod h_size t"

text \<open>The position of the node in its bucket, as the \<open>HashNode **\<close> of the source.\<close>

fun search_chain :: "'d HashTable \<Rightarrow> nat \<Rightarrow> 'd HashNode list \<Rightarrow> nat option" where
  "search_chain t key [] = None"
| "search_chain t key (n # ns) =
     (if n_key n \<noteq> 0 \<and> h_keyCmp t (n_key n) key then Some 0 else map_option Suc (search_chain t key ns))"

definition HASH_search_internal :: "'d HashTable \<Rightarrow> nat \<Rightarrow> nat option" where
  "HASH_search_internal t key = search_chain t key (h_buckets t ! bucket_of t key)"

definition HASH_remove_key_internal :: "'d HashTable \<Rightarrow> nat \<Rightarrow> 'd option \<times> 'd HashTable" where
  "HASH_remove_key_internal t key =
     (case HASH_search_internal t key of
        None \<Rightarrow> (None, t)
      | Some i \<Rightarrow>
          let b = bucket_of t key; ns = h_buckets t ! b
          in (Some (n_data (ns ! i)), t\<lparr>h_buckets := (h_buckets t)[b := take i ns @ drop (Suc i) ns]\<rparr>))"

definition HASH_remove_key :: "'d HashTable option \<Rightarrow> nat \<Rightarrow> 'd option \<times> 'd HashTable option" where
  "HASH_remove_key table key =
     (case table of None \<Rightarrow> (None, None)
      | Some t \<Rightarrow> (case HASH_remove_key_internal t key of (r, t') \<Rightarrow> (r, Some t')))"

definition HASH_remove_data :: "'d HashTable option \<Rightarrow> 'd option \<Rightarrow> 'd option \<times> 'd HashTable option" where
  "HASH_remove_data table data =
     (case (table, data) of
        (Some t, Some d) \<Rightarrow> (case HASH_remove_key_internal t (h_keyForData t d) of (r, t') \<Rightarrow> (r, Some t'))
      | _ \<Rightarrow> (None, table))"

fun find_chain :: "'d HashTable \<Rightarrow> nat \<Rightarrow> 'd HashNode list \<Rightarrow> 'd option" where
  "find_chain t key [] = None"
| "find_chain t key (n # ns) = (if h_keyCmp t (n_key n) key then Some (n_data n) else find_chain t key ns)"

definition HASH_find_key :: "'d HashTable option \<Rightarrow> nat \<Rightarrow> 'd option" where
  "HASH_find_key table key =
     (case table of None \<Rightarrow> None | Some t \<Rightarrow> find_chain t key (h_buckets t ! bucket_of t key))"

definition HASH_find_data :: "'d HashTable option \<Rightarrow> 'd option \<Rightarrow> 'd option" where
  "HASH_find_data table data =
     (case (table, data) of (Some t, Some d) \<Rightarrow> HASH_find_key table (h_keyForData t d) | _ \<Rightarrow> None)"

definition HASH_add_data :: "bool \<Rightarrow> 'd HashTable \<Rightarrow> 'd option \<Rightarrow> int \<times> 'd HashTable" where
  "HASH_add_data ok t data =
     (case data of
        None \<Rightarrow> (-1, t)
      | Some d \<Rightarrow>
          let key = h_keyForData t d in
          if HASH_find_key (Some t) key \<noteq> None then (-3, t)
          else if \<not> ok then (-4, t)
          else let h = h_hashFunc t key; b = h mod h_size t
               in (0, t\<lparr>h_buckets := (h_buckets t)[b := \<lparr>n_hash = h, n_key = key, n_data = d\<rparr> # (h_buckets t ! b)]\<rparr>))"

text \<open>
  The iterator callback may keep state of its own (type \<open>'s\<close>), which \<open>HASH_iterate_arg_table\<close> passes
  as its argument; a true result deletes the node.
\<close>

fun iterate_chain :: "('d \<Rightarrow> 's \<Rightarrow> bool \<times> 's) \<Rightarrow> 'd HashNode list \<Rightarrow> 's \<Rightarrow> 'd HashNode list \<times> 's" where
  "iterate_chain it [] s = ([], s)"
| "iterate_chain it (n # ns) s =
     (case it (n_data n) s of
        (del, s1) \<Rightarrow> (case iterate_chain it ns s1 of (ns', s2) \<Rightarrow> (if del then ns' else n # ns', s2)))"

fun iterate_buckets :: "('d \<Rightarrow> 's \<Rightarrow> bool \<times> 's) \<Rightarrow> 'd HashNode list list \<Rightarrow> 's \<Rightarrow> 'd HashNode list list \<times> 's" where
  "iterate_buckets it [] s = ([], s)"
| "iterate_buckets it (b # bs) s =
     (case iterate_chain it b s of
        (b', s1) \<Rightarrow> (case iterate_buckets it bs s1 of (bs', s2) \<Rightarrow> (b' # bs', s2)))"

definition HASH_iterate_arg_table ::
  "'d HashTable option \<Rightarrow> ('d \<Rightarrow> 's \<Rightarrow> bool \<times> 's) \<Rightarrow> 's \<Rightarrow> 'd HashTable option \<times> 's" where
  "HASH_iterate_arg_table table it s =
     (case table of
        None \<Rightarrow> (None, s)
      | Some t \<Rightarrow> (case iterate_buckets it (h_buckets t) s of (bs, s') \<Rightarrow> (Some (t\<lparr>h_buckets := bs\<rparr>), s')))"

definition HASH_iterate_table :: "'d HashTable option \<Rightarrow> ('d \<Rightarrow> bool) \<Rightarrow> 'd HashTable option" where
  "HASH_iterate_table table it = fst (HASH_iterate_arg_table table (\<lambda>d (). (it d, ())) ())"

text \<open>
  \<open>HASH_extract\<close> removes nodes by key until the bucket is empty; the loop need not end, so it
  has fuel. The result lists what the extractor callback receives, \<open>None\<close> for \<open>NULL\<close>.
\<close>

fun extract_bucket :: "nat \<Rightarrow> nat \<Rightarrow> 'd HashTable \<Rightarrow> ('d option list \<times> 'd HashTable) option" where
  "extract_bucket fuel i t =
     (case h_buckets t ! i of
        [] \<Rightarrow> Some ([], t)
      | n # ns \<Rightarrow>
          (case fuel of
             0 \<Rightarrow> None
           | Suc f \<Rightarrow>
               (case HASH_remove_key_internal t (n_key n) of
                  (d, t') \<Rightarrow> map_option (\<lambda>(ds, t''). (d # ds, t'')) (extract_bucket f i t'))))"

declare extract_bucket.simps [simp del]

fun extract_from :: "nat \<Rightarrow> nat list \<Rightarrow> 'd HashTable \<Rightarrow> ('d option list \<times> 'd HashTable) option" where
  "extract_from fuel [] t = Some ([], t)"
| "extract_from fuel (i # is) t =
     (case extract_bucket fuel i t of
        None \<Rightarrow> None
      | Some (ds, t1) \<Rightarrow> map_option (\<lambda>(es, t2). (ds @ es, t2)) (extract_from fuel is t1))"

definition HASH_extract :: "nat \<Rightarrow> 'd HashTable option \<Rightarrow> ('d option list \<times> 'd HashTable option) option" where
  "HASH_extract fuel table =
     (case table of
        None \<Rightarrow> Some ([], None)
      | Some t \<Rightarrow> map_option (\<lambda>(ds, t'). (ds, Some t')) (extract_from fuel [0 ..< h_size t] t))"

section \<open>The table as a finite map\<close>

definition chain_map :: "'d HashNode list \<Rightarrow> nat \<Rightarrow> 'd option" where
  "chain_map ns = map_of (map (\<lambda>n. (n_key n, n_data n)) ns)"

definition hash_abs :: "'d HashTable \<Rightarrow> nat \<Rightarrow> 'd option" where
  "hash_abs t = chain_map (concat (h_buckets t))"

definition hash_wf :: "'d HashTable \<Rightarrow> bool" where
  "hash_wf t \<longleftrightarrow> 0 < h_size t \<and> length (h_buckets t) = h_size t
     \<and> (\<forall>i < h_size t. distinct (map n_key (h_buckets t ! i))
         \<and> (\<forall>n \<in> set (h_buckets t ! i). bucket_of t (n_key n) = i \<and> n_key n = h_keyForData t (n_data n)))"

lemma chain_map_simps [simp]:
  "chain_map [] = Map.empty" "chain_map (n # ns) = (chain_map ns)(n_key n \<mapsto> n_data n)"
  "chain_map (xs @ ys) = chain_map ys ++ chain_map xs"
  by (simp_all add: chain_map_def)

lemma chain_map_None: "chain_map ns k = None \<longleftrightarrow> k \<notin> n_key ` set ns"
  by (auto simp: chain_map_def map_of_eq_None_iff image_image)

lemma chain_map_concat_None:
  "chain_map (concat bs) k = None \<longleftrightarrow> (\<forall>j < length bs. chain_map (bs ! j) k = None)"
proof -
  have "chain_map (concat bs) k = None \<longleftrightarrow> (\<forall>b \<in> set bs. chain_map b k = None)"
    by (auto simp: chain_map_None)
  then show ?thesis by (simp add: all_set_conv_all_nth)
qed

lemma map_of_concat_bucket:
  assumes "i < length bs" "\<And>j. j < length bs \<Longrightarrow> j \<noteq> i \<Longrightarrow> chain_map (bs ! j) k = None"
  shows "chain_map (concat bs) k = chain_map (bs ! i) k"
  using assms
proof (induction bs arbitrary: i)
  case (Cons b bs)
  show ?case
  proof (cases i)
    case 0
    have "chain_map (concat bs) k = None"
      unfolding chain_map_concat_None
    proof (intro allI impI)
      fix j assume "j < length bs"
      then show "chain_map (bs ! j) k = None" using Cons.prems(2) [of "Suc j"] 0 by simp
    qed
    with 0 show ?thesis by (simp add: map_add_def split: option.splits)
  next
    case (Suc j)
    have "chain_map (concat bs) k = chain_map (bs ! j) k"
    proof (rule Cons.IH)
      show "j < length bs" using Cons.prems(1) Suc by simp
      fix l assume "l < length bs" "l \<noteq> j"
      then show "chain_map (bs ! l) k = None" using Cons.prems(2) [of "Suc l"] Suc by simp
    qed
    moreover have "chain_map b k = None" using Cons.prems(2) [of 0] Suc by simp
    ultimately show ?thesis using Suc by (simp add: map_add_def)
  qed
qed simp

lemma hash_wfD:
  assumes "hash_wf t"
  shows "0 < h_size t" "length (h_buckets t) = h_size t"
    "\<And>i. i < h_size t \<Longrightarrow> distinct (map n_key (h_buckets t ! i))"
    "\<And>i n. i < h_size t \<Longrightarrow> n \<in> set (h_buckets t ! i) \<Longrightarrow> bucket_of t (n_key n) = i"
    "\<And>i n. i < h_size t \<Longrightarrow> n \<in> set (h_buckets t ! i) \<Longrightarrow> n_key n = h_keyForData t (n_data n)"
  using assms unfolding hash_wf_def by blast+

lemma bucket_of_less: "0 < h_size t \<Longrightarrow> bucket_of t k < h_size t"
  by (simp add: bucket_of_def)

lemma hash_abs_bucket:
  assumes "hash_wf t"
  shows "hash_abs t k = chain_map (h_buckets t ! bucket_of t k) k"
proof -
  note w = hash_wfD [OF assms]
  show ?thesis unfolding hash_abs_def
  proof (rule map_of_concat_bucket)
    show "bucket_of t k < length (h_buckets t)" using bucket_of_less [OF w(1)] w(2) by simp
    fix j assume "j < length (h_buckets t)" "j \<noteq> bucket_of t k"
    then show "chain_map (h_buckets t ! j) k = None" using w(2) w(4) [of j] unfolding chain_map_None by auto
  qed
qed

lemma bucket_update_wf:
  assumes wf: "hash_wf t" and b: "b < h_size t" and d: "distinct (map n_key ns)"
    and n: "\<And>n. n \<in> set ns \<Longrightarrow> bucket_of t (n_key n) = b"
    and key: "\<And>n. n \<in> set ns \<Longrightarrow> n_key n = h_keyForData t (n_data n)"
  shows "hash_wf (t\<lparr>h_buckets := (h_buckets t)[b := ns]\<rparr>)"
    "hash_abs (t\<lparr>h_buckets := (h_buckets t)[b := ns]\<rparr>) k = (if bucket_of t k = b then chain_map ns k else hash_abs t k)"
proof -
  note w = hash_wfD [OF wf]
  let ?t = "t\<lparr>h_buckets := (h_buckets t)[b := ns]\<rparr>"
  have bo: "bucket_of ?t = bucket_of t" by (rule ext) (simp add: bucket_of_def)
  have each: "distinct (map n_key (h_buckets ?t ! i))
      \<and> (\<forall>n \<in> set (h_buckets ?t ! i). bucket_of t (n_key n) = i \<and> n_key n = h_keyForData t (n_data n))"
    if i: "i < h_size t" for i
  proof (cases "i = b")
    case True
    then have "h_buckets ?t ! i = ns" using i w(2) by simp
    then show ?thesis using d n key True by metis
  next
    case False
    then have "h_buckets ?t ! i = h_buckets t ! i" by simp
    then show ?thesis using w(3,4,5) i by metis
  qed
  have same: "h_size ?t = h_size t" "length (h_buckets ?t) = h_size t" "h_keyForData ?t = h_keyForData t"
    using w(2) by simp_all
  show wf': "hash_wf ?t" unfolding hash_wf_def bo same using w(1) each by blast
  show "hash_abs ?t k = (if bucket_of t k = b then chain_map ns k else hash_abs t k)"
    using hash_abs_bucket [OF wf', of k] hash_abs_bucket [OF wf, of k] w(2) b by (auto simp: bo)
qed

locale hash_keys =
  fixes cmp :: "nat \<Rightarrow> nat \<Rightarrow> bool"
  assumes cmp_eq: "cmp a b \<longleftrightarrow> a = b"
begin

lemma find_chain_map: "h_keyCmp t = cmp \<Longrightarrow> find_chain t k ns = chain_map ns k"
  by (induction ns) (auto simp: cmp_eq)

lemma find_abs: "h_keyCmp t = cmp \<Longrightarrow> hash_wf t \<Longrightarrow> HASH_find_key (Some t) k = hash_abs t k"
  by (simp add: HASH_find_key_def find_chain_map hash_abs_bucket)

lemma search_chain_Some:
  "h_keyCmp t = cmp \<Longrightarrow> search_chain t k ns = Some i \<Longrightarrow> i < length ns \<and> n_key (ns ! i) = k \<and> k \<noteq> 0"
  by (induction ns arbitrary: i) (auto simp: cmp_eq split: if_splits)

lemma search_chain_None: "h_keyCmp t = cmp \<Longrightarrow> search_chain t k ns = None \<longleftrightarrow> k = 0 \<or> chain_map ns k = None"
  by (induction ns) (auto simp: cmp_eq)

lemma add_abs:
  assumes cmp: "h_keyCmp t = cmp" and wf: "hash_wf t" and new: "hash_abs t (h_keyForData t d) = None"
    and r: "HASH_add_data True t (Some d) = (rc, t')"
  shows "rc = 0 \<and> hash_wf t' \<and> hash_abs t' = (hash_abs t)(h_keyForData t d \<mapsto> d)"
proof -
  let ?k = "h_keyForData t d" let ?b = "bucket_of t ?k"
  let ?n = "\<lparr>n_hash = h_hashFunc t ?k, n_key = ?k, n_data = d\<rparr>"
  note w = hash_wfD [OF wf]
  have b: "?b < h_size t" using bucket_of_less [OF w(1)] .
  have t': "rc = 0" "t' = t\<lparr>h_buckets := (h_buckets t)[?b := ?n # (h_buckets t ! ?b)]\<rparr>"
    using r find_abs [OF cmp wf, of ?k] new by (auto simp: HASH_add_data_def Let_def bucket_of_def)
  have fresh: "?k \<notin> n_key ` set (h_buckets t ! ?b)"
    using new hash_abs_bucket [OF wf, of ?k] by (simp add: chain_map_None)
  have u: "distinct (map n_key (?n # h_buckets t ! ?b))"
    "\<And>n. n \<in> set (?n # h_buckets t ! ?b) \<Longrightarrow> bucket_of t (n_key n) = ?b"
    "\<And>n. n \<in> set (?n # h_buckets t ! ?b) \<Longrightarrow> n_key n = h_keyForData t (n_data n)"
    subgoal using fresh w(3) [OF b] by simp
    subgoal for n using w(4) [OF b, of n] by auto
    subgoal for n using w(5) [OF b, of n] by auto
    done
  note bu = bucket_update_wf [OF wf b u]
  have "hash_abs t' k = ((hash_abs t)(?k \<mapsto> d)) k" for k
    using bu(2) [of k] hash_abs_bucket [OF wf, of k] by (auto simp: t')
  with bu(1) show ?thesis by (simp add: t' fun_eq_iff)
qed

lemma remove_abs:
  assumes cmp: "h_keyCmp t = cmp" and wf: "hash_wf t" and k: "k \<noteq> 0" and r: "HASH_remove_key_internal t k = (d, t')"
  shows "d = hash_abs t k \<and> hash_wf t' \<and> hash_abs t' = (hash_abs t)(k := None)"
proof -
  let ?b = "bucket_of t k" let ?ns = "h_buckets t ! ?b"
  note w = hash_wfD [OF wf]
  have b: "?b < h_size t" using bucket_of_less [OF w(1)] .
  show ?thesis
  proof (cases "HASH_search_internal t k")
    case None
    then have "hash_abs t k = None" using k hash_abs_bucket [OF wf] by (simp add: HASH_search_internal_def search_chain_None [OF cmp])
    with None r wf show ?thesis by (auto simp: HASH_remove_key_internal_def fun_eq_iff)
  next
    case (Some i)
    then have i: "i < length ?ns" "n_key (?ns ! i) = k"
      using search_chain_Some [OF cmp] by (auto simp: HASH_search_internal_def)
    have split: "?ns = take i ?ns @ ?ns ! i # drop (Suc i) ?ns" using id_take_nth_drop [OF i(1)] .
    have dist: "distinct (map n_key (take i ?ns @ ?ns ! i # drop (Suc i) ?ns))" using w(3) [OF b] split by simp
    let ?ns' = "take i ?ns @ drop (Suc i) ?ns"
    have t': "d = Some (n_data (?ns ! i))" "t' = t\<lparr>h_buckets := (h_buckets t)[?b := ?ns']\<rparr>"
      using r Some by (auto simp: HASH_remove_key_internal_def Let_def)
    have u: "distinct (map n_key ?ns')" using dist by auto
    have sub: "n \<in> set ?ns" if "n \<in> set ?ns'" for n
      using that by (auto dest: in_set_takeD in_set_dropD)
    note bu = bucket_update_wf [OF wf b u w(4) [OF b sub] w(5) [OF b sub]]
    have fresh: "chain_map (take i ?ns) k = None" "chain_map (drop (Suc i) ?ns) k = None"
      using dist i(2) by (auto simp: chain_map_None)
    have whole: "chain_map ?ns = (chain_map (drop (Suc i) ?ns))(k \<mapsto> n_data (?ns ! i)) ++ chain_map (take i ?ns)"
      using arg_cong [OF split, of chain_map] i(2) by simp
    have "hash_abs t' k' = ((hash_abs t)(k := None)) k'" for k'
      using bu(2) [of k'] hash_abs_bucket [OF wf, of k'] whole fresh
      by (auto simp: t' map_add_def split: option.splits)
    moreover have "d = hash_abs t k" using hash_abs_bucket [OF wf, of k] whole fresh by (simp add: t' map_add_def)
    ultimately show ?thesis using bu(1) t' by (simp add: fun_eq_iff)
  qed
qed

lemma remove_frame:
  "HASH_remove_key_internal t k = (d, t') \<Longrightarrow>
     h_keyCmp t' = h_keyCmp t \<and> h_size t' = h_size t \<and> h_hashFunc t' = h_hashFunc t \<and> h_keyForData t' = h_keyForData t"
  by (auto simp: HASH_remove_key_internal_def Let_def split: option.splits)

lemma remove_null_key:
  assumes "h_keyCmp t = cmp"
  shows "HASH_remove_key_internal t 0 = (None, t)"
proof -
  have "HASH_search_internal t 0 = None"
    using search_chain_None [OF assms] by (simp add: HASH_search_internal_def)
  then show ?thesis by (simp add: HASH_remove_key_internal_def)
qed

lemma remove_head:
  assumes cmp: "h_keyCmp t = cmp" and wf: "hash_wf t" and i: "i < h_size t"
    and b: "h_buckets t ! i = n # ns" and n: "n_key n \<noteq> 0"
  shows "HASH_remove_key_internal t (n_key n) = (Some (n_data n), t\<lparr>h_buckets := (h_buckets t)[i := ns]\<rparr>)"
proof -
  have "bucket_of t (n_key n) = i" using hash_wfD(4) [OF wf i, of n] b by simp
  then show ?thesis using b n cmp
    by (simp add: HASH_remove_key_internal_def HASH_search_internal_def cmp_eq)
qed

lemma extract_bucket_ok:
  assumes "h_keyCmp t = cmp" "hash_wf t" "i < h_size t" "\<forall>n \<in> set (h_buckets t ! i). n_key n \<noteq> 0"
    "length (h_buckets t ! i) \<le> fuel"
  shows "extract_bucket fuel i t
    = Some (map (Some \<circ> n_data) (h_buckets t ! i), t\<lparr>h_buckets := (h_buckets t)[i := []]\<rparr>)"
  using assms
proof (induction fuel arbitrary: t)
  case 0
  then have e: "h_buckets t ! i = []" by simp
  then have "(h_buckets t)[i := []] = h_buckets t" by (metis list_update_id)
  then show ?case using e by (simp add: extract_bucket.simps)
next
  case (Suc fuel)
  note w = hash_wfD [OF Suc.prems(2)]
  show ?case
  proof (cases "h_buckets t ! i")
    case Nil
    then have "(h_buckets t)[i := []] = h_buckets t" by (metis list_update_id)
    then show ?thesis using Nil by (simp add: extract_bucket.simps)
  next
    case (Cons n ns)
    let ?t = "t\<lparr>h_buckets := (h_buckets t)[i := ns]\<rparr>"
    have nz: "n_key n \<noteq> 0" using Suc.prems(4) Cons by simp
    have wf': "hash_wf ?t"
    proof (rule bucket_update_wf [OF Suc.prems(2,3)])
      show "distinct (map n_key ns)" using w(3) [OF Suc.prems(3)] Cons by simp
    next
      fix x assume "x \<in> set ns"
      then show "bucket_of t (n_key x) = i" "n_key x = h_keyForData t (n_data x)"
        using w(4,5) [OF Suc.prems(3), of x] Cons by simp_all
    qed
    have b: "h_buckets ?t ! i = ns" using w(2) Suc.prems(3) by simp
    have "extract_bucket fuel i ?t
        = Some (map (Some \<circ> n_data) (h_buckets ?t ! i), ?t\<lparr>h_buckets := (h_buckets ?t)[i := []]\<rparr>)"
      by (rule Suc.IH) (use Suc.prems Cons wf' b in auto)
    then show ?thesis using remove_head [OF Suc.prems(1,2,3) Cons nz] b Cons
      by (simp add: extract_bucket.simps [of "Suc fuel"])
  qed
qed

lemma extract_bucket_keeps:
  assumes "h_keyCmp t = cmp" "hash_wf t" "extract_bucket fuel i t = Some (ds, t')"
  shows "h_keyCmp t' = cmp \<and> hash_wf t' \<and> bucket_of t' = bucket_of t \<and> hash_abs t' 0 = hash_abs t 0
    \<and> h_buckets t' ! i = []"
  using assms
proof (induction fuel arbitrary: t ds)
  case 0
  then show ?case by (auto simp: extract_bucket.simps split: list.splits)
next
  case (Suc fuel)
  show ?case
  proof (cases "h_buckets t ! i")
    case Nil
    then show ?thesis using Suc.prems by (auto simp: extract_bucket.simps)
  next
    case (Cons n ns)
    obtain d t1 where r: "HASH_remove_key_internal t (n_key n) = (d, t1)" by fastforce
    have e: "extract_bucket fuel i t1 = Some (tl ds, t')"
      using Suc.prems(3) r Cons by (auto simp: extract_bucket.simps [of "Suc fuel"])
    have "hash_wf t1 \<and> hash_abs t1 0 = hash_abs t 0"
    proof (cases "n_key n = 0")
      case True
      then show ?thesis using r remove_null_key [OF Suc.prems(1)] Suc.prems(2) by simp
    next
      case False
      then show ?thesis using remove_abs [OF Suc.prems(1,2) False r] by simp
    qed
    moreover have "h_keyCmp t1 = cmp" "bucket_of t1 = bucket_of t"
      using remove_frame [OF r] Suc.prems(1) by (auto simp: bucket_of_def fun_eq_iff)
    ultimately show ?thesis using Suc.IH [OF _ _ e] by simp
  qed
qed

lemma extract_from_null_key:
  assumes "h_keyCmp t = cmp" "hash_wf t" "hash_abs t 0 \<noteq> None" "bucket_of t 0 \<in> set is"
  shows "extract_from fuel is t = None"
  using assms
proof (induction "is" arbitrary: t)
  case (Cons i "is")
  show ?case
  proof (cases "extract_bucket fuel i t")
    case (Some r)
    obtain ds t' where r: "r = (ds, t')" by fastforce
    note k = extract_bucket_keeps [OF Cons.prems(1,2) Some [unfolded r]]
    have "i \<noteq> bucket_of t 0"
    proof
      assume "i = bucket_of t 0"
      then have "hash_abs t' 0 = None" using k hash_abs_bucket [of t' 0] by simp
      then show False using k Cons.prems(3) by simp
    qed
    then have "extract_from fuel is t' = None" using Cons.IH [of t'] k Cons.prems(3,4) by simp
    then show ?thesis using Some r by simp
  qed simp
qed simp

lemma extract_from_ok:
  assumes "h_keyCmp t = cmp" "hash_wf t" "k \<le> h_size t"
    "\<And>b n. b \<in> set (drop k (h_buckets t)) \<Longrightarrow> n \<in> set b \<Longrightarrow> n_key n \<noteq> 0"
    "\<And>b. b \<in> set (drop k (h_buckets t)) \<Longrightarrow> length b \<le> fuel"
  shows "extract_from fuel [k ..< h_size t] t
    = Some (map (Some \<circ> n_data) (concat (drop k (h_buckets t))),
            t\<lparr>h_buckets := take k (h_buckets t) @ replicate (h_size t - k) []\<rparr>)"
  using assms
proof (induction "h_size t - k" arbitrary: k t)
  case 0
  then show ?case using hash_wfD(2) [of t] by simp
next
  case (Suc m)
  note w = hash_wfD [OF Suc.prems(2)]
  let ?bs = "h_buckets t" let ?t = "t\<lparr>h_buckets := ?bs[k := []]\<rparr>"
  have k: "k < h_size t" using Suc.hyps(2) by simp
  have dk: "drop k ?bs = ?bs ! k # drop (Suc k) ?bs" using k w(2) by (simp add: Cons_nth_drop_Suc)
  have d1: "drop (Suc k) (h_buckets ?t) = drop (Suc k) ?bs" by simp
  have e: "extract_bucket fuel k t = Some (map (Some \<circ> n_data) (?bs ! k), ?t)"
    by (rule extract_bucket_ok) (use Suc.prems k dk in auto)
  have wf': "hash_wf ?t" by (rule bucket_update_wf [OF Suc.prems(2) k]) simp_all
  have ih: "extract_from fuel [Suc k ..< h_size ?t] ?t
    = Some (map (Some \<circ> n_data) (concat (drop (Suc k) (h_buckets ?t))),
            ?t\<lparr>h_buckets := take (Suc k) (h_buckets ?t) @ replicate (h_size ?t - Suc k) []\<rparr>)"
    by (rule Suc.hyps(1)) (use Suc.hyps(2) Suc.prems k wf' dk in auto)
  have ta: "take (Suc k) (?bs[k := []]) = take k ?bs @ [[]]"
    using k w(2) by (simp add: take_Suc_conv_app_nth)
  have sz: "h_size t - k = Suc (h_size t - Suc k)" using k by simp
  have up: "[k ..< h_size t] = k # [Suc k ..< h_size t]" using k by (simp add: upt_conv_Cons)
  show ?case unfolding up using ih ta sz dk by (simp add: e)
qed

end

section \<open>Creation, iteration and the life cycle of a table\<close>

lemma create_ok:
  "HASH_create_table True n hf cmp kfd = Some t \<Longrightarrow> 0 < n \<Longrightarrow>
     hash_wf t \<and> hash_abs t = Map.empty \<and> h_keyCmp t = cmp \<and> h_keyForData t = kfd"
  by (auto simp: HASH_create_table_def hash_wf_def hash_abs_def concat_replicate_trivial)

lemma iterate_chain_stateless:
  "iterate_chain (\<lambda>d s. (p d, f d s)) ns s
     = (filter (\<lambda>n. \<not> p (n_data n)) ns, fold (\<lambda>n. f (n_data n)) ns s)"
  by (induction ns arbitrary: s) auto

lemma iterate_buckets_stateless:
  "iterate_buckets (\<lambda>d s. (p d, f d s)) bs s
     = (map (filter (\<lambda>n. \<not> p (n_data n))) bs, fold (\<lambda>n. f (n_data n)) (concat bs) s)"
  by (induction bs arbitrary: s) (auto simp: iterate_chain_stateless)

lemma chain_map_filter:
  assumes "distinct (map n_key ns)"
  shows "chain_map (filter (\<lambda>n. \<not> p (n_data n)) ns) k
    = (case chain_map ns k of None \<Rightarrow> None | Some d \<Rightarrow> if p d then None else Some d)"
  using assms
proof (induction ns)
  case (Cons n ns)
  have "chain_map ns (n_key n) = None" using Cons.prems by (simp add: chain_map_None)
  then show ?case using Cons by (auto split: option.splits)
qed simp

lemma filter_buckets_wf:
  assumes wf: "hash_wf t"
  shows "hash_wf (t\<lparr>h_buckets := map (filter (\<lambda>n. \<not> p (n_data n))) (h_buckets t)\<rparr>)"
    "hash_abs (t\<lparr>h_buckets := map (filter (\<lambda>n. \<not> p (n_data n))) (h_buckets t)\<rparr>) k
       = (case hash_abs t k of None \<Rightarrow> None | Some d \<Rightarrow> if p d then None else Some d)"
proof -
  note w = hash_wfD [OF wf]
  let ?t = "t\<lparr>h_buckets := map (filter (\<lambda>n. \<not> p (n_data n))) (h_buckets t)\<rparr>"
  have bo: "bucket_of ?t = bucket_of t" by (rule ext) (simp add: bucket_of_def)
  have b: "h_buckets ?t ! i = filter (\<lambda>n. \<not> p (n_data n)) (h_buckets t ! i)" if "i < h_size t" for i
    using that w(2) by simp
  have each: "distinct (map n_key (h_buckets ?t ! i))
      \<and> (\<forall>n \<in> set (h_buckets ?t ! i). bucket_of t (n_key n) = i \<and> n_key n = h_keyForData t (n_data n))"
    if i: "i < h_size t" for i
    unfolding b [OF i] using w(3) [OF i] w(4,5) [OF i] by (auto simp del: set_filter intro: distinct_map_filter) (metis filter_is_subset subsetD)+
  have same: "h_size ?t = h_size t" "length (h_buckets ?t) = h_size t" "h_keyForData ?t = h_keyForData t"
    using w(2) by simp_all
  show wf': "hash_wf ?t" unfolding hash_wf_def bo same using w(1) each by blast
  have bk: "bucket_of t k < h_size t" using bucket_of_less [OF w(1)] .
  show "hash_abs ?t k = (case hash_abs t k of None \<Rightarrow> None | Some d \<Rightarrow> if p d then None else Some d)"
    using hash_abs_bucket [OF wf', of k] hash_abs_bucket [OF wf, of k] chain_map_filter [OF w(3) [OF bk], of p k]
      b [OF bk] by (simp add: bo)
qed

lemma hash_abs_null_iff: "hash_abs t 0 = None \<longleftrightarrow> (\<forall>b \<in> set (h_buckets t). \<forall>n \<in> set b. n_key n \<noteq> 0)"
  by (force simp: hash_abs_def chain_map_None)

lemma hash_abs_node:
  assumes wf: "hash_wf t" and b: "b \<in> set (h_buckets t)" and n: "n \<in> set b"
  shows "hash_abs t (n_key n) = Some (n_data n)"
proof -
  note w = hash_wfD [OF wf]
  obtain i where i: "i < h_size t" "b = h_buckets t ! i" using b w(2) by (auto simp: in_set_conv_nth)
  have bi: "bucket_of t (n_key n) = i" using w(4) [OF i(1)] n i(2) by simp
  have "map_of (map (\<lambda>n. (n_key n, n_data n)) b) (n_key n) = Some (n_data n)"
    by (rule map_of_is_SomeI) (use w(3) [OF i(1)] n i(2) in \<open>auto simp: comp_def\<close>)
  then show ?thesis unfolding hash_abs_bucket [OF wf] bi i(2) by (simp add: chain_map_def)
qed

lemma hash_abs_SomeD:
  assumes "hash_abs t k = Some d"
  shows "\<exists>b \<in> set (h_buckets t). \<exists>n \<in> set b. n_key n = k \<and> n_data n = d"
  using map_of_SomeD [OF assms [unfolded hash_abs_def chain_map_def]] by auto

section \<open>Tables that are created on first use\<close>

text \<open>
  The clients of the table share one pattern: create the table when it is still \<open>NULL\<close>, then add.
  \<open>registry\<close> is the contract they rely on: what a lookup returns after such a registration, whatever
  the allocations do.
\<close>

definition reg_add ::
  "bool \<Rightarrow> bool \<Rightarrow> (nat \<Rightarrow> nat) \<Rightarrow> (nat \<Rightarrow> nat \<Rightarrow> bool) \<Rightarrow> ('d \<Rightarrow> nat) \<Rightarrow> 'd HashTable option \<Rightarrow> 'd \<Rightarrow> 'd HashTable option" where
  "reg_add okt okn hf cmp kfd ot d =
     (case (case ot of Some t \<Rightarrow> Some t | None \<Rightarrow> HASH_create_table okt 37 hf cmp kfd) of
        None \<Rightarrow> None
      | Some t \<Rightarrow> Some (snd (HASH_add_data okn t (Some d))))"

definition table_ok :: "(nat \<Rightarrow> nat \<Rightarrow> bool) \<Rightarrow> ('d \<Rightarrow> nat) \<Rightarrow> 'd HashTable option \<Rightarrow> bool" where
  "table_ok cmp kfd ot \<longleftrightarrow> (case ot of None \<Rightarrow> True | Some t \<Rightarrow> hash_wf t \<and> h_keyCmp t = cmp \<and> h_keyForData t = kfd)"

locale registry = hash_keys cmp for cmp :: "nat \<Rightarrow> nat \<Rightarrow> bool" +
  fixes hf :: "nat \<Rightarrow> nat" and kfd :: "'d \<Rightarrow> nat"
begin

lemma opt_okD: "table_ok cmp kfd (Some t) \<Longrightarrow> hash_wf t" "table_ok cmp kfd (Some t) \<Longrightarrow> h_keyCmp t = cmp" "table_ok cmp kfd (Some t) \<Longrightarrow> h_keyForData t = kfd"
  by (simp_all add: table_ok_def)

lemma opt_ok_None [simp]: "table_ok cmp kfd None"
  by (simp add: table_ok_def)

lemma find_None [simp]: "HASH_find_key None k = None"
  by (simp add: HASH_find_key_def)

lemma add_frame:
  "h_keyCmp (snd (HASH_add_data okn t d)) = h_keyCmp t" "h_keyForData (snd (HASH_add_data okn t d)) = h_keyForData t"
  by (auto simp: HASH_add_data_def Let_def split: option.splits)

lemma add_find:
  assumes ok: "table_ok cmp kfd (Some t)"
  shows "table_ok cmp kfd (Some (snd (HASH_add_data okn t (Some d))))"
    "HASH_find_key (Some (snd (HASH_add_data okn t (Some d)))) k
      = (case HASH_find_key (Some t) k of Some x \<Rightarrow> Some x | None \<Rightarrow> if okn \<and> kfd d = k then Some d else None)"
proof -
  note o = opt_okD [OF ok]
  let ?t' = "snd (HASH_add_data okn t (Some d))"
  have f: "HASH_find_key (Some t) j = hash_abs t j" for j by (rule find_abs [OF o(2,1)])
  have "table_ok cmp kfd (Some ?t') \<and> HASH_find_key (Some ?t') k
      = (case HASH_find_key (Some t) k of Some x \<Rightarrow> Some x | None \<Rightarrow> if okn \<and> kfd d = k then Some d else None)"
  proof (cases "okn \<and> hash_abs t (kfd d) = None")
    case True
    obtain rc where r: "HASH_add_data True t (Some d) = (rc, ?t')" using True by (metis eq_snd_iff)
    have a: "hash_wf ?t'" "hash_abs ?t' = (hash_abs t)(kfd d \<mapsto> d)"
      using add_abs [OF o(2,1) _ r] True o(3) by auto
    have c: "h_keyCmp ?t' = cmp" "h_keyForData ?t' = kfd" using o(2,3) by (simp_all only: add_frame)
    show ?thesis using find_abs [OF c(1) a(1)] a c True f
      by (auto simp: table_ok_def split: option.splits)
  next
    case False
    have "?t' = t" using False o(3) f by (auto simp: HASH_add_data_def Let_def)
    then show ?thesis using ok False f by (auto split: option.splits)
  qed
  then show "table_ok cmp kfd (Some ?t')" "HASH_find_key (Some ?t') k
      = (case HASH_find_key (Some t) k of Some x \<Rightarrow> Some x | None \<Rightarrow> if okn \<and> kfd d = k then Some d else None)"
    by auto
qed

lemma create_opt_ok:
  assumes "HASH_create_table okt 37 hf cmp kfd = Some t"
  shows "table_ok cmp kfd (Some t)" "HASH_find_key (Some t) k = None"
proof -
  have "okt" using assms by (auto simp: HASH_create_table_def split: if_splits)
  then have c: "hash_wf t \<and> hash_abs t = Map.empty \<and> h_keyCmp t = cmp \<and> h_keyForData t = kfd"
    using create_ok [of 37] assms by simp
  then show "table_ok cmp kfd (Some t)" "HASH_find_key (Some t) k = None"
    using find_abs [of t k] by (simp_all add: table_ok_def)
qed

lemma reg_add_find:
  assumes ok: "table_ok cmp kfd ot"
  shows "table_ok cmp kfd (reg_add okt okn hf cmp kfd ot d)"
    "HASH_find_key (reg_add okt okn hf cmp kfd ot d) k
      = (case HASH_find_key ot k of
           Some x \<Rightarrow> Some x
         | None \<Rightarrow> if (ot \<noteq> None \<or> okt) \<and> okn \<and> kfd d = k then Some d else None)"
proof -
  show "table_ok cmp kfd (reg_add okt okn hf cmp kfd ot d)"
    using ok add_find(1) create_opt_ok(1) by (auto simp: reg_add_def split: option.splits)
  show "HASH_find_key (reg_add okt okn hf cmp kfd ot d) k
      = (case HASH_find_key ot k of
           Some x \<Rightarrow> Some x
         | None \<Rightarrow> if (ot \<noteq> None \<or> okt) \<and> okn \<and> kfd d = k then Some d else None)"
  proof (cases ot)
    case (Some t)
    then show ?thesis using add_find(2) [of t] ok by (auto simp: reg_add_def split: option.splits)
  next
    case None
    show ?thesis
    proof (cases "HASH_create_table okt 37 hf cmp kfd")
      case (Some t)
      have okt using Some by (auto simp: HASH_create_table_def split: if_splits)
      then show ?thesis using Some add_find(2) [of t okn d k] create_opt_ok [OF Some] \<open>ot = None\<close>
        by (simp add: reg_add_def)
    qed (use None in \<open>simp add: reg_add_def HASH_create_table_def split: if_splits\<close>)
  qed
qed

lemma replace_find:
  assumes ok: "table_ok cmp kfd (Some t)" and nz: "kfd d \<noteq> 0" and r: "HASH_remove_key (Some t) (kfd d) = (x, Some t1)"
  shows "table_ok cmp kfd (Some (snd (HASH_add_data okn t1 (Some d))))"
    "HASH_find_key (Some (snd (HASH_add_data okn t1 (Some d)))) k
       = (if k = kfd d then (if okn then Some d else None) else HASH_find_key (Some t) k)"
proof -
  note o = opt_okD [OF ok]
  have r': "HASH_remove_key_internal t (kfd d) = (x, t1)"
    using r by (auto simp: HASH_remove_key_def split: prod.splits)
  note a = remove_abs [OF o(2,1) nz r']
  have ok1: "table_ok cmp kfd (Some t1)" using a remove_frame [OF r'] o by (simp add: table_ok_def)
  have f: "HASH_find_key (Some t1) j = ((hash_abs t)(kfd d := None)) j" for j
    using find_abs [OF opt_okD(2) [OF ok1] opt_okD(1) [OF ok1]] a by simp
  show "table_ok cmp kfd (Some (snd (HASH_add_data okn t1 (Some d))))" by (rule add_find(1) [OF ok1])
  show "HASH_find_key (Some (snd (HASH_add_data okn t1 (Some d)))) k
       = (if k = kfd d then (if okn then Some d else None) else HASH_find_key (Some t) k)"
    using add_find(2) [OF ok1, of okn d k] f find_abs [OF o(2,1), of k] by (auto split: option.splits)
qed

end

end
