(* ===== verification/Registry.thy ===== *)
theory Registry
  imports Hash_Table C_Text
begin

text \<open>
  The run-time registries built on the hash table: the structure definitions of \<open>xdr.c\<close>
  (\<open>structHash\<close>) and the commands, data-request commands and error descriptions of \<open>cmd.c\<close>
  (\<open>xdrCommandHash\<close>, \<open>xdrDatareqList\<close>, \<open>xdrErrorHash\<close>).

  The tables hold pointers to objects the application owns. The fields of such an object that
  the library only reads are a record with the object's address; the fields it writes
  (\<open>populate\<close>, \<open>print_func\<close>, \<open>parameter\<close>, \<open>handler\<close>) are in the registry state, by address.
  Arrays that end with a sentinel are lists, which end there at the latest. Callback pointers are
  natural numbers, 0 for \<open>NULL\<close>.
\<close>

section \<open>Structure definitions\<close>

record XDR_StructDefinition =
  sd_addr :: ptr
  sd_type :: u32
  sd_encoder :: nat
  sd_decoder :: nat

record XdrRegistry =
  structHash :: "XDR_StructDefinition HashTable option"
  sd_populate :: "ptr \<Rightarrow> nat \<times> nat"
  sd_print_func :: "ptr \<Rightarrow> nat"

definition xdr_struct_hash_func :: "nat \<Rightarrow> nat" where
  "xdr_struct_hash_func key = key"

definition xdr_struct_key_for_data :: "XDR_StructDefinition \<Rightarrow> nat" where
  "xdr_struct_key_for_data def = unat (sd_type def)"

definition xdr_struct_cmp_key :: "nat \<Rightarrow> nat \<Rightarrow> bool" where
  "xdr_struct_cmp_key k1 k2 \<longleftrightarrow> k1 = k2"

definition XDR_cleanup :: "XdrRegistry \<Rightarrow> XdrRegistry" where
  "XDR_cleanup r = r\<lparr>structHash := None\<rparr>"

text \<open>\<open>okt\<close> and \<open>okn\<close> are the outcomes of the allocations of the table and of the node.\<close>

definition XDR_register_struct ::
  "bool \<Rightarrow> bool \<Rightarrow> XDR_StructDefinition option \<Rightarrow> XdrRegistry \<Rightarrow> XdrRegistry" where
  "XDR_register_struct okt okn def r =
     (case def of
        None \<Rightarrow> r
      | Some d \<Rightarrow>
          (case (case structHash r of
                   Some t \<Rightarrow> Some t
                 | None \<Rightarrow> HASH_create_table okt 37 xdr_struct_hash_func xdr_struct_cmp_key xdr_struct_key_for_data) of
             None \<Rightarrow> r
           | Some t \<Rightarrow> r\<lparr>structHash := Some (snd (HASH_add_data okn t (Some d)))\<rparr>))"

fun XDR_register_structs ::
  "(XDR_StructDefinition \<Rightarrow> bool \<times> bool) \<Rightarrow> XDR_StructDefinition list \<Rightarrow> XdrRegistry \<Rightarrow> XdrRegistry" where
  "XDR_register_structs alloc [] r = r"
| "XDR_register_structs alloc (d # ds) r =
     (if sd_type d \<noteq> 0 \<and> sd_encoder d \<noteq> 0 \<and> sd_decoder d \<noteq> 0
      then XDR_register_structs alloc ds (XDR_register_struct (fst (alloc d)) (snd (alloc d)) (Some d) r)
      else r)"

definition XDR_definition_for_type :: "XdrRegistry \<Rightarrow> u32 \<Rightarrow> XDR_StructDefinition option" where
  "XDR_definition_for_type r type =
     (case structHash r of None \<Rightarrow> None | Some t \<Rightarrow> HASH_find_key (Some t) (unat type))"

definition XDR_register_populator :: "nat \<Rightarrow> nat \<Rightarrow> u32 \<Rightarrow> XdrRegistry \<Rightarrow> XdrRegistry" where
  "XDR_register_populator cb arg type r =
     (case XDR_definition_for_type r type of
        None \<Rightarrow> r
      | Some d \<Rightarrow> r\<lparr>sd_populate := (sd_populate r)(sd_addr d := (cb, arg))\<rparr>)"

definition XDR_replace_populator :: "nat \<Rightarrow> nat \<Rightarrow> u32 \<Rightarrow> XdrRegistry \<Rightarrow> (nat \<times> nat) \<times> XdrRegistry" where
  "XDR_replace_populator cb arg type r =
     (case XDR_definition_for_type r type of
        None \<Rightarrow> ((0, 0), r)
      | Some d \<Rightarrow> (sd_populate r (sd_addr d), r\<lparr>sd_populate := (sd_populate r)(sd_addr d := (cb, arg))\<rparr>))"

definition XDR_set_struct_print_function :: "nat \<Rightarrow> u32 \<Rightarrow> XdrRegistry \<Rightarrow> XdrRegistry" where
  "XDR_set_struct_print_function func type r =
     (case XDR_definition_for_type r type of
        None \<Rightarrow> r
      | Some d \<Rightarrow> r\<lparr>sd_print_func := (sd_print_func r)(sd_addr d := func)\<rparr>)"

section \<open>Commands and errors\<close>

record CMD_XDRCommandInfo =
  ci_addr :: ptr
  ci_command :: u32
  ci_params :: u32
  ci_name :: "string option"
  ci_types :: "u32 list option"

record CMD_ErrorInfo =
  ei_id :: u32
  ei_name :: "string option"
  ei_description :: "string option"

record CmdRegistry =
  xdrCommandHash :: "CMD_XDRCommandInfo HashTable option"
  xdrDatareqList :: "CMD_XDRCommandInfo list"
  xdrErrorHash :: "CMD_ErrorInfo HashTable option"
  cleanup_reg :: bool
  ci_parameter :: "ptr \<Rightarrow> XDR_StructDefinition option"
  ci_handler :: "ptr \<Rightarrow> nat \<times> nat"

definition xdr_cmd_hash_func :: "nat \<Rightarrow> nat" where
  "xdr_cmd_hash_func key = key"

definition xdr_cmd_key_for_data :: "CMD_XDRCommandInfo \<Rightarrow> nat" where
  "xdr_cmd_key_for_data c = unat (ci_command c)"

definition xdr_cmd_cmp_key :: "nat \<Rightarrow> nat \<Rightarrow> bool" where
  "xdr_cmd_cmp_key k1 k2 \<longleftrightarrow> k1 = k2"

definition xdr_err_hash_func :: "nat \<Rightarrow> nat" where
  "xdr_err_hash_func key = key"

definition xdr_err_key_for_data :: "CMD_ErrorInfo \<Rightarrow> nat" where
  "xdr_err_key_for_data e = unat (ei_id e)"

definition xdr_err_cmp_key :: "nat \<Rightarrow> nat \<Rightarrow> bool" where
  "xdr_err_cmp_key k1 k2 \<longleftrightarrow> k1 = k2"

definition CMD_hash_cleanup :: "CmdRegistry \<Rightarrow> CmdRegistry" where
  "CMD_hash_cleanup r = r\<lparr>cleanup_reg := False, xdrCommandHash := None, xdrErrorHash := None, xdrDatareqList := []\<rparr>"

definition set_parameter :: "XdrRegistry \<Rightarrow> CMD_XDRCommandInfo \<Rightarrow> CmdRegistry \<Rightarrow> CmdRegistry" where
  "set_parameter xr c r =
     (if ci_params c \<noteq> 0
      then r\<lparr>ci_parameter := (ci_parameter r)(ci_addr c := XDR_definition_for_type xr (ci_params c))\<rparr>
      else r)"

definition CMD_register_command ::
  "bool \<Rightarrow> bool \<Rightarrow> XdrRegistry \<Rightarrow> CMD_XDRCommandInfo option \<Rightarrow> bool \<Rightarrow> CmdRegistry \<Rightarrow> CmdRegistry" where
  "CMD_register_command okt okn xr cmd override r0 =
     (case cmd of
        None \<Rightarrow> r0
      | Some c \<Rightarrow>
          if ci_command c \<noteq> 0 then
            let r1 = (if xdrCommandHash r0 = None
                      then r0\<lparr>cleanup_reg := True,
                              xdrCommandHash := HASH_create_table okt 37 xdr_cmd_hash_func xdr_cmd_cmp_key xdr_cmd_key_for_data\<rparr>
                      else r0)
            in (case xdrCommandHash r1 of
                  None \<Rightarrow> r1
                | Some table \<Rightarrow>
                    let r2 = set_parameter xr c r1; key = unat (ci_command c) in
                    if HASH_find_key (Some table) key \<noteq> None then
                      if override then
                        (case HASH_remove_key (Some table) key of
                           (_, Some t1) \<Rightarrow> r2\<lparr>xdrCommandHash := Some (snd (HASH_add_data okn t1 (Some c)))\<rparr>
                         | (_, None) \<Rightarrow> r2)
                      else r2
                    else r2\<lparr>xdrCommandHash := Some (snd (HASH_add_data okn table (Some c)))\<rparr>)
          else if ci_types c \<noteq> None then
            let r1 = r0\<lparr>cleanup_reg := True\<rparr> in
            if \<not> okn then r1
            else set_parameter xr c (r1\<lparr>xdrDatareqList := c # xdrDatareqList r1\<rparr>)
          else r0)"

fun CMD_register_commands ::
  "(CMD_XDRCommandInfo \<Rightarrow> bool \<times> bool) \<Rightarrow> XdrRegistry \<Rightarrow> CMD_XDRCommandInfo list \<Rightarrow> bool \<Rightarrow> CmdRegistry \<Rightarrow> CmdRegistry" where
  "CMD_register_commands alloc xr [] override r = r"
| "CMD_register_commands alloc xr (c # cs) override r =
     (if ci_command c \<noteq> 0 \<or> ci_types c \<noteq> None
      then CMD_register_commands alloc xr cs override
             (CMD_register_command (fst (alloc c)) (snd (alloc c)) xr (Some c) override r)
      else r)"

definition CMD_register_error :: "bool \<Rightarrow> bool \<Rightarrow> CMD_ErrorInfo option \<Rightarrow> CmdRegistry \<Rightarrow> CmdRegistry" where
  "CMD_register_error okt okn err r =
     (case err of
        None \<Rightarrow> r
      | Some e \<Rightarrow>
          let r1 = (if xdrErrorHash r = None
                    then r\<lparr>cleanup_reg := True,
                           xdrErrorHash := HASH_create_table okt 37 xdr_err_hash_func xdr_err_cmp_key xdr_err_key_for_data\<rparr>
                    else r)
          in (case xdrErrorHash r1 of
                None \<Rightarrow> r1
              | Some t \<Rightarrow> r1\<lparr>xdrErrorHash := Some (snd (HASH_add_data okn t (Some e)))\<rparr>))"

fun CMD_register_errors ::
  "(CMD_ErrorInfo \<Rightarrow> bool \<times> bool) \<Rightarrow> CMD_ErrorInfo list \<Rightarrow> CmdRegistry \<Rightarrow> CmdRegistry" where
  "CMD_register_errors alloc [] r = r"
| "CMD_register_errors alloc (e # es) r =
     (if ei_id e > 0
      then CMD_register_errors alloc es (CMD_register_error (fst (alloc e)) (snd (alloc e)) (Some e) r)
      else r)"

definition CMD_error_message :: "CmdRegistry \<Rightarrow> u32 \<Rightarrow> string" where
  "CMD_error_message r i =
     (case xdrErrorHash r of
        None \<Rightarrow> ''''
      | Some t \<Rightarrow>
          (case HASH_find_key (Some t) (unat i) of
             None \<Rightarrow> ''''
           | Some e \<Rightarrow>
               (case ei_description e of
                  Some d \<Rightarrow> d
                | None \<Rightarrow> (case ei_name e of Some n \<Rightarrow> n | None \<Rightarrow> ''''))))"

definition CMD_xdr_cmd_by_number :: "CmdRegistry \<Rightarrow> u32 \<Rightarrow> CMD_XDRCommandInfo option" where
  "CMD_xdr_cmd_by_number r num =
     (case xdrCommandHash r of None \<Rightarrow> None | Some t \<Rightarrow> HASH_find_key (Some t) (unat num))"

definition CMD_set_xdr_cmd_handler :: "u32 \<Rightarrow> nat \<Rightarrow> nat \<Rightarrow> CmdRegistry \<Rightarrow> CmdRegistry" where
  "CMD_set_xdr_cmd_handler num cb arg r =
     (case CMD_xdr_cmd_by_number r num of
        None \<Rightarrow> r
      | Some c \<Rightarrow> r\<lparr>ci_handler := (ci_handler r)(ci_addr c := (cb, arg))\<rparr>)"

definition cmd_hash_by_name ::
  "string \<Rightarrow> CMD_XDRCommandInfo \<Rightarrow> CMD_XDRCommandInfo option \<Rightarrow> bool \<times> CMD_XDRCommandInfo option" where
  "cmd_hash_by_name name c result =
     (False, case ci_name c of Some n \<Rightarrow> if strcaseeq n name then Some c else result | None \<Rightarrow> result)"

text \<open>
  The scan of the data-request list compares \<open>itr->cmd->name\<close> without a check for \<open>NULL\<close>;
  the result \<open>None\<close> is that fault, \<open>Some r\<close> the pointer returned.
\<close>

fun datareq_by_name ::
  "string \<Rightarrow> CMD_XDRCommandInfo list \<Rightarrow> CMD_XDRCommandInfo option \<Rightarrow> CMD_XDRCommandInfo option option" where
  "datareq_by_name name [] result = Some result"
| "datareq_by_name name (c # cs) result =
     (if result \<noteq> None then Some result
      else (case ci_name c of
              None \<Rightarrow> None
            | Some n \<Rightarrow> datareq_by_name name cs (if strcaseeq n name then Some c else result)))"

definition CMD_xdr_cmd_by_name :: "CmdRegistry \<Rightarrow> string \<Rightarrow> CMD_XDRCommandInfo option option" where
  "CMD_xdr_cmd_by_name r name =
     datareq_by_name name (xdrDatareqList r)
       (case xdrCommandHash r of
          None \<Rightarrow> None
        | Some t \<Rightarrow> snd (HASH_iterate_arg_table (Some t) (cmd_hash_by_name name) None))"

end
