(* ===== verification/Registry_Correct.thy ===== *)
theory Registry_Correct
  imports Registry
begin

text \<open>
  Correctness of the hash table and of the registries on it. The comparison callbacks of the
  three tables of the library are interpreted in \<open>registry\<close>; the hash table itself is shown to
  implement a finite map for every table whose keys compare by equality.
\<close>

interpretation eqk: hash_keys "(=)"
  by unfold_locales simp

interpretation structs: registry xdr_struct_cmp_key xdr_struct_hash_func xdr_struct_key_for_data
  by unfold_locales (simp add: xdr_struct_cmp_key_def)

interpretation cmds: registry xdr_cmd_cmp_key xdr_cmd_hash_func xdr_cmd_key_for_data
  by unfold_locales (simp add: xdr_cmd_cmp_key_def)

interpretation errs: registry xdr_err_cmp_key xdr_err_hash_func xdr_err_key_for_data
  by unfold_locales (simp add: xdr_err_cmp_key_def)

section \<open>The hash table\<close>

lemma all_less_3: "(\<forall>i < (3::nat). P i) \<longleftrightarrow> P 0 \<and> P 1 \<and> P 2"
  by (auto simp: numeral_3_eq_3 numeral_2_eq_2 less_Suc_eq)

lemma unat_eq: "unat a = unat b \<longleftrightarrow> a = b"
  by (metis unsigned_word_eqI)

definition ex_table :: "nat HashTable" where
  "ex_table = \<lparr>h_size = 3, h_hashFunc = id, h_keyCmp = (=), h_keyForData = id,
               h_buckets = [[], [\<lparr>n_hash = 4, n_key = 4, n_data = 4\<rparr>, \<lparr>n_hash = 1, n_key = 1, n_data = 1\<rparr>], []]\<rparr>"

definition ex_null_table :: "nat HashTable" where
  "ex_null_table = ex_table\<lparr>h_buckets := [[\<lparr>n_hash = 0, n_key = 0, n_data = 0\<rparr>], [], []]\<rparr>"

lemma ex_table_wf: "hash_wf ex_table" "hash_wf ex_null_table"
  by (simp_all add: hash_wf_def ex_null_table_def ex_table_def bucket_of_def all_less_3)



text \<open>\<open>HASH_remove_key\<close> implements deletion from the finite map: it returns the data stored
  under the key (\<open>NULL\<close> if there is none) and afterwards exactly that key is unbound. The one
  exception is the \<open>NULL\<close> key, for which the table is left as it is and \<open>NULL\<close> is returned even
  when an entry is stored under it.\<close>

theorem hash_remove_refines:
  assumes wf: "hash_wf t" and cmp: "h_keyCmp t = (=)"
    and r: "HASH_remove_key (Some t) k = (x, ot)"
  shows "\<exists>t'. ot = Some t' \<and> hash_wf t' \<and> h_keyCmp t' = (=)
    \<and> (if k = 0 then x = None \<and> t' = t
       else x = hash_abs t k \<and> (\<forall>j. HASH_find_key (Some t') j = ((hash_abs t)(k := None)) j))"
proof -
  obtain t' where r': "HASH_remove_key_internal t k = (x, t')" and ot: "ot = Some t'"
    using r by (auto simp: HASH_remove_key_def split: prod.splits)
  have c: "h_keyCmp t' = (=)" using eqk.remove_frame [OF r'] cmp by simp
  show ?thesis
  proof (cases "k = 0")
    case True
    then show ?thesis using eqk.remove_null_key [OF cmp] r' ot wf cmp by simp
  next
    case False
    then show ?thesis using eqk.remove_abs [OF cmp wf False r'] eqk.find_abs [OF c] c ot by simp
  qed
qed

theorem hash_remove_refines_witness:
  "HASH_remove_key (Some ex_table) 1 = (Some 1, snd (HASH_remove_key (Some ex_table) 1))
   \<and> (\<exists>t'. snd (HASH_remove_key (Some ex_table) 1) = Some t' \<and> hash_wf t' \<and> HASH_find_key (Some t') 1 = None)"
proof -
  have e: "HASH_remove_key (Some ex_table) 1 = (Some 1, snd (HASH_remove_key (Some ex_table) 1))"
    by (simp add: ex_table_def HASH_remove_key_def HASH_remove_key_internal_def HASH_search_internal_def bucket_of_def split: prod.splits)
  have c: "h_keyCmp ex_table = (=)" by (simp add: ex_table_def)
  from hash_remove_refines [OF ex_table_wf(1) c e] e show ?thesis by auto
qed

text \<open>\<open>HASH_extract\<close> ends on every table without a \<open>NULL\<close> key, as soon as the fuel covers the
  longest bucket: it hands every stored datum to the extractor exactly once, bucket by bucket, and
  leaves all buckets empty.\<close>

theorem hash_extract_drains:
  assumes wf: "hash_wf t" and cmp: "h_keyCmp t = (=)" and nn: "hash_abs t 0 = None"
    and fuel: "\<forall>b \<in> set (h_buckets t). length b \<le> fuel"
  shows "HASH_extract fuel (Some t)
    = Some (map (Some \<circ> n_data) (concat (h_buckets t)), Some (t\<lparr>h_buckets := replicate (h_size t) []\<rparr>))"
  using eqk.extract_from_ok [OF cmp wf, of 0 fuel] nn fuel
  by (simp add: HASH_extract_def hash_abs_null_iff)

theorem hash_extract_drains_witness:
  "HASH_extract 2 (Some ex_table) = Some ([Some 4, Some 1], Some (ex_table\<lparr>h_buckets := [[], [], []]\<rparr>))"
proof -
  have "h_keyCmp ex_table = (=)" "hash_abs ex_table 0 = None" "\<forall>b \<in> set (h_buckets ex_table). length b \<le> 2"
    by (simp_all add: ex_table_def hash_abs_null_iff)
  from hash_extract_drains [OF ex_table_wf(1) this] show ?thesis
    by (simp add: ex_table_def numeral_3_eq_3)
qed

text \<open>When an entry is stored under the \<open>NULL\<close> key, \<open>HASH_extract\<close> does not end: no amount of
  fuel lets the loop of the source return.\<close>

theorem hash_extract_null_key_diverges:
  assumes wf: "hash_wf t" and cmp: "h_keyCmp t = (=)" and nn: "hash_abs t 0 \<noteq> None"
  shows "HASH_extract fuel (Some t) = None"
  using eqk.extract_from_null_key [OF cmp wf nn, of "[0 ..< h_size t]" fuel] bucket_of_less [OF hash_wfD(1) [OF wf]]
  by (simp add: HASH_extract_def)

theorem hash_extract_null_key_diverges_witness: "\<forall>fuel. HASH_extract fuel (Some ex_null_table) = None"
proof
  fix fuel
  have "h_keyCmp ex_null_table = (=)" "hash_abs ex_null_table 0 \<noteq> None"
    by (simp_all add: ex_null_table_def ex_table_def hash_abs_def)
  from hash_extract_null_key_diverges [OF ex_table_wf(2) this]
  show "HASH_extract fuel (Some ex_null_table) = None" .
qed


section \<open>The registries\<close>

definition valid_def :: "XDR_StructDefinition \<Rightarrow> bool" where
  "valid_def d \<longleftrightarrow> sd_type d \<noteq> 0 \<and> sd_encoder d \<noteq> 0 \<and> sd_decoder d \<noteq> 0"

definition structs_ok :: "XdrRegistry \<Rightarrow> bool" where
  "structs_ok r \<longleftrightarrow> table_ok xdr_struct_cmp_key xdr_struct_key_for_data (structHash r)"

definition cmds_ok :: "CmdRegistry \<Rightarrow> bool" where
  "cmds_ok r \<longleftrightarrow> table_ok xdr_cmd_cmp_key xdr_cmd_key_for_data (xdrCommandHash r)"

lemma definition_for_type_find: "XDR_definition_for_type r ty = HASH_find_key (structHash r) (unat ty)"
  by (simp add: XDR_definition_for_type_def HASH_find_key_def split: option.splits)

lemma cmd_by_number_find: "CMD_xdr_cmd_by_number r n = HASH_find_key (xdrCommandHash r) (unat n)"
  by (simp add: CMD_xdr_cmd_by_number_def HASH_find_key_def split: option.splits)

lemma register_struct_hash:
  "structHash (XDR_register_struct okt okn (Some d) r)
     = reg_add okt okn xdr_struct_hash_func xdr_struct_cmp_key xdr_struct_key_for_data (structHash r) d"
  by (auto simp: XDR_register_struct_def reg_add_def split: option.splits)

lemma register_struct_lookup:
  assumes "structs_ok r"
  shows "structs_ok (XDR_register_struct True True (Some d) r)"
    "XDR_definition_for_type (XDR_register_struct True True (Some d) r) ty
       = (case XDR_definition_for_type r ty of Some x \<Rightarrow> Some x | None \<Rightarrow> if sd_type d = ty then Some d else None)"
  using assms structs.reg_add_find [of "structHash r" True True d]
  by (auto simp: structs_ok_def definition_for_type_find register_struct_hash xdr_struct_key_for_data_def unat_eq
      split: option.splits)

text \<open>Registering an array of structure definitions makes \<open>XDR_definition_for_type\<close> answer, for
  every type, with the definition registered first: one that was there before the call, otherwise the
  first one in the array that carries the type and stands before the sentinel entry.\<close>

theorem register_structs_lookup:
  assumes "structs_ok r" and "\<forall>d \<in> set ds. alloc d = (True, True)"
  shows "structs_ok (XDR_register_structs alloc ds r)
    \<and> XDR_definition_for_type (XDR_register_structs alloc ds r) ty
       = (case XDR_definition_for_type r ty of
            Some x \<Rightarrow> Some x
          | None \<Rightarrow> find (\<lambda>d. sd_type d = ty) (takeWhile valid_def ds))"
  using assms
proof (induction ds arbitrary: r)
  case (Cons d ds)
  show ?case
  proof (cases "valid_def d")
    case True
    note s = register_struct_lookup [OF Cons.prems(1), of d]
    note ih = Cons.IH [OF s(1)]
    show ?thesis using True ih Cons.prems(2) s(2) [of ty]
      by (auto simp: valid_def_def split: option.splits if_splits)
  next
    case False
    then show ?thesis using Cons.prems(1) by (auto simp: valid_def_def split: option.splits)
  qed
qed (simp split: option.splits)

definition ex_def :: "u32 \<Rightarrow> XDR_StructDefinition" where
  "ex_def ty = \<lparr>sd_addr = 16, sd_type = ty, sd_encoder = 1, sd_decoder = 1\<rparr>"

definition ex_xreg :: XdrRegistry where
  "ex_xreg = \<lparr>structHash = None, sd_populate = (\<lambda>_. (0, 0)), sd_print_func = (\<lambda>_. 0)\<rparr>"

theorem register_structs_lookup_witness:
  "XDR_definition_for_type (XDR_register_structs (\<lambda>_. (True, True)) [ex_def 5, ex_def 42, ex_def 0, ex_def 9] ex_xreg) 42
     = Some (ex_def 42)"
proof -
  have ok: "structs_ok ex_xreg" by (simp add: structs_ok_def ex_xreg_def)
  have "XDR_definition_for_type ex_xreg 42 = None" by (simp add: ex_xreg_def XDR_definition_for_type_def)
  with register_structs_lookup [OF ok, of "[ex_def 5, ex_def 42, ex_def 0, ex_def 9]" "\<lambda>_. (True, True)" 42]
  show ?thesis by (simp add: ex_def_def valid_def_def)
qed

lemma register_command_hash:
  assumes "ci_command c \<noteq> 0"
  shows "xdrCommandHash (CMD_register_command okt okn xr (Some c) override r) =
    (case (if xdrCommandHash r = None
           then HASH_create_table okt 37 xdr_cmd_hash_func xdr_cmd_cmp_key xdr_cmd_key_for_data else xdrCommandHash r) of
       None \<Rightarrow> None
     | Some t \<Rightarrow>
         if HASH_find_key (Some t) (unat (ci_command c)) \<noteq> None \<and> override
         then (case HASH_remove_key (Some t) (unat (ci_command c)) of
                 (_, Some t1) \<Rightarrow> Some (snd (HASH_add_data okn t1 (Some c))) | (_, None) \<Rightarrow> Some t)
         else if HASH_find_key (Some t) (unat (ci_command c)) \<noteq> None then Some t
         else Some (snd (HASH_add_data okn t (Some c))))"
  using assms
  by (auto simp: CMD_register_command_def Let_def set_parameter_def split: option.splits prod.splits)

lemma remove_key_Some: "\<exists>x t1. HASH_remove_key (Some t) k = (x, Some t1)"
  by (simp add: HASH_remove_key_def split: prod.splits)

text \<open>C9: registering a numbered command binds its number to it when the number is free or the
  caller asks to override; otherwise the earlier command stays. No other number is affected, and
  the data-request list is left alone.\<close>

theorem register_command_lookup:
  assumes ok: "cmds_ok r" and c: "ci_command c \<noteq> 0"
  shows "cmds_ok (CMD_register_command True True xr (Some c) override r)
    \<and> CMD_xdr_cmd_by_number (CMD_register_command True True xr (Some c) override r) n
       = (if n = ci_command c \<and> (override \<or> CMD_xdr_cmd_by_number r n = None) then Some c
          else CMD_xdr_cmd_by_number r n)
    \<and> xdrDatareqList (CMD_register_command True True xr (Some c) override r) = xdrDatareqList r"
proof -
  let ?r = "CMD_register_command True True xr (Some c) override r" let ?k = "unat (ci_command c)"
  obtain t where t: "(if xdrCommandHash r = None
      then HASH_create_table True 37 xdr_cmd_hash_func xdr_cmd_cmp_key xdr_cmd_key_for_data else xdrCommandHash r) = Some t"
    by (cases "xdrCommandHash r") (auto simp: HASH_create_table_def)
  have tok: "table_ok xdr_cmd_cmp_key xdr_cmd_key_for_data (Some t)"
    using t ok cmds.create_opt_ok(1) [of True t] by (auto simp: cmds_ok_def split: if_splits)
  have tf: "HASH_find_key (Some t) k = HASH_find_key (xdrCommandHash r) k" for k
    using t cmds.create_opt_ok(2) [of True t k] by (auto split: if_splits)
  have kc: "xdr_cmd_key_for_data c = ?k" "?k \<noteq> 0" using c by (simp_all add: xdr_cmd_key_for_data_def unat_eq_0)
  obtain x t1 where rm: "HASH_remove_key (Some t) ?k = (x, Some t1)" using remove_key_Some by metis
  note h = register_command_hash [OF c, of True True xr override r, unfolded t]
  note rep = cmds.replace_find [OF tok, of c x t1 True, unfolded kc(1), OF kc(2) rm]
  note add = cmds.add_find [OF tok, of True c, unfolded kc(1)]
  have uk: "unat n = ?k \<longleftrightarrow> n = ci_command c" by (simp add: unat_eq)
  have "cmds_ok ?r" using h tok rep(1) add(1) rm by (auto simp: cmds_ok_def)
  moreover have "HASH_find_key (xdrCommandHash ?r) (unat n)
       = (if n = ci_command c \<and> (override \<or> HASH_find_key (Some t) (unat n) = None) then Some c
          else HASH_find_key (Some t) (unat n))"
  proof (cases "n = ci_command c")
    case True
    then show ?thesis using h rep(2) [of "unat n"] add(2) [of "unat n"] rm by (auto split: option.splits)
  next
    case False
    then show ?thesis using h rep(2) [of "unat n"] add(2) [of "unat n"] rm uk by (auto split: option.splits)
  qed
  then have "CMD_xdr_cmd_by_number ?r n
       = (if n = ci_command c \<and> (override \<or> CMD_xdr_cmd_by_number r n = None) then Some c
          else CMD_xdr_cmd_by_number r n)"
    unfolding cmd_by_number_find tf .
  moreover have "xdrDatareqList ?r = xdrDatareqList r"
    using c by (auto simp: CMD_register_command_def Let_def set_parameter_def split: option.splits prod.splits)
  ultimately show ?thesis by blast
qed

definition ex_cmd :: "u32 \<Rightarrow> string \<Rightarrow> CMD_XDRCommandInfo" where
  "ex_cmd n nm = \<lparr>ci_addr = 8, ci_command = n, ci_params = 0, ci_name = Some nm, ci_types = Some []\<rparr>"

definition ex_creg :: CmdRegistry where
  "ex_creg = \<lparr>xdrCommandHash = None, xdrDatareqList = [ex_cmd 0 ''status''], xdrErrorHash = None, cleanup_reg = False,
              ci_parameter = (\<lambda>_. None), ci_handler = (\<lambda>_. (0, 0))\<rparr>"

theorem register_command_lookup_witness:
  "CMD_xdr_cmd_by_number (CMD_register_command True True ex_xreg (Some (ex_cmd 7 ''ping'')) False ex_creg) 7
     = Some (ex_cmd 7 ''ping'')"
proof -
  have ok: "cmds_ok ex_creg" by (simp add: cmds_ok_def ex_creg_def)
  have c: "ci_command (ex_cmd 7 ''ping'') \<noteq> 0" by (simp add: ex_cmd_def)
  have "CMD_xdr_cmd_by_number ex_creg 7 = None" by (simp add: ex_creg_def CMD_xdr_cmd_by_number_def)
  with register_command_lookup [OF ok c, of ex_xreg False 7] show ?thesis by (simp add: ex_cmd_def)
qed


definition named :: "string \<Rightarrow> CMD_XDRCommandInfo \<Rightarrow> bool" where
  "named name c \<longleftrightarrow> (case ci_name c of None \<Rightarrow> False | Some n \<Rightarrow> strcaseeq n name)"

lemma cmd_hash_by_name_named:
  "cmd_hash_by_name name = (\<lambda>c res. (False, if named name c then Some c else res))"
  by (auto simp: cmd_hash_by_name_def named_def fun_eq_iff split: option.splits)

lemma fold_last_match:
  "fold (\<lambda>n res. if P (f n) then Some (f n) else res) ns init
     = (case filter P (map f ns) of [] \<Rightarrow> init | _ \<Rightarrow> Some (last (filter P (map f ns))))"
  by (induction ns arbitrary: init) (auto split: list.splits)

lemma hash_pass_by_name:
  "snd (HASH_iterate_arg_table (Some t) (cmd_hash_by_name name) None)
     = (case filter (named name) (map n_data (concat (h_buckets t))) of
          [] \<Rightarrow> None | _ \<Rightarrow> Some (last (filter (named name) (map n_data (concat (h_buckets t))))))"
  unfolding cmd_hash_by_name_named HASH_iterate_arg_table_def
  using iterate_buckets_stateless [of "\<lambda>_. False" "\<lambda>c res. if named name c then Some c else res" "h_buckets t" None]
    fold_last_match [of "named name" n_data "concat (h_buckets t)" None]
  by simp

lemma hash_pass_cases:
  assumes ok: "cmds_ok r"
    and res: "res = (case xdrCommandHash r of None \<Rightarrow> None
                     | Some t \<Rightarrow> snd (HASH_iterate_arg_table (Some t) (cmd_hash_by_name name) None))"
  shows "case res of None \<Rightarrow> \<forall>n c. CMD_xdr_cmd_by_number r n = Some c \<longrightarrow> \<not> named name c
         | Some c \<Rightarrow> named name c \<and> (\<exists>n. CMD_xdr_cmd_by_number r n = Some c)"
proof (cases "xdrCommandHash r")
  case None
  then show ?thesis using res by (simp add: CMD_xdr_cmd_by_number_def)
next
  case (Some t)
  have tok: "hash_wf t" "h_keyCmp t = xdr_cmd_cmp_key" "h_keyForData t = xdr_cmd_key_for_data"
    using ok Some by (auto simp: cmds_ok_def table_ok_def)
  have num: "CMD_xdr_cmd_by_number r n = hash_abs t (unat n)" for n
    using Some cmds.find_abs [OF tok(2,1)] by (simp add: CMD_xdr_cmd_by_number_def)
  let ?ds = "filter (named name) (map n_data (concat (h_buckets t)))"
  have res': "res = (case ?ds of [] \<Rightarrow> None | _ \<Rightarrow> Some (last ?ds))"
    using res Some hash_pass_by_name [of t name] by simp
  show ?thesis
  proof (cases "?ds = []")
    case True
    have "\<not> named name c" if "CMD_xdr_cmd_by_number r n = Some c" for n c
      using hash_abs_SomeD [OF that [unfolded num]] True by (auto simp: filter_empty_conv)
    then show ?thesis using True res' by simp
  next
    case False
    then have r: "res = Some (last ?ds)" using res' by (simp split: list.splits)
    have "last ?ds \<in> set ?ds" using False by (rule last_in_set)
    then obtain b n where n: "b \<in> set (h_buckets t)" "n \<in> set b" "last ?ds = n_data n" "named name (n_data n)"
      by auto
    obtain i where "i < h_size t" "b = h_buckets t ! i" using n(1) hash_wfD(2) [OF tok(1)] by (auto simp: in_set_conv_nth)
    then have "n_key n = unat (ci_command (n_data n))"
      using hash_wfD(5) [OF tok(1)] n(2) tok(3) by (simp add: xdr_cmd_key_for_data_def)
    then have "CMD_xdr_cmd_by_number r (ci_command (n_data n)) = Some (n_data n)"
      using hash_abs_node [OF tok(1) n(1,2)] num by simp
    then show ?thesis using r n by auto
  qed
qed

lemma datareq_by_name_Some: "datareq_by_name name cs (Some c) = Some (Some c)"
  by (cases cs) simp_all

lemma datareq_by_name_None:
  "\<forall>c \<in> set cs. ci_name c \<noteq> None \<Longrightarrow> datareq_by_name name cs None = Some (find (named name) cs)"
  by (induction cs) (auto simp: named_def datareq_by_name_Some split: option.splits)

lemma find_set_cases: "case find P xs of None \<Rightarrow> \<forall>x \<in> set xs. \<not> P x | Some x \<Rightarrow> x \<in> set xs \<and> P x"
  by (induction xs) (auto split: option.splits)

text \<open>\<open>CMD_xdr_cmd_by_name\<close> finds a command by name, without regard to case, exactly when one is
  registered: a numbered command if one has the name, otherwise the first such entry of the
  data-request list. It returns without a fault when every entry of that list has a name.\<close>

theorem cmd_by_name_correct:
  assumes ok: "cmds_ok r" and names: "\<forall>c \<in> set (xdrDatareqList r). ci_name c \<noteq> None"
  shows "\<exists>res. CMD_xdr_cmd_by_name r name = Some res
    \<and> (case res of
         None \<Rightarrow> (\<forall>n c. CMD_xdr_cmd_by_number r n = Some c \<longrightarrow> \<not> named name c)
                 \<and> (\<forall>c \<in> set (xdrDatareqList r). \<not> named name c)
       | Some c \<Rightarrow> named name c
                 \<and> ((\<exists>n. CMD_xdr_cmd_by_number r n = Some c)
                    \<or> (\<forall>n d. CMD_xdr_cmd_by_number r n = Some d \<longrightarrow> \<not> named name d) \<and> c \<in> set (xdrDatareqList r)))"
proof -
  define res where "res = (case xdrCommandHash r of None \<Rightarrow> None
                     | Some t \<Rightarrow> snd (HASH_iterate_arg_table (Some t) (cmd_hash_by_name name) None))"
  note h = hash_pass_cases [OF ok res_def]
  have e: "CMD_xdr_cmd_by_name r name = datareq_by_name name (xdrDatareqList r) res"
    by (simp add: CMD_xdr_cmd_by_name_def res_def)
  show ?thesis
  proof (cases res)
    case (Some c)
    then show ?thesis using e h by (simp add: datareq_by_name_Some)
  next
    case None
    then show ?thesis using e h datareq_by_name_None [OF names, of name] find_set_cases [where P = "named name" and xs = "xdrDatareqList r"]
      by (auto split: option.splits)
  qed
qed

theorem cmd_by_name_correct_witness:
  "CMD_xdr_cmd_by_name ex_creg ''Status'' = Some (Some (ex_cmd 0 ''status''))
   \<and> named ''Status'' (ex_cmd 0 ''status'')"
proof -
  have ok: "cmds_ok ex_creg" by (simp add: cmds_ok_def ex_creg_def)
  have nm: "\<forall>c \<in> set (xdrDatareqList ex_creg). ci_name c \<noteq> None" by (simp add: ex_creg_def ex_cmd_def)
  have e: "CMD_xdr_cmd_by_name ex_creg ''Status'' = Some (Some (ex_cmd 0 ''status''))"
    by (simp add: CMD_xdr_cmd_by_name_def ex_creg_def ex_cmd_def strcaseeq_def tolower_def char_of_def bit_0)
  from cmd_by_name_correct [OF ok nm, of "''Status''"] e show ?thesis by simp
qed

end
