(* ===== verification/Xdr.thy ===== *)
theory Xdr
  imports Prelude
begin

unbundle bit_operations_syntax

text \<open>
  The wire codecs of \<open>xdr.c\<close>: integers, floating-point values, byte and string arrays, arrays
  of a fixed element type, bit fields.

  \<^item> An encoder reads an object through a pointer (\<open>cptr\<close>: \<open>Null\<close>, \<open>Ref x\<close>, or \<open>Wild\<close> for a
    pointer outside any object) and writes to a buffer: \<open>Some buf\<close> is the memory from \<open>dst\<close> on,
    \<open>None\<close> a \<open>NULL\<close> destination, with which the caller asks for the size only. It returns
    \<open>ERet rc used buf'\<close>, or \<open>EFault\<close> when the C code reads or writes outside an object or
    runs into \<open>assert(0)\<close>.
  \<^item> A decoder reads the memory from \<open>src\<close> on (a list of bytes) and is told \<open>max\<close> (\<open>mx\<close> here). It returns
    \<open>DOk used x\<close> for result 0, \<open>DFail rc used\<close> for a negative result, or \<open>DFault\<close>. \<open>used\<close> is the
    value of the out parameter when the caller's variable was 0 before, as in every caller here.
  \<^item> Signed integers have the bit pattern of the word. A \<open>float\<close> or \<open>double\<close> is its object
    representation, a list of bytes; \<open>alloc\<close> says for which sizes \<open>malloc\<close> succeeds.
\<close>

datatype 'a cptr = Null | Wild | Ref 'a

datatype enc_res = EFault | ERet int nat "u8 list option"

datatype 'a dec_res = DFault | DFail int nat | DOk nat 'a

type_synonym 'a encoder = "'a cptr \<Rightarrow> u8 list option \<Rightarrow> nat \<Rightarrow> enc_res"
type_synonym 'a decoder = "u8 list \<Rightarrow> nat \<Rightarrow> 'a dec_res"

section \<open>Memory\<close>

definition put :: "int \<Rightarrow> nat \<Rightarrow> u8 list \<Rightarrow> u8 list \<Rightarrow> enc_res" where
  "put rc used bs buf =
     (if length bs \<le> length buf then ERet rc used (Some (bs @ drop (length bs) buf)) else EFault)"

definition enc_at :: "nat \<Rightarrow> (u8 list option \<Rightarrow> enc_res) \<Rightarrow> u8 list \<Rightarrow> enc_res" where
  "enc_at off f buf =
     (case f (Some (drop off buf)) of
        EFault \<Rightarrow> EFault
      | ERet rc used None \<Rightarrow> ERet rc used (Some buf)
      | ERet rc used (Some b) \<Rightarrow> ERet rc used (Some (take off buf @ b)))"

definition be32 :: "u32 \<Rightarrow> u8 list" where
  "be32 w = [ucast (drop_bit 24 w), ucast (drop_bit 16 w), ucast (drop_bit 8 w), ucast w]"

fun of_be32 :: "u8 list \<Rightarrow> u32" where
  "of_be32 [a, b, c, d] = push_bit 24 (ucast a) OR push_bit 16 (ucast b) OR push_bit 8 (ucast c) OR ucast d"
| "of_be32 _ = 0"

section \<open>Integers\<close>

definition XDR_decode_int32 :: "u32 decoder" where
  "XDR_decode_int32 src mx =
     (if mx < 4 then DFail (-1) 0
      else if length src < 4 then DFault
      else DOk 4 (of_be32 (take 4 src)))"

definition XDR_decode_uint32 :: "u32 decoder" where
  "XDR_decode_uint32 src mx =
     (if mx < 4 then DFail (-1) 0
      else if length src < 4 then DFault
      else DOk 4 (of_be32 (take 4 src)))"

definition XDR_encode_uint32 :: "u32 encoder" where
  "XDR_encode_uint32 src dst mx =
     (case dst of
        None \<Rightarrow> ERet 0 4 None
      | Some buf \<Rightarrow>
          if src = Null then ERet (-1) 4 dst
          else if mx < 4 then ERet (-2) 4 dst
          else (case src of Ref w \<Rightarrow> put 0 4 (be32 w) buf | _ \<Rightarrow> EFault))"

definition XDR_encode_int32 :: "u32 encoder" where
  "XDR_encode_int32 src dst mx =
     (case dst of
        None \<Rightarrow> ERet 0 4 None
      | Some buf \<Rightarrow>
          if src = Null then ERet (-1) 4 dst
          else if mx < 4 then ERet (-2) 4 dst
          else (case src of Ref w \<Rightarrow> put 0 4 (be32 w) buf | _ \<Rightarrow> EFault))"

definition XDR_decode_int64 :: "u64 decoder" where
  "XDR_decode_int64 src mx =
     (if mx < 8 then DFail (-1) 0
      else (case XDR_decode_int32 src mx of
              DFault \<Rightarrow> DFault
            | DFail _ _ \<Rightarrow> DFail (-1) 0
            | DOk used hi \<Rightarrow>
                (case XDR_decode_uint32 (drop used src) (size_sub mx used) of
                   DFault \<Rightarrow> DFault
                 | DFail _ _ \<Rightarrow> DFail (-1) 0
                 | DOk _ low \<Rightarrow> DOk 8 (push_bit 32 (scast hi) OR ucast low))))"

definition XDR_decode_uint64 :: "u64 decoder" where
  "XDR_decode_uint64 src mx =
     (if mx < 8 then DFail (-1) 0
      else (case XDR_decode_uint32 src mx of
              DFault \<Rightarrow> DFault
            | DFail _ _ \<Rightarrow> DFail (-1) 0
            | DOk used hi \<Rightarrow>
                (case XDR_decode_uint32 (drop used src) (size_sub mx used) of
                   DFault \<Rightarrow> DFault
                 | DFail _ _ \<Rightarrow> DFail (-1) 0
                 | DOk _ low \<Rightarrow> DOk 8 (push_bit 32 (ucast hi) OR ucast low))))"

text \<open>The common tail of the 64-bit encoders: the two halves one after the other.\<close>

definition encode_halves :: "u32 encoder \<Rightarrow> u32 \<Rightarrow> u32 \<Rightarrow> u8 list \<Rightarrow> nat \<Rightarrow> enc_res" where
  "encode_halves enc_hi hi low buf mx =
     (case enc_hi (Ref hi) (Some buf) mx of
        ERet r len (Some b1) \<Rightarrow>
          if r < 0 then ERet (-1) 8 (Some b1)
          else (case enc_at len (\<lambda>d. XDR_encode_uint32 (Ref low) d (size_sub mx len)) b1 of
                  ERet r2 _ b2 \<Rightarrow> ERet (if r2 < 0 then -1 else 0) 8 b2
                | EFault \<Rightarrow> EFault)
      | _ \<Rightarrow> EFault)"

definition XDR_encode_int64 :: "u64 encoder" where
  "XDR_encode_int64 src dst mx =
     (case dst of
        None \<Rightarrow> ERet 0 8 None
      | Some buf \<Rightarrow>
          if src = Null then ERet (-1) 8 dst
          else if mx < 8 then ERet (-1) 8 dst
          else (case src of
                  Ref v \<Rightarrow> encode_halves XDR_encode_int32 (ucast (signed_drop_bit 32 v)) (ucast (v AND 0xFFFFFFFF)) buf mx
                | _ \<Rightarrow> EFault))"

definition XDR_encode_uint64 :: "u64 encoder" where
  "XDR_encode_uint64 src dst mx =
     (case dst of
        None \<Rightarrow> ERet 0 8 None
      | Some buf \<Rightarrow>
          if src = Null then ERet (-1) 8 dst
          else if mx < 8 then ERet (-1) 8 dst
          else (case src of
                  Ref v \<Rightarrow> encode_halves XDR_encode_uint32 (ucast (drop_bit 32 v)) (ucast (v AND 0xFFFFFFFF)) buf mx
                | _ \<Rightarrow> EFault))"

section \<open>Floating-point values\<close>

text \<open>Copied as they are in memory; the encoders do not look at \<open>dst\<close> being \<open>NULL\<close>.\<close>

definition encode_copy :: "nat \<Rightarrow> u8 list encoder" where
  "encode_copy n src dst mx =
     (if mx < n then ERet (-1) n dst
      else (case (src, dst) of
              (Ref m, Some buf) \<Rightarrow> if length m < n then EFault else put 0 n (take n m) buf
            | _ \<Rightarrow> EFault))"

definition decode_copy :: "nat \<Rightarrow> u8 list decoder" where
  "decode_copy n src mx =
     (if mx < n then DFail (-1) 0 else if length src < n then DFault else DOk n (take n src))"

definition XDR_encode_float :: "u8 list encoder" where
  "XDR_encode_float = encode_copy 4"

definition XDR_decode_float :: "u8 list decoder" where
  "XDR_decode_float = decode_copy 4"

definition XDR_encode_double :: "u8 list encoder" where
  "XDR_encode_double = encode_copy 8"

definition XDR_decode_double :: "u8 list decoder" where
  "XDR_decode_double = decode_copy 8"

section \<open>Arrays of a fixed element type\<close>

definition elem_ptr :: "'a list cptr \<Rightarrow> nat \<Rightarrow> 'a cptr" where
  "elem_ptr src i =
     (case src of
        Null \<Rightarrow> if i = 0 then Null else Wild
      | Wild \<Rightarrow> Wild
      | Ref xs \<Rightarrow> if i < length xs then Ref (xs ! i) else Wild)"

text \<open>
  The encoding loop. \<open>on\<close> says that the local \<open>dst\<close> is not \<open>NULL\<close>; once an element fails, the
  rest is only measured. \<open>src\<close> is \<open>*src_ptr\<close>, \<open>Null\<close> also when \<open>src_ptr\<close> is \<open>NULL\<close>.
\<close>

fun array_encode ::
  "'a encoder \<Rightarrow> 'a cptr list \<Rightarrow> u8 list option \<Rightarrow> bool \<Rightarrow> nat \<Rightarrow> nat \<Rightarrow> int \<Rightarrow> enc_res" where
  "array_encode enc [] buf on mx enc_len res = ERet res enc_len buf"
| "array_encode enc (p # ps) buf on mx enc_len res =
     (case (on \<and> res \<ge> 0, buf) of
        (True, Some b) \<Rightarrow>
          (case enc_at enc_len (\<lambda>d. enc p d (size_sub mx enc_len)) b of
             EFault \<Rightarrow> EFault
           | ERet r sz b' \<Rightarrow> array_encode enc ps b' (r \<ge> 0) mx (enc_len + sz) r)
      | _ \<Rightarrow>
          (case enc p None (size_sub mx enc_len) of
             EFault \<Rightarrow> EFault
           | ERet _ sz _ \<Rightarrow> array_encode enc ps buf (on \<and> res \<ge> 0) mx (enc_len + sz) res))"

definition XDR_array_encoder ::
  "'a encoder \<Rightarrow> 'a list cptr \<Rightarrow> u8 list option \<Rightarrow> nat \<Rightarrow> int \<Rightarrow> enc_res" where
  "XDR_array_encoder enc src dst mx len =
     array_encode enc (map (elem_ptr src) [0 ..< nat len]) dst (dst \<noteq> None) mx 0 0"

fun array_decode :: "'a decoder \<Rightarrow> nat \<Rightarrow> u8 list \<Rightarrow> nat \<Rightarrow> nat \<Rightarrow> 'a list \<Rightarrow> 'a list dec_res" where
  "array_decode dec 0 src mx dec_len buff = DOk dec_len buff"
| "array_decode dec (Suc n) src mx dec_len buff =
     (case dec (drop dec_len src) (size_sub mx dec_len) of
        DFault \<Rightarrow> DFault
      | DFail res _ \<Rightarrow> DFail res 0
      | DOk sz x \<Rightarrow> array_decode dec n src mx (dec_len + sz) (buff @ [x]))"

definition XDR_array_decoder ::
  "(nat \<Rightarrow> bool) \<Rightarrow> nat \<Rightarrow> 'a decoder \<Rightarrow> bool \<Rightarrow> u8 list \<Rightarrow> nat \<Rightarrow> int \<Rightarrow> 'a list dec_res" where
  "XDR_array_decoder alloc increment dec dst src mx len =
     (if \<not> alloc (size_of_int (len * int increment)) then DFail (-1) 0
      else if \<not> dst then DFail (-2) 0
      else array_decode dec (nat len) src mx 0 [])"

text \<open>The array fields of the structures: \<open>len\<close> is the value of the length field, if there is one.\<close>

definition encode_array_field ::
  "'a encoder \<Rightarrow> 'a list cptr \<Rightarrow> u8 list option \<Rightarrow> nat \<Rightarrow> int option \<Rightarrow> enc_res" where
  "encode_array_field enc src dst mx len =
     (case len of None \<Rightarrow> ERet 0 0 dst | Some n \<Rightarrow> XDR_array_encoder enc src dst mx n)"

definition decode_array_field ::
  "(nat \<Rightarrow> bool) \<Rightarrow> nat \<Rightarrow> 'a decoder \<Rightarrow> u8 list \<Rightarrow> nat \<Rightarrow> int option \<Rightarrow> 'a list option dec_res" where
  "decode_array_field alloc increment dec src mx len =
     (case len of
        None \<Rightarrow> DOk 0 None
      | Some n \<Rightarrow>
          (case XDR_array_decoder alloc increment dec True src mx n of
             DFault \<Rightarrow> DFault | DFail r u \<Rightarrow> DFail r u | DOk u xs \<Rightarrow> DOk u (Some xs)))"

definition XDR_encode_int32_array where "XDR_encode_int32_array = encode_array_field XDR_encode_int32"
definition XDR_encode_uint32_array where "XDR_encode_uint32_array = encode_array_field XDR_encode_uint32"
definition XDR_encode_int64_array where "XDR_encode_int64_array = encode_array_field XDR_encode_int64"
definition XDR_encode_uint64_array where "XDR_encode_uint64_array = encode_array_field XDR_encode_uint64"
definition XDR_encode_float_array where "XDR_encode_float_array = encode_array_field XDR_encode_float"
definition XDR_encode_double_array where "XDR_encode_double_array = encode_array_field XDR_encode_float"
definition XDR_decode_int32_array where "XDR_decode_int32_array alloc = decode_array_field alloc 4 XDR_decode_int32"
definition XDR_decode_uint32_array where "XDR_decode_uint32_array alloc = decode_array_field alloc 4 XDR_decode_uint32"
definition XDR_decode_int64_array where "XDR_decode_int64_array alloc = decode_array_field alloc 8 XDR_decode_int64"
definition XDR_decode_uint64_array where "XDR_decode_uint64_array alloc = decode_array_field alloc 8 XDR_decode_uint64"
definition XDR_decode_float_array where "XDR_decode_float_array alloc = decode_array_field alloc 4 XDR_decode_float"
definition XDR_decode_double_array where "XDR_decode_double_array alloc = decode_array_field alloc 8 XDR_decode_double"

section \<open>Byte and string arrays\<close>

definition pad_len :: "int \<Rightarrow> int" where
  "pad_len n = (4 - n smod 4) smod 4"

text \<open>\<open>byte_len\<close> is the signed length the structure holds; \<open>byte_len + padding\<close> is computed in \<open>int\<close>,
  where leaving the range is undefined, and compared as \<open>size_t\<close>.\<close>

definition XDR_decode_byte_array :: "(nat \<Rightarrow> bool) \<Rightarrow> bool \<Rightarrow> u8 list \<Rightarrow> nat \<Rightarrow> int \<Rightarrow> u8 list dec_res" where
  "XDR_decode_byte_array alloc dst src mx byte_len =
     (let total = byte_len + pad_len byte_len; n = size_of_int byte_len in
      if \<not> dst then DFail (-1) 0
      else if total \<ge> 2 ^ 31 then DFault
      else if size_of_int total \<ge> mx then DFail (-1) 0
      else if n = 0 then DOk (size_of_int total) []
      else if \<not> alloc n \<or> length src < n then DFault
      else DOk (size_of_int total) (take n src))"

definition XDR_encode_byte_array :: "u8 list cptr \<Rightarrow> u8 list option \<Rightarrow> nat \<Rightarrow> int \<Rightarrow> enc_res" where
  "XDR_encode_byte_array src dst mx byte_len =
     (let total = byte_len + pad_len byte_len; n = size_of_int byte_len in
      if total \<ge> 2 ^ 31 then EFault
      else if dst = None \<or> src = Null \<or> size_of_int total \<ge> mx then ERet (-1) (size_of_int total) dst
      else (case (src, dst) of
              (Ref m, Some buf) \<Rightarrow>
                if length m < n then EFault
                else put 0 (size_of_int total) (take n m @ replicate (nat (pad_len byte_len)) 0) buf
            | _ \<Rightarrow> EFault))"

definition str_pad :: "u32 \<Rightarrow> u32" where
  "str_pad n = (4 - n mod 4) mod 4"

text \<open>\<open>str_len + 1\<close> and \<open>str_len + padding\<close> are 32-bit sums. The result of \<open>malloc\<close> is not checked.\<close>

definition XDR_decode_string_array :: "(nat \<Rightarrow> bool) \<Rightarrow> u8 list decoder" where
  "XDR_decode_string_array alloc src mx =
     (case XDR_decode_uint32 src mx of
        DFault \<Rightarrow> DFault
      | DFail _ _ \<Rightarrow> DFail (-1) 0
      | DOk used str_len \<Rightarrow>
          if used + unat str_len + unat (str_pad str_len) > mx then DFail (-1) used
          else if str_len + 1 = 0 \<or> \<not> alloc (unat (str_len + 1)) \<or> length src < used + unat str_len then DFault
          else DOk (used + unat (str_len + str_pad str_len)) (take (unat str_len) (drop used src)))"

text \<open>
  A string is its bytes up to the terminator. With \<open>dst\<close> \<open>NULL\<close> the pointer is advanced all the same,
  so that the copy below writes to an invalid address unless there is nothing to copy.
\<close>

definition XDR_encode_string_array :: "u8 list encoder" where
  "XDR_encode_string_array src dst mx =
     (case src of
        Wild \<Rightarrow> EFault
      | _ \<Rightarrow>
          let s = (case src of Ref m \<Rightarrow> takeWhile (\<lambda>c. c \<noteq> 0) m | _ \<Rightarrow> []);
              str_len = of_nat (length s) :: u32
          in (case XDR_encode_uint32 (Ref str_len) dst mx of
                EFault \<Rightarrow> EFault
              | ERet res used dst1 \<Rightarrow>
                  let used' = used + unat (str_len + str_pad str_len) in
                  if res < 0 then ERet res used' dst1
                  else if mx < used' then ERet (-2) used' dst1
                  else (case dst1 of
                          None \<Rightarrow> if str_len = 0 then ERet 0 used' None else EFault
                        | Some buf \<Rightarrow>
                            enc_at used (\<lambda>d. put 0 used' (take (unat str_len) s @ replicate (unat (str_pad str_len)) 0) (the d)) buf)))"

section \<open>Bit fields\<close>

text \<open>A width for which \<open>1 << width\<close> or \<open>(1 << width) - 1\<close> leaves \<open>int\<close> has no defined result (\<open>None\<close>).\<close>

definition bf_mask :: "nat \<Rightarrow> u32" where
  "bf_mask width = push_bit width 1 - 1"

definition XDR_decodebf_int32 :: "u32 \<Rightarrow> nat \<Rightarrow> u32 option" where
  "XDR_decodebf_int32 src width =
     (if width = 0 \<or> 31 \<le> width then None
      else let neg = push_bit (width - 1) 1 AND src \<noteq> 0;
               res = (if neg then (-1) AND NOT (bf_mask width) else 0)
           in Some (res OR (src AND bf_mask width)))"

definition XDR_decodebf_uint32 :: "u32 \<Rightarrow> nat \<Rightarrow> u32 option" where
  "XDR_decodebf_uint32 src width = (if 31 \<le> width then None else Some (src AND bf_mask width))"

definition XDR_encodebf_uint32 :: "u32 \<Rightarrow> nat \<Rightarrow> u32 option" where
  "XDR_encodebf_uint32 src width = (if 31 \<le> width then None else Some (src AND bf_mask width))"

text \<open>A field of a bit-field structure: its shift (\<open>struct_id\<close>), its width (\<open>len_offset\<close>) and whether
  it uses the functions of \<open>xdr_int32_bitfield_functions\<close> or of \<open>xdr_uint32_bitfield_functions\<close>.\<close>

record bf_field =
  bf_shift :: nat
  bf_width :: nat
  bf_signed :: bool

definition bf_decode :: "bf_field \<Rightarrow> u32 \<Rightarrow> u32 option" where
  "bf_decode f val =
     (if bf_shift f \<ge> 32 \<or> bf_width f \<ge> 31 then None
      else let tmp = drop_bit (bf_shift f) val AND bf_mask (bf_width f)
           in (if bf_signed f then XDR_decodebf_int32 tmp (bf_width f) else XDR_decodebf_uint32 tmp (bf_width f)))"

fun bf_decode_all :: "bf_field list \<Rightarrow> u32 \<Rightarrow> u32 list option" where
  "bf_decode_all [] val = Some []"
| "bf_decode_all (f # fs) val =
     (case bf_decode f val of
        None \<Rightarrow> None
      | Some v \<Rightarrow> map_option (Cons v) (bf_decode_all fs val))"

definition XDR_bitfield_struct_decoder :: "bf_field list option \<Rightarrow> u32 list decoder" where
  "XDR_bitfield_struct_decoder flds src mx =
     (case XDR_decode_uint32 src mx of
        DFault \<Rightarrow> DFault
      | DFail _ _ \<Rightarrow> DFail (-1) 0
      | DOk used val \<Rightarrow>
          (case flds of
             None \<Rightarrow> DFail (-1) used
           | Some fs \<Rightarrow> (case bf_decode_all fs val of None \<Rightarrow> DFault | Some vs \<Rightarrow> DOk used vs)))"

fun bf_encode_all :: "bf_field list \<Rightarrow> u32 list \<Rightarrow> u32 \<Rightarrow> u32 option" where
  "bf_encode_all [] vs val = Some val"
| "bf_encode_all (f # fs) [] val = None"
| "bf_encode_all (f # fs) (v # vs) val =
     (if bf_shift f \<ge> 32 then None
      else (case XDR_encodebf_uint32 v (bf_width f) of
              None \<Rightarrow> None
            | Some tmp \<Rightarrow> bf_encode_all fs vs (val OR push_bit (bf_shift f) (tmp AND bf_mask (bf_width f)))))"

definition XDR_bitfield_struct_encoder ::
  "bf_field list option \<Rightarrow> u32 list \<Rightarrow> u8 list option \<Rightarrow> nat \<Rightarrow> enc_res" where
  "XDR_bitfield_struct_encoder flds src dst mx =
     (case flds of
        None \<Rightarrow> ERet 0 0 dst
      | Some fs \<Rightarrow>
          (case bf_encode_all fs src 0 of
             None \<Rightarrow> EFault
           | Some val \<Rightarrow> XDR_encode_uint32 (Ref val) dst mx))"

section \<open>Structures and unions\<close>

text \<open>
  A field reads and writes its part of the structure \<open>'s\<close>: the addresses \<open>src + offset\<close> and
  \<open>src + len_offset\<close> are in the field's functions. \<open>field_ptr\<close> is \<open>src + offset\<close>; \<open>first\<close> says that the
  offset is 0, so that the address of the field in a \<open>NULL\<close> structure is \<open>NULL\<close> again.
\<close>

definition field_ptr :: "bool \<Rightarrow> ('s \<Rightarrow> 'f) \<Rightarrow> 's cptr \<Rightarrow> 'f cptr" where
  "field_ptr first get p =
     (case p of Ref s \<Rightarrow> Ref (get s) | Null \<Rightarrow> if first then Null else Wild | Wild \<Rightarrow> Wild)"

record 's XDR_Field =
  xf_encoder :: "'s encoder"
  xf_decoder :: "'s \<Rightarrow> 's decoder"

fun struct_decode :: "'s XDR_Field list \<Rightarrow> u8 list \<Rightarrow> nat \<Rightarrow> nat \<Rightarrow> 's \<Rightarrow> 's dec_res" where
  "struct_decode [] src mx used s = DOk used s"
| "struct_decode (f # fs) src mx used s =
     (case xf_decoder f s (drop used src) (size_sub mx used) of
        DFault \<Rightarrow> DFault
      | DFail _ _ \<Rightarrow> DFail (-1) 0
      | DOk len s' \<Rightarrow> struct_decode fs src mx (used + len) s')"

definition XDR_struct_decoder :: "'s XDR_Field list option \<Rightarrow> 's \<Rightarrow> 's decoder" where
  "XDR_struct_decoder flds s src mx =
     (case flds of None \<Rightarrow> DFail (-1) 0 | Some fs \<Rightarrow> struct_decode fs src mx 0 s)"

fun struct_encode :: "'s XDR_Field list \<Rightarrow> 's cptr \<Rightarrow> u8 list option \<Rightarrow> nat \<Rightarrow> nat \<Rightarrow> int \<Rightarrow> enc_res" where
  "struct_encode [] s dst mx used res = ERet res used dst"
| "struct_encode (f # fs) s dst mx used res =
     (case (res < 0, dst) of
        (False, Some b) \<Rightarrow>
          (case enc_at used (\<lambda>d. xf_encoder f s d (size_sub mx used)) b of
             EFault \<Rightarrow> EFault
           | ERet r len b' \<Rightarrow> struct_encode fs s b' mx (used + len) r)
      | _ \<Rightarrow>
          (case xf_encoder f s None mx of
             EFault \<Rightarrow> EFault
           | ERet _ len _ \<Rightarrow> struct_encode fs s dst mx (used + len) res))"

definition XDR_struct_encoder :: "'s XDR_Field list option \<Rightarrow> 's encoder" where
  "XDR_struct_encoder flds s dst mx =
     (case flds of None \<Rightarrow> ERet 0 0 dst | Some fs \<Rightarrow> struct_encode fs s dst mx 0 0)"

text \<open>The definition of a registered structure as a union uses it; \<open>xd_allocator\<close> is the outcome of
  \<open>def->allocator\<close>.\<close>

record 'v xdr_def =
  xd_encoder :: "'v encoder option"
  xd_decoder :: "'v decoder option"
  xd_allocator :: bool

record 'v XDR_Union =
  un_type :: u32
  un_data :: "'v cptr"

definition XDR_decode_union :: "(u32 \<Rightarrow> 'v xdr_def option) \<Rightarrow> 'v XDR_Union decoder" where
  "XDR_decode_union defs src mx =
     (case XDR_decode_uint32 src mx of
        DFault \<Rightarrow> DFault
      | DFail _ _ \<Rightarrow> DFail (-1) 0
      | DOk used ty \<Rightarrow>
          (case Option.bind (defs ty) (\<lambda>d. map_option (Pair (xd_allocator d)) (xd_decoder d)) of
             None \<Rightarrow> DFail (-1) 0
           | Some (ok, dec) \<Rightarrow>
               if \<not> ok then DFail (-1) used
               else (case dec (drop used src) (size_sub mx used) of
                       DFault \<Rightarrow> DFault
                     | DFail _ _ \<Rightarrow> DFail (-1) used
                     | DOk u x \<Rightarrow> DOk (used + u) \<lparr>un_type = ty, un_data = Ref x\<rparr>)))"

definition XDR_encode_union :: "(u32 \<Rightarrow> 'v xdr_def option) \<Rightarrow> 'v XDR_Union encoder" where
  "XDR_encode_union defs p dst mx =
     (case p of
        Ref src \<Rightarrow>
          (case XDR_encode_uint32 (Ref (un_type src)) dst mx of
             EFault \<Rightarrow> EFault
           | ERet res used dst1 \<Rightarrow>
               (case Option.bind (defs (un_type src)) xd_encoder of
                  None \<Rightarrow> ERet (-1) used dst1
                | Some enc \<Rightarrow>
                    (case (res < 0, dst1) of
                       (False, Some b) \<Rightarrow>
                         (case enc_at used (\<lambda>d. enc (un_data src) d (size_sub mx used)) b of
                            EFault \<Rightarrow> EFault
                          | ERet res2 u b' \<Rightarrow> ERet (if res < 0 \<or> res2 < 0 then -1 else 0) (used + u) b')
                     | _ \<Rightarrow>
                         (case enc (un_data src) None mx of
                            EFault \<Rightarrow> EFault
                          | ERet res2 u _ \<Rightarrow> ERet (if res < 0 \<or> res2 < 0 then -1 else 0) (used + u) dst1))))
      | _ \<Rightarrow> EFault)"

end
