(* ===== verification/Xdr_Codec.thy ===== *)
theory Xdr_Codec
  imports Xdr
begin

unbundle bit_operations_syntax

text \<open>
  The contract of an XDR codec and what follows from it. \<open>codec\<close> states what an encoder and a
  decoder of one type promise each other for objects that are \<open>valid\<close>, with \<open>bytes\<close> the wire format
  and buffers below \<open>lim\<close> bytes;
  \<open>measuring\<close> adds that the encoder reports the size when the destination is \<open>NULL\<close>. The array
  coders are verified once for every codec.
\<close>

section \<open>Words and bytes\<close>

lemma length_be32 [simp]: "length (be32 w) = 4"
  by (simp add: be32_def)

lemma of_be32_be32 [simp]: "of_be32 (be32 w) = w"
proof -
  have "push_bit 24 (ucast (ucast (drop_bit 24 w) :: u8)) OR push_bit 16 (ucast (ucast (drop_bit 16 w) :: u8))
      OR push_bit 8 (ucast (ucast (drop_bit 8 w) :: u8)) OR ucast (ucast w :: u8) = w"
  proof (rule bit_word_eqI)
    fix n assume "n < LENGTH(32)"
    then consider "n < 8" | "8 \<le> n" "n < 16" | "16 \<le> n" "n < 24" | "24 \<le> n" "n < 32" by fastforce
    then show "bit (push_bit 24 (ucast (ucast (drop_bit 24 w) :: u8)) OR push_bit 16 (ucast (ucast (drop_bit 16 w) :: u8))
      OR push_bit 8 (ucast (ucast (drop_bit 8 w) :: u8)) OR ucast (ucast w :: u8) :: u32) n = bit w n"
      by cases (auto simp: bit_simps)
  qed
  then show ?thesis by (simp add: be32_def)
qed

lemma put_ok: "length bs \<le> length buf \<Longrightarrow> put rc used bs buf = ERet rc used (Some (bs @ drop (length bs) buf))"
  by (simp add: put_def)

section \<open>Codecs\<close>

locale rt_codec =
  fixes enc :: "'a encoder" and dec :: "'a decoder" and bytes :: "'a \<Rightarrow> u8 list" and valid :: "'a \<Rightarrow> bool"
    and lim :: nat
  assumes lim_le: "lim \<le> 2 ^ 64"
    and enc_fits:
      "valid x \<Longrightarrow> length (bytes x) \<le> mx \<Longrightarrow> mx \<le> length buf \<Longrightarrow> mx < lim \<Longrightarrow>
         enc (Ref x) (Some buf) mx = ERet 0 (length (bytes x)) (Some (bytes x @ drop (length (bytes x)) buf))"
    and dec_fits:
      "valid x \<Longrightarrow> length (bytes x) \<le> mx \<Longrightarrow> mx < lim \<Longrightarrow> dec (bytes x @ rest) mx = DOk (length (bytes x)) x"
begin

lemma sub_lim [simp]: "b \<le> mx \<Longrightarrow> mx < lim \<Longrightarrow> size_sub mx b = mx - b"
  using lim_le by simp

abbreviation abytes :: "'a list \<Rightarrow> u8 list" where
  "abytes xs \<equiv> concat (map bytes xs)"

lemma array_encode_fits:
  assumes "\<forall>x \<in> set xs. valid x" "off + length (abytes xs) \<le> mx" "mx \<le> length buf" "mx < lim"
  shows "array_encode enc (map Ref xs) (Some buf) True mx off 0
    = ERet 0 (off + length (abytes xs)) (Some (take off buf @ abytes xs @ drop (off + length (abytes xs)) buf))"
  using assms
proof (induction xs arbitrary: off buf)
  case (Cons x xs)
  let ?n = "length (bytes x)" let ?buf = "take off buf @ bytes x @ drop (off + ?n) buf"
  have e: "enc_at off (\<lambda>d. enc (Ref x) d (size_sub mx off)) buf = ERet 0 ?n (Some ?buf)"
    using Cons.prems enc_fits [of x "mx - off" "drop off buf"] by (simp add: enc_at_def add.commute)
  have ih: "array_encode enc (map Ref xs) (Some ?buf) True mx (off + ?n) 0
      = ERet 0 (off + ?n + length (abytes xs))
          (Some (take (off + ?n) ?buf @ abytes xs @ drop (off + ?n + length (abytes xs)) ?buf))"
    by (rule Cons.IH) (use Cons.prems in auto)
  have "take (off + ?n) ?buf = take off buf @ bytes x" "drop (off + ?n + length (abytes xs)) ?buf
      = drop (off + ?n + length (abytes xs)) buf"
    using Cons.prems by (simp_all add: add.commute add.left_commute)
  then show ?case using e ih by (simp add: add.assoc)
qed simp

lemma array_decode_fits:
  assumes "\<forall>x \<in> set xs. valid x" "length pre + length (abytes xs) \<le> mx" "mx < lim"
  shows "array_decode dec (length xs) (pre @ abytes xs @ rest) mx (length pre) buff
    = DOk (length pre + length (abytes xs)) (buff @ xs)"
  using assms
proof (induction xs arbitrary: pre buff)
  case (Cons x xs)
  have d: "dec (bytes x @ abytes xs @ rest) (size_sub mx (length pre)) = DOk (length (bytes x)) x"
    using Cons.prems dec_fits [of x "mx - length pre" "abytes xs @ rest"] by simp
  have "array_decode dec (length xs) ((pre @ bytes x) @ abytes xs @ rest) mx (length (pre @ bytes x)) (buff @ [x])
    = DOk (length (pre @ bytes x) + length (abytes xs)) ((buff @ [x]) @ xs)"
    by (rule Cons.IH) (use Cons.prems in auto)
  then show ?case using d by (simp add: add.assoc)
qed simp

lemma elem_ptrs: "map (elem_ptr (Ref xs)) [0 ..< length xs] = map Ref xs"
  by (rule nth_equalityI) (auto simp: elem_ptr_def)

lemma array_roundtrip:
  assumes v: "\<forall>x \<in> set xs. valid x" and fit: "length (abytes xs) \<le> mx" "mx \<le> length buf" "mx < lim"
    and al: "alloc (size_of_int (int (length xs) * int inc))"
  shows "\<exists>buf'. encode_array_field enc (Ref xs) (Some buf) mx (Some (int (length xs)))
      = ERet 0 (length (abytes xs)) (Some buf') \<and> length buf' = length buf
      \<and> drop (length (abytes xs)) buf' = drop (length (abytes xs)) buf
      \<and> decode_array_field alloc inc dec buf' mx (Some (int (length xs))) = DOk (length (abytes xs)) (Some xs)"
proof -
  let ?buf = "abytes xs @ drop (length (abytes xs)) buf"
  have "encode_array_field enc (Ref xs) (Some buf) mx (Some (int (length xs))) = ERet 0 (length (abytes xs)) (Some ?buf)"
    using array_encode_fits [OF v, of 0 mx buf] fit by (simp add: encode_array_field_def XDR_array_encoder_def elem_ptrs)
  moreover have "decode_array_field alloc inc dec ?buf mx (Some (int (length xs))) = DOk (length (abytes xs)) (Some xs)"
    using array_decode_fits [OF v, of "[]" mx "drop (length (abytes xs)) buf" "[]"] fit al
    by (simp add: decode_array_field_def XDR_array_decoder_def)
  ultimately show ?thesis using fit by fastforce
qed

end

locale codec = rt_codec +
  assumes enc_small:
      "valid x \<Longrightarrow> mx < length (bytes x) \<Longrightarrow> mx \<le> length buf \<Longrightarrow> mx < lim \<Longrightarrow>
         \<exists>rc buf'. enc (Ref x) (Some buf) mx = ERet rc (length (bytes x)) (Some buf')
           \<and> rc < 0 \<and> length buf' = length buf \<and> drop mx buf' = drop mx buf"
    and dec_safe:
      "mx \<le> length src \<Longrightarrow> mx < lim \<Longrightarrow> dec src mx \<noteq> DFault \<and> (\<forall>u x. dec src mx = DOk u x \<longrightarrow> u \<le> mx)"
begin

lemma array_decode_safe:
  assumes "mx \<le> length src" "mx < lim" "off \<le> mx"
  shows "array_decode dec n src mx off buff \<noteq> DFault"
    "array_decode dec n src mx off buff = DOk u xs \<Longrightarrow> u \<le> mx \<and> length xs = length buff + n"
proof -
  have "array_decode dec n src mx off buff \<noteq> DFault
      \<and> (array_decode dec n src mx off buff = DOk u xs \<longrightarrow> u \<le> mx \<and> length xs = length buff + n)"
    using assms(3)
  proof (induction n arbitrary: off buff)
    case (Suc n)
    have s: "dec (drop off src) (mx - off) \<noteq> DFault \<and> (\<forall>u x. dec (drop off src) (mx - off) = DOk u x \<longrightarrow> u \<le> mx - off)"
      by (rule dec_safe) (use assms in auto)
    show ?case
    proof (cases "dec (drop off src) (mx - off)")
      case (DOk sz x)
      then have "off + sz \<le> mx" using s Suc.prems by auto
      from Suc.IH [OF this, of "buff @ [x]"] DOk show ?thesis using assms Suc.prems by auto
    qed (use s assms Suc.prems in auto)
  qed simp
  then show "array_decode dec n src mx off buff \<noteq> DFault"
    "array_decode dec n src mx off buff = DOk u xs \<Longrightarrow> u \<le> mx \<and> length xs = length buff + n" by auto
qed

lemma array_field_safe:
  assumes "mx \<le> length src" "mx < lim"
  shows "decode_array_field alloc inc dec src mx (Some len) \<noteq> DFault"
    "decode_array_field alloc inc dec src mx (Some len) = DOk u v
       \<Longrightarrow> u \<le> mx \<and> (\<exists>xs. v = Some xs \<and> length xs = nat len)"
  using array_decode_safe [OF assms, of 0 "nat len" "[]"]
  by (auto simp: decode_array_field_def XDR_array_decoder_def split: dec_res.splits if_splits)

end

locale measuring = codec +
  assumes enc_measure: "valid x \<Longrightarrow> enc (Ref x) None mx = ERet 0 (length (bytes x)) None"
begin

lemma array_measure:
  assumes "\<forall>x \<in> set xs. valid x"
  shows "\<exists>r. array_encode enc (map Ref xs) buf False mx off res = ERet res (off + length (abytes xs)) buf"
  using assms
proof (induction xs arbitrary: off)
  case (Cons x xs)
  then show ?case using enc_measure [of x] by (auto simp: add.assoc split: option.splits)
qed simp

lemma array_encode_total:
  assumes "\<forall>x \<in> set xs. valid x" "off \<le> mx" "mx \<le> length buf" "mx < lim"
  shows "\<exists>rc buf'. array_encode enc (map Ref xs) (Some buf) True mx off 0
      = ERet rc (off + length (abytes xs)) (Some buf') \<and> length buf' = length buf \<and> drop mx buf' = drop mx buf
      \<and> (rc \<ge> 0 \<longleftrightarrow> off + length (abytes xs) \<le> mx)"
  using assms
proof (induction xs arbitrary: off buf)
  case (Cons x xs)
  let ?n = "length (bytes x)"
  show ?case
  proof (cases "off + ?n \<le> mx")
    case True
    let ?buf = "take off buf @ bytes x @ drop (off + ?n) buf"
    have e: "enc_at off (\<lambda>d. enc (Ref x) d (size_sub mx off)) buf = ERet 0 ?n (Some ?buf)"
      using Cons.prems True enc_fits [of x "mx - off" "drop off buf"] by (simp add: enc_at_def add.commute)
    have lb: "length ?buf = length buf" "drop mx ?buf = drop mx buf" using Cons.prems True by auto
    from Cons.IH [of "off + ?n" ?buf] Cons.prems True lb e show ?thesis by (auto simp: add.assoc)
  next
    case False
    have p: "valid x" "mx - off < ?n" "mx - off \<le> length (drop off buf)" "mx - off < lim"
      using Cons.prems False by simp_all
    obtain rc b where b: "enc (Ref x) (Some (drop off buf)) (mx - off) = ERet rc ?n (Some b)" "rc < 0"
      "length b = length buf - off" "drop (mx - off) b = drop (mx - off) (drop off buf)"
      using enc_small [OF p] by auto
    have e: "enc_at off (\<lambda>d. enc (Ref x) d (size_sub mx off)) buf = ERet rc ?n (Some (take off buf @ b))"
      using b(1) Cons.prems by (simp add: enc_at_def)
    have "length (take off buf @ b) = length buf" "drop mx (take off buf @ b) = drop mx buf"
      using b(3,4) Cons.prems by auto
    then show ?thesis using array_measure [of xs "Some (take off buf @ b)" mx "off + ?n" rc] e b(2) Cons.prems False
      by (auto simp: add.assoc)
  qed
qed simp

lemma array_field_total:
  assumes "\<forall>x \<in> set xs. valid x" "mx \<le> length buf" "mx < lim"
  shows "\<exists>rc buf'. encode_array_field enc (Ref xs) (Some buf) mx (Some (int (length xs)))
      = ERet rc (length (abytes xs)) (Some buf') \<and> length buf' = length buf \<and> drop mx buf' = drop mx buf
      \<and> (rc \<ge> 0 \<longleftrightarrow> length (abytes xs) \<le> mx)"
  using array_encode_total [of xs 0 mx buf] assms by (simp add: encode_array_field_def XDR_array_encoder_def elem_ptrs)

end

end
