(* ===== verification/Xdr_Correct.thy ===== *)
theory Xdr_Correct
  imports Xdr_Codec
begin

unbundle bit_operations_syntax

text \<open>
  The codecs of \<open>xdr.c\<close> meet the contract of \<open>Xdr_Codec\<close> (the interpretations), and what follows for
  the array, string, byte, bit-field, structure and union coders. The floating-point codecs meet
  \<open>codec\<close> but not \<open>measuring\<close>: they copy to a \<open>NULL\<close> destination.
\<close>

section \<open>The scalar codecs\<close>

definition be64 :: "u64 \<Rightarrow> u8 list" where
  "be64 v = be32 (ucast (drop_bit 32 v)) @ be32 (ucast v)"

lemma length_be64 [simp]: "length (be64 v) = 8"
  by (simp add: be64_def)

lemma take4_be32 [simp]: "take 4 (be32 w @ rest) = be32 w"
  by (simp add: take_append)

interpretation u32: measuring XDR_encode_uint32 XDR_decode_uint32 be32 "\<lambda>_. True" "2 ^ 64"
  by unfold_locales (auto simp: XDR_encode_uint32_def XDR_decode_uint32_def put_def)

interpretation i32: measuring XDR_encode_int32 XDR_decode_int32 be32 "\<lambda>_. True" "2 ^ 64"
  by unfold_locales (auto simp: XDR_encode_int32_def XDR_decode_int32_def put_def)

lemma halves_join: "push_bit 32 (ucast (ucast (drop_bit 32 v) :: u32)) OR ucast (ucast v :: u32) = (v :: u64)"
  by (rule bit_word_eqI) (auto simp: bit_simps)

lemma halves_join_signed:
  "push_bit 32 (scast (ucast (drop_bit 32 v) :: u32)) OR ucast (ucast v :: u32) = (v :: u64)"
  by (rule bit_word_eqI) (auto simp: bit_simps)

lemma low_half: "ucast (v AND 0xFFFFFFFF) = (ucast v :: u32)" for v :: u64
proof -
  have m: "(0xFFFFFFFF :: u64) = mask 32" by (simp add: mask_eq_exp_minus_1)
  show ?thesis unfolding m by (rule bit_word_eqI) (auto simp: bit_simps)
qed

lemma high_half: "(ucast (signed_drop_bit 32 v) :: u32) = ucast (drop_bit 32 v)" for v :: u64
  by (rule bit_word_eqI) (auto simp: bit_simps)

lemma encode_halves_fits:
  assumes hi: "\<And>w b. 4 \<le> mx \<Longrightarrow> mx \<le> length b \<Longrightarrow> enc_hi (Ref w) (Some b) mx = ERet 0 4 (Some (be32 w @ drop 4 b))"
    and mx: "8 \<le> mx" "mx \<le> length buf" "mx < 2 ^ 64"
  shows "encode_halves enc_hi hi low buf mx = ERet 0 8 (Some (be32 hi @ be32 low @ drop 8 buf))"
proof -
  have 1: "enc_hi (Ref hi) (Some buf) mx = ERet 0 4 (Some (be32 hi @ drop 4 buf))" using assms by simp
  have 2: "XDR_encode_uint32 (Ref low) (Some (drop 4 buf)) (size_sub mx 4) = ERet 0 4 (Some (be32 low @ drop 8 buf))"
    using mx u32.enc_fits [of low "mx - 4" "drop 4 buf"] by simp
  show ?thesis using 1 2 by (simp add: encode_halves_def enc_at_def)
qed

lemma decode_halves:
  assumes "8 \<le> mx" "mx < 2 ^ 64"
  shows "XDR_decode_uint64 (be64 v @ rest) mx = DOk 8 v" "XDR_decode_int64 (be64 v @ rest) mx = DOk 8 v"
proof -
  let ?hi = "be32 (ucast (drop_bit 32 v))" let ?low = "be32 (ucast v)"
  have 1: "XDR_decode_uint32 (?hi @ ?low @ rest) mx = DOk 4 (ucast (drop_bit 32 v))"
    "XDR_decode_int32 (?hi @ ?low @ rest) mx = DOk 4 (ucast (drop_bit 32 v))"
    using u32.dec_fits [of _ mx] i32.dec_fits [of _ mx] assms by simp_all
  have 2: "XDR_decode_uint32 (?low @ rest) (size_sub mx 4) = DOk 4 (ucast v)"
    using u32.dec_fits [of "ucast v" "mx - 4" rest] assms by simp
  show "XDR_decode_uint64 (be64 v @ rest) mx = DOk 8 v" "XDR_decode_int64 (be64 v @ rest) mx = DOk 8 v"
    using assms 1 2 by (simp_all add: XDR_decode_uint64_def XDR_decode_int64_def be64_def halves_join halves_join_signed)
qed

lemma decode_halves_safe:
  assumes "mx \<le> length src" "mx < 2 ^ 64"
  shows "XDR_decode_uint64 src mx \<noteq> DFault \<and> (\<forall>u x. XDR_decode_uint64 src mx = DOk u x \<longrightarrow> u \<le> mx)"
    "XDR_decode_int64 src mx \<noteq> DFault \<and> (\<forall>u x. XDR_decode_int64 src mx = DOk u x \<longrightarrow> u \<le> mx)"
  using assms
  by (auto simp: XDR_decode_uint64_def XDR_decode_int64_def XDR_decode_uint32_def XDR_decode_int32_def)

lemma encode64_fits:
  assumes "8 \<le> mx" "mx \<le> length buf" "mx < 2 ^ 64"
  shows "XDR_encode_uint64 (Ref x) (Some buf) mx = ERet 0 8 (Some (be64 x @ drop 8 buf))"
    "XDR_encode_int64 (Ref x) (Some buf) mx = ERet 0 8 (Some (be64 x @ drop 8 buf))"
  using encode_halves_fits [of mx XDR_encode_uint32 buf] encode_halves_fits [of mx XDR_encode_int32 buf]
    u32.enc_fits [of _ mx] i32.enc_fits [of _ mx] assms
  by (simp_all add: XDR_encode_uint64_def XDR_encode_int64_def be64_def low_half high_half)

lemma encode64_small:
  "mx < 8 \<Longrightarrow> XDR_encode_uint64 (Ref x) (Some buf) mx = ERet (-1) 8 (Some buf)"
  "mx < 8 \<Longrightarrow> XDR_encode_int64 (Ref x) (Some buf) mx = ERet (-1) 8 (Some buf)"
  by (simp_all add: XDR_encode_uint64_def XDR_encode_int64_def)

lemma encode64_measure: "XDR_encode_uint64 p None mx = ERet 0 8 None" "XDR_encode_int64 p None mx = ERet 0 8 None"
  by (simp_all add: XDR_encode_uint64_def XDR_encode_int64_def)

interpretation u64: measuring XDR_encode_uint64 XDR_decode_uint64 be64 "\<lambda>_. True" "2 ^ 64"
  by unfold_locales
    (simp, simp add: encode64_fits, simp add: decode_halves, simp add: encode64_small,
     rule decode_halves_safe(1), assumption, assumption, simp add: encode64_measure)

interpretation i64: measuring XDR_encode_int64 XDR_decode_int64 be64 "\<lambda>_. True" "2 ^ 64"
  by unfold_locales
    (simp, simp add: encode64_fits, simp add: decode_halves, simp add: encode64_small,
     rule decode_halves_safe(2), assumption, assumption, simp add: encode64_measure)

lemma copy_codec: "codec (encode_copy n) (decode_copy n) (\<lambda>m. m) (\<lambda>m. length m = n) (2 ^ 64)"
  by unfold_locales (auto simp: encode_copy_def decode_copy_def put_def)

interpretation flt: codec XDR_encode_float XDR_decode_float "\<lambda>m. m" "\<lambda>m. length m = 4" "2 ^ 64"
  unfolding XDR_encode_float_def XDR_decode_float_def by (rule copy_codec)

interpretation dbl: codec XDR_encode_double XDR_decode_double "\<lambda>m. m" "\<lambda>m. length m = 8" "2 ^ 64"
  unfolding XDR_encode_double_def XDR_decode_double_def by (rule copy_codec)

section \<open>Arrays\<close>

definition array_ok where
  "array_ok encf decf w xs buf mx \<longleftrightarrow>
     (\<exists>buf'. encf (Ref xs) (Some buf) mx (Some (int (length xs))) = ERet 0 (w * length xs) (Some buf')
        \<and> length buf' = length buf \<and> drop (w * length xs) buf' = drop (w * length xs) buf
        \<and> decf buf' mx (Some (int (length xs))) = DOk (w * length xs) (Some xs))"

lemma length_concat_const: "(\<And>x. x \<in> set xs \<Longrightarrow> length (f x) = n) \<Longrightarrow> length (concat (map f xs)) = n * length xs"
  by (induction xs) auto

text \<open>An array of 32- or 64-bit integers, signed or unsigned, that fits into the destination is
  encoded with result 0 and its exact size, without touching the buffer behind it, and decoding
  the buffer with the same length gives the array back.\<close>

theorem integer_array_roundtrip:
  fixes xs :: "u32 list" and ys :: "u64 list"
  assumes "4 * length xs \<le> mx" "8 * length ys \<le> mx" "mx \<le> length buf" "mx < 2 ^ 64"
    and "alloc (size_of_int (int (length xs) * 4))" "alloc (size_of_int (int (length ys) * 8))"
  shows "array_ok XDR_encode_int32_array (XDR_decode_int32_array alloc) 4 xs buf mx
    \<and> array_ok XDR_encode_uint32_array (XDR_decode_uint32_array alloc) 4 xs buf mx
    \<and> array_ok XDR_encode_int64_array (XDR_decode_int64_array alloc) 8 ys buf mx
    \<and> array_ok XDR_encode_uint64_array (XDR_decode_uint64_array alloc) 8 ys buf mx"
proof -
  have x: "length (concat (map be32 xs)) = 4 * length xs" and y: "length (concat (map be64 ys)) = 8 * length ys"
    using length_concat_const [of xs be32 4] length_concat_const [of ys be64 8] by simp_all
  have "array_ok XDR_encode_int32_array (XDR_decode_int32_array alloc) 4 xs buf mx"
    using i32.array_roundtrip [of xs mx buf alloc 4] assms
    unfolding array_ok_def XDR_encode_int32_array_def XDR_decode_int32_array_def x by simp
  moreover have "array_ok XDR_encode_uint32_array (XDR_decode_uint32_array alloc) 4 xs buf mx"
    using u32.array_roundtrip [of xs mx buf alloc 4] assms
    unfolding array_ok_def XDR_encode_uint32_array_def XDR_decode_uint32_array_def x by simp
  moreover have "array_ok XDR_encode_int64_array (XDR_decode_int64_array alloc) 8 ys buf mx"
    using i64.array_roundtrip [of ys mx buf alloc 8] assms
    unfolding array_ok_def XDR_encode_int64_array_def XDR_decode_int64_array_def y by simp
  moreover have "array_ok XDR_encode_uint64_array (XDR_decode_uint64_array alloc) 8 ys buf mx"
    using u64.array_roundtrip [of ys mx buf alloc 8] assms
    unfolding array_ok_def XDR_encode_uint64_array_def XDR_decode_uint64_array_def y by simp
  ultimately show ?thesis by blast
qed

theorem integer_array_roundtrip_witness:
  "array_ok XDR_encode_int64_array (XDR_decode_int64_array (\<lambda>_. True)) 8 [1, -2] (replicate 20 0) 16"
  using integer_array_roundtrip [of "[7]" 16 "[1, -2]" "replicate 20 0" "\<lambda>_. True"] by simp

text \<open>Whatever the size of the destination, encoding an array of unsigned integers never writes
  behind \<open>max\<close> bytes, reports the size it needs, and succeeds exactly when that size fits.\<close>

theorem uint32_array_bounds:
  assumes "mx \<le> length buf" "mx < 2 ^ 64"
  shows "\<exists>rc buf'. XDR_encode_uint32_array (Ref xs) (Some buf) mx (Some (int (length xs)))
      = ERet rc (4 * length xs) (Some buf') \<and> length buf' = length buf \<and> drop mx buf' = drop mx buf
      \<and> (rc \<ge> 0 \<longleftrightarrow> 4 * length xs \<le> mx)"
  using u32.array_field_total [of xs mx buf] length_concat_const [of xs be32 4] assms
  by (simp add: XDR_encode_uint32_array_def)

theorem uint32_array_bounds_witness:
  "\<exists>rc buf'. XDR_encode_uint32_array (Ref [1, 2, 3]) (Some (replicate 10 0)) 8 (Some 3) = ERet rc 12 (Some buf')
      \<and> rc < 0 \<and> length buf' = 10"
proof -
  obtain rc buf' where "XDR_encode_uint32_array (Ref [1, 2, 3]) (Some (replicate 10 0)) 8 (Some 3) = ERet rc 12 (Some buf')"
    "length buf' = 10" "rc \<ge> 0 \<longleftrightarrow> 12 \<le> (8::nat)"
    using uint32_array_bounds [of 8 "replicate 10 0" "[1, 2, 3]"] by auto
  then show ?thesis by auto
qed



lemma array_encode_float_halves:
  assumes "\<forall>x \<in> set xs. 4 \<le> length x"
  shows "array_encode XDR_encode_float (map (\<lambda>x. Ref (take 4 x)) xs) buf on mx off res
    = array_encode XDR_encode_float (map Ref xs) buf on mx off res"
  using assms
proof (induction xs arbitrary: buf on off res)
  case (Cons x xs)
  have e: "XDR_encode_float (Ref (take 4 x)) d m = XDR_encode_float (Ref x) d m" for d m
    using Cons.prems by (simp add: XDR_encode_float_def encode_copy_def split: option.splits)
  show ?case using Cons by (auto simp: e split: option.splits bool.splits enc_res.splits)
qed simp

lemma decode_doubles_short:
  assumes "mx \<le> length src" "mx < 2 ^ 64" "off \<le> mx" "mx < off + 8 * n"
  shows "array_decode XDR_decode_double n src mx off buff = DFail (-1) 0"
  using assms
proof (induction n arbitrary: off buff)
  case (Suc n)
  then show ?case by (cases "off + 8 \<le> mx") (simp_all add: XDR_decode_double_def decode_copy_def)
qed simp

text \<open>\<open>XDR_encode_double_array\<close> encodes with the encoder of \<open>float\<close>: it reports success and
  4 bytes per element, writes only the first half of each \<open>double\<close>, and \<open>XDR_decode_double_array\<close>
  rejects what it wrote.\<close>

theorem double_array_truncated:
  assumes len: "\<forall>x \<in> set xs. length x = 8" and ne: "xs \<noteq> []"
    and mx: "4 * length xs \<le> mx" "mx \<le> length buf" "mx < 2 ^ 64"
  shows "\<exists>buf'. XDR_encode_double_array (Ref xs) (Some buf) mx (Some (int (length xs)))
      = ERet 0 (4 * length xs) (Some buf')
    \<and> take (4 * length xs) buf' = concat (map (take 4) xs)
    \<and> XDR_decode_double_array alloc buf' (4 * length xs) (Some (int (length xs))) = DFail (-1) 0"
proof -
  let ?bs = "concat (map (take 4) xs)" let ?buf = "?bs @ drop (4 * length xs) buf"
  have n: "length ?bs = 4 * length xs" using length_concat_const [of xs "take 4" 4] len by simp
  have "array_encode XDR_encode_float (map Ref (map (take 4) xs)) (Some buf) True mx 0 0 = ERet 0 (4 * length xs) (Some ?buf)"
    using flt.array_encode_fits [of "map (take 4) xs" 0 mx buf] len mx n by simp
  then have "array_encode XDR_encode_float (map Ref xs) (Some buf) True mx 0 0 = ERet 0 (4 * length xs) (Some ?buf)"
    using array_encode_float_halves [of xs "Some buf" True mx 0 0] len by (simp add: o_def)
  then have e: "XDR_encode_double_array (Ref xs) (Some buf) mx (Some (int (length xs))) = ERet 0 (4 * length xs) (Some ?buf)"
    by (simp add: XDR_encode_double_array_def encode_array_field_def XDR_array_encoder_def flt.elem_ptrs)
  have "array_decode XDR_decode_double (length xs) ?buf (4 * length xs) 0 [] = DFail (-1) 0"
    by (rule decode_doubles_short) (use mx n ne in auto)
  then have "XDR_decode_double_array alloc ?buf (4 * length xs) (Some (int (length xs))) = DFail (-1) 0"
    by (simp add: XDR_decode_double_array_def decode_array_field_def XDR_array_decoder_def)
  with e n show ?thesis by auto
qed

theorem double_array_truncated_witness:
  "\<exists>buf'. XDR_encode_double_array (Ref [[1, 2, 3, 4, 5, 6, 7, 8]]) (Some (replicate 8 0)) 8 (Some 1) = ERet 0 4 (Some buf')
     \<and> take 4 buf' = [1, 2, 3, 4] \<and> XDR_decode_double_array (\<lambda>_. True) buf' 4 (Some 1) = DFail (-1) 0"
  using double_array_truncated [of "[[1, 2, 3, 4, 5, 6, 7, 8]]" 8 "replicate 8 0" "\<lambda>_. True"] by simp

section \<open>Strings and bytes\<close>

lemma pad4_dvd: "4 dvd a + (4 - a mod 4) mod 4" for a :: nat
proof -
  have "a mod 4 < 4" by simp
  then consider "a mod 4 = 0" | "a mod 4 = 1" | "a mod 4 = 2" | "a mod 4 = 3" by linarith
  then show ?thesis by cases (simp_all, presburger+)
qed

lemma str_pad_nat: "unat (str_pad n) = (4 - unat n mod 4) mod 4"
proof -
  have "unat n mod 4 < 4" by simp
  moreover have "unat (n mod 4) = unat n mod 4" by (simp add: unat_mod)
  ultimately have "unat (4 - n mod 4) = 4 - unat n mod 4"
    by (subst unat_sub) (simp_all add: word_le_nat_alt)
  then show ?thesis by (simp add: str_pad_def unat_mod)
qed

lemma str_pad_sum:
  assumes "unat n < 2 ^ 32 - 4"
  shows "unat (n + str_pad n) = unat n + unat (str_pad n)" "n + 1 \<noteq> 0" "4 dvd unat n + unat (str_pad n)"
proof -
  have p: "unat (str_pad n) < 4" by (simp add: str_pad_nat)
  show "unat (n + str_pad n) = unat n + unat (str_pad n)"
    using assms p by (subst unat_add_lem [THEN iffD1]) simp_all
  show "n + 1 \<noteq> 0"
  proof
    assume "n + 1 = 0"
    then have "n = -1" by (simp add: eq_neg_iff_add_eq_0)
    then have "unat n = mask 32" by (simp add: unsigned_minus_1_eq_mask)
    then show False using assms by (simp add: mask_eq_exp_minus_1)
  qed
  show "4 dvd unat n + unat (str_pad n)" unfolding str_pad_nat by (rule pad4_dvd)
qed

definition string_bytes :: "u8 list \<Rightarrow> u8 list" where
  "string_bytes s = be32 (of_nat (length s)) @ s @ replicate ((4 - length s mod 4) mod 4) 0"

definition valid_string :: "u8 list \<Rightarrow> bool" where
  "valid_string s \<longleftrightarrow> 0 \<notin> set s \<and> length s < 2 ^ 32 - 4"

lemma valid_stringD:
  assumes "valid_string s"
  shows "takeWhile (\<lambda>c. c \<noteq> 0) s = s" "unat (of_nat (length s) :: u32) = length s"
    "unat (str_pad (of_nat (length s))) = (4 - length s mod 4) mod 4"
    "unat ((of_nat (length s) :: u32) + str_pad (of_nat (length s))) = length s + (4 - length s mod 4) mod 4"
    "(of_nat (length s) :: u32) + 1 \<noteq> 0"
proof -
  have s: "0 \<notin> set s" "length s < 2 ^ 32 - 4" using assms by (simp_all add: valid_string_def)
  show "takeWhile (\<lambda>c. c \<noteq> 0) s = s" using s(1) by (auto simp: takeWhile_eq_all_conv)
  show n: "unat (of_nat (length s) :: u32) = length s" using s(2) by (simp add: unat_of_nat)
  show p: "unat (str_pad (of_nat (length s))) = (4 - length s mod 4) mod 4" by (simp only: str_pad_nat n)
  have l: "unat (of_nat (length s) :: u32) < 2 ^ 32 - 4" using n s(2) by simp
  show "unat ((of_nat (length s) :: u32) + str_pad (of_nat (length s))) = length s + (4 - length s mod 4) mod 4"
    using str_pad_sum(1) [OF l] n p by simp
  show "(of_nat (length s) :: u32) + 1 \<noteq> 0" by (rule str_pad_sum(2) [OF l])
qed

lemma length_string_bytes: "length (string_bytes s) = 4 + (length s + (4 - length s mod 4) mod 4)"
  by (simp add: string_bytes_def)

lemma encode_string_eq:
  assumes v: "valid_string s"
  shows "XDR_encode_string_array (Ref s) (Some buf) mx =
    (case XDR_encode_uint32 (Ref (of_nat (length s))) (Some buf) mx of
       ERet res used (Some b) \<Rightarrow>
         let used' = used + (length s + (4 - length s mod 4) mod 4) in
         if res < 0 then ERet res used' (Some b)
         else if mx < used' then ERet (-2) used' (Some b)
         else enc_at used (\<lambda>d. put 0 used' (s @ replicate ((4 - length s mod 4) mod 4) 0) (the d)) b
     | _ \<Rightarrow> EFault)"
proof -
  note d = valid_stringD [OF v]
  have n: "XDR_encode_uint32 (Ref w) (Some buf) mx \<noteq> ERet rc u None" for w rc u
    by (auto simp: XDR_encode_uint32_def put_def)
  show ?thesis
  proof (cases "XDR_encode_uint32 (Ref (of_nat (length s))) (Some buf) mx")
    case (ERet rc u b)
    then obtain b' where "b = Some b'" using n by (cases b) auto
    with ERet show ?thesis by (simp add: XDR_encode_string_array_def Let_def d(1,2,3,4))
  qed (simp add: XDR_encode_string_array_def Let_def d(1))
qed

lemma encode_string_fits:
  assumes v: "valid_string s" and mx: "length (string_bytes s) \<le> mx" "mx \<le> length buf" "mx < 2 ^ 64"
  shows "XDR_encode_string_array (Ref s) (Some buf) mx
    = ERet 0 (length (string_bytes s)) (Some (string_bytes s @ drop (length (string_bytes s)) buf))"
proof -
  let ?n = "of_nat (length s) :: u32"
  have u: "XDR_encode_uint32 (Ref ?n) (Some buf) mx = ERet 0 4 (Some (be32 ?n @ drop 4 buf))"
    using u32.enc_fits [of ?n mx buf] mx by (simp add: length_string_bytes)
  show ?thesis using mx unfolding encode_string_eq [OF v] u
    by (simp add: Let_def enc_at_def put_def length_string_bytes string_bytes_def add.commute add.left_commute)
qed

lemma encode_string_small:
  assumes v: "valid_string s" and mx: "mx < length (string_bytes s)" "mx \<le> length buf"
  shows "\<exists>rc buf'. XDR_encode_string_array (Ref s) (Some buf) mx = ERet rc (length (string_bytes s)) (Some buf')
    \<and> rc < 0 \<and> length buf' = length buf \<and> drop mx buf' = drop mx buf"
  using mx unfolding encode_string_eq [OF v]
  by (cases "mx < 4") (simp_all add: Let_def XDR_encode_uint32_def put_def length_string_bytes)

lemma decode_string_fits:
  assumes v: "valid_string s" and mx: "length (string_bytes s) \<le> mx" and al: "alloc (Suc (length s))"
  shows "XDR_decode_string_array alloc (string_bytes s @ rest) mx = DOk (length (string_bytes s)) s"
proof -
  note d = valid_stringD [OF v]
  let ?n = "of_nat (length s) :: u32"
  have u: "XDR_decode_uint32 (string_bytes s @ rest) mx = DOk 4 ?n"
    using mx by (simp add: XDR_decode_uint32_def length_string_bytes) (simp add: string_bytes_def)
  have "unat (?n + 1) = Suc (length s)" using d(2,5) by (metis unatSuc add.commute)
  then show ?thesis using mx d u al
    by (simp add: XDR_decode_string_array_def length_string_bytes add.assoc) (simp add: string_bytes_def)
qed

lemma decode_string_safe:
  assumes "mx \<le> length src" "mx < 2 ^ 32"
  shows "XDR_decode_string_array (\<lambda>_. True) src mx \<noteq> DFault
    \<and> (\<forall>u x. XDR_decode_string_array (\<lambda>_. True) src mx = DOk u x \<longrightarrow> u \<le> mx)"
proof (cases "mx < 4")
  case True
  then show ?thesis by (simp add: XDR_decode_string_array_def XDR_decode_uint32_def)
next
  case False
  let ?n = "of_be32 (take 4 src)"
  have u: "XDR_decode_uint32 src mx = DOk 4 ?n" using False assms by (simp add: XDR_decode_uint32_def)
  show ?thesis
  proof (cases "4 + unat ?n + unat (str_pad ?n) > mx")
    case True
    then show ?thesis using u by (simp add: XDR_decode_string_array_def)
  next
    case F: False
    then have "unat ?n < 2 ^ 32 - 4" using assms by simp
    from str_pad_sum(1,2) [OF this] F show ?thesis using u assms by (simp add: XDR_decode_string_array_def)
  qed
qed

interpretation str: codec XDR_encode_string_array "XDR_decode_string_array (\<lambda>_. True)" string_bytes valid_string "2 ^ 32"
  by unfold_locales
    (simp, simp add: encode_string_fits, simp add: decode_string_fits, simp add: encode_string_small,
     rule decode_string_safe, assumption, assumption)

text \<open>A string without inner terminator that fits into the destination is encoded as its length,
  its bytes and zero padding to a multiple of four, and decoding yields the string and the same number
  of bytes.\<close>

theorem string_roundtrip:
  assumes "valid_string s" and "length (string_bytes s) \<le> mx" "mx \<le> length buf" "mx < 2 ^ 32"
  shows "\<exists>buf'. XDR_encode_string_array (Ref s) (Some buf) mx = ERet 0 (length (string_bytes s)) (Some buf')
    \<and> 4 dvd length (string_bytes s)
    \<and> drop (length (string_bytes s)) buf' = drop (length (string_bytes s)) buf
    \<and> XDR_decode_string_array (\<lambda>_. True) buf' mx = DOk (length (string_bytes s)) s"
proof -
  have "4 dvd length (string_bytes s)" using pad4_dvd [of "length s"] by (simp add: length_string_bytes)
  then show ?thesis
    using str.enc_fits [OF assms] str.dec_fits [OF assms(1,2,4), of "drop (length (string_bytes s)) buf"] by auto
qed

theorem string_roundtrip_witness:
  "\<exists>buf'. XDR_encode_string_array (Ref [65, 66, 67, 68, 69]) (Some (replicate 16 7)) 14 = ERet 0 12 (Some buf')
     \<and> XDR_decode_string_array (\<lambda>_. True) buf' 14 = DOk 12 [65, 66, 67, 68, 69]"
proof -
  have v: "valid_string [65, 66, 67, 68, 69]" by (simp add: valid_string_def)
  have l: "length (string_bytes [65, 66, 67, 68, 69]) = 12" by (simp add: length_string_bytes)
  from string_roundtrip [OF v, of 14 "replicate 16 7"] l show ?thesis by auto
qed

end
