(* ===== verification/Xdr_Bits.thy ===== *)
theory Xdr_Bits
  imports Xdr_Correct
begin

unbundle bit_operations_syntax

text \<open>Opaque byte arrays and bit-field structures of \<open>xdr.c\<close>: their results on every length, and
  the round trip of bit fields that do not overlap.\<close>

section \<open>Byte arrays\<close>

lemma pad_len_nonneg: "0 \<le> n \<Longrightarrow> pad_len n = (4 - n mod 4) mod 4"
proof -
  assume "0 \<le> n"
  then have "n smod 4 = n mod 4" by (simp add: signed_modulo_int_def zsgn_def)
  moreover have "0 \<le> n mod 4" "n mod 4 < 4" by simp_all
  ultimately show ?thesis by (simp add: pad_len_def signed_modulo_int_def zsgn_def)
qed

lemma pad_len_range: "0 \<le> pad_len n \<and> pad_len n < 4"
proof -
  have "\<bar>n smod 4\<bar> < 4" by (simp add: signed_modulo_int_def zsgn_def abs_mult)
  then have "0 < 4 - n smod 4" by linarith
  then show ?thesis by (simp add: pad_len_def signed_modulo_int_def zsgn_def)
qed

lemma pad_len_small_neg: "pad_len (-1) = 1" "pad_len (-2) = 2" "pad_len (-3) = 3"
  by (simp_all add: pad_len_def signed_modulo_int_def zsgn_def)

lemma size_of_neg: "- (2 ^ 63) \<le> x \<Longrightarrow> x < 0 \<Longrightarrow> size_of_int x = nat (x + 2 ^ 64)"
proof -
  assume x: "- (2 ^ 63) \<le> x" "x < 0"
  have "x mod 2 ^ 64 = (x + 2 ^ 64) mod 2 ^ 64" by simp
  also have "\<dots> = x + 2 ^ 64" using x by (intro mod_pos_pos_trivial) simp_all
  finally show ?thesis by (simp add: size_of_int_def)
qed

text \<open>The result of \<open>XDR_decode_byte_array\<close> for every length in the range of \<open>int32_t\<close> short of
  overflow. A length that is not negative is accepted only if the padded length is strictly smaller
  than \<open>max\<close>, so that data which fills the buffer exactly is rejected; lengths below -3 are rejected;
  lengths -1, -2 and -3 pass the check and make the copy run out of bounds.\<close>

theorem byte_array_decode_cases:
  assumes len: "- (2 ^ 31) \<le> len" "len < 2 ^ 31 - 4"
    and src: "mx \<le> length src" "length src < 2 ^ 63" and al: "\<forall>n < 2 ^ 31. alloc n"
  shows "XDR_decode_byte_array alloc True src mx len =
    (if 0 \<le> len then
       (if nat (len + pad_len len) < mx then DOk (nat (len + pad_len len)) (take (nat len) src) else DFail (-1) 0)
     else if -3 \<le> len \<and> 0 < mx then DFault else DFail (-1) 0)"
proof (cases "0 \<le> len")
  case True
  have p: "0 \<le> pad_len len" "pad_len len < 4" using pad_len_range [of len] by simp_all
  have s: "size_of_int (len + pad_len len) = nat (len + pad_len len)" "size_of_int len = nat len"
    using True len p by simp_all
  have "nat len \<le> nat (len + pad_len len)" using p by simp
  then show ?thesis using True len p s src al by (auto simp: XDR_decode_byte_array_def Let_def)
next
  case False
  show ?thesis
  proof (cases "-3 \<le> len")
    case True
    then consider "len = -1" | "len = -2" | "len = -3" using False by linarith
    then have "len + pad_len len = 0" by cases (simp_all add: pad_len_small_neg)
    moreover have "size_of_int len = nat (len + 2 ^ 64)" using size_of_neg len False by simp
    ultimately show ?thesis using True False src len by (auto simp: XDR_decode_byte_array_def Let_def)
  next
    case F: False
    have p: "0 \<le> pad_len len" "pad_len len < 4" using pad_len_range [of len] by simp_all
    have neg: "len + pad_len len < 0" using F p by linarith
    have "size_of_int (len + pad_len len) = nat (len + pad_len len + 2 ^ 64)"
      using size_of_neg [of "len + pad_len len"] neg len p by simp
    then have "mx \<le> size_of_int (len + pad_len len)" using src len p by simp
    then show ?thesis using F False neg by (simp add: XDR_decode_byte_array_def Let_def)
  qed
qed

theorem byte_array_decode_cases_witness:
  "XDR_decode_byte_array (\<lambda>_. True) True [1, 2, 3, 4, 5, 6, 7, 8] 8 (-1) = DFault
   \<and> XDR_decode_byte_array (\<lambda>_. True) True [1, 2, 3, 4, 5, 6, 7, 8] 8 3 = DOk 4 [1, 2, 3]
   \<and> XDR_decode_byte_array (\<lambda>_. True) True [1, 2, 3, 4, 5, 6, 7, 8] 8 8 = DFail (-1) 0"
  using byte_array_decode_cases [of "-1" 8 "[1, 2, 3, 4, 5, 6, 7, 8]" "\<lambda>_. True"]
    byte_array_decode_cases [of 3 8 "[1, 2, 3, 4, 5, 6, 7, 8]" "\<lambda>_. True"]
    byte_array_decode_cases [of 8 8 "[1, 2, 3, 4, 5, 6, 7, 8]" "\<lambda>_. True"]
  by (simp add: pad_len_nonneg numeral_3_eq_3)

section \<open>Bit fields\<close>

lemma bf_mask_mask: "bf_mask w = mask w"
  by (simp add: bf_mask_def mask_eq_exp_minus_1)

lemma and_bf_mask: "v AND bf_mask w = take_bit w v"
  by (simp add: bf_mask_mask take_bit_eq_mask)

lemma test_bit_and: "(push_bit n 1 AND v \<noteq> 0) \<longleftrightarrow> bit v n" if "n < 32" for v :: u32
proof -
  have "push_bit n 1 AND v = (if bit v n then push_bit n 1 else 0)"
    by (rule bit_word_eqI) (auto simp: bit_simps)
  moreover have "push_bit n 1 \<noteq> (0 :: u32)" using that by (simp add: push_bit_eq_mult)
  ultimately show ?thesis by simp
qed

lemma decodebf_int32_signed:
  assumes "0 < w" "w < 31"
  shows "XDR_decodebf_int32 v w = Some (signed_take_bit (w - 1) v)"
proof -
  have "(if bit v (w - 1) then (-1) AND NOT (mask w) else 0) OR take_bit w v = signed_take_bit (w - 1) v"
  proof (rule bit_word_eqI)
    fix n assume n: "n < LENGTH(32)"
    have "min (w - Suc 0) n = (if n < w then n else w - Suc 0)" using assms by auto
    then show "bit ((if bit v (w - 1) then (-1) AND NOT (mask w) else 0) OR take_bit w v) n = bit (signed_take_bit (w - 1) v) n"
      using n assms by (auto simp: bit_simps)
  qed
  then show ?thesis using assms test_bit_and [of "w - 1" v]
    by (simp add: XDR_decodebf_int32_def Let_def bf_mask_mask take_bit_eq_mask split: if_splits)
qed

definition bf_value :: "bf_field \<Rightarrow> u32 \<Rightarrow> u32" where
  "bf_value f v = (if bf_signed f then signed_take_bit (bf_width f - 1) v else take_bit (bf_width f) v)"

definition bf_ok :: "bf_field \<Rightarrow> bool" where
  "bf_ok f \<longleftrightarrow> 0 < bf_width f \<and> bf_width f < 31 \<and> bf_shift f + bf_width f \<le> 32"

definition bf_disjoint :: "bf_field \<Rightarrow> bf_field \<Rightarrow> bool" where
  "bf_disjoint f g \<longleftrightarrow> bf_shift f + bf_width f \<le> bf_shift g \<or> bf_shift g + bf_width g \<le> bf_shift f"

lemma bf_decode_value:
  assumes "bf_ok f"
  shows "bf_decode f val = Some (bf_value f (drop_bit (bf_shift f) val))"
proof -
  have "signed_take_bit (bf_width f - 1) (take_bit (bf_width f) v) = signed_take_bit (bf_width f - 1) v" for v :: u32
    by (rule bit_word_eqI) (use assms in \<open>auto simp: bit_simps bf_ok_def min_def\<close>)
  then show ?thesis using assms
    by (auto simp: bf_decode_def bf_ok_def bf_value_def Let_def and_bf_mask decodebf_int32_signed XDR_decodebf_uint32_def)
qed

text \<open>The word that holds the fields is the union of their shifted values.\<close>

fun bf_word :: "bf_field list \<Rightarrow> u32 list \<Rightarrow> u32" where
  "bf_word (f # fs) (v # vs) = push_bit (bf_shift f) (take_bit (bf_width f) v) OR bf_word fs vs"
| "bf_word _ _ = 0"

lemma bf_encode_word:
  assumes "length vs = length fs" "\<forall>f \<in> set fs. bf_ok f"
  shows "bf_encode_all fs vs val = Some (val OR bf_word fs vs)"
  using assms
proof (induction fs vs val rule: bf_encode_all.induct)
  case (3 f fs v vs val)
  then show ?case by (simp add: bf_ok_def XDR_encodebf_uint32_def and_bf_mask or.assoc)
qed auto

lemma bf_word_bit:
  assumes "length vs = length fs" "\<forall>g \<in> set fs. bf_disjoint f g" "n < bf_width f"
  shows "\<not> bit (bf_word fs vs) (bf_shift f + n)"
  using assms
  by (induction fs vs rule: bf_word.induct) (auto simp: bit_simps bf_disjoint_def)

lemma bf_value_cong:
  "(\<And>n. n < bf_width f \<Longrightarrow> bit a n = bit b n) \<Longrightarrow> 0 < bf_width f \<Longrightarrow> bf_value f a = bf_value f b"
  unfolding bf_value_def by (auto intro!: bit_word_eqI simp: bit_simps min_def)

lemma bf_decode_word:
  assumes "length vs = length fs" "\<forall>f \<in> set fs. bf_ok f" "sorted_wrt bf_disjoint fs"
    and "\<forall>f \<in> set fs. \<forall>n < bf_width f. \<not> bit acc (bf_shift f + n)"
  shows "bf_decode_all fs (acc OR bf_word fs vs) = Some (map2 bf_value fs vs)"
  using assms
proof (induction fs vs arbitrary: acc rule: bf_word.induct)
  case (1 f fs v vs)
  let ?p = "push_bit (bf_shift f) (take_bit (bf_width f) v)"
  have f: "bf_ok f" "\<forall>g \<in> set fs. bf_disjoint f g" "length vs = length fs" using "1.prems" by simp_all
  have "bit (drop_bit (bf_shift f) (acc OR ?p OR bf_word fs vs)) n = bit v n" if "n < bf_width f" for n
    using bf_word_bit [OF f(3,2) that] "1.prems"(4) that f(1) by (auto simp: bit_simps bf_ok_def)
  then have "bf_value f (drop_bit (bf_shift f) (acc OR ?p OR bf_word fs vs)) = bf_value f v"
    using f(1) by (intro bf_value_cong) (simp_all add: bf_ok_def)
  then have d: "bf_decode f (acc OR ?p OR bf_word fs vs) = Some (bf_value f v)"
    using bf_decode_value [OF f(1)] by simp
  have "\<not> bit (acc OR ?p) (bf_shift g + n)" if "g \<in> set fs" "n < bf_width g" for g n
    using f(2) that "1.prems"(4) by (auto simp: bit_simps bf_disjoint_def)
  then have "bf_decode_all fs ((acc OR ?p) OR bf_word fs vs) = Some (map2 bf_value fs vs)"
    using "1.IH" [of "acc OR ?p"] "1.prems" by simp
  then show ?case using d by (simp add: or.assoc)
qed auto

text \<open>When the fields of a bit-field structure do not overlap and have between 1 and 30 bits,
  the structure is encoded into one 32-bit word from which the decoder gets every value back that
  its field can hold: unsigned values below \<open>2 ^ width\<close>, signed values in two's complement of that width.\<close>

theorem bitfield_struct_roundtrip:
  assumes "length vs = length fs" "\<forall>f \<in> set fs. bf_ok f" "sorted_wrt bf_disjoint fs"
    and fit: "\<forall>(f, v) \<in> set (zip fs vs). bf_value f v = v"
    and mx: "4 \<le> mx" "mx \<le> length buf"
  shows "\<exists>buf'. XDR_bitfield_struct_encoder (Some fs) vs (Some buf) mx = ERet 0 4 (Some buf')
    \<and> drop 4 buf' = drop 4 buf \<and> XDR_bitfield_struct_decoder (Some fs) buf' mx = DOk 4 vs"
proof -
  let ?w = "bf_word fs vs"
  have e: "bf_encode_all fs vs 0 = Some ?w" using bf_encode_word [OF assms(1,2), of 0] by simp
  have "map2 bf_value fs vs = map2 (\<lambda>_ v. v) fs vs" using fit by (intro map_cong) auto
  also have "\<dots> = vs" using assms(1) by (simp add: map_snd_zip case_prod_unfold)
  finally have d: "bf_decode_all fs ?w = Some vs" using bf_decode_word [OF assms(1-3), of 0] by simp
  have "XDR_encode_uint32 (Ref ?w) (Some buf) mx = ERet 0 4 (Some (be32 ?w @ drop 4 buf))"
    using mx by (simp add: XDR_encode_uint32_def put_def)
  moreover have "XDR_decode_uint32 (be32 ?w @ drop 4 buf) mx = DOk 4 ?w" using mx by (simp add: XDR_decode_uint32_def)
  ultimately show ?thesis using e d by (simp add: XDR_bitfield_struct_encoder_def XDR_bitfield_struct_decoder_def)
qed

theorem bitfield_struct_roundtrip_witness:
  "\<exists>buf'. XDR_bitfield_struct_encoder (Some [\<lparr>bf_shift = 0, bf_width = 4, bf_signed = True\<rparr>, \<lparr>bf_shift = 4, bf_width = 3, bf_signed = False\<rparr>])
      [-2, 5] (Some (replicate 4 0)) 4 = ERet 0 4 (Some buf')
    \<and> XDR_bitfield_struct_decoder (Some [\<lparr>bf_shift = 0, bf_width = 4, bf_signed = True\<rparr>, \<lparr>bf_shift = 4, bf_width = 3, bf_signed = False\<rparr>])
      buf' 4 = DOk 4 [-2, 5]"
proof -
  let ?fs = "[\<lparr>bf_shift = 0, bf_width = 4, bf_signed = True\<rparr>, \<lparr>bf_shift = 4, bf_width = 3, bf_signed = False\<rparr>]"
  have "signed_take_bit 3 (-2) = (-2 :: u32)" "take_bit 3 5 = (5 :: u32)" by code_simp+
  then show ?thesis
    using bitfield_struct_roundtrip [of "[-2, 5]" ?fs 4 "replicate 4 0"]
    by (auto simp: bf_ok_def bf_disjoint_def bf_value_def)
qed

end
