(* ===== verification/Packets.thy ===== *)
theory Packets
  imports Xdr
begin

text \<open>
  The packets of the interprocess protocol as \<open>docs/cmd-pkt.h\<close> and \<open>docs/cmd-pkt.c\<close> lay them out: a
  record per structure, its field table, and its encoder and decoder, which are the generic ones of
  \<open>xdr.c\<close> on that table. A pointer field is a \<open>cptr\<close>; \<open>alloc\<close> says for which sizes \<open>malloc\<close> succeeds.

  The payload of a union is one of the structures without a union of its own (\<open>ipc_value\<close>); commands
  and responses nested in a payload are not covered by \<open>ipc_defs\<close>.
\<close>

section \<open>Numbers\<close>

definition IPC_CMD_BASE :: u32 where "IPC_CMD_BASE = 256"
definition IPC_TYPE_BASE :: u32 where "IPC_TYPE_BASE = 16777472"
definition IPC_ERR_BASE :: u32 where "IPC_ERR_BASE = 33554688"

definition IPC_CMDS_RESPONSE :: u32 where "IPC_CMDS_RESPONSE = IPC_CMD_BASE + 0"
definition IPC_CMDS_STATUS :: u32 where "IPC_CMDS_STATUS = IPC_CMD_BASE + 1"
definition IPC_CMDS_DATA_REQ :: u32 where "IPC_CMDS_DATA_REQ = IPC_CMD_BASE + 2"

definition IPC_TYPES_VOID :: u32 where "IPC_TYPES_VOID = 0"
definition IPC_TYPES_OPAQUE_STRUCT :: u32 where "IPC_TYPES_OPAQUE_STRUCT = IPC_TYPE_BASE + 1"
definition IPC_TYPES_OPAQUE_STRUCT_ARR :: u32 where "IPC_TYPES_OPAQUE_STRUCT_ARR = IPC_TYPE_BASE + 2"
definition IPC_TYPES_DATAREQ :: u32 where "IPC_TYPES_DATAREQ = IPC_TYPE_BASE + 5"
definition IPC_TYPES_RESPONSE_HDR :: u32 where "IPC_TYPES_RESPONSE_HDR = IPC_TYPE_BASE + 6"
definition IPC_TYPES_HEARTBEAT :: u32 where "IPC_TYPES_HEARTBEAT = IPC_TYPE_BASE + 7"
definition IPC_TYPES_POPULATOR_ERROR :: u32 where "IPC_TYPES_POPULATOR_ERROR = IPC_TYPE_BASE + 8"

definition IPC_RESULTCODE_SUCCESS :: u32 where "IPC_RESULTCODE_SUCCESS = IPC_ERR_BASE + 0"
definition IPC_RESULTCODE_INCORRECT_PARAMETER_TYPE :: u32 where
  "IPC_RESULTCODE_INCORRECT_PARAMETER_TYPE = IPC_ERR_BASE + 1"
definition IPC_RESULTCODE_UNSUPPORTED :: u32 where "IPC_RESULTCODE_UNSUPPORTED = IPC_ERR_BASE + 2"
definition IPC_RESULTCODE_ALLOCATION_ERR :: u32 where "IPC_RESULTCODE_ALLOCATION_ERR = IPC_ERR_BASE + 3"

lemmas ipc_numbers = IPC_CMD_BASE_def IPC_TYPE_BASE_def IPC_ERR_BASE_def IPC_CMDS_RESPONSE_def IPC_CMDS_STATUS_def
  IPC_CMDS_DATA_REQ_def IPC_TYPES_VOID_def IPC_TYPES_OPAQUE_STRUCT_def IPC_TYPES_OPAQUE_STRUCT_ARR_def
  IPC_TYPES_DATAREQ_def IPC_TYPES_RESPONSE_HDR_def IPC_TYPES_HEARTBEAT_def IPC_TYPES_POPULATOR_ERROR_def IPC_RESULTCODE_SUCCESS_def
  IPC_RESULTCODE_INCORRECT_PARAMETER_TYPE_def IPC_RESULTCODE_UNSUPPORTED_def IPC_RESULTCODE_ALLOCATION_ERR_def

section \<open>Structures\<close>

record IPC_Void =
  vd_voidfield :: u32

record IPC_Heartbeat =
  hb_commands :: u64
  hb_responses :: u64
  hb_heartbeats :: u64

record IPC_DataReq =
  dr_length :: u32
  dr_reqs :: "u32 list cptr"

record IPC_OpaqueStruct =
  os_length :: u32
  os_data :: "u8 list cptr"

record IPC_OpaqueStructArr =
  oa_length :: u32
  oa_structs :: "IPC_OpaqueStruct list cptr"

record IPC_ResponseHeader =
  rh_cmd :: u32
  rh_ipcref :: u32
  rh_result :: u32

record IPC_PopulatorError =
  pe_type :: u32
  pe_error :: u32

datatype ipc_value =
    V_Void IPC_Void
  | V_Heartbeat IPC_Heartbeat
  | V_DataReq IPC_DataReq
  | V_OpaqueStruct IPC_OpaqueStruct
  | V_OpaqueStructArr IPC_OpaqueStructArr
  | V_ResponseHeader IPC_ResponseHeader
  | V_PopulatorError IPC_PopulatorError

record IPC_Command =
  ic_cmd :: u32
  ic_ipcref :: u32
  ic_parameters :: "ipc_value XDR_Union"

record IPC_Response =
  ir_cmd :: u32
  ir_ipcref :: u32
  ir_result :: u32
  ir_data :: "ipc_value XDR_Union"

section \<open>Field tables\<close>

fun map_dec :: "('a \<Rightarrow> 'b) \<Rightarrow> 'a dec_res \<Rightarrow> 'b dec_res" where
  "map_dec f DFault = DFault"
| "map_dec f (DFail r u) = DFail r u"
| "map_dec f (DOk u x) = DOk u (f x)"

definition scalar_field :: "bool \<Rightarrow> 'f encoder \<Rightarrow> 'f decoder \<Rightarrow> ('s \<Rightarrow> 'f) \<Rightarrow> ('f \<Rightarrow> 's \<Rightarrow> 's) \<Rightarrow> 's XDR_Field" where
  "scalar_field first enc dec get upd =
     \<lparr>xf_encoder = (\<lambda>p. enc (field_ptr first get p)),
      xf_decoder = (\<lambda>s src mx. map_dec (\<lambda>v. upd v s) (dec src mx))\<rparr>"

text \<open>An array field reads its length through \<open>src + len_offset\<close>.\<close>

definition uint32_array_field ::
  "(nat \<Rightarrow> bool) \<Rightarrow> ('s \<Rightarrow> u32) \<Rightarrow> ('s \<Rightarrow> u32 list cptr) \<Rightarrow> (u32 list cptr \<Rightarrow> 's \<Rightarrow> 's) \<Rightarrow> 's XDR_Field" where
  "uint32_array_field alloc len get upd =
     \<lparr>xf_encoder = (\<lambda>p d mx. case p of Ref s \<Rightarrow> XDR_encode_uint32_array (get s) d mx (Some (sint (len s))) | _ \<Rightarrow> EFault),
      xf_decoder = (\<lambda>s src mx. map_dec (\<lambda>v. case v of None \<Rightarrow> s | Some xs \<Rightarrow> upd (Ref xs) s)
                                 (XDR_decode_uint32_array alloc src mx (Some (sint (len s)))))\<rparr>"

definition byte_array_field ::
  "(nat \<Rightarrow> bool) \<Rightarrow> ('s \<Rightarrow> u32) \<Rightarrow> ('s \<Rightarrow> u8 list cptr) \<Rightarrow> (u8 list cptr \<Rightarrow> 's \<Rightarrow> 's) \<Rightarrow> 's XDR_Field" where
  "byte_array_field alloc len get upd =
     \<lparr>xf_encoder = (\<lambda>p d mx. case p of Ref s \<Rightarrow> XDR_encode_byte_array (get s) d mx (sint (len s)) | _ \<Rightarrow> EFault),
      xf_decoder = (\<lambda>s src mx. map_dec (\<lambda>v. upd (Ref v) s) (XDR_decode_byte_array alloc True src mx (sint (len s))))\<rparr>"

definition IPC_Void_Fields :: "IPC_Void XDR_Field list" where
  "IPC_Void_Fields = []"

definition IPC_Heartbeat_Fields :: "IPC_Heartbeat XDR_Field list" where
  "IPC_Heartbeat_Fields =
     [scalar_field True XDR_encode_uint64 XDR_decode_uint64 hb_commands (\<lambda>v s. s\<lparr>hb_commands := v\<rparr>),
      scalar_field False XDR_encode_uint64 XDR_decode_uint64 hb_responses (\<lambda>v s. s\<lparr>hb_responses := v\<rparr>),
      scalar_field False XDR_encode_uint64 XDR_decode_uint64 hb_heartbeats (\<lambda>v s. s\<lparr>hb_heartbeats := v\<rparr>)]"

definition IPC_DataReq_Fields :: "(nat \<Rightarrow> bool) \<Rightarrow> IPC_DataReq XDR_Field list" where
  "IPC_DataReq_Fields alloc =
     [scalar_field True XDR_encode_int32 XDR_decode_int32 dr_length (\<lambda>v s. s\<lparr>dr_length := v\<rparr>),
      uint32_array_field alloc dr_length dr_reqs (\<lambda>v s. s\<lparr>dr_reqs := v\<rparr>)]"

definition IPC_OpaqueStruct_Fields :: "(nat \<Rightarrow> bool) \<Rightarrow> IPC_OpaqueStruct XDR_Field list" where
  "IPC_OpaqueStruct_Fields alloc =
     [scalar_field True XDR_encode_int32 XDR_decode_int32 os_length (\<lambda>v s. s\<lparr>os_length := v\<rparr>),
      byte_array_field alloc os_length os_data (\<lambda>v s. s\<lparr>os_data := v\<rparr>)]"

definition IPC_OpaqueStruct_encode :: "(nat \<Rightarrow> bool) \<Rightarrow> IPC_OpaqueStruct encoder" where
  "IPC_OpaqueStruct_encode alloc = XDR_struct_encoder (Some (IPC_OpaqueStruct_Fields alloc))"

text \<open>The structures of a decoded array lie in memory fresh from \<open>malloc\<close>; every field of a
  structure is written before it is read, so that the initial contents (\<open>zero_*\<close>) do not matter.\<close>

definition zero_OpaqueStruct :: IPC_OpaqueStruct where
  "zero_OpaqueStruct = \<lparr>os_length = 0, os_data = Null\<rparr>"

definition IPC_OpaqueStruct_decode :: "(nat \<Rightarrow> bool) \<Rightarrow> IPC_OpaqueStruct \<Rightarrow> IPC_OpaqueStruct decoder" where
  "IPC_OpaqueStruct_decode alloc = XDR_struct_decoder (Some (IPC_OpaqueStruct_Fields alloc))"

definition IPC_OpaqueStruct_encode_array ::
  "(nat \<Rightarrow> bool) \<Rightarrow> IPC_OpaqueStruct list cptr \<Rightarrow> u8 list option \<Rightarrow> nat \<Rightarrow> int option \<Rightarrow> enc_res" where
  "IPC_OpaqueStruct_encode_array alloc = encode_array_field (IPC_OpaqueStruct_encode alloc)"

definition IPC_OpaqueStruct_decode_array ::
  "(nat \<Rightarrow> bool) \<Rightarrow> u8 list \<Rightarrow> nat \<Rightarrow> int option \<Rightarrow> IPC_OpaqueStruct list option dec_res" where
  "IPC_OpaqueStruct_decode_array alloc = decode_array_field alloc 16 (IPC_OpaqueStruct_decode alloc zero_OpaqueStruct)"

definition IPC_OpaqueStructArr_Fields :: "(nat \<Rightarrow> bool) \<Rightarrow> IPC_OpaqueStructArr XDR_Field list" where
  "IPC_OpaqueStructArr_Fields alloc =
     [scalar_field True XDR_encode_int32 XDR_decode_int32 oa_length (\<lambda>v s. s\<lparr>oa_length := v\<rparr>),
      \<lparr>xf_encoder = (\<lambda>p d mx. case p of
           Ref s \<Rightarrow> IPC_OpaqueStruct_encode_array alloc (oa_structs s) d mx (Some (sint (oa_length s))) | _ \<Rightarrow> EFault),
       xf_decoder = (\<lambda>s src mx. map_dec (\<lambda>v. case v of None \<Rightarrow> s | Some xs \<Rightarrow> s\<lparr>oa_structs := Ref xs\<rparr>)
                                  (IPC_OpaqueStruct_decode_array alloc src mx (Some (sint (oa_length s)))))\<rparr>]"

definition IPC_ResponseHeader_Fields :: "IPC_ResponseHeader XDR_Field list" where
  "IPC_ResponseHeader_Fields =
     [scalar_field True XDR_encode_uint32 XDR_decode_uint32 rh_cmd (\<lambda>v s. s\<lparr>rh_cmd := v\<rparr>),
      scalar_field False XDR_encode_uint32 XDR_decode_uint32 rh_ipcref (\<lambda>v s. s\<lparr>rh_ipcref := v\<rparr>),
      scalar_field False XDR_encode_uint32 XDR_decode_uint32 rh_result (\<lambda>v s. s\<lparr>rh_result := v\<rparr>)]"

text \<open>\<open>PopulatorError\<close> is in the schema \<open>cmd-pkt.xp\<close> but not yet in the generated files of \<open>docs\<close>; its two enumerations are
  laid out as those of the other structures.\<close>

definition IPC_PopulatorError_Fields :: "IPC_PopulatorError XDR_Field list" where
  "IPC_PopulatorError_Fields =
     [scalar_field True XDR_encode_uint32 XDR_decode_uint32 pe_type (\<lambda>v s. s\<lparr>pe_type := v\<rparr>),
      scalar_field False XDR_encode_uint32 XDR_decode_uint32 pe_error (\<lambda>v s. s\<lparr>pe_error := v\<rparr>)]"

section \<open>Encoders and decoders\<close>

definition IPC_Void_encode :: "IPC_Void encoder" where
  "IPC_Void_encode = XDR_struct_encoder (Some IPC_Void_Fields)"
definition IPC_Void_decode :: "IPC_Void \<Rightarrow> IPC_Void decoder" where
  "IPC_Void_decode = XDR_struct_decoder (Some IPC_Void_Fields)"
definition IPC_Heartbeat_encode :: "IPC_Heartbeat encoder" where
  "IPC_Heartbeat_encode = XDR_struct_encoder (Some IPC_Heartbeat_Fields)"
definition IPC_Heartbeat_decode :: "IPC_Heartbeat \<Rightarrow> IPC_Heartbeat decoder" where
  "IPC_Heartbeat_decode = XDR_struct_decoder (Some IPC_Heartbeat_Fields)"
definition IPC_DataReq_encode :: "(nat \<Rightarrow> bool) \<Rightarrow> IPC_DataReq encoder" where
  "IPC_DataReq_encode alloc = XDR_struct_encoder (Some (IPC_DataReq_Fields alloc))"
definition IPC_DataReq_decode :: "(nat \<Rightarrow> bool) \<Rightarrow> IPC_DataReq \<Rightarrow> IPC_DataReq decoder" where
  "IPC_DataReq_decode alloc = XDR_struct_decoder (Some (IPC_DataReq_Fields alloc))"
definition IPC_OpaqueStructArr_encode :: "(nat \<Rightarrow> bool) \<Rightarrow> IPC_OpaqueStructArr encoder" where
  "IPC_OpaqueStructArr_encode alloc = XDR_struct_encoder (Some (IPC_OpaqueStructArr_Fields alloc))"
definition IPC_OpaqueStructArr_decode :: "(nat \<Rightarrow> bool) \<Rightarrow> IPC_OpaqueStructArr \<Rightarrow> IPC_OpaqueStructArr decoder" where
  "IPC_OpaqueStructArr_decode alloc = XDR_struct_decoder (Some (IPC_OpaqueStructArr_Fields alloc))"
definition IPC_ResponseHeader_encode :: "IPC_ResponseHeader encoder" where
  "IPC_ResponseHeader_encode = XDR_struct_encoder (Some IPC_ResponseHeader_Fields)"
definition IPC_ResponseHeader_decode :: "IPC_ResponseHeader \<Rightarrow> IPC_ResponseHeader decoder" where
  "IPC_ResponseHeader_decode = XDR_struct_decoder (Some IPC_ResponseHeader_Fields)"

definition IPC_PopulatorError_encode :: "IPC_PopulatorError encoder" where
  "IPC_PopulatorError_encode = XDR_struct_encoder (Some IPC_PopulatorError_Fields)"
definition IPC_PopulatorError_decode :: "IPC_PopulatorError \<Rightarrow> IPC_PopulatorError decoder" where
  "IPC_PopulatorError_decode = XDR_struct_decoder (Some IPC_PopulatorError_Fields)"

section \<open>The definitions a union refers to\<close>

text \<open>\<open>XDR_malloc_allocator\<close> gives zeroed memory, or \<open>NULL\<close> for a size of 0 or when memory is short.\<close>

definition XDR_malloc_allocator :: "(nat \<Rightarrow> bool) \<Rightarrow> nat \<Rightarrow> bool" where
  "XDR_malloc_allocator alloc in_memory_size \<longleftrightarrow> in_memory_size \<noteq> 0 \<and> alloc in_memory_size"

definition value_def :: "bool \<Rightarrow> ('s \<Rightarrow> ipc_value) \<Rightarrow> (ipc_value \<Rightarrow> 's option) \<Rightarrow> 's encoder \<Rightarrow> 's decoder \<Rightarrow> ipc_value xdr_def" where
  "value_def ok wrap unwrap enc dec =
     \<lparr>xd_encoder = Some (\<lambda>p. enc (case p of
         Ref v \<Rightarrow> (case unwrap v of Some s \<Rightarrow> Ref s | None \<Rightarrow> Wild) | Null \<Rightarrow> Null | Wild \<Rightarrow> Wild)),
      xd_decoder = Some (\<lambda>src mx. map_dec wrap (dec src mx)),
      xd_allocator = ok\<rparr>"

definition zero_Void :: IPC_Void where "zero_Void = \<lparr>vd_voidfield = 0\<rparr>"
definition zero_Heartbeat :: IPC_Heartbeat where "zero_Heartbeat = \<lparr>hb_commands = 0, hb_responses = 0, hb_heartbeats = 0\<rparr>"
definition zero_DataReq :: IPC_DataReq where "zero_DataReq = \<lparr>dr_length = 0, dr_reqs = Null\<rparr>"
definition zero_OpaqueStructArr :: IPC_OpaqueStructArr where "zero_OpaqueStructArr = \<lparr>oa_length = 0, oa_structs = Null\<rparr>"
definition zero_ResponseHeader :: IPC_ResponseHeader where "zero_ResponseHeader = \<lparr>rh_cmd = 0, rh_ipcref = 0, rh_result = 0\<rparr>"

definition zero_PopulatorError :: IPC_PopulatorError where "zero_PopulatorError = \<lparr>pe_type = 0, pe_error = 0\<rparr>"

text \<open>What \<open>IPC_structs_constructor\<close> registers, for the payload types above.\<close>

definition ipc_defs :: "(nat \<Rightarrow> bool) \<Rightarrow> u32 \<Rightarrow> ipc_value xdr_def option" where
  "ipc_defs alloc ty =
     (if ty = IPC_TYPES_VOID then
        Some (value_def (XDR_malloc_allocator alloc 4) V_Void (\<lambda>v. case v of V_Void s \<Rightarrow> Some s | _ \<Rightarrow> None)
                IPC_Void_encode (IPC_Void_decode zero_Void))
      else if ty = IPC_TYPES_HEARTBEAT then
        Some (value_def (XDR_malloc_allocator alloc 24) V_Heartbeat (\<lambda>v. case v of V_Heartbeat s \<Rightarrow> Some s | _ \<Rightarrow> None)
                IPC_Heartbeat_encode (IPC_Heartbeat_decode zero_Heartbeat))
      else if ty = IPC_TYPES_DATAREQ then
        Some (value_def (XDR_malloc_allocator alloc 16) V_DataReq (\<lambda>v. case v of V_DataReq s \<Rightarrow> Some s | _ \<Rightarrow> None)
                (IPC_DataReq_encode alloc) (IPC_DataReq_decode alloc zero_DataReq))
      else if ty = IPC_TYPES_OPAQUE_STRUCT then
        Some (value_def (XDR_malloc_allocator alloc 16) V_OpaqueStruct (\<lambda>v. case v of V_OpaqueStruct s \<Rightarrow> Some s | _ \<Rightarrow> None)
                (IPC_OpaqueStruct_encode alloc) (IPC_OpaqueStruct_decode alloc zero_OpaqueStruct))
      else if ty = IPC_TYPES_OPAQUE_STRUCT_ARR then
        Some (value_def (XDR_malloc_allocator alloc 16) V_OpaqueStructArr (\<lambda>v. case v of V_OpaqueStructArr s \<Rightarrow> Some s | _ \<Rightarrow> None)
                (IPC_OpaqueStructArr_encode alloc) (IPC_OpaqueStructArr_decode alloc zero_OpaqueStructArr))
      else if ty = IPC_TYPES_RESPONSE_HDR then
        Some (value_def (XDR_malloc_allocator alloc 12) V_ResponseHeader (\<lambda>v. case v of V_ResponseHeader s \<Rightarrow> Some s | _ \<Rightarrow> None)
                IPC_ResponseHeader_encode (IPC_ResponseHeader_decode zero_ResponseHeader))
      else if ty = IPC_TYPES_POPULATOR_ERROR then
        Some (value_def (XDR_malloc_allocator alloc 8) V_PopulatorError (\<lambda>v. case v of V_PopulatorError s \<Rightarrow> Some s | _ \<Rightarrow> None)
                IPC_PopulatorError_encode (IPC_PopulatorError_decode zero_PopulatorError))
      else None)"

section \<open>Commands and responses\<close>

definition union_field ::
  "(u32 \<Rightarrow> 'v xdr_def option) \<Rightarrow> ('s \<Rightarrow> 'v XDR_Union) \<Rightarrow> ('v XDR_Union \<Rightarrow> 's \<Rightarrow> 's) \<Rightarrow> 's XDR_Field" where
  "union_field defs get upd = scalar_field False (XDR_encode_union defs) (XDR_decode_union defs) get upd"

definition IPC_Command_Fields :: "(nat \<Rightarrow> bool) \<Rightarrow> IPC_Command XDR_Field list" where
  "IPC_Command_Fields alloc =
     [scalar_field True XDR_encode_uint32 XDR_decode_uint32 ic_cmd (\<lambda>v s. s\<lparr>ic_cmd := v\<rparr>),
      scalar_field False XDR_encode_uint32 XDR_decode_uint32 ic_ipcref (\<lambda>v s. s\<lparr>ic_ipcref := v\<rparr>),
      union_field (ipc_defs alloc) ic_parameters (\<lambda>v s. s\<lparr>ic_parameters := v\<rparr>)]"

definition IPC_Command_encode :: "(nat \<Rightarrow> bool) \<Rightarrow> IPC_Command encoder" where
  "IPC_Command_encode alloc = XDR_struct_encoder (Some (IPC_Command_Fields alloc))"
definition IPC_Command_decode :: "(nat \<Rightarrow> bool) \<Rightarrow> IPC_Command \<Rightarrow> IPC_Command decoder" where
  "IPC_Command_decode alloc = XDR_struct_decoder (Some (IPC_Command_Fields alloc))"

definition IPC_Response_Fields :: "(nat \<Rightarrow> bool) \<Rightarrow> IPC_Response XDR_Field list" where
  "IPC_Response_Fields alloc =
     [scalar_field True XDR_encode_uint32 XDR_decode_uint32 ir_cmd (\<lambda>v s. s\<lparr>ir_cmd := v\<rparr>),
      scalar_field False XDR_encode_uint32 XDR_decode_uint32 ir_ipcref (\<lambda>v s. s\<lparr>ir_ipcref := v\<rparr>),
      scalar_field False XDR_encode_uint32 XDR_decode_uint32 ir_result (\<lambda>v s. s\<lparr>ir_result := v\<rparr>),
      union_field (ipc_defs alloc) ir_data (\<lambda>v s. s\<lparr>ir_data := v\<rparr>)]"

definition IPC_Response_encode :: "(nat \<Rightarrow> bool) \<Rightarrow> IPC_Response encoder" where
  "IPC_Response_encode alloc = XDR_struct_encoder (Some (IPC_Response_Fields alloc))"
definition IPC_Response_decode :: "(nat \<Rightarrow> bool) \<Rightarrow> IPC_Response \<Rightarrow> IPC_Response decoder" where
  "IPC_Response_decode alloc = XDR_struct_decoder (Some (IPC_Response_Fields alloc))"

end
