(* ===== verification/Packets_Correct.thy ===== *)
theory Packets_Correct
  imports Packets Xdr_Correct
begin

text \<open>
  Round trips of the packets. A structure is a codec when its fields are, one after the other, with
  the decoder of a field seeing what the fields before it have stored (\<open>struct_codec\<close>); a union is a
  codec when the definitions it may refer to are (\<open>union_codec\<close>). The field tables of the protocol are
  interpreted in these locales.
\<close>

section \<open>Structures\<close>

definition field_ok :: "nat \<Rightarrow> 's XDR_Field \<Rightarrow> 's \<Rightarrow> u8 list \<Rightarrow> 's \<Rightarrow> 's \<Rightarrow> bool" where
  "field_ok lim f s bs d d' \<longleftrightarrow>
     (\<forall>mx buf. length bs \<le> mx \<longrightarrow> mx \<le> length buf \<longrightarrow> mx < lim \<longrightarrow>
        xf_encoder f (Ref s) (Some buf) mx = ERet 0 (length bs) (Some (bs @ drop (length bs) buf)))
     \<and> (\<forall>mx rest. length bs \<le> mx \<longrightarrow> mx < lim \<longrightarrow> xf_decoder f d (bs @ rest) mx = DOk (length bs) d')"

fun fields_ok :: "nat \<Rightarrow> 's XDR_Field list \<Rightarrow> 's \<Rightarrow> u8 list list \<Rightarrow> 's list \<Rightarrow> 's \<Rightarrow> bool" where
  "fields_ok lim [] s [] [] d \<longleftrightarrow> d = s"
| "fields_ok lim (f # fs) s (b # bs) (d' # ds) d \<longleftrightarrow> field_ok lim f s b d d' \<and> fields_ok lim fs s bs ds d'"
| "fields_ok lim _ s _ _ d \<longleftrightarrow> False"

lemma struct_encode_fits:
  assumes "fields_ok lim fs s bs ds d" "off + length (concat bs) \<le> mx" "mx \<le> length buf" "mx < lim" "lim \<le> 2 ^ 64"
  shows "struct_encode fs (Ref s) (Some buf) mx off 0
    = ERet 0 (off + length (concat bs)) (Some (take off buf @ concat bs @ drop (off + length (concat bs)) buf))"
  using assms
proof (induction lim fs s bs ds d arbitrary: off buf rule: fields_ok.induct)
  case (2 lim f fs s b bs d' ds d)
  let ?n = "length b" let ?buf = "take off buf @ b @ drop (off + ?n) buf"
  have sub: "size_sub mx off = mx - off" using "2.prems" by simp
  have fit: "?n \<le> mx - off" "mx - off \<le> length (drop off buf)" "mx - off < lim" using "2.prems" by auto
  have f: "xf_encoder f (Ref s) (Some (drop off buf)) (mx - off) = ERet 0 ?n (Some (b @ drop ?n (drop off buf)))"
    using "2.prems"(1) fit by (simp only: fields_ok.simps field_ok_def)
  have e: "enc_at off (\<lambda>d. xf_encoder f (Ref s) d (size_sub mx off)) buf = ERet 0 ?n (Some ?buf)"
    using f sub by (simp add: enc_at_def add.commute)
  have ih: "struct_encode fs (Ref s) (Some ?buf) mx (off + ?n) 0
      = ERet 0 (off + ?n + length (concat bs))
          (Some (take (off + ?n) ?buf @ concat bs @ drop (off + ?n + length (concat bs)) ?buf))"
    by (rule "2.IH") (use "2.prems" in auto)
  have "take (off + ?n) ?buf = take off buf @ b"
    "drop (off + ?n + length (concat bs)) ?buf = drop (off + ?n + length (concat bs)) buf"
    using "2.prems" by (simp_all add: add.commute add.left_commute)
  then show ?case using e ih by (simp add: add.assoc)
qed auto

lemma struct_decode_fits:
  assumes "fields_ok lim fs s bs ds d" "length pre + length (concat bs) \<le> mx" "mx < lim" "lim \<le> 2 ^ 64"
  shows "struct_decode fs (pre @ concat bs @ rest) mx (length pre) d = DOk (length pre + length (concat bs)) s"
  using assms
proof (induction lim fs s bs ds d arbitrary: pre rule: fields_ok.induct)
  case (2 lim f fs s b bs d' ds d)
  have fit: "length b \<le> mx - length pre" "mx - length pre < lim" using "2.prems" by auto
  have f: "xf_decoder f d (b @ concat bs @ rest) (mx - length pre) = DOk (length b) d'"
    using "2.prems"(1) fit by (simp only: fields_ok.simps field_ok_def)
  have "struct_decode fs ((pre @ b) @ concat bs @ rest) mx (length (pre @ b)) d' = DOk (length (pre @ b) + length (concat bs)) s"
    by (rule "2.IH") (use "2.prems" in auto)
  then show ?case using f "2.prems" by (simp add: add.assoc)
qed auto

locale struct_codec =
  fixes fs :: "'s XDR_Field list" and init :: 's and fbytes :: "'s \<Rightarrow> u8 list list"
    and steps :: "'s \<Rightarrow> 's list" and valid :: "'s \<Rightarrow> bool" and lim :: nat
  assumes struct_lim: "lim \<le> 2 ^ 64"
    and struct_fields: "valid s \<Longrightarrow> fields_ok lim fs s (fbytes s) (steps s) init"

sublocale struct_codec \<subseteq>
  rt_codec "XDR_struct_encoder (Some fs)" "XDR_struct_decoder (Some fs) init" "\<lambda>s. concat (fbytes s)" valid lim
proof unfold_locales
  show "lim \<le> 2 ^ 64" by (rule struct_lim)
next
  fix s mx and buf :: "u8 list"
  assume "valid s" "length (concat (fbytes s)) \<le> mx" "mx \<le> length buf" "mx < lim"
  then show "XDR_struct_encoder (Some fs) (Ref s) (Some buf) mx
      = ERet 0 (length (concat (fbytes s))) (Some (concat (fbytes s) @ drop (length (concat (fbytes s))) buf))"
    using struct_encode_fits [OF struct_fields, of s 0 mx buf] struct_lim by (simp add: XDR_struct_encoder_def)
next
  fix s mx rest
  assume "valid s" "length (concat (fbytes s)) \<le> mx" "mx < lim"
  then show "XDR_struct_decoder (Some fs) init (concat (fbytes s) @ rest) mx = DOk (length (concat (fbytes s))) s"
    using struct_decode_fits [OF struct_fields, of s "[]" mx rest] struct_lim by (simp add: XDR_struct_decoder_def)
qed

context rt_codec
begin

lemma scalar_field_ok:
  "valid (get s) \<Longrightarrow> bs = bytes (get s) \<Longrightarrow> d' = upd (get s) d \<Longrightarrow> l \<le> lim \<Longrightarrow>
     field_ok l (scalar_field first enc dec get upd) s bs d d'"
  by (simp add: field_ok_def scalar_field_def field_ptr_def enc_fits dec_fits)

end

lemma uint32_array_field_ok:
  assumes "get s = Ref xs" "sint (len s) = int (length xs)" "len d = len s"
  shows "field_ok (2 ^ 64) (uint32_array_field (\<lambda>_. True) len get upd) s (concat (map be32 xs)) d (upd (Ref xs) d)"
proof -
  have e: "XDR_encode_uint32_array (Ref xs) (Some buf) mx (Some (int (length xs)))
      = ERet 0 (length (concat (map be32 xs))) (Some (concat (map be32 xs) @ drop (length (concat (map be32 xs))) buf))"
    if "length (concat (map be32 xs)) \<le> mx" "mx \<le> length buf" "mx < 2 ^ 64" for mx buf
    using u32.array_encode_fits [of xs 0 mx buf] that
    by (simp add: XDR_encode_uint32_array_def encode_array_field_def XDR_array_encoder_def u32.elem_ptrs)
  have d: "XDR_decode_uint32_array (\<lambda>_. True) (concat (map be32 xs) @ rest) mx (Some (int (length xs)))
      = DOk (length (concat (map be32 xs))) (Some xs)"
    if "length (concat (map be32 xs)) \<le> mx" "mx < 2 ^ 64" for mx rest
    using u32.array_decode_fits [of xs "[]" mx rest "[]"] that
    by (simp add: XDR_decode_uint32_array_def decode_array_field_def XDR_array_decoder_def)
  show ?thesis unfolding field_ok_def uint32_array_field_def using assms e d by simp
qed

interpretation void: struct_codec IPC_Void_Fields zero_Void "\<lambda>_. []" "\<lambda>_. []" "\<lambda>s. s = zero_Void" "2 ^ 64"
  by unfold_locales (simp_all add: IPC_Void_Fields_def)

interpretation heartbeat: struct_codec IPC_Heartbeat_Fields zero_Heartbeat
  "\<lambda>s. [be64 (hb_commands s), be64 (hb_responses s), be64 (hb_heartbeats s)]"
  "\<lambda>s. [zero_Heartbeat\<lparr>hb_commands := hb_commands s\<rparr>,
        zero_Heartbeat\<lparr>hb_commands := hb_commands s, hb_responses := hb_responses s\<rparr>, s]"
  "\<lambda>_. True" "2 ^ 64"
  by unfold_locales
    (simp, auto simp: IPC_Heartbeat_Fields_def zero_Heartbeat_def intro!: u64.scalar_field_ok)

interpretation resphdr: struct_codec IPC_ResponseHeader_Fields init
  "\<lambda>s. [be32 (rh_cmd s), be32 (rh_ipcref s), be32 (rh_result s)]"
  "\<lambda>s. [init\<lparr>rh_cmd := rh_cmd s\<rparr>, init\<lparr>rh_cmd := rh_cmd s, rh_ipcref := rh_ipcref s\<rparr>, s]"
  "\<lambda>_. True" "2 ^ 64" for init
  by unfold_locales
    (simp, auto simp: IPC_ResponseHeader_Fields_def intro!: u32.scalar_field_ok)

interpretation poperr: struct_codec IPC_PopulatorError_Fields init
  "\<lambda>s. [be32 (pe_type s), be32 (pe_error s)]" "\<lambda>s. [init\<lparr>pe_type := pe_type s\<rparr>, s]" "\<lambda>_. True" "2 ^ 64" for init
  by unfold_locales (simp, auto simp: IPC_PopulatorError_Fields_def intro!: u32.scalar_field_ok)

definition reqs_of :: "IPC_DataReq \<Rightarrow> u32 list" where
  "reqs_of s = (case dr_reqs s of Ref xs \<Rightarrow> xs | _ \<Rightarrow> [])"

definition valid_DataReq :: "IPC_DataReq \<Rightarrow> bool" where
  "valid_DataReq s \<longleftrightarrow> dr_reqs s = Ref (reqs_of s) \<and> sint (dr_length s) = int (length (reqs_of s))"

interpretation datareq: struct_codec "IPC_DataReq_Fields (\<lambda>_. True)" zero_DataReq
  "\<lambda>s. [be32 (dr_length s), concat (map be32 (reqs_of s))]"
  "\<lambda>s. [zero_DataReq\<lparr>dr_length := dr_length s\<rparr>, s]" valid_DataReq "2 ^ 64"
proof unfold_locales
  fix s assume v: "valid_DataReq s"
  let ?d = "zero_DataReq\<lparr>dr_length := dr_length s\<rparr>"
  have "field_ok (2 ^ 64) (uint32_array_field (\<lambda>_. True) dr_length dr_reqs (\<lambda>v s. s\<lparr>dr_reqs := v\<rparr>)) s
      (concat (map be32 (reqs_of s))) ?d (?d\<lparr>dr_reqs := Ref (reqs_of s)\<rparr>)"
    by (rule uint32_array_field_ok) (use v in \<open>simp_all add: valid_DataReq_def\<close>)
  moreover have "?d\<lparr>dr_reqs := Ref (reqs_of s)\<rparr> = s" using v by (simp add: valid_DataReq_def zero_DataReq_def)
  ultimately show "fields_ok (2 ^ 64) (IPC_DataReq_Fields (\<lambda>_. True)) s
      [be32 (dr_length s), concat (map be32 (reqs_of s))] [?d, s] zero_DataReq"
    by (auto simp: IPC_DataReq_Fields_def intro!: i32.scalar_field_ok)
qed simp

section \<open>Unions\<close>

locale union_codec =
  fixes defs :: "u32 \<Rightarrow> 'v xdr_def option" and ubytes :: "u32 \<Rightarrow> 'v \<Rightarrow> u8 list" and uvalid :: "u32 \<Rightarrow> 'v \<Rightarrow> bool"
    and lim :: nat
  assumes union_lim: "lim \<le> 2 ^ 64"
    and union_def: "uvalid ty v \<Longrightarrow>
      \<exists>enc dec. defs ty = Some \<lparr>xd_encoder = Some enc, xd_decoder = Some dec, xd_allocator = True\<rparr>
        \<and> rt_codec enc dec (ubytes ty) (uvalid ty) lim"
begin

definition union_value :: "'v XDR_Union \<Rightarrow> 'v" where
  "union_value u = (case un_data u of Ref v \<Rightarrow> v | _ \<Rightarrow> undefined)"

definition union_valid :: "'v XDR_Union \<Rightarrow> bool" where
  "union_valid u \<longleftrightarrow> un_data u = Ref (union_value u) \<and> uvalid (un_type u) (union_value u)"

definition union_bytes :: "'v XDR_Union \<Rightarrow> u8 list" where
  "union_bytes u = be32 (un_type u) @ ubytes (un_type u) (union_value u)"

end

sublocale union_codec \<subseteq> rt_codec "XDR_encode_union defs" "XDR_decode_union defs" union_bytes union_valid lim
proof unfold_locales
  show "lim \<le> 2 ^ 64" by (rule union_lim)
next
  fix u mx and buf :: "u8 list"
  assume u: "union_valid u" and mx: "length (union_bytes u) \<le> mx" "mx \<le> length buf" "mx < lim"
  let ?v = "union_value u" let ?b = "ubytes (un_type u) ?v"
  have v: "un_data u = Ref ?v" "uvalid (un_type u) ?v" using u by (simp_all add: union_valid_def)
  obtain enc dec where d: "defs (un_type u) = Some \<lparr>xd_encoder = Some enc, xd_decoder = Some dec, xd_allocator = True\<rparr>"
    and c: "rt_codec enc dec (ubytes (un_type u)) (uvalid (un_type u)) lim" using union_def [OF v(2)] by auto
  have t: "XDR_encode_uint32 (Ref (un_type u)) (Some buf) mx = ERet 0 4 (Some (be32 (un_type u) @ drop 4 buf))"
    using mx by (simp add: XDR_encode_uint32_def put_def union_bytes_def)
  have "enc (Ref ?v) (Some (drop 4 buf)) (mx - 4) = ERet 0 (length ?b) (Some (?b @ drop (length ?b) (drop 4 buf)))"
    by (rule rt_codec.enc_fits [OF c v(2)]) (use mx in \<open>auto simp: union_bytes_def\<close>)
  then show "XDR_encode_union defs (Ref u) (Some buf) mx
      = ERet 0 (length (union_bytes u)) (Some (union_bytes u @ drop (length (union_bytes u)) buf))"
    using d t v(1) mx union_lim by (simp add: XDR_encode_union_def enc_at_def union_bytes_def add.commute)
next
  fix u mx rest
  assume u: "union_valid u" and mx: "length (union_bytes u) \<le> mx" "mx < lim"
  let ?v = "union_value u" let ?b = "ubytes (un_type u) ?v"
  have v: "un_data u = Ref ?v" "uvalid (un_type u) ?v" using u by (simp_all add: union_valid_def)
  obtain enc dec where d: "defs (un_type u) = Some \<lparr>xd_encoder = Some enc, xd_decoder = Some dec, xd_allocator = True\<rparr>"
    and c: "rt_codec enc dec (ubytes (un_type u)) (uvalid (un_type u)) lim" using union_def [OF v(2)] by auto
  have t: "XDR_decode_uint32 (be32 (un_type u) @ ?b @ rest) mx = DOk 4 (un_type u)"
    using mx by (simp add: XDR_decode_uint32_def union_bytes_def)
  have "dec (?b @ rest) (mx - 4) = DOk (length ?b) ?v"
    by (rule rt_codec.dec_fits [OF c v(2)]) (use mx in \<open>auto simp: union_bytes_def\<close>)
  then show "XDR_decode_union defs (union_bytes u @ rest) mx = DOk (length (union_bytes u)) u"
    using d t v(1) mx union_lim by (simp add: XDR_decode_union_def union_bytes_def)
qed

section \<open>The protocol\<close>

definition ipc_bytes :: "u32 \<Rightarrow> ipc_value \<Rightarrow> u8 list" where
  "ipc_bytes ty v =
     (case v of
        V_Heartbeat s \<Rightarrow> concat [be64 (hb_commands s), be64 (hb_responses s), be64 (hb_heartbeats s)]
      | V_DataReq s \<Rightarrow> concat [be32 (dr_length s), concat (map be32 (reqs_of s))]
      | V_ResponseHeader s \<Rightarrow> concat [be32 (rh_cmd s), be32 (rh_ipcref s), be32 (rh_result s)]
      | V_PopulatorError s \<Rightarrow> concat [be32 (pe_type s), be32 (pe_error s)]
      | _ \<Rightarrow> [])"

definition ipc_valid :: "u32 \<Rightarrow> ipc_value \<Rightarrow> bool" where
  "ipc_valid ty v \<longleftrightarrow>
     (case v of
        V_Void s \<Rightarrow> ty = IPC_TYPES_VOID \<and> s = zero_Void
      | V_Heartbeat s \<Rightarrow> ty = IPC_TYPES_HEARTBEAT
      | V_DataReq s \<Rightarrow> ty = IPC_TYPES_DATAREQ \<and> valid_DataReq s
      | V_ResponseHeader s \<Rightarrow> ty = IPC_TYPES_RESPONSE_HDR
      | V_PopulatorError s \<Rightarrow> ty = IPC_TYPES_POPULATOR_ERROR
      | _ \<Rightarrow> False)"

lemma value_def_codec:
  assumes "rt_codec enc dec b val lim"
    and u: "\<And>v. uv v \<Longrightarrow> \<exists>s. unwrap v = Some s \<and> wrap s = v \<and> val s \<and> ub v = b s"
  shows "rt_codec (the (xd_encoder (value_def ok wrap unwrap enc dec))) (the (xd_decoder (value_def ok wrap unwrap enc dec))) ub uv lim"
proof -
  have "lim \<le> 2 ^ 64" using assms(1) by (rule rt_codec.lim_le)
  moreover have "the (xd_encoder (value_def ok wrap unwrap enc dec)) (Ref v) (Some buf) mx
      = ERet 0 (length (ub v)) (Some (ub v @ drop (length (ub v)) buf))"
    if "uv v" "length (ub v) \<le> mx" "mx \<le> length buf" "mx < lim" for v mx buf
    using u [OF that(1)] that rt_codec.enc_fits [OF assms(1)] by (auto simp: value_def_def)
  moreover have "the (xd_decoder (value_def ok wrap unwrap enc dec)) (ub v @ rest) mx = DOk (length (ub v)) v"
    if "uv v" "length (ub v) \<le> mx" "mx < lim" for v mx rest
    using u [OF that(1)] that rt_codec.dec_fits [OF assms(1)] by (auto simp: value_def_def)
  ultimately show ?thesis by unfold_locales
qed

lemma value_def_parts:
  "value_def ok wrap unwrap enc dec = \<lparr>xd_encoder = Some (the (xd_encoder (value_def ok wrap unwrap enc dec))),
     xd_decoder = Some (the (xd_decoder (value_def ok wrap unwrap enc dec))), xd_allocator = ok\<rparr>"
  by (simp add: value_def_def)

lemma ipc_def_codec:
  assumes "rt_codec enc dec b val (2 ^ 64)" "ipc_defs (\<lambda>_. True) ty = Some (value_def True wrap unwrap enc dec)"
    and "\<And>v. ipc_valid ty v \<Longrightarrow> \<exists>s. unwrap v = Some s \<and> wrap s = v \<and> val s \<and> ipc_bytes ty v = b s"
  shows "\<exists>e d. ipc_defs (\<lambda>_. True) ty = Some \<lparr>xd_encoder = Some e, xd_decoder = Some d, xd_allocator = True\<rparr>
    \<and> rt_codec e d (ipc_bytes ty) (ipc_valid ty) (2 ^ 64)"
  using value_def_codec [OF assms(1,3), where ok = True] assms(2) value_def_parts [of True wrap unwrap enc dec] by metis

lemmas ipc_coders = IPC_Void_encode_def IPC_Void_decode_def IPC_Heartbeat_encode_def IPC_Heartbeat_decode_def
  IPC_DataReq_encode_def IPC_DataReq_decode_def IPC_ResponseHeader_encode_def IPC_ResponseHeader_decode_def
  IPC_PopulatorError_encode_def IPC_PopulatorError_decode_def

lemma ipc_valid_types:
  "ipc_valid IPC_TYPES_VOID v \<Longrightarrow> v = V_Void zero_Void"
  "ipc_valid IPC_TYPES_HEARTBEAT v \<Longrightarrow> \<exists>s. v = V_Heartbeat s"
  "ipc_valid IPC_TYPES_DATAREQ v \<Longrightarrow> \<exists>s. v = V_DataReq s \<and> valid_DataReq s"
  "ipc_valid IPC_TYPES_RESPONSE_HDR v \<Longrightarrow> \<exists>s. v = V_ResponseHeader s"
  "ipc_valid IPC_TYPES_POPULATOR_ERROR v \<Longrightarrow> \<exists>s. v = V_PopulatorError s"
  by (auto simp: ipc_valid_def ipc_numbers split: ipc_value.splits)

lemma ipc_defs_types:
  "ipc_defs (\<lambda>_. True) IPC_TYPES_VOID = Some (value_def True V_Void (\<lambda>v. case v of V_Void s \<Rightarrow> Some s | _ \<Rightarrow> None)
     (XDR_struct_encoder (Some IPC_Void_Fields)) (XDR_struct_decoder (Some IPC_Void_Fields) zero_Void))"
  "ipc_defs (\<lambda>_. True) IPC_TYPES_HEARTBEAT = Some (value_def True V_Heartbeat (\<lambda>v. case v of V_Heartbeat s \<Rightarrow> Some s | _ \<Rightarrow> None)
     (XDR_struct_encoder (Some IPC_Heartbeat_Fields)) (XDR_struct_decoder (Some IPC_Heartbeat_Fields) zero_Heartbeat))"
  "ipc_defs (\<lambda>_. True) IPC_TYPES_DATAREQ = Some (value_def True V_DataReq (\<lambda>v. case v of V_DataReq s \<Rightarrow> Some s | _ \<Rightarrow> None)
     (XDR_struct_encoder (Some (IPC_DataReq_Fields (\<lambda>_. True)))) (XDR_struct_decoder (Some (IPC_DataReq_Fields (\<lambda>_. True))) zero_DataReq))"
  "ipc_defs (\<lambda>_. True) IPC_TYPES_RESPONSE_HDR = Some (value_def True V_ResponseHeader (\<lambda>v. case v of V_ResponseHeader s \<Rightarrow> Some s | _ \<Rightarrow> None)
     (XDR_struct_encoder (Some IPC_ResponseHeader_Fields)) (XDR_struct_decoder (Some IPC_ResponseHeader_Fields) zero_ResponseHeader))"
  "ipc_defs (\<lambda>_. True) IPC_TYPES_POPULATOR_ERROR = Some (value_def True V_PopulatorError (\<lambda>v. case v of V_PopulatorError s \<Rightarrow> Some s | _ \<Rightarrow> None)
     (XDR_struct_encoder (Some IPC_PopulatorError_Fields)) (XDR_struct_decoder (Some IPC_PopulatorError_Fields) zero_PopulatorError))"
  by (simp_all add: ipc_defs_def ipc_numbers XDR_malloc_allocator_def ipc_coders)

interpretation ipc: union_codec "ipc_defs (\<lambda>_. True)" ipc_bytes ipc_valid "2 ^ 64"
proof unfold_locales
  fix ty v assume v: "ipc_valid ty v"
  then consider (1) "ty = IPC_TYPES_VOID" | (2) "ty = IPC_TYPES_HEARTBEAT" | (3) "ty = IPC_TYPES_DATAREQ"
    | (4) "ty = IPC_TYPES_RESPONSE_HDR" | (5) "ty = IPC_TYPES_POPULATOR_ERROR" by (auto simp: ipc_valid_def split: ipc_value.splits)
  then show "\<exists>enc dec. ipc_defs (\<lambda>_. True) ty = Some \<lparr>xd_encoder = Some enc, xd_decoder = Some dec, xd_allocator = True\<rparr>
      \<and> rt_codec enc dec (ipc_bytes ty) (ipc_valid ty) (2 ^ 64)"
  proof cases
    case 1
    show ?thesis unfolding 1
      by (rule ipc_def_codec [OF void.rt_codec_axioms])
        (rule ipc_defs_types, drule ipc_valid_types(1), simp add: ipc_bytes_def)
  next
    case 2
    show ?thesis unfolding 2
      by (rule ipc_def_codec [OF heartbeat.rt_codec_axioms])
        (rule ipc_defs_types, drule ipc_valid_types(2), auto simp: ipc_bytes_def)
  next
    case 3
    show ?thesis unfolding 3
      by (rule ipc_def_codec [OF datareq.rt_codec_axioms])
        (rule ipc_defs_types, drule ipc_valid_types(3), auto simp: ipc_bytes_def)
  next
    case 4
    show ?thesis unfolding 4
      by (rule ipc_def_codec [OF resphdr.rt_codec_axioms])
        (rule ipc_defs_types, drule ipc_valid_types(4), auto simp: ipc_bytes_def)
  next
    case 5
    show ?thesis unfolding 5
      by (rule ipc_def_codec [OF poperr.rt_codec_axioms])
        (rule ipc_defs_types, drule ipc_valid_types(5), auto simp: ipc_bytes_def)
  qed
qed simp

interpretation command: struct_codec "IPC_Command_Fields (\<lambda>_. True)" init
  "\<lambda>s. [be32 (ic_cmd s), be32 (ic_ipcref s), ipc.union_bytes (ic_parameters s)]"
  "\<lambda>s. [init\<lparr>ic_cmd := ic_cmd s\<rparr>, init\<lparr>ic_cmd := ic_cmd s, ic_ipcref := ic_ipcref s\<rparr>, s]"
  "\<lambda>s. ipc.union_valid (ic_parameters s)" "2 ^ 64" for init
  by unfold_locales
    (simp, auto simp: IPC_Command_Fields_def union_field_def intro!: u32.scalar_field_ok ipc.scalar_field_ok)

interpretation response: struct_codec "IPC_Response_Fields (\<lambda>_. True)" init
  "\<lambda>s. [be32 (ir_cmd s), be32 (ir_ipcref s), be32 (ir_result s), ipc.union_bytes (ir_data s)]"
  "\<lambda>s. [init\<lparr>ir_cmd := ir_cmd s\<rparr>, init\<lparr>ir_cmd := ir_cmd s, ir_ipcref := ir_ipcref s\<rparr>,
        init\<lparr>ir_cmd := ir_cmd s, ir_ipcref := ir_ipcref s, ir_result := ir_result s\<rparr>, s]"
  "\<lambda>s. ipc.union_valid (ir_data s)" "2 ^ 64" for init
  by unfold_locales
    (simp, auto simp: IPC_Response_Fields_def union_field_def intro!: u32.scalar_field_ok ipc.scalar_field_ok)

text \<open>C10: a command whose parameter union holds a void, heartbeat, data-request, response-header or populator-error
  structure matching its type number, encoded into a buffer that is large enough, is decoded from that
  buffer as the same command with the same number of bytes used, whatever the target structure held
  before; the buffer behind the packet is untouched.\<close>

theorem command_roundtrip:
  assumes u: "ic_parameters c = \<lparr>un_type = ty, un_data = Ref v\<rparr>" "ipc_valid ty v"
    and mx: "12 + length (ipc_bytes ty v) \<le> mx" "mx \<le> length buf" "mx < 2 ^ 64"
  shows "\<exists>buf'. IPC_Command_encode (\<lambda>_. True) (Ref c) (Some buf) mx = ERet 0 (12 + length (ipc_bytes ty v)) (Some buf')
    \<and> drop (12 + length (ipc_bytes ty v)) buf' = drop (12 + length (ipc_bytes ty v)) buf
    \<and> IPC_Command_decode (\<lambda>_. True) init buf' mx = DOk (12 + length (ipc_bytes ty v)) c"
proof -
  define bs where "bs = concat [be32 (ic_cmd c), be32 (ic_ipcref c), ipc.union_bytes (ic_parameters c)]"
  have v: "ipc.union_valid (ic_parameters c)" using u by (simp add: ipc.union_valid_def ipc.union_value_def)
  have l: "length bs = 12 + length (ipc_bytes ty v)" using u by (simp add: bs_def ipc.union_bytes_def ipc.union_value_def)
  have e: "IPC_Command_encode (\<lambda>_. True) (Ref c) (Some buf) mx = ERet 0 (length bs) (Some (bs @ drop (length bs) buf))"
    unfolding IPC_Command_encode_def bs_def by (rule command.enc_fits [OF v]) (use mx l in \<open>simp_all add: bs_def\<close>)
  have d: "IPC_Command_decode (\<lambda>_. True) init (bs @ drop (length bs) buf) mx = DOk (length bs) c"
    unfolding IPC_Command_decode_def bs_def by (rule command.dec_fits [OF v]) (use mx l in \<open>simp_all add: bs_def\<close>)
  show ?thesis using e d unfolding l [symmetric] by simp
qed

definition ex_command :: IPC_Command where
  "ex_command = \<lparr>ic_cmd = IPC_CMDS_DATA_REQ, ic_ipcref = 7,
     ic_parameters = \<lparr>un_type = IPC_TYPES_DATAREQ, un_data = Ref (V_DataReq \<lparr>dr_length = 1, dr_reqs = Ref [IPC_TYPES_HEARTBEAT]\<rparr>)\<rparr>\<rparr>"

theorem command_roundtrip_witness:
  "\<exists>buf'. IPC_Command_encode (\<lambda>_. True) (Ref ex_command) (Some (replicate 64 0)) 64 = ERet 0 20 (Some buf')
    \<and> IPC_Command_decode (\<lambda>_. True) ex_command buf' 64 = DOk 20 ex_command"
proof -
  let ?v = "V_DataReq \<lparr>dr_length = 1, dr_reqs = Ref [IPC_TYPES_HEARTBEAT]\<rparr>"
  have u: "ic_parameters ex_command = \<lparr>un_type = IPC_TYPES_DATAREQ, un_data = Ref ?v\<rparr>"
    by (simp add: ex_command_def)
  have v: "ipc_valid IPC_TYPES_DATAREQ ?v" by (simp add: ipc_valid_def valid_DataReq_def reqs_of_def)
  have l: "length (ipc_bytes IPC_TYPES_DATAREQ ?v) = 8" by (simp add: ipc_bytes_def reqs_of_def)
  from command_roundtrip [OF u v, of 64 "replicate 64 0" ex_command] l show ?thesis by auto
qed

section \<open>Fields that cannot be measured\<close>

text \<open>After a field has not fitted into the buffer, \<open>XDR_struct_encoder\<close> goes on with a \<open>NULL\<close>
  destination and the full \<open>max\<close> to learn the size that is needed. On a \<open>float\<close> or a non-empty string
  after that field this writes through the \<open>NULL\<close> pointer whenever \<open>max\<close> would hold the value.\<close>

theorem struct_encoder_overflow_fault:
  assumes fail: "xf_encoder f (Ref s) (Some buf) mx = ERet rc n (Some buf')" "rc < 0" and mx: "mx < 2 ^ 64"
    and next_field: "g = scalar_field False XDR_encode_float XDR_decode_float getf updf \<and> 4 \<le> mx
      \<or> g = scalar_field False XDR_encode_string_array (XDR_decode_string_array alloc) getf updf
        \<and> valid_string (getf s) \<and> getf s \<noteq> [] \<and> length (string_bytes (getf s)) \<le> mx"
  shows "XDR_struct_encoder (Some (f # g # fs)) (Ref s) (Some buf) mx = EFault"
proof -
  have 1: "enc_at 0 (\<lambda>d. xf_encoder f (Ref s) d (size_sub mx 0)) buf = ERet rc n (Some buf')"
    using fail(1) mx by (simp add: enc_at_def)
  have 2: "xf_encoder g (Ref s) None mx = EFault"
    using next_field
  proof (elim disjE conjE)
    assume "g = scalar_field False XDR_encode_float XDR_decode_float getf updf" "4 \<le> mx"
    then show ?thesis by (simp add: scalar_field_def field_ptr_def XDR_encode_float_def encode_copy_def)
  next
    assume g: "g = scalar_field False XDR_encode_string_array (XDR_decode_string_array alloc) getf updf"
      and s: "valid_string (getf s)" "getf s \<noteq> []" "length (string_bytes (getf s)) \<le> mx"
    note d = valid_stringD [OF s(1)]
    have "(of_nat (length (getf s)) :: u32) \<noteq> 0" using d(2) s(2) by (metis length_0_conv unsigned_0)
    then show ?thesis using g s(3) d
      by (simp add: scalar_field_def field_ptr_def XDR_encode_string_array_def XDR_encode_uint32_def Let_def length_string_bytes d(1))
  qed
  show ?thesis using 1 2 fail(2) by (simp add: XDR_struct_encoder_def)
qed

theorem struct_encoder_overflow_fault_witness:
  "XDR_struct_encoder (Some [scalar_field True XDR_encode_uint64 XDR_decode_uint64 fst (\<lambda>v s. (v, snd s)),
      scalar_field False XDR_encode_float XDR_decode_float snd (\<lambda>v s. (fst s, v))])
    (Ref (5, [1, 2, 3, 4])) (Some [0, 0, 0, 0, 0]) 5 = EFault"
proof -
  let ?f = "scalar_field True XDR_encode_uint64 XDR_decode_uint64 fst (\<lambda>v s. (v, snd s)) :: (u64 \<times> u8 list) XDR_Field"
  let ?s = "(5, [1, 2, 3, 4]) :: u64 \<times> u8 list"
  have f: "xf_encoder ?f (Ref ?s) (Some [0, 0, 0, 0, 0]) 5 = ERet (-1) 8 (Some [0, 0, 0, 0, 0])"
    by (simp add: scalar_field_def field_ptr_def encode64_small)
  show ?thesis
    by (rule struct_encoder_overflow_fault [OF f, where getf = snd and updf = "\<lambda>v s. (fst s, v)" and alloc = "\<lambda>_. True"]) simp_all
qed

end
