(* ===== verification/Xdr_Dict.thy ===== *)
theory Xdr_Dict
  imports Xdr
begin

unbundle bit_operations_syntax

text \<open>
  The string-keyed dictionaries of \<open>xdr.c\<close> and their coders. A key is the list of the bytes of a
  string, without its terminator; a dictionary has 29 buckets, each a list of nodes. \<open>cx\<close> is the
  conversion from \<open>char\<close> to \<open>uint32_t\<close>, which extends with the sign or with zeros depending on the
  platform. Callbacks of the iterators pass a state of their own.
\<close>

section \<open>The dictionary\<close>

type_synonym key = "u8 list"

record 'v XDR_Dictnode =
  dn_key :: key
  dn_data :: 'v

record 'v XDR_Dictionary =
  dict_length :: u32
  dict_node :: "'v XDR_Dictnode list list"

definition XDR_HASH_LEN :: nat where "XDR_HASH_LEN = 29"

fun murmur :: "(u8 \<Rightarrow> u32) \<Rightarrow> key \<Rightarrow> u32 \<Rightarrow> u32" where
  "murmur cx [] h = h"
| "murmur cx (c # cs) h =
     (let h1 = (h XOR cx c) * 0x5bd1e995 in murmur cx cs (h1 XOR drop_bit 15 h1))"

definition XDR_dict_bucket :: "(u8 \<Rightarrow> u32) \<Rightarrow> key \<Rightarrow> nat" where
  "XDR_dict_bucket cx key = unat (murmur cx key 3323198485) mod XDR_HASH_LEN"

fun strcmp_less :: "key \<Rightarrow> key \<Rightarrow> bool" where
  "strcmp_less a [] \<longleftrightarrow> False"
| "strcmp_less [] (y # ys) \<longleftrightarrow> True"
| "strcmp_less (x # xs) (y # ys) \<longleftrightarrow> x < y \<or> x = y \<and> strcmp_less xs ys"

text \<open>The position of the node in its bucket stands for the \<open>XDR_Dictnode **\<close> of the source.\<close>

fun find_node :: "key \<Rightarrow> 'v XDR_Dictnode list \<Rightarrow> nat option" where
  "find_node key [] = None"
| "find_node key (n # ns) = (if dn_key n = key then Some 0 else map_option Suc (find_node key ns))"

definition XDR_dict_lookup_node :: "(u8 \<Rightarrow> u32) \<Rightarrow> 'v XDR_Dictionary \<Rightarrow> key option \<Rightarrow> nat option" where
  "XDR_dict_lookup_node cx table key =
     (case key of None \<Rightarrow> None | Some k \<Rightarrow> find_node k (dict_node table ! XDR_dict_bucket cx k))"

definition XDR_dict_lookup :: "(u8 \<Rightarrow> u32) \<Rightarrow> 'v XDR_Dictionary \<Rightarrow> key option \<Rightarrow> 'v option" where
  "XDR_dict_lookup cx table key =
     (case XDR_dict_lookup_node cx table key of
        None \<Rightarrow> None
      | Some i \<Rightarrow> Some (dn_data (dict_node table ! XDR_dict_bucket cx (the key) ! i)))"

fun insert_node :: "'v XDR_Dictnode \<Rightarrow> 'v XDR_Dictnode list \<Rightarrow> 'v XDR_Dictnode list" where
  "insert_node node [] = [node]"
| "insert_node node (n # ns) =
     (if strcmp_less (dn_key node) (dn_key n) then node # n # ns else n # insert_node node ns)"

definition XDR_dict_add :: "bool \<Rightarrow> (u8 \<Rightarrow> u32) \<Rightarrow> 'v XDR_Dictionary \<Rightarrow> key \<Rightarrow> 'v \<Rightarrow> int \<times> 'v XDR_Dictionary" where
  "XDR_dict_add ok cx table key value =
     (if XDR_dict_lookup_node cx table (Some key) \<noteq> None then (-1, table)
      else if \<not> ok then (-2, table)
      else let b = XDR_dict_bucket cx key
           in (0, table\<lparr>dict_length := dict_length table + 1,
                        dict_node := (dict_node table)[b := insert_node \<lparr>dn_key = key, dn_data = value\<rparr> (dict_node table ! b)]\<rparr>))"

definition XDR_dict_remove :: "(u8 \<Rightarrow> u32) \<Rightarrow> 'v XDR_Dictionary \<Rightarrow> key option \<Rightarrow> 'v option \<times> 'v XDR_Dictionary" where
  "XDR_dict_remove cx table key =
     (case XDR_dict_lookup_node cx table key of
        None \<Rightarrow> (None, table)
      | Some i \<Rightarrow>
          let b = XDR_dict_bucket cx (the key); ns = dict_node table ! b
          in (Some (dn_data (ns ! i)),
              table\<lparr>dict_length := dict_length table - 1,
                    dict_node := (dict_node table)[b := take i ns @ drop (Suc i) ns]\<rparr>))"

definition XDR_dict_remove_all :: "(key \<Rightarrow> 'v \<Rightarrow> 's \<Rightarrow> 's) option \<Rightarrow> 'v XDR_Dictionary option \<Rightarrow> 's \<Rightarrow> int \<times> 'v XDR_Dictionary option \<times> 's" where
  "XDR_dict_remove_all freeCB table s =
     (case table of
        None \<Rightarrow> (-1, None, s)
      | Some t \<Rightarrow>
          (0, Some (t\<lparr>dict_length := 0, dict_node := map (\<lambda>_. []) (dict_node t)\<rparr>),
           case freeCB of None \<Rightarrow> s | Some cb \<Rightarrow> fold (\<lambda>n. cb (dn_key n) (dn_data n)) (concat (dict_node t)) s))"

text \<open>A negative result of the callback leaves the loop over the bucket only.\<close>

fun iter_chain :: "(key \<Rightarrow> 'v \<Rightarrow> 's \<Rightarrow> int \<times> 's) \<Rightarrow> 'v XDR_Dictnode list \<Rightarrow> 's \<Rightarrow> 's" where
  "iter_chain cb [] s = s"
| "iter_chain cb (n # ns) s =
     (case cb (dn_key n) (dn_data n) s of (r, s') \<Rightarrow> if r < 0 then s' else iter_chain cb ns s')"

definition XDR_dict_iterate :: "(key \<Rightarrow> 'v \<Rightarrow> 's \<Rightarrow> int \<times> 's) \<Rightarrow> 'v XDR_Dictionary option \<Rightarrow> 's \<Rightarrow> 's" where
  "XDR_dict_iterate cb table s =
     (case table of None \<Rightarrow> s | Some t \<Rightarrow> fold (iter_chain cb) (dict_node t) s)"

definition XDR_dict_lookup_value :: "'v XDR_Dictionary option \<Rightarrow> 'v \<Rightarrow> key option" where
  "XDR_dict_lookup_value table val =
     (case table of
        None \<Rightarrow> None
      | Some t \<Rightarrow> map_option dn_key (find (\<lambda>n. dn_data n = val) (concat (dict_node t))))"

section \<open>Encoding\<close>

text \<open>
  The pointer \<open>params->dst\<close>: \<open>NULL\<close>, the caller's buffer at an offset, or an invalid address. The last
  one arises from a \<open>NULL\<close> destination, to which \<open>XDR_dictionary_encoder\<close> adds the size of the count.
  No byte can be written there, so an encoder sees an empty buffer.
  \<open>dp_fault\<close> records that the C code has run into \<open>assert(0)\<close> or an invalid write.
\<close>

datatype dst_ptr = DNull | DWild | DAt nat

record dict_params =
  dp_enc_len :: nat
  dp_dst :: dst_ptr
  dp_max :: nat
  dp_res :: int
  dp_buf :: "u8 list option"
  dp_fault :: bool

definition dict_put :: "(u8 list option \<Rightarrow> nat \<Rightarrow> enc_res) \<Rightarrow> dict_params \<Rightarrow> dict_params" where
  "dict_put f p =
     (case (dp_dst p, dp_buf p) of
        (DAt off, Some b) \<Rightarrow>
          (case enc_at off (\<lambda>d. f d (dp_max p)) b of
             EFault \<Rightarrow> p\<lparr>dp_fault := True\<rparr>
           | ERet r sz b' \<Rightarrow>
               if r < 0 then p\<lparr>dp_res := r, dp_dst := DNull, dp_enc_len := dp_enc_len p + sz, dp_buf := b'\<rparr>
               else p\<lparr>dp_res := r, dp_dst := DAt (off + sz), dp_max := size_sub (dp_max p) sz,
                      dp_enc_len := dp_enc_len p + sz, dp_buf := b'\<rparr>)
      | _ \<Rightarrow>
          (case f (Some []) (dp_max p) of
             EFault \<Rightarrow> p\<lparr>dp_fault := True\<rparr>
           | ERet r sz _ \<Rightarrow>
               if r < 0 then p\<lparr>dp_res := r, dp_dst := DNull, dp_enc_len := dp_enc_len p + sz\<rparr>
               else p\<lparr>dp_res := r, dp_max := size_sub (dp_max p) sz, dp_enc_len := dp_enc_len p + sz\<rparr>))"

definition XDR_dictionary_encoder_itr :: "'v encoder option \<Rightarrow> key \<Rightarrow> 'v \<Rightarrow> dict_params \<Rightarrow> int \<times> dict_params" where
  "XDR_dictionary_encoder_itr enc key value p =
     (case enc of
        None \<Rightarrow> (-1, p)
      | Some e \<Rightarrow>
          if dp_fault p then (0, p)
          else if dp_dst p \<noteq> DNull \<and> dp_res p \<ge> 0 then
            let p1 = dict_put (XDR_encode_string_array (Ref key)) p in
            if dp_fault p1 then (0, p1)
            else if dp_dst p1 \<noteq> DNull \<and> dp_res p1 \<ge> 0 then (0, dict_put (e (Ref value)) p1)
            else (case e (Ref value) None (dp_max p1) of
                    EFault \<Rightarrow> (0, p1\<lparr>dp_fault := True\<rparr>)
                  | ERet _ sz _ \<Rightarrow> (0, p1\<lparr>dp_enc_len := dp_enc_len p1 + sz\<rparr>))
          else (0, p\<lparr>dp_fault := True\<rparr>))"

definition XDR_dictionary_encoder ::
  "'v encoder option \<Rightarrow> 'v XDR_Dictionary option \<Rightarrow> u8 list option \<Rightarrow> nat \<Rightarrow> enc_res" where
  "XDR_dictionary_encoder enc table dst mx =
     (case table of
        None \<Rightarrow> ERet 0 0 dst
      | Some t \<Rightarrow>
          (case XDR_encode_uint32 (Ref (dict_length t)) dst mx of
             EFault \<Rightarrow> EFault
           | ERet res sz dst1 \<Rightarrow>
               let p0 = \<lparr>dp_enc_len = sz,
                         dp_dst = (if res < 0 then DNull else case dst of None \<Rightarrow> DWild | Some _ \<Rightarrow> DAt sz),
                         dp_max = (if res < 0 then mx else size_sub mx sz), dp_res = res, dp_buf = dst1, dp_fault = False\<rparr>;
                   p = XDR_dict_iterate (XDR_dictionary_encoder_itr enc) table p0
               in if dp_fault p then EFault else ERet (dp_res p) (dp_enc_len p) (dp_buf p)))"

section \<open>Decoding\<close>

text \<open>
  \<open>ent_size\<close> is the size of an entry, 0 for pointers. The result of \<open>XDR_dict_add\<close> is ignored, so that
  an entry whose key is already present is dropped.
\<close>

fun dict_decode ::
  "(nat \<Rightarrow> bool) \<Rightarrow> (u8 \<Rightarrow> u32) \<Rightarrow> 'v decoder \<Rightarrow> nat \<Rightarrow> nat \<Rightarrow> u8 list \<Rightarrow> nat \<Rightarrow> nat \<Rightarrow> 'v XDR_Dictionary
     \<Rightarrow> 'v XDR_Dictionary dec_res" where
  "dict_decode alloc cx dec ent_size 0 src mx dec_len table = DOk dec_len table"
| "dict_decode alloc cx dec ent_size (Suc n) src mx dec_len table =
     (case XDR_decode_string_array alloc (drop dec_len src) (size_sub mx dec_len) of
        DFault \<Rightarrow> DFault
      | DFail r _ \<Rightarrow> DFail r 0
      | DOk sz key \<Rightarrow>
          if ent_size \<noteq> 0 \<and> \<not> alloc ent_size then DFail (-3) 0
          else (case dec (drop (dec_len + sz) src) (size_sub mx (dec_len + sz)) of
                  DFault \<Rightarrow> DFault
                | DFail r _ \<Rightarrow> DFail r 0
                | DOk sz2 value \<Rightarrow>
                    dict_decode alloc cx dec ent_size n src mx (dec_len + sz + sz2)
                      (snd (XDR_dict_add True cx table (takeWhile (\<lambda>c. c \<noteq> 0) key) value))))"

definition XDR_dictionary_decoder ::
  "(nat \<Rightarrow> bool) \<Rightarrow> (u8 \<Rightarrow> u32) \<Rightarrow> 'v decoder option \<Rightarrow> nat \<Rightarrow> 'v XDR_Dictionary option \<Rightarrow> 'v XDR_Dictionary decoder" where
  "XDR_dictionary_decoder alloc cx dec ent_size table src mx =
     (case (table, dec) of
        (None, _) \<Rightarrow> DFail (-1) 0
      | (Some t, None) \<Rightarrow> DFail (-2) 0
      | (Some t, Some d) \<Rightarrow>
          (case XDR_decode_uint32 src mx of
             DFault \<Rightarrow> DFault
           | DFail r _ \<Rightarrow> DFail r 0
           | DOk sz entries \<Rightarrow> dict_decode alloc cx d ent_size (unat entries) src mx sz t))"

section \<open>The dictionaries of each type\<close>

definition XDR_decode_int32_dictionary where
  "XDR_decode_int32_dictionary alloc cx = XDR_dictionary_decoder alloc cx (Some XDR_decode_int32) 4"
definition XDR_decode_uint32_dictionary where
  "XDR_decode_uint32_dictionary alloc cx = XDR_dictionary_decoder alloc cx (Some XDR_decode_uint32) 4"
definition XDR_decode_int64_dictionary where
  "XDR_decode_int64_dictionary alloc cx = XDR_dictionary_decoder alloc cx (Some XDR_decode_int64) 8"
definition XDR_decode_uint64_dictionary where
  "XDR_decode_uint64_dictionary alloc cx = XDR_dictionary_decoder alloc cx (Some XDR_decode_uint64) 8"
definition XDR_decode_float_dictionary where
  "XDR_decode_float_dictionary alloc cx = XDR_dictionary_decoder alloc cx (Some XDR_decode_float) 4"
definition XDR_decode_double_dictionary where
  "XDR_decode_double_dictionary alloc cx = XDR_dictionary_decoder alloc cx (Some XDR_decode_double) 8"
definition XDR_decode_union_dictionary where
  "XDR_decode_union_dictionary defs alloc cx = XDR_dictionary_decoder alloc cx (Some (XDR_decode_union defs)) 16"
definition XDR_decode_string_arr_dictionary where
  "XDR_decode_string_arr_dictionary alloc cx = XDR_dictionary_decoder alloc cx (Some (XDR_decode_string_array alloc)) 0"

definition XDR_encode_int32_dictionary where
  "XDR_encode_int32_dictionary = XDR_dictionary_encoder (Some XDR_encode_int32)"
definition XDR_encode_int64_dictionary where
  "XDR_encode_int64_dictionary = XDR_dictionary_encoder (Some XDR_encode_int64)"
definition XDR_encode_uint64_dictionary where
  "XDR_encode_uint64_dictionary = XDR_dictionary_encoder (Some XDR_encode_uint64)"
definition XDR_encode_float_dictionary where
  "XDR_encode_float_dictionary = XDR_dictionary_encoder (Some XDR_encode_float)"
definition XDR_encode_double_dictionary where
  "XDR_encode_double_dictionary = XDR_dictionary_encoder (Some XDR_encode_double)"
definition XDR_encode_union_dictionary where
  "XDR_encode_union_dictionary defs = XDR_dictionary_encoder (Some (XDR_encode_union defs))"

text \<open>
  \<open>XDR_encode_uint32_dictionary\<close> passes \<open>XDR_decode_uint32\<close> where an encoder is expected. Called that
  way it swaps the bytes of the value into network order at the destination, without a check for a
  \<open>NULL\<close> destination, and leaves the size alone when it fails. The dictionaries of byte arrays pass
  a \<open>NULL\<close> length, which the coders of byte arrays dereference.
\<close>

definition decode_uint32_as_encoder :: "u32 encoder" where
  "decode_uint32_as_encoder src dst mx =
     (if mx < 4 then ERet (-1) 0 dst
      else (case (src, dst) of (Ref w, Some buf) \<Rightarrow> put 0 4 (be32 w) buf | _ \<Rightarrow> EFault))"

definition XDR_encode_uint32_dictionary where
  "XDR_encode_uint32_dictionary = XDR_dictionary_encoder (Some decode_uint32_as_encoder)"

definition XDR_encode_byte_arr_dictionary :: "u8 list XDR_Dictionary option \<Rightarrow> u8 list option \<Rightarrow> nat \<Rightarrow> enc_res" where
  "XDR_encode_byte_arr_dictionary = XDR_dictionary_encoder (Some (\<lambda>_ _ _. EFault))"
definition XDR_decode_byte_arr_dictionary ::
  "(nat \<Rightarrow> bool) \<Rightarrow> (u8 \<Rightarrow> u32) \<Rightarrow> u8 list XDR_Dictionary option \<Rightarrow> u8 list XDR_Dictionary decoder" where
  "XDR_decode_byte_arr_dictionary alloc cx = XDR_dictionary_decoder alloc cx (Some (\<lambda>_ _. DFault)) 0"

end
