(* ===== verification/Xdr_Dict_Correct.thy ===== *)
theory Xdr_Dict_Correct
  imports Xdr_Dict Xdr_Correct
begin

text \<open>
  The dictionary as a finite map with canonical, sorted buckets, and the round trip of its wire format
  for every codec of the values.
\<close>

section \<open>The order of keys\<close>

lemma strcmp_less_irrefl [simp]: "\<not> strcmp_less a a"
  by (induction a) auto

lemma strcmp_less_trans: "strcmp_less a b \<Longrightarrow> strcmp_less b c \<Longrightarrow> strcmp_less a c"
proof (induction a b arbitrary: c rule: strcmp_less.induct)
  case (2 y ys)
  then show ?case by (cases c) auto
next
  case (3 x xs y ys)
  then show ?case by (cases c) auto
qed simp

lemma strcmp_less_total: "a \<noteq> b \<Longrightarrow> strcmp_less a b \<or> strcmp_less b a"
proof (induction a b rule: strcmp_less.induct)
  case (1 a)
  then show ?case by (cases a) auto
qed auto

section \<open>The dictionary as a map\<close>

definition node_map :: "'v XDR_Dictnode list \<Rightarrow> key \<Rightarrow> 'v option" where
  "node_map ns = map_of (map (\<lambda>n. (dn_key n, dn_data n)) ns)"

definition dict_abs :: "(u8 \<Rightarrow> u32) \<Rightarrow> 'v XDR_Dictionary \<Rightarrow> key \<Rightarrow> 'v option" where
  "dict_abs cx t k = node_map (dict_node t ! XDR_dict_bucket cx k) k"

definition sorted_nodes :: "'v XDR_Dictnode list \<Rightarrow> bool" where
  "sorted_nodes ns \<longleftrightarrow> sorted_wrt strcmp_less (map dn_key ns)"

definition dict_ok :: "(u8 \<Rightarrow> u32) \<Rightarrow> 'v XDR_Dictionary \<Rightarrow> bool" where
  "dict_ok cx t \<longleftrightarrow> length (dict_node t) = XDR_HASH_LEN
     \<and> dict_length t = of_nat (length (concat (dict_node t)))
     \<and> (\<forall>b < XDR_HASH_LEN. sorted_nodes (dict_node t ! b) \<and> (\<forall>n \<in> set (dict_node t ! b). XDR_dict_bucket cx (dn_key n) = b))"

definition empty_dict :: "'v XDR_Dictionary" where
  "empty_dict = \<lparr>dict_length = 0, dict_node = replicate XDR_HASH_LEN []\<rparr>"

lemma dict_bucket_less: "XDR_dict_bucket cx k < XDR_HASH_LEN"
  by (simp add: XDR_dict_bucket_def XDR_HASH_LEN_def)

lemma node_map_simps [simp]:
  "node_map [] = Map.empty" "node_map (n # ns) = (node_map ns)(dn_key n \<mapsto> dn_data n)"
  by (simp_all add: node_map_def)

lemma find_node_map:
  "(case find_node k ns of None \<Rightarrow> node_map ns k = None | Some i \<Rightarrow> i < length ns \<and> dn_key (ns ! i) = k \<and> node_map ns k = Some (dn_data (ns ! i)))"
  by (induction ns) (auto split: option.splits)

lemma lookup_abs: "XDR_dict_lookup cx t (Some k) = dict_abs cx t k"
  using find_node_map [where k = k and ns = "dict_node t ! XDR_dict_bucket cx k"]
  by (auto simp: XDR_dict_lookup_def XDR_dict_lookup_node_def dict_abs_def split: option.splits)

lemma lookup_node_None: "XDR_dict_lookup_node cx t (Some k) = None \<longleftrightarrow> dict_abs cx t k = None"
  using find_node_map [where k = k and ns = "dict_node t ! XDR_dict_bucket cx k"]
  by (auto simp: XDR_dict_lookup_node_def dict_abs_def split: option.splits)

lemma node_map_None: "node_map ns k = None \<longleftrightarrow> k \<notin> dn_key ` set ns"
  by (auto simp: node_map_def map_of_eq_None_iff image_image)

lemma set_insert_node [simp]: "set (insert_node n ns) = insert n (set ns)"
  by (induction ns) auto

lemma length_insert_node [simp]: "length (insert_node n ns) = Suc (length ns)"
  by (induction ns) auto

lemma insert_node_map: "dn_key n \<notin> dn_key ` set ns \<Longrightarrow> node_map (insert_node n ns) = (node_map ns)(dn_key n \<mapsto> dn_data n)"
  by (induction ns) (auto simp: fun_upd_twist)

lemma insert_node_sorted:
  "sorted_nodes ns \<Longrightarrow> dn_key n \<notin> dn_key ` set ns \<Longrightarrow> sorted_nodes (insert_node n ns)"
proof (induction ns)
  case (Cons m ns)
  have m: "\<forall>x \<in> set ns. strcmp_less (dn_key m) (dn_key x)" "sorted_nodes ns"
    using Cons.prems(1) by (auto simp: sorted_nodes_def)
  show ?case
  proof (cases "strcmp_less (dn_key n) (dn_key m)")
    case True
    then show ?thesis using Cons.prems(1) m strcmp_less_trans by (auto simp: sorted_nodes_def)
  next
    case False
    then have "strcmp_less (dn_key m) (dn_key n)" using strcmp_less_total [of "dn_key m" "dn_key n"] Cons.prems(2) by auto
    then show ?thesis using False m Cons by (auto simp: sorted_nodes_def)
  qed
qed (simp add: sorted_nodes_def)

lemma length_concat_update:
  "b < length xss \<Longrightarrow> length (concat (xss[b := ys])) + length (xss ! b) = length (concat xss) + length ys"
proof (induction xss arbitrary: b)
  case (Cons xs xss)
  then show ?case by (cases b) auto
qed simp

lemma bucket_update_ok:
  assumes ok: "dict_ok cx t" and b: "b < XDR_HASH_LEN" and ns: "sorted_nodes ns" "\<forall>n \<in> set ns. XDR_dict_bucket cx (dn_key n) = b"
    and len: "l = of_nat (length (concat ((dict_node t)[b := ns])))"
  shows "dict_ok cx (t\<lparr>dict_length := l, dict_node := (dict_node t)[b := ns]\<rparr>)"
    "dict_abs cx (t\<lparr>dict_length := l, dict_node := (dict_node t)[b := ns]\<rparr>) k
       = (if XDR_dict_bucket cx k = b then node_map ns k else dict_abs cx t k)"
  using assms dict_bucket_less [of cx k] by (auto simp: dict_ok_def dict_abs_def nth_list_update)

lemma dict_add_step:
  assumes ok: "dict_ok cx t" and r: "XDR_dict_add alloc_ok cx t k v = (rc, t')"
  shows "dict_ok cx t'
    \<and> rc = (if dict_abs cx t k \<noteq> None then -1 else if alloc_ok then 0 else -2)
    \<and> (\<forall>j. XDR_dict_lookup cx t' (Some j) = (if rc = 0 then (dict_abs cx t)(k \<mapsto> v) else dict_abs cx t) j)"
proof (cases "dict_abs cx t k = None \<and> alloc_ok")
  case False
  then have "t' = t" "rc = (if dict_abs cx t k \<noteq> None then -1 else if alloc_ok then 0 else -2)" "rc \<noteq> 0"
    using r lookup_node_None [of cx t k] by (auto simp: XDR_dict_add_def split: if_splits)
  then show ?thesis using ok by (simp add: lookup_abs)
next
  case True
  let ?b = "XDR_dict_bucket cx k" let ?n = "\<lparr>dn_key = k, dn_data = v\<rparr>" let ?ns = "dict_node t ! ?b"
  have b: "?b < XDR_HASH_LEN" by (rule dict_bucket_less)
  have fresh: "k \<notin> dn_key ` set ?ns" using True by (simp add: dict_abs_def node_map_None)
  have t': "rc = 0" "t' = t\<lparr>dict_length := dict_length t + 1, dict_node := (dict_node t)[?b := insert_node ?n ?ns]\<rparr>"
    using r True lookup_node_None [of cx t k] by (auto simp: XDR_dict_add_def Let_def)
  have s: "sorted_nodes ?ns" "\<forall>n \<in> set ?ns. XDR_dict_bucket cx (dn_key n) = ?b" "length (dict_node t) = XDR_HASH_LEN"
    "dict_length t = of_nat (length (concat (dict_node t)))"
    using ok b by (auto simp: dict_ok_def)
  have "length (concat ((dict_node t)[?b := insert_node ?n ?ns])) = Suc (length (concat (dict_node t)))"
    using length_concat_update [of ?b "dict_node t" "insert_node ?n ?ns"] b s(3) by simp
  then have l: "dict_length t + 1 = of_nat (length (concat ((dict_node t)[?b := insert_node ?n ?ns])))"
    using s(4) by simp
  have i: "sorted_nodes (insert_node ?n ?ns)" "\<forall>n \<in> set (insert_node ?n ?ns). XDR_dict_bucket cx (dn_key n) = ?b"
    using insert_node_sorted [OF s(1), of ?n] fresh s(2) by auto
  note u = bucket_update_ok [OF ok b i l]
  have "dict_abs cx t' j = ((dict_abs cx t)(k \<mapsto> v)) j" for j
    using u(2) [of j] insert_node_map [of ?n ?ns] fresh by (auto simp: t' dict_abs_def)
  then show ?thesis using u(1) True t' by (simp add: lookup_abs)
qed

text \<open>\<open>XDR_dict_add\<close> implements insertion into a finite map without replacement: the return code is
  -1 if the key is present, -2 if no node can be allocated and 0 otherwise; only then the map
  changes, by the new entry alone. It keeps every bucket strictly sorted by key, so that equal
  dictionaries have equal memory layout, and the length field counts the entries.\<close>

theorem dict_add_refines:
  assumes ok: "dict_ok cx t" and r: "XDR_dict_add alloc_ok cx t k v = (rc, t')"
  shows "dict_ok cx t'
    \<and> rc = (if dict_abs cx t k \<noteq> None then -1 else if alloc_ok then 0 else -2)
    \<and> (\<forall>j. XDR_dict_lookup cx t' (Some j) = (if rc = 0 then (dict_abs cx t)(k \<mapsto> v) else dict_abs cx t) j)"
  using dict_add_step [OF assms] .

lemma empty_dict_ok: "dict_ok cx empty_dict" "dict_abs cx empty_dict = Map.empty"
  using dict_bucket_less by (auto simp: dict_ok_def empty_dict_def dict_abs_def sorted_nodes_def concat_replicate_trivial)

theorem dict_add_refines_witness:
  "XDR_dict_lookup ucast (snd (XDR_dict_add True ucast empty_dict [65] (7 :: u32))) (Some [65]) = Some 7"
proof -
  have r: "XDR_dict_add True ucast empty_dict [65] (7 :: u32) = (0, snd (XDR_dict_add True ucast empty_dict [65] (7 :: u32)))"
    by (simp add: XDR_dict_add_def Let_def lookup_node_None empty_dict_ok(2))
  from dict_add_refines [OF empty_dict_ok(1) r] show ?thesis by (simp add: empty_dict_ok(2))
qed

section \<open>The wire format\<close>

definition dict_live :: "nat \<Rightarrow> nat \<Rightarrow> nat \<Rightarrow> u8 list \<Rightarrow> dict_params" where
  "dict_live off m len b =
     \<lparr>dp_enc_len = len, dp_dst = DAt off, dp_max = m, dp_res = 0, dp_buf = Some b, dp_fault = False\<rparr>"

lemma dict_put_live:
  assumes "f (Some (drop off b)) m = ERet 0 (length bs) (Some (bs @ drop (length bs) (drop off b)))"
    "length bs \<le> m" "m < 2 ^ 64"
  shows "dict_put f (dict_live off m len b)
    = dict_live (off + length bs) (m - length bs) (len + length bs) (take off b @ bs @ drop (off + length bs) b)"
  using assms by (simp add: dict_put_def dict_live_def enc_at_def add.commute)

lemma iter_chain_fold: "(\<And>k v s. fst (cb k v s) = 0) \<Longrightarrow> iter_chain cb ns s = fold (\<lambda>n s. snd (cb (dn_key n) (dn_data n) s)) ns s"
  by (induction ns arbitrary: s) (auto split: prod.splits, metis fst_conv less_irrefl)

lemma fold_iter_chain:
  assumes "\<And>k v s. fst (cb k v s) = 0"
  shows "fold (iter_chain cb) bs s = fold (\<lambda>n s. snd (cb (dn_key n) (dn_data n) s)) (concat bs) s"
  by (induction bs arbitrary: s) (simp_all add: iter_chain_fold [OF assms])

lemma encoder_itr_result: "fst (XDR_dictionary_encoder_itr (Some e) k v p) = 0"
  by (auto simp: XDR_dictionary_encoder_itr_def Let_def split: enc_res.splits)

context rt_codec
begin

definition entry_bytes :: "'a XDR_Dictnode \<Rightarrow> u8 list" where
  "entry_bytes n = string_bytes (dn_key n) @ bytes (dn_data n)"

definition dict_bytes :: "'a XDR_Dictionary \<Rightarrow> u8 list" where
  "dict_bytes t = be32 (dict_length t) @ concat (map entry_bytes (concat (dict_node t)))"

definition entries_valid :: "'a XDR_Dictnode list \<Rightarrow> bool" where
  "entries_valid ns \<longleftrightarrow> (\<forall>n \<in> set ns. valid_string (dn_key n) \<and> valid (dn_data n))"

lemma encoder_itr_live:
  assumes v: "valid_string (dn_key n)" "valid (dn_data n)"
    and fit: "length (entry_bytes n) \<le> m" "off + m \<le> length b" "m < lim"
  shows "snd (XDR_dictionary_encoder_itr (Some enc) (dn_key n) (dn_data n) (dict_live off m len b))
    = dict_live (off + length (entry_bytes n)) (m - length (entry_bytes n)) (len + length (entry_bytes n))
        (take off b @ entry_bytes n @ drop (off + length (entry_bytes n)) b)"
proof -
  let ?k = "string_bytes (dn_key n)" let ?v = "bytes (dn_data n)"
  let ?b1 = "take off b @ ?k @ drop (off + length ?k) b"
  have m: "m < 2 ^ 64" using fit(3) lim_le by simp
  have l: "length ?k + length ?v \<le> m" using fit(1) by (simp add: entry_bytes_def)
  have 1: "dict_put (XDR_encode_string_array (Ref (dn_key n))) (dict_live off m len b)
      = dict_live (off + length ?k) (m - length ?k) (len + length ?k) ?b1"
    by (rule dict_put_live) (use encode_string_fits [OF v(1), of m "drop off b"] l fit(2) m in auto)
  have db: "drop (off + length ?k) ?b1 = drop (off + length ?k) b" using fit l by simp
  have 2: "dict_put (enc (Ref (dn_data n))) (dict_live (off + length ?k) (m - length ?k) (len + length ?k) ?b1)
      = dict_live (off + length ?k + length ?v) (m - length ?k - length ?v) (len + length ?k + length ?v)
          (take (off + length ?k) ?b1 @ ?v @ drop (off + length ?k + length ?v) ?b1)"
    by (rule dict_put_live) (use enc_fits [OF v(2), of "m - length ?k" "drop (off + length ?k) b"] l fit m db in auto)
  have "take (off + length ?k) ?b1 = take off b @ ?k"
    "drop (off + length ?k + length ?v) ?b1 = drop (off + length ?k + length ?v) b"
    using fit l by (simp_all add: add.commute add.left_commute)
  then show ?thesis using 1 2
    by (simp add: XDR_dictionary_encoder_itr_def Let_def entry_bytes_def dict_live_def add.assoc)
qed

lemma encoder_fold_live:
  assumes "entries_valid ns" "length (concat (map entry_bytes ns)) \<le> m" "off + m \<le> length b" "m < lim"
  shows "fold (\<lambda>n s. snd (XDR_dictionary_encoder_itr (Some enc) (dn_key n) (dn_data n) s)) ns (dict_live off m len b)
    = dict_live (off + length (concat (map entry_bytes ns))) (m - length (concat (map entry_bytes ns)))
        (len + length (concat (map entry_bytes ns)))
        (take off b @ concat (map entry_bytes ns) @ drop (off + length (concat (map entry_bytes ns))) b)"
  using assms
proof (induction ns arbitrary: off m len b)
  case (Cons n ns)
  let ?e = "entry_bytes n" let ?r = "concat (map entry_bytes ns)"
  let ?b = "take off b @ ?e @ drop (off + length ?e) b"
  have v: "valid_string (dn_key n)" "valid (dn_data n)" "entries_valid ns" using Cons.prems(1) by (auto simp: entries_valid_def)
  have 1: "snd (XDR_dictionary_encoder_itr (Some enc) (dn_key n) (dn_data n) (dict_live off m len b))
      = dict_live (off + length ?e) (m - length ?e) (len + length ?e) ?b"
    by (rule encoder_itr_live [OF v(1,2)]) (use Cons.prems in auto)
  have 2: "fold (\<lambda>n s. snd (XDR_dictionary_encoder_itr (Some enc) (dn_key n) (dn_data n) s)) ns
        (dict_live (off + length ?e) (m - length ?e) (len + length ?e) ?b)
      = dict_live (off + length ?e + length ?r) (m - length ?e - length ?r) (len + length ?e + length ?r)
          (take (off + length ?e) ?b @ ?r @ drop (off + length ?e + length ?r) ?b)"
    by (rule Cons.IH [OF v(3)]) (use Cons.prems in auto)
  have 3: "take (off + length ?e) ?b = take off b @ ?e"
    "drop (off + length ?e + length ?r) ?b = drop (off + length ?e + length ?r) b"
    using Cons.prems by (simp_all add: add.commute add.left_commute)
  show ?case unfolding fold_simps 1 2 3 by (simp add: add.assoc)
qed (simp add: dict_live_def)

lemma dict_encode_fits:
  assumes "entries_valid (concat (dict_node t))" "length (dict_bytes t) \<le> mx" "mx \<le> length buf" "mx < lim"
  shows "XDR_dictionary_encoder (Some enc) (Some t) (Some buf) mx
    = ERet 0 (length (dict_bytes t)) (Some (dict_bytes t @ drop (length (dict_bytes t)) buf))"
proof -
  let ?r = "concat (map entry_bytes (concat (dict_node t)))" let ?b = "be32 (dict_length t) @ drop 4 buf"
  have l: "length (dict_bytes t) = 4 + length ?r" by (simp add: dict_bytes_def)
  have u: "XDR_encode_uint32 (Ref (dict_length t)) (Some buf) mx = ERet 0 4 (Some ?b)"
    using assms l by (simp add: XDR_encode_uint32_def put_def)
  have "XDR_dict_iterate (XDR_dictionary_encoder_itr (Some enc)) (Some t) (dict_live 4 (mx - 4) 4 ?b)
      = dict_live (4 + length ?r) (mx - 4 - length ?r) (4 + length ?r) (take 4 ?b @ ?r @ drop (4 + length ?r) ?b)"
    unfolding XDR_dict_iterate_def option.case fold_iter_chain [OF encoder_itr_result]
    by (rule encoder_fold_live) (use assms l in auto)
  then show ?thesis using u assms l by (simp add: XDR_dictionary_encoder_def Let_def dict_live_def dict_bytes_def add.commute)
qed

lemma dict_decode_fits:
  assumes "entries_valid ns" "length pre + length (concat (map entry_bytes ns)) \<le> mx" "mx < lim"
  shows "dict_decode (\<lambda>_. True) cx dec sz (length ns) (pre @ concat (map entry_bytes ns) @ rest) mx (length pre) t
    = DOk (length pre + length (concat (map entry_bytes ns)))
        (fold (\<lambda>n t. snd (XDR_dict_add True cx t (dn_key n) (dn_data n))) ns t)"
  using assms
proof (induction ns arbitrary: pre t)
  case (Cons n ns)
  let ?k = "string_bytes (dn_key n)" let ?v = "bytes (dn_data n)" let ?r = "concat (map entry_bytes ns)"
  have v: "valid_string (dn_key n)" "valid (dn_data n)" "entries_valid ns" using Cons.prems(1) by (auto simp: entries_valid_def)
  have l: "length pre + (length ?k + length ?v) + length ?r \<le> mx" using Cons.prems(2) by (simp add: entry_bytes_def [of n])
  have 1: "XDR_decode_string_array (\<lambda>_. True) (?k @ ?v @ ?r @ rest) (mx - length pre) = DOk (length ?k) (dn_key n)"
    using decode_string_fits [OF v(1), of "mx - length pre" "\<lambda>_. True" "?v @ ?r @ rest"] l by simp
  have 2: "dec (?v @ ?r @ rest) (mx - (length pre + length ?k)) = DOk (length ?v) (dn_data n)"
    using dec_fits [OF v(2), of "mx - (length pre + length ?k)" "?r @ rest"] l Cons.prems(3) by simp
  have key: "takeWhile (\<lambda>c. c \<noteq> 0) (dn_key n) = dn_key n" using valid_stringD(1) [OF v(1)] .
  have "dict_decode (\<lambda>_. True) cx dec sz (length ns) ((pre @ ?k @ ?v) @ ?r @ rest) mx (length (pre @ ?k @ ?v))
      (snd (XDR_dict_add True cx t (dn_key n) (dn_data n)))
    = DOk (length (pre @ ?k @ ?v) + length ?r)
        (fold (\<lambda>n t. snd (XDR_dict_add True cx t (dn_key n) (dn_data n))) ns (snd (XDR_dict_add True cx t (dn_key n) (dn_data n))))"
    by (rule Cons.IH [OF v(3)]) (use l Cons.prems in auto)
  then show ?case using 1 2 l Cons.prems(3) by (simp add: key entry_bytes_def [of n] add.assoc)
qed simp

end

section \<open>Rebuilding a dictionary\<close>

lemma insert_node_last:
  assumes "sorted_nodes (xs @ [n])"
  shows "insert_node n xs = xs @ [n]"
proof -
  have "\<forall>x \<in> set xs. \<not> strcmp_less (dn_key n) (dn_key x)"
    using assms strcmp_less_trans strcmp_less_irrefl by (fastforce simp: sorted_nodes_def sorted_wrt_append)
  then show ?thesis by (induction xs) auto
qed

lemma add_sorted_bucket:
  assumes "length (dict_node t) = XDR_HASH_LEN" "b < XDR_HASH_LEN" "dict_node t ! b = xs" "sorted_nodes (xs @ ns)"
    "\<forall>n \<in> set ns. XDR_dict_bucket cx (dn_key n) = b"
  shows "fold (\<lambda>n t. snd (XDR_dict_add True cx t (dn_key n) (dn_data n))) ns t
    = t\<lparr>dict_length := dict_length t + of_nat (length ns), dict_node := (dict_node t)[b := xs @ ns]\<rparr>"
  using assms
proof (induction ns arbitrary: t xs)
  case Nil
  have "(dict_node t)[b := xs] = dict_node t" using Nil.prems(3) by (metis list_update_id)
  then show ?case by simp
next
  case (Cons n ns)
  have s: "sorted_nodes (xs @ [n])" "dn_key n \<notin> dn_key ` set xs"
    using Cons.prems(4) strcmp_less_irrefl by (fastforce simp: sorted_nodes_def sorted_wrt_append)+
  have b: "XDR_dict_bucket cx (dn_key n) = b" using Cons.prems(5) by simp
  have fresh: "XDR_dict_lookup_node cx t (Some (dn_key n)) = None"
    unfolding lookup_node_None dict_abs_def b Cons.prems(3) node_map_None by (rule s(2))
  let ?t = "t\<lparr>dict_length := dict_length t + 1, dict_node := (dict_node t)[b := xs @ [n]]\<rparr>"
  have n: "\<lparr>dn_key = dn_key n, dn_data = dn_data n\<rparr> = n" by simp
  have a: "snd (XDR_dict_add True cx t (dn_key n) (dn_data n)) = ?t"
    using fresh b Cons.prems(3) insert_node_last [OF s(1)] by (simp add: XDR_dict_add_def Let_def n)
  have "fold (\<lambda>n t. snd (XDR_dict_add True cx t (dn_key n) (dn_data n))) ns ?t
    = ?t\<lparr>dict_length := dict_length ?t + of_nat (length ns), dict_node := (dict_node ?t)[b := (xs @ [n]) @ ns]\<rparr>"
    by (rule Cons.IH) (use Cons.prems in auto)
  then show ?case using a by (simp add: algebra_simps)
qed

lemma rebuild_prefix:
  assumes ok: "dict_ok cx t" and j: "j \<le> XDR_HASH_LEN"
  shows "fold (\<lambda>n t. snd (XDR_dict_add True cx t (dn_key n) (dn_data n))) (concat (take j (dict_node t))) empty_dict
    = \<lparr>dict_length = of_nat (length (concat (take j (dict_node t)))),
       dict_node = take j (dict_node t) @ replicate (XDR_HASH_LEN - j) []\<rparr>"
  using j
proof (induction j)
  case 0
  then show ?case by (simp add: empty_dict_def)
next
  case (Suc j)
  let ?t = "\<lparr>dict_length = of_nat (length (concat (take j (dict_node t)))),
       dict_node = take j (dict_node t) @ replicate (XDR_HASH_LEN - j) []\<rparr>"
  have len: "length (dict_node t) = XDR_HASH_LEN" and j: "j < XDR_HASH_LEN" using ok Suc.prems by (simp_all add: dict_ok_def)
  have b: "sorted_nodes (dict_node t ! j)" "\<forall>n \<in> set (dict_node t ! j). XDR_dict_bucket cx (dn_key n) = j"
    using ok j by (auto simp: dict_ok_def)
  have at: "dict_node ?t ! j = []" using len j by (simp add: nth_append)
  have up: "(take j (dict_node t) @ replicate (XDR_HASH_LEN - j) [])[j := dict_node t ! j]
      = take (Suc j) (dict_node t) @ replicate (XDR_HASH_LEN - Suc j) []"
    using len j by (simp add: list_update_append take_Suc_conv_app_nth Suc_diff_Suc [symmetric])
  have "fold (\<lambda>n t. snd (XDR_dict_add True cx t (dn_key n) (dn_data n))) (dict_node t ! j) ?t
    = ?t\<lparr>dict_length := dict_length ?t + of_nat (length (dict_node t ! j)), dict_node := (dict_node ?t)[j := [] @ dict_node t ! j]\<rparr>"
    by (rule add_sorted_bucket [OF _ j at]) (use len j b in auto)
  then show ?case using Suc len j up by (simp add: take_Suc_conv_app_nth)
qed

lemma rebuild_dict:
  assumes "dict_ok cx t"
  shows "fold (\<lambda>n t. snd (XDR_dict_add True cx t (dn_key n) (dn_data n))) (concat (dict_node t)) empty_dict = t"
  using rebuild_prefix [OF assms, of XDR_HASH_LEN] assms by (simp add: dict_ok_def)

text \<open>C11: a dictionary of 64-bit integers with fewer than \<open>2 ^ 32\<close> entries that fits into the
  destination is encoded with result 0 and its exact size, and decoding the buffer into an empty
  dictionary rebuilds it, node for node.\<close>

theorem dictionary_roundtrip:
  fixes t :: "u64 XDR_Dictionary"
  assumes ok: "dict_ok cx t" and keys: "\<forall>n \<in> set (concat (dict_node t)). valid_string (dn_key n)"
    and count: "length (concat (dict_node t)) < 2 ^ 32"
    and mx: "4 + (\<Sum>n\<leftarrow>concat (dict_node t). length (string_bytes (dn_key n)) + 8) \<le> mx" "mx \<le> length buf" "mx < 2 ^ 64"
  shows "\<exists>buf' used. XDR_encode_int64_dictionary (Some t) (Some buf) mx = ERet 0 used (Some buf')
    \<and> used = 4 + (\<Sum>n\<leftarrow>concat (dict_node t). length (string_bytes (dn_key n)) + 8) \<and> drop used buf' = drop used buf
    \<and> XDR_decode_int64_dictionary (\<lambda>_. True) cx (Some empty_dict) buf' mx = DOk used t"
proof -
  let ?ns = "concat (dict_node t)" let ?bs = "i64.dict_bytes t"
  have "length (concat (map i64.entry_bytes ns)) = (\<Sum>n\<leftarrow>ns. length (string_bytes (dn_key n)) + 8)" for ns
    by (induction ns) (simp_all add: i64.entry_bytes_def)
  then have l: "length ?bs = 4 + (\<Sum>n\<leftarrow>?ns. length (string_bytes (dn_key n)) + 8)" by (simp add: i64.dict_bytes_def)
  have v: "i64.entries_valid ?ns" using keys by (simp add: i64.entries_valid_def)
  have e: "XDR_encode_int64_dictionary (Some t) (Some buf) mx = ERet 0 (length ?bs) (Some (?bs @ drop (length ?bs) buf))"
    unfolding XDR_encode_int64_dictionary_def by (rule i64.dict_encode_fits [OF v]) (use mx l in auto)
  have c: "unat (dict_length t) = length ?ns" using ok count by (simp add: dict_ok_def unat_of_nat)
  have u: "XDR_decode_uint32 (?bs @ rest) mx = DOk 4 (dict_length t)" for rest
    using mx l by (simp add: XDR_decode_uint32_def i64.dict_bytes_def)
  have "dict_decode (\<lambda>_. True) cx XDR_decode_int64 8 (length ?ns) (?bs @ drop (length ?bs) buf) mx 4 empty_dict = DOk (length ?bs) t"
    using i64.dict_decode_fits [OF v, of "be32 (dict_length t)" mx cx 8 "drop (length ?bs) buf" empty_dict] mx l rebuild_dict [OF ok]
    by (simp add: i64.dict_bytes_def)
  then have "XDR_decode_int64_dictionary (\<lambda>_. True) cx (Some empty_dict) (?bs @ drop (length ?bs) buf) mx = DOk (length ?bs) t"
    using u c by (simp add: XDR_decode_int64_dictionary_def XDR_dictionary_decoder_def)
  then show ?thesis using e unfolding l [symmetric] by simp
qed

definition ex_dict :: "u64 XDR_Dictionary" where
  "ex_dict = snd (XDR_dict_add True ucast empty_dict [65] (-7))"

lemma concat_one_bucket: "b < k \<Longrightarrow> concat ((replicate k [])[b := xs]) = xs"
proof (induction k arbitrary: b)
  case (Suc k)
  then show ?case by (cases b) (simp_all add: concat_replicate_trivial)
qed simp

lemma ex_dict_facts: "dict_ok ucast ex_dict" "concat (dict_node ex_dict) = [\<lparr>dn_key = [65], dn_data = -7\<rparr>]"
proof -
  have "dict_ok ucast (snd (XDR_dict_add True ucast empty_dict [65] (-7 :: u64)))"
    by (rule conjunct1 [OF dict_add_step [OF empty_dict_ok(1) prod.collapse [symmetric]]])
  then show "dict_ok ucast ex_dict" by (simp add: ex_dict_def)
  show "concat (dict_node ex_dict) = [\<lparr>dn_key = [65], dn_data = -7\<rparr>]"
    using dict_bucket_less [of ucast "[65]"]
    by (simp add: ex_dict_def XDR_dict_add_def Let_def lookup_node_None dict_abs_def empty_dict_def concat_one_bucket)
qed

theorem dictionary_roundtrip_witness:
  "\<exists>buf'. XDR_encode_int64_dictionary (Some ex_dict) (Some (replicate 24 0)) 20 = ERet 0 20 (Some buf')
    \<and> XDR_decode_int64_dictionary (\<lambda>_. True) ucast (Some empty_dict) buf' 20 = DOk 20 ex_dict"
  using dictionary_roundtrip [OF ex_dict_facts(1), of 20 "replicate 24 0"]
  by (auto simp: ex_dict_facts(2) valid_string_def length_string_bytes)

section \<open>A missing destination\<close>

lemma encoder_itr_faulted: "dp_fault p \<Longrightarrow> snd (XDR_dictionary_encoder_itr (Some e) k v p) = p"
  by (simp add: XDR_dictionary_encoder_itr_def)

lemma encoder_fold_faulted:
  "dp_fault p \<Longrightarrow> fold (\<lambda>n s. snd (XDR_dictionary_encoder_itr (Some e) (dn_key n) (dn_data n) s)) ns p = p"
  by (induction ns) (simp_all add: encoder_itr_faulted)

text \<open>Asking for the encoded size of a dictionary that is not empty (a \<open>NULL\<close> destination, with \<open>max\<close> at
  least 8) makes the code write to an invalid address: \<open>XDR_dictionary_encoder\<close> advances the \<open>NULL\<close>
  pointer and then takes it for a buffer.\<close>

theorem dictionary_measure_faults:
  assumes ne: "concat (dict_node t) \<noteq> []" and mx: "8 \<le> mx" "mx < 2 ^ 64"
  shows "XDR_dictionary_encoder (Some enc) (Some t) None mx = EFault"
proof -
  obtain n ns where ns: "concat (dict_node t) = n # ns" using ne by (cases "concat (dict_node t)") auto
  let ?p = "\<lparr>dp_enc_len = 4, dp_dst = DWild, dp_max = mx - 4, dp_res = 0, dp_buf = None, dp_fault = False\<rparr>"
  have "XDR_encode_string_array (Ref (dn_key n)) (Some []) (mx - 4) = EFault"
    using mx by (simp add: XDR_encode_string_array_def Let_def XDR_encode_uint32_def put_def)
  then have f: "snd (XDR_dictionary_encoder_itr (Some enc) (dn_key n) (dn_data n) ?p) = ?p\<lparr>dp_fault := True\<rparr>"
    by (simp add: XDR_dictionary_encoder_itr_def dict_put_def Let_def)
  have "XDR_dict_iterate (XDR_dictionary_encoder_itr (Some enc)) (Some t) ?p = ?p\<lparr>dp_fault := True\<rparr>"
    unfolding XDR_dict_iterate_def option.case fold_iter_chain [OF encoder_itr_result] ns fold_simps f
    by (rule encoder_fold_faulted) simp
  then show ?thesis using mx by (simp add: XDR_dictionary_encoder_def XDR_encode_uint32_def Let_def)
qed

theorem dictionary_measure_faults_witness: "XDR_dictionary_encoder (Some XDR_encode_int64) (Some ex_dict) None 64 = EFault"
  by (rule dictionary_measure_faults) (simp_all add: ex_dict_facts(2))

end
