(* ===== verification/Md5.thy ===== *)
theory Md5
  imports Prelude "HOL-Library.Monad_Syntax"
begin

unbundle bit_operations_syntax

text \<open>
  The message digest of \<open>md5.c\<close>: the context, the three calls a client makes (\<open>MD5Init\<close>,
  \<open>MD5Update\<close>, \<open>MD5Final\<close>), the block transformation and the little-endian conversions.

  \<^item> \<open>UINT4\<close> is a 32-bit word, the four state words are a tuple, the 64-byte buffer a list.
  \<^item> The macros \<open>FF\<close>, \<open>GG\<close>, \<open>HH\<close>, \<open>II\<close> update their first argument; the 64 calls of
    \<open>MD5Transform\<close> rotate the roles of \<open>a\<close>, \<open>b\<close>, \<open>c\<close>, \<open>d\<close> from one call to the next, so a call is
    one \<open>md5_step\<close> and the calls are the rows of a table.
  \<^item> \<open>MD5Update\<close> is \<open>None\<close> when the C code reads past the input (the list holds the bytes the
    pointer may read) or does not return: its loop counter is 32 bits wide and wraps.
\<close>

section \<open>The block transformation\<close>

abbreviation (input) S11 :: nat where "S11 \<equiv> 7"
abbreviation (input) S12 :: nat where "S12 \<equiv> 12"
abbreviation (input) S13 :: nat where "S13 \<equiv> 17"
abbreviation (input) S14 :: nat where "S14 \<equiv> 22"
abbreviation (input) S21 :: nat where "S21 \<equiv> 5"
abbreviation (input) S22 :: nat where "S22 \<equiv> 9"
abbreviation (input) S23 :: nat where "S23 \<equiv> 14"
abbreviation (input) S24 :: nat where "S24 \<equiv> 20"
abbreviation (input) S31 :: nat where "S31 \<equiv> 4"
abbreviation (input) S32 :: nat where "S32 \<equiv> 11"
abbreviation (input) S33 :: nat where "S33 \<equiv> 16"
abbreviation (input) S34 :: nat where "S34 \<equiv> 23"
abbreviation (input) S41 :: nat where "S41 \<equiv> 6"
abbreviation (input) S42 :: nat where "S42 \<equiv> 10"
abbreviation (input) S43 :: nat where "S43 \<equiv> 15"
abbreviation (input) S44 :: nat where "S44 \<equiv> 21"

definition md5_F :: "u32 \<Rightarrow> u32 \<Rightarrow> u32 \<Rightarrow> u32" where
  "md5_F x y z = (x AND y) OR (NOT x AND z)"

definition md5_G :: "u32 \<Rightarrow> u32 \<Rightarrow> u32 \<Rightarrow> u32" where
  "md5_G x y z = (x AND z) OR (y AND NOT z)"

definition md5_H :: "u32 \<Rightarrow> u32 \<Rightarrow> u32 \<Rightarrow> u32" where
  "md5_H x y z = x XOR y XOR z"

definition md5_I :: "u32 \<Rightarrow> u32 \<Rightarrow> u32 \<Rightarrow> u32" where
  "md5_I x y z = y XOR (x OR NOT z)"

definition ROTATE_LEFT :: "u32 \<Rightarrow> nat \<Rightarrow> u32" where
  "ROTATE_LEFT x n = push_bit n x OR drop_bit (32 - n) x"

type_synonym md5_macro = "u32 \<Rightarrow> u32 \<Rightarrow> u32 \<Rightarrow> u32 \<Rightarrow> u32 \<Rightarrow> nat \<Rightarrow> u32 \<Rightarrow> u32"

definition FF :: md5_macro where
  "FF a b c d x s ac = ROTATE_LEFT (a + (md5_F b c d + x + ac)) s + b"

definition GG :: md5_macro where
  "GG a b c d x s ac = ROTATE_LEFT (a + (md5_G b c d + x + ac)) s + b"

definition HH :: md5_macro where
  "HH a b c d x s ac = ROTATE_LEFT (a + (md5_H b c d + x + ac)) s + b"

definition II :: md5_macro where
  "II a b c d x s ac = ROTATE_LEFT (a + (md5_I b c d + x + ac)) s + b"

type_synonym md5_state = "u32 \<times> u32 \<times> u32 \<times> u32"

definition md5_rounds :: "(md5_macro \<times> nat \<times> nat \<times> u32) list" where
  "md5_rounds =
     [(FF, 0, S11, 0xd76aa478), (FF, 1, S12, 0xe8c7b756),
      (FF, 2, S13, 0x242070db), (FF, 3, S14, 0xc1bdceee),
      (FF, 4, S11, 0xf57c0faf), (FF, 5, S12, 0x4787c62a),
      (FF, 6, S13, 0xa8304613), (FF, 7, S14, 0xfd469501),
      (FF, 8, S11, 0x698098d8), (FF, 9, S12, 0x8b44f7af),
      (FF, 10, S13, 0xffff5bb1), (FF, 11, S14, 0x895cd7be),
      (FF, 12, S11, 0x6b901122), (FF, 13, S12, 0xfd987193),
      (FF, 14, S13, 0xa679438e), (FF, 15, S14, 0x49b40821),
      (GG, 1, S21, 0xf61e2562), (GG, 6, S22, 0xc040b340),
      (GG, 11, S23, 0x265e5a51), (GG, 0, S24, 0xe9b6c7aa),
      (GG, 5, S21, 0xd62f105d), (GG, 10, S22, 0x2441453),
      (GG, 15, S23, 0xd8a1e681), (GG, 4, S24, 0xe7d3fbc8),
      (GG, 9, S21, 0x21e1cde6), (GG, 14, S22, 0xc33707d6),
      (GG, 3, S23, 0xf4d50d87), (GG, 8, S24, 0x455a14ed),
      (GG, 13, S21, 0xa9e3e905), (GG, 2, S22, 0xfcefa3f8),
      (GG, 7, S23, 0x676f02d9), (GG, 12, S24, 0x8d2a4c8a),
      (HH, 5, S31, 0xfffa3942), (HH, 8, S32, 0x8771f681),
      (HH, 11, S33, 0x6d9d6122), (HH, 14, S34, 0xfde5380c),
      (HH, 1, S31, 0xa4beea44), (HH, 4, S32, 0x4bdecfa9),
      (HH, 7, S33, 0xf6bb4b60), (HH, 10, S34, 0xbebfbc70),
      (HH, 13, S31, 0x289b7ec6), (HH, 0, S32, 0xeaa127fa),
      (HH, 3, S33, 0xd4ef3085), (HH, 6, S34, 0x4881d05),
      (HH, 9, S31, 0xd9d4d039), (HH, 12, S32, 0xe6db99e5),
      (HH, 15, S33, 0x1fa27cf8), (HH, 2, S34, 0xc4ac5665),
      (II, 0, S41, 0xf4292244), (II, 7, S42, 0x432aff97),
      (II, 14, S43, 0xab9423a7), (II, 5, S44, 0xfc93a039),
      (II, 12, S41, 0x655b59c3), (II, 3, S42, 0x8f0ccc92),
      (II, 10, S43, 0xffeff47d), (II, 1, S44, 0x85845dd1),
      (II, 8, S41, 0x6fa87e4f), (II, 15, S42, 0xfe2ce6e0),
      (II, 6, S43, 0xa3014314), (II, 13, S44, 0x4e0811a1),
      (II, 4, S41, 0xf7537e82), (II, 11, S42, 0xbd3af235),
      (II, 2, S43, 0x2ad7d2bb), (II, 9, S44, 0xeb86d391)]"

fun md5_step :: "u32 list \<Rightarrow> md5_state \<Rightarrow> md5_macro \<times> nat \<times> nat \<times> u32 \<Rightarrow> md5_state" where
  "md5_step x (a, b, c, d) (macro, k, s, ac) = (d, macro a b c d (x ! k) s ac, b, c)"

fun Encode :: "u32 list \<Rightarrow> nat \<Rightarrow> u8 list" where
  "Encode (w # ws) (Suc n) =
     ucast (w AND 0xff) # ucast (drop_bit 8 w AND 0xff) # ucast (drop_bit 16 w AND 0xff) #
     ucast (drop_bit 24 w AND 0xff) # Encode ws (n - 3)"
| "Encode ws _ = []"

fun Decode :: "u8 list \<Rightarrow> nat \<Rightarrow> u32 list" where
  "Decode (a # b # c # d # r) (Suc n) =
     (ucast a OR push_bit 8 (ucast b) OR push_bit 16 (ucast c) OR push_bit 24 (ucast d)) #
     Decode r (n - 3)"
| "Decode r _ = []"

fun add_state :: "md5_state \<Rightarrow> md5_state \<Rightarrow> md5_state" where
  "add_state (s0, s1, s2, s3) (a, b, c, d) = (s0 + a, s1 + b, s2 + c, s3 + d)"

definition MD5Transform :: "md5_state \<Rightarrow> u8 list \<Rightarrow> md5_state" where
  "MD5Transform st block = add_state st (foldl (md5_step (Decode block 64)) st md5_rounds)"

section \<open>The context and its operations\<close>

record MD5_CTX =
  md_state :: md5_state
  md_count0 :: u32
  md_count1 :: u32
  md_buffer :: "u8 list"

definition MD5Init :: "MD5_CTX \<Rightarrow> MD5_CTX" where
  "MD5Init ctx =
     ctx\<lparr>md_count0 := 0, md_count1 := 0,
        md_state := (0x67452301, 0xefcdab89, 0x98badcfe, 0x10325476)\<rparr>"

definition memcpy_at :: "nat \<Rightarrow> 'a list \<Rightarrow> 'a list \<Rightarrow> 'a list" where
  "memcpy_at off bs buf = take off buf @ bs @ drop (off + length bs) buf"

definition count_add :: "u32 \<Rightarrow> MD5_CTX \<Rightarrow> MD5_CTX" where
  "count_add inputLen ctx =
     (let c0 = md_count0 ctx + push_bit 3 inputLen;
          c1 = (if c0 < push_bit 3 inputLen then md_count1 ctx + 1 else md_count1 ctx)
      in ctx\<lparr>md_count0 := c0, md_count1 := c1 + drop_bit 29 inputLen\<rparr>)"

partial_function (option) update_loop :: "u8 list \<Rightarrow> u32 \<Rightarrow> u32 \<Rightarrow> md5_state \<Rightarrow> (u32 \<times> md5_state) option" where
  "update_loop input inputLen i st =
     (if i + 63 < inputLen then
        if length input < unat i + 64 then None
        else update_loop input inputLen (i + 64) (MD5Transform st (take 64 (drop (unat i) input)))
      else Some (i, st))"

declare update_loop.simps [code]

definition buffer_rest :: "u8 list \<Rightarrow> u32 \<Rightarrow> nat \<Rightarrow> u32 \<Rightarrow> MD5_CTX \<Rightarrow> MD5_CTX option" where
  "buffer_rest input inputLen index i ctx =
     (let n = unat (inputLen - i)
      in if length input < unat i + n \<or> 64 < index + n then None
         else Some (ctx\<lparr>md_buffer := memcpy_at index (take n (drop (unat i) input)) (md_buffer ctx)\<rparr>))"

definition MD5Update :: "MD5_CTX \<Rightarrow> u8 list \<Rightarrow> u32 \<Rightarrow> MD5_CTX option" where
  "MD5Update ctx0 input inputLen =
     (let index = unat (drop_bit 3 (md_count0 ctx0) AND 0x3F);
          ctx = count_add inputLen ctx0;
          partLen = 64 - index
      in if partLen \<le> unat inputLen then
           if length input < partLen then None
           else
             let buf = memcpy_at index (take partLen input) (md_buffer ctx);
                 st = MD5Transform (md_state ctx) buf
             in (case update_loop input inputLen (of_nat partLen) st of
                   None \<Rightarrow> None
                 | Some (i, st') \<Rightarrow>
                     buffer_rest input inputLen 0 i (ctx\<lparr>md_buffer := buf, md_state := st'\<rparr>))
         else buffer_rest input inputLen index 0 ctx)"

definition PADDING :: "u8 list" where
  "PADDING = 0x80 # replicate 63 0"

definition state_words :: "md5_state \<Rightarrow> u32 list" where
  "state_words st = (case st of (a, b, c, d) \<Rightarrow> [a, b, c, d])"

definition MD5Final :: "MD5_CTX \<Rightarrow> (u8 list \<times> MD5_CTX) option" where
  "MD5Final ctx =
     (let bits = Encode [md_count0 ctx, md_count1 ctx] 8;
          index = unat (drop_bit 3 (md_count0 ctx) AND 0x3f);
          padLen = (if index < 56 then 56 - index else 120 - index)
      in case MD5Update ctx PADDING (of_nat padLen) of
           None \<Rightarrow> None
         | Some ctx1 \<Rightarrow>
             (case MD5Update ctx1 bits 8 of
                None \<Rightarrow> None
              | Some ctx2 \<Rightarrow>
                  Some (Encode (state_words (md_state ctx2)) 16,
                        \<lparr>md_state = (0, 0, 0, 0), md_count0 = 0, md_count1 = 0,
                         md_buffer = replicate 64 0\<rparr>)))"

fun md5_updates :: "MD5_CTX \<Rightarrow> u8 list list \<Rightarrow> MD5_CTX option" where
  "md5_updates ctx [] = Some ctx"
| "md5_updates ctx (c # cs) =
     (case MD5Update ctx c (of_nat (length c)) of
        None \<Rightarrow> None
      | Some ctx' \<Rightarrow> md5_updates ctx' cs)"

definition md5_digest :: "MD5_CTX \<Rightarrow> u8 list list \<Rightarrow> u8 list option" where
  "md5_digest ctx cs =
     (case md5_updates (MD5Init ctx) cs of
        None \<Rightarrow> None
      | Some ctx' \<Rightarrow> map_option fst (MD5Final ctx'))"

end
