(* ===== verification/Critical.thy ===== *)
theory Critical
  imports Md5 Xdr
begin

unbundle bit_operations_syntax

text \<open>
  The critical-state store of \<open>critical.c\<close>: a process saves up to 224 bytes so that they survive
  restarts, crashes in the middle of a save and corrupted memory.

  \<^item> The disk is the list of the files of the store, path and content, in the order \<open>readdir\<close>
    shows them. Every change of the disk goes through \<open>d_creat\<close>, \<open>d_append\<close> or \<open>d_unlink\<close>, which keep
    in \<open>dk_past\<close> the images the disk went through, one for every byte of a write, so that a
    crash at any moment leaves one of \<open>dk_images\<close>.
  \<^item> What the operating system decides is the record \<open>cs_io\<close>, an argument of every operation:
    whether \<open>opendir\<close>, \<open>open\<close> and \<open>unlink\<close> succeed, the characters \<open>mkstemp\<close> puts in place of
    \<open>XXXXXX\<close> (it never returns an existing file), how many bytes a \<open>write\<close> stores, which \<open>read\<close> fails and
    with what \<open>errno\<close>.
  \<^item> \<open>struct CriticalEntry\<close> is packed; its two sequence fields are kept here as the values
    before \<open>htonl\<close> and \<open>crit_bytes\<close> lays them out in network order.
  \<^item> \<open>malloc\<close> and \<open>strdup\<close> are taken to succeed: the code does not check them.
\<close>

section \<open>Disk\<close>

type_synonym bytes = "u8 list"
type_synonym fs = "(string \<times> bytes) list"

record disk =
  dk_files :: fs
  dk_past :: "fs list"

definition dk_images :: "disk \<Rightarrow> fs list" where
  "dk_images dk = dk_past dk @ [dk_files dk]"

definition fs_append :: "string \<Rightarrow> bytes \<Rightarrow> fs \<Rightarrow> fs" where
  "fs_append p bs f = map (\<lambda>(q, c). (q, if q = p then c @ bs else c)) f"

definition d_creat :: "string \<Rightarrow> disk \<Rightarrow> disk" where
  "d_creat p dk = \<lparr>dk_files = dk_files dk @ [(p, [])], dk_past = dk_images dk\<rparr>"

definition d_append :: "string \<Rightarrow> bytes \<Rightarrow> disk \<Rightarrow> disk" where
  "d_append p bs dk =
     \<lparr>dk_files = fs_append p bs (dk_files dk),
      dk_past = dk_past dk @ map (\<lambda>k. fs_append p (take k bs) (dk_files dk)) [0..<length bs]\<rparr>"

definition d_unlink :: "string \<Rightarrow> disk \<Rightarrow> disk" where
  "d_unlink p dk = \<lparr>dk_files = filter (\<lambda>(q, c). q \<noteq> p) (dk_files dk), dk_past = dk_images dk\<rparr>"

record cs_io =
  io_opendir :: "string \<Rightarrow> bool"
  io_suffix :: "string \<Rightarrow> string option"
  io_write :: "string \<Rightarrow> nat \<Rightarrow> nat option"
  io_open :: "string \<Rightarrow> bool"
  io_read_errno :: "string \<Rightarrow> nat \<Rightarrow> nat option"
  io_unlink :: "string \<Rightarrow> bool"

definition readdir :: "string \<Rightarrow> fs \<Rightarrow> string list" where
  "readdir dir f =
     map (\<lambda>(p, c). drop (Suc (length dir)) p)
       (filter (\<lambda>(p, c). take (Suc (length dir)) p = dir @ ''/'') f)"

definition mkstemp :: "cs_io \<Rightarrow> string \<Rightarrow> disk \<Rightarrow> (string \<times> disk) option" where
  "mkstemp io template dk =
     (case io_suffix io template of
        None \<Rightarrow> None
      | Some s \<Rightarrow>
          let p = template @ s
          in if length s = 6 \<and> CHR ''/'' \<notin> set s \<and> p \<notin> fst ` set (dk_files dk)
             then Some (p, d_creat p dk) else None)"

definition unlink_file :: "cs_io \<Rightarrow> string \<Rightarrow> disk \<Rightarrow> disk" where
  "unlink_file io p dk = (if io_unlink io p then d_unlink p dk else dk)"

section \<open>State\<close>

abbreviation (input) NUM_COPIES :: nat where "NUM_COPIES \<equiv> 4"
abbreviation (input) CLEANUP_INTERVAL :: int where "CLEANUP_INTERVAL \<equiv> 6"
abbreviation (input) CRITICAL_STATE_MAX_LEN :: nat where "CRITICAL_STATE_MAX_LEN \<equiv> 224"
abbreviation (input) CRITICAL_STATE_NUM_FILES :: nat where "CRITICAL_STATE_NUM_FILES \<equiv> 2"
abbreviation (input) ENTRY_SIZE :: nat where "ENTRY_SIZE \<equiv> 256"

definition CS_FILE_DIRECTORY :: string where "CS_FILE_DIRECTORY = ''/critical_state''"
definition CS_FILE_PREFIX :: string where "CS_FILE_PREFIX = ''crit-state''"

record CriticalEntry =
  ce_seqNumHigh :: u32
  ce_seqNumLow :: u32
  ce_reserved :: bytes
  ce_state :: bytes
  ce_md5 :: bytes

record CSFileState =
  cf_prefix :: string
  cf_curr_file :: "string option"
  cf_directory :: "string option"
  cf_generation :: int

record CSState =
  cs_state_version :: u64
  cs_name :: string
  cs_dirty :: bool
  cs_files :: "CSFileState list"
  cs_state :: bytes
  cs_md5 :: bytes

definition entry_body :: "CriticalEntry \<Rightarrow> bytes" where
  "entry_body e = be32 (ce_seqNumHigh e) @ be32 (ce_seqNumLow e) @ ce_reserved e @ ce_state e"

definition crit_bytes :: "CriticalEntry \<Rightarrow> bytes" where
  "crit_bytes e = entry_body e @ ce_md5 e"

definition entry_of_bytes :: "bytes \<Rightarrow> CriticalEntry" where
  "entry_of_bytes bs =
     \<lparr>ce_seqNumHigh = of_be32 (take 4 bs), ce_seqNumLow = of_be32 (take 4 (drop 4 bs)),
      ce_reserved = take 8 (drop 8 bs), ce_state = take 224 (drop 16 bs), ce_md5 = take 16 (drop 240 bs)\<rparr>"

definition md5_sum :: "bytes \<Rightarrow> bytes" where
  "md5_sum bs =
     (case md5_digest \<lparr>md_state = (0, 0, 0, 0), md_count0 = 0, md_count1 = 0, md_buffer = replicate 64 0\<rparr> [bs] of
        Some d \<Rightarrow> d
      | None \<Rightarrow> [])"

section \<open>Writing\<close>

definition cs_file_prefix :: "string \<Rightarrow> CSFileState \<Rightarrow> string" where
  "cs_file_prefix proc_name cf = CS_FILE_PREFIX @ ''-'' @ proc_name @ ''.'' @ cf_prefix cf @ ''.''"

definition skipped :: "string \<Rightarrow> string \<Rightarrow> bool" where
  "skipped prefix d_name \<longleftrightarrow> d_name = [] \<or> hd d_name = CHR ''.'' \<or> take (length prefix) d_name \<noteq> prefix"

definition cleanup_old_state :: "cs_io \<Rightarrow> string \<Rightarrow> CSFileState \<Rightarrow> disk \<Rightarrow> CSFileState \<times> disk" where
  "cleanup_old_state io proc_name cf dk =
     (case (cf_curr_file cf, cf_directory cf) of
        (Some cur, Some dir) \<Rightarrow>
          if \<not> io_opendir io dir then (cf, dk)
          else
            let prefix = cs_file_prefix proc_name cf;
                paths = map (\<lambda>n. dir @ ''/'' @ n) (filter (\<lambda>n. \<not> skipped prefix n) (readdir dir (dk_files dk)));
                head = rev (filter (\<lambda>p. p \<noteq> cur) paths)
            in (cf\<lparr>cf_generation := 0\<rparr>, fold (unlink_file io) head dk)
      | _ \<Rightarrow> (cf, dk))"

fun write_copies :: "cs_io \<Rightarrow> string \<Rightarrow> bytes \<Rightarrow> nat \<Rightarrow> nat \<Rightarrow> disk \<Rightarrow> bool \<times> disk" where
  "write_copies io p bs i 0 dk = (True, dk)"
| "write_copies io p bs i (Suc n) dk =
     (case io_write io p i of
        None \<Rightarrow> (False, dk)
      | Some k \<Rightarrow>
          if k < length bs then (False, d_append p (take k bs) dk)
          else write_copies io p bs (Suc i) n (d_append p bs dk))"

definition write_cs_file ::
  "cs_io \<Rightarrow> string \<Rightarrow> CriticalEntry \<Rightarrow> CSFileState \<Rightarrow> disk \<Rightarrow> int \<times> CSFileState \<times> disk" where
  "write_cs_file io proc_name ent cf dk =
     (case cf_directory cf of
        None \<Rightarrow> (-1, cf, dk)
      | Some dir \<Rightarrow>
          (case mkstemp io (dir @ ''/'' @ cs_file_prefix proc_name cf) dk of
             None \<Rightarrow> (-1, cf, dk)
           | Some (file_name, dk1) \<Rightarrow>
               (case write_copies io file_name (crit_bytes ent) 0 NUM_COPIES dk1 of
                  (False, dk2) \<Rightarrow> (-2, cf, unlink_file io file_name dk2)
                | (True, dk2) \<Rightarrow>
                    let cf1 = cf\<lparr>cf_curr_file := Some file_name, cf_generation := cf_generation cf + 1\<rparr>;
                        (cf2, dk3) = (if cf_generation cf1 > CLEANUP_INTERVAL
                                      then cleanup_old_state io proc_name cf1 dk2 else (cf1, dk2))
                    in (0, cf2, dk3))))"

section \<open>Loading\<close>

definition entry_seq :: "CriticalEntry \<Rightarrow> u64" where
  "entry_seq e = push_bit 32 (ucast (ce_seqNumHigh e)) OR ucast (ce_seqNumLow e)"

definition process_critical_entry :: "CSState \<Rightarrow> CriticalEntry \<Rightarrow> int \<times> CSState" where
  "process_critical_entry cs ent =
     (if ce_md5 ent \<noteq> md5_sum (entry_body ent) then (0, cs)
      else
        let seq = entry_seq ent
        in if seq < cs_state_version cs then (0, cs)
           else if seq = cs_state_version cs then (1, cs)
           else (1, cs\<lparr>cs_state_version := seq, cs_state := ce_state ent, cs_md5 := md5_sum (ce_state ent)\<rparr>))"

function read_entries :: "cs_io \<Rightarrow> string \<Rightarrow> nat \<Rightarrow> bytes \<Rightarrow> int \<Rightarrow> CSState \<Rightarrow> int \<times> CSState" where
  "read_entries io file n rest res cs =
     (case io_read_errno io file n of
        Some errno \<Rightarrow> (- int errno, cs)
      | None \<Rightarrow>
          if length rest < ENTRY_SIZE then (res, cs)
          else
            let (r, cs') = process_critical_entry cs (entry_of_bytes (take ENTRY_SIZE rest))
            in read_entries io file (Suc n) (drop ENTRY_SIZE rest) (if r \<noteq> 0 then 1 else res) cs')"
  by pat_completeness auto
termination by (relation "measure (\<lambda>(io, file, n, rest, res, cs). length rest)") auto

definition load_critical_state_file :: "cs_io \<Rightarrow> fs \<Rightarrow> CSState \<Rightarrow> string \<Rightarrow> int \<times> CSState" where
  "load_critical_state_file io f cs file =
     (case map_of f file of
        None \<Rightarrow> (-1, cs)
      | Some content \<Rightarrow> if \<not> io_open io file then (-1, cs) else read_entries io file 0 content 0 cs)"

definition set_curr_file :: "nat \<Rightarrow> string \<Rightarrow> CSState \<Rightarrow> CSState" where
  "set_curr_file i p cs = cs\<lparr>cs_files := (cs_files cs)[i := (cs_files cs ! i)\<lparr>cf_curr_file := Some p\<rparr>]\<rparr>"

fun load_names :: "cs_io \<Rightarrow> fs \<Rightarrow> nat \<Rightarrow> string \<Rightarrow> string \<Rightarrow> string list \<Rightarrow> int \<Rightarrow> CSState \<Rightarrow> int \<times> CSState" where
  "load_names io f i dir prefix [] rd_cnt cs = (rd_cnt, cs)"
| "load_names io f i dir prefix (d_name # ns) rd_cnt cs =
     (if skipped prefix d_name then load_names io f i dir prefix ns rd_cnt cs
      else
        let full_path = dir @ ''/'' @ d_name;
            (r, cs1) = load_critical_state_file io f cs full_path
        in if r > 0 then load_names io f i dir prefix ns (rd_cnt + 1) (set_curr_file i full_path cs1)
           else load_names io f i dir prefix ns rd_cnt cs1)"

definition load_critical_state_directory :: "cs_io \<Rightarrow> fs \<Rightarrow> nat \<Rightarrow> CSState \<Rightarrow> int \<times> CSState" where
  "load_critical_state_directory io f i cs =
     (let cf = cs_files cs ! i
      in case cf_directory cf of
           None \<Rightarrow> (-1, cs)
         | Some dir \<Rightarrow>
             if \<not> io_opendir io dir then (-1, cs)
             else load_names io f i dir (cs_file_prefix (cs_name cs) cf) (readdir dir f) 0 cs)"

definition load_critical_state :: "cs_io \<Rightarrow> fs \<Rightarrow> CSState \<Rightarrow> int \<times> CSState" where
  "load_critical_state io f cs =
     (let cs1 = fold (\<lambda>i cs. snd (load_critical_state_directory io f i cs)) [0..<CRITICAL_STATE_NUM_FILES]
                  (cs\<lparr>cs_state_version := 0\<rparr>)
      in (0, cs1\<lparr>cs_dirty := False\<rparr>))"

section \<open>Life cycle and client calls\<close>

definition cleanup_files :: "cs_io \<Rightarrow> string \<Rightarrow> CSState \<Rightarrow> disk \<Rightarrow> CSState \<times> disk" where
  "cleanup_files io name cs dk =
     fold (\<lambda>i (cs, dk). let (cf, dk') = cleanup_old_state io name (cs_files cs ! i) dk
                       in (cs\<lparr>cs_files := (cs_files cs)[i := cf]\<rparr>, dk'))
       [0..<CRITICAL_STATE_NUM_FILES] (cs, dk)"

definition blank_cs :: "string \<Rightarrow> CSState" where
  "blank_cs name =
     \<lparr>cs_state_version = 0, cs_name = name, cs_dirty = False,
      cs_files = map (\<lambda>i. \<lparr>cf_prefix = [char_of (97 + i)], cf_curr_file = None,
                          cf_directory = Some CS_FILE_DIRECTORY, cf_generation = 0\<rparr>)
                   [0..<CRITICAL_STATE_NUM_FILES],
      cs_state = replicate 224 0, cs_md5 = replicate 16 0\<rparr>"

definition critical_state_init :: "cs_io \<Rightarrow> string \<Rightarrow> disk \<Rightarrow> CSState \<times> disk" where
  "critical_state_init io name dk =
     cleanup_files io name (snd (load_critical_state io (dk_files dk) (blank_cs name))) dk"

definition critical_state_cleanup :: "cs_io \<Rightarrow> CSState option \<Rightarrow> disk \<Rightarrow> CSState option \<times> disk" where
  "critical_state_cleanup io pcs dk =
     (case pcs of
        None \<Rightarrow> (None, dk)
      | Some cs \<Rightarrow>
          let (cs1, dk1) = cleanup_files io (cs_name cs) cs dk
          in (Some (cs1\<lparr>cs_files := map (\<lambda>cf. cf\<lparr>cf_curr_file := None, cf_directory := None\<rparr>) (cs_files cs1)\<rparr>), dk1))"

text \<open>Of the process only the watchdog mode and the critical state matter here.\<close>

record CSProc =
  pr_notsat :: bool
  pr_criticalState :: CSState

definition proc_get_cs_state :: "CSProc option \<Rightarrow> CSState option" where
  "proc_get_cs_state proc =
     (case proc of
        None \<Rightarrow> None
      | Some p \<Rightarrow> if pr_notsat p then None else Some (pr_criticalState p))"

definition put_cs :: "CSProc option \<Rightarrow> CSState \<Rightarrow> CSProc option" where
  "put_cs proc cs = map_option (\<lambda>p. p\<lparr>pr_criticalState := cs\<rparr>) proc"

definition new_entry :: "u64 \<Rightarrow> bytes \<Rightarrow> CriticalEntry" where
  "new_entry v state =
     (let ent = \<lparr>ce_seqNumHigh = ucast (drop_bit 32 v AND 0xFFFFFFFF), ce_seqNumLow = ucast (v AND 0xFFFFFFFF),
                 ce_reserved = replicate 8 0,
                 ce_state = state @ replicate (CRITICAL_STATE_MAX_LEN - length state) 0,
                 ce_md5 = replicate 16 0\<rparr>
      in ent\<lparr>ce_md5 := md5_sum (entry_body ent)\<rparr>)"

fun save_files :: "cs_io \<Rightarrow> CriticalEntry \<Rightarrow> nat list \<Rightarrow> CSState \<Rightarrow> disk \<Rightarrow> bool \<times> CSState \<times> disk" where
  "save_files io ent [] cs dk = (True, cs, dk)"
| "save_files io ent (i # is) cs dk =
     (let (rc, cf, dk1) = write_cs_file io (cs_name cs) ent (cs_files cs ! i) dk;
          cs1 = cs\<lparr>cs_files := (cs_files cs)[i := cf]\<rparr>
      in if rc < 0 then
           if i = 0 then (False, cs1, dk1) else save_files io ent is (cs1\<lparr>cs_dirty := True\<rparr>) dk1
         else save_files io ent is cs1 dk1)"

definition PROC_save_critical_state ::
  "cs_io \<Rightarrow> CSProc option \<Rightarrow> bytes \<Rightarrow> int \<Rightarrow> disk \<Rightarrow> (int \<times> CSProc option \<times> disk) option" where
  "PROC_save_critical_state io proc state len dk =
     (if len > 224 \<or> len \<le> 0 then Some (-1, proc, dk)
      else if proc = None then Some (-2, proc, dk)
      else case proc_get_cs_state proc of
          None \<Rightarrow> Some (-10, proc, dk)
        | Some cs \<Rightarrow>
            if length state < nat len then None
            else
              let cs1 = cs\<lparr>cs_state_version := cs_state_version cs + 1\<rparr>;
                  ent = new_entry (cs_state_version cs1) (take (nat len) state)
              in (case save_files io ent [0..<CRITICAL_STATE_NUM_FILES] cs1 dk of
                    (False, cs2, dk2) \<Rightarrow> Some (-3, put_cs proc cs2, dk2)
                  | (True, cs2, dk2) \<Rightarrow>
                      Some (len, put_cs proc (cs2\<lparr>cs_state := ce_state ent, cs_md5 := md5_sum (ce_state ent)\<rparr>), dk2)))"

definition PROC_read_critical_state ::
  "cs_io \<Rightarrow> fs \<Rightarrow> CSProc option \<Rightarrow> int \<Rightarrow> (int \<times> bytes \<times> CSProc option) option" where
  "PROC_read_critical_state io f proc len =
     (case proc_get_cs_state proc of
        None \<Rightarrow> Some (-10, [], proc)
      | Some cs \<Rightarrow>
          let (r1, cs1) = (if cs_dirty cs then load_critical_state io f cs else (0, cs))
          in if r1 < 0 then Some (-1, [], put_cs proc cs1)
             else if cs_dirty cs1 then Some (-2, [], put_cs proc cs1)
             else
               let bad = (md5_sum (cs_state cs1) \<noteq> cs_md5 cs1);
                   (r2, cs2) = (if bad then load_critical_state io f cs1 else (0, cs1))
               in if r2 < 0 then Some (-3, [], put_cs proc cs2)
                  else if bad \<and> md5_sum (cs_state cs2) \<noteq> cs_md5 cs2 then Some (-4, [], put_cs proc cs2)
                  else
                    let len' = (if len > 224 then 224 else len)
                    in if len' < 0 then None
                       else Some (len', take (nat len') (cs_state cs2), put_cs proc cs2))"

end
