(* ===== verification/Md5_Correct.thy ===== *)
theory Md5_Correct
  imports Md5
begin

unbundle bit_operations_syntax

text \<open>
  Correctness of the digest: however a client cuts its message into \<open>MD5Update\<close> calls, the digest
  is that of the whole message after the padding of RFC 1321. The streaming argument is made
  once, for any digest with an initial context, an update and a final call (locale
  \<open>stream_digest\<close>), and interpreted on the functions of \<open>md5.c\<close>.
\<close>

section \<open>The reference\<close>

definition le_bytes :: "nat \<Rightarrow> nat \<Rightarrow> u8 list" where
  "le_bytes n k = map (\<lambda>i. of_nat (n div 256 ^ i)) [0..<k]"

definition md5_pad :: "u8 list \<Rightarrow> u8 list" where
  "md5_pad msg =
     msg @ 0x80 # replicate ((119 - length msg mod 64) mod 64) 0 @ le_bytes (8 * length msg) 8"

function absorb :: "md5_state \<Rightarrow> u8 list \<Rightarrow> md5_state" where
  "absorb st bs = (if length bs < 64 then st else absorb (MD5Transform st (take 64 bs)) (drop 64 bs))"
  by pat_completeness auto
termination by (relation "measure (\<lambda>(st, bs). length bs)") auto

declare absorb.simps [simp del]

definition md5_reference :: "u8 list \<Rightarrow> u8 list" where
  "md5_reference msg =
     (case absorb (0x67452301, 0xefcdab89, 0x98badcfe, 0x10325476) (md5_pad msg) of
        (a, b, c, d) \<Rightarrow> le_bytes (unat a) 4 @ le_bytes (unat b) 4 @ le_bytes (unat c) 4 @ le_bytes (unat d) 4)"

section \<open>Streaming\<close>

locale stream_digest =
  fixes start :: 's
    and update :: "'s \<Rightarrow> 'a list \<Rightarrow> 's option"
    and finish :: "'s \<Rightarrow> 'd option"
    and absorbed :: "'s \<Rightarrow> 'a list \<Rightarrow> bool"
    and chunk_ok :: "'a list \<Rightarrow> bool"
    and reference :: "'a list \<Rightarrow> 'd"
  assumes start_absorbed: "absorbed start []"
    and update_absorbed: "absorbed s m \<Longrightarrow> chunk_ok c \<Longrightarrow> \<exists>s'. update s c = Some s' \<and> absorbed s' (m @ c)"
    and finish_reference: "absorbed s m \<Longrightarrow> finish s = Some (reference m)"
begin

primrec updates :: "'s \<Rightarrow> 'a list list \<Rightarrow> 's option" where
  "updates s [] = Some s"
| "updates s (c # cs) = (case update s c of None \<Rightarrow> None | Some s' \<Rightarrow> updates s' cs)"

lemma updates_absorbed:
  "absorbed s m \<Longrightarrow> \<forall>c \<in> set cs. chunk_ok c \<Longrightarrow> \<exists>s'. updates s cs = Some s' \<and> absorbed s' (m @ concat cs)"
proof (induction cs arbitrary: s m)
  case (Cons c cs)
  obtain s1 where s1: "update s c = Some s1" "absorbed s1 (m @ c)"
    using update_absorbed [OF Cons.prems(1)] Cons.prems(2) by auto
  show ?case using Cons.IH [OF s1(2)] Cons.prems(2) s1(1) by simp
qed simp

lemma digest_reference:
  "\<forall>c \<in> set cs. chunk_ok c \<Longrightarrow> Option.bind (updates start cs) finish = Some (reference (concat cs))"
  using updates_absorbed [OF start_absorbed] finish_reference by fastforce

end

section \<open>The functions of \<open>md5.c\<close>\<close>

lemma absorb_short [simp]: "length bs < 64 \<Longrightarrow> absorb st bs = st"
  by (simp add: absorb.simps)

lemma absorb_block: "64 \<le> length bs \<Longrightarrow> absorb st bs = absorb (MD5Transform st (take 64 bs)) (drop 64 bs)"
  by (subst absorb.simps) simp

lemma absorb_append:
  "length a mod 64 = 0 \<Longrightarrow> absorb st (a @ b) = absorb (absorb st a) b"
proof (induction st a rule: absorb.induct)
  case (1 st a)
  show ?case
  proof (cases "length a < 64")
    case True
    then show ?thesis using 1(2) by simp
  next
    case False
    then have "length (drop 64 a) mod 64 = 0" using 1(2) by (simp add: le_mod_geq)
    then show ?thesis using 1(1) False by (simp add: absorb_block)
  qed
qed

lemma absorb_full_blocks:
  "absorb st bs = absorb st (take (length bs div 64 * 64) bs)"
proof -
  let ?k = "length bs div 64 * 64"
  have k: "?k \<le> length bs" by simp
  have "absorb st (take ?k bs @ drop ?k bs) = absorb (absorb st (take ?k bs)) (drop ?k bs)"
    by (rule absorb_append) (simp add: k min_absorb2)
  moreover have "length (drop ?k bs) < 64" by (simp add: minus_div_mult_eq_mod)
  ultimately show ?thesis by simp
qed

lemma u32_lt: "unat (w :: u32) < 2 ^ 32"
  by (rule order_less_le_trans [OF unsigned_less]) simp

lemma unat_drop: "unat (drop_bit n w) = unat (w :: u32) div 2 ^ n"
  unfolding unat_drop_bit_eq by (rule drop_bit_eq_div)

lemma unat_take: "unat (take_bit n w) = unat (w :: u32) mod 2 ^ n"
  unfolding unsigned_take_bit_eq by (rule take_bit_eq_mod)

definition bit_count :: "MD5_CTX \<Rightarrow> nat" where
  "bit_count ctx = unat (md_count0 ctx) + 2 ^ 32 * unat (md_count1 ctx)"

definition md5_absorbed :: "MD5_CTX \<Rightarrow> u8 list \<Rightarrow> bool" where
  "md5_absorbed ctx msg \<longleftrightarrow>
     md_state ctx = absorb (0x67452301, 0xefcdab89, 0x98badcfe, 0x10325476) msg \<and>
     length (md_buffer ctx) = 64 \<and>
     take (length msg mod 64) (md_buffer ctx) = drop (length msg div 64 * 64) msg \<and>
     bit_count ctx = 8 * length msg mod 2 ^ 64"

lemma buffer_index:
  assumes "md5_absorbed ctx msg"
  shows "unat (drop_bit 3 (md_count0 ctx) AND 0x3F) = length msg mod 64"
proof -
  have c0: "unat (md_count0 ctx) = 8 * length msg mod 2 ^ 32"
  proof -
    have "unat (md_count0 ctx) = bit_count ctx mod 2 ^ 32"
      using u32_lt [of "md_count0 ctx"] by (simp add: bit_count_def)
    then show ?thesis using assms by (simp add: md5_absorbed_def mod_mod_cancel)
  qed
  have "drop_bit 3 (md_count0 ctx) AND 0x3F = take_bit 6 (drop_bit 3 (md_count0 ctx))"
    by (simp add: take_bit_eq_mask mask_eq_exp_minus_1)
  then have "unat (drop_bit 3 (md_count0 ctx) AND 0x3F) = unat (md_count0 ctx) div 8 mod 64"
    unfolding unat_drop by (simp add: unat_take unat_drop)
  moreover have "8 * length msg mod 2 ^ 32 = 8 * (length msg mod 2 ^ 29)"
    using mod_mult_mult1 [of 8 "length msg" "2 ^ 29"] by simp
  ultimately show ?thesis by (simp add: c0 mod_mod_cancel)
qed

lemma add_wrap_carry:
  fixes a p :: u32
  shows "unat (a + p) + 2 ^ 32 * (if a + p < p then 1 else 0) = unat a + unat p"
proof -
  have "unat a < 2 ^ 32" "unat p < 2 ^ 32" by (rule u32_lt)+
  then show ?thesis
    by (auto simp: word_less_nat_alt unat_word_ariths mod_if)
qed

lemma count_add_count0: "md_count0 (count_add k ctx) = md_count0 ctx + push_bit 3 k"
  and count_add_count1:
    "md_count1 (count_add k ctx) =
     md_count1 ctx + (if md_count0 ctx + push_bit 3 k < push_bit 3 k then 1 else 0) + drop_bit 29 k"
  and count_add_frame [simp]:
    "md_state (count_add k ctx) = md_state ctx" "md_buffer (count_add k ctx) = md_buffer ctx"
  by (simp_all add: count_add_def Let_def)

lemma unat_shifts:
  fixes k :: u32
  shows "unat (push_bit 3 k) + 2 ^ 32 * unat (drop_bit 29 k) = 8 * unat k"
proof -
  have "unat (push_bit 3 k) = 8 * unat k mod 2 ^ 32"
    by (simp add: push_bit_eq_mult unat_word_ariths mult.commute)
  moreover have "unat (drop_bit 29 k) = 8 * unat k div 2 ^ 32"
    unfolding unat_drop by simp
  ultimately show ?thesis by presburger
qed

lemma bit_count_lt: "bit_count ctx < 2 ^ 64"
  using u32_lt [of "md_count0 ctx"] u32_lt [of "md_count1 ctx"]
  by (simp add: bit_count_def)

lemma bit_count_add:
  assumes "bit_count ctx = 8 * n mod 2 ^ 64"
  shows "bit_count (count_add k ctx) = 8 * (n + unat k) mod 2 ^ 64"
proof -
  let ?p = "push_bit 3 k" and ?q = "drop_bit 29 k"
  let ?c = "if md_count0 ctx + ?p < ?p then 1 else 0"
  have "unat (md_count1 (count_add k ctx)) = (unat (md_count1 ctx) + ?c + unat ?q) mod 2 ^ 32"
    by (simp add: count_add_count1 unat_word_ariths mod_simps)
  then have "bit_count (count_add k ctx) mod 2 ^ 64 =
      (unat (md_count0 ctx + ?p) + 2 ^ 32 * ((unat (md_count1 ctx) + ?c + unat ?q) mod 2 ^ 32)) mod 2 ^ 64"
    by (simp add: bit_count_def count_add_count0)
  also have "\<dots> = (unat (md_count0 ctx + ?p) + 2 ^ 32 * (unat (md_count1 ctx) + ?c + unat ?q)) mod 2 ^ 64"
    by (simp only: mult_mod_right power_add [symmetric]) (simp only: numeral_plus_numeral add_num_simps mod_add_right_eq)
  also have "\<dots> = (bit_count ctx + (unat ?p + 2 ^ 32 * unat ?q)) mod 2 ^ 64"
    by (rule arg_cong [where f = "\<lambda>x. x mod 2 ^ 64"])
      (use add_wrap_carry [of "md_count0 ctx" ?p] in \<open>simp add: bit_count_def split: if_splits\<close>)
  also have "\<dots> = 8 * (n + unat k) mod 2 ^ 64"
    unfolding unat_shifts assms by (simp add: mod_simps algebra_simps)
  finally show ?thesis using bit_count_lt [of "count_add k ctx"] by simp
qed

lemma update_loop_absorb:
  assumes "unat i \<le> unat n" "unat n \<le> length input" "unat n + 63 < 2 ^ 32"
  shows "update_loop input n i st =
    Some (i + of_nat ((unat n - unat i) div 64 * 64), absorb st (take (unat n - unat i) (drop (unat i) input)))"
  using assms
proof (induction "unat n - unat i" arbitrary: i st rule: less_induct)
  case less
  have i63: "unat (i + 63) = unat i + 63"
    using less.prems by (simp add: unat_word_ariths)
  show ?case
  proof (cases "unat i + 63 < unat n")
    case True
    then have i64: "unat (i + 64) = unat i + 64"
      using less.prems by (simp add: unat_word_ariths)
    let ?m = "unat n - unat i"
    have m: "?m = 64 + (unat n - unat (i + 64))" using True i64 by simp
    have "?m div 64 = Suc ((unat n - unat (i + 64)) div 64)" unfolding m by simp
    then have i': "i + 64 + of_nat ((unat n - unat (i + 64)) div 64 * 64) = i + of_nat (?m div 64 * 64)"
      by (simp add: algebra_simps)
    have "update_loop input n i st = update_loop input n (i + 64) (MD5Transform st (take 64 (drop (unat i) input)))"
      using True less.prems by (subst update_loop.simps) (simp add: word_less_nat_alt i63)
    also have "\<dots> = Some (i + 64 + of_nat ((unat n - unat (i + 64)) div 64 * 64),
        absorb (MD5Transform st (take 64 (drop (unat i) input)))
          (take (unat n - unat (i + 64)) (drop (unat (i + 64)) input)))"
      using True less.prems i64 by (intro less.hyps) auto
    also note i'
    also have "absorb (MD5Transform st (take 64 (drop (unat i) input)))
          (take (unat n - unat (i + 64)) (drop (unat (i + 64)) input)) =
        absorb st (take ?m (drop (unat i) input))"
    proof -
      have "absorb st (take ?m (drop (unat i) input)) =
          absorb (MD5Transform st (take 64 (take ?m (drop (unat i) input)))) (drop 64 (take ?m (drop (unat i) input)))"
        using True less.prems by (intro absorb_block) simp
      moreover have "take 64 (take ?m (drop (unat i) input)) = take 64 (drop (unat i) input)"
        using True by (simp add: min_def)
      moreover have "drop 64 (take ?m (drop (unat i) input)) =
          take (unat n - unat (i + 64)) (drop (unat (i + 64)) input)"
        unfolding i64 by (simp add: drop_take add.commute)
      ultimately show ?thesis by simp
    qed
    finally show ?thesis .
  next
    case False
    then have "(unat n - unat i) div 64 = 0" by simp
    moreover have "update_loop input n i st = Some (i, st)"
      using False by (subst update_loop.simps) (simp add: word_less_nat_alt i63)
    ultimately show ?thesis using False by simp
  qed
qed

lemma memcpy_at_0: "memcpy_at 0 bs buf = bs @ drop (length bs) buf"
  by (simp add: memcpy_at_def)

lemma within_block:
  fixes a n :: nat
  assumes "a mod 64 + n < 64"
  shows "(a + n) div 64 = a div 64 \<and> (a + n) mod 64 = a mod 64 + n"
proof -
  define q r where "q = a div 64" and "r = a mod 64"
  have a: "a = r + 64 * q" by (simp add: q_def r_def)
  have "(r + n + 64 * q) div 64 = q" "(r + n + 64 * q) mod 64 = r + n"
    using assms by (simp_all add: r_def [symmetric])
  then have "(a + n) div 64 = q \<and> (a + n) mod 64 = r + n" by (simp add: a ac_simps)
  then show ?thesis unfolding q_def r_def .
qed

lemma update_short:
  assumes inv: "md5_absorbed ctx msg" and n: "unat n \<le> length input"
    and short: "unat n < 64 - length msg mod 64"
  shows "\<exists>ctx'. MD5Update ctx input n = Some ctx' \<and> md5_absorbed ctx' (msg @ take (unat n) input)"
proof -
  let ?L = "length msg" and ?c = "take (unat n) input"
  have len: "length ?c = unat n" using n by simp
  have dm: "(?L + unat n) div 64 = ?L div 64" "(?L + unat n) mod 64 = ?L mod 64 + unat n"
    using within_block [of ?L "unat n"] short by auto
  have k: "?L div 64 * 64 \<le> ?L" by simp
  have "absorb st (msg @ ?c) = absorb st msg" for st
    by (subst (1 2) absorb_full_blocks) (simp add: dm len k del: length_take)
  then show ?thesis
    using inv short n bit_count_add [of ctx ?L n]
    by (auto simp: MD5Update_def buffer_index [OF inv] Let_def buffer_rest_def md5_absorbed_def memcpy_at_def
        dm len k bit_count_def minus_div_mult_eq_mod)
qed

lemma update_long:
  assumes inv: "md5_absorbed ctx msg" and n: "unat n \<le> length input" "unat n + 63 < 2 ^ 32"
    and long: "64 - length msg mod 64 \<le> unat n"
  shows "\<exists>ctx'. MD5Update ctx input n = Some ctx' \<and> md5_absorbed ctx' (msg @ take (unat n) input)"
proof -
  let ?L = "length msg" and ?c = "take (unat n) input"
  define p where "p = 64 - ?L mod 64"
  define i where "i = p + (unat n - p) div 64 * 64"
  define blk where "blk = drop (?L div 64 * 64) msg @ take p ?c"
  have p: "0 < p" "p \<le> 64" "p \<le> unat n" "?L mod 64 + p = 64"
    using long by (auto simp: p_def less_imp_le)
  have i: "i \<le> unat n" "unat n - i = (unat n - p) mod 64" "i = unat n - (unat n - p) mod 64"
    using p(3) by (auto simp: i_def minus_mod_eq_div_mult [symmetric] minus_div_mult_eq_mod)
  have Li: "?L + i = ?L div 64 * 64 + 64 + (unat n - p) div 64 * 64"
    using p(4) div_mult_mod_eq [of ?L 64] unfolding i_def by linarith
  have rest: "unat n = i + (unat n - p) mod 64" using i by simp
  have dm: "(?L + unat n) div 64 * 64 = ?L + i" "(?L + unat n) mod 64 = unat n - i"
  proof -
    define r where "r = (unat n - p) mod 64"
    define q where "q = ?L div 64 + 1 + (unat n - p) div 64"
    have r: "r < 64" "unat n = i + r" "unat n - i = r" using rest i(2) by (simp_all add: r_def)
    have Lq: "?L + i = 64 * q" using Li by (simp add: q_def)
    have eq: "?L + unat n = r + 64 * q" using r Lq by simp
    show "(?L + unat n) div 64 * 64 = ?L + i" "(?L + unat n) mod 64 = unat n - i"
      unfolding eq r(3) Lq using r(1) by simp_all
  qed
  have msgc: "msg @ ?c = take (?L div 64 * 64) msg @ blk @ drop p ?c"
    unfolding blk_def by (metis append.assoc append_take_drop_id)
  have blk: "length blk = 64" using p n by (simp add: blk_def minus_div_mult_eq_mod)
  have st: "absorb st (msg @ ?c) = absorb (MD5Transform (absorb st msg) blk) (drop p ?c)" for st
    by (subst absorb_full_blocks [of st msg], subst msgc, subst absorb_append)
      (simp_all add: min_absorb2 absorb_block blk)
  have buf: "memcpy_at (?L mod 64) (take p input) (md_buffer ctx) = blk"
    using inv p n by (simp add: memcpy_at_def blk_def md5_absorbed_def min_absorb1)
  have "unat (of_nat p :: u32) = p" using p(2) by (simp add: unat_of_nat)
  then have loop: "update_loop input n (of_nat p) st = Some (of_nat i, absorb st (drop p ?c))" for st
    using update_loop_absorb [of "of_nat p" n input st] p n by (simp add: i_def drop_take)
  have ui: "unat (of_nat i :: u32) = i"
    using i(1) n(2) by (simp add: unat_of_nat)
  have ni: "unat (n - of_nat i) = unat n - i"
    using i(1) ui by (simp add: unat_sub_if')
  have tail: "drop (?L + i) (msg @ ?c) = take (unat n - i) (drop i input)"
    by (simp add: drop_take)
  define rest where "rest = take (unat n - i) (drop i input)"
  define ctx' where "ctx' = (count_add n ctx)\<lparr>md_buffer := rest @ drop (unat n - i) blk,
    md_state := absorb (MD5Transform (md_state ctx) blk) (drop p ?c)\<rparr>"
  have lr: "length rest = unat n - i" "unat n - i < 64" using n(1) i by (simp_all add: rest_def)
  have "MD5Update ctx input n = Some ctx'"
    using p n i(1) lr by (simp add: MD5Update_def buffer_index [OF inv] Let_def p_def [symmetric] loop buf
        buffer_rest_def ui ni memcpy_at_0 ctx'_def rest_def [symmetric])
  moreover have "md5_absorbed ctx' (msg @ ?c)"
  proof -
    have "bit_count ctx' = 8 * length (msg @ ?c) mod 2 ^ 64"
      using inv n(1) bit_count_add [of ctx ?L n] by (simp add: md5_absorbed_def ctx'_def bit_count_def)
    moreover have "length (msg @ ?c) = ?L + unat n" using n(1) by simp
    moreover have "md_state ctx' = absorb (0x67452301, 0xefcdab89, 0x98badcfe, 0x10325476) (msg @ ?c)"
      using inv by (simp only: st) (simp add: md5_absorbed_def ctx'_def)
    moreover have "length (md_buffer ctx') = 64" "take (unat n - i) (md_buffer ctx') = rest"
      using lr blk by (simp_all add: ctx'_def)
    ultimately show ?thesis
      by (simp only: md5_absorbed_def dm tail rest_def simp_thms)
  qed
  ultimately show ?thesis by blast
qed

lemma MD5Update_absorbed:
  assumes "md5_absorbed ctx msg" "unat n \<le> length input" "unat n + 63 < 2 ^ 32"
  shows "\<exists>ctx'. MD5Update ctx input n = Some ctx' \<and> md5_absorbed ctx' (msg @ take (unat n) input)"
  using update_short [OF assms(1,2)] update_long [OF assms] by (cases "unat n < 64 - length msg mod 64") auto

section \<open>Padding and the final call\<close>

lemma le_byte:
  fixes w :: u32
  shows "(ucast (drop_bit k w AND 0xff) :: u8) = of_nat (unat w div 2 ^ k)"
proof (rule word_unat_eq_iff [THEN iffD2])
  have "drop_bit k w AND 0xff = take_bit 8 (drop_bit k w)"
    by (simp add: take_bit_eq_mask mask_eq_exp_minus_1)
  then show "unat (ucast (drop_bit k w AND 0xff) :: u8) = unat (of_nat (unat w div 2 ^ k) :: u8)"
    by (simp only: unsigned_ucast_eq unat_take unat_drop unat_of_nat) (simp add: take_bit_eq_mod)
qed

lemma Encode_word [simp]: "Encode (w # ws) (Suc n) = le_bytes (unat w) 4 @ Encode ws (n - 3)"
  using le_byte [of 0 w] by (simp add: le_byte le_bytes_def upt_rec)

lemma le_bytes_split: "le_bytes n (k + m) = le_bytes n k @ le_bytes (n div 256 ^ k) m"
proof -
  have "[0..<k + m] = [0..<k] @ map (\<lambda>i. i + k) [0..<m]"
    by (metis add.commute add.left_neutral map_add_upt upt_add_eq_append zero_le)
  then show ?thesis by (simp add: le_bytes_def power_add flip: div_mult2_eq) (simp add: mult.commute)
qed

lemma le_bytes_mod: "le_bytes (n mod 256 ^ k) k = le_bytes n k"
proof -
  have "(of_nat ((n mod 256 ^ k) div 256 ^ i) :: u8) = of_nat (n div 256 ^ i)" if "i < k" for i
  proof -
    have "256 ^ k = 256 ^ i * (256 * 256 ^ (k - Suc i) :: nat)"
      using that by (metis Suc_diff_Suc add_diff_inverse_nat not_less_iff_gr_or_eq power_Suc power_add)
    then have "n mod 256 ^ k div 256 ^ i = n div 256 ^ i mod (256 * 256 ^ (k - Suc i))"
      by (simp add: mod_mult2_eq)
    then have "n mod 256 ^ k div 256 ^ i mod 256 = n div 256 ^ i mod 256"
      by (simp add: mod_mod_cancel)
    then show ?thesis by (simp add: word_unat_eq_iff unat_of_nat)
  qed
  then show ?thesis by (simp add: le_bytes_def)
qed

lemma bits_le_bytes:
  assumes "md5_absorbed ctx msg"
  shows "Encode [md_count0 ctx, md_count1 ctx] 8 = le_bytes (8 * length msg) 8"
proof -
  let ?n = "8 * length msg mod 256 ^ 8"
  have n: "?n = unat (md_count0 ctx) + 2 ^ 32 * unat (md_count1 ctx)"
    using assms by (simp add: md5_absorbed_def bit_count_def)
  have "le_bytes (8 * length msg) 8 = le_bytes ?n (4 + 4)" using le_bytes_mod [of _ 8] by simp
  also have "\<dots> = le_bytes (?n mod 256 ^ 4) 4 @ le_bytes (?n div 256 ^ 4) 4"
    unfolding le_bytes_split le_bytes_mod ..
  also have "\<dots> = le_bytes (unat (md_count0 ctx)) 4 @ le_bytes (unat (md_count1 ctx)) 4"
    unfolding n using u32_lt [of "md_count0 ctx"] by simp
  finally show ?thesis using Encode_word [of _ _ 7] Encode_word [of _ _ 3] by simp
qed


lemma padding_bytes:
  assumes "k < 64"
  shows "take (if k < 56 then 56 - k else 120 - k) PADDING = 0x80 # replicate ((119 - k) mod 64) 0"
proof -
  have "(119 - k) mod 64 = (if k < 56 then 56 - k else 120 - k) - 1"
  proof (cases "k < 56")
    case True
    then have "119 - k = (55 - k) + 64" by simp
    then show ?thesis using True by (simp only: mod_add_self2) simp
  qed (use assms in simp)
  then show ?thesis using assms by (auto simp: PADDING_def take_Cons')
qed

lemma Encode_state:
  "Encode (state_words (a, b, c, d)) 16 =
   le_bytes (unat a) 4 @ le_bytes (unat b) 4 @ le_bytes (unat c) 4 @ le_bytes (unat d) 4"
  using Encode_word [of _ _ 15] Encode_word [of _ _ 11] Encode_word [of _ _ 7] Encode_word [of _ _ 3]
  by (simp add: state_words_def)

lemma MD5Final_reference:
  assumes inv: "md5_absorbed ctx msg"
  shows "map_option fst (MD5Final ctx) = Some (md5_reference msg)"
proof -
  let ?k = "length msg mod 64"
  define padLen where "padLen = (if ?k < 56 then 56 - ?k else 120 - ?k)"
  have pl: "padLen \<le> 64" unfolding padLen_def by simp linarith
  then have u: "unat (of_nat padLen :: u32) = padLen" by (simp add: unat_of_nat)
  define bits where "bits = Encode [md_count0 ctx, md_count1 ctx] 8"
  have lb: "length bits = 8" "bits = le_bytes (8 * length msg) 8"
    unfolding bits_def bits_le_bytes [OF inv] by (simp_all add: le_bytes_def)
  obtain ctx1 where c1: "MD5Update ctx PADDING (of_nat padLen) = Some ctx1"
      "md5_absorbed ctx1 (msg @ take padLen PADDING)"
    using MD5Update_absorbed [OF inv, of "of_nat padLen" PADDING] pl u by (auto simp: PADDING_def)
  obtain ctx2 where c2: "MD5Update ctx1 bits 8 = Some ctx2"
      "md5_absorbed ctx2 ((msg @ take padLen PADDING) @ bits)"
    using MD5Update_absorbed [OF c1(2), of 8 bits] lb(1) by auto
  have "(msg @ take padLen PADDING) @ bits = md5_pad msg"
    using padding_bytes [of ?k] by (simp add: padLen_def md5_pad_def lb(2))
  then have "md_state ctx2 = absorb (0x67452301, 0xefcdab89, 0x98badcfe, 0x10325476) (md5_pad msg)"
    using c2(2) by (simp add: md5_absorbed_def)
  moreover obtain a b c d where "md_state ctx2 = (a, b, c, d)" by (cases "md_state ctx2")
  ultimately show ?thesis
    by (simp add: MD5Final_def Let_def buffer_index [OF inv] padLen_def [symmetric]
        bits_def [symmetric] c1(1) c2(1) md5_reference_def Encode_state split: prod.split)
qed

lemma MD5Init_absorbed: "length (md_buffer ctx) = 64 \<Longrightarrow> md5_absorbed (MD5Init ctx) []"
  by (simp add: md5_absorbed_def MD5Init_def bit_count_def)

text \<open>An uninitialised context has some 64 bytes in its buffer; \<open>blank_ctx\<close> is one of them.\<close>

definition blank_ctx :: MD5_CTX where
  "blank_ctx = \<lparr>md_state = (0, 0, 0, 0), md_count0 = 0, md_count1 = 0, md_buffer = replicate 64 0\<rparr>"

interpretation md5: stream_digest "MD5Init blank_ctx" "\<lambda>ctx c. MD5Update ctx c (of_nat (length c))"
    "\<lambda>ctx. map_option fst (MD5Final ctx)" md5_absorbed "\<lambda>c. length c + 63 < 2 ^ 32" md5_reference
proof
  show "md5_absorbed (MD5Init blank_ctx) []"
    by (rule MD5Init_absorbed) (simp add: blank_ctx_def)
next
  fix s m and c :: "u8 list"
  assume "md5_absorbed s m" "length c + 63 < 2 ^ 32"
  then show "\<exists>s'. MD5Update s c (of_nat (length c)) = Some s' \<and> md5_absorbed s' (m @ c)"
    using MD5Update_absorbed [of s m "of_nat (length c)" c] by (simp add: unat_of_nat)
qed (rule MD5Final_reference)

lemma md5_updates_stream: "md5_updates ctx cs = md5.updates ctx cs"
  by (induction cs arbitrary: ctx) (auto split: option.splits)

lemma md5_digest_reference:
  assumes "\<forall>c \<in> set cs. length c + 63 < 2 ^ 32"
  shows "md5_digest blank_ctx cs = Some (md5_reference (concat cs))"
  using md5.digest_reference [OF assms]
  by (cases "md5.updates (MD5Init blank_ctx) cs") (simp_all add: md5_digest_def md5_updates_stream)



end
