(* ===== verification/Critical_Correct.thy ===== *)
theory Critical_Correct
  imports Critical Md5_Correct Xdr_Correct
begin

unbundle bit_operations_syntax

text \<open>
  Correctness of the critical-state store: loading finds the newest intact entry on the disk;
  a crash at any byte of a save leaves a disk from which either the old or the new state is
  recovered, and the new one once the save has reported success; a state corrupted in memory is
  never handed out unless its digest still matches.
\<close>

section \<open>Loading as a fold\<close>

type_synonym payload = "u64 \<times> bytes \<times> bytes"

definition payload :: "CSState \<Rightarrow> payload" where
  "payload cs = (cs_state_version cs, cs_state cs, cs_md5 cs)"

definition entry_valid :: "CriticalEntry \<Rightarrow> bool" where
  "entry_valid e \<longleftrightarrow> ce_md5 e = md5_sum (entry_body e)"

fun adopt :: "payload \<Rightarrow> CriticalEntry \<Rightarrow> payload" where
  "adopt (v, s, m) e = (if entry_valid e \<and> v < entry_seq e then (entry_seq e, ce_state e, md5_sum (ce_state e)) else (v, s, m))"

function visible_records :: "cs_io \<Rightarrow> string \<Rightarrow> nat \<Rightarrow> bytes \<Rightarrow> CriticalEntry list" where
  "visible_records io file n rest =
     (if io_read_errno io file n \<noteq> None \<or> length rest < 256 then []
      else entry_of_bytes (take 256 rest) # visible_records io file (Suc n) (drop 256 rest))"
  by pat_completeness auto
termination by (relation "measure (\<lambda>(io, file, n, rest). length rest)") auto

declare visible_records.simps [simp del] read_entries.simps [simp del]

definition file_entries :: "cs_io \<Rightarrow> fs \<Rightarrow> string \<Rightarrow> CriticalEntry list" where
  "file_entries io f p =
     (case map_of f p of None \<Rightarrow> [] | Some c \<Rightarrow> if io_open io p then visible_records io p 0 c else [])"

definition dir_entries :: "cs_io \<Rightarrow> fs \<Rightarrow> string \<Rightarrow> CSFileState \<Rightarrow> CriticalEntry list" where
  "dir_entries io f name cf =
     (case cf_directory cf of
        None \<Rightarrow> []
      | Some dir \<Rightarrow>
          if io_opendir io dir then
            concat (map (\<lambda>n. file_entries io f (dir @ ''/'' @ n))
              (filter (\<lambda>n. \<not> skipped (cs_file_prefix name cf) n) (readdir dir f)))
          else [])"

definition store_entries :: "cs_io \<Rightarrow> fs \<Rightarrow> CSState \<Rightarrow> CriticalEntry list" where
  "store_entries io f cs = concat (map (dir_entries io f (cs_name cs)) (cs_files cs))"

lemma process_payload: "payload (snd (process_critical_entry cs e)) = adopt (payload cs) e"
  by (auto simp: process_critical_entry_def payload_def entry_valid_def Let_def)

text \<open>What loading keeps: the name, and of every file set the directory and the prefix.\<close>

definition same_sets :: "CSState \<Rightarrow> CSState \<Rightarrow> bool" where
  "same_sets a b \<longleftrightarrow>
     cs_name a = cs_name b \<and>
     map (\<lambda>cf. (cf_directory cf, cf_prefix cf)) (cs_files a) = map (\<lambda>cf. (cf_directory cf, cf_prefix cf)) (cs_files b)"

lemma same_sets_refl [simp]: "same_sets a a"
  by (simp add: same_sets_def)

lemma same_sets_trans: "same_sets a b \<Longrightarrow> same_sets b c \<Longrightarrow> same_sets a c"
  by (simp add: same_sets_def)

lemma same_sets_length: "same_sets a b \<Longrightarrow> length (cs_files a) = length (cs_files b)"
  by (auto simp: same_sets_def dest: map_eq_imp_length_eq)

lemma same_sets_nth:
  "same_sets a b \<Longrightarrow> i < length (cs_files b) \<Longrightarrow> cf_directory (cs_files a ! i) = cf_directory (cs_files b ! i)"
  "same_sets a b \<Longrightarrow> i < length (cs_files b) \<Longrightarrow> cf_prefix (cs_files a ! i) = cf_prefix (cs_files b ! i)"
  by (auto simp: same_sets_def list_eq_iff_nth_eq)

lemma dir_entries_cong:
  "cf_directory cf = cf_directory cf' \<Longrightarrow> cf_prefix cf = cf_prefix cf' \<Longrightarrow>
   dir_entries io f name cf = dir_entries io f name cf'"
  by (auto simp: dir_entries_def cs_file_prefix_def split: option.splits)

lemma process_same_sets: "same_sets (snd (process_critical_entry cs e)) cs"
  by (auto simp: process_critical_entry_def same_sets_def Let_def)

lemma read_entries_payload:
  "payload (snd (read_entries io fp n rest res cs)) = foldl adopt (payload cs) (visible_records io fp n rest) \<and>
   same_sets (snd (read_entries io fp n rest res cs)) cs"
proof (induction io fp n rest res cs rule: read_entries.induct)
  case (1 io fp n rest res cs)
  show ?case
  proof (cases "io_read_errno io fp n \<noteq> None \<or> length rest < 256")
    case True
    then show ?thesis by (subst (1 2) read_entries.simps, subst visible_records.simps) (auto split: option.splits)
  next
    case False
    obtain r cs' where p: "process_critical_entry cs (entry_of_bytes (take 256 rest)) = (r, cs')" by fastforce
    have step: "read_entries io fp n rest res cs =
        read_entries io fp (Suc n) (drop 256 rest) (if r \<noteq> 0 then 1 else res) cs'"
      using False by (subst read_entries.simps) (auto simp: p)
    have "payload cs' = adopt (payload cs) (entry_of_bytes (take 256 rest))" "same_sets cs' cs"
      using process_payload [of cs] process_same_sets [of cs] p by (metis snd_conv)+
    moreover have "visible_records io fp n rest =
        entry_of_bytes (take 256 rest) # visible_records io fp (Suc n) (drop 256 rest)"
      using False by (subst visible_records.simps) simp
    ultimately show ?thesis
      using 1 [OF _ _ p [symmetric] refl] False step by (auto intro: same_sets_trans)
  qed
qed

lemma load_file_payload:
  "payload (snd (load_critical_state_file io f cs p)) = foldl adopt (payload cs) (file_entries io f p)"
  "same_sets (snd (load_critical_state_file io f cs p)) cs"
  using read_entries_payload [of io p 0 _ 0 cs]
  by (auto simp: load_critical_state_file_def file_entries_def split: option.splits)

lemma set_curr_file_frame [simp]:
  "payload (set_curr_file i p cs) = payload cs" "same_sets (set_curr_file i p cs) cs"
proof -
  show "payload (set_curr_file i p cs) = payload cs" by (simp add: set_curr_file_def payload_def)
  show "same_sets (set_curr_file i p cs) cs"
  proof (cases "i < length (cs_files cs)")
    case True
    then show ?thesis by (simp add: set_curr_file_def same_sets_def map_update list_update_same_conv)
  next
    case False
    then show ?thesis by (simp add: set_curr_file_def same_sets_def list_update_beyond)
  qed
qed

lemma load_names_payload:
  "payload (snd (load_names io f i dir prefix ns c cs)) =
     foldl adopt (payload cs) (concat (map (\<lambda>n. file_entries io f (dir @ ''/'' @ n)) (filter (\<lambda>n. \<not> skipped prefix n) ns))) \<and>
   same_sets (snd (load_names io f i dir prefix ns c cs)) cs"
proof (induction ns arbitrary: c cs)
  case (Cons n ns)
  let ?p = "dir @ ''/'' @ n"
  obtain r cs1 where l: "load_critical_state_file io f cs ?p = (r, cs1)" by fastforce
  have "payload cs1 = foldl adopt (payload cs) (file_entries io f ?p)" "same_sets cs1 cs"
    using load_file_payload [of io f cs ?p] unfolding l by simp_all
  moreover from this have "same_sets (set_curr_file i ?p cs1) cs"
    by (metis same_sets_trans set_curr_file_frame(2))
  ultimately show ?case
    using Cons.IH [of c cs] Cons.IH [of c cs1] Cons.IH [of "c + 1" "set_curr_file i ?p cs1"]
    using l by (auto intro: same_sets_trans)
qed simp

lemma load_directory_payload:
  "payload (snd (load_critical_state_directory io f i cs)) =
     foldl adopt (payload cs) (dir_entries io f (cs_name cs) (cs_files cs ! i))"
  "same_sets (snd (load_critical_state_directory io f i cs)) cs"
  using load_names_payload
  by (auto simp: load_critical_state_directory_def dir_entries_def Let_def split: option.splits)

lemma load_payload:
  assumes "length (cs_files cs) = 2"
  shows "payload (snd (load_critical_state io f cs)) = foldl adopt (0, cs_state cs, cs_md5 cs) (store_entries io f cs)"
    and "same_sets (snd (load_critical_state io f cs)) cs"
    and "fst (load_critical_state io f cs) = 0" "\<not> cs_dirty (snd (load_critical_state io f cs))"
proof -
  define c0 where "c0 = cs\<lparr>cs_state_version := 0\<rparr>"
  define c1 where "c1 = snd (load_critical_state_directory io f 0 c0)"
  define c2 where "c2 = snd (load_critical_state_directory io f 1 c1)"
  have l: "load_critical_state io f cs = (0, c2\<lparr>cs_dirty := False\<rparr>)"
    by (simp add: load_critical_state_def upt_rec c0_def c1_def c2_def)
  have p0: "payload c0 = (0, cs_state cs, cs_md5 cs)" by (simp add: c0_def payload_def)
  have s0: "same_sets c0 cs" by (simp add: c0_def same_sets_def)
  have s1: "same_sets c1 cs" and s2: "same_sets c2 cs"
    unfolding c2_def c1_def using load_directory_payload(2) s0 same_sets_trans by blast+
  have "dir_entries io f (cs_name c1) (cs_files c1 ! 1) = dir_entries io f (cs_name cs) (cs_files cs ! 1)"
    using s1 assms same_sets_nth [OF s1, of 1] by (auto simp: same_sets_def intro: dir_entries_cong)
  moreover have "cs_files cs = [cs_files cs ! 0, cs_files cs ! 1]"
    using assms by (auto simp: length_Suc_conv numeral_2_eq_2)
  then have "store_entries io f cs =
      dir_entries io f (cs_name cs) (cs_files cs ! 0) @ dir_entries io f (cs_name cs) (cs_files cs ! 1)"
    unfolding store_entries_def by (metis append.right_neutral concat.simps list.simps(8,9))
  ultimately show "payload (snd (load_critical_state io f cs)) = foldl adopt (0, cs_state cs, cs_md5 cs) (store_entries io f cs)"
    using load_directory_payload(1) [of io f 0 c0] load_directory_payload(1) [of io f 1 c1]
    unfolding c1_def [symmetric] c2_def [symmetric] p0 l by (simp add: payload_def c0_def)
  show "same_sets (snd (load_critical_state io f cs)) cs" using s2 by (simp add: l same_sets_def)
qed (simp_all add: load_critical_state_def)

section \<open>The newest entry\<close>

definition newest :: "CriticalEntry set \<Rightarrow> payload \<Rightarrow> payload \<Rightarrow> bool" where
  "newest E p0 p \<longleftrightarrow>
     (\<forall>e \<in> E. entry_valid e \<longrightarrow> entry_seq e \<le> fst p) \<and>
     (p = p0 \<or> (\<exists>e \<in> E. entry_valid e \<and> fst p0 < entry_seq e \<and> p = (entry_seq e, ce_state e, md5_sum (ce_state e))))"

lemma adopt_newest: "newest E p0 p \<Longrightarrow> fst p0 \<le> fst p \<Longrightarrow> newest (insert e E) p0 (adopt p e)"
  by (cases p) (auto simp: newest_def)

lemma adopt_mono: "fst p \<le> fst (adopt p e)"
  by (cases p) auto

lemma foldl_adopt_newest_gen:
  "newest E p0 p \<Longrightarrow> fst p0 \<le> fst p \<Longrightarrow> newest (E \<union> set es) p0 (foldl adopt p es)"
proof (induction es arbitrary: E p)
  case (Cons e es)
  have "newest (insert e E \<union> set es) p0 (foldl adopt (adopt p e) es)"
    by (rule Cons.IH) (use Cons.prems adopt_newest adopt_mono [of p e] in \<open>auto intro: order_trans\<close>)
  then show ?case by simp
qed simp

lemma foldl_adopt_newest: "newest (set es) p (foldl adopt p es)"
  using foldl_adopt_newest_gen [of "{}" p p es] by (simp add: newest_def)

lemma newest_unique:
  assumes "newest E p0 p" "newest E p0 q"
    and "\<And>e e'. e \<in> E \<Longrightarrow> e' \<in> E \<Longrightarrow> entry_valid e \<Longrightarrow> entry_valid e' \<Longrightarrow> entry_seq e = entry_seq e' \<Longrightarrow> ce_state e = ce_state e'"
  shows "p = q"
  using assms unfolding newest_def by (smt (verit) fst_conv order_antisym leD)

text \<open>
  C15: Loading finds the newest intact entry. \<open>load_critical_state\<close> returns 0 and clears the dirty
  flag; the version it ends with is at least that of every readable entry of the process's
  files whose digest is right, and the state, unless no such entry has a version above 0, is that of one of
  them with exactly this version, with the digest of that state beside it.
\<close>
theorem load_newest:
  assumes "length (cs_files cs) = 2"
  shows "fst (load_critical_state io f cs) = 0 \<and>
    \<not> cs_dirty (snd (load_critical_state io f cs)) \<and>
    newest (set (store_entries io f cs)) (0, cs_state cs, cs_md5 cs) (payload (snd (load_critical_state io f cs)))"
  using load_payload [OF assms] foldl_adopt_newest by simp

theorem load_newest_witness:
  "fst (load_critical_state \<lparr>io_opendir = \<lambda>_. True, io_suffix = \<lambda>_. None, io_write = \<lambda>_ _. None, io_open = \<lambda>_. True,
      io_read_errno = \<lambda>_ _. None, io_unlink = \<lambda>_. True\<rparr> [(''/critical_state/crit-state-p.a.000000'', [1, 2])] (blank_cs ''p'')) = 0"
  using load_newest [of "blank_cs ''p''"] by (simp add: blank_cs_def)

section \<open>Records of a file\<close>

function records :: "bytes \<Rightarrow> CriticalEntry list" where
  "records rest = (if length rest < 256 then [] else entry_of_bytes (take 256 rest) # records (drop 256 rest))"
  by pat_completeness auto
termination by (relation "measure length") auto

declare records.simps [simp del]

definition healthy :: "cs_io \<Rightarrow> bool" where
  "healthy io \<longleftrightarrow> (\<forall>d. io_opendir io d) \<and> (\<forall>p. io_open io p) \<and> (\<forall>p n. io_read_errno io p n = None)"

lemma visible_records_healthy: "healthy io \<Longrightarrow> visible_records io p n c = records c"
proof (induction c arbitrary: n rule: records.induct)
  case (1 rest)
  then show ?case by (subst visible_records.simps, subst records.simps) (simp add: healthy_def)
qed

definition entry_wf :: "CriticalEntry \<Rightarrow> bool" where
  "entry_wf e \<longleftrightarrow> length (ce_reserved e) = 8 \<and> length (ce_state e) = 224 \<and> length (ce_md5 e) = 16"

lemma length_crit_bytes: "entry_wf e \<Longrightarrow> length (crit_bytes e) = 256"
  by (simp add: entry_wf_def crit_bytes_def entry_body_def)

lemma entry_of_crit_bytes: "entry_wf e \<Longrightarrow> entry_of_bytes (crit_bytes e) = e"
proof -
  assume wf: "entry_wf e"
  let ?h = "be32 (ce_seqNumHigh e)" and ?l = "be32 (ce_seqNumLow e)"
  have b: "crit_bytes e = ?h @ ?l @ ce_reserved e @ ce_state e @ ce_md5 e"
    by (simp add: crit_bytes_def entry_body_def)
  show ?thesis
    unfolding b entry_of_bytes_def using wf by (simp add: entry_wf_def)
qed

lemma records_entry: "entry_wf e \<Longrightarrow> records (crit_bytes e @ r) = e # records r"
  by (subst records.simps) (simp add: length_crit_bytes entry_of_crit_bytes)

lemma records_torn:
  assumes wf: "entry_wf e"
  shows "set (records (take k (concat (replicate n (crit_bytes e))))) \<subseteq> {e}"
proof (induction n arbitrary: k)
  case (Suc n)
  show ?case
  proof (cases "k < 256")
    case True
    then have "length (take k (concat (replicate (Suc n) (crit_bytes e)))) < 256" by simp
    then show ?thesis by (subst records.simps) (simp only: if_True list.set empty_subsetI)
  next
    case False
    then show ?thesis
      using Suc [of "k - 256"] by (simp add: length_crit_bytes [OF wf] records_entry [OF wf])
  qed
qed (simp add: records.simps)

lemma records_full: "entry_wf e \<Longrightarrow> 0 < n \<Longrightarrow> e \<in> set (records (concat (replicate n (crit_bytes e))))"
  by (cases n) (simp_all add: records_entry)

section \<open>Entries on the disk\<close>

definition matching :: "string \<Rightarrow> CSFileState \<Rightarrow> string \<Rightarrow> bool" where
  "matching name cf p \<longleftrightarrow>
     (\<exists>dir n. cf_directory cf = Some dir \<and> p = dir @ ''/'' @ n \<and> \<not> skipped (cs_file_prefix name cf) n)"

definition disk_entries :: "string \<Rightarrow> CSFileState list \<Rightarrow> fs \<Rightarrow> CriticalEntry set" where
  "disk_entries name cfs f =
     {e. \<exists>p c cf. (p, c) \<in> set f \<and> cf \<in> set cfs \<and> matching name cf p \<and> e \<in> set (records c)}"

lemma readdir_iff: "n \<in> set (readdir dir f) \<longleftrightarrow> dir @ ''/'' @ n \<in> fst ` set f"
proof -
  have "take (Suc (length dir)) p = dir @ ''/'' \<longleftrightarrow> (\<exists>m. p = dir @ ''/'' @ m)" for p
    by (metis append.assoc append_eq_conv_conj append_take_drop_id length_append_singleton)
  then show ?thesis
    unfolding readdir_def by force
qed

lemma dir_entries_set:
  assumes "healthy io" "distinct (map fst f)"
  shows "set (dir_entries io f name cf) = disk_entries name [cf] f"
proof (cases "cf_directory cf")
  case None
  then show ?thesis by (simp add: dir_entries_def disk_entries_def matching_def)
next
  case (Some dir)
  have fe: "set (file_entries io f p) = {e. \<exists>c. (p, c) \<in> set f \<and> e \<in> set (records c)}" for p
    using assms by (auto simp: file_entries_def healthy_def visible_records_healthy [OF assms(1)]
        split: option.splits dest: map_of_SomeD)
  define P where "P n = dir @ ''/'' @ n" for n
  define ok where "ok n \<longleftrightarrow> \<not> skipped (cs_file_prefix name cf) n" for n
  have "e \<in> set (dir_entries io f name cf) \<longleftrightarrow> (\<exists>n. P n \<in> fst ` set f \<and> ok n \<and> e \<in> set (file_entries io f (P n)))" for e
    unfolding dir_entries_def P_def ok_def using assms(1) Some readdir_iff [of _ dir f]
    by (simp add: healthy_def)
  moreover have "e \<in> disk_entries name [cf] f \<longleftrightarrow> (\<exists>n c. (P n, c) \<in> set f \<and> ok n \<and> e \<in> set (records c))" for e
    unfolding disk_entries_def matching_def P_def ok_def using Some by auto
  ultimately show ?thesis
    unfolding fe by (auto simp: image_iff) (metis fst_conv)
qed

lemma store_entries_set:
  assumes "healthy io" "distinct (map fst f)"
  shows "set (store_entries io f cs) = disk_entries (cs_name cs) (cs_files cs) f"
  using dir_entries_set [OF assms] by (fastforce simp: store_entries_def disk_entries_def)

section \<open>Images of the disk during a save\<close>

lemma fs_append_last: "p \<notin> fst ` set g \<Longrightarrow> fs_append p bs (g @ [(p, c)]) = g @ [(p, c @ bs)]"
  by (auto simp: fs_append_def intro!: map_idI) force

definition torn :: "fs \<Rightarrow> string \<Rightarrow> bytes \<Rightarrow> fs \<Rightarrow> bool" where
  "torn g0 p bs g \<longleftrightarrow> (\<exists>k. g = g0 @ [(p, take k bs)])"

lemma d_append_images:
  assumes "dk_files dk = g0 @ [(p, c)]" "p \<notin> fst ` set g0"
  shows "dk_files (d_append p bs dk) = g0 @ [(p, c @ bs)]"
    and "g \<in> set (dk_images (d_append p bs dk)) \<Longrightarrow> g \<in> set (dk_images dk) \<or> (\<exists>k. g = g0 @ [(p, c @ take k bs)])"
  using assms by (auto simp: d_append_def dk_images_def fs_append_last) (metis order_refl take_all)+

lemma write_copies_images:
  assumes "write_copies io p bs i n dk = (ok, dk')" "dk_files dk = g0 @ [(p, c)]" "p \<notin> fst ` set g0"
  shows "(\<forall>g \<in> set (dk_images dk'). g \<in> set (dk_images dk) \<or> (\<exists>k. g = g0 @ [(p, c @ take k (concat (replicate n bs)))])) \<and>
    (\<exists>k. dk_files dk' = g0 @ [(p, c @ take k (concat (replicate n bs)))]) \<and>
    (ok \<longrightarrow> dk_files dk' = g0 @ [(p, c @ concat (replicate n bs))])"
  using assms
proof (induction n arbitrary: i dk c)
  case 0
  then show ?case by auto
next
  case (Suc n)
  note app = d_append_images [OF Suc.prems(2,3)]
  consider "io_write io p i = None" | k where "io_write io p i = Some k" "k < length bs"
    | k where "io_write io p i = Some k" "\<not> k < length bs" by (cases "io_write io p i") auto
  then show ?case
  proof cases
    case 1
    then have "dk' = dk" "\<not> ok" using Suc.prems by auto
    then show ?thesis using Suc.prems(2) by (auto intro!: exI [of _ 0])
  next
    case (2 k)
    then have dk': "dk' = d_append p (take k bs) dk" "\<not> ok" using Suc.prems by auto
    have tk: "take m (take k bs) = take (min m k) (concat (replicate (Suc n) bs))" for m
      using 2 by (simp add: min_def)
    have "dk_files dk' = g0 @ [(p, c @ take k (concat (replicate (Suc n) bs)))]"
      using app(1) [of "take k bs"] dk'(1) 2 by simp
    moreover have "\<exists>k. g = g0 @ [(p, c @ take k (concat (replicate (Suc n) bs)))]"
      if "g \<in> set (dk_images dk')" "g \<notin> set (dk_images dk)" for g
      using app(2) [of g "take k bs"] that dk'(1) unfolding tk by blast
    ultimately show ?thesis using dk'(2) by blast
  next
    case (3 k)
    then have w: "write_copies io p bs (Suc i) n (d_append p bs dk) = (ok, dk')" using Suc.prems by simp
    have tk: "bs @ take m (concat (replicate n bs)) = take (length bs + m) (concat (replicate (Suc n) bs))" for m
      by simp
    have tk1: "\<exists>k'. take m bs = take k' (concat (replicate (Suc n) bs))" for m
      by (rule exI [of _ "min m (length bs)"]) (simp add: min_def)
    show ?thesis
      using Suc.IH [OF w app(1) Suc.prems(3)] app(2) [of _ bs] tk tk1
      by (simp only: append.assoc replicate.simps concat.simps) metis
  qed
qed

definition shrunk :: "string \<Rightarrow> fs \<Rightarrow> fs \<Rightarrow> bool" where
  "shrunk cur f g \<longleftrightarrow> set g \<subseteq> set f \<and> distinct (map fst g) \<and> (\<forall>c. (cur, c) \<in> set f \<longrightarrow> (cur, c) \<in> set g)"

lemma unlink_file_images:
  assumes "shrunk cur f (dk_files dk)" "q \<noteq> cur"
  shows "shrunk cur f (dk_files (unlink_file io q dk))"
    and "g \<in> set (dk_images (unlink_file io q dk)) \<Longrightarrow> g \<in> set (dk_images dk) \<or> shrunk cur f g"
proof -
  have "shrunk cur f (filter (\<lambda>(r, c). r \<noteq> q) (dk_files dk))"
    using assms by (auto simp: shrunk_def distinct_map_filter)
  then show "shrunk cur f (dk_files (unlink_file io q dk))"
    "g \<in> set (dk_images (unlink_file io q dk)) \<Longrightarrow> g \<in> set (dk_images dk) \<or> shrunk cur f g"
    using assms(1) by (auto simp: unlink_file_def d_unlink_def dk_images_def split: if_splits)
qed

lemma fold_unlink_images:
  assumes "shrunk cur f (dk_files dk)" "\<forall>q \<in> set ps. q \<noteq> cur"
  shows "shrunk cur f (dk_files (fold (unlink_file io) ps dk)) \<and>
    (\<forall>g \<in> set (dk_images (fold (unlink_file io) ps dk)). g \<in> set (dk_images dk) \<or> shrunk cur f g)"
  using assms
proof (induction ps arbitrary: dk)
  case (Cons q ps)
  have "q \<noteq> cur" "\<forall>r \<in> set ps. r \<noteq> cur" using Cons.prems(2) by auto
  then show ?case
    using Cons.IH [OF unlink_file_images(1) [OF Cons.prems(1)]] unlink_file_images(2) [OF Cons.prems(1)]
    by (simp only: fold.simps comp_apply) metis
qed simp

lemma cleanup_images:
  assumes "distinct (map fst (dk_files dk))" "cf_curr_file cf = Some cur" "cleanup_old_state io name cf dk = (cf', dk')"
  shows "shrunk cur (dk_files dk) (dk_files dk')"
    and "g \<in> set (dk_images dk') \<Longrightarrow> g \<in> set (dk_images dk) \<or> shrunk cur (dk_files dk) g"
    and "cf_directory cf' = cf_directory cf" "cf_prefix cf' = cf_prefix cf"
proof -
  have sh: "shrunk cur (dk_files dk) (dk_files dk)" using assms(1) by (simp add: shrunk_def)
  then obtain ps where "\<forall>q \<in> set ps. q \<noteq> cur" "dk' = fold (unlink_file io) ps dk"
      and cf': "cf_directory cf' = cf_directory cf" "cf_prefix cf' = cf_prefix cf"
  proof (cases "\<exists>dir. cf_directory cf = Some dir \<and> io_opendir io dir")
    case True
    then obtain dir where dir: "cf_directory cf = Some dir" "io_opendir io dir" by blast
    let ?ps = "rev (filter (\<lambda>p. p \<noteq> cur) (map (\<lambda>n. dir @ ''/'' @ n)
      (filter (\<lambda>n. \<not> skipped (cs_file_prefix name cf) n) (readdir dir (dk_files dk)))))"
    show ?thesis
      by (rule that [of ?ps]) (use assms(2,3) dir in \<open>auto simp: cleanup_old_state_def Let_def\<close>)
  next
    case False
    then have "dk' = dk" "cf' = cf" using assms(2,3) by (auto simp: cleanup_old_state_def split: option.splits)
    then show ?thesis using that [of "[]"] by simp
  qed
  then show "shrunk cur (dk_files dk) (dk_files dk')"
    "g \<in> set (dk_images dk') \<Longrightarrow> g \<in> set (dk_images dk) \<or> shrunk cur (dk_files dk) g"
    using fold_unlink_images [OF sh, of ps io] by auto
  show "cf_directory cf' = cf_directory cf" "cf_prefix cf' = cf_prefix cf" by (rule cf')+
qed

definition copies :: "CriticalEntry \<Rightarrow> bytes" where
  "copies e = concat (replicate 4 (crit_bytes e))"

definition near :: "CriticalEntry \<Rightarrow> (string \<Rightarrow> bool) \<Rightarrow> fs \<Rightarrow> fs \<Rightarrow> bool" where
  "near e M f g \<longleftrightarrow>
     g = f \<or> (\<exists>p. M p \<and> p \<notin> fst ` set f \<and> ((\<exists>k. g = f @ [(p, take k (copies e))]) \<or> shrunk p (f @ [(p, copies e)]) g))"

lemma mkstemp_matching:
  assumes "cf_directory cf = Some dir" "mkstemp io (dir @ ''/'' @ cs_file_prefix name cf) dk = Some (p, dk')"
  shows "matching name cf p" "p \<notin> fst ` set (dk_files dk)" "dk' = d_creat p dk"
proof -
  obtain s where s: "p = dir @ ''/'' @ (cs_file_prefix name cf @ s)" "p \<notin> fst ` set (dk_files dk)" "dk' = d_creat p dk"
    using assms(2) by (auto simp: mkstemp_def Let_def split: option.splits if_splits)
  moreover have "\<not> skipped (cs_file_prefix name cf) (cs_file_prefix name cf @ s)"
    by (simp add: skipped_def) (simp add: cs_file_prefix_def CS_FILE_PREFIX_def)
  ultimately show "matching name cf p" "p \<notin> fst ` set (dk_files dk)" "dk' = d_creat p dk"
    using assms(1) by (auto simp: matching_def)
qed

lemma write_cs_file_images:
  assumes d: "distinct (map fst (dk_files dk))" and w: "write_cs_file io name e cf dk = (rc, cf', dk')"
  defines "N \<equiv> near e (matching name cf) (dk_files dk)"
  shows "(\<forall>g \<in> set (dk_images dk'). g \<in> set (dk_images dk) \<or> N g) \<and> N (dk_files dk') \<and>
    (0 \<le> rc \<longrightarrow> (\<exists>p. matching name cf p \<and> (p, copies e) \<in> set (dk_files dk'))) \<and>
    cf_directory cf' = cf_directory cf \<and> cf_prefix cf' = cf_prefix cf"
proof (cases "\<exists>dir p dk1. cf_directory cf = Some dir \<and> mkstemp io (dir @ ''/'' @ cs_file_prefix name cf) dk = Some (p, dk1)")
  case False
  then have "rc = -1 \<and> cf' = cf \<and> dk' = dk"
    using w by (auto simp: write_cs_file_def split: option.splits)
  then show ?thesis by (simp add: N_def near_def)
next
  case True
  then obtain dir p dk1 where dir: "cf_directory cf = Some dir"
      and m: "mkstemp io (dir @ ''/'' @ cs_file_prefix name cf) dk = Some (p, dk1)" by blast
  note p = mkstemp_matching [OF dir m]
  obtain ok dk2 where wc: "write_copies io p (crit_bytes e) 0 4 dk1 = (ok, dk2)" by fastforce
  have f1: "dk_files dk1 = dk_files dk @ [(p, [])]" by (simp add: p(3) d_creat_def)
  note img = write_copies_images [OF wc f1 p(2), folded copies_def, simplified]
  have Ntorn: "N (dk_files dk @ [(p, take k (copies e))])" for k
    using p(1,2) by (auto simp: N_def near_def)
  have Nshr: "N g" if "shrunk p (dk_files dk @ [(p, copies e)]) g" for g
    using p(1,2) that by (auto simp: N_def near_def)
  have N0: "N (dk_files dk)" by (simp add: N_def near_def)
  have i1: "\<forall>g \<in> set (dk_images dk1). g \<in> set (dk_images dk) \<or> N g"
    using Ntorn [of 0] by (auto simp: p(3) d_creat_def dk_images_def)
  have i2: "\<forall>g \<in> set (dk_images dk2). g \<in> set (dk_images dk) \<or> N g" "N (dk_files dk2)"
    using img i1 Ntorn by (metis (no_types, lifting))+
  show ?thesis
  proof (cases ok)
    case False
    then have r: "rc = -2" "cf' = cf" "dk' = unlink_file io p dk2"
      using w dir m wc by (auto simp: write_cs_file_def)
    obtain k where "dk_files dk2 = dk_files dk @ [(p, take k (copies e))]" using img by blast
    then have "filter (\<lambda>(q, c). q \<noteq> p) (dk_files dk2) = dk_files dk"
      using p(2) by (force simp: filter_id_conv)
    then show ?thesis using i2 N0 r by (auto simp: unlink_file_def d_unlink_def dk_images_def)
  next
    case True
    then have f2: "dk_files dk2 = dk_files dk @ [(p, copies e)]" using img by simp
    have d2: "distinct (map fst (dk_files dk2))" using d p(2) by (simp add: f2)
    define cf1 where "cf1 = cf\<lparr>cf_curr_file := Some p, cf_generation := cf_generation cf + 1\<rparr>"
    have cf1: "cf_curr_file cf1 = Some p" "cf_directory cf1 = cf_directory cf" "cf_prefix cf1 = cf_prefix cf"
      by (simp_all add: cf1_def)
    have r: "rc = 0 \<and> (cf', dk') = (if cf_generation cf1 > 6 then cleanup_old_state io name cf1 dk2 else (cf1, dk2))"
      using w dir m wc True by (auto simp: write_cs_file_def cf1_def Let_def split: prod.splits)
    have sh: "shrunk p (dk_files dk2) (dk_files dk2)" using d2 by (simp add: shrunk_def)
    have "shrunk p (dk_files dk2) (dk_files dk') \<and>
        (\<forall>g \<in> set (dk_images dk'). g \<in> set (dk_images dk2) \<or> shrunk p (dk_files dk2) g) \<and>
        cf_directory cf' = cf_directory cf \<and> cf_prefix cf' = cf_prefix cf"
      using r sh cf1 cleanup_images [OF d2 cf1(1), of io name cf' dk'] by (auto split: if_splits)
    moreover have "N g" if "shrunk p (dk_files dk2) g" for g using Nshr that by (simp add: f2)
    moreover have "(p, copies e) \<in> set g" if "shrunk p (dk_files dk2) g" for g
      using that by (simp add: f2 shrunk_def)
    ultimately show ?thesis using i2(1) p(1) r by blast
  qed
qed

section \<open>Recovery after a crash\<close>

text \<open>
  What every image of the disk during a save of the entry \<open>e\<close> satisfies with respect to the
  disk \<open>f\<close> before it: no entry appears but \<open>e\<close>, and none is gone unless \<open>e\<close> is there.
\<close>

definition safe_image :: "CriticalEntry \<Rightarrow> string \<Rightarrow> CSFileState list \<Rightarrow> fs \<Rightarrow> fs \<Rightarrow> bool" where
  "safe_image e name cfs f g \<longleftrightarrow>
     distinct (map fst g) \<and>
     disk_entries name cfs g \<subseteq> insert e (disk_entries name cfs f) \<and>
     (e \<in> disk_entries name cfs g \<or> disk_entries name cfs f \<subseteq> disk_entries name cfs g)"

lemma near_safe:
  assumes wf: "entry_wf e" and sf: "safe_image e name cfs f g0" and cf: "cf \<in> set cfs"
    and n: "near e (matching name cf) g0 g"
  shows "safe_image e name cfs f g"
proof (cases "g = g0")
  case False
  then obtain p where p: "matching name cf p" "p \<notin> fst ` set g0"
      and alt: "(\<exists>k. g = g0 @ [(p, take k (copies e))]) \<or> shrunk p (g0 @ [(p, copies e)]) g"
    using n by (auto simp: near_def)
  have full: "e \<in> disk_entries name cfs h" if "(p, copies e) \<in> set h" for h
    using that p(1) cf records_full [OF wf, of 4] by (auto simp: disk_entries_def copies_def)
  have app: "disk_entries name cfs (g0 @ [(p, c)]) \<subseteq> disk_entries name cfs g0 \<union> set (records c)" for c
    by (auto simp: disk_entries_def)
  show ?thesis using alt
  proof
    assume "\<exists>k. g = g0 @ [(p, take k (copies e))]"
    then obtain k where g: "g = g0 @ [(p, take k (copies e))]" ..
    have "disk_entries name cfs g0 \<subseteq> disk_entries name cfs g" by (auto simp: g disk_entries_def)
    moreover have "disk_entries name cfs g \<subseteq> insert e (disk_entries name cfs g0)"
      using app [of "take k (copies e)"] records_torn [OF wf, of k 4] by (auto simp: g copies_def)
    ultimately show ?thesis using sf p(2) by (auto simp: safe_image_def g)
  next
    assume sh: "shrunk p (g0 @ [(p, copies e)]) g"
    then have "disk_entries name cfs g \<subseteq> disk_entries name cfs (g0 @ [(p, copies e)])"
      unfolding disk_entries_def shrunk_def by blast
    moreover have "set (records (copies e)) \<subseteq> {e}"
      using records_torn [OF wf, of "length (copies e)" 4] by (simp add: copies_def)
    ultimately have "disk_entries name cfs g \<subseteq> insert e (disk_entries name cfs g0)"
      using app [of "copies e"] by blast
    moreover have "e \<in> disk_entries name cfs g" using sh by (intro full) (simp add: shrunk_def)
    ultimately show ?thesis using sf sh by (auto simp: safe_image_def shrunk_def)
  qed
qed (use sf in simp)

lemma near_keeps:
  assumes "entry_wf e" "distinct (map fst g0)" "cf \<in> set cfs" "near e (matching name cf) g0 g" "e \<in> disk_entries name cfs g0"
  shows "e \<in> disk_entries name cfs g"
  using near_safe [OF assms(1) _ assms(3,4), of g0] assms(2,5) by (auto simp: safe_image_def)

lemma matching_cong:
  "cf_directory cf = cf_directory cf' \<Longrightarrow> cf_prefix cf = cf_prefix cf' \<Longrightarrow> matching name cf = matching name cf'"
  by (auto simp: matching_def cs_file_prefix_def)

lemma same_sets_update:
  assumes "same_sets cs boot" "i < length (cs_files cs)"
    and "cf_directory cf = cf_directory (cs_files cs ! i)" "cf_prefix cf = cf_prefix (cs_files cs ! i)"
  shows "same_sets (cs\<lparr>cs_files := (cs_files cs)[i := cf]\<rparr>) boot"
proof -
  have "same_sets (cs\<lparr>cs_files := (cs_files cs)[i := cf]\<rparr>) cs"
    using assms(2-) by (simp add: same_sets_def map_update list_update_same_conv)
  then show ?thesis using assms(1) by (rule same_sets_trans)
qed

lemma save_files_images:
  assumes wf: "entry_wf e"
  shows "save_files io e is cs dk = (ok, cs', dk') \<Longrightarrow> same_sets cs boot \<Longrightarrow>
    \<forall>i \<in> set is. i < length (cs_files boot) \<Longrightarrow>
    \<forall>g \<in> set (dk_images dk). safe_image e (cs_name boot) (cs_files boot) f g \<Longrightarrow>
    e \<in> disk_entries (cs_name boot) (cs_files boot) (dk_files dk) \<or> (\<exists>js. is = 0 # js) \<Longrightarrow>
    (\<forall>g \<in> set (dk_images dk'). safe_image e (cs_name boot) (cs_files boot) f g) \<and>
    (ok \<longrightarrow> e \<in> disk_entries (cs_name boot) (cs_files boot) (dk_files dk')) \<and> same_sets cs' boot"
proof (induction "is" arbitrary: cs dk)
  case Nil
  then show ?case by simp
next
  case (Cons i js)
  let ?D = "disk_entries (cs_name boot) (cs_files boot)" and ?S = "safe_image e (cs_name boot) (cs_files boot) f"
  obtain rc cf dk1 where w: "write_cs_file io (cs_name cs) e (cs_files cs ! i) dk = (rc, cf, dk1)"
    by (metis prod_cases3)
  define cs1 where "cs1 = cs\<lparr>cs_files := (cs_files cs)[i := cf]\<rparr>"
  have i: "i < length (cs_files cs)" "i < length (cs_files boot)"
    using Cons.prems(2,3) same_sets_length by auto
  have nm: "cs_name cs = cs_name boot" using Cons.prems(2) by (simp add: same_sets_def)
  have S0: "?S (dk_files dk)" using Cons.prems(4) by (simp add: dk_images_def)
  then have d: "distinct (map fst (dk_files dk))" by (simp add: safe_image_def)
  have mt: "matching (cs_name boot) (cs_files cs ! i) = matching (cs_name boot) (cs_files boot ! i)"
    using same_sets_nth [OF Cons.prems(2) i(2)] by (rule matching_cong)
  have cf: "cs_files boot ! i \<in> set (cs_files boot)" using i(2) by simp
  note img = write_cs_file_images [OF d w, unfolded nm mt]
  have S1: "\<forall>g \<in> set (dk_images dk1). ?S g" using img Cons.prems(4) near_safe [OF wf S0 cf] by blast
  have e1: "e \<in> ?D (dk_files dk1)" if h: "0 \<le> rc \<or> e \<in> ?D (dk_files dk)"
  proof (cases "e \<in> ?D (dk_files dk)")
    case True
    then show ?thesis using near_keeps [OF wf d cf] img by blast
  next
    case False
    then obtain p where "matching (cs_name boot) (cs_files boot ! i) p" "(p, copies e) \<in> set (dk_files dk1)"
      using h img by blast
    then show ?thesis using cf records_full [OF wf, of 4] by (auto simp: disk_entries_def copies_def)
  qed
  have ss1: "same_sets cs1 boot" "same_sets (cs1\<lparr>cs_dirty := True\<rparr>) boot"
    using same_sets_update [OF Cons.prems(2) i(1), of cf] img by (simp_all add: cs1_def same_sets_def)
  have ij: "\<forall>j \<in> set js. j < length (cs_files boot)" using Cons.prems(3) by simp
  consider "rc < 0" "i = 0" | "rc < 0" "i \<noteq> 0" | "0 \<le> rc" by linarith
  then show ?case
  proof cases
    case 1
    then have "ok = False" "cs' = cs1" "dk' = dk1" using Cons.prems(1) w by (auto simp: cs1_def)
    then show ?thesis using S1 ss1 by simp
  next
    case 2
    then have "save_files io e js (cs1\<lparr>cs_dirty := True\<rparr>) dk1 = (ok, cs', dk')" "e \<in> ?D (dk_files dk)"
      using Cons.prems(1,5) w by (auto simp: cs1_def)
    then show ?thesis using Cons.IH [OF _ ss1(2) ij S1] e1 by blast
  next
    case 3
    then have "save_files io e js cs1 dk1 = (ok, cs', dk')" using Cons.prems(1) w by (auto simp: cs1_def)
    then show ?thesis using Cons.IH [OF _ ss1(1) ij S1] e1 3 by blast
  qed
qed

lemma length_md5_reference: "length (md5_reference m) = 16"
  by (simp add: md5_reference_def le_bytes_def split: prod.split)

lemma md5_sum_reference: "length bs + 63 < 2 ^ 32 \<Longrightarrow> md5_sum bs = md5_reference bs"
  using md5_digest_reference [of "[bs]"] by (simp add: md5_sum_def blank_ctx_def)

lemma and_low: "(v :: u64) AND 0xFFFFFFFF = take_bit 32 v"
  by (simp add: take_bit_eq_mask mask_eq_exp_minus_1)

lemma seq_join: "push_bit 32 (ucast (ucast (drop_bit 32 v AND 0xFFFFFFFF) :: u32)) OR ucast (ucast (v AND 0xFFFFFFFF) :: u32) = (v :: u64)"
  unfolding and_low by (rule bit_word_eqI) (auto simp: bit_simps)

lemma new_entry_facts:
  assumes "length st \<le> 224"
  shows "entry_wf (new_entry v st)" "entry_valid (new_entry v st)" "entry_seq (new_entry v st) = v"
    "ce_state (new_entry v st) = st @ replicate (224 - length st) 0"
proof -
  define ent where "ent = \<lparr>ce_seqNumHigh = ucast (drop_bit 32 v AND 0xFFFFFFFF), ce_seqNumLow = ucast (v AND 0xFFFFFFFF),
    ce_reserved = replicate 8 (0 :: u8), ce_state = st @ replicate (224 - length st) 0, ce_md5 = replicate 16 0\<rparr>"
  have n: "new_entry v st = ent\<lparr>ce_md5 := md5_sum (entry_body ent)\<rparr>"
    unfolding new_entry_def Let_def ent_def ..
  have body: "entry_body (ent\<lparr>ce_md5 := m\<rparr>) = entry_body ent" for m by (simp add: entry_body_def)
  have "length (entry_body ent) = 240" using assms by (simp add: entry_body_def ent_def)
  then have "length (md5_sum (entry_body ent)) = 16"
    by (simp add: md5_sum_reference length_md5_reference)
  then show "entry_wf (new_entry v st)" using assms by (simp add: n entry_wf_def) (simp add: ent_def)
  show "entry_valid (new_entry v st)" by (simp add: n entry_valid_def body)
  show "entry_seq (new_entry v st) = v" by (simp add: n entry_seq_def) (simp add: ent_def seq_join)
  show "ce_state (new_entry v st) = st @ replicate (224 - length st) 0" by (simp add: n) (simp add: ent_def)
qed

definition unique_versions :: "CriticalEntry set \<Rightarrow> bool" where
  "unique_versions E \<longleftrightarrow>
     (\<forall>e \<in> E. \<forall>e' \<in> E. entry_valid e \<and> entry_valid e' \<and> entry_seq e = entry_seq e' \<longrightarrow> ce_state e = ce_state e')"

abbreviation recover :: "cs_io \<Rightarrow> CSState \<Rightarrow> fs \<Rightarrow> payload" where
  "recover io boot f \<equiv> payload (snd (load_critical_state io f boot))"

lemma recover_newest:
  assumes "healthy io" "length (cs_files boot) = 2" "distinct (map fst f)"
  shows "newest (disk_entries (cs_name boot) (cs_files boot) f) (0, cs_state boot, cs_md5 boot) (recover io boot f)"
  using load_payload(1) [OF assms(2), of io f] foldl_adopt_newest store_entries_set [OF assms(1,3)] by metis

lemma recover_safe_image:
  assumes io: "healthy io" "length (cs_files boot) = 2" "distinct (map fst f)"
    and uniq: "unique_versions (disk_entries (cs_name boot) (cs_files boot) f)"
    and e: "entry_valid e" "fst (recover io boot f) < entry_seq e"
    and sf: "safe_image e (cs_name boot) (cs_files boot) f g"
  defines "E \<equiv> disk_entries (cs_name boot) (cs_files boot)"
  shows "e \<in> E g \<Longrightarrow> recover io boot g = (entry_seq e, ce_state e, md5_sum (ce_state e))"
    and "e \<notin> E g \<Longrightarrow> recover io boot g = recover io boot f"
proof -
  let ?p0 = "(0, cs_state boot, cs_md5 boot)"
  have nf: "newest (E f) ?p0 (recover io boot f)" and ng: "newest (E g) ?p0 (recover io boot g)"
    using recover_newest [OF io] recover_newest [OF io(1,2), of g] sf by (simp_all add: E_def safe_image_def)
  have sub: "E g \<subseteq> insert e (E f)" using sf by (simp add: safe_image_def E_def)
  have lt: "entry_seq e' < entry_seq e" if "e' \<in> E f" "entry_valid e'" for e'
    using nf e(2) that by (fastforce simp: newest_def)
  show "recover io boot g = (entry_seq e, ce_state e, md5_sum (ce_state e))" if "e \<in> E g"
  proof -
    have le: "entry_seq e \<le> fst (recover io boot g)" using ng that e(1) by (auto simp: newest_def)
    moreover have "0 < entry_seq e" using e(2) by (metis word_gt_0 word_not_simps(1))
    ultimately obtain e' where "e' \<in> E g" "entry_valid e'"
        and r: "recover io boot g = (entry_seq e', ce_state e', md5_sum (ce_state e'))"
      using ng unfolding newest_def by auto
    moreover have "e' = e" using le lt sub calculation by fastforce
    ultimately show ?thesis by simp
  qed
  show "recover io boot g = recover io boot f" if "e \<notin> E g"
  proof -
    have "E g = E f" using sub sf that by (auto simp: safe_image_def E_def)
    then have "newest (E f) ?p0 (recover io boot g)" using ng by simp
    then show ?thesis using nf
      by (rule newest_unique) (use uniq in \<open>unfold unique_versions_def E_def, blast\<close>)
  qed
qed

text \<open>
  C14: Crash safety. Whatever the operating system does during \<open>PROC_save_critical_state\<close>
  (\<open>mkstemp\<close> failing, short writes, \<open>unlink\<close> failing), and at whatever byte the machine
  stops, a later start that can read the disk recovers either the state it would have
  recovered before the save or the new one, and when the call has returned success, the new
  one: the saved bytes, zero-padded, under the next version. The disk must not already hold two
  intact entries of one version with different states, and the version must not wrap.
\<close>
theorem save_crash_safe:
  assumes io': "healthy io'" "length (cs_files boot) = 2"
    and dk: "distinct (map fst (dk_files dk))" "dk_past dk = []"
    and uniq: "unique_versions (disk_entries (cs_name boot) (cs_files boot) (dk_files dk))"
    and cs: "proc_get_cs_state proc = Some cs" "same_sets cs boot"
    and ver: "fst (recover io' boot (dk_files dk)) \<le> cs_state_version cs" "cs_state_version cs < cs_state_version cs + 1"
    and save: "PROC_save_critical_state io proc state len dk = Some (rc, proc', dk')"
  defines "s \<equiv> take (nat len) state @ replicate (224 - nat len) 0"
  defines "new \<equiv> (cs_state_version cs + 1, s, md5_sum s)"
  shows "(\<forall>g \<in> set (dk_images dk'). recover io' boot g \<in> {recover io' boot (dk_files dk), new}) \<and>
    (0 < rc \<longrightarrow> recover io' boot (dk_files dk') = new)"
proof (cases "len > 224 \<or> len \<le> 0")
  case True
  then show ?thesis using save dk(2) by (auto simp: PROC_save_critical_state_def dk_images_def)
next
  case False
  define cs1 where "cs1 = cs\<lparr>cs_state_version := cs_state_version cs + 1\<rparr>"
  define e where "e = new_entry (cs_state_version cs + 1) (take (nat len) state)"
  have l: "nat len \<le> length state" "proc \<noteq> None"
    using save cs(1) False by (auto simp: PROC_save_critical_state_def proc_get_cs_state_def split: if_splits)
  have e: "entry_wf e" "entry_valid e" "entry_seq e = cs_state_version cs + 1" "ce_state e = s"
    using new_entry_facts [of "take (nat len) state" "cs_state_version cs + 1"] False l(1)
    unfolding e_def [symmetric] s_def by auto
  obtain ok cs2 dk2 where sv: "save_files io e [0..<2] cs1 dk = (ok, cs2, dk2)" by (metis prod_cases3)
  have r: "dk' = dk2" "0 < rc \<longrightarrow> ok"
    using save False l cs(1) sv by (auto simp: PROC_save_critical_state_def Let_def cs1_def e_def split: bool.splits)
  have ss: "same_sets cs1 boot" using cs(2) by (simp add: cs1_def same_sets_def)
  let ?S = "safe_image e (cs_name boot) (cs_files boot) (dk_files dk)"
  have "\<forall>g \<in> set (dk_images dk). ?S g" using dk by (auto simp: dk_images_def safe_image_def)
  then have img: "(\<forall>g \<in> set (dk_images dk'). ?S g) \<and>
      (ok \<longrightarrow> e \<in> disk_entries (cs_name boot) (cs_files boot) (dk_files dk'))"
    using save_files_images [OF e(1) sv ss, of "dk_files dk"] io'(2) r(1) by (auto simp: upt_rec)
  have lt: "fst (recover io' boot (dk_files dk)) < entry_seq e" using ver e(3) by simp
  note rec = recover_safe_image [OF io' dk(1) uniq e(2) lt]
  have "recover io' boot g \<in> {recover io' boot (dk_files dk), new}" if "g \<in> set (dk_images dk')" for g
    using rec [of g] img that e(3,4) by (auto simp: new_def)
  moreover have "recover io' boot (dk_files dk') = new" if "0 < rc"
  proof -
    have "?S (dk_files dk')" using img by (simp add: dk_images_def)
    then show ?thesis using rec(1) img r(2) that e(3,4) by (simp add: new_def)
  qed
  ultimately show ?thesis by blast
qed

definition good_io :: cs_io where
  "good_io = \<lparr>io_opendir = \<lambda>_. True, io_suffix = \<lambda>_. Some ''abcdef'', io_write = \<lambda>_ _. Some 256,
     io_open = \<lambda>_. True, io_read_errno = \<lambda>_ _. None, io_unlink = \<lambda>_. True\<rparr>"

lemma good_write_copies:
  assumes "entry_wf e"
  shows "\<exists>dk'. write_copies good_io p (crit_bytes e) i n dk = (True, dk') \<and>
    fst ` set (dk_files dk') = fst ` set (dk_files dk)"
proof (induction n arbitrary: i dk)
  case (Suc n)
  have "fst ` set (dk_files (d_append p (crit_bytes e) dk)) = fst ` set (dk_files dk)"
    by (force simp: d_append_def fs_append_def)
  then show ?case
    using Suc [of "Suc i" "d_append p (crit_bytes e) dk"] by (simp add: good_io_def length_crit_bytes [OF assms])
qed simp

lemma good_write:
  assumes "entry_wf e" "cf_directory cf = Some dir" "cf_generation cf = 0"
    and "dir @ ''/'' @ cs_file_prefix name cf @ ''abcdef'' \<notin> fst ` set (dk_files dk)"
  shows "\<exists>cf' dk'. write_cs_file good_io name e cf dk = (0, cf', dk') \<and> fst ` set (dk_files dk') =
    insert (dir @ ''/'' @ cs_file_prefix name cf @ ''abcdef'') (fst ` set (dk_files dk))"
proof -
  let ?p = "dir @ ''/'' @ cs_file_prefix name cf @ ''abcdef''"
  obtain dk2 where "write_copies good_io ?p (crit_bytes e) 0 4 (d_creat ?p dk) = (True, dk2)"
      "fst ` set (dk_files dk2) = fst ` set (dk_files (d_creat ?p dk))"
    using good_write_copies [OF assms(1)] by blast
  then show ?thesis
    using assms(2-) by (simp add: write_cs_file_def mkstemp_def good_io_def [THEN arg_cong [of _ _ io_suffix]] d_creat_def Let_def)
qed

lemma good_save:
  "\<exists>proc' dk'. PROC_save_critical_state good_io (Some \<lparr>pr_notsat = False, pr_criticalState = blank_cs ''p''\<rparr>) [1, 2, 3] 3
     \<lparr>dk_files = [], dk_past = []\<rparr> = Some (3, proc', dk')"
proof -
  define cs where "cs = (blank_cs ''p'')\<lparr>cs_state_version := 1\<rparr>"
  define e where "e = new_entry 1 [1, 2, 3]"
  have wf: "entry_wf e" unfolding e_def by (rule new_entry_facts) simp
  let ?dk = "\<lparr>dk_files = [], dk_past = []\<rparr>"
  have files: "cs_files cs = map (\<lambda>i. \<lparr>cf_prefix = [char_of (97 + i)], cf_curr_file = None,
      cf_directory = Some CS_FILE_DIRECTORY, cf_generation = 0\<rparr>) [0..<2]"
    by (simp add: cs_def blank_cs_def)
  obtain cf1 dk1 where w1: "write_cs_file good_io ''p'' e (cs_files cs ! 0) ?dk = (0, cf1, dk1)"
      "fst ` set (dk_files dk1) = {CS_FILE_DIRECTORY @ ''/'' @ cs_file_prefix ''p'' (cs_files cs ! 0) @ ''abcdef''}"
    using good_write [OF wf, of "cs_files cs ! 0" CS_FILE_DIRECTORY "''p''" ?dk] by (auto simp: files)
  obtain cf2 dk2 where "write_cs_file good_io ''p'' e (cs_files cs ! 1) dk1 = (0, cf2, dk2)"
    using good_write [OF wf, of "cs_files cs ! 1" CS_FILE_DIRECTORY "''p''" dk1] w1(2)
    by (auto simp: files cs_file_prefix_def)
  then have "\<exists>cs' dk'. save_files good_io e [0..<2] cs ?dk = (True, cs', dk')"
    using w1(1) by (simp add: upt_rec cs_def blank_cs_def)
  then show ?thesis
    by (auto simp: PROC_save_critical_state_def proc_get_cs_state_def Let_def e_def cs_def blank_cs_def)
qed

theorem save_crash_safe_witness:
  "\<exists>proc' dk'.
     PROC_save_critical_state good_io (Some \<lparr>pr_notsat = False, pr_criticalState = blank_cs ''p''\<rparr>) [1, 2, 3] 3
       \<lparr>dk_files = [], dk_past = []\<rparr> = Some (3, proc', dk') \<and>
     (\<forall>g \<in> set (dk_images dk'). fst (recover good_io (blank_cs ''p'') g) \<in> {0, 1}) \<and>
     fst (snd (recover good_io (blank_cs ''p'') (dk_files dk'))) = [1, 2, 3] @ replicate 221 0"
proof -
  let ?proc = "Some \<lparr>pr_notsat = False, pr_criticalState = blank_cs ''p''\<rparr>" and ?dk = "\<lparr>dk_files = [], dk_past = []\<rparr>"
  obtain proc' dk' where s: "PROC_save_critical_state good_io ?proc [1, 2, 3] 3 ?dk = Some (3, proc', dk')"
    using good_save by blast
  have h: "healthy good_io" by (simp add: healthy_def good_io_def)
  have r0: "fst (recover good_io (blank_cs ''p'') []) = 0" by code_simp
  have "(\<forall>g \<in> set (dk_images dk'). recover good_io (blank_cs ''p'') g \<in>
        {recover good_io (blank_cs ''p'') [], (1, [1, 2, 3] @ replicate 221 0, md5_sum ([1, 2, 3] @ replicate 221 0))}) \<and>
      recover good_io (blank_cs ''p'') (dk_files dk') = (1, [1, 2, 3] @ replicate 221 0, md5_sum ([1, 2, 3] @ replicate 221 0))"
    using save_crash_safe [OF h, of "blank_cs ''p''" ?dk ?proc "blank_cs ''p''" good_io "[1, 2, 3]" 3 3 proc' dk'] s r0
    by (simp add: unique_versions_def disk_entries_def proc_get_cs_state_def) (simp add: blank_cs_def)
  then show ?thesis using s r0 by (intro exI [of _ proc'] exI [of _ dk']) auto
qed

section \<open>Reading\<close>

lemma store_entries_cong: "same_sets a b \<Longrightarrow> store_entries io f a = store_entries io f b"
proof -
  assume ss: "same_sets a b"
  have "dir_entries io f (cs_name a) (cs_files a ! i) = dir_entries io f (cs_name b) (cs_files b ! i)"
    if "i < length (cs_files b)" for i
    using same_sets_nth [OF ss that] ss by (auto simp: same_sets_def intro: dir_entries_cong)
  then show ?thesis
    using same_sets_length [OF ss] by (auto simp: store_entries_def intro!: arg_cong [of _ _ concat] nth_equalityI)
qed

abbreviation loaded :: "cs_io \<Rightarrow> fs \<Rightarrow> CSState \<Rightarrow> CSState" where
  "loaded io f cs \<equiv> snd (load_critical_state io f cs)"

lemma load_pair: "length (cs_files cs) = 2 \<Longrightarrow> load_critical_state io f cs = (0, loaded io f cs)"
  using load_payload(3) [of cs io f] by (metis prod.collapse)

lemma loaded_newest:
  "length (cs_files cs) = 2 \<Longrightarrow> newest (set (store_entries io f cs)) (0, cs_state cs, cs_md5 cs) (payload (loaded io f cs))"
  using load_payload(1) [of cs io f] foldl_adopt_newest by simp

lemma loaded_twice_newest:
  assumes l: "length (cs_files cs) = 2" and bad: "md5_sum (cs_state (loaded io f cs)) \<noteq> cs_md5 (loaded io f cs)"
  shows "newest (set (store_entries io f cs)) (0, cs_state cs, cs_md5 cs) (payload (loaded io f (loaded io f cs)))"
proof -
  let ?c = "loaded io f cs"
  have "payload ?c = (0, cs_state cs, cs_md5 cs)"
    using loaded_newest [OF l, of io f] bad unfolding newest_def by (auto simp: payload_def)
  then have "cs_state ?c = cs_state cs" "cs_md5 ?c = cs_md5 cs" by (simp_all add: payload_def)
  then show ?thesis
    using loaded_newest [of ?c io f] store_entries_cong [OF load_payload(2) [OF l], of io f]
      same_sets_length [OF load_payload(2) [OF l, of io f]] l by simp
qed

lemma get_put_cs: "proc_get_cs_state proc = Some cs \<Longrightarrow> proc_get_cs_state (put_cs proc cs') = Some cs'"
  by (auto simp: proc_get_cs_state_def put_cs_def split: option.splits if_splits)

lemma put_cs_same: "proc_get_cs_state proc = Some cs \<Longrightarrow> put_cs proc cs = proc"
  by (auto simp: proc_get_cs_state_def put_cs_def split: option.splits if_splits)

text \<open>
  A corrupted state is never handed out. With a non-negative length
  \<open>PROC_read_critical_state\<close> always returns: \<open>-10\<close> without a state, \<open>-4\<close> when neither the state in memory nor
  the one loaded from the disk matches its digest, and otherwise the first bytes (224 at most) of a state that
  matches its digest and is the one in memory, or the newest intact entry of the disk if the memory
  was marked dirty or did not match its digest.
\<close>
theorem read_intact:
  assumes "0 \<le> len" "\<And>cs. proc_get_cs_state proc = Some cs \<Longrightarrow> length (cs_files cs) = 2"
  shows "\<exists>rc bytes proc'. PROC_read_critical_state io f proc len = Some (rc, bytes, proc') \<and>
    (case proc_get_cs_state proc of
       None \<Rightarrow> rc = -10
     | Some cs \<Rightarrow>
         rc = -4 \<or>
         (rc = min len 224 \<and>
          (\<exists>cs'. proc_get_cs_state proc' = Some cs' \<and> bytes = take (nat rc) (cs_state cs') \<and>
             md5_sum (cs_state cs') = cs_md5 cs' \<and>
             (if \<not> cs_dirty cs \<and> md5_sum (cs_state cs) = cs_md5 cs then cs' = cs
              else newest (set (store_entries io f cs)) (0, cs_state cs, cs_md5 cs) (payload cs')))))"
proof (cases "proc_get_cs_state proc")
  case None
  then show ?thesis by (simp add: PROC_read_critical_state_def)
next
  case (Some cs)
  have l: "length (cs_files cs) = 2" "length (cs_files (loaded io f cs)) = 2"
    using assms(2) [OF Some] same_sets_length [OF load_payload(2) [OF assms(2) [OF Some]]] by simp_all
  obtain c1 where c1: "load_critical_state io f cs = (0, c1)" using load_pair [OF l(1)] by blast
  obtain c2 where c2: "load_critical_state io f c1 = (0, c2)" using load_pair [OF l(2)] c1 by auto
  have clean: "\<not> cs_dirty c1" using load_payload(4) [OF l(1), of io f] c1 by simp
  define ok where "ok c \<longleftrightarrow> md5_sum (cs_state c) = cs_md5 c" for c :: CSState
  define n where "n = min len 224"
  have n: "\<not> n < 0" "(if len > 224 then 224 else len) = n" using assms(1) by (auto simp: n_def)
  define fin where "fin = (if cs_dirty cs then if ok c1 then c1 else c2 else if ok cs then cs else c1)"
  have "PROC_read_critical_state io f proc len =
      Some (if ok fin then (n, take (nat n) (cs_state fin), put_cs proc fin) else (-4, [], put_cs proc fin))"
    unfolding PROC_read_critical_state_def Some option.case Let_def n(2)
    using clean n(1)
    by (cases "cs_dirty cs"; cases "ok c1"; cases "ok cs") (simp_all add: ok_def fin_def c1 c2)
  moreover have "if \<not> cs_dirty cs \<and> ok cs then fin = cs
      else newest (set (store_entries io f cs)) (0, cs_state cs, cs_md5 cs) (payload fin)"
    using loaded_newest [OF l(1), of io f] loaded_twice_newest [OF l(1), of io f]
    by (auto simp: fin_def ok_def c1 c2)
  ultimately show ?thesis
    using get_put_cs [OF Some, of fin] by (auto simp: Some ok_def n_def split: if_splits)
qed

theorem read_intact_witness:
  "\<exists>rc bytes proc'. PROC_read_critical_state good_io [] (Some \<lparr>pr_notsat = False, pr_criticalState = blank_cs ''p''\<rparr>) 300 =
      Some (rc, bytes, proc') \<and> rc \<in> {-4, 224}"
  using read_intact [of 300 "Some \<lparr>pr_notsat = False, pr_criticalState = blank_cs ''p''\<rparr>" good_io "[]"]
  by (fastforce simp: proc_get_cs_state_def blank_cs_def)

section \<open>Names that are prefixes of each other\<close>

text \<open>
  A file of the process \<open>x.a\<close> begins with \<open>crit-state-x.a.\<close>, the prefix under which the
  process \<open>x\<close> looks for the files of its own set \<open>a\<close>; the cleanup of \<open>x\<close> unlinks it.
\<close>
lemma cleanup_removes_other_process:
  "map fst (dk_files (snd (cleanup_old_state good_io ''x''
      \<lparr>cf_prefix = ''a'', cf_curr_file = Some ''/critical_state/crit-state-x.a.000000'',
       cf_directory = Some CS_FILE_DIRECTORY, cf_generation = 7\<rparr>
      \<lparr>dk_files = [(''/critical_state/crit-state-x.a.000000'', []), (''/critical_state/crit-state-x.a.b.111111'', [])],
       dk_past = []\<rparr>))) = [''/critical_state/crit-state-x.a.000000'']"
  by code_simp

end
