(* ===== verification/Event_Timer.thy ===== *)
theory Event_Timer
  imports Timeval
begin

text \<open>
  The event timers of \<open>eventTimer.c\<close>: the default timer over the system clocks, the timer used
  with the debugger, whose clock stops while the program is halted, and the virtual timer, whose
  clock jumps to the next event.

  \<^item> The system's clocks are the record \<open>clocks\<close>; \<open>clock_gettime\<close> is taken to succeed. The blocking
    callback is an argument: it gets the timeout (\<open>None\<close> is \<open>NULL\<close>, an indefinite wait) and the
    clocks, and returns its result and the clocks after the wait.
  \<^item> \<open>struct EventTimer\<close> is a table of function pointers followed by the fields of the
    implementation; here the constructor of \<open>EventTimer\<close> selects the table, and the functions named
    \<open>et_...\<close> are the calls through it. The function pointers a timer does not set are \<open>NULL\<close>; a
    call through them is \<open>None\<close>.
  \<^item> A \<open>NULL\<close> timer fails the \<open>assert\<close> of the functions and is not a value of the type.
\<close>

section \<open>Clocks\<close>

record timespec =
  ts_sec :: int
  ts_nsec :: int

record clocks =
  ck_mono :: timespec
  ck_gmt :: timeval

type_synonym block_cb = "timeval option \<Rightarrow> clocks \<Rightarrow> int \<times> clocks"

abbreviation (input) VIRT_CLK_ACTIVE :: int where "VIRT_CLK_ACTIVE \<equiv> 0"
abbreviation (input) VIRT_CLK_PAUSED :: int where "VIRT_CLK_PAUSED \<equiv> 1"
abbreviation (input) VIRT_CLK_STOLEN :: int where "VIRT_CLK_STOLEN \<equiv> 2"

definition ET_default_monotonic :: "clocks \<Rightarrow> timeval" where
  "ET_default_monotonic ck = Timeval (ts_sec (ck_mono ck)) ((ts_nsec (ck_mono ck) + 500) sdiv 1000)"

definition ET_default_gmt :: "clocks \<Rightarrow> timeval" where
  "ET_default_gmt ck = ck_gmt ck"

definition clamped_diff :: "timeval \<Rightarrow> timeval \<Rightarrow> timeval" where
  "clamped_diff a b =
     (let d = timersub a b in if tv_sec d < 0 \<or> tv_usec d < 0 then Timeval 0 0 else d)"

section \<open>The default timer\<close>

definition ET_default_block :: "clocks \<Rightarrow> timeval option \<Rightarrow> bool \<Rightarrow> block_cb \<Rightarrow> int \<times> clocks" where
  "ET_default_block ck nextAwake pauseWhileBlocking blockcb =
     (let curTime = ET_default_monotonic ck
      in blockcb (map_option (\<lambda>n. clamped_diff n curTime) nextAwake) ck)"

section \<open>The debugger's timer\<close>

record RTDebugEventTimer =
  rt_offset :: timeval

definition ET_rtdebug_monotonic :: "RTDebugEventTimer \<Rightarrow> clocks \<Rightarrow> timeval" where
  "ET_rtdebug_monotonic et ck = timersub (ET_default_monotonic ck) (rt_offset et)"

definition ET_rtdebug_gmt :: "RTDebugEventTimer \<Rightarrow> clocks \<Rightarrow> timeval" where
  "ET_rtdebug_gmt et ck = timersub (ck_gmt ck) (rt_offset et)"

definition ET_rtdebug_block ::
  "RTDebugEventTimer \<Rightarrow> clocks \<Rightarrow> timeval option \<Rightarrow> bool \<Rightarrow> block_cb \<Rightarrow> int \<times> RTDebugEventTimer \<times> clocks" where
  "ET_rtdebug_block et ck nextAwake pauseWhileBlocking blockcb =
     (let curTime = ET_rtdebug_monotonic et ck;
          (res, ck') = blockcb (map_option (\<lambda>n. clamped_diff n curTime) nextAwake) ck
      in if pauseWhileBlocking
         then let endTime = ET_rtdebug_monotonic et ck'
              in (res, et\<lparr>rt_offset := timeradd (clamped_diff endTime curTime) (rt_offset et)\<rparr>, ck')
         else (res, et, ck'))"

section \<open>The virtual timer\<close>

record VirtualEventTimer =
  vt_time :: timeval
  vt_paused :: int

definition et_virt_inc_time :: "timeval \<Rightarrow> VirtualEventTimer \<Rightarrow> VirtualEventTimer" where
  "et_virt_inc_time t clk = clk\<lparr>vt_time := timeradd t (vt_time clk)\<rparr>"

definition et_virt_set_time :: "timeval \<Rightarrow> VirtualEventTimer \<Rightarrow> VirtualEventTimer" where
  "et_virt_set_time t clk = clk\<lparr>vt_time := t\<rparr>"

definition et_virt_get_time :: "VirtualEventTimer \<Rightarrow> timeval" where
  "et_virt_get_time clk = vt_time clk"

definition et_virt_set_pause :: "int \<Rightarrow> VirtualEventTimer \<Rightarrow> VirtualEventTimer" where
  "et_virt_set_pause pauseState clk =
     (if pauseState \<noteq> VIRT_CLK_STOLEN then clk\<lparr>vt_paused := pauseState\<rparr> else clk)"

definition et_virt_get_pause :: "VirtualEventTimer \<Rightarrow> int" where
  "et_virt_get_pause clk = vt_paused clk"

definition ET_virt_block ::
  "VirtualEventTimer \<Rightarrow> clocks \<Rightarrow> timeval option \<Rightarrow> bool \<Rightarrow> block_cb \<Rightarrow> int \<times> VirtualEventTimer \<times> clocks" where
  "ET_virt_block et ck nextAwake pauseWhileBlocking blockcb =
     (let (blockTime, et') =
        (case nextAwake of
           None \<Rightarrow> (None, et)
         | Some n \<Rightarrow>
             if pauseWhileBlocking then (Some (clamped_diff n (et_virt_get_time et)), et)
             else if et_virt_get_pause et = VIRT_CLK_ACTIVE then (Some (Timeval 0 0), et_virt_set_time n et)
             else (None, et));
          (res, ck') = blockcb blockTime ck
      in (res, et', ck'))"

section \<open>Timers as the event loop sees them\<close>

datatype EventTimer = DefaultTimer | RTDebugTimer RTDebugEventTimer | VirtualTimer VirtualEventTimer

definition ET_default_init :: "bool \<Rightarrow> EventTimer option" where
  "ET_default_init malloc_ok = (if malloc_ok then Some DefaultTimer else None)"

definition ET_rtdebug_init :: "bool \<Rightarrow> EventTimer option" where
  "ET_rtdebug_init malloc_ok = (if malloc_ok then Some (RTDebugTimer \<lparr>rt_offset = Timeval 0 0\<rparr>) else None)"

definition ET_virt_init :: "bool \<Rightarrow> timeval \<Rightarrow> EventTimer option" where
  "ET_virt_init malloc_ok initTime =
     (if malloc_ok then Some (VirtualTimer \<lparr>vt_time = initTime, vt_paused = VIRT_CLK_ACTIVE\<rparr>) else None)"

fun et_get_monotonic_time :: "EventTimer \<Rightarrow> clocks \<Rightarrow> timeval" where
  "et_get_monotonic_time DefaultTimer ck = ET_default_monotonic ck"
| "et_get_monotonic_time (RTDebugTimer et) ck = ET_rtdebug_monotonic et ck"
| "et_get_monotonic_time (VirtualTimer et) ck = et_virt_get_time et"

fun et_get_gmt_time :: "EventTimer \<Rightarrow> clocks \<Rightarrow> timeval" where
  "et_get_gmt_time DefaultTimer ck = ET_default_gmt ck"
| "et_get_gmt_time (RTDebugTimer et) ck = ET_rtdebug_gmt et ck"
| "et_get_gmt_time (VirtualTimer et) ck = et_virt_get_time et"

fun et_block :: "EventTimer \<Rightarrow> clocks \<Rightarrow> timeval option \<Rightarrow> bool \<Rightarrow> block_cb \<Rightarrow> int \<times> EventTimer \<times> clocks" where
  "et_block DefaultTimer ck n p cb = (case ET_default_block ck n p cb of (res, ck') \<Rightarrow> (res, DefaultTimer, ck'))"
| "et_block (RTDebugTimer et) ck n p cb =
     (case ET_rtdebug_block et ck n p cb of (res, et', ck') \<Rightarrow> (res, RTDebugTimer et', ck'))"
| "et_block (VirtualTimer et) ck n p cb =
     (case ET_virt_block et ck n p cb of (res, et', ck') \<Rightarrow> (res, VirtualTimer et', ck'))"

fun et_set_pause :: "int \<Rightarrow> EventTimer \<Rightarrow> EventTimer option" where
  "et_set_pause s (VirtualTimer et) = Some (VirtualTimer (et_virt_set_pause s et))"
| "et_set_pause s et = None"

section \<open>What the event loop relies on\<close>

text \<open>
  A timer has a clock and a blocking call. The call passes the callback a timeout that is not
  negative, or none. If the callback sleeps through the timeout it is given, the clock has
  then reached the time asked for. A pausable timer moreover keeps its clock still through a
  call that asks for it. \<open>running\<close> are the timer states in which time passes.
\<close>

definition clocks_ok :: "clocks \<Rightarrow> bool" where
  "clocks_ok ck \<longleftrightarrow> 0 \<le> ts_nsec (ck_mono ck) \<and> ts_nsec (ck_mono ck) < 1000000000"

abbreviation mono_us :: "clocks \<Rightarrow> int" where
  "mono_us ck \<equiv> tv_us (ET_default_monotonic ck)"

definition sleeps :: "block_cb \<Rightarrow> bool" where
  "sleeps cb \<longleftrightarrow>
     (\<forall>t ck. clocks_ok ck \<longrightarrow>
        clocks_ok (snd (cb t ck)) \<and>
        mono_us ck + (case t of None \<Rightarrow> 0 | Some d \<Rightarrow> max 0 (tv_us d)) \<le> mono_us (snd (cb t ck)))"

locale event_timer =
  fixes now :: "'t \<Rightarrow> clocks \<Rightarrow> timeval"
    and block :: "'t \<Rightarrow> clocks \<Rightarrow> timeval option \<Rightarrow> bool \<Rightarrow> block_cb \<Rightarrow> int \<times> 't \<times> clocks"
    and running :: "'t \<Rightarrow> bool"
  assumes block_reaches:
      "running et \<Longrightarrow> clocks_ok ck \<Longrightarrow> sleeps cb \<Longrightarrow> tv_normal n \<Longrightarrow>
       block et ck (Some n) False cb = (res, et', ck') \<Longrightarrow> tv_us n \<le> tv_us (now et' ck')"
    and block_running:
      "running et \<Longrightarrow> clocks_ok ck \<Longrightarrow> sleeps cb \<Longrightarrow> (\<And>n. m = Some n \<Longrightarrow> tv_normal n) \<Longrightarrow>
       block et ck m p cb = (res, et', ck') \<Longrightarrow> running et'"
    and block_timeout:
      "block et ck m p cb = (res, et', ck') \<Longrightarrow> \<exists>t. (res, ck') = cb t ck \<and> (\<forall>d. t = Some d \<longrightarrow> 0 \<le> tv_us d)"
begin

text \<open>Blocking for one time after another reaches each of them in turn.\<close>

primrec blocks :: "'t \<Rightarrow> clocks \<Rightarrow> timeval list \<Rightarrow> block_cb \<Rightarrow> timeval list" where
  "blocks et ck [] cb = []"
| "blocks et ck (n # ns) cb =
     (case block et ck (Some n) False cb of (res, et', ck') \<Rightarrow> now et' ck' # blocks et' ck' ns cb)"

lemma blocks_reach:
  "running et \<Longrightarrow> clocks_ok ck \<Longrightarrow> sleeps cb \<Longrightarrow> \<forall>n \<in> set ns. tv_normal n \<Longrightarrow>
   list_all2 (\<lambda>n t. tv_us n \<le> tv_us t) ns (blocks et ck ns cb)"
proof (induction ns arbitrary: et ck)
  case (Cons n ns)
  obtain res et' ck' where b: "block et ck (Some n) False cb = (res, et', ck')" by (metis prod_cases3)
  have "running et'" using block_running [OF Cons.prems(1-3) _ b] Cons.prems(4) by simp
  moreover have "clocks_ok ck'"
    using block_timeout [OF b] Cons.prems(2,3) by (metis sleeps_def snd_conv)
  ultimately show ?case
    using Cons.IH [of et' ck'] block_reaches [OF Cons.prems(1-3) _ b] Cons.prems(3,4) b by simp
qed simp

end

locale pausable_timer = event_timer +
  assumes block_paused:
    "running et \<Longrightarrow> clocks_ok ck \<Longrightarrow> sleeps cb \<Longrightarrow>
     block et ck m True cb = (res, et', ck') \<Longrightarrow> tv_us (now et' ck') = tv_us (now et ck)"

section \<open>The timers implement the interface\<close>

definition tv_near :: "timeval \<Rightarrow> bool" where
  "tv_near t \<longleftrightarrow> 0 \<le> tv_usec t \<and> tv_usec t \<le> 1000000"

lemma tv_normal_near: "tv_normal t \<Longrightarrow> tv_near t"
  by (simp add: tv_normal_def tv_near_def)

text \<open>Rounding to microseconds may give 1000000, so a reading of the clock need not be normalised.\<close>

lemma monotonic_near:
  assumes "clocks_ok ck"
  shows "tv_near (ET_default_monotonic ck)"
proof -
  let ?n = "ts_nsec (ck_mono ck) + 500"
  have "?n sdiv 1000 = ?n div 1000" using assms by (simp add: signed_divide_int_def clocks_ok_def sgn_if)
  moreover have "0 \<le> ?n div 1000" "?n div 1000 \<le> 1000000" using assms by (auto simp: clocks_ok_def)
  ultimately show ?thesis by (simp add: ET_default_monotonic_def tv_near_def)
qed

lemma clamped_diff_us:
  assumes "tv_near a" "tv_near b"
  shows "tv_us (clamped_diff a b) = max 0 (tv_us a - tv_us b)"
  using assms by (auto simp: clamped_diff_def Let_def tv_us_def timersub_def tv_near_def)

lemma clamped_diff_near: "tv_near a \<Longrightarrow> tv_near b \<Longrightarrow> tv_near (clamped_diff a b)"
  by (auto simp: clamped_diff_def Let_def timersub_def tv_near_def)

lemma clamped_diff_nonneg: "0 \<le> tv_us (clamped_diff a b)"
  by (auto simp: clamped_diff_def Let_def tv_us_def)

lemma rtdebug_near: "clocks_ok ck \<Longrightarrow> tv_normal (rt_offset et) \<Longrightarrow> tv_near (ET_rtdebug_monotonic et ck)"
  using monotonic_near [of ck]
  by (auto simp: ET_rtdebug_monotonic_def timersub_def tv_near_def tv_normal_def Let_def)

lemma rtdebug_us: "tv_us (ET_rtdebug_monotonic et ck) = mono_us ck - tv_us (rt_offset et)"
  by (simp add: ET_rtdebug_monotonic_def timersub_us)

lemma sleepsD:
  assumes "sleeps cb" "clocks_ok ck" "cb t ck = (res, ck')"
  shows "clocks_ok ck'" "mono_us ck + (case t of None \<Rightarrow> 0 | Some d \<Rightarrow> max 0 (tv_us d)) \<le> mono_us ck'"
  using assms unfolding sleeps_def by (metis snd_conv)+

lemma timeout_passed:
  fixes cb :: block_cb
  assumes "cb t ck = (res, ck')" "\<And>d. t = Some d \<Longrightarrow> 0 \<le> tv_us d"
  shows "\<exists>t. (res, ck') = cb t ck \<and> (\<forall>d. t = Some d \<longrightarrow> 0 \<le> tv_us d)"
  using assms by (intro exI [of _ t]) auto

interpretation default_timer: event_timer
  "\<lambda>(_ :: unit) ck. ET_default_monotonic ck"
  "\<lambda>_ ck m p cb. case ET_default_block ck m p cb of (res, ck') \<Rightarrow> (res, (), ck')" "\<lambda>_. True"
proof
  fix ck cb n res et' ck'
  assume ok: "clocks_ok ck" and s: "sleeps cb" and n: "tv_normal n"
    and b: "(case ET_default_block ck (Some n) False cb of (res, ck') \<Rightarrow> (res, (), ck')) = (res, et', ck')"
  then have "cb (Some (clamped_diff n (ET_default_monotonic ck))) ck = (res, ck')"
    by (simp add: ET_default_block_def Let_def split: prod.splits)
  then show "tv_us n \<le> mono_us ck'"
    using sleepsD(2) [OF s ok] clamped_diff_us [OF tv_normal_near [OF n] monotonic_near [OF ok]] by fastforce
qed (auto simp: ET_default_block_def Let_def clamped_diff_nonneg elim: timeout_passed split: prod.splits)

interpretation rtdebug_timer: pausable_timer ET_rtdebug_monotonic ET_rtdebug_block "\<lambda>et. tv_normal (rt_offset et)"
proof
  fix et ck cb n res et' ck'
  assume off: "tv_normal (rt_offset et)" and ok: "clocks_ok ck" and s: "sleeps cb" and n: "tv_normal n"
    and b: "ET_rtdebug_block et ck (Some n) False cb = (res, et', ck')"
  then have "cb (Some (clamped_diff n (ET_rtdebug_monotonic et ck))) ck = (res, ck')" "et' = et"
    by (auto simp: ET_rtdebug_block_def Let_def split: prod.splits)
  then show "tv_us n \<le> tv_us (ET_rtdebug_monotonic et' ck')"
    using sleepsD(2) [OF s ok] clamped_diff_us [OF tv_normal_near [OF n] rtdebug_near [OF ok off]]
    by (fastforce simp: rtdebug_us)
next
  fix et ck cb m p res et' ck'
  assume off: "tv_normal (rt_offset et)" and ok: "clocks_ok ck" and s: "sleeps cb"
    and b: "ET_rtdebug_block et ck m p cb = (res, et', ck')"
  let ?cur = "ET_rtdebug_monotonic et ck"
  obtain t where t: "cb t ck = (res, ck')"
      and et': "et' = (if p then et\<lparr>rt_offset := timeradd (clamped_diff (ET_rtdebug_monotonic et ck') ?cur) (rt_offset et)\<rparr> else et)"
    using b by (auto simp: ET_rtdebug_block_def Let_def split: prod.splits if_splits)
  have ok': "clocks_ok ck'" using sleepsD(1) [OF s ok t] .
  note near = rtdebug_near [OF ok off] rtdebug_near [OF ok' off]
  have "tv_normal (timeradd (clamped_diff (ET_rtdebug_monotonic et ck') ?cur) (rt_offset et))"
    using clamped_diff_near [OF near(2,1)] off by (auto simp: timeradd_def tv_near_def tv_normal_def Let_def)
  then show "tv_normal (rt_offset et')" using off by (simp add: et')
next
  fix et ck cb m res et' ck'
  assume off: "tv_normal (rt_offset et)" and ok: "clocks_ok ck" and s: "sleeps cb"
    and b: "ET_rtdebug_block et ck m True cb = (res, et', ck')"
  let ?cur = "ET_rtdebug_monotonic et ck"
  obtain t where t: "cb t ck = (res, ck')"
      and et': "et' = et\<lparr>rt_offset := timeradd (clamped_diff (ET_rtdebug_monotonic et ck') ?cur) (rt_offset et)\<rparr>"
    using b by (auto simp: ET_rtdebug_block_def Let_def split: prod.splits)
  have ok': "clocks_ok ck'" using sleepsD(1) [OF s ok t] .
  have "mono_us ck \<le> mono_us ck'" using sleepsD(2) [OF s ok t] by (auto split: option.splits)
  then show "tv_us (ET_rtdebug_monotonic et' ck') = tv_us ?cur"
    using clamped_diff_us [OF rtdebug_near [OF ok' off] rtdebug_near [OF ok off]]
    by (simp add: rtdebug_us et' timeradd_us)
qed (auto simp: ET_rtdebug_block_def Let_def clamped_diff_nonneg elim: timeout_passed split: prod.splits if_splits)

interpretation virt_timer: pausable_timer "\<lambda>et ck. et_virt_get_time et" ET_virt_block "\<lambda>et. vt_paused et = VIRT_CLK_ACTIVE"
  by unfold_locales
    (auto simp: ET_virt_block_def et_virt_get_pause_def et_virt_get_time_def et_virt_set_time_def Let_def
       clamped_diff_nonneg tv_us_def [of "Timeval 0 0"] elim: timeout_passed split: prod.splits option.splits if_splits)

fun timer_running :: "EventTimer \<Rightarrow> bool" where
  "timer_running DefaultTimer = True"
| "timer_running (RTDebugTimer et) = tv_normal (rt_offset et)"
| "timer_running (VirtualTimer et) = (vt_paused et = VIRT_CLK_ACTIVE)"

interpretation timer: event_timer et_get_monotonic_time et_block timer_running
proof
  fix et ck cb n res et' ck'
  assume "timer_running et" "clocks_ok ck" "sleeps cb" "tv_normal n" "et_block et ck (Some n) False cb = (res, et', ck')"
  then show "tv_us n \<le> tv_us (et_get_monotonic_time et' ck')"
    using default_timer.block_reaches [of ck cb n] rtdebug_timer.block_reaches [of _ ck cb n] virt_timer.block_reaches [of _ ck cb n]
    by (cases et) (auto split: prod.splits)
next
  fix et ck cb m p res et' ck'
  assume r: "timer_running et" "clocks_ok ck" "sleeps cb" and m: "\<And>n. m = Some n \<Longrightarrow> tv_normal n"
    and b: "et_block et ck m p cb = (res, et', ck')"
  show "timer_running et'"
  proof (cases et)
    case DefaultTimer
    then show ?thesis using b by (auto split: prod.splits)
  next
    case (RTDebugTimer x)
    then obtain x' where x: "ET_rtdebug_block x ck m p cb = (res, x', ck')" "et' = RTDebugTimer x'"
      using b by (auto split: prod.splits)
    then show ?thesis using rtdebug_timer.block_running [OF _ r(2,3) m x(1)] r(1) RTDebugTimer by simp
  next
    case (VirtualTimer x)
    then obtain x' where x: "ET_virt_block x ck m p cb = (res, x', ck')" "et' = VirtualTimer x'"
      using b by (auto split: prod.splits)
    then show ?thesis using virt_timer.block_running [OF _ r(2,3) m x(1)] r(1) VirtualTimer by simp
  qed
next
  fix et ck m p cb res et' ck'
  assume "et_block et ck m p cb = (res, et', ck')"
  then show "\<exists>t. (res, ck') = cb t ck \<and> (\<forall>d. t = Some d \<longrightarrow> 0 \<le> tv_us d)"
  proof (cases et)
    case DefaultTimer
    then show ?thesis
      using default_timer.block_timeout [of ck m p cb res "()" ck'] \<open>et_block et ck m p cb = _\<close>
      by (simp split: prod.splits)
  next
    case (RTDebugTimer x)
    then obtain x' where "ET_rtdebug_block x ck m p cb = (res, x', ck')"
      using \<open>et_block et ck m p cb = _\<close> by (auto split: prod.splits)
    then show ?thesis by (rule rtdebug_timer.block_timeout)
  next
    case (VirtualTimer x)
    then obtain x' where "ET_virt_block x ck m p cb = (res, x', ck')"
      using \<open>et_block et ck m p cb = _\<close> by (auto split: prod.splits)
    then show ?thesis by (rule virt_timer.block_timeout)
  qed
qed


text \<open>A callback that sleeps, for the examples: it waits as many seconds as it was asked to wait microseconds.\<close>

definition long_sleep :: block_cb where
  "long_sleep t ck = (0, ck\<lparr>ck_mono := (ck_mono ck)\<lparr>ts_sec :=
     ts_sec (ck_mono ck) + (case t of None \<Rightarrow> 0 | Some d \<Rightarrow> max 0 (tv_us d))\<rparr>\<rparr>)"

lemma long_sleep_sleeps: "sleeps long_sleep"
  by (auto simp: sleeps_def long_sleep_def clocks_ok_def ET_default_monotonic_def tv_us_def split: option.splits)

abbreviation sample_clocks :: clocks where
  "sample_clocks \<equiv> \<lparr>ck_mono = \<lparr>ts_sec = 10, ts_nsec = 999999600\<rparr>, ck_gmt = Timeval 1000 0\<rparr>"


text \<open>
  Time stands still while the debugger holds the program. A blocking call with
  \<open>pauseWhileBlocking\<close> leaves the monotonic clock of the debugger's timer and of the virtual timer
  exactly where it was, however long the callback slept; the default timer has no such mode.
\<close>
theorem timer_pause_stands_still:
  assumes "timer_running et" "et \<noteq> DefaultTimer" "clocks_ok ck" "sleeps cb"
    and "et_block et ck m True cb = (res, et', ck')"
  shows "tv_us (et_get_monotonic_time et' ck') = tv_us (et_get_monotonic_time et ck)"
  using assms rtdebug_timer.block_paused [of _ ck cb m] virt_timer.block_paused [of _ ck cb m]
  by (cases et) (auto split: prod.splits)

theorem timer_pause_stands_still_witness:
  "tv_us (et_get_monotonic_time
     (fst (snd (et_block (RTDebugTimer \<lparr>rt_offset = Timeval 3 700\<rparr>) sample_clocks None True long_sleep)))
     (snd (snd (et_block (RTDebugTimer \<lparr>rt_offset = Timeval 3 700\<rparr>) sample_clocks None True long_sleep)))) =
   tv_us (et_get_monotonic_time (RTDebugTimer \<lparr>rt_offset = Timeval 3 700\<rparr>) sample_clocks)"
proof -
  let ?b = "et_block (RTDebugTimer \<lparr>rt_offset = Timeval 3 700\<rparr>) sample_clocks None True long_sleep"
  have "clocks_ok sample_clocks" by (simp add: clocks_ok_def)
  then show ?thesis
    using timer_pause_stands_still [OF _ _ _ long_sleep_sleeps, of "RTDebugTimer \<lparr>rt_offset = Timeval 3 700\<rparr>" sample_clocks None
        "fst ?b" "fst (snd ?b)" "snd (snd ?b)"]
    unfolding prod.collapse by (simp add: tv_normal_def del: et_block.simps)
qed

text \<open>The virtual clock takes the time of the next event even when that lies in its past.\<close>

lemma virt_clock_backwards:
  "et_get_monotonic_time (fst (snd (et_block (VirtualTimer \<lparr>vt_time = Timeval 9 0, vt_paused = 0\<rparr>) sample_clocks
     (Some (Timeval 4 0)) False long_sleep))) sample_clocks = Timeval 4 0"
  by code_simp

end
