(* ===== verification/Global_Timer.thy ===== *)
theory Global_Timer
  imports Event_Timer
begin

text \<open>
  The global virtual timer of \<open>globalTimer.c\<close>: processes that share one virtual clock through a
  mapped file with two semaphores, the event mutex and the barrier.

  \<^item> \<open>SharedState\<close> is the mapped file, with the semaphores as their counts; \<open>num_procs\<close> is the
    length of \<open>ss_procs\<close>. \<open>VirtualGlobalEventTimer\<close> is a process's own part, with its index into the process
    array in place of the pointer \<open>my_state\<close>.
  \<^item> A process is between two calls of its event loop (\<open>Running\<close>), waits at the barrier or, past it,
    for the mutex, sleeps as the thief of time, waits to lock the mutex again after that, has left, or has
    failed an \<open>assert\<close>. A process changes the file only while it holds the mutex, so the code between two
    semaphore operations is one atomic step; \<open>gexec\<close> performs a step of one process and is \<open>None\<close> when the
    step is not possible (a semaphore at 0). A system run is any interleaving of steps.
  \<^item> The system calls of \<open>setup_shared_state\<close> other than the semaphores are taken to succeed, and
    \<open>sem_wait\<close> interrupted by a signal is retried by the code, which is no step.
\<close>

section \<open>State\<close>

record SharedProcessState =
  sp_next_time :: timeval
  sp_active :: bool
  sp_holds_mutex :: bool
  sp_thief :: bool
  sp_pid :: int

record SharedState =
  ss_evt_mutex :: nat
  ss_barrier :: nat
  ss_curr_time :: timeval
  ss_time_thief :: int
  ss_procs :: "SharedProcessState list"
  ss_destroyed :: bool

datatype gpc = Running | AtBarrier timeval | AtMutex timeval | Stealing timeval | Relock | Exited | Aborted

record VirtualGlobalEventTimer =
  vg_time :: timeval
  vg_paused :: int
  vg_pc :: gpc

record gsys =
  gs_shared :: SharedState
  gs_local :: "VirtualGlobalEventTimer list"

abbreviation (input) MAX_PROCS :: nat where "MAX_PROCS \<equiv> 128"

definition upd_proc :: "nat \<Rightarrow> (SharedProcessState \<Rightarrow> SharedProcessState) \<Rightarrow> SharedState \<Rightarrow> SharedState" where
  "upd_proc i f ss = ss\<lparr>ss_procs := (ss_procs ss)[i := f (ss_procs ss ! i)]\<rparr>"

definition upd_local :: "nat \<Rightarrow> (VirtualGlobalEventTimer \<Rightarrow> VirtualGlobalEventTimer) \<Rightarrow> gsys \<Rightarrow> gsys" where
  "upd_local i f sy = sy\<lparr>gs_local := (gs_local sy)[i := f (gs_local sy ! i)]\<rparr>"

section \<open>Joining and leaving\<close>

definition init_shared :: "timeval \<Rightarrow> SharedState" where
  "init_shared now =
     \<lparr>ss_evt_mutex = 1, ss_barrier = 0, ss_curr_time = now, ss_time_thief = 0, ss_procs = [], ss_destroyed = False\<rparr>"

text \<open>The part of \<open>setup_shared_state\<close> after the mutex is taken; \<open>None\<close> writes past the process array.\<close>

definition setup_shared_state :: "int \<Rightarrow> SharedState \<Rightarrow> SharedState option" where
  "setup_shared_state pid ss =
     (if length (ss_procs ss) \<ge> MAX_PROCS then None
      else Some (ss\<lparr>ss_procs := ss_procs ss @
        [\<lparr>sp_next_time = ss_curr_time ss, sp_active = True, sp_holds_mutex = True, sp_thief = False, sp_pid = pid\<rparr>]\<rparr>))"

definition live_proc :: "SharedProcessState \<Rightarrow> bool" where
  "live_proc p \<longleftrightarrow> sp_pid p > 0 \<and> sp_active p"

definition cleanup_shared_state :: "nat \<Rightarrow> SharedState \<Rightarrow> SharedState" where
  "cleanup_shared_state i ss =
     (let ss1 = upd_proc i (\<lambda>p. p\<lparr>sp_active := False\<rparr>) ss;
          me = ss_procs ss1 ! i
      in if sp_holds_mutex me then
           let ss2 = (if sp_pid me = ss_time_thief ss1 \<and> ss_time_thief ss1 \<noteq> 0 then ss1\<lparr>ss_time_thief := 0\<rparr> else ss1);
               ss3 = upd_proc i (\<lambda>p. p\<lparr>sp_pid := 0\<rparr>) ss2;
               cnt = length (filter live_proc (ss_procs ss3));
               ss4 = upd_proc i (\<lambda>p. p\<lparr>sp_holds_mutex := False\<rparr>) (ss3\<lparr>ss_barrier := ss_barrier ss3 + cnt\<rparr>)
           in ss4\<lparr>ss_evt_mutex := ss_evt_mutex ss4 + 1, ss_destroyed := (cnt = 0)\<rparr>
         else upd_proc i (\<lambda>p. p\<lparr>sp_pid := 0\<rparr>) ss1)"

section \<open>The pause state and the local clock\<close>

definition et_gvirt_set_pause :: "nat \<Rightarrow> int \<Rightarrow> gsys \<Rightarrow> gsys" where
  "et_gvirt_set_pause i pauseState sy =
     (let ss = gs_shared sy; me = ss_procs ss ! i
      in if \<not> sp_holds_mutex me then sy
         else if pauseState = VIRT_CLK_STOLEN then
           if ss_time_thief ss \<noteq> 0 then sy
           else upd_local i (\<lambda>l. l\<lparr>vg_paused := pauseState\<rparr>) (sy\<lparr>gs_shared := ss\<lparr>ss_time_thief := sp_pid me\<rparr>\<rparr>)
         else
           let ss' = (if ss_time_thief ss \<noteq> 0 \<and> ss_time_thief ss = sp_pid me then ss\<lparr>ss_time_thief := 0\<rparr> else ss)
           in upd_local i (\<lambda>l. l\<lparr>vg_paused := pauseState\<rparr>) (sy\<lparr>gs_shared := ss'\<rparr>))"

definition et_gvirt_inc_time :: "timeval \<Rightarrow> VirtualGlobalEventTimer \<Rightarrow> VirtualGlobalEventTimer" where
  "et_gvirt_inc_time t clk = clk\<lparr>vg_time := timeradd t (vg_time clk)\<rparr>"

definition et_gvirt_set_time :: "timeval \<Rightarrow> VirtualGlobalEventTimer \<Rightarrow> VirtualGlobalEventTimer" where
  "et_gvirt_set_time t clk = clk\<lparr>vg_time := t\<rparr>"

definition et_gvirt_get_time :: "VirtualGlobalEventTimer \<Rightarrow> timeval" where
  "et_gvirt_get_time clk = vg_time clk"

definition et_gvirt_get_pause :: "VirtualGlobalEventTimer \<Rightarrow> int" where
  "et_gvirt_get_pause clk = vg_paused clk"

section \<open>Blocking\<close>

fun find_smallest :: "SharedProcessState list \<Rightarrow> nat \<Rightarrow> nat option \<Rightarrow> SharedProcessState list \<Rightarrow> nat option" where
  "find_smallest ps i sm [] = sm"
| "find_smallest ps i sm (p # rest) =
     find_smallest ps (Suc i)
       (if live_proc p \<and> (case sm of None \<Rightarrow> True | Some j \<Rightarrow> timercmp (sp_next_time p) (sp_next_time (ps ! j)) (<))
        then Some i else sm) rest"

definition gvirt_publish :: "nat \<Rightarrow> timeval \<Rightarrow> SharedState \<Rightarrow> (SharedState \<times> gpc) option" where
  "gvirt_publish i nextAwake ss =
     (if \<not> sp_holds_mutex (ss_procs ss ! i) then None
      else
        let ss1 = upd_proc i (\<lambda>p. p\<lparr>sp_next_time := nextAwake\<rparr>) ss;
            proc_cnt = length (filter live_proc (ss_procs ss1))
        in (case find_smallest (ss_procs ss1) 0 None (ss_procs ss1) of
              None \<Rightarrow> None
            | Some smallest \<Rightarrow>
                let ss2 = (if ss_time_thief ss1 = 0
                           then upd_proc smallest (\<lambda>p. p\<lparr>sp_active := False\<rparr>)
                                  (ss1\<lparr>ss_curr_time := sp_next_time (ss_procs ss1 ! smallest),
                                      ss_barrier := ss_barrier ss1 + proc_cnt\<rparr>)
                           else ss1);
                    thief = (ss_time_thief ss2 \<noteq> 0 \<and> ss_time_thief ss2 = sp_pid (ss_procs ss2 ! i));
                    ss3 = upd_proc i (\<lambda>p. p\<lparr>sp_thief := thief, sp_holds_mutex := False\<rparr>) ss2
                in Some (ss3\<lparr>ss_evt_mutex := ss_evt_mutex ss3 + 1\<rparr>,
                         if thief then Stealing nextAwake else AtBarrier nextAwake)))"

text \<open>
  A call of \<open>ET_gvirt_block\<close> up to its first semaphore wait. With \<open>pauseWhileBlocking\<close>, no next
  event or a paused clock the code only calls the blocking callback, and the process runs on.
\<close>

definition ET_gvirt_block :: "nat \<Rightarrow> timeval option \<Rightarrow> bool \<Rightarrow> gsys \<Rightarrow> gsys" where
  "ET_gvirt_block i nextAwake pauseWhileBlocking sy =
     (case nextAwake of
        None \<Rightarrow> sy
      | Some n \<Rightarrow>
          let paused = vg_paused (gs_local sy ! i)
          in if \<not> pauseWhileBlocking \<and> (paused = VIRT_CLK_ACTIVE \<or> paused = VIRT_CLK_STOLEN)
             then (case gvirt_publish i n (gs_shared sy) of
                     None \<Rightarrow> upd_local i (\<lambda>l. l\<lparr>vg_pc := Aborted\<rparr>) sy
                   | Some (ss, pc) \<Rightarrow> upd_local i (\<lambda>l. l\<lparr>vg_pc := pc\<rparr>) (sy\<lparr>gs_shared := ss\<rparr>))
             else sy)"

text \<open>The timeout of the callback in each case (\<open>None\<close> is \<open>NULL\<close>).\<close>

definition gvirt_timeout :: "timeval option \<Rightarrow> bool \<Rightarrow> VirtualGlobalEventTimer \<Rightarrow> SharedProcessState \<Rightarrow> timeval option" where
  "gvirt_timeout nextAwake pauseWhileBlocking l me =
     (case nextAwake of
        None \<Rightarrow> None
      | Some n \<Rightarrow>
          if pauseWhileBlocking then Some (clamped_diff n (vg_time l))
          else if vg_paused l = VIRT_CLK_ACTIVE \<or> vg_paused l = VIRT_CLK_STOLEN
          then Some (if sp_thief me then clamped_diff n (vg_time l) else Timeval 0 0)
          else None)"

text \<open>Past the barrier and with the mutex in hand.\<close>

definition gvirt_check_turn :: "nat \<Rightarrow> timeval \<Rightarrow> gsys \<Rightarrow> gsys" where
  "gvirt_check_turn i nextAwake sy =
     (let ss = gs_shared sy;
          go = (\<lambda>pc ss'. upd_local i (\<lambda>l. (et_gvirt_set_time (ss_curr_time ss) l)\<lparr>vg_pc := pc\<rparr>) (sy\<lparr>gs_shared := ss'\<rparr>))
      in if \<not> timercmp nextAwake (sp_next_time (ss_procs ss ! i)) (=) then go Aborted ss
         else if timercmp nextAwake (ss_curr_time ss) (>) then go (AtBarrier nextAwake) (ss\<lparr>ss_evt_mutex := ss_evt_mutex ss + 1\<rparr>)
         else go Running (upd_proc i (\<lambda>p. p\<lparr>sp_active := True, sp_holds_mutex := True\<rparr>) ss))"

section \<open>Steps\<close>

datatype gaction =
    Join int int
  | Block nat "timeval option" bool
  | PassBarrier nat
  | TakeMutex nat
  | Wake nat
  | TakeMutexAgain nat
  | SetPause nat int
  | SetTime nat timeval
  | IncTime nat timeval
  | Leave nat

definition at :: "gsys \<Rightarrow> nat \<Rightarrow> gpc \<Rightarrow> bool" where
  "at sy i pc \<longleftrightarrow> i < length (gs_local sy) \<and> vg_pc (gs_local sy ! i) = pc \<and> \<not> ss_destroyed (gs_shared sy)"

definition waiting :: "gsys \<Rightarrow> nat \<Rightarrow> timeval option" where
  "waiting sy i =
     (if i < length (gs_local sy)
      then case vg_pc (gs_local sy ! i) of AtBarrier n \<Rightarrow> Some n | AtMutex n \<Rightarrow> Some n | Stealing n \<Rightarrow> Some n | _ \<Rightarrow> None
      else None)"

definition take_mutex :: "gsys \<Rightarrow> gsys" where
  "take_mutex sy = sy\<lparr>gs_shared := (gs_shared sy)\<lparr>ss_evt_mutex := ss_evt_mutex (gs_shared sy) - 1\<rparr>\<rparr>"

definition ET_gvirt_init :: "int \<Rightarrow> int \<Rightarrow> gsys \<Rightarrow> gsys option" where
  "ET_gvirt_init pid pause_mode sy =
     (case setup_shared_state pid (gs_shared sy) of
        None \<Rightarrow> None
      | Some ss \<Rightarrow> Some (sy\<lparr>gs_shared := ss,
          gs_local := gs_local sy @ [\<lparr>vg_time = Timeval 0 0, vg_paused = pause_mode, vg_pc = Running\<rparr>]\<rparr>))"

fun gexec :: "gaction \<Rightarrow> gsys \<Rightarrow> gsys option" where
  "gexec (Join pid pause_mode) sy =
     (if ss_evt_mutex (gs_shared sy) > 0 \<and> pid > 0 \<and> \<not> ss_destroyed (gs_shared sy)
      then ET_gvirt_init pid pause_mode (take_mutex sy) else None)"
| "gexec (Block i n p) sy = (if at sy i Running then Some (ET_gvirt_block i n p sy) else None)"
| "gexec (PassBarrier i) sy =
     (case waiting sy i of
        Some n \<Rightarrow>
          if at sy i (AtBarrier n) \<and> ss_barrier (gs_shared sy) > 0
          then Some (upd_local i (\<lambda>l. l\<lparr>vg_pc := AtMutex n\<rparr>)
                 (sy\<lparr>gs_shared := (gs_shared sy)\<lparr>ss_barrier := ss_barrier (gs_shared sy) - 1\<rparr>\<rparr>))
          else None
      | None \<Rightarrow> None)"
| "gexec (TakeMutex i) sy =
     (case waiting sy i of
        Some n \<Rightarrow>
          if at sy i (AtMutex n) \<and> ss_evt_mutex (gs_shared sy) > 0
          then Some (gvirt_check_turn i n (take_mutex sy)) else None
      | None \<Rightarrow> None)"
| "gexec (Wake i) sy =
     (case waiting sy i of
        Some n \<Rightarrow> if at sy i (Stealing n) then Some (upd_local i (\<lambda>l. l\<lparr>vg_pc := Relock\<rparr>) sy) else None
      | None \<Rightarrow> None)"
| "gexec (TakeMutexAgain i) sy =
     (if at sy i Relock \<and> ss_evt_mutex (gs_shared sy) > 0
      then Some (upd_local i (\<lambda>l. l\<lparr>vg_pc := Running\<rparr>) (take_mutex sy)) else None)"
| "gexec (SetPause i s) sy = (if at sy i Running then Some (et_gvirt_set_pause i s sy) else None)"
| "gexec (SetTime i t) sy = (if at sy i Running then Some (upd_local i (et_gvirt_set_time t) sy) else None)"
| "gexec (IncTime i t) sy = (if at sy i Running then Some (upd_local i (et_gvirt_inc_time t) sy) else None)"
| "gexec (Leave i) sy =
     (if at sy i Running
      then Some (upd_local i (\<lambda>l. l\<lparr>vg_pc := Exited\<rparr>) (sy\<lparr>gs_shared := cleanup_shared_state i (gs_shared sy)\<rparr>)) else None)"

fun grun :: "gaction list \<Rightarrow> gsys \<Rightarrow> gsys option" where
  "grun [] sy = Some sy"
| "grun (a # as) sy = (case gexec a sy of None \<Rightarrow> None | Some sy' \<Rightarrow> grun as sy')"

definition ginit :: "timeval \<Rightarrow> gsys" where
  "ginit now = \<lparr>gs_shared = init_shared now, gs_local = []\<rparr>"

inductive greach :: "timeval \<Rightarrow> gsys \<Rightarrow> bool" for now where
  greach_init: "greach now (ginit now)"
| greach_step: "greach now sy \<Longrightarrow> gexec a sy = Some sy' \<Longrightarrow> greach now sy'"

lemma greach_run: "greach now sy \<Longrightarrow> grun as sy = Some sy' \<Longrightarrow> greach now sy'"
  by (induction "as" arbitrary: sy) (auto split: option.splits intro: greach_step)

end
