(* ===== verification/Global_Correct.thy ===== *)
theory Global_Correct
  imports Global_Timer
begin

text \<open>
  The global virtual timer: at most one process is between two blocking calls at any moment
  (mutual exclusion, by rule induction over all interleavings); the published global time is the
  least next time of the active processes; and two runs in which the protocol fails, one that
  executes an event after the global clock has passed it, one that loses the mutex.
\<close>

section \<open>Mutual exclusion\<close>

definition running_count :: "gsys \<Rightarrow> nat" where
  "running_count sy = length (filter (\<lambda>l. vg_pc l = Running) (gs_local sy))"

definition ginv :: "gsys \<Rightarrow> bool" where
  "ginv sy \<longleftrightarrow>
     ss_evt_mutex (gs_shared sy) + running_count sy \<le> 1 \<and>
     length (ss_procs (gs_shared sy)) = length (gs_local sy) \<and>
     (\<forall>i < length (gs_local sy). sp_holds_mutex (ss_procs (gs_shared sy) ! i) \<longrightarrow> vg_pc (gs_local sy ! i) \<in> {Running, Aborted})"

lemma length_filter_update:
  "i < length xs \<Longrightarrow>
   length (filter P (xs[i := y])) + (if P (xs ! i) then 1 else 0) = length (filter P xs) + (if P y then 1 else 0)"
proof (induction xs arbitrary: i)
  case (Cons x xs)
  then show ?case by (cases i) auto
qed simp

lemma running_count_update:
  assumes "i < length (gs_local sy)"
  shows "running_count (upd_local i f sy) + (if vg_pc (gs_local sy ! i) = Running then 1 else 0) =
    running_count sy + (if vg_pc (f (gs_local sy ! i)) = Running then 1 else 0)"
  using length_filter_update [OF assms, of "\<lambda>l. vg_pc l = Running" "f (gs_local sy ! i)"]
  by (simp add: running_count_def upd_local_def)

lemma running_count_shared [simp]: "running_count (sy\<lparr>gs_shared := s\<rparr>) = running_count sy"
  by (simp add: running_count_def)

lemma upd_local_simps [simp]:
  "gs_shared (upd_local i f sy) = gs_shared sy"
  "gs_local (upd_local i f sy) = (gs_local sy)[i := f (gs_local sy ! i)]"
  by (simp_all add: upd_local_def)

lemma upd_proc_simps [simp]:
  "ss_evt_mutex (upd_proc i f ss) = ss_evt_mutex ss" "ss_barrier (upd_proc i f ss) = ss_barrier ss"
  "ss_curr_time (upd_proc i f ss) = ss_curr_time ss" "ss_time_thief (upd_proc i f ss) = ss_time_thief ss"
  "length (ss_procs (upd_proc i f ss)) = length (ss_procs ss)"
  by (simp_all add: upd_proc_def)

lemma holds_upd [simp]:
  assumes "\<And>p. sp_holds_mutex (f p) = sp_holds_mutex p"
  shows "sp_holds_mutex (ss_procs (upd_proc k f ss) ! j) = sp_holds_mutex (ss_procs ss ! j)"
  by (cases "k = j"; cases "k < length (ss_procs ss)") (simp_all add: upd_proc_def assms list_update_beyond)

lemma holds_upd_off:
  assumes "\<And>p. \<not> sp_holds_mutex (f p)" "i < length (ss_procs ss)"
  shows "sp_holds_mutex (ss_procs (upd_proc i f ss) ! j) \<longleftrightarrow> j \<noteq> i \<and> sp_holds_mutex (ss_procs ss ! j)"
  using assms by (auto simp: upd_proc_def nth_list_update)

text \<open>
  A step of process \<open>i\<close> keeps the invariant when it changes the flags of the other
  processes not at all and its own along with its position.
\<close>

lemma ginv_local_step:
  assumes inv: "ginv sy" and i: "i < length (gs_local sy)"
    and mutex: "ss_evt_mutex ss + (if vg_pc (f (gs_local sy ! i)) = Running then 1 else 0) \<le>
        ss_evt_mutex (gs_shared sy) + (if vg_pc (gs_local sy ! i) = Running then 1 else 0)"
    and len: "length (ss_procs ss) = length (ss_procs (gs_shared sy))"
    and holds: "\<And>j. j < length (gs_local sy) \<Longrightarrow> j \<noteq> i \<Longrightarrow>
        sp_holds_mutex (ss_procs ss ! j) \<Longrightarrow> sp_holds_mutex (ss_procs (gs_shared sy) ! j)"
    and me: "sp_holds_mutex (ss_procs ss ! i) \<Longrightarrow> vg_pc (f (gs_local sy ! i)) \<in> {Running, Aborted}"
  shows "ginv (upd_local i f (sy\<lparr>gs_shared := ss\<rparr>))"
proof -
  have "running_count (upd_local i f sy) + (if vg_pc (gs_local sy ! i) = Running then 1 else 0) =
      running_count sy + (if vg_pc (f (gs_local sy ! i)) = Running then 1 else 0)"
    by (rule running_count_update [OF i])
  moreover have "running_count (upd_local i f (sy\<lparr>gs_shared := ss\<rparr>)) = running_count (upd_local i f sy)"
    by (simp add: running_count_def)
  ultimately have "ss_evt_mutex ss + running_count (upd_local i f (sy\<lparr>gs_shared := ss\<rparr>)) \<le> 1"
    using inv mutex by (simp add: ginv_def)
  then show ?thesis
    using inv i len holds me by (auto simp: ginv_def nth_list_update)
qed

lemma publish_frame:
  assumes "gvirt_publish i n ss = Some (ss', pc)" "i < length (ss_procs ss)"
  shows "ss_evt_mutex ss' = ss_evt_mutex ss + 1" "length (ss_procs ss') = length (ss_procs ss)" "pc \<noteq> Running"
    "sp_holds_mutex (ss_procs ss ! i)"
    "sp_holds_mutex (ss_procs ss' ! j) \<longleftrightarrow> j \<noteq> i \<and> sp_holds_mutex (ss_procs ss ! j)"
  using assms by (auto simp: gvirt_publish_def Let_def holds_upd_off split: if_splits option.splits)

lemma cleanup_frame:
  assumes "i < length (ss_procs ss)"
  shows "ss_evt_mutex (cleanup_shared_state i ss) = ss_evt_mutex ss + (if sp_holds_mutex (ss_procs ss ! i) then 1 else 0)"
    "length (ss_procs (cleanup_shared_state i ss)) = length (ss_procs ss)"
    "sp_holds_mutex (ss_procs (cleanup_shared_state i ss) ! j) \<longleftrightarrow> j \<noteq> i \<and> sp_holds_mutex (ss_procs ss ! j)"
  using assms by (auto simp: cleanup_shared_state_def Let_def holds_upd_off)

lemma ginv_publish:
  assumes "ginv sy" "at sy i Running" "gvirt_publish i n (gs_shared sy) = Some (ss, pc)"
  shows "ginv (upd_local i (\<lambda>l. l\<lparr>vg_pc := pc\<rparr>) (sy\<lparr>gs_shared := ss\<rparr>))"
proof -
  have i: "i < length (gs_local sy)" "vg_pc (gs_local sy ! i) = Running" using assms(2) by (auto simp: at_def)
  then have "i < length (ss_procs (gs_shared sy))" using assms(1) by (simp add: ginv_def)
  note fr = publish_frame [OF assms(3) this]
  show ?thesis using assms(1) i fr by (intro ginv_local_step) auto
qed

text \<open>A step that keeps the mutex, the process array and the positions.\<close>

lemma ginv_frame:
  assumes "ginv sy" "i < length (gs_local sy)" "ss_evt_mutex ss = ss_evt_mutex (gs_shared sy)" "ss_procs ss = ss_procs (gs_shared sy)"
    and "vg_pc (f (gs_local sy ! i)) = vg_pc (gs_local sy ! i)"
  shows "ginv (upd_local i f (sy\<lparr>gs_shared := ss\<rparr>))"
  using assms by (intro ginv_local_step) (auto simp: ginv_def)

lemma ginv_frame_local:
  assumes "ginv sy" "i < length (gs_local sy)" "vg_pc (f (gs_local sy ! i)) = vg_pc (gs_local sy ! i)"
  shows "ginv (upd_local i f sy)"
  using ginv_frame [OF assms(1,2) refl refl, of f] assms(3) by simp

text \<open>A process that moves on without the mutex, or stops for good.\<close>

lemma ginv_move:
  assumes inv: "ginv sy" and i: "i < length (gs_local sy)" and pc: "vg_pc (f (gs_local sy ! i)) \<noteq> Running"
    and h: "\<not> sp_holds_mutex (ss_procs (gs_shared sy) ! i) \<or> vg_pc (f (gs_local sy ! i)) = Aborted"
    and ss: "ss_evt_mutex ss = ss_evt_mutex (gs_shared sy)" "ss_procs ss = ss_procs (gs_shared sy)"
  shows "ginv (upd_local i f (sy\<lparr>gs_shared := ss\<rparr>))"
  using assms by (intro ginv_local_step) auto

lemma not_holding:
  "ginv sy \<Longrightarrow> i < length (gs_local sy) \<Longrightarrow> vg_pc (gs_local sy ! i) \<notin> {Running, Aborted} \<Longrightarrow>
   \<not> sp_holds_mutex (ss_procs (gs_shared sy) ! i)"
  by (auto simp: ginv_def)

lemma ginv_block:
  assumes inv: "ginv sy" and i: "at sy i Running"
  shows "ginv (ET_gvirt_block i n p sy)"
  using inv ginv_publish [OF inv i] ginv_move [OF inv _ _ _ refl refl, of i "\<lambda>l. l\<lparr>vg_pc := Aborted\<rparr>"] i
  by (auto simp: ET_gvirt_block_def Let_def at_def split: option.splits prod.splits)

lemma ginv_check_turn:
  assumes inv: "ginv sy" and i: "at sy i (AtMutex n)" and m: "ss_evt_mutex (gs_shared sy) > 0"
  shows "ginv (gvirt_check_turn i n (take_mutex sy))"
proof -
  have i': "i < length (gs_local sy)" "vg_pc (gs_local sy ! i) = AtMutex n" using i by (auto simp: at_def)
  have len: "i < length (ss_procs (gs_shared sy))" using inv i'(1) by (simp add: ginv_def)
  have nh: "\<not> sp_holds_mutex (ss_procs (gs_shared sy) ! i)" using not_holding [OF inv i'(1)] i'(2) by simp
  let ?go = "\<lambda>pc ss. upd_local i (\<lambda>l. (et_gvirt_set_time (ss_curr_time (gs_shared sy)) l)\<lparr>vg_pc := pc\<rparr>) (sy\<lparr>gs_shared := ss\<rparr>)"
  have go: "ginv (?go pc ss)"
    if "ss_evt_mutex ss + (if pc = Running then 1 else 0) \<le> ss_evt_mutex (gs_shared sy)"
      "length (ss_procs ss) = length (ss_procs (gs_shared sy))"
      "\<And>j. j \<noteq> i \<Longrightarrow> sp_holds_mutex (ss_procs ss ! j) = sp_holds_mutex (ss_procs (gs_shared sy) ! j)"
      "sp_holds_mutex (ss_procs ss ! i) \<Longrightarrow> pc = Running" for pc ss
    using that i' by (intro ginv_local_step [OF inv]) auto
  have upd: "(take_mutex sy)\<lparr>gs_shared := s\<rparr> = sy\<lparr>gs_shared := s\<rparr>" for s by (simp add: take_mutex_def)
  show ?thesis
    unfolding gvirt_check_turn_def Let_def upd
    using nh m go [of "gs_shared sy" "AtBarrier n"] by (auto simp: take_mutex_def upd_proc_def intro!: go)
qed

lemma ginv_join:
  assumes "ginv sy" "ss_evt_mutex (gs_shared sy) > 0" "ET_gvirt_init pid pm (take_mutex sy) = Some sy'"
  shows "ginv sy'"
proof -
  have "ss_evt_mutex (gs_shared sy) = 1" "filter (\<lambda>l. vg_pc l = Running) (gs_local sy) = []"
    using assms(1,2) by (auto simp: ginv_def running_count_def simp flip: length_0_conv)
  then show ?thesis
    using assms by (auto simp: ET_gvirt_init_def setup_shared_state_def take_mutex_def ginv_def running_count_def
        nth_append less_Suc_eq split: if_splits option.splits)
qed

lemma ginv_leave:
  assumes inv: "ginv sy" and i: "at sy i Running"
  shows "ginv (upd_local i (\<lambda>l. l\<lparr>vg_pc := Exited\<rparr>) (sy\<lparr>gs_shared := cleanup_shared_state i (gs_shared sy)\<rparr>))"
proof -
  have i': "i < length (gs_local sy)" "vg_pc (gs_local sy ! i) = Running" using i by (auto simp: at_def)
  then have "i < length (ss_procs (gs_shared sy))" using inv by (simp add: ginv_def)
  note fr = cleanup_frame [OF this]
  show ?thesis using inv i' fr by (intro ginv_local_step) auto
qed

lemma ginv_thief [simp]: "ginv (sy\<lparr>gs_shared := (gs_shared sy)\<lparr>ss_time_thief := x\<rparr>\<rparr>) = ginv sy"
  by (simp add: ginv_def)

lemma ginv_set_pause:
  assumes inv: "ginv sy" and i: "at sy i Running"
  shows "ginv (et_gvirt_set_pause i s sy)"
  using inv i by (auto simp: et_gvirt_set_pause_def Let_def at_def intro!: ginv_frame ginv_frame_local)

lemma ginv_step: "ginv sy \<Longrightarrow> gexec a sy = Some sy' \<Longrightarrow> ginv sy'"
proof (induction a sy rule: gexec.induct)
  case (1 pid pm sy)
  then show ?case using ginv_join by (auto split: if_splits)
next
  case (2 i n p sy)
  then show ?case using ginv_block by (auto split: if_splits)
next
  case (3 i sy)
  then show ?case
    using not_holding [of sy i] by (auto simp: at_def intro!: ginv_move split: if_splits option.splits)
next
  case (4 i sy)
  then show ?case using ginv_check_turn by (auto split: if_splits option.splits)
next
  case (5 i sy)
  then show ?case
    using not_holding [of sy i] ginv_move [of sy i "\<lambda>l. l\<lparr>vg_pc := Relock\<rparr>" "gs_shared sy"]
    by (auto simp: at_def split: if_splits option.splits)
next
  case (6 i sy)
  then show ?case
    using not_holding [of sy i] ginv_local_step [of sy i "gs_shared (take_mutex sy)" "\<lambda>l. l\<lparr>vg_pc := Running\<rparr>"]
    by (auto simp: at_def take_mutex_def split: if_splits)
next
  case (7 i s sy)
  then show ?case using ginv_set_pause by (auto split: if_splits)
next
  case (8 i t sy)
  then show ?case
    using ginv_frame_local [of sy i "et_gvirt_set_time t"] by (auto simp: at_def et_gvirt_set_time_def split: if_splits)
next
  case (9 i t sy)
  then show ?case
    using ginv_frame_local [of sy i "et_gvirt_inc_time t"] by (auto simp: at_def et_gvirt_inc_time_def split: if_splits)
next
  case (10 i sy)
  then show ?case using ginv_leave by (auto split: if_splits)
qed

lemma greach_ginv: "greach now sy \<Longrightarrow> ginv sy"
proof (induction rule: greach.induct)
  case greach_init
  then show ?case by (simp add: ginv_def ginit_def init_shared_def running_count_def)
qed (rule ginv_step)

lemma two_running:
  assumes "i < length xs" "j < length xs" "i \<noteq> j" "P (xs ! i)" "P (xs ! j)"
  shows "2 \<le> length (filter P xs)"
proof -
  have "card {i, j} \<le> card {k. k < length xs \<and> P (xs ! k)}"
    using assms by (intro card_mono) auto
  then show ?thesis using assms(3) by (simp add: length_filter_conv_card)
qed



section \<open>The published time\<close>

definition least_live :: "SharedProcessState list \<Rightarrow> nat option \<Rightarrow> bool" where
  "least_live ps r \<longleftrightarrow>
     (case r of
        None \<Rightarrow> \<forall>p \<in> set ps. \<not> live_proc p
      | Some k \<Rightarrow> k < length ps \<and> live_proc (ps ! k) \<and> (\<forall>p \<in> set ps. live_proc p \<longrightarrow> sp_next_time (ps ! k) \<le> sp_next_time p))"

lemma find_smallest_least:
  "least_live pre sm \<Longrightarrow> least_live (pre @ rest) (find_smallest (pre @ rest) (length pre) sm rest)"
proof (induction rest arbitrary: pre sm)
  case (Cons p rest)
  let ?sm = "if live_proc p \<and> (case sm of None \<Rightarrow> True | Some j \<Rightarrow> timercmp (sp_next_time p) (sp_next_time ((pre @ p # rest) ! j)) (<))
    then Some (length pre) else sm"
  have "least_live (pre @ [p]) ?sm"
    using Cons.prems by (auto simp: least_live_def nth_append split: option.splits)
  from Cons.IH [OF this] show ?case by simp
qed simp

text \<open>
  The published time. A process that blocks while nobody steals time sets the global time to
  the least next time of the active processes, its own new one included, releases the barrier once for each of
  them and the mutex once, and waits at the barrier.
\<close>
theorem gvirt_publish_least:
  assumes "gvirt_publish i n ss = Some (ss', pc)" "ss_time_thief ss = 0"
  defines "ps \<equiv> (ss_procs ss)[i := (ss_procs ss ! i)\<lparr>sp_next_time := n\<rparr>]"
  shows "(\<exists>k < length ps. live_proc (ps ! k) \<and> ss_curr_time ss' = sp_next_time (ps ! k)) \<and>
    (\<forall>p \<in> set ps. live_proc p \<longrightarrow> ss_curr_time ss' \<le> sp_next_time p) \<and>
    ss_barrier ss' = ss_barrier ss + length (filter live_proc ps) \<and>
    ss_evt_mutex ss' = ss_evt_mutex ss + 1 \<and> pc = AtBarrier n"
proof -
  have ps: "ss_procs (upd_proc i (\<lambda>p. p\<lparr>sp_next_time := n\<rparr>) ss) = ps" by (simp add: upd_proc_def ps_def)
  obtain k where k: "find_smallest ps 0 None ps = Some k"
    using assms(1) by (auto simp: gvirt_publish_def Let_def ps split: if_splits option.splits)
  have "least_live ps (Some k)" using find_smallest_least [of "[]" None ps] k by (simp add: least_live_def)
  then show ?thesis
    using assms(1,2) k by (auto simp: gvirt_publish_def Let_def ps least_live_def split: if_splits)
qed

theorem gvirt_publish_least_witness:
  "\<exists>ss'. gvirt_publish 0 (Timeval 9 0) \<lparr>ss_evt_mutex = 0, ss_barrier = 1, ss_curr_time = Timeval 2 0, ss_time_thief = 0,
      ss_procs = [\<lparr>sp_next_time = Timeval 2 0, sp_active = True, sp_holds_mutex = True, sp_thief = False, sp_pid = 11\<rparr>,
                  \<lparr>sp_next_time = Timeval 4 0, sp_active = True, sp_holds_mutex = False, sp_thief = False, sp_pid = 12\<rparr>],
      ss_destroyed = False\<rparr> = Some (ss', AtBarrier (Timeval 9 0)) \<and> ss_curr_time ss' \<le> Timeval 4 0 \<and> ss_barrier ss' = 3"
proof -
  let ?ss = "\<lparr>ss_evt_mutex = 0, ss_barrier = 1, ss_curr_time = Timeval 2 0, ss_time_thief = 0,
      ss_procs = [\<lparr>sp_next_time = Timeval 2 0, sp_active = True, sp_holds_mutex = True, sp_thief = False, sp_pid = 11\<rparr>,
                  \<lparr>sp_next_time = Timeval 4 0, sp_active = True, sp_holds_mutex = False, sp_thief = False, sp_pid = 12\<rparr>],
      ss_destroyed = False\<rparr>"
  have "gvirt_publish 0 (Timeval 9 0) ?ss \<noteq> None" by code_simp
  then obtain ss' pc where p: "gvirt_publish 0 (Timeval 9 0) ?ss = Some (ss', pc)" by auto
  then show ?thesis using gvirt_publish_least [OF p] by (auto simp: live_proc_def)
qed

section \<open>Runs in which the protocol fails\<close>

text \<open>
  Global order is not kept. The process with the least next time is marked inactive until it takes its turn;
  another process that takes a turn first leaves it out when it looks for the least
  next time, and moves the global clock past it. There is a run of two processes in which a process is in its
  event loop at time 20 for an event of time 10, while the global clock has been set to 20 by the other.
\<close>
theorem gvirt_order_violated:
  "\<exists>sy. greach (Timeval 5 0) sy \<and> at sy 1 Running \<and>
     sp_next_time (ss_procs (gs_shared sy) ! 1) = Timeval 10 0 \<and>
     vg_time (gs_local sy ! 1) = Timeval 20 0 \<and> ss_curr_time (gs_shared sy) = Timeval 20 0"
proof -
  let ?as = "[Join 11 0, Block 0 (Some (Timeval 10 0)) False, Join 12 0, Block 1 (Some (Timeval 10 0)) False,
    PassBarrier 0, PassBarrier 1, TakeMutex 0, Block 0 (Some (Timeval 20 0)) False, TakeMutex 1]"
  let ?r = "grun ?as (ginit (Timeval 5 0))"
  have run: "?r \<noteq> None" "at (the ?r) 1 Running" "sp_next_time (ss_procs (gs_shared (the ?r)) ! 1) = Timeval 10 0"
    "vg_time (gs_local (the ?r) ! 1) = Timeval 20 0" "ss_curr_time (gs_shared (the ?r)) = Timeval 20 0"
    by code_simp+
  then show ?thesis using greach_run [OF greach_init, of ?as "Timeval 5 0" "the ?r"] by (intro exI [of _ "the ?r"]) auto
qed

text \<open>
  A thief of time locks the mutex again after its sleep without setting \<open>holds_mutex\<close>. When it then
  leaves, it does not release the mutex, and no other process ever takes a turn.
\<close>
lemma gvirt_thief_loses_mutex:
  "\<exists>sy. greach (Timeval 5 0) sy \<and> vg_pc (gs_local sy ! 0) = Exited \<and> vg_pc (gs_local sy ! 1) = AtMutex (Timeval 10 0) \<and>
     ss_evt_mutex (gs_shared sy) = 0"
proof -
  let ?as = "[Join 11 0, Block 0 (Some (Timeval 10 0)) False, Join 12 0, Block 1 (Some (Timeval 10 0)) False,
    PassBarrier 0, TakeMutex 0, SetPause 0 2, Block 0 (Some (Timeval 20 0)) False, PassBarrier 1,
    Wake 0, TakeMutexAgain 0, Leave 0]"
  let ?r = "grun ?as (ginit (Timeval 5 0))"
  have run: "?r \<noteq> None" "vg_pc (gs_local (the ?r) ! 0) = Exited" "vg_pc (gs_local (the ?r) ! 1) = AtMutex (Timeval 10 0)"
    "ss_evt_mutex (gs_shared (the ?r)) = 0"
    by code_simp+
  then show ?thesis using greach_run [OF greach_init, of ?as "Timeval 5 0" "the ?r"] by (intro exI [of _ "the ?r"]) auto
qed

end
