(* ===== verification/Ipc_Buffer.thy ===== *)
theory Ipc_Buffer
  imports Prelude "HOL-Library.Sublist"
begin

text \<open>
  The growing byte buffer of \<open>ipc.c\<close>, which processes use for the output of their children and
  for data that arrives in pieces: \<open>ipc_append_buffer\<close>, \<open>ipc_printf_buffer\<close>, \<open>ipc_process_buffer\<close>,
  \<open>ipc_write_buffer_sync\<close> and the small operations around them, and the theorem that they
  implement a queue of bytes.

  \<^item> \<open>ib_data\<close> is the allocated block, \<open>None\<close> for \<open>NULL\<close>; bytes never written are 0 here. A
    buffer argument that may be \<open>NULL\<close> is an option.
  \<^item> \<open>alloc n\<close> says whether \<open>malloc\<close> or \<open>realloc\<close> of \<open>n\<close> bytes succeeds. Sizes are \<open>size_t\<close>: the
    subtraction \<open>size_sub\<close> and the doubling wrap at 64 bits.
  \<^item> The result \<open>None\<close> of an operation stands for an access outside the block or for a loop that
    does not end. What \<open>vsnprintf\<close> produces is an argument, as are the results of \<open>write\<close>.
\<close>

record IPCBuffer =
  ib_allocLen :: nat
  ib_dataLen :: nat
  ib_data :: "u8 list option"

section \<open>Operations\<close>

definition ipc_alloc_buffer :: "bool \<Rightarrow> IPCBuffer option" where
  "ipc_alloc_buffer malloc_ok =
     (if malloc_ok then Some \<lparr>ib_allocLen = 0, ib_dataLen = 0, ib_data = None\<rparr> else None)"

definition ipc_reset_buffer :: "IPCBuffer option \<Rightarrow> IPCBuffer option" where
  "ipc_reset_buffer buffer = map_option (\<lambda>b. b\<lparr>ib_dataLen := 0\<rparr>) buffer"

definition ipc_buffer_size :: "IPCBuffer option \<Rightarrow> nat" where
  "ipc_buffer_size buffer = (case buffer of None \<Rightarrow> 0 | Some b \<Rightarrow> ib_dataLen b)"

definition free_room :: "IPCBuffer \<Rightarrow> nat" where
  "free_room b = size_sub (ib_allocLen b) (ib_dataLen b)"

text \<open>The first allocation; \<open>None\<close> is the return with -1.\<close>

definition first_block :: "(nat \<Rightarrow> bool) \<Rightarrow> IPCBuffer \<Rightarrow> bool \<times> IPCBuffer" where
  "first_block alloc b =
     (if ib_data b = None then
        if alloc 1024 then (True, b\<lparr>ib_allocLen := 1024, ib_data := Some (replicate 1024 0)\<rparr>)
        else (False, b\<lparr>ib_allocLen := 1024\<rparr>)
      else (True, b))"

partial_function (option) grow :: "nat \<Rightarrow> nat \<Rightarrow> nat \<Rightarrow> nat option" where
  "grow len allocLen dataLen =
     (if len \<ge> size_sub allocLen dataLen then grow len (2 * allocLen mod 2 ^ 64) dataLen else Some allocLen)"

declare grow.simps [code]

definition resize :: "nat \<Rightarrow> u8 list \<Rightarrow> u8 list" where
  "resize n d = take n d @ replicate (n - length d) 0"

definition grow_block :: "(nat \<Rightarrow> bool) \<Rightarrow> nat \<Rightarrow> IPCBuffer \<Rightarrow> (bool \<times> IPCBuffer) option" where
  "grow_block alloc len b =
     (if len \<ge> free_room b then
        (case grow len (ib_allocLen b) (ib_dataLen b) of
           None \<Rightarrow> None
         | Some n \<Rightarrow>
             if alloc n then Some (True, b\<lparr>ib_allocLen := n, ib_data := map_option (resize n) (ib_data b)\<rparr>)
             else Some (False, b\<lparr>ib_allocLen := 0, ib_data := None\<rparr>))
      else Some (True, b))"

definition write_at :: "nat \<Rightarrow> u8 list \<Rightarrow> u8 list \<Rightarrow> u8 list option" where
  "write_at off bs d =
     (if off + length bs \<le> length d then Some (take off d @ bs @ drop (off + length bs) d) else None)"

definition put_data :: "u8 list \<Rightarrow> IPCBuffer \<Rightarrow> IPCBuffer option" where
  "put_data bs b =
     (case ib_data b of
        None \<Rightarrow> None
      | Some d \<Rightarrow> map_option (\<lambda>d'. b\<lparr>ib_data := Some d'\<rparr>) (write_at (ib_dataLen b) bs d))"

definition ipc_append_buffer :: "(nat \<Rightarrow> bool) \<Rightarrow> IPCBuffer option \<Rightarrow> u8 list \<Rightarrow> int \<Rightarrow> (int \<times> IPCBuffer option) option" where
  "ipc_append_buffer alloc buffer data len =
     (case buffer of
        None \<Rightarrow> Some (0, None)
      | Some b \<Rightarrow>
          if len \<le> 0 then Some (0, Some b)
          else
            let n = nat len; (ok, b1) = first_block alloc b
            in if \<not> ok then Some (-1, Some b1)
               else (case grow_block alloc n b1 of
                  None \<Rightarrow> None
                | Some (False, b2) \<Rightarrow> Some (-1, Some b2)
                | Some (True, b2) \<Rightarrow>
                    if n \<ge> free_room b2 then Some (-1, Some b2)
                    else if length data < n then None
                    else (case put_data (take n data) b2 of
                       None \<Rightarrow> None
                     | Some b3 \<Rightarrow> Some (len, Some (b3\<lparr>ib_dataLen := ib_dataLen b3 + n\<rparr>)))))"

text \<open>
  \<open>vsnprintf\<close> with room for \<open>sz\<close> bytes writes the text cut to \<open>sz - 1\<close> bytes and a terminator,
  and returns the length of the whole text, or a negative value (\<open>None\<close> for the text).
\<close>

definition vsnprintf_text :: "nat \<Rightarrow> u8 list \<Rightarrow> u8 list" where
  "vsnprintf_text sz txt = (if sz = 0 then [] else take (sz - 1) txt @ [0])"

definition ipc_printf_buffer :: "(nat \<Rightarrow> bool) \<Rightarrow> IPCBuffer option \<Rightarrow> u8 list option \<Rightarrow> (int \<times> IPCBuffer option) option" where
  "ipc_printf_buffer alloc buffer output =
     (case buffer of
        None \<Rightarrow> Some (0, None)
      | Some b \<Rightarrow>
          let (ok, b1) = first_block alloc b
          in if \<not> ok then Some (-1, Some b1)
             else (case output of
                None \<Rightarrow> Some (-1, Some b1)
              | Some text \<Rightarrow>
                  (case put_data (vsnprintf_text (free_room b1) text) b1 of
                     None \<Rightarrow> None
                   | Some b2 \<Rightarrow>
                       if text = [] then Some (0, Some b2)
                       else if length text \<ge> free_room b2 then
                         (case grow_block alloc (length text) b2 of
                            None \<Rightarrow> None
                          | Some (False, b3) \<Rightarrow> Some (-1, Some b3)
                          | Some (True, b3) \<Rightarrow>
                              (case put_data (vsnprintf_text (free_room b3) text) b3 of
                                 None \<Rightarrow> None
                               | Some b4 \<Rightarrow>
                                   if length text \<ge> free_room b4 then Some (-1, Some b4)
                                   else Some (int (length text), Some (b4\<lparr>ib_dataLen := ib_dataLen b4 + length text\<rparr>))))
                       else Some (int (length text), Some (b2\<lparr>ib_dataLen := ib_dataLen b2 + length text\<rparr>)))))"

text \<open>
  The callback of \<open>ipc_process_buffer\<close> sees the unread data and returns how many bytes it consumed;
  consuming more than there is leaves the block.
\<close>

partial_function (option) process_loop :: "(u8 list \<Rightarrow> 'a \<Rightarrow> nat \<times> 'a) \<Rightarrow> u8 list \<Rightarrow> nat \<Rightarrow> 'a \<Rightarrow> (nat \<times> 'a) option" where
  "process_loop cb data consumed arg =
     (if length data < consumed then None
      else
        let (len, arg') = cb (drop consumed data) arg
        in if len > 0 then process_loop cb data (consumed + len) arg' else Some (consumed, arg'))"

declare process_loop.simps [code]

definition ipc_process_buffer ::
  "IPCBuffer option \<Rightarrow> (u8 list \<Rightarrow> 'a \<Rightarrow> nat \<times> 'a) option \<Rightarrow> 'a \<Rightarrow> (nat \<times> 'a \<times> IPCBuffer option) option" where
  "ipc_process_buffer buffer cb arg =
     (case (buffer, cb) of
        (Some b, Some f) \<Rightarrow>
          (case ib_data b of
             None \<Rightarrow> Some (0, arg, buffer)
           | Some d \<Rightarrow>
               if ib_dataLen b = 0 then Some (0, arg, buffer)
               else (case process_loop f (take (ib_dataLen b) d) 0 arg of
                  None \<Rightarrow> None
                | Some (consumed, arg') \<Rightarrow>
                    if consumed > 0 then
                      if consumed = ib_dataLen b then Some (consumed, arg', ipc_reset_buffer buffer)
                      else
                        let rest = ib_dataLen b - consumed
                        in Some (consumed, arg',
                             Some (b\<lparr>ib_data := Some (take rest (drop consumed d) @ drop rest d), ib_dataLen := rest\<rparr>))
                    else Some (consumed, arg', buffer)))
      | _ \<Rightarrow> Some (0, arg, buffer))"

text \<open>
  The results of the successive calls of \<open>write\<close>: a count of bytes, 0 included, or a failure with
  \<open>EAGAIN\<close> or without. A list too short is a run that has not ended.
\<close>

datatype write_result = Written nat | Again | Failed

fun write_loop :: "write_result list \<Rightarrow> u8 list \<Rightarrow> u8 list \<Rightarrow> (int \<times> u8 list) option" where
  "write_loop rs sent [] = Some (0, sent)"
| "write_loop [] sent data = None"
| "write_loop (Written k # rs) sent data = write_loop rs (sent @ take k data) (drop k data)"
| "write_loop (Again # rs) sent data = write_loop rs sent data"
| "write_loop (Failed # rs) sent data = Some (-1, sent)"

definition ipc_write_buffer_sync :: "write_result list \<Rightarrow> IPCBuffer option \<Rightarrow> (int \<times> u8 list) option" where
  "ipc_write_buffer_sync rs buffer =
     (case buffer of
        None \<Rightarrow> Some (0, [])
      | Some b \<Rightarrow>
          (case ib_data b of
             None \<Rightarrow> Some (0, [])
           | Some d \<Rightarrow> if ib_dataLen b = 0 then Some (0, []) else write_loop rs [] (take (ib_dataLen b) d)))"

section \<open>A queue of bytes\<close>

locale byte_queue =
  fixes content :: "'b \<Rightarrow> u8 list"
    and ok :: "'b \<Rightarrow> bool"
    and append :: "'b \<Rightarrow> u8 list \<Rightarrow> 'b option"
    and limit :: nat
  assumes append_ok:
    "ok b \<Longrightarrow> length (content b) + length xs < limit \<Longrightarrow> \<exists>b'. append b xs = Some b' \<and> ok b' \<and> content b' = content b @ xs"
begin

primrec appends :: "'b \<Rightarrow> u8 list list \<Rightarrow> 'b option" where
  "appends b [] = Some b"
| "appends b (xs # xss) = (case append b xs of None \<Rightarrow> None | Some b' \<Rightarrow> appends b' xss)"

lemma appends_content:
  "ok b \<Longrightarrow> length (content b) + length (concat xss) < limit \<Longrightarrow>
   \<exists>b'. appends b xss = Some b' \<and> ok b' \<and> content b' = content b @ concat xss"
proof (induction xss arbitrary: b)
  case (Cons xs xss)
  obtain b1 where b1: "append b xs = Some b1" "ok b1" "content b1 = content b @ xs"
    using append_ok [OF Cons.prems(1), of xs] Cons.prems(2) by auto
  then show ?case using Cons.IH [OF b1(2)] Cons.prems(2) by (simp add: algebra_simps)
qed simp

end

definition buf_content :: "IPCBuffer \<Rightarrow> u8 list" where
  "buf_content b = (case ib_data b of None \<Rightarrow> [] | Some d \<Rightarrow> take (ib_dataLen b) d)"

definition buf_ok :: "IPCBuffer \<Rightarrow> bool" where
  "buf_ok b \<longleftrightarrow>
     (case ib_data b of
        None \<Rightarrow> ib_dataLen b = 0
      | Some d \<Rightarrow> length d = ib_allocLen b \<and> ib_dataLen b < ib_allocLen b \<and> ib_allocLen b < 2 ^ 63)"

lemma grow_enough:
  assumes "0 < a" "dl < a" "a < 2 ^ 63" "dl + len < 2 ^ 62"
  shows "\<exists>n. grow len a dl = Some n \<and> a \<le> n \<and> dl + len < n \<and> n < 2 ^ 63"
  using assms
proof (induction "2 ^ 63 - a" arbitrary: a rule: less_induct)
  case less
  have s: "size_sub a dl = a - dl" using less.prems by (intro size_sub_le) auto
  show ?case
  proof (cases "len \<ge> a - dl")
    case True
    then have "a < 2 ^ 62" using less.prems by linarith
    then have "2 * a mod 2 ^ 64 = 2 * a" "2 * a < 2 ^ 63" by auto
    moreover have "2 ^ 63 - 2 * a < 2 ^ 63 - a"
      using \<open>a < 2 ^ 62\<close> less.prems(1) by (intro diff_less_mono2) auto
    ultimately obtain n where "grow len (2 * a) dl = Some n" "2 * a \<le> n" "dl + len < n" "n < 2 ^ 63"
      using less.hyps [of "2 * a"] less.prems by auto
    then show ?thesis using True s \<open>2 * a mod 2 ^ 64 = 2 * a\<close> by (subst grow.simps) auto
  next
    case False
    then show ?thesis using less.prems s by (subst grow.simps) auto
  qed
qed

lemma length_resize [simp]: "length (resize n d) = n"
  by (simp add: resize_def)

lemma take_resize: "k \<le> length d \<Longrightarrow> k \<le> n \<Longrightarrow> take k (resize n d) = take k d"
  by (simp add: resize_def min_def)

lemma first_block_ok:
  assumes "buf_ok b" "alloc 1024"
  shows "\<exists>b' d. first_block alloc b = (True, b') \<and> ib_data b' = Some d \<and> buf_ok b' \<and> buf_content b' = buf_content b"
  using assms by (cases "ib_data b") (auto simp: first_block_def buf_ok_def buf_content_def)

lemma room_ok: "buf_ok b \<Longrightarrow> ib_data b = Some d \<Longrightarrow> free_room b = ib_allocLen b - ib_dataLen b"
  by (auto simp: buf_ok_def free_room_def intro!: size_sub_le)

lemma grow_block_ok:
  assumes ok: "buf_ok b" and d: "ib_data b = Some d" and al: "\<forall>n. alloc n" and l: "ib_dataLen b + len < 2 ^ 62"
  shows "\<exists>b' d'. grow_block alloc len b = Some (True, b') \<and> ib_data b' = Some d' \<and> buf_ok b' \<and>
    ib_dataLen b' = ib_dataLen b \<and> buf_content b' = buf_content b \<and> len < ib_allocLen b' - ib_dataLen b"
proof (cases "len \<ge> free_room b")
  case True
  have a: "ib_dataLen b < ib_allocLen b" "ib_allocLen b < 2 ^ 63" "length d = ib_allocLen b" using ok d by (auto simp: buf_ok_def)
  obtain n where "grow len (ib_allocLen b) (ib_dataLen b) = Some n" "ib_allocLen b \<le> n" "ib_dataLen b + len < n" "n < 2 ^ 63"
    using grow_enough [of "ib_allocLen b" "ib_dataLen b" len] a l by auto
  then show ?thesis
    using True d al a by (auto simp: grow_block_def buf_ok_def buf_content_def take_resize)
next
  case False
  then show ?thesis using ok d room_ok [OF ok d] by (auto simp: grow_block_def)
qed

lemma put_data_ok:
  assumes "buf_ok b" "ib_data b = Some d" "length bs \<le> ib_allocLen b - ib_dataLen b"
  shows "\<exists>b' d'. put_data bs b = Some b' \<and> ib_data b' = Some d' \<and> length d' = length d \<and>
    ib_dataLen b' = ib_dataLen b \<and> ib_allocLen b' = ib_allocLen b \<and> take (ib_dataLen b + length bs) d' = buf_content b @ bs"
  using assms by (auto simp: put_data_def write_at_def buf_ok_def buf_content_def)

text \<open>Counting bytes just written in front of the end of the block as data.\<close>

lemma extend_ok:
  assumes "length d = ib_allocLen b" "ib_data b = Some d" "ib_dataLen b + k < ib_allocLen b" "ib_allocLen b < 2 ^ 63"
    "take (ib_dataLen b + k) d = c"
  shows "buf_ok (b\<lparr>ib_dataLen := ib_dataLen b + k\<rparr>) \<and> buf_content (b\<lparr>ib_dataLen := ib_dataLen b + k\<rparr>) = c"
  using assms by (simp add: buf_ok_def buf_content_def)

lemma length_content: "buf_ok b \<Longrightarrow> length (buf_content b) = ib_dataLen b"
  by (auto simp: buf_ok_def buf_content_def split: option.splits)

lemma append_buffer_ok:
  assumes ok: "buf_ok b" and al: "\<forall>n. alloc n" and l: "length (buf_content b) + length xs < 2 ^ 62"
  shows "\<exists>b'. ipc_append_buffer alloc (Some b) xs (int (length xs)) = Some (int (length xs), Some b') \<and>
    buf_ok b' \<and> buf_content b' = buf_content b @ xs"
proof (cases "xs = []")
  case True
  then show ?thesis using ok by (simp add: ipc_append_buffer_def)
next
  case False
  obtain b1 d1 where b1: "first_block alloc b = (True, b1)" "ib_data b1 = Some d1" "buf_ok b1" "buf_content b1 = buf_content b"
    using first_block_ok [OF ok] al by blast
  have l1: "ib_dataLen b1 + length xs < 2 ^ 62" using l length_content [OF b1(3)] b1(4) by simp
  obtain b2 d2 where b2: "grow_block alloc (length xs) b1 = Some (True, b2)" "ib_data b2 = Some d2" "buf_ok b2"
      "ib_dataLen b2 = ib_dataLen b1" "buf_content b2 = buf_content b1" "length xs < ib_allocLen b2 - ib_dataLen b1"
    using grow_block_ok [OF b1(3,2) al l1] by blast
  obtain b3 d3 where b3: "put_data xs b2 = Some b3" "ib_data b3 = Some d3" "length d3 = length d2"
      "ib_dataLen b3 = ib_dataLen b2" "ib_allocLen b3 = ib_allocLen b2" "take (ib_dataLen b2 + length xs) d3 = buf_content b2 @ xs"
    using put_data_ok [OF b2(3,2), of xs] b2(4,6) by auto
  have "buf_ok (b3\<lparr>ib_dataLen := ib_dataLen b3 + length xs\<rparr>) \<and>
      buf_content (b3\<lparr>ib_dataLen := ib_dataLen b3 + length xs\<rparr>) = buf_content b @ xs"
    using b1(4) b2 b3 by (intro extend_ok [of d3]) (auto simp: buf_ok_def)
  moreover have "free_room b2 = ib_allocLen b2 - ib_dataLen b2" by (rule room_ok [OF b2(3,2)])
  ultimately show ?thesis
    using False b1(1) b2 b3(1) by (simp add: ipc_append_buffer_def Let_def)
qed

lemma vsnprintf_put:
  assumes ok: "buf_ok b" and d: "ib_data b = Some d"
  shows "\<exists>b' d'. put_data (vsnprintf_text (free_room b) xs) b = Some b' \<and> ib_data b' = Some d' \<and> buf_ok b' \<and>
    ib_dataLen b' = ib_dataLen b \<and> ib_allocLen b' = ib_allocLen b \<and> buf_content b' = buf_content b \<and>
    (length xs < free_room b \<longrightarrow> take (ib_dataLen b + length xs) d' = buf_content b @ xs)"
proof -
  let ?v = "vsnprintf_text (free_room b) xs"
  have r: "free_room b = ib_allocLen b - ib_dataLen b" "0 < free_room b" using room_ok [OF ok d] ok d by (auto simp: buf_ok_def)
  have lv: "length ?v \<le> ib_allocLen b - ib_dataLen b" using r by (auto simp: vsnprintf_text_def)
  obtain b' d' where b': "put_data ?v b = Some b'" "ib_data b' = Some d'" "length d' = length d"
      "ib_dataLen b' = ib_dataLen b" "ib_allocLen b' = ib_allocLen b" "take (ib_dataLen b + length ?v) d' = buf_content b @ ?v"
    using put_data_ok [OF ok d lv] by blast
  have lc: "length (buf_content b) = ib_dataLen b" by (rule length_content [OF ok])
  have tk: "take k d' = take k (buf_content b @ ?v)" if "k \<le> ib_dataLen b + length ?v" for k
    using b'(6) that by (metis min.absorb1 take_take)
  have "take (ib_dataLen b) d' = buf_content b" using tk [of "ib_dataLen b"] lc by simp
  moreover have "take (ib_dataLen b + length xs) d' = buf_content b @ xs" if "length xs < free_room b"
    using tk [of "ib_dataLen b + length xs"] lc that by (simp add: vsnprintf_text_def)
  ultimately show ?thesis
    using b' ok d by (intro exI [of _ b'] exI [of _ d']) (auto simp: buf_ok_def buf_content_def)
qed

lemma printf_buffer_ok:
  assumes ok: "buf_ok b" and al: "\<forall>n. alloc n" and l: "length (buf_content b) + length xs < 2 ^ 62"
  shows "\<exists>b'. ipc_printf_buffer alloc (Some b) (Some xs) = Some (int (length xs), Some b') \<and>
    buf_ok b' \<and> buf_content b' = buf_content b @ xs"
proof -
  obtain b1 d1 where b1: "first_block alloc b = (True, b1)" "ib_data b1 = Some d1" "buf_ok b1" "buf_content b1 = buf_content b"
    using first_block_ok [OF ok] al by blast
  obtain b2 d2 where b2: "put_data (vsnprintf_text (free_room b1) xs) b1 = Some b2" "ib_data b2 = Some d2" "buf_ok b2"
      "ib_dataLen b2 = ib_dataLen b1" "ib_allocLen b2 = ib_allocLen b1" "buf_content b2 = buf_content b1"
      "length xs < free_room b1 \<longrightarrow> take (ib_dataLen b1 + length xs) d2 = buf_content b1 @ xs"
    using vsnprintf_put [OF b1(3,2)] by blast
  have l2: "ib_dataLen b2 + length xs < 2 ^ 62" using l length_content [OF b2(3)] b1(4) b2(6) by simp
  have fin: "buf_ok (c\<lparr>ib_dataLen := ib_dataLen c + length xs\<rparr>) \<and>
      buf_content (c\<lparr>ib_dataLen := ib_dataLen c + length xs\<rparr>) = buf_content b @ xs"
    if "buf_ok c" "ib_data c = Some e" "length xs < free_room c" "take (ib_dataLen c + length xs) e = buf_content b @ xs" for c e
    using that room_ok [OF that(1,2)] by (intro extend_ok [of e]) (auto simp: buf_ok_def)
  have r2: "free_room b2 = free_room b1" using b2(4,5) by (simp add: free_room_def)
  consider "xs = []" | "xs \<noteq> []" "length xs < free_room b2" | "xs \<noteq> []" "free_room b2 \<le> length xs" by linarith
  then show ?thesis
  proof cases
    case 1
    then show ?thesis using b1 b2 by (simp add: ipc_printf_buffer_def)
  next
    case 2
    then show ?thesis
      using fin [OF b2(3,2)] b1 b2 r2 by (simp add: ipc_printf_buffer_def)
  next
    case 3
    obtain b3 d3 where b3: "grow_block alloc (length xs) b2 = Some (True, b3)" "ib_data b3 = Some d3" "buf_ok b3"
        "ib_dataLen b3 = ib_dataLen b2" "buf_content b3 = buf_content b2" "length xs < ib_allocLen b3 - ib_dataLen b2"
      using grow_block_ok [OF b2(3,2) al l2] by blast
    obtain b4 d4 where b4: "put_data (vsnprintf_text (free_room b3) xs) b3 = Some b4" "ib_data b4 = Some d4" "buf_ok b4"
        "ib_dataLen b4 = ib_dataLen b3" "ib_allocLen b4 = ib_allocLen b3" "buf_content b4 = buf_content b3"
        "length xs < free_room b3 \<longrightarrow> take (ib_dataLen b3 + length xs) d4 = buf_content b3 @ xs"
      using vsnprintf_put [OF b3(3,2)] by blast
    have r: "length xs < free_room b3" "free_room b4 = free_room b3" using room_ok [OF b3(3,2)] b3(4,6) b4(4,5) by (auto simp: free_room_def)
    have "buf_content b3 = buf_content b" using b1(4) b2(6) b3(5) by simp
    then show ?thesis
      using 3 fin [OF b4(3,2)] b1(1) b2(1) b3(1) b4 r by (simp add: ipc_printf_buffer_def)
  qed
qed

definition append_all :: "IPCBuffer \<Rightarrow> u8 list \<Rightarrow> IPCBuffer option" where
  "append_all b xs =
     (case ipc_append_buffer (\<lambda>_. True) (Some b) xs (int (length xs)) of Some (_, r) \<Rightarrow> r | None \<Rightarrow> None)"

interpretation ipc_queue: byte_queue buf_content buf_ok append_all "2 ^ 62"
proof
  fix b and xs :: "u8 list"
  assume "buf_ok b" "length (buf_content b) + length xs < 2 ^ 62"
  then show "\<exists>b'. append_all b xs = Some b' \<and> buf_ok b' \<and> buf_content b' = buf_content b @ xs"
    using append_buffer_ok [of b "\<lambda>_. True" xs] by (auto simp: append_all_def)
qed

definition consumer :: "(u8 list \<Rightarrow> 'a \<Rightarrow> nat \<times> 'a) \<Rightarrow> bool" where
  "consumer cb \<longleftrightarrow> (\<forall>d a. fst (cb d a) \<le> length d)"

lemma process_loop_returns:
  assumes "consumer cb" "c \<le> length data"
  shows "\<exists>c' a'. process_loop cb data c a = Some (c', a') \<and> c \<le> c' \<and> c' \<le> length data"
  using assms(2)
proof (induction "length data - c" arbitrary: c a rule: less_induct)
  case less
  obtain n a1 where cb: "cb (drop c data) a = (n, a1)" by fastforce
  have n: "n \<le> length data - c" using assms(1) cb by (metis consumer_def fst_conv length_drop)
  show ?case
  proof (cases "n = 0")
    case True
    then show ?thesis using less.prems cb by (subst process_loop.simps) auto
  next
    case False
    then have "length data - (c + n) < length data - c" "c + n \<le> length data" using less.prems n by auto
    then obtain c' a' where "process_loop cb data (c + n) a1 = Some (c', a')" "c + n \<le> c'" "c' \<le> length data"
      using less.hyps by blast
    then show ?thesis using False less.prems cb by (subst process_loop.simps) auto
  qed
qed

lemma process_buffer_eq:
  assumes ok: "buf_ok b" and ne: "buf_content b \<noteq> []" and c: "process_loop cb (buf_content b) 0 a = Some (c, a')" "c \<le> length (buf_content b)"
  shows "\<exists>b'. ipc_process_buffer (Some b) (Some cb) a = Some (c, a', Some b') \<and> buf_ok b' \<and> buf_content b' = drop c (buf_content b)"
proof -
  obtain d where d: "ib_data b = Some d" "buf_content b = take (ib_dataLen b) d" "0 < ib_dataLen b"
    using ne by (auto simp: buf_content_def split: option.splits)
  have dl: "length d = ib_allocLen b" "ib_dataLen b < ib_allocLen b" using ok d by (auto simp: buf_ok_def)
  have l: "process_loop cb (take (ib_dataLen b) d) 0 a = Some (c, a')" "c \<le> ib_dataLen b" using c d(2) dl by auto
  consider "c = 0" | "c = ib_dataLen b" "c > 0" | "0 < c" "c < ib_dataLen b" using l(2) by linarith
  then show ?thesis
  proof cases
    case 3
    let ?b = "b\<lparr>ib_data := Some (take (ib_dataLen b - c) (drop c d) @ drop (ib_dataLen b - c) d), ib_dataLen := ib_dataLen b - c\<rparr>"
    have "ipc_process_buffer (Some b) (Some cb) a = Some (c, a', Some ?b)"
      using 3 d l(1) by (simp add: ipc_process_buffer_def Let_def)
    moreover have "buf_ok ?b" "buf_content ?b = drop c (buf_content b)"
      using ok d dl 3 by (auto simp: buf_ok_def buf_content_def drop_take min_def)
    ultimately show ?thesis by blast
  qed (use d l ok length_content [OF ok] in \<open>auto simp: ipc_process_buffer_def ipc_reset_buffer_def buf_ok_def buf_content_def\<close>)
qed

lemma process_buffer_empty:
  "buf_content b = [] \<Longrightarrow> buf_ok b \<Longrightarrow> ipc_process_buffer (Some b) (Some cb) a = Some (0, a, Some b)"
  using length_content [of b] by (auto simp: ipc_process_buffer_def buf_content_def split: option.splits)

lemma process_loop_inv:
  "process_loop cb data c a = Some r \<Longrightarrow> (\<And>d x. P x \<Longrightarrow> P (snd (cb d x))) \<Longrightarrow> P a \<Longrightarrow> P (snd r)"
proof (induction cb data c a r rule: process_loop.raw_induct [rotated, consumes 1, case_names 1])
  case (1 process_loop' cb data c a r)
  obtain n a1 where cb: "cb (drop c data) a = (n, a1)" by fastforce
  have a1: "P a1" using 1(3) [OF 1(4), of "drop c data"] cb by simp
  show ?case
  proof (cases "n > 0")
    case True
    then have "process_loop' cb data (c + n) a1 = Some r" using 1(2) cb by (simp split: if_splits)
    then show ?thesis by (rule 1(1)) (use 1(3) a1 in auto)
  next
    case False
    then show ?thesis using 1(2) cb a1 by (auto split: if_splits)
  qed
qed

lemma process_buffer_inv:
  assumes "ipc_process_buffer (Some b) (Some cb) a = Some (n, a', b')" "P a" "\<And>d x. P x \<Longrightarrow> P (snd (cb d x))"
  shows "P a'"
  using assms(1,2) process_loop_inv [of cb _ 0 a "(n, a')" P] assms(3)
  by (auto simp: ipc_process_buffer_def Let_def split: option.splits if_splits)

lemma process_buffer_ok:
  assumes ok: "buf_ok b" and cb: "consumer cb"
  shows "\<exists>c a' b'. ipc_process_buffer (Some b) (Some cb) a = Some (c, a', Some b') \<and> buf_ok b' \<and>
    c \<le> length (buf_content b) \<and> buf_content b' = drop c (buf_content b)"
proof (cases "buf_content b = []")
  case True
  then show ?thesis using process_buffer_empty [OF True ok, of cb a] ok by simp
next
  case False
  obtain c a' where c: "process_loop cb (buf_content b) 0 a = Some (c, a')" "c \<le> length (buf_content b)"
    using process_loop_returns [OF cb, of 0 "buf_content b" a] by auto
  then show ?thesis using process_buffer_eq [OF ok False c] by auto
qed



section \<open>Data that arrives in pieces\<close>

text \<open>
  What a callback of \<open>ipc_process_buffer\<close> promises when the bytes it is shown are a sequence of units:
  it consumes a unit that is complete, whatever follows it, and waits, without any effect, for one
  that is not. \<open>unit_step a u a' es\<close> says that \<open>u\<close> is a unit in the state \<open>a\<close>, leads to \<open>a'\<close> and has the effects \<open>es\<close>.
\<close>

locale framed_stream =
  fixes cb :: "u8 list \<Rightarrow> 'a \<times> 'e list \<Rightarrow> nat \<times> ('a \<times> 'e list)"
    and unit_step :: "'a \<Rightarrow> u8 list \<Rightarrow> 'a \<Rightarrow> 'e list \<Rightarrow> bool"
  assumes complete: "unit_step a u a' es \<Longrightarrow> cb (u @ rest) (a, fs) = (length u, (a', fs @ es))"
    and partial: "unit_step a u a' es \<Longrightarrow> k < length u \<Longrightarrow> cb (take k u) (a, fs) = (0, (a, fs))"
    and idle: "cb [] (a, fs) = (0, (a, fs))"
    and progress: "unit_step a u a' es \<Longrightarrow> u \<noteq> []"
begin

inductive steps :: "'a \<Rightarrow> u8 list list \<Rightarrow> 'a \<Rightarrow> 'e list \<Rightarrow> bool" where
  steps_Nil: "steps a [] a []"
| steps_Cons: "unit_step a u a1 es \<Longrightarrow> steps a1 us a2 fs \<Longrightarrow> steps a (u # us) a2 (es @ fs)"

inductive_cases steps_ConsE: "steps a (u # us) a2 es"
inductive_cases steps_NilE: "steps a [] a2 es"

definition waits :: "u8 list \<Rightarrow> u8 list list \<Rightarrow> bool" where
  "waits r us \<longleftrightarrow> prefix r (concat us) \<and> (us = [] \<or> length r < length (hd us))"

lemma process_units:
  assumes "steps a us a_end es" "prefix (drop c data) (concat us)" "c \<le> length data"
  shows "\<exists>us1 us2 a1 es1 es2. us = us1 @ us2 \<and> steps a1 us2 a_end es2 \<and> es = es1 @ es2 \<and>
    drop c data = concat us1 @ drop (c + length (concat us1)) data \<and> c + length (concat us1) \<le> length data \<and>
    process_loop cb data c (a, fs) = Some (c + length (concat us1), (a1, fs @ es1)) \<and>
    waits (drop (c + length (concat us1)) data) us2"
  using assms
proof (induction us arbitrary: a c es fs)
  case Nil
  then have "process_loop cb data c (a, fs) = Some (c, (a, fs))" by (subst process_loop.simps) (simp add: idle)
  then show ?case
    using Nil by (intro exI [of _ "[]"]) (auto simp: waits_def elim!: steps_NilE intro: steps_Nil)
next
  case (Cons u us)
  obtain a1 e1 e2 where u: "unit_step a u a1 e1" "steps a1 us a_end e2" "es = e1 @ e2"
    using Cons.prems(1) by (auto elim: steps_ConsE)
  let ?d = "drop c data"
  show ?case
  proof (cases "length ?d < length u")
    case True
    then have "?d = take (length ?d) u" using Cons.prems(2) by (auto simp: prefix_def append_eq_append_conv_if)
    then have "process_loop cb data c (a, fs) = Some (c, (a, fs))"
      using partial [OF u(1) True, of fs] Cons.prems(3) by (subst process_loop.simps) (simp del: length_drop)
    then show ?thesis
      using Cons.prems True
      by - (rule exI [of _ "[]"], rule exI [of _ "u # us"], rule exI [of _ a], rule exI [of _ "[]"], rule exI [of _ es], simp add: waits_def)
  next
    case False
    then have "take (length u) ?d = u" using Cons.prems(2) by (auto simp: prefix_def append_eq_append_conv_if)
    then obtain r where r: "?d = u @ r" by (metis append_take_drop_id)
    then have pr: "prefix r (concat us)" using Cons.prems(2) by simp
    have "length data - c = length u + length r" by (metis r length_append length_drop)
    moreover have "drop (length u) ?d = r" using r by simp
    ultimately have c1: "c + length u \<le> length data" "drop (c + length u) data = r"
      using Cons.prems(3) by (auto simp: add.commute)
    have lp: "process_loop cb data c (a, fs) = process_loop cb data (c + length u) (a1, fs @ e1)"
      using complete [OF u(1), of r fs] r progress [OF u(1)] Cons.prems(3) by (subst process_loop.simps) simp
    obtain us1 us2 a2 es1 es2 where x: "us = us1 @ us2" "steps a2 us2 a_end es2" "e2 = es1 @ es2"
        "r = concat us1 @ drop (c + length u + length (concat us1)) data" "c + length u + length (concat us1) \<le> length data"
        "process_loop cb data (c + length u) (a1, fs @ e1) = Some (c + length u + length (concat us1), (a2, (fs @ e1) @ es1))"
        "waits (drop (c + length u + length (concat us1)) data) us2"
      using Cons.IH [OF u(2), of "c + length u" "fs @ e1"] c1 pr by auto
    show ?thesis
      by (rule exI [of _ "u # us1"], rule exI [of _ us2], rule exI [of _ a2], rule exI [of _ "e1 @ es1"], rule exI [of _ es2])
        (use x u(3) lp r in \<open>simp add: add.assoc\<close>)
  qed
qed

text \<open>One more piece: the buffer keeps the beginning of the next unit, and the units completed have had their effects.\<close>

lemma append_process:
  assumes ok: "buf_ok b" and al: "\<forall>n. alloc n" and l: "length (buf_content b) + length x < 2 ^ 62"
    and st: "steps a us a_end es" and p: "buf_content b @ x @ rest = concat us" and x: "x \<noteq> []"
  shows "\<exists>b1 us1 us2 n a1 es1 es2 b2. ipc_append_buffer alloc (Some b) x (int (length x)) = Some (int (length x), Some b1) \<and>
    ipc_process_buffer (Some b1) (Some cb) (a, fs) = Some (n, (a1, fs @ es1), Some b2) \<and>
    us = us1 @ us2 \<and> es = es1 @ es2 \<and> steps a1 us2 a_end es2 \<and> buf_ok b2 \<and> buf_content b2 @ rest = concat us2 \<and> waits (buf_content b2) us2"
proof -
  obtain b1 where b1: "ipc_append_buffer alloc (Some b) x (int (length x)) = Some (int (length x), Some b1)" "buf_ok b1"
      "buf_content b1 = buf_content b @ x"
    using append_buffer_ok [OF ok al l] by blast
  have pre: "prefix (drop 0 (buf_content b1)) (concat us)" using p b1(3) by (metis append.assoc drop0 prefixI)
  obtain us1 us2 a1 es1 es2 where u: "us = us1 @ us2" "steps a1 us2 a_end es2" "es = es1 @ es2"
      "buf_content b1 = concat us1 @ drop (length (concat us1)) (buf_content b1)" "length (concat us1) \<le> length (buf_content b1)"
      "process_loop cb (buf_content b1) 0 (a, fs) = Some (length (concat us1), (a1, fs @ es1))"
      "waits (drop (length (concat us1)) (buf_content b1)) us2"
    using process_units [OF st pre, of fs] by auto
  obtain b2 where b2: "ipc_process_buffer (Some b1) (Some cb) (a, fs) = Some (length (concat us1), (a1, fs @ es1), Some b2)" "buf_ok b2"
      "buf_content b2 = drop (length (concat us1)) (buf_content b1)"
    using process_buffer_eq [OF b1(2) _ u(6,5)] b1(3) x by auto
  have "concat us1 @ buf_content b2 @ rest = concat us1 @ concat us2"
    using p b1(3) u(1,4) b2(3) by (metis append.assoc concat_append)
  then show ?thesis using b1 b2 u by auto
qed

end

text \<open>Any sequence of appends stores the concatenation.\<close>

lemma ipc_appends_concat:
  "length (concat xss) < 2 ^ 62 \<Longrightarrow>
   \<exists>b. ipc_queue.appends \<lparr>ib_allocLen = 0, ib_dataLen = 0, ib_data = None\<rparr> xss = Some b \<and> buf_content b = concat xss"
  using ipc_queue.appends_content [of "\<lparr>ib_allocLen = 0, ib_dataLen = 0, ib_data = None\<rparr>" xss]
  by (auto simp: buf_ok_def buf_content_def)

lemma write_loop_sends:
  "write_loop rs sent data = Some (rc, out) \<Longrightarrow> (rc = 0 \<and> out = sent @ data) \<or> (rc = -1 \<and> (\<exists>k. out = sent @ take k data))"
proof (induction rs sent data rule: write_loop.induct)
  case (3 k rs sent v va)
  let ?d = "v # va"
  from 3 consider "rc = 0" "out = (sent @ take k ?d) @ drop k ?d" | j where "rc = -1" "out = (sent @ take k ?d) @ take j (drop k ?d)"
    by auto
  then show ?case
  proof cases
    case 1
    then show ?thesis by (simp only: append.assoc append_take_drop_id) simp
  next
    case (2 j)
    then have "out = sent @ take (k + j) ?d" by (simp only: take_add append.assoc)
    then show ?thesis using 2(1) by blast
  qed
next
  case (5 rs sent v va)
  then show ?case by (auto intro: exI [of _ 0])
qed auto

text \<open>
  After \<open>realloc\<close> has failed, the buffer has no block but still counts its old data; the next append
  allocates 1024 bytes, computes the room left with a subtraction that wraps, and writes past the block.
\<close>
lemma append_after_failed_realloc:
  "ipc_append_buffer (\<lambda>_. True) (Some \<lparr>ib_allocLen = 0, ib_dataLen = 2000, ib_data = None\<rparr>) [1, 2, 3] 3 = None"
  by (simp add: ipc_append_buffer_def first_block_def grow_block_def free_room_def size_sub_def put_data_def write_at_def)

end
