(* ===== verification/Commands.thy ===== *)
theory Commands
  imports Registry Packets
begin

text \<open>
  Commands between processes: the dispatch of received packets, the table of pending responses,
  multicast listeners, the walk over the structures of a response (\<open>cmd.c\<close>), and the sending
  side of \<open>ipc.c\<close> (\<open>IPC_command\<close>, \<open>IPC_response\<close>, \<open>IPC_error\<close>).

  \<^item> What an operation does outside its own tables is a list of \<open>effect\<close>s in the order of
    the calls: callbacks called, packets sent, events added and removed. The state a
    callback leaves is that of the next operation; no operation here reads its tables after a callback
    it has called, except the loop of \<open>multicast_cmd_handler_cb\<close>.
  \<^item> \<open>None\<close> as a result is an access outside an object. \<open>alloc\<close> says for which sizes \<open>malloc\<close>
    succeeds; nodes of a fixed size are taken to be allocated, which the code does not check.
  \<^item> The packet buffer of a handler is the argument \<open>data\<close>, its content after \<open>socket_read\<close>, whose
    result is \<open>rc\<close>; it becomes a \<open>size_t\<close>, so a failure (-1) is a length of \<open>2 ^ 64 - 1\<close>.
    A variable read before it is set is an argument (\<open>junk\<close>).
\<close>

section \<open>State\<close>

record sockaddr =
  sa_addr :: "nat list"
  sa_port :: nat

record Command =
  cd_cb :: ptr
  cd_uid :: u32
  cd_group :: u32
  cd_prot :: u32

record MulticastCommand =
  mc_cmdNum :: int
  mc_callback :: ptr
  mc_param :: ptr

record McastCommandState =
  ms_srcAddr :: "nat list"
  ms_port :: nat
  ms_fd :: int
  ms_cmds :: "MulticastCommand list"

datatype IPC_CB_TYPE = IPC_CB_TYPE_RAW | IPC_CB_TYPE_COOKED

record CMDResponseCb =
  rp_node :: ptr
  rp_id :: u32
  rp_host :: sockaddr
  rp_cb :: ptr
  rp_arg :: ptr
  rp_cb_type :: IPC_CB_TYPE
  rp_to_evt :: "ptr option"

record CommandCbArg =
  ca_cmds :: "Command list"
  ca_mcast :: "McastCommandState list"
  ca_resp :: "CMDResponseCb list"
  ca_beats :: IPC_Heartbeat

datatype effect =
    CallCommand ptr int u8 "u8 list" nat sockaddr
  | CallXdr ptr IPC_Command sockaddr ptr int
  | CallMulticast ptr ptr int u8 "u8 list" nat sockaddr
  | CallRaw ptr bool ptr "u8 list" nat
  | CallCooked ptr ptr IPC_Response
  | Send "u8 list option" sockaddr
  | SendError IPC_Command u32 sockaddr
  | SchedAdd nat ptr
  | SchedRemove ptr
  | FdAdd int
  | FdRemove int
  | Drop int "nat list"

abbreviation (input) MAX_NUM_CMDS :: nat where "MAX_NUM_CMDS \<equiv> 256"
abbreviation (input) CMD_PROTECTED :: u32 where "CMD_PROTECTED \<equiv> 1"

section \<open>Old-style commands\<close>

definition CMD_set_cmd_handler :: "int \<Rightarrow> ptr \<Rightarrow> u32 \<Rightarrow> u32 \<Rightarrow> u32 \<Rightarrow> CommandCbArg \<Rightarrow> int \<times> CommandCbArg" where
  "CMD_set_cmd_handler cmdNum handler uid grp protection st =
     (if cmdNum < 0 \<or> cmdNum \<ge> int MAX_NUM_CMDS then (-1, st)
      else (0, st\<lparr>ca_cmds := (ca_cmds st)[nat cmdNum :=
             \<lparr>cd_cb = handler, cd_uid = uid, cd_group = grp, cd_prot = protection\<rparr>]\<rparr>))"

definition CMD_loopback_cmd :: "int \<Rightarrow> int \<Rightarrow> u8 list \<Rightarrow> nat \<Rightarrow> CommandCbArg \<Rightarrow> int \<times> effect list" where
  "CMD_loopback_cmd fd cmdNum data dataLen st =
     (if cmdNum < 0 \<or> cmdNum \<ge> int MAX_NUM_CMDS then (-1, [])
      else
        let cb = cd_cb (ca_cmds st ! nat cmdNum)
        in if cb = 0 then (-2, [])
           else (0, [CallCommand cb fd (of_int cmdNum) data dataLen \<lparr>sa_addr = [], sa_port = 0\<rparr>]))"

section \<open>Pending responses\<close>

definition CMD_pending_responses :: "CommandCbArg \<Rightarrow> bool" where
  "CMD_pending_responses st \<longleftrightarrow> ca_resp st \<noteq> []"

text \<open>\<open>to_evt\<close> is what \<open>EVT_sched_add\<close> returns.\<close>

definition CMD_add_response_cb ::
  "ptr \<Rightarrow> u32 \<Rightarrow> sockaddr \<Rightarrow> ptr \<Rightarrow> ptr \<Rightarrow> IPC_CB_TYPE \<Rightarrow> nat \<Rightarrow> ptr option \<Rightarrow> CommandCbArg \<Rightarrow> CommandCbArg \<times> effect list" where
  "CMD_add_response_cb node i host cb arg cb_type timeout to_evt st =
     (let r = \<lparr>rp_node = node, rp_id = i, rp_host = host, rp_cb = cb, rp_arg = arg, rp_cb_type = cb_type,
               rp_to_evt = (if timeout \<noteq> 0 then to_evt else None)\<rparr>
      in (st\<lparr>ca_resp := r # ca_resp st\<rparr>, if timeout \<noteq> 0 then [SchedAdd timeout node] else []))"

text \<open>
  \<open>resp_def\<close>: the structure of a response is registered and can be allocated. \<open>junk\<close> is what the
  structure held before it was decoded.
\<close>

definition CMD_resolve_callback ::
  "(nat \<Rightarrow> bool) \<Rightarrow> bool \<Rightarrow> IPC_Response \<Rightarrow> ptr \<Rightarrow> ptr \<Rightarrow> IPC_CB_TYPE \<Rightarrow> u8 list \<Rightarrow> nat \<Rightarrow> effect list option" where
  "CMD_resolve_callback alloc resp_def junk cb arg cb_type rxbuff rxlen =
     (if cb = 0 then Some []
      else case cb_type of
          IPC_CB_TYPE_RAW \<Rightarrow> Some [CallRaw cb False arg rxbuff rxlen]
        | IPC_CB_TYPE_COOKED \<Rightarrow>
            if \<not> resp_def then Some []
            else (case IPC_Response_decode alloc junk rxbuff rxlen of
                    DFault \<Rightarrow> None
                  | DFail _ _ \<Rightarrow> Some []
                  | DOk _ resp \<Rightarrow> Some [CallCooked cb arg resp]))"

definition answers :: "IPC_ResponseHeader \<Rightarrow> sockaddr \<Rightarrow> CMDResponseCb \<Rightarrow> bool" where
  "answers hdr src r \<longleftrightarrow>
     rp_id r = rh_ipcref hdr \<and> sa_port (rp_host r) = sa_port src \<and> sa_addr (rp_host r) = sa_addr src"

fun unlink_first :: "('a \<Rightarrow> bool) \<Rightarrow> 'a list \<Rightarrow> 'a option \<times> 'a list" where
  "unlink_first P [] = (None, [])"
| "unlink_first P (x # xs) =
     (if P x then (Some x, xs) else case unlink_first P xs of (r, ys) \<Rightarrow> (r, x # ys))"

definition cmd_handle_xdr_response ::
  "(nat \<Rightarrow> bool) \<Rightarrow> bool \<Rightarrow> IPC_Response \<Rightarrow> IPC_ResponseHeader \<Rightarrow> u8 list \<Rightarrow> nat \<Rightarrow> sockaddr \<Rightarrow> CommandCbArg
     \<Rightarrow> (CommandCbArg \<times> effect list) option" where
  "cmd_handle_xdr_response alloc resp_def junk junk_hdr data dataLen src st =
     (case IPC_ResponseHeader_decode junk_hdr data dataLen of
        DFault \<Rightarrow> None
      | DFail _ _ \<Rightarrow> Some (st, [])
      | DOk _ hdr \<Rightarrow>
          if rh_cmd hdr \<noteq> IPC_CMDS_RESPONSE then Some (st, [])
          else (case unlink_first (answers hdr src) (ca_resp st) of
                  (None, _) \<Rightarrow> Some (st, [])
                | (Some r, rest) \<Rightarrow>
                    (case CMD_resolve_callback alloc resp_def junk (rp_cb r) (rp_arg r) (rp_cb_type r) data dataLen of
                       None \<Rightarrow> None
                     | Some es \<Rightarrow>
                         Some (st\<lparr>ca_resp := rest\<rparr>,
                               es @ (case rp_to_evt r of None \<Rightarrow> [] | Some e \<Rightarrow> [SchedRemove e])))))"

text \<open>The timeout calls the callback without looking whether there is one.\<close>

definition response_timeout_cb :: "CMDResponseCb option \<Rightarrow> CommandCbArg \<Rightarrow> (int \<times> CommandCbArg \<times> effect list) option" where
  "response_timeout_cb state st =
     (case state of
        None \<Rightarrow> Some (0, st, [])
      | Some s \<Rightarrow>
          if rp_cb s = 0 then None
          else Some (0, st\<lparr>ca_resp := snd (unlink_first (\<lambda>r. rp_node r = rp_node s) (ca_resp st))\<rparr>,
                     [CallRaw (rp_cb s) True (rp_arg s) [] 0]))"

section \<open>Dispatch of a packet\<close>

definition count_command :: "CommandCbArg \<Rightarrow> CommandCbArg" where
  "count_command st = st\<lparr>ca_beats := (ca_beats st)\<lparr>hb_commands := hb_commands (ca_beats st) + 1\<rparr>\<rparr>"

definition count_response :: "CommandCbArg \<Rightarrow> CommandCbArg" where
  "count_response st = st\<lparr>ca_beats := (ca_beats st)\<lparr>hb_responses := hb_responses (ca_beats st) + 1\<rparr>\<rparr>"

definition dispatch_xdr :: "CmdRegistry \<Rightarrow> IPC_Command \<Rightarrow> sockaddr \<Rightarrow> int \<Rightarrow> effect list" where
  "dispatch_xdr reg xdr_cmd src socket =
     (case CMD_xdr_cmd_by_number reg (ic_cmd xdr_cmd) of
        None \<Rightarrow> []
      | Some info \<Rightarrow>
          (case ci_handler reg (ci_addr info) of
             (handler, arg) \<Rightarrow>
               if handler \<noteq> 0 then [CallXdr handler xdr_cmd src arg socket]
               else [SendError xdr_cmd IPC_RESULTCODE_UNSUPPORTED src]))"

record dispatch_env =
  de_alloc :: "nat \<Rightarrow> bool"
  de_resp_def :: bool
  de_junk_num :: u32
  de_junk_cmd :: IPC_Command
  de_junk_hdr :: IPC_ResponseHeader
  de_junk_resp :: IPC_Response

definition cmd_handler_cb ::
  "dispatch_env \<Rightarrow> CmdRegistry \<Rightarrow> int \<Rightarrow> bool \<Rightarrow> int \<Rightarrow> u8 list \<Rightarrow> sockaddr \<Rightarrow> CommandCbArg \<Rightarrow> (CommandCbArg \<times> effect list) option" where
  "cmd_handler_cb env reg socket is_read rc data src st =
     (let dataLen = size_of_int rc
      in if \<not> is_read \<or> dataLen = 0 then Some (st, [])
         else if data = [] then None
         else if hd data = 0 then
           (case XDR_decode_uint32 data dataLen of
              DFault \<Rightarrow> None
            | d \<Rightarrow>
                let cmd_num = (case d of DOk _ n \<Rightarrow> n | _ \<Rightarrow> de_junk_num env)
                in if cmd_num = IPC_CMDS_RESPONSE then
                     cmd_handle_xdr_response (de_alloc env) (de_resp_def env) (de_junk_resp env) (de_junk_hdr env)
                       data dataLen src (count_response st)
                   else (case IPC_Command_decode (de_alloc env) (de_junk_cmd env) data dataLen of
                           DFault \<Rightarrow> None
                         | DFail _ _ \<Rightarrow> Some (count_command st, [])
                         | DOk _ xdr_cmd \<Rightarrow> Some (count_command st, dispatch_xdr reg xdr_cmd src socket)))
         else
           let cmd = ca_cmds st ! unat (hd data)
           in if cd_prot cmd = CMD_PROTECTED then Some (count_command st, [])
              else Some (count_command st, [CallCommand (cd_cb cmd) socket (hd data) (tl data) (dataLen - 1) src]))"

section \<open>Multicast\<close>

definition multicast_cmd_handler_cb ::
  "McastCommandState option \<Rightarrow> int \<Rightarrow> bool \<Rightarrow> int \<Rightarrow> u8 list \<Rightarrow> sockaddr \<Rightarrow> effect list option" where
  "multicast_cmd_handler_cb state socket is_read rc data src =
     (let dataLen = size_of_int rc
      in case state of
           None \<Rightarrow> Some []
         | Some s \<Rightarrow>
             if \<not> is_read \<or> dataLen = 0 then Some []
             else if data = [] then None
             else Some (map (\<lambda>c. CallMulticast (mc_callback c) (mc_param c) socket (hd data) (tl data) (dataLen - 1) src)
                    (filter (\<lambda>c. mc_cmdNum c < 0 \<or> mc_cmdNum c = int (unat (hd data))) (ms_cmds s))))"

fun find_mcast_state :: "nat list \<Rightarrow> nat \<Rightarrow> McastCommandState list \<Rightarrow> nat option" where
  "find_mcast_state addr port [] = None"
| "find_mcast_state addr port (s # ss) =
     (if ms_port s = port \<and> ms_srcAddr s = addr then Some 0 else map_option Suc (find_mcast_state addr port ss))"

text \<open>
  \<open>fd\<close> is the result of \<open>socket_init\<close>, \<open>joined\<close> that of joining the group. The address of an
  unknown service is the zero address, here the empty list.
\<close>

definition cmd_set_multicast_handler ::
  "nat list \<Rightarrow> nat \<Rightarrow> int \<Rightarrow> ptr \<Rightarrow> ptr \<Rightarrow> int \<Rightarrow> bool \<Rightarrow> CommandCbArg \<Rightarrow> CommandCbArg \<times> effect list" where
  "cmd_set_multicast_handler addr port cmdNum handler arg fd joined st =
     (let cmd = \<lparr>mc_cmdNum = cmdNum, mc_callback = handler, mc_param = arg\<rparr>
      in if addr = [] \<or> port = 0 then (st, [])
         else case find_mcast_state addr port (ca_mcast st) of
             Some i \<Rightarrow>
               (st\<lparr>ca_mcast := (ca_mcast st)[i := (ca_mcast st ! i)\<lparr>ms_cmds := cmd # ms_cmds (ca_mcast st ! i)\<rparr>]\<rparr>, [])
           | None \<Rightarrow>
               if fd \<le> 0 \<or> \<not> joined then (st, [])
               else (st\<lparr>ca_mcast := \<lparr>ms_srcAddr = addr, ms_port = port, ms_fd = fd, ms_cmds = [cmd]\<rparr> # ca_mcast st\<rparr>, [FdAdd fd]))"

definition close_mcast :: "McastCommandState \<Rightarrow> nat list \<Rightarrow> effect list" where
  "close_mcast s addr = (if ms_fd s > 0 then [FdRemove (ms_fd s), Drop (ms_fd s) addr] else [])"

definition cmd_remove_multicast_handler ::
  "nat list \<Rightarrow> nat \<Rightarrow> int \<Rightarrow> CommandCbArg \<Rightarrow> CommandCbArg \<times> effect list" where
  "cmd_remove_multicast_handler addr port cmdNum st =
     (case find_mcast_state addr port (ca_mcast st) of
        None \<Rightarrow> (st, [])
      | Some i \<Rightarrow>
          let s = ca_mcast st ! i;
              s1 = s\<lparr>ms_cmds := filter (\<lambda>c. mc_cmdNum c \<noteq> cmdNum) (ms_cmds s)\<rparr>
          in if ms_cmds s1 = []
             then (st\<lparr>ca_mcast := filter (\<lambda>s. ms_fd s \<noteq> 0) ((ca_mcast st)[i := s1\<lparr>ms_fd := 0\<rparr>])\<rparr>, close_mcast s addr)
             else (st\<lparr>ca_mcast := (ca_mcast st)[i := s1]\<rparr>, []))"

definition cmd_cleanup_cb_state :: "CommandCbArg \<Rightarrow> CommandCbArg \<times> effect list" where
  "cmd_cleanup_cb_state st =
     (st\<lparr>ca_mcast := []\<rparr>, concat (map (\<lambda>s. close_mcast s (ms_srcAddr s)) (ca_mcast st)))"

section \<open>The structures of a response\<close>

datatype visit_res = VFault | VRet int "(u32 \<times> u8 list \<times> nat) list"

text \<open>
  \<open>CMD_iterate_structs\<close> calls its callback with the type, the bytes behind it and their number; the
  visits are listed in order. The source and its length are what the C code believes: \<open>src\<close> is
  the memory up to its end, \<open>len\<close> the count, which wraps.
\<close>

lemma decode_uint32_length: "XDR_decode_uint32 src len = DOk u w \<Longrightarrow> 4 \<le> length src"
  by (auto simp: XDR_decode_uint32_def split: if_splits)

function CMD_iterate_structs :: "u8 list \<Rightarrow> nat \<Rightarrow> visit_res"
  and iterate_entries :: "nat \<Rightarrow> u8 list \<Rightarrow> nat \<Rightarrow> visit_res" where
  "CMD_iterate_structs src len =
     (case XDR_decode_uint32 src len of
        DFault \<Rightarrow> VFault
      | DFail _ _ \<Rightarrow> VRet (-1) []
      | DOk used type \<Rightarrow>
          let src1 = drop 4 src; len1 = size_sub len 4
          in if type \<noteq> IPC_TYPES_OPAQUE_STRUCT_ARR then VRet 0 [(type, src1, len1)]
             else (case XDR_decode_uint32 src1 len1 of
                     DFault \<Rightarrow> VFault
                   | DFail _ _ \<Rightarrow> VRet (-1) []
                   | DOk _ arr_ents \<Rightarrow> iterate_entries (unat arr_ents) (drop 4 src1) (size_sub len1 4)))"
| "iterate_entries 0 src len = VRet 0 []"
| "iterate_entries (Suc n) src len =
     (case XDR_decode_uint32 src len of
        DFault \<Rightarrow> VFault
      | DFail _ _ \<Rightarrow> VRet (-2) []
      | DOk used byte_len \<Rightarrow>
          let src1 = drop 4 src; len1 = size_sub len 4
          in (case CMD_iterate_structs src1 (unat byte_len) of
                VFault \<Rightarrow> VFault
              | VRet rc vs \<Rightarrow>
                  if rc < 0 then VRet (-3) vs
                  else (case iterate_entries n (drop (unat byte_len) src1) (size_sub len1 (unat byte_len)) of
                          VFault \<Rightarrow> VFault
                        | VRet rc' vs' \<Rightarrow> VRet rc' (vs @ vs'))))"
  by pat_completeness auto

termination
  by (relation "measure (\<lambda>x. case x of Inl (src, len) \<Rightarrow> 2 * length src | Inr (n, src, len) \<Rightarrow> 2 * length src + 1)")
    (auto dest!: decode_uint32_length)

declare CMD_iterate_structs.simps [simp del] iterate_entries.simps(2) [simp del]

section \<open>Sending\<close>

datatype encoded = EncFault | EncFail | Encoded "u8 list option"

text \<open>
  The first attempt with a buffer of \<open>buff_len\<close> bytes; when the encoder says it needs more, a second one
  with as many. \<open>Encoded None\<close> is a packet sent from a \<open>NULL\<close> buffer.
\<close>

definition encode_retry :: "(nat \<Rightarrow> bool) \<Rightarrow> (u8 list option \<Rightarrow> nat \<Rightarrow> enc_res) \<Rightarrow> nat \<Rightarrow> encoded" where
  "encode_retry alloc enc buff_len =
     (case enc (if alloc buff_len then Some (replicate buff_len 0) else None) buff_len of
        EFault \<Rightarrow> EncFault
      | ERet rc len dst \<Rightarrow>
          if rc < 0 then
            if len > buff_len then
              if \<not> alloc len then EncFail
              else (case enc (Some (replicate len 0)) len of
                      EFault \<Rightarrow> EncFault
                    | ERet rc2 len2 dst2 \<Rightarrow> if rc2 < 0 then EncFail else Encoded (map_option (take len2) dst2))
            else EncFail
          else Encoded (map_option (take len) dst))"

definition IPC_command ::
  "(nat \<Rightarrow> bool) \<Rightarrow> u32 \<Rightarrow> ipc_value XDR_Union \<Rightarrow> sockaddr \<Rightarrow> ptr \<Rightarrow> ptr \<Rightarrow> IPC_CB_TYPE \<Rightarrow> nat \<Rightarrow> ptr \<Rightarrow> ptr option
     \<Rightarrow> u32 \<Rightarrow> CommandCbArg \<Rightarrow> (int \<times> u32 \<times> CommandCbArg \<times> effect list) option" where
  "IPC_command alloc command params dest cb arg cb_type timeout node to_evt next_cmd_ref st =
     (let cmd = \<lparr>ic_cmd = command, ic_ipcref = next_cmd_ref, ic_parameters = params\<rparr>
      in case encode_retry alloc (IPC_Command_encode alloc (Ref cmd)) 1024 of
           EncFault \<Rightarrow> None
         | EncFail \<Rightarrow> Some (-1, next_cmd_ref + 1, st, [])
         | Encoded bytes \<Rightarrow>
             if cb \<noteq> 0 then
               (case CMD_add_response_cb node next_cmd_ref dest cb arg cb_type timeout to_evt st of
                  (st', es) \<Rightarrow> Some (0, next_cmd_ref + 1, st', Send bytes dest # es))
             else Some (0, next_cmd_ref + 1, st, [Send bytes dest]))"

definition IPC_response ::
  "(nat \<Rightarrow> bool) \<Rightarrow> IPC_Command \<Rightarrow> ipc_value XDR_Union \<Rightarrow> sockaddr \<Rightarrow> effect list option" where
  "IPC_response alloc cmd un dest =
     (let resp = \<lparr>ir_cmd = IPC_CMDS_RESPONSE, ir_ipcref = ic_ipcref cmd, ir_result = IPC_RESULTCODE_SUCCESS, ir_data = un\<rparr>
      in case encode_retry alloc (IPC_Response_encode alloc (Ref resp)) 1024 of
           EncFault \<Rightarrow> None
         | EncFail \<Rightarrow> Some []
         | Encoded bytes \<Rightarrow> Some [Send bytes dest])"

definition IPC_error :: "(nat \<Rightarrow> bool) \<Rightarrow> IPC_Command \<Rightarrow> u32 \<Rightarrow> sockaddr \<Rightarrow> effect list option" where
  "IPC_error alloc cmd err_code dest =
     (let resp = \<lparr>ir_cmd = IPC_CMDS_RESPONSE, ir_ipcref = ic_ipcref cmd, ir_result = err_code,
                  ir_data = \<lparr>un_type = IPC_TYPES_VOID, un_data = Null\<rparr>\<rparr>
      in case IPC_Response_encode alloc (Ref resp) (if alloc 128 then Some (replicate 128 0) else None) 128 of
           EFault \<Rightarrow> None
         | ERet rc len dst \<Rightarrow> if rc < 0 then Some [] else Some [Send (map_option (take len) dst) dest])"

definition IPC_success :: "(nat \<Rightarrow> bool) \<Rightarrow> IPC_Command \<Rightarrow> sockaddr \<Rightarrow> effect list option" where
  "IPC_success alloc cmd dest = IPC_error alloc cmd IPC_RESULTCODE_SUCCESS dest"

end
