(* ===== verification/Commands_Correct.thy ===== *)
theory Commands_Correct
  imports Commands Packets_Correct
begin

text \<open>
  Correctness of the command layer: every request gets its callback exactly once, by a response
  or by its timeout; a command travels to the handler of the other process and its response back
  to the callback of the sender; the walk over a response visits the structures it was built from.
\<close>

section \<open>Every request is resolved exactly once\<close>

text \<open>
  The table of pending responses under any sequence of requests, packets and timeouts. \<open>rs_armed\<close> are the
  timeout events in the queue, each with the node it was given; the event loop fires an armed event
  once and \<open>EVT_sched_remove\<close> disarms it. \<open>rs_asked\<close> are the callback arguments used so far, by which the calls in
  the log are told apart.
\<close>

record rsys =
  rs_st :: CommandCbArg
  rs_armed :: "CMDResponseCb list"
  rs_log :: "effect list"
  rs_asked :: "ptr list"

definition disarm :: "effect list \<Rightarrow> CMDResponseCb list \<Rightarrow> CMDResponseCb list" where
  "disarm es armed = filter (\<lambda>r. SchedRemove (the (rp_to_evt r)) \<notin> set es) armed"

inductive rreach :: "dispatch_env \<Rightarrow> CommandCbArg \<Rightarrow> rsys \<Rightarrow> bool" for env st0 where
  r_init: "ca_resp st0 = [] \<Longrightarrow> rreach env st0 \<lparr>rs_st = st0, rs_armed = [], rs_log = [], rs_asked = []\<rparr>"
| r_ask: "rreach env st0 s \<Longrightarrow> cb \<noteq> 0 \<Longrightarrow> arg \<notin> set (rs_asked s) \<Longrightarrow>
    node \<notin> rp_node ` set (ca_resp (rs_st s)) \<Longrightarrow> Some evt \<notin> rp_to_evt ` set (ca_resp (rs_st s)) \<Longrightarrow>
    CMD_add_response_cb node i host cb arg IPC_CB_TYPE_RAW timeout (Some evt) (rs_st s) = (st', es) \<Longrightarrow>
    rreach env st0 \<lparr>rs_st = st', rs_armed = (if timeout \<noteq> 0 then [hd (ca_resp st')] else []) @ rs_armed s,
      rs_log = rs_log s @ es, rs_asked = arg # rs_asked s\<rparr>"
| r_packet: "rreach env st0 s \<Longrightarrow>
    cmd_handle_xdr_response (de_alloc env) (de_resp_def env) (de_junk_resp env) (de_junk_hdr env) data len src (rs_st s) = Some (st', es) \<Longrightarrow>
    rreach env st0 (s\<lparr>rs_st := st', rs_armed := disarm es (rs_armed s), rs_log := rs_log s @ es\<rparr>)"
| r_timeout: "rreach env st0 s \<Longrightarrow> r \<in> set (rs_armed s) \<Longrightarrow>
    response_timeout_cb (Some r) (rs_st s) = Some (rc, st', es) \<Longrightarrow>
    rreach env st0 (s\<lparr>rs_st := st', rs_armed := removeAll r (rs_armed s), rs_log := rs_log s @ es\<rparr>)"

fun calls_arg :: "ptr \<Rightarrow> effect \<Rightarrow> bool" where
  "calls_arg a (CallRaw cb t arg d n) = (arg = a)"
| "calls_arg a (CallCooked cb arg r) = (arg = a)"
| "calls_arg a _ = False"

definition calls :: "ptr \<Rightarrow> effect list \<Rightarrow> nat" where
  "calls a es = length (filter (calls_arg a) es)"

lemma calls_simps [simp]:
  "calls a [] = 0" "calls a (e # es) = (if calls_arg a e then 1 else 0) + calls a es" "calls a (es @ fs) = calls a es + calls a fs"
  by (simp_all add: calls_def)

definition pending_ok :: "ptr list \<Rightarrow> CMDResponseCb list \<Rightarrow> bool" where
  "pending_ok asked resp \<longleftrightarrow>
     distinct (map rp_node resp) \<and> distinct (map rp_arg resp) \<and> distinct (filter (\<lambda>e. e \<noteq> None) (map rp_to_evt resp)) \<and>
     (\<forall>r \<in> set resp. rp_cb r \<noteq> 0 \<and> rp_cb_type r = IPC_CB_TYPE_RAW \<and> rp_arg r \<in> set asked)"

definition rinv :: "rsys \<Rightarrow> bool" where
  "rinv s \<longleftrightarrow>
     pending_ok (rs_asked s) (ca_resp (rs_st s)) \<and>
     set (rs_armed s) = {r \<in> set (ca_resp (rs_st s)). rp_to_evt r \<noteq> None} \<and>
     (\<forall>a. calls a (rs_log s) + (if a \<in> rp_arg ` set (ca_resp (rs_st s)) then 1 else 0) = (if a \<in> set (rs_asked s) then 1 else 0))"

lemma rinvD:
  assumes "rinv s"
  shows "pending_ok (rs_asked s) (ca_resp (rs_st s))"
    and "set (rs_armed s) = {r \<in> set (ca_resp (rs_st s)). rp_to_evt r \<noteq> None}"
    and "\<And>a. calls a (rs_log s) + (if a \<in> rp_arg ` set (ca_resp (rs_st s)) then 1 else 0) = (if a \<in> set (rs_asked s) then 1 else 0)"
  using assms unfolding rinv_def by blast+

lemma pending_ok_evt_unique:
  "pending_ok as resp \<Longrightarrow> r \<in> set resp \<Longrightarrow> r' \<in> set resp \<Longrightarrow> rp_to_evt r = rp_to_evt r' \<Longrightarrow> rp_to_evt r \<noteq> None \<Longrightarrow> r = r'"
  unfolding pending_ok_def
proof (induction resp)
  case (Cons x xs)
  have "Some e \<notin> rp_to_evt ` set xs" if "rp_to_evt x = Some e" for e using Cons.prems(1) that by auto
  then show ?case using Cons by (auto simp: image_iff split: if_splits)
qed simp

lemma pending_ok_remove: "pending_ok as (us @ r # vs) \<Longrightarrow> pending_ok as (us @ vs)"
  by (cases "rp_to_evt r") (auto simp: pending_ok_def)

lemma unlink_first_spec:
  "unlink_first P xs = (r, ys) \<Longrightarrow>
   (case r of None \<Rightarrow> ys = xs \<and> (\<forall>x \<in> set xs. \<not> P x)
    | Some x \<Rightarrow> P x \<and> (\<exists>us vs. xs = us @ x # vs \<and> ys = us @ vs \<and> (\<forall>u \<in> set us. \<not> P u)))"
proof (induction xs arbitrary: r ys)
  case (Cons x xs)
  obtain r' ys' where u: "unlink_first P xs = (r', ys')" by fastforce
  show ?case
  proof (cases "P x")
    case True
    then have "r = Some x" "ys = xs" using Cons.prems by auto
    then show ?thesis using True by simp (metis append_Nil empty_iff list.set(1))
  next
    case False
    then have r: "r = r'" "ys = x # ys'" using Cons.prems u by auto
    show ?thesis using Cons.IH [OF u] False r
      by (cases r') (auto intro: exI [of _ "x # _"], metis append_Cons set_ConsD)
  qed
qed simp

text \<open>Taking one node out of the table and calling it back keeps the count.\<close>

lemma rinv_resolve:
  assumes inv: "rinv s" and xs: "ca_resp (rs_st s) = us @ r # vs" and st': "ca_resp st' = us @ vs"
    and es: "\<And>a. calls a es = (if a = rp_arg r then 1 else 0)"
    and armed: "set armed = set (rs_armed s) - {r}"
  shows "rinv (s\<lparr>rs_st := st', rs_armed := armed, rs_log := rs_log s @ es\<rparr>)"
proof -
  note d = rinvD [OF inv, unfolded xs]
  have nd: "rp_arg r \<notin> rp_arg ` set (us @ vs)" "r \<notin> set (us @ vs)" using d(1) by (auto simp: pending_ok_def)
  have "calls a (rs_log s @ es) + (if a \<in> rp_arg ` set (us @ vs) then 1 else 0) = (if a \<in> set (rs_asked s) then 1 else 0)" for a
    using d(3) [of a] es [of a] nd(1) by (auto split: if_splits)
  moreover have "set armed = {r \<in> set (us @ vs). rp_to_evt r \<noteq> None}" using armed d(2) nd(2) by auto
  ultimately show ?thesis using st' pending_ok_remove [OF d(1)] by (simp add: rinv_def del: set_append)
qed

lemma armed_disarm:
  assumes inv: "rinv s" and r: "r \<in> set (ca_resp (rs_st s))"
    and es: "\<And>e. SchedRemove e \<in> set es \<longleftrightarrow> rp_to_evt r = Some e"
  shows "set (disarm es (rs_armed s)) = set (rs_armed s) - {r}"
proof -
  note a = rinvD(2) [OF inv] and u = pending_ok_evt_unique [OF rinvD(1) [OF inv]]
  show ?thesis
  proof (intro set_eqI iffI)
    fix x assume "x \<in> set (disarm es (rs_armed s))"
    then show "x \<in> set (rs_armed s) - {r}" using es a by (auto simp: disarm_def)
  next
    fix x assume x: "x \<in> set (rs_armed s) - {r}"
    then have "x \<in> set (ca_resp (rs_st s))" "rp_to_evt x \<noteq> None" "x \<noteq> r" using a by auto
    then have "rp_to_evt r \<noteq> rp_to_evt x" using u r by metis
    then show "x \<in> set (disarm es (rs_armed s))" using x es \<open>rp_to_evt x \<noteq> None\<close> by (auto simp: disarm_def)
  qed
qed

lemma cmd_handle_xdr_response_cases:
  assumes h: "cmd_handle_xdr_response al rd jr jh data len src st = Some (st', es)"
  obtains (ignored) "st' = st" "es = []"
  | (answered) hdr r rest fs where "unlink_first (answers hdr src) (ca_resp st) = (Some r, rest)"
      "CMD_resolve_callback al rd jr (rp_cb r) (rp_arg r) (rp_cb_type r) data len = Some fs"
      "st' = st\<lparr>ca_resp := rest\<rparr>" "es = fs @ (case rp_to_evt r of None \<Rightarrow> [] | Some e \<Rightarrow> [SchedRemove e])"
proof (cases "IPC_ResponseHeader_decode jh data len")
  case (DOk u hdr)
  obtain x rest where u: "unlink_first (answers hdr src) (ca_resp st) = (x, rest)" by fastforce
  show thesis
  proof (cases "rh_cmd hdr = IPC_CMDS_RESPONSE \<and> x \<noteq> None")
    case True
    then obtain r where x: "x = Some r" and c: "rh_cmd hdr = IPC_CMDS_RESPONSE" by auto
    obtain fs where f: "CMD_resolve_callback al rd jr (rp_cb r) (rp_arg r) (rp_cb_type r) data len = Some fs"
      using h DOk u x c by (simp add: cmd_handle_xdr_response_def split: option.splits)
    show thesis using h DOk u x c f answered [of hdr r rest fs] by (simp add: cmd_handle_xdr_response_def)
  next
    case False
    then have "st' = st \<and> es = []" using h DOk u by (auto simp: cmd_handle_xdr_response_def split: if_splits)
    then show thesis using ignored by blast
  qed
next
  case (DFail u hdr)
  then have "st' = st" "es = []" using h by (simp_all add: cmd_handle_xdr_response_def)
  then show thesis by (rule ignored)
next
  case DFault
  then show thesis using h by (simp add: cmd_handle_xdr_response_def)
qed

lemma rinv_packet:
  assumes inv: "rinv s"
    and h: "cmd_handle_xdr_response al rd jr jh data len src (rs_st s) = Some (st', es)"
  shows "rinv (s\<lparr>rs_st := st', rs_armed := disarm es (rs_armed s), rs_log := rs_log s @ es\<rparr>)"
  using h
proof (cases rule: cmd_handle_xdr_response_cases)
  case ignored
  then show ?thesis using inv by (simp add: disarm_def)
next
  case (answered hdr r rest fs)
  obtain us vs where xs: "ca_resp (rs_st s) = us @ r # vs" "rest = us @ vs"
    using unlink_first_spec [OF answered(1)] by auto
  have r: "rp_cb r \<noteq> 0" "rp_cb_type r = IPC_CB_TYPE_RAW" using rinvD(1) [OF inv] xs by (auto simp: pending_ok_def)
  have "fs = [CallRaw (rp_cb r) False (rp_arg r) data len]" using answered(2) r by (simp add: CMD_resolve_callback_def)
  then have c: "calls a es = (if a = rp_arg r then 1 else 0)" and sr: "SchedRemove e \<in> set es \<longleftrightarrow> rp_to_evt r = Some e" for a e
    by (auto simp: answered(4) split: option.splits)
  show ?thesis
    by (rule rinv_resolve [OF inv xs(1)]) (use answered(3) xs c armed_disarm [OF inv _ sr] in auto)
qed

lemma unlink_node:
  assumes r: "r \<in> set xs" and dn: "distinct (map rp_node xs)"
  obtains us vs where "xs = us @ r # vs" "snd (unlink_first (\<lambda>x. rp_node x = rp_node r) xs) = us @ vs"
proof -
  obtain x ys where u: "unlink_first (\<lambda>x. rp_node x = rp_node r) xs = (x, ys)" by fastforce
  obtain us vs y where y: "x = Some y" "rp_node y = rp_node r" "xs = us @ y # vs" "ys = us @ vs"
    using unlink_first_spec [OF u] r by (auto split: option.splits)
  have "y = r" using y(2,3) r dn by (auto simp: distinct_map inj_on_def)
  then show thesis using y u that by simp
qed

lemma rinv_timeout:
  assumes inv: "rinv s" and r: "r \<in> set (rs_armed s)"
    and h: "response_timeout_cb (Some r) (rs_st s) = Some (rc, st', es)"
  shows "rinv (s\<lparr>rs_st := st', rs_armed := removeAll r (rs_armed s), rs_log := rs_log s @ es\<rparr>)"
proof -
  have m: "r \<in> set (ca_resp (rs_st s))" and dn: "distinct (map rp_node (ca_resp (rs_st s)))"
    using rinvD(1,2) [OF inv] r by (auto simp: pending_ok_def)
  obtain us vs where u: "ca_resp (rs_st s) = us @ r # vs" "snd (unlink_first (\<lambda>x. rp_node x = rp_node r) (ca_resp (rs_st s))) = us @ vs"
    by (rule unlink_node [OF m dn])
  have xs: "ca_resp (rs_st s) = us @ r # vs" "ca_resp st' = us @ vs" "\<And>a. calls a es = (if a = rp_arg r then 1 else 0)"
    using h u by (auto simp: response_timeout_cb_def split: if_splits)
  show ?thesis by (rule rinv_resolve [OF inv xs]) auto
qed

lemma rinv_ask:
  assumes inv: "rinv s" and g: "cb \<noteq> 0" "arg \<notin> set (rs_asked s)" "node \<notin> rp_node ` set (ca_resp (rs_st s))"
      "Some evt \<notin> rp_to_evt ` set (ca_resp (rs_st s))"
    and h: "CMD_add_response_cb node i host cb arg IPC_CB_TYPE_RAW timeout (Some evt) (rs_st s) = (st', es)"
  shows "rinv \<lparr>rs_st = st', rs_armed = (if timeout \<noteq> 0 then [hd (ca_resp st')] else []) @ rs_armed s,
    rs_log = rs_log s @ es, rs_asked = arg # rs_asked s\<rparr>"
proof -
  define r where "r = \<lparr>rp_node = node, rp_id = i, rp_host = host, rp_cb = cb, rp_arg = arg, rp_cb_type = IPC_CB_TYPE_RAW,
    rp_to_evt = (if timeout \<noteq> 0 then Some evt else None)\<rparr>"
  let ?resp = "ca_resp (rs_st s)"
  have st': "ca_resp st' = r # ?resp" and es: "\<And>a. calls a es = 0"
    using h by (auto simp: CMD_add_response_cb_def Let_def r_def)
  have rs: "rp_node r = node" "rp_arg r = arg" "rp_cb r \<noteq> 0" "rp_cb_type r = IPC_CB_TYPE_RAW"
      "rp_to_evt r = (if timeout \<noteq> 0 then Some evt else None)" using g(1) by (simp_all add: r_def)
  note d = rinvD [OF inv]
  have arg: "arg \<notin> rp_arg ` set ?resp" using d(1) g(2) by (auto simp: pending_ok_def)
  have "calls a (rs_log s @ es) + (if a \<in> rp_arg ` set (r # ?resp) then 1 else 0) = (if a \<in> set (arg # rs_asked s) then 1 else 0)" for a
    using d(3) [of a] es [of a] arg g(2) rs(2) by (auto split: if_splits)
  moreover have "set ((if timeout \<noteq> 0 then [r] else []) @ rs_armed s) = {x \<in> set (r # ?resp). rp_to_evt x \<noteq> None}"
    using d(2) rs(5) by auto
  moreover have "pending_ok (arg # rs_asked s) (r # ?resp)"
    using d(1) g(3,4) arg rs by (auto simp: pending_ok_def)
  ultimately show ?thesis by (simp only: rinv_def rsys.simps st' list.sel(1)) blast
qed

lemma rreach_rinv: "rreach env st0 s \<Longrightarrow> rinv s"
proof (induction rule: rreach.induct)
  case r_init
  then show ?case by (simp add: rinv_def pending_ok_def)
next
  case (r_ask s cb arg node evt i host timeout st' es)
  then show ?case by (intro rinv_ask)
next
  case (r_packet s data len src st' es)
  then show ?case by (intro rinv_packet)
next
  case (r_timeout s r rc st' es)
  then show ?case by (intro rinv_timeout)
qed


text \<open>
  C19: Every request is resolved exactly once. However requests, received packets and timeouts are
  interleaved, the callback of a request with callback and raw response has been called at most
  once; it has not been called exactly as long as the request is in the table of pending
  responses; every armed timeout belongs to a pending request, and when it fires it calls that request's callback, telling
  it of the timeout, and the request leaves the table.
\<close>
theorem request_resolved_once:
  assumes "rreach env st0 s" and "a \<in> set (rs_asked s)"
  shows "calls a (rs_log s) \<le> 1 \<and> (calls a (rs_log s) = 0 \<longleftrightarrow> a \<in> rp_arg ` set (ca_resp (rs_st s))) \<and>
    (\<forall>r \<in> set (rs_armed s). r \<in> set (ca_resp (rs_st s)) \<and>
       (\<exists>st'. response_timeout_cb (Some r) (rs_st s) = Some (0, st', [CallRaw (rp_cb r) True (rp_arg r) [] 0]) \<and>
          rp_arg ` set (ca_resp st') = rp_arg ` set (ca_resp (rs_st s)) - {rp_arg r}))"
proof -
  note d = rinvD [OF rreach_rinv [OF assms(1)]]
  have "\<exists>st'. response_timeout_cb (Some r) (rs_st s) = Some (0, st', [CallRaw (rp_cb r) True (rp_arg r) [] 0]) \<and>
      rp_arg ` set (ca_resp st') = rp_arg ` set (ca_resp (rs_st s)) - {rp_arg r}" if "r \<in> set (rs_armed s)" for r
  proof -
    have r: "r \<in> set (ca_resp (rs_st s))" using d(2) that by simp
    obtain us vs where u: "ca_resp (rs_st s) = us @ r # vs" "snd (unlink_first (\<lambda>x. rp_node x = rp_node r) (ca_resp (rs_st s))) = us @ vs"
      using unlink_node [OF r] d(1) by (auto simp: pending_ok_def)
    have "rp_cb r \<noteq> 0" "rp_arg r \<notin> rp_arg ` set (us @ vs)" using u(1) d(1) by (auto simp: pending_ok_def)
    then show ?thesis using u by (auto simp: response_timeout_cb_def)
  qed
  then show ?thesis using d(2) d(3) [of a] assms(2) by (auto split: if_splits)
qed

definition ex_state :: CommandCbArg where
  "ex_state = \<lparr>ca_cmds = [], ca_mcast = [], ca_resp = [], ca_beats = zero_Heartbeat\<rparr>"

definition ex_pending :: CMDResponseCb where
  "ex_pending = \<lparr>rp_node = 1, rp_id = 7, rp_host = \<lparr>sa_addr = [127], sa_port = 50000\<rparr>, rp_cb = 2, rp_arg = 3,
     rp_cb_type = IPC_CB_TYPE_RAW, rp_to_evt = Some 4\<rparr>"

definition ex_env :: dispatch_env where
  "ex_env = \<lparr>de_alloc = (\<lambda>_. True), de_resp_def = True, de_junk_num = 0,
     de_junk_cmd = \<lparr>ic_cmd = 0, ic_ipcref = 0, ic_parameters = \<lparr>un_type = 0, un_data = Null\<rparr>\<rparr>,
     de_junk_hdr = zero_ResponseHeader,
     de_junk_resp = \<lparr>ir_cmd = 0, ir_ipcref = 0, ir_result = 0, ir_data = \<lparr>un_type = 0, un_data = Null\<rparr>\<rparr>\<rparr>"

lemma ex_run:
  "rreach ex_env ex_state \<lparr>rs_st = ex_state\<lparr>ca_resp := [ex_pending]\<rparr>, rs_armed = [ex_pending], rs_log = [SchedAdd 1000 1], rs_asked = [3]\<rparr>"
proof -
  have "rreach ex_env ex_state \<lparr>rs_st = ex_state, rs_armed = [], rs_log = [], rs_asked = []\<rparr>"
    by (rule r_init) (simp add: ex_state_def)
  from r_ask [OF this, where cb = 2 and arg = 3 and node = 1 and evt = 4 and timeout = 1000 and i = 7
      and host = "\<lparr>sa_addr = [127], sa_port = 50000\<rparr>" and st' = "ex_state\<lparr>ca_resp := [ex_pending]\<rparr>" and es = "[SchedAdd 1000 1]"]
  show ?thesis by (simp add: ex_state_def CMD_add_response_cb_def ex_pending_def)
qed

theorem request_resolved_once_witness:
  "calls 3 [SchedAdd 1000 1] = 0 \<and>
   (\<exists>st'. response_timeout_cb (Some ex_pending) (ex_state\<lparr>ca_resp := [ex_pending]\<rparr>) = Some (0, st', [CallRaw 2 True 3 [] 0]) \<and> ca_resp st' = [])"
  using request_resolved_once [OF ex_run, of 3] by (simp add: ex_pending_def)

section \<open>From the sender to the handler and back\<close>

lemma encode_retry_fits:
  "rt_codec enc dec bytes valid lim \<Longrightarrow> valid x \<Longrightarrow> length (bytes x) \<le> 1024 \<Longrightarrow> 1024 < lim \<Longrightarrow>
     encode_retry (\<lambda>_. True) (enc (Ref x)) 1024 = Encoded (Some (bytes x))"
  using rt_codec.enc_fits [of enc dec bytes valid lim x 1024 "replicate 1024 0"] by (simp add: encode_retry_def)

text \<open>A packet that does not fit the first buffer is encoded into one of the size it needs.\<close>

lemma encode_retry_grows:
  "rt_codec enc dec bytes valid lim \<Longrightarrow> valid x \<Longrightarrow> length (bytes x) > buff_len \<Longrightarrow> length (bytes x) < lim \<Longrightarrow>
     enc (Ref x) (Some (replicate buff_len 0)) buff_len = ERet rc (length (bytes x)) dst \<Longrightarrow> rc < 0 \<Longrightarrow>
     encode_retry (\<lambda>_. True) (enc (Ref x)) buff_len = Encoded (Some (bytes x))"
  using rt_codec.enc_fits [of enc dec bytes valid lim x "length (bytes x)" "replicate (length (bytes x)) 0"]
  by (simp add: encode_retry_def)

definition command_bytes :: "IPC_Command \<Rightarrow> u8 list" where
  "command_bytes c = be32 (ic_cmd c) @ be32 (ic_ipcref c) @ ipc.union_bytes (ic_parameters c)"

definition response_bytes :: "IPC_Response \<Rightarrow> u8 list" where
  "response_bytes r = be32 (ir_cmd r) @ be32 (ir_ipcref r) @ be32 (ir_result r) @ ipc.union_bytes (ir_data r)"

lemma command_codec:
  "rt_codec (IPC_Command_encode (\<lambda>_. True)) (IPC_Command_decode (\<lambda>_. True) init) command_bytes (\<lambda>s. ipc.union_valid (ic_parameters s)) (2 ^ 64)"
  using command.rt_codec_axioms [of init] by (simp add: IPC_Command_encode_def IPC_Command_decode_def command_bytes_def [abs_def])

lemma response_codec:
  "rt_codec (IPC_Response_encode (\<lambda>_. True)) (IPC_Response_decode (\<lambda>_. True) init) response_bytes (\<lambda>s. ipc.union_valid (ir_data s)) (2 ^ 64)"
  using response.rt_codec_axioms [of init] by (simp add: IPC_Response_encode_def IPC_Response_decode_def response_bytes_def [abs_def])

lemma hd_be32:
  assumes "w < 2 ^ 24"
  shows "be32 w = 0 # tl (be32 w)"
proof -
  have "unat (drop_bit 24 w) = 0" using assms by (simp add: drop_bit_eq_div unat_div_distrib word_less_nat_alt)
  then have "drop_bit 24 w = 0" by (simp add: unat_eq_zero)
  then show ?thesis by (simp add: be32_def)
qed

lemma size_of_int_nat: "n < 2 ^ 64 \<Longrightarrow> size_of_int (int n) = n"
  by (simp add: size_of_int_def)

lemma xdr_packet:
  assumes "w < 2 ^ 24" "4 \<le> n" "n < 2 ^ 64"
  shows "be32 w @ rest \<noteq> []" "hd (be32 w @ rest) = 0" "XDR_decode_uint32 (be32 w @ rest) n = DOk 4 w"
proof -
  show "be32 w @ rest \<noteq> []" by (simp add: be32_def)
  show "hd (be32 w @ rest) = 0" by (subst hd_be32 [OF assms(1)]) simp
  show "XDR_decode_uint32 (be32 w @ rest) n = DOk 4 w" using u32.dec_fits [of w n rest] assms by simp
qed

text \<open>What a process does with a command it has a handler for.\<close>

lemma receive_command:
  assumes v: "ipc.union_valid (ic_parameters c)" and n: "length (command_bytes c) < 2 ^ 63"
    and c: "ic_cmd c < 2 ^ 24" "ic_cmd c \<noteq> IPC_CMDS_RESPONSE" and al: "de_alloc env = (\<lambda>_. True)"
    and reg: "CMD_xdr_cmd_by_number reg (ic_cmd c) = Some info" "ci_handler reg (ci_addr info) = (h, harg)" "h \<noteq> 0"
  shows "cmd_handler_cb env reg socket True (int (length (command_bytes c))) (command_bytes c @ rest) src st
    = Some (count_command st, [CallXdr h c src harg socket])"
proof -
  let ?n = "length (command_bytes c)"
  obtain tail where t: "command_bytes c @ rest = be32 (ic_cmd c) @ tail" by (simp add: command_bytes_def)
  have l: "4 \<le> ?n" "?n < 2 ^ 64" using n by (simp_all add: command_bytes_def)
  have d: "IPC_Command_decode (\<lambda>_. True) (de_junk_cmd env) (command_bytes c @ rest) ?n = DOk ?n c"
    by (rule rt_codec.dec_fits [OF command_codec v]) (use l in simp_all)
  note x = xdr_packet [OF c(1) l, of tail, folded t]
  have "dispatch_xdr reg c src socket = [CallXdr h c src harg socket]" using reg by (simp add: dispatch_xdr_def)
  moreover have "command_bytes c \<noteq> []" using l(1) by auto
  ultimately show ?thesis using x d l(2) c(2) al by (simp add: cmd_handler_cb_def Let_def size_of_int_nat del: append_is_Nil_conv hd_append2)
qed

text \<open>A response takes the newest request with its reference out of the table and calls it back.\<close>

lemma receive_response:
  assumes v: "ipc.union_valid (ir_data p)" and n: "length (response_bytes p) < 2 ^ 63"
    and c: "ir_cmd p = IPC_CMDS_RESPONSE" "ca_resp st = r # rest_resp" "rp_cb r \<noteq> 0" "rp_cb_type r = IPC_CB_TYPE_RAW"
      "rp_id r = ir_ipcref p" "rp_host r = src"
  shows "cmd_handler_cb env reg socket True (int (length (response_bytes p))) (response_bytes p @ rest) src st
    = Some ((count_response st)\<lparr>ca_resp := rest_resp\<rparr>,
        CallRaw (rp_cb r) False (rp_arg r) (response_bytes p @ rest) (length (response_bytes p))
          # (case rp_to_evt r of None \<Rightarrow> [] | Some e \<Rightarrow> [SchedRemove e]))"
proof -
  let ?n = "length (response_bytes p)" and ?hdr = "\<lparr>rh_cmd = ir_cmd p, rh_ipcref = ir_ipcref p, rh_result = ir_result p\<rparr>"
  obtain tail where t: "response_bytes p @ rest = be32 (ir_cmd p) @ tail" by (simp add: response_bytes_def)
  have l: "12 \<le> ?n" "4 \<le> ?n" "?n < 2 ^ 64" using n by (simp_all add: response_bytes_def)
  have "response_bytes p @ rest = concat [be32 (rh_cmd ?hdr), be32 (rh_ipcref ?hdr), be32 (rh_result ?hdr)] @ (ipc.union_bytes (ir_data p) @ rest)"
    by (simp add: response_bytes_def)
  then have d: "IPC_ResponseHeader_decode (de_junk_hdr env) (response_bytes p @ rest) ?n = DOk 12 ?hdr"
    using resphdr.dec_fits [of ?hdr ?n "de_junk_hdr env" "ipc.union_bytes (ir_data p) @ rest"] l
    by (simp add: IPC_ResponseHeader_decode_def)
  have "ir_cmd p < 2 ^ 24" by (simp add: c(1) ipc_numbers)
  note x = xdr_packet [OF this l(2,3), of tail, folded t]
  have "answers ?hdr src r" using c(5,6) by (simp add: answers_def)
  then have "cmd_handle_xdr_response (de_alloc env) (de_resp_def env) (de_junk_resp env) (de_junk_hdr env) (response_bytes p @ rest) ?n src (count_response st)
      = Some ((count_response st)\<lparr>ca_resp := rest_resp\<rparr>, CallRaw (rp_cb r) False (rp_arg r) (response_bytes p @ rest) ?n
          # (case rp_to_evt r of None \<Rightarrow> [] | Some e \<Rightarrow> [SchedRemove e]))"
    using d c(1-4) by (simp add: cmd_handle_xdr_response_def CMD_resolve_callback_def count_response_def)
  moreover have "response_bytes p \<noteq> []" using l(1) by auto
  ultimately show ?thesis using x l(3) c(1) by (simp add: cmd_handler_cb_def Let_def size_of_int_nat del: append_is_Nil_conv hd_append2)
qed

text \<open>
  C18: A command reaches its handler and the answer reaches its callback. For a command below
  \<open>2 ^ 24\<close> with a callback, parameters and an answer that the protocol can carry in 1024
  bytes, and a handler registered in the receiving process: \<open>IPC_command\<close> sends one packet and notes the
  request; \<open>cmd_handler_cb\<close> of the receiver, whatever its buffer holds behind the packet, calls the
  handler with the very command that was sent; \<open>IPC_response\<close> to that command sends one packet; and
  \<open>cmd_handler_cb\<close> of the sender, given that packet from the address the command went to, calls the callback with
  it, takes the request out of the table, cancels its timeout and leaves all other requests alone. The packet decodes to the response.
\<close>
theorem ipc_request_response:
  assumes p: "ipc_valid ty v" "12 + length (ipc_bytes ty v) \<le> 1024" and q: "ipc_valid rty rv" "16 + length (ipc_bytes rty rv) \<le> 1024"
    and c: "command < 2 ^ 24" "command \<noteq> IPC_CMDS_RESPONSE" "cb \<noteq> 0" "de_alloc env = (\<lambda>_. True)"
    and reg: "CMD_xdr_cmd_by_number reg command = Some info" "ci_handler reg (ci_addr info) = (h, harg)" "h \<noteq> 0"
  shows "\<exists>sent answer st1 es.
    IPC_command (\<lambda>_. True) command \<lparr>un_type = ty, un_data = Ref v\<rparr> dest cb arg IPC_CB_TYPE_RAW timeout node (Some evt) cref st
      = Some (0, cref + 1, st1, Send (Some sent) dest # es) \<and>
    cmd_handler_cb env reg socket True (int (length sent)) (sent @ rest) src peer
      = Some (count_command peer,
          [CallXdr h \<lparr>ic_cmd = command, ic_ipcref = cref, ic_parameters = \<lparr>un_type = ty, un_data = Ref v\<rparr>\<rparr> src harg socket]) \<and>
    IPC_response (\<lambda>_. True) \<lparr>ic_cmd = command, ic_ipcref = cref, ic_parameters = \<lparr>un_type = ty, un_data = Ref v\<rparr>\<rparr>
      \<lparr>un_type = rty, un_data = Ref rv\<rparr> src = Some [Send (Some answer) src] \<and>
    cmd_handler_cb env' reg' socket' True (int (length answer)) (answer @ rest') dest st1
      = Some (count_response st, CallRaw cb False arg (answer @ rest') (length answer) # (if timeout = 0 then [] else [SchedRemove evt])) \<and>
    IPC_Response_decode (\<lambda>_. True) init (answer @ rest') (length answer)
      = DOk (length answer) \<lparr>ir_cmd = IPC_CMDS_RESPONSE, ir_ipcref = cref, ir_result = IPC_RESULTCODE_SUCCESS, ir_data = \<lparr>un_type = rty, un_data = Ref rv\<rparr>\<rparr>"
proof -
  define m where "m = \<lparr>ic_cmd = command, ic_ipcref = cref, ic_parameters = \<lparr>un_type = ty, un_data = Ref v\<rparr>\<rparr>"
  define a where "a = \<lparr>ir_cmd = IPC_CMDS_RESPONSE, ir_ipcref = cref, ir_result = IPC_RESULTCODE_SUCCESS, ir_data = \<lparr>un_type = rty, un_data = Ref rv\<rparr>\<rparr>"
  define r where "r = \<lparr>rp_node = node, rp_id = cref, rp_host = dest, rp_cb = cb, rp_arg = arg, rp_cb_type = IPC_CB_TYPE_RAW,
    rp_to_evt = (if timeout \<noteq> 0 then Some evt else None)\<rparr>"
  have v: "ipc.union_valid (ic_parameters m)" "ipc.union_valid (ir_data a)"
    using p q by (simp_all add: m_def a_def ipc.union_valid_def ipc.union_value_def)
  have n: "length (command_bytes m) \<le> 1024" "length (response_bytes a) \<le> 1024"
    using p q by (simp_all add: m_def a_def command_bytes_def response_bytes_def ipc.union_bytes_def ipc.union_value_def)
  have 1: "IPC_command (\<lambda>_. True) command \<lparr>un_type = ty, un_data = Ref v\<rparr> dest cb arg IPC_CB_TYPE_RAW timeout node (Some evt) cref st
      = Some (0, cref + 1, st\<lparr>ca_resp := r # ca_resp st\<rparr>, Send (Some (command_bytes m)) dest # (if timeout \<noteq> 0 then [SchedAdd timeout node] else []))"
    using encode_retry_fits [OF command_codec v(1) n(1)] c(3)
    by (simp add: IPC_command_def CMD_add_response_cb_def Let_def m_def [symmetric] r_def)
  have 2: "cmd_handler_cb env reg socket True (int (length (command_bytes m))) (command_bytes m @ rest) src peer
      = Some (count_command peer, [CallXdr h m src harg socket])"
    by (rule receive_command [OF v(1)]) (use n(1) c reg in \<open>simp_all add: m_def\<close>)
  have 3: "IPC_response (\<lambda>_. True) m \<lparr>un_type = rty, un_data = Ref rv\<rparr> src = Some [Send (Some (response_bytes a)) src]"
    using encode_retry_fits [OF response_codec v(2) n(2)] by (simp add: IPC_response_def m_def a_def)
  have 4: "cmd_handler_cb env' reg' socket' True (int (length (response_bytes a))) (response_bytes a @ rest') dest (st\<lparr>ca_resp := r # ca_resp st\<rparr>)
      = Some (count_response st, CallRaw cb False arg (response_bytes a @ rest') (length (response_bytes a)) # (if timeout = 0 then [] else [SchedRemove evt]))"
    using receive_response [OF v(2), of "st\<lparr>ca_resp := r # ca_resp st\<rparr>" r "ca_resp st" dest env' reg' socket' rest'] n(2) c(3)
    by (simp add: a_def r_def count_response_def)
  have 5: "IPC_Response_decode (\<lambda>_. True) init (response_bytes a @ rest') (length (response_bytes a)) = DOk (length (response_bytes a)) a"
    by (rule rt_codec.dec_fits [OF response_codec v(2)]) (use n(2) in simp_all)
  show ?thesis using 1 2 3 4 5 unfolding m_def a_def by blast
qed

definition ex_info :: CMD_XDRCommandInfo where
  "ex_info = \<lparr>ci_addr = 8, ci_command = 258, ci_params = 0, ci_name = Some ''data'', ci_types = Some []\<rparr>"

definition ex_registry :: CmdRegistry where
  "ex_registry = \<lparr>xdrCommandHash = Some \<lparr>h_size = 1, h_hashFunc = xdr_cmd_hash_func, h_keyCmp = xdr_cmd_cmp_key,
       h_keyForData = xdr_cmd_key_for_data, h_buckets = [[\<lparr>n_hash = 258, n_key = 258, n_data = ex_info\<rparr>]]\<rparr>,
     xdrDatareqList = [], xdrErrorHash = None, cleanup_reg = True, ci_parameter = (\<lambda>_. None), ci_handler = (\<lambda>_. (8, 9))\<rparr>"

theorem ipc_request_response_witness:
  "\<exists>sent answer st1 es.
     IPC_command (\<lambda>_. True) 258 \<lparr>un_type = IPC_TYPES_VOID, un_data = Ref (V_Void zero_Void)\<rparr> \<lparr>sa_addr = [127], sa_port = 50000\<rparr> 2 3
       IPC_CB_TYPE_RAW 1000 1 (Some 4) 7 ex_state = Some (0, 8, st1, Send (Some sent) \<lparr>sa_addr = [127], sa_port = 50000\<rparr> # es) \<and>
     cmd_handler_cb ex_env ex_registry 5 True (int (length answer)) (answer @ [99]) \<lparr>sa_addr = [127], sa_port = 50000\<rparr> st1
       = Some (count_response ex_state, [CallRaw 2 False 3 (answer @ [99]) (length answer), SchedRemove 4])"
proof -
  have "CMD_xdr_cmd_by_number ex_registry 258 = Some ex_info"
    by (simp add: ex_registry_def CMD_xdr_cmd_by_number_def HASH_find_key_def bucket_of_def ex_info_def xdr_cmd_cmp_key_def xdr_cmd_key_for_data_def)
  moreover have "ci_handler ex_registry (ci_addr ex_info) = (8, 9)" by (simp add: ex_registry_def)
  moreover have "ipc_valid IPC_TYPES_VOID (V_Void zero_Void)" "ipc_bytes IPC_TYPES_VOID (V_Void zero_Void) = []"
    by (simp_all add: ipc_valid_def ipc_bytes_def ipc_numbers)
  moreover have "de_alloc ex_env = (\<lambda>_. True)" "(258 :: u32) < 2 ^ 24" "258 \<noteq> IPC_CMDS_RESPONSE" by (simp_all add: ex_env_def ipc_numbers)
  ultimately show ?thesis
    using ipc_request_response [of IPC_TYPES_VOID "V_Void zero_Void" IPC_TYPES_VOID "V_Void zero_Void" 258 2 ex_env ex_registry ex_info 8 9
        "\<lparr>sa_addr = [127], sa_port = 50000\<rparr>" 3 1000 1 4 7 ex_state 5 "[]" "\<lparr>sa_addr = [127], sa_port = 50001\<rparr>" ex_state ex_env ex_registry 5 "[99]"
        "de_junk_resp ex_env"]
    by simp blast
qed

section \<open>The walk over the structures of a response\<close>

text \<open>
  A well-formed body: one structure, or an array of bodies, each preceded by its length.
\<close>

datatype body = Struct u32 "u8 list" | Arr "body list"

fun body_bytes :: "body \<Rightarrow> u8 list" where
  "body_bytes (Struct ty bs) = be32 ty @ bs"
| "body_bytes (Arr ts) = be32 IPC_TYPES_OPAQUE_STRUCT_ARR @ be32 (of_nat (length ts)) @
     concat (map (\<lambda>t. be32 (of_nat (length (body_bytes t))) @ body_bytes t) ts)"

fun body_ok :: "body \<Rightarrow> bool" where
  "body_ok (Struct ty bs) \<longleftrightarrow> ty \<noteq> IPC_TYPES_OPAQUE_STRUCT_ARR"
| "body_ok (Arr ts) \<longleftrightarrow> length ts < 2 ^ 32 \<and> list_all (\<lambda>t. body_ok t \<and> length (body_bytes t) < 2 ^ 32) ts"

fun structs_of :: "body \<Rightarrow> (u32 \<times> u8 list) list" where
  "structs_of (Struct ty bs) = [(ty, bs)]"
| "structs_of (Arr ts) = concat (map structs_of ts)"

text \<open>What a visit shows the callback: the type and the bytes up to the length it is given.\<close>

definition seen :: "u32 \<times> u8 list \<times> nat \<Rightarrow> u32 \<times> u8 list" where
  "seen v = (case v of (ty, bs, n) \<Rightarrow> (ty, take n bs))"

definition visits_to :: "visit_res \<Rightarrow> (u32 \<times> u8 list) list \<Rightarrow> bool" where
  "visits_to r ss \<longleftrightarrow> (\<exists>vs. r = VRet 0 vs \<and> map seen vs = ss \<and> (\<forall>(ty, bs, n) \<in> set vs. n \<le> length bs))"

lemma decode_u32_front: "4 \<le> n \<Longrightarrow> n < 2 ^ 64 \<Longrightarrow> XDR_decode_uint32 (be32 w @ rest) n = DOk 4 w"
  using u32.dec_fits [of w n rest] by simp

lemma entries_visit:
  assumes "\<And>t n rest. t \<in> set ts \<Longrightarrow> n = length (body_bytes t) \<Longrightarrow> visits_to (CMD_iterate_structs (body_bytes t @ rest) n) (structs_of t)"
    and "list_all (\<lambda>t. length (body_bytes t) < 2 ^ 32) ts"
    and "n = length (concat (map (\<lambda>t. be32 (of_nat (length (body_bytes t))) @ body_bytes t) ts)) + extra" "n < 2 ^ 64"
  shows "visits_to (iterate_entries (length ts) (concat (map (\<lambda>t. be32 (of_nat (length (body_bytes t))) @ body_bytes t) ts) @ rest) n)
    (concat (map structs_of ts))"
  using assms
proof (induction ts arbitrary: n)
  case Nil
  then show ?case by (simp add: visits_to_def)
next
  case (Cons t ts)
  let ?n = "length (body_bytes t)"
  let ?tail = "concat (map (\<lambda>t. be32 (of_nat (length (body_bytes t))) @ body_bytes t) ts)"
  have len: "unat (of_nat ?n :: u32) = ?n" using Cons.prems(2) by (simp add: unat_of_nat take_bit_nat_eq_self)
  have n: "n = 4 + ?n + length ?tail + extra" using Cons.prems(3) by simp
  have d: "XDR_decode_uint32 (be32 (of_nat ?n) @ body_bytes t @ ?tail @ rest) n = DOk 4 (of_nat ?n)"
    by (rule decode_u32_front) (use n Cons.prems(4) in simp_all)
  have 1: "visits_to (CMD_iterate_structs (body_bytes t @ ?tail @ rest) ?n) (structs_of t)"
    using Cons.prems(1) [of t ?n "?tail @ rest"] by simp
  have 2: "visits_to (iterate_entries (length ts) (?tail @ rest) (length ?tail + extra)) (concat (map structs_of ts))"
    by (rule Cons.IH) (use Cons.prems n in auto)
  have s: "size_sub n 4 = ?n + length ?tail + extra" "size_sub (?n + length ?tail + extra) ?n = length ?tail + extra"
    using n Cons.prems(4) by simp_all
  obtain vs where v: "CMD_iterate_structs (body_bytes t @ ?tail @ rest) ?n = VRet 0 vs" "map seen vs = structs_of t"
    "\<forall>(ty, bs, n) \<in> set vs. n \<le> length bs" using 1 by (auto simp: visits_to_def)
  obtain ws where w: "iterate_entries (length ts) (?tail @ rest) (length ?tail + extra) = VRet 0 ws" "map seen ws = concat (map structs_of ts)"
    "\<forall>(ty, bs, n) \<in> set ws. n \<le> length bs" using 2 by (auto simp: visits_to_def)
  have "iterate_entries (Suc (length ts)) (be32 (of_nat ?n) @ body_bytes t @ ?tail @ rest) n = VRet 0 (vs @ ws)"
    using d len s v(1) w(1) by (simp add: iterate_entries.simps(2))
  then show ?case using v w unfolding visits_to_def by (auto simp: add.assoc)
qed

lemma iterate_structs_walk:
  assumes "body_ok t" "length (body_bytes t) < 2 ^ 64"
  shows "visits_to (CMD_iterate_structs (body_bytes t @ rest) (length (body_bytes t))) (structs_of t)"
  using assms
proof (induction t arbitrary: rest)
  case (Struct ty bs)
  then show ?case
    by (simp add: CMD_iterate_structs.simps decode_u32_front visits_to_def seen_def Let_def)
next
  case (Arr ts)
  let ?tail = "concat (map (\<lambda>t. be32 (of_nat (length (body_bytes t))) @ body_bytes t) ts)"
  have u: "unat (of_nat (length ts) :: u32) = length ts" using Arr.prems by (simp add: unat_of_nat take_bit_nat_eq_self)
  have l: "8 + length ?tail < 2 ^ 64" using Arr.prems(2) by simp
  have "visits_to (iterate_entries (length ts) (?tail @ rest) (length ?tail)) (concat (map structs_of ts))"
    by (rule entries_visit [where extra = 0]) (use Arr l in \<open>auto simp: list_all_iff\<close>)
  then show ?case using u l by (simp add: CMD_iterate_structs.simps [of "be32 IPC_TYPES_OPAQUE_STRUCT_ARR @ _"] decode_u32_front Let_def)
qed

text \<open>
  The walk over a well-formed response visits every structure it was built from, in order, and
  nothing else: on the bytes of a body, however deep arrays are nested in arrays, \<open>CMD_iterate_structs\<close> returns 0
  and calls its callback once for each structure with its type and exactly its bytes, which lie inside the
  memory of the packet.
\<close>
theorem iterate_structs_visits:
  assumes "body_ok t" "length (body_bytes t) < 2 ^ 64"
  shows "visits_to (CMD_iterate_structs (body_bytes t @ rest) (length (body_bytes t))) (structs_of t)"
  using assms by (rule iterate_structs_walk)

theorem iterate_structs_visits_witness:
  "visits_to (CMD_iterate_structs (body_bytes (Arr [Struct 5 [1, 2], Arr [Struct 6 [3]]])) (length (body_bytes (Arr [Struct 5 [1, 2], Arr [Struct 6 [3]]]))))
     [(5, [1, 2]), (6, [3])]"
  using iterate_structs_visits [of "Arr [Struct 5 [1, 2], Arr [Struct 6 [3]]]" "[]"] by (simp add: ipc_numbers)

text \<open>The length of an entry is not compared with what is left: an entry of 8 bytes that claims 100 is shown to the
  callback as 96 bytes of data, none of which belong to the packet.\<close>

lemma iterate_structs_trusts_length:
  "CMD_iterate_structs (be32 IPC_TYPES_OPAQUE_STRUCT_ARR @ be32 1 @ be32 100 @ be32 5) 16 = VRet 0 [(5, [], 96)]"
proof -
  have "XDR_decode_uint32 (be32 5) 100 = DOk 4 5" using decode_u32_front [of 100 5 "[]"] by simp
  then have 1: "CMD_iterate_structs (be32 5) 100 = VRet 0 [(5, [], 96)]"
    by (subst CMD_iterate_structs.simps) (simp add: ipc_numbers Let_def)
  have 2: "iterate_entries (Suc 0) (be32 100 @ be32 5) 8 = VRet 0 [(5, [], 96)]"
    by (simp add: iterate_entries.simps decode_u32_front Let_def 1)
  show ?thesis by (subst CMD_iterate_structs.simps) (simp add: decode_u32_front Let_def 2)
qed

end
