(* ===== verification/Util.thy ===== *)
theory Util
  imports Pqueue_Heap
begin

text \<open>
  The helpers of \<open>util.c\<close>: keeping the newest files of a directory (\<open>UTIL_cleanup_dir\<close>), a second client of the
  priority queue, and the fields of \<open>/proc/cpuinfo\<close>.

  The records of \<open>UTIL_cleanup_dir\<close> are an array of \<open>max_entries + 1\<close> elements; a pointer to one is its
  index, and the result \<open>None\<close> is an access outside the array or through \<open>NULL\<close>. What the directory holds,
  what \<open>stat\<close>, \<open>unlink\<close> and the callback that scores a file return, and which allocations succeed, are
  arguments.
\<close>

section \<open>Keeping the newest files\<close>

record CleanupState =
  cs_name :: string
  cs_score :: timeval
  cs_pos :: nat

type_synonym records = "ptr \<Rightarrow> CleanupState"

definition get_pri_cleanup_state :: "records \<Rightarrow> ptr \<Rightarrow> timeval" where
  "get_pri_cleanup_state m a = cs_score (m a)"

definition set_pri_cleanup_state :: "ptr \<Rightarrow> timeval \<Rightarrow> records \<Rightarrow> records" where
  "set_pri_cleanup_state a pri m = m(a := (m a)\<lparr>cs_score := pri\<rparr>)"

definition cmp_pri_cleanup_state :: "timeval \<Rightarrow> timeval \<Rightarrow> bool" where
  "cmp_pri_cleanup_state nxt cur = timercmp nxt cur (\<ge>)"

definition get_pos_cleanup_state :: "records \<Rightarrow> ptr \<Rightarrow> nat" where
  "get_pos_cleanup_state m a = cs_pos (m a)"

definition set_pos_cleanup_state :: "ptr \<Rightarrow> nat \<Rightarrow> records \<Rightarrow> records" where
  "set_pos_cleanup_state a pos m = m(a := (m a)\<lparr>cs_pos := pos\<rparr>)"

definition cleanup_cbs :: "(records, timeval) pq_cbs" where
  "cleanup_cbs = \<lparr>cmppri = cmp_pri_cleanup_state, getpri = get_pri_cleanup_state, setpri = set_pri_cleanup_state,
     getpos = get_pos_cleanup_state, setpos = set_pos_cleanup_state\<rparr>"

text \<open>
  What \<open>readdir_r\<close> gives: the name of an entry or an error. \<open>'st\<close> is \<open>struct stat\<close>.
\<close>

datatype dir_read = Entry string | ReadError int

record 'st cleanup_env =
  ce_stat :: "string \<Rightarrow> 'st option"
  ce_mtime :: "'st \<Rightarrow> int"
  ce_modtime_cb :: "(string \<Rightarrow> string \<Rightarrow> 'st \<Rightarrow> timeval) option"
  ce_node_ok :: "string \<Rightarrow> bool"
  ce_strdup_ok :: "string \<Rightarrow> bool"
  ce_grow_ok :: bool
  ce_unlink :: "string \<Rightarrow> bool"

text \<open>The directory part of the path buffer; an empty name makes the code read before the buffer.\<close>

definition path_prefix :: "string \<Rightarrow> string option" where
  "path_prefix dirname =
     (if dirname = [] then None else Some (if last dirname \<noteq> CHR ''/'' then dirname @ ''/'' else dirname))"

definition skipped_entry :: "bool \<Rightarrow> string \<Rightarrow> bool" where
  "skipped_entry ignore_hidden name \<longleftrightarrow>
     name = ''.'' \<or> name = ''..'' \<or> ignore_hidden \<and> name \<noteq> [] \<and> hd name = CHR ''.''"

definition score_of :: "'st cleanup_env \<Rightarrow> string \<Rightarrow> string \<Rightarrow> 'st \<Rightarrow> timeval" where
  "score_of env name path st =
     (case ce_modtime_cb env of Some cb \<Rightarrow> cb name path st | None \<Rightarrow> Timeval (ce_mtime env st) 0)"

record cleanup_loop =
  cl_mem :: records
  cl_queue :: "(records, timeval) ps_pqueue_t"
  cl_next :: ptr
  cl_unlink :: "string option list"

text \<open>
  The part of the loop body behind the tests: score the file, insert its record, and take the oldest one out when
  there are too many. \<open>Inl res\<close> is the jump to the end.
\<close>

definition cleanup_file ::
  "'st cleanup_env \<Rightarrow> nat \<Rightarrow> string \<Rightarrow> timeval \<Rightarrow> cleanup_loop \<Rightarrow> int + cleanup_loop" where
  "cleanup_file env max_entries prefix score l =
     (let m = (cl_mem l)(cl_next l := (cl_mem l (cl_next l))\<lparr>cs_score := score\<rparr>)
      in case ps_pqueue_insert (ce_grow_ok env) (cl_queue l) (cl_next l) m of
           (_, q, m1) \<Rightarrow>
             if ps_pqueue_size q > max_entries then
               (case ps_pqueue_pop q m1 of
                  (None, _) \<Rightarrow> Inl (-1)
                | (Some h, q1, m2) \<Rightarrow>
                    let path = prefix @ cs_name (m2 h)
                    in Inr (l\<lparr>cl_mem := m2, cl_queue := q1, cl_next := h,
                         cl_unlink := (if ce_node_ok env path
                                       then (if ce_strdup_ok env path then Some path else None) # cl_unlink l
                                       else cl_unlink l)\<rparr>))
             else Inr (l\<lparr>cl_mem := m1, cl_queue := q, cl_next := cl_next l + 1\<rparr>))"

fun cleanup_scan ::
  "'st cleanup_env \<Rightarrow> nat \<Rightarrow> bool \<Rightarrow> string \<Rightarrow> dir_read list \<Rightarrow> cleanup_loop \<Rightarrow> (int \<times> bool \<times> cleanup_loop) option" where
  "cleanup_scan env max_entries ignore_hidden prefix [] l = Some (0, True, l)"
| "cleanup_scan env max_entries ignore_hidden prefix (ReadError e # ds) l = Some (e, True, l)"
| "cleanup_scan env max_entries ignore_hidden prefix (Entry name # ds) l =
     (if cl_next l > max_entries then None
      else
        let l1 = l\<lparr>cl_mem := (cl_mem l)(cl_next l := (cl_mem l (cl_next l))\<lparr>cs_name := name\<rparr>)\<rparr>
        in if skipped_entry ignore_hidden name then cleanup_scan env max_entries ignore_hidden prefix ds l1
           else (case ce_stat env (prefix @ name) of
                   None \<Rightarrow> cleanup_scan env max_entries ignore_hidden prefix ds l1
                 | Some st \<Rightarrow>
                     (case cleanup_file env max_entries prefix (score_of env name (prefix @ name) st) l1 of
                        Inl res \<Rightarrow> Some (res, False, l1)
                      | Inr l2 \<Rightarrow> cleanup_scan env max_entries ignore_hidden prefix ds l2)))"

text \<open>
  The result: the return value, the files \<open>unlink\<close> is called for and those the deletion callback is told of.
  \<open>opened\<close> is the error of \<open>opendir\<close> or what the directory holds; the records lie in memory from
  \<open>malloc\<close>, which the code does not check (it tests the queue again).
\<close>

definition UTIL_cleanup_dir ::
  "'st cleanup_env \<Rightarrow> string option \<Rightarrow> int \<Rightarrow> bool \<Rightarrow> bool \<Rightarrow> bool \<times> bool \<Rightarrow> records option \<Rightarrow> int + dir_read list \<Rightarrow> bool
     \<Rightarrow> (int \<times> string list \<times> string list) option" where
  "UTIL_cleanup_dir env dirname max_entries ignore_hidden path_ok queue_ok recs opened del_cb =
     (case dirname of
        None \<Rightarrow> Some (0, [], [])
      | Some dn \<Rightarrow>
          let mx = (if max_entries \<le> 0 then 1 else max_entries)
          in if \<not> path_ok then Some (-12, [], [])
             else (case path_prefix dn of
                None \<Rightarrow> None
              | Some prefix \<Rightarrow>
                  if mx + 5 > 2147483647 then None
                  else (case ps_pqueue_init (fst queue_ok) (snd queue_ok) (nat mx + 5) cleanup_cbs of
                     None \<Rightarrow> Some (-12, [], [])
                   | Some q \<Rightarrow>
                       (case opened of
                          Inl errno \<Rightarrow> Some (- errno, [], [])
                        | Inr ds \<Rightarrow>
                            (case recs of
                               None \<Rightarrow> if ds = [] then Some (0, [], []) else None
                             | Some m \<Rightarrow>
                                 (case cleanup_scan env (nat mx) ignore_hidden prefix ds
                                         \<lparr>cl_mem = m, cl_queue = q, cl_next = 0, cl_unlink = []\<rparr> of
                                    None \<Rightarrow> None
                                  | Some (res, False, l) \<Rightarrow> Some (res, [], [])
                                  | Some (res, True, l) \<Rightarrow>
                                      let files = map the (filter (\<lambda>f. f \<noteq> None) (cl_unlink l))
                                      in Some (res, files, if del_cb then filter (ce_unlink env) files else [])))))))"

section \<open>Fields of the processor description\<close>

text \<open>\<open>isspace\<close> in the C locale.\<close>

definition isspace :: "char \<Rightarrow> bool" where
  "isspace c \<longleftrightarrow> c \<in> {CHR '' '', CHR 0x09, CHR 0x0A, CHR 0x0B, CHR 0x0C, CHR 0x0D}"

definition trim :: "string \<Rightarrow> string" where
  "trim s = rev (dropWhile isspace (rev (dropWhile isspace s)))"

definition cpu_field :: "string \<Rightarrow> (string \<times> string) option" where
  "cpu_field line =
     (if CHR '':'' \<in> set line
      then Some (trim (takeWhile (\<lambda>c. c \<noteq> CHR '':'') line), trim (tl (dropWhile (\<lambda>c. c \<noteq> CHR '':'') line)))
      else None)"

fun find_field :: "string \<Rightarrow> string list \<Rightarrow> string option" where
  "find_field label [] = None"
| "find_field label (line # lines) =
     (case cpu_field line of
        Some (l, v) \<Rightarrow> if l = label then Some v else find_field label lines
      | None \<Rightarrow> find_field label lines)"

definition BOARD_TYPE_UNKNOWN :: int where "BOARD_TYPE_UNKNOWN = 0x1234"
definition BOARD_TYPE_INTREPID :: int where "BOARD_TYPE_INTREPID = 0x7315"
definition BOARD_TYPE_DEV :: int where "BOARD_TYPE_DEV = 0xDEAD"

text \<open>
  The static variable is passed and returned. \<open>lines\<close> is the file as \<open>fgets\<close> delivers it, \<open>None\<close> when it cannot be opened;
  a line of 4095 bytes or more arrives in pieces.
\<close>

definition UTIL_board_type :: "string list option \<Rightarrow> int \<Rightarrow> int \<times> int" where
  "UTIL_board_type lines boardType =
     (if boardType \<noteq> BOARD_TYPE_UNKNOWN then (boardType, boardType)
      else case lines of
          None \<Rightarrow> (0, boardType)
        | Some ls \<Rightarrow>
            let t = (case find_field ''Hardware'' ls of
                       None \<Rightarrow> boardType
                     | Some v \<Rightarrow> if v = ''PolySat Avionics Board, version 1'' then BOARD_TYPE_INTREPID
                                 else if v = ''Atmel AT91SAM9G20-EK 2 MMC Slot Mod'' then BOARD_TYPE_DEV
                                 else boardType)
            in (t, t))"

text \<open>\<open>strtol16\<close> is \<open>strtol\<close> with base 16, converted to \<open>unsigned long\<close>.\<close>

definition UTIL_board_sn :: "(string \<Rightarrow> u64) \<Rightarrow> string list option \<Rightarrow> u64 \<Rightarrow> u64 \<times> u64" where
  "UTIL_board_sn strtol16 lines serialNum =
     (if serialNum \<noteq> - 1 then (serialNum, serialNum)
      else case lines of
          None \<Rightarrow> (0, serialNum)
        | Some ls \<Rightarrow>
            let n = (case find_field ''Serial'' ls of None \<Rightarrow> serialNum | Some v \<Rightarrow> strtol16 v)
            in (n, n))"

text \<open>\<open>stat_is_dir\<close> is \<open>None\<close> when \<open>stat\<close> fails; the second reading is after \<open>mkdir -p\<close>.\<close>

definition UTIL_ensure_dir :: "bool option \<Rightarrow> int" where
  "UTIL_ensure_dir stat_is_dir = (case stat_is_dir of None \<Rightarrow> 0 | Some d \<Rightarrow> if d then 1 else 0)"

definition UTIL_ensure_path :: "bool option \<Rightarrow> bool \<Rightarrow> bool option \<Rightarrow> int" where
  "UTIL_ensure_path before system_ok after =
     (if UTIL_ensure_dir before \<noteq> 0 then 1 else if \<not> system_ok then 0 else UTIL_ensure_dir after)"

end
