(* ===== verification/Util_Correct.thy ===== *)
theory Util_Correct
  imports Util
begin

text \<open>
  Correctness of \<open>UTIL_cleanup_dir\<close>: what is deleted are the oldest files, and the newest \<open>max_entries\<close> stay; no
  record outside the array is touched. The heap lemmas come from the interface of the priority queue, interpreted
  for the callbacks of \<open>util.c\<close>.
\<close>

lemma cleanup_cbs_fields [simp]:
  "cmppri cleanup_cbs = cmp_pri_cleanup_state" "getpri cleanup_cbs = get_pri_cleanup_state"
  "setpri cleanup_cbs = set_pri_cleanup_state" "getpos cleanup_cbs = get_pos_cleanup_state"
  "setpos cleanup_cbs = set_pos_cleanup_state"
  by (simp_all add: cleanup_cbs_def)

interpretation cleanup: pq_callbacks cleanup_cbs
  by unfold_locales
    (auto simp: cmp_pri_cleanup_state_def get_pri_cleanup_state_def set_pri_cleanup_state_def get_pos_cleanup_state_def
      set_pos_cleanup_state_def)

definition rec_of :: "records \<Rightarrow> ptr \<Rightarrow> string \<times> timeval" where
  "rec_of m i = (cs_name (m i), cs_score (m i))"

lemma rec_of_set_pos: "rec_of (set_pos_cleanup_state x j m) = rec_of m"
  by (auto simp: rec_of_def set_pos_cleanup_state_def fun_eq_iff)

text \<open>One file: the records in the queue, before and after.\<close>

definition cl_inv :: "nat \<Rightarrow> cleanup_loop \<Rightarrow> bool" where
  "cl_inv mx l \<longleftrightarrow>
     pq_inv cleanup_cbs (cl_queue l) (cl_mem l) \<and> q_avail (cl_queue l) = mx + 6 \<and>
     q_size (cl_queue l) \<le> mx + 1 \<and> cl_next l \<le> mx \<and> cl_next l \<notin># pq_mset (cl_queue l) \<and>
     (q_size (cl_queue l) \<le> mx \<longrightarrow> cl_next l + 1 = q_size (cl_queue l) \<and> (\<forall>i \<in># pq_mset (cl_queue l). i < cl_next l)) \<and>
     (\<forall>i \<in># pq_mset (cl_queue l). i \<le> mx)"

definition kept :: "cleanup_loop \<Rightarrow> (string \<times> timeval) multiset" where
  "kept l = image_mset (rec_of (cl_mem l)) (pq_mset (cl_queue l))"

lemma size_pq_mset: "pq_shape q \<Longrightarrow> size (pq_mset q) = q_size q - 1"
  by (simp add: pq_mset_def pq_shape_def)

lemma insert_avail: "q_size q < q_avail q \<Longrightarrow> q_avail (fst (snd (ps_pqueue_insert ok q x s))) = q_avail q"
  by (simp add: ps_pqueue_insert_def bubble_up_def Let_def split_beta)

lemma pop_avail: "q_avail (fst (snd (ps_pqueue_pop q s))) = q_avail q"
  by (simp add: ps_pqueue_pop_def percolate_down_def Let_def split_beta)

lemma insert_rec:
  assumes inv: "pq_inv cleanup_cbs q m" and room: "q_size q < q_avail q" and new: "x \<notin># pq_mset q"
    and r: "ps_pqueue_insert ok q x m = (r, q', m')"
  shows "pq_inv cleanup_cbs q' m'" "pq_mset q' = add_mset x (pq_mset q)" "rec_of m' = rec_of m"
    "q_size q' = q_size q + 1" "q_avail q' = q_avail q"
proof -
  have sh: "pq_shape q" "q_cbs q = cleanup_cbs" and wf: "pq_wf cleanup_cbs q m" using inv by (auto simp: pq_inv_def pq_wf_def)
  show "pq_inv cleanup_cbs q' m'" "pq_mset q' = add_mset x (pq_mset q)"
    using cleanup.insert_inv [OF inv _ new r] room by simp_all
  show "q_size q' = q_size q + 1" using cleanup.insert_wf [OF wf _ r] room by simp
  show "rec_of m' = rec_of m" using insert_frame_in [OF sh(1), of x rec_of ok m] r sh(2) by (simp add: rec_of_set_pos)
  show "q_avail q' = q_avail q" using insert_avail [OF room, of ok x m] r by simp
qed

lemma pop_rec:
  assumes inv: "pq_inv cleanup_cbs q m" and ne: "q_size q \<noteq> 1"
  obtains h q' m' where "ps_pqueue_pop q m = (Some h, q', m')" "pq_inv cleanup_cbs q' m'" "pq_mset q = add_mset h (pq_mset q')"
    "rec_of m' = rec_of m" "q_size q' = q_size q - 1" "q_avail q' = q_avail q"
    "\<And>x. x \<in># pq_mset q \<Longrightarrow> cs_score (m h) \<le> cs_score (m x)"
proof -
  have sh: "pq_shape q" "q_cbs q = cleanup_cbs" and wf: "pq_wf cleanup_cbs q m" using inv by (auto simp: pq_inv_def pq_wf_def)
  obtain h q' m' where p: "ps_pqueue_pop q m = (Some h, q', m')" "q_size q' = q_size q - 1"
    by (rule cleanup.pop_wf [OF wf ne]) blast
  have "rec_of m' = rec_of m" using pop_frame_in [OF sh(1), of rec_of m] p sh(2) by (simp add: rec_of_set_pos)
  moreover have "q_avail q' = q_avail q" using pop_avail [of q m] p by simp
  moreover have "cs_score (m h) \<le> cs_score (m x)" if "x \<in># pq_mset q" for x
    using cleanup.pop_inv [OF inv p(1)] that by (simp add: get_pri_cleanup_state_def)
  ultimately show thesis using that p cleanup.pop_inv [OF inv p(1)] by blast
qed

lemma distinct_pq:
  assumes "pq_inv cleanup_cbs q m"
  shows "count (pq_mset q) x \<le> 1"
proof -
  have "distinct (tl (take (q_size q) (q_d q)))"
    unfolding distinct_conv_nth
  proof (intro allI impI)
    fix i j assume ij: "i < length (tl (take (q_size q) (q_d q)))" "j < length (tl (take (q_size q) (q_d q)))" "i \<noteq> j"
    then have "Suc i < q_size q" "Suc j < q_size q" by auto
    then have "q_d q ! Suc i \<noteq> q_d q ! Suc j" using ij(3) cleanup.inv_distinct [OF assms, of "Suc i" "Suc j"] by auto
    then show "tl (take (q_size q) (q_d q)) ! i \<noteq> tl (take (q_size q) (q_d q)) ! j" using ij by (simp add: nth_tl)
  qed
  then show ?thesis by (simp add: pq_mset_def distinct_count_atmost_1)
qed

text \<open>The files taken into account, with their scores, in the order of the directory.\<close>

fun eligible :: "'st cleanup_env \<Rightarrow> bool \<Rightarrow> string \<Rightarrow> string list \<Rightarrow> (string \<times> timeval) list" where
  "eligible env hid prefix [] = []"
| "eligible env hid prefix (name # ns) =
     (if skipped_entry hid name then eligible env hid prefix ns
      else case ce_stat env (prefix @ name) of
             None \<Rightarrow> eligible env hid prefix ns
           | Some st \<Rightarrow> (name, score_of env name (prefix @ name) st) # eligible env hid prefix ns)"

text \<open>\<open>oldest mx es ds ks\<close>: of the files \<open>es\<close>, \<open>ds\<close> are deleted and \<open>ks\<close> are kept.\<close>

definition oldest :: "nat \<Rightarrow> (string \<times> timeval) multiset \<Rightarrow> (string \<times> timeval) multiset \<Rightarrow> (string \<times> timeval) multiset \<Rightarrow> bool" where
  "oldest mx es ds ks \<longleftrightarrow>
     es = ds + ks \<and> (\<forall>d \<in># ds. \<forall>k \<in># ks. snd d \<le> snd k) \<and> size ks \<le> mx \<and> (ds \<noteq> {#} \<longrightarrow> size ks = mx)"

lemma oldest_room: "oldest mx es ds ks \<Longrightarrow> size ks < mx \<Longrightarrow> oldest mx (add_mset e es) ds (add_mset e ks)"
  by (auto simp: oldest_def)

lemma oldest_full:
  assumes o: "oldest mx es ds ks" and full: "size ks = mx" and ks': "add_mset e ks = add_mset h ks'"
    and least: "\<And>k. k \<in># add_mset e ks \<Longrightarrow> snd h \<le> snd k"
  shows "oldest mx (add_mset e es) (add_mset h ds) ks'"
proof -
  have "snd d \<le> snd k" if d: "d \<in># ds" and k: "k \<in># ks'" for d k
  proof (cases "k \<in># ks")
    case True
    then show ?thesis using o d by (auto simp: oldest_def)
  next
    case False
    have "k \<in># add_mset e ks" using k ks' by simp
    then have ke: "k = e" using False by simp
    have "h \<in># ks"
    proof (rule ccontr)
      assume "h \<notin># ks"
      then have "h = e" using ks' by (metis insert_iff set_mset_add_mset_insert union_single_eq_member add_mset_add_single)
      then have "ks' = ks" using ks' by simp
      then show False using False k by simp
    qed
    then have "snd d \<le> snd h" using o d by (auto simp: oldest_def)
    also have "snd h \<le> snd k" using least [of k] ke by simp
    finally show ?thesis .
  qed
  moreover have "snd h \<le> snd k" if "k \<in># ks'" for k using least [of k] that ks' by simp
  moreover have "size ks' = mx" using arg_cong [OF ks', of size] full by simp
  moreover have "add_mset e es = add_mset h ds + ks'" using o ks' by (simp add: oldest_def)
  ultimately show ?thesis by (auto simp: oldest_def)
qed


text \<open>The loop: what has been read so far, \<open>es\<close>, is split into the files to delete and those in the queue.\<close>

definition scan_inv :: "nat \<Rightarrow> string \<Rightarrow> (string \<times> timeval) multiset \<Rightarrow> cleanup_loop \<Rightarrow> bool" where
  "scan_inv mx prefix es l \<longleftrightarrow>
     cl_inv mx l \<and> (\<exists>dl. cl_unlink l = map (\<lambda>h. Some (prefix @ fst h)) dl \<and> oldest mx es (mset dl) (kept l))"

lemma scan_inv_write:
  assumes "scan_inv mx prefix es l"
  shows "scan_inv mx prefix es (l\<lparr>cl_mem := (cl_mem l)(cl_next l := r)\<rparr>)"
proof -
  have c: "cl_inv mx l" using assms by (simp add: scan_inv_def)
  then have n: "cl_next l \<notin># pq_mset (cl_queue l)" and i: "pq_inv cleanup_cbs (cl_queue l) (cl_mem l)"
    by (simp_all add: cl_inv_def)
  let ?m = "(cl_mem l)(cl_next l := r)"
  have "pq_inv cleanup_cbs (cl_queue l) ?m"
    by (rule pq_inv_frame [OF i]) (use n in \<open>auto simp: get_pri_cleanup_state_def get_pos_cleanup_state_def\<close>)
  then have "cl_inv mx (l\<lparr>cl_mem := ?m\<rparr>)" using c by (simp add: cl_inv_def)
  moreover have "kept (l\<lparr>cl_mem := ?m\<rparr>) = kept l"
    using n by (auto simp: kept_def rec_of_def intro!: image_mset_cong)
  ultimately show ?thesis using assms by (simp add: scan_inv_def)
qed

lemma size_kept: "cl_inv mx l \<Longrightarrow> size (kept l) + 1 = q_size (cl_queue l)"
  using size_pq_mset [of "cl_queue l"] by (auto simp: cl_inv_def kept_def pq_inv_def pq_wf_def pq_shape_def)

lemma cleanup_file_step:
  assumes inv: "scan_inv mx prefix es l" and mx: "1 \<le> mx" and name: "cs_name (cl_mem l (cl_next l)) = name"
    and ok: "\<And>p. ce_node_ok env p" "\<And>p. ce_strdup_ok env p"
  shows "\<exists>l'. cleanup_file env mx prefix score l = Inr l' \<and> scan_inv mx prefix (add_mset (name, score) es) l'"
proof -
  define l0 where "l0 = l\<lparr>cl_mem := (cl_mem l)(cl_next l := (cl_mem l (cl_next l))\<lparr>cs_score := score\<rparr>)\<rparr>"
  have inv0: "scan_inv mx prefix es l0" unfolding l0_def by (rule scan_inv_write [OF inv])
  have l0: "cl_queue l0 = cl_queue l" "cl_next l0 = cl_next l" "cl_unlink l0 = cl_unlink l" "rec_of (cl_mem l0) (cl_next l) = (name, score)"
    by (simp_all add: l0_def rec_of_def name)
  obtain dl where dl: "cl_unlink l = map (\<lambda>h. Some (prefix @ fst h)) dl" "oldest mx es (mset dl) (kept l0)"
    and c: "cl_inv mx l0" using inv0 l0 by (auto simp: scan_inv_def)
  let ?q = "cl_queue l" and ?n = "cl_next l"
  have q: "pq_inv cleanup_cbs ?q (cl_mem l0)" "q_size ?q < q_avail ?q" "?n \<notin># pq_mset ?q" "q_avail ?q = mx + 6" "q_size ?q \<le> mx + 1" "?n \<le> mx"
    using c l0 by (simp_all add: cl_inv_def)
  obtain r q1 m1 where ins: "ps_pqueue_insert (ce_grow_ok env) ?q ?n (cl_mem l0) = (r, q1, m1)" by (metis prod_cases3)
  note i = insert_rec [OF q(1-3) ins]
  have k1: "image_mset (rec_of m1) (pq_mset q1) = add_mset (name, score) (kept l0)"
    using i(2,3) l0 by (simp add: kept_def)
  have sz: "size (kept l0) + 1 = q_size ?q" using size_kept [OF c] l0 by simp
  have cf: "cleanup_file env mx prefix score l =
      (if q_size q1 - 1 > mx then
         (case ps_pqueue_pop q1 m1 of (None, _) \<Rightarrow> Inl (-1)
          | (Some h, q2, m2) \<Rightarrow> Inr (l\<lparr>cl_mem := m2, cl_queue := q2, cl_next := h, cl_unlink := Some (prefix @ cs_name (m2 h)) # cl_unlink l\<rparr>))
       else Inr (l\<lparr>cl_mem := m1, cl_queue := q1, cl_next := ?n + 1\<rparr>))"
    using ins ok by (simp add: cleanup_file_def Let_def l0_def ps_pqueue_size_def split: prod.splits option.splits)
  show ?thesis
  proof (cases "q_size q1 - 1 > mx")
    case True
    then have full: "size (kept l0) = mx" and ne: "q_size q1 \<noteq> 1" using i(4) sz q(5) by auto
    obtain h q2 m2 where p: "ps_pqueue_pop q1 m1 = (Some h, q2, m2)" "pq_inv cleanup_cbs q2 m2" "pq_mset q1 = add_mset h (pq_mset q2)"
      "rec_of m2 = rec_of m1" "q_size q2 = q_size q1 - 1" "q_avail q2 = q_avail q1"
      "\<And>x. x \<in># pq_mset q1 \<Longrightarrow> cs_score (m1 h) \<le> cs_score (m1 x)"
      by (rule pop_rec [OF i(1) ne]) blast
    let ?l = "l\<lparr>cl_mem := m2, cl_queue := q2, cl_next := h, cl_unlink := Some (prefix @ cs_name (m2 h)) # cl_unlink l\<rparr>"
    have "add_mset (name, score) (kept l0) = add_mset (rec_of m1 h) (kept ?l)" using k1 p(3,4) by (simp add: kept_def)
    moreover have "snd (rec_of m1 h) \<le> snd k" if "k \<in># add_mset (name, score) (kept l0)" for k
      using that p(7) unfolding k1 [symmetric] by (auto simp: rec_of_def)
    ultimately have o: "oldest mx (add_mset (name, score) es) (mset (rec_of m1 h # dl)) (kept ?l)"
      using oldest_full [OF dl(2) full] by simp
    have "h \<notin># pq_mset q2" using distinct_pq [OF i(1), of h] p(3) by (simp add: not_in_iff)
    moreover have "\<forall>x \<in># pq_mset q1. x \<le> mx" using i(2) q(6) c l0 by (auto simp: cl_inv_def)
    ultimately have "cl_inv mx ?l" using p i(4,5) q True by (auto simp: cl_inv_def)
    moreover have "cs_name (m2 h) = fst (rec_of m1 h)" using p(4) by (metis fst_conv rec_of_def)
    ultimately have "scan_inv mx prefix (add_mset (name, score) es) ?l"
      using o dl(1) unfolding scan_inv_def by (auto intro!: exI [of _ "rec_of m1 h # dl"])
    then show ?thesis using cf True p(1) by simp
  next
    case False
    let ?l = "l\<lparr>cl_mem := m1, cl_queue := q1, cl_next := ?n + 1\<rparr>"
    have room: "size (kept l0) < mx" using False i(4) sz by simp
    then have o: "oldest mx (add_mset (name, score) es) (mset dl) (kept ?l)" using oldest_room [OF dl(2)] k1 by (simp add: kept_def)
    have "?n + 1 = q_size ?q" "\<forall>x \<in># pq_mset ?q. x < ?n" using c l0 sz room by (auto simp: cl_inv_def)
    then have "cl_inv mx ?l" using i q False by (auto simp: cl_inv_def less_Suc_eq)
    then show ?thesis using cf False o dl(1) by (auto simp: scan_inv_def)
  qed
qed


lemma cleanup_scan_inv:
  assumes "scan_inv mx prefix es l" "1 \<le> mx" "\<And>p. ce_node_ok env p" "\<And>p. ce_strdup_ok env p"
  shows "\<exists>l'. cleanup_scan env mx hid prefix (map Entry names @ ds) l = cleanup_scan env mx hid prefix ds l'
    \<and> scan_inv mx prefix (mset (eligible env hid prefix names) + es) l'"
  using assms(1)
proof (induction names arbitrary: l es)
  case (Cons name names)
  let ?l = "l\<lparr>cl_mem := (cl_mem l)(cl_next l := (cl_mem l (cl_next l))\<lparr>cs_name := name\<rparr>)\<rparr>"
  have inv: "scan_inv mx prefix es ?l" by (rule scan_inv_write [OF Cons.prems])
  have next_ok: "\<not> cl_next l > mx" using Cons.prems by (simp add: scan_inv_def cl_inv_def)
  show ?case
  proof (cases "skipped_entry hid name \<or> ce_stat env (prefix @ name) = None")
    case True
    then show ?thesis using Cons.IH [OF inv] next_ok by auto
  next
    case False
    then obtain st where st: "ce_stat env (prefix @ name) = Some st" by auto
    obtain l2 where l2: "cleanup_file env mx prefix (score_of env name (prefix @ name) st) ?l = Inr l2"
      "scan_inv mx prefix (add_mset (name, score_of env name (prefix @ name) st) es) l2"
      using cleanup_file_step [OF inv assms(2) _ assms(3,4), of name "score_of env name (prefix @ name) st"] by auto
    show ?thesis using Cons.IH [OF l2(2)] False st l2(1) next_ok by simp
  qed
qed (use assms in auto)

text \<open>
  C21: \<open>UTIL_cleanup_dir\<close> deletes the oldest files and keeps the newest. Of the files it takes into account (not
  \<open>.\<close> and \<open>..\<close>, hidden ones only if asked, and those \<open>stat\<close> answers for), the ones it unlinks and the ones it leaves
  are together all of them; none that it leaves is older than one that it deletes; and it leaves \<open>max_entries\<close>
  of them, or all when there are fewer. The deletion callback is called for exactly those whose deletion succeeded. The preallocated
  array of records is never overrun, in whatever order the directory lists its files. When reading the directory fails half-way, the
  error is returned, but the same is done to the files read until then.
\<close>
theorem cleanup_dir_keeps_newest:
  assumes "0 < max_entries" "max_entries \<le> 2147483642" "\<forall>p. ce_node_ok env p" "\<forall>p. ce_strdup_ok env p"
    and prefix: "path_prefix dn = Some prefix" and tail: "ds = [] \<and> res = 0 \<or> (\<exists>more. ds = ReadError res # more)"
  shows "\<exists>deleted left.
    UTIL_cleanup_dir env (Some dn) max_entries hid True (True, True) (Some m) (Inr (map Entry names @ ds)) del_cb
      = Some (res, map (\<lambda>d. prefix @ fst d) deleted,
          if del_cb then filter (ce_unlink env) (map (\<lambda>d. prefix @ fst d) deleted) else []) \<and>
    mset deleted + left = mset (eligible env hid prefix names) \<and>
    (\<forall>d \<in> set deleted. \<forall>k \<in># left. snd d \<le> snd k) \<and>
    size left = min (nat max_entries) (length (eligible env hid prefix names))"
proof -
  let ?mx = "nat max_entries" and ?es = "mset (eligible env hid prefix names)"
  obtain q where q: "ps_pqueue_init True True (?mx + 5) cleanup_cbs = Some q" by (simp add: ps_pqueue_init_def)
  let ?l = "\<lparr>cl_mem = m, cl_queue = q, cl_next = 0, cl_unlink = []\<rparr>"
  have mx: "1 \<le> ?mx" using assms(1) by simp
  have "scan_inv ?mx prefix {#} ?l"
    using pq_inv_init [OF q, of m] mx by (simp add: scan_inv_def cl_inv_def kept_def oldest_def)
  then obtain l' where l': "cleanup_scan env ?mx hid prefix (map Entry names @ ds) ?l = cleanup_scan env ?mx hid prefix ds l'"
    "scan_inv ?mx prefix ?es l'"
    using cleanup_scan_inv [of ?mx prefix "{#}" ?l env hid names ds] mx assms(3,4) by auto
  obtain dl where dl: "cl_unlink l' = map (\<lambda>h. Some (prefix @ fst h)) dl" "oldest ?mx ?es (mset dl) (kept l')"
    using l'(2) by (auto simp: scan_inv_def)
  have "cleanup_scan env ?mx hid prefix ds l' = Some (res, True, l')" using tail by auto
  moreover have "map the (filter (\<lambda>f. f \<noteq> None) (cl_unlink l')) = map (\<lambda>d. prefix @ fst d) dl"
    by (simp add: dl(1) filter_map o_def)
  ultimately have "UTIL_cleanup_dir env (Some dn) max_entries hid True (True, True) (Some m) (Inr (map Entry names @ ds)) del_cb
      = Some (res, map (\<lambda>d. prefix @ fst d) dl, if del_cb then filter (ce_unlink env) (map (\<lambda>d. prefix @ fst d) dl) else [])"
    using prefix assms(1,2) q l'(1) by (simp add: UTIL_cleanup_dir_def Let_def)
  moreover have "mset dl + kept l' = ?es" "\<forall>d \<in> set dl. \<forall>k \<in># kept l'. snd d \<le> snd k"
    using dl(2) by (auto simp: oldest_def)
  moreover have "size (kept l') = min ?mx (length (eligible env hid prefix names))"
  proof -
    have e: "length (eligible env hid prefix names) = length dl + size (kept l')"
      using arg_cong [OF calculation(2), of size] by simp
    have "size (kept l') \<le> ?mx" "dl \<noteq> [] \<longrightarrow> size (kept l') = ?mx" using dl(2) by (auto simp: oldest_def)
    then show ?thesis using e by (cases "dl = []") auto
  qed
  ultimately show ?thesis by blast
qed

definition ex_dir_env :: "int cleanup_env" where
  "ex_dir_env = \<lparr>ce_stat = (\<lambda>p. Some (int (length p))), ce_mtime = (\<lambda>t. t), ce_modtime_cb = None, ce_node_ok = (\<lambda>_. True),
     ce_strdup_ok = (\<lambda>_. True), ce_grow_ok = False, ce_unlink = (\<lambda>_. True)\<rparr>"

theorem cleanup_dir_keeps_newest_witness:
  "\<exists>deleted left.
     UTIL_cleanup_dir ex_dir_env (Some ''d'') 2 True True (True, True) (Some (\<lambda>_. \<lparr>cs_name = [], cs_score = Timeval 0 0, cs_pos = 0\<rparr>))
       (Inr (map Entry [''.'', ''bbb'', ''a'', ''cc'', ''.x''] @ [])) True
       = Some (0, map (\<lambda>d. ''d/'' @ fst d) deleted, map (\<lambda>d. ''d/'' @ fst d) deleted) \<and>
     mset deleted + left = {#(''bbb'', Timeval 5 0), (''a'', Timeval 3 0), (''cc'', Timeval 4 0)#} \<and>
     (\<forall>d \<in> set deleted. \<forall>k \<in># left. snd d \<le> snd k) \<and> size left = 2"
proof -
  have e: "eligible ex_dir_env True ''d/'' [''.'', ''bbb'', ''a'', ''cc'', ''.x''] = [(''bbb'', Timeval 5 0), (''a'', Timeval 3 0), (''cc'', Timeval 4 0)]"
    by (simp add: ex_dir_env_def skipped_entry_def score_of_def)
  have "path_prefix ''d'' = Some ''d/''" by (simp add: path_prefix_def)
  from cleanup_dir_keeps_newest [of 2 ex_dir_env "''d''" "''d/''" "[]" 0 True "\<lambda>_. \<lparr>cs_name = [], cs_score = Timeval 0 0, cs_pos = 0\<rparr>"
      "[''.'', ''bbb'', ''a'', ''cc'', ''.x'']" True, OF _ _ _ _ this, unfolded e]
  show ?thesis by (simp add: ex_dir_env_def numeral_2_eq_2)
qed

section \<open>The fields of a line\<close>

lemma trim_spaces:
  assumes "list_all isspace a" "list_all isspace b" "s = [] \<or> \<not> isspace (hd s) \<and> \<not> isspace (last s)"
  shows "trim (a @ s @ b) = s"
proof (cases "s = []")
  case True
  then show ?thesis using assms(1,2) True by (auto simp: trim_def list_all_iff dropWhile_append dest: set_dropWhileD)
next
  case False
  have "dropWhile isspace (a @ s @ b) = s @ b"
    using assms False by (cases s) (auto simp: dropWhile_append list_all_iff)
  moreover have "dropWhile isspace (rev b @ rev s) = rev s"
    using assms False by (cases s rule: rev_cases) (auto simp: dropWhile_append list_all_iff)
  ultimately show ?thesis by (simp add: trim_def)
qed

lemma cpu_field_line:
  assumes "CHR '':'' \<notin> set a" "CHR '':'' \<notin> set label" "CHR '':'' \<notin> set b" "list_all isspace a" "list_all isspace b" "list_all isspace c" "list_all isspace d"
    and "label = [] \<or> \<not> isspace (hd label) \<and> \<not> isspace (last label)" "v = [] \<or> \<not> isspace (hd v) \<and> \<not> isspace (last v)"
  shows "cpu_field ((a @ label @ b) @ CHR '':'' # (c @ v @ d)) = Some (label, v)"
proof -
  have "takeWhile (\<lambda>c. c \<noteq> CHR '':'') ((a @ label @ b) @ CHR '':'' # (c @ v @ d)) = a @ label @ b"
    "dropWhile (\<lambda>c. c \<noteq> CHR '':'') ((a @ label @ b) @ CHR '':'' # (c @ v @ d)) = CHR '':'' # (c @ v @ d)"
    using assms(1-3) by (auto simp: takeWhile_append dropWhile_append)
  then show ?thesis using trim_spaces assms by (simp add: cpu_field_def del: append_assoc)
qed

end
