(* ===== verification/Data_Req.thy ===== *)
theory Data_Req
  imports Commands
begin

text \<open>
  Requests for telemetry: the list of types a sender asks for (\<open>IPC_fill_datareq_va\<close>, \<open>IPC_data\<close> of \<open>ipc.c\<close>) and the
  handler that answers it (\<open>cmd_handle_data_req\<close> of \<open>cmd.c\<close>), which calls the populator of every type and packs what they
  deliver.

  A populator is a function from the command state to the new state and the list of the calls it
  makes to its callback, each with the structure and an error code; \<open>pop ty = None\<close> says that there is no definition
  or no populator for the type. As in \<open>Commands\<close>, \<open>None\<close> is an access outside an object.
\<close>

section \<open>Asking\<close>

text \<open>
  The items are the variable arguments; reading on without a final 0 is undefined. \<open>reqs\<close> is the block, \<open>None\<close> before
  it is allocated; the result of \<open>realloc\<close> is not checked.
\<close>

fun fill_items :: "(nat \<Rightarrow> bool) \<Rightarrow> int list \<Rightarrow> nat \<Rightarrow> u32 list option \<Rightarrow> (nat \<times> u32 list option) option" where
  "fill_items alloc [] allocLen reqs = None"
| "fill_items alloc (item # items) allocLen reqs =
     (if item \<le> 0 then Some (allocLen, reqs)
      else
        let full = (reqs = None \<or> length (the reqs) = allocLen);
            n = (if full then 2 * allocLen else allocLen)
        in if full \<and> \<not> alloc (4 * n) then None
           else fill_items alloc items n (Some ((case reqs of None \<Rightarrow> [] | Some rs \<Rightarrow> rs) @ [of_int item])))"

definition IPC_fill_datareq_va :: "(nat \<Rightarrow> bool) \<Rightarrow> int list \<Rightarrow> IPC_DataReq option" where
  "IPC_fill_datareq_va alloc items =
     (case fill_items alloc items 8 None of
        None \<Rightarrow> None
      | Some (_, None) \<Rightarrow> Some \<lparr>dr_length = 0, dr_reqs = Null\<rparr>
      | Some (_, Some rs) \<Rightarrow> Some \<lparr>dr_length = of_nat (length rs), dr_reqs = Ref rs\<rparr>)"

definition IPC_data ::
  "(nat \<Rightarrow> bool) \<Rightarrow> int list \<Rightarrow> sockaddr \<Rightarrow> ptr \<Rightarrow> ptr \<Rightarrow> IPC_CB_TYPE \<Rightarrow> nat \<Rightarrow> ptr \<Rightarrow> ptr option
     \<Rightarrow> u32 \<Rightarrow> CommandCbArg \<Rightarrow> (int \<times> u32 \<times> CommandCbArg \<times> effect list) option" where
  "IPC_data alloc items addr cb arg cb_type timeout node to_evt next_cmd_ref st =
     (case IPC_fill_datareq_va alloc items of
        None \<Rightarrow> None
      | Some req \<Rightarrow>
          if dr_reqs req \<noteq> Null
          then IPC_command alloc IPC_CMDS_DATA_REQ \<lparr>un_type = IPC_TYPES_DATAREQ, un_data = Ref (V_DataReq req)\<rparr>
                 addr cb arg cb_type timeout node to_evt next_cmd_ref st
          else Some (-1, next_cmd_ref, st, []))"

section \<open>Answering\<close>

definition heartbeat_populator :: "CommandCbArg \<Rightarrow> CommandCbArg \<times> (ipc_value cptr \<times> u32) list" where
  "heartbeat_populator st =
     (let b = (ca_beats st)\<lparr>hb_heartbeats := hb_heartbeats (ca_beats st) + 1\<rparr>
      in (st\<lparr>ca_beats := b\<rparr>, [(Ref (V_Heartbeat b), IPC_RESULTCODE_SUCCESS)]))"

text \<open>The first attempt into 256 bytes, the second into as many as the first one needed and 16 more.\<close>

definition CMD_struct_to_opaque_struct :: "(nat \<Rightarrow> bool) \<Rightarrow> ipc_value cptr \<Rightarrow> u32 \<Rightarrow> IPC_OpaqueStruct option" where
  "CMD_struct_to_opaque_struct alloc src ty =
     (let un = \<lparr>un_type = ty, un_data = src\<rparr>;
          empty = \<lparr>os_length = 0, os_data = Null\<rparr>;
          block = (\<lambda>n. if alloc n then Some (replicate n 0) else None);
          packed = (\<lambda>n d. \<lparr>os_length = of_nat n, os_data = (case d of Some b \<Rightarrow> Ref b | None \<Rightarrow> Null)\<rparr>)
      in if src = Null then Some empty
         else (case XDR_encode_union (ipc_defs alloc) (Ref un) (block 256) 256 of
                 EFault \<Rightarrow> None
               | ERet rc needed d \<Rightarrow>
                   if rc < 0 then
                     if 256 \<ge> needed then Some empty
                     else (case XDR_encode_union (ipc_defs alloc) (Ref un) (block (needed + 16)) (needed + 16) of
                             EFault \<Rightarrow> None
                           | ERet rc2 needed2 d2 \<Rightarrow> if rc2 < 0 then Some empty else Some (packed needed2 d2))
                   else Some (packed needed d)))"

record DataReqParams =
  dp_dest :: IPC_OpaqueStruct
  dp_type :: u32
  dp_direct_resp :: bool
  dp_cmd :: IPC_Command
  dp_from :: sockaddr

definition data_req_populate_cb ::
  "(nat \<Rightarrow> bool) \<Rightarrow> ipc_value cptr \<Rightarrow> u32 \<Rightarrow> DataReqParams \<Rightarrow> (DataReqParams \<times> effect list) option" where
  "data_req_populate_cb alloc data error params =
     (if data = Null then Some (params, [])
      else if dp_direct_resp params then
        map_option (\<lambda>es. (params, es))
          (if error \<noteq> IPC_RESULTCODE_SUCCESS then IPC_error alloc (dp_cmd params) error (dp_from params)
           else IPC_response alloc (dp_cmd params) \<lparr>un_type = dp_type params, un_data = data\<rparr> (dp_from params))
      else
        map_option (\<lambda>os. (params\<lparr>dp_dest := os\<rparr>, []))
          (if error \<noteq> IPC_RESULTCODE_SUCCESS
           then CMD_struct_to_opaque_struct alloc (Ref (V_PopulatorError \<lparr>pe_type = dp_type params, pe_error = error\<rparr>))
                  IPC_TYPES_POPULATOR_ERROR
           else CMD_struct_to_opaque_struct alloc data (dp_type params)))"

fun populate_calls ::
  "(nat \<Rightarrow> bool) \<Rightarrow> (ipc_value cptr \<times> u32) list \<Rightarrow> DataReqParams \<Rightarrow> (DataReqParams \<times> effect list) option" where
  "populate_calls alloc [] params = Some (params, [])"
| "populate_calls alloc ((data, error) # calls) params =
     (case data_req_populate_cb alloc data error params of
        None \<Rightarrow> None
      | Some (params1, es) \<Rightarrow>
          map_option (\<lambda>(params2, es'). (params2, es @ es')) (populate_calls alloc calls params1))"

type_synonym populators = "u32 \<Rightarrow> (CommandCbArg \<Rightarrow> CommandCbArg \<times> (ipc_value cptr \<times> u32) list) option"

text \<open>
  The loop over the requested types. \<open>out\<close> are the structures packed so far; the slot a populator writes to is empty
  before it, since a slot is passed over only while it holds data.
\<close>

fun data_req_loop ::
  "(nat \<Rightarrow> bool) \<Rightarrow> populators \<Rightarrow> bool \<Rightarrow> u32 list \<Rightarrow> DataReqParams \<Rightarrow> IPC_OpaqueStruct list \<Rightarrow> CommandCbArg
     \<Rightarrow> (DataReqParams \<times> IPC_OpaqueStruct list \<times> CommandCbArg \<times> effect list) option" where
  "data_req_loop alloc pop single [] params out st = Some (params, out, st, [])"
| "data_req_loop alloc pop single (ty # tys) params out st =
     (case pop ty of
        None \<Rightarrow> data_req_loop alloc pop single tys params out st
      | Some populate \<Rightarrow>
          let params1 = params\<lparr>dp_dest := zero_OpaqueStruct, dp_type := ty,
                               dp_direct_resp := (if single then True else dp_direct_resp params)\<rparr>;
              (st1, calls) = populate st
          in (case populate_calls alloc calls params1 of
                None \<Rightarrow> None
              | Some (params2, es) \<Rightarrow>
                  map_option (\<lambda>(p, o', s, es'). (p, o', s, es @ es'))
                    (data_req_loop alloc pop single tys params2
                       (if os_data (dp_dest params2) \<noteq> Null then out @ [dp_dest params2] else out) st1)))"

text \<open>
  After a failed \<open>malloc\<close> the error is sent and the code goes on to clear the missing block. A parameter that is not a
  data request has been ruled out by the type, and a count larger than the array by the decoder.
\<close>

definition cmd_handle_data_req ::
  "(nat \<Rightarrow> bool) \<Rightarrow> populators \<Rightarrow> IPC_Command \<Rightarrow> sockaddr \<Rightarrow> CommandCbArg \<Rightarrow> (CommandCbArg \<times> effect list) option" where
  "cmd_handle_data_req alloc pop cmd from st =
     (if un_type (ic_parameters cmd) \<noteq> IPC_TYPES_DATAREQ
      then map_option (\<lambda>es. (st, es)) (IPC_error alloc cmd IPC_RESULTCODE_INCORRECT_PARAMETER_TYPE from)
      else
        let void = map_option (\<lambda>es. (st, es)) (IPC_response alloc cmd \<lparr>un_type = IPC_TYPES_VOID, un_data = Null\<rparr> from)
        in case un_data (ic_parameters cmd) of
             Null \<Rightarrow> void
           | Ref (V_DataReq req) \<Rightarrow>
               let n = sint (dr_length req)
               in (case dr_reqs req of
                     Null \<Rightarrow> void
                   | Wild \<Rightarrow> if n \<le> 0 \<or> n > 1024 then void else None
                   | Ref reqs \<Rightarrow>
                       if n \<le> 0 \<or> n > 1024 then void
                       else if \<not> alloc (16 * nat n) \<or> length reqs < nat n then None
                       else (case data_req_loop alloc pop (n = 1) (take (nat n) reqs)
                                    \<lparr>dp_dest = zero_OpaqueStruct, dp_type = 0, dp_direct_resp = False, dp_cmd = cmd, dp_from = from\<rparr> [] st of
                               None \<Rightarrow> None
                             | Some (params, out, st1, es) \<Rightarrow>
                                 if dp_direct_resp params then Some (st1, es)
                                 else map_option (\<lambda>es'. (st1, es @ es'))
                                        (IPC_response alloc cmd
                                           \<lparr>un_type = IPC_TYPES_OPAQUE_STRUCT_ARR,
                                            un_data = Ref (V_OpaqueStructArr \<lparr>oa_length = of_nat (length out), oa_structs = Ref out\<rparr>)\<rparr> from)))
           | _ \<Rightarrow> None)"

end
