(* ===== verification/Data_Req_Correct.thy ===== *)
theory Data_Req_Correct
  imports Data_Req Commands_Correct Xdr_Bits
begin

text \<open>
  A request for telemetry is answered with what the populators deliver: the packet the handler sends, walked by
  the receiver, shows exactly their structures.

  The coder of byte arrays refuses to fill a buffer to its last byte, so that the round trips of \<open>Packets_Correct\<close> do
  not apply to a response with packed structures; \<open>fits\<close> is the encoding into a buffer with room to spare.
\<close>

section \<open>Encoding with room to spare\<close>

definition fits :: "'a encoder \<Rightarrow> 'a cptr \<Rightarrow> u8 list \<Rightarrow> bool" where
  "fits enc p bs \<longleftrightarrow>
     (\<forall>buf mx. length bs < mx \<longrightarrow> mx \<le> length buf \<longrightarrow> mx < 2 ^ 64 \<longrightarrow>
        enc p (Some buf) mx = ERet 0 (length bs) (Some (bs @ drop (length bs) buf)))"

lemma fitsD:
  "fits enc p bs \<Longrightarrow> length bs < mx \<Longrightarrow> mx \<le> length buf \<Longrightarrow> mx < 2 ^ 64 \<Longrightarrow>
     enc p (Some buf) mx = ERet 0 (length bs) (Some (bs @ drop (length bs) buf))"
  by (simp add: fits_def)

lemma fits_codec: "rt_codec enc dec bytes valid (2 ^ 64) \<Longrightarrow> valid x \<Longrightarrow> fits enc (Ref x) (bytes x)"
  unfolding fits_def using rt_codec.enc_fits [of enc dec bytes valid "2 ^ 64" x] by auto

lemma enc_at_fits:
  assumes "fits enc p b" "off + length b < mx" "mx \<le> length buf" "mx < 2 ^ 64"
  shows "enc_at off (\<lambda>d. enc p d (size_sub mx off)) buf
    = ERet 0 (length b) (Some (take off buf @ b @ drop (off + length b) buf))"
proof -
  have "enc p (Some (drop off buf)) (mx - off) = ERet 0 (length b) (Some (b @ drop (length b) (drop off buf)))"
    by (rule fitsD [OF assms(1)]) (use assms(2-4) in auto)
  then show ?thesis using assms(2,4) by (simp add: enc_at_def add.commute)
qed

lemma spliced:
  assumes "off + length b \<le> length buf"
  shows "take (off + length b) (take off buf @ b @ drop (off + length b) buf) = take off buf @ b"
    "drop (off + length b + n) (take off buf @ b @ drop (off + length b) buf) = drop (off + length b + n) buf"
  using assms by (simp_all add: add.commute add.left_commute)

lemma struct_encode_spare:
  assumes "list_all2 (\<lambda>f b. fits (xf_encoder f) (Ref s) b) fs bs" "off + length (concat bs) < mx" "mx \<le> length buf" "mx < 2 ^ 64"
  shows "struct_encode fs (Ref s) (Some buf) mx off 0
    = ERet 0 (off + length (concat bs)) (Some (take off buf @ concat bs @ drop (off + length (concat bs)) buf))"
  using assms
proof (induction fs bs arbitrary: off buf rule: list_all2_induct)
  case (Cons f fs b bs)
  let ?buf = "take off buf @ b @ drop (off + length b) buf"
  have e: "enc_at off (\<lambda>d. xf_encoder f (Ref s) d (size_sub mx off)) buf = ERet 0 (length b) (Some ?buf)"
    by (rule enc_at_fits [OF Cons.hyps(1)]) (use Cons.prems in auto)
  have "struct_encode fs (Ref s) (Some ?buf) mx (off + length b) 0
      = ERet 0 (off + length b + length (concat bs))
          (Some (take (off + length b) ?buf @ concat bs @ drop (off + length b + length (concat bs)) ?buf))"
    by (rule Cons.IH) (use Cons.prems in auto)
  then show ?case using e spliced [of off b buf] Cons.prems by (simp add: add.assoc)
qed simp

lemma fits_struct:
  "list_all2 (\<lambda>f b. fits (xf_encoder f) (Ref s) b) fs bs \<Longrightarrow> fits (XDR_struct_encoder (Some fs)) (Ref s) (concat bs)"
  unfolding fits_def [of "XDR_struct_encoder (Some fs)"]
  using struct_encode_spare [of s fs bs 0] by (simp add: XDR_struct_encoder_def)

lemma array_encode_spare:
  assumes "\<And>x. x \<in> set xs \<Longrightarrow> fits enc (Ref x) (b x)" "off + length (concat (map b xs)) < mx" "mx \<le> length buf" "mx < 2 ^ 64"
  shows "array_encode enc (map Ref xs) (Some buf) True mx off 0
    = ERet 0 (off + length (concat (map b xs))) (Some (take off buf @ concat (map b xs) @ drop (off + length (concat (map b xs))) buf))"
  using assms
proof (induction xs arbitrary: off buf)
  case (Cons x xs)
  let ?b = "b x" let ?buf = "take off buf @ ?b @ drop (off + length ?b) buf"
  have e: "enc_at off (\<lambda>d. enc (Ref x) d (size_sub mx off)) buf = ERet 0 (length ?b) (Some ?buf)"
    by (rule enc_at_fits) (use Cons.prems in auto)
  have "array_encode enc (map Ref xs) (Some ?buf) True mx (off + length ?b) 0
      = ERet 0 (off + length ?b + length (concat (map b xs)))
          (Some (take (off + length ?b) ?buf @ concat (map b xs) @ drop (off + length ?b + length (concat (map b xs))) ?buf))"
    by (rule Cons.IH) (use Cons.prems in auto)
  then show ?case using e spliced [of off ?b buf] Cons.prems by (simp add: add.assoc)
qed simp

lemma fits_array:
  assumes "\<And>x. x \<in> set xs \<Longrightarrow> fits enc (Ref x) (b x)"
  shows "fits (\<lambda>p d mx. encode_array_field enc p d mx (Some (int (length xs)))) (Ref xs) (concat (map b xs))"
proof -
  have "map (elem_ptr (Ref xs)) [0 ..< length xs] = map Ref xs"
    by (rule nth_equalityI) (simp_all add: elem_ptr_def)
  then show ?thesis
    using array_encode_spare [of xs enc b 0] assms by (simp add: fits_def encode_array_field_def XDR_array_encoder_def)
qed

lemma fits_union:
  assumes "ipc_defs al ty = Some d" "xd_encoder d = Some enc" "fits enc p bs"
  shows "fits (XDR_encode_union (ipc_defs al)) (Ref \<lparr>un_type = ty, un_data = p\<rparr>) (be32 ty @ bs)"
  unfolding fits_def [of "XDR_encode_union (ipc_defs al)"]
proof (intro allI impI)
  fix buf :: "u8 list" and mx
  assume mx: "length (be32 ty @ bs) < mx" "mx \<le> length buf" "mx < 2 ^ 64"
  have t: "XDR_encode_uint32 (Ref ty) (Some buf) mx = ERet 0 4 (Some (be32 ty @ drop 4 buf))"
    using u32.enc_fits [of ty mx buf] mx by simp
  have "enc_at 4 (\<lambda>d. enc p d (size_sub mx 4)) (be32 ty @ drop 4 buf)
      = ERet 0 (length bs) (Some (take 4 (be32 ty @ drop 4 buf) @ bs @ drop (4 + length bs) (be32 ty @ drop 4 buf)))"
    by (rule enc_at_fits [OF assms(3)]) (use mx in auto)
  then show "XDR_encode_union (ipc_defs al) (Ref \<lparr>un_type = ty, un_data = p\<rparr>) (Some buf) mx
      = ERet 0 (length (be32 ty @ bs)) (Some ((be32 ty @ bs) @ drop (length (be32 ty @ bs)) buf))"
    using t assms(1,2) by (simp add: XDR_encode_union_def add.commute)
qed

lemma fits_scalar: "fits enc (Ref (get s)) b \<Longrightarrow> fits (xf_encoder (scalar_field first enc dec get upd)) (Ref s) b"
  by (simp add: fits_def scalar_field_def field_ptr_def)

lemma fits_u32 [simp]: "fits XDR_encode_uint32 (Ref w) (be32 w)" "fits XDR_encode_int32 (Ref w) (be32 w)"
  using fits_codec [OF u32.rt_codec_axioms] fits_codec [OF i32.rt_codec_axioms] by simp_all

section \<open>Packed structures\<close>

definition opaque :: "IPC_OpaqueStruct \<Rightarrow> u8 list \<Rightarrow> bool" where
  "opaque os bs \<longleftrightarrow>
     (\<exists>m. os_data os = Ref m \<and> take (length bs) m = bs) \<and> os_length os = of_nat (length bs) \<and> 4 dvd length bs \<and> length bs < 2 ^ 31 - 4"

lemma fits_opaque:
  assumes "opaque os bs"
  shows "fits (IPC_OpaqueStruct_encode al) (Ref os) (be32 (of_nat (length bs)) @ bs)"
proof -
  obtain m where m: "os_data os = Ref m" "take (length bs) m = bs" and l: "os_length os = of_nat (length bs)" "4 dvd length bs" "length bs < 2 ^ 31 - 4"
    using assms by (auto simp: opaque_def)
  have len: "length bs \<le> length m" using m(2) by (metis length_take min.cobounded1 min.commute)
  have s: "sint (os_length os) = int (length bs)"
    using l by (simp add: signed_of_nat signed_take_bit_int_eq_self)
  have p: "pad_len (int (length bs)) = 0" using l(2) by (auto simp: pad_len_nonneg elim!: dvdE)
  have z: "size_of_int (int (length bs)) = length bs" using l(3) by (simp add: size_of_int_nat)
  have "fits (xf_encoder (byte_array_field al os_length os_data (\<lambda>v s. s\<lparr>os_data := v\<rparr>))) (Ref os) bs"
    using m len l(3) by (auto simp: fits_def byte_array_field_def s XDR_encode_byte_array_def Let_def p z put_def)
  moreover have "fits (xf_encoder (scalar_field True XDR_encode_int32 XDR_decode_int32 os_length (\<lambda>v s. s\<lparr>os_length := v\<rparr>))) (Ref os) (be32 (of_nat (length bs)))"
    by (rule fits_scalar) (simp add: l(1))
  ultimately show ?thesis
    using fits_struct [of os "IPC_OpaqueStruct_Fields al" "[be32 (of_nat (length bs)), bs]"]
    by (simp add: IPC_OpaqueStruct_encode_def IPC_OpaqueStruct_Fields_def)
qed


lemma ipc_bytes_dvd: "ipc_valid ty v \<Longrightarrow> 4 dvd length (ipc_bytes ty v)"
  by (auto simp: ipc_valid_def ipc_bytes_def length_concat_const [where n = 4] split: ipc_value.splits)

lemma fits_value:
  assumes "ipc_valid ty v"
  shows "fits (XDR_encode_union (ipc_defs (\<lambda>_. True))) (Ref \<lparr>un_type = ty, un_data = Ref v\<rparr>) (be32 ty @ ipc_bytes ty v)"
proof -
  obtain e d where "ipc_defs (\<lambda>_. True) ty = Some \<lparr>xd_encoder = Some e, xd_decoder = Some d, xd_allocator = True\<rparr>"
    "rt_codec e d (ipc_bytes ty) (ipc_valid ty) (2 ^ 64)" using ipc.union_def [OF assms] by blast
  then show ?thesis using fits_union [of "\<lambda>_. True" ty _ e "Ref v"] fits_codec [of e d "ipc_bytes ty" "ipc_valid ty" v] assms by simp
qed

lemma struct_to_opaque:
  assumes v: "ipc_valid ty v" "length (ipc_bytes ty v) < 252"
  shows "\<exists>os. CMD_struct_to_opaque_struct (\<lambda>_. True) (Ref v) ty = Some os \<and> opaque os (be32 ty @ ipc_bytes ty v)"
proof -
  let ?bs = "be32 ty @ ipc_bytes ty v"
  have "XDR_encode_union (ipc_defs (\<lambda>_. True)) (Ref \<lparr>un_type = ty, un_data = Ref v\<rparr>) (Some (replicate 256 0)) 256
      = ERet 0 (length ?bs) (Some (?bs @ drop (length ?bs) (replicate 256 0)))"
    by (rule fitsD [OF fits_value [OF v(1)]]) (use v(2) in simp_all)
  then show ?thesis using v ipc_bytes_dvd [OF v(1)] by (auto simp: CMD_struct_to_opaque_struct_def Let_def opaque_def)
qed

section \<open>The answer\<close>

text \<open>
  What the populators deliver for a list of types, each calling its callback once: a type without a populator delivers nothing,
  an error is delivered as a structure of its own.
\<close>

definition obliging :: "populators \<Rightarrow> bool" where
  "obliging pop \<longleftrightarrow>
     (\<forall>ty p st. pop ty = Some p \<longrightarrow>
        (\<exists>st' v e. p st = (st', [(Ref v, e)]) \<and> (e = IPC_RESULTCODE_SUCCESS \<longrightarrow> ipc_valid ty v \<and> length (ipc_bytes ty v) < 252)))"

fun telemetry :: "populators \<Rightarrow> u32 list \<Rightarrow> CommandCbArg \<Rightarrow> (u32 \<times> ipc_value) list \<times> CommandCbArg" where
  "telemetry pop [] st = ([], st)"
| "telemetry pop (ty # tys) st =
     (case pop ty of
        None \<Rightarrow> telemetry pop tys st
      | Some p \<Rightarrow>
          (case p st of
             (st1, [(Ref v, e)]) \<Rightarrow>
               let (ds, st2) = telemetry pop tys st1
               in ((if e = IPC_RESULTCODE_SUCCESS then (ty, v)
                    else (IPC_TYPES_POPULATOR_ERROR, V_PopulatorError \<lparr>pe_type = ty, pe_error = e\<rparr>)) # ds, st2)
           | (st1, _) \<Rightarrow> telemetry pop tys st1))"

definition item_bytes :: "u32 \<times> ipc_value \<Rightarrow> u8 list" where
  "item_bytes d = be32 (fst d) @ ipc_bytes (fst d) (snd d)"

lemma telemetry_length: "length (fst (telemetry pop tys st)) \<le> length tys"
proof (induction tys arbitrary: st)
  case (Cons ty tys)
  have "length (fst (telemetry pop tys st')) \<le> Suc (length tys)" for st' using Cons [of st'] by simp
  then show ?case using Cons by (auto simp: split_beta Let_def split: option.splits prod.splits list.splits cptr.splits)
qed simp

lemma data_req_loop_telemetry:
  assumes ob: "obliging pop" and d: "\<not> dp_direct_resp params"
  shows "\<exists>params' out'. data_req_loop (\<lambda>_. True) pop False tys params out st = Some (params', out @ out', snd (telemetry pop tys st), [])
    \<and> \<not> dp_direct_resp params' \<and> list_all2 (\<lambda>os d. opaque os (item_bytes d) \<and> ipc_valid (fst d) (snd d)) out' (fst (telemetry pop tys st))"
  using d
proof (induction tys arbitrary: params out st)
  case (Cons ty tys)
  show ?case
  proof (cases "pop ty")
    case (Some p)
    obtain st1 v e where p: "p st = (st1, [(Ref v, e)])" and v: "e = IPC_RESULTCODE_SUCCESS \<Longrightarrow> ipc_valid ty v \<and> length (ipc_bytes ty v) < 252"
      using ob Some by (metis obliging_def)
    define d where "d = (if e = IPC_RESULTCODE_SUCCESS then (ty, v)
                    else (IPC_TYPES_POPULATOR_ERROR, V_PopulatorError \<lparr>pe_type = ty, pe_error = e\<rparr>))"
    have dv: "ipc_valid (fst d) (snd d)" "length (ipc_bytes (fst d) (snd d)) < 252"
      using v by (cases "e = IPC_RESULTCODE_SUCCESS"; simp add: d_def; simp add: ipc_valid_def ipc_bytes_def)+
    obtain os where os: "CMD_struct_to_opaque_struct (\<lambda>_. True) (Ref (snd d)) (fst d) = Some os" "opaque os (item_bytes d)"
      using struct_to_opaque [OF dv] by (auto simp: item_bytes_def)
    let ?p1 = "params\<lparr>dp_dest := zero_OpaqueStruct, dp_type := ty, dp_direct_resp := False\<rparr>"
    have cb: "data_req_populate_cb (\<lambda>_. True) (Ref v) e ?p1 = Some (?p1\<lparr>dp_dest := os\<rparr>, [])"
      using os(1) Cons.prems by (simp add: data_req_populate_cb_def d_def split: if_splits)
    have nn: "os_data os \<noteq> Null" using os(2) by (auto simp: opaque_def)
    obtain params' out' where rest: "data_req_loop (\<lambda>_. True) pop False tys (?p1\<lparr>dp_dest := os\<rparr>) (out @ [os]) st1
        = Some (params', (out @ [os]) @ out', snd (telemetry pop tys st1), [])" "\<not> dp_direct_resp params'"
        "list_all2 (\<lambda>os d. opaque os (item_bytes d) \<and> ipc_valid (fst d) (snd d)) out' (fst (telemetry pop tys st1))"
      using Cons.IH [of "?p1\<lparr>dp_dest := os\<rparr>" "out @ [os]" st1] Cons.prems by auto
    have "telemetry pop (ty # tys) st = (d # fst (telemetry pop tys st1), snd (telemetry pop tys st1))"
      using Some p by (simp add: d_def split_beta Let_def)
    moreover have "data_req_loop (\<lambda>_. True) pop False (ty # tys) params out st
        = Some (params', out @ os # out', snd (telemetry pop tys st1), [])"
      using Some p cb nn rest(1) Cons.prems by (simp add: Let_def)
    ultimately show ?thesis using rest(2,3) os(2) dv(1)
      by (intro exI [of _ params'] exI [of _ "os # out'"]) simp
  qed (use Cons in simp)
qed simp


lemma array_field_bytes:
  assumes out: "list_all2 (\<lambda>os d. opaque os (item_bytes d) \<and> ipc_valid (fst d) (snd d)) out ds" and n: "length ds < 2 ^ 31"
  shows "fits (XDR_encode_union (ipc_defs (\<lambda>_. True)))
      (Ref \<lparr>un_type = IPC_TYPES_OPAQUE_STRUCT_ARR, un_data = Ref (V_OpaqueStructArr \<lparr>oa_length = of_nat (length out), oa_structs = Ref out\<rparr>)\<rparr>)
      (body_bytes (Arr (map (\<lambda>d. Struct (fst d) (ipc_bytes (fst d) (snd d))) ds)))"
proof -
  define s where "s = \<lparr>oa_length = of_nat (length out) :: u32, oa_structs = Ref out\<rparr>"
  define b where "b os = be32 (os_length os) @ take (unat (os_length os)) (case os_data os of Ref m \<Rightarrow> m | _ \<Rightarrow> [])" for os :: IPC_OpaqueStruct
  have l: "length out = length ds" using out by (rule list_all2_lengthD)
  have ob: "b os = be32 (of_nat (length bs)) @ bs" if "opaque os bs" for os bs
    using that by (auto simp: b_def opaque_def unat_of_nat take_bit_nat_eq_self)
  have "\<exists>bs. opaque os bs" if "os \<in> set out" for os
    using out that by (metis (no_types, lifting) in_set_conv_nth list_all2_conv_all_nth)
  then have "fits (IPC_OpaqueStruct_encode (\<lambda>_. True)) (Ref os) (b os)" if "os \<in> set out" for os
    using fits_opaque ob that by metis
  note arr = fits_array [of out "IPC_OpaqueStruct_encode (\<lambda>_. True)" b, OF this]
  have sl: "sint (oa_length s) = int (length out)" using n l by (simp add: s_def signed_of_nat signed_take_bit_int_eq_self)
  have "concat (map b out) = concat (map (\<lambda>d. be32 (of_nat (length (item_bytes d))) @ item_bytes d) ds)"
    using out by (induction rule: list_all2_induct) (simp_all add: ob)
  moreover have "list_all2 (\<lambda>f. fits (xf_encoder f) (Ref s)) (IPC_OpaqueStructArr_Fields (\<lambda>_. True)) [be32 (oa_length s), concat (map b out)]"
    using arr by (simp add: IPC_OpaqueStructArr_Fields_def fits_scalar)
      (simp add: fits_def sl IPC_OpaqueStruct_encode_array_def, simp add: s_def)
  ultimately have f: "fits (IPC_OpaqueStructArr_encode (\<lambda>_. True)) (Ref s)
      (be32 (oa_length s) @ concat (map (\<lambda>d. be32 (of_nat (length (item_bytes d))) @ item_bytes d) ds))"
    using fits_struct [of s "IPC_OpaqueStructArr_Fields (\<lambda>_. True)"] by (force simp: IPC_OpaqueStructArr_encode_def)
  define enc where "enc = (\<lambda>p. IPC_OpaqueStructArr_encode (\<lambda>_. True) (case p of
         Ref v \<Rightarrow> (case (case v of V_OpaqueStructArr s \<Rightarrow> Some s | _ \<Rightarrow> None) of Some s \<Rightarrow> Ref s | None \<Rightarrow> Wild) | Null \<Rightarrow> Null | Wild \<Rightarrow> Wild))"
  obtain d where d: "ipc_defs (\<lambda>_. True) IPC_TYPES_OPAQUE_STRUCT_ARR = Some d" by (simp add: ipc_defs_def ipc_numbers)
  have "xd_encoder d = Some enc" using d by (auto simp: ipc_defs_def ipc_numbers value_def_def enc_def)
  moreover have "enc (Ref (V_OpaqueStructArr s)) = IPC_OpaqueStructArr_encode (\<lambda>_. True) (Ref s)" by (simp add: enc_def)
  then have "fits enc (Ref (V_OpaqueStructArr s))
      (be32 (oa_length s) @ concat (map (\<lambda>d. be32 (of_nat (length (item_bytes d))) @ item_bytes d) ds))"
    using f by (simp only: fits_def)
  ultimately have "fits (XDR_encode_union (ipc_defs (\<lambda>_. True))) (Ref \<lparr>un_type = IPC_TYPES_OPAQUE_STRUCT_ARR, un_data = Ref (V_OpaqueStructArr s)\<rparr>)
      (be32 IPC_TYPES_OPAQUE_STRUCT_ARR @ be32 (oa_length s) @ concat (map (\<lambda>d. be32 (of_nat (length (item_bytes d))) @ item_bytes d) ds))"
    by (rule fits_union [OF d])
  moreover have "body_bytes (Arr (map (\<lambda>d. Struct (fst d) (ipc_bytes (fst d) (snd d))) ds))
      = be32 IPC_TYPES_OPAQUE_STRUCT_ARR @ be32 (oa_length s) @ concat (map (\<lambda>d. be32 (of_nat (length (item_bytes d))) @ item_bytes d) ds)"
    by (simp add: s_def l item_bytes_def o_def)
  ultimately show ?thesis by (simp only: s_def)
qed


lemma fits_response:
  assumes "fits (XDR_encode_union (ipc_defs (\<lambda>_. True))) (Ref (ir_data r)) bs"
  shows "fits (IPC_Response_encode (\<lambda>_. True)) (Ref r) ((be32 (ir_cmd r) @ be32 (ir_ipcref r) @ be32 (ir_result r)) @ bs)"
proof -
  have "list_all2 (\<lambda>f. fits (xf_encoder f) (Ref r)) (IPC_Response_Fields (\<lambda>_. True)) [be32 (ir_cmd r), be32 (ir_ipcref r), be32 (ir_result r), bs]"
    using assms by (simp add: IPC_Response_Fields_def union_field_def fits_scalar)
  from fits_struct [OF this] show ?thesis by (simp add: IPC_Response_encode_def)
qed

lemma response_sends:
  assumes f: "fits (XDR_encode_union (ipc_defs (\<lambda>_. True))) (Ref un) bs" and l: "length bs < 1012"
  shows "IPC_response (\<lambda>_. True) cmd un dest
    = Some [Send (Some ((be32 IPC_CMDS_RESPONSE @ be32 (ic_ipcref cmd) @ be32 IPC_RESULTCODE_SUCCESS) @ bs)) dest]"
proof -
  let ?r = "\<lparr>ir_cmd = IPC_CMDS_RESPONSE, ir_ipcref = ic_ipcref cmd, ir_result = IPC_RESULTCODE_SUCCESS, ir_data = un\<rparr>"
  let ?b = "(be32 IPC_CMDS_RESPONSE @ be32 (ic_ipcref cmd) @ be32 IPC_RESULTCODE_SUCCESS) @ bs"
  have "fits (IPC_Response_encode (\<lambda>_. True)) (Ref ?r) ?b" using fits_response [of ?r bs] f by simp
  then have "IPC_Response_encode (\<lambda>_. True) (Ref ?r) (Some (replicate 1024 0)) 1024
      = ERet 0 (length ?b) (Some (?b @ drop (length ?b) (replicate 1024 0)))"
    by (rule fitsD) (use l in simp_all)
  then have "encode_retry (\<lambda>_. True) (IPC_Response_encode (\<lambda>_. True) (Ref ?r)) 1024 = Encoded (Some ?b)"
    by (simp add: encode_retry_def)
  then show ?thesis by (simp add: IPC_response_def)
qed

text \<open>
  C22: A request for telemetry is answered with what the populators deliver. For a request of 2 to 1024 types whose populators call
  back once each with a structure that fits its slot, \<open>cmd_handle_data_req\<close> runs the populators in the order of the request,
  and, if the packed structures take less than 1012 bytes, sends exactly one packet back to the sender: a
  successful response with the reference of the request. Whoever walks the body of that packet with
  \<open>CMD_iterate_structs\<close> is shown exactly the structures delivered, in order, an error as a structure of its own; types without a
  populator are left out.
\<close>
theorem data_request_answered:
  assumes "obliging pop" and p: "ic_parameters cmd = \<lparr>un_type = IPC_TYPES_DATAREQ, un_data = Ref (V_DataReq \<lparr>dr_length = of_nat (length reqs), dr_reqs = Ref reqs\<rparr>)\<rparr>"
    and n: "2 \<le> length reqs" "length reqs \<le> 1024"
    and small: "8 + (\<Sum>d \<leftarrow> fst (telemetry pop reqs st). 8 + length (ipc_bytes (fst d) (snd d))) < 1012"
  shows "\<exists>header body. cmd_handle_data_req (\<lambda>_. True) pop cmd from st = Some (snd (telemetry pop reqs st), [Send (Some (header @ body)) from]) \<and>
    length header = 12 \<and>
    IPC_ResponseHeader_decode junk (header @ body @ rest) (length (header @ body))
      = DOk 12 \<lparr>rh_cmd = IPC_CMDS_RESPONSE, rh_ipcref = ic_ipcref cmd, rh_result = IPC_RESULTCODE_SUCCESS\<rparr> \<and>
    visits_to (CMD_iterate_structs (body @ rest) (length body)) (map (\<lambda>d. (fst d, ipc_bytes (fst d) (snd d))) (fst (telemetry pop reqs st)))"
proof -
  let ?ds = "fst (telemetry pop reqs st)" and ?tree = "Arr (map (\<lambda>d. Struct (fst d) (ipc_bytes (fst d) (snd d))) (fst (telemetry pop reqs st)))"
  let ?params = "\<lparr>dp_dest = zero_OpaqueStruct, dp_type = 0, dp_direct_resp = False, dp_cmd = cmd, dp_from = from\<rparr>"
  let ?header = "be32 IPC_CMDS_RESPONSE @ be32 (ic_ipcref cmd) @ be32 IPC_RESULTCODE_SUCCESS"
  obtain params' out where loop: "data_req_loop (\<lambda>_. True) pop False reqs ?params [] st = Some (params', out, snd (telemetry pop reqs st), [])"
      "\<not> dp_direct_resp params'" and out: "list_all2 (\<lambda>os d. opaque os (item_bytes d) \<and> ipc_valid (fst d) (snd d)) out ?ds"
    using data_req_loop_telemetry [OF assms(1), of ?params reqs "[]" st] by auto
  have lb: "length (body_bytes ?tree) = 8 + (\<Sum>d \<leftarrow> ?ds. 8 + length (ipc_bytes (fst d) (snd d)))"
    by (simp add: length_concat o_def)
  have ld: "length ?ds \<le> length reqs" by (rule telemetry_length)
  have f: "fits (XDR_encode_union (ipc_defs (\<lambda>_. True)))
      (Ref \<lparr>un_type = IPC_TYPES_OPAQUE_STRUCT_ARR, un_data = Ref (V_OpaqueStructArr \<lparr>oa_length = of_nat (length out), oa_structs = Ref out\<rparr>)\<rparr>)
      (body_bytes ?tree)"
    by (rule array_field_bytes [OF out]) (use ld n in simp)
  have "IPC_response (\<lambda>_. True) cmd \<lparr>un_type = IPC_TYPES_OPAQUE_STRUCT_ARR, un_data = Ref (V_OpaqueStructArr \<lparr>oa_length = of_nat (length out), oa_structs = Ref out\<rparr>)\<rparr> from
      = Some [Send (Some (?header @ body_bytes ?tree)) from]"
    by (rule response_sends [OF f]) (use lb small in simp)
  moreover have "sint (of_nat (length reqs) :: u32) = int (length reqs)" using n by (simp add: signed_of_nat signed_take_bit_int_eq_self)
  ultimately have "cmd_handle_data_req (\<lambda>_. True) pop cmd from st = Some (snd (telemetry pop reqs st), [Send (Some (?header @ body_bytes ?tree)) from])"
    using p n loop by (cases "reqs = []") (simp_all add: cmd_handle_data_req_def Let_def)
  moreover have "IPC_ResponseHeader_decode junk (?header @ body_bytes ?tree @ rest) (length (?header @ body_bytes ?tree))
      = DOk 12 \<lparr>rh_cmd = IPC_CMDS_RESPONSE, rh_ipcref = ic_ipcref cmd, rh_result = IPC_RESULTCODE_SUCCESS\<rparr>"
    using resphdr.dec_fits [of "\<lparr>rh_cmd = IPC_CMDS_RESPONSE, rh_ipcref = ic_ipcref cmd, rh_result = IPC_RESULTCODE_SUCCESS\<rparr>"
      "length (?header @ body_bytes ?tree)" junk "body_bytes ?tree @ rest"] lb small by (simp add: IPC_ResponseHeader_decode_def)
  moreover have "visits_to (CMD_iterate_structs (body_bytes ?tree @ rest) (length (body_bytes ?tree))) (structs_of ?tree)"
  proof (rule iterate_structs_walk)
    have "fst d \<noteq> IPC_TYPES_OPAQUE_STRUCT_ARR \<and> 4 + length (ipc_bytes (fst d) (snd d)) < 2 ^ 32" if "d \<in> set ?ds" for d
    proof -
      have "\<exists>os. opaque os (item_bytes d) \<and> ipc_valid (fst d) (snd d)"
        using out that by (metis (no_types, lifting) in_set_conv_nth list_all2_conv_all_nth)
      then show ?thesis by (auto simp: opaque_def item_bytes_def ipc_valid_def ipc_numbers split: ipc_value.splits)
    qed
    then show "body_ok ?tree" using ld n by (auto simp: list_all_iff)
    show "length (body_bytes ?tree) < 2 ^ 64" using lb small by simp
  qed
  moreover have "structs_of ?tree = map (\<lambda>d. (fst d, ipc_bytes (fst d) (snd d))) ?ds" by (simp add: o_def)
  ultimately show ?thesis by (intro exI [of _ ?header] exI [of _ "body_bytes ?tree"]) simp
qed

definition ex_pop :: populators where
  "ex_pop ty = (if ty = IPC_TYPES_HEARTBEAT then Some heartbeat_populator else None)"

definition ex_request :: IPC_Command where
  "ex_request = \<lparr>ic_cmd = IPC_CMDS_DATA_REQ, ic_ipcref = 7, ic_parameters = \<lparr>un_type = IPC_TYPES_DATAREQ,
     un_data = Ref (V_DataReq \<lparr>dr_length = of_nat (length [IPC_TYPES_HEARTBEAT, 99]), dr_reqs = Ref [IPC_TYPES_HEARTBEAT, 99]\<rparr>)\<rparr>\<rparr>"

definition ex_beats :: IPC_Heartbeat where
  "ex_beats = \<lparr>hb_commands = 0, hb_responses = 0, hb_heartbeats = 1\<rparr>"

lemma ex_pop_obliging: "obliging ex_pop"
  by (auto simp: obliging_def ex_pop_def heartbeat_populator_def Let_def ipc_valid_def ipc_bytes_def split: if_splits)

lemma ex_telemetry:
  "telemetry ex_pop [IPC_TYPES_HEARTBEAT, 99] ex_state = ([(IPC_TYPES_HEARTBEAT, V_Heartbeat ex_beats)], ex_state\<lparr>ca_beats := ex_beats\<rparr>)"
  by (simp add: ex_pop_def heartbeat_populator_def ex_state_def zero_Heartbeat_def ex_beats_def Let_def ipc_numbers)

theorem data_request_answered_witness:
  "\<exists>header body. cmd_handle_data_req (\<lambda>_. True) ex_pop ex_request \<lparr>sa_addr = [127], sa_port = 50001\<rparr> ex_state
       = Some (ex_state\<lparr>ca_beats := ex_beats\<rparr>, [Send (Some (header @ body)) \<lparr>sa_addr = [127], sa_port = 50001\<rparr>]) \<and>
     visits_to (CMD_iterate_structs (body @ []) (length body)) [(IPC_TYPES_HEARTBEAT, be64 0 @ be64 0 @ be64 1)]"
proof -
  have b: "ipc_bytes IPC_TYPES_HEARTBEAT (V_Heartbeat ex_beats) = be64 0 @ be64 0 @ be64 1" by (simp add: ipc_bytes_def ex_beats_def)
  have p: "ic_parameters ex_request = \<lparr>un_type = IPC_TYPES_DATAREQ,
     un_data = Ref (V_DataReq \<lparr>dr_length = of_nat (length [IPC_TYPES_HEARTBEAT, 99]), dr_reqs = Ref [IPC_TYPES_HEARTBEAT, 99]\<rparr>)\<rparr>"
    by (simp add: ex_request_def)
  have "8 + (\<Sum>d \<leftarrow> fst (telemetry ex_pop [IPC_TYPES_HEARTBEAT, 99] ex_state). 8 + length (ipc_bytes (fst d) (snd d))) < 1012"
    unfolding ex_telemetry by (simp add: b)
  from data_request_answered [OF ex_pop_obliging p _ _ this, of "\<lparr>sa_addr = [127], sa_port = 50001\<rparr>" zero_ResponseHeader "[]"]
  show ?thesis unfolding ex_telemetry by (auto simp: b)
qed

section \<open>Answers that are too long\<close>

text \<open>
  \<open>measures k enc p n\<close>: whatever the buffer, the encoder touches nothing outside it and says that it needs \<open>n\<close> bytes, and it does not report success
  unless these fit with \<open>k\<close> to spare.
\<close>

definition room_in :: "u8 list option \<Rightarrow> nat \<Rightarrow> bool" where
  "room_in dst mx \<longleftrightarrow> mx < 2 ^ 64 \<and> (\<forall>buf. dst = Some buf \<longrightarrow> mx \<le> length buf)"

definition same_size :: "u8 list option \<Rightarrow> u8 list option \<Rightarrow> bool" where
  "same_size d d' \<longleftrightarrow> map_option length d = map_option length d'"

definition measures :: "nat \<Rightarrow> 'a encoder \<Rightarrow> 'a cptr \<Rightarrow> nat \<Rightarrow> bool" where
  "measures k enc p n \<longleftrightarrow>
     (\<forall>dst mx. room_in dst mx \<longrightarrow>
        (\<exists>rc d'. enc p dst mx = ERet rc n d' \<and> same_size dst d' \<and> (rc \<ge> 0 \<and> dst \<noteq> None \<longrightarrow> n + k \<le> mx)))"

lemma measuresE:
  assumes "measures k enc p n" "room_in dst mx"
  obtains rc d' where "enc p dst mx = ERet rc n d'" "same_size dst d'" "rc \<ge> 0 \<Longrightarrow> dst \<noteq> None \<Longrightarrow> n + k \<le> mx"
  using assms unfolding measures_def by metis

lemma measures_mono: "measures k enc p n \<Longrightarrow> k' \<le> k \<Longrightarrow> measures k' enc p n"
  unfolding measures_def by (meson add_left_mono le_trans)

lemma same_size_Some: "same_size (Some b) d \<longleftrightarrow> (\<exists>b'. d = Some b' \<and> length b' = length b)" "same_size None d \<longleftrightarrow> d = None"
  by (cases d; auto simp: same_size_def)+

lemma enc_at_measures:
  assumes m: "measures k enc p n" and r: "room_in (Some buf) mx" and off: "off \<le> mx"
  obtains rc b where "enc_at off (\<lambda>d. enc p d (size_sub mx off)) buf = ERet rc n (Some b)" "length b = length buf"
    "rc \<ge> 0 \<Longrightarrow> off + n + k \<le> mx"
proof -
  have "room_in (Some (drop off buf)) (mx - off)" using r off by (auto simp: room_in_def)
  from m this obtain rc d' where e: "enc p (Some (drop off buf)) (mx - off) = ERet rc n d'" "same_size (Some (drop off buf)) d'"
      "rc \<ge> 0 \<Longrightarrow> n + k \<le> mx - off" by (rule measuresE) auto
  obtain b where b: "d' = Some b" "length b = length buf - off" using e(2) by (auto simp: same_size_Some)
  have "enc_at off (\<lambda>d. enc p d (size_sub mx off)) buf = ERet rc n (Some (take off buf @ b))"
    using e(1) b(1) r off by (simp add: enc_at_def room_in_def)
  moreover have "length (take off buf @ b) = length buf" using b(2) r off by (simp add: room_in_def)
  moreover have "off + n + k \<le> mx" if "rc \<ge> 0" using e(3) that off by simp
  ultimately show thesis by (rule that)
qed

lemma struct_measures:
  assumes "list_all2 (\<lambda>f n. measures 0 (xf_encoder f) (Ref s) n) fs ns" "fs \<noteq> [] \<Longrightarrow> measures k (xf_encoder (last fs)) (Ref s) (last ns)"
    "room_in dst mx" "res \<ge> 0 \<and> dst \<noteq> None \<longrightarrow> off \<le> mx"
  shows "\<exists>rc d'. struct_encode fs (Ref s) dst mx off res = ERet rc (off + sum_list ns) d' \<and> same_size dst d' \<and>
    (rc \<ge> 0 \<and> dst \<noteq> None \<longrightarrow> res \<ge> 0 \<and> (fs \<noteq> [] \<longrightarrow> off + sum_list ns + k \<le> mx))"
  using assms
proof (induction fs ns arbitrary: dst off res rule: list_all2_induct)
  case Nil
  then show ?case by (simp add: same_size_def)
next
  case (Cons f fs n ns)
  have lst: "fs \<noteq> [] \<Longrightarrow> measures k (xf_encoder (last fs)) (Ref s) (last ns)" using Cons.prems(1) Cons.hyps(2) by (auto split: if_splits)
  show ?case
  proof (cases "res < 0 \<or> dst = None")
    case True
    have "room_in None mx" using Cons.prems(2) by (simp add: room_in_def)
    with Cons.hyps(1) obtain rc where "xf_encoder f (Ref s) None mx = ERet rc n None" by (rule measuresE) (auto simp: same_size_Some)
    then have "struct_encode (f # fs) (Ref s) dst mx off res = struct_encode fs (Ref s) dst mx (off + n) res"
      using True by (auto split: option.splits bool.splits)
    moreover have "res \<ge> 0 \<and> dst \<noteq> None \<longrightarrow> off + n \<le> mx" using True by auto
    ultimately show ?thesis using Cons.IH [OF lst Cons.prems(2), of res "off + n"] True by (auto simp: add.assoc)
  next
    case False
    then obtain buf where buf: "dst = Some buf" "0 \<le> res" "off \<le> mx" using Cons.prems(3) by auto
    define j where "j = (if fs = [] then k else 0)"
    have "measures j (xf_encoder f) (Ref s) n" using Cons.hyps Cons.prems(1) by (auto simp: j_def)
    then obtain rc b where e: "enc_at off (\<lambda>d. xf_encoder f (Ref s) d (size_sub mx off)) buf = ERet rc n (Some b)" "length b = length buf"
      "rc \<ge> 0 \<Longrightarrow> off + n + j \<le> mx" using enc_at_measures [of j _ _ n buf mx off] Cons.prems(2) buf by blast
    have r: "room_in (Some b) mx" using Cons.prems(2) e(2) buf(1) by (simp add: room_in_def)
    have off': "rc \<ge> 0 \<and> Some b \<noteq> None \<longrightarrow> off + n \<le> mx" using e(3) by auto
    obtain rc2 d2 where i: "struct_encode fs (Ref s) (Some b) mx (off + n) rc = ERet rc2 (off + n + sum_list ns) d2" "same_size (Some b) d2"
      "rc2 \<ge> 0 \<longrightarrow> rc \<ge> 0 \<and> (fs \<noteq> [] \<longrightarrow> off + n + sum_list ns + k \<le> mx)"
      using Cons.IH [OF lst r, of rc "off + n"] off' by auto
    have "fs = [] \<Longrightarrow> ns = []" using Cons.hyps(2) by simp
    then show ?thesis using i e buf by (cases "fs = []") (auto simp: same_size_def j_def add.assoc)
  qed
qed

lemma fits_none: "room_in None (size_sub mx off)"
  by (simp add: room_in_def size_sub_def)

lemma array_measures:
  assumes "\<And>x. x \<in> set xs \<Longrightarrow> measures k enc (Ref x) (n x)" "room_in dst mx" "res \<ge> 0 \<and> on \<and> dst \<noteq> None \<longrightarrow> off \<le> mx"
  shows "\<exists>rc d'. array_encode enc (map Ref xs) dst on mx off res = ERet rc (off + sum_list (map n xs)) d' \<and> same_size dst d' \<and>
    (rc \<ge> 0 \<longrightarrow> res \<ge> 0) \<and> (rc \<ge> 0 \<and> on \<and> dst \<noteq> None \<and> xs \<noteq> [] \<longrightarrow> off + sum_list (map n xs) + k \<le> mx)"
  using assms
proof (induction xs arbitrary: dst on off res)
  case Nil
  then show ?case by (simp add: same_size_def)
next
  case (Cons x xs)
  have m: "measures k enc (Ref x) (n x)" using Cons.prems(1) by simp
  show ?case
  proof (cases "on \<and> res \<ge> 0 \<and> dst \<noteq> None")
    case True
    then obtain buf where buf: "dst = Some buf" "0 \<le> res" "off \<le> mx" "on" using Cons.prems(3) by auto
    obtain rc b where e: "enc_at off (\<lambda>d. enc (Ref x) d (size_sub mx off)) buf = ERet rc (n x) (Some b)" "length b = length buf"
      "rc \<ge> 0 \<Longrightarrow> off + n x + k \<le> mx" using enc_at_measures [OF m, of buf mx off] Cons.prems(2) buf by blast
    have r: "room_in (Some b) mx" using Cons.prems(2) e(2) buf(1) by (simp add: room_in_def)
    have off': "rc \<ge> 0 \<and> rc \<ge> 0 \<and> Some b \<noteq> None \<longrightarrow> off + n x \<le> mx" using e(3) by auto
    obtain rc2 d2 where i: "array_encode enc (map Ref xs) (Some b) (rc \<ge> 0) mx (off + n x) rc = ERet rc2 (off + n x + sum_list (map n xs)) d2"
      "same_size (Some b) d2" "rc2 \<ge> 0 \<longrightarrow> rc \<ge> 0" "rc2 \<ge> 0 \<and> rc \<ge> 0 \<and> xs \<noteq> [] \<longrightarrow> off + n x + sum_list (map n xs) + k \<le> mx"
      using Cons.IH [OF _ r off'] Cons.prems(1) by auto
    have "array_encode enc (map Ref (x # xs)) dst on mx off res = ERet rc2 (off + sum_list (map n (x # xs))) d2"
      using i(1) e(1) buf by (simp add: add.assoc)
    moreover have "same_size dst d2" using i(2) e(2) buf(1) by (simp add: same_size_def)
    moreover have "rc2 \<ge> 0 \<longrightarrow> off + sum_list (map n (x # xs)) + k \<le> mx" using i(3,4) e(3) by (cases "xs = []") (auto simp: add.assoc)
    ultimately show ?thesis using buf(2) by blast
  next
    case False
    obtain rc where "enc (Ref x) None (size_sub mx off) = ERet rc (n x) None" using fits_none [of mx off]
      by (rule measuresE [OF m]) (auto simp: same_size_Some)
    then have "array_encode enc (map Ref (x # xs)) dst on mx off res = array_encode enc (map Ref xs) dst (on \<and> res \<ge> 0) mx (off + n x) res"
      using False by (auto split: option.splits bool.splits)
    moreover have "res \<ge> 0 \<and> (on \<and> res \<ge> 0) \<and> dst \<noteq> None \<longrightarrow> off + n x \<le> mx" using False by auto
    ultimately show ?thesis using Cons.IH [where dst = dst and on = "on \<and> res \<ge> 0" and res = res and off = "off + n x"] Cons.prems(1,2) False by (auto simp: add.assoc)
  qed
qed

lemma measures_u32: "measures 0 XDR_encode_uint32 (Ref w) 4" "measures 0 XDR_encode_int32 (Ref w) 4"
  by (auto simp: measures_def room_in_def same_size_def XDR_encode_uint32_def XDR_encode_int32_def put_def split: option.splits)

lemma measures_scalar: "measures k enc (Ref (get s)) n \<Longrightarrow> measures k (xf_encoder (scalar_field first enc dec get upd)) (Ref s) n"
  by (simp add: measures_def scalar_field_def field_ptr_def)

lemma measures_struct:
  assumes "list_all2 (\<lambda>f n. measures 0 (xf_encoder f) (Ref s) n) fs ns" "fs \<noteq> []" "measures k (xf_encoder (last fs)) (Ref s) (last ns)"
  shows "measures k (XDR_struct_encoder (Some fs)) (Ref s) (sum_list ns)"
  unfolding measures_def
proof (intro allI impI)
  fix dst mx assume "room_in dst mx"
  from struct_measures [OF assms(1) assms(3) this, of 0 0] assms(2)
  show "\<exists>rc d'. XDR_struct_encoder (Some fs) (Ref s) dst mx = ERet rc (sum_list ns) d' \<and> same_size dst d' \<and> (rc \<ge> 0 \<and> dst \<noteq> None \<longrightarrow> sum_list ns + k \<le> mx)"
    by (auto simp: XDR_struct_encoder_def)
qed

lemma measures_opaque:
  assumes "opaque os bs"
  shows "measures 1 (IPC_OpaqueStruct_encode al) (Ref os) (4 + length bs)"
proof -
  obtain m where m: "os_data os = Ref m" "take (length bs) m = bs" and l: "os_length os = of_nat (length bs)" "4 dvd length bs" "length bs < 2 ^ 31 - 4"
    using assms by (auto simp: opaque_def)
  have len: "length bs \<le> length m" using m(2) by (metis length_take min.cobounded1 min.commute)
  have s: "sint (os_length os) = int (length bs)" using l by (simp add: signed_of_nat signed_take_bit_int_eq_self)
  have p: "pad_len (int (length bs)) = 0" using l(2) by (auto simp: pad_len_nonneg elim!: dvdE)
  have z: "size_of_int (int (length bs)) = length bs" using l(3) by (simp add: size_of_int_nat)
  have b: "measures 1 (xf_encoder (byte_array_field al os_length os_data (\<lambda>v s. s\<lparr>os_data := v\<rparr>))) (Ref os) (length bs)"
    using m len l(3) by (auto simp: measures_def room_in_def same_size_def byte_array_field_def s XDR_encode_byte_array_def Let_def p z put_def)
  have "measures 0 (xf_encoder (scalar_field True XDR_encode_int32 XDR_decode_int32 os_length (\<lambda>v s. s\<lparr>os_length := v\<rparr>))) (Ref os) 4"
    by (rule measures_scalar) (rule measures_u32)
  then show ?thesis
    using measures_struct [of os "IPC_OpaqueStruct_Fields al" "[4, length bs]" 1] b measures_mono [OF b, of 0]
    by (simp add: IPC_OpaqueStruct_encode_def IPC_OpaqueStruct_Fields_def)
qed

lemma measures_union:
  assumes d: "ipc_defs al ty = Some d" "xd_encoder d = Some enc" and m: "measures k enc p n"
  shows "measures k (XDR_encode_union (ipc_defs al)) (Ref \<lparr>un_type = ty, un_data = p\<rparr>) (4 + n)"
  unfolding measures_def
proof (intro allI impI)
  fix dst mx assume r: "room_in dst mx"
  let ?goal = "\<exists>rc d'. XDR_encode_union (ipc_defs al) (Ref \<lparr>un_type = ty, un_data = p\<rparr>) dst mx = ERet rc (4 + n) d'
    \<and> same_size dst d' \<and> (rc \<ge> 0 \<and> dst \<noteq> None \<longrightarrow> 4 + n + k \<le> mx)"
  obtain res dst1 where t: "XDR_encode_uint32 (Ref ty) dst mx = ERet res 4 dst1" "same_size dst dst1" "res \<ge> 0 \<and> dst \<noteq> None \<longrightarrow> 4 \<le> mx"
    using measures_u32(1) [of ty] r unfolding measures_def by fastforce
  have "room_in None mx" using r by (simp add: room_in_def)
  then obtain rc where nul: "enc p None mx = ERet rc n None" by (rule measuresE [OF m]) (auto simp: same_size_Some)
  show ?goal
  proof (cases "res < 0 \<or> dst = None")
    case True
    then have "dst1 = None \<or> res < 0" using t(2) by (auto simp: same_size_Some)
    then have "\<exists>rc'. XDR_encode_union (ipc_defs al) (Ref \<lparr>un_type = ty, un_data = p\<rparr>) dst mx = ERet rc' (4 + n) dst1 \<and> (res < 0 \<longrightarrow> rc' < 0)"
      using t(1) nul d by (auto simp: XDR_encode_union_def split: option.splits bool.splits)
    then show ?thesis using t(2) True by (auto split: option.splits)
  next
    case False
    then obtain b where b: "dst1 = Some b" "room_in (Some b) mx" "4 \<le> mx" "res \<ge> 0"
      using t(2,3) r by (cases dst; cases dst1) (auto simp: same_size_def room_in_def)
    obtain rc2 b2 where e: "enc_at 4 (\<lambda>d. enc p d (size_sub mx 4)) b = ERet rc2 n (Some b2)" "length b2 = length b" "rc2 \<ge> 0 \<longrightarrow> 4 + n + k \<le> mx"
      using enc_at_measures [OF m b(2,3)] by blast
    have "XDR_encode_union (ipc_defs al) (Ref \<lparr>un_type = ty, un_data = p\<rparr>) dst mx = ERet (if rc2 < 0 then -1 else 0) (4 + n) (Some b2)"
      using t(1) d b e(1) by (simp add: XDR_encode_union_def)
    then show ?thesis using e b t(2) by (auto simp: same_size_def)
  qed
qed

definition packed_size :: "u8 list list \<Rightarrow> nat" where
  "packed_size bss = 20 + (\<Sum>bs \<leftarrow> bss. 4 + length bs)"

lemma response_measures:
  assumes out: "list_all2 opaque out bss" "out \<noteq> []" and n: "length out < 2 ^ 31"
    and r: "ir_data r = \<lparr>un_type = IPC_TYPES_OPAQUE_STRUCT_ARR,
      un_data = Ref (V_OpaqueStructArr \<lparr>oa_length = of_nat (length out), oa_structs = Ref out\<rparr>)\<rparr>"
  shows "measures 1 (IPC_Response_encode (\<lambda>_. True)) (Ref r) (packed_size bss)"
proof -
  define s where "s = \<lparr>oa_length = of_nat (length out) :: u32, oa_structs = Ref out\<rparr>"
  define sz where "sz os = 4 + unat (os_length os)" for os :: IPC_OpaqueStruct
  have so: "sz os = 4 + length bs" if "opaque os bs" for os bs
    using that by (auto simp: sz_def opaque_def unat_of_nat take_bit_nat_eq_self)
  have "\<exists>bs. opaque os bs" if "os \<in> set out" for os
    using out(1) that by (metis in_set_conv_nth list_all2_conv_all_nth)
  then have el: "measures 1 (IPC_OpaqueStruct_encode (\<lambda>_. True)) (Ref os) (sz os)" if "os \<in> set out" for os
    using measures_opaque so that by metis
  have total: "sum_list (map sz out) = (\<Sum>bs \<leftarrow> bss. 4 + length bs)"
    using out(1) by (induction rule: list_all2_induct) (simp_all add: so)
  have sl: "sint (oa_length s) = int (length out)" using n by (simp add: s_def signed_of_nat signed_take_bit_int_eq_self)
  have "map (elem_ptr (Ref out)) [0 ..< length out] = map Ref out" by (rule nth_equalityI) (simp_all add: elem_ptr_def)
  then have "measures 1 (\<lambda>p d mx. IPC_OpaqueStruct_encode_array (\<lambda>_. True) p d mx (Some (int (length out)))) (Ref out) (sum_list (map sz out))"
    unfolding measures_def IPC_OpaqueStruct_encode_array_def encode_array_field_def XDR_array_encoder_def
    using array_measures [of out 1 "IPC_OpaqueStruct_encode (\<lambda>_. True)" sz _ _ 0 _ 0] el out(2) by fastforce
  then have arr: "measures 1 (xf_encoder (last (IPC_OpaqueStructArr_Fields (\<lambda>_. True)))) (Ref s) (sum_list (map sz out))"
    by (simp add: measures_def IPC_OpaqueStructArr_Fields_def sl) (simp add: s_def)
  have "list_all2 (\<lambda>f n. measures 0 (xf_encoder f) (Ref s) n) (IPC_OpaqueStructArr_Fields (\<lambda>_. True)) [4, sum_list (map sz out)]"
    using measures_mono [OF arr, of 0] by (simp add: IPC_OpaqueStructArr_Fields_def measures_scalar measures_u32)
  from measures_struct [OF this, of 1] arr have ms: "measures 1 (IPC_OpaqueStructArr_encode (\<lambda>_. True)) (Ref s) (4 + sum_list (map sz out))"
    by (simp add: IPC_OpaqueStructArr_encode_def IPC_OpaqueStructArr_Fields_def)
  define enc where "enc = (\<lambda>p. IPC_OpaqueStructArr_encode (\<lambda>_. True) (case p of
         Ref v \<Rightarrow> (case (case v of V_OpaqueStructArr s \<Rightarrow> Some s | _ \<Rightarrow> None) of Some s \<Rightarrow> Ref s | None \<Rightarrow> Wild) | Null \<Rightarrow> Null | Wild \<Rightarrow> Wild))"
  obtain d where d: "ipc_defs (\<lambda>_. True) IPC_TYPES_OPAQUE_STRUCT_ARR = Some d" by (simp add: ipc_defs_def ipc_numbers)
  have de: "xd_encoder d = Some enc" using d by (auto simp: ipc_defs_def ipc_numbers value_def_def enc_def)
  have "enc (Ref (V_OpaqueStructArr s)) = IPC_OpaqueStructArr_encode (\<lambda>_. True) (Ref s)" by (simp add: enc_def)
  then have "measures 1 enc (Ref (V_OpaqueStructArr s)) (4 + sum_list (map sz out))" using ms by (simp only: measures_def)
  from measures_union [OF d de this] have un: "measures 1 (XDR_encode_union (ipc_defs (\<lambda>_. True))) (Ref (ir_data r)) (8 + sum_list (map sz out))"
    by (simp add: r s_def)
  have lf: "measures 1 (xf_encoder (union_field (ipc_defs (\<lambda>_. True)) ir_data (\<lambda>v s. s\<lparr>ir_data := v\<rparr>))) (Ref r) (8 + sum_list (map sz out))"
    unfolding union_field_def by (rule measures_scalar) (rule un)
  then have "list_all2 (\<lambda>f n. measures 0 (xf_encoder f) (Ref r) n) (IPC_Response_Fields (\<lambda>_. True)) [4, 4, 4, 8 + sum_list (map sz out)]"
    using measures_mono [OF lf, of 0] by (simp add: IPC_Response_Fields_def measures_scalar measures_u32)
  from measures_struct [OF this, of 1] lf show ?thesis
    by (simp add: IPC_Response_encode_def IPC_Response_Fields_def packed_size_def total)
qed

text \<open>
  C23: An answer of packed structures that takes 1024 bytes or more is never sent. \<open>IPC_response\<close> measures it, allocates exactly as many bytes and
  encodes again; but the coder of byte arrays refuses a buffer it would fill to the end, so that the
  second attempt fails as well and \<open>IPC_response\<close> returns without a word to the sender of the request. The buffer is not overrun.
\<close>
theorem data_answer_too_long:
  assumes "list_all2 opaque out bss" "out \<noteq> []" "length out < 2 ^ 31" "1024 \<le> packed_size bss" "packed_size bss < 2 ^ 64"
  shows "IPC_response (\<lambda>_. True) cmd
      \<lparr>un_type = IPC_TYPES_OPAQUE_STRUCT_ARR, un_data = Ref (V_OpaqueStructArr \<lparr>oa_length = of_nat (length out), oa_structs = Ref out\<rparr>)\<rparr> dest
    = Some []"
proof -
  let ?un = "\<lparr>un_type = IPC_TYPES_OPAQUE_STRUCT_ARR, un_data = Ref (V_OpaqueStructArr \<lparr>oa_length = of_nat (length out), oa_structs = Ref out\<rparr>)\<rparr>"
  let ?r = "\<lparr>ir_cmd = IPC_CMDS_RESPONSE, ir_ipcref = ic_ipcref cmd, ir_result = IPC_RESULTCODE_SUCCESS, ir_data = ?un\<rparr>"
  have m: "measures 1 (IPC_Response_encode (\<lambda>_. True)) (Ref ?r) (packed_size bss)"
    by (rule response_measures [OF assms(1-3)]) simp
  have fail: "\<exists>rc d. IPC_Response_encode (\<lambda>_. True) (Ref ?r) (Some (replicate n 0)) n = ERet rc (packed_size bss) d \<and> rc < 0"
    if "n \<le> packed_size bss" for n
  proof -
    have "room_in (Some (replicate n 0)) n" using that assms(5) by (simp add: room_in_def)
    then obtain rc d where "IPC_Response_encode (\<lambda>_. True) (Ref ?r) (Some (replicate n 0)) n = ERet rc (packed_size bss) d"
      "rc \<ge> 0 \<longrightarrow> packed_size bss + 1 \<le> n"
      using m unfolding measures_def by blast
    then show ?thesis using that by force
  qed
  have "encode_retry (\<lambda>_. True) (IPC_Response_encode (\<lambda>_. True) (Ref ?r)) 1024 = EncFail"
    using fail [of 1024] fail [of "packed_size bss"] assms(4) by (auto simp: encode_retry_def)
  then show ?thesis by (simp add: IPC_response_def)
qed

theorem data_answer_too_long_witness:
  "IPC_response (\<lambda>_. True) ex_request
     \<lparr>un_type = IPC_TYPES_OPAQUE_STRUCT_ARR,
      un_data = Ref (V_OpaqueStructArr \<lparr>oa_length = 1, oa_structs = Ref [\<lparr>os_length = 1000, os_data = Ref (replicate 1000 0)\<rparr>]\<rparr>)\<rparr>
     \<lparr>sa_addr = [127], sa_port = 50001\<rparr> = Some []"
  using data_answer_too_long [of "[\<lparr>os_length = 1000, os_data = Ref (replicate 1000 0)\<rparr>]" "[replicate 1000 0]" ex_request]
  by (simp add: opaque_def packed_size_def)

text \<open>The same check loses packed answers on the side of the receiver that asked for decoded responses: the last structure fills the packet to its
  end, the decoder fails, and the callback is never called, although the request has left the table.\<close>

definition ex_answer :: "u8 list" where
  "ex_answer = be32 IPC_CMDS_RESPONSE @ be32 7 @ be32 IPC_RESULTCODE_SUCCESS @ be32 IPC_TYPES_OPAQUE_STRUCT_ARR @ be32 1
     @ be32 12 @ be32 IPC_TYPES_POPULATOR_ERROR @ be32 5 @ be32 6"

lemma cooked_answer_lost:
  "CMD_resolve_callback (\<lambda>_. True) True (de_junk_resp ex_env) 2 3 IPC_CB_TYPE_COOKED ex_answer (length ex_answer) = Some []"
  by code_simp

lemma fill_items_all:
  assumes "\<forall>i \<in> set items. 0 < i"
  shows "\<exists>m. fill_items (\<lambda>_. True) (items @ 0 # tail) n reqs
     = Some (m, if items = [] then reqs else Some ((case reqs of None \<Rightarrow> [] | Some rs \<Rightarrow> rs) @ map word_of_int items))"
  using assms
proof (induction items arbitrary: n reqs)
  case (Cons i items)
  let ?rs = "(case reqs of None \<Rightarrow> [] | Some rs \<Rightarrow> rs) @ [word_of_int i]"
  obtain k where k: "fill_items (\<lambda>_. True) ((i # items) @ 0 # tail) n reqs = fill_items (\<lambda>_. True) (items @ 0 # tail) k (Some ?rs)"
    using Cons.prems by (simp add: Let_def)
  have "\<exists>m. fill_items (\<lambda>_. True) (items @ 0 # tail) k (Some ?rs) = Some (m, Some (?rs @ map word_of_int items))"
    using Cons.IH [of k "Some ?rs"] Cons.prems by (cases "items = []") auto
  then show ?case using k by simp
qed simp

lemma fill_datareq_items:
  "\<forall>i \<in> set items. 0 < i \<Longrightarrow> items \<noteq> [] \<Longrightarrow>
   IPC_fill_datareq_va (\<lambda>_. True) (items @ 0 # tail) = Some \<lparr>dr_length = of_nat (length items), dr_reqs = Ref (map word_of_int items)\<rparr>"
  using fill_items_all [of items tail 8 None] by (auto simp: IPC_fill_datareq_va_def)

end
