(* ===== verification/Zmq_Lite.thy ===== *)
theory Zmq_Lite
  imports Ipc_Buffer Event_State
begin

text \<open>
  The message server of \<open>zmqlite.c\<close>, through which the event loop talks to its debugger: the greeting and the framing of the
  ZeroMQ protocol over a stream, on top of the buffers of \<open>ipc.c\<close>.

  \<^item> What a handler does outside its own records is a list of \<open>zeffect\<close>s in the order of the calls. A message callback is shown a
    pointer and a length: \<open>ZMessage id n (Some bytes)\<close> when these bytes are in the buffer, \<open>ZMessage id n None\<close> when
    the length reaches beyond what has been received.
  \<^item> \<open>sgnd\<close> says whether \<open>char\<close> is signed, as it is on x86 and not on ARM; the length of a short message is read through a
    \<open>char\<close>.
  \<^item> A callback that frees the client under the reader is not modelled.
\<close>

datatype ZMQLState = ZMQL_SIGNATURE | ZMQL_VERS1 | ZMQL_AUTH | ZMQL_DATA

definition ZMQ_SIGNATURE_DATA :: "u8 list" where
  "ZMQ_SIGNATURE_DATA = [0xFF, 0, 0, 0, 0, 0, 0, 0, 1, 0x7F]"

definition ZMQ_VERS_DATA :: "u8 list" where
  "ZMQ_VERS_DATA = [3]"

definition ZMQ_AUTH_DATA :: "u8 list" where
  "ZMQ_AUTH_DATA = [0, 78, 85, 76, 76] @ replicate 48 0"

definition ZMQ_HANDSHAKE_DATA :: "u8 list" where
  "ZMQ_HANDSHAKE_DATA = [4, 0x1A, 5, 82, 69, 65, 68, 89, 0x0B, 83, 111, 99, 107, 101, 116, 45, 84, 121, 112, 101, 0, 0, 0, 4, 80, 65, 73, 82]"

record ZMQLClient =
  zc_id :: ptr
  zc_socket :: int
  zc_state :: ZMQLState
  zc_data :: "IPCBuffer option"
  zc_closeFlag :: bool
  zc_msgCb :: bool
  zc_connectCb :: bool
  zc_disconnectCb :: bool

record ZMQLServer =
  zs_socket :: int
  zs_clientCount :: int
  zs_clients :: "ZMQLClient list"
  zs_msgCb :: bool
  zs_connectCb :: bool
  zs_disconnectCb :: bool

datatype zeffect =
    ZWrite ptr "u8 list"
  | ZConnect ptr
  | ZDisconnect ptr
  | ZMessage ptr nat "u8 list option"
  | ZFdAdd int
  | ZFdRemove int
  | ZClose int

section \<open>Receiving\<close>

text \<open>\<open>ntohll\<close> of the eight bytes behind the flags.\<close>

definition be_nat :: "u8 list \<Rightarrow> nat" where
  "be_nat bs = foldl (\<lambda>n b. 256 * n + unat b) 0 bs"

text \<open>The value of a \<open>char\<close> as \<open>uint64_t\<close>.\<close>

definition char_len :: "bool \<Rightarrow> u8 \<Rightarrow> nat" where
  "char_len sgnd b = (if sgnd then size_of_int (sint b) else unat b)"

definition zmql_frame_header :: "bool \<Rightarrow> u8 list \<Rightarrow> (nat \<times> nat) option" where
  "zmql_frame_header sgnd data =
     (if bit (hd data) 1
      then if length data < 9 then None else Some (9, be_nat (take 8 (drop 1 data)))
      else if length data < 2 then None else Some (2, char_len sgnd (data ! 1)))"

definition zmql_client_process ::
  "bool \<Rightarrow> u8 list \<Rightarrow> ZMQLClient \<times> zeffect list \<Rightarrow> nat \<times> (ZMQLClient \<times> zeffect list)" where
  "zmql_client_process sgnd data arg =
     (case arg of (client, es) \<Rightarrow>
        let greet = (\<lambda>expected reply st connect.
              if length data < length expected then (0, (client, es))
              else if take (length expected) data = expected
              then (length expected, (client\<lparr>zc_state := st\<rparr>, es @ [ZWrite (zc_id client) reply] @ connect))
              else (0, (client\<lparr>zc_closeFlag := True\<rparr>, es)))
        in case zc_state client of
             ZMQL_SIGNATURE \<Rightarrow> greet ZMQ_SIGNATURE_DATA ZMQ_VERS_DATA ZMQL_VERS1 []
           | ZMQL_VERS1 \<Rightarrow> greet ZMQ_VERS_DATA ZMQ_AUTH_DATA ZMQL_AUTH []
           | ZMQL_AUTH \<Rightarrow> greet ZMQ_AUTH_DATA ZMQ_HANDSHAKE_DATA ZMQL_DATA (if zc_connectCb client then [ZConnect (zc_id client)] else [])
           | ZMQL_DATA \<Rightarrow>
               if length data < 1 then (0, (client, es))
               else (case zmql_frame_header sgnd data of
                       None \<Rightarrow> (0, (client, es))
                     | Some (dataOffset, payloadLen) \<Rightarrow>
                         let total = (dataOffset + payloadLen) mod 2 ^ 64
                         in if length data < total then (0, (client, es))
                            else (total, (client, es @
                              (if \<not> bit (hd data) 2 \<and> zc_msgCb client
                               then [ZMessage (zc_id client) payloadLen
                                      (if dataOffset + payloadLen \<le> length data then Some (take payloadLen (drop dataOffset data)) else None)]
                               else [])))))"

section \<open>Clients\<close>

text \<open>Unlink the client from the list of its server, tell the callback and close the socket.\<close>

definition zmql_destroy_client :: "ZMQLClient option \<Rightarrow> ZMQLServer \<Rightarrow> ZMQLServer \<times> zeffect list" where
  "zmql_destroy_client goner server =
     (case goner of
        None \<Rightarrow> (server, [])
      | Some client \<Rightarrow>
          (server\<lparr>zs_clients := filter (\<lambda>c. zc_id c \<noteq> zc_id client) (zs_clients server), zs_clientCount := zs_clientCount server - 1\<rparr>,
           (if zc_closeFlag client then [] else [ZFdRemove (zc_socket client)]) @
           (if zc_state client = ZMQL_DATA \<and> zc_disconnectCb client then [ZDisconnect (zc_id client)] else []) @
           [ZClose (zc_socket client)]))"

datatype read_result = ReadData "u8 list" | ReadAgain | ReadFailed

definition put_client :: "ZMQLClient \<Rightarrow> ZMQLServer \<Rightarrow> ZMQLServer" where
  "put_client client server = server\<lparr>zs_clients := map (\<lambda>c. if zc_id c = zc_id client then client else c) (zs_clients server)\<rparr>"

text \<open>A read delivers at most 2048 bytes; \<open>ReadData []\<close> is the end of the stream.\<close>

definition zmql_client_read_cb ::
  "bool \<Rightarrow> (nat \<Rightarrow> bool) \<Rightarrow> read_result \<Rightarrow> ZMQLClient \<Rightarrow> ZMQLServer \<Rightarrow> (int \<times> ZMQLClient \<times> ZMQLServer \<times> zeffect list) option" where
  "zmql_client_read_cb sgnd alloc rd client0 server =
     (let client = client0\<lparr>zc_closeFlag := False\<rparr>;
          gone = (\<lambda>c es. let c1 = c\<lparr>zc_closeFlag := True\<rparr>; (server1, fs) = zmql_destroy_client (Some c1) server
                         in Some (EVENT_REMOVE, c1, server1, es @ fs))
      in case rd of
           ReadAgain \<Rightarrow> Some (EVENT_KEEP, client, put_client client server, [])
         | ReadFailed \<Rightarrow> gone client []
         | ReadData buff \<Rightarrow>
             if buff = [] then gone client []
             else (case ipc_append_buffer alloc (zc_data client) buff (int (length buff)) of
                None \<Rightarrow> None
              | Some (_, b1) \<Rightarrow>
                  (case ipc_process_buffer b1 (Some (zmql_client_process sgnd)) (client, []) of
                     None \<Rightarrow> None
                   | Some (_, (client1, es), b2) \<Rightarrow>
                       let client2 = client1\<lparr>zc_data := b2\<rparr>
                       in if zc_closeFlag client2 then gone client2 es
                          else Some (EVENT_KEEP, client2, put_client client2 server, es))))"

text \<open>The new client has a fresh address \<open>node\<close>; \<open>fd\<close> is the result of \<open>accept\<close>.\<close>

definition accepted_client :: "ptr \<Rightarrow> int \<Rightarrow> bool \<Rightarrow> ZMQLServer \<Rightarrow> ZMQLClient" where
  "accepted_client node fd buffer_ok server =
     \<lparr>zc_id = node, zc_socket = fd, zc_state = ZMQL_SIGNATURE, zc_data = ipc_alloc_buffer buffer_ok, zc_closeFlag = False,
      zc_msgCb = zs_msgCb server, zc_connectCb = zs_connectCb server, zc_disconnectCb = zs_disconnectCb server\<rparr>"

definition zmql_accept_cb ::
  "bool \<Rightarrow> ptr \<Rightarrow> int \<Rightarrow> bool \<Rightarrow> ZMQLServer \<Rightarrow> int \<times> ZMQLServer \<times> zeffect list" where
  "zmql_accept_cb malloc_ok node fd buffer_ok server =
     (if \<not> malloc_ok \<or> fd = -1 then (EVENT_KEEP, server, [])
      else (EVENT_KEEP,
            server\<lparr>zs_clientCount := zs_clientCount server + 1, zs_clients := accepted_client node fd buffer_ok server # zs_clients server\<rparr>,
            [ZFdAdd fd, ZWrite node ZMQ_SIGNATURE_DATA]))"

section \<open>The server\<close>

definition zmql_create_tcp_server :: "bool \<Rightarrow> int \<Rightarrow> bool \<Rightarrow> bool \<Rightarrow> bool \<Rightarrow> ZMQLServer option \<times> zeffect list" where
  "zmql_create_tcp_server malloc_ok fd cb con_cb discon_cb =
     (if \<not> malloc_ok \<or> fd \<le> 0 then (None, [])
      else (Some \<lparr>zs_socket = fd, zs_clientCount = 0, zs_clients = [], zs_msgCb = cb, zs_connectCb = con_cb, zs_disconnectCb = discon_cb\<rparr>,
            [ZFdAdd fd]))"

function destroy_clients :: "ZMQLServer \<Rightarrow> ZMQLServer \<times> zeffect list" where
  "destroy_clients server =
     (case zs_clients server of
        [] \<Rightarrow> (server, [])
      | client # _ \<Rightarrow>
          (case zmql_destroy_client (Some client) server of
             (server1, es) \<Rightarrow> (case destroy_clients server1 of (server2, fs) \<Rightarrow> (server2, es @ fs))))"
  by pat_completeness auto
termination
  by (relation "measure (\<lambda>s. length (zs_clients s))")
    (auto simp: zmql_destroy_client_def le_imp_less_Suc)

declare destroy_clients.simps [simp del]

definition zmql_destroy_tcp_server :: "ZMQLServer option \<Rightarrow> zeffect list" where
  "zmql_destroy_tcp_server goner =
     (case goner of
        None \<Rightarrow> []
      | Some server \<Rightarrow>
          (if zs_socket server > 0 then [ZFdRemove (zs_socket server), ZClose (zs_socket server)] else []) @ snd (destroy_clients server))"

definition zmql_server_socket :: "ZMQLServer option \<Rightarrow> int" where
  "zmql_server_socket server = (case server of Some s \<Rightarrow> zs_socket s | None \<Rightarrow> -1)"

definition zmql_client_count :: "ZMQLServer option \<Rightarrow> int" where
  "zmql_client_count server = (case server of Some s \<Rightarrow> zs_clientCount s | None \<Rightarrow> 0)"

section \<open>Sending\<close>

definition be_bytes8 :: "nat \<Rightarrow> u8 list" where
  "be_bytes8 n = map (\<lambda>i. of_nat (n div 256 ^ (7 - i))) [0 ..< 8]"

definition frame_header :: "nat \<Rightarrow> u8 list" where
  "frame_header len = (if len \<le> 255 then [0, of_nat len] else 2 # be_bytes8 len)"

text \<open>\<open>rs\<close> are the results of the writes of the body; a short write of the header is only logged.\<close>

definition zmql_write_buffer ::
  "write_result list \<Rightarrow> ZMQLClient \<Rightarrow> IPCBuffer option \<Rightarrow> (int \<times> zeffect list) option" where
  "zmql_write_buffer rs client msg =
     (if zc_state client \<noteq> ZMQL_DATA then Some (0, [])
      else case ipc_write_buffer_sync rs msg of
             None \<Rightarrow> None
           | Some (_, sent) \<Rightarrow>
               Some (0, [ZWrite (zc_id client) (frame_header (ipc_buffer_size msg)), ZWrite (zc_id client) sent]))"

fun zmql_broadcast_buffer ::
  "(ZMQLClient \<Rightarrow> write_result list) \<Rightarrow> ZMQLClient list \<Rightarrow> IPCBuffer option \<Rightarrow> zeffect list option" where
  "zmql_broadcast_buffer rs [] msg = Some []"
| "zmql_broadcast_buffer rs (client # clients) msg =
     (case zmql_write_buffer (rs client) client msg of
        None \<Rightarrow> None
      | Some (_, es) \<Rightarrow> map_option (\<lambda>fs. es @ fs) (zmql_broadcast_buffer rs clients msg))"

end
