(* ===== verification/Zmq_Correct.thy ===== *)
theory Zmq_Correct
  imports Zmq_Lite
begin

text \<open>
  What the message server of \<open>zmqlite.c\<close> promises: however the network cuts the greeting and the
  frames of a peer into reads, every message reaches the callback once, whole and in order; the
  frames the server writes are frames it can read; a wrong greeting closes the connection; and the
  count of clients is the length of their list.
\<close>

section \<open>Frames\<close>

text \<open>A frame: the flags, the length in one byte or in eight, and the payload.\<close>

definition zframe :: "u8 \<times> u8 list \<Rightarrow> u8 list" where
  "zframe fr = (case fr of (flags, m) \<Rightarrow> flags # (if bit flags 1 then be_bytes8 (length m) else [of_nat (length m)]) @ m)"

definition zframe_ok :: "bool \<Rightarrow> u8 \<times> u8 list \<Rightarrow> bool" where
  "zframe_ok sgnd fr = (case fr of (flags, m) \<Rightarrow> length m < (if bit flags 1 then 2 ^ 63 else if sgnd then 128 else 256))"

definition zdelivered :: "ptr \<Rightarrow> u8 \<times> u8 list \<Rightarrow> zeffect list" where
  "zdelivered i fr = (case fr of (flags, m) \<Rightarrow> if bit flags 2 then [] else [ZMessage i (length m) (Some m)])"

lemma digit: "256 * (n div (256 * k)) + n div k mod 256 = n div (k :: nat)"
  by (metis div_mult2_eq mult.commute mult_div_mod_eq)

lemma unat_digit: "unat (of_nat n :: u8) = n mod 256"
  by (simp add: unat_of_nat)

lemma be_bytes8_unfold:
  "be_bytes8 n = [of_nat (n div 2 ^ 56), of_nat (n div 2 ^ 48), of_nat (n div 2 ^ 40), of_nat (n div 2 ^ 32),
     of_nat (n div 2 ^ 24), of_nat (n div 2 ^ 16), of_nat (n div 2 ^ 8), of_nat n]"
  by (simp add: be_bytes8_def upt_rec)

lemma length_be_bytes8 [simp]: "length (be_bytes8 n) = 8"
  by (simp add: be_bytes8_def)

lemma be_nat_be_bytes8:
  assumes "n < 2 ^ 64"
  shows "be_nat (be_bytes8 n) = n"
proof -
  have "n div 2 ^ 56 < 256" using assms by (simp add: div_less_iff_less_mult)
  then have "n div 2 ^ 56 mod 256 = n div 2 ^ 56" by simp
  then show ?thesis
    using digit [of n "2 ^ 48"] digit [of n "2 ^ 40"] digit [of n "2 ^ 32"] digit [of n "2 ^ 24"]
      digit [of n "2 ^ 16"] digit [of n "2 ^ 8"] digit [of n 1]
    by (simp add: be_bytes8_unfold be_nat_def unat_digit)
qed

lemma char_len_of_nat: "n < (if sgnd then 128 else 256) \<Longrightarrow> char_len sgnd (of_nat n) = n"
  by (auto simp: char_len_def unat_digit signed_of_nat signed_take_bit_int_eq_self split: if_splits)

lemma frame_header_zframe:
  assumes "zframe_ok sgnd (flags, m)"
  shows "zmql_frame_header sgnd (zframe (flags, m) @ rest) = Some (if bit flags 1 then 9 else 2, length m)"
proof (cases "bit flags 1")
  case True
  then show ?thesis
    using assms be_nat_be_bytes8 [of "length m"]
    by (simp add: zframe_def zframe_ok_def zmql_frame_header_def)
next
  case False
  then show ?thesis
    using assms by (simp add: zframe_def zframe_ok_def zmql_frame_header_def char_len_of_nat)
qed

lemma frame_header_partial:
  assumes "zframe_ok sgnd (flags, m)" "0 < k"
  shows "zmql_frame_header sgnd (take k (zframe (flags, m))) \<in> {None, Some (if bit flags 1 then 9 else 2, length m)}"
proof (cases "k < (if bit flags 1 then 9 else 2)")
  case True
  then show ?thesis
    using assms(2) by (cases k) (auto simp: zframe_def zmql_frame_header_def split: if_splits)
next
  case False
  define rest where "rest = drop k (zframe (flags, m))"
  have "take k (zframe (flags, m)) @ rest = zframe (flags, m)" by (simp add: rest_def)
  then have h: "zmql_frame_header sgnd (take k (zframe (flags, m)) @ rest) = Some (if bit flags 1 then 9 else 2, length m)"
    using frame_header_zframe [OF assms(1), of "[]"] by simp
  moreover have "length (take k (zframe (flags, m))) \<ge> (if bit flags 1 then 9 else 2)"
    using False by (simp add: zframe_def split: if_splits)
  ultimately show ?thesis
    by (cases "take k (zframe (flags, m))") (auto simp: zmql_frame_header_def nth_append split: if_splits)
qed

section \<open>The callback consumes units\<close>

inductive zmql_unit :: "bool \<Rightarrow> ZMQLClient \<Rightarrow> u8 list \<Rightarrow> ZMQLClient \<Rightarrow> zeffect list \<Rightarrow> bool" for sgnd :: bool where
  unit_signature: "zc_state c = ZMQL_SIGNATURE \<Longrightarrow>
    zmql_unit sgnd c ZMQ_SIGNATURE_DATA (c\<lparr>zc_state := ZMQL_VERS1\<rparr>) [ZWrite (zc_id c) ZMQ_VERS_DATA]"
| unit_vers: "zc_state c = ZMQL_VERS1 \<Longrightarrow>
    zmql_unit sgnd c ZMQ_VERS_DATA (c\<lparr>zc_state := ZMQL_AUTH\<rparr>) [ZWrite (zc_id c) ZMQ_AUTH_DATA]"
| unit_auth: "zc_state c = ZMQL_AUTH \<Longrightarrow> zc_connectCb c \<Longrightarrow>
    zmql_unit sgnd c ZMQ_AUTH_DATA (c\<lparr>zc_state := ZMQL_DATA\<rparr>) [ZWrite (zc_id c) ZMQ_HANDSHAKE_DATA, ZConnect (zc_id c)]"
| unit_frame: "zc_state c = ZMQL_DATA \<Longrightarrow> zc_msgCb c \<Longrightarrow> zframe_ok sgnd fr \<Longrightarrow>
    zmql_unit sgnd c (zframe fr) c (zdelivered (zc_id c) fr)"

lemma greeting_lengths [simp]:
  "length ZMQ_SIGNATURE_DATA = 10" "length ZMQ_VERS_DATA = 1" "length ZMQ_AUTH_DATA = 53"
  by (simp_all add: ZMQ_SIGNATURE_DATA_def ZMQ_VERS_DATA_def ZMQ_AUTH_DATA_def)

lemma greeting_nonempty [simp]: "ZMQ_SIGNATURE_DATA \<noteq> []" "ZMQ_VERS_DATA \<noteq> []" "ZMQ_AUTH_DATA \<noteq> []"
  by (metis greeting_lengths length_0_conv zero_neq_numeral zero_neq_one)+

lemma length_zframe: "length (zframe (flags, m)) = (if bit flags 1 then 9 else 2) + length m"
  by (simp add: zframe_def)

lemma zframe_nonempty [simp]: "zframe fr \<noteq> []"
  by (simp add: zframe_def split: prod.splits)

lemma hd_zframe [simp]: "hd (zframe (flags, m)) = flags"
  by (simp add: zframe_def)

lemma drop_zframe: "drop (if bit flags 1 then 9 else 2) (zframe (flags, m) @ rest) = m @ rest"
  by (simp add: zframe_def)

lemma process_frame:
  assumes st: "zc_state c = ZMQL_DATA" "zc_msgCb c" and ok: "zframe_ok sgnd (flags, m)"
  shows "zmql_client_process sgnd (zframe (flags, m) @ rest) (c, fs) =
    (length (zframe (flags, m)), (c, fs @ zdelivered (zc_id c) (flags, m)))"
proof -
  let ?o = "if bit flags 1 then 9 else (2 :: nat)"
  have "?o + length m < 2 ^ 64" using ok by (auto simp: zframe_ok_def split: if_splits)
  then have t: "(?o + length m) mod 2 ^ 64 = ?o + length m" by simp
  have h: "hd (zframe (flags, m) @ rest) = flags" by simp
  have l: "\<not> length (zframe (flags, m) @ rest) < ?o + length m" "\<not> length (zframe (flags, m) @ rest) < 1"
    by (auto simp: length_zframe Suc_le_eq split: if_splits)
  show ?thesis
    using st frame_header_zframe [OF ok, of rest] t h l drop_zframe [of flags m rest]
    by (simp only: zmql_client_process_def Let_def prod.case option.case ZMQLState.case if_False if_True)
      (simp add: length_zframe zdelivered_def)
qed

lemma process_frame_partial:
  assumes st: "zc_state c = ZMQL_DATA" and ok: "zframe_ok sgnd (flags, m)" and k: "k < length (zframe (flags, m))"
  shows "zmql_client_process sgnd (take k (zframe (flags, m))) (c, fs) = (0, (c, fs))"
proof (cases "k = 0")
  case True
  then show ?thesis using st by (simp add: zmql_client_process_def)
next
  case False
  then have k0: "0 < k" by simp
  let ?o = "if bit flags 1 then 9 else (2 :: nat)"
  have "?o + length m < 2 ^ 64" using ok by (auto simp: zframe_ok_def split: if_splits)
  then have t: "(?o + length m) mod 2 ^ 64 = ?o + length m" by simp
  have l: "length (take k (zframe (flags, m))) < ?o + length m" using k by (simp add: length_zframe split: if_splits)
  consider "zmql_frame_header sgnd (take k (zframe (flags, m))) = None"
    | "zmql_frame_header sgnd (take k (zframe (flags, m))) = Some (?o, length m)"
    using frame_header_partial [OF ok k0] by (elim insertE emptyE)
  then show ?thesis
    by cases (simp_all only: zmql_client_process_def Let_def prod.case option.case ZMQLState.case if_False if_True t l st if_cancel)
qed

lemma process_greeting:
  assumes "zc_state c \<noteq> ZMQL_DATA" "zmql_unit sgnd c u c' es"
  shows "zmql_client_process sgnd (u @ rest) (c, fs) = (length u, (c', fs @ es))"
    and "k < length u \<Longrightarrow> zmql_client_process sgnd (take k u) (c, fs) = (0, (c, fs))"
proof -
  show "zmql_client_process sgnd (u @ rest) (c, fs) = (length u, (c', fs @ es))"
    using assms(2,1) by induct (simp_all add: zmql_client_process_def)
  show "zmql_client_process sgnd (take k u) (c, fs) = (0, (c, fs))" if "k < length u"
    using assms(2,1) that by induct (simp_all add: zmql_client_process_def)
qed

interpretation zmql: framed_stream "zmql_client_process sgnd" "zmql_unit sgnd" for sgnd
proof
  fix a :: ZMQLClient and u a' es rest fs
  assume u: "zmql_unit sgnd a u a' es"
  show "zmql_client_process sgnd (u @ rest) (a, fs) = (length u, (a', fs @ es))"
    using u process_greeting(1) [OF _ u] by (cases "zc_state a = ZMQL_DATA") (auto elim!: zmql_unit.cases simp: process_frame)
  show "u \<noteq> []" using u by induct simp_all
next
  fix a :: ZMQLClient and u a' es k fs
  assume u: "zmql_unit sgnd a u a' es" and k: "k < length u"
  show "zmql_client_process sgnd (take k u) (a, fs) = (0, (a, fs))"
    using u k process_greeting(2) [OF _ u k] by (cases "zc_state a = ZMQL_DATA") (auto elim!: zmql_unit.cases simp: process_frame_partial)
next
  fix a :: ZMQLClient and fs
  show "zmql_client_process sgnd [] (a, fs) = (0, (a, fs))"
    by (cases "zc_state a") (auto simp: zmql_client_process_def Let_def)
qed

section \<open>A connection\<close>

text \<open>The event loop calls \<open>zmql_client_read_cb\<close> for each piece that arrives, until it asks to be removed.\<close>

fun zmql_reads ::
  "bool \<Rightarrow> (nat \<Rightarrow> bool) \<Rightarrow> u8 list list \<Rightarrow> ZMQLClient \<Rightarrow> ZMQLServer \<Rightarrow> (int \<times> ZMQLClient \<times> ZMQLServer \<times> zeffect list) option" where
  "zmql_reads sgnd alloc [] client server = Some (EVENT_KEEP, client, server, [])"
| "zmql_reads sgnd alloc (x # xs) client server =
     (case zmql_client_read_cb sgnd alloc (ReadData x) client server of
        None \<Rightarrow> None
      | Some (keep, client1, server1, es) \<Rightarrow>
          if keep = EVENT_KEEP
          then map_option (\<lambda>(k, c, s, fs). (k, c, s, es @ fs)) (zmql_reads sgnd alloc xs client1 server1)
          else Some (keep, client1, server1, es))"

lemma data_state_commute: "c\<lparr>zc_data := d, zc_state := st\<rparr> = (c\<lparr>zc_state := st, zc_data := d\<rparr> :: ZMQLClient)"
  by simp

lemma unit_frame_fields:
  assumes "zmql_unit sgnd c u c' es"
  shows "zc_closeFlag c' = zc_closeFlag c \<and> zc_id c' = zc_id c \<and> zmql_unit sgnd (c\<lparr>zc_data := d\<rparr>) u (c'\<lparr>zc_data := d\<rparr>) es"
  using assms
proof induct
  case (unit_signature c)
  then show ?case using zmql_unit.unit_signature [of "c\<lparr>zc_data := d\<rparr>" sgnd] by (simp add: data_state_commute)
next
  case (unit_vers c)
  then show ?case using zmql_unit.unit_vers [of "c\<lparr>zc_data := d\<rparr>" sgnd] by (simp add: data_state_commute)
next
  case (unit_auth c)
  then show ?case using zmql_unit.unit_auth [of "c\<lparr>zc_data := d\<rparr>" sgnd] by (simp add: data_state_commute)
next
  case (unit_frame c fr)
  then show ?case using zmql_unit.unit_frame [of "c\<lparr>zc_data := d\<rparr>" sgnd fr] by simp
qed

lemma steps_fields:
  assumes "zmql.steps sgnd c us c' es"
  shows "zc_closeFlag c' = zc_closeFlag c \<and> zc_id c' = zc_id c \<and> zmql.steps sgnd (c\<lparr>zc_data := d\<rparr>) us (c'\<lparr>zc_data := d\<rparr>) es"
  using assms by (induct rule: zmql.steps.induct) (auto intro: zmql.steps.intros dest: unit_frame_fields)

lemma put_client_twice: "zc_id c' = zc_id c \<Longrightarrow> put_client c' (put_client c s) = put_client c' s"
  by (simp add: put_client_def)

lemma read_units:
  assumes st: "zmql.steps sgnd c us c_end es" and b: "zc_data c = Some b" "buf_ok b" and cl: "\<not> zc_closeFlag c"
    and al: "\<forall>n. alloc n" and x: "x \<noteq> []" and p: "buf_content b @ x @ rest = concat us" and l: "length (concat us) < 2 ^ 62"
  shows "\<exists>a1 b2 us1 us2 es1 es2. zmql_client_read_cb sgnd alloc (ReadData x) c s =
      Some (EVENT_KEEP, a1\<lparr>zc_data := Some b2\<rparr>, put_client (a1\<lparr>zc_data := Some b2\<rparr>) s, es1) \<and>
    us = us1 @ us2 \<and> es = es1 @ es2 \<and> zmql.steps sgnd a1 us2 c_end es2 \<and> buf_ok b2 \<and> buf_content b2 @ rest = concat us2 \<and>
    zmql.waits (buf_content b2) us2"
proof -
  have "length (buf_content b) + length x < 2 ^ 62" using arg_cong [OF p, of length] l by simp
  then obtain b1 us1 us2 n a1 es1 es2 b2 where a: "ipc_append_buffer alloc (Some b) x (int (length x)) = Some (int (length x), Some b1)"
      "ipc_process_buffer (Some b1) (Some (zmql_client_process sgnd)) (c, []) = Some (n, (a1, [] @ es1), Some b2)"
      "us = us1 @ us2" "es = es1 @ es2" "zmql.steps sgnd a1 us2 c_end es2" "buf_ok b2" "buf_content b2 @ rest = concat us2"
      "zmql.waits (buf_content b2) us2"
    using zmql.append_process [OF b(2) al _ st p x, of "[]"] by blast
  have "\<not> zc_closeFlag a1" using steps_fields [OF st] steps_fields [OF a(5)] cl by simp
  moreover have "c\<lparr>zc_closeFlag := False\<rparr> = c" using cl by simp
  ultimately have "zmql_client_read_cb sgnd alloc (ReadData x) c s =
      Some (EVENT_KEEP, a1\<lparr>zc_data := Some b2\<rparr>, put_client (a1\<lparr>zc_data := Some b2\<rparr>) s, es1)"
    using a(1,2) b(1) x by (simp add: zmql_client_read_cb_def Let_def)
  then show ?thesis using a(3-8) by blast
qed

lemma reads_units:
  assumes "zmql.steps sgnd c us c_end es" "zc_data c = Some b" "buf_ok b" "\<not> zc_closeFlag c" "\<forall>n. alloc n"
    "[] \<notin> set chunks" "buf_content b @ concat chunks = concat us" "length (concat us) < 2 ^ 62" "zmql.waits (buf_content b) us"
  shows "\<exists>b'. zmql_reads sgnd alloc chunks c s =
      Some (EVENT_KEEP, c_end\<lparr>zc_data := Some b'\<rparr>, if chunks = [] then s else put_client (c_end\<lparr>zc_data := Some b'\<rparr>) s, es) \<and>
    buf_ok b' \<and> buf_content b' = []"
  using assms
proof (induction chunks arbitrary: c us es b s c_end)
  case Nil
  have "us = []"
  proof (rule ccontr)
    assume "us \<noteq> []"
    then have "length (hd us) \<le> length (concat us)" by (cases us) auto
    then show False using Nil.prems(7,9) \<open>us \<noteq> []\<close> by (simp add: zmql.waits_def)
  qed
  then have "c_end = c" "es = []" using Nil.prems(1) by (auto elim: zmql.steps_NilE)
  moreover have "c\<lparr>zc_data := Some b\<rparr> = c" using Nil.prems(2) by simp
  ultimately show ?case using Nil.prems \<open>us = []\<close> by (intro exI [of _ b]) simp
next
  case (Cons x xs)
  have p: "buf_content b @ x @ concat xs = concat us" and x: "x \<noteq> []" using Cons.prems(6,7) by auto
  obtain a1 b2 us1 us2 es1 es2 where r: "zmql_client_read_cb sgnd alloc (ReadData x) c s =
        Some (EVENT_KEEP, a1\<lparr>zc_data := Some b2\<rparr>, put_client (a1\<lparr>zc_data := Some b2\<rparr>) s, es1)"
      "us = us1 @ us2" "es = es1 @ es2" "zmql.steps sgnd a1 us2 c_end es2" "buf_ok b2" "buf_content b2 @ concat xs = concat us2"
      "zmql.waits (buf_content b2) us2"
    using read_units [OF Cons.prems(1,2,3,4,5) x p Cons.prems(8), of s] by blast
  let ?c = "a1\<lparr>zc_data := Some b2\<rparr>"
  have st: "zmql.steps sgnd ?c us2 (c_end\<lparr>zc_data := Some b2\<rparr>) es2" "zc_id c_end = zc_id a1"
    using steps_fields [OF r(4)] by auto
  have cl: "\<not> zc_closeFlag ?c" using steps_fields [OF Cons.prems(1)] steps_fields [OF r(4)] Cons.prems(4) by simp
  obtain b' where b': "zmql_reads sgnd alloc xs ?c (put_client ?c s) =
      Some (EVENT_KEEP, c_end\<lparr>zc_data := Some b'\<rparr>,
        if xs = [] then put_client ?c s else put_client (c_end\<lparr>zc_data := Some b'\<rparr>) (put_client ?c s), es2) \<and> buf_ok b' \<and> buf_content b' = []"
    using Cons.IH [OF st(1) _ r(5) cl Cons.prems(5) _ r(6) _ r(7), of "put_client ?c s"] Cons.prems(6,8) r(2)
    by (cases "xs = []") auto
  have "c_end\<lparr>zc_data := Some b'\<rparr> = ?c" if "xs = []"
    using b' that by simp
  then have "(if xs = [] then put_client ?c s else put_client (c_end\<lparr>zc_data := Some b'\<rparr>) (put_client ?c s)) = put_client (c_end\<lparr>zc_data := Some b'\<rparr>) s"
    using st(2) by (simp add: put_client_twice)
  then show ?case using b' r(1,3) by auto
qed

lemma steps_frames:
  assumes "zc_state c = ZMQL_DATA" "zc_msgCb c" "list_all (zframe_ok sgnd) frs"
  shows "zmql.steps sgnd c (map zframe frs) c (concat (map (zdelivered (zc_id c)) frs))"
  using assms(3)
  by (induction frs) (auto intro!: zmql.steps.intros zmql_unit.unit_frame assms(1,2))

lemma steps_greeting:
  assumes c: "zc_state c = ZMQL_SIGNATURE" "zc_connectCb c" "zc_msgCb c" and frs: "list_all (zframe_ok sgnd) frs"
  shows "zmql.steps sgnd c (ZMQ_SIGNATURE_DATA # ZMQ_VERS_DATA # ZMQ_AUTH_DATA # map zframe frs) (c\<lparr>zc_state := ZMQL_DATA\<rparr>)
    ([ZWrite (zc_id c) ZMQ_VERS_DATA, ZWrite (zc_id c) ZMQ_AUTH_DATA, ZWrite (zc_id c) ZMQ_HANDSHAKE_DATA, ZConnect (zc_id c)] @
     concat (map (zdelivered (zc_id c)) frs))"
proof -
  let ?c1 = "c\<lparr>zc_state := ZMQL_VERS1\<rparr>" and ?c2 = "c\<lparr>zc_state := ZMQL_AUTH\<rparr>" and ?c3 = "c\<lparr>zc_state := ZMQL_DATA\<rparr>"
  have "zmql_unit sgnd c ZMQ_SIGNATURE_DATA ?c1 [ZWrite (zc_id c) ZMQ_VERS_DATA]" using c by (intro unit_signature)
  moreover have "zmql_unit sgnd ?c1 ZMQ_VERS_DATA ?c2 [ZWrite (zc_id c) ZMQ_AUTH_DATA]" using unit_vers [of ?c1 sgnd] by simp
  moreover have "zmql_unit sgnd ?c2 ZMQ_AUTH_DATA ?c3 [ZWrite (zc_id c) ZMQ_HANDSHAKE_DATA, ZConnect (zc_id c)]"
    using unit_auth [of ?c2 sgnd] c by simp
  moreover have "zmql.steps sgnd ?c3 (map zframe frs) ?c3 (concat (map (zdelivered (zc_id c)) frs))"
    using steps_frames [of ?c3 sgnd frs] c frs by simp
  ultimately have "zmql.steps sgnd c (ZMQ_SIGNATURE_DATA # ZMQ_VERS_DATA # ZMQ_AUTH_DATA # map zframe frs) ?c3
      ([ZWrite (zc_id c) ZMQ_VERS_DATA] @ [ZWrite (zc_id c) ZMQ_AUTH_DATA] @ [ZWrite (zc_id c) ZMQ_HANDSHAKE_DATA, ZConnect (zc_id c)] @
       concat (map (zdelivered (zc_id c)) frs))"
    by (intro zmql.steps_Cons) 
  then show ?thesis by simp
qed

text \<open>
  C24: Whatever pieces the network delivers the bytes of a peer in, \<open>zmql_client_read_cb\<close> answers the
  greeting step by step, announces the connection once, and hands every message that follows to the
  message callback exactly once, whole and in order, while commands are skipped; nothing is
  delivered before it is complete and nothing is left in the buffer at the end. The frames may carry
  any flags, with the length in one byte or in eight; a length in one byte is below 128 where
  \<open>char\<close> is signed.
\<close>
theorem zmql_messages_delivered:
  assumes "zs_connectCb server" "zs_msgCb server" "\<forall>n. alloc n"
    and frs: "list_all (zframe_ok sgnd) frs"
    and stream: "concat chunks = ZMQ_SIGNATURE_DATA @ ZMQ_VERS_DATA @ ZMQ_AUTH_DATA @ concat (map zframe frs)"
    and chunks: "[] \<notin> set chunks" "length (concat chunks) < 2 ^ 62"
  shows "\<exists>b. let client = (accepted_client node fd True server)\<lparr>zc_state := ZMQL_DATA, zc_data := Some b\<rparr> in
    zmql_reads sgnd alloc chunks (accepted_client node fd True server) server1 =
      Some (EVENT_KEEP, client, put_client client server1,
        [ZWrite node ZMQ_VERS_DATA, ZWrite node ZMQ_AUTH_DATA, ZWrite node ZMQ_HANDSHAKE_DATA, ZConnect node] @
        concat (map (zdelivered node) frs)) \<and> buf_content b = []"
proof -
  let ?c = "accepted_client node fd True server" and ?b = "\<lparr>ib_allocLen = 0, ib_dataLen = 0, ib_data = None\<rparr>"
  let ?us = "ZMQ_SIGNATURE_DATA # ZMQ_VERS_DATA # ZMQ_AUTH_DATA # map zframe frs"
  have c: "zc_state ?c = ZMQL_SIGNATURE" "zc_connectCb ?c" "zc_msgCb ?c" "zc_data ?c = Some ?b" "\<not> zc_closeFlag ?c" "zc_id ?c = node"
    using assms(1,2) by (simp_all add: accepted_client_def ipc_alloc_buffer_def)
  have b: "buf_ok ?b" "buf_content ?b = []" by (simp_all add: buf_ok_def buf_content_def)
  have s: "buf_content ?b @ concat chunks = concat ?us" "length (concat ?us) < 2 ^ 62" "zmql.waits (buf_content ?b) ?us"
    using stream chunks(2) b(2) by (simp_all add: zmql.waits_def)
  have "chunks \<noteq> []" using stream by auto
  then show ?thesis
    using reads_units [OF steps_greeting [OF c(1-3) frs] c(4) b(1) c(5) assms(3) chunks(1) s, of server1] c(6)
    by (auto simp: Let_def)
qed

theorem zmql_messages_delivered_witness:
  "\<exists>c s. zmql_reads True (\<lambda>_. True) [ZMQ_SIGNATURE_DATA @ ZMQ_VERS_DATA, ZMQ_AUTH_DATA @ [4, 1], [9, 0, 2], [7], [8]]
      (accepted_client 1 5 True \<lparr>zs_socket = 3, zs_clientCount = 0, zs_clients = [], zs_msgCb = True, zs_connectCb = True, zs_disconnectCb = True\<rparr>)
      \<lparr>zs_socket = 3, zs_clientCount = 0, zs_clients = [], zs_msgCb = True, zs_connectCb = True, zs_disconnectCb = True\<rparr> =
    Some (EVENT_KEEP, c, s, [ZWrite 1 ZMQ_VERS_DATA, ZWrite 1 ZMQ_AUTH_DATA, ZWrite 1 ZMQ_HANDSHAKE_DATA, ZConnect 1, ZMessage 1 2 (Some [7, 8])])"
  using zmql_messages_delivered [of "\<lparr>zs_socket = 3, zs_clientCount = 0, zs_clients = [], zs_msgCb = True, zs_connectCb = True, zs_disconnectCb = True\<rparr>"
      "\<lambda>_. True" True "[(4, [9]), (0, [7, 8])]" "[ZMQ_SIGNATURE_DATA @ ZMQ_VERS_DATA, ZMQ_AUTH_DATA @ [4, 1], [9, 0, 2], [7], [8]]" 1 5
      "\<lparr>zs_socket = 3, zs_clientCount = 0, zs_clients = [], zs_msgCb = True, zs_connectCb = True, zs_disconnectCb = True\<rparr>"]
  by (auto simp: zframe_ok_def zframe_def zdelivered_def Let_def)

text \<open>What the server writes to a client is such a frame, when the writes are not cut short.\<close>

lemma zmql_write_buffer_frame:
  assumes "zc_state client = ZMQL_DATA" "buf_ok b" "buf_content b = m" "ipc_write_buffer_sync rs (Some b) = Some (0, sent)"
  shows "zmql_write_buffer rs client (Some b) =
      Some (0, [ZWrite (zc_id client) (frame_header (length m)), ZWrite (zc_id client) m]) \<and>
    frame_header (length m) @ m = zframe (if length m \<le> 255 then 0 else 2, m)"
proof -
  have l: "ipc_buffer_size (Some b) = length m" using length_content [OF assms(2)] assms(3) by (simp add: ipc_buffer_size_def)
  have "sent = m"
    using assms(4) write_loop_sends [of rs "[]" _ 0 sent] assms(3)
    by (auto simp: ipc_write_buffer_sync_def buf_content_def split: option.splits if_splits)
  then show ?thesis
    using assms(1,4) l by (simp add: zmql_write_buffer_def frame_header_def zframe_def bit_simps)
qed

text \<open>
  Where \<open>char\<close> is signed the server cannot read the frames it writes: a message of 128 to 253 bytes
  is never complete, and for 254 bytes the callback is handed a length of \<open>2 ^ 64 - 2\<close> on each read.
\<close>

lemma zmql_signed_length_stalls:
  assumes "zc_state c = ZMQL_DATA" "128 \<le> length m" "length m < 254" "length rest < 2 ^ 62"
  shows "zmql_client_process True (frame_header (length m) @ m @ rest) (c, es) = (0, (c, es))"
proof -
  let ?n = "length m"
  have "sint (of_nat ?n :: u8) = int ?n - 256"
    using assms(2,3) mod_pos_geq [of 256 "int ?n + 128"] by (simp add: signed_of_nat signed_take_bit_eq_take_bit_shift take_bit_eq_mod)
  moreover have "(int ?n - 256) mod 2 ^ 64 = int ?n - 256 + 2 ^ 64"
    using assms(3) by (subst mod_add_self2 [symmetric], subst mod_pos_pos_trivial) auto
  ultimately have h: "zmql_frame_header True (frame_header ?n @ m @ rest) = Some (2, 2 ^ 64 - 256 + ?n)"
    using assms(2,3) by (simp add: zmql_frame_header_def frame_header_def char_len_def size_of_int_def nat_add_distrib nat_diff_distrib)
  have t: "(2 + (2 ^ 64 - 256 + ?n)) mod 2 ^ 64 = 2 ^ 64 - 254 + ?n" using assms(3) by simp
  have l: "length (frame_header ?n @ m @ rest) < 2 ^ 64 - 254 + ?n" "\<not> length (frame_header ?n @ m @ rest) < 1"
    using assms(2,3,4) by (simp_all add: frame_header_def)
  show ?thesis
    using assms(1) h t l by (simp only: zmql_client_process_def Let_def prod.case option.case ZMQLState.case if_False if_True)
qed

lemma zmql_signed_length_wraps:
  "zc_state c = ZMQL_DATA \<Longrightarrow> zc_msgCb c \<Longrightarrow>
   zmql_client_process True (frame_header 254 @ replicate 254 x) (c, es) = (0, (c, es @ [ZMessage (zc_id c) (2 ^ 64 - 2) None]))"
  by (simp add: zmql_client_process_def zmql_frame_header_def frame_header_def char_len_def size_of_int_def bit_simps)

text \<open>An eight-byte length near \<open>2 ^ 64\<close> wraps the check that the message is complete, on every machine.\<close>

lemma zmql_long_length_wraps:
  "zc_state c = ZMQL_DATA \<Longrightarrow> zc_msgCb c \<Longrightarrow>
   zmql_client_process sgnd [2, 255, 255, 255, 255, 255, 255, 255, 255] (c, es) = (8, (c, es @ [ZMessage (zc_id c) (2 ^ 64 - 1) None]))"
  by (simp add: zmql_client_process_def zmql_frame_header_def be_nat_def bit_simps)

section \<open>The list of clients\<close>

definition server_ok :: "ZMQLServer \<Rightarrow> bool" where
  "server_ok s \<longleftrightarrow> zs_clientCount s = int (length (zs_clients s)) \<and> distinct (map zc_id (zs_clients s))"

lemma destroy_client_ok:
  assumes "server_ok s" "zc_id c \<in> zc_id ` set (zs_clients s)"
  shows "server_ok (fst (zmql_destroy_client (Some c) s)) \<and>
    zc_id ` set (zs_clients (fst (zmql_destroy_client (Some c) s))) = zc_id ` set (zs_clients s) - {zc_id c}"
proof -
  have "length (filter (\<lambda>x. zc_id x \<noteq> zc_id c) xs) = length xs - 1"
    if "distinct (map zc_id xs)" "zc_id c \<in> zc_id ` set xs" for xs :: "ZMQLClient list"
    using that
  proof (induction xs)
    case (Cons x xs)
    then show ?case
    proof (cases "zc_id x = zc_id c")
      case True
      then have "filter (\<lambda>y. zc_id y \<noteq> zc_id c) xs = xs" using Cons.prems(1) by (auto simp: filter_id_conv image_iff)
      then show ?thesis using True by simp
    next
      case False
      then have "zc_id c \<in> zc_id ` set xs" using Cons.prems(2) by auto
      moreover from this have "0 < length xs" by auto
      ultimately show ?thesis using False Cons by simp
    qed
  qed simp
  moreover have "0 < length (zs_clients s)" using assms(2) by auto
  ultimately show ?thesis
    using assms by (auto simp: server_ok_def zmql_destroy_client_def distinct_map_filter of_nat_diff Suc_le_eq)
qed

lemma put_client_ok [simp]: "server_ok (put_client c s) = server_ok s"
proof -
  have "map (zc_id \<circ> (\<lambda>x. if zc_id x = zc_id c then c else x)) (zs_clients s) = map zc_id (zs_clients s)" by auto
  then show ?thesis by (simp add: server_ok_def put_client_def del: map_eq_conv)
qed

lemma destroy_clients_all:
  "server_ok s \<Longrightarrow> zs_clients (fst (destroy_clients s)) = [] \<and> server_ok (fst (destroy_clients s)) \<and>
     [zc_socket c. c \<leftarrow> zs_clients s] = [fd. ZClose fd \<leftarrow> snd (destroy_clients s)]"
proof (induction s rule: destroy_clients.induct)
  case (1 s)
  show ?case
  proof (cases "zs_clients s")
    case Nil
    then show ?thesis using 1(2) by (simp add: destroy_clients.simps)
  next
    case (Cons c cs)
    obtain s1 es where d: "zmql_destroy_client (Some c) s = (s1, es)" by fastforce
    have s1: "server_ok s1" using destroy_client_ok [OF 1(2), of c] Cons d by simp
    have "filter (\<lambda>x. zc_id x \<noteq> zc_id c) cs = cs" using 1(2) Cons by (auto simp: server_ok_def filter_id_conv image_iff)
    then have cs: "zs_clients s1 = cs" "[fd. ZClose fd \<leftarrow> es] = [zc_socket c]"
      using d Cons by (auto simp: zmql_destroy_client_def)
    show ?thesis
      using 1(1) [OF Cons d [symmetric] s1] d Cons cs 
      by (cases "destroy_clients s1") (simp add: destroy_clients.simps [of s])
  qed
qed

lemma process_consumes: "consumer (zmql_client_process sgnd)"
  unfolding consumer_def
proof (intro allI)
  fix d :: "u8 list" and a :: "ZMQLClient \<times> zeffect list"
  obtain c es where a: "a = (c, es)" by fastforce
  show "fst (zmql_client_process sgnd d a) \<le> length d"
    unfolding a by (cases "zc_state c") (auto simp: zmql_client_process_def Let_def Suc_le_eq split: option.splits)
qed

lemma process_keeps_id: "zc_id (fst (snd (zmql_client_process sgnd d (c, es)))) = zc_id c"
  by (cases "zc_state c") (auto simp: zmql_client_process_def Let_def split: option.splits)

lemma process_buffer_keeps_id:
  "ipc_process_buffer (Some b) (Some (zmql_client_process sgnd)) (c, es) = Some (n, (c', es'), b') \<Longrightarrow> zc_id c' = zc_id c"
  by (drule process_buffer_inv [where P = "\<lambda>a. zc_id (fst a) = zc_id c"]) (auto simp: process_keeps_id)

text \<open>
  C25: No bytes a peer sends stop the server or corrupt its list of clients: for every read,
  \<open>zmql_client_read_cb\<close> returns, the count of clients is the length of the list, and the client is
  either kept, with a well-formed buffer, or removed from the list and its socket closed.
\<close>
theorem zmql_read_safe:
  assumes s: "server_ok s" "zc_id c \<in> zc_id ` set (zs_clients s)" and b: "zc_data c = Some b" "buf_ok b"
    and al: "\<forall>n. alloc n" and l: "length (buf_content b) + length x < 2 ^ 62"
  shows "\<exists>keep c' s' es. zmql_client_read_cb sgnd alloc (ReadData x) c s = Some (keep, c', s', es) \<and> server_ok s' \<and>
    (keep = EVENT_KEEP \<and> zc_id ` set (zs_clients s') = zc_id ` set (zs_clients s) \<and> c' \<in> set (zs_clients s') \<and>
       (\<exists>b'. zc_data c' = Some b' \<and> buf_ok b') \<or>
     keep = EVENT_REMOVE \<and> zc_id ` set (zs_clients s') = zc_id ` set (zs_clients s) - {zc_id c} \<and> (\<exists>fs. es = fs @ [ZClose (zc_socket c')]))"
proof -
  let ?c = "c\<lparr>zc_closeFlag := False\<rparr>"
  have gone: "\<exists>s' fs. zmql_destroy_client (Some (d\<lparr>zc_closeFlag := True\<rparr>)) s = (s', fs @ [ZClose (zc_socket d)]) \<and> server_ok s' \<and>
      zc_id ` set (zs_clients s') = zc_id ` set (zs_clients s) - {zc_id c}" if "zc_id d = zc_id c" for d
    using destroy_client_ok [of s "d\<lparr>zc_closeFlag := True\<rparr>"] s that by (auto simp: zmql_destroy_client_def)
  show ?thesis
  proof (cases "x = []")
    case True
    obtain s' fs where "zmql_destroy_client (Some (c\<lparr>zc_closeFlag := True\<rparr>)) s = (s', fs @ [ZClose (zc_socket c)])" "server_ok s'"
        "zc_id ` set (zs_clients s') = zc_id ` set (zs_clients s) - {zc_id c}"
      using gone [of c] by auto
    then show ?thesis using True by (auto simp: zmql_client_read_cb_def Let_def)
  next
    case False
    obtain b1 where b1: "ipc_append_buffer alloc (Some b) x (int (length x)) = Some (int (length x), Some b1)" "buf_ok b1"
      using append_buffer_ok [OF b(2) al l] by blast
    obtain n c1 es b2 where b2: "ipc_process_buffer (Some b1) (Some (zmql_client_process sgnd)) (?c, []) = Some (n, (c1, es), Some b2)" "buf_ok b2"
      using process_buffer_ok [OF b1(2) process_consumes [of sgnd], of "(?c, [])"] by auto
    have i: "zc_id c1 = zc_id c" using process_buffer_keeps_id [OF b2(1)] by simp
    show ?thesis
    proof (cases "zc_closeFlag c1")
      case True
      obtain s' fs where "zmql_destroy_client (Some (c1\<lparr>zc_data := Some b2, zc_closeFlag := True\<rparr>)) s = (s', fs @ [ZClose (zc_socket c1)])"
          "server_ok s'" "zc_id ` set (zs_clients s') = zc_id ` set (zs_clients s) - {zc_id c}"
        using gone [of "c1\<lparr>zc_data := Some b2\<rparr>"] i by auto
      then show ?thesis using True False b b1 b2 by (auto simp: zmql_client_read_cb_def Let_def)
    next
      case nf: False
      let ?d = "c1\<lparr>zc_data := Some b2\<rparr>"
      have "zc_id ` set (zs_clients (put_client ?d s)) = zc_id ` set (zs_clients s)"
        by (simp add: put_client_def image_image del: if_image_distrib cong: image_cong) (auto intro!: image_cong simp del: if_image_distrib)
      moreover have "?d \<in> set (zs_clients (put_client ?d s))" using i s(2) by (auto simp: put_client_def)
      ultimately show ?thesis using nf False b b1 b2 s(1) by (auto simp: zmql_client_read_cb_def Let_def)
    qed
  qed
qed

theorem zmql_read_safe_witness:
  "\<exists>keep c' s' es. zmql_client_read_cb True (\<lambda>_. True) (ReadData (replicate 10 7))
      (accepted_client 1 5 True \<lparr>zs_socket = 3, zs_clientCount = 0, zs_clients = [], zs_msgCb = True, zs_connectCb = True, zs_disconnectCb = True\<rparr>)
      \<lparr>zs_socket = 3, zs_clientCount = 1,
       zs_clients = [accepted_client 1 5 True \<lparr>zs_socket = 3, zs_clientCount = 0, zs_clients = [], zs_msgCb = True, zs_connectCb = True, zs_disconnectCb = True\<rparr>],
       zs_msgCb = True, zs_connectCb = True, zs_disconnectCb = True\<rparr> = Some (keep, c', s', es) \<and> server_ok s'"
  using zmql_read_safe [of "\<lparr>zs_socket = 3, zs_clientCount = 1,
       zs_clients = [accepted_client 1 5 True \<lparr>zs_socket = 3, zs_clientCount = 0, zs_clients = [], zs_msgCb = True, zs_connectCb = True, zs_disconnectCb = True\<rparr>],
       zs_msgCb = True, zs_connectCb = True, zs_disconnectCb = True\<rparr>"
      "accepted_client 1 5 True \<lparr>zs_socket = 3, zs_clientCount = 0, zs_clients = [], zs_msgCb = True, zs_connectCb = True, zs_disconnectCb = True\<rparr>"
      "\<lparr>ib_allocLen = 0, ib_dataLen = 0, ib_data = None\<rparr>" "\<lambda>_. True" "replicate 10 7" True]
  by (fastforce simp: server_ok_def accepted_client_def ipc_alloc_buffer_def buf_ok_def buf_content_def)

end
