(* ===== verification/Proc_Queue.thy ===== *)
theory Proc_Queue
  imports Event_State
begin

text \<open>
  Output and signals of a process (\<open>proclib.c\<close>): the queue of writes that wait until their descriptor accepts
  data, datagrams sent to other processes, and the pipe through which signals reach the event loop.

  \<^item> A pointer to data is an \<open>u8 list option\<close>; the length of the list is the length passed with it.
  \<^item> \<open>pw_armed\<close> holds the descriptors for which \<open>EVT_fd_add\<close> has registered \<open>write_event_callback\<close>. Whether \<open>malloc\<close> and \<open>EVT_fd_add\<close>
    succeed is part of a submission.
  \<^item> A write callback may queue further writes; which ones is an argument of \<open>write_event_callback\<close>.
\<close>

section \<open>Writes that do not block\<close>

definition FREE_DATA_AFTER_WRITE :: int where "FREE_DATA_AFTER_WRITE = 1"
definition COPY_DATA_TO_WRITE :: int where "COPY_DATA_TO_WRITE = 2"
definition IGNORE_DATA_AFTER_WRITE :: int where "IGNORE_DATA_AFTER_WRITE = 3"

datatype proc_nb_write_cb = proc_write_callback | user_callback nat

record ProcWriteNode =
  wn_data :: "u8 list option"
  wn_len :: nat
  wn_fd :: int
  wn_freeMem :: bool
  wn_cb :: proc_nb_write_cb
  wn_arg :: nat

record proc_writes =
  pw_list :: "ProcWriteNode list"
  pw_armed :: "int set"

record submission =
  sb_fd :: int
  sb_data :: "u8 list"
  sb_cb :: proc_nb_write_cb
  sb_arg :: nat
  sb_opts :: int
  sb_node_ok :: bool
  sb_copy_ok :: bool
  sb_add_ok :: bool

text \<open>The node as it is filled in before it is queued; \<open>None\<close> where the copy cannot be allocated.\<close>

definition write_node :: "submission \<Rightarrow> ProcWriteNode option" where
  "write_node sb =
     (if sb_opts sb = COPY_DATA_TO_WRITE \<and> \<not> sb_copy_ok sb then None
      else Some \<lparr>wn_data = (if sb_opts sb = COPY_DATA_TO_WRITE then Some (sb_data sb) else None),
                 wn_len = (if sb_opts sb = COPY_DATA_TO_WRITE then length (sb_data sb) else 0),
                 wn_fd = sb_fd sb, wn_freeMem = (sb_opts sb \<noteq> IGNORE_DATA_AFTER_WRITE), wn_cb = sb_cb sb, wn_arg = sb_arg sb\<rparr>)"

definition PROC_nonblocking_write_callback :: "submission \<Rightarrow> proc_writes \<Rightarrow> int \<times> proc_writes" where
  "PROC_nonblocking_write_callback sb proc =
     (if \<not> sb_node_ok sb then (-1, proc)
      else case write_node sb of
             None \<Rightarrow> (-1, proc)
           | Some newNode \<Rightarrow>
               let writePending = list_ex (\<lambda>n. wn_fd n = wn_fd newNode) (pw_list proc);
                   proc1 = proc\<lparr>pw_list := pw_list proc @ [newNode]\<rparr>
               in if \<not> writePending
                  then if \<not> sb_add_ok sb then (-1, proc)
                       else (0, proc1\<lparr>pw_armed := insert (wn_fd newNode) (pw_armed proc1)\<rparr>)
                  else (0, proc1))"

definition PROC_nonblocking_write :: "submission \<Rightarrow> proc_writes \<Rightarrow> int \<times> proc_writes" where
  "PROC_nonblocking_write sb proc = PROC_nonblocking_write_callback (sb\<lparr>sb_cb := proc_write_callback, sb_arg := 0\<rparr>) proc"

text \<open>The submissions that are accepted, in order, and the queue after all of them.\<close>

fun submit_all :: "submission list \<Rightarrow> proc_writes \<Rightarrow> submission list \<times> proc_writes" where
  "submit_all [] proc = ([], proc)"
| "submit_all (sb # sbs) proc =
     (case PROC_nonblocking_write_callback sb proc of
        (rc, proc1) \<Rightarrow> (case submit_all sbs proc1 of (acc, proc2) \<Rightarrow> (if rc = 0 then sb # acc else acc, proc2)))"

text \<open>
  The callback of the event loop: find the first node of the descriptor, call it, unlink it, and ask to be kept while a later node
  is for the same descriptor. The result is what to do with the event, the node called, and the submissions accepted meanwhile.
\<close>

definition write_event_callback ::
  "submission list \<Rightarrow> int \<Rightarrow> proc_writes \<Rightarrow> int \<times> ProcWriteNode option \<times> submission list \<times> proc_writes" where
  "write_event_callback more_writes fd proc =
     (case dropWhile (\<lambda>n. wn_fd n \<noteq> fd) (pw_list proc) of
        [] \<Rightarrow> (EVENT_REMOVE, None, [], proc)
      | tx # _ \<Rightarrow>
          let (acc, proc1) = submit_all more_writes proc;
              before = takeWhile (\<lambda>n. wn_fd n \<noteq> fd) (pw_list proc1);
              after = drop (length before + 1) (pw_list proc1)
          in (if dropWhile (\<lambda>n. wn_fd n \<noteq> fd) after = [] then EVENT_REMOVE else EVENT_KEEP,
              Some tx, acc, proc1\<lparr>pw_list := before @ after\<rparr>))"

text \<open>What the event loop does when an armed descriptor accepts data.\<close>

definition write_ready ::
  "submission list \<Rightarrow> int \<Rightarrow> proc_writes \<Rightarrow> ProcWriteNode option \<times> submission list \<times> proc_writes" where
  "write_ready more_writes fd proc =
     (case write_event_callback more_writes fd proc of
        (keep, tx, acc, proc1) \<Rightarrow>
          (tx, acc, if keep = EVENT_REMOVE then proc1\<lparr>pw_armed := pw_armed proc1 - {fd}\<rparr> else proc1))"

section \<open>Datagrams to other processes\<close>

text \<open>
  The result of \<open>sendto\<close>: a number of bytes, or the value of \<open>errno\<close>. \<open>ERR_WARN\<close> clears \<open>errno\<close> after it has reported it; the result
  of \<open>socket_write\<close> is paired with \<open>errno\<close> as it leaves it.
\<close>

definition EAGAIN :: int where "EAGAIN = 11"

definition socket_write :: "int + int \<Rightarrow> int \<times> int" where
  "socket_write sent = (case sent of Inl err \<Rightarrow> (-1, 0) | Inr n \<Rightarrow> (n, 0))"

datatype msg_effect = MFreed | MScheduled int | MKept

definition proc_cmd_sockaddr_raw_internal :: "int + int \<Rightarrow> int \<Rightarrow> u8 list \<Rightarrow> int \<times> msg_effect" where
  "proc_cmd_sockaddr_raw_internal sent fd data =
     (case socket_write sent of
        (retval, err) \<Rightarrow>
          if err = 0 then (retval, MFreed)
          else if err = EAGAIN then (int (length data), MScheduled fd)
          else (retval, MKept))"

definition proc_cmd_sockaddr_internal :: "int + int \<Rightarrow> int \<Rightarrow> u8 \<Rightarrow> u8 list \<Rightarrow> u8 list \<times> int \<times> msg_effect" where
  "proc_cmd_sockaddr_internal sent fd cmd data = (cmd # data, proc_cmd_sockaddr_raw_internal sent fd (cmd # data))"

definition socket_write_cb :: "int + int \<Rightarrow> int \<times> msg_effect" where
  "socket_write_cb sent =
     (case socket_write sent of
        (_, err) \<Rightarrow> if err = 0 then (EVENT_REMOVE, MFreed) else if err = EAGAIN then (EVENT_KEEP, MKept) else (EVENT_REMOVE, MKept))"

text \<open>
  \<open>port\<close> is the result of \<open>socket_get_addr_by_name\<close>. The result \<open>None\<close> means that no datagram is sent; otherwise the port of the
  loopback address, and the datagram with the result of sending it.
\<close>

definition proc_cmd_internal :: "int \<Rightarrow> int + int \<Rightarrow> int \<Rightarrow> u8 \<Rightarrow> u8 list \<Rightarrow> int \<times> (int \<times> u8 list \<times> msg_effect) option" where
  "proc_cmd_internal port sent fd cmd data =
     (if port > 0
      then case proc_cmd_sockaddr_internal sent fd cmd data of (d, retval, eff) \<Rightarrow> (retval, Some (port, d, eff))
      else (0, None))"

text \<open>A multicast command goes to the group address and port of the service, if it has both.\<close>

definition PROC_multi_cmd :: "int \<Rightarrow> nat \<Rightarrow> int + int \<Rightarrow> int \<Rightarrow> u8 \<Rightarrow> u8 list \<Rightarrow> int \<times> (nat \<times> int \<times> u8 list \<times> msg_effect) option" where
  "PROC_multi_cmd port addr sent cmdFd cmd data =
     (if port > 0 \<and> addr \<noteq> 0
      then case proc_cmd_sockaddr_internal sent cmdFd cmd data of (d, retval, eff) \<Rightarrow> (retval, Some (addr, port, d, eff))
      else (0, None))"

section \<open>Signals\<close>

record ProcSignalCB =
  sc_cb :: nat
  sc_arg :: nat
  sc_sigNum :: int
  sc_recvdCnt :: nat

record proc_signals =
  ps_writeFD :: int
  ps_sigPipe0 :: int
  ps_sigPipe1 :: int
  ps_head :: "ProcSignalCB list"
  ps_rdBuff :: "u8 list"

text \<open>
  \<open>signalWriteFD\<close> is shared by all processes of the program. The arguments say what \<open>pipe\<close>, the two calls of \<open>fcntl\<close> and
  \<open>EVT_fd_add\<close> return.
\<close>

definition setup_signal_fd :: "(int \<times> int) option \<Rightarrow> int \<Rightarrow> bool \<Rightarrow> bool \<Rightarrow> int \<Rightarrow> proc_signals \<Rightarrow> int \<times> proc_signals" where
  "setup_signal_fd pipe_fds errno getfd_ok setfd_ok add_res proc =
     (if ps_writeFD proc \<noteq> -1 then (0, proc)
      else case pipe_fds of
             None \<Rightarrow> (errno, proc)
           | Some (rfd, wfd) \<Rightarrow>
               let proc1 = proc\<lparr>ps_sigPipe0 := rfd, ps_sigPipe1 := wfd\<rparr>
               in if \<not> getfd_ok then (-1, proc1)
                  else if \<not> setfd_ok then (-1, proc1)
                  else (add_res, proc1\<lparr>ps_writeFD := wfd\<rparr>))"

text \<open>When \<open>sigaction\<close> fails, the node has been freed and is still in the list: the result \<open>None\<close>.\<close>

definition PROC_signal :: "bool \<Rightarrow> bool \<Rightarrow> int \<Rightarrow> nat \<Rightarrow> nat \<Rightarrow> proc_signals \<Rightarrow> (int \<times> proc_signals) option" where
  "PROC_signal malloc_ok sigaction_ok sigNum cb p proc =
     (if ps_writeFD proc = -1 then Some (-1, proc)
      else if ps_sigPipe1 proc \<noteq> ps_writeFD proc then Some (-1, proc)
      else if \<not> malloc_ok then Some (-1, proc)
      else if \<not> sigaction_ok then None
      else Some (0, proc\<lparr>ps_head := \<lparr>sc_cb = cb, sc_arg = p, sc_sigNum = sigNum, sc_recvdCnt = 0\<rparr> # ps_head proc\<rparr>))"

definition int_bytes :: "int \<Rightarrow> u8 list" where
  "int_bytes n = map (\<lambda>i. word_of_int (n div 256 ^ i)) [0 ..< 4]"

definition bytes_int :: "u8 list \<Rightarrow> int" where
  "bytes_int bs = sint (word_of_int (foldr (\<lambda>b n. uint b + 256 * n) bs 0) :: 32 word)"

text \<open>The bytes the handler of a signal writes to the pipe, in the order of memory on a little-endian machine.\<close>

definition PROC_signal_handler :: "proc_signals \<Rightarrow> int \<Rightarrow> u8 list" where
  "PROC_signal_handler proc sigNum = (if ps_writeFD proc \<noteq> -1 then int_bytes sigNum else [])"

text \<open>
  \<open>keep\<close> says whether a callback wants to be called again. The result holds the callbacks called, in the order of the list,
  and the nodes left.
\<close>

fun run_signal_cbs :: "(ProcSignalCB \<Rightarrow> int) \<Rightarrow> int \<Rightarrow> ProcSignalCB list \<Rightarrow> (nat \<times> nat) list \<times> ProcSignalCB list" where
  "run_signal_cbs keep signum [] = ([], [])"
| "run_signal_cbs keep signum (s # ss) =
     (case run_signal_cbs keep signum ss of
        (cbs, rest) \<Rightarrow>
          if sc_sigNum s = signum
          then let s1 = s\<lparr>sc_recvdCnt := sc_recvdCnt s + 1\<rparr>
               in ((sc_cb s, sc_arg s) # cbs, if keep s1 = EVENT_REMOVE then rest else s1 # rest)
          else (cbs, s # rest))"

datatype pipe_read = PipeData "u8 list" | PipeAgain | PipeError

text \<open>
  One read from the pipe, of at most the bytes that complete the number; the bytes read so far are static. A read that would
  block makes the count negative, and the next one starts in front of the buffer: \<open>None\<close>.
\<close>

definition signal_fd_cb :: "(ProcSignalCB \<Rightarrow> int) \<Rightarrow> pipe_read \<Rightarrow> proc_signals \<Rightarrow> (int \<times> (nat \<times> nat) list \<times> proc_signals) option" where
  "signal_fd_cb keep rd proc =
     (case rd of
        PipeError \<Rightarrow> Some (EVENT_REMOVE, [], proc)
      | PipeAgain \<Rightarrow>
          (case ps_rdBuff proc of [] \<Rightarrow> None | _ \<Rightarrow> Some (EVENT_KEEP, [], proc\<lparr>ps_rdBuff := butlast (ps_rdBuff proc)\<rparr>))
      | PipeData bs \<Rightarrow>
          if bs = [] then Some (EVENT_REMOVE, [], proc)
          else
            let buff = ps_rdBuff proc @ bs
            in if length buff = 4
               then case run_signal_cbs keep (bytes_int buff) (ps_head proc) of
                      (cbs, rest) \<Rightarrow> Some (EVENT_KEEP, cbs, proc\<lparr>ps_rdBuff := [], ps_head := rest\<rparr>)
               else Some (EVENT_KEEP, [], proc\<lparr>ps_rdBuff := buff\<rparr>))"

end
