(* ===== verification/Proc_Queue_Correct.thy ===== *)
theory Proc_Queue_Correct
  imports Proc_Queue
begin

text \<open>
  Writes queued with \<open>PROC_nonblocking_write\<close> reach each descriptor in the order in which they were queued; signals reach
  their callbacks in the order in which they were raised, however the pipe is read; a datagram that would block is lost.
\<close>

section \<open>The queue of writes\<close>

definition on_fd :: "int \<Rightarrow> ProcWriteNode list \<Rightarrow> ProcWriteNode list" where
  "on_fd fd ns = filter (\<lambda>n. wn_fd n = fd) ns"

lemma on_fd_simps [simp]:
  "on_fd fd [] = []" "on_fd fd (ms @ ns) = on_fd fd ms @ on_fd fd ns"
  "on_fd fd (n # ns) = (if wn_fd n = fd then n # on_fd fd ns else on_fd fd ns)"
  by (simp_all add: on_fd_def)

definition queued :: "submission \<Rightarrow> ProcWriteNode" where
  "queued sb = (case write_node sb of Some n \<Rightarrow> n)"

definition writes_inv :: "proc_writes \<Rightarrow> bool" where
  "writes_inv proc \<longleftrightarrow> (\<forall>fd. fd \<in> pw_armed proc \<longleftrightarrow> on_fd fd (pw_list proc) \<noteq> [])"

lemma pending_iff: "list_ex (\<lambda>n. wn_fd n = fd) ns \<longleftrightarrow> on_fd fd ns \<noteq> []"
  by (induction ns) auto

lemma submit_one:
  assumes "PROC_nonblocking_write_callback sb proc = (rc, proc')" "writes_inv proc"
  shows "writes_inv proc' \<and> pw_list proc' = pw_list proc @ (if rc = 0 then [queued sb] else []) \<and> (rc = 0 \<or> rc = -1) \<and> pw_armed proc \<subseteq> pw_armed proc'"
proof (cases "sb_node_ok sb \<and> write_node sb \<noteq> None")
  case False
  then have "rc = -1" "proc' = proc" using assms(1) by (auto simp: PROC_nonblocking_write_callback_def split: if_splits option.splits)
  then show ?thesis using assms(2) by simp
next
  case True
  then obtain n where n: "sb_node_ok sb" "write_node sb = Some n" "queued sb = n" by (auto simp: queued_def)
  have call: "PROC_nonblocking_write_callback sb proc =
      (if on_fd (wn_fd n) (pw_list proc) \<noteq> [] then (0, proc\<lparr>pw_list := pw_list proc @ [n]\<rparr>)
       else if \<not> sb_add_ok sb then (-1, proc)
       else (0, proc\<lparr>pw_list := pw_list proc @ [n], pw_armed := insert (wn_fd n) (pw_armed proc)\<rparr>))"
    using n by (simp add: PROC_nonblocking_write_callback_def pending_iff Let_def)
  consider "on_fd (wn_fd n) (pw_list proc) \<noteq> []" | "on_fd (wn_fd n) (pw_list proc) = []" "\<not> sb_add_ok sb"
    | "on_fd (wn_fd n) (pw_list proc) = []" "sb_add_ok sb" by blast
  then show ?thesis
  proof cases
    case 1
    then have "rc = 0" "proc' = proc\<lparr>pw_list := pw_list proc @ [n]\<rparr>" using assms(1) call by simp_all
    then show ?thesis using 1 assms(2) n(3) by (simp add: writes_inv_def)
  next
    case 2
    then have "rc = -1" "proc' = proc" using assms(1) call by simp_all
    then show ?thesis using assms(2) by simp
  next
    case 3
    then have "rc = 0" "proc' = proc\<lparr>pw_list := pw_list proc @ [n], pw_armed := insert (wn_fd n) (pw_armed proc)\<rparr>"
      using assms(1) call by simp_all
    then show ?thesis using 3 assms(2) n(3) by (auto simp: writes_inv_def)
  qed
qed

lemma submit_all_ok:
  "submit_all sbs proc = (acc, proc') \<Longrightarrow> writes_inv proc \<Longrightarrow> writes_inv proc' \<and> pw_list proc' = pw_list proc @ map queued acc"
proof (induction sbs arbitrary: proc acc)
  case (Cons sb sbs)
  obtain rc proc1 where s: "PROC_nonblocking_write_callback sb proc = (rc, proc1)" by fastforce
  obtain acc1 where r: "submit_all sbs proc1 = (acc1, proc')" using Cons.prems(1) s by (auto split: prod.splits)
  have "acc = (if rc = 0 then sb # acc1 else acc1)" using Cons.prems(1) s r by (auto split: prod.splits)
  then show ?case using submit_one [OF s Cons.prems(2)] Cons.IH [OF r] by auto
qed simp

lemma split_first:
  assumes "dropWhile (\<lambda>n. wn_fd n \<noteq> fd) ns = tx # rest"
  shows "ns = takeWhile (\<lambda>n. wn_fd n \<noteq> fd) ns @ tx # rest" "wn_fd tx = fd" "on_fd fd (takeWhile (\<lambda>n. wn_fd n \<noteq> fd) ns) = []"
proof -
  show "ns = takeWhile (\<lambda>n. wn_fd n \<noteq> fd) ns @ tx # rest" by (metis assms takeWhile_dropWhile_id)
  show "wn_fd tx = fd" using assms by (metis (mono_tags, lifting) dropWhile_eq_Cons_conv)
  show "on_fd fd (takeWhile (\<lambda>n. wn_fd n \<noteq> fd) ns) = []"
    by (auto simp: on_fd_def filter_empty_conv dest: set_takeWhileD)
qed

lemma dropWhile_none: "dropWhile (\<lambda>n. wn_fd n \<noteq> fd) ns = [] \<longleftrightarrow> on_fd fd ns = []"
  by (auto simp: on_fd_def filter_empty_conv dropWhile_eq_Nil_conv)

lemma write_ready_ok:
  assumes r: "write_ready ms fd proc = (tx, acc, proc')" and inv: "writes_inv proc" and armed: "fd \<in> pw_armed proc"
  shows "\<exists>t. tx = Some t \<and> wn_fd t = fd \<and> on_fd fd (pw_list proc @ map queued acc) = t # on_fd fd (pw_list proc') \<and>
    (\<forall>fd'. fd' \<noteq> fd \<longrightarrow> on_fd fd' (pw_list proc') = on_fd fd' (pw_list proc @ map queued acc)) \<and> writes_inv proc'"
proof -
  have "on_fd fd (pw_list proc) \<noteq> []" using inv armed by (simp add: writes_inv_def)
  then obtain t rest where d: "dropWhile (\<lambda>n. wn_fd n \<noteq> fd) (pw_list proc) = t # rest"
    by (metis dropWhile_none neq_Nil_conv)
  obtain acc1 proc1 where s: "submit_all ms proc = (acc1, proc1)" by fastforce
  note ok = submit_all_ok [OF s inv]
  let ?pre = "takeWhile (\<lambda>n. wn_fd n \<noteq> fd) (pw_list proc)"
  have l: "pw_list proc1 = ?pre @ t # rest @ map queued acc1" using ok split_first(1) [OF d] by (metis append.assoc append_Cons)
  have pre: "takeWhile (\<lambda>n. wn_fd n \<noteq> fd) (pw_list proc1) = ?pre"
    unfolding l using split_first(2) [OF d] by (subst takeWhile_append2) (auto dest: set_takeWhileD)
  have aft: "drop (length ?pre + 1) (pw_list proc1) = rest @ map queued acc1" using l by simp
  have c: "write_event_callback ms fd proc =
      (if dropWhile (\<lambda>n. wn_fd n \<noteq> fd) (rest @ map queued acc1) = [] then EVENT_REMOVE else EVENT_KEEP, Some t, acc1,
       proc1\<lparr>pw_list := ?pre @ rest @ map queued acc1\<rparr>)"
    by (simp only: write_event_callback_def d list.case s Let_def prod.case pre aft)
  have keep: "EVENT_KEEP \<noteq> EVENT_REMOVE" by (simp add: EVENT_KEEP_def EVENT_REMOVE_def)
  have p': "tx = Some t" "acc = acc1" "pw_list proc' = ?pre @ rest @ map queued acc1"
      "pw_armed proc' = (if on_fd fd (rest @ map queued acc1) = [] then pw_armed proc1 - {fd} else pw_armed proc1)"
    using r keep unfolding write_ready_def c dropWhile_none by (auto split: if_splits)
  have o: "on_fd fd ?pre = []" "wn_fd t = fd" using split_first [OF d] by auto
  have e: "pw_list proc @ map queued acc = ?pre @ t # rest @ map queued acc1" using ok l p'(2) by metis
  have n: "on_fd fd (pw_list proc @ map queued acc) = t # on_fd fd (pw_list proc')"
    unfolding e p'(3) using o by simp
  have m: "on_fd fd' (pw_list proc') = on_fd fd' (pw_list proc @ map queued acc)" if "fd' \<noteq> fd" for fd'
    unfolding e p'(3) using o that by simp
  have "writes_inv proc'"
    unfolding writes_inv_def
  proof
    fix fd'
    have "on_fd fd' (pw_list proc1) \<noteq> [] \<longleftrightarrow> fd' \<in> pw_armed proc1" using ok by (simp add: writes_inv_def)
    then show "fd' \<in> pw_armed proc' \<longleftrightarrow> on_fd fd' (pw_list proc') \<noteq> []"
      using p' l o m [of fd'] ok by (cases "fd' = fd") auto
  qed
  then show ?thesis using p' o n m by auto
qed

text \<open>Writes are queued and descriptors accept data, in any order.\<close>

inductive write_run :: "proc_writes \<Rightarrow> submission list \<Rightarrow> ProcWriteNode list \<Rightarrow> bool" where
  run_start: "write_run \<lparr>pw_list = [], pw_armed = {}\<rparr> [] []"
| run_submit: "write_run proc subs outs \<Longrightarrow> PROC_nonblocking_write_callback sb proc = (rc, proc') \<Longrightarrow>
    write_run proc' (if rc = 0 then subs @ [sb] else subs) outs"
| run_ready: "write_run proc subs outs \<Longrightarrow> fd \<in> pw_armed proc \<Longrightarrow> write_ready ms fd proc = (tx, acc, proc') \<Longrightarrow>
    write_run proc' (subs @ acc) (case tx of None \<Rightarrow> outs | Some t \<Rightarrow> outs @ [t])"


definition copy_of :: "int \<Rightarrow> u8 list \<Rightarrow> submission" where
  "copy_of fd d = \<lparr>sb_fd = fd, sb_data = d, sb_cb = proc_write_callback, sb_arg = 0, sb_opts = COPY_DATA_TO_WRITE,
     sb_node_ok = True, sb_copy_ok = True, sb_add_ok = True\<rparr>"

lemma queued_copy: "queued (copy_of fd d) = \<lparr>wn_data = Some d, wn_len = length d, wn_fd = fd, wn_freeMem = True, wn_cb = proc_write_callback, wn_arg = 0\<rparr>"
  by (simp add: queued_def copy_of_def write_node_def COPY_DATA_TO_WRITE_def IGNORE_DATA_AFTER_WRITE_def)

lemma submit_copy:
  "PROC_nonblocking_write_callback (copy_of fd d) proc =
     (0, proc\<lparr>pw_list := pw_list proc @ [queued (copy_of fd d)],
              pw_armed := (if on_fd fd (pw_list proc) = [] then insert fd (pw_armed proc) else pw_armed proc)\<rparr>)"
proof -
  have "write_node (copy_of fd d) = Some (queued (copy_of fd d))" "wn_fd (queued (copy_of fd d)) = fd"
    by (simp_all add: queued_copy) (simp add: copy_of_def write_node_def COPY_DATA_TO_WRITE_def IGNORE_DATA_AFTER_WRITE_def)
  moreover have "sb_node_ok (copy_of fd d)" "sb_add_ok (copy_of fd d)" by (simp_all add: copy_of_def)
  ultimately show ?thesis by (simp add: PROC_nonblocking_write_callback_def pending_iff Let_def)
qed

lemma example_run:
  "write_run \<lparr>pw_list = [queued (copy_of 1 [2])], pw_armed = {1}\<rparr> [copy_of 1 [1], copy_of 1 [2]] [queued (copy_of 1 [1])]"
proof -
  let ?n = "\<lambda>d. queued (copy_of 1 d)"
  have "write_run \<lparr>pw_list = [?n [1]], pw_armed = {1}\<rparr> [copy_of 1 [1]] []"
    using run_submit [OF run_start submit_copy [of 1 "[1]"]] by simp
  from run_submit [OF this submit_copy [of 1 "[2]"]] have a: "write_run \<lparr>pw_list = [?n [1], ?n [2]], pw_armed = {1}\<rparr> [copy_of 1 [1], copy_of 1 [2]] []"
    by (simp add: queued_copy)
  have "write_ready [] 1 \<lparr>pw_list = [?n [1], ?n [2]], pw_armed = {1}\<rparr> = (Some (?n [1]), [], \<lparr>pw_list = [?n [2]], pw_armed = {1}\<rparr>)"
    by (simp add: write_ready_def write_event_callback_def queued_copy EVENT_KEEP_def EVENT_REMOVE_def)
  then show ?thesis using run_ready [OF a, of 1] by fastforce
qed


text \<open>Only a write that is to be copied is queued with its data; with the other two options the callback is given no data at all.\<close>

lemma uncopied_write_loses_data:
  "sb_opts sb \<noteq> COPY_DATA_TO_WRITE \<Longrightarrow> wn_data (queued sb) = None \<and> wn_len (queued sb) = 0"
  by (simp add: queued_def write_node_def)

text \<open>A datagram that cannot be sent at once is freed: the branch that would send it later is never taken.\<close>

lemma blocked_datagram_dropped:
  "proc_cmd_sockaddr_raw_internal (Inl EAGAIN) fd data = (-1, MFreed)"
  "\<And>sent. snd (proc_cmd_sockaddr_raw_internal sent fd data) = MFreed"
  "\<And>sent. socket_write_cb sent = (EVENT_REMOVE, MFreed)"
  by (auto simp: proc_cmd_sockaddr_raw_internal_def socket_write_cb_def socket_write_def split: sum.splits)

section \<open>Signals\<close>

lemma int_bytes_unfold:
  "int_bytes n = [word_of_int n, word_of_int (n div 2 ^ 8), word_of_int (n div 2 ^ 16), word_of_int (n div 2 ^ 24)]"
  by (simp add: int_bytes_def upt_rec)

lemma length_int_bytes [simp]: "length (int_bytes n) = 4"
  by (simp add: int_bytes_def)

lemma bytes_int_bytes:
  assumes "- (2 ^ 31) \<le> n" "n < 2 ^ 31"
  shows "bytes_int (int_bytes n) = n"
proof -
  have dm: "256 * (k div 256) + k mod 256 = (k :: int)" for k by simp
  from dm [of "n div 2 ^ 16"] dm [of "n div 2 ^ 8"] dm [of n]
  have "n mod 256 + 256 * (n div 2 ^ 8 mod 256 + 256 * (n div 2 ^ 16 mod 256 + 256 * (n div 2 ^ 24))) = n"
    by (simp add: zdiv_zmult2_eq [symmetric] algebra_simps)
  moreover have "n div 2 ^ 24 = 256 * (n div 2 ^ 32) + n div 2 ^ 24 mod 256"
    using dm [of "n div 2 ^ 24"] by (simp add: zdiv_zmult2_eq [symmetric])
  moreover define m where "m = n mod 256 + 256 * (n div 2 ^ 8 mod 256 + 256 * (n div 2 ^ 16 mod 256 + 256 * (n div 2 ^ 24 mod 256)))"
  ultimately have "n = m + 2 ^ 32 * (n div 2 ^ 32)" by (simp add: algebra_simps)
  then have "n mod 2 ^ 32 = m mod 2 ^ 32" by (metis mod_mult_self2)
  then have "(word_of_int n :: 32 word) = word_of_int m" by (simp add: word_of_int_eq_iff take_bit_eq_mod)
  then have "bytes_int (int_bytes n) = sint (word_of_int n :: 32 word)"
    by (simp add: bytes_int_def int_bytes_unfold uint_word_of_int m_def)
  then show ?thesis using assms by (simp add: signed_of_int signed_take_bit_int_eq_self)
qed

fun signal_reads :: "(ProcSignalCB \<Rightarrow> int) \<Rightarrow> u8 list list \<Rightarrow> proc_signals \<Rightarrow> ((nat \<times> nat) list \<times> proc_signals) option" where
  "signal_reads keep [] proc = Some ([], proc)"
| "signal_reads keep (x # xs) proc =
     (case signal_fd_cb keep (PipeData x) proc of
        None \<Rightarrow> None
      | Some (r, cbs, proc1) \<Rightarrow>
          if r = EVENT_KEEP then map_option (\<lambda>(cs, p). (cbs @ cs, p)) (signal_reads keep xs proc1) else Some (cbs, proc1))"

text \<open>A read returns at least one byte and at most what completes the number.\<close>

fun read_sizes_ok :: "nat \<Rightarrow> u8 list list \<Rightarrow> bool" where
  "read_sizes_ok b [] = True"
| "read_sizes_ok b (x # xs) = (x \<noteq> [] \<and> b + length x \<le> 4 \<and> read_sizes_ok ((b + length x) mod 4) xs)"

fun dispatch_signals :: "(ProcSignalCB \<Rightarrow> int) \<Rightarrow> int list \<Rightarrow> ProcSignalCB list \<Rightarrow> (nat \<times> nat) list \<times> ProcSignalCB list" where
  "dispatch_signals keep [] head = ([], head)"
| "dispatch_signals keep (s # ss) head =
     (case run_signal_cbs keep s head of (cbs, head1) \<Rightarrow> (case dispatch_signals keep ss head1 of (cs, head2) \<Rightarrow> (cbs @ cs, head2)))"

lemma signal_reads_ok:
  assumes "ps_rdBuff proc @ concat chunks = concat (map int_bytes sigs)" "length (ps_rdBuff proc) < 4"
    "read_sizes_ok (length (ps_rdBuff proc)) chunks" "list_all (\<lambda>n. - (2 ^ 31) \<le> n \<and> n < 2 ^ 31) sigs"
  shows "signal_reads keep chunks proc =
    Some (fst (dispatch_signals keep sigs (ps_head proc)), proc\<lparr>ps_rdBuff := [], ps_head := snd (dispatch_signals keep sigs (ps_head proc))\<rparr>)"
  using assms
proof (induction chunks arbitrary: proc sigs)
  case Nil
  have "sigs = []"
  proof (cases sigs)
    case (Cons s ss)
    then have "4 \<le> length (concat (map int_bytes sigs))" by simp
    then show ?thesis using Nil.prems(1,2) by simp
  qed
  then show ?case using Nil.prems(1) by simp
next
  case (Cons x xs)
  let ?b = "ps_rdBuff proc @ x"
  have x: "x \<noteq> []" "length ?b \<le> 4" "read_sizes_ok (length ?b mod 4) xs" using Cons.prems(3) by auto
  obtain s ss where s: "sigs = s # ss" using Cons.prems(1) x(1) by (cases sigs) auto
  have eq: "?b @ concat xs = int_bytes s @ concat (map int_bytes ss)" using Cons.prems(1) s by simp
  show ?case
  proof (cases "length ?b = 4")
    case True
    then have "length ?b = length (int_bytes s)" by simp
    then have b: "?b = int_bytes s" "concat xs = concat (map int_bytes ss)"
      using eq append_eq_append_conv [of ?b "int_bytes s" "concat xs"] by metis+
    obtain cbs head where r: "run_signal_cbs keep s (ps_head proc) = (cbs, head)" by fastforce
    have i: "bytes_int ?b = s" using b(1) bytes_int_bytes Cons.prems(4) s by simp
    have "signal_fd_cb keep (PipeData x) proc = Some (EVENT_KEEP, cbs, proc\<lparr>ps_rdBuff := [], ps_head := head\<rparr>)"
      using x(1) True i r by (simp add: signal_fd_cb_def)
    moreover have "signal_reads keep xs (proc\<lparr>ps_rdBuff := [], ps_head := head\<rparr>) =
        Some (fst (dispatch_signals keep ss head), proc\<lparr>ps_rdBuff := [], ps_head := snd (dispatch_signals keep ss head)\<rparr>)"
      using Cons.IH [of "proc\<lparr>ps_rdBuff := [], ps_head := head\<rparr>" ss] b(2) x(3) True Cons.prems(4) s by simp
    ultimately show ?thesis using s r by (simp split: prod.splits)
  next
    case False
    then have l: "length ?b < 4" "length ?b mod 4 = length ?b" using x(2) by auto
    have "signal_fd_cb keep (PipeData x) proc = Some (EVENT_KEEP, [], proc\<lparr>ps_rdBuff := ?b\<rparr>)"
      using x(1) False by (simp add: signal_fd_cb_def)
    moreover have "signal_reads keep xs (proc\<lparr>ps_rdBuff := ?b\<rparr>) =
        Some (fst (dispatch_signals keep sigs (ps_head proc)), proc\<lparr>ps_rdBuff := [], ps_head := snd (dispatch_signals keep sigs (ps_head proc))\<rparr>)"
      using Cons.IH [of "proc\<lparr>ps_rdBuff := ?b\<rparr>" sigs] eq l x(3) Cons.prems(4) s by simp
    ultimately show ?thesis by simp
  qed
qed

text \<open>
  However the signal pipe is read, in pieces of one to four bytes, the bytes that \<open>PROC_signal_handler\<close> writes for a sequence of signals
  run, signal by signal in the order raised, exactly the callbacks registered for it and not removed since.
\<close>
theorem signals_dispatched_in_order:
  assumes "ps_writeFD proc \<noteq> -1" "ps_rdBuff proc = []" "concat chunks = concat (map (PROC_signal_handler proc) sigs)"
    "read_sizes_ok 0 chunks" "list_all (\<lambda>n. 0 < n \<and> n < 65) sigs"
  shows "signal_reads keep chunks proc =
    Some (fst (dispatch_signals keep sigs (ps_head proc)), proc\<lparr>ps_head := snd (dispatch_signals keep sigs (ps_head proc))\<rparr>)"
proof -
  have "list_all (\<lambda>n. - (2 ^ 31) \<le> n \<and> n < 2 ^ 31) sigs" using assms(5) by (auto simp: list_all_iff)
  moreover have "PROC_signal_handler proc = int_bytes" using assms(1) by (auto simp: PROC_signal_handler_def)
  moreover have "proc\<lparr>ps_rdBuff := [], ps_head := h\<rparr> = proc\<lparr>ps_head := h\<rparr>" for h using assms(2) by simp
  ultimately show ?thesis using signal_reads_ok [of proc chunks sigs keep] assms(2-4) by simp
qed

theorem signals_dispatched_in_order_witness:
  "\<exists>p. signal_reads (\<lambda>_. EVENT_KEEP) [[17, 0], [0, 0], [15], [0, 0, 0]]
      \<lparr>ps_writeFD = 4, ps_sigPipe0 = 3, ps_sigPipe1 = 4, ps_head = [\<lparr>sc_cb = 7, sc_arg = 1, sc_sigNum = 15, sc_recvdCnt = 0\<rparr>], ps_rdBuff = []\<rparr> =
    Some ([(7, 1)], p)"
  using signals_dispatched_in_order [of "\<lparr>ps_writeFD = 4, ps_sigPipe0 = 3, ps_sigPipe1 = 4,
        ps_head = [\<lparr>sc_cb = 7, sc_arg = 1, sc_sigNum = 15, sc_recvdCnt = 0\<rparr>], ps_rdBuff = []\<rparr>"
      "[[17, 0], [0, 0], [15], [0, 0, 0]]" "[17, 15]" "\<lambda>_. EVENT_KEEP"]
  by (simp add: PROC_signal_handler_def int_bytes_unfold EVENT_KEEP_def EVENT_REMOVE_def)

end
