(* ===== verification/Child.thy ===== *)
theory Child
  imports Event_State
begin

text \<open>
  Child processes (\<open>proclib.c\<close>): the list of children, the notice of a child's death, and the buffered streams
  through which a process reads what its children write.

  \<^item> A child is known by the address \<open>ch_id\<close> of its structure; \<open>childHead\<close> is a list of children. What happens outside is a list of \<open>ceffect\<close>s.
  \<^item> A stream callback gets the buffered bytes and a state of its own, and answers with the number of bytes it has taken,
    \<open>CHILD_BUFF_ERR\<close> or \<open>CHILD_BUFF_STEAL_BUFF\<close>. The bytes taken are part of the results.
  \<^item> A death callback that closes descriptors of other children is not modelled.
\<close>

datatype child_state = CHILD_STATE_INIT | CHILD_STATE_RUNNING | CHILD_STATE_FLUSH_PIPES | CHILD_STATE_DONE

definition CHILD_BUFF_ERR :: int where "CHILD_BUFF_ERR = -2"
definition CHILD_BUFF_STEAL_BUFF :: int where "CHILD_BUFF_STEAL_BUFF = -3"
definition CHILD_BUFF_NORM :: int where "CHILD_BUFF_NORM = 0"
definition CHILD_BUFF_CLOSING :: int where "CHILD_BUFF_CLOSING = 1"
definition CHILD_BUFF_NOROOM :: int where "CHILD_BUFF_NOROOM = 2"

definition READ_BUFF_MIN :: nat where "READ_BUFF_MIN = 4096"
definition READ_BUFF_MAX :: nat where "READ_BUFF_MAX = READ_BUFF_MIN * 4"

record BufferedStreamState =
  bs_cb :: bool
  bs_buff :: "u8 list option"
  bs_buffLen :: nat
  bs_buffCap :: nat

record ProcChild =
  ch_id :: ptr
  ch_procId :: int
  ch_exitStatus :: int
  ch_state :: child_state
  ch_stdin_fd :: int
  ch_stdout_fd :: int
  ch_stderr_fd :: int
  ch_stream :: "nat \<Rightarrow> BufferedStreamState"
  ch_deathCb :: bool

datatype watcher = dump_data | echo_data | read_data

datatype ceffect =
    CDeath ptr int
  | CClose int
  | CEcho "u8 list"
  | CWatch int watcher bool

definition put_child :: "ProcChild \<Rightarrow> ProcChild list \<Rightarrow> ProcChild list" where
  "put_child c cs = map (\<lambda>x. if ch_id x = ch_id c then c else x) cs"

section \<open>The end of a child\<close>

text \<open>\<open>child\<close> is the child as it has just been changed; the result has it updated, or unlinked and freed.\<close>

definition validate_pipe_flush :: "ProcChild \<Rightarrow> ProcChild list \<Rightarrow> ProcChild list \<times> ceffect list" where
  "validate_pipe_flush child cs =
     (if ch_state child \<noteq> CHILD_STATE_FLUSH_PIPES then (put_child child cs, [])
      else if ch_stdin_fd child \<noteq> -1 \<or> ch_stdout_fd child \<noteq> -1 \<or> ch_stderr_fd child \<noteq> -1 then (put_child child cs, [])
      else (filter (\<lambda>x. ch_id x \<noteq> ch_id child) cs,
            if ch_deathCb child then [CDeath (ch_id child) (ch_exitStatus child)] else []))"

definition CHLD_close_fd :: "ProcChild \<Rightarrow> int \<Rightarrow> ProcChild list \<Rightarrow> ProcChild list \<times> ceffect list" where
  "CHLD_close_fd child fd cs =
     (if fd < 0 then (cs, [])
      else if fd \<noteq> ch_stdin_fd child \<and> fd \<noteq> ch_stdout_fd child \<and> fd \<noteq> ch_stderr_fd child then (cs, [])
      else
        let child1 = child\<lparr>ch_stdin_fd := (if fd = ch_stdin_fd child then -1 else ch_stdin_fd child),
                           ch_stdout_fd := (if fd = ch_stdout_fd child then -1 else ch_stdout_fd child),
                           ch_stderr_fd := (if fd = ch_stderr_fd child then -1 else ch_stderr_fd child)\<rparr>;
            (cs1, es) = validate_pipe_flush child1 cs
        in (cs1, CClose fd # es))"

definition CHLD_close_stdin :: "ProcChild \<Rightarrow> ProcChild list \<Rightarrow> ProcChild list \<times> ceffect list" where
  "CHLD_close_stdin child cs = CHLD_close_fd child (ch_stdin_fd child) cs"

definition find_child :: "ptr \<Rightarrow> ProcChild list \<Rightarrow> ProcChild option" where
  "find_child i cs = find (\<lambda>c. ch_id c = i) cs"

text \<open>The loop over the children after \<open>wait4\<close> has reported the end of a process.\<close>

definition reap_one :: "int \<Rightarrow> int \<Rightarrow> ptr \<Rightarrow> ProcChild list \<times> ceffect list \<Rightarrow> ProcChild list \<times> ceffect list" where
  "reap_one cpid status i acc =
     (case acc of (cs, es) \<Rightarrow>
        case find_child i cs of
          None \<Rightarrow> (cs, es)
        | Some c \<Rightarrow>
            if ch_procId c \<noteq> cpid \<or> ch_state c = CHILD_STATE_DONE then (cs, es)
            else case validate_pipe_flush (c\<lparr>ch_exitStatus := status, ch_state := CHILD_STATE_FLUSH_PIPES\<rparr>) cs of
                   (cs1, fs) \<Rightarrow> (cs1, es @ fs))"

definition reap :: "int \<times> int \<Rightarrow> ProcChild list \<times> ceffect list \<Rightarrow> ProcChild list \<times> ceffect list" where
  "reap w acc = (case w of (cpid, status) \<Rightarrow> fold (reap_one cpid status) (map ch_id (fst acc)) acc)"

text \<open>\<open>ws\<close> are the processes \<open>wait4\<close> reports until it has no more.\<close>

definition sigchld_handler :: "(int \<times> int) list \<Rightarrow> ProcChild list \<Rightarrow> int \<times> ProcChild list \<times> ceffect list" where
  "sigchld_handler ws cs = (case fold reap ws (cs, []) of (cs1, es) \<Rightarrow> (EVENT_KEEP, cs1, es))"

definition CHLD_death_notice :: "ProcChild option \<Rightarrow> bool \<Rightarrow> ProcChild option" where
  "CHLD_death_notice child deathCb = map_option (\<lambda>c. c\<lparr>ch_deathCb := deathCb\<rparr>) child"

section \<open>Starting a child\<close>

definition zero_stream :: BufferedStreamState where
  "zero_stream = \<lparr>bs_cb = False, bs_buff = None, bs_buffLen = 0, bs_buffCap = 0\<rparr>"

text \<open>
  The parent's side of \<open>PROC_fork_child_fd\<close>: \<open>argv_ok\<close> says that the command line has a first word, \<open>pid\<close> is the result of \<open>fork\<close>,
  \<open>node\<close> the address of the new structure if it can be allocated.
\<close>

definition PROC_fork_child_fd ::
  "bool \<Rightarrow> int \<Rightarrow> ptr option \<Rightarrow> int \<Rightarrow> int \<Rightarrow> int \<Rightarrow> ProcChild list \<Rightarrow> ProcChild option \<times> ProcChild list" where
  "PROC_fork_child_fd argv_ok pid node inFd_write outFd_read errFd_read cs =
     (if \<not> argv_ok then (None, cs)
      else if pid = -1 then (None, cs)
      else case node of
             None \<Rightarrow> (None, cs)
           | Some i \<Rightarrow>
               let child = \<lparr>ch_id = i, ch_procId = pid, ch_exitStatus = 0, ch_state = CHILD_STATE_INIT, ch_stdin_fd = inFd_write,
                            ch_stdout_fd = outFd_read, ch_stderr_fd = errFd_read, ch_stream = (\<lambda>_. zero_stream), ch_deathCb = False\<rparr>
               in (Some child, child # cs))"

definition PROC_fork_child ::
  "(int \<times> int) option \<Rightarrow> (int \<times> int) option \<Rightarrow> (int \<times> int) option \<Rightarrow> bool \<Rightarrow> int \<Rightarrow> ptr option \<Rightarrow> ProcChild list \<Rightarrow>
   ProcChild option \<times> ProcChild list \<times> ceffect list" where
  "PROC_fork_child in_pipe out_pipe err_pipe argv_ok pid node cs =
     (case in_pipe of
        None \<Rightarrow> (None, cs, [])
      | Some (ir, iw) \<Rightarrow>
          case out_pipe of
            None \<Rightarrow> (None, cs, [])
          | Some (outr, outw) \<Rightarrow>
              case err_pipe of
                None \<Rightarrow> (None, cs, [])
              | Some (er, ew) \<Rightarrow>
                  case PROC_fork_child_fd argv_ok pid node iw outr er cs of
                    (child, cs1) \<Rightarrow> (child, cs1, [CClose ir, CClose outw, CClose ew]))"

section \<open>Reading what a child writes\<close>

text \<open>
  \<open>None\<close> is an access outside the buffer: a callback that answers with another negative number shifts the buffer
  to the right.
\<close>

function drain_buffer ::
  "(int \<Rightarrow> u8 list \<Rightarrow> 's \<Rightarrow> int \<times> 's) \<Rightarrow> int \<Rightarrow> BufferedStreamState \<Rightarrow> 's \<Rightarrow> (BufferedStreamState \<times> 's \<times> u8 list) option" where
  "drain_buffer cb urgent state s =
     (if \<not> bs_cb state \<or> bs_buffLen state = 0 then Some (state, s, [])
      else case bs_buff state of
             None \<Rightarrow> None
           | Some buff \<Rightarrow>
               let shown = take (bs_buffLen state) buff; (drainLen, s1) = cb urgent shown s
               in if drainLen = CHILD_BUFF_ERR then Some (state, s1, [])
                  else if drainLen = CHILD_BUFF_STEAL_BUFF
                  then Some (state\<lparr>bs_buff := None, bs_buffLen := 0, bs_buffCap := 0\<rparr>, s1, shown)
                  else if drainLen \<ge> int (bs_buffLen state) then Some (state\<lparr>bs_buffLen := 0\<rparr>, s1, shown)
                  else if drainLen < 0 then None
                  else if drainLen = 0 then Some (state, s1, [])
                  else
                    let n = nat drainLen; len = bs_buffLen state - n;
                        state1 = state\<lparr>bs_buffLen := len, bs_buff := Some (take len (drop n buff) @ drop len buff)\<rparr>
                    in map_option (\<lambda>(st, s2, taken). (st, s2, take n shown @ taken)) (drain_buffer cb urgent state1 s1))"
  by pat_completeness auto
termination
  by (relation "measure (\<lambda>(cb, urgent, state, s). bs_buffLen state)") auto

declare drain_buffer.simps [simp del]

datatype 'a outcome = Fault | Exited | Done 'a

text \<open>Make room for at least one byte; the results are the stream, the state of the callback, the bytes taken and the bytes dropped.\<close>

definition drain_full ::
  "(int \<Rightarrow> u8 list \<Rightarrow> 's \<Rightarrow> int \<times> 's) \<Rightarrow> BufferedStreamState \<Rightarrow> 's \<Rightarrow> (BufferedStreamState \<times> 's \<times> u8 list \<times> u8 list) option" where
  "drain_full cb state s =
     (if bs_buffCap state \<ge> READ_BUFF_MAX
      then map_option (\<lambda>(st, s1, taken).
             if bs_buffLen st \<ge> bs_buffCap st
             then (st\<lparr>bs_buffLen := 0\<rparr>, s1, taken, case bs_buff st of None \<Rightarrow> [] | Some b \<Rightarrow> take (bs_buffLen st) b)
             else (st, s1, taken, []))
           (drain_buffer cb CHILD_BUFF_NOROOM state s)
      else Some (state, s, [], []))"

definition make_room ::
  "(int \<Rightarrow> u8 list \<Rightarrow> 's \<Rightarrow> int \<times> 's) \<Rightarrow> bool \<Rightarrow> BufferedStreamState \<Rightarrow> 's \<Rightarrow> (BufferedStreamState \<times> 's \<times> u8 list \<times> u8 list) outcome" where
  "make_room cb alloc_ok state s =
     (if bs_buffLen state < bs_buffCap state then Done (state, s, [], [])
      else case drain_full cb state s of
             None \<Rightarrow> Fault
           | Some (st, s1, taken, dropped) \<Rightarrow>
               (case bs_buff st of
                  None \<Rightarrow>
                    if alloc_ok
                    then Done (st\<lparr>bs_buffCap := READ_BUFF_MIN, bs_buffLen := 0, bs_buff := Some (replicate READ_BUFF_MIN 0)\<rparr>, s1, taken, dropped)
                    else Exited
                | Some b \<Rightarrow>
                    if bs_buffLen st \<ge> bs_buffCap st \<and> bs_buffCap st < READ_BUFF_MAX
                    then let cap = min (bs_buffCap st * 2) READ_BUFF_MAX
                         in if alloc_ok
                            then Done (st\<lparr>bs_buffCap := cap, bs_buff := Some (take cap b @ replicate (cap - length b) 0)\<rparr>, s1, taken, dropped)
                            else Exited
                    else Done (st, s1, taken, dropped)))"

datatype child_read = ReadBytes "u8 list" | ReadAgain | ReadFailed

record 's read_result =
  rr_keep :: int
  rr_children :: "ProcChild list"
  rr_user :: 's
  rr_taken :: "u8 list"
  rr_dropped :: "u8 list"
  rr_effects :: "ceffect list"

text \<open>
  \<open>ReadBytes bs\<close>: the read returns the first of the bytes \<open>bs\<close>, as many as it has room for; \<open>ReadBytes []\<close> is the end of the stream. Storing
  outside the buffer is a fault, and so is a failed assertion.
\<close>

definition store_read :: "u8 list \<Rightarrow> BufferedStreamState \<Rightarrow> BufferedStreamState option" where
  "store_read bs state =
     (case bs_buff state of
        None \<Rightarrow> None
      | Some b \<Rightarrow>
          if bs_buffLen state + length bs \<le> bs_buffCap state \<and> bs_buffCap state \<le> length b
          then Some (state\<lparr>bs_buff := Some (take (bs_buffLen state) b @ bs @ drop (bs_buffLen state + length bs) b),
                           bs_buffLen := bs_buffLen state + length bs\<rparr>)
          else None)"

definition child_read_data ::
  "(int \<Rightarrow> u8 list \<Rightarrow> 's \<Rightarrow> int \<times> 's) \<Rightarrow> bool \<Rightarrow> child_read \<Rightarrow> int \<Rightarrow> ProcChild \<Rightarrow> ProcChild list \<Rightarrow> 's \<Rightarrow> 's read_result outcome" where
  "child_read_data cb alloc_ok rd fd child cs s =
     (if fd \<noteq> ch_stdout_fd child \<and> fd \<noteq> ch_stderr_fd child
      then Done \<lparr>rr_keep = EVENT_REMOVE, rr_children = cs, rr_user = s, rr_taken = [], rr_dropped = [], rr_effects = []\<rparr>
      else
        let k = (if fd = ch_stdout_fd child then 0 else 1);
            put = (\<lambda>st. child\<lparr>ch_stream := (ch_stream child)(k := st)\<rparr>)
        in case make_room cb alloc_ok (ch_stream child k) s of
             Fault \<Rightarrow> Fault
           | Exited \<Rightarrow> Exited
           | Done (st, s1, taken, dropped) \<Rightarrow>
               if \<not> bs_buffLen st < bs_buffCap st then Fault
               else (case rd of
                  ReadAgain \<Rightarrow>
                    Done \<lparr>rr_keep = EVENT_KEEP, rr_children = put_child (put st) cs, rr_user = s1, rr_taken = taken, rr_dropped = dropped, rr_effects = []\<rparr>
                | ReadFailed \<Rightarrow>
                    (case CHLD_close_fd (put st) fd (put_child (put st) cs) of
                       (cs1, es) \<Rightarrow> Done \<lparr>rr_keep = EVENT_REMOVE, rr_children = cs1, rr_user = s1, rr_taken = taken, rr_dropped = dropped, rr_effects = es\<rparr>)
                | ReadBytes bs \<Rightarrow>
                    if bs = []
                    then (case drain_buffer cb CHILD_BUFF_CLOSING st s1 of
                            None \<Rightarrow> Fault
                          | Some (st1, s2, taken1) \<Rightarrow>
                              let left = (case bs_buff st1 of None \<Rightarrow> [] | Some b \<Rightarrow> take (bs_buffLen st1) b);
                                  child1 = put (st1\<lparr>bs_buff := None, bs_buffCap := 0, bs_buffLen := 0\<rparr>)
                              in (case CHLD_close_fd child1 fd (put_child child1 cs) of
                                    (cs1, es) \<Rightarrow> Done \<lparr>rr_keep = EVENT_REMOVE, rr_children = cs1, rr_user = s2, rr_taken = taken @ taken1,
                                                        rr_dropped = dropped @ left, rr_effects = es\<rparr>))
                    else (case store_read (take (bs_buffCap st - bs_buffLen st) bs) st of
                            None \<Rightarrow> Fault
                          | Some st1 \<Rightarrow>
                              (case drain_buffer cb CHILD_BUFF_NORM st1 s1 of
                                 None \<Rightarrow> Fault
                               | Some (st2, s2, taken1) \<Rightarrow>
                                   Done \<lparr>rr_keep = EVENT_KEEP, rr_children = put_child (put st2) cs, rr_user = s2, rr_taken = taken @ taken1,
                                          rr_dropped = dropped, rr_effects = []\<rparr>))))"

text \<open>A callback that ignores, or echoes, all data of a descriptor.\<close>

definition dump_child_data :: "child_read \<Rightarrow> int \<Rightarrow> ProcChild \<Rightarrow> ProcChild list \<Rightarrow> int \<times> ProcChild list \<times> ceffect list" where
  "dump_child_data rd fd child cs =
     (case rd of
        ReadBytes bs \<Rightarrow> if bs \<noteq> [] then (EVENT_KEEP, cs, []) else (EVENT_REMOVE, CHLD_close_fd child fd cs)
      | _ \<Rightarrow> (EVENT_REMOVE, cs, []))"

definition echo_child_data :: "child_read \<Rightarrow> int \<Rightarrow> ProcChild \<Rightarrow> ProcChild list \<Rightarrow> int \<times> ProcChild list \<times> ceffect list" where
  "echo_child_data rd fd child cs =
     (case rd of
        ReadBytes bs \<Rightarrow> if bs \<noteq> [] then (EVENT_KEEP, cs, [CEcho (take 4096 bs)]) else (EVENT_REMOVE, CHLD_close_fd child fd cs)
      | _ \<Rightarrow> (EVENT_REMOVE, cs, []))"

section \<open>Choosing what to do with a stream\<close>

text \<open>
  \<open>has_parent\<close> says that the child belongs to a process and \<open>add_res\<close> is the result of \<open>EVT_fd_add\<close>. The last part of \<open>CWatch\<close> says whether the event is critical.
\<close>

definition CHLD_ignore_stderr :: "bool \<Rightarrow> int \<Rightarrow> ProcChild option \<Rightarrow> int \<times> ceffect list" where
  "CHLD_ignore_stderr has_parent add_res child =
     (case child of
        None \<Rightarrow> (0, [])
      | Some c \<Rightarrow> if ch_stderr_fd c < 0 then (0, []) else if \<not> has_parent then (1, []) else (add_res, [CWatch (ch_stderr_fd c) dump_data False]))"

definition CHLD_echo_stderr :: "bool \<Rightarrow> int \<Rightarrow> ProcChild option \<Rightarrow> int \<times> ceffect list" where
  "CHLD_echo_stderr has_parent add_res child =
     (case child of
        None \<Rightarrow> (0, [])
      | Some c \<Rightarrow> if ch_stderr_fd c < 0 then (0, []) else if \<not> has_parent then (1, []) else (add_res, [CWatch (ch_stderr_fd c) echo_data False]))"

definition CHLD_ignore_stdout :: "bool \<Rightarrow> int \<Rightarrow> ProcChild option \<Rightarrow> int \<times> ceffect list" where
  "CHLD_ignore_stdout has_parent add_res child =
     (case child of
        None \<Rightarrow> (0, [])
      | Some c \<Rightarrow> if ch_stdout_fd c < 0 then (0, []) else if \<not> has_parent then (1, []) else (add_res, [CWatch (ch_stdout_fd c) dump_data False]))"

definition CHLD_echo_stdout :: "bool \<Rightarrow> int \<Rightarrow> ProcChild option \<Rightarrow> int \<times> ceffect list" where
  "CHLD_echo_stdout has_parent add_res child =
     (case child of
        None \<Rightarrow> (0, [])
      | Some c \<Rightarrow> if ch_stdout_fd c < 0 then (0, []) else if \<not> has_parent then (1, []) else (add_res, [CWatch (ch_stdout_fd c) echo_data False]))"

definition set_stream_cb :: "nat \<Rightarrow> ProcChild \<Rightarrow> ProcChild" where
  "set_stream_cb k c = c\<lparr>ch_stream := (ch_stream c)(k := (ch_stream c k)\<lparr>bs_cb := True\<rparr>)\<rparr>"

definition CHLD_stdout_reader :: "bool \<Rightarrow> int \<Rightarrow> ProcChild option \<Rightarrow> int \<times> ProcChild option \<times> ceffect list" where
  "CHLD_stdout_reader has_parent add_res child =
     (case child of
        None \<Rightarrow> (0, None, [])
      | Some c \<Rightarrow>
          if ch_stdout_fd c < 0 then (0, child, []) else if \<not> has_parent then (1, child, [])
          else (add_res, Some (set_stream_cb 0 c), [CWatch (ch_stdout_fd c) read_data True]))"

definition CHLD_stderr_reader :: "bool \<Rightarrow> int \<Rightarrow> ProcChild option \<Rightarrow> int \<times> ProcChild option \<times> ceffect list" where
  "CHLD_stderr_reader has_parent add_res child =
     (case child of
        None \<Rightarrow> (0, None, [])
      | Some c \<Rightarrow>
          if ch_stderr_fd c < 0 then (0, child, []) else if \<not> has_parent then (1, child, [])
          else (add_res, Some (set_stream_cb 1 c), [CWatch (ch_stderr_fd c) read_data True]))"

end
