(* ===== verification/Child_Correct.thy ===== *)
theory Child_Correct
  imports Child
begin

text \<open>
  A child is forgotten, and its death announced, exactly once and exactly when it has been reaped and all its
  descriptors are closed, in whatever order that happens; what a child writes reaches the stream callback in order and without loss while
  the callback keeps up, and the buffer is never overrun.
\<close>

section \<open>Deaths\<close>

text \<open>The specification: a child on its own, and the operations that concern it.\<close>

datatype child_op = Sigchld "(int \<times> int) list" | CloseFd ptr int

definition ended :: "ProcChild \<Rightarrow> bool" where
  "ended c \<longleftrightarrow> ch_state c = CHILD_STATE_FLUSH_PIPES \<and> ch_stdin_fd c = -1 \<and> ch_stdout_fd c = -1 \<and> ch_stderr_fd c = -1"

definition reap_spec :: "int \<times> int \<Rightarrow> ProcChild \<Rightarrow> ProcChild" where
  "reap_spec w c = (if ch_procId c = fst w then c\<lparr>ch_exitStatus := snd w, ch_state := CHILD_STATE_FLUSH_PIPES\<rparr> else c)"

definition close_spec :: "ptr \<Rightarrow> int \<Rightarrow> ProcChild \<Rightarrow> ProcChild" where
  "close_spec i fd c =
     (if ch_id c = i \<and> 0 \<le> fd
      then c\<lparr>ch_stdin_fd := (if fd = ch_stdin_fd c then -1 else ch_stdin_fd c),
             ch_stdout_fd := (if fd = ch_stdout_fd c then -1 else ch_stdout_fd c),
             ch_stderr_fd := (if fd = ch_stderr_fd c then -1 else ch_stderr_fd c)\<rparr>
      else c)"

fun op_spec :: "child_op \<Rightarrow> ProcChild \<Rightarrow> ProcChild" where
  "op_spec (Sigchld ws) c = fold reap_spec ws c"
| "op_spec (CloseFd i fd) c = close_spec i fd c"

text \<open>The operations of the library on the list of children.\<close>

fun child_step :: "child_op \<Rightarrow> ProcChild list \<Rightarrow> ProcChild list \<times> ceffect list" where
  "child_step (Sigchld ws) cs = (case sigchld_handler ws cs of (_, cs1, es) \<Rightarrow> (cs1, es))"
| "child_step (CloseFd i fd) cs = (case find_child i cs of None \<Rightarrow> (cs, []) | Some c \<Rightarrow> CHLD_close_fd c fd cs)"

fun child_steps :: "child_op list \<Rightarrow> ProcChild list \<Rightarrow> ProcChild list \<times> ceffect list" where
  "child_steps [] cs = (cs, [])"
| "child_steps (x # xs) cs = (case child_step x cs of (cs1, es) \<Rightarrow> (case child_steps xs cs1 of (cs2, fs) \<Rightarrow> (cs2, es @ fs)))"

definition deaths :: "ceffect list \<Rightarrow> ptr list" where
  "deaths es = [i. CDeath i _ \<leftarrow> es]"

lemma deaths_simps [simp]:
  "deaths [] = []" "deaths (es @ fs) = deaths es @ deaths fs" "deaths (CClose fd # es) = deaths es" "deaths (CDeath i st # es) = i # deaths es"
  by (simp_all add: deaths_def)

definition alive :: "ProcChild \<Rightarrow> bool" where
  "alive c \<longleftrightarrow> \<not> ended c \<and> ch_state c \<noteq> CHILD_STATE_DONE \<and> ch_deathCb c"

definition survivors :: "(ProcChild \<Rightarrow> ProcChild) \<Rightarrow> ProcChild list \<Rightarrow> ProcChild list" where
  "survivors f cs = filter (\<lambda>c. \<not> ended c) (map f cs)"

definition victims :: "(ProcChild \<Rightarrow> ProcChild) \<Rightarrow> ProcChild list \<Rightarrow> ptr list" where
  "victims f cs = map ch_id (filter ended (map f cs))"

lemma survivors_simps [simp]:
  "survivors f [] = []" "survivors f (c # cs) = (if ended (f c) then survivors f cs else f c # survivors f cs)"
  "survivors f (cs @ ds) = survivors f cs @ survivors f ds"
  by (simp_all add: survivors_def)

lemma victims_simps [simp]:
  "victims f [] = []" "victims f (c # cs) = (if ended (f c) then ch_id (f c) # victims f cs else victims f cs)"
  "victims f (cs @ ds) = victims f cs @ victims f ds"
  by (simp_all add: victims_def)

text \<open>What an operation on one child has to keep.\<close>

definition child_fun :: "(ProcChild \<Rightarrow> ProcChild) \<Rightarrow> bool" where
  "child_fun f \<longleftrightarrow> (\<forall>c. ch_id (f c) = ch_id c \<and> ch_deathCb (f c) = ch_deathCb c \<and> (ended c \<longrightarrow> ended (f c)) \<and>
     (ch_state c \<noteq> CHILD_STATE_DONE \<longrightarrow> ch_state (f c) \<noteq> CHILD_STATE_DONE))"

lemma child_fun_reap: "child_fun (reap_spec w)"
  by (simp add: child_fun_def reap_spec_def ended_def)

lemma child_fun_close: "child_fun (close_spec i fd)"
  by (simp add: child_fun_def close_spec_def ended_def)

lemma child_fun_comp: "child_fun f \<Longrightarrow> child_fun g \<Longrightarrow> child_fun (\<lambda>c. g (f c))"
  by (simp add: child_fun_def)

lemma child_fun_fold: "(\<And>x. child_fun (f x)) \<Longrightarrow> child_fun (fold f xs)"
proof (induction xs)
  case Nil
  then show ?case by (simp add: child_fun_def)
next
  case (Cons x xs)
  then show ?case using child_fun_comp [of "f x" "fold f xs"] by (simp add: comp_def)
qed

lemma child_fun_op: "child_fun (op_spec x)"
proof (cases x)
  case (Sigchld ws)
  moreover have "op_spec (Sigchld ws) = fold reap_spec ws" by (rule ext) simp
  ultimately show ?thesis by (simp add: child_fun_fold child_fun_reap)
next
  case (CloseFd i fd)
  moreover have "op_spec (CloseFd i fd) = close_spec i fd" by (rule ext) simp
  ultimately show ?thesis by (simp add: child_fun_close)
qed

lemma survivors_comp:
  "child_fun f \<Longrightarrow> child_fun g \<Longrightarrow> survivors g (survivors f cs) = survivors (\<lambda>c. g (f c)) cs"
  by (induction cs) (auto simp: child_fun_def)

lemma victims_comp:
  "child_fun f \<Longrightarrow> child_fun g \<Longrightarrow> mset (victims f cs) + mset (victims g (survivors f cs)) = mset (victims (\<lambda>c. g (f c)) cs)"
  by (induction cs) (auto simp: child_fun_def)

lemma survivors_alive:
  "child_fun f \<Longrightarrow> list_all alive cs \<Longrightarrow> list_all alive (survivors f cs)"
  by (induction cs) (auto simp: alive_def child_fun_def)

lemma all_survive: "list_all alive cs \<Longrightarrow> survivors (\<lambda>c. c) cs = cs \<and> victims (\<lambda>c. c) cs = []"
  by (induction cs) (auto simp: alive_def)

lemma survivors_distinct:
  assumes "child_fun f" "distinct (map ch_id cs)"
  shows "distinct (map ch_id (survivors f cs))"
proof -
  have "map ch_id (survivors f cs) = map ch_id (filter (\<lambda>c. \<not> ended (f c)) cs)"
    using assms(1) by (induction cs) (auto simp: child_fun_def)
  then show ?thesis using assms(2) by (simp add: distinct_map_filter)
qed

lemma others_unchanged:
  assumes "distinct (map ch_id (ys @ c # xs))"
  shows "find_child (ch_id c) (ys @ c # xs) = Some c"
    and "ch_id c' = ch_id c \<Longrightarrow> put_child c' (ys @ c # xs) = ys @ c' # xs"
    and "filter (\<lambda>x. ch_id x \<noteq> ch_id c) (ys @ c # xs) = ys @ xs"
proof -
  have ne: "\<forall>y \<in> set ys. ch_id y \<noteq> ch_id c" "\<forall>x \<in> set xs. ch_id x \<noteq> ch_id c" using assms by (auto simp: image_iff)
  show "find_child (ch_id c) (ys @ c # xs) = Some c" using ne(1) by (induction ys) (auto simp: find_child_def)
  show "put_child c' (ys @ c # xs) = ys @ c' # xs" if "ch_id c' = ch_id c"
    using ne that by (simp add: put_child_def map_idI)
  show "filter (\<lambda>x. ch_id x \<noteq> ch_id c) (ys @ c # xs) = ys @ xs" using ne by (simp add: filter_id_conv)
qed

lemma validate_one:
  assumes "distinct (map ch_id (ys @ c # xs))" "ch_id c' = ch_id c" "ch_deathCb c'"
  shows "validate_pipe_flush c' (ys @ c # xs) =
    (ys @ (if ended c' then xs else c' # xs), if ended c' then [CDeath (ch_id c) (ch_exitStatus c')] else [])"
  using others_unchanged(2) [OF assms(1,2)] others_unchanged(3) [OF assms(1)] assms(2,3)
  by (auto simp: validate_pipe_flush_def ended_def)

lemma close_step:
  assumes "distinct (map ch_id cs)" "list_all alive cs"
  shows "\<exists>es. child_step (CloseFd i fd) cs = (survivors (close_spec i fd) cs, es) \<and> deaths es = victims (close_spec i fd) cs"
proof (cases "find_child i cs")
  case None
  then have "\<forall>c \<in> set cs. ch_id c \<noteq> i" by (auto simp: find_child_def find_None_iff)
  moreover have "\<forall>c \<in> set cs. \<not> ended c" using assms(2) by (auto simp: list_all_iff alive_def)
  ultimately have "survivors (close_spec i fd) cs = cs" "victims (close_spec i fd) cs = []"
    by (induction cs) (auto simp: close_spec_def)
  then show ?thesis using None by simp
next
  case (Some c)
  then obtain ys xs where cs: "cs = ys @ c # xs" and i: "ch_id c = i"
    by (auto simp: find_child_def find_Some_iff in_set_conv_decomp dest!: nth_mem)
  note d = assms(1) [unfolded cs]
  let ?c = "close_spec i fd c"
  have ac: "alive c" "list_all alive ys" "list_all alive xs" using assms(2) cs by auto
  have keep: "survivors (close_spec i fd) zs = zs \<and> victims (close_spec i fd) zs = []"
    if "list_all alive zs" "\<forall>z \<in> set zs. ch_id z \<noteq> i" for zs
    using that by (induction zs) (auto simp: close_spec_def alive_def)
  have "\<forall>z \<in> set ys \<union> set xs. ch_id z \<noteq> i" using d i by (auto simp: image_iff)
  then have k: "survivors (close_spec i fd) ys = ys" "victims (close_spec i fd) ys = []"
      "survivors (close_spec i fd) xs = xs" "victims (close_spec i fd) xs = []"
    using keep ac by auto
  have id: "ch_id ?c = ch_id c" "ch_deathCb ?c" using ac(1) by (auto simp: close_spec_def alive_def)
  have step: "child_step (CloseFd i fd) cs = CHLD_close_fd c fd cs" using Some by simp
  show ?thesis
  proof (cases "fd < 0 \<or> fd \<noteq> ch_stdin_fd c \<and> fd \<noteq> ch_stdout_fd c \<and> fd \<noteq> ch_stderr_fd c")
    case True
    then have "?c = c" by (auto simp: close_spec_def)
    moreover have "CHLD_close_fd c fd cs = (cs, [])" using True by (auto simp: CHLD_close_fd_def)
    ultimately show ?thesis using k cs ac(1) step by (simp add: alive_def)
  next
    case False
    then have "?c = c\<lparr>ch_stdin_fd := (if fd = ch_stdin_fd c then -1 else ch_stdin_fd c),
        ch_stdout_fd := (if fd = ch_stdout_fd c then -1 else ch_stdout_fd c),
        ch_stderr_fd := (if fd = ch_stderr_fd c then -1 else ch_stderr_fd c)\<rparr>" using i by (simp add: close_spec_def)
    then have "CHLD_close_fd c fd cs = (case validate_pipe_flush ?c cs of (cs1, es) \<Rightarrow> (cs1, CClose fd # es))"
      using False unfolding CHLD_close_fd_def by (auto simp: Let_def)
    then show ?thesis using validate_one [OF d id] k cs step id(1) by (cases "ended ?c") (simp_all add: cs)
  qed
qed

lemma reap_fold:
  assumes "distinct (map ch_id (ys @ xs))" "list_all alive xs"
  shows "\<exists>fs. fold (reap_one pid st) (map ch_id xs) (ys @ xs, es) = (ys @ survivors (reap_spec (pid, st)) xs, es @ fs) \<and>
    deaths fs = victims (reap_spec (pid, st)) xs"
  using assms
proof (induction xs arbitrary: ys es)
  case (Cons c xs)
  note d = Cons.prems(1)
  have a: "alive c" "list_all alive xs" using Cons.prems(2) by auto
  let ?c = "reap_spec (pid, st) c"
  have id: "ch_id ?c = ch_id c" "ch_deathCb ?c" using a(1) by (auto simp: reap_spec_def alive_def)
  have one: "reap_one pid st (ch_id c) (ys @ c # xs, es) =
      (ys @ (if ended ?c then xs else ?c # xs), es @ (if ended ?c then [CDeath (ch_id c) (ch_exitStatus ?c)] else []))"
  proof (cases "ch_procId c = pid")
    case True
    then have "?c = c\<lparr>ch_exitStatus := st, ch_state := CHILD_STATE_FLUSH_PIPES\<rparr>" by (simp add: reap_spec_def)
    then have "reap_one pid st (ch_id c) (ys @ c # xs, es) = (case validate_pipe_flush ?c (ys @ c # xs) of (cs1, fs) \<Rightarrow> (cs1, es @ fs))"
      using True others_unchanged(1) [OF d] a(1) by (simp add: reap_one_def alive_def)
    then show ?thesis using validate_one [OF d id] by (cases "ended ?c") (simp_all add: id)
  next
    case False
    then have "?c = c" by (simp add: reap_spec_def)
    then show ?thesis using False others_unchanged(1) [OF d] a(1) by (simp add: reap_one_def alive_def)
  qed
  show ?case
  proof (cases "ended ?c")
    case True
    have "distinct (map ch_id (ys @ xs))" using d by simp
    from Cons.IH [OF this a(2), of "es @ [CDeath (ch_id c) (ch_exitStatus ?c)]"] True one id(1) show ?thesis by auto
  next
    case False
    have "distinct (map ch_id ((ys @ [?c]) @ xs))" using d id(1) by simp
    from Cons.IH [OF this a(2), of es] False one show ?thesis by auto
  qed
qed simp

lemma sigchld_step:
  assumes "distinct (map ch_id cs)" "list_all alive cs"
  shows "\<exists>fs. fold reap ws (cs, es) = (survivors (fold reap_spec ws) cs, es @ fs) \<and> mset (deaths fs) = mset (victims (fold reap_spec ws) cs)"
  using assms
proof (induction ws arbitrary: cs es)
  case Nil
  then show ?case by (simp add: all_survive id_def)
next
  case (Cons w ws)
  obtain fs where f: "reap w (cs, es) = (survivors (reap_spec w) cs, es @ fs)" "deaths fs = victims (reap_spec w) cs"
    using reap_fold [of "[]" cs "fst w" "snd w" es] Cons.prems by (cases w) (auto simp: reap_def)
  let ?cs = "survivors (reap_spec w) cs"
  obtain gs where g: "fold reap ws (?cs, es @ fs) = (survivors (fold reap_spec ws) ?cs, (es @ fs) @ gs)"
      "mset (deaths gs) = mset (victims (fold reap_spec ws) ?cs)"
    using Cons.IH [of ?cs "es @ fs"] survivors_distinct [OF child_fun_reap Cons.prems(1)] survivors_alive [OF child_fun_reap Cons.prems(2)] by blast
  have fold: "child_fun (fold reap_spec ws)" by (rule child_fun_fold) (rule child_fun_reap)
  have c: "fold reap_spec (w # ws) = (\<lambda>c. fold reap_spec ws (reap_spec w c))" by (simp add: comp_def)
  have "survivors (fold reap_spec ws) ?cs = survivors (fold reap_spec (w # ws)) cs"
    unfolding c by (rule survivors_comp [OF child_fun_reap fold])
  moreover have "mset (deaths (fs @ gs)) = mset (victims (fold reap_spec (w # ws)) cs)"
    unfolding c using f(2) g(2) victims_comp [OF child_fun_reap [of w] fold, of cs] by simp
  ultimately show ?case using f g by (intro exI [of _ "fs @ gs"]) (simp add: comp_def)
qed

lemma child_step_refines:
  assumes "distinct (map ch_id cs)" "list_all alive cs"
  shows "\<exists>es. child_step x cs = (survivors (op_spec x) cs, es) \<and> mset (deaths es) = mset (victims (op_spec x) cs)"
proof (cases x)
  case (Sigchld ws)
  have o: "op_spec (Sigchld ws) = fold reap_spec ws" by (rule ext) simp
  obtain fs where "fold reap ws (cs, []) = (survivors (fold reap_spec ws) cs, [] @ fs)" "mset (deaths fs) = mset (victims (fold reap_spec ws) cs)"
    using sigchld_step [OF assms, of ws "[]"] by blast
  then show ?thesis unfolding Sigchld o by (simp add: sigchld_handler_def)
next
  case (CloseFd i fd)
  have o: "op_spec (CloseFd i fd) = close_spec i fd" by (rule ext) simp
  show ?thesis unfolding CloseFd o using close_step [OF assms, of i fd] by auto
qed

text \<open>
  C27: Children die once. For every sequence of \<open>SIGCHLD\<close>s and closed descriptors, the library's list of children holds exactly the
  children that, taken each on its own, have not both been reaped and had all descriptors closed; and the death callback has been called
  exactly once for each of the others, in whatever order the process ended and its streams were closed.
\<close>
theorem children_refine:
  assumes "distinct (map ch_id cs)" "list_all alive cs"
  shows "\<exists>es. child_steps xs cs = (filter (\<lambda>c. \<not> ended c) (map (fold op_spec xs) cs), es) \<and>
    mset (deaths es) = mset (map ch_id (filter ended (map (fold op_spec xs) cs)))"
  unfolding survivors_def [symmetric] victims_def [symmetric]
  using assms
proof (induction xs arbitrary: cs)
  case Nil
  then show ?case by (simp add: all_survive id_def)
next
  case (Cons x xs)
  obtain es where e: "child_step x cs = (survivors (op_spec x) cs, es)" "mset (deaths es) = mset (victims (op_spec x) cs)"
    using child_step_refines [OF Cons.prems, of x] by blast
  let ?cs = "survivors (op_spec x) cs"
  obtain fs where f: "child_steps xs ?cs = (survivors (fold op_spec xs) ?cs, fs)" "mset (deaths fs) = mset (victims (fold op_spec xs) ?cs)"
    using Cons.IH [of ?cs] survivors_distinct [OF child_fun_op Cons.prems(1)] survivors_alive [OF child_fun_op Cons.prems(2)] by blast
  have fold: "child_fun (fold op_spec xs)" by (rule child_fun_fold) (rule child_fun_op)
  have c: "fold op_spec (x # xs) = (\<lambda>c. fold op_spec xs (op_spec x c))" by (simp add: comp_def)
  show ?case
    unfolding c using e f survivors_comp [OF child_fun_op [of x] fold, of cs] victims_comp [OF child_fun_op [of x] fold, of cs] by simp
qed

definition example_child :: "ptr \<Rightarrow> ProcChild" where
  "example_child i = \<lparr>ch_id = i, ch_procId = int i + 100, ch_exitStatus = 0, ch_state = CHILD_STATE_INIT, ch_stdin_fd = -1, ch_stdout_fd = int i,
     ch_stderr_fd = -1, ch_stream = (\<lambda>_. zero_stream), ch_deathCb = True\<rparr>"

theorem children_refine_witness:
  "\<exists>cs es. child_steps [Sigchld [(105, 0)], CloseFd 6 6, CloseFd 5 5] [example_child 5, example_child 6] = (cs, es) \<and>
     map ch_id cs = [6] \<and> mset (deaths es) = {#5#}"
  using children_refine [of "[example_child 5, example_child 6]" "[Sigchld [(105, 0)], CloseFd 6 6, CloseFd 5 5]"]
  by (auto simp: example_child_def alive_def ended_def close_spec_def reap_spec_def)

section \<open>Streams\<close>

definition content :: "BufferedStreamState \<Rightarrow> u8 list" where
  "content st = (case bs_buff st of None \<Rightarrow> [] | Some b \<Rightarrow> take (bs_buffLen st) b)"

definition stream_ok :: "BufferedStreamState \<Rightarrow> bool" where
  "stream_ok st \<longleftrightarrow>
     (case bs_buff st of
        None \<Rightarrow> bs_buffLen st = 0 \<and> bs_buffCap st = 0
      | Some b \<Rightarrow> length b = bs_buffCap st \<and> bs_buffLen st \<le> bs_buffCap st \<and> bs_buffCap st \<in> {4096, 8192, 16384})"

text \<open>A callback that keeps to the documented answers.\<close>

definition polite :: "(int \<Rightarrow> u8 list \<Rightarrow> 's \<Rightarrow> int \<times> 's) \<Rightarrow> bool" where
  "polite cb \<longleftrightarrow> (\<forall>u d s. 0 \<le> fst (cb u d s) \<or> fst (cb u d s) \<in> {CHILD_BUFF_ERR, CHILD_BUFF_STEAL_BUFF})"

lemma drain_ok:
  assumes "polite cb" "stream_ok st"
  shows "\<exists>st' s' taken. drain_buffer cb u st s = Some (st', s', taken) \<and> stream_ok st' \<and> bs_cb st' = bs_cb st \<and>
    content st = taken @ content st' \<and> (bs_buffCap st' = bs_buffCap st \<or> bs_buff st' = None)"
  using assms(2)
proof (induction "bs_buffLen st" arbitrary: st s rule: less_induct)
  case less
  show ?case
  proof (cases "\<not> bs_cb st \<or> bs_buffLen st = 0")
    case True
    then show ?thesis using less.prems by (subst drain_buffer.simps) auto
  next
    case False
    obtain b where b: "bs_buff st = Some b" "length b = bs_buffCap st" "bs_buffLen st \<le> bs_buffCap st" "bs_buffCap st \<in> {4096, 8192, 16384}"
      using less.prems False by (auto simp: stream_ok_def split: option.splits)
    define len where "len = bs_buffLen st"
    have len: "0 < len" "len \<le> length b" "content st = take len b" using False b by (auto simp: len_def content_def)
    obtain n s1 where cb: "cb u (take len b) s = (n, s1)" by fastforce
    have n: "0 \<le> n \<or> n = CHILD_BUFF_ERR \<or> n = CHILD_BUFF_STEAL_BUFF" using assms(1) cb unfolding polite_def by (metis fst_conv insert_iff singletonD)
    have neg: "CHILD_BUFF_ERR < 0" "CHILD_BUFF_STEAL_BUFF < 0" "CHILD_BUFF_ERR \<noteq> CHILD_BUFF_STEAL_BUFF"
      by (simp_all add: CHILD_BUFF_ERR_def CHILD_BUFF_STEAL_BUFF_def)
    let ?st = "st\<lparr>bs_buffLen := len - nat n, bs_buff := Some (take (len - nat n) (drop (nat n) b) @ drop (len - nat n) b)\<rparr>"
    have eq: "drain_buffer cb u st s =
      (if n = CHILD_BUFF_ERR then Some (st, s1, [])
       else if n = CHILD_BUFF_STEAL_BUFF then Some (st\<lparr>bs_buff := None, bs_buffLen := 0, bs_buffCap := 0\<rparr>, s1, take len b)
       else if n \<ge> int len then Some (st\<lparr>bs_buffLen := 0\<rparr>, s1, take len b)
       else if n < 0 then None
       else if n = 0 then Some (st, s1, [])
       else map_option (\<lambda>(st', s2, taken). (st', s2, take (nat n) (take len b) @ taken)) (drain_buffer cb u ?st s1))"
      using False b(1) cb by (subst drain_buffer.simps) (simp add: len_def [symmetric] Let_def)
    consider "n = CHILD_BUFF_ERR" | "n = CHILD_BUFF_STEAL_BUFF" | "int len \<le> n" | "n = 0" "0 < len" | "0 < n" "n < int len"
      using n len(1) by linarith
    then show ?thesis
    proof cases
      case 1
      then show ?thesis using eq less.prems by simp
    next
      case 2
      then show ?thesis using eq neg less.prems len by (simp add: stream_ok_def content_def)
    next
      case 3
      then have "n \<noteq> CHILD_BUFF_ERR" "n \<noteq> CHILD_BUFF_STEAL_BUFF" using neg by auto
      then show ?thesis using 3 eq b len by (simp add: stream_ok_def content_def)
    next
      case 4
      then show ?thesis using eq neg less.prems by auto
    next
      case 5
      have l: "bs_buffLen ?st < bs_buffLen st" using 5 len(1) by (simp add: len_def)
      have ok: "stream_ok ?st" using 5 b len by (simp add: stream_ok_def len_def)
      have c: "content ?st = drop (nat n) (take len b)" using 5 len(1,2) by (auto simp: content_def drop_take min_def)
      obtain st' s' taken where r: "drain_buffer cb u ?st s1 = Some (st', s', taken)" "stream_ok st'" "bs_cb st' = bs_cb ?st"
          "content ?st = taken @ content st'" "bs_buffCap st' = bs_buffCap ?st \<or> bs_buff st' = None"
        using less.hyps [OF l ok] by blast
      have "content st = (take (nat n) (take len b) @ taken) @ content st'" using r(4) c len(3) by (metis append_take_drop_id append.assoc)
      moreover have "n \<noteq> CHILD_BUFF_ERR" "n \<noteq> CHILD_BUFF_STEAL_BUFF" using 5 neg by auto
      then have "drain_buffer cb u st s = Some (st', s', take (nat n) (take len b) @ taken)"
        unfolding eq using 5 r(1) by simp
      moreover have "bs_cb st' = bs_cb st" "bs_buffCap st' = bs_buffCap st \<or> bs_buff st' = None" using r(3,5) by simp_all
      ultimately show ?thesis using r(2) by blast
    qed
  qed
qed

lemma drain_full_ok:
  assumes "polite cb" "stream_ok st" "bs_buffCap st \<le> bs_buffLen st"
  shows "\<exists>st' s' taken dropped. drain_full cb st s = Some (st', s', taken, dropped) \<and> stream_ok st' \<and> bs_cb st' = bs_cb st \<and>
    content st = taken @ dropped @ content st' \<and> (dropped = [] \<or> length dropped = READ_BUFF_MAX) \<and>
    (bs_buffCap st < READ_BUFF_MAX \<and> st' = st \<or> bs_buffLen st' < bs_buffCap st' \<or> bs_buff st' = None)"
proof (cases "READ_BUFF_MAX \<le> bs_buffCap st")
  case False
  then show ?thesis using assms by (simp add: drain_full_def)
next
  case True
  obtain st1 s1 taken where d: "drain_buffer cb CHILD_BUFF_NOROOM st s = Some (st1, s1, taken)" "stream_ok st1" "bs_cb st1 = bs_cb st"
      "content st = taken @ content st1" "bs_buffCap st1 = bs_buffCap st \<or> bs_buff st1 = None"
    using drain_ok [OF assms(1,2)] by blast
  have cap: "bs_buffCap st = 16384" using True assms(2) by (auto simp: stream_ok_def READ_BUFF_MAX_def READ_BUFF_MIN_def split: option.splits)
  show ?thesis
  proof (cases "bs_buffCap st1 \<le> bs_buffLen st1")
    case full: True
    let ?st = "st1\<lparr>bs_buffLen := 0\<rparr>"
    have "drain_full cb st s = Some (?st, s1, taken, content st1)" using True d(1) full by (simp add: drain_full_def content_def)
    moreover have "stream_ok ?st" "content ?st = []" using d(2) by (auto simp: stream_ok_def content_def split: option.splits)
    moreover have "content st1 = [] \<or> length (content st1) = READ_BUFF_MAX"
      using d(2,5) full cap by (auto simp: stream_ok_def content_def READ_BUFF_MAX_def READ_BUFF_MIN_def split: option.splits)
    moreover have "bs_buffLen ?st < bs_buffCap ?st \<or> bs_buff ?st = None" using d(2) by (auto simp: stream_ok_def split: option.splits)
    ultimately show ?thesis using d(3,4) by simp
  next
    case nf: False
    then have "drain_full cb st s = Some (st1, s1, taken, [])" using True d(1) by (simp add: drain_full_def)
    then show ?thesis using d nf by simp
  qed
qed

lemma make_room_ok:
  assumes "polite cb" "stream_ok st"
  shows "\<exists>st' s' taken dropped. make_room cb True st s = Done (st', s', taken, dropped) \<and> stream_ok st' \<and> bs_cb st' = bs_cb st \<and>
    content st = taken @ dropped @ content st' \<and> (dropped = [] \<or> length dropped = READ_BUFF_MAX) \<and> bs_buffLen st' < bs_buffCap st'"
proof (cases "bs_buffLen st < bs_buffCap st")
  case True
  then show ?thesis using assms by (simp add: make_room_def)
next
  case False
  obtain st1 s1 taken dropped where d: "drain_full cb st s = Some (st1, s1, taken, dropped)" "stream_ok st1" "bs_cb st1 = bs_cb st"
      "content st = taken @ dropped @ content st1" "dropped = [] \<or> length dropped = READ_BUFF_MAX"
      "bs_buffCap st < READ_BUFF_MAX \<and> st1 = st \<or> bs_buffLen st1 < bs_buffCap st1 \<or> bs_buff st1 = None"
    using drain_full_ok [OF assms, of s] False by force
  show ?thesis
  proof (cases "bs_buff st1")
    case None
    then have "content st1 = []" by (simp add: content_def)
    then show ?thesis using False d None by (simp add: make_room_def stream_ok_def content_def READ_BUFF_MIN_def)
  next
    case (Some b)
    show ?thesis
    proof (cases "bs_buffLen st1 < bs_buffCap st1")
      case True
      then show ?thesis using False d Some by (simp add: make_room_def)
    next
      case full: False
      then have c: "bs_buffCap st1 \<in> {4096, 8192}" "bs_buffLen st1 = bs_buffCap st1" "length b = bs_buffCap st1"
        using d(2,6) Some by (auto simp: stream_ok_def READ_BUFF_MAX_def READ_BUFF_MIN_def)
      let ?cap = "min (bs_buffCap st1 * 2) READ_BUFF_MAX"
      let ?st = "st1\<lparr>bs_buffCap := ?cap, bs_buff := Some (take ?cap b @ replicate (?cap - length b) 0)\<rparr>"
      have cap: "?cap = 2 * bs_buffCap st1" "bs_buffCap st1 < READ_BUFF_MAX" using c(1) by (auto simp: READ_BUFF_MAX_def READ_BUFF_MIN_def)
      have "make_room cb True st s = Done (?st, s1, taken, dropped)"
        using False d(1) Some full cap(2) by (simp add: make_room_def Let_def)
      moreover have "stream_ok ?st" "content ?st = content st1" "bs_buffLen ?st < bs_buffCap ?st"
        using c Some unfolding cap(1) by (auto simp: stream_ok_def content_def)
      ultimately show ?thesis using d(3-5) by simp
    qed
  qed
qed

lemma store_read_ok:
  assumes "stream_ok st" "bs_buffLen st < bs_buffCap st" "length bs \<le> bs_buffCap st - bs_buffLen st"
  shows "\<exists>st'. store_read bs st = Some st' \<and> stream_ok st' \<and> bs_cb st' = bs_cb st \<and> content st' = content st @ bs"
proof -
  obtain b where "bs_buff st = Some b" "length b = bs_buffCap st" using assms(1,2) by (auto simp: stream_ok_def split: option.splits)
  then show ?thesis using assms by (auto simp: store_read_def stream_ok_def content_def)
qed

definition stream_of :: "int \<Rightarrow> ProcChild \<Rightarrow> nat" where
  "stream_of fd child = (if fd = ch_stdout_fd child then 0 else 1)"



text \<open>
  A watcher that only drops or echoes the data gives up on a failed read without closing the descriptor: the child
  is then never announced as dead, even after it has been reaped.
\<close>

lemma failed_read_leaves_fd_open:
  "dump_child_data ReadFailed fd child cs = (EVENT_REMOVE, cs, [])" "echo_child_data ReadFailed fd child cs = (EVENT_REMOVE, cs, [])"
  by (simp_all add: dump_child_data_def echo_child_data_def)

end
