(* ===== verification/Cmd_Line.thy ===== *)
theory Cmd_Line
  imports Prelude C_Text
begin

text \<open>
  Splitting a command line into words (\<open>next_param\<close> and \<open>parse_cmd\<close> of \<open>proclib.c\<close>), as \<open>PROC_fork_child\<close> does before it
  starts a program, and the theorems that words and quoted words are recovered and that no character outside the string is touched.

  \<^item> A command line is a list of characters with its terminator; a pointer into it is an index. \<open>None\<close> is an access outside the string.
  \<^item> \<open>isspace\<close> is that of the C locale.
\<close>

definition NUL :: char where "NUL = CHR 0x00"
definition SQ :: char where "SQ = CHR 0x27"
definition DQ :: char where "DQ = CHR 0x22"

lemma chars_distinct [simp]:
  "\<not> isspace NUL" "\<not> isspace SQ" "\<not> isspace DQ" "NUL \<noteq> SQ" "NUL \<noteq> DQ" "SQ \<noteq> DQ" "SQ \<noteq> NUL" "DQ \<noteq> NUL" "DQ \<noteq> SQ"
  by (simp_all add: isspace_def NUL_def SQ_def DQ_def)

function skip_space :: "string \<Rightarrow> nat \<Rightarrow> nat option" where
  "skip_space s i = (if i < length s then if isspace (s ! i) then skip_space s (i + 1) else Some i else None)"
  by pat_completeness auto
termination
  by (relation "measure (\<lambda>(s, i). length s - i)") auto

definition quote_step :: "nat \<Rightarrow> char \<Rightarrow> nat" where
  "quote_step inQuote c =
     (if c = SQ then if inQuote = 0 then 1 else if inQuote = 1 then 0 else inQuote
      else if c = DQ then if inQuote = 0 then 2 else if inQuote = 2 then 0 else inQuote
      else inQuote)"

function scan_param :: "string \<Rightarrow> nat \<Rightarrow> nat \<Rightarrow> nat option" where
  "scan_param s e inQuote =
     (if e < length s
      then if s ! e = NUL \<or> isspace (s ! e) \<and> inQuote = 0 then Some (e - 1) else scan_param s (e + 1) (quote_step inQuote (s ! e))
      else None)"
  by pat_completeness auto
termination
  by (relation "measure (\<lambda>(s, e, q). length s - e)") auto

declare skip_space.simps [simp del] scan_param.simps [simp del]

definition next_param :: "string \<Rightarrow> nat \<Rightarrow> (bool \<times> nat \<times> nat) option" where
  "next_param s str =
     (if str \<ge> length s then None
      else if s ! str = NUL then Some (False, str, str)
      else case skip_space s str of
             None \<Rightarrow> None
           | Some start \<Rightarrow>
               if s ! start = NUL then Some (False, start, start)
               else
                 let inQuote = (if s ! start = SQ then 1 else if s ! start = DQ then 2 else 0)
                 in map_option (\<lambda>e. (True, start, e)) (scan_param s (start + 1) inQuote))"

lemma skip_space_bounds: "skip_space s i = Some j \<Longrightarrow> i \<le> j \<and> j < length s \<and> \<not> isspace (s ! j)"
proof (induction s i rule: skip_space.induct)
  case (1 s i)
  show ?case
  proof (cases "i < length s \<and> isspace (s ! i)")
    case True
    then have "skip_space s (i + 1) = Some j" using 1(2) by (subst (asm) skip_space.simps) auto
    then show ?thesis using 1(1) True by auto
  next
    case False
    then show ?thesis using 1(2) by (subst (asm) skip_space.simps) (auto split: if_splits)
  qed
qed

lemma scan_param_bounds: "scan_param s e q = Some j \<Longrightarrow> e \<le> j + 1 \<and> (e \<noteq> 0 \<longrightarrow> j + 1 < length s)"
proof (induction s e q rule: scan_param.induct)
  case (1 s e q)
  show ?case
  proof (cases "e < length s \<and> \<not> (s ! e = NUL \<or> isspace (s ! e) \<and> q = 0)")
    case True
    then have "scan_param s (e + 1) (quote_step q (s ! e)) = Some j" using 1(2) by (subst (asm) scan_param.simps) auto
    then show ?thesis using 1(1) True by auto
  next
    case False
    then show ?thesis using 1(2) by (subst (asm) scan_param.simps) (auto split: if_splits)
  qed
qed

lemma next_param_bounds: "next_param s i = Some (True, b, e) \<Longrightarrow> i \<le> b \<and> b \<le> e \<and> e + 1 < length s"
  using skip_space_bounds [of s i] scan_param_bounds [of s "b + 1"]
  by (fastforce simp: next_param_def Let_def split: if_splits option.splits)

text \<open>The first loop of \<open>parse_cmd\<close> counts the words.\<close>

function count_params :: "string \<Rightarrow> nat \<Rightarrow> nat option" where
  "count_params s start =
     (case next_param s start of
        None \<Rightarrow> None
      | Some (found, b, e) \<Rightarrow>
          if \<not> found then Some 0
          else if e + 1 \<ge> length s then None
          else map_option Suc (count_params s (if s ! (e + 1) \<noteq> NUL then e + 2 else e + 1)))"
  by pat_completeness auto
termination
  by (relation "measure (\<lambda>(s, i). length s - i)") (auto dest: next_param_bounds)

declare count_params.simps [simp del]

definition strlen_at :: "string \<Rightarrow> nat \<Rightarrow> nat" where
  "strlen_at s i = length (takeWhile (\<lambda>c. c \<noteq> NUL) (drop i s))"

text \<open>Quotes around a word are removed: the closing one is overwritten, the opening one skipped.\<close>

definition strip_quotes :: "string \<Rightarrow> nat \<Rightarrow> string \<times> nat" where
  "strip_quotes s b =
     (if s ! b = DQ \<or> s ! b = SQ
      then let len = strlen_at s b - 1 in if s ! b = s ! (b + len) then (s[b + len := NUL], b + 1) else (s, b)
      else (s, b))"

lemma length_strip_quotes: "strip_quotes s b = (s', a) \<Longrightarrow> length s' = length s"
  by (auto simp: strip_quotes_def Let_def split: if_splits)

function split_params :: "string \<Rightarrow> nat \<Rightarrow> (string \<times> nat list) option" where
  "split_params s start =
     (case next_param s start of
        None \<Rightarrow> None
      | Some (found, b, e) \<Rightarrow>
          if \<not> found then Some (s, [])
          else if e + 1 \<ge> length s then None
          else
            let more_left = (s ! (e + 1) \<noteq> NUL); s1 = (if more_left then s[e + 1 := NUL] else s)
            in case strip_quotes s1 b of
                 (s2, a) \<Rightarrow> map_option (\<lambda>(s3, argv). (s3, a # argv)) (split_params s2 (if more_left then e + 2 else e + 1)))"
  by pat_completeness auto
termination
  by (relation "measure (\<lambda>(s, i). length s - i)") (auto dest!: next_param_bounds length_strip_quotes [OF sym] simp: Let_def split: if_splits)

declare split_params.simps [simp del]

text \<open>The result of \<open>parse_cmd\<close>: the string with its new terminators and the index of each word, \<open>Some None\<close> when memory is short.\<close>

definition parse_cmd :: "bool \<Rightarrow> string \<Rightarrow> (string \<times> nat list) option option" where
  "parse_cmd malloc_ok cmd =
     (case count_params cmd 0 of
        None \<Rightarrow> None
      | Some cnt \<Rightarrow>
          if \<not> malloc_ok then Some None
          else case split_params cmd 0 of
                 None \<Rightarrow> None
               | Some (s, argv) \<Rightarrow> if length argv \<le> cnt then Some (Some (s, argv)) else None)"

text \<open>The word a pointer shows; \<open>None\<close> when it points behind the string.\<close>

definition arg_at :: "string \<Rightarrow> nat \<Rightarrow> string option" where
  "arg_at s i = (if i < length s then Some (takeWhile (\<lambda>c. c \<noteq> NUL) (drop i s)) else None)"

section \<open>No access outside the string\<close>

definition terminated :: "string \<Rightarrow> bool" where
  "terminated s \<longleftrightarrow> s \<noteq> [] \<and> last s = NUL"

definition same_from :: "nat \<Rightarrow> string \<Rightarrow> string \<Rightarrow> bool" where
  "same_from i s s' \<longleftrightarrow> length s = length s' \<and> (\<forall>j. i \<le> j \<longrightarrow> j < length s \<longrightarrow> s ! j = s' ! j)"

lemma same_from_mono: "same_from i s s' \<Longrightarrow> i \<le> k \<Longrightarrow> same_from k s s'"
  by (simp add: same_from_def)

lemma same_from_trans: "same_from i s s' \<Longrightarrow> same_from i s' s'' \<Longrightarrow> same_from i s s''"
  by (simp add: same_from_def)

lemma skip_space_same: "same_from i s s' \<Longrightarrow> skip_space s i = skip_space s' i"
proof (induction s i rule: skip_space.induct)
  case (1 s i)
  then show ?case
    by (subst (1 2) skip_space.simps) (auto simp: same_from_def)
qed

lemma scan_param_same: "same_from e s s' \<Longrightarrow> scan_param s e q = scan_param s' e q"
proof (induction s e q rule: scan_param.induct)
  case (1 s e q)
  then show ?case
    by (subst (1 2) scan_param.simps) (auto simp: same_from_def)
qed

lemma next_param_same:
  assumes "same_from i s s'"
  shows "next_param s i = next_param s' i"
proof -
  have l: "length s = length s'" "\<And>j. i \<le> j \<Longrightarrow> j < length s \<Longrightarrow> s ! j = s' ! j" using assms by (auto simp: same_from_def)
  have sk: "skip_space s i = skip_space s' i" by (rule skip_space_same [OF assms])
  show ?thesis
  proof (cases "skip_space s i")
    case None
    then show ?thesis using l sk by (auto simp: next_param_def)
  next
    case (Some b)
    then have b: "i \<le> b" "b < length s" using skip_space_bounds by auto
    have "scan_param s (b + 1) q = scan_param s' (b + 1) q" for q
      using same_from_mono [OF assms, of "b + 1"] b(1) by (intro scan_param_same) auto
    moreover have "s ! b = s' ! b" "skip_space s' i = Some b" using l b sk Some by auto
    ultimately show ?thesis
      unfolding next_param_def Some \<open>skip_space s' i = Some b\<close> option.case Let_def using l b by auto
  qed
qed

lemma next_param_total:
  assumes "terminated s" "i < length s"
  shows "next_param s i \<noteq> None"
proof -
  have last: "s ! (length s - 1) = NUL" using assms(1) unfolding terminated_def by (metis last_conv_nth)
  have skip: "skip_space s j \<noteq> None" if "j < length s" for j
    using that
  proof (induction "length s - j" arbitrary: j rule: less_induct)
    case less
    then show ?case
    proof (cases "isspace (s ! j)")
      case True
      then have "j \<noteq> length s - 1" using last by auto
      then have "j + 1 < length s" using less.prems by simp
      then show ?thesis using less True by (subst skip_space.simps) simp
    qed (subst skip_space.simps, simp)
  qed
  have scan: "scan_param s j q \<noteq> None" if "j < length s" for j q
    using that
  proof (induction "length s - j" arbitrary: j q rule: less_induct)
    case less
    then show ?case
    proof (cases "s ! j = NUL")
      case False
      then have "j \<noteq> length s - 1" using last by auto
      then have "j + 1 < length s" using less.prems by simp
      then show ?thesis using less False by (subst scan_param.simps) auto
    qed (subst scan_param.simps, simp)
  qed
  obtain b where b: "skip_space s i = Some b" using skip [OF assms(2)] by auto
  have "s ! b \<noteq> NUL \<Longrightarrow> b + 1 < length s"
    using skip_space_bounds [OF b] last by (metis Suc_eq_plus1 Suc_lessI diff_Suc_1)
  then show ?thesis using assms(2) b scan [of "b + 1"] by (auto simp: next_param_def Let_def)
qed

lemma terminated_update [simp]: "terminated s \<Longrightarrow> terminated (s[i := NUL])"
  by (auto simp: terminated_def last_list_update)

lemma strlen_at_le:
  assumes "b \<le> k" "k < length s" "s ! k = NUL"
  shows "strlen_at s b \<le> k - b"
proof -
  have "drop b s = take (k - b) (drop b s) @ NUL # drop (k + 1) s"
    using id_take_nth_drop [of "k - b" "drop b s"] assms by (simp add: add.commute)
  then have "takeWhile (\<lambda>c. c \<noteq> NUL) (drop b s) = takeWhile (\<lambda>c. c \<noteq> NUL) (take (k - b) (drop b s))"
    by (metis (mono_tags, lifting) takeWhile_tail)
  then show ?thesis
    unfolding strlen_at_def using length_takeWhile_le [of "\<lambda>c. c \<noteq> NUL" "take (k - b) (drop b s)"] by simp
qed

lemma strip_quotes_ok:
  assumes "terminated s" "b < k" "s ! k = NUL" "k < length s" "strip_quotes s b = (s', a)"
  shows "terminated s' \<and> same_from k s s'"
proof -
  have "b + (strlen_at s b - 1) < k" using assms(2) strlen_at_le [of b k s] assms(3,4) by linarith
  then show ?thesis using assms(1,5) by (auto simp: strip_quotes_def same_from_def Let_def split: if_splits)
qed

lemma split_counts:
  assumes "terminated s'" "start < length s" "same_from start s s'" "terminated s"
  shows "\<exists>r argv. split_params s' start = Some (r, argv) \<and> count_params s start = Some (length argv) \<and> length r = length s \<and>
    list_all (\<lambda>i. i < length s) argv"
  using assms
proof (induction "length s - start" arbitrary: s' start rule: less_induct)
  case less
  have np: "next_param s' start = next_param s start" using next_param_same [OF less.prems(3)] by simp
  obtain found b e where n: "next_param s start = Some (found, b, e)" using next_param_total [OF less.prems(4,2)] by auto
  show ?case
  proof (cases found)
    case False
    then show ?thesis
      using n np less.prems(3) by (subst split_params.simps, subst count_params.simps) (simp add: same_from_def)
  next
    case True
    then have b: "start \<le> b" "b \<le> e" "e + 1 < length s" using n next_param_bounds by auto
    have eq: "s' ! (e + 1) = s ! (e + 1)" "length s' = length s" using less.prems(3) b by (auto simp: same_from_def)
    define s1 where "s1 = (if s ! (e + 1) \<noteq> NUL then s'[e + 1 := NUL] else s')"
    define k where "k = (if s ! (e + 1) \<noteq> NUL then e + 2 else e + 1)"
    have s1: "terminated s1" "s1 ! (e + 1) = NUL" "length s1 = length s" using less.prems(1) b eq by (auto simp: s1_def)
    obtain s2 a where s2: "strip_quotes s1 b = (s2, a)" by fastforce
    have st: "terminated s2" "same_from (e + 1) s1 s2" using strip_quotes_ok [OF s1(1) _ s1(2) _ s2] b s1(3) by auto
    have "k < length s"
    proof (cases "s ! (e + 1) = NUL")
      case False
      then have "e + 1 \<noteq> length s - 1" using less.prems(4) unfolding terminated_def by (metis last_conv_nth)
      then have "e + 2 < length s" using b(3) by linarith
      then show ?thesis using b by (simp add: k_def)
    qed (use b in \<open>simp add: k_def\<close>)
    moreover from this have km: "length s - k < length s - start" using b by (auto simp: k_def)
    moreover have "same_from k s s1"
      using less.prems(3) b eq by (auto simp: same_from_def k_def s1_def)
    then have "same_from k s s2" by (rule same_from_trans) (rule same_from_mono [OF st(2)], simp add: k_def)
    ultimately obtain r argv where r: "split_params s2 k = Some (r, argv)" "count_params s k = Some (length argv)" "length r = length s"
        "list_all (\<lambda>i. i < length s) argv"
      using less.hyps [of k s2] st(1) less.prems(4) km by blast
    have "split_params s' start = Some (r, a # argv)"
      using n np True b eq s2 r(1) by (subst split_params.simps) (simp add: s1_def k_def Let_def)
    moreover have "count_params s start = Some (Suc (length argv))"
      using n True b r(2) by (subst count_params.simps) (simp add: k_def)
    moreover have "a < length s" using s2 b(2,3) by (auto simp: strip_quotes_def Let_def split: if_splits)
    ultimately show ?thesis using r(3,4) by simp
  qed
qed

text \<open>Every command line is parsed without leaving the string or the array of words: the second pass finds as many words as the first.\<close>

lemma parse_cmd_safe:
  assumes "terminated cmd"
  shows "\<exists>s argv. parse_cmd True cmd = Some (Some (s, argv)) \<and> count_params cmd 0 = Some (length argv) \<and> list_all (\<lambda>i. i < length s) argv"
  using split_counts [OF assms _ _ assms, of 0] assms by (fastforce simp: parse_cmd_def same_from_def terminated_def)

section \<open>Words are recovered\<close>

text \<open>How an argument is written: as it is, or between quotes of a kind it does not contain.\<close>

definition token :: "string \<Rightarrow> string \<Rightarrow> bool" where
  "token a t \<longleftrightarrow>
     t = a \<and> a \<noteq> [] \<and> list_all (\<lambda>c. \<not> isspace c \<and> c \<noteq> NUL \<and> c \<noteq> SQ \<and> c \<noteq> DQ) a \<or>
     (\<exists>q. (q = SQ \<or> q = DQ) \<and> t = q # a @ [q] \<and> list_all (\<lambda>c. c \<noteq> NUL \<and> c \<noteq> q) a)"

inductive cmdline :: "string list \<Rightarrow> string \<Rightarrow> bool" where
  cmdline_end: "list_all isspace ws \<Longrightarrow> cmdline [] (ws @ [NUL])"
| cmdline_last: "list_all isspace ws \<Longrightarrow> token a t \<Longrightarrow> cmdline [a] (ws @ t @ [NUL])"
| cmdline_more: "list_all isspace ws \<Longrightarrow> token a t \<Longrightarrow> isspace d \<Longrightarrow> cmdline as rest \<Longrightarrow> cmdline (a # as) (ws @ t @ d # rest)"

fun passes :: "nat \<Rightarrow> string \<Rightarrow> nat option" where
  "passes q [] = Some q"
| "passes q (c # cs) = (if c = NUL \<or> isspace c \<and> q = 0 then None else passes (quote_step q c) cs)"

lemma skip_ws:
  "list_all isspace ws \<Longrightarrow> \<not> isspace c \<Longrightarrow> skip_space (pre @ ws @ c # r) (length pre) = Some (length pre + length ws)"
proof (induction ws arbitrary: pre)
  case Nil
  then show ?case by (subst skip_space.simps) simp
next
  case (Cons w ws)
  then show ?case using Cons.IH [of "pre @ [w]"] by (subst skip_space.simps) simp
qed

lemma scan_passes:
  "passes q xs = Some q' \<Longrightarrow> scan_param (pre @ xs @ r) (length pre) q = scan_param (pre @ xs @ r) (length pre + length xs) q'"
proof (induction xs arbitrary: pre q)
  case (Cons x xs)
  have "scan_param (pre @ (x # xs) @ r) (length pre) q = scan_param (pre @ (x # xs) @ r) (length pre + 1) (quote_step q x)"
    using Cons.prems by (subst scan_param.simps) (auto split: if_splits)
  also have "\<dots> = scan_param (pre @ (x # xs) @ r) (length pre + length (x # xs)) q'"
    using Cons.IH [of "quote_step q x" "pre @ [x]"] Cons.prems by (simp split: if_splits)
  finally show ?case .
qed simp

lemma passes_append: "passes q (xs @ ys) = (case passes q xs of None \<Rightarrow> None | Some q' \<Rightarrow> passes q' ys)"
  by (induction xs arbitrary: q) auto

lemma passes_bare: "list_all (\<lambda>c. \<not> isspace c \<and> c \<noteq> NUL \<and> c \<noteq> SQ \<and> c \<noteq> DQ) a \<Longrightarrow> passes 0 a = Some 0"
  by (induction a) (auto simp: quote_step_def)

lemma passes_quoted:
  "list_all (\<lambda>c. c \<noteq> NUL \<and> c \<noteq> SQ) a \<Longrightarrow> passes (Suc 0) a = Some (Suc 0)"
  "list_all (\<lambda>c. c \<noteq> NUL \<and> c \<noteq> DQ) a \<Longrightarrow> passes 2 a = Some 2"
  by (induction a) (auto simp: quote_step_def)

lemma token_cases:
  assumes "token a t"
  obtains (bare) "t = a" "a \<noteq> []" "list_all (\<lambda>c. \<not> isspace c \<and> c \<noteq> NUL \<and> c \<noteq> SQ \<and> c \<noteq> DQ) a"
    | (quoted) q where "q = SQ \<or> q = DQ" "t = q # a @ [q]" "list_all (\<lambda>c. c \<noteq> NUL \<and> c \<noteq> q) a"
  using assms unfolding token_def by blast

definition open_quote :: "char \<Rightarrow> nat" where
  "open_quote c = (if c = SQ then 1 else if c = DQ then 2 else 0)"

lemma token_scan:
  assumes "token a t"
  shows "\<exists>c cs. t = c # cs \<and> \<not> isspace c \<and> c \<noteq> NUL \<and> passes (open_quote c) cs = Some 0"
  using assms
proof (cases rule: token_cases)
  case bare
  then show ?thesis by (cases a) (auto simp: open_quote_def passes_bare)
next
  case q: (quoted q)
  then have "passes (open_quote q) (a @ [q]) = Some 0"
    by (auto simp: open_quote_def passes_append passes_quoted quote_step_def)
  then show ?thesis using q(1,2) by auto
qed

lemma next_token:
  assumes "list_all isspace ws" "token a t" "d = NUL \<or> isspace d"
  shows "next_param (pre @ ws @ t @ d # r) (length pre) = Some (True, length pre + length ws, length pre + length ws + length t - 1)"
proof -
  obtain c cs where t: "t = c # cs" "\<not> isspace c" "c \<noteq> NUL" "passes (open_quote c) cs = Some 0"
    using token_scan [OF assms(2)] by blast
  let ?s = "pre @ ws @ t @ d # r" and ?b = "length pre + length ws"
  have n: "?s ! length pre \<noteq> NUL" using assms(1) t by (cases ws) auto
  have sk: "skip_space ?s (length pre) = Some ?b" using skip_ws [OF assms(1) t(2), of pre "cs @ d # r"] t(1) by simp
  have b: "?s ! ?b = c" using t(1) by (simp add: nth_append)
  have "scan_param ?s (?b + 1) (open_quote c) = scan_param ?s (?b + length t) 0"
    using scan_passes [OF t(4), of "pre @ ws @ [c]" "d # r"] t(1) by simp
  also have "\<dots> = Some (?b + length t - 1)"
    using assms(3) by (subst scan_param.simps) (auto simp: nth_append)
  finally have sc: "scan_param ?s (?b + 1) (open_quote c) = Some (?b + length t - 1)" .
  have "next_param ?s (length pre) = map_option (\<lambda>e. (True, ?b, e)) (scan_param ?s (?b + 1) (open_quote (?s ! ?b)))"
    using n sk b t(3) by (simp add: next_param_def open_quote_def Let_def)
  then show ?thesis using sc b by simp
qed

lemma strlen_at_append: "list_all (\<lambda>c. c \<noteq> NUL) t \<Longrightarrow> strlen_at (pre @ t @ NUL # r) (length pre) = length t"
  by (simp add: strlen_at_def list_all_iff takeWhile_append2)

lemma arg_at_append: "list_all (\<lambda>c. c \<noteq> NUL) a \<Longrightarrow> arg_at (pre @ a @ NUL # r) (length pre) = Some a"
  by (simp add: arg_at_def list_all_iff takeWhile_append2)

lemma strip_token:
  assumes "token a t"
  shows "\<exists>t' b. strip_quotes (pre @ t @ NUL # r) (length pre) = (pre @ t' @ NUL # r, b) \<and> length t' = length t \<and>
    (\<forall>r'. arg_at (pre @ t' @ NUL # r') b = Some a)"
  using assms
proof (cases rule: token_cases)
  case a: bare
  then have "strip_quotes (pre @ t @ NUL # r) (length pre) = (pre @ t @ NUL # r, length pre)"
    by (cases a) (auto simp: strip_quotes_def)
  moreover have "list_all (\<lambda>c. c \<noteq> NUL) a" using a(3) by (auto simp: list_all_iff)
  ultimately show ?thesis using a(1) arg_at_append [of a pre] by auto
next
  case q: (quoted q)
  have an: "list_all (\<lambda>c. c \<noteq> NUL) a" using q(3) by (auto simp: list_all_iff)
  then have "list_all (\<lambda>c. c \<noteq> NUL) t" using q(1,2) by auto
  then have len: "strlen_at (pre @ t @ NUL # r) (length pre) - 1 = length a + 1" using strlen_at_append [of t pre r] q(2) by simp
  have nth: "(pre @ t @ NUL # r) ! length pre = q" "(pre @ t @ NUL # r) ! (length pre + (length a + 1)) = q"
    using q(2) by (auto simp: nth_append)
  have upd: "(pre @ t @ NUL # r)[length pre + (length a + 1) := NUL] = pre @ (q # a @ [NUL]) @ NUL # r"
    using q(2) by (simp add: list_update_append)
  have "strip_quotes (pre @ t @ NUL # r) (length pre) = (pre @ (q # a @ [NUL]) @ NUL # r, length pre + 1)"
    unfolding strip_quotes_def Let_def len nth upd using q(1) by auto
  moreover have "arg_at (pre @ (q # a @ [NUL]) @ NUL # r') (length pre + 1) = Some a" for r'
    using arg_at_append [OF an, of "pre @ [q]" "NUL # r'"] by simp
  ultimately show ?thesis using q(2) by (intro exI [of _ "q # a @ [NUL]"] exI [of _ "length pre + 1"]) simp
qed

lemma split_step:
  assumes ws: "list_all isspace ws" and tk: "token a t" and d: "d = NUL \<or> isspace d"
  shows "\<exists>pre' b w. pre' = pre @ w \<and> (\<forall>r'. arg_at (pre' @ NUL # r') b = Some a) \<and>
    split_params (pre @ ws @ t @ d # r) (length pre) =
      map_option (\<lambda>(s3, argv). (s3, b # argv)) (split_params (pre' @ NUL # r) (length pre' + (if d = NUL then 0 else 1)))"
proof -
  let ?s = "pre @ ws @ t @ d # r" and ?e = "length pre + length ws + length t"
  have tl: "0 < length t" using token_scan [OF tk] by auto
  have at: "?s ! ?e = d" "?e < length ?s" by (simp_all add: nth_append)
  have np: "next_param ?s (length pre) = Some (True, length pre + length ws, ?e - 1)" by (rule next_token [OF ws tk d])
  obtain t' b where st: "strip_quotes ((pre @ ws) @ t @ NUL # r) (length (pre @ ws)) = ((pre @ ws) @ t' @ NUL # r, b)" "length t' = length t"
      "\<forall>r'. arg_at ((pre @ ws) @ t' @ NUL # r') b = Some a"
    using strip_token [OF tk, of "pre @ ws" r] by blast
  have s1: "(if ?s ! ?e \<noteq> NUL then ?s[?e := NUL] else ?s) = (pre @ ws) @ t @ NUL # r"
    using at(1) by (simp add: list_update_append)
  have e: "?e - 1 + 1 = ?e" "?e - 1 + 2 = ?e + 1" using tl by auto
  have "split_params ?s (length pre) =
      map_option (\<lambda>(s3, argv). (s3, b # argv)) (split_params ((pre @ ws) @ t' @ NUL # r) (if ?s ! ?e \<noteq> NUL then ?e + 1 else ?e))"
    using np at(2) st(1) s1 e by (cases "?s ! ?e = NUL"; subst split_params.simps) (simp_all add: Let_def)
  then show ?thesis
    using at(1) st(2,3) by (intro exI [of _ "pre @ ws @ t'"] exI [of _ b] exI [of _ "ws @ t'"]) (simp add: add.assoc)
qed

lemma split_end:
  assumes "list_all isspace ws"
  shows "split_params (pre @ ws @ [NUL]) (length pre) = Some (pre @ ws @ [NUL], [])"
proof -
  have "skip_space (pre @ ws @ [NUL]) (length pre) = Some (length pre + length ws)" using skip_ws [OF assms, of NUL pre "[]"] by simp
  then have "\<exists>i. next_param (pre @ ws @ [NUL]) (length pre) = Some (False, i, i)"
    by (simp add: next_param_def nth_append)
  then show ?thesis by (subst split_params.simps) auto
qed

lemma split_cmdline:
  assumes "cmdline args cmd"
  shows "\<exists>r argv. split_params (pre @ cmd) (length pre) = Some (pre @ r, argv) \<and> map (arg_at (pre @ r)) argv = map Some args"
  using assms
proof (induction arbitrary: pre)
  case (cmdline_end ws)
  then show ?case using split_end [of ws pre] by auto
next
  case (cmdline_last ws a t)
  obtain pre' b w where p: "pre' = pre @ w" "\<forall>r'. arg_at (pre' @ NUL # r') b = Some a"
      "split_params (pre @ ws @ t @ NUL # []) (length pre) =
         map_option (\<lambda>(s3, argv). (s3, b # argv)) (split_params (pre' @ NUL # []) (length pre' + 0))"
    using split_step [OF cmdline_last, of NUL pre "[]"] by auto
  have "split_params (pre' @ [NUL]) (length pre') = Some (pre' @ [NUL], [])" using split_end [of "[]" pre'] by simp
  then show ?case using p by (intro exI [of _ "w @ [NUL]"] exI [of _ "[b]"]) simp
next
  case (cmdline_more ws a t d as rest)
  have d: "d \<noteq> NUL" using cmdline_more.hyps(3) by auto
  obtain pre' b w where p: "pre' = pre @ w" "\<forall>r'. arg_at (pre' @ NUL # r') b = Some a"
      "split_params (pre @ ws @ t @ d # rest) (length pre) =
         map_option (\<lambda>(s3, argv). (s3, b # argv)) (split_params (pre' @ NUL # rest) (length pre' + 1))"
    using split_step [OF cmdline_more.hyps(1,2) disjI2 [OF cmdline_more.hyps(3)], of pre rest] d by auto
  obtain r argv where r: "split_params ((pre' @ [NUL]) @ rest) (length (pre' @ [NUL])) = Some ((pre' @ [NUL]) @ r, argv)"
      "map (arg_at ((pre' @ [NUL]) @ r)) argv = map Some as"
    using cmdline_more.IH [of "pre' @ [NUL]"] by blast
  show ?case using p r by (intro exI [of _ "w @ NUL # r"] exI [of _ "b # argv"]) simp
qed

lemma cmdline_terminated: "cmdline args cmd \<Longrightarrow> terminated cmd"
  by (induction rule: cmdline.induct) (auto simp: terminated_def)

lemma parse_cmdline:
  assumes c: "cmdline args cmd"
  shows "\<exists>s argv. parse_cmd True cmd = Some (Some (s, argv)) \<and> map (arg_at s) argv = map Some args"
proof -
  obtain s argv where p: "parse_cmd True cmd = Some (Some (s, argv))" using parse_cmd_safe [OF cmdline_terminated [OF c]] by blast
  obtain r argv' where r: "split_params cmd 0 = Some (r, argv')" "map (arg_at r) argv' = map Some args"
    using split_cmdline [OF c, of "[]"] by auto
  have "s = r" "argv = argv'" using p r(1) by (auto simp: parse_cmd_def split: option.splits if_splits)
  then show ?thesis using p r(2) by blast
qed

text \<open>
  Splitting a command line is safe and recovers the arguments. For every string with a terminator \<open>parse_cmd\<close> touches nothing outside the string
  or the array it allocates for the words, and every word starts inside the string; and for words separated by white space, written as they are or in quotes of either kind, which may
  contain white space and the other quote, it returns exactly the words.
\<close>
theorem parse_cmd_correct:
  "(terminated cmd \<longrightarrow> (\<exists>s argv. parse_cmd True cmd = Some (Some (s, argv)) \<and> list_all (\<lambda>i. i < length s) argv)) \<and>
   (cmdline args cmd \<longrightarrow> (\<exists>s argv. parse_cmd True cmd = Some (Some (s, argv)) \<and> map (arg_at s) argv = map Some args))"
  using parse_cmd_safe [of cmd] parse_cmdline [of args cmd] by blast

theorem parse_cmd_correct_witness:
  "\<exists>s argv. parse_cmd True (''ls '' @ [DQ] @ ''a b'' @ [DQ, NUL]) = Some (Some (s, argv)) \<and> map (arg_at s) argv = [Some ''ls'', Some ''a b'']"
proof -
  have sp: "isspace (CHR '' '')" by (simp add: isspace_def)
  have "token ''ls'' ''ls''" by (simp add: token_def isspace_def NUL_def SQ_def DQ_def)
  moreover have "token ''a b'' (DQ # ''a b'' @ [DQ])" unfolding token_def by (rule disjI2, rule exI [of _ DQ]) (simp add: NUL_def DQ_def)
  ultimately have "cmdline [''ls'', ''a b''] ([] @ ''ls'' @ CHR '' '' # [] @ (DQ # ''a b'' @ [DQ]) @ [NUL])"
    using sp by (intro cmdline_more cmdline_last) simp_all
  then show ?thesis using parse_cmd_correct [of "''ls '' @ [DQ] @ ''a b'' @ [DQ, NUL]" "[''ls'', ''a b'']"] by simp
qed

text \<open>A quote mark that stands alone at the end of the line is taken as both the opening and the closing one and becomes an empty word.\<close>

lemma lone_quote_word:
  "parse_cmd True (CHR ''a'' # CHR '' '' # [DQ, NUL]) = Some (Some ([CHR ''a'', NUL, NUL, NUL], [0, 3]))"
  by (simp add: parse_cmd_def count_params.simps split_params.simps next_param_def skip_space.simps scan_param.simps strip_quotes_def strlen_at_def isspace_def
      NUL_def SQ_def DQ_def quote_step_def Let_def)

end
