(* ===== verification/Pseudo_Threads.thy ===== *)
theory Pseudo_Threads
  imports Event_State
begin

text \<open>
  Cooperative threads on top of the event loop (\<open>pseudo_threads.c\<close>): the queues of threads, blocking and waking, and the loop that runs every
  ready thread until none is left.

  \<^item> A thread is known by its address. \<open>pt_head\<close> is the queue a thread's \<open>head\<close> field points to, \<open>pt_timer\<close> says that its
    \<open>sched_evt\<close> is set, \<open>pt_fd\<close> the thread an event of a descriptor will wake.
  \<^item> \<open>swapcontext\<close> splits a function in two: what it does before it gives up the processor and what it does when it is resumed.
    What a thread does between two such points is a list of actions, the \<open>script\<close> of the thread. A thread whose script is finished returns.
\<close>

datatype pt_queue = Q_curr | Q_ready | Q_blocked

record PseudoThreadState =
  pt_curr :: "ptr list"
  pt_ready :: "ptr list"
  pt_blocked :: "ptr list"
  pt_goner :: ptr
  pt_live :: "ptr set"
  pt_head :: "ptr \<Rightarrow> pt_queue option"
  pt_timer :: "ptr \<Rightarrow> bool"
  pt_fd :: "int \<Rightarrow> ptr"

definition PT_init :: PseudoThreadState where
  "PT_init = \<lparr>pt_curr = [], pt_ready = [], pt_blocked = [], pt_goner = NULL, pt_live = {}, pt_head = (\<lambda>_. None), pt_timer = (\<lambda>_. False),
     pt_fd = (\<lambda>_. NULL)\<rparr>"

definition pt_queue_of :: "pt_queue \<Rightarrow> PseudoThreadState \<Rightarrow> ptr list" where
  "pt_queue_of q st = (case q of Q_curr \<Rightarrow> pt_curr st | Q_ready \<Rightarrow> pt_ready st | Q_blocked \<Rightarrow> pt_blocked st)"

definition pt_set_queue :: "pt_queue \<Rightarrow> ptr list \<Rightarrow> PseudoThreadState \<Rightarrow> PseudoThreadState" where
  "pt_set_queue q xs st = (case q of Q_curr \<Rightarrow> st\<lparr>pt_curr := xs\<rparr> | Q_ready \<Rightarrow> st\<lparr>pt_ready := xs\<rparr> | Q_blocked \<Rightarrow> st\<lparr>pt_blocked := xs\<rparr>)"

definition state_curr :: "PseudoThreadState \<Rightarrow> ptr" where
  "state_curr st = (case pt_curr st of [] \<Rightarrow> NULL | t # _ \<Rightarrow> t)"

definition dequeue_thread :: "ptr \<Rightarrow> PseudoThreadState \<Rightarrow> PseudoThreadState" where
  "dequeue_thread thread st =
     (if thread = NULL then st
      else case pt_head st thread of
             None \<Rightarrow> st
           | Some q \<Rightarrow>
               if thread \<in> set (pt_queue_of q st)
               then pt_set_queue q (remove1 thread (pt_queue_of q st)) (st\<lparr>pt_head := (pt_head st)(thread := None)\<rparr>)
               else st)"

definition enqueue_thread :: "ptr \<Rightarrow> pt_queue \<Rightarrow> PseudoThreadState \<Rightarrow> PseudoThreadState" where
  "enqueue_thread self q st = pt_set_queue q (self # pt_queue_of q st) (st\<lparr>pt_head := (pt_head st)(self := Some q)\<rparr>)"

definition PT_unblock :: "ptr \<Rightarrow> PseudoThreadState \<Rightarrow> int \<times> PseudoThreadState" where
  "PT_unblock self st = (if self = NULL then (-1, st) else (0, enqueue_thread self Q_ready (dequeue_thread self st)))"

text \<open>Called by the event loop when a timer or a descriptor is due; the events are removed by it.\<close>

definition timed_evt_cb :: "ptr \<Rightarrow> PseudoThreadState \<Rightarrow> int \<times> PseudoThreadState" where
  "timed_evt_cb self st =
     (if self = NULL then (EVENT_REMOVE, st)
      else (EVENT_REMOVE, enqueue_thread self Q_ready (dequeue_thread self (st\<lparr>pt_timer := (pt_timer st)(self := False)\<rparr>))))"

definition fd_evt_cb :: "int \<Rightarrow> PseudoThreadState \<Rightarrow> int \<times> PseudoThreadState" where
  "fd_evt_cb fd st =
     (let self = pt_fd st fd; st1 = st\<lparr>pt_fd := (pt_fd st)(fd := NULL)\<rparr>
      in if self = NULL then (EVENT_REMOVE, st1) else (EVENT_REMOVE, enqueue_thread self Q_ready (dequeue_thread self st1)))"

text \<open>The result says whether the thread has given up the processor.\<close>

definition PT_block :: "ptr \<Rightarrow> PseudoThreadState \<Rightarrow> int \<times> bool \<times> PseudoThreadState" where
  "PT_block self st =
     (if self \<noteq> state_curr st then (-1, False, st) else (0, True, enqueue_thread self Q_blocked (dequeue_thread self st)))"

definition PT_wait :: "nat \<Rightarrow> PseudoThreadState \<Rightarrow> (bool \<times> PseudoThreadState) option" where
  "PT_wait msecs st =
     (let self = state_curr st
      in if msecs = 0 \<or> self = NULL then Some (False, st)
         else if pt_timer st self then None
         else Some (True, enqueue_thread self Q_blocked (dequeue_thread self (st\<lparr>pt_timer := (pt_timer st)(self := True)\<rparr>))))"

text \<open>
  Reading and writing: \<open>pt_rw_wait\<close> is the part before the switch, \<open>pt_rw_resume\<close> the part after it with the result of the system
  call, \<open>None\<close> for \<open>EWOULDBLOCK\<close>. The failed assertion is the result \<open>None\<close> of \<open>pt_rw_begin\<close>.
\<close>

definition pt_rw_wait :: "int \<Rightarrow> ptr \<Rightarrow> PseudoThreadState \<Rightarrow> PseudoThreadState" where
  "pt_rw_wait fd self st = enqueue_thread self Q_blocked (dequeue_thread self (st\<lparr>pt_fd := (pt_fd st)(fd := self)\<rparr>))"

definition pt_rw_begin :: "int \<Rightarrow> nat \<Rightarrow> PseudoThreadState \<Rightarrow> (int \<times> bool \<times> PseudoThreadState) option" where
  "pt_rw_begin fd timeout st =
     (let self = state_curr st
      in if fd < 0 \<or> self = NULL then Some (-1, False, st)
         else if timeout > 0 \<and> pt_timer st self then None
         else Some (0, True, pt_rw_wait fd self (if timeout > 0 then st\<lparr>pt_timer := (pt_timer st)(self := True)\<rparr> else st)))"

datatype rw_status = RwDone int | RwWaits

definition pt_rw_resume :: "int \<Rightarrow> nat \<Rightarrow> int option \<Rightarrow> ptr \<Rightarrow> PseudoThreadState \<Rightarrow> rw_status \<times> PseudoThreadState" where
  "pt_rw_resume fd timeout res self st =
     (if timeout > 0 \<and> \<not> pt_timer st self then (RwDone (-2), st)
      else
        let st1 = st\<lparr>pt_timer := (pt_timer st)(self := False)\<rparr>
        in case res of
             Some r \<Rightarrow> (RwDone r, st1)
           | None \<Rightarrow> (RwWaits, pt_rw_wait fd self st1))"

text \<open>The end of a thread: its function has returned.\<close>

definition tmain_exit :: "ptr \<Rightarrow> PseudoThreadState \<Rightarrow> PseudoThreadState" where
  "tmain_exit self st = (dequeue_thread self st)\<lparr>pt_goner := self, pt_timer := (pt_timer st)(self := False)\<rparr>"

definition PT_create :: "ptr \<Rightarrow> PseudoThreadState \<Rightarrow> PseudoThreadState" where
  "PT_create thread st =
     enqueue_thread thread Q_ready (st\<lparr>pt_live := insert thread (pt_live st), pt_timer := (pt_timer st)(thread := False)\<rparr>)"

definition PT_destroy :: "ptr \<Rightarrow> PseudoThreadState \<Rightarrow> bool \<times> PseudoThreadState" where
  "PT_destroy self st =
     (if self = NULL \<or> self \<notin> pt_live st then (False, st)
      else
        let st1 = st\<lparr>pt_timer := (pt_timer st)(self := False)\<rparr>
        in if self = state_curr st1 then (True, (dequeue_thread self st1)\<lparr>pt_goner := self\<rparr>)
           else (False, (dequeue_thread self st1)\<lparr>pt_live := pt_live st1 - {self}\<rparr>))"

section \<open>Running the threads\<close>

datatype pt_action = A_create ptr | A_unblock ptr | A_destroy ptr | A_block | A_wait nat

text \<open>
  The calls a program may make: a new thread has a fresh address, only threads that exist are woken or destroyed, and a thread is woken neither by
  itself nor out of a timed wait.
\<close>

definition valid_action :: "ptr \<Rightarrow> pt_action \<Rightarrow> PseudoThreadState \<Rightarrow> bool" where
  "valid_action self a st =
     (case a of
        A_create t \<Rightarrow> t \<noteq> NULL \<and> t \<notin> pt_live st
      | A_unblock t \<Rightarrow> t \<in> pt_live st \<and> t \<noteq> self \<and> \<not> pt_timer st t
      | A_destroy t \<Rightarrow> t \<in> pt_live st
      | A_block \<Rightarrow> True
      | A_wait ms \<Rightarrow> True)"

text \<open>
  Perform the valid actions until one gives up the processor; the rest of the list is not performed. A failed assertion is \<open>None\<close>.
\<close>

fun run_segment :: "ptr \<Rightarrow> pt_action list \<Rightarrow> PseudoThreadState \<Rightarrow> (bool \<times> PseudoThreadState) option" where
  "run_segment self [] st = Some (False, st)"
| "run_segment self (a # as) st =
     (if \<not> valid_action self a st then run_segment self as st
      else case a of
        A_create t \<Rightarrow> run_segment self as (PT_create t st)
      | A_unblock t \<Rightarrow> run_segment self as (snd (PT_unblock t st))
      | A_destroy t \<Rightarrow> (case PT_destroy t st of (switched, st1) \<Rightarrow> if switched then Some (True, st1) else run_segment self as st1)
      | A_block \<Rightarrow> (case PT_block self st of (_, switched, st1) \<Rightarrow> if switched then Some (True, st1) else run_segment self as st1)
      | A_wait ms \<Rightarrow>
          (case PT_wait ms st of
             None \<Rightarrow> None
           | Some (switched, st1) \<Rightarrow> if switched then Some (True, st1) else run_segment self as st1))"

type_synonym scripts = "(ptr \<times> pt_action list list) list"

fun take_segment :: "ptr \<Rightarrow> scripts \<Rightarrow> pt_action list option \<times> scripts" where
  "take_segment p [] = (None, [])"
| "take_segment p ((q, segs) # ss) =
     (if q = p
      then case segs of [] \<Rightarrow> (None, (q, []) # ss) | seg # rest \<Rightarrow> (Some seg, (q, rest) # ss)
      else case take_segment p ss of (r, ss1) \<Rightarrow> (r, (q, segs) # ss1))"

text \<open>One turn of a thread, from the switch to it until the switch back; the function returns when the script is finished or a segment does not block.\<close>

definition run_thread :: "ptr \<Rightarrow> scripts \<Rightarrow> PseudoThreadState \<Rightarrow> (scripts \<times> PseudoThreadState) option" where
  "run_thread self ss st =
     (case take_segment self ss of
        (None, ss1) \<Rightarrow> Some (ss1, tmain_exit self st)
      | (Some seg, ss1) \<Rightarrow>
          (case run_segment self seg st of
             None \<Rightarrow> None
           | Some (switched, st1) \<Rightarrow> Some (ss1, if switched then st1 else tmain_exit self st1)))"

definition free_goner :: "PseudoThreadState \<Rightarrow> PseudoThreadState" where
  "free_goner st = (if pt_goner st \<noteq> NULL then st\<lparr>pt_live := pt_live st - {pt_goner st}, pt_goner := NULL\<rparr> else st)"

text \<open>The loop of \<open>PT_run_all\<close>; \<open>None\<close> is a failed assertion or a loop that does not end.\<close>

partial_function (option) PT_run_all :: "scripts \<Rightarrow> PseudoThreadState \<Rightarrow> (scripts \<times> PseudoThreadState) option" where
  "PT_run_all ss st =
     (case pt_ready st of
        [] \<Rightarrow> Some (ss, st)
      | next_thread # _ \<Rightarrow>
          (case run_thread next_thread ss (enqueue_thread next_thread Q_curr (dequeue_thread next_thread st)) of
             None \<Rightarrow> None
           | Some (ss1, st1) \<Rightarrow> if pt_curr st1 \<noteq> [] then None else PT_run_all ss1 (free_goner st1)))"

declare PT_run_all.simps [code]

end
