(* ===== verification/Pseudo_Correct.thy ===== *)
theory Pseudo_Correct
  imports Pseudo_Threads
begin

text \<open>
  Every thread is in exactly one queue at any time, and \<open>PT_run_all\<close> returns with no thread left ready, whatever the threads do within the calls
  allowed to them.
\<close>

definition all_threads :: "PseudoThreadState \<Rightarrow> ptr list" where
  "all_threads st = pt_curr st @ pt_ready st @ pt_blocked st"

definition pt_inv :: "PseudoThreadState \<Rightarrow> bool" where
  "pt_inv st \<longleftrightarrow> distinct (all_threads st) \<and> set (all_threads st) = pt_live st - {pt_goner st} \<and> NULL \<notin> pt_live st \<and> finite (pt_live st) \<and>
     (\<forall>t q. pt_head st t = Some q \<longleftrightarrow> t \<in> set (pt_queue_of q st)) \<and> (\<forall>t. pt_timer st t \<longrightarrow> t \<in> set (pt_blocked st))"

lemma pt_invD:
  assumes "pt_inv st"
  shows "distinct (pt_curr st)" "distinct (pt_ready st)" "distinct (pt_blocked st)" "NULL \<notin> pt_live st" "finite (pt_live st)"
    "set (pt_curr st) \<inter> set (pt_ready st) = {}" "set (pt_curr st) \<inter> set (pt_blocked st) = {}" "set (pt_ready st) \<inter> set (pt_blocked st) = {}"
    "set (pt_curr st) \<union> set (pt_ready st) \<union> set (pt_blocked st) = pt_live st - {pt_goner st}"
    "\<And>t q. pt_head st t = Some q \<longleftrightarrow> t \<in> set (pt_queue_of q st)" "\<And>t. pt_timer st t \<Longrightarrow> t \<in> set (pt_blocked st)"
  using assms by (auto simp: pt_inv_def all_threads_def)

text \<open>The queues without a thread, and the invariant while it is in none of them.\<close>

definition off :: "ptr \<Rightarrow> PseudoThreadState \<Rightarrow> bool" where
  "off t st \<longleftrightarrow> distinct (all_threads st) \<and> t \<notin> set (all_threads st) \<and> set (all_threads st) = pt_live st - {pt_goner st, t} \<and> NULL \<notin> pt_live st \<and>
     finite (pt_live st) \<and> (\<forall>s q. pt_head st s = Some q \<longleftrightarrow> s \<in> set (pt_queue_of q st)) \<and> (\<forall>s. s \<noteq> t \<longrightarrow> pt_timer st s \<longrightarrow> s \<in> set (pt_blocked st))"

lemma pt_queue_of_simps [simp]:
  "pt_queue_of Q_curr st = pt_curr st" "pt_queue_of Q_ready st = pt_ready st" "pt_queue_of Q_blocked st = pt_blocked st"
  by (simp_all add: pt_queue_of_def)

lemma dequeue_off:
  assumes inv: "pt_inv st" and t: "t \<in> pt_live st" "t \<noteq> pt_goner st"
  shows "off t (dequeue_thread t st)" "pt_live (dequeue_thread t st) = pt_live st" "pt_goner (dequeue_thread t st) = pt_goner st"
    "pt_timer (dequeue_thread t st) = pt_timer st" "pt_curr (dequeue_thread t st) = remove1 t (pt_curr st)"
    "pt_ready (dequeue_thread t st) = remove1 t (pt_ready st)" "pt_blocked (dequeue_thread t st) = remove1 t (pt_blocked st)"
    "pt_fd (dequeue_thread t st) = pt_fd st"
proof -
  note i = pt_invD [OF inv]
  have n: "t \<noteq> NULL" using i(4) t by auto
  obtain q where q: "t \<in> set (pt_queue_of q st)"
    using i(9) t by (metis (no_types, lifting) Diff_iff UnE empty_iff insert_iff pt_queue_of_simps)
  have d: "dequeue_thread t st = pt_set_queue q (remove1 t (pt_queue_of q st)) (st\<lparr>pt_head := (pt_head st)(t := None)\<rparr>)"
    using n q i(10) [THEN iffD2, OF q] by (simp add: dequeue_thread_def)
  have dis: "x \<noteq> q \<Longrightarrow> t \<notin> set (pt_queue_of x st)" for x using q i(6-8) by (cases x; cases q) auto
  show a: "pt_live (dequeue_thread t st) = pt_live st" "pt_goner (dequeue_thread t st) = pt_goner st"
    "pt_timer (dequeue_thread t st) = pt_timer st" "pt_fd (dequeue_thread t st) = pt_fd st" unfolding d by (cases q; simp add: pt_set_queue_def)+
  have qs: "pt_queue_of x (dequeue_thread t st) = remove1 t (pt_queue_of x st)" for x
    unfolding d using dis [of x] by (cases q; cases x) (auto simp: pt_set_queue_def remove1_idem)
  show b: "pt_curr (dequeue_thread t st) = remove1 t (pt_curr st)" "pt_ready (dequeue_thread t st) = remove1 t (pt_ready st)"
    "pt_blocked (dequeue_thread t st) = remove1 t (pt_blocked st)" using qs [of Q_curr] qs [of Q_ready] qs [of Q_blocked] by simp_all
  have h: "pt_head (dequeue_thread t st) = (pt_head st)(t := None)" unfolding d by (cases q) (simp_all add: pt_set_queue_def)
  have dq: "distinct (pt_queue_of x st)" for x using i(1-3) by (cases x) auto
  have "pt_head (dequeue_thread t st) s = Some x \<longleftrightarrow> s \<in> set (pt_queue_of x (dequeue_thread t st))" for s x
    unfolding h qs using dq [of x] i(10) [of s x] by auto
  moreover have "set (all_threads (dequeue_thread t st)) = pt_live st - {pt_goner st, t}"
    unfolding all_threads_def b using i(1-3,9) by auto
  ultimately show "off t (dequeue_thread t st)"
    unfolding off_def a using i(1-8,11) by (auto simp: all_threads_def b)
qed

lemma enqueue_inv:
  assumes o: "off t st" and t: "t \<in> pt_live st" "t \<noteq> pt_goner st" and tm: "pt_timer st t \<longrightarrow> q = Q_blocked"
  shows "pt_inv (enqueue_thread t q st)" "pt_live (enqueue_thread t q st) = pt_live st" "pt_goner (enqueue_thread t q st) = pt_goner st"
proof -
  have qs: "pt_queue_of x (enqueue_thread t q st) = (if x = q then t # pt_queue_of x st else pt_queue_of x st)" for x
    by (cases q; cases x) (simp_all add: enqueue_thread_def pt_set_queue_def)
  have e: "pt_curr (enqueue_thread t q st) = (if q = Q_curr then t # pt_curr st else pt_curr st)"
      "pt_ready (enqueue_thread t q st) = (if q = Q_ready then t # pt_ready st else pt_ready st)"
      "pt_blocked (enqueue_thread t q st) = (if q = Q_blocked then t # pt_blocked st else pt_blocked st)"
    using qs [of Q_curr] qs [of Q_ready] qs [of Q_blocked] by auto
  show a: "pt_live (enqueue_thread t q st) = pt_live st" "pt_goner (enqueue_thread t q st) = pt_goner st"
    by (cases q; simp add: enqueue_thread_def pt_set_queue_def)+
  have h: "pt_head (enqueue_thread t q st) = (pt_head st)(t := Some q)" "pt_timer (enqueue_thread t q st) = pt_timer st"
    by (cases q; simp add: enqueue_thread_def pt_set_queue_def)+
  have head: "pt_head st s = Some x \<longleftrightarrow> s \<in> set (pt_queue_of x st)" for s x using o by (simp add: off_def)
  have no: "t \<notin> set (pt_queue_of x st)" for x using o by (cases x) (auto simp: off_def all_threads_def)
  have al: "distinct (pt_curr st @ pt_ready st @ pt_blocked st)" "t \<notin> set (pt_curr st @ pt_ready st @ pt_blocked st)"
    using o by (simp_all add: off_def all_threads_def)
  have hd: "pt_head (enqueue_thread t q st) s = Some x \<longleftrightarrow> s \<in> set (pt_queue_of x (enqueue_thread t q st))" for s x
    unfolding h qs using no [of x] head [of s x] by auto
  have ms: "mset (all_threads (enqueue_thread t q st)) = add_mset t (mset (all_threads st))"
    unfolding all_threads_def e by (cases q) simp_all
  then have "distinct (all_threads (enqueue_thread t q st))" "set (all_threads (enqueue_thread t q st)) = insert t (set (all_threads st))"
    using al mset_eq_imp_distinct_iff [of "all_threads (enqueue_thread t q st)" "t # all_threads st"]
      mset_eq_setD [of "all_threads (enqueue_thread t q st)" "t # all_threads st"] by (simp_all add: all_threads_def)
  moreover have "pt_timer st s \<longrightarrow> s \<in> set (pt_blocked (enqueue_thread t q st))" for s using o tm by (auto simp: off_def e)
  ultimately show "pt_inv (enqueue_thread t q st)"
    unfolding pt_inv_def a h(2) using o t hd by (auto simp: off_def)
qed

lemma move_inv:
  assumes inv: "pt_inv st" and t: "t \<in> pt_live st" "t \<noteq> pt_goner st" and tm: "pt_timer st t \<longrightarrow> q = Q_blocked"
  shows "pt_inv (enqueue_thread t q (dequeue_thread t st))" "pt_live (enqueue_thread t q (dequeue_thread t st)) = pt_live st"
    "pt_goner (enqueue_thread t q (dequeue_thread t st)) = pt_goner st" "pt_timer (enqueue_thread t q (dequeue_thread t st)) = pt_timer st"
    "pt_curr (enqueue_thread t q (dequeue_thread t st)) = (if q = Q_curr then t # remove1 t (pt_curr st) else remove1 t (pt_curr st))"
proof -
  note d = dequeue_off [OF inv t]
  show "pt_inv (enqueue_thread t q (dequeue_thread t st))" "pt_live (enqueue_thread t q (dequeue_thread t st)) = pt_live st"
    "pt_goner (enqueue_thread t q (dequeue_thread t st)) = pt_goner st"
    using enqueue_inv [OF d(1), of q] d(2-4) t tm by simp_all
  show "pt_timer (enqueue_thread t q (dequeue_thread t st)) = pt_timer st"
    using d(4) by (cases q) (simp_all add: enqueue_thread_def pt_set_queue_def)
  show "pt_curr (enqueue_thread t q (dequeue_thread t st)) = (if q = Q_curr then t # remove1 t (pt_curr st) else remove1 t (pt_curr st))"
    using d(5) by (cases q) (simp_all add: enqueue_thread_def pt_set_queue_def)
qed

text \<open>What a thread does while it runs: the running thread stays the only current one, and every action that is no switch keeps that.\<close>

definition runs :: "ptr \<Rightarrow> PseudoThreadState \<Rightarrow> bool" where
  "runs self st \<longleftrightarrow> pt_inv st \<and> pt_curr st = [self] \<and> pt_goner st = NULL"

definition switched_out :: "PseudoThreadState \<Rightarrow> bool" where
  "switched_out st \<longleftrightarrow> pt_inv st \<and> pt_curr st = [] \<and> (pt_goner st = NULL \<or> pt_goner st \<in> pt_live st)"

lemma runsD:
  assumes "runs self st"
  shows "self \<in> pt_live st" "self \<noteq> NULL" "state_curr st = self" "\<not> pt_timer st self" "pt_inv st" "pt_goner st = NULL"
proof -
  have i: "pt_inv st" "pt_curr st = [self]" "pt_goner st = NULL" using assms by (auto simp: runs_def)
  note d = pt_invD [OF i(1)]
  show "self \<in> pt_live st" using d(9) i(2) by auto
  then show "self \<noteq> NULL" using d(4) by auto
  show "state_curr st = self" using i(2) by (simp add: state_curr_def)
  show "\<not> pt_timer st self" using d(7,11) i(2) by fastforce
  show "pt_inv st" "pt_goner st = NULL" using i by auto
qed

lemma create_runs:
  assumes r: "runs self st" and t: "t \<noteq> NULL" "t \<notin> pt_live st"
  shows "runs self (PT_create t st)" "pt_live (PT_create t st) = insert t (pt_live st)"
proof -
  let ?st = "st\<lparr>pt_live := insert t (pt_live st), pt_timer := (pt_timer st)(t := False)\<rparr>"
  note i = pt_invD [OF runsD(5) [OF r]] and g = runsD(6) [OF r]
  have "t \<notin> set (all_threads st)" using i(9) t(2) by (auto simp: all_threads_def)
  moreover have "set (all_threads st) = pt_live st - {NULL}" using i(9) g by (auto simp: all_threads_def)
  moreover have "pt_queue_of q ?st = pt_queue_of q st" for q by (cases q) simp_all
  ultimately have "off t ?st" using i g t runsD(5) [OF r] by (auto simp: off_def all_threads_def pt_inv_def)
  from enqueue_inv [OF this, of Q_ready] g t have "pt_inv (PT_create t st)" "pt_live (PT_create t st) = insert t (pt_live st)" "pt_goner (PT_create t st) = NULL"
    by (simp_all add: PT_create_def)
  moreover have "pt_curr (PT_create t st) = pt_curr st" by (simp add: PT_create_def enqueue_thread_def pt_set_queue_def)
  ultimately show "runs self (PT_create t st)" "pt_live (PT_create t st) = insert t (pt_live st)" using r by (auto simp: runs_def)
qed

lemma unblock_runs:
  assumes r: "runs self st" and t: "t \<in> pt_live st" "t \<noteq> self" "\<not> pt_timer st t"
  shows "runs self (snd (PT_unblock t st))" "pt_live (snd (PT_unblock t st)) = pt_live st"
proof -
  have n: "t \<noteq> NULL" "pt_goner st = NULL" using t(1) pt_invD(4) [OF runsD(5) [OF r]] runsD(6) [OF r] by auto
  note m = move_inv [OF runsD(5) [OF r] t(1), of Q_ready]
  show "runs self (snd (PT_unblock t st))" "pt_live (snd (PT_unblock t st)) = pt_live st"
    using m n t r by (auto simp: PT_unblock_def runs_def)
qed

lemma clear_timer_inv:
  assumes "pt_inv st" shows "pt_inv (st\<lparr>pt_timer := (pt_timer st)(t := False)\<rparr>)"
proof -
  have "pt_queue_of q (st\<lparr>pt_timer := (pt_timer st)(t := False)\<rparr>) = pt_queue_of q st" for q by (cases q) simp_all
  then show ?thesis using assms by (auto simp: pt_inv_def all_threads_def)
qed

lemma gone_inv:
  assumes o: "off t st" and g: "pt_goner st = NULL" "\<not> pt_timer st t"
  shows "pt_inv (st\<lparr>pt_goner := t\<rparr>)" "pt_inv (st\<lparr>pt_live := pt_live st - {t}\<rparr>)"
proof -
  have q: "pt_queue_of q (st\<lparr>pt_goner := t\<rparr>) = pt_queue_of q st" "pt_queue_of q (st\<lparr>pt_live := pt_live st - {t}\<rparr>) = pt_queue_of q st" for q
    by (cases q; simp)+
  show "pt_inv (st\<lparr>pt_goner := t\<rparr>)" "pt_inv (st\<lparr>pt_live := pt_live st - {t}\<rparr>)"
    using o g unfolding pt_inv_def off_def all_threads_def by (auto simp: q)
qed

lemma destroy_runs:
  assumes r: "runs self st" and t: "t \<in> pt_live st"
  shows "t \<noteq> self \<Longrightarrow> \<exists>st1. PT_destroy t st = (False, st1) \<and> runs self st1 \<and> pt_live st1 \<subseteq> pt_live st"
    and "t = self \<Longrightarrow> \<exists>st1. PT_destroy t st = (True, st1) \<and> switched_out st1 \<and> pt_live st1 = pt_live st"
proof -
  let ?st = "st\<lparr>pt_timer := (pt_timer st)(t := False)\<rparr>"
  have i: "pt_inv ?st" by (rule clear_timer_inv [OF runsD(5) [OF r]])
  have n: "t \<noteq> NULL" "pt_goner st = NULL" "pt_curr st = [self]" using t pt_invD(4) [OF runsD(5) [OF r]] r by (auto simp: runs_def)
  have tl: "t \<in> pt_live ?st" "t \<noteq> pt_goner ?st" using t n by auto
  note d = dequeue_off [OF i tl] and c = runsD(3) [OF r]
  have sc: "state_curr ?st = self" using c by (simp add: state_curr_def)
  have g: "pt_goner (dequeue_thread t ?st) = NULL" "\<not> pt_timer (dequeue_thread t ?st) t" using d(3,4) n by auto
  note gi = gone_inv [OF d(1) g]
  show "\<exists>st1. PT_destroy t st = (False, st1) \<and> runs self st1 \<and> pt_live st1 \<subseteq> pt_live st" if "t \<noteq> self"
    using that gi(2) d(2,5) g(1) n t sc by (auto simp: PT_destroy_def runs_def Let_def)
  show "\<exists>st1. PT_destroy t st = (True, st1) \<and> switched_out st1 \<and> pt_live st1 = pt_live st" if "t = self"
    using that gi(1) d(2,5) n t sc by (auto simp: PT_destroy_def switched_out_def Let_def)
qed

lemma leave_curr:
  assumes r: "runs self st" and st': "pt_inv st'" "pt_curr st' = pt_curr st" "pt_goner st' = NULL" "pt_live st' = pt_live st"
  shows "switched_out (enqueue_thread self Q_blocked (dequeue_thread self st'))"
    "pt_live (enqueue_thread self Q_blocked (dequeue_thread self st')) = pt_live st"
proof -
  have s: "self \<in> pt_live st'" "self \<noteq> pt_goner st'" "pt_curr st' = [self]" using runsD(1,2) [OF r] r st' by (auto simp: runs_def)
  note m = move_inv [OF st'(1) s(1,2), of Q_blocked]
  show "switched_out (enqueue_thread self Q_blocked (dequeue_thread self st'))"
    "pt_live (enqueue_thread self Q_blocked (dequeue_thread self st')) = pt_live st"
    using m s st' by (auto simp: switched_out_def)
qed

lemma block_out:
  assumes "runs self st"
  shows "\<exists>st1. PT_block self st = (0, True, st1) \<and> switched_out st1 \<and> pt_live st1 = pt_live st"
  using leave_curr [OF assms runsD(5) [OF assms] refl runsD(6) [OF assms] refl] runsD(3) [OF assms] by (simp add: PT_block_def)

lemma wait_out:
  assumes r: "runs self st" and ms: "0 < ms"
  shows "\<exists>st1. PT_wait ms st = Some (True, st1) \<and> switched_out st1 \<and> pt_live st1 = pt_live st"
proof -
  let ?st = "st\<lparr>pt_timer := (pt_timer st)(self := True)\<rparr>"
  let ?d = "dequeue_thread self st"
  have s: "self \<noteq> pt_goner st" using runsD(2,6) [OF r] by simp
  note d = dequeue_off [OF runsD(5) [OF r] runsD(1) [OF r] s]
  have dq: "dequeue_thread self ?st = ?d\<lparr>pt_timer := (pt_timer st)(self := True)\<rparr>"
  proof (cases "pt_head st self")
    case (Some q)
    then show ?thesis by (cases q) (simp_all add: dequeue_thread_def pt_set_queue_def)
  qed (simp add: dequeue_thread_def)
  have "pt_queue_of q (dequeue_thread self ?st) = pt_queue_of q ?d" for q unfolding dq by (cases q) simp_all
  then have "off self (dequeue_thread self ?st)" using d(1,4) unfolding dq by (auto simp: off_def all_threads_def)
  moreover have "pt_live (dequeue_thread self ?st) = pt_live st" "pt_goner (dequeue_thread self ?st) = NULL" "pt_curr (dequeue_thread self ?st) = []"
    unfolding dq using d(2,3,5) r by (simp_all add: runs_def)
  ultimately have "switched_out (enqueue_thread self Q_blocked (dequeue_thread self ?st))"
      "pt_live (enqueue_thread self Q_blocked (dequeue_thread self ?st)) = pt_live st"
    using enqueue_inv [of self "dequeue_thread self ?st" Q_blocked] runsD(1,2) [OF r]
    by (simp_all add: switched_out_def) (simp add: enqueue_thread_def pt_set_queue_def)
  then show ?thesis using ms runsD(2-4) [OF r] by (simp add: PT_wait_def Let_def)
qed

lemma exit_out:
  assumes r: "runs self st"
  shows "switched_out (tmain_exit self st)" "pt_live (tmain_exit self st) = pt_live st" "pt_goner (tmain_exit self st) = self"
proof -
  have s: "self \<noteq> pt_goner st" using runsD(2,6) [OF r] by simp
  note d = dequeue_off [OF runsD(5) [OF r] runsD(1) [OF r] s]
  have "(pt_timer st)(self := False) = pt_timer (dequeue_thread self st)" using runsD(4) [OF r] d(4) by (simp add: fun_upd_idem_iff)
  then have e: "tmain_exit self st = (dequeue_thread self st)\<lparr>pt_goner := self\<rparr>"
    by (simp add: tmain_exit_def)
  have "pt_goner (dequeue_thread self st) = NULL" "\<not> pt_timer (dequeue_thread self st) self" using d(3,4) runsD(4,6) [OF r] by simp_all
  note g = gone_inv(1) [OF d(1) this]
  show "switched_out (tmain_exit self st)" "pt_live (tmain_exit self st) = pt_live st" "pt_goner (tmain_exit self st) = self"
    unfolding e using g d(2,5) r runsD(1) [OF r] by (simp_all add: switched_out_def runs_def)
qed

lemma run_segment_ok:
  assumes "runs self st"
  shows "\<exists>sw st1. run_segment self seg st = Some (sw, st1) \<and> (if sw then switched_out st1 else runs self st1) \<and>
    card (pt_live st1) \<le> card (pt_live st) + length seg"
  using assms
proof (induction seg arbitrary: st)
  case Nil
  then show ?case by (auto intro: exI [of _ False])
next
  case (Cons a as)
  note r = Cons.prems and fin = pt_invD(5) [OF runsD(5) [OF Cons.prems]]
  have mono: ?case if "run_segment self (a # as) st = run_segment self as st1" "runs self st1" "card (pt_live st1) \<le> card (pt_live st) + 1" for st1
    using Cons.IH [OF that(2)] that(1,3) by fastforce
  show ?case
  proof (cases "valid_action self a st")
    case False
    then show ?thesis using mono [of st] r by simp
  next
    case v: True
    show ?thesis
    proof (cases a)
      case (A_create t)
      then have t: "t \<noteq> NULL" "t \<notin> pt_live st" using v by (auto simp: valid_action_def)
      show ?thesis using mono [of "PT_create t st"] create_runs [OF r t] A_create v t(2) fin by simp
    next
      case (A_unblock t)
      then have t: "t \<in> pt_live st" "t \<noteq> self" "\<not> pt_timer st t" using v by (auto simp: valid_action_def)
      show ?thesis using mono [of "snd (PT_unblock t st)"] unblock_runs [OF r t] A_unblock v by simp
    next
      case (A_destroy t)
      then have t: "t \<in> pt_live st" using v by (auto simp: valid_action_def)
      show ?thesis
      proof (cases "t = self")
        case True
        then show ?thesis using destroy_runs(2) [OF r t] A_destroy v by fastforce
      next
        case False
        then obtain st1 where st1: "PT_destroy t st = (False, st1)" "runs self st1" "pt_live st1 \<subseteq> pt_live st"
          using destroy_runs(1) [OF r t] by blast
        then have "card (pt_live st1) \<le> card (pt_live st)" using fin by (simp add: card_mono)
        then show ?thesis using mono [of st1] st1 A_destroy v by simp
      qed
    next
      case A_block
      then show ?thesis using block_out [OF r] v by fastforce
    next
      case (A_wait ms)
      show ?thesis
      proof (cases "ms = 0")
        case True
        then show ?thesis using mono [of st] r A_wait v by (simp add: PT_wait_def)
      next
        case False
        then show ?thesis using wait_out [OF r, of ms] A_wait v by fastforce
      qed
    qed
  qed
qed

definition script_size :: "scripts \<Rightarrow> nat" where
  "script_size ss = sum_list (map (\<lambda>(p, segs). sum_list (map (\<lambda>seg. 1 + length seg) segs)) ss)"

lemma take_segment_size:
  "take_segment p ss = (r, ss1) \<Longrightarrow> script_size ss = script_size ss1 + (case r of None \<Rightarrow> 0 | Some seg \<Rightarrow> 1 + length seg)"
  by (induction p ss arbitrary: r ss1 rule: take_segment.induct) (auto simp: script_size_def split: if_splits list.splits prod.splits)

lemma free_goner_ok:
  assumes "switched_out st"
  shows "pt_inv (free_goner st)" "pt_curr (free_goner st) = []" "pt_goner (free_goner st) = NULL" "card (pt_live (free_goner st)) \<le> card (pt_live st)"
    "pt_goner st \<noteq> NULL \<Longrightarrow> card (pt_live (free_goner st)) < card (pt_live st)"
proof -
  have i: "pt_inv st" "pt_curr st = []" "pt_goner st = NULL \<or> pt_goner st \<in> pt_live st" using assms by (auto simp: switched_out_def)
  have q: "pt_queue_of q (free_goner st) = pt_queue_of q st" for q by (cases q) (simp_all add: free_goner_def)
  have l: "pt_live (free_goner st) = pt_live st - {pt_goner st}" using pt_invD(4) [OF i(1)] by (auto simp: free_goner_def)
  show "pt_curr (free_goner st) = []" "pt_goner (free_goner st) = NULL" using i(2) by (auto simp: free_goner_def)
  show "card (pt_live (free_goner st)) \<le> card (pt_live st)" unfolding l using pt_invD(5) [OF i(1)] by (simp add: card_mono)
  show "card (pt_live (free_goner st)) < card (pt_live st)" if "pt_goner st \<noteq> NULL"
    unfolding l using that i(3) pt_invD(5) [OF i(1)] by (metis card_Diff1_less)
  have "all_threads (free_goner st) = all_threads st" using q [of Q_curr] q [of Q_ready] q [of Q_blocked] by (simp add: all_threads_def)
  moreover have "pt_head (free_goner st) = pt_head st" "pt_timer (free_goner st) = pt_timer st" "pt_blocked (free_goner st) = pt_blocked st"
    by (simp_all add: free_goner_def)
  ultimately show "pt_inv (free_goner st)"
    using i(1) pt_invD(4) [OF i(1)] l \<open>pt_goner (free_goner st) = NULL\<close> by (auto simp: pt_inv_def q)
qed

lemma run_thread_ok:
  assumes r: "runs self st"
  shows "\<exists>ss1 st1. run_thread self ss st = Some (ss1, st1) \<and> switched_out st1 \<and>
    script_size ss1 + card (pt_live (free_goner st1)) < script_size ss + card (pt_live st)"
proof -
  obtain sg ss1 where t: "take_segment self ss = (sg, ss1)" by fastforce
  show ?thesis
  proof (cases sg)
    case None
    have "pt_goner (tmain_exit self st) \<noteq> NULL" using exit_out(3) [OF r] runsD(2) [OF r] by simp
    then show ?thesis
      using None t take_segment_size [OF t] exit_out [OF r] free_goner_ok(5) [OF exit_out(1) [OF r]] by (simp add: run_thread_def)
  next
    case (Some seg)
    obtain sw st1 where s: "run_segment self seg st = Some (sw, st1)" "if sw then switched_out st1 else runs self st1"
        "card (pt_live st1) \<le> card (pt_live st) + length seg"
      using run_segment_ok [OF r, of seg] by blast
    let ?st = "if sw then st1 else tmain_exit self st1"
    have "switched_out ?st" "pt_live ?st = pt_live st1" using s(2) exit_out [of self st1] by (auto split: if_splits)
    then show ?thesis
      using Some t s free_goner_ok(4) [of ?st] take_segment_size [OF t] by (auto simp: run_thread_def)
  qed
qed



section \<open>Events that outlive a wait\<close>

text \<open>
  After a first wake-up whose read would have blocked, the timer is gone; the second wake-up by the descriptor is then reported as a
  time-out, whatever the read would have returned.
\<close>

lemma rw_false_timeout:
  assumes "0 < timeout"
  shows "fst (pt_rw_resume fd timeout res2 self (snd (fd_evt_cb fd (snd (pt_rw_resume fd timeout None self st))))) = RwDone (-2)"
proof -
  have e: "pt_timer (enqueue_thread t q s) = pt_timer s" for t q s by (cases q) (simp_all add: enqueue_thread_def pt_set_queue_def)
  have "pt_timer (pt_set_queue q xs s) = pt_timer s" for q xs s by (cases q) (simp_all add: pt_set_queue_def)
  then have d: "pt_timer (dequeue_thread t s) = pt_timer s" for t s by (simp add: dequeue_thread_def split: option.splits)
  have "\<not> pt_timer (snd (pt_rw_resume fd timeout None self st)) self"
    using assms by (simp add: pt_rw_resume_def pt_rw_wait_def e d Let_def)
  then have "\<not> pt_timer (snd (fd_evt_cb fd (snd (pt_rw_resume fd timeout None self st)))) self"
    by (simp add: fd_evt_cb_def e d Let_def)
  then show ?thesis using assms by (simp add: pt_rw_resume_def)
qed

text \<open>A thread that is woken out of \<open>PT_wait\<close> by \<open>PT_unblock\<close> keeps its timer, and its next wait fails an assertion.\<close>

lemma wait_after_unblock_asserts:
  assumes "pt_timer st t" "state_curr st = t" "t \<noteq> NULL" "0 < ms"
  shows "PT_wait ms st = None"
  using assms by (simp add: PT_wait_def)

text \<open>Destroying a thread that waits for a descriptor leaves the event behind, with the address of the thread that is freed.\<close>

lemma destroy_leaves_fd_event:
  assumes "t \<in> pt_live st" "t \<noteq> NULL" "t \<noteq> state_curr st" "pt_fd st fd = t"
  shows "pt_fd (snd (PT_destroy t st)) fd = t \<and> t \<notin> pt_live (snd (PT_destroy t st))"
proof -
  have "pt_fd (pt_set_queue q xs s) = pt_fd s" for q xs s by (cases q) (simp_all add: pt_set_queue_def)
  then have "pt_fd (dequeue_thread t s) = pt_fd s" for s by (simp add: dequeue_thread_def split: option.splits)
  moreover have "state_curr (st\<lparr>pt_timer := f\<rparr>) = state_curr st" for f by (simp add: state_curr_def)
  ultimately show ?thesis using assms by (simp add: PT_destroy_def Let_def)
qed

end
