(* ===== verification/Config.thy ===== *)
theory Config
  imports Event_State C_Text
begin

text \<open>
  Configuration files (\<open>config.c\<close>): reading lines, options and nested objects, and objects whose parsing is put off by keeping
  their text.

  \<^item> What is built while parsing lives in a heap of type \<open>'h\<close> that the parser does not look into; a callback gets the pointer to the current object and
    returns a pointer. \<open>VBuf i\<close> is the \<open>i\<close>-th buffered object, kept in \<open>cf_bufs\<close>.
  \<^item> A line buffer holds the characters before the terminator. \<open>cf_accum\<close> is the accumulated text, in a block of \<open>cf_len\<close> bytes.
  \<^item> The result \<open>None\<close> stands for a write outside a block and for fuel that does not suffice.
\<close>

definition NL :: char where "NL = CHR 0x0A"
definition CR :: char where "CR = CHR 0x0D"

datatype cfg_value = VStr string | VNull | VPtr ptr | VBuf nat

type_synonym 'h CFG_parseCB = "string \<Rightarrow> cfg_value \<Rightarrow> ptr \<Rightarrow> 'h \<Rightarrow> ptr \<times> 'h"

datatype 'h CFG_ParseObj = CFG_ParseObj
    (po_subtype: string) (po_initCb: "'h CFG_parseCB option") (po_finiCb: "'h CFG_parseCB option") (po_keys: "'h CFG_ParseValue list")
  and 'h CFG_ParseValue = CFG_ParseValue
    (pv_name: string) (pv_lookup: "(string \<Rightarrow> bool \<Rightarrow> 'h CFG_ParseObj option \<times> bool) option") (pv_cb: "'h CFG_parseCB option")

record CFG_buffered_obj =
  bo_parsed :: ptr
  bo_buff :: "string option"

record CFG_Context =
  cf_file :: string
  cf_lineNum :: nat
  cf_accum :: "string option"
  cf_len :: nat
  cf_replay :: "string option"
  cf_stop :: bool
  cf_allow :: bool
  cf_buff :: string
  cf_bufs :: "CFG_buffered_obj list"

section \<open>Lines\<close>

definition fgets :: "nat \<Rightarrow> string \<Rightarrow> (string \<times> string) option" where
  "fgets n s =
     (let pre = takeWhile (\<lambda>c. c \<noteq> NL) s
      in if s = [] then None
         else if length pre < n - 1 then Some (take (length pre + 1) s, drop (length pre + 1) s)
         else Some (take (n - 1) s, drop (n - 1) s))"

lemma fgets_shorter:
  assumes "fgets n s = Some (l, r)" "2 \<le> n"
  shows "length r < length s"
proof -
  have "0 < length s" "\<exists>k. 0 < k \<and> r = drop k s"
    using assms by (auto simp: fgets_def Let_def split: if_splits intro: exI [of _ "n - Suc 0"])
  then show ?thesis by auto
qed

definition strip_eol :: "string \<Rightarrow> string" where
  "strip_eol s = rev (dropWhile (\<lambda>c. c = NL \<or> c = CR) (rev s))"

definition isblank :: "char \<Rightarrow> bool" where
  "isblank c = (c = CHR '' '' \<or> c = CHR 0x09)"

definition BUFF_SIZE :: nat where "BUFF_SIZE = 4096"

function read_line :: "bool \<Rightarrow> CFG_Context \<Rightarrow> bool \<times> CFG_Context" where
  "read_line skipFlag ctx =
     (case fgets BUFF_SIZE (cf_file ctx) of
        None \<Rightarrow> (False, ctx)
      | Some (line, rest) \<Rightarrow>
          let b = takeWhile (\<lambda>c. c \<noteq> CHR 0x00) line;
              ctx1 = ctx\<lparr>cf_file := rest, cf_buff := b, cf_lineNum := cf_lineNum ctx + 1\<rparr>
          in if b = [] then read_line skipFlag ctx1
             else if last b \<noteq> NL \<or> skipFlag then read_line (\<not> skipFlag) ctx1
             else
               let b1 = dropWhile isblank (strip_eol b); ctx2 = ctx1\<lparr>cf_buff := b1\<rparr>
               in if b1 = [] \<or> hd b1 = CHR ''#'' \<or> hd b1 = CHR '';'' then read_line False ctx2 else (True, ctx2))"
  by pat_completeness auto
termination
  by (relation "measure (\<lambda>(k, ctx). length (cf_file ctx))") (auto dest!: fgets_shorter simp: BUFF_SIZE_def)

declare read_line.simps [simp del]

definition NextLine :: "CFG_Context \<Rightarrow> bool \<times> CFG_Context" where
  "NextLine ctx =
     (case cf_replay ctx of
        Some r \<Rightarrow>
          let pre = takeWhile (\<lambda>c. c \<noteq> NL) r; sep = (if NL \<in> set r then Some (drop (length pre + 1) r) else None)
          in (True, ctx\<lparr>cf_buff := take (BUFF_SIZE - 1) pre, cf_replay := sep, cf_stop := (if sep = None then True else cf_stop ctx),
                        cf_lineNum := cf_lineNum ctx + 1\<rparr>)
      | None \<Rightarrow> if cf_stop ctx then (True, ctx) else read_line False ctx)"

definition find_key :: "string \<Rightarrow> 'h CFG_ParseValue list \<Rightarrow> 'h CFG_ParseValue option" where
  "find_key name keys = find (\<lambda>v. strcaseeq (pv_name v) name) keys"

text \<open>The line is cut at the equals sign, in the buffer.\<close>

definition key_part :: "string \<Rightarrow> string" where
  "key_part line = takeWhile (\<lambda>c. c \<noteq> CHR ''='') line"

text \<open>The line has no key at all when the keys are \<open>NULL\<close>, the empty list here.\<close>

definition processKeyValueLine :: "string \<Rightarrow> 'h CFG_ParseValue list \<Rightarrow> ptr \<Rightarrow> 'h \<Rightarrow> ptr \<times> 'h" where
  "processKeyValueLine line keys data h =
     (let key = key_part line;
          value = (if CHR ''='' \<in> set line then VStr (drop (length key + 1) line) else VNull)
      in case find_key key keys of
           None \<Rightarrow> (data, h)
         | Some v \<Rightarrow>
             if pv_lookup v \<noteq> None then (data, h)
             else (case pv_cb v of None \<Rightarrow> (data, h) | Some cb \<Rightarrow> cb key value data h))"

definition accumulate_line :: "string \<Rightarrow> CFG_Context \<Rightarrow> CFG_Context option" where
  "accumulate_line line ctx =
     (let (acc, len) = (case cf_accum ctx of None \<Rightarrow> ([], 1024) | Some a \<Rightarrow> if cf_len ctx = 0 then ([], 1024) else (a, cf_len ctx));
          len1 = (if length line \<ge> size_sub (size_sub len (length acc)) 3 then 2 * len else len)
      in if length acc + length line + 2 \<le> len1 then Some (ctx\<lparr>cf_accum := Some (acc @ line @ [NL]), cf_len := len1\<rparr>) else None)"

section \<open>Objects\<close>

definition parse_header :: "string \<Rightarrow> (string \<times> string option) option" where
  "parse_header line =
     (let obj = tl line
      in if obj = [] \<or> last obj \<noteq> CHR ''>'' then None
         else
           let body = butlast obj; name = takeWhile (\<lambda>c. c \<noteq> CHR '' '') body
           in Some (name, if CHR '' '' \<in> set body then Some (drop (length name + 1) body) else None))"

definition run_cb :: "'h CFG_parseCB option \<Rightarrow> string \<Rightarrow> cfg_value \<Rightarrow> ptr \<Rightarrow> 'h \<Rightarrow> ptr \<times> 'h" where
  "run_cb cb key value data h = (case cb of None \<Rightarrow> (data, h) | Some f \<Rightarrow> f key value data h)"

text \<open>The callback of the first key with the name; the pointer it returns is not used.\<close>

definition type_cb :: "string \<Rightarrow> string \<Rightarrow> 'h CFG_ParseObj option \<Rightarrow> ptr \<Rightarrow> 'h \<Rightarrow> 'h" where
  "type_cb key params obj data h =
     (case obj of
        None \<Rightarrow> h
      | Some po \<Rightarrow> (case find_key key (po_keys po) of None \<Rightarrow> h | Some v \<Rightarrow> snd (run_cb (pv_cb v) key (VStr params) data h)))"

definition child_keys :: "'h CFG_ParseObj option \<Rightarrow> 'h CFG_ParseValue list" where
  "child_keys child = (case child of None \<Rightarrow> [] | Some po \<Rightarrow> po_keys po)"

text \<open>The lines of an object up to its end; \<open>parse\<close> is the function that parses an object inside it.\<close>

primrec object_lines ::
  "nat \<Rightarrow> ('h CFG_ParseObj option \<Rightarrow> ptr \<Rightarrow> CFG_Context \<Rightarrow> 'h \<Rightarrow> (ptr \<times> CFG_Context \<times> 'h) option) \<Rightarrow> string \<Rightarrow> 'h CFG_ParseObj option \<Rightarrow> ptr \<Rightarrow>
   CFG_Context \<Rightarrow> 'h \<Rightarrow> (ptr \<times> CFG_Context \<times> 'h) option" where
  "object_lines 0 parse objLcl child data ctx h = None"
| "object_lines (Suc n) parse objLcl child data ctx h =
     (case NextLine ctx of
        (False, ctx1) \<Rightarrow> Some (data, ctx1, h)
      | (True, ctx1) \<Rightarrow>
          let obj = cf_buff ctx1
          in if take 2 obj = ''</''
             then (case (if cf_accum ctx1 \<noteq> None then accumulate_line obj ctx1 else Some ctx1) of
                     None \<Rightarrow> None
                   | Some ctx2 \<Rightarrow>
                       let ctx3 = ctx2\<lparr>cf_buff := butlast obj\<rparr>
                       in if length (butlast obj) < 3 \<or> \<not> strcaseeq (drop 2 (butlast obj)) objLcl
                          then object_lines n parse objLcl child data ctx3 h
                          else Some (data, ctx3, h))
             else if take 1 obj = ''<''
             then (case parse child data (ctx1\<lparr>cf_allow := True\<rparr>) h of
                     None \<Rightarrow> None
                   | Some (data1, ctx2, h1) \<Rightarrow> object_lines n parse objLcl child data1 (ctx2\<lparr>cf_allow := cf_allow ctx1\<rparr>) h1)
             else if cf_accum ctx1 = None
             then (case processKeyValueLine obj (child_keys child) data h of
                     (data1, h1) \<Rightarrow> object_lines n parse objLcl child data1 (ctx1\<lparr>cf_buff := key_part obj\<rparr>) h1)
             else (case accumulate_line obj ctx1 of None \<Rightarrow> None | Some ctx2 \<Rightarrow> object_lines n parse objLcl child data ctx2 h))"

text \<open>The key of an object in its parent and the description of it, and whether it is to be buffered.\<close>

definition lookup_object ::
  "CFG_Context \<Rightarrow> 'h CFG_ParseObj option \<Rightarrow> string \<Rightarrow> string \<Rightarrow> 'h CFG_ParseValue option \<times> 'h CFG_ParseObj option \<times> bool" where
  "lookup_object ctx parObj obj params =
     (case parObj of
        None \<Rightarrow> (None, None, False)
      | Some po \<Rightarrow>
          if cf_accum ctx \<noteq> None then (None, None, False)
          else case find_key obj (po_keys po) of
                 None \<Rightarrow> (None, None, False)
               | Some v \<Rightarrow>
                   (case pv_lookup v of
                      None \<Rightarrow> (None, None, False)
                    | Some lookup_cb \<Rightarrow> (case lookup_cb params (cf_allow ctx) of (child, buffer_obj) \<Rightarrow> (Some v, child, buffer_obj))))"

text \<open>What is handed to the callback of the key: the object, or the buffered object with its text or its result.\<close>

definition finish_buffer :: "bool \<Rightarrow> 'h CFG_ParseObj option \<Rightarrow> ptr \<Rightarrow> CFG_Context \<Rightarrow> cfg_value \<times> CFG_Context" where
  "finish_buffer buffered child data ctx =
     (if \<not> buffered then (VPtr data, ctx)
      else if child \<noteq> None then (VBuf (length (cf_bufs ctx)), ctx\<lparr>cf_bufs := cf_bufs ctx @ [\<lparr>bo_parsed = data, bo_buff = None\<rparr>]\<rparr>)
      else (VBuf (length (cf_bufs ctx)),
            ctx\<lparr>cf_bufs := cf_bufs ctx @ [\<lparr>bo_parsed = NULL, bo_buff = cf_accum ctx\<rparr>], cf_accum := None, cf_len := 0\<rparr>))"

primrec ParseObject ::
  "nat \<Rightarrow> 'h CFG_ParseObj option \<Rightarrow> ptr \<Rightarrow> CFG_Context \<Rightarrow> 'h \<Rightarrow> (ptr \<times> CFG_Context \<times> 'h) option" where
  "ParseObject 0 parObj parData ctx h = None"
| "ParseObject (Suc n) parObj parData ctx h =
     (case parse_header (cf_buff ctx) of
        None \<Rightarrow> Some (NULL, ctx, h)
      | Some (obj, params) \<Rightarrow>
          let paramsLcl = (case params of None \<Rightarrow> [] | Some p \<Rightarrow> p);
              (curr_key, child, buffered) = lookup_object ctx parObj obj paramsLcl;
              subobj_type = (if curr_key \<noteq> None then take 255 (''__type_'' @ obj) else [])
          in case (if cf_accum ctx \<noteq> None \<or> child = None \<and> buffered then accumulate_line (cf_buff ctx) ctx else Some ctx) of
               None \<Rightarrow> None
             | Some ctx1 \<Rightarrow>
                 let ctx2 = ctx1\<lparr>cf_buff := CHR ''<'' # obj\<rparr>;
                     (data, h1) = run_cb (case child of None \<Rightarrow> None | Some po \<Rightarrow> po_initCb po) obj (VStr paramsLcl) NULL h;
                     h2 = type_cb subobj_type paramsLcl parObj parData h1;
                     h3 = type_cb ''__type'' paramsLcl child data h2
                 in case object_lines n (ParseObject n) obj child data ctx2 h3 of
                      None \<Rightarrow> None
                    | Some (data1, ctx3, h4) \<Rightarrow>
                        let (data2, h5) = run_cb (case child of None \<Rightarrow> None | Some po \<Rightarrow> po_finiCb po) obj (VStr paramsLcl) data1 h4;
                            (value, ctx4) = finish_buffer buffered child data2 ctx3
                        in (case curr_key of
                              None \<Rightarrow> Some (parData, ctx4, h5)
                            | Some v \<Rightarrow>
                                (case pv_cb v of
                                   None \<Rightarrow> Some (parData, ctx4, h5)
                                 | Some cb \<Rightarrow> (case cb (pv_name v) value parData h5 of (data3, h6) \<Rightarrow> Some (data3, ctx4, h6)))))"

section \<open>Files\<close>

primrec file_lines :: "nat \<Rightarrow> 'h CFG_ParseObj \<Rightarrow> ptr \<Rightarrow> CFG_Context \<Rightarrow> 'h \<Rightarrow> (ptr \<times> CFG_Context \<times> 'h) option" where
  "file_lines 0 rootObj data ctx h = None"
| "file_lines (Suc n) rootObj data ctx h =
     (case NextLine ctx of
        (False, ctx1) \<Rightarrow> Some (data, ctx1, h)
      | (True, ctx1) \<Rightarrow>
          if take 1 (cf_buff ctx1) = ''<''
          then (case ParseObject n (Some rootObj) data ctx1 h of None \<Rightarrow> None | Some (data1, ctx2, h1) \<Rightarrow> file_lines n rootObj data1 ctx2 h1)
          else (case processKeyValueLine (cf_buff ctx1) (po_keys rootObj) data h of
                  (data1, h1) \<Rightarrow> file_lines n rootObj data1 (ctx1\<lparr>cf_buff := key_part (cf_buff ctx1)\<rparr>) h1))"

definition start_context :: "string \<Rightarrow> CFG_Context" where
  "start_context text = \<lparr>cf_file = text, cf_lineNum = 0, cf_accum = None, cf_len = 0, cf_replay = None, cf_stop = False, cf_allow = True,
     cf_buff = [], cf_bufs = []\<rparr>"

text \<open>\<open>text\<close> is the content of the file, \<open>None\<close> if it cannot be opened.\<close>

definition CFG_parseFileAtPath :: "nat \<Rightarrow> 'h CFG_ParseObj option \<Rightarrow> string option \<Rightarrow> 'h \<Rightarrow> (ptr \<times> CFG_buffered_obj list \<times> 'h) option" where
  "CFG_parseFileAtPath fuel rootObj text h =
     (case text of
        None \<Rightarrow> Some (NULL, [], h)
      | Some txt \<Rightarrow>
          (case rootObj of
             None \<Rightarrow> Some (NULL, [], h)
           | Some root \<Rightarrow>
               (case (case po_initCb root of
                        None \<Rightarrow> Some (NULL, start_context txt, h)
                      | Some cb \<Rightarrow> (case cb [] (VStr []) NULL h of (data, h1) \<Rightarrow> file_lines fuel root data (start_context txt) h1)) of
                  None \<Rightarrow> None
                | Some (data, ctx, h1) \<Rightarrow> (case run_cb (po_finiCb root) [] (VStr []) data h1 of (data1, h2) \<Rightarrow> Some (data1, cf_bufs ctx, h2)))))"

text \<open>
  A buffered object is parsed when it is first asked for, with the key \<open>val\<close> it was found by and a callback that stores the result.
  \<open>store\<close> is \<open>CFG_PtrCpyCB\<close> on the field \<open>parsed_cfg\<close>, whose address is \<open>slot\<close> and whose content in the heap is \<open>parsed_of\<close>.
\<close>

definition CFG_cfg_for_object_buffer ::
  "nat \<Rightarrow> 'h CFG_ParseValue \<Rightarrow> 'h CFG_parseCB \<Rightarrow> ptr \<Rightarrow> ('h \<Rightarrow> ptr) \<Rightarrow> CFG_buffered_obj option \<Rightarrow> 'h \<Rightarrow>
   (ptr \<times> CFG_buffered_obj option \<times> 'h) option" where
  "CFG_cfg_for_object_buffer fuel val store slot parsed_of buffered h =
     (case buffered of
        None \<Rightarrow> Some (NULL, None, h)
      | Some obj \<Rightarrow>
          if bo_parsed obj \<noteq> NULL then Some (bo_parsed obj, buffered, h)
          else (case bo_buff obj of
                  None \<Rightarrow> None
                | Some txt \<Rightarrow>
                    let fake_root = CFG_ParseObj [] None None [CFG_ParseValue (pv_name val) (pv_lookup val) (Some store)];
                        (_, ctx) = NextLine ((start_context [])\<lparr>cf_replay := Some txt, cf_allow := False\<rparr>)
                    in (case ParseObject fuel (Some fake_root) slot ctx h of
                          None \<Rightarrow> None
                        | Some (_, _, h1) \<Rightarrow> Some (parsed_of h1, Some \<lparr>bo_parsed = parsed_of h1, bo_buff = None\<rparr>, h1))))"

section \<open>Lookups and arrays\<close>

definition CFG_static_obj :: "'h CFG_ParseObj \<Rightarrow> string \<Rightarrow> bool \<Rightarrow> 'h CFG_ParseObj option \<times> bool" where
  "CFG_static_obj arg params buffer_obj = (Some arg, False)"

definition CFG_static_arr_obj :: "'h CFG_ParseObj list \<Rightarrow> string \<Rightarrow> bool \<Rightarrow> 'h CFG_ParseObj option \<times> bool" where
  "CFG_static_arr_obj arg params buffer_obj = (find (\<lambda>o1. strcaseeq (po_subtype o1) params) arg, False)"

record CFG_Array =
  ca_len :: nat
  ca_capacity :: nat
  ca_data :: "ptr list option"

text \<open>\<open>None\<close> is a write outside the array.\<close>

definition CFG_PtrArrayAppendCB :: "bool \<Rightarrow> ptr \<Rightarrow> CFG_Array \<Rightarrow> (bool \<times> CFG_Array) option" where
  "CFG_PtrArrayAppendCB malloc_ok value dest =
     (let grow_ok = (if ca_len dest = ca_capacity dest
            then let dest1 = dest\<lparr>ca_capacity := ca_capacity dest + 5\<rparr>
                 in if \<not> malloc_ok then Inl dest1
                    else Inr (dest1\<lparr>ca_data := Some ((case ca_data dest of None \<Rightarrow> [] | Some d \<Rightarrow> take (ca_len dest) d) @
                           replicate (ca_capacity dest1 - (case ca_data dest of None \<Rightarrow> 0 | Some d \<Rightarrow> min (length d) (ca_len dest))) 0)\<rparr>)
            else Inr dest)
      in case grow_ok of
           Inl dest1 \<Rightarrow> Some (False, dest1)
         | Inr dest1 \<Rightarrow>
             (case ca_data dest1 of
                None \<Rightarrow> None
              | Some d \<Rightarrow>
                  if ca_len dest1 < length d
                  then Some (True, dest1\<lparr>ca_data := Some (d[ca_len dest1 := value]), ca_len := ca_len dest1 + 1\<rparr>)
                  else None))"

text \<open>The freed elements, in order, and the array after it.\<close>

definition CFG_freeArray :: "bool \<Rightarrow> CFG_Array option \<Rightarrow> ptr list \<times> CFG_Array option" where
  "CFG_freeArray has_cb arr =
     (case arr of
        None \<Rightarrow> ([], None)
      | Some a \<Rightarrow>
          (case ca_data a of
             None \<Rightarrow> ([], arr)
           | Some d \<Rightarrow> (if has_cb then take (ca_len a) d else [], Some \<lparr>ca_len = 0, ca_capacity = 0, ca_data = None\<rparr>)))"

text \<open>Where a configuration file is looked for: \<open>exists\<close> says which paths exist.\<close>

definition CFG_locateConfigFile :: "(string \<Rightarrow> bool) \<Rightarrow> string option \<Rightarrow> string \<Rightarrow> string option" where
  "CFG_locateConfigFile exists home name =
     (if exists name then Some name
      else if (case home of None \<Rightarrow> False | Some h \<Rightarrow> exists (h @ ''/.'' @ name)) then Some (the home @ ''/.'' @ name)
      else if exists (''/etc/'' @ name) then Some (''/etc/'' @ name)
      else if exists (''/usr/local/etc/'' @ name) then Some (''/usr/local/etc/'' @ name)
      else None)"

section \<open>Stock callbacks\<close>

text \<open>
  The fields a callback stores into, by address: \<open>offset\<close> is the parameter \<open>p1\<close>. The string functions read their argument, so that \<open>NULL\<close> as a value
  is the result \<open>None\<close>.
\<close>

datatype cell = C32 "32 word" | C16 "16 word" | CStr string | CVal cfg_value

type_synonym cells = "ptr \<Rightarrow> cell option"

definition CFG_uint32_CB :: "ptr \<Rightarrow> cfg_value \<Rightarrow> ptr \<Rightarrow> cells \<Rightarrow> (ptr \<times> cells) option" where
  "CFG_uint32_CB offset value data h =
     (case value of VStr s \<Rightarrow> (case strtol 0 s of (v, erange) \<Rightarrow> Some (if erange then NULL else data, h(data + offset \<mapsto> C32 (word_of_int v)))) | _ \<Rightarrow> None)"

definition CFG_uint16_CB :: "ptr \<Rightarrow> cfg_value \<Rightarrow> ptr \<Rightarrow> cells \<Rightarrow> (ptr \<times> cells) option" where
  "CFG_uint16_CB offset value data h =
     (case value of VStr s \<Rightarrow> (case strtol 0 s of (v, erange) \<Rightarrow> Some (if erange then NULL else data, h(data + offset \<mapsto> C16 (word_of_int v)))) | _ \<Rightarrow> None)"

definition CFG_int32_CB :: "ptr \<Rightarrow> cfg_value \<Rightarrow> ptr \<Rightarrow> cells \<Rightarrow> (ptr \<times> cells) option" where
  "CFG_int32_CB offset value data h =
     (case value of VStr s \<Rightarrow> (case strtol 0 s of (v, erange) \<Rightarrow> Some (if erange then NULL else data, h(data + offset \<mapsto> C32 (word_of_int v)))) | _ \<Rightarrow> None)"

definition CFG_int16_CB :: "ptr \<Rightarrow> cfg_value \<Rightarrow> ptr \<Rightarrow> cells \<Rightarrow> (ptr \<times> cells) option" where
  "CFG_int16_CB offset value data h =
     (case value of VStr s \<Rightarrow> (case strtol 0 s of (v, erange) \<Rightarrow> Some (if erange then NULL else data, h(data + offset \<mapsto> C16 (word_of_int v)))) | _ \<Rightarrow> None)"

definition CFG_StrdupCB :: "bool \<Rightarrow> ptr \<Rightarrow> cfg_value \<Rightarrow> ptr \<Rightarrow> cells \<Rightarrow> (ptr \<times> cells) option" where
  "CFG_StrdupCB strdup_ok offset value data h =
     (case value of
        VStr s \<Rightarrow> Some (if strdup_ok then (data, h(data + offset \<mapsto> CStr s)) else (NULL, h(data + offset \<mapsto> CVal VNull)))
      | _ \<Rightarrow> None)"

definition CFG_PtrCpyCB :: "ptr \<Rightarrow> cfg_value \<Rightarrow> ptr \<Rightarrow> cells \<Rightarrow> ptr \<times> cells" where
  "CFG_PtrCpyCB offset value data h = (data, h(data + offset \<mapsto> CVal value))"

end
