(* ===== verification/Config_Correct.thy ===== *)
theory Config_Correct
  imports Config
begin

text \<open>
  Parsing a configuration file is the evaluation of the tree it describes: for every file that is a layout of options and nested objects, with
  blank lines, comments and indentation, the callbacks are called as a recursion over the tree calls them.
\<close>

section \<open>The text of a configuration\<close>

datatype item = Opt string string | Sec string string "item list"

definition header_line :: "string \<Rightarrow> string \<Rightarrow> string" where
  "header_line n p = ''<'' @ n @ (if p = [] then [] else '' '' @ p) @ ''>''"

definition end_line :: "string \<Rightarrow> string" where
  "end_line n = ''</'' @ n @ ''>''"

fun item_lines :: "item \<Rightarrow> string list" where
  "item_lines (Opt k v) = [k @ ''='' @ v]"
| "item_lines (Sec n p its) = [header_line n p] @ concat (map item_lines its) @ [end_line n]"

definition plain :: "string \<Rightarrow> bool" where
  "plain l \<longleftrightarrow> NL \<notin> set l \<and> CHR 0x00 \<notin> set l"

definition ok_line :: "string \<Rightarrow> bool" where
  "ok_line l \<longleftrightarrow> l \<noteq> [] \<and> plain l \<and> last l \<noteq> CR \<and> \<not> isblank (hd l) \<and> hd l \<noteq> CHR ''#'' \<and> hd l \<noteq> CHR '';''"

text \<open>The lines with their layout: blanks in front, carriage returns at the end, and comments and empty lines between them.\<close>

inductive layout :: "string list \<Rightarrow> string \<Rightarrow> bool" where
  layout_end: "layout [] []"
| layout_line: "list_all isblank bl \<Longrightarrow> ok_line l \<Longrightarrow> list_all (\<lambda>c. c = CR) crs \<Longrightarrow> length (bl @ l @ crs) < 4095 \<Longrightarrow> layout ls t \<Longrightarrow>
    layout (l # ls) (bl @ l @ crs @ NL # t)"
| layout_comment: "list_all isblank bl \<Longrightarrow> plain c \<Longrightarrow> c \<noteq> [] \<Longrightarrow> last c \<noteq> CR \<Longrightarrow> hd c = CHR ''#'' \<or> hd c = CHR '';'' \<Longrightarrow> list_all (\<lambda>c. c = CR) crs \<Longrightarrow>
    length (bl @ c @ crs) < 4095 \<Longrightarrow> layout ls t \<Longrightarrow> layout ls (bl @ c @ crs @ NL # t)"
| layout_empty: "list_all isblank bl \<Longrightarrow> list_all (\<lambda>c. c = CR) crs \<Longrightarrow> length (bl @ crs) < 4095 \<Longrightarrow> layout ls t \<Longrightarrow> layout ls (bl @ crs @ NL # t)"

lemma blank_chars [simp]: "\<not> isblank NL" "\<not> isblank CR" "\<not> isblank (CHR ''#'')" "\<not> isblank (CHR '';'')" "\<not> isblank (CHR 0x00)" "NL \<noteq> CR" "CR \<noteq> NL" "NL \<noteq> CHR 0x00" "CR \<noteq> CHR 0x00"
  by (simp_all add: isblank_def NL_def CR_def)

lemma fgets_line:
  assumes "plain l" "length l < 4095"
  shows "fgets BUFF_SIZE (l @ NL # t) = Some (l @ [NL], t)"
proof -
  have "takeWhile (\<lambda>c. c \<noteq> NL) (l @ NL # t) = l" using assms(1) by (subst takeWhile_append2) (auto simp: plain_def)
  then show ?thesis using assms(2) by (simp add: fgets_def BUFF_SIZE_def)
qed

lemma no_terminator: "plain l \<Longrightarrow> takeWhile (\<lambda>c. c \<noteq> CHR 0x00) (l @ [NL]) = l @ [NL]"
  by (auto simp: plain_def takeWhile_eq_all_conv)

lemma strip_eol_line:
  assumes "list_all (\<lambda>c. c = CR) crs" "l = [] \<or> last l \<noteq> NL \<and> last l \<noteq> CR"
  shows "strip_eol (l @ crs @ [NL]) = l"
proof -
  have "dropWhile (\<lambda>c. c = NL \<or> c = CR) (NL # rev crs @ rev l) = dropWhile (\<lambda>c. c = NL \<or> c = CR) (rev l)"
    using assms(1) by (auto simp: list_all_iff dropWhile_append)
  also have "\<dots> = rev l" using assms(2) by (cases l rule: rev_cases) auto
  finally show ?thesis by (simp add: strip_eol_def)
qed

lemma context_commute:
  "ctx\<lparr>cf_lineNum := k, cf_buff := b\<rparr> = (ctx\<lparr>cf_buff := b, cf_lineNum := k\<rparr> :: CFG_Context)"
  "ctx\<lparr>cf_buff := b, cf_lineNum := k, cf_file := t\<rparr> = (ctx\<lparr>cf_file := t, cf_buff := b, cf_lineNum := k\<rparr> :: CFG_Context)"
  by simp_all

lemma read_line_step:
  assumes bl: "list_all isblank bl" and l: "plain l" "l = [] \<or> last l \<noteq> CR \<and> \<not> isblank (hd l)" and crs: "list_all (\<lambda>c. c = CR) crs"
    and len: "length (bl @ l @ crs) < 4095"
  shows "\<exists>k. read_line False (ctx\<lparr>cf_file := bl @ l @ crs @ NL # t\<rparr>) =
    (let ctx1 = ctx\<lparr>cf_file := t, cf_buff := l, cf_lineNum := k\<rparr> in
     if l = [] \<or> hd l = CHR ''#'' \<or> hd l = CHR '';'' then read_line False ctx1 else (True, ctx1))"
proof -
  have "plain bl" using bl by (auto simp: plain_def list_all_iff)
  moreover have "plain crs" using crs by (auto simp: plain_def list_all_iff CR_def NL_def)
  ultimately have pl: "plain (bl @ l @ crs)" using l(1) by (auto simp: plain_def)
  have f: "fgets BUFF_SIZE (bl @ l @ crs @ NL # t) = Some ((bl @ l @ crs) @ [NL], t)" using fgets_line [OF pl len, of t] by simp
  have b: "dropWhile isblank (strip_eol ((bl @ l @ crs) @ [NL])) = l"
  proof (cases "l = []")
    case True
    have "dropWhile isblank (strip_eol ((bl @ crs) @ [NL])) = []"
    proof (cases "bl = []")
      case True
      then show ?thesis using strip_eol_line [OF crs, of "[]"] by simp
    next
      case False
      then have "isblank (last bl)" using bl by (auto simp: list_all_iff)
      then have "strip_eol (bl @ crs @ [NL]) = bl" by (intro strip_eol_line [OF crs]) auto
      then show ?thesis using bl by (simp add: list_all_iff dropWhile_eq_Nil_conv)
    qed
    then show ?thesis using True by simp
  next
    case False
    then have "last l \<noteq> NL" using l(1) by (metis last_in_set plain_def)
    then have "strip_eol ((bl @ l) @ crs @ [NL]) = bl @ l" using l(2) False by (intro strip_eol_line [OF crs]) auto
    moreover have "dropWhile isblank (bl @ l) = l" using bl l(2) False by (cases l) (auto simp: list_all_iff dropWhile_append2)
    ultimately show ?thesis by simp
  qed
  let ?c = "ctx\<lparr>cf_file := bl @ l @ crs @ NL # t\<rparr>"
  have ff: "fgets BUFF_SIZE (cf_file ?c) = Some ((bl @ l @ crs) @ [NL], t)" using f by simp
  have nl: "(bl @ l @ crs) @ [NL] \<noteq> []" "last ((bl @ l @ crs) @ [NL]) = NL" by simp_all
  have "read_line False ?c = (let ctx1 = ?c\<lparr>cf_file := t, cf_buff := (bl @ l @ crs) @ [NL], cf_lineNum := cf_lineNum ?c + 1\<rparr>\<lparr>cf_buff := l\<rparr> in
     if l = [] \<or> hd l = CHR ''#'' \<or> hd l = CHR '';'' then read_line False ctx1 else (True, ctx1))"
    by (subst read_line.simps) (simp only: ff option.case prod.case no_terminator [OF pl] Let_def b nl if_False simp_thms)
  then show ?thesis by (intro exI [of _ "cf_lineNum ctx + 1"]) (simp add: Let_def context_commute)
qed

lemma read_line_layout:
  "layout ls t \<Longrightarrow>
   (case ls of
      [] \<Rightarrow> \<exists>ctx'. read_line False (ctx\<lparr>cf_file := t\<rparr>) = (False, ctx') \<and> cf_bufs ctx' = cf_bufs ctx
    | l # ls' \<Rightarrow> \<exists>t' k. read_line False (ctx\<lparr>cf_file := t\<rparr>) = (True, ctx\<lparr>cf_file := t', cf_buff := l, cf_lineNum := k\<rparr>) \<and> layout ls' t' \<and> ok_line l)"
proof (induction arbitrary: ctx rule: layout.induct)
  case layout_end
  then show ?case by (subst read_line.simps) (simp add: fgets_def)
next
  case (layout_line bl l crs ls t)
  then show ?case using read_line_step [of bl l crs t ctx] by (auto simp: ok_line_def Let_def)
next
  case (layout_comment bl c crs ls t)
  have "\<not> isblank (hd c)" using layout_comment.hyps(5) by auto
  then obtain k where "read_line False (ctx\<lparr>cf_file := bl @ c @ crs @ NL # t\<rparr>) = read_line False (ctx\<lparr>cf_file := t, cf_buff := c, cf_lineNum := k\<rparr>)"
    using read_line_step [of bl c crs t ctx] layout_comment.hyps by (auto simp: Let_def)
  then show ?case using layout_comment.IH [of "ctx\<lparr>cf_buff := c, cf_lineNum := k\<rparr>"] by (cases ls) (auto simp: context_commute)
next
  case (layout_empty bl crs ls t)
  obtain k where "read_line False (ctx\<lparr>cf_file := bl @ crs @ NL # t\<rparr>) = read_line False (ctx\<lparr>cf_file := t, cf_buff := [], cf_lineNum := k\<rparr>)"
    using read_line_step [of bl "[]" crs t ctx] layout_empty.hyps by (auto simp: plain_def Let_def)
  then show ?case using layout_empty.IH [of "ctx\<lparr>cf_buff := [], cf_lineNum := k\<rparr>"] by (cases ls) (auto simp: context_commute)
qed

section \<open>The meaning of a configuration\<close>

definition find_object :: "'h CFG_ParseValue list \<Rightarrow> string \<Rightarrow> string \<Rightarrow> 'h CFG_ParseValue option \<times> 'h CFG_ParseObj option" where
  "find_object keys n p =
     (case find_key n keys of
        None \<Rightarrow> (None, None)
      | Some v \<Rightarrow> (case pv_lookup v of None \<Rightarrow> (None, None) | Some lookup_cb \<Rightarrow> (Some v, fst (lookup_cb p True))))"

definition type_keys :: "string \<Rightarrow> string \<Rightarrow> 'h CFG_ParseValue list \<Rightarrow> ptr \<Rightarrow> 'h \<Rightarrow> 'h" where
  "type_keys key params keys data h = (case find_key key keys of None \<Rightarrow> h | Some v \<Rightarrow> snd (run_cb (pv_cb v) key (VStr params) data h))"

definition init_of :: "'h CFG_ParseObj option \<Rightarrow> 'h CFG_parseCB option" where
  "init_of child = (case child of None \<Rightarrow> None | Some po \<Rightarrow> po_initCb po)"

definition fini_of :: "'h CFG_ParseObj option \<Rightarrow> 'h CFG_parseCB option" where
  "fini_of child = (case child of None \<Rightarrow> None | Some po \<Rightarrow> po_finiCb po)"

text \<open>
  An option calls the callback of its key; an object is created, filled by its items, finished, and handed to the callback of its key in the
  object around it.
\<close>

fun interp :: "'h CFG_ParseValue list \<Rightarrow> item \<Rightarrow> ptr \<times> 'h \<Rightarrow> ptr \<times> 'h" where
  "interp keys (Opt k v) (d, h) =
     (case find_key k keys of
        None \<Rightarrow> (d, h)
      | Some pv \<Rightarrow> if pv_lookup pv \<noteq> None then (d, h) else run_cb (pv_cb pv) k (VStr v) d h)"
| "interp keys (Sec n p its) (d, h) =
     (let (key, child) = find_object keys n p;
          (d0, h1) = run_cb (init_of child) n (VStr p) NULL h;
          h2 = type_keys (if key \<noteq> None then take 255 (''__type_'' @ n) else []) p keys d h1;
          h3 = type_keys ''__type'' p (child_keys child) d0 h2;
          (d1, h4) = fold (interp (child_keys child)) its (d0, h3);
          (d2, h5) = run_cb (fini_of child) n (VStr p) d1 h4
      in case key of None \<Rightarrow> (d, h5) | Some v \<Rightarrow> run_cb (pv_cb v) (pv_name v) (VPtr d2) d h5)"

text \<open>Descriptions none of whose lookups asks for an object to be buffered.\<close>

inductive direct :: "'h CFG_ParseValue list \<Rightarrow> bool" where
  directI: "(\<And>v lk p b. v \<in> set keys \<Longrightarrow> pv_lookup v = Some lk \<Longrightarrow> \<not> snd (lk p b)) \<Longrightarrow>
    (\<And>v lk p b po. v \<in> set keys \<Longrightarrow> pv_lookup v = Some lk \<Longrightarrow> fst (lk p b) = Some po \<Longrightarrow> direct (po_keys po)) \<Longrightarrow> direct keys"

inductive_cases directE: "direct keys"

fun item_ok :: "item \<Rightarrow> bool" where
  "item_ok (Opt k v) = (CHR ''='' \<notin> set k \<and> take 1 (k @ ''='' @ v) \<noteq> ''<'')"
| "item_ok (Sec n p its) = (n \<noteq> [] \<and> CHR '' '' \<notin> set n \<and> hd n \<noteq> CHR ''/'' \<and> list_all item_ok its)"

fun item_size :: "item \<Rightarrow> nat" where
  "item_size (Opt k v) = 1"
| "item_size (Sec n p its) = 2 + sum_list (map item_size its)"

definition ctx_at :: "string list \<Rightarrow> CFG_Context \<Rightarrow> bool" where
  "ctx_at ls ctx \<longleftrightarrow> cf_accum ctx = None \<and> cf_replay ctx = None \<and> \<not> cf_stop ctx \<and> cf_allow ctx \<and> layout ls (cf_file ctx)"

lemma next_line_at:
  assumes "ctx_at (l # ls) ctx"
  shows "\<exists>ctx'. NextLine ctx = (True, ctx') \<and> ctx_at ls ctx' \<and> cf_buff ctx' = l \<and> cf_bufs ctx' = cf_bufs ctx"
  using read_line_layout [of "l # ls" "cf_file ctx" ctx] assms by (auto simp: ctx_at_def NextLine_def)

lemma next_line_end: "ctx_at [] ctx \<Longrightarrow> \<exists>ctx'. NextLine ctx = (False, ctx') \<and> cf_bufs ctx' = cf_bufs ctx"
  using read_line_layout [of "[]" "cf_file ctx" ctx] by (auto simp: ctx_at_def NextLine_def)

lemma header_parsed:
  assumes "CHR '' '' \<notin> set n"
  shows "parse_header (header_line n p) = Some (n, if p = [] then None else Some p)"
proof -
  have "takeWhile (\<lambda>c. c \<noteq> CHR '' '') n = n" using assms by (auto simp: takeWhile_eq_all_conv)
  moreover have "takeWhile (\<lambda>c. c \<noteq> CHR '' '') (n @ CHR '' '' # p) = n" using assms by (subst takeWhile_append2) auto
  ultimately show ?thesis using assms by (auto simp: header_line_def parse_header_def Let_def butlast_append)
qed

lemma option_line:
  assumes "CHR ''='' \<notin> set k"
  shows "processKeyValueLine (k @ ''='' @ v) keys d h = interp keys (Opt k v) (d, h)"
proof -
  have "takeWhile (\<lambda>c. c \<noteq> CHR ''='') (k @ CHR ''='' # v) = k" using assms by (subst takeWhile_append2) auto
  then show ?thesis by (auto simp: processKeyValueLine_def key_part_def run_cb_def Let_def split: option.splits)
qed

definition parses :: "('h CFG_ParseObj option \<Rightarrow> ptr \<Rightarrow> CFG_Context \<Rightarrow> 'h \<Rightarrow> (ptr \<times> CFG_Context \<times> 'h) option) \<Rightarrow> 'h CFG_ParseObj option \<Rightarrow> item \<Rightarrow> bool" where
  "parses parse child i \<longleftrightarrow>
     (\<forall>n p sub. i = Sec n p sub \<longrightarrow> (\<forall>d ctx h rest. ctx_at (tl (item_lines i) @ rest) ctx \<longrightarrow> cf_buff ctx = header_line n p \<longrightarrow>
        (\<exists>ctx'. parse child d ctx h = Some (fst (interp (child_keys child) i (d, h)), ctx', snd (interp (child_keys child) i (d, h))) \<and>
           ctx_at rest ctx' \<and> cf_bufs ctx' = cf_bufs ctx)))"

lemma parsesD:
  assumes "parses parse child i" "i = Sec n p sub" "ctx_at (tl (item_lines i) @ rest) ctx" "cf_buff ctx = header_line n p"
    "interp (child_keys child) i (d, h) = (d1, h1)"
  obtains ctx' where "parse child d ctx h = Some (d1, ctx', h1)" "ctx_at rest ctx'" "cf_bufs ctx' = cf_bufs ctx"
  using assms(1) [unfolded parses_def, rule_format, OF assms(2-4), of d h] that by (auto simp only: assms(5) fst_conv snd_conv)

lemma set_allow_idle: "cf_allow ctx \<Longrightarrow> ctx\<lparr>cf_allow := True\<rparr> = ctx"
  by simp

lemma object_lines_items:
  assumes "list_all (parses parse child) its" "list_all item_ok its" "name \<noteq> []" "length its < fuel"
    "ctx_at (concat (map item_lines its) @ end_line name # rest) ctx"
  shows "\<exists>ctx'. object_lines fuel parse name child d ctx h =
      Some (fst (fold (interp (child_keys child)) its (d, h)), ctx', snd (fold (interp (child_keys child)) its (d, h))) \<and>
    ctx_at rest ctx' \<and> cf_bufs ctx' = cf_bufs ctx"
  using assms(1,2,4,5)
proof (induction its arbitrary: d h ctx fuel)
  case Nil
  then obtain n where n: "fuel = Suc n" by (cases fuel) auto
  obtain ctx1 where c: "NextLine ctx = (True, ctx1)" "ctx_at rest ctx1" "cf_buff ctx1 = end_line name" "cf_bufs ctx1 = cf_bufs ctx"
    using next_line_at [of "end_line name" rest ctx] Nil.prems(4) by auto
  have e: "take 2 (end_line name) = ''</''" "butlast (end_line name) = ''</'' @ name" by (simp_all add: end_line_def butlast_append)
  have "ctx_at rest (ctx1\<lparr>cf_buff := ''</'' @ name\<rparr>)" using c(2) by (simp add: ctx_at_def)
  moreover have "0 < length name" using assms(3) by simp
  ultimately show ?case using n c e by (simp add: ctx_at_def Let_def Suc_le_eq)
next
  case (Cons i its)
  then obtain n where n: "fuel = Suc n" by (cases fuel) auto
  obtain l ls where il: "item_lines i = l # ls" by (cases i) auto
  let ?rest = "concat (map item_lines its) @ end_line name # rest"
  obtain ctx1 where c: "NextLine ctx = (True, ctx1)" "ctx_at (ls @ ?rest) ctx1" "cf_buff ctx1 = l" "cf_bufs ctx1 = cf_bufs ctx"
    using next_line_at [of l "ls @ ?rest" ctx] Cons.prems(4) il by auto
  have acc: "cf_accum ctx1 = None" "cf_allow ctx1" using c(2) by (auto simp: ctx_at_def)
  obtain d1 h1 where r: "interp (child_keys child) i (d, h) = (d1, h1)" by fastforce
  have "\<exists>ctx2. object_lines fuel parse name child d ctx h = object_lines n parse name child d1 ctx2 h1 \<and> ctx_at ?rest ctx2 \<and> cf_bufs ctx2 = cf_bufs ctx"
  proof (cases i)
    case (Opt k v)
    then have k: "l = k @ ''='' @ v" "ls = []" "CHR ''='' \<notin> set k" "take 1 l \<noteq> ''<''" using il Cons.prems(2) by auto
    have "take 2 l \<noteq> ''</''" if "take 1 l \<noteq> ''<''" using that by (cases l) auto
    then have "take 2 l \<noteq> ''</''" using k(4) by blast
    moreover have "processKeyValueLine l (child_keys child) d h = (d1, h1)" using option_line [OF k(3), of v "child_keys child" d h] r unfolding Opt k(1) by (simp only:)
    moreover have "ctx_at ?rest (ctx1\<lparr>cf_buff := key_part l\<rparr>)" using c(2) k(2) by (simp add: ctx_at_def)
    ultimately show ?thesis using n c k(2,4) acc by (intro exI [of _ "ctx1\<lparr>cf_buff := key_part l\<rparr>"]) (simp add: Let_def)
  next
    case (Sec m p sub)
    then have s: "l = header_line m p" "m \<noteq> []" "hd m \<noteq> CHR ''/''" "tl (item_lines i) = ls" using il Cons.prems(2) by auto
    have t: "take 2 l \<noteq> ''</''" "take 1 l = ''<''" using s by (cases m; simp add: header_line_def)+
    obtain ctx2 where p: "parse child d ctx1 h = Some (d1, ctx2, h1)" "ctx_at ?rest ctx2" "cf_bufs ctx2 = cf_bufs ctx1"
      using Cons.prems(1) c(2,3) s(1,4) parsesD [OF _ Sec _ _ r, of parse ?rest ctx1] by (auto simp only: list.pred_inject)
    have "ctx2\<lparr>cf_allow := True\<rparr> = ctx2" using p(2) by (intro set_allow_idle) (simp add: ctx_at_def)
    moreover have "parse child d (ctx1\<lparr>cf_allow := True\<rparr>) h = Some (d1, ctx2, h1)" using p(1) by (simp only: set_allow_idle [OF acc(2)])
    ultimately show ?thesis using n c t p(2,3) acc by (intro exI [of _ ctx2]) (simp add: Let_def)
  qed
  then obtain ctx2 where o: "object_lines fuel parse name child d ctx h = object_lines n parse name child d1 ctx2 h1" "ctx_at ?rest ctx2" "cf_bufs ctx2 = cf_bufs ctx"
    by blast
  show ?case using Cons.IH [of n ctx2 d1 h1] Cons.prems(1-3) n o r by simp
qed

lemma lookup_direct:
  assumes "direct (child_keys parObj)" "ctx_at ls ctx"
  shows "lookup_object ctx parObj n p = (fst (find_object (child_keys parObj) n p), snd (find_object (child_keys parObj) n p), False)"
proof (cases parObj)
  case None
  then show ?thesis by (simp add: lookup_object_def find_object_def child_keys_def find_key_def)
next
  case (Some po)
  have acc: "cf_accum ctx = None" "cf_allow ctx" using assms(2) by (auto simp: ctx_at_def)
  have "\<not> snd (lk p b)" if "find_key n (po_keys po) = Some v" "pv_lookup v = Some lk" for v lk b
  proof -
    have "v \<in> set (po_keys po)" using that(1) by (auto simp: find_key_def find_Some_iff)
    then show ?thesis using assms(1) that(2) Some by (auto simp: child_keys_def elim: directE)
  qed
  then have "lk p b = (fst (lk p b), False)" if "find_key n (po_keys po) = Some v" "pv_lookup v = Some lk" for v lk b using that by (simp add: prod_eq_iff)
  then show ?thesis using Some acc by (auto simp: lookup_object_def find_object_def child_keys_def split: option.splits prod.splits)
qed

lemma direct_child:
  assumes "direct keys" "find_object keys n p = (key, child)"
  shows "direct (child_keys child)"
proof (cases child)
  case None
  then show ?thesis by (auto simp: child_keys_def intro: directI)
next
  case (Some po)
  then obtain v lk where v: "find_key n keys = Some v" "pv_lookup v = Some lk" "fst (lk p True) = Some po"
    using assms(2) by (auto simp: find_object_def split: option.splits)
  have "v \<in> set keys" using v(1) by (auto simp: find_key_def find_Some_iff)
  then show ?thesis using assms(1) v(2,3) Some by (auto simp: child_keys_def elim: directE)
qed

lemma type_cb_keys: "type_cb key p obj d h = type_keys key p (child_keys obj) d h"
  by (cases obj) (simp_all add: type_cb_def type_keys_def child_keys_def find_key_def)

lemma length_le_sizes: "length its \<le> sum_list (map item_size its)"
proof (induction its)
  case (Cons i its)
  have "1 \<le> item_size i" by (cases i) auto
  then show ?case using Cons by simp
qed simp

lemma parse_object_item:
  "item_ok i \<Longrightarrow> direct (child_keys parObj) \<Longrightarrow> item_size i \<le> fuel \<Longrightarrow> parses (ParseObject fuel) parObj i"
proof (induction i arbitrary: parObj fuel)
  case (Sec n p its)
  have n: "n \<noteq> []" "CHR '' '' \<notin> set n" "list_all item_ok its" using Sec.prems(1) by auto
  obtain m where m: "fuel = Suc m" "sum_list (map item_size its) < m" using Sec.prems(3) by (cases fuel) auto
  obtain key child where fo: "find_object (child_keys parObj) n p = (key, child)" by fastforce
  have dc: "direct (child_keys child)" by (rule direct_child [OF Sec.prems(2) fo])
  have sub: "list_all (parses (ParseObject m) child) its"
    unfolding list_all_iff
  proof
    fix j assume j: "j \<in> set its"
    have "item_size j \<le> m" using member_le_sum_list [of "item_size j" "map item_size its"] j m(2) by auto
    then show "parses (ParseObject m) child j" using Sec.IH [OF j _ dc] n(3) j by (auto simp: list_all_iff)
  qed
  obtain q where q: "(if p = [] then None else Some p) = q" "(case q of None \<Rightarrow> [] | Some p \<Rightarrow> p) = p" by simp
  show ?case
    unfolding parses_def
  proof (intro allI impI)
    fix n' p' sub' d ctx h rest
    assume eq: "Sec n p its = Sec n' p' sub'" and at: "ctx_at (tl (item_lines (Sec n p its)) @ rest) ctx" and b: "cf_buff ctx = header_line n' p'"
    have b1: "parse_header (cf_buff ctx) = Some (n, q)" using b eq header_parsed [OF n(2), of p] unfolding q(1) by simp
    have acc: "cf_accum ctx = None" using at by (simp add: ctx_at_def)
    note lo = lookup_direct [OF Sec.prems(2) at, of n p, unfolded fo fst_conv snd_conv]
    obtain d0 h1 where i: "run_cb (init_of child) n (VStr p) NULL h = (d0, h1)" by fastforce
    define h3 where "h3 = type_keys ''__type'' p (child_keys child) d0 (type_keys (if key \<noteq> None then take 255 (''__type_'' @ n) else []) p (child_keys parObj) d h1)"
    let ?ctx = "ctx\<lparr>cf_buff := CHR ''<'' # n\<rparr>"
    have at2: "ctx_at (concat (map item_lines its) @ end_line n # rest) ?ctx" using at by (simp add: ctx_at_def)
    obtain d1 h4 where f: "fold (interp (child_keys child)) its (d0, h3) = (d1, h4)" by fastforce
    obtain ctx3 where o: "object_lines m (ParseObject m) n child d0 ?ctx h3 = Some (d1, ctx3, h4)" "ctx_at rest ctx3" "cf_bufs ctx3 = cf_bufs ctx"
      using object_lines_items [OF sub n(3,1) _ at2, of m d0 h3] f m(2) length_le_sizes [of its] by auto
    obtain d2 h5 where g: "run_cb (fini_of child) n (VStr p) d1 h4 = (d2, h5)" by fastforce
    have int: "interp (child_keys parObj) (Sec n p its) (d, h) =
        (case key of None \<Rightarrow> (d, h5) | Some v \<Rightarrow> run_cb (pv_cb v) (pv_name v) (VPtr d2) d h5)"
      using fo i f g by (simp add: h3_def Let_def)
    have "ParseObject fuel parObj d ctx h =
        (case key of
           None \<Rightarrow> Some (d, ctx3, h5)
         | Some v \<Rightarrow> (case pv_cb v of None \<Rightarrow> Some (d, ctx3, h5) | Some cb \<Rightarrow> (case cb (pv_name v) (VPtr d2) d h5 of (data3, h6) \<Rightarrow> Some (data3, ctx3, h6))))"
      unfolding m(1) by (simp only: ParseObject.simps b1 lo acc q(2) i o(1) g option.case prod.case Let_def type_cb_keys h3_def [symmetric]
          init_of_def [symmetric] fini_of_def [symmetric] finish_buffer_def simp_thms if_False if_True cong: if_cong option.case_cong)
    then show "\<exists>ctx'. ParseObject fuel parObj d ctx h =
        Some (fst (interp (child_keys parObj) (Sec n p its) (d, h)), ctx', snd (interp (child_keys parObj) (Sec n p its) (d, h))) \<and>
        ctx_at rest ctx' \<and> cf_bufs ctx' = cf_bufs ctx"
      using int o(2,3) by (auto simp: run_cb_def split: option.splits prod.splits)
  qed
qed (simp add: parses_def)

lemma file_lines_items:
  assumes "list_all item_ok its" "direct (po_keys root)" "sum_list (map item_size its) < fuel" "ctx_at (concat (map item_lines its)) ctx"
  shows "\<exists>ctx'. file_lines fuel root d ctx h =
      Some (fst (fold (interp (po_keys root)) its (d, h)), ctx', snd (fold (interp (po_keys root)) its (d, h))) \<and> cf_bufs ctx' = cf_bufs ctx"
  using assms(1,3,4)
proof (induction its arbitrary: d h ctx fuel)
  case Nil
  then obtain n where n: "fuel = Suc n" by (cases fuel) auto
  obtain ctx1 where "NextLine ctx = (False, ctx1)" "cf_bufs ctx1 = cf_bufs ctx" using next_line_end [of ctx] Nil.prems(3) by auto
  then show ?case using n by simp
next
  case (Cons i its)
  then obtain n where n: "fuel = Suc n" by (cases fuel) auto
  obtain l ls where il: "item_lines i = l # ls" by (cases i) auto
  let ?rest = "concat (map item_lines its)"
  obtain ctx1 where c: "NextLine ctx = (True, ctx1)" "ctx_at (ls @ ?rest) ctx1" "cf_buff ctx1 = l" "cf_bufs ctx1 = cf_bufs ctx"
    using next_line_at [of l "ls @ ?rest" ctx] Cons.prems(3) il by auto
  obtain d1 h1 where r: "interp (po_keys root) i (d, h) = (d1, h1)" by fastforce
  have "\<exists>ctx2. file_lines fuel root d ctx h = file_lines n root d1 ctx2 h1 \<and> ctx_at ?rest ctx2 \<and> cf_bufs ctx2 = cf_bufs ctx"
  proof (cases i)
    case (Opt k v)
    then have k: "l = k @ ''='' @ v" "ls = []" "CHR ''='' \<notin> set k" "take 1 l \<noteq> ''<''" using il Cons.prems(1) by auto
    have "processKeyValueLine l (po_keys root) d h = (d1, h1)" using option_line [OF k(3), of v "po_keys root" d h] r unfolding Opt k(1) by (simp only:)
    moreover have "ctx_at ?rest (ctx1\<lparr>cf_buff := key_part l\<rparr>)" using c(2) k(2) by (simp add: ctx_at_def)
    ultimately show ?thesis using n c k(2,4) by (intro exI [of _ "ctx1\<lparr>cf_buff := key_part l\<rparr>"]) simp
  next
    case (Sec m p sub)
    then have s: "l = header_line m p" "tl (item_lines i) = ls" using il by auto
    have ck: "child_keys (Some root) = po_keys root" by (simp add: child_keys_def)
    have "parses (ParseObject n) (Some root) i"
      using Cons.prems(1,2) assms(2) n Sec by (intro parse_object_item) (auto simp: ck)
    then obtain ctx2 where p: "ParseObject n (Some root) d ctx1 h = Some (d1, ctx2, h1)" "ctx_at ?rest ctx2" "cf_bufs ctx2 = cf_bufs ctx1"
      using c(2,3) s parsesD [OF _ Sec _ _ r [folded ck], of "ParseObject n" ?rest ctx1] by (auto simp only:)
    then show ?thesis using n c s(1) by (intro exI [of _ ctx2]) (simp add: header_line_def)
  qed
  then obtain ctx2 where o: "file_lines fuel root d ctx h = file_lines n root d1 ctx2 h1" "ctx_at ?rest ctx2" "cf_bufs ctx2 = cf_bufs ctx" by blast
  have "1 \<le> item_size i" by (cases i) auto
  then show ?case using Cons.IH [of n ctx2 d1 h1] Cons.prems(1,2) n o r by simp
qed

section \<open>Correctness of the parser\<close>

lemma parse_items:
  assumes "po_initCb root = Some cb" "direct (po_keys root)" "list_all item_ok its" "layout (concat (map item_lines its)) txt"
    "sum_list (map item_size its) < fuel"
  shows "CFG_parseFileAtPath fuel (Some root) (Some txt) h =
    (let r0 = cb [] (VStr []) NULL h;
         r1 = fold (interp (po_keys root)) its r0;
         r2 = run_cb (po_finiCb root) [] (VStr []) (fst r1) (snd r1)
     in Some (fst r2, [], snd r2))"
proof -
  have at: "ctx_at (concat (map item_lines its)) (start_context txt)" using assms(4) by (simp add: ctx_at_def start_context_def)
  obtain d0 h0 where r0: "cb [] (VStr []) NULL h = (d0, h0)" by fastforce
  obtain ctx' where "file_lines fuel root d0 (start_context txt) h0 =
      Some (fst (fold (interp (po_keys root)) its (d0, h0)), ctx', snd (fold (interp (po_keys root)) its (d0, h0)))" "cf_bufs ctx' = []"
    using file_lines_items [OF assms(3,2,5) at, of d0 h0] by (auto simp: start_context_def)
  then show ?thesis unfolding CFG_parseFileAtPath_def Let_def option.case assms(1) r0 prod.case by (simp add: case_prod_beta)
qed

text \<open>
  C30: a file that lays out options and nested objects, with any indentation, comments, empty lines and carriage returns, is parsed to its end, and the
  callbacks are called exactly as a recursion over the tree calls them: the root is created, each item is applied in order, each object is created,
  filled and finished before it is handed to its parent, and the root is finished.
\<close>

theorem config_parse_interprets:
  assumes "po_initCb root = Some cb" "direct (po_keys root)" "list_all item_ok its" "layout (concat (map item_lines its)) txt"
    "sum_list (map item_size its) < fuel"
  shows "CFG_parseFileAtPath fuel (Some root) (Some txt) h =
    (let r0 = cb [] (VStr []) NULL h;
         r1 = fold (interp (po_keys root)) its r0;
         r2 = run_cb (po_finiCb root) [] (VStr []) (fst r1) (snd r1)
     in Some (fst r2, [], snd r2))"
  by (rule parse_items [OF assms])

definition log_cb :: "string \<Rightarrow> ptr \<Rightarrow> (string \<times> string \<times> cfg_value) list CFG_parseCB" where
  "log_cb tag result key value data h = (result, h @ [(tag, key, value)])"

definition demo_child :: "(string \<times> string \<times> cfg_value) list CFG_ParseObj" where
  "demo_child = CFG_ParseObj [] (Some (log_cb ''init'' 7)) None [CFG_ParseValue ''b'' None (Some (log_cb ''opt'' 7))]"

definition demo_root :: "(string \<times> string \<times> cfg_value) list CFG_ParseObj" where
  "demo_root = CFG_ParseObj [] (Some (log_cb ''root'' 5)) None
     [CFG_ParseValue ''a'' None (Some (log_cb ''opt'' 5)), CFG_ParseValue ''s'' (Some (CFG_static_obj demo_child)) (Some (log_cb ''obj'' 5))]"

lemma demo_direct: "direct (po_keys demo_root)"
proof -
  have "direct (po_keys demo_child)" by (rule directI) (auto simp: demo_child_def)
  then show ?thesis by (intro directI [of "po_keys demo_root"]) (auto simp: demo_root_def CFG_static_obj_def)
qed

lemma demo_layout:
  "layout [''A=1'', ''<s>'', ''b=2'', ''</s>''] (''A=1'' @ [NL] @ ''#x'' @ [NL] @ ''<s>'' @ [NL] @ '' b=2'' @ [CR, NL, NL] @ ''</s>'' @ [NL])"
proof -
  have "layout [''</s>''] (''</s>'' @ [NL])"
    using layout_line [OF _ _ _ _ layout_end, of "[]" "''</s>''" "[]"] by (simp add: ok_line_def plain_def isblank_def NL_def CR_def)
  then have "layout [''</s>''] ([NL] @ ''</s>'' @ [NL])" using layout_empty [of "[]" "[]"] by simp
  then have "layout [''b=2'', ''</s>''] ('' b=2'' @ [CR, NL, NL] @ ''</s>'' @ [NL])"
    using layout_line [of "'' ''" "''b=2''" "[CR]" "[''</s>'']"] by (simp add: ok_line_def plain_def isblank_def NL_def CR_def)
  then have "layout [''<s>'', ''b=2'', ''</s>''] (''<s>'' @ [NL] @ '' b=2'' @ [CR, NL, NL] @ ''</s>'' @ [NL])"
    using layout_line [of "[]" "''<s>''" "[]" "[''b=2'', ''</s>'']"] by (simp add: ok_line_def plain_def isblank_def NL_def CR_def)
  then have "layout [''<s>'', ''b=2'', ''</s>''] (''#x'' @ [NL] @ ''<s>'' @ [NL] @ '' b=2'' @ [CR, NL, NL] @ ''</s>'' @ [NL])"
    using layout_comment [of "[]" "''#x''" "[]" "[''<s>'', ''b=2'', ''</s>'']"] by (simp add: plain_def NL_def CR_def)
  then show ?thesis
    using layout_line [of "[]" "''A=1''" "[]" "[''<s>'', ''b=2'', ''</s>'']"] by (simp add: ok_line_def plain_def isblank_def NL_def CR_def)
qed

theorem config_parse_interprets_witness:
  "CFG_parseFileAtPath 5 (Some demo_root) (Some (''A=1'' @ [NL] @ ''#x'' @ [NL] @ ''<s>'' @ [NL] @ '' b=2'' @ [CR, NL, NL] @ ''</s>'' @ [NL])) [] =
   Some (5, [], [(''root'', [], VStr []), (''opt'', ''A'', VStr ''1''), (''init'', ''s'', VStr []), (''opt'', ''b'', VStr ''2''), (''obj'', ''s'', VPtr 7)])"
proof -
  have l: "concat (map item_lines [Opt ''A'' ''1'', Sec ''s'' [] [Opt ''b'' ''2'']]) = [''A=1'', ''<s>'', ''b=2'', ''</s>'']"
    by (simp add: header_line_def end_line_def)
  have i: "po_initCb demo_root = Some (log_cb ''root'' 5)" by (simp add: demo_root_def)
  have r: "fold (interp (po_keys demo_root)) [Opt ''A'' ''1'', Sec ''s'' [] [Opt ''b'' ''2'']] (log_cb ''root'' 5 [] (VStr []) NULL []) =
      (5, [(''root'', [], VStr []), (''opt'', ''A'', VStr ''1''), (''init'', ''s'', VStr []), (''opt'', ''b'', VStr ''2''), (''obj'', ''s'', VPtr 7)])"
    by (simp add: demo_root_def demo_child_def find_key_def find_object_def strcaseeq_def tolower_def run_cb_def log_cb_def CFG_static_obj_def init_of_def
        fini_of_def type_keys_def child_keys_def Let_def char_of_def bit_0)
  have f: "po_finiCb demo_root = None" by (simp add: demo_root_def)
  show ?thesis
    using config_parse_interprets [OF i demo_direct, of "[Opt ''A'' ''1'', Sec ''s'' [] [Opt ''b'' ''2'']]", unfolded l, OF _ demo_layout, of 5 "[]",
        unfolded Let_def r]
    by (simp add: f run_cb_def)
qed

text \<open>A root without an initialiser: nothing of the file is read.\<close>

lemma no_initialiser_reads_nothing:
  "po_initCb root = None \<Longrightarrow> po_finiCb root = None \<Longrightarrow> CFG_parseFileAtPath fuel (Some root) (Some txt) h = Some (NULL, [], h)"
  by (simp add: CFG_parseFileAtPath_def run_cb_def start_context_def)

section \<open>Limits\<close>

text \<open>The block for the accumulated text is doubled once at most: a long line does not fit.\<close>

lemma accumulate_long_line: "cf_accum ctx = None \<Longrightarrow> 2047 \<le> length line \<Longrightarrow> accumulate_line line ctx = None"
  by (simp add: accumulate_line_def Let_def size_sub_def)

lemma accumulate_fits:
  "cf_accum ctx = Some a \<Longrightarrow> length a + 3 \<le> cf_len ctx \<Longrightarrow> length a + length line + 2 \<le> 2 * cf_len ctx \<Longrightarrow> cf_len ctx < 2 ^ 32 \<Longrightarrow>
   \<exists>n. accumulate_line line ctx = Some (ctx\<lparr>cf_accum := Some (a @ line @ [NL]), cf_len := n\<rparr>)"
  by (cases "length line < cf_len ctx - length a - 3") (auto simp: accumulate_line_def Let_def size_sub_def intro: exI [of _ "cf_len ctx"] exI [of _ "2 * cf_len ctx"])

text \<open>Text kept for a buffered object that has no end line: once the text is used up, the last line is returned again and again.\<close>

lemma replay_repeats: "cf_replay ctx = None \<Longrightarrow> cf_stop ctx \<Longrightarrow> NextLine ctx = (True, ctx)"
  by (simp add: NextLine_def)

lemma replay_never_ends:
  assumes "cf_replay ctx = None" "cf_stop ctx" "cf_accum ctx = None" "cf_buff ctx = []"
  shows "object_lines fuel parse name None d ctx h = None"
proof (induction fuel)
  case (Suc n)
  have "ctx\<lparr>cf_buff := []\<rparr> = ctx" using assms(4) by simp
  then have "object_lines n parse name None d (ctx\<lparr>cf_buff := []\<rparr>) h = None" using Suc by (simp only:)
  then show ?case using assms replay_repeats [OF assms(1,2)] by (simp add: Let_def processKeyValueLine_def key_part_def child_keys_def find_key_def)
qed simp

section \<open>Integer options\<close>

text \<open>An integer that fits is stored as it is written; a larger one loses its high bits and no error is reported.\<close>

lemma integer_options_stored:
  assumes "- (2 ^ 63) \<le> i" "i < 2 ^ 63"
  shows "CFG_uint32_CB off (VStr (show_int i)) d h = Some (d, h(d + off \<mapsto> C32 (word_of_int i)))"
    "CFG_uint16_CB off (VStr (show_int i)) d h = Some (d, h(d + off \<mapsto> C16 (word_of_int i)))"
    "CFG_int32_CB off (VStr (show_int i)) d h = Some (d, h(d + off \<mapsto> C32 (word_of_int i)))"
    "CFG_int16_CB off (VStr (show_int i)) d h = Some (d, h(d + off \<mapsto> C16 (word_of_int i)))"
  using strtol_show_int [OF _ assms, of 0] by (simp_all add: CFG_uint32_CB_def CFG_uint16_CB_def CFG_int32_CB_def CFG_int16_CB_def)

lemma uint16_option_truncated:
  "CFG_uint16_CB off (VStr ''70000'') d h = Some (d, h(d + off \<mapsto> C16 70000))" "unat (70000 :: 16 word) = 4464"
  by (simp_all add: CFG_uint16_CB_def strtol_def c_integer_def clamp64_def isspace_def is_digit_def digit_value_def Let_def)

lemma option_without_value_crashes:
  "CFG_uint32_CB off VNull d h = None" "CFG_StrdupCB ok off VNull d h = None"
  by (simp_all add: CFG_uint32_CB_def CFG_StrdupCB_def)

section \<open>Arrays\<close>

definition array_ok :: "CFG_Array \<Rightarrow> bool" where
  "array_ok a \<longleftrightarrow> ca_len a \<le> ca_capacity a \<and> (case ca_data a of None \<Rightarrow> ca_capacity a = 0 | Some d \<Rightarrow> length d = ca_capacity a)"

definition array_list :: "CFG_Array \<Rightarrow> ptr list" where
  "array_list a = (case ca_data a of None \<Rightarrow> [] | Some d \<Rightarrow> take (ca_len a) d)"

lemma array_append:
  assumes "array_ok a"
  shows "\<exists>a'. CFG_PtrArrayAppendCB True v a = Some (True, a') \<and> array_ok a' \<and> array_list a' = array_list a @ [v]"
proof (cases "ca_len a = ca_capacity a")
  case True
  then show ?thesis using assms
    by (cases "ca_data a") (auto simp: CFG_PtrArrayAppendCB_def array_ok_def array_list_def Let_def take_Suc_conv_app_nth list_update_append)
next
  case False
  then show ?thesis using assms
    by (cases "ca_data a") (auto simp: CFG_PtrArrayAppendCB_def array_ok_def array_list_def Let_def take_Suc_conv_app_nth)
qed

text \<open>The capacity grows before the memory is there: the append after a failed one writes outside the array.\<close>

lemma array_append_after_failure:
  "array_ok a \<Longrightarrow> ca_len a = ca_capacity a \<Longrightarrow>
   \<exists>a'. CFG_PtrArrayAppendCB False v a = Some (False, a') \<and> \<not> array_ok a' \<and> CFG_PtrArrayAppendCB ok w a' = None"
  by (cases "ca_data a") (auto simp: CFG_PtrArrayAppendCB_def array_ok_def Let_def)

end
