(* ===== verification/Json.thy ===== *)
theory Json
  imports C_Text
begin

text \<open>
  The reader of flat JSON objects (\<open>json.c\<close>), with which the event loop reads the commands of its debugger: a state machine over the characters that
  hands each property to a callback, and the three functions that look one property up.

  \<^item> Pointers into the text are positions. \<open>None\<close> as a result is a read through \<open>NULL\<close> or outside the text.
  \<^item> The callback gets C strings, cut at a terminator inside them.
\<close>

datatype JSONParserMode = START_OBJ | END_OBJ | START_PROP | END_PROP | END_JSON | KEY_QUOTED_ACCUM | VAL_QUOTED_ACCUM | KVP_SEP | START_VAL | VAL_ACCUM

datatype JSONParserResult = PARSE_GOOD | PARSE_NO_ROOT_OBJ | PARSE_STRAY_OBJ | PARSE_UNKNOWN_ERR | PARSE_STRAY_END_OBJ | PARSE_STRAY_QUOTE | PARSE_STRAY_COLIN

definition result_code :: "JSONParserResult \<Rightarrow> int" where
  "result_code r =
     (case r of PARSE_GOOD \<Rightarrow> 0 | PARSE_NO_ROOT_OBJ \<Rightarrow> 1 | PARSE_STRAY_OBJ \<Rightarrow> 2 | PARSE_UNKNOWN_ERR \<Rightarrow> 3 | PARSE_STRAY_END_OBJ \<Rightarrow> 4 | PARSE_STRAY_QUOTE \<Rightarrow> 5
      | PARSE_STRAY_COLIN \<Rightarrow> 6)"

record json_state =
  js_mode :: JSONParserMode
  js_key_start :: "nat option"
  js_key_end :: "nat option"
  js_val_start :: "nat option"
  js_val_end :: "nat option"

definition is_whitespace :: "char \<Rightarrow> bool" where
  "is_whitespace c = (c = CHR '' '' \<or> c = CHR 0x09 \<or> c = CHR 0x0A \<or> c = CHR 0x0D)"

text \<open>The copy into a buffer of \<open>bufsz\<close> bytes: \<open>len\<close> is compared as a \<open>size_t\<close>, so that a negative one counts as too long.\<close>

definition json_copy :: "nat \<Rightarrow> string \<Rightarrow> nat \<Rightarrow> int \<Rightarrow> string option" where
  "json_copy bufsz json start len =
     (let n = (if len < 0 \<or> len \<ge> int bufsz then bufsz - 1 else nat len)
      in if start + n \<le> length json then Some (cstr (take n (drop start json))) else None)"

definition json_setup_cb :: "string \<Rightarrow> nat option \<Rightarrow> nat option \<Rightarrow> nat option \<Rightarrow> nat option \<Rightarrow> (string \<Rightarrow> string \<Rightarrow> 'a \<Rightarrow> 'a) \<Rightarrow> 'a \<Rightarrow> 'a option" where
  "json_setup_cb json key_start key_end val_start val_end itr arg =
     (case (key_start, key_end, val_start, val_end) of
        (Some ks, Some ke, Some vs, Some ve) \<Rightarrow>
          if length json \<le> vs then None
          else (case json_copy 512 json (ks + 1) (int ke - int ks - 1) of
                  None \<Rightarrow> None
                | Some key \<Rightarrow>
                    (case (if json ! vs = QUOTE then json_copy 2048 json (vs + 1) (int ve - int vs - 1) else json_copy 2048 json vs (int ve - int vs + 1)) of
                       None \<Rightarrow> None
                     | Some val \<Rightarrow> Some (itr key val arg)))
      | _ \<Rightarrow> None)"

text \<open>The end of a value: \<open>last\<close> is its last character.\<close>

definition end_value :: "string \<Rightarrow> (string \<Rightarrow> string \<Rightarrow> 'a \<Rightarrow> 'a) \<Rightarrow> nat \<Rightarrow> json_state \<Rightarrow> 'a \<Rightarrow> (json_state \<times> 'a) option" where
  "end_value json itr ve st arg =
     (case json_setup_cb json (js_key_start st) (js_key_end st) (js_val_start st) (Some ve) itr arg of
        None \<Rightarrow> None
      | Some arg1 \<Rightarrow> Some (st\<lparr>js_val_end := Some ve, js_mode := END_PROP\<rparr>, arg1))"

text \<open>A value that is not quoted ends before a white space, a comma or the closing brace.\<close>

definition end_accum :: "string \<Rightarrow> (string \<Rightarrow> string \<Rightarrow> 'a \<Rightarrow> 'a) \<Rightarrow> nat \<Rightarrow> json_state \<Rightarrow> 'a \<Rightarrow> (json_state \<times> 'a) option" where
  "end_accum json itr i st arg = (if js_mode st = VAL_ACCUM then end_value json itr (i - 1) st arg else Some (st, arg))"

definition in_quotes :: "json_state \<Rightarrow> bool" where
  "in_quotes st = (js_mode st = KEY_QUOTED_ACCUM \<or> js_mode st = VAL_QUOTED_ACCUM)"

definition json_step :: "string \<Rightarrow> (string \<Rightarrow> string \<Rightarrow> 'a \<Rightarrow> 'a) \<Rightarrow> char \<Rightarrow> nat \<Rightarrow> json_state \<Rightarrow> 'a \<Rightarrow> ((JSONParserResult \<times> 'a) + (json_state \<times> 'a)) option" where
  "json_step json itr c i st arg =
     (if is_whitespace c then map_option Inr (end_accum json itr i st arg)
      else if c = CHR ''{''
      then if js_mode st = START_OBJ then Some (Inr (st\<lparr>js_mode := START_PROP\<rparr>, arg))
           else if \<not> in_quotes st then Some (Inl (PARSE_STRAY_OBJ, arg)) else Some (Inr (st, arg))
      else if c = CHR ''}''
      then (case end_accum json itr i st arg of
              None \<Rightarrow> None
            | Some (st1, arg1) \<Rightarrow>
                if js_mode st1 = START_PROP \<or> js_mode st1 = END_PROP then Some (Inr (st1\<lparr>js_mode := END_JSON\<rparr>, arg1))
                else if \<not> in_quotes st1 then Some (Inl (PARSE_STRAY_END_OBJ, arg1)) else Some (Inr (st1, arg1)))
      else if c = QUOTE
      then (case js_mode st of
              START_PROP \<Rightarrow>
                Some (Inr (st\<lparr>js_mode := KEY_QUOTED_ACCUM, js_key_start := Some i, js_key_end := None, js_val_start := None, js_val_end := None\<rparr>, arg))
            | KEY_QUOTED_ACCUM \<Rightarrow> Some (Inr (st\<lparr>js_mode := KVP_SEP, js_key_end := Some i\<rparr>, arg))
            | START_VAL \<Rightarrow> Some (Inr (st\<lparr>js_val_start := Some i, js_mode := VAL_QUOTED_ACCUM\<rparr>, arg))
            | VAL_QUOTED_ACCUM \<Rightarrow> map_option Inr (end_value json itr i st arg)
            | _ \<Rightarrow> Some (Inl (PARSE_STRAY_QUOTE, arg)))
      else if c = CHR '',''
      then (case end_accum json itr i st arg of
              None \<Rightarrow> None
            | Some (st1, arg1) \<Rightarrow> Some (Inr (if js_mode st1 = END_PROP then st1\<lparr>js_mode := START_PROP\<rparr> else st1, arg1)))
      else if c = CHR '':''
      then if js_mode st = KVP_SEP then Some (Inr (st\<lparr>js_mode := START_VAL\<rparr>, arg))
           else if \<not> in_quotes st then Some (Inl (PARSE_STRAY_COLIN, arg)) else Some (Inr (st, arg))
      else if js_mode st = START_VAL then Some (Inr (st\<lparr>js_val_start := Some i, js_mode := VAL_ACCUM\<rparr>, arg))
      else Some (Inr (st, arg)))"

definition end_result :: "JSONParserMode \<Rightarrow> JSONParserResult" where
  "end_result md = (case md of END_JSON \<Rightarrow> PARSE_GOOD | START_OBJ \<Rightarrow> PARSE_NO_ROOT_OBJ | _ \<Rightarrow> PARSE_UNKNOWN_ERR)"

text \<open>\<open>n\<close> characters are left at position \<open>i\<close>.\<close>

primrec json_loop :: "nat \<Rightarrow> string \<Rightarrow> (string \<Rightarrow> string \<Rightarrow> 'a \<Rightarrow> 'a) \<Rightarrow> nat \<Rightarrow> json_state \<Rightarrow> 'a \<Rightarrow> (JSONParserResult \<times> 'a) option" where
  "json_loop 0 json itr i st arg = Some (end_result (js_mode st), arg)"
| "json_loop (Suc n) json itr i st arg =
     (if i < length json
      then (case json_step json itr (json ! i) i st arg of
              None \<Rightarrow> None
            | Some (Inl r) \<Rightarrow> Some r
            | Some (Inr (st1, arg1)) \<Rightarrow> json_loop n json itr (i + 1) st1 arg1)
      else None)"

definition json_iterate_props :: "string \<Rightarrow> int \<Rightarrow> (string \<Rightarrow> string \<Rightarrow> 'a \<Rightarrow> 'a) \<Rightarrow> 'a \<Rightarrow> (JSONParserResult \<times> 'a) option" where
  "json_iterate_props json len itr arg =
     json_loop (nat len) json itr 0 \<lparr>js_mode = START_OBJ, js_key_start = None, js_key_end = None, js_val_start = None, js_val_end = None\<rparr> arg"

section \<open>Looking properties up\<close>

definition json_int_itr_cb :: "string \<Rightarrow> string \<Rightarrow> string \<Rightarrow> u32 option \<Rightarrow> u32 option" where
  "json_int_itr_cb wanted prop val params = (if wanted = prop then Some (word_of_int (atol val)) else params)"

definition json_str_itr_cb :: "string \<Rightarrow> string \<Rightarrow> string \<Rightarrow> string option \<Rightarrow> string option" where
  "json_str_itr_cb wanted prop val params = (if wanted = prop then Some val else params)"

definition json_ptr_itr_cb :: "string \<Rightarrow> string \<Rightarrow> string \<Rightarrow> u64 option \<Rightarrow> u64 option" where
  "json_ptr_itr_cb wanted prop val params = (if wanted = prop then Some (word_of_int (fst (strtol 0 val))) else params)"

text \<open>The return code, and what is stored through \<open>out\<close> when something is.\<close>

definition json_get_string_prop :: "string option \<Rightarrow> int \<Rightarrow> string option \<Rightarrow> bool \<Rightarrow> (int \<times> string option option) option" where
  "json_get_string_prop json len prop out =
     (case (json, prop) of
        (Some js, Some wanted) \<Rightarrow>
          if \<not> out then Some (- 1, None)
          else (case json_iterate_props js len (json_str_itr_cb wanted) None of
                  None \<Rightarrow> None
                | Some (err, v) \<Rightarrow> if err \<noteq> PARSE_GOOD then Some (- result_code err, None) else Some (0, Some v))
      | _ \<Rightarrow> Some (- 1, None))"

definition json_get_int_prop :: "string option \<Rightarrow> int \<Rightarrow> string option \<Rightarrow> bool \<Rightarrow> (int \<times> u32 option) option" where
  "json_get_int_prop json len prop out =
     (case (json, prop) of
        (Some js, Some wanted) \<Rightarrow>
          if \<not> out then Some (- 1, None)
          else (case json_iterate_props js len (json_int_itr_cb wanted) None of
                  None \<Rightarrow> None
                | Some (err, v) \<Rightarrow>
                    if err \<noteq> PARSE_GOOD then Some (- result_code err, None)
                    else (case v of None \<Rightarrow> Some (- 2, None) | Some x \<Rightarrow> Some (0, Some x)))
      | _ \<Rightarrow> Some (- 1, None))"

definition json_get_ptr_prop :: "string option \<Rightarrow> int \<Rightarrow> string option \<Rightarrow> bool \<Rightarrow> (int \<times> u64 option) option" where
  "json_get_ptr_prop json len prop out =
     (case (json, prop) of
        (Some js, Some wanted) \<Rightarrow>
          if \<not> out then Some (- 1, None)
          else (case json_iterate_props js len (json_ptr_itr_cb wanted) None of
                  None \<Rightarrow> None
                | Some (err, v) \<Rightarrow>
                    if err \<noteq> PARSE_GOOD then Some (- result_code err, None)
                    else (case v of None \<Rightarrow> Some (- 2, None) | Some x \<Rightarrow> Some (0, Some x)))
      | _ \<Rightarrow> Some (- 1, None))"

section \<open>Safety\<close>

text \<open>What the positions say in each mode, at position \<open>i\<close>.\<close>

definition key_ok :: "nat \<Rightarrow> json_state \<Rightarrow> bool" where
  "key_ok i st = (case (js_key_start st, js_key_end st) of (Some ks, Some ke) \<Rightarrow> ks < ke \<and> ke < i | _ \<Rightarrow> False)"

definition state_ok :: "string \<Rightarrow> nat \<Rightarrow> json_state \<Rightarrow> bool" where
  "state_ok json i st =
     (case js_mode st of
        KEY_QUOTED_ACCUM \<Rightarrow> (case js_key_start st of None \<Rightarrow> False | Some ks \<Rightarrow> ks < i)
      | KVP_SEP \<Rightarrow> key_ok i st
      | START_VAL \<Rightarrow> key_ok i st
      | VAL_QUOTED_ACCUM \<Rightarrow> key_ok i st \<and> (case js_val_start st of None \<Rightarrow> False | Some vs \<Rightarrow> vs < i \<and> json ! vs = QUOTE)
      | VAL_ACCUM \<Rightarrow> key_ok i st \<and> (case js_val_start st of None \<Rightarrow> False | Some vs \<Rightarrow> vs < i \<and> json ! vs \<noteq> QUOTE)
      | _ \<Rightarrow> True)"

lemma json_copy_safe: "0 \<le> len \<Longrightarrow> int start + len \<le> int (length json) \<Longrightarrow> 0 < bufsz \<Longrightarrow> \<exists>s. json_copy bufsz json start len = Some s"
  by (auto simp: json_copy_def Let_def)

lemma setup_cb_safe:
  assumes "ks < ke" "ke < length json" "vs < length json" "ve < length json" "json ! vs = QUOTE \<longrightarrow> vs < ve" "vs \<le> ve"
  shows "\<exists>a. json_setup_cb json (Some ks) (Some ke) (Some vs) (Some ve) itr arg = Some a"
proof -
  obtain k where "json_copy 512 json (ks + 1) (int ke - int ks - 1) = Some k" using assms(1,2) json_copy_safe [of "int ke - int ks - 1" "ks + 1" json 512] by auto
  moreover obtain v where "(if json ! vs = QUOTE then json_copy 2048 json (vs + 1) (int ve - int vs - 1) else json_copy 2048 json vs (int ve - int vs + 1)) = Some v"
    using assms(3-6) json_copy_safe [of "int ve - int vs - 1" "vs + 1" json 2048] json_copy_safe [of "int ve - int vs + 1" vs json 2048] by (cases "json ! vs = QUOTE") auto
  ultimately show ?thesis using assms(3) by (simp add: json_setup_cb_def)
qed

lemma end_value_safe:
  assumes "key_ok i st" "js_val_start st = Some vs" "vs \<le> ve" "ve \<le> i" "i < length json" "json ! vs = QUOTE \<longrightarrow> vs < ve"
  shows "\<exists>st1 a. end_value json itr ve st arg = Some (st1, a) \<and> js_mode st1 = END_PROP"
proof -
  obtain ks ke where k: "js_key_start st = Some ks" "js_key_end st = Some ke" "ks < ke" "ke < i" using assms(1) by (auto simp: key_ok_def split: option.splits)
  then obtain a where "json_setup_cb json (Some ks) (Some ke) (Some vs) (Some ve) itr arg = Some a" using setup_cb_safe [of ks ke json vs ve itr arg] assms by auto
  then show ?thesis using k assms(2) by (simp add: end_value_def)
qed

lemma end_accum_safe:
  assumes "state_ok json i st" "i < length json"
  shows "\<exists>st1 a. end_accum json itr i st arg = Some (st1, a) \<and> (if js_mode st = VAL_ACCUM then js_mode st1 = END_PROP else st1 = st)"
proof (cases "js_mode st = VAL_ACCUM")
  case True
  then obtain vs where v: "key_ok i st" "js_val_start st = Some vs" "vs < i" "json ! vs \<noteq> QUOTE" using assms(1) by (auto simp: state_ok_def split: option.splits)
  then show ?thesis using end_value_safe [OF v(1,2), of "i - 1" json itr arg] assms(2) True by (auto simp: end_accum_def)
qed (simp add: end_accum_def)

lemma key_ok_mono: "key_ok i st \<Longrightarrow> i \<le> j \<Longrightarrow> key_ok j st"
  by (auto simp: key_ok_def split: option.splits)

lemma state_ok_mono: "state_ok json i st \<Longrightarrow> state_ok json (i + 1) st"
  using key_ok_mono [of i st "i + 1"] by (auto simp: state_ok_def split: JSONParserMode.splits option.splits)

lemma key_ok_mode [simp]: "key_ok i (st\<lparr>js_mode := md\<rparr>) = key_ok i st" "key_ok i (st\<lparr>js_val_start := v\<rparr>) = key_ok i st"
  by (simp_all add: key_ok_def)

lemma json_step_safe:
  assumes "state_ok json i st" "i < length json"
  shows "\<exists>r. json_step json itr (json ! i) i st arg = Some r \<and> (\<forall>st1 a. r = Inr (st1, a) \<longrightarrow> state_ok json (i + 1) st1)"
proof -
  obtain st1 a where e: "end_accum json itr i st arg = Some (st1, a)" "if js_mode st = VAL_ACCUM then js_mode st1 = END_PROP else st1 = st"
    using end_accum_safe [OF assms, of itr arg] by blast
  have ok1: "state_ok json (i + 1) st1" using e(2) state_ok_mono [OF assms(1)] by (auto simp: state_ok_def split: if_splits)
  note mono = state_ok_mono [OF assms(1)]
  have md: "state_ok json (i + 1) (st1\<lparr>js_mode := md\<rparr>)" if "md = END_JSON \<or> md = START_PROP" for md using that by (auto simp: state_ok_def)
  consider (ws) "is_whitespace (json ! i)" | (brace) "json ! i = CHR ''}''" | (comma) "json ! i = CHR '',''" | (q) "json ! i = QUOTE"
    | (other) "\<not> is_whitespace (json ! i)" "json ! i \<noteq> CHR ''}''" "json ! i \<noteq> CHR '',''" "json ! i \<noteq> QUOTE" by blast
  then show ?thesis
  proof cases
    case ws
    then show ?thesis using ok1 by (simp add: json_step_def e(1))
  next
    case brace
    then have "\<not> is_whitespace (json ! i)" by (simp add: is_whitespace_def)
    then show ?thesis using brace ok1 md by (simp add: json_step_def e(1))
  next
    case comma
    then have "\<not> is_whitespace (json ! i)" "json ! i \<noteq> QUOTE" by (simp_all add: is_whitespace_def QUOTE_def)
    then show ?thesis using comma ok1 md by (simp add: json_step_def e(1))
  next
    case q
    have "\<not> is_whitespace QUOTE" "QUOTE \<noteq> CHR ''{''" "QUOTE \<noteq> CHR ''}''" by (simp_all add: is_whitespace_def QUOTE_def)
    note nq = this
    have fin: "\<exists>st2 b. end_value json itr i st arg = Some (st2, b) \<and> js_mode st2 = END_PROP" if m: "js_mode st = VAL_QUOTED_ACCUM"
    proof -
      obtain vs where v: "key_ok i st" "js_val_start st = Some vs" "vs < i" using assms(1) m by (auto simp: state_ok_def split: option.splits)
      then show ?thesis using end_value_safe [OF v(1,2), of i json itr arg] assms(2) by auto
    qed
    show ?thesis
    proof (cases "js_mode st = VAL_QUOTED_ACCUM")
      case True
      then show ?thesis using fin q nq by (auto simp: json_step_def state_ok_def)
    next
      case False
      then show ?thesis using q nq assms(1) key_ok_mono [of i st "Suc i"]
        by (cases "js_mode st") (auto simp: json_step_def state_ok_def key_ok_def split: option.splits)
    qed
  next
    case other
    have "state_ok json (i + 1) (st\<lparr>js_val_start := Some i, js_mode := VAL_ACCUM\<rparr>)" if "js_mode st = START_VAL"
      using that assms(1) other(4) key_ok_mono [of i st "Suc i"] by (auto simp: state_ok_def)
    moreover have "state_ok json (i + 1) (st\<lparr>js_mode := START_VAL\<rparr>)" if "js_mode st = KVP_SEP"
      using that assms(1) key_ok_mono [of i st "Suc i"] by (auto simp: state_ok_def)
    moreover have "state_ok json (i + 1) (st\<lparr>js_mode := START_PROP\<rparr>)" by (simp add: state_ok_def)
    ultimately show ?thesis using other mono by (auto simp: json_step_def)
  qed
qed

lemma json_loop_safe: "state_ok json i st \<Longrightarrow> i + n \<le> length json \<Longrightarrow> \<exists>r. json_loop n json itr i st arg = Some r"
proof (induction n arbitrary: i st arg)
  case (Suc n)
  obtain r where r: "json_step json itr (json ! i) i st arg = Some r" "\<And>st1 a. r = Inr (st1, a) \<Longrightarrow> state_ok json (i + 1) st1"
    using json_step_safe [OF Suc.prems(1), of itr arg] Suc.prems(2) by fastforce
  show ?case
  proof (cases r)
    case (Inl x)
    then show ?thesis using r(1) Suc.prems(2) by simp
  next
    case (Inr y)
    then obtain st1 a where y: "r = Inr (st1, a)" by (cases y) auto
    then show ?thesis using Suc.IH [OF r(2) [OF y], of a] r(1) Suc.prems(2) by simp
  qed
qed simp

end
