(* ===== verification/Json_Correct.thy ===== *)
theory Json_Correct
  imports Json
begin

text \<open>
  Reading a flat JSON object gives back its properties: for every object of quoted strings and bare words, with white space anywhere between the
  tokens, the callback is called for each property in order.
\<close>

section \<open>The text of an object\<close>

datatype json_value = JStr string | JWord string

record json_prop =
  jp_key :: string
  jp_val :: json_value
  jp_ws1 :: string
  jp_ws2 :: string
  jp_ws3 :: string
  jp_ws4 :: string

definition special :: "char \<Rightarrow> bool" where
  "special c \<longleftrightarrow> is_whitespace c \<or> c = QUOTE \<or> c = CHR ''{'' \<or> c = CHR ''}'' \<or> c = CHR '','' \<or> c = CHR '':''"

fun value_text :: "json_value \<Rightarrow> string" where
  "value_text (JStr s) = QUOTE # s @ [QUOTE]"
| "value_text (JWord s) = s"

fun value_string :: "json_value \<Rightarrow> string" where
  "value_string (JStr s) = s"
| "value_string (JWord s) = s"

fun value_wf :: "json_value \<Rightarrow> bool" where
  "value_wf (JStr s) = (QUOTE \<notin> set s \<and> CHR 0x00 \<notin> set s \<and> length s < 2048)"
| "value_wf (JWord s) = (s \<noteq> [] \<and> list_all (\<lambda>c. \<not> special c) s \<and> CHR 0x00 \<notin> set s \<and> length s < 2048)"

definition prop_text :: "json_prop \<Rightarrow> string" where
  "prop_text p = jp_ws1 p @ (QUOTE # jp_key p @ [QUOTE]) @ jp_ws2 p @ '':'' @ jp_ws3 p @ value_text (jp_val p) @ jp_ws4 p"

definition prop_wf :: "json_prop \<Rightarrow> bool" where
  "prop_wf p \<longleftrightarrow> list_all is_whitespace (jp_ws1 p @ jp_ws2 p @ jp_ws3 p @ jp_ws4 p) \<and> QUOTE \<notin> set (jp_key p) \<and> CHR 0x00 \<notin> set (jp_key p) \<and>
     length (jp_key p) < 512 \<and> value_wf (jp_val p)"

fun props_text :: "json_prop list \<Rightarrow> string" where
  "props_text [] = []"
| "props_text [p] = prop_text p"
| "props_text (p # q # ps) = prop_text p @ '','' @ props_text (q # ps)"

definition object_text :: "string \<Rightarrow> json_prop list \<Rightarrow> string \<Rightarrow> string \<Rightarrow> string" where
  "object_text pre ps inner post = pre @ ''{'' @ props_text ps @ inner @ ''}'' @ post"

section \<open>Running over a part of the text\<close>

primrec run ::
  "string \<Rightarrow> (string \<Rightarrow> string \<Rightarrow> 'a \<Rightarrow> 'a) \<Rightarrow> string \<Rightarrow> nat \<Rightarrow> json_state \<Rightarrow> 'a \<Rightarrow> ((JSONParserResult \<times> 'a) + (json_state \<times> 'a)) option" where
  "run json itr [] i st arg = Some (Inr (st, arg))"
| "run json itr (c # cs) i st arg =
     (case json_step json itr c i st arg of
        None \<Rightarrow> None
      | Some (Inl r) \<Rightarrow> Some (Inl r)
      | Some (Inr (st1, arg1)) \<Rightarrow> run json itr cs (i + 1) st1 arg1)"

lemma run_append:
  "run json itr (xs @ ys) i st arg =
     (case run json itr xs i st arg of
        None \<Rightarrow> None
      | Some (Inl r) \<Rightarrow> Some (Inl r)
      | Some (Inr (st1, arg1)) \<Rightarrow> run json itr ys (i + length xs) st1 arg1)"
  by (induction xs arbitrary: i st arg) (auto split: option.splits sum.splits)

lemma run_append_Inr:
  "run json itr xs i st arg = Some (Inr (st1, arg1)) \<Longrightarrow> run json itr (xs @ ys) i st arg = run json itr ys (i + length xs) st1 arg1"
  by (simp add: run_append)

lemma run_Cons_Inr:
  "json_step json itr c i st arg = Some (Inr (st1, arg1)) \<Longrightarrow> run json itr (c # ys) i st arg = run json itr ys (i + 1) st1 arg1"
  by simp

lemma loop_run:
  "i + n = length json \<Longrightarrow>
   json_loop n json itr i st arg =
     (case run json itr (drop i json) i st arg of
        None \<Rightarrow> None
      | Some (Inl r) \<Rightarrow> Some r
      | Some (Inr (st1, arg1)) \<Rightarrow> Some (end_result (js_mode st1), arg1))"
proof (induction n arbitrary: i st arg)
  case (Suc n)
  then have "drop i json = json ! i # drop (i + 1) json" by (simp add: Cons_nth_drop_Suc)
  then show ?case using Suc by (auto split: option.splits sum.splits)
qed simp

lemma run_idle:
  "(\<And>c j. c \<in> set xs \<Longrightarrow> json_step json itr c j st arg = Some (Inr (st, arg))) \<Longrightarrow> run json itr xs i st arg = Some (Inr (st, arg))"
  by (induction xs arbitrary: i) auto

lemma step_space: "is_whitespace c \<Longrightarrow> js_mode st \<noteq> VAL_ACCUM \<Longrightarrow> json_step json itr c i st arg = Some (Inr (st, arg))"
  by (simp add: json_step_def end_accum_def)

lemma step_quoted:
  assumes "c \<noteq> QUOTE" "in_quotes st"
  shows "json_step json itr c i st arg = Some (Inr (st, arg))"
proof -
  have "js_mode st \<noteq> VAL_ACCUM" "js_mode st \<noteq> START_OBJ" "js_mode st \<noteq> START_PROP" "js_mode st \<noteq> END_PROP" "js_mode st \<noteq> KVP_SEP" "js_mode st \<noteq> START_VAL"
    using assms(2) by (auto simp: in_quotes_def)
  then show ?thesis using assms by (simp add: json_step_def end_accum_def)
qed

lemma step_word: "\<not> special c \<Longrightarrow> js_mode st = VAL_ACCUM \<Longrightarrow> json_step json itr c i st arg = Some (Inr (st, arg))"
  by (simp add: json_step_def special_def)

lemma run_space: "list_all is_whitespace ws \<Longrightarrow> js_mode st \<noteq> VAL_ACCUM \<Longrightarrow> run json itr ws i st arg = Some (Inr (st, arg))"
  by (intro run_idle step_space) (simp_all add: list_all_iff)

lemma run_quoted: "QUOTE \<notin> set s \<Longrightarrow> in_quotes st \<Longrightarrow> run json itr s i st arg = Some (Inr (st, arg))"
  by (intro run_idle step_quoted) auto

lemma run_word: "list_all (\<lambda>c. \<not> special c) s \<Longrightarrow> js_mode st = VAL_ACCUM \<Longrightarrow> run json itr s i st arg = Some (Inr (st, arg))"
  by (intro run_idle step_word) (simp_all add: list_all_iff)

lemma step_punct [simp]:
  "js_mode st = START_PROP \<Longrightarrow> json_step json itr QUOTE i st arg =
     Some (Inr (st\<lparr>js_mode := KEY_QUOTED_ACCUM, js_key_start := Some i, js_key_end := None, js_val_start := None, js_val_end := None\<rparr>, arg))"
  "js_mode st = KEY_QUOTED_ACCUM \<Longrightarrow> json_step json itr QUOTE i st arg = Some (Inr (st\<lparr>js_mode := KVP_SEP, js_key_end := Some i\<rparr>, arg))"
  "js_mode st = START_VAL \<Longrightarrow> json_step json itr QUOTE i st arg = Some (Inr (st\<lparr>js_val_start := Some i, js_mode := VAL_QUOTED_ACCUM\<rparr>, arg))"
  "js_mode st = KVP_SEP \<Longrightarrow> json_step json itr (CHR '':'') i st arg = Some (Inr (st\<lparr>js_mode := START_VAL\<rparr>, arg))"
  "js_mode st = START_OBJ \<Longrightarrow> json_step json itr (CHR ''{'') i st arg = Some (Inr (st\<lparr>js_mode := START_PROP\<rparr>, arg))"
  "js_mode st = VAL_QUOTED_ACCUM \<Longrightarrow> json_step json itr QUOTE i st arg = map_option Inr (end_value json itr i st arg)"
  by (simp_all add: json_step_def is_whitespace_def QUOTE_def)

section \<open>Values\<close>

text \<open>A key lies between two quotes.\<close>

definition key_at :: "string \<Rightarrow> string \<Rightarrow> json_state \<Rightarrow> bool" where
  "key_at json k st \<longleftrightarrow> (\<exists>ks. js_key_start st = Some ks \<and> js_key_end st = Some (ks + length k + 1) \<and> take (length k) (drop (ks + 1) json) = k \<and>
     ks + 1 + length k \<le> length json) \<and> CHR 0x00 \<notin> set k \<and> length k < 512"

lemma copy_part:
  assumes "take (length v) (drop i json) = v" "i + length v \<le> length json" "CHR 0x00 \<notin> set v" "length v < bufsz"
  shows "json_copy bufsz json i (int (length v)) = Some v"
  using assms by (simp add: json_copy_def cstr_plain Let_def)

lemma setup_cb_calls:
  assumes "key_at json k st" "vs < length json"
    "if json ! vs = QUOTE then i0 = vs + 1 \<and> ve = vs + 1 + length v else i0 = vs \<and> ve + 1 = vs + length v"
    "take (length v) (drop i0 json) = v" "i0 + length v \<le> length json" "CHR 0x00 \<notin> set v" "length v < 2048"
  shows "json_setup_cb json (js_key_start st) (js_key_end st) (Some vs) (Some ve) itr arg = Some (itr k v arg)"
proof -
  obtain ks where k: "js_key_start st = Some ks" "js_key_end st = Some (ks + length k + 1)" "json_copy 512 json (ks + 1) (int (length k)) = Some k"
    using assms(1) copy_part [of k _ json 512] by (auto simp: key_at_def)
  have v: "json_copy 2048 json i0 (int (length v)) = Some v" by (rule copy_part [OF assms(4-7)])
  have "(if json ! vs = QUOTE then json_copy 2048 json (vs + 1) (int ve - int vs - 1) else json_copy 2048 json vs (int ve - int vs + 1)) = Some v"
  proof (cases "json ! vs = QUOTE")
    case True
    then have "int ve - int vs - 1 = int (length v)" "i0 = vs + 1" using assms(3) by auto
    then show ?thesis using True v by simp
  next
    case False
    then have "int ve - int vs + 1 = int (length v)" "i0 = vs" using assms(3) by auto
    then show ?thesis using False v by simp
  qed
  moreover have "json_copy 512 json (ks + 1) (int (ks + length k + 1) - int ks - 1) = Some k" using k(3) by simp
  ultimately show ?thesis using assms(2) unfolding json_setup_cb_def k(1,2) by (simp only: prod.case option.case linorder_not_le if_False simp_thms not_less [symmetric])
qed

lemma drop_nth: "drop i xs = y # ys \<Longrightarrow> i < length xs \<and> xs ! i = y"
  by (metis Cons_nth_drop_Suc drop_all linorder_not_less list.inject list.distinct(1))

lemma drop_more: "drop i xs = ys @ zs \<Longrightarrow> drop (i + length ys) xs = zs"
  by (metis add.commute append_eq_conv_conj drop_drop)

lemma drop_length:
  assumes "drop i xs = ys @ zs" "ys \<noteq> []"
  shows "i + length ys \<le> length xs"
proof -
  have "length xs - i = length ys + length zs" using arg_cong [OF assms(1), of length] by simp
  moreover have "0 < length ys" using assms(2) by simp
  ultimately show ?thesis by linarith
qed

lemma end_step [simp]:
  "js_mode st = END_PROP \<Longrightarrow> json_step json itr (CHR '','') i st arg = Some (Inr (st\<lparr>js_mode := START_PROP\<rparr>, arg))"
  "js_mode st = END_PROP \<Longrightarrow> json_step json itr (CHR ''}'') i st arg = Some (Inr (st\<lparr>js_mode := END_JSON\<rparr>, arg))"
  by (simp_all add: json_step_def is_whitespace_def QUOTE_def end_accum_def)

definition after_close :: "char \<Rightarrow> JSONParserMode" where
  "after_close c = (if c = CHR '','' then START_PROP else END_JSON)"

definition closes :: "char \<Rightarrow> bool" where
  "closes c \<longleftrightarrow> c = CHR '','' \<or> c = CHR ''}''"

lemma run_close:
  assumes "js_mode st = END_PROP" "list_all is_whitespace ws" "closes c"
  shows "\<exists>st1. run json itr (ws @ [c]) i st arg = Some (Inr (st1, arg)) \<and> js_mode st1 = after_close c"
  using assms run_append_Inr [OF run_space [OF assms(2), of st], of json itr "[c]" i arg] by (auto simp: closes_def after_close_def)

lemma run_string_value:
  assumes "js_mode st = START_VAL" "key_at json k st" "drop i json = value_text (JStr s) @ rest" "value_wf (JStr s)"
  shows "\<exists>st1. run json itr (value_text (JStr s)) i st arg = Some (Inr (st1, itr k s arg)) \<and> js_mode st1 = END_PROP"
proof -
  let ?st = "st\<lparr>js_val_start := Some i, js_mode := VAL_QUOTED_ACCUM\<rparr>"
  have i: "i < length json" "json ! i = QUOTE" using drop_nth [of i json] assms(3) by auto
  have d: "drop (i + 1) json = s @ QUOTE # rest" using drop_more [of i json "[QUOTE]"] assms(3) by simp
  have l: "i + 1 + length s \<le> length json" using drop_length [OF assms(3)] by simp
  have "key_at json k ?st" using assms(2) by (simp add: key_at_def)
  then have e: "end_value json itr (i + 1 + length s) ?st arg = Some (?st\<lparr>js_val_end := Some (i + 1 + length s), js_mode := END_PROP\<rparr>, itr k s arg)"
    using setup_cb_calls [of json k ?st i "i + 1" "i + 1 + length s" s itr arg] i d l assms(4) by (simp add: end_value_def)
  have "run json itr (QUOTE # s @ [QUOTE]) i st arg = run json itr (s @ [QUOTE]) (i + 1) ?st arg" by (rule run_Cons_Inr) (simp add: assms(1))
  also have "\<dots> = run json itr [QUOTE] (i + 1 + length s) ?st arg" using assms(4) by (intro run_append_Inr run_quoted) (auto simp: in_quotes_def)
  finally show ?thesis using e by simp
qed

lemma run_word_close:
  assumes "js_mode st = VAL_ACCUM" "js_val_start st = Some vs" "key_at json k st" "drop vs json = s @ c # rest" "value_wf (JWord s)"
    "is_whitespace c \<or> closes c"
  shows "\<exists>st1. run json itr [c] (vs + length s) st arg = Some (Inr (st1, itr k s arg)) \<and>
    js_mode st1 = (if is_whitespace c then END_PROP else after_close c)"
proof -
  have s: "s \<noteq> []" "\<not> special (hd s)" using assms(5) by (auto simp: list_all_iff)
  then have v: "vs < length json" "json ! vs = hd s" using drop_nth [of vs json "hd s" "tl s @ c # rest"] assms(4) by auto
  have l: "vs + length s \<le> length json" using drop_length [OF assms(4)] s(1) by simp
  have "json ! vs \<noteq> QUOTE" using v(2) s(2) by (auto simp: special_def)
  then have "end_value json itr (vs + length s - 1) st arg = Some (st\<lparr>js_val_end := Some (vs + length s - 1), js_mode := END_PROP\<rparr>, itr k s arg)"
    using setup_cb_calls [OF assms(3) v(1), of vs "vs + length s - 1" s itr arg] l assms(2,4,5) s(1) by (simp add: end_value_def Suc_le_eq)
  then have "end_accum json itr (vs + length s) st arg = Some (st\<lparr>js_val_end := Some (vs + length s - 1), js_mode := END_PROP\<rparr>, itr k s arg)"
    using assms(1) by (simp add: end_accum_def)
  then show ?thesis using assms(6) by (auto simp: json_step_def closes_def after_close_def is_whitespace_def QUOTE_def)
qed

lemma run_value:
  assumes "js_mode st = START_VAL" "key_at json k st" "drop i json = value_text v @ ws @ c # rest" "value_wf v" "list_all is_whitespace ws" "closes c"
  shows "\<exists>st1. run json itr (value_text v @ ws @ [c]) i st arg = Some (Inr (st1, itr k (value_string v) arg)) \<and> js_mode st1 = after_close c"
proof (cases v)
  case (JStr s)
  obtain st1 where "run json itr (value_text v) i st arg = Some (Inr (st1, itr k s arg))" "js_mode st1 = END_PROP"
    using run_string_value [OF assms(1,2), of i s "ws @ c # rest" itr arg] assms(3,4) unfolding JStr by (auto simp del: run.simps)
  then show ?thesis using run_close [OF _ assms(5,6), of st1 json itr "i + length (value_text v)" "itr k s arg"] run_append_Inr [of json itr "value_text v" i st arg st1 "itr k s arg" "ws @ [c]"] JStr
    by (simp del: run.simps value_text.simps)
next
  case (JWord s)
  then obtain a s' where s: "s = a # s'" "\<not> special a" "list_all (\<lambda>c. \<not> special c) s'" using assms(4) by (cases s) auto
  let ?st = "st\<lparr>js_val_start := Some i, js_mode := VAL_ACCUM\<rparr>"
  have k: "key_at json k ?st" using assms(2) by (simp add: key_at_def)
  have "run json itr ((a # s') @ ys) i st arg = run json itr (s' @ ys) (i + 1) ?st arg" for ys
    unfolding append_Cons by (rule run_Cons_Inr) (use s(2) assms(1) in \<open>simp add: json_step_def special_def\<close>)
  then have "run json itr (s @ ys) i st arg = run json itr ys (i + length s) ?st arg" for ys
    using run_append_Inr [OF run_word [OF s(3), of ?st], of json itr _ "i + 1" arg] s(1) by simp
  note r = this
  show ?thesis
  proof (cases ws)
    case Nil
    have "\<not> is_whitespace c" using assms(6) by (auto simp: closes_def is_whitespace_def)
    then show ?thesis using run_word_close [OF _ _ k, of i s c rest itr arg] assms(3,4,6) JWord Nil r [of "[c]"] by simp
  next
    case (Cons w ws')
    obtain st1 where "run json itr [w] (i + length s) ?st arg = Some (Inr (st1, itr k s arg))" "js_mode st1 = END_PROP"
      using run_word_close [OF _ _ k, of i s w "ws' @ c # rest" itr arg] assms(3,4,5) JWord Cons by auto
    moreover have "list_all is_whitespace ws'" using assms(5) Cons by simp
    ultimately show ?thesis
      using run_close [of st1 ws' c json itr "i + length s + 1" "itr k s arg"] run_append_Inr [of json itr "[w]" "i + length s" ?st arg st1 _ "ws' @ [c]"]
        r [of "ws @ [c]"] assms(6) JWord Cons by simp
  qed
qed

section \<open>Objects\<close>

lemma run_prop:
  assumes "js_mode st = START_PROP" "drop i json = prop_text p @ c # rest" "prop_wf p" "closes c"
  shows "\<exists>st1. run json itr (prop_text p @ [c]) i st arg = Some (Inr (st1, itr (jp_key p) (value_string (jp_val p)) arg)) \<and> js_mode st1 = after_close c"
proof -
  obtain k v w1 w2 w3 w4 where p: "jp_key p = k" "jp_val p = v" "jp_ws1 p = w1" "jp_ws2 p = w2" "jp_ws3 p = w3" "jp_ws4 p = w4" by blast
  have wf: "list_all is_whitespace w1" "list_all is_whitespace w2" "list_all is_whitespace w3" "list_all is_whitespace w4" "QUOTE \<notin> set k"
    "CHR 0x00 \<notin> set k" "length k < 512" "value_wf v" using assms(3) p by (auto simp: prop_wf_def)
  define i1 where "i1 = i + length w1"
  define i2 where "i2 = i1 + 1 + length k"
  define i3 where "i3 = i2 + 1 + length w2 + 1 + length w3"
  let ?st1 = "st\<lparr>js_mode := KEY_QUOTED_ACCUM, js_key_start := Some i1, js_key_end := None, js_val_start := None, js_val_end := None\<rparr>"
  let ?st2 = "?st1\<lparr>js_mode := KVP_SEP, js_key_end := Some i2\<rparr>"
  let ?st3 = "?st2\<lparr>js_mode := START_VAL\<rparr>"
  let ?tail = "value_text v @ w4 @ [c]"
  have d1: "drop i1 json = QUOTE # k @ QUOTE # w2 @ CHR '':'' # w3 @ value_text v @ w4 @ c # rest"
    using drop_more [of i json w1] assms(2) p by (simp add: prop_text_def i1_def)
  have d2: "drop (i1 + 1) json = k @ QUOTE # w2 @ CHR '':'' # w3 @ value_text v @ w4 @ c # rest" using drop_more [of i1 json "[QUOTE]"] d1 by simp
  have d3: "drop i3 json = value_text v @ w4 @ c # rest"
    using drop_more [of "i1 + 1" json "k @ QUOTE # w2 @ CHR '':'' # w3"] d2 by (simp add: i2_def i3_def add.assoc add.commute add.left_commute)
  have "i1 + 1 + length k \<le> length json" using drop_length [of i1 json "QUOTE # k"] d1 by simp
  then have key: "key_at json k ?st3" using d2 wf(6,7) by (simp add: key_at_def i2_def)
  have "run json itr (prop_text p @ [c]) i st arg = run json itr (QUOTE # k @ QUOTE # w2 @ CHR '':'' # w3 @ ?tail) i1 st arg"
    using run_append_Inr [OF run_space [OF wf(1), of st], of json itr _ i arg] assms(1) p by (simp add: prop_text_def i1_def)
  also have "\<dots> = run json itr (k @ QUOTE # w2 @ CHR '':'' # w3 @ ?tail) (i1 + 1) ?st1 arg" by (rule run_Cons_Inr) (simp add: assms(1))
  also have "\<dots> = run json itr (QUOTE # w2 @ CHR '':'' # w3 @ ?tail) i2 ?st1 arg"
    unfolding i2_def by (intro run_append_Inr run_quoted wf(5)) (simp add: in_quotes_def)
  also have "\<dots> = run json itr (w2 @ CHR '':'' # w3 @ ?tail) (i2 + 1) ?st2 arg" by (rule run_Cons_Inr) simp
  also have "\<dots> = run json itr (CHR '':'' # w3 @ ?tail) (i2 + 1 + length w2) ?st2 arg" by (intro run_append_Inr run_space wf(2)) simp
  also have "\<dots> = run json itr (w3 @ ?tail) (i2 + 1 + length w2 + 1) ?st3 arg" by (rule run_Cons_Inr) simp
  also have "\<dots> = run json itr ?tail i3 ?st3 arg" unfolding i3_def by (intro run_append_Inr run_space wf(3)) simp
  finally show ?thesis using run_value [OF _ key d3 wf(8,4) assms(4), of itr arg] p by simp
qed

lemma run_props:
  assumes "js_mode st = START_PROP" "drop i json = props_text ps @ inner @ ''}'' @ rest" "list_all prop_wf ps" "list_all is_whitespace inner" "ps \<noteq> [] \<longrightarrow> inner = []"
  shows "\<exists>st1. run json itr (props_text ps @ inner @ ''}'') i st arg =
      Some (Inr (st1, fold (\<lambda>p. itr (jp_key p) (value_string (jp_val p))) ps arg)) \<and> js_mode st1 = END_JSON"
  using assms
proof (induction ps arbitrary: i st arg rule: props_text.induct)
  case 1
  have "run json itr (inner @ ''}'') i st arg = run json itr ''}'' (i + length inner) st arg" using 1 by (intro run_append_Inr run_space) auto
  then show ?case using 1(1) by (simp add: json_step_def is_whitespace_def end_accum_def)
next
  case (2 p)
  then show ?case using run_prop [of st i json p "CHR ''}''" rest itr arg] by (simp add: closes_def after_close_def)
next
  case (3 p q ps)
  obtain st1 where r: "run json itr (prop_text p @ '','') i st arg = Some (Inr (st1, itr (jp_key p) (value_string (jp_val p)) arg))" "js_mode st1 = START_PROP"
    using run_prop [of st i json p "CHR '',''" "props_text (q # ps) @ inner @ ''}'' @ rest" itr arg] 3(2-) by (auto simp: closes_def after_close_def)
  have d: "drop (i + length (prop_text p @ '','')) json = props_text (q # ps) @ inner @ ''}'' @ rest"
    using drop_more [of i json "prop_text p @ '',''" "props_text (q # ps) @ inner @ ''}'' @ rest"] 3(3) by simp
  show ?case
    using 3(1) [OF r(2) d] 3(4-) run_append_Inr [OF r(1), of "props_text (q # ps) @ inner @ ''}''"] by simp
qed

text \<open>
  C31: the reader calls its callback for exactly the properties of a flat object, in order, each with its key and its value, and accepts the object,
  whatever white space stands between the tokens; and for any characters at all it stays inside the text and returns.
\<close>

theorem json_object_read:
  assumes "list_all prop_wf ps" "list_all is_whitespace (pre @ inner @ post)" "ps \<noteq> [] \<longrightarrow> inner = []"
    "json = object_text pre ps inner post" "int (length any) \<ge> len"
  shows "json_iterate_props json (int (length json)) itr arg = Some (PARSE_GOOD, fold (\<lambda>p. itr (jp_key p) (value_string (jp_val p))) ps arg) \<and>
    (\<exists>r. json_iterate_props any len itr arg = Some r)"
proof
  let ?st = "\<lparr>js_mode = START_OBJ, js_key_start = None, js_key_end = None, js_val_start = None, js_val_end = None\<rparr>"
  let ?st1 = "?st\<lparr>js_mode := START_PROP\<rparr>"
  have ws: "list_all is_whitespace pre" "list_all is_whitespace inner" "list_all is_whitespace post" using assms(2) by auto
  have d: "drop (length pre + 1) json = props_text ps @ inner @ ''}'' @ post" by (simp add: assms(4) object_text_def)
  obtain st1 where r: "run json itr (props_text ps @ inner @ ''}'') (length pre + 1) ?st1 arg =
      Some (Inr (st1, fold (\<lambda>p. itr (jp_key p) (value_string (jp_val p))) ps arg))" "js_mode st1 = END_JSON"
    using run_props [OF _ d assms(1) ws(2) assms(3), of ?st1 itr arg] by auto
  have "run json itr json 0 ?st arg = run json itr (''{'' @ props_text ps @ inner @ ''}'' @ post) (0 + length pre) ?st arg"
    unfolding assms(4) object_text_def by (intro run_append_Inr run_space ws) simp
  also have "\<dots> = run json itr ((props_text ps @ inner @ ''}'') @ post) (length pre + 1) ?st1 arg" by simp
  also have "\<dots> = Some (Inr (st1, fold (\<lambda>p. itr (jp_key p) (value_string (jp_val p))) ps arg))"
    unfolding run_append_Inr [OF r(1)] by (intro run_space ws) (simp add: r(2))
  finally show "json_iterate_props json (int (length json)) itr arg = Some (PARSE_GOOD, fold (\<lambda>p. itr (jp_key p) (value_string (jp_val p))) ps arg)"
    using loop_run [of 0 "length json" json itr ?st arg] r(2) by (simp add: json_iterate_props_def end_result_def)
  show "\<exists>r. json_iterate_props any len itr arg = Some r"
    unfolding json_iterate_props_def using assms(5) by (intro json_loop_safe) (auto simp: state_ok_def)
qed

definition demo_props :: "json_prop list" where
  "demo_props = [\<lparr>jp_key = ''cmd'', jp_val = JStr ''next, {x}'', jp_ws1 = [], jp_ws2 = [], jp_ws3 = '' '', jp_ws4 = []\<rparr>,
     \<lparr>jp_key = ''id'', jp_val = JWord ''42'', jp_ws1 = '' '', jp_ws2 = [], jp_ws3 = [], jp_ws4 = []\<rparr>]"

theorem json_object_read_witness:
  "json_get_int_prop (Some (object_text [] demo_props [] [])) 29 (Some ''id'') True = Some (0, Some 42)"
proof -
  have t: "int (length (object_text [] demo_props [] [])) = 29"
    by (simp add: object_text_def demo_props_def prop_text_def)
  have w: "list_all prop_wf demo_props" by (simp add: demo_props_def prop_wf_def special_def is_whitespace_def QUOTE_def)
  have "json_iterate_props (object_text [] demo_props [] []) 29 (json_int_itr_cb ''id'') None =
      Some (PARSE_GOOD, fold (\<lambda>p. json_int_itr_cb ''id'' (jp_key p) (value_string (jp_val p))) demo_props None)"
    using json_object_read [OF w, of "[]" "[]" "[]" "object_text [] demo_props [] []" 0 "[]" "json_int_itr_cb ''id''" None] t by simp
  then show ?thesis
    by (simp add: json_get_int_prop_def demo_props_def json_int_itr_cb_def atol_def strtol_def c_integer_def clamp64_def isspace_def is_digit_def
        digit_value_def Let_def)
qed

section \<open>Limits\<close>

text \<open>Escapes are not known: an escaped quote ends the value, and the rest of the text is an error.\<close>

lemma escaped_quote_rejected:
  "json_get_string_prop (Some (''{'' @ [QUOTE] @ ''a'' @ [QUOTE] @ '':'' @ [QUOTE, CHR 0x5C, QUOTE] @ ''b'' @ [QUOTE] @ ''}'')) 11 (Some ''a'') True = Some (- 5, None)"
  by (simp add: json_get_string_prop_def json_iterate_props_def json_step_def is_whitespace_def QUOTE_def end_accum_def end_value_def json_setup_cb_def json_copy_def
      cstr_def in_quotes_def result_code_def Let_def eval_nat_numeral)

text \<open>A string property that is not there is reported as found, with \<open>NULL\<close> as its value; an integer that is not there is an error.\<close>

lemma missing_property:
  "json_get_string_prop (Some ''{}'') 2 (Some ''a'') True = Some (0, Some None)"
  "json_get_int_prop (Some ''{}'') 2 (Some ''a'') True = Some (- 2, None)"
  by (simp_all add: json_get_string_prop_def json_get_int_prop_def json_iterate_props_def json_step_def is_whitespace_def end_accum_def end_result_def eval_nat_numeral)

end
