(* ===== verification/Plugins.thy ===== *)
theory Plugins
  imports C_Text
begin

text \<open>
  Plugins (\<open>plugin.c\<close>): sets of plugins, the directories they are loaded from, and looking a plugin up by name.

  \<^item> The file system and the plugins themselves are arguments: \<open>pe_opendir\<close> lists a directory, \<open>pe_init\<close> is what the initialisation function of a
    file registers, in order, \<open>None\<close> when the file cannot be loaded or has no such function.
  \<^item> A registration may configure a set that is new, which loads further files: \<open>load\<close> stands for the function that loads a file, and the fuel
    counts the nesting. \<open>None\<close> as a result is fuel that does not suffice.
  \<^item> A directory is known by its path, which occurs once in the list of all directories.
\<close>

record Plugin =
  pg_name :: string
  pg_cfg :: ptr
  pg_factory :: ptr

record PluginSet =
  set_prefix :: string
  set_initial_paths :: "string option"

record PluginSetData =
  sd_dirs :: "string list"
  sd_plugins :: "(Plugin \<times> ptr) list"
  sd_name_lc :: string

record pl_env =
  pe_sets :: "nat \<Rightarrow> PluginSet"
  pe_opendir :: "string \<Rightarrow> string list option"
  pe_init :: "string \<Rightarrow> (nat \<times> Plugin \<times> ptr) list option"

record pl_state =
  pl_dirs :: "(string \<times> bool) list"
  pl_data :: "nat \<Rightarrow> PluginSetData option"

type_synonym loader = "string \<Rightarrow> pl_state \<Rightarrow> pl_state option"

section \<open>Directories\<close>

definition PL_PRELOAD_PREFIX :: string where "PL_PRELOAD_PREFIX = ''preload-''"
definition PL_PLUGIN_SUFFIX :: string where "PL_PLUGIN_SUFFIX = ''.so''"

definition is_preload :: "string \<Rightarrow> bool" where
  "is_preload name \<longleftrightarrow> name \<noteq> [] \<and> hd name \<noteq> CHR ''.'' \<and> take 8 name = PL_PRELOAD_PREFIX \<and> drop (length name - 3) name = PL_PLUGIN_SUFFIX"

primrec load_all :: "loader \<Rightarrow> string list \<Rightarrow> pl_state \<Rightarrow> pl_state option" where
  "load_all load [] st = Some st"
| "load_all load (f # fs) st = (case load f st of None \<Rightarrow> None | Some st1 \<Rightarrow> load_all load fs st1)"

definition set_preloaded :: "string \<Rightarrow> pl_state \<Rightarrow> pl_state" where
  "set_preloaded dir st = st\<lparr>pl_dirs := map (\<lambda>(p, b). if p = dir then (p, True) else (p, b)) (pl_dirs st)\<rparr>"

definition preload_directory :: "pl_env \<Rightarrow> loader \<Rightarrow> string \<Rightarrow> pl_state \<Rightarrow> pl_state option" where
  "preload_directory env load dir st =
     (case pe_opendir env dir of
        None \<Rightarrow> Some st
      | Some names \<Rightarrow>
          (case load_all load (map (\<lambda>n. dir @ ''/'' @ n) (filter is_preload names)) st of None \<Rightarrow> None | Some st1 \<Rightarrow> Some (set_preloaded dir st1)))"

definition find_directory :: "string \<Rightarrow> pl_state \<Rightarrow> pl_state" where
  "find_directory name st = (if name \<in> fst ` set (pl_dirs st) then st else st\<lparr>pl_dirs := (name, False) # pl_dirs st\<rparr>)"

definition preloaded :: "string \<Rightarrow> pl_state \<Rightarrow> bool" where
  "preloaded name st = (map_of (pl_dirs st) name = Some True)"

text \<open>Whether the directory can be used.\<close>

definition configure_directory :: "pl_env \<Rightarrow> loader \<Rightarrow> string \<Rightarrow> pl_state \<Rightarrow> (bool \<times> pl_state) option" where
  "configure_directory env load name st =
     (if name = [] then Some (False, st)
      else
        let st1 = find_directory name st
        in case (if preloaded name st1 then Some st1 else preload_directory env load name st1) of
             None \<Rightarrow> None
           | Some st2 \<Rightarrow> Some (preloaded name st2, st2))"

section \<open>Sets\<close>

function path_pieces :: "string \<Rightarrow> string list" where
  "path_pieces paths =
     (if paths = [] then []
      else
        let piece = takeWhile (\<lambda>c. c \<noteq> CHR '','') paths; dir = rev (dropWhile (\<lambda>c. c = CHR ''/'') (rev piece))
        in dir # (if CHR '','' \<in> set paths then path_pieces (drop (length piece + 1) paths) else []))"
  by pat_completeness auto
termination by (relation "measure length") auto

declare path_pieces.simps [simp del]

primrec configure_paths :: "pl_env \<Rightarrow> loader \<Rightarrow> nat \<Rightarrow> string list \<Rightarrow> pl_state \<Rightarrow> pl_state option" where
  "configure_paths env load s [] st = Some st"
| "configure_paths env load s (d # ds) st =
     (case configure_directory env load d st of
        None \<Rightarrow> None
      | Some (ok, st1) \<Rightarrow>
          configure_paths env load s ds
            (if ok then st1\<lparr>pl_data := (pl_data st1)(s := map_option (\<lambda>data. data\<lparr>sd_dirs := d # sd_dirs data\<rparr>) (pl_data st1 s))\<rparr> else st1))"

definition configure_set :: "pl_env \<Rightarrow> loader \<Rightarrow> nat \<Rightarrow> pl_state \<Rightarrow> pl_state option" where
  "configure_set env load s st =
     (let sd = pe_sets env s;
          st1 = st\<lparr>pl_data := (pl_data st)(s \<mapsto> \<lparr>sd_dirs = [], sd_plugins = [], sd_name_lc = map tolower (set_prefix sd)\<rparr>)\<rparr>
      in case set_initial_paths sd of None \<Rightarrow> Some st1 | Some paths \<Rightarrow> configure_paths env load s (path_pieces paths) st1)"

definition ensure_set :: "pl_env \<Rightarrow> loader \<Rightarrow> nat \<Rightarrow> pl_state \<Rightarrow> pl_state option" where
  "ensure_set env load s st = (if pl_data st s = None then configure_set env load s st else Some st)"

definition PL_register :: "pl_env \<Rightarrow> loader \<Rightarrow> nat option \<Rightarrow> Plugin \<Rightarrow> ptr \<Rightarrow> pl_state \<Rightarrow> (int \<times> pl_state) option" where
  "PL_register env load sopt plugin opaque st =
     (case sopt of
        None \<Rightarrow> Some (- 1, st)
      | Some s \<Rightarrow>
          (case ensure_set env load s st of
             None \<Rightarrow> None
           | Some st1 \<Rightarrow>
               (case pl_data st1 s of
                  None \<Rightarrow> Some (- 2, st1)
                | Some data \<Rightarrow> Some (0, st1\<lparr>pl_data := (pl_data st1)(s \<mapsto> data\<lparr>sd_plugins := (plugin, opaque) # sd_plugins data\<rparr>)\<rparr>))))"

primrec register_all :: "pl_env \<Rightarrow> loader \<Rightarrow> (nat \<times> Plugin \<times> ptr) list \<Rightarrow> pl_state \<Rightarrow> pl_state option" where
  "register_all env load [] st = Some st"
| "register_all env load (r # rs) st =
     (case PL_register env load (Some (fst r)) (fst (snd r)) (snd (snd r)) st of None \<Rightarrow> None | Some (rc, st1) \<Rightarrow> register_all env load rs st1)"

primrec load_plugin_file :: "nat \<Rightarrow> pl_env \<Rightarrow> loader" where
  "load_plugin_file 0 env file1 st = None"
| "load_plugin_file (Suc n) env file1 st = (case pe_init env file1 of None \<Rightarrow> Some st | Some regs \<Rightarrow> register_all env (load_plugin_file n env) regs st)"

section \<open>Lookup\<close>

definition match_plugin :: "string \<Rightarrow> (Plugin \<times> ptr) list \<Rightarrow> (Plugin \<times> ptr) option" where
  "match_plugin name ps = find (\<lambda>p. strcaseeq (pg_name (fst p)) name) ps"

definition plugin_path :: "string \<Rightarrow> string \<Rightarrow> string \<Rightarrow> string" where
  "plugin_path dir set_lc name = take 2047 (dir @ ''/'' @ set_lc @ ''-'' @ map tolower name @ PL_PLUGIN_SUFFIX)"

definition find_plugin :: "nat \<Rightarrow> pl_env \<Rightarrow> nat option \<Rightarrow> string \<Rightarrow> bool \<Rightarrow> pl_state \<Rightarrow> ((Plugin \<times> ptr) option \<times> pl_state) option" where
  "find_plugin fuel env sopt name dont_load st =
     (case sopt of
        None \<Rightarrow> Some (None, st)
      | Some s \<Rightarrow>
          (case ensure_set env (load_plugin_file fuel env) s st of
             None \<Rightarrow> None
           | Some st1 \<Rightarrow>
               (case pl_data st1 s of
                  None \<Rightarrow> Some (None, st1)
                | Some data \<Rightarrow>
                    (case match_plugin name (sd_plugins data) of
                       Some p \<Rightarrow> Some (Some p, st1)
                     | None \<Rightarrow>
                         if dont_load then Some (None, st1)
                         else (case load_all (load_plugin_file fuel env) (map (\<lambda>d. plugin_path d (sd_name_lc data) name) (sd_dirs data)) st1 of
                                 None \<Rightarrow> None
                               | Some st2 \<Rightarrow>
                                   Some ((case pl_data st2 s of None \<Rightarrow> None | Some data2 \<Rightarrow> match_plugin name (sd_plugins data2)), st2))))))"

text \<open>\<open>factory\<close> is the call of the factory of a plugin.\<close>

definition PL_create_object ::
  "nat \<Rightarrow> pl_env \<Rightarrow> (ptr \<Rightarrow> ptr \<Rightarrow> ptr \<Rightarrow> ptr \<Rightarrow> ptr) \<Rightarrow> nat option \<Rightarrow> string \<Rightarrow> ptr \<Rightarrow> ptr \<Rightarrow> pl_state \<Rightarrow> (ptr \<times> pl_state) option" where
  "PL_create_object fuel env factory sopt name cfg extra st =
     (case find_plugin fuel env sopt name False st of
        None \<Rightarrow> None
      | Some (None, st1) \<Rightarrow> Some (0, st1)
      | Some (Some (p, opaque), st1) \<Rightarrow> Some (if pg_factory p = 0 then 0 else factory (pg_factory p) cfg opaque extra, st1))"

definition PL_config_for_plugin :: "nat \<Rightarrow> pl_env \<Rightarrow> nat option \<Rightarrow> string \<Rightarrow> bool \<Rightarrow> pl_state \<Rightarrow> (ptr \<times> pl_state) option" where
  "PL_config_for_plugin fuel env sopt name defer_load st =
     (case find_plugin fuel env sopt name defer_load st of
        None \<Rightarrow> None
      | Some (None, st1) \<Rightarrow> Some (0, st1)
      | Some (Some (p, opaque), st1) \<Rightarrow> Some (pg_cfg p, st1))"

text \<open>The description of the object, and the flag that asks for its text to be buffered.\<close>

definition PL_objectlookup :: "nat \<Rightarrow> pl_env \<Rightarrow> nat option \<Rightarrow> string \<Rightarrow> bool \<Rightarrow> pl_state \<Rightarrow> (ptr \<times> bool \<times> pl_state) option" where
  "PL_objectlookup fuel env sopt params buffer_obj st =
     map_option (\<lambda>(cfg, st1). (cfg, False, st1)) (PL_config_for_plugin fuel env sopt params False st)"

definition PL_objectlookup_w_buffer :: "nat \<Rightarrow> pl_env \<Rightarrow> nat option \<Rightarrow> string \<Rightarrow> bool \<Rightarrow> pl_state \<Rightarrow> (ptr \<times> bool \<times> pl_state) option" where
  "PL_objectlookup_w_buffer fuel env sopt params buffer_obj st =
     map_option (\<lambda>(cfg, st1). (cfg, buffer_obj, st1)) (PL_config_for_plugin fuel env sopt params buffer_obj st)"

definition PL_preload_plugins :: "nat \<Rightarrow> pl_env \<Rightarrow> nat option \<Rightarrow> pl_state \<Rightarrow> pl_state option" where
  "PL_preload_plugins fuel env sopt st = (case sopt of None \<Rightarrow> Some st | Some s \<Rightarrow> ensure_set env (load_plugin_file fuel env) s st)"

section \<open>Loading ends\<close>

definition unconf :: "nat set \<Rightarrow> pl_state \<Rightarrow> nat set" where
  "unconf S st = {s \<in> S. pl_data st s = None}"

text \<open>Configured sets stay configured, and their plugins are only added to.\<close>

definition grows :: "pl_state \<Rightarrow> pl_state \<Rightarrow> bool" where
  "grows st st' \<longleftrightarrow> (\<forall>s data. pl_data st s = Some data \<longrightarrow> (\<exists>data' xs. pl_data st' s = Some data' \<and> sd_plugins data' = xs @ sd_plugins data))"

lemma growsD: "grows st st' \<Longrightarrow> pl_data st s = Some data \<Longrightarrow> \<exists>data' xs. pl_data st' s = Some data' \<and> sd_plugins data' = xs @ sd_plugins data"
  unfolding grows_def by blast

lemma grows_refl [simp, intro]: "grows st st"
  by (simp add: grows_def)

lemma grows_trans [trans]: "grows st1 st2 \<Longrightarrow> grows st2 st3 \<Longrightarrow> grows st1 st3"
  by (subst grows_def) (fastforce dest!: growsD)

lemma unconf_grows: "grows st st' \<Longrightarrow> unconf S st' \<subseteq> unconf S st"
proof (rule subsetI)
  fix s assume "grows st st'" "s \<in> unconf S st'"
  then show "s \<in> unconf S st" by (cases "pl_data st s") (auto simp: unconf_def dest: growsD)
qed

lemma grows_dirs [simp]: "grows (st\<lparr>pl_dirs := d\<rparr>) st' = grows st st'" "grows st (st'\<lparr>pl_dirs := d\<rparr>) = grows st st'"
  by (simp_all add: grows_def)

text \<open>A loader that is good on states with at most \<open>n\<close> sets still to be configured.\<close>

definition good :: "nat set \<Rightarrow> nat \<Rightarrow> loader \<Rightarrow> bool" where
  "good S n load \<longleftrightarrow> (\<forall>f st. card (unconf S st) < n \<longrightarrow> (\<exists>st'. load f st = Some st' \<and> grows st st'))"

definition closed_env :: "nat set \<Rightarrow> pl_env \<Rightarrow> bool" where
  "closed_env S env \<longleftrightarrow> finite S \<and> (\<forall>f regs. pe_init env f = Some regs \<longrightarrow> fst ` set regs \<subseteq> S)"

lemma card_grows: "finite S \<Longrightarrow> grows st st' \<Longrightarrow> card (unconf S st) < n \<Longrightarrow> card (unconf S st') < n"
  using card_mono [of "unconf S st" "unconf S st'"] unconf_grows [of st st' S] by (auto simp: unconf_def)

lemma good_load_all:
  assumes "finite S" "good S n load" "card (unconf S st) < n"
  shows "\<exists>st'. load_all load fs st = Some st' \<and> grows st st'"
  using assms(3)
proof (induction fs arbitrary: st)
  case (Cons f fs)
  obtain st1 where l: "load f st = Some st1" "grows st st1" using assms(2) Cons.prems by (auto simp: good_def)
  then obtain st' where "load_all load fs st1 = Some st'" "grows st1 st'" using Cons.IH [OF card_grows [OF assms(1) l(2) Cons.prems]] by blast
  then show ?case using l(1) grows_trans [OF l(2), of st'] by simp
qed auto

lemma good_configure_directory:
  assumes "finite S" "good S n load" "card (unconf S st) < n"
  shows "\<exists>ok st'. configure_directory env load d st = Some (ok, st') \<and> grows st st'"
proof -
  let ?st = "find_directory d st"
  have g: "grows st ?st" "card (unconf S ?st) < n" using assms(3) by (auto simp: find_directory_def unconf_def)
  have "\<exists>st2. preload_directory env load d ?st = Some st2 \<and> grows ?st st2"
  proof (cases "pe_opendir env d")
    case (Some ns)
    then show ?thesis
      using good_load_all [OF assms(1,2) g(2), of "map (\<lambda>n. d @ ''/'' @ n) (filter is_preload ns)"] by (auto simp: preload_directory_def set_preloaded_def)
  qed (simp add: preload_directory_def)
  then obtain st2 where "preload_directory env load d ?st = Some st2" "grows ?st st2" by blast
  then show ?thesis using g(1) grows_trans [OF g(1), of st2] by (cases "preloaded d ?st") (auto simp: configure_directory_def Let_def)
qed

lemma good_configure_paths:
  assumes "finite S" "good S n load" "card (unconf S st) < n"
  shows "\<exists>st'. configure_paths env load s ds st = Some st' \<and> grows st st'"
  using assms(3)
proof (induction ds arbitrary: st)
  case (Cons d ds)
  obtain ok st1 where c: "configure_directory env load d st = Some (ok, st1)" "grows st st1" using good_configure_directory [OF assms(1,2) Cons.prems] by blast
  define st2 where "st2 = (if ok then st1\<lparr>pl_data := (pl_data st1)(s := map_option (\<lambda>data. data\<lparr>sd_dirs := d # sd_dirs data\<rparr>) (pl_data st1 s))\<rparr> else st1)"
  have "grows st1 st2" by (auto simp: st2_def grows_def)
  then have g: "grows st st2" using c(2) grows_trans by blast
  obtain st' where "configure_paths env load s ds st2 = Some st'" "grows st2 st'" using Cons.IH [OF card_grows [OF assms(1) g Cons.prems]] by blast
  then show ?case using c(1) grows_trans [OF g, of st'] by (simp add: st2_def)
qed auto

text \<open>Configuring a set first takes it off the sets still to be configured, so that the files it loads may use the loader for one set less.\<close>

lemma good_ensure_set:
  assumes "finite S" "good S n load" "card (unconf S st) \<le> n" "s \<in> S \<or> card (unconf S st) < n"
  shows "\<exists>st'. ensure_set env load s st = Some st' \<and> grows st st' \<and> pl_data st' s \<noteq> None"
proof (cases "pl_data st s")
  case None
  let ?sd = "pe_sets env s"
  let ?st = "st\<lparr>pl_data := (pl_data st)(s \<mapsto> \<lparr>sd_dirs = [], sd_plugins = [], sd_name_lc = map tolower (set_prefix ?sd)\<rparr>)\<rparr>"
  have g: "grows st ?st" using None by (auto simp: grows_def)
  have u: "unconf S ?st = unconf S st - {s}" by (auto simp: unconf_def)
  have fin: "finite (unconf S st)" using assms(1) by (simp add: unconf_def)
  have small: "card (unconf S ?st) < n"
  proof (cases "s \<in> S")
    case True
    then have "card (unconf S st - {s}) < card (unconf S st)" using None fin by (intro card_Diff1_less) (auto simp: unconf_def)
    then show ?thesis using assms(3) unfolding u by linarith
  next
    case False
    then show ?thesis using assms(4) u card_mono [OF fin Diff_subset, of "{s}"] by simp
  qed
  have ok: "pl_data st'' s \<noteq> None \<and> grows st st''" if h: "grows ?st st''" for st''
  proof -
    obtain d where "pl_data ?st s = Some d" by simp
    then have "pl_data st'' s \<noteq> None" using growsD [OF h] by fastforce
    then show ?thesis using grows_trans [OF g h] by blast
  qed
  show ?thesis
  proof (cases "set_initial_paths ?sd")
    case None
    then show ?thesis using \<open>pl_data st s = None\<close> ok [OF grows_refl] by (simp add: ensure_set_def configure_set_def Let_def)
  next
    case (Some paths)
    obtain st' where "configure_paths env load s (path_pieces paths) ?st = Some st'" "grows ?st st'" using good_configure_paths [OF assms(1,2) small] by blast
    then show ?thesis using \<open>pl_data st s = None\<close> Some ok by (simp add: ensure_set_def configure_set_def Let_def)
  qed
qed (auto simp: ensure_set_def)

lemma good_register:
  assumes "finite S" "good S n load" "card (unconf S st) \<le> n" "s \<in> S \<or> card (unconf S st) < n"
  shows "\<exists>st' data'. PL_register env load (Some s) p op st = Some (0, st') \<and> grows st st' \<and> pl_data st' s = Some data' \<and> (p, op) \<in> set (sd_plugins data')"
proof -
  obtain st1 data where e: "ensure_set env load s st = Some st1" "grows st st1" "pl_data st1 s = Some data" using good_ensure_set [OF assms] by blast
  let ?st = "st1\<lparr>pl_data := (pl_data st1)(s \<mapsto> data\<lparr>sd_plugins := (p, op) # sd_plugins data\<rparr>)\<rparr>"
  have "grows st1 ?st" using e(3) by (auto simp: grows_def)
  then have "grows st ?st" using e(2) grows_trans by blast
  then show ?thesis using e by (auto simp: PL_register_def)
qed

lemma good_register_all:
  assumes "finite S" "good S n load" "card (unconf S st) \<le> n" "fst ` set rs \<subseteq> S"
  shows "\<exists>st'. register_all env load rs st = Some st' \<and> grows st st' \<and>
    (\<forall>s p op. (s, p, op) \<in> set rs \<longrightarrow> (\<exists>data. pl_data st' s = Some data \<and> (p, op) \<in> set (sd_plugins data)))"
  using assms(3,4)
proof (induction rs arbitrary: st)
  case (Cons r rs)
  obtain s p op where r: "r = (s, p, op)" by (cases r) auto
  obtain st1 data1 where p: "PL_register env load (Some s) p op st = Some (0, st1)" "grows st st1" "pl_data st1 s = Some data1" "(p, op) \<in> set (sd_plugins data1)"
    using good_register [OF assms(1,2) Cons.prems(1), of s env p op] Cons.prems(2) r by auto
  have "card (unconf S st1) \<le> n" using card_grows [OF assms(1) p(2), of "Suc n"] Cons.prems(1) by simp
  then obtain st' where q: "register_all env load rs st1 = Some st'" "grows st1 st'"
      "\<forall>s p op. (s, p, op) \<in> set rs \<longrightarrow> (\<exists>data. pl_data st' s = Some data \<and> (p, op) \<in> set (sd_plugins data))" using Cons.IH [of st1] Cons.prems(2) by auto
  have "\<exists>data. pl_data st' s = Some data \<and> (p, op) \<in> set (sd_plugins data)" using growsD [OF q(2) p(3)] p(4) by auto
  then show ?case using p(1) q r grows_trans [OF p(2) q(2)] by auto
qed auto

lemma good_load_plugin_file: "closed_env S env \<Longrightarrow> good S n (load_plugin_file n env)"
proof (induction n)
  case (Suc n)
  have "\<exists>st'. load_plugin_file (Suc n) env f st = Some st' \<and> grows st st'" if "card (unconf S st) < Suc n" for f st
  proof (cases "pe_init env f")
    case (Some regs)
    then show ?thesis using good_register_all [OF _ Suc.IH [OF Suc.prems], of st regs env] that Suc.prems by (auto simp: closed_env_def)
  qed simp
  then show ?case by (simp add: good_def)
qed (simp add: good_def)

lemma load_registers:
  assumes "closed_env S env" "pe_init env f = Some regs" "(s, p, op) \<in> set regs" "card (unconf S st) < n" "load_plugin_file n env f st = Some st'"
  shows "\<exists>data. pl_data st' s = Some data \<and> (p, op) \<in> set (sd_plugins data)"
proof -
  obtain m where m: "n = Suc m" using assms(4) by (cases n) auto
  then show ?thesis
    using good_register_all [OF _ good_load_plugin_file [OF assms(1), of m], of st regs env] assms by (fastforce simp: closed_env_def)
qed

lemma load_all_registers:
  assumes "closed_env S env" "f \<in> set fs" "pe_init env f = Some regs" "(s, p, op) \<in> set regs" "card (unconf S st) < n"
    "load_all (load_plugin_file n env) fs st = Some st'"
  shows "\<exists>data. pl_data st' s = Some data \<and> (p, op) \<in> set (sd_plugins data)"
  using assms(2,5,6)
proof (induction fs arbitrary: st)
  case (Cons g fs)
  have fin: "finite S" using assms(1) by (simp add: closed_env_def)
  note good = good_load_plugin_file [OF assms(1), of n]
  obtain st1 where l: "load_plugin_file n env g st = Some st1" "grows st st1" using good Cons.prems(2) by (auto simp: good_def)
  have c: "card (unconf S st1) < n" by (rule card_grows [OF fin l(2) Cons.prems(2)])
  have rest: "load_all (load_plugin_file n env) fs st1 = Some st'" using Cons.prems(3) l(1) by simp
  then have gr: "grows st1 st'" using good_load_all [OF fin good c, of fs] by simp
  show ?case
  proof (cases "g = f")
    case True
    then obtain data where "pl_data st1 s = Some data" "(p, op) \<in> set (sd_plugins data)"
      using load_registers [OF assms(1,3,4) Cons.prems(2), of st1] l(1) by auto
    then show ?thesis using growsD [OF gr] by fastforce
  next
    case False
    then show ?thesis using Cons.IH [OF _ c rest] Cons.prems(1) by simp
  qed
qed simp

lemma match_plugin_None: "match_plugin name ps = None \<Longrightarrow> (p, op) \<in> set ps \<Longrightarrow> \<not> strcaseeq (pg_name p) name"
  by (auto simp: match_plugin_def find_None_iff)


definition demo_env :: pl_env where
  "demo_env = \<lparr>pe_sets = (\<lambda>s. \<lparr>set_prefix = ''Cube'', set_initial_paths = Some ''plugs/,none''\<rparr>),
     pe_opendir = (\<lambda>d. if d = ''plugs'' then Some [''preload-a.so'', ''.x'', ''cube-sat.so''] else None),
     pe_init = (\<lambda>f. if f = ''plugs/cube-sat.so'' then Some [(1, \<lparr>pg_name = ''sat'', pg_cfg = 3, pg_factory = 4\<rparr>, 0)]
       else if f = ''plugs/preload-a.so'' then Some [(1, \<lparr>pg_name = ''a'', pg_cfg = 5, pg_factory = 0\<rparr>, 0)] else None)\<rparr>"


section \<open>Limits\<close>

text \<open>A file is initialised each time it is looked for: a lookup that fails leaves a second registration behind, and none of them is found.\<close>

lemma repeated_lookup_registers_again:
  assumes "pe_init env f = Some [(s, p, op)]" "pl_data st s = Some data"
  shows "load_all (load_plugin_file (Suc n) env) [f, f] st =
    Some (st\<lparr>pl_data := (pl_data st)(s \<mapsto> data\<lparr>sd_plugins := (p, op) # (p, op) # sd_plugins data\<rparr>)\<rparr>)"
  using assms by (simp add: PL_register_def ensure_set_def)

end
