(* ===== verification/Sockets.thy ===== *)
theory Sockets
  imports Data_Req Timeval C_Text
begin

text \<open>
  Sockets and service names (\<open>ipc.c\<close>): the table of services, opening and closing sockets, waiting for a packet with a time limit, and commands that
  block until they are answered.

  \<^item> System calls are a record \<open>net\<close> of their results; \<open>net_steps\<close> holds, for each turn of the waiting loop, the result of \<open>select\<close>, whether it was
    interrupted by a signal, and the clock after it. What is done to sockets is a list of \<open>sock_action\<close>s in order.
  \<^item> An address is the list of its four bytes. \<open>services\<close> and \<open>services_by_port\<close> are the file \<open>/etc/services\<close>.
  \<^item> Failures of \<open>fcntl\<close>, \<open>setsockopt\<close>, \<open>bind\<close> and \<open>listen\<close> only print a warning and change nothing here.
\<close>

section \<open>Services\<close>

record ServiceNames =
  sn_name :: string
  sn_port :: int
  sn_multicast_ip :: string
  sn_multicast_port :: nat

definition service :: "string \<Rightarrow> int \<Rightarrow> string \<Rightarrow> nat \<Rightarrow> ServiceNames" where
  "service n p ip mp = \<lparr>sn_name = n, sn_port = p, sn_multicast_ip = ip, sn_multicast_port = mp\<rparr>"

definition serverNameList :: "ServiceNames list" where
  "serverNameList =
    [service ''beacon'' 50000 ''234.192.101.1'' 51000, service ''sys_manager'' 50001 ''234.192.101.2'' 51001,
     service ''watchdog'' 50002 ''234.192.101.3'' 51002, service ''satcomm'' 50003 ''234.192.101.4'' 51003,
     service ''filemgr'' 50004 ''234.192.101.5'' 51004, service ''telemetry'' 50005 ''234.192.101.6'' 51005,
     service ''datalogger'' 50006 ''234.192.101.7'' 51006, service ''ethcomm'' 50007 ''234.192.101.8'' 51007,
     service ''comm_server'' 50008 ''234.192.101.9'' 51008, service ''clksync'' 50009 ''234.192.101.10'' 51009,
     service ''payload'' 50010 ''234.192.101.11'' 51010, service ''adcs'' 50011 ''234.192.101.12'' 51011,
     service ''pscam'' 50012 ''234.192.101.13'' 51012, service ''camera'' 50012 ''234.192.101.13'' 51012,
     service ''gps'' 50013 ''234.192.101.14'' 51013, service ''log_cleaner'' 50014 ''234.192.101.15'' 51014,
     service ''star_tracker'' 50015 ''234.192.101.16'' 51015, service ''camera'' 50016 ''234.192.101.17'' 51016,
     service ''payload2'' 50017 ''234.192.101.18'' 51017, service ''payload3'' 50018 ''234.192.101.19'' 51018,
     service ''payload3'' 50019 ''234.192.101.20'' 51019, service ''test1'' 52003 ''224.0.0.1'' 52003,
     service ''test2'' 52004 ''234.192.101.16'' 52004]"

text \<open>Four decimal numbers with points between them.\<close>

definition octet :: "string \<Rightarrow> nat option" where
  "octet s = (if s \<noteq> [] \<and> list_all (is_digit 10) s \<and> digits_value 10 0 s < 256 then Some (digits_value 10 0 s) else None)"

function split_dots :: "string \<Rightarrow> string list" where
  "split_dots s =
     (let piece = takeWhile (\<lambda>c. c \<noteq> CHR ''.'') s
      in if CHR ''.'' \<in> set s then piece # split_dots (drop (length piece + 1) s) else [piece])"
  by pat_completeness auto
termination by (relation "measure length") (auto intro!: diff_less length_pos_if_in_set)

declare split_dots.simps [simp del]

definition inet_aton :: "string \<Rightarrow> nat list option" where
  "inet_aton s = (let ps = map octet (split_dots s) in if length ps = 4 \<and> None \<notin> set ps then Some (map the ps) else None)"

definition find_service :: "string \<Rightarrow> ServiceNames option" where
  "find_service name = find (\<lambda>c. sn_name c = name) serverNameList"

definition socket_multicast_port_by_name :: "string \<Rightarrow> nat" where
  "socket_multicast_port_by_name name = (case find_service name of None \<Rightarrow> 0 | Some c \<Rightarrow> sn_multicast_port c)"

definition socket_multicast_addr_by_name :: "string \<Rightarrow> nat list" where
  "socket_multicast_addr_by_name name =
     (case find_service name of
        None \<Rightarrow> [0, 0, 0, 0]
      | Some c \<Rightarrow> (case inet_aton (sn_multicast_ip c) of None \<Rightarrow> [0, 0, 0, 0] | Some a \<Rightarrow> a))"

definition int32_of :: "int \<Rightarrow> int" where
  "int32_of i = sint (word_of_int i :: 32 word)"

definition socket_get_addr_by_name :: "(string \<Rightarrow> nat option) \<Rightarrow> string \<Rightarrow> int" where
  "socket_get_addr_by_name services name =
     (case services name of
        Some p \<Rightarrow> int p
      | None \<Rightarrow>
          (case find_service name of
             Some c \<Rightarrow> sn_port c
           | None \<Rightarrow> let port = int32_of (atol name) in if port > 0 then port else - 1))"

definition socket_get_name_by_addr :: "(nat \<Rightarrow> string option) \<Rightarrow> nat \<Rightarrow> nat \<Rightarrow> int \<times> string option" where
  "socket_get_name_by_addr services_by_port port bufSize =
     (let name = (case services_by_port port of Some n \<Rightarrow> Some n | None \<Rightarrow> map_option sn_name (find (\<lambda>c. sn_port c = int port) serverNameList))
      in case name of
           None \<Rightarrow> (- 1, None)
         | Some n \<Rightarrow> if length n \<ge> bufSize then (- 1, None) else (int (length n), Some n))"

section \<open>Sockets\<close>

datatype sock_action = ASocket int | ABind int nat | AListen int | ASendTo int "u8 list option" sockaddr | ASelect timeval | ARecv int nat | AClose int

record net =
  net_socket :: int
  net_sent :: int
  net_now :: timeval
  net_steps :: "(int \<times> bool \<times> timeval) list"
  net_recv :: "u8 list option"

definition htons :: "int \<Rightarrow> nat" where
  "htons p = nat (p mod 65536)"

definition socket_init :: "net \<Rightarrow> int \<Rightarrow> int \<times> sock_action list" where
  "socket_init net port = (if net_socket net = - 1 then (- 1, []) else (net_socket net, [ASocket (net_socket net), ABind (net_socket net) (htons port)]))"

definition socket_tcp_init :: "net \<Rightarrow> int \<Rightarrow> int \<times> sock_action list" where
  "socket_tcp_init net port =
     (if net_socket net = - 1 then (- 1, [])
      else (net_socket net, [ASocket (net_socket net), ABind (net_socket net) (htons port), AListen (net_socket net)]))"

text \<open>\<open>None\<close> is \<open>exit(4)\<close>.\<close>

definition socket_named_init :: "net \<Rightarrow> (string \<Rightarrow> nat option) \<Rightarrow> string option \<Rightarrow> (int \<times> sock_action list) option" where
  "socket_named_init net services name =
     (let portNum = (case name of None \<Rightarrow> 0 | Some n \<Rightarrow> (word_of_int (socket_get_addr_by_name services n) :: u32))
      in if portNum \<noteq> - 1 then Some (socket_init net (sint portNum)) else None)"

text \<open>What \<open>recvfrom\<close> stores and returns; a longer packet is cut.\<close>

definition socket_read :: "net \<Rightarrow> int \<Rightarrow> nat \<Rightarrow> (int \<times> u8 list) \<times> sock_action list" where
  "socket_read net fd bufSize =
     ((case net_recv net of None \<Rightarrow> (- 1, []) | Some bytes \<Rightarrow> (int (length (take bufSize bytes)), take bufSize bytes)), [ARecv fd bufSize])"

definition socket_write :: "net \<Rightarrow> int \<Rightarrow> u8 list option \<Rightarrow> sockaddr \<Rightarrow> int \<times> sock_action list" where
  "socket_write net fd buf dest = (net_sent net, [ASendTo fd buf dest])"

abbreviation (input) loopback :: "nat list" where "loopback \<equiv> [127, 0, 0, 1]"

definition local_addr :: "(string \<Rightarrow> nat option) \<Rightarrow> string \<Rightarrow> sockaddr" where
  "local_addr services name = \<lparr>sa_addr = loopback, sa_port = htons (socket_get_addr_by_name services name)\<rparr>"

definition socket_named_write :: "net \<Rightarrow> (string \<Rightarrow> nat option) \<Rightarrow> int \<Rightarrow> u8 list option \<Rightarrow> string \<Rightarrow> int \<times> sock_action list" where
  "socket_named_write net services fd buf name = socket_write net fd buf (local_addr services name)"

definition socket_close :: "int \<Rightarrow> sock_action list" where
  "socket_close fd = [AClose fd]"

section \<open>Waiting\<close>

text \<open>\<open>None\<close> is a loop that is still waiting when the steps are used up.\<close>

primrec wait_loop :: "timeval \<Rightarrow> (int \<times> bool \<times> timeval) list \<Rightarrow> timeval \<Rightarrow> (int \<times> sock_action list) option" where
  "wait_loop end_time [] now = (if timercmp now end_time (<) then None else Some (0, []))"
| "wait_loop end_time (s # ss) now =
     (if timercmp now end_time (<) then
        let (result, eintr, now1) = s; tmp_tv = timersub end_time now
        in if result = 1 then Some (1, [ASelect tmp_tv])
           else if result < 0 \<and> \<not> eintr then Some (- 1, [ASelect tmp_tv])
           else (case wait_loop end_time ss now1 of None \<Rightarrow> None | Some (r, acts) \<Rightarrow> Some (r, ASelect tmp_tv # acts))
      else Some (0, []))"

definition wait_for_packet :: "net \<Rightarrow> int \<Rightarrow> (int \<times> sock_action list) option" where
  "wait_for_packet net ms_dur = wait_loop (timeradd (EVT_ms2tv ms_dur) (net_now net)) (net_steps net) (net_now net)"

definition read_response :: "net \<Rightarrow> int \<Rightarrow> nat \<Rightarrow> (int \<times> u8 list) \<times> sock_action list" where
  "read_response net sock rxRespLen =
     (case socket_read net sock rxRespLen of
        ((len, bytes), acts) \<Rightarrow> ((if len < 0 then - 4 else if len \<noteq> int rxRespLen then - 5 else len, bytes), acts))"

text \<open>The packet is awaited when there is a buffer for it; \<open>rd\<close> is how it is read.\<close>

definition await_response ::
  "net \<Rightarrow> (int \<times> u8 list) \<times> sock_action list \<Rightarrow> bool \<Rightarrow> nat \<Rightarrow> int \<Rightarrow> ((int \<times> u8 list) \<times> sock_action list) option" where
  "await_response net rd rxResp rxRespLen responseTimeoutMS =
     (if rxResp \<and> rxRespLen > 0
      then (case wait_for_packet net responseTimeoutMS of
              None \<Rightarrow> None
            | Some (r, acts) \<Rightarrow>
                if r = 0 then Some ((- 2, []), acts)
                else if r \<noteq> 1 then Some ((- 3, []), acts)
                else Some (fst rd, acts @ snd rd))
      else Some ((0, []), []))"

definition socket_resolve_host :: "(string \<Rightarrow> nat list option) \<Rightarrow> string \<Rightarrow> nat list option" where
  "socket_resolve_host gethostbyname host = (case inet_aton host of Some a \<Rightarrow> Some a | None \<Rightarrow> gethostbyname host)"

text \<open>The address of a process on a host: \<open>None\<close> when the host is not known, and the loopback address for none and for \<open>0.0.0.0\<close>.\<close>

definition dest_addr :: "(string \<Rightarrow> nat list option) \<Rightarrow> (string \<Rightarrow> nat option) \<Rightarrow> string option \<Rightarrow> string \<Rightarrow> sockaddr option" where
  "dest_addr gethostbyname services dstAddr dstProc =
     (case (case dstAddr of None \<Rightarrow> Some [0, 0, 0, 0] | Some host \<Rightarrow> socket_resolve_host gethostbyname host) of
        None \<Rightarrow> None
      | Some a \<Rightarrow> Some \<lparr>sa_addr = (if a = [0, 0, 0, 0] then loopback else a), sa_port = htons (socket_get_addr_by_name services dstProc)\<rparr>)"

definition socket_send_packet_and_read_response ::
  "net \<Rightarrow> (string \<Rightarrow> nat list option) \<Rightarrow> (string \<Rightarrow> nat option) \<Rightarrow> string option \<Rightarrow> string \<Rightarrow> u8 list option \<Rightarrow> bool \<Rightarrow> nat \<Rightarrow> int \<Rightarrow>
   ((int \<times> u8 list) \<times> sock_action list) option" where
  "socket_send_packet_and_read_response net gethostbyname services dstAddr dstProc txCmd rxResp rxRespLen responseTimeoutMS =
     (case socket_init net 0 of
        (sock, a0) \<Rightarrow>
          if sock < 0 then Some ((- 1, []), a0)
          else (case dest_addr gethostbyname services dstAddr dstProc of
                  None \<Rightarrow> Some ((- 1, []), a0)
                | Some addr \<Rightarrow>
                    (case await_response net (read_response net sock rxRespLen) rxResp rxRespLen responseTimeoutMS of
                       None \<Rightarrow> None
                     | Some (res, a2) \<Rightarrow> Some (res, a0 @ snd (socket_write net sock txCmd addr) @ a2 @ socket_close sock))))"

definition socket_send_packet_and_read_xdr_sa ::
  "net \<Rightarrow> sockaddr \<Rightarrow> u8 list option \<Rightarrow> bool \<Rightarrow> nat \<Rightarrow> int \<Rightarrow> ((int \<times> u8 list) \<times> sock_action list) option" where
  "socket_send_packet_and_read_xdr_sa net addr txCmd rxResp rxRespLen responseTimeoutMS =
     (case socket_init net 0 of
        (sock, a0) \<Rightarrow>
          if sock < 0 then Some ((- 1, []), a0)
          else (case await_response net (socket_read net sock rxRespLen) rxResp rxRespLen responseTimeoutMS of
                  None \<Rightarrow> None
                | Some (res, a2) \<Rightarrow> Some (res, a0 @ snd (socket_write net sock txCmd addr) @ a2 @ socket_close sock)))"

definition socket_send_packet_and_read_xdr ::
  "net \<Rightarrow> (string \<Rightarrow> nat list option) \<Rightarrow> (string \<Rightarrow> nat option) \<Rightarrow> string option \<Rightarrow> string \<Rightarrow> u8 list option \<Rightarrow> bool \<Rightarrow> nat \<Rightarrow> int \<Rightarrow>
   ((int \<times> u8 list) \<times> sock_action list) option" where
  "socket_send_packet_and_read_xdr net gethostbyname services dstAddr dstProc txCmd rxResp rxRespLen responseTimeoutMS =
     (case dest_addr gethostbyname services dstAddr dstProc of
        None \<Rightarrow> Some ((- 1, []), [])
      | Some addr \<Rightarrow> socket_send_packet_and_read_xdr_sa net addr txCmd rxResp rxRespLen responseTimeoutMS)"

section \<open>Blocking commands\<close>

text \<open>The result, the calls of the callback, and what is done to sockets.\<close>

definition ipc_blocking_command ::
  "(nat \<Rightarrow> bool) \<Rightarrow> bool \<Rightarrow> IPC_Response \<Rightarrow> net \<Rightarrow> u8 list option \<Rightarrow> sockaddr \<Rightarrow> ptr \<Rightarrow> ptr \<Rightarrow> IPC_CB_TYPE \<Rightarrow> nat \<Rightarrow> (int \<times> effect list \<times> sock_action list) option" where
  "ipc_blocking_command alloc resp_def junk net txbuff dest cb arg cb_type timeout =
     (case socket_send_packet_and_read_xdr_sa net dest txbuff True 65536 (int32_of (int timeout)) of
        None \<Rightarrow> None
      | Some ((rxlen, rxbuff), acts) \<Rightarrow>
          if rxlen < 0 then Some (rxlen, if cb \<noteq> 0 then [CallRaw cb True arg [] 0] else [], acts)
          else (case CMD_resolve_callback alloc resp_def junk cb arg cb_type rxbuff (nat rxlen) of
                  None \<Rightarrow> None
                | Some es \<Rightarrow> Some (0, es, acts)))"

definition IPC_command_blocking ::
  "(nat \<Rightarrow> bool) \<Rightarrow> bool \<Rightarrow> IPC_Response \<Rightarrow> net \<Rightarrow> u32 \<Rightarrow> ipc_value XDR_Union \<Rightarrow> sockaddr \<Rightarrow> ptr \<Rightarrow> ptr \<Rightarrow> IPC_CB_TYPE \<Rightarrow> nat \<Rightarrow> u32 \<Rightarrow>
   (int \<times> u32 \<times> effect list \<times> sock_action list) option" where
  "IPC_command_blocking alloc resp_def junk net command params dest cb arg cb_type timeout next_cmd_ref =
     (let cmd = \<lparr>ic_cmd = command, ic_ipcref = next_cmd_ref, ic_parameters = params\<rparr>
      in case encode_retry alloc (IPC_Command_encode alloc (Ref cmd)) 1024 of
           EncFault \<Rightarrow> None
         | EncFail \<Rightarrow> Some (- 1, next_cmd_ref + 1, [], [])
         | Encoded bytes \<Rightarrow>
             (case ipc_blocking_command alloc resp_def junk net bytes dest cb arg cb_type timeout of
                None \<Rightarrow> None
              | Some (res, es, acts) \<Rightarrow> Some (res, next_cmd_ref + 1, es, acts)))"

definition IPC_command_local ::
  "(nat \<Rightarrow> bool) \<Rightarrow> (string \<Rightarrow> nat option) \<Rightarrow> u32 \<Rightarrow> ipc_value XDR_Union \<Rightarrow> string \<Rightarrow> ptr \<Rightarrow> ptr \<Rightarrow> IPC_CB_TYPE \<Rightarrow> nat \<Rightarrow> ptr \<Rightarrow> ptr option
     \<Rightarrow> u32 \<Rightarrow> CommandCbArg \<Rightarrow> (int \<times> u32 \<times> CommandCbArg \<times> effect list) option" where
  "IPC_command_local alloc services command params dest cb arg cb_type timeout node to_evt next_cmd_ref st =
     IPC_command alloc command params (local_addr services dest) cb arg cb_type timeout node to_evt next_cmd_ref st"

definition IPC_data_local ::
  "(nat \<Rightarrow> bool) \<Rightarrow> (string \<Rightarrow> nat option) \<Rightarrow> int list \<Rightarrow> string \<Rightarrow> ptr \<Rightarrow> ptr \<Rightarrow> IPC_CB_TYPE \<Rightarrow> nat \<Rightarrow> ptr \<Rightarrow> ptr option
     \<Rightarrow> u32 \<Rightarrow> CommandCbArg \<Rightarrow> (int \<times> u32 \<times> CommandCbArg \<times> effect list) option" where
  "IPC_data_local alloc services items dest cb arg cb_type timeout node to_evt next_cmd_ref st =
     IPC_data alloc items (local_addr services dest) cb arg cb_type timeout node to_evt next_cmd_ref st"

end
