(* ===== verification/Sockets_Correct.thy ===== *)
theory Sockets_Correct
  imports Sockets
begin

text \<open>
  A blocking command returns within its time limit, answers its callback exactly once and leaves no socket open; and where the table of services
  translates names and ports consistently.
\<close>

section \<open>Waiting\<close>

definition select_ok :: "int \<Rightarrow> sock_action \<Rightarrow> bool" where
  "select_ok us a = (case a of ASelect tv \<Rightarrow> 0 < tv_us tv \<and> tv_us tv \<le> us | _ \<Rightarrow> False)"

lemma wait_loop_returns:
  assumes "\<exists>(r, e, t) \<in> set steps. end_time \<le> t"
  shows "\<exists>r acts. wait_loop end_time steps now = Some (r, acts)"
  using assms
proof (induction steps arbitrary: now)
  case (Cons s steps)
  obtain r e t where s: "s = (r, e, t)" by (cases s) auto
  show ?case
  proof (cases "end_time \<le> t")
    case True
    have "\<exists>r' acts. wait_loop end_time steps t = Some (r', acts)" using True by (cases steps) auto
    then show ?thesis using s by (auto simp: Let_def)
  next
    case False
    then have "\<exists>r' acts. wait_loop end_time steps t = Some (r', acts)" using Cons.IH [of t] Cons.prems s by auto
    then show ?thesis using s by (auto simp: Let_def)
  qed
qed simp

lemma wait_loop_correct:
  assumes "wait_loop end_time steps now = Some (r, acts)" "tv_normal end_time" "tv_normal start" "tv_normal now" "start \<le> now"
    "\<forall>(r, e, t) \<in> set steps. tv_normal t \<and> start \<le> t"
  shows "list_all (select_ok (tv_us end_time - tv_us start)) acts \<and> (r = 1 \<or> r = 0 \<or> r = - 1) \<and>
    (r = 1 \<longrightarrow> 1 \<in> fst ` set steps) \<and> (r = 0 \<longrightarrow> (\<exists>t \<in> insert now ((snd \<circ> snd) ` set steps). end_time \<le> t))"
  using assms
proof (induction steps arbitrary: now r acts)
  case (Cons s steps)
  obtain res e t where s: "s = (res, e, t)" by (cases s) auto
  let ?tv = "timersub end_time now"
  have tv: "select_ok (tv_us end_time - tv_us start) (ASelect ?tv)" if "now < end_time"
    using that Cons.prems(2-5) by (simp add: select_ok_def timersub_us tv_order_us)
  have t: "tv_normal t" "start \<le> t" using Cons.prems(6) s by auto
  show ?case
  proof (cases "now < end_time \<and> res \<noteq> 1 \<and> \<not> (res < 0 \<and> \<not> e)")
    case True
    then obtain acts' where w: "wait_loop end_time steps t = Some (r, acts')" "acts = ASelect ?tv # acts'"
      using Cons.prems(1) s by (auto simp: Let_def split: option.splits)
    then show ?thesis using Cons.IH [OF w(1) Cons.prems(2,3) t] Cons.prems(6) tv True s by auto
  next
    case False
    then consider "\<not> now < end_time" | "now < end_time" "res = 1" | "now < end_time" "res \<noteq> 1" "res < 0 \<and> \<not> e" by blast
    then show ?thesis
    proof cases
      case 1
      then show ?thesis using Cons.prems(1) by auto
    next
      case 2
      then show ?thesis using Cons.prems(1) s tv by auto
    next
      case 3
      then show ?thesis using Cons.prems(1) s tv by auto
    qed
  qed
qed (auto split: if_splits)

lemma ms2tv_normal:
  assumes "0 \<le> ms"
  shows "tv_normal (EVT_ms2tv ms)" "tv_us (EVT_ms2tv ms) = ms * 1000"
proof -
  have d: "ms sdiv 1000 = ms div 1000" using assms by (cases "ms = 0") (simp_all add: signed_divide_int_def)
  have "0 \<le> ms - ms div 1000 * 1000" "ms - ms div 1000 * 1000 < 1000" by presburger+
  then show "tv_normal (EVT_ms2tv ms)" "tv_us (EVT_ms2tv ms) = ms * 1000"
    by (simp_all add: EVT_ms2tv_def tv_normal_def tv_us_def Let_def d)
qed

section \<open>Blocking commands\<close>

lemma await_response_cases:
  assumes "await_response net rd True (Suc n) ms = Some (res, acts)" "0 \<le> ms" "tv_normal (net_now net)"
    "\<forall>(r, e, t) \<in> set (net_steps net). tv_normal t \<and> net_now net \<le> t"
  shows "\<exists>sel. list_all (select_ok (ms * 1000)) sel \<and>
    ((res = (- 2, []) \<or> res = (- 3, [])) \<and> acts = sel \<or> res = fst rd \<and> acts = sel @ snd rd)"
proof -
  let ?lim = "timeradd (EVT_ms2tv ms) (net_now net)"
  obtain r sel where w: "wait_for_packet net ms = Some (r, sel)" using assms(1) by (auto simp: await_response_def split: option.splits)
  have "list_all (select_ok (tv_us ?lim - tv_us (net_now net))) sel \<and> (r = 1 \<or> r = 0 \<or> r = - 1)"
    using wait_loop_correct [of ?lim "net_steps net" "net_now net" r sel "net_now net"] w assms(2-4) ms2tv_normal [OF assms(2)]
    by (simp add: wait_for_packet_def timeradd_normal)
  moreover have "tv_us ?lim - tv_us (net_now net) = ms * 1000" using ms2tv_normal [OF assms(2)] by (simp add: timeradd_us)
  ultimately show ?thesis using assms(1) w by (intro exI [of _ sel]) (auto simp: await_response_def split: if_splits)
qed

text \<open>
  C33: once the clock has passed the time limit, a blocking command has returned. It sent its packet once, on a socket of its own that it closed at the end;
  it never waited longer than the limit at a time; and a raw callback is called exactly once, with the packet received or with a failure.
\<close>

theorem blocking_command_settles:
  assumes "0 \<le> net_socket net" "timeout < 2 ^ 31" "tv_normal (net_now net)" "\<forall>(r, e, t) \<in> set (net_steps net). tv_normal t \<and> net_now net \<le> t"
    "\<exists>(r, e, t) \<in> set (net_steps net). timeradd (EVT_ms2tv (int timeout)) (net_now net) \<le> t"
  shows "\<exists>res e mid. ipc_blocking_command alloc resp_def junk net txbuff dest cb arg IPC_CB_TYPE_RAW timeout =
      Some (res, if cb = 0 then [] else [e],
        [ASocket (net_socket net), ABind (net_socket net) 0, ASendTo (net_socket net) txbuff dest] @ mid @ [AClose (net_socket net)]) \<and>
    list_all (\<lambda>a. select_ok (int timeout * 1000) a \<or> a = ARecv (net_socket net) 65536) mid \<and>
    (if res < 0 then e = CallRaw cb True arg [] 0
     else \<exists>bytes. net_recv net = Some bytes \<and> e = CallRaw cb False arg (take 65536 bytes) (length (take 65536 bytes)))"
proof -
  let ?fd = "net_socket net"
  let ?rd = "socket_read net ?fd 65536"
  have i32: "int32_of (int timeout) = int timeout"
    using assms(2) by (simp add: int32_of_def signed_of_int signed_take_bit_int_eq_self del: of_int_of_nat_eq)
  obtain r sel where "wait_for_packet net (int timeout) = Some (r, sel)" using wait_loop_returns [OF assms(5), of "net_now net"] by (auto simp: wait_for_packet_def)
  then have "await_response net ?rd True 65536 (int timeout) \<noteq> None" by (simp add: await_response_def)
  then obtain res acts where a: "await_response net ?rd True 65536 (int timeout) = Some (res, acts)" by (metis not_None_eq surj_pair)
  obtain len bytes where res: "res = (len, bytes)" by (cases res) auto
  have "\<exists>sel. list_all (select_ok (int timeout * 1000)) sel \<and>
      (((len, bytes) = (- 2, []) \<or> (len, bytes) = (- 3, [])) \<and> acts = sel \<or> (len, bytes) = fst ?rd \<and> acts = sel @ snd ?rd)"
    using await_response_cases [of net ?rd 65535 "int timeout" res acts] a assms(3,4) res by simp
  then obtain sel where sel: "list_all (select_ok (int timeout * 1000)) sel"
      "((len, bytes) = (- 2, []) \<or> (len, bytes) = (- 3, [])) \<and> acts = sel \<or> (len, bytes) = fst ?rd \<and> acts = sel @ snd ?rd" by blast
  have fd: "\<not> ?fd < 0" "?fd \<noteq> - 1" using assms(1) by auto
  have send: "socket_send_packet_and_read_xdr_sa net dest txbuff True 65536 (int32_of (int timeout)) =
      Some ((len, bytes), [ASocket ?fd, ABind ?fd 0, ASendTo ?fd txbuff dest] @ acts @ [AClose ?fd])"
    using a res fd by (simp add: socket_send_packet_and_read_xdr_sa_def socket_init_def socket_write_def socket_close_def htons_def i32)
  have mid: "list_all (\<lambda>a. select_ok (int timeout * 1000) a \<or> a = ARecv ?fd 65536) acts"
    using sel by (auto simp: list_all_iff socket_read_def split: if_splits)
  show ?thesis
  proof (cases "len < 0")
    case True
    then show ?thesis unfolding ipc_blocking_command_def send using mid by (intro exI [of _ len] exI [of _ "CallRaw cb True arg [] 0"] exI [of _ acts]) simp
  next
    case False
    then have "(len, bytes) = fst ?rd" using sel(2) by (auto split: if_splits)
    then obtain all where all: "net_recv net = Some all" "bytes = take 65536 all" "len = int (length (take 65536 all))"
      using False by (auto simp: socket_read_def split: option.splits)
    then show ?thesis unfolding ipc_blocking_command_def send using mid False
      by (intro exI [of _ 0] exI [of _ "CallRaw cb False arg (take 65536 all) (length (take 65536 all))"] exI [of _ acts]) (simp add: CMD_resolve_callback_def)
  qed
qed

definition demo_net :: net where
  "demo_net = \<lparr>net_socket = 5, net_sent = 4, net_now = Timeval 10 0,
     net_steps = [(-1, True, Timeval 10 500000), (1, False, Timeval 12 0)], net_recv = Some [1, 2, 3]\<rparr>"

theorem blocking_command_settles_witness:
  "\<exists>res e mid. ipc_blocking_command (\<lambda>_. True) True \<lparr>ir_cmd = 0, ir_ipcref = 0, ir_result = 0, ir_data = \<lparr>un_type = 0, un_data = Null\<rparr>\<rparr> demo_net (Some [7])
      \<lparr>sa_addr = loopback, sa_port = 50000\<rparr> 1 2 IPC_CB_TYPE_RAW 1000 = Some (res, [e], [ASocket 5, ABind 5 0, ASendTo 5 (Some [7]) \<lparr>sa_addr = loopback, sa_port = 50000\<rparr>] @ mid @ [AClose 5])"
proof -
  have "0 \<le> net_socket demo_net" "(1000 :: nat) < 2 ^ 31" "tv_normal (net_now demo_net)"
    "\<forall>(r, e, t) \<in> set (net_steps demo_net). tv_normal t \<and> net_now demo_net \<le> t"
    "\<exists>(r, e, t) \<in> set (net_steps demo_net). timeradd (EVT_ms2tv (int 1000)) (net_now demo_net) \<le> t"
    by (auto simp: demo_net_def tv_normal_def less_eq_timeval_def timeradd_def EVT_ms2tv_def Let_def)
  from blocking_command_settles [OF this, of "\<lambda>_. True" True _ "Some [7]" "\<lparr>sa_addr = loopback, sa_port = 50000\<rparr>" 1 2]
  show ?thesis by (fastforce simp: demo_net_def)
qed

section \<open>Services\<close>

text \<open>Without an entry in \<open>/etc/services\<close>: the name found for the port of a service leads back to the port, except for two services.\<close>

lemma service_port_roundtrip:
  assumes "c \<in> set serverNameList" "sn_port c \<notin> {50016, 50019}"
  shows "\<exists>n. socket_get_name_by_addr (\<lambda>_. None) (nat (sn_port c)) 32 = (int (length n), Some n) \<and> socket_get_addr_by_name (\<lambda>_. None) n = sn_port c"
  using assms
  by (auto simp: serverNameList_def service_def socket_get_name_by_addr_def socket_get_addr_by_name_def find_service_def)

text \<open>Two ports are not reached by the name they are listed under.\<close>

lemma services_unreachable:
  "socket_get_addr_by_name (\<lambda>_. None) ''camera'' = 50012" "socket_get_addr_by_name (\<lambda>_. None) ''payload3'' = 50018"
  by (simp_all add: serverNameList_def service_def socket_get_addr_by_name_def find_service_def)

lemma multicast_addresses_clash:
  "socket_multicast_addr_by_name ''star_tracker'' = socket_multicast_addr_by_name ''test2''"
  by (simp add: serverNameList_def service_def socket_multicast_addr_by_name_def find_service_def)

text \<open>A name that is not known becomes the port 65535, to which the packet is sent.\<close>

lemma unknown_service_port:
  assumes "services n = None" "find_service n = None" "atol n = 0"
  shows "local_addr services n = \<lparr>sa_addr = loopback, sa_port = 65535\<rparr>"
  using assms by (simp add: local_addr_def socket_get_addr_by_name_def int32_of_def htons_def)

text \<open>When the host is not known, the socket stays open.\<close>

lemma unknown_host_leaks_socket:
  assumes "0 \<le> net_socket net" "inet_aton host = None" "gethostbyname host = None"
  shows "socket_send_packet_and_read_response net gethostbyname services (Some host) dstProc tx rx n ms =
    Some ((- 1, []), [ASocket (net_socket net), ABind (net_socket net) 0])"
  using assms by (auto simp: socket_send_packet_and_read_response_def socket_init_def dest_addr_def socket_resolve_host_def htons_def)

end
