(* ===== verification/Xdr_Text.thy ===== *)
theory Xdr_Text
  imports C_Text
begin

text \<open>
  The text side of \<open>xdr.c\<close>: printing the fields of a structure for people, as key-value pairs and as CSV, and scanning a field from text.

  \<^item> A \<open>printer\<close> is a printing function applied to its data, field and length: it gets the style, the name, the line counter (\<open>None\<close> for a \<open>NULL\<close> pointer)
    and the level, and returns what it writes and the counter after it. \<open>None\<close> as a result is a failed assertion.
  \<^item> Floating point is not modelled: the text that \<open>%lf\<close> writes for a converted value is the argument \<open>xf_conversion\<close>, and a value scanned with a
    conversion is the argument \<open>conv\<close>.
  \<^item> Fields are indexed by their order in the definition; the printer of a field is \<open>None\<close> where the table of functions has none.
\<close>

datatype XDR_PRINT_STYLE = XDR_PRINT_HUMAN | XDR_PRINT_KVP | XDR_PRINT_CSV_HEADER | XDR_PRINT_CSV_DATA

record XDR_FieldDefinition =
  xf_key :: "string option"
  xf_name :: "string option"
  xf_unit :: "string option"
  xf_conversion :: "(int \<Rightarrow> string) option"

type_synonym printed = "(string \<times> int option) option"
type_synonym printer = "XDR_PRINT_STYLE \<Rightarrow> string \<Rightarrow> int option \<Rightarrow> int \<Rightarrow> printed"

section \<open>Lines\<close>

definition pad_right :: "nat \<Rightarrow> string \<Rightarrow> string" where
  "pad_right n s = s @ replicate (n - length s) (CHR '' '')"

text \<open>\<open>%03d: %*c%-*s\<close>; a negative width counts as its absolute value.\<close>

definition human_prefix :: "int \<Rightarrow> int \<Rightarrow> string \<Rightarrow> string" where
  "human_prefix line level name =
     (if line < 0 then CHR ''-'' # pad_left 2 (CHR ''0'') (show_nat (nat (- line))) else pad_left 3 (CHR ''0'') (show_nat (nat line))) @ '': '' @
     pad_left (nat (abs (1 + 3 * level))) (CHR '' '') '' '' @ pad_right (nat (abs (32 - 3 * level))) name"

definition format_output_line :: "XDR_FieldDefinition option \<Rightarrow> string \<Rightarrow> XDR_PRINT_STYLE \<Rightarrow> string \<Rightarrow> int option \<Rightarrow> int \<Rightarrow> string \<times> int option" where
  "format_output_line field text1 style name line level =
     (case style of
        XDR_PRINT_CSV_DATA \<Rightarrow> (text1 @ '','', line)
      | XDR_PRINT_CSV_HEADER \<Rightarrow> (name @ '','', line)
      | XDR_PRINT_KVP \<Rightarrow> (name @ ''='' @ text1 @ [EOL], line)
      | XDR_PRINT_HUMAN \<Rightarrow>
          (human_prefix (case line of None \<Rightarrow> 0 | Some n \<Rightarrow> n) level name @ text1 @
             (case Option.bind field xf_unit of None \<Rightarrow> [EOL] | Some u \<Rightarrow> ''    ['' @ u @ '']'' @ [EOL]),
           map_option (\<lambda>n. n + 1) line))"

text \<open>The text of a number, converted when it is printed for people.\<close>

definition number_text :: "XDR_FieldDefinition \<Rightarrow> XDR_PRINT_STYLE \<Rightarrow> int \<Rightarrow> string" where
  "number_text field style i = (case xf_conversion field of Some conv \<Rightarrow> if style = XDR_PRINT_HUMAN then conv i else show_int i | None \<Rightarrow> show_int i)"

section \<open>Printing scalars\<close>

definition XDR_print_field_int32 :: "XDR_FieldDefinition \<Rightarrow> u32 option \<Rightarrow> printer" where
  "XDR_print_field_int32 field val style parent line level =
     (case val of None \<Rightarrow> Some ([], line) | Some v \<Rightarrow> Some (format_output_line (Some field) (number_text field style (sint v)) style parent line level))"

definition XDR_print_field_uint32 :: "XDR_FieldDefinition \<Rightarrow> u32 option \<Rightarrow> printer" where
  "XDR_print_field_uint32 field val style parent line level =
     (case val of None \<Rightarrow> Some ([], line) | Some v \<Rightarrow> Some (format_output_line (Some field) (number_text field style (uint v)) style parent line level))"

definition XDR_print_field_int64 :: "XDR_FieldDefinition \<Rightarrow> u64 option \<Rightarrow> printer" where
  "XDR_print_field_int64 field val style parent line level =
     (case val of None \<Rightarrow> Some ([], line) | Some v \<Rightarrow> Some (format_output_line (Some field) (number_text field style (sint v)) style parent line level))"

definition XDR_print_field_uint64 :: "XDR_FieldDefinition \<Rightarrow> u64 option \<Rightarrow> printer" where
  "XDR_print_field_uint64 field val style parent line level =
     (case val of None \<Rightarrow> Some ([], line) | Some v \<Rightarrow> Some (format_output_line (Some field) (number_text field style (uint v)) style parent line level))"

definition XDR_print_field_char :: "XDR_FieldDefinition \<Rightarrow> u32 option \<Rightarrow> printer" where
  "XDR_print_field_char field val style parent line level =
     (case val of None \<Rightarrow> Some ([], line) | Some v \<Rightarrow> Some (format_output_line (Some field) [char_of (unat v)] style parent line level))"

text \<open>\<open>data\<close> is the string pointer, itself possibly \<open>NULL\<close>.\<close>

definition XDR_print_field_string_array :: "XDR_FieldDefinition \<Rightarrow> string option option \<Rightarrow> printer" where
  "XDR_print_field_string_array field data style parent line level =
     (case data of
        None \<Rightarrow> Some ([], line)
      | Some str \<Rightarrow> Some (format_output_line (Some field) (case str of None \<Rightarrow> [] | Some s \<Rightarrow> s) style parent line level))"

definition XDR_print_field_byte_array :: "u8 list option \<Rightarrow> int \<Rightarrow> printer" where
  "XDR_print_field_byte_array data len style parent line level =
     (case data of
        None \<Rightarrow> Some ([], line)
      | Some bytes \<Rightarrow> if nat len \<le> length bytes then Some (concat (map show_hex_byte (take (nat len) bytes)), line) else None)"

text \<open>What is not supported stops the program.\<close>

definition XDR_print_field_string :: printer where "XDR_print_field_string style parent line level = None"
definition XDR_print_field_uint32_dictionary :: printer where "XDR_print_field_uint32_dictionary style parent line level = None"
definition XDR_print_field_int64_dictionary :: printer where "XDR_print_field_int64_dictionary style parent line level = None"
definition XDR_print_field_uint64_dictionary :: printer where "XDR_print_field_uint64_dictionary style parent line level = None"
definition XDR_print_field_byte_arr_dictionary :: printer where "XDR_print_field_byte_arr_dictionary style parent line level = None"
definition XDR_print_field_string_arr_dictionary :: printer where "XDR_print_field_string_arr_dictionary style parent line level = None"

section \<open>Arrays, dictionaries and structures\<close>

primrec print_items :: "printer list \<Rightarrow> bool \<Rightarrow> printer" where
  "print_items [] first style parent line level = Some ([], line)"
| "print_items (p # ps) first style parent line level =
     (case p style parent line level of
        None \<Rightarrow> None
      | Some (s, line1) \<Rightarrow>
          (case print_items ps False style parent line1 level of
             None \<Rightarrow> None
           | Some (rest, line2) \<Rightarrow> Some ((if first then [] else '','') @ s @ rest, line2)))"

definition XDR_array_field_printer :: "('v option \<Rightarrow> printer) \<Rightarrow> 'v list option \<Rightarrow> printer" where
  "XDR_array_field_printer print src style parent line level =
     (case src of None \<Rightarrow> Some ([], line) | Some vs \<Rightarrow> print_items (map (\<lambda>v. print (Some v)) vs) True style parent line level)"

definition XDR_print_field_int32_array :: "XDR_FieldDefinition \<Rightarrow> u32 list option \<Rightarrow> printer" where
  "XDR_print_field_int32_array field = XDR_array_field_printer (XDR_print_field_int32 field)"

definition XDR_print_field_uint32_array :: "XDR_FieldDefinition \<Rightarrow> u32 list option \<Rightarrow> printer" where
  "XDR_print_field_uint32_array field = XDR_array_field_printer (XDR_print_field_uint32 field)"

definition XDR_print_field_int64_array :: "XDR_FieldDefinition \<Rightarrow> u64 list option \<Rightarrow> printer" where
  "XDR_print_field_int64_array field = XDR_array_field_printer (XDR_print_field_int64 field)"

definition XDR_print_field_uint64_array :: "XDR_FieldDefinition \<Rightarrow> u64 list option \<Rightarrow> printer" where
  "XDR_print_field_uint64_array field = XDR_array_field_printer (XDR_print_field_uint64 field)"

definition XDR_print_field_char_array :: "XDR_FieldDefinition \<Rightarrow> u32 list option \<Rightarrow> printer" where
  "XDR_print_field_char_array field = XDR_array_field_printer (XDR_print_field_char field)"

text \<open>Names are cut to the 1023 characters of a buffer only where they are joined.\<close>

definition join_key :: "string option \<Rightarrow> string \<Rightarrow> string" where
  "join_key parent key = (case parent of None \<Rightarrow> key | Some p \<Rightarrow> if p = [] then key else take 1023 (p @ ''_'' @ key))"

definition XDR_dictionary_printer_itr :: "('v option \<Rightarrow> printer) \<Rightarrow> XDR_PRINT_STYLE \<Rightarrow> string option \<Rightarrow> int option \<Rightarrow> int \<Rightarrow> string \<Rightarrow> 'v option \<Rightarrow> printed" where
  "XDR_dictionary_printer_itr print style parent line level key val =
     (let key_buff = join_key parent key
      in case style of
           XDR_PRINT_KVP \<Rightarrow> print val style key_buff line (level + 1)
         | XDR_PRINT_HUMAN \<Rightarrow>
             map_option (\<lambda>(s, l). (s, if line = None then None else l)) (print val style key (Some (case line of None \<Rightarrow> 0 | Some n \<Rightarrow> n)) (level + 1))
         | XDR_PRINT_CSV_HEADER \<Rightarrow> Some (key_buff @ '','', line)
         | XDR_PRINT_CSV_DATA \<Rightarrow> map_option (\<lambda>(s, l). (s, line)) (print val style key_buff None 0))"

primrec print_nodes :: "('v option \<Rightarrow> printer) \<Rightarrow> XDR_PRINT_STYLE \<Rightarrow> string option \<Rightarrow> int \<Rightarrow> (string \<times> 'v option) list \<Rightarrow> int option \<Rightarrow> printed" where
  "print_nodes print style parent level [] line = Some ([], line)"
| "print_nodes print style parent level (n # ns) line =
     (case XDR_dictionary_printer_itr print style parent line level (fst n) (snd n) of
        None \<Rightarrow> None
      | Some (s, line1) \<Rightarrow> (case print_nodes print style parent level ns line1 of None \<Rightarrow> None | Some (rest, line2) \<Rightarrow> Some (s @ rest, line2)))"

text \<open>\<open>nodes\<close> are the entries of the dictionary in the order of the iteration.\<close>

definition XDR_dictionary_field_printer :: "('v option \<Rightarrow> printer) \<Rightarrow> (string \<times> 'v option) list \<Rightarrow> XDR_PRINT_STYLE \<Rightarrow> string option \<Rightarrow> int option \<Rightarrow> int \<Rightarrow> printed" where
  "XDR_dictionary_field_printer print nodes style parent line level =
     (let (s, line1) = (case parent of
            Some p \<Rightarrow> if p \<noteq> [] \<and> style = XDR_PRINT_HUMAN then format_output_line None [] style p line level else ([], line)
          | None \<Rightarrow> ([], line))
      in case print_nodes print style parent level nodes line1 of None \<Rightarrow> None | Some (rest, line2) \<Rightarrow> Some (s @ rest, line2))"

definition XDR_print_field_int32_dictionary :: "XDR_FieldDefinition \<Rightarrow> (string \<times> u32 option) list \<Rightarrow> printer" where
  "XDR_print_field_int32_dictionary field nodes style parent line level =
     XDR_dictionary_field_printer (XDR_print_field_int32 field) nodes style (Some parent) line level"

text \<open>One field of a structure: the name it is printed under, and the line counter it gets.\<close>

definition print_field :: "XDR_FieldDefinition \<Rightarrow> printer \<Rightarrow> string option \<Rightarrow> XDR_PRINT_STYLE \<Rightarrow> int \<Rightarrow> int \<Rightarrow> (string \<times> int) option" where
  "print_field fd p parents_key style line level =
     (let key = (case xf_key fd of None \<Rightarrow> [] | Some k \<Rightarrow> join_key parents_key k)
      in if style = XDR_PRINT_HUMAN
         then if xf_key fd \<noteq> None \<or> xf_name fd \<noteq> None
              then (case p style (case xf_name fd of None \<Rightarrow> key | Some n \<Rightarrow> n) (Some line) (level + 1) of
                      None \<Rightarrow> None
                    | Some (s, l) \<Rightarrow> Some (s, case l of None \<Rightarrow> line | Some n \<Rightarrow> n))
              else Some ([], line)
         else if xf_key fd \<noteq> None
         then (case p style key None 0 of None \<Rightarrow> None | Some (s, l) \<Rightarrow> Some (s, line))
         else Some ([], line))"

primrec print_fields :: "(XDR_FieldDefinition \<times> printer option) list \<Rightarrow> string option \<Rightarrow> XDR_PRINT_STYLE \<Rightarrow> int \<Rightarrow> int \<Rightarrow> (string \<times> int) option" where
  "print_fields [] parents_key style line level = Some ([], line)"
| "print_fields (f # fs) parents_key style line level =
     (case (case snd f of None \<Rightarrow> Some ([], line) | Some p \<Rightarrow> print_field (fst f) p parents_key style line level) of
        None \<Rightarrow> None
      | Some (s, line1) \<Rightarrow>
          (case print_fields fs parents_key style line1 level of None \<Rightarrow> None | Some (rest, line2) \<Rightarrow> Some (s @ rest, line2)))"

definition XDR_print_fields_func :: "(XDR_FieldDefinition \<times> printer option) list \<Rightarrow> string option \<Rightarrow> XDR_PRINT_STYLE \<Rightarrow> int option \<Rightarrow> int \<Rightarrow> printed" where
  "XDR_print_fields_func flds parents_key style line level =
     (let line0 = (case line of None \<Rightarrow> 0 | Some n \<Rightarrow> n);
          (s, line1) = (case parents_key of
            Some p \<Rightarrow>
              if p \<noteq> [] \<and> style = XDR_PRINT_HUMAN
              then (fst (format_output_line None [] style p (Some line0) level), line0 + 1) else ([], line0)
          | None \<Rightarrow> ([], line0))
      in case print_fields flds parents_key style line1 level of
           None \<Rightarrow> None
         | Some (rest, line2) \<Rightarrow> Some (s @ rest, if line = None then None else Some line2))"

text \<open>A structure inside a structure, and a union: \<open>def\<close> is the print function of its registered type applied to its data, \<open>None\<close> if there is none.\<close>

definition XDR_print_field_structure :: "(string option \<Rightarrow> XDR_PRINT_STYLE \<Rightarrow> int option \<Rightarrow> int \<Rightarrow> printed) option \<Rightarrow> printer" where
  "XDR_print_field_structure def style parent line level = (case def of None \<Rightarrow> Some ([], line) | Some pr \<Rightarrow> pr (Some parent) style line level)"

definition XDR_print_field_union :: "(string option \<Rightarrow> XDR_PRINT_STYLE \<Rightarrow> int option \<Rightarrow> int \<Rightarrow> printed) option \<Rightarrow> printer" where
  "XDR_print_field_union def style parent line level = (case def of None \<Rightarrow> Some ([], line) | Some pr \<Rightarrow> pr (Some parent) style line level)"

primrec print_structures :: "(string option \<Rightarrow> XDR_PRINT_STYLE \<Rightarrow> int option \<Rightarrow> int \<Rightarrow> printed) option list \<Rightarrow> printer" where
  "print_structures [] style parent line level = Some ([], line)"
| "print_structures (d # ds) style parent line level =
     (case XDR_print_field_structure d style parent line (level + 1) of
        None \<Rightarrow> None
      | Some (s, line1) \<Rightarrow> (case print_structures ds style parent line1 level of None \<Rightarrow> None | Some (rest, line2) \<Rightarrow> Some (s @ rest, line2)))"

definition XDR_print_field_structure_array :: "(string option \<Rightarrow> XDR_PRINT_STYLE \<Rightarrow> int option \<Rightarrow> int \<Rightarrow> printed) option list option \<Rightarrow> printer" where
  "XDR_print_field_structure_array src style parent line level =
     (case src of None \<Rightarrow> Some ([], line) | Some ds \<Rightarrow> print_structures ds style parent line level)"

definition XDR_print_field_union_array :: "(string option \<Rightarrow> XDR_PRINT_STYLE \<Rightarrow> int option \<Rightarrow> int \<Rightarrow> printed) option list option \<Rightarrow> printer" where
  "XDR_print_field_union_array = XDR_array_field_printer (\<lambda>u. XDR_print_field_union (Option.bind u id))"

text \<open>A received structure is decoded and printed: \<open>decoded\<close> is what the decoder gives, \<open>pr\<close> the print function on it.\<close>

definition XDR_print_structure ::
  "bool \<Rightarrow> 'v option \<Rightarrow> ('v \<Rightarrow> string option \<Rightarrow> XDR_PRINT_STYLE \<Rightarrow> int option \<Rightarrow> int \<Rightarrow> printed) \<Rightarrow> string option \<Rightarrow> XDR_PRINT_STYLE \<Rightarrow> string option" where
  "XDR_print_structure has_funcs decoded pr parent style =
     (if \<not> has_funcs then Some []
      else (case decoded of None \<Rightarrow> Some [] | Some v \<Rightarrow> map_option fst (pr v parent style (Some 0) 0)))"

section \<open>Scanning\<close>

text \<open>\<open>sscanf\<close> leaves its argument as it was when there is no number; \<open>%i\<close> reads an \<open>int\<close> through a \<open>long\<close>.\<close>

definition XDR_scan_int32 :: "(string \<Rightarrow> u32) option \<Rightarrow> string \<Rightarrow> u32 \<Rightarrow> u32" where
  "XDR_scan_int32 conv inp val =
     (case conv of Some c \<Rightarrow> c inp | None \<Rightarrow> (case c_integer 0 inp of None \<Rightarrow> val | Some i \<Rightarrow> word_of_int (fst (clamp64 i))))"

definition XDR_scan_uint32 :: "(string \<Rightarrow> u32) option \<Rightarrow> string \<Rightarrow> u32 \<Rightarrow> u32" where
  "XDR_scan_uint32 conv inp val =
     (case conv of Some c \<Rightarrow> c inp | None \<Rightarrow> (case c_integer 0 inp of None \<Rightarrow> val | Some i \<Rightarrow> word_of_int (fst (clamp64 i))))"

definition XDR_scan_int64 :: "(string \<Rightarrow> u64) option \<Rightarrow> string \<Rightarrow> u64 \<Rightarrow> u64" where
  "XDR_scan_int64 conv inp val =
     (case conv of Some c \<Rightarrow> c inp | None \<Rightarrow> (case c_integer 10 inp of None \<Rightarrow> val | Some i \<Rightarrow> word_of_int (fst (clamp64 i))))"

text \<open>\<open>strtoul\<close>: too large a number is the largest one, a negative one is negated as unsigned.\<close>

definition clamp_u64 :: "int \<Rightarrow> int" where
  "clamp_u64 v = (if abs v > 2 ^ 64 - 1 then 2 ^ 64 - 1 else v mod 2 ^ 64)"

definition XDR_scan_uint64 :: "(string \<Rightarrow> u64) option \<Rightarrow> string \<Rightarrow> u64 \<Rightarrow> u64" where
  "XDR_scan_uint64 conv inp val =
     (case conv of Some c \<Rightarrow> c inp | None \<Rightarrow> (case c_integer 10 inp of None \<Rightarrow> val | Some i \<Rightarrow> word_of_int (clamp_u64 i)))"

text \<open>\<open>sgnd\<close>: \<open>char\<close> is signed. \<open>junk\<close> is what the variable held, when there is no character.\<close>

definition XDR_scan_char :: "bool \<Rightarrow> u32 \<Rightarrow> string \<Rightarrow> u32" where
  "XDR_scan_char sgnd junk inp =
     (case inp of [] \<Rightarrow> junk | c # _ \<Rightarrow> if sgnd then scast (of_nat (of_char c) :: u8) else of_nat (of_char c))"

text \<open>A string that is there is overwritten: the block holds \<open>cap\<close> bytes.\<close>

definition XDR_scan_string :: "string \<Rightarrow> (string \<times> nat) option \<Rightarrow> (string \<times> nat) option" where
  "XDR_scan_string inp str =
     (case str of None \<Rightarrow> Some (inp, length inp + 1) | Some (_, cap) \<Rightarrow> if length inp < cap then Some (inp, cap) else None)"

definition XDR_scan_string_array :: "string \<Rightarrow> (string \<times> nat) option \<Rightarrow> (string \<times> nat) option" where
  "XDR_scan_string_array inp str =
     (case str of None \<Rightarrow> Some (inp, length inp + 1) | Some (_, cap) \<Rightarrow> if length inp < cap then Some (inp, cap) else None)"

definition ASCII2HEX :: "char \<Rightarrow> u8" where
  "ASCII2HEX c =
     (let n = of_char c :: nat
      in if 48 \<le> n \<and> n \<le> 57 then of_nat (n - 48) else if 65 \<le> n \<and> n \<le> 70 then of_nat (n - 65 + 10) else if 97 \<le> n \<and> n \<le> 102 then of_nat (n - 97 + 10) else 0)"

text \<open>The terminator after the last character counts as a digit 0.\<close>

definition hex_pair :: "char \<Rightarrow> char \<Rightarrow> u8" where
  "hex_pair a b = or (push_bit 4 (ASCII2HEX a)) (ASCII2HEX b)"

fun XDR_scan_byte :: "string \<Rightarrow> u8 \<Rightarrow> u8" where
  "XDR_scan_byte [] dst = dst"
| "XDR_scan_byte [a] dst = hex_pair a (CHR 0x00)"
| "XDR_scan_byte (a # b # s) dst = hex_pair a b"

fun XDR_scan_byte_array :: "string \<Rightarrow> u8 list" where
  "XDR_scan_byte_array [] = []"
| "XDR_scan_byte_array [a] = [hex_pair a (CHR 0x00)]"
| "XDR_scan_byte_array (a # b # s) = hex_pair a b # XDR_scan_byte_array s"

function split_commas :: "string \<Rightarrow> string list" where
  "split_commas s =
     (let piece = takeWhile (\<lambda>c. c \<noteq> CHR '','') s
      in if CHR '','' \<in> set s then piece # split_commas (drop (length piece + 1) s) else [piece])"
  by pat_completeness auto
termination by (relation "measure length") (auto intro!: diff_less length_pos_if_in_set)

declare split_commas.simps [simp del]

definition XDR_array_field_scanner :: "(string \<Rightarrow> 'v \<Rightarrow> 'v) \<Rightarrow> 'v \<Rightarrow> string \<Rightarrow> 'v list option" where
  "XDR_array_field_scanner scan zero inp = (if inp = [] then None else Some (map (\<lambda>s. scan s zero) (split_commas inp)))"

definition XDR_scan_int32_array :: "(string \<Rightarrow> u32) option \<Rightarrow> string \<Rightarrow> u32 list option" where
  "XDR_scan_int32_array conv = XDR_array_field_scanner (XDR_scan_int32 conv) 0"

definition XDR_scan_uint32_array :: "(string \<Rightarrow> u32) option \<Rightarrow> string \<Rightarrow> u32 list option" where
  "XDR_scan_uint32_array conv = XDR_array_field_scanner (XDR_scan_uint32 conv) 0"

definition XDR_scan_int64_array :: "(string \<Rightarrow> u64) option \<Rightarrow> string \<Rightarrow> u64 list option" where
  "XDR_scan_int64_array conv = XDR_array_field_scanner (XDR_scan_int64 conv) 0"

definition XDR_scan_uint64_array :: "(string \<Rightarrow> u64) option \<Rightarrow> string \<Rightarrow> u64 list option" where
  "XDR_scan_uint64_array conv = XDR_array_field_scanner (XDR_scan_uint64 conv) 0"

end
