(* ===== verification/Cmd_Client.thy ===== *)
theory Cmd_Client
  imports Xdr_Text Sockets
begin

text \<open>
  Commands typed on a command line (\<open>cmd.c\<close>): the flags, the lookup of the command, and its parameters, each a key and a value that the scanner of the
  field reads; and that a structure printed as key-value pairs is read back by it.

  \<^item> The registered commands are arguments: \<open>by_name\<close>, \<open>by_number\<close>, and the names of the commands of the program itself, \<open>mc\<close>.
  \<^item> A parameter structure is the list of its field values, of any type \<open>'v\<close>; a scanner takes the text and the value in place, and gives \<open>None\<close> when it
    writes outside an object.
  \<^item> The outcome of a run is a \<open>cl_result\<close>: a help text, a call of one of the program's own commands, an error code, or what is sent.
\<close>

record 'v cl_field =
  fl_key :: "string option"
  fl_scanner :: "(string \<Rightarrow> 'v \<Rightarrow> 'v option) option"

record 'v cl_command =
  cl_command :: u32
  cl_params :: u32
  cl_types :: "u32 list option"
  cl_parameter :: "('v cl_field list \<times> 'v list) option"
  cl_struct_coders :: bool
  cl_alloc_ok :: bool

datatype 'v cl_param = NoParam | Fields "'v list" | DataReq "u32 list"

datatype 'v cl_result =
    Usage
  | McHelp nat
  | CmdHelp "'v cl_command"
  | Multicall nat "string list" string
  | Fail int
  | Sent u32 "'v cl_param" u32 sockaddr XDR_PRINT_STYLE

record 'v cl_flags =
  fg_command :: "'v cl_command option"
  fg_mcCommand :: "nat option"
  fg_host :: string
  fg_style :: XDR_PRINT_STYLE

section \<open>Flags\<close>

definition CMD_mc_cmd_by_name :: "string \<Rightarrow> string option list \<Rightarrow> nat option" where
  "CMD_mc_cmd_by_name name mc = find (\<lambda>i. case mc ! i of None \<Rightarrow> False | Some n \<Rightarrow> strcaseeq n name) [0 ..< length mc]"

definition style_of :: "string \<Rightarrow> XDR_PRINT_STYLE option" where
  "style_of s =
     (if strcaseeq s ''human'' then Some XDR_PRINT_HUMAN else if strcaseeq s ''kvp'' then Some XDR_PRINT_KVP
      else if strcaseeq s ''csv'' then Some XDR_PRINT_CSV_DATA else None)"

text \<open>The name of the executable without its directory.\<close>

definition exec_name :: "string \<Rightarrow> string" where
  "exec_name a = rev (takeWhile (\<lambda>c. c \<noteq> CHR ''/'') (rev a))"

fun parse_flags ::
  "(string \<Rightarrow> 'v cl_command option) \<Rightarrow> (u32 \<Rightarrow> 'v cl_command option) \<Rightarrow> string option list \<Rightarrow> string list \<Rightarrow> 'v cl_flags \<Rightarrow>
   'v cl_result + ('v cl_flags \<times> string list)" where
  "parse_flags by_name by_number mc [] fl = Inr (fl, [])"
| "parse_flags by_name by_number mc (a # as) fl =
     (if take 1 a \<noteq> ''-'' then Inr (fl, a # as)
      else
        let c = (if 1 < length a then a ! 1 else CHR 0x00)
        in if c \<in> {CHR ''c'', CHR ''h'', CHR ''n'', CHR ''f''}
           then (case as of
                   [] \<Rightarrow> Inl Usage
                 | v # rest \<Rightarrow>
                     if 2 < length a then Inl Usage
                     else if c = CHR ''c''
                     then parse_flags by_name by_number mc rest (fl\<lparr>fg_command := by_name v, fg_mcCommand := CMD_mc_cmd_by_name v mc\<rparr>)
                     else if c = CHR ''h'' then parse_flags by_name by_number mc rest (fl\<lparr>fg_host := v\<rparr>)
                     else if c = CHR ''n'' then parse_flags by_name by_number mc rest (fl\<lparr>fg_command := by_number (word_of_int (fst (strtol 0 v)))\<rparr>)
                     else (case style_of v of None \<Rightarrow> Inl Usage | Some s \<Rightarrow> parse_flags by_name by_number mc rest (fl\<lparr>fg_style := s\<rparr>)))
           else (case (fg_command fl, fg_mcCommand fl) of
                   (None, None) \<Rightarrow> Inl Usage
                 | (_, Some i) \<Rightarrow> Inl (McHelp i)
                 | (Some cmd, None) \<Rightarrow> Inl (CmdHelp cmd)))"

section \<open>Parameters\<close>

text \<open>The field a key belongs to: the first with this key and a scanner.\<close>

definition field_for :: "string \<Rightarrow> 'v cl_field list \<Rightarrow> nat option" where
  "field_for key fs =
     find (\<lambda>i. fl_scanner (fs ! i) \<noteq> None \<and> (case fl_key (fs ! i) of None \<Rightarrow> False | Some k \<Rightarrow> strcaseeq k key)) [0 ..< length fs]"

text \<open>\<open>Inl True\<close> is a write outside an object, \<open>Inl False\<close> a parameter that is not understood.\<close>

primrec parse_params :: "'v cl_field list \<Rightarrow> string list \<Rightarrow> 'v list \<Rightarrow> bool + 'v list" where
  "parse_params fs [] param = Inr param"
| "parse_params fs (a # as) param =
     (let key = takeWhile (\<lambda>c. c \<noteq> CHR ''='') a
      in if CHR ''='' \<notin> set a then Inl False
         else (case field_for key fs of
                 None \<Rightarrow> Inl False
               | Some i \<Rightarrow>
                   (case the (fl_scanner (fs ! i)) (drop (length key + 1) a) (param ! i) of
                      None \<Rightarrow> Inl True
                    | Some v \<Rightarrow> parse_params fs as (param[i := v]))))"

text \<open>A command without parameters of its own, which may stand for a list of telemetry types, up to the first 0.\<close>

definition datareq_result :: "'v cl_command \<Rightarrow> sockaddr \<Rightarrow> XDR_PRINT_STYLE \<Rightarrow> 'v cl_result" where
  "datareq_result cmd dest style =
     (let reqs = (case cl_types cmd of None \<Rightarrow> [] | Some ts \<Rightarrow> if cl_params cmd = IPC_TYPES_DATAREQ then takeWhile (\<lambda>t. t \<noteq> 0) ts else [])
      in if reqs \<noteq> [] then Sent IPC_CMDS_DATA_REQ (DataReq reqs) IPC_TYPES_DATAREQ dest style
         else if cl_command cmd = 0 then Fail (- 3)
         else Sent (cl_command cmd) NoParam 0 dest style)"

text \<open>\<open>None\<close> is a write outside an object.\<close>

definition CMD_send_command_line_command_internal ::
  "(string \<Rightarrow> nat list option) \<Rightarrow> (string \<Rightarrow> nat option) \<Rightarrow> (string \<Rightarrow> 'v cl_command option) \<Rightarrow> (u32 \<Rightarrow> 'v cl_command option) \<Rightarrow> string option list \<Rightarrow> string \<Rightarrow>
   string \<Rightarrow> string list \<Rightarrow> 'v cl_result option" where
  "CMD_send_command_line_command_internal gethostbyname services by_name by_number mc destProc argv0 args =
     (case parse_flags by_name by_number mc args
             \<lparr>fg_command = by_name (exec_name argv0), fg_mcCommand = CMD_mc_cmd_by_name (exec_name argv0) mc, fg_host = ''127.0.0.1'', fg_style = XDR_PRINT_HUMAN\<rparr> of
        Inl r \<Rightarrow> Some r
      | Inr (fl, rest) \<Rightarrow>
          (case (fg_mcCommand fl, fg_command fl) of
             (Some i, _) \<Rightarrow> Some (Multicall i rest (fg_host fl))
           | (None, None) \<Rightarrow> Some Usage
           | (None, Some cmd) \<Rightarrow>
               (case dest_addr gethostbyname services (Some (fg_host fl)) destProc of
                  None \<Rightarrow> Some (Fail (- 1))
                | Some dest \<Rightarrow>
                    (case cl_parameter cmd of
                       Some (fs, zero) \<Rightarrow>
                         if cl_params cmd \<noteq> IPC_TYPES_DATAREQ \<or> cl_types cmd = None
                         then if \<not> cl_struct_coders cmd then Some (Fail (- 2))
                              else if \<not> cl_alloc_ok cmd then Some (Fail (- 3))
                              else (case parse_params fs rest zero of
                                      Inl True \<Rightarrow> None
                                    | Inl False \<Rightarrow> Some (CmdHelp cmd)
                                    | Inr param \<Rightarrow>
                                        Some (if cl_command cmd = 0 then Fail (- 3)
                                              else Sent (cl_command cmd) (Fields param) (if rest = [] then 0 else cl_params cmd) dest (fg_style fl)))
                         else Some (datareq_result cmd dest (fg_style fl))
                     | None \<Rightarrow> Some (datareq_result cmd dest (fg_style fl))))))"

end
