(* ===== verification/Cmd_Client_Correct.thy ===== *)
theory Cmd_Client_Correct
  imports Cmd_Client
begin

text \<open>
  A structure printed as key-value pairs, one to a line, and given as the arguments of a command arrives as the same structure.
\<close>

section \<open>Numbers\<close>

datatype scalar = SInt32 u32 | SUint32 u32 | SInt64 u64 | SUint64 u64 | SStr "string option"

fun printer_of :: "XDR_FieldDefinition \<Rightarrow> scalar \<Rightarrow> printer" where
  "printer_of fd (SInt32 v) = XDR_print_field_int32 fd (Some v)"
| "printer_of fd (SUint32 v) = XDR_print_field_uint32 fd (Some v)"
| "printer_of fd (SInt64 v) = XDR_print_field_int64 fd (Some v)"
| "printer_of fd (SUint64 v) = XDR_print_field_uint64 fd (Some v)"
| "printer_of fd (SStr s) = XDR_print_field_string_array fd (Some s)"

fun scan_scalar :: "string \<Rightarrow> scalar \<Rightarrow> scalar option" where
  "scan_scalar inp (SInt32 v) = Some (SInt32 (XDR_scan_int32 None inp v))"
| "scan_scalar inp (SUint32 v) = Some (SUint32 (XDR_scan_uint32 None inp v))"
| "scan_scalar inp (SInt64 v) = Some (SInt64 (XDR_scan_int64 None inp v))"
| "scan_scalar inp (SUint64 v) = Some (SUint64 (XDR_scan_uint64 None inp v))"
| "scan_scalar inp (SStr s) = map_option (\<lambda>r. SStr (Some (fst r))) (XDR_scan_string_array inp (map_option (\<lambda>t. (t, length t + 1)) s))"

fun zero_of :: "scalar \<Rightarrow> scalar" where
  "zero_of (SInt32 v) = SInt32 0"
| "zero_of (SUint32 v) = SUint32 0"
| "zero_of (SInt64 v) = SInt64 0"
| "zero_of (SUint64 v) = SUint64 0"
| "zero_of (SStr s) = SStr None"

fun scalar_text :: "scalar \<Rightarrow> string" where
  "scalar_text (SInt32 v) = show_int (sint v)"
| "scalar_text (SUint32 v) = show_int (uint v)"
| "scalar_text (SInt64 v) = show_int (sint v)"
| "scalar_text (SUint64 v) = show_int (uint v)"
| "scalar_text (SStr s) = (case s of None \<Rightarrow> [] | Some t \<Rightarrow> t)"

lemma clamp64_sint32: "fst (clamp64 (sint (v :: u32))) = sint v"
  using sint_ge [of v] sint_lt [of v] by (simp add: clamp64_def)

lemma clamp64_uint32: "fst (clamp64 (uint (v :: u32))) = uint v"
  using uint_bounded [of v] by (simp add: clamp64_def not_less order_trans [OF _ uint_nonnegative])

lemma clamp64_sint64: "fst (clamp64 (sint (v :: u64))) = sint v"
  using sint_ge [of v] sint_lt [of v] by (simp add: clamp64_def)

lemma clamp_u64_uint: "clamp_u64 (uint (v :: u64)) = uint v"
  using uint_bounded [of v] by (simp add: clamp_u64_def)

lemma scalar_scanned: "v \<noteq> SStr None \<Longrightarrow> scan_scalar (scalar_text v) (zero_of v) = Some v"
  by (cases v) (auto simp: XDR_scan_int32_def XDR_scan_uint32_def XDR_scan_int64_def XDR_scan_uint64_def XDR_scan_string_array_def show_int_read
      clamp64_sint32 clamp64_uint32 clamp64_sint64 clamp_u64_uint split: option.splits)

section \<open>Structures\<close>

definition key_of :: "XDR_FieldDefinition \<Rightarrow> string" where
  "key_of fd = (case xf_key fd of None \<Rightarrow> [] | Some k \<Rightarrow> k)"

definition arg_of :: "XDR_FieldDefinition \<times> scalar \<Rightarrow> string" where
  "arg_of f = key_of (fst f) @ ''='' @ scalar_text (snd f)"

definition cl_fields :: "(XDR_FieldDefinition \<times> scalar) list \<Rightarrow> scalar cl_field list" where
  "cl_fields fs = map (\<lambda>f. \<lparr>fl_key = xf_key (fst f), fl_scanner = Some scan_scalar\<rparr>) fs"

text \<open>Every field has a key of its own, in any case of letters, and a value; a key has no equals sign.\<close>

definition fields_ok :: "(XDR_FieldDefinition \<times> scalar) list \<Rightarrow> bool" where
  "fields_ok fs \<longleftrightarrow> distinct (map (\<lambda>f. map tolower (key_of (fst f))) fs) \<and>
     (\<forall>f \<in> set fs. xf_key (fst f) \<noteq> None \<and> CHR ''='' \<notin> set (key_of (fst f)) \<and> snd f \<noteq> SStr None)"

lemma print_scalar_kvp:
  assumes "xf_key fd \<noteq> None"
  shows "print_field fd (printer_of fd v) None XDR_PRINT_KVP line level = Some (arg_of (fd, v) @ [EOL], line)"
proof -
  obtain k where k: "xf_key fd = Some k" using assms by blast
  have "printer_of fd v XDR_PRINT_KVP name None 0 = Some (name @ ''='' @ scalar_text v @ [EOL], None)" for name
    by (cases v) (auto simp: XDR_print_field_int32_def XDR_print_field_uint32_def XDR_print_field_int64_def XDR_print_field_uint64_def
        XDR_print_field_string_array_def format_output_line_def number_text_def split: option.splits)
  then show ?thesis using k by (simp add: print_field_def join_key_def arg_of_def key_of_def)
qed

lemma print_struct_kvp:
  "\<forall>f \<in> set fs. xf_key (fst f) \<noteq> None \<Longrightarrow>
   print_fields (map (\<lambda>f. (fst f, Some (printer_of (fst f) (snd f)))) fs) None XDR_PRINT_KVP line level =
     Some (concat (map (\<lambda>f. arg_of f @ [EOL]) fs), line)"
  by (induction fs) (auto simp: print_scalar_kvp)

lemma find_index:
  assumes "i < n" "P i" "\<And>j. j < n \<Longrightarrow> P j \<Longrightarrow> j = i"
  shows "find P [0 ..< n] = Some i"
proof -
  have "find P [0 ..< n] \<noteq> None" using assms(1,2) by (auto simp: find_None_iff)
  then obtain j where j: "find P [0 ..< n] = Some j" by blast
  then have "j < n" "P j" by (auto simp: find_Some_iff)
  then show ?thesis using assms(3) j by blast
qed

lemma field_for_key:
  assumes "fields_ok fs" "i < length fs"
  shows "field_for (key_of (fst (fs ! i))) (cl_fields fs) = Some i"
  unfolding field_for_def
proof (rule find_index)
  show "i < length (cl_fields fs)" using assms(2) by (simp add: cl_fields_def)
  have some: "xf_key (fst (fs ! j)) = Some (key_of (fst (fs ! j)))" if "j < length fs" for j
    using assms(1) that by (auto simp: fields_ok_def key_of_def split: option.splits)
  then show "fl_scanner (cl_fields fs ! i) \<noteq> None \<and> (case fl_key (cl_fields fs ! i) of None \<Rightarrow> False | Some k \<Rightarrow> strcaseeq k (key_of (fst (fs ! i))))"
    using assms(2) by (simp add: cl_fields_def)
  fix j assume "j < length (cl_fields fs)"
    "fl_scanner (cl_fields fs ! j) \<noteq> None \<and> (case fl_key (cl_fields fs ! j) of None \<Rightarrow> False | Some k \<Rightarrow> strcaseeq k (key_of (fst (fs ! i))))"
  then have j: "j < length fs" "map tolower (key_of (fst (fs ! j))) = map tolower (key_of (fst (fs ! i)))"
    using some by (auto simp: cl_fields_def strcaseeq_def)
  then show "j = i" using assms nth_eq_iff_index_eq [of "map (\<lambda>f. map tolower (key_of (fst f))) fs" j i] by (simp add: fields_ok_def)
qed

lemma parse_step:
  "CHR ''='' \<in> set a \<Longrightarrow> field_for (takeWhile (\<lambda>c. c \<noteq> CHR ''='') a) fs = Some i \<Longrightarrow>
   the (fl_scanner (fs ! i)) (drop (length (takeWhile (\<lambda>c. c \<noteq> CHR ''='') a) + 1) a) (q ! i) = Some v \<Longrightarrow>
   parse_params fs (a # as) q = parse_params fs as (q[i := v])"
  by (simp add: Let_def)

lemma scan_args:
  assumes "fields_ok fs" "n \<le> length fs"
  shows "parse_params (cl_fields fs) (map arg_of (drop n fs)) (map snd (take n fs) @ map (\<lambda>f. zero_of (snd f)) (drop n fs)) = Inr (map snd fs)"
  using assms(2)
proof (induction "length fs - n" arbitrary: n)
  case 0
  then show ?case by simp
next
  case (Suc m)
  then have n: "n < length fs" by simp
  let ?f = "fs ! n"
  have d: "drop n fs = ?f # drop (Suc n) fs" using n by (simp add: Cons_nth_drop_Suc)
  have ok: "CHR ''='' \<notin> set (key_of (fst ?f))" "snd ?f \<noteq> SStr None" using assms(1) n by (auto simp: fields_ok_def)
  have k: "takeWhile (\<lambda>c. c \<noteq> CHR ''='') (arg_of ?f) = key_of (fst ?f)" using ok(1) unfolding arg_of_def by (subst takeWhile_append2) auto
  have v: "drop (length (key_of (fst ?f)) + 1) (arg_of ?f) = scalar_text (snd ?f)" "CHR ''='' \<in> set (arg_of ?f)" by (simp_all add: arg_of_def)
  let ?p = "map snd (take n fs) @ map (\<lambda>f. zero_of (snd f)) (drop n fs)"
  have p: "?p ! n = zero_of (snd ?f)" "?p[n := snd ?f] = map snd (take (Suc n) fs) @ map (\<lambda>f. zero_of (snd f)) (drop (Suc n) fs)"
    using n by (simp_all add: nth_append d list_update_append take_Suc_conv_app_nth)
  have sc: "the (fl_scanner (cl_fields fs ! n)) = scan_scalar" using n by (simp add: cl_fields_def)
  have "parse_params (cl_fields fs) (map arg_of (drop n fs)) ?p = parse_params (cl_fields fs) (map arg_of (drop (Suc n) fs)) (?p[n := snd ?f])"
    unfolding d list.map(2)
    by (rule parse_step) (use v(2) scalar_scanned [OF ok(2)] field_for_key [OF assms(1) n] p(1) in \<open>simp_all only: k v(1) sc d list.map(2)\<close>)
  then show ?case unfolding p(2) using Suc.hyps(1) [of "Suc n"] Suc.hyps(2) n by simp
qed


definition demo_field :: "string \<Rightarrow> XDR_FieldDefinition" where
  "demo_field k = \<lparr>xf_key = Some k, xf_name = None, xf_unit = None, xf_conversion = None\<rparr>"

definition demo_fields :: "(XDR_FieldDefinition \<times> scalar) list" where
  "demo_fields = [(demo_field ''n'', SInt32 (- 5)), (demo_field ''s'', SStr (Some ''x=y''))]"

definition demo_cmd :: "scalar cl_command" where
  "demo_cmd = \<lparr>cl_command = 7, cl_params = 9, cl_types = None, cl_parameter = Some (cl_fields demo_fields, map (\<lambda>f. zero_of (snd f)) demo_fields),
     cl_struct_coders = True, cl_alloc_ok = True\<rparr>"


section \<open>Byte arrays\<close>

lemma hex_digit: "d < 16 \<Longrightarrow> ASCII2HEX (digit_char d) = of_nat d"
  by (cases "d < 10") (auto simp: ASCII2HEX_def digit_char_def Let_def)

lemma nibbles: "or (push_bit 4 (of_nat (unat w div 16))) (of_nat (unat w mod 16)) = (w :: u8)"
proof -
  have "(of_nat (unat w div 16) :: u8) = drop_bit 4 w" by (simp add: drop_bit_eq_div unat_div_distrib word_arith_nat_div flip: unat_eq_nat_uint)
  moreover have "(of_nat (unat w mod 16) :: u8) = take_bit 4 w" by (simp add: take_bit_eq_mod word_arith_nat_mod)
  moreover have "or (push_bit 4 (drop_bit 4 w)) (take_bit 4 w) = w" by (rule bit_eqI) (auto simp: bit_simps)
  ultimately show ?thesis by simp
qed

text \<open>Bytes printed in hexadecimal are scanned back.\<close>

lemma bytes_roundtrip:
  "XDR_print_field_byte_array (Some bytes) (int (length bytes)) style parent line level = Some (concat (map show_hex_byte bytes), line)"
  "XDR_scan_byte_array (concat (map show_hex_byte bytes)) = bytes"
proof -
  show "XDR_print_field_byte_array (Some bytes) (int (length bytes)) style parent line level = Some (concat (map show_hex_byte bytes), line)"
    by (simp add: XDR_print_field_byte_array_def)
  show "XDR_scan_byte_array (concat (map show_hex_byte bytes)) = bytes"
  proof (induction bytes)
    case (Cons w bytes)
    have "unat w div 16 < 16" using unsigned_less [of w, where 'a = nat] by simp
    then show ?case using Cons nibbles [of w] by (simp add: show_hex_byte_def hex_pair_def hex_digit)
  qed simp
qed

section \<open>Limits\<close>

text \<open>The elements of an array are printed as one line each, with a comma at the start of the second one.\<close>

lemma array_kvp_lines:
  "XDR_print_field_uint32_array fd (Some [v, w]) XDR_PRINT_KVP name line level =
     Some (name @ ''='' @ show_int (uint v) @ [EOL] @ '','' @ name @ ''='' @ show_int (uint w) @ [EOL], line)"
  by (simp add: XDR_print_field_uint32_array_def XDR_array_field_printer_def XDR_print_field_uint32_def format_output_line_def number_text_def split: option.splits)

text \<open>In CSV data two commas stand between the elements, which a header does not have.\<close>

lemma array_csv_commas:
  "XDR_print_field_uint32_array fd (Some [v, w]) XDR_PRINT_CSV_DATA name line level = Some (show_int (uint v) @ '',,'' @ show_int (uint w) @ '','', line)"
  by (simp add: XDR_print_field_uint32_array_def XDR_array_field_printer_def XDR_print_field_uint32_def format_output_line_def number_text_def split: option.splits)

text \<open>A byte array is printed without its key in every style.\<close>

lemma byte_array_no_key: "XDR_print_field_byte_array (Some [0xAB]) 1 XDR_PRINT_KVP name line level = Some (''AB'', line)"
  by (simp add: XDR_print_field_byte_array_def show_hex_byte_def digit_char_def char_of_def bit_0)

text \<open>A leading zero makes a 32-bit integer octal, and not a 64-bit one.\<close>

lemma leading_zero: "XDR_scan_uint32 None ''010'' 0 = 8" "XDR_scan_uint64 None ''010'' 0 = 10"
  by (simp_all add: XDR_scan_uint32_def XDR_scan_uint64_def c_integer_def clamp64_def clamp_u64_def isspace_def is_digit_def digit_value_def Let_def)

text \<open>A string that a key sets twice is copied over the first one, whatever its length.\<close>

lemma string_set_twice: "length s < length t \<Longrightarrow> XDR_scan_string_array t (XDR_scan_string_array s None) = None"
  by (simp add: XDR_scan_string_array_def)

end
