(* ===== verification/Xdr_Free.thy ===== *)
theory Xdr_Free
  imports Prelude
begin

text \<open>
  Freeing structures (\<open>xdr.c\<close>): the deallocators of fields and of structures.

  \<^item> A field in memory is an \<open>mfield\<close>: what its deallocator finds there. Addresses are blocks of the heap, 0 is \<open>NULL\<close>.
  \<^item> A deallocator gives the blocks it frees, in order; \<open>None\<close> is a use of memory that is not what the code takes it for, or a failed assertion.
    \<open>release\<close> frees them in a heap, \<open>None\<close> being a block that is freed twice or was never allocated.
  \<^item> \<open>defs\<close> says which deallocator a registered type has: \<open>XDR_struct_free_deallocator\<close>, \<open>XDR_free_deallocator\<close>, or none.
\<close>

datatype dealloc = StructFree | FreeOnly | NoDealloc

datatype mfield =
    MPlain
  | MArray ptr
  | MStructArray ptr "mfield list list"
  | MUnion u32 ptr "mfield list"
  | MDict "(ptr \<times> ptr) list"
  | MStruct u32 ptr
  | MUnionArray ptr

definition free_block :: "ptr \<Rightarrow> ptr list" where
  "free_block p = (if p = 0 then [] else [p])"

definition XDR_array_field_deallocator :: "ptr \<Rightarrow> ptr list" where
  "XDR_array_field_deallocator p = free_block p"

definition XDR_struct_array_field_deallocator :: "ptr \<Rightarrow> ptr list" where
  "XDR_struct_array_field_deallocator p = free_block p"

definition XDR_free_deallocator :: "ptr \<Rightarrow> ptr list" where
  "XDR_free_deallocator p = free_block p"

definition XDR_union_array_field_deallocator :: "ptr \<Rightarrow> ptr list option" where
  "XDR_union_array_field_deallocator p = None"

definition XDR_dictionary_free_cb :: "ptr \<Rightarrow> ptr list" where
  "XDR_dictionary_free_cb val = free_block val"

text \<open>Each node is removed after its value, in the order of the buckets.\<close>

definition XDR_dictionary_field_deallocator :: "(ptr \<times> ptr) list \<Rightarrow> ptr list" where
  "XDR_dictionary_field_deallocator nodes = concat (map (\<lambda>(node, val). XDR_dictionary_free_cb val @ free_block node) nodes)"

text \<open>
  The field holds the structure itself, whose first word is \<open>w\<close>; the deallocator of the type takes it for the address of the structure.
\<close>

definition XDR_struct_field_deallocator :: "(u32 \<Rightarrow> dealloc option) \<Rightarrow> u32 \<Rightarrow> ptr \<Rightarrow> ptr list option" where
  "XDR_struct_field_deallocator defs ty w =
     (case defs ty of
        None \<Rightarrow> Some []
      | Some NoDealloc \<Rightarrow> Some []
      | Some _ \<Rightarrow> if w = 0 then Some [] else None)"

fun XDR_struct_free_fields :: "(u32 \<Rightarrow> dealloc option) \<Rightarrow> mfield list \<Rightarrow> ptr list option"
  and field_dealloc :: "(u32 \<Rightarrow> dealloc option) \<Rightarrow> mfield \<Rightarrow> ptr list option" where
  "XDR_struct_free_fields defs [] = Some []"
| "XDR_struct_free_fields defs (f # fs) =
     (case field_dealloc defs f of
        None \<Rightarrow> None
      | Some l \<Rightarrow> (case XDR_struct_free_fields defs fs of None \<Rightarrow> None | Some r \<Rightarrow> Some (l @ r)))"
| "field_dealloc defs MPlain = Some []"
| "field_dealloc defs (MArray p) = Some (XDR_array_field_deallocator p)"
| "field_dealloc defs (MStructArray p els) = Some (XDR_struct_array_field_deallocator p)"
| "field_dealloc defs (MUnion ty p fs) =
     (case defs ty of
        Some StructFree \<Rightarrow> if p = 0 then Some [] else map_option (\<lambda>l. l @ [p]) (XDR_struct_free_fields defs fs)
      | Some FreeOnly \<Rightarrow> Some (XDR_free_deallocator p)
      | _ \<Rightarrow> Some (free_block p))"
| "field_dealloc defs (MDict nodes) = Some (XDR_dictionary_field_deallocator nodes)"
| "field_dealloc defs (MStruct ty w) = XDR_struct_field_deallocator defs ty w"
| "field_dealloc defs (MUnionArray p) = XDR_union_array_field_deallocator p"

definition XDR_struct_free_deallocator :: "(u32 \<Rightarrow> dealloc option) \<Rightarrow> ptr \<Rightarrow> mfield list \<Rightarrow> ptr list option" where
  "XDR_struct_free_deallocator defs p fs = (if p = 0 then Some [] else map_option (\<lambda>l. l @ [p]) (XDR_struct_free_fields defs fs))"

definition XDR_union_field_deallocator :: "(u32 \<Rightarrow> dealloc option) \<Rightarrow> u32 \<Rightarrow> ptr \<Rightarrow> mfield list \<Rightarrow> ptr list option" where
  "XDR_union_field_deallocator defs ty p fs =
     (case defs ty of
        Some StructFree \<Rightarrow> XDR_struct_free_deallocator defs p fs
      | Some FreeOnly \<Rightarrow> Some (XDR_free_deallocator p)
      | _ \<Rightarrow> Some (free_block p))"

definition XDR_free_union :: "(u32 \<Rightarrow> dealloc option) \<Rightarrow> u32 \<Rightarrow> ptr \<Rightarrow> mfield list \<Rightarrow> ptr list option" where
  "XDR_free_union defs ty p fs = (if p = 0 then Some [] else XDR_union_field_deallocator defs ty p fs)"

lemma union_dealloc: "field_dealloc defs (MUnion ty p fs) = XDR_union_field_deallocator defs ty p fs"
  by (simp add: XDR_union_field_deallocator_def XDR_struct_free_deallocator_def split: option.splits dealloc.splits)

section \<open>Every block once\<close>

primrec release :: "ptr list \<Rightarrow> ptr set \<Rightarrow> ptr set option" where
  "release [] live = Some live"
| "release (p # ps) live = (if p \<in> live then release ps (live - {p}) else None)"

lemma release_distinct: "distinct ps \<Longrightarrow> set ps \<subseteq> live \<Longrightarrow> release ps live = Some (live - set ps)"
proof (induction ps arbitrary: live)
  case (Cons p ps)
  then have "release ps (live - {p}) = Some (live - {p} - set ps)" by (intro Cons.IH) auto
  then show ?case using Cons.prems by auto
qed simp

text \<open>The blocks a field owns.\<close>

fun owned :: "mfield \<Rightarrow> ptr list" where
  "owned MPlain = []"
| "owned (MArray p) = free_block p"
| "owned (MStructArray p els) = free_block p @ (if p = 0 then [] else concat (map (\<lambda>fs. concat (map owned fs)) els))"
| "owned (MUnion ty p fs) = (if p = 0 then [] else p # concat (map owned fs))"
| "owned (MDict nodes) = concat (map (\<lambda>(node, val). free_block val @ free_block node) nodes)"
| "owned (MStruct ty w) = []"
| "owned (MUnionArray p) = free_block p"

text \<open>
  Fields whose deallocators are complete: no structures by value and no arrays of unions, elements of an array of structures own nothing, and what is
  in a union belongs to a type with the deallocator of structures or owns nothing.
\<close>

fun complete :: "(u32 \<Rightarrow> dealloc option) \<Rightarrow> mfield \<Rightarrow> bool" where
  "complete defs MPlain = True"
| "complete defs (MArray p) = True"
| "complete defs (MStructArray p els) = list_all (list_all (\<lambda>f. owned f = [])) els"
| "complete defs (MUnion ty p fs) = (if defs ty = Some StructFree then list_all (complete defs) fs else list_all (\<lambda>f. owned f = []) fs)"
| "complete defs (MDict nodes) = True"
| "complete defs (MStruct ty w) = False"
| "complete defs (MUnionArray p) = False"

lemma dealloc_complete:
  "list_all (complete defs) fs \<Longrightarrow> \<exists>l. XDR_struct_free_fields defs fs = Some l \<and> mset l = mset (concat (map owned fs))"
  "complete defs f \<Longrightarrow> \<exists>l. field_dealloc defs f = Some l \<and> mset l = mset (owned f)"
proof (induction defs fs and defs f rule: XDR_struct_free_fields_field_dealloc.induct)
  case (5 defs p els)
  have "concat (map (\<lambda>fs. concat (map owned fs)) els) = []" using 5 by (auto simp: list_all_iff)
  then show ?case by (auto simp: XDR_struct_array_field_deallocator_def)
next
  case (6 defs ty p fs)
  show ?case
  proof (cases "defs ty = Some StructFree")
    case True
    then show ?thesis using 6 by auto
  next
    case False
    then have "concat (map owned fs) = []" using 6(2) by (auto simp: list_all_iff)
    then show ?thesis using False by (auto simp: XDR_free_deallocator_def free_block_def split: option.splits dealloc.splits)
  qed
next
  case (2 defs f fs)
  then obtain l r where "field_dealloc defs f = Some l" "mset l = mset (owned f)" "XDR_struct_free_fields defs fs = Some r" "mset r = mset (concat (map owned fs))"
    by auto
  then show ?case by simp
qed (simp_all add: XDR_array_field_deallocator_def XDR_dictionary_field_deallocator_def XDR_dictionary_free_cb_def)



section \<open>Limits\<close>

text \<open>The blocks that the elements of an array of structures own are not freed.\<close>

lemma struct_array_leaks:
  "field_dealloc defs (MStructArray 1 [[MArray 2], [MArray 3]]) = Some [1] \<and> owned (MStructArray 1 [[MArray 2], [MArray 3]]) = [1, 2, 3]"
  by (simp add: XDR_struct_array_field_deallocator_def free_block_def)

text \<open>A structure held by value: its first word is taken for the address of a structure.\<close>

lemma struct_by_value_misread: "defs ty = Some StructFree \<Longrightarrow> w \<noteq> 0 \<Longrightarrow> XDR_struct_free_fields defs (MStruct ty w # fs) = None"
  by (simp add: XDR_struct_field_deallocator_def)

end
