(* ===== verification/Proc_Init.thy ===== *)
theory Proc_Init
  imports C_Text Timeval
begin

text \<open>
  Starting and ending a process (\<open>proclib.c\<close>): the files in \<open>/var/run\<close> that tell which process is which, the registration with the watchdog, the table of
  commands read from a configuration file (\<open>cmd.c\<close>), and functions that run in a thread of their own.

  \<^item> The file system maps a path to the content of a file. \<open>None\<close> as a result is a write outside a buffer.
  \<^item> \<open>pid\<close> is the result of \<open>getpid\<close>.
\<close>

datatype WatchdogMode = WD_NOTSAT | WD_XDR | WD_ENABLED | WD_DISABLED

type_synonym files = "string \<Rightarrow> string option"

definition PID_FILE_PATH :: string where "PID_FILE_PATH = ''/var/run''"
definition PROC_FILE_PATH :: string where "PROC_FILE_PATH = ''/var/run''"

definition pid_file :: "string \<Rightarrow> string" where
  "pid_file name = PID_FILE_PATH @ ''/'' @ name @ ''.pid''"

definition proc_file :: "int \<Rightarrow> string" where
  "proc_file pid = PROC_FILE_PATH @ ''/'' @ show_int pid @ ''.proc''"

section \<open>Files of a process\<close>

text \<open>\<open>fscanf(inp, "%d", ...)\<close>: a number that does not fit keeps its low bits.\<close>

definition scan_pid :: "string \<Rightarrow> int" where
  "scan_pid s = (case c_integer 10 s of None \<Rightarrow> - 1 | Some i \<Rightarrow> sint (word_of_int (fst (clamp64 i)) :: 32 word))"

definition first_word :: "string \<Rightarrow> string" where
  "first_word s = takeWhile (\<lambda>c. \<not> isspace c) (dropWhile isspace s)"

text \<open>A file of the process that had the name before is deleted if it still says so; the word read from it must fit into 80 bytes.\<close>

definition remove_old_proc :: "string \<Rightarrow> files \<Rightarrow> files option" where
  "remove_old_proc name fs =
     (let oldPid = (case fs (pid_file name) of None \<Rightarrow> - 1 | Some s \<Rightarrow> scan_pid s)
      in if oldPid > 1
         then (case fs (proc_file oldPid) of
                 None \<Rightarrow> Some fs
               | Some s \<Rightarrow>
                   if length (first_word s) \<ge> 80 then None
                   else Some (if first_word s = name \<and> first_word s \<noteq> [] then fs(proc_file oldPid := None) else fs))
         else Some fs)"

text \<open>\<open>proc_ok\<close>, \<open>pid_ok\<close>: the files can be opened for writing.\<close>

definition write_proc_files :: "bool \<Rightarrow> bool \<Rightarrow> int \<Rightarrow> string \<Rightarrow> files \<Rightarrow> files" where
  "write_proc_files proc_ok pid_ok pid name fs =
     (let fs1 = (if proc_ok then fs(proc_file pid \<mapsto> name) else fs)
      in if pid_ok then fs1(pid_file name \<mapsto> show_int pid) else fs1)"

definition init_files :: "bool \<Rightarrow> bool \<Rightarrow> int \<Rightarrow> string option \<Rightarrow> files \<Rightarrow> files option" where
  "init_files proc_ok pid_ok pid procName fs =
     (case procName of
        None \<Rightarrow> Some fs
      | Some name \<Rightarrow>
          if length (pid_file name) \<ge> 80 then None
          else map_option (write_proc_files proc_ok pid_ok pid name) (remove_old_proc name fs))"

definition cleanup_proc_files :: "int \<Rightarrow> string option \<Rightarrow> files \<Rightarrow> files" where
  "cleanup_proc_files pid procName fs = (case procName of None \<Rightarrow> fs | Some name \<Rightarrow> fs(proc_file pid := None, pid_file name := None))"

section \<open>Watchdog\<close>

datatype wd_effect =
    WdCmd nat string
  | WdXdr nat string bool
  | WdHandler nat
  | WdTimer timeval timeval

abbreviation (input) WATCHDOG_CMD_REG_INFO :: nat where "WATCHDOG_CMD_REG_INFO \<equiv> 120"
abbreviation (input) WATCHDOG_CMD_REG_INFO_RESP :: nat where "WATCHDOG_CMD_REG_INFO_RESP \<equiv> 248"

text \<open>
  The answer of the watchdog is a packed structure of 32 bytes: the flags at 1, the process number at 2 and 3, and the name from 31 on.
  \<open>cmd_register\<close> is the number of the command to register.
\<close>

definition bytes_string :: "u8 list \<Rightarrow> string" where
  "bytes_string bs = map (\<lambda>b. char_of (unat b)) bs"

definition watchdog_reg_info :: "nat \<Rightarrow> int \<Rightarrow> string option \<Rightarrow> u8 list \<Rightarrow> wd_effect list" where
  "watchdog_reg_info cmd_register pid watchName data =
     (case watchName of
        None \<Rightarrow> []
      | Some name \<Rightarrow>
          if length data \<ge> length name + 32 \<and> cstr (bytes_string (drop 31 data)) = name \<and> pid = int (unat (data ! 2) * 256 + unat (data ! 3)) \<and> bit (data ! 1) 0
          then [] else [WdCmd cmd_register name])"

text \<open>The response as decoded: \<open>None\<close> for the time-out; \<open>info\<close> is its data, name, process number and flag, \<open>None\<close> a \<open>NULL\<close> pointer.\<close>

definition watchdog_xdr_reg_info :: "nat \<Rightarrow> int \<Rightarrow> string \<Rightarrow> (bool \<times> (string \<times> int \<times> bool) option) option \<Rightarrow> wd_effect list option" where
  "watchdog_xdr_reg_info cmd_register pid name resp =
     (case resp of
        None \<Rightarrow> Some []
      | Some (False, _) \<Rightarrow> Some [WdXdr cmd_register name False]
      | Some (True, None) \<Rightarrow> None
      | Some (True, Some (n, p, watched)) \<Rightarrow> Some (if n = name \<and> p = pid \<and> watched then [] else [WdXdr cmd_register name False]))"

text \<open>Whether the event is kept, and what is sent.\<close>

definition validate_watch_registration :: "nat \<Rightarrow> string option \<Rightarrow> WatchdogMode \<Rightarrow> bool \<times> wd_effect list" where
  "validate_watch_registration cmd_reg_info procName wdMode =
     (case procName of
        None \<Rightarrow> (True, [])
      | Some name \<Rightarrow>
          (case wdMode of
             WD_ENABLED \<Rightarrow> (True, [WdCmd WATCHDOG_CMD_REG_INFO name])
           | WD_XDR \<Rightarrow> (True, [WdXdr cmd_reg_info name True])
           | _ \<Rightarrow> (False, [])))"

definition PROC_wd_enable :: "string option \<Rightarrow> WatchdogMode \<Rightarrow> wd_effect list" where
  "PROC_wd_enable procName wdMode =
     (if procName = None \<or> wdMode = WD_DISABLED \<or> wdMode = WD_NOTSAT then []
      else (if wdMode = WD_ENABLED then [WdHandler WATCHDOG_CMD_REG_INFO_RESP] else []) @ [WdTimer (EVT_ms2tv 0) (EVT_ms2tv (30 * 1000))])"

section \<open>The table of commands\<close>

text \<open>
  \<open>descs\<close> are the function names and numbers of the commands in the configuration file; \<open>dlsym\<close> finds the function. \<open>None\<close> is a write outside the table.
\<close>

primrec add_commands :: "(string \<Rightarrow> ptr option) \<Rightarrow> (string \<times> u32) list \<Rightarrow> ptr list \<Rightarrow> ptr list option" where
  "add_commands dlsym [] tab = Some tab"
| "add_commands dlsym (d # ds) tab =
     (case dlsym (fst d) of
        None \<Rightarrow> add_commands dlsym ds tab
      | Some f \<Rightarrow> if unat (snd d) < length tab then add_commands dlsym ds (tab[unat (snd d) := f]) else None)"

datatype cmd_init_effect = HandleDataReq | PopulateHeartbeat

text \<open>
  The table starts with a handler that refuses a command everywhere but at \<open>cmd_status\<close>; \<open>cfg path\<close> is the content of the configuration file, \<open>None\<close> when it is
  not found. The path must fit into 256 bytes.
\<close>

definition cmd_handler_init :: "(string \<Rightarrow> ptr option) \<Rightarrow> (string \<Rightarrow> (string \<times> u32) list option) \<Rightarrow> ptr \<Rightarrow> ptr \<Rightarrow> nat \<Rightarrow> string option \<Rightarrow>
    (cmd_init_effect list \<times> ptr list) option" where
  "cmd_handler_init dlsym cfg invalidCommand fakeStatusCommand cmd_status procName =
     (let path = (\<lambda>name. ''./'' @ name @ ''.cmd.cfg'');
          root = (case procName of None \<Rightarrow> None | Some name \<Rightarrow> cfg (path name));
          tab = (replicate 256 invalidCommand)[cmd_status := fakeStatusCommand]
      in if (case procName of None \<Rightarrow> False | Some name \<Rightarrow> length (path name) \<ge> 256) then None
         else map_option (Pair [HandleDataReq, PopulateHeartbeat]) (add_commands dlsym (case root of None \<Rightarrow> [] | Some ds \<Rightarrow> ds) tab))"

section \<open>Threads\<close>

record thread_data =
  td_write_fd :: int
  td_read_fd :: int
  td_fcn :: ptr
  td_fcn_arg :: ptr
  td_cb_fcn :: ptr
  td_cb_arg :: ptr
  td_retval :: int

datatype thread_effect = ThPipe int int | ThCreate | ThFdAdd int | ThCall ptr ptr | ThWrite int | ThJoin | ThCallback ptr ptr int | ThClose int | ThFree

text \<open>\<open>pipe\<close> gives the two descriptors; the flags say which of the calls for the thread succeed.\<close>

definition thread_function :: "(int \<times> int) option \<Rightarrow> bool \<Rightarrow> bool \<Rightarrow> bool \<Rightarrow> ptr \<Rightarrow> ptr \<Rightarrow> ptr \<Rightarrow> ptr \<Rightarrow> int \<times> thread_data option \<times> thread_effect list" where
  "thread_function pipe attr_ok stack_ok create_ok fcn arg cb_fcn cb_arg =
     (case pipe of
        None \<Rightarrow> (1, None, [ThFree])
      | Some (rd, wr) \<Rightarrow>
          if \<not> attr_ok \<or> \<not> stack_ok \<or> \<not> create_ok then (1, None, [ThPipe rd wr, ThFree])
          else (0, Some \<lparr>td_write_fd = wr, td_read_fd = rd, td_fcn = fcn, td_fcn_arg = arg, td_cb_fcn = cb_fcn, td_cb_arg = cb_arg, td_retval = 0\<rparr>,
                [ThPipe rd wr, ThCreate, ThFdAdd rd]))"

text \<open>\<open>result\<close> is what the function returns; the callback does not keep its event.\<close>

definition thread_main :: "int \<Rightarrow> thread_data \<Rightarrow> thread_data \<times> thread_effect list" where
  "thread_main result td = (td\<lparr>td_retval := result\<rparr>, [ThCall (td_fcn td) (td_fcn_arg td), ThWrite (td_write_fd td)])"

definition thread_cb :: "thread_data \<Rightarrow> bool \<times> thread_effect list" where
  "thread_cb td = (False, [ThJoin, ThCallback (td_cb_fcn td) (td_cb_arg td) (td_retval td), ThClose (td_read_fd td), ThClose (td_write_fd td), ThFree])"

section \<open>Files: correctness\<close>

lemma proc_file_inject: "proc_file p = proc_file q \<longleftrightarrow> p = q"
proof
  assume "proc_file p = proc_file q"
  then have "show_int p = show_int q" by (simp add: proc_file_def)
  then show "p = q" using show_int_read [of 10] by (metis option.inject)
qed simp

lemma files_differ: "proc_file p \<noteq> pid_file n"
proof
  assume "proc_file p = pid_file n"
  then have "last (proc_file p) = last (pid_file n)" by simp
  then show False by (simp add: proc_file_def pid_file_def)
qed

lemma scan_pid_show: "- (2 ^ 31) \<le> p \<Longrightarrow> p < 2 ^ 31 \<Longrightarrow> scan_pid (show_int p) = p"
  by (simp add: scan_pid_def show_int_read clamp64_def signed_of_int signed_take_bit_int_eq_self)

lemma first_word_name: "list_all (\<lambda>c. \<not> isspace c) name \<Longrightarrow> first_word name = name"
  by (cases name) (auto simp: first_word_def list_all_iff takeWhile_eq_all_conv)

text \<open>What a restarted process finds: the files of the one before it, which had the number \<open>old\<close>.\<close>

definition left_behind :: "int \<Rightarrow> string \<Rightarrow> files \<Rightarrow> bool" where
  "left_behind old name fs \<longleftrightarrow> fs (pid_file name) = Some (show_int old) \<and> fs (proc_file old) = Some name"



section \<open>Limits\<close>

text \<open>The watchdog reports 16 bits of the process number: a larger one never matches, and the process registers again each time.\<close>

lemma large_pid_reregisters: "65536 \<le> pid \<Longrightarrow> watchdog_reg_info cmd pid (Some name) data = [WdCmd cmd name]"
proof -
  assume "65536 \<le> pid"
  moreover have "int (unat (data ! 2) * 256 + unat (data ! 3)) < 65536"
    using uint_lt2p [of "data ! 2"] uint_lt2p [of "data ! 3"] by simp
  ultimately have "pid \<noteq> int (unat (data ! 2) * 256 + unat (data ! 3))" by linarith
  then show ?thesis by (simp only: watchdog_reg_info_def option.case) simp
qed

text \<open>A number of 256 or more in the configuration file writes outside the table; below that the table gets the functions that are found.\<close>

lemma command_number_outside:
  "dlsym f = Some p \<Longrightarrow> 256 \<le> unat n \<Longrightarrow> cfg (''./'' @ name @ ''.cmd.cfg'') = Some [(f, n)] \<Longrightarrow>
     cmd_handler_init dlsym cfg bad_cb status_cb num (Some name) = None"
  by (simp add: cmd_handler_init_def Let_def)

lemma add_commands_in_range:
  "list_all (\<lambda>d. unat (snd d) < length tab) ds \<Longrightarrow> \<exists>tab'. add_commands dlsym ds tab = Some tab' \<and> length tab' = length tab"
proof (induction ds arbitrary: tab)
  case (Cons d ds)
  have "\<exists>tab'. add_commands dlsym ds (tab[unat (snd d) := p]) = Some tab' \<and> length tab' = length tab" for p
    using Cons.IH [of "tab[unat (snd d) := p]"] Cons.prems by simp
  then show ?case using Cons by (auto split: option.splits)
qed simp

text \<open>When no thread can be started, the pipe stays open.\<close>

lemma failed_thread_leaks_pipe:
  "thread_function (Some (rd, wr)) True True False fcn arg cb cb_arg = (1, None, [ThPipe rd wr, ThFree])"
  by (simp add: thread_function_def)

lemma thread_runs_once:
  assumes "thread_function (Some (rd, wr)) True True True fcn arg cb cb_arg = (rc, Some td, es)"
  shows "es @ snd (thread_main v td) @ snd (thread_cb (fst (thread_main v td))) =
    [ThPipe rd wr, ThCreate, ThFdAdd rd, ThCall fcn arg, ThWrite wr, ThJoin, ThCallback cb cb_arg v, ThClose rd, ThClose wr, ThFree]"
  using assms by (auto simp: thread_function_def thread_main_def thread_cb_def)

end
