(* ===== verification/Json_Grammar.thy ===== *)
theory Json_Grammar
  imports C_Text
begin

text \<open>
  The grammar of JSON (RFC 8259), as far as libproc prints it: strings without escapes, numbers without exponents. It is the specification of the texts
  the library writes for its debugger and for the telemetry dictionary.

  \<open>json_run\<close> and \<open>json_elem_run\<close> say that a text may stand before further members or elements; with them the parts that are printed one after another
  compose.
\<close>

named_theorems json_intros \<open>introduction rules for texts in JSON\<close>

section \<open>Tokens\<close>

definition json_ws :: "string \<Rightarrow> bool" where
  "json_ws w = list_all (\<lambda>c. c \<in> {CHR '' '', EOL, CHR 0x09, CHR 0x0D}) w"

definition json_plain :: "string \<Rightarrow> bool" where
  "json_plain s = list_all (\<lambda>c. c \<noteq> QUOTE \<and> c \<noteq> CHR 0x5C \<and> (of_char c :: nat) \<ge> 32) s"

definition quoted :: "string \<Rightarrow> string" where
  "quoted s = QUOTE # s @ [QUOTE]"

definition digits :: "string \<Rightarrow> bool" where
  "digits s = (s \<noteq> [] \<and> list_all (is_digit 10) s)"

definition json_number :: "string \<Rightarrow> bool" where
  "json_number s \<longleftrightarrow> (\<exists>sg i f. s = sg @ i @ f \<and> (sg = [] \<or> sg = ''-'') \<and> digits i \<and> (hd i = CHR ''0'' \<longrightarrow> length i = 1) \<and>
     (f = [] \<or> (\<exists>d. f = CHR ''.'' # d \<and> digits d)))"

section \<open>Grammar\<close>

inductive json :: "string \<Rightarrow> bool" and json_members :: "string \<Rightarrow> bool" and json_elements :: "string \<Rightarrow> bool" where
  json_string: "json_plain s \<Longrightarrow> json (quoted s)"
| json_num: "json_number s \<Longrightarrow> json s"
| json_true: "json ''true''"
| json_false: "json ''false''"
| json_no_member: "json_ws w \<Longrightarrow> json (''{'' @ w @ ''}'')"
| json_object: "json_members ms \<Longrightarrow> json (''{'' @ ms @ ''}'')"
| json_no_element: "json_ws w \<Longrightarrow> json (''['' @ w @ '']'')"
| json_array: "json_elements es \<Longrightarrow> json (''['' @ es @ '']'')"
| json_member: "json_ws w1 \<Longrightarrow> json_plain k \<Longrightarrow> json_ws w2 \<Longrightarrow> json_ws w3 \<Longrightarrow> json v \<Longrightarrow> json_ws w4 \<Longrightarrow>
    json_members (w1 @ quoted k @ w2 @ '':'' @ w3 @ v @ w4)"
| json_more_members: "json_members a \<Longrightarrow> json_members b \<Longrightarrow> json_members (a @ '','' @ b)"
| json_element: "json_ws w1 \<Longrightarrow> json v \<Longrightarrow> json_ws w2 \<Longrightarrow> json_elements (w1 @ v @ w2)"
| json_more_elements: "json_elements a \<Longrightarrow> json_elements b \<Longrightarrow> json_elements (a @ '','' @ b)"

definition json_run :: "string \<Rightarrow> bool" where
  "json_run s \<longleftrightarrow> (\<forall>rest. json_members rest \<longrightarrow> json_members (s @ rest))"

section \<open>Rules for printed texts\<close>

lemma json_ws_simps [simp]:
  "json_ws []" "json_ws (CHR '' '' # w) = json_ws w" "json_ws (EOL # w) = json_ws w" "json_ws (a @ b) = (json_ws a \<and> json_ws b)"
  by (auto simp: json_ws_def)

lemma plain_simps [simp]:
  "json_plain []" "json_plain (a @ b) = (json_plain a \<and> json_plain b)" "json_plain (c # s) = (c \<noteq> QUOTE \<and> c \<noteq> CHR 0x5C \<and> (of_char c :: nat) \<ge> 32 \<and> json_plain s)"
  by (auto simp: json_plain_def)

lemma json_ws_members: "json_members ms \<Longrightarrow> json_ws w \<Longrightarrow> json_members (w @ ms)"
proof (induction ms rule: json_json_members_json_elements.inducts(2) [where ?P1.0 = "\<lambda>_. True" and ?P3.0 = "\<lambda>_. True"])
  case (json_member w1 k w2 w3 v w4)
  then show ?case using json_json_members_json_elements.json_member [of "w @ w1" k w2 w3 v w4] by simp
next
  case (json_more_members a b)
  then show ?case using json_json_members_json_elements.json_more_members [of "w @ a" b] by simp
qed auto

lemma json_ws_elements: "json_elements es \<Longrightarrow> json_ws w \<Longrightarrow> json_elements (w @ es)"
proof (induction es rule: json_json_members_json_elements.inducts(3) [where ?P1.0 = "\<lambda>_. True" and ?P2.0 = "\<lambda>_. True"])
  case (json_element w1 v w2)
  then show ?case using json_json_members_json_elements.json_element [of "w @ w1" v w2] by simp
next
  case (json_more_elements a b)
  then show ?case using json_json_members_json_elements.json_more_elements [of "w @ a" b] by simp
qed auto

lemma json_elements_ws: "json_elements es \<Longrightarrow> json_ws w \<Longrightarrow> json_elements (es @ w)"
proof (induction es rule: json_json_members_json_elements.inducts(3) [where ?P1.0 = "\<lambda>_. True" and ?P2.0 = "\<lambda>_. True"])
  case (json_element w1 v w2)
  then show ?case using json_json_members_json_elements.json_element [of w1 v "w2 @ w"] by simp
next
  case (json_more_elements a b)
  then show ?case using json_json_members_json_elements.json_more_elements [of a "b @ w"] by simp
qed auto

lemma json_runD: "json_run s \<Longrightarrow> json_members rest \<Longrightarrow> json_members (s @ rest)"
  by (simp add: json_run_def)

lemma json_run_Nil [simp, json_intros]: "json_run []"
  by (simp add: json_run_def)

lemma json_run_append [json_intros]: "json_run a \<Longrightarrow> json_run b \<Longrightarrow> json_run (a @ b)"
  by (simp add: json_run_def)

lemma json_run_member:
  assumes "json_members m" "json_ws w"
  shows "json_run (m @ '','' @ w)"
  unfolding json_run_def using assms json_more_members json_ws_members by fastforce

lemma json_run_concat: "list_all json_run xs \<Longrightarrow> json_run (concat xs)"
  by (induction xs) (auto intro: json_run_append)

lemma show_nat_number: "digits (show_nat n)" "hd (show_nat n) = CHR ''0'' \<longrightarrow> length (show_nat n) = 1"
proof -
  show "digits (show_nat n)" using show_nat_value [of n] by (simp add: digits_def)
  show "hd (show_nat n) = CHR ''0'' \<longrightarrow> length (show_nat n) = 1" using show_nat_head [of n] show_nat_0 by (cases "n = 0") auto
qed

lemma json_number_parts:
  "sg = [] \<or> sg = ''-'' \<Longrightarrow> json_number (sg @ show_nat n)"
  "sg = [] \<or> sg = ''-'' \<Longrightarrow> digits f \<Longrightarrow> json_number (sg @ show_nat n @ CHR ''.'' # f)"
proof -
  assume sg: "sg = [] \<or> sg = ''-''"
  show "json_number (sg @ show_nat n)"
    unfolding json_number_def using sg show_nat_number [of n] by (intro exI [of _ sg] exI [of _ "show_nat n"] exI [of _ "[]"]) simp
  assume "digits f"
  then show "json_number (sg @ show_nat n @ CHR ''.'' # f)"
    unfolding json_number_def using sg show_nat_number [of n] by (intro exI [of _ sg] exI [of _ "show_nat n"] exI [of _ "CHR ''.'' # f"]) simp
qed

lemma json_show_nat [json_intros]: "json (show_nat n)"
  using json_number_parts(1) [of "[]" n] by (auto intro: json_num)

lemma json_show_int [json_intros]: "json (show_int i)"
  using json_number_parts(1) [of "''-''" "nat (- i)"] by (auto simp: show_int_def intro: json_num json_show_nat)

lemma digits_pad: "digits (pad_left n (CHR ''0'') (show_nat k))"
  using show_nat_number [of k] by (auto simp: digits_def pad_left_def list_all_iff is_digit_def digit_value_def)

lemma json_quoted [json_intros]: "json_plain s \<Longrightarrow> json (quoted s)"
  by (rule json_string)

lemma json_bool [json_intros]: "json (if b then ''true'' else ''false'')"
  by (simp add: json_true json_false)

section \<open>What stands outside strings\<close>

text \<open>The characters of a text that are outside strings, and whether it ends inside one. In JSON they come from a small set.\<close>

primrec outside :: "bool \<Rightarrow> string \<Rightarrow> string" where
  "outside q [] = []"
| "outside q (c # s) = (if c = QUOTE then outside (\<not> q) s else if q then outside q s else c # outside q s)"

primrec in_string :: "bool \<Rightarrow> string \<Rightarrow> bool" where
  "in_string q [] = q"
| "in_string q (c # s) = in_string (if c = QUOTE then \<not> q else q) s"

definition structural :: "char \<Rightarrow> bool" where
  "structural c = (c \<in> set ''{}[],:-.truefalse'' \<or> is_digit 10 c \<or> json_ws [c])"

lemma outside_append: "outside q (a @ b) = outside q a @ outside (in_string q a) b"
  by (induction a arbitrary: q) auto

lemma in_string_append: "in_string q (a @ b) = in_string (in_string q a) b"
  by (induction a arbitrary: q) auto

lemma no_quote: "QUOTE \<notin> set s \<Longrightarrow> outside False s = s" "QUOTE \<notin> set s \<Longrightarrow> outside True s = []" "QUOTE \<notin> set s \<Longrightarrow> in_string q s = q"
  by (induction s arbitrary: q) auto

definition closed_text :: "string \<Rightarrow> bool" where
  "closed_text s = (\<not> in_string False s \<and> list_all structural (outside False s))"

lemma closed_append: "closed_text a \<Longrightarrow> closed_text b \<Longrightarrow> closed_text (a @ b)"
  by (simp add: closed_text_def outside_append in_string_append)

lemma closed_plain: "QUOTE \<notin> set s \<Longrightarrow> list_all structural s \<Longrightarrow> closed_text s"
  by (simp add: closed_text_def no_quote)

lemma closed_ws: "json_ws w \<Longrightarrow> closed_text w"
proof (rule closed_plain)
  assume w: "json_ws w"
  have c: "json_ws [c]" if "c \<in> set w" for c using w that by (simp add: json_ws_def list_all_iff)
  have "\<not> json_ws [QUOTE]" by (simp add: json_ws_def QUOTE_def EOL_def)
  then show "QUOTE \<notin> set w" using c by blast
  show "list_all structural w" using c by (simp add: list_all_iff structural_def)
qed

lemma closed_quoted: "json_plain s \<Longrightarrow> closed_text (quoted s)"
proof -
  assume "json_plain s"
  then have "QUOTE \<notin> set s" by (auto simp: json_plain_def list_all_iff)
  then show ?thesis by (simp add: closed_text_def quoted_def outside_append in_string_append no_quote)
qed

lemma closed_number: "json_number s \<Longrightarrow> closed_text s"
proof (rule closed_plain)
  assume "json_number s"
  then have c: "c \<in> set s \<Longrightarrow> c = CHR ''-'' \<or> c = CHR ''.'' \<or> is_digit 10 c" for c by (auto simp: json_number_def digits_def list_all_iff)
  have "\<not> is_digit 10 QUOTE" by (simp add: is_digit_def digit_value_def QUOTE_def)
  then show "QUOTE \<notin> set s" using c by (auto simp: QUOTE_def)
  show "list_all structural s" using c by (auto simp: list_all_iff structural_def)
qed

lemma closed_char: "c \<noteq> QUOTE \<Longrightarrow> structural c \<Longrightarrow> closed_text [c]"
  by (simp add: closed_text_def)

lemma closed_tokens:
  "closed_text ''{''" "closed_text ''}''" "closed_text ''[''" "closed_text '']''" "closed_text '',''" "closed_text '':''" "closed_text ''true''" "closed_text ''false''"
  by (auto intro!: closed_plain simp: structural_def QUOTE_def)

lemma json_closed:
  "json s \<Longrightarrow> closed_text s" "json_members ms \<Longrightarrow> closed_text ms" "json_elements es \<Longrightarrow> closed_text es"
  by (induction rule: json_json_members_json_elements.inducts)
    (blast intro: closed_append closed_quoted closed_ws closed_number closed_tokens)+

end
