(* ===== verification/Debug_Report.thy ===== *)
theory Debug_Report
  imports Json_Grammar Zmq_Correct
begin

text \<open>
  The state of the event loop as it is sent to the debugger (\<open>edbg_report_*\<close> of \<open>events.c\<close>, \<open>PROC_debugger_state\<close> of \<open>proclib.c\<close>): a text in JSON that is
  printed into a message buffer and broadcast to the clients of the message server.

  \<^item> One string for each call of \<open>ipc_printf_buffer\<close>.
  \<^item> \<open>fname\<close> is the name \<open>dladdr\<close> finds for a function, empty when there is none; \<open>readlink\<close> is the target of \<open>/proc/self/fd/n\<close>, \<open>None\<close> when the call fails.
  \<^item> \<open>sgnd\<close> says whether \<open>char\<close> is signed.
\<close>

section \<open>Formats\<close>

definition show_ptr :: "ptr \<Rightarrow> string" where
  "show_ptr p = show_int (sint (of_nat p :: u64))"

text \<open>\<open>%06ld\<close> and \<open>%ld.%06ld\<close>.\<close>

definition show_06 :: "int \<Rightarrow> string" where
  "show_06 i = (if i < 0 then CHR ''-'' # pad_left 5 (CHR ''0'') (show_nat (nat (- i))) else pad_left 6 (CHR ''0'') (show_nat (nat i)))"

definition show_time :: "timeval \<Rightarrow> string" where
  "show_time t = show_int (tv_sec t) @ ''.'' @ show_06 (tv_usec t)"

definition show_char :: "bool \<Rightarrow> u8 \<Rightarrow> string" where
  "show_char sgnd c = show_int (if sgnd then sint c else uint c)"

definition json_bool :: "bool \<Rightarrow> string" where
  "json_bool b = (if b then ''true'' else ''false'')"

text \<open>A member on a line of its own, followed by a comma.\<close>

definition member_line :: "string \<Rightarrow> string \<Rightarrow> string" where
  "member_line key v = ''      '' @ quoted key @ '':'' @ v @ '','' @ [EOL]"

definition last_member :: "string \<Rightarrow> string \<Rightarrow> string" where
  "last_member key v = ''      '' @ quoted key @ '':'' @ v @ [EOL] @ ''    }''"

section \<open>Events\<close>

definition edbg_report_timed_event :: "bool \<Rightarrow> (ptr \<Rightarrow> string) \<Rightarrow> timeval \<Rightarrow> bool \<Rightarrow> ptr \<Rightarrow> ScheduleCB \<Rightarrow> string list" where
  "edbg_report_timed_event sgnd fname cur_time first a data =
     (let rem = (if timercmp (nextAwake data) cur_time (\<ge>) then show_time (timersub (nextAwake data) cur_time)
                 else ''-'' @ show_time (timersub cur_time (nextAwake data)));
          name = cstr (sc_name data)
      in (if first then [] else ['','' @ [EOL]]) @
         [''    {'' @ [EOL] @ member_line ''id'' (show_ptr a) @ member_line ''name'' (quoted (if name \<noteq> [] then name else fname (sc_callback data))) @
            member_line ''function'' (quoted (fname (sc_callback data))) @ member_line ''critical'' (show_char sgnd (sc_critical data)),
          member_line ''time_remaining'' rem @ member_line ''awake_time'' (show_time (nextAwake data)) @ member_line ''scheduled_time'' (show_time (scheduleTime data)),
          member_line ''event_length'' (show_time (timeStep data)) @ member_line ''arg_pointer'' (show_ptr (sc_arg data)) @
            last_member ''event_count'' (show_nat (unat (sc_count data)))])"

text \<open>The event the debugger has stopped at, and the entries 1 to \<open>ps_pqueue_size\<close> of the heap.\<close>

definition reported_events :: "EventState \<Rightarrow> ptr list" where
  "reported_events ctx =
     (if next_timed_event ctx \<noteq> NULL then [next_timed_event ctx] else []) @ map (\<lambda>i. q_d (queue ctx) ! i) [1 ..< Suc (ps_pqueue_size (queue ctx))]"

primrec report_events :: "(bool \<Rightarrow> ptr \<Rightarrow> string list) \<Rightarrow> bool \<Rightarrow> ptr list \<Rightarrow> string list" where
  "report_events report first [] = []"
| "report_events report first (a # as) = report first a @ report_events report False as"

definition edbg_report_timed_events :: "bool \<Rightarrow> (ptr \<Rightarrow> string) \<Rightarrow> timeval \<Rightarrow> EventState \<Rightarrow> string list" where
  "edbg_report_timed_events sgnd fname cur_time ctx =
     [''  '' @ quoted ''timed_events'' @ '': ['' @ [EOL]] @
     report_events (\<lambda>first a. edbg_report_timed_event sgnd fname cur_time first a (mem ctx a)) True (reported_events ctx) @
     [[EOL] @ ''  ],'' @ [EOL]]"

text \<open>\<open>data->arg\<close> is an array: what is printed as the argument is its address, 48 bytes behind that of the entry.\<close>

definition edbg_report_fd_event :: "bool \<Rightarrow> (ptr \<Rightarrow> string) \<Rightarrow> (int \<Rightarrow> string option) \<Rightarrow> bool \<Rightarrow> ptr \<Rightarrow> EventCB \<Rightarrow> string list" where
  "edbg_report_fd_event sgnd fname readlink first a data =
     (case readlink (e_fd data) of
        None \<Rightarrow> []
      | Some target \<Rightarrow>
          let filename = cstr target;
              name = cstr (e_name data);
              handler = (\<lambda>key e. if e_cb data e \<noteq> NULL then [member_line key (quoted (fname (e_cb data e)))] else [])
          in (if first then [] else ['','' @ [EOL]]) @
             [''    {'' @ [EOL] @ member_line ''id'' (show_ptr a) @ member_line ''name'' (quoted (if name \<noteq> [] then name else filename)) @
                member_line ''filename'' (quoted filename) @ member_line ''arg_pointer'' (show_ptr (a + 48))] @
             handler ''read_handler'' EVENT_FD_READ @ handler ''write_handler'' EVENT_FD_WRITE @ handler ''error_handler'' EVENT_FD_ERROR @
             [member_line ''pausable'' (json_bool (e_pausable data)) @ member_line ''critical'' (show_char sgnd (e_critical data)) @
                member_line ''read_breakpoint'' (json_bool (e_breakpoint data EVENT_FD_READ)) @ member_line ''write_breakpoint'' (json_bool (e_breakpoint data EVENT_FD_WRITE)) @
                member_line ''error_breakpoint'' (json_bool (e_breakpoint data EVENT_FD_ERROR)),
              member_line ''read_count'' (show_nat (unat (e_counts data EVENT_FD_READ))) @ member_line ''write_count'' (show_nat (unat (e_counts data EVENT_FD_WRITE))) @
                member_line ''error_count'' (show_nat (unat (e_counts data EVENT_FD_ERROR))) @ last_member ''fd'' (show_int (e_fd data))])"

definition all_fd_events :: "EventState \<Rightarrow> ptr list" where
  "all_fd_events ctx = concat (map (events ctx) [0 ..< hashSize ctx])"

definition edbg_report_fd_events :: "bool \<Rightarrow> (ptr \<Rightarrow> string) \<Rightarrow> (int \<Rightarrow> string option) \<Rightarrow> EventState \<Rightarrow> string list" where
  "edbg_report_fd_events sgnd fname readlink ctx =
     [''  '' @ quoted ''fd_events'' @ '': ['' @ [EOL]] @
     report_events (\<lambda>first a. edbg_report_fd_event sgnd fname readlink first a (fmem ctx a)) True (all_fd_events ctx) @
     (if all_fd_events ctx \<noteq> [] then [[EOL]] else []) @ [''  ],'' @ [EOL]]"

section \<open>State\<close>

text \<open>\<open>printf\<close> writes \<open>(null)\<close> for a process without a name.\<close>

definition PROC_debugger_state :: "string option \<Rightarrow> string list" where
  "PROC_debugger_state name = [''  '' @ quoted ''process_name'' @ '': '' @ quoted (case name of None \<Rightarrow> ''(null)'' | Some s \<Rightarrow> s) @ '','' @ [EOL]]"

definition next_step :: "EventState \<Rightarrow> string list" where
  "next_step ctx =
     (let step = (\<lambda>type a. [''  '' @ quoted ''next_step'' @ '' : { '' @ quoted ''type'' @ '':'' @ quoted type @ '', '' @ quoted ''id'' @ '':'' @ show_ptr a @ '' },'' @ [EOL]])
      in if debuggerState ctx \<noteq> EDBG_STOPPED then []
         else if next_timed_event ctx \<noteq> NULL then step ''Timed Event'' (next_timed_event ctx)
         else if next_fd_event ctx \<noteq> NULL then step ''FD Event'' (next_fd_event ctx) else [])"

definition report_head :: "EventState \<Rightarrow> string" where
  "report_head ctx =
     ''{'' @ [EOL] @ ''  '' @ quoted ''loop_steps'' @ '': '' @ show_nat (unat (loop_counter ctx)) @ '','' @ [EOL] @
     ''  '' @ quoted ''dbg_state'' @ '': '' @ quoted (if debuggerState ctx = EDBG_STOPPED then ''stopped'' else ''running'') @ '','' @ [EOL] @
     ''  '' @ quoted ''port'' @ '':'' @ show_nat (nat (dbgPort ctx mod 2 ^ 32)) @ '','' @ [EOL] @
     ''  '' @ quoted ''timed_events'' @ '':'' @ show_nat (unat (timed_event_counter ctx)) @ '','' @ [EOL] @
     ''  '' @ quoted ''fd_events'' @ '':'' @ show_nat (unat (fd_event_counter ctx)) @ '','' @ [EOL] @
     ''  '' @ quoted ''critical_sched_count'' @ '':'' @ show_int (critical_sched_count ctx) @ '','' @
     ''  '' @ quoted ''critical_fd_count'' @ '':'' @ show_int (critical_fd_count ctx) @ '','' @ [EOL]"

text \<open>\<open>state_cb\<close> are the texts the callback of the owner prints, none when there is no callback.\<close>

definition report_texts :: "bool \<Rightarrow> (ptr \<Rightarrow> string) \<Rightarrow> (int \<Rightarrow> string option) \<Rightarrow> string list \<Rightarrow> timeval \<Rightarrow> bool \<Rightarrow> EventState \<Rightarrow> string list" where
  "report_texts sgnd fname readlink state_cb curr_time full_format ctx =
     [report_head ctx] @ state_cb @ next_step ctx @
     (if full_format then edbg_report_timed_events sgnd fname curr_time ctx @ edbg_report_fd_events sgnd fname readlink ctx else []) @
     [''  '' @ quoted ''current_time'' @ '': '' @ show_time curr_time @ [EOL] @ ''}'']"

definition text_bytes :: "string \<Rightarrow> u8 list" where
  "text_bytes s = map (\<lambda>c. of_nat (of_char c)) s"

primrec print_texts :: "(nat \<Rightarrow> bool) \<Rightarrow> IPCBuffer option \<Rightarrow> string list \<Rightarrow> IPCBuffer option option" where
  "print_texts alloc buffer [] = Some buffer"
| "print_texts alloc buffer (t # ts) =
     (case ipc_printf_buffer alloc buffer (Some (text_bytes t)) of None \<Rightarrow> None | Some (_, buffer') \<Rightarrow> print_texts alloc buffer' ts)"

text \<open>The effects and the buffer afterwards; \<open>server\<close> and \<open>buffer\<close> are what \<open>dbgServer\<close> and \<open>dbgBuffer\<close> point to.\<close>

definition edbg_report_state ::
  "bool \<Rightarrow> (nat \<Rightarrow> bool) \<Rightarrow> (ptr \<Rightarrow> string) \<Rightarrow> (int \<Rightarrow> string option) \<Rightarrow> (ZMQLClient \<Rightarrow> write_result list) \<Rightarrow> string list \<Rightarrow> timeval \<Rightarrow>
   ZMQLServer option \<Rightarrow> IPCBuffer option \<Rightarrow> bool \<Rightarrow> EventState \<Rightarrow> (zeffect list \<times> IPCBuffer option) option" where
  "edbg_report_state sgnd alloc fname readlink rs state_cb curr_time server buffer full_format ctx =
     (case server of
        None \<Rightarrow> Some ([], buffer)
      | Some srv \<Rightarrow>
          if buffer = None \<or> zmql_client_count server = 0 then Some ([], buffer)
          else (case print_texts alloc (ipc_reset_buffer buffer) (report_texts sgnd fname readlink state_cb curr_time full_format ctx) of
                  None \<Rightarrow> None
                | Some buffer' \<Rightarrow> map_option (\<lambda>es. (es, buffer')) (zmql_broadcast_buffer rs (zs_clients srv) buffer')))"

definition edbg_dump_cb where
  "edbg_dump_cb sgnd alloc fname readlink rs state_cb curr_time server buffer ctx =
     map_option (Pair EVENT_KEEP) (edbg_report_state sgnd alloc fname readlink rs state_cb curr_time server buffer (full_dump_format ctx) ctx)"

definition edbg_debugger_connect where
  "edbg_debugger_connect sgnd alloc fname readlink rs state_cb curr_time server buffer ctx =
     edbg_report_state sgnd alloc fname readlink rs state_cb curr_time server buffer (full_dump_format ctx) ctx"

section \<open>The parts of the report\<close>

lemma run_member: "json_plain key \<Longrightarrow> json v \<Longrightarrow> json_ws w1 \<Longrightarrow> json_ws w2 \<Longrightarrow> json_ws w3 \<Longrightarrow> json_ws w4 \<Longrightarrow> json_run (w1 @ quoted key @ w2 @ '':'' @ w3 @ v @ '','' @ w4)"
  using json_run_member [OF json_member [of w1 key w2 w3 v "[]"], of w4] by simp

lemma run_line [json_intros]: "json_plain key \<Longrightarrow> json v \<Longrightarrow> json_run (member_line key v)"
  using run_member [of key v "''      ''" "[]" "[]" "[EOL]"] by (simp add: member_line_def)

lemma object_element: "json_run r \<Longrightarrow> json_plain key \<Longrightarrow> json v \<Longrightarrow> json_elements (''    {'' @ [EOL] @ r @ last_member key v)"
proof -
  assume r: "json_run r" and v: "json_plain key" "json v"
  have "json_members (''      '' @ quoted key @ '':'' @ v @ [EOL] @ ''    '')" using json_member [of "''      ''" key "[]" "[]" v "[EOL] @ ''    ''"] v by simp
  then have "json_members ([EOL] @ r @ ''      '' @ quoted key @ '':'' @ v @ [EOL] @ ''    '')" using json_ws_members [OF json_runD [OF r], of _ "[EOL]"] by simp
  then show ?thesis using json_element [of "''    ''" _ "[]", OF _ json_object] by (force simp: last_member_def)
qed

lemma array_run:
  assumes "es = [] \<or> json_elements es" "json_ws w" "json_plain k"
  shows "json_run (''  '' @ quoted k @ '': ['' @ [EOL] @ es @ w @ ''],'' @ [EOL])"
proof -
  have "json (''['' @ ([EOL] @ es @ w) @ '']'')"
    using assms json_array [OF json_ws_elements [OF json_elements_ws, of es w "[EOL]"]] json_no_element [of "[EOL] @ w"] by auto
  then show ?thesis using run_member [of k "''['' @ ([EOL] @ es @ w) @ '']''" "''  ''" "[]" "'' ''" "[EOL]"] assms(3) by simp
qed

text \<open>A list of reports is a list of elements, when the first reports its event and the others print nothing or an element behind a comma.\<close>

lemma later_elements:
  assumes "\<And>a. a \<in> set as \<Longrightarrow> concat (report False a) = [] \<or> (\<exists>e. json_elements e \<and> concat (report False a) = '','' @ [EOL] @ e)" "json_elements es"
  shows "json_elements (es @ concat (report_events report False as))"
  using assms
proof (induction as arbitrary: es)
  case (Cons a as)
  consider "concat (report False a) = []" | e where "json_elements e" "concat (report False a) = '','' @ [EOL] @ e" using Cons.prems(1) [of a] by auto
  then have "json_elements (es @ concat (report False a))"
  proof cases
    case 1
    then show ?thesis using Cons.prems(2) by (simp only: append_Nil2)
  next
    case 2
    then show ?thesis using json_more_elements [OF Cons.prems(2) json_ws_elements [of e "[EOL]"]] by simp
  qed
  from Cons.IH [OF _ this] Cons.prems(1) show ?case by simp
qed simp

lemma report_events_elements:
  assumes "\<And>a. a \<in> set as \<Longrightarrow> concat (report False a) = [] \<or> (\<exists>e. json_elements e \<and> concat (report False a) = '','' @ [EOL] @ e)"
    and "as \<noteq> [] \<Longrightarrow> json_elements (concat (report True (hd as)))"
  shows "concat (report_events report True as) = [] \<or> json_elements (concat (report_events report True as))"
  using assms later_elements [of "tl as" report] by (cases as) auto

lemma show_06_digits: "0 \<le> i \<Longrightarrow> digits (show_06 i)"
  using digits_pad [of 6 "nat i"] by (simp add: show_06_def)

lemma json_time: "tv_normal t \<Longrightarrow> json (show_time t)"
  using json_number_parts(2) [of "''-''" "show_06 (tv_usec t)" "nat (- tv_sec t)"] json_number_parts(2) [of "[]" "show_06 (tv_usec t)" "nat (tv_sec t)"]
    show_06_digits [of "tv_usec t"]
  by (auto simp: show_time_def show_int_def tv_normal_def intro!: json_num)

lemma json_negative_time: "tv_normal t \<Longrightarrow> 0 \<le> tv_sec t \<Longrightarrow> json (''-'' @ show_time t)"
  using json_number_parts(2) [of "''-''" "show_06 (tv_usec t)" "nat (tv_sec t)"] show_06_digits [of "tv_usec t"]
  by (auto simp: show_time_def show_int_def tv_normal_def intro!: json_num)

lemma json_remaining:
  assumes "tv_normal t" "tv_normal c"
  shows "json (if timercmp t c (\<ge>) then show_time (timersub t c) else ''-'' @ show_time (timersub c t))"
proof (cases "c \<le> t")
  case True
  then show ?thesis using json_time [OF timersub_normal] assms by simp
next
  case False
  then have "0 < tv_us (timersub c t)" using assms by (simp add: timersub_us tv_order_us)
  then have "0 \<le> tv_sec (timersub c t)" using timersub_normal [OF assms(2,1)] by (simp add: tv_us_def tv_normal_def)
  then show ?thesis using False json_negative_time [OF timersub_normal] assms by simp
qed

lemma json_json_bool [json_intros]: "json (json_bool b)"
  by (simp add: json_bool_def json_true json_false)

lemma json_show_ptr [json_intros]: "json (show_ptr p)"
  by (simp add: show_ptr_def json_show_int)

lemma json_show_char [json_intros]: "json (show_char s c)"
  by (simp add: show_char_def json_show_int)

section \<open>Events in the report\<close>

definition event_ok :: "(ptr \<Rightarrow> string) \<Rightarrow> ScheduleCB \<Rightarrow> bool" where
  "event_ok fname e = (json_plain (cstr (sc_name e)) \<and> json_plain (fname (sc_callback e)) \<and> tv_normal (nextAwake e) \<and> tv_normal (scheduleTime e) \<and> tv_normal (timeStep e))"

definition fd_ok :: "(ptr \<Rightarrow> string) \<Rightarrow> (int \<Rightarrow> string option) \<Rightarrow> EventCB \<Rightarrow> bool" where
  "fd_ok fname readlink e =
     (json_plain (cstr (e_name e)) \<and> (case readlink (e_fd e) of None \<Rightarrow> True | Some t \<Rightarrow> json_plain (cstr t)) \<and>
      json_plain (fname (e_cb e EVENT_FD_READ)) \<and> json_plain (fname (e_cb e EVENT_FD_WRITE)) \<and> json_plain (fname (e_cb e EVENT_FD_ERROR)))"

lemma timed_event_element:
  assumes "event_ok fname e" "tv_normal c"
  shows "json_elements (concat (edbg_report_timed_event sgnd fname c True a e))"
    "concat (edbg_report_timed_event sgnd fname c False a e) = '','' @ [EOL] @ concat (edbg_report_timed_event sgnd fname c True a e)"
proof -
  show "concat (edbg_report_timed_event sgnd fname c False a e) = '','' @ [EOL] @ concat (edbg_report_timed_event sgnd fname c True a e)"
    by (simp add: edbg_report_timed_event_def Let_def)
  let ?rem = "if timercmp (nextAwake e) c (\<ge>) then show_time (timersub (nextAwake e) c) else ''-'' @ show_time (timersub c (nextAwake e))"
  let ?name = "if cstr (sc_name e) \<noteq> [] then cstr (sc_name e) else fname (sc_callback e)"
  let ?r = "member_line ''id'' (show_ptr a) @ member_line ''name'' (quoted ?name) @ member_line ''function'' (quoted (fname (sc_callback e))) @
    member_line ''critical'' (show_char sgnd (sc_critical e)) @ member_line ''time_remaining'' ?rem @ member_line ''awake_time'' (show_time (nextAwake e)) @
    member_line ''scheduled_time'' (show_time (scheduleTime e)) @ member_line ''event_length'' (show_time (timeStep e)) @ member_line ''arg_pointer'' (show_ptr (sc_arg e))"
  have "json ?rem" using json_remaining assms by (simp add: event_ok_def)
  moreover have "json (quoted ?name)" "json (quoted (fname (sc_callback e)))" "json (show_time (nextAwake e))" "json (show_time (scheduleTime e))" "json (show_time (timeStep e))"
    using assms(1) by (auto simp: event_ok_def intro: json_quoted json_time)
  ultimately have "json_run ?r" by (intro json_run_append run_line json_show_ptr json_show_char) (simp_all add: QUOTE_def)
  from object_element [OF this, of "''event_count''" "show_nat (unat (sc_count e))"]
  show "json_elements (concat (edbg_report_timed_event sgnd fname c True a e))"
    by (simp add: edbg_report_timed_event_def Let_def json_show_nat QUOTE_def)
qed

lemma fd_event_element:
  assumes "fd_ok fname readlink e" "readlink (e_fd e) = Some t"
  shows "json_elements (concat (edbg_report_fd_event sgnd fname readlink True a e))"
    "concat (edbg_report_fd_event sgnd fname readlink False a e) = '','' @ [EOL] @ concat (edbg_report_fd_event sgnd fname readlink True a e)"
proof -
  show "concat (edbg_report_fd_event sgnd fname readlink False a e) = '','' @ [EOL] @ concat (edbg_report_fd_event sgnd fname readlink True a e)"
    using assms(2) by (simp add: edbg_report_fd_event_def Let_def)
  let ?name = "if cstr (e_name e) \<noteq> [] then cstr (e_name e) else cstr t"
  let ?handler = "\<lambda>key k. if e_cb e k \<noteq> NULL then member_line key (quoted (fname (e_cb e k))) else []"
  let ?bp = "\<lambda>key k. member_line key (json_bool (e_breakpoint e k))" and ?cnt = "\<lambda>key k. member_line key (show_nat (unat (e_counts e k)))"
  let ?r = "member_line ''id'' (show_ptr a) @ member_line ''name'' (quoted ?name) @ member_line ''filename'' (quoted (cstr t)) @ member_line ''arg_pointer'' (show_ptr (a + 48)) @
    ?handler ''read_handler'' EVENT_FD_READ @ ?handler ''write_handler'' EVENT_FD_WRITE @ ?handler ''error_handler'' EVENT_FD_ERROR @
    member_line ''pausable'' (json_bool (e_pausable e)) @ member_line ''critical'' (show_char sgnd (e_critical e)) @
    ?bp ''read_breakpoint'' EVENT_FD_READ @ ?bp ''write_breakpoint'' EVENT_FD_WRITE @ ?bp ''error_breakpoint'' EVENT_FD_ERROR @
    ?cnt ''read_count'' EVENT_FD_READ @ ?cnt ''write_count'' EVENT_FD_WRITE @ ?cnt ''error_count'' EVENT_FD_ERROR"
  have "json_run (?handler key k)" if "k \<in> {EVENT_FD_READ, EVENT_FD_WRITE, EVENT_FD_ERROR}" "json_plain key" for key k
    using assms(1) that by (auto simp: fd_ok_def intro: run_line json_quoted)
  moreover have "json (quoted ?name)" "json (quoted (cstr t))" using assms by (auto simp: fd_ok_def intro: json_quoted)
  ultimately have "json_run ?r"
    by (intro json_run_append run_line json_show_ptr json_show_char json_json_bool json_show_nat) (simp_all add: QUOTE_def)
  from object_element [OF this, of "''fd''" "show_int (e_fd e)"]
  show "json_elements (concat (edbg_report_fd_event sgnd fname readlink True a e))"
    using assms(2) by (simp add: edbg_report_fd_event_def Let_def json_show_int QUOTE_def if_distrib [of concat] cong: if_cong)
qed

text \<open>What the report needs: names without quotes, backslashes or control characters, normalised times, and a target for the link of the first descriptor.\<close>

definition report_ok :: "(ptr \<Rightarrow> string) \<Rightarrow> (int \<Rightarrow> string option) \<Rightarrow> EventState \<Rightarrow> bool" where
  "report_ok fname readlink ctx =
     (list_all (\<lambda>a. event_ok fname (mem ctx a)) (reported_events ctx) \<and> list_all (\<lambda>a. fd_ok fname readlink (fmem ctx a)) (all_fd_events ctx) \<and>
      (all_fd_events ctx \<noteq> [] \<longrightarrow> readlink (e_fd (fmem ctx (hd (all_fd_events ctx)))) \<noteq> None))"

lemma timed_events_run:
  assumes "report_ok fname readlink ctx" "tv_normal c"
  shows "json_run (concat (edbg_report_timed_events sgnd fname c ctx))"
proof -
  let ?report = "\<lambda>first a. edbg_report_timed_event sgnd fname c first a (mem ctx a)"
  have el: "json_elements (concat (?report True a)) \<and> concat (?report False a) = '','' @ [EOL] @ concat (?report True a)" if "a \<in> set (reported_events ctx)" for a
    using that assms timed_event_element [of fname "mem ctx a" c sgnd a] by (simp add: report_ok_def list_all_iff)
  have "concat (report_events ?report True (reported_events ctx)) = [] \<or> json_elements (concat (report_events ?report True (reported_events ctx)))"
    by (rule report_events_elements) (use el hd_in_set in blast)+
  from array_run [OF this, of "[EOL] @ ''  ''" "''timed_events''"] show ?thesis by (simp add: edbg_report_timed_events_def QUOTE_def)
qed

lemma fd_events_run:
  assumes "report_ok fname readlink ctx"
  shows "json_run (concat (edbg_report_fd_events sgnd fname readlink ctx))"
proof -
  let ?report = "\<lambda>first a. edbg_report_fd_event sgnd fname readlink first a (fmem ctx a)"
  have ok: "fd_ok fname readlink (fmem ctx a)" if "a \<in> set (all_fd_events ctx)" for a using that assms by (simp add: report_ok_def list_all_iff)
  have "concat (?report False a) = [] \<or> (\<exists>e. json_elements e \<and> concat (?report False a) = '','' @ [EOL] @ e)" if "a \<in> set (all_fd_events ctx)" for a
    using fd_event_element [OF ok [OF that], of _ sgnd a] by (cases "readlink (e_fd (fmem ctx a))") (auto simp: edbg_report_fd_event_def)
  moreover have "json_elements (concat (?report True (hd (all_fd_events ctx))))" if "all_fd_events ctx \<noteq> []"
    using fd_event_element(1) [OF ok [of "hd (all_fd_events ctx)"]] that assms by (auto simp: report_ok_def)
  ultimately have "concat (report_events ?report True (all_fd_events ctx)) = [] \<or> json_elements (concat (report_events ?report True (all_fd_events ctx)))"
    by (rule report_events_elements)
  from array_run [OF this, of "(if all_fd_events ctx \<noteq> [] then [EOL] else []) @ ''  ''" "''fd_events''"]
  show ?thesis by (simp add: edbg_report_fd_events_def QUOTE_def if_distrib [of concat] cong: if_cong)
qed

lemma next_step_run: "json_run (concat (next_step ctx))"
proof -
  have "json_run (''  '' @ quoted ''next_step'' @ '' : { '' @ quoted ''type'' @ '':'' @ quoted ty @ '', '' @ quoted ''id'' @ '':'' @ show_ptr a @ '' },'' @ [EOL])" if "json_plain ty" for ty a
  proof -
    have "json_members (('' '' @ quoted ''type'' @ '':'' @ quoted ty) @ '','' @ ('' '' @ quoted ''id'' @ '':'' @ show_ptr a @ '' ''))"
      using json_more_members [OF json_member [of "'' ''" "''type''" "[]" "[]" "quoted ty" "[]"] json_member [of "'' ''" "''id''" "[]" "[]" "show_ptr a" "'' ''"]]
        that json_quoted json_show_ptr by (simp add: QUOTE_def)
    from run_member [OF _ json_object [OF this], of "''next_step''" "''  ''" "'' ''" "'' ''" "[EOL]"] show ?thesis by (simp add: QUOTE_def)
  qed
  from this [of "''Timed Event''"] this [of "''FD Event''"] show ?thesis by (simp add: next_step_def Let_def QUOTE_def)
qed

lemma head_run: "\<exists>r. report_head ctx = ''{'' @ r \<and> json_run r"
proof -
  let ?p = "\<lambda>w1 key w3 v w4. w1 @ quoted key @ [] @ '':'' @ w3 @ v @ '','' @ w4"
  let ?r = "?p ([EOL] @ ''  '') ''loop_steps'' '' '' (show_nat (unat (loop_counter ctx))) [EOL] @
    ?p ''  '' ''dbg_state'' '' '' (quoted (if debuggerState ctx = EDBG_STOPPED then ''stopped'' else ''running'')) [EOL] @
    ?p ''  '' ''port'' [] (show_nat (nat (dbgPort ctx mod 2 ^ 32))) [EOL] @
    ?p ''  '' ''timed_events'' [] (show_nat (unat (timed_event_counter ctx))) [EOL] @
    ?p ''  '' ''fd_events'' [] (show_nat (unat (fd_event_counter ctx))) [EOL] @
    ?p ''  '' ''critical_sched_count'' [] (show_int (critical_sched_count ctx)) [] @
    ?p ''  '' ''critical_fd_count'' [] (show_int (critical_fd_count ctx)) [EOL]"
  have "json (quoted (if debuggerState ctx = EDBG_STOPPED then ''stopped'' else ''running''))" by (intro json_quoted) (simp add: QUOTE_def)
  then have "json_run ?r" by (intro json_run_append run_member json_show_nat json_show_int) (simp_all add: QUOTE_def)
  moreover have "report_head ctx = ''{'' @ ?r" by (simp add: report_head_def)
  ultimately show ?thesis by blast
qed

lemma debugger_state_run: "json_plain (case name of None \<Rightarrow> ''(null)'' | Some s \<Rightarrow> s) \<Longrightarrow> list_all json_run (PROC_debugger_state name)"
  using run_member [of "''process_name''" "quoted (case name of None \<Rightarrow> ''(null)'' | Some s \<Rightarrow> s)" "''  ''" "[]" "'' ''" "[EOL]"] json_quoted
  by (simp add: PROC_debugger_state_def QUOTE_def)

lemma report_json:
  assumes "report_ok fname readlink ctx" "tv_normal c" "list_all json_run state_cb"
  shows "json (concat (report_texts sgnd fname readlink state_cb c full ctx))"
proof -
  obtain r where r: "report_head ctx = ''{'' @ r" "json_run r" using head_run by blast
  let ?body = "concat (if full then edbg_report_timed_events sgnd fname c ctx @ edbg_report_fd_events sgnd fname readlink ctx else [])"
  let ?last = "''  '' @ quoted ''current_time'' @ [] @ '':'' @ '' '' @ show_time c @ [EOL]"
  have "json_run ?body" using timed_events_run [OF assms(1,2)] fd_events_run [OF assms(1)] by (simp add: json_run_append)
  then have "json_run (r @ concat state_cb @ concat (next_step ctx) @ ?body)"
    using r(2) json_run_concat [OF assms(3)] next_step_run by (intro json_run_append)
  moreover have "json_members ?last" by (rule json_member) (simp_all add: json_time assms(2) QUOTE_def)
  ultimately have "json_members ((r @ concat state_cb @ concat (next_step ctx) @ ?body) @ ?last)" by (rule json_runD)
  from json_object [OF this] show ?thesis by (simp add: report_texts_def r(1))
qed

section \<open>The report is delivered\<close>

lemma text_bytes_append [simp]: "text_bytes (a @ b) = text_bytes a @ text_bytes b"
  by (simp add: text_bytes_def)

lemma length_text_bytes [simp]: "length (text_bytes s) = length s"
  by (simp add: text_bytes_def)

lemma print_texts_ok:
  assumes "buf_ok b" "\<forall>n. alloc n" "length (buf_content b) + length (concat ts) < 2 ^ 62"
  shows "\<exists>b'. print_texts alloc (Some b) ts = Some (Some b') \<and> buf_ok b' \<and> buf_content b' = buf_content b @ text_bytes (concat ts)"
  using assms
proof (induction ts arbitrary: b)
  case (Cons t ts)
  obtain b1 where b1: "ipc_printf_buffer alloc (Some b) (Some (text_bytes t)) = Some (int (length (text_bytes t)), Some b1)" "buf_ok b1"
      "buf_content b1 = buf_content b @ text_bytes t"
    using printf_buffer_ok [OF Cons.prems(1,2), of "text_bytes t"] Cons.prems(3) by auto
  then show ?case using Cons.IH [OF b1(2) Cons.prems(2)] Cons.prems(3) by simp
qed (simp add: text_bytes_def)

text \<open>The bytes that successful writes take, short ones included.\<close>

primrec written :: "write_result list \<Rightarrow> nat" where
  "written [] = 0"
| "written (r # rs) = (case r of Written k \<Rightarrow> k | _ \<Rightarrow> 0) + written rs"

lemma write_loop_all: "Failed \<notin> set rs \<Longrightarrow> length data \<le> written rs \<Longrightarrow> write_loop rs sent data = Some (0, sent @ data)"
  by (induction rs sent data rule: write_loop.induct) auto

lemma write_sync_all:
  "buf_ok b \<Longrightarrow> Failed \<notin> set rs \<Longrightarrow> length (buf_content b) \<le> written rs \<Longrightarrow> \<exists>sent. ipc_write_buffer_sync rs (Some b) = Some (0, sent)"
  by (auto simp: ipc_write_buffer_sync_def buf_content_def write_loop_all split: option.splits)

definition frame_to :: "u8 list \<Rightarrow> ZMQLClient \<Rightarrow> zeffect list" where
  "frame_to m c = (if zc_state c = ZMQL_DATA then [ZWrite (zc_id c) (frame_header (length m)), ZWrite (zc_id c) m] else [])"

lemma broadcast_frames:
  assumes "buf_ok b" "buf_content b = m" "\<And>c. Failed \<notin> set (rs c)" "\<And>c. length m \<le> written (rs c)"
  shows "zmql_broadcast_buffer rs clients (Some b) = Some (concat (map (frame_to m) clients))"
proof (induction clients)
  case (Cons c clients)
  obtain sent where "ipc_write_buffer_sync (rs c) (Some b) = Some (0, sent)" using write_sync_all [OF assms(1,3)] assms(2,4) by blast
  then have "zmql_write_buffer (rs c) c (Some b) = Some (0, frame_to m c)"
    using zmql_write_buffer_frame [OF _ assms(1,2)] by (cases "zc_state c = ZMQL_DATA") (simp_all add: frame_to_def zmql_write_buffer_def)
  then show ?case using Cons by simp
qed simp

text \<open>
  C37: the report of the event loop to its debugger is a JSON object, and each client past its greeting gets it whole, in one frame: for every
  state of the loop whose names need no escapes, whose times are normalised and whose first descriptor has a name.
\<close>

theorem debugger_report_delivered:
  assumes "report_ok fname readlink ctx" "tv_normal curr_time" "list_all json_run state_cb"
    "text = concat (report_texts sgnd fname readlink state_cb curr_time full ctx)" "length text < 2 ^ 62"
    "buf_ok b" "\<forall>n. alloc n" "\<forall>c. Failed \<notin> set (rs c)" "\<forall>c. length text \<le> written (rs c)" "zs_clientCount srv \<noteq> 0"
  shows "json text \<and> (\<exists>b'. edbg_report_state sgnd alloc fname readlink rs state_cb curr_time (Some srv) (Some b) full ctx =
    Some (concat (map (frame_to (text_bytes text)) (zs_clients srv)), Some b'))"
proof -
  let ?b = "b\<lparr>ib_dataLen := 0\<rparr>"
  have "buf_ok ?b" "buf_content ?b = []" using assms(6) by (auto simp: buf_ok_def buf_content_def split: option.splits)
  then obtain b' where b': "print_texts alloc (Some ?b) (report_texts sgnd fname readlink state_cb curr_time full ctx) = Some (Some b')" "buf_ok b'"
      "buf_content b' = text_bytes text"
    using print_texts_ok [of ?b alloc] assms(4,5,7) by auto
  then have "zmql_broadcast_buffer rs (zs_clients srv) (Some b') = Some (concat (map (frame_to (text_bytes text)) (zs_clients srv)))"
    using broadcast_frames [OF b'(2,3)] assms(8,9) by simp
  then show ?thesis
    using report_json [OF assms(1-3)] assms(4,10) b'(1) by (simp add: edbg_report_state_def zmql_client_count_def ipc_reset_buffer_def)
qed

definition sample_loop :: EventState where
  "sample_loop = zero_EventState\<lparr>next_timed_event := 5, mem := (\<lambda>_. zero_ScheduleCB\<lparr>sc_name := ''tick''\<rparr>), debuggerState := EDBG_STOPPED,
     hashSize := 1, events := (\<lambda>_. [7]), fmem := (\<lambda>_. zero_EventCB\<lparr>e_fd := 4\<rparr>)\<rparr>"

definition sample_client :: ZMQLClient where
  "sample_client = \<lparr>zc_id = 9, zc_socket = 6, zc_state = ZMQL_DATA, zc_data = None, zc_closeFlag = False, zc_msgCb = True, zc_connectCb = True, zc_disconnectCb = True\<rparr>"

lemma sample_loop_ok: "report_ok (\<lambda>_. ''f'') (\<lambda>_. Some ''pipe'') sample_loop"
  by (simp add: report_ok_def sample_loop_def reported_events_def all_fd_events_def event_ok_def fd_ok_def zero_EventState_def zero_ScheduleCB_def zero_EventCB_def
      cstr_def QUOTE_def tv_normal_def ps_pqueue_size_def NULL_def)

lemma length_show_nat: "length (show_nat n) = (if n < 10 then 1 else Suc (length (show_nat (n div 10))))"
  by (subst show_nat.simps) simp

lemma sample_text_short: "length (concat (report_texts True (\<lambda>_. ''f'') (\<lambda>_. Some ''pipe'') (PROC_debugger_state (Some ''adcs'')) (Timeval 3 5) True sample_loop)) < 2 ^ 62"
  by (simp add: report_texts_def report_head_def PROC_debugger_state_def next_step_def edbg_report_timed_events_def edbg_report_fd_events_def reported_events_def all_fd_events_def
      edbg_report_timed_event_def edbg_report_fd_event_def member_line_def last_member_def quoted_def show_ptr_def show_time_def show_char_def show_06_def show_int_def
      length_show_nat pad_left_def json_bool_def sample_loop_def zero_EventState_def zero_ScheduleCB_def zero_EventCB_def cstr_def ps_pqueue_size_def NULL_def
      timersub_def EVENT_FD_READ_def EVENT_FD_WRITE_def EVENT_FD_ERROR_def Let_def less_eq_timeval_def)

theorem debugger_report_delivered_witness:
  "\<exists>text b'. json text \<and> edbg_report_state True (\<lambda>_. True) (\<lambda>_. ''f'') (\<lambda>_. Some ''pipe'') (\<lambda>_. [Written (length text)]) (PROC_debugger_state (Some ''adcs''))
     (Timeval 3 5) (Some \<lparr>zs_socket = 3, zs_clientCount = 1, zs_clients = [sample_client], zs_msgCb = True, zs_connectCb = True, zs_disconnectCb = True\<rparr>)
     (Some \<lparr>ib_allocLen = 0, ib_dataLen = 0, ib_data = None\<rparr>) True sample_loop =
     Some ([ZWrite 9 (frame_header (length text)), ZWrite 9 (text_bytes text)], Some b')"
proof -
  let ?text = "concat (report_texts True (\<lambda>_. ''f'') (\<lambda>_. Some ''pipe'') (PROC_debugger_state (Some ''adcs'')) (Timeval 3 5) True sample_loop)"
  have "list_all json_run (PROC_debugger_state (Some ''adcs''))" by (rule debugger_state_run) (simp add: QUOTE_def)
  from debugger_report_delivered [OF sample_loop_ok _ this refl sample_text_short, of "\<lparr>ib_allocLen = 0, ib_dataLen = 0, ib_data = None\<rparr>" "\<lambda>_. True"
      "\<lambda>_. [Written (length ?text)]" "\<lparr>zs_socket = 3, zs_clientCount = 1, zs_clients = [sample_client], zs_msgCb = True, zs_connectCb = True, zs_disconnectCb = True\<rparr>"]
  show ?thesis by (intro exI [of _ ?text]) (simp add: tv_normal_def buf_ok_def frame_to_def sample_client_def)
qed

section \<open>Reports that are not JSON\<close>

text \<open>The first descriptor is counted as printed when its link cannot be read: the list then starts with a comma.\<close>

lemma unreadable_first_descriptor:
  assumes "all_fd_events ctx = [a, a']" "readlink (e_fd (fmem ctx a)) = None" "readlink (e_fd (fmem ctx a')) = Some t"
  shows "\<exists>rest. concat (edbg_report_fd_events sgnd fname readlink ctx) = ''  '' @ quoted ''fd_events'' @ '': ['' @ [EOL] @ '','' @ [EOL] @ rest"
  using assms by (simp add: edbg_report_fd_events_def edbg_report_fd_event_def Let_def)

text \<open>In the full format two keys occur twice: the counts are followed by lists of the same names.\<close>

lemma counts_hidden:
  "\<exists>a b. report_head ctx = a @ quoted ''timed_events'' @ '':'' @ show_nat (unat (timed_event_counter ctx)) @ b"
  "\<exists>b. concat (edbg_report_timed_events sgnd fname t ctx) = ''  '' @ quoted ''timed_events'' @ '': ['' @ b"
proof -
  let ?a = "''{'' @ [EOL] @ ''  '' @ quoted ''loop_steps'' @ '': '' @ show_nat (unat (loop_counter ctx)) @ '','' @ [EOL] @
     ''  '' @ quoted ''dbg_state'' @ '': '' @ quoted (if debuggerState ctx = EDBG_STOPPED then ''stopped'' else ''running'') @ '','' @ [EOL] @
     ''  '' @ quoted ''port'' @ '':'' @ show_nat (nat (dbgPort ctx mod 2 ^ 32)) @ '','' @ [EOL] @ ''  ''"
  show "\<exists>a b. report_head ctx = a @ quoted ''timed_events'' @ '':'' @ show_nat (unat (timed_event_counter ctx)) @ b"
    by (rule exI [of _ ?a]) (simp add: report_head_def)
  show "\<exists>b. concat (edbg_report_timed_events sgnd fname t ctx) = ''  '' @ quoted ''timed_events'' @ '': ['' @ b"
    by (simp add: edbg_report_timed_events_def)
qed

end
