(* ===== verification/Telemetry.thy ===== *)
theory Telemetry
  imports Sockets C_Text Complex_Main
begin

text \<open>
  The export of telemetry dictionaries (\<open>telm_dict.c\<close>): the static tables a process has about its telemetry, printed as a configuration of the data logger, as
  metadata of sensors, and as JSON.

  \<^item> The tables are the lists of their entries before the terminator. A string that the code prints without a test is not \<open>NULL\<close>.
  \<^item> A \<open>double\<close> that is a number is its exact rational value.
  \<^item> An export is the text it prints; all of them return 0.
\<close>

section \<open>Options and numbers\<close>

text \<open>
  \<open>getopt\<close> as it is in the GNU library: \<open>spec c\<close> says whether the option \<open>c\<close> exists and has an argument. The result has the options in order and the arguments
  that are none; \<open>None\<close> is an option that is not known or lacks its argument, at which every caller gives up.
\<close>

fun getopt :: "(char \<Rightarrow> bool option) \<Rightarrow> string \<Rightarrow> string list \<Rightarrow> ((char \<times> string) list \<times> string list) option" where
  "getopt spec [] [] = Some ([], [])"
| "getopt spec [] (a # as) =
     (if a = ''--'' then Some ([], as)
      else if take 1 a = ''-'' \<and> a \<noteq> ''-'' then getopt spec (tl a) as
      else map_option (\<lambda>(os, rest). (os, a # rest)) (getopt spec [] as))"
| "getopt spec (c # cs) as =
     (case spec c of
        None \<Rightarrow> None
      | Some False \<Rightarrow> map_option (\<lambda>(os, rest). ((c, []) # os, rest)) (getopt spec cs as)
      | Some True \<Rightarrow>
          if cs \<noteq> [] then map_option (\<lambda>(os, rest). ((c, cs) # os, rest)) (getopt spec [] as)
          else (case as of [] \<Rightarrow> None | a # as' \<Rightarrow> map_option (\<lambda>(os, rest). ((c, a) # os, rest)) (getopt spec [] as')))"

definition takes :: "string \<Rightarrow> string \<Rightarrow> char \<Rightarrow> bool option" where
  "takes with_arg without c = (if c \<in> set with_arg then Some True else if c \<in> set without then Some False else None)"

datatype c_double = Fin rat | NegZero | Inf bool | NaN bool

text \<open>\<open>%lf\<close>: six places, rounded to the nearest, a tie to the even one.\<close>

definition round_even :: "rat \<Rightarrow> nat" where
  "round_even q = (let f = floor q; r = q - of_int f in nat (if r < 1 / 2 \<or> r = 1 / 2 \<and> even f then f else f + 1))"

definition show_lf :: "c_double \<Rightarrow> string" where
  "show_lf d =
     (case d of
        Fin q \<Rightarrow>
          let n = round_even (\<bar>q\<bar> * 1000000)
          in (if q < 0 then ''-'' else []) @ show_nat (n div 1000000) @ ''.'' @ pad_left 6 (CHR ''0'') (show_nat (n mod 1000000))
      | NegZero \<Rightarrow> ''-0.000000''
      | Inf neg \<Rightarrow> if neg then ''-inf'' else ''inf''
      | NaN neg \<Rightarrow> if neg then ''-nan'' else ''nan'')"

section \<open>Tables\<close>

record TELMBitfieldInfo =
  bi_value :: u32
  bi_set_label :: string
  bi_clear_label :: "string option"

record TELMTelemetryInfo =
  ti_id :: string
  ti_location :: string
  ti_group :: string
  ti_units :: string
  ti_divisor :: c_double
  ti_offset :: c_double
  ti_name :: string
  ti_desc :: string
  ti_bitfields :: "TELMBitfieldInfo list option"
  ti_computed_by :: "string option"

record TELMEventInfo =
  ei_port_name :: string
  ei_id :: "16 word"
  ei_name :: string
  ei_desc :: string

definition excluded :: "string list \<Rightarrow> TELMTelemetryInfo \<Rightarrow> bool" where
  "excluded names p = list_ex (\<lambda>n. strcaseeq n (ti_id p)) names"

section \<open>Configuration of the data logger\<close>

definition ind :: "nat \<Rightarrow> string \<Rightarrow> string" where
  "ind n s = replicate n (CHR '' '') @ s @ [EOL]"

definition kv :: "nat \<Rightarrow> string \<Rightarrow> string \<Rightarrow> string" where
  "kv n key v = ind n (key @ ''='' @ v)"

record dl_opts =
  dl_header :: bool
  dl_mode :: int
  dl_start_time :: int
  dl_period :: int
  dl_name :: string
  dl_path :: string
  dl_exclude :: "string list"

definition dl_option :: "char \<times> string \<Rightarrow> dl_opts \<Rightarrow> dl_opts" where
  "dl_option oa o1 =
     (let opt = fst oa; optarg = snd oa
      in if opt = CHR ''p'' then o1\<lparr>dl_period := int32_of (atol optarg)\<rparr>
         else if opt = CHR ''s'' then o1\<lparr>dl_start_time := int32_of (atol optarg)\<rparr>
         else if opt = CHR ''t'' then o1\<lparr>dl_path := optarg\<rparr>
         else if opt = CHR ''H'' then o1\<lparr>dl_header := True\<rparr>
         else if opt = CHR ''n'' then o1\<lparr>dl_name := optarg\<rparr>
         else if opt = CHR ''x'' then o1\<lparr>dl_exclude := optarg # dl_exclude o1\<rparr>
         else if opt = CHR ''m'' then o1\<lparr>dl_mode := int32_of (atol optarg)\<rparr>
         else o1)"

definition dl_head :: "dl_opts \<Rightarrow> string" where
  "dl_head o1 =
     ind 0 ''<EVENT>'' @ kv 3 ''NAME'' (dl_name o1) @ kv 3 ''PROC_NAME'' (dl_name o1) @ kv 3 ''NUM'' ''0'' @ kv 3 ''START_TIME'' (''P+'' @ show_int (dl_start_time o1)) @
     kv 3 ''SCHED_TIME'' (show_int (dl_period o1)) @ kv 3 ''DURATION'' ''0'' @ ind 0 ''</EVENT>'' @ ind 0 [] @
     ind 0 ''<SUBPROCESS>'' @ kv 3 ''NAME'' (dl_name o1) @ kv 3 ''PROC_PATH'' (dl_path o1) @ kv 3 ''POWER'' ''1'' @ kv 3 ''POWER_PROC'' ''./none'' @ kv 3 ''PARAM'' [] @ ind 0 []"

definition dl_point :: "dl_opts \<Rightarrow> TELMTelemetryInfo \<Rightarrow> string" where
  "dl_point o1 p =
     (let ignore = excluded (dl_exclude o1) p
      in if dl_mode o1 = 1 then (if ignore then [] else ind 0 (ti_id p))
         else if \<not> ignore then
           ind 3 ''<SENSOR>'' @ kv 6 ''NAME'' (dl_name o1) @ kv 6 ''SENSOR_KEY'' (ti_id p) @ kv 6 ''LOCATION'' (ti_location p) @ kv 6 ''GROUPS'' (ti_group p) @ ind 3 ''</SENSOR>''
         else ind 3 ''<IGNORE>'' @ kv 6 ''SENSOR_KEY'' (ti_id p) @ ind 3 ''</IGNORE>'')"

definition TELM_print_datalogger_info :: "TELMTelemetryInfo list \<Rightarrow> string \<Rightarrow> string \<Rightarrow> string \<Rightarrow> string list \<Rightarrow> string" where
  "TELM_print_datalogger_info points dfl_name dfl_path argv0 args =
     (case getopt (takes ''snxmtp'' ''H'') [] args of
        Some (os, []) \<Rightarrow>
          let o1 = fold dl_option os \<lparr>dl_header = False, dl_mode = 0, dl_start_time = 5, dl_period = 300, dl_name = dfl_name, dl_path = dfl_path, dl_exclude = []\<rparr>
          in if dl_mode o1 = 2 then ind 0 (dl_name o1)
             else (if dl_header o1 then dl_head o1 else []) @ concat (map (dl_point o1) points) @ (if dl_header o1 then ind 0 ''</SUBPROCESS>'' else [])
      | _ \<Rightarrow> argv0 @ '' [-n <subprocess name>] [-H] [-p <period>] [-s <start time>] [-t <telemetry path] [-x <exclude tlm id>] [-x <>] ...'' @ [EOL])"

section \<open>Metadata of sensors\<close>

definition meta_enum :: "TELMBitfieldInfo \<Rightarrow> string" where
  "meta_enum b =
     ind 3 ''<ENUM>'' @ kv 6 ''VALUE'' (show_nat (unat (bi_value b))) @ kv 6 ''LABEL'' (bi_set_label b) @
     (case bi_clear_label b of None \<Rightarrow> [] | Some l \<Rightarrow> kv 6 ''UNSET'' l) @ ind 3 ''</ENUM>''"

definition meta_point :: "TELMTelemetryInfo \<Rightarrow> string" where
  "meta_point p =
     (let type = (if ti_computed_by p \<noteq> None then ''VSENSOR'' else ''SENSOR'')
      in ind 0 (''<'' @ type @ ''>'') @ kv 3 ''KEY'' (ti_id p) @ kv 3 ''LOCATION'' (ti_location p) @ kv 3 ''SUBSYSTEM'' (ti_group p) @ kv 3 ''UNITS'' (ti_units p) @
         kv 3 ''DIVISOR'' (show_lf (ti_divisor p)) @ kv 3 ''OFFSET'' (show_lf (ti_offset p)) @ kv 3 ''NAME'' (ti_name p) @ kv 3 ''DESCRIPTION'' (ti_desc p) @
         (case ti_computed_by p of None \<Rightarrow> [] | Some f \<Rightarrow> kv 3 ''FUNCTION'' f) @
         (case ti_bitfields p of None \<Rightarrow> [] | Some bs \<Rightarrow> concat (map meta_enum bs)) @ ind 0 (''</'' @ type @ ''>''))"

definition port_text :: "(string \<Rightarrow> nat option) \<Rightarrow> string \<Rightarrow> string" where
  "port_text services name = show_nat (nat (socket_get_addr_by_name services name mod 2 ^ 32))"

definition meta_event :: "(string \<Rightarrow> nat option) \<Rightarrow> TELMEventInfo \<Rightarrow> string" where
  "meta_event services e =
     ind 0 ''<EVENT>'' @ kv 3 ''PORT_NAME'' (ei_port_name e) @ kv 3 ''PORT'' (port_text services (ei_port_name e)) @ kv 3 ''ID'' (show_nat (unat (ei_id e))) @
     kv 3 ''NAME'' (ei_name e) @ kv 3 ''DESCRIPTION'' (ei_desc e) @ ind 0 ''</EVENT>''"

definition TELM_print_sensor_metadata :: "(string \<Rightarrow> nat option) \<Rightarrow> TELMTelemetryInfo list \<Rightarrow> TELMEventInfo list \<Rightarrow> string" where
  "TELM_print_sensor_metadata services points events = concat (map meta_point points) @ concat (map (meta_event services) events)"

section \<open>JSON\<close>

definition jkv :: "nat \<Rightarrow> string \<Rightarrow> string \<Rightarrow> string" where
  "jkv n key v = replicate n (CHR '' '') @ [QUOTE] @ key @ [QUOTE] @ '': '' @ v @ '','' @ [EOL]"

definition jlast :: "nat \<Rightarrow> string \<Rightarrow> string \<Rightarrow> string" where
  "jlast n key v = replicate n (CHR '' '') @ [QUOTE] @ key @ [QUOTE] @ '': '' @ v @ [EOL]"

definition jstr :: "string \<Rightarrow> string" where
  "jstr s = [QUOTE] @ s @ [QUOTE]"

definition json_enum :: "bool \<Rightarrow> TELMBitfieldInfo \<Rightarrow> string" where
  "json_enum efirst b =
     (if efirst then [] else '','' @ [EOL]) @ ind 6 ''{'' @ jkv 9 ''value'' (show_nat (unat (bi_value b))) @
     (case bi_clear_label b of None \<Rightarrow> [] | Some l \<Rightarrow> jkv 9 ''unset'' (jstr l)) @ jlast 9 ''label'' (jstr (bi_set_label b)) @ ''   }''"

primrec each_first :: "(bool \<Rightarrow> 'a \<Rightarrow> string) \<Rightarrow> bool \<Rightarrow> 'a list \<Rightarrow> string" where
  "each_first f first [] = []"
| "each_first f first (x # xs) = f first x @ each_first f False xs"

definition json_point :: "string \<Rightarrow> bool \<Rightarrow> TELMTelemetryInfo \<Rightarrow> string" where
  "json_point type first p =
     (if first then [] else '','' @ [EOL]) @ ind 0 ''{'' @ jkv 3 ''type'' (jstr type) @ jkv 3 ''key'' (jstr (ti_id p)) @ jkv 3 ''location'' (jstr (ti_location p)) @
     jkv 3 ''subsystem'' (jstr (ti_group p)) @ jkv 3 ''units'' (jstr (ti_units p)) @ jkv 3 ''divisor'' (show_lf (ti_divisor p)) @ jkv 3 ''offset'' (show_lf (ti_offset p)) @
     jkv 3 ''name'' (jstr (ti_name p)) @ (case ti_computed_by p of None \<Rightarrow> [] | Some f \<Rightarrow> jkv 3 ''function'' (jstr f)) @
     (case ti_bitfields p of None \<Rightarrow> [] | Some bs \<Rightarrow> ''   '' @ jstr ''enums'' @ '': ['' @ [EOL] @ each_first json_enum True bs @ ''   ],'' @ [EOL]) @
     jlast 3 ''description'' (jstr (ti_desc p)) @ ''}''"

definition json_event :: "(string \<Rightarrow> nat option) \<Rightarrow> bool \<Rightarrow> TELMEventInfo \<Rightarrow> string" where
  "json_event services first e =
     (if first then [] else '','' @ [EOL]) @ ind 0 ''{'' @ ''   '' @ jstr ''port_name'' @ '' : '' @ jstr (ei_port_name e) @ '','' @ [EOL] @
     ''   '' @ jstr ''port'' @ '' : '' @ port_text services (ei_port_name e) @ '','' @ [EOL] @ ''   '' @ jstr ''id'' @ '' : ='' @ show_nat (unat (ei_id e)) @ '','' @ [EOL] @
     ''   '' @ jstr ''name'' @ '' : '' @ jstr (ei_name e) @ '','' @ [EOL] @ ''   '' @ jstr ''description'' @ '' : '' @ jstr (ei_desc e) @ [EOL] @ ''}''"

text \<open>The entries that a mode prints, and their type.\<close>

definition selected :: "int \<Rightarrow> string list \<Rightarrow> TELMTelemetryInfo list \<Rightarrow> TELMTelemetryInfo list" where
  "selected mode names points =
     filter (\<lambda>p. \<not> excluded names p \<and> (mode = 1 \<and> ti_computed_by p = None \<or> mode = 3 \<and> ti_computed_by p \<noteq> None)) points"

definition json_option :: "char \<times> string \<Rightarrow> string list \<times> int \<Rightarrow> string list \<times> int" where
  "json_option oa s =
     (if fst oa = CHR ''x'' then (snd oa # fst s, snd s) else if fst oa = CHR ''m'' then (fst s, int32_of (atol (snd oa))) else s)"

text \<open>The table of events ends at the first number 0.\<close>

definition TELM_print_json_telem_dict :: "(string \<Rightarrow> nat option) \<Rightarrow> TELMTelemetryInfo list \<Rightarrow> TELMEventInfo list \<Rightarrow> string \<Rightarrow> string list \<Rightarrow> string" where
  "TELM_print_json_telem_dict services points events argv0 args =
     (case getopt (takes ''xm'' []) [] args of
        Some (os, []) \<Rightarrow>
          let (names, mode) = fold json_option os ([], 0);
              ps = selected mode names points;
              es = (if mode = 2 then takeWhile (\<lambda>e. ei_id e \<noteq> 0) events else [])
          in each_first (json_point (if mode = 1 then ''sensor'' else ''virtual_sensor'')) True ps @ each_first (json_event services) (ps = []) es @
             (if ps \<noteq> [] \<or> es \<noteq> [] then [EOL] else [])
      | _ \<Rightarrow> argv0 @ '' [-m <mode>] [-x <exclude tlm id>] [-x <>] ...'' @ [EOL])"

end
