(* ===== verification/Telemetry_Correct.thy ===== *)
theory Telemetry_Correct
  imports Telemetry Json_Grammar Config_Correct
begin

text \<open>
  What other programs read of the exports of \<open>telm_dict.c\<close>: the configuration of the data logger and the metadata are read by the parser of \<open>config.c\<close>, the
  dictionary by a reader of JSON.
\<close>

section \<open>Numbers\<close>

lemma show_nat_length: "n < 10 ^ Suc k \<Longrightarrow> length (show_nat n) \<le> Suc k"
proof (induction k arbitrary: n)
  case (Suc k)
  then have "length (show_nat (n div 10)) \<le> Suc k" by (simp add: less_mult_imp_div_less)
  then show ?case by (subst show_nat.simps) simp
qed (subst show_nat.simps, simp)

definition clean :: "string \<Rightarrow> bool" where
  "clean s = list_all (\<lambda>c. c \<noteq> NL \<and> c \<noteq> CHR 0x00 \<and> c \<noteq> CR) s"

lemma clean_simps [simp]: "clean []" "clean (c # s) = (c \<noteq> NL \<and> c \<noteq> CHR 0x00 \<and> c \<noteq> CR \<and> clean s)" "clean (s @ t) = (clean s \<and> clean t)"
  by (auto simp: clean_def)

lemma cleanD: "clean s \<Longrightarrow> plain s" "clean s \<Longrightarrow> s \<noteq> [] \<Longrightarrow> last s \<noteq> CR"
  using last_in_set [of s] by (auto simp: clean_def plain_def list_all_iff)

lemma clean_show_nat [simp]: "clean (show_nat n)"
proof -
  have "is_digit 10 c \<Longrightarrow> c \<noteq> NL \<and> c \<noteq> CHR 0x00 \<and> c \<noteq> CR" for c by (auto simp: is_digit_def digit_value_def NL_def CR_def)
  then show ?thesis using show_nat_value [of n] by (auto simp: list_all_iff clean_def)
qed

lemma clean_zeros [simp]: "clean (replicate n (CHR ''0''))"
  by (simp add: clean_def list_all_iff NL_def CR_def)

lemma clean_show_int [simp]: "clean (show_int i)"
  by (simp add: show_int_def NL_def CR_def)

section \<open>Lines\<close>

definition value_ok :: "string \<Rightarrow> bool" where
  "value_ok v = (clean v \<and> length v < 4000)"

definition key_ok :: "string \<Rightarrow> bool" where
  "key_ok k = (k \<noteq> [] \<and> clean k \<and> \<not> isblank (hd k) \<and> hd k \<noteq> CHR ''#'' \<and> hd k \<noteq> CHR '';'' \<and> hd k \<noteq> CHR ''<'' \<and> CHR ''='' \<notin> set k \<and> length k < 50)"

lemma layout_append: "layout a s \<Longrightarrow> layout b t \<Longrightarrow> layout (a @ b) (s @ t)"
proof (induction rule: layout.induct)
  case (layout_line bl l crs ls u)
  then show ?case using layout.layout_line [of bl l crs "ls @ b" "u @ t"] by simp
next
  case (layout_comment bl c crs ls u)
  then show ?case using layout.layout_comment [of bl c crs "ls @ b" "u @ t"] by simp
next
  case (layout_empty bl crs ls u)
  then show ?case using layout.layout_empty [of bl crs "ls @ b" "u @ t"] by simp
qed simp

lemma layout_concat: "list_all2 layout lss ts \<Longrightarrow> layout (concat lss) (concat ts)"
  by (induction rule: list_all2_induct) (auto intro: layout_append layout_end)

lemma layout_ind: "ok_line l \<Longrightarrow> n + length l < 4095 \<Longrightarrow> layout [l] (ind n l)"
  using layout_line [OF _ _ _ _ layout_end, of "replicate n (CHR '' '')" l "[]"] by (simp add: ind_def isblank_def NL_def EOL_def list_all_iff)

lemma layout_blank_line: "layout [] (ind 0 [])"
  using layout_empty [OF _ _ _ layout_end, of "[]" "[]"] by (simp add: ind_def NL_def EOL_def)

lemma layout_kv: "key_ok k \<Longrightarrow> value_ok v \<Longrightarrow> n < 10 \<Longrightarrow> layout [k @ ''='' @ v] (kv n k v)"
  unfolding kv_def using cleanD [of "k @ ''='' @ v"]
  by (intro layout_ind) (auto simp: key_ok_def value_ok_def ok_line_def CR_def NL_def)

definition name_ok :: "string \<Rightarrow> bool" where
  "name_ok n = (n \<noteq> [] \<and> plain n \<and> CHR '' '' \<notin> set n \<and> hd n \<noteq> CHR ''/'' \<and> length n < 50)"

lemma layout_section:
  assumes "name_ok n" "layout (concat (map item_lines its)) body" "i < 10"
  shows "layout (item_lines (Sec n [] its)) (ind i (''<'' @ n @ ''>'') @ body @ ind i (''</'' @ n @ ''>''))"
proof -
  have "ok_line (header_line n [])" "ok_line (end_line n)"
    using assms(1) by (auto simp: ok_line_def header_line_def end_line_def name_ok_def plain_def CR_def NL_def isblank_def)
  then have "layout [header_line n []] (ind i (''<'' @ n @ ''>''))" "layout [end_line n] (ind i (''</'' @ n @ ''>''))"
    using layout_ind [of "header_line n []" i] layout_ind [of "end_line n" i] assms(1,3) by (simp_all add: header_line_def end_line_def name_ok_def)
  from layout_append [OF this(1) layout_append [OF assms(2) this(2)]] show ?thesis by simp
qed

section \<open>Numbers that fit\<close>

lemma value_ok_nat: "n < 2 ^ 64 \<Longrightarrow> value_ok (show_nat n)"
  using show_nat_length [of n 19] by (simp add: value_ok_def)

lemma value_ok_append: "value_ok a \<Longrightarrow> value_ok b \<Longrightarrow> length a + length b < 4000 \<Longrightarrow> value_ok (a @ b)"
  by (auto simp: value_ok_def)

lemma value_ok_int32: "- (2 ^ 31) \<le> i \<Longrightarrow> i < 2 ^ 31 \<Longrightarrow> value_ok (show_int i) \<and> length (show_int i) < 100"
proof -
  assume "- (2 ^ 31) \<le> i" "i < 2 ^ 31"
  then have "nat (- i) < 10 ^ Suc 19" "nat i < 10 ^ Suc 19" by auto
  from this [THEN show_nat_length] show ?thesis by (simp add: value_ok_def) (simp add: show_int_def)
qed

text \<open>The values of finite doubles are below \<open>2 ^ 1024\<close>.\<close>

definition double_ok :: "c_double \<Rightarrow> bool" where
  "double_ok d = (case d of Fin q \<Rightarrow> \<bar>q\<bar> < 2 ^ 1024 | _ \<Rightarrow> True)"

lemma round_even_bound: "0 \<le> q \<Longrightarrow> q < of_nat b \<Longrightarrow> round_even q \<le> b"
proof -
  assume q: "0 \<le> q" "q < of_nat b"
  then have "floor q < int b" by (simp add: floor_less_iff)
  then show ?thesis by (auto simp: round_even_def Let_def)
qed

lemma whole_part_length:
  assumes "\<bar>q\<bar> < 2 ^ k"
  shows "length (show_nat (round_even (\<bar>q\<bar> * 1000000) div 1000000)) \<le> Suc k"
proof -
  have "\<bar>q\<bar> * 1000000 < of_nat (2 ^ k * 1000000)" using assms by simp
  then have "round_even (\<bar>q\<bar> * 1000000) \<le> 2 ^ k * 1000000" by (intro round_even_bound) auto
  then have "round_even (\<bar>q\<bar> * 1000000) div 1000000 \<le> 2 ^ k" using div_le_mono by fastforce
  also have "(2 :: nat) ^ k \<le> 10 ^ k" by (simp add: power_mono)
  also have "(10 :: nat) ^ k < 10 ^ Suc k" by simp
  finally show ?thesis by (rule show_nat_length)
qed

lemma value_ok_lf: "double_ok d \<Longrightarrow> value_ok (show_lf d)"
proof (cases d)
  case (Fin q)
  assume "double_ok d"
  then have "\<bar>q\<bar> < 2 ^ 1024" unfolding double_ok_def Fin c_double.case .
  from whole_part_length [OF this] obtain n where n: "round_even (\<bar>q\<bar> * 1000000) = n" "length (show_nat (n div 1000000)) \<le> 1025" by simp
  have "length (show_nat (n mod 1000000)) \<le> 6" using show_nat_length [of "n mod 1000000" 5] by simp
  then have "value_ok (sg @ show_nat (n div 1000000) @ ''.'' @ pad_left 6 (CHR ''0'') (show_nat (n mod 1000000)))" if "sg = [] \<or> sg = ''-''" for sg
    using that n(2) by (auto simp: value_ok_def pad_left_def NL_def CR_def)
  from this [of "''-''"] this [of "[]"] show ?thesis unfolding Fin show_lf_def c_double.case n(1) Let_def by simp
qed (auto simp: show_lf_def value_ok_def NL_def CR_def)

section \<open>The items of the exports\<close>

definition dl_point_item :: "dl_opts \<Rightarrow> TELMTelemetryInfo \<Rightarrow> item" where
  "dl_point_item o1 p =
     (if excluded (dl_exclude o1) p then Sec ''IGNORE'' [] [Opt ''SENSOR_KEY'' (ti_id p)]
      else Sec ''SENSOR'' [] [Opt ''NAME'' (dl_name o1), Opt ''SENSOR_KEY'' (ti_id p), Opt ''LOCATION'' (ti_location p), Opt ''GROUPS'' (ti_group p)])"

definition dl_items :: "dl_opts \<Rightarrow> TELMTelemetryInfo list \<Rightarrow> item list" where
  "dl_items o1 points =
     [Sec ''EVENT'' [] [Opt ''NAME'' (dl_name o1), Opt ''PROC_NAME'' (dl_name o1), Opt ''NUM'' ''0'', Opt ''START_TIME'' (''P+'' @ show_int (dl_start_time o1)),
        Opt ''SCHED_TIME'' (show_int (dl_period o1)), Opt ''DURATION'' ''0''],
      Sec ''SUBPROCESS'' [] ([Opt ''NAME'' (dl_name o1), Opt ''PROC_PATH'' (dl_path o1), Opt ''POWER'' ''1'', Opt ''POWER_PROC'' ''./none'', Opt ''PARAM'' []] @
        map (dl_point_item o1) points)]"

definition meta_enum_item :: "TELMBitfieldInfo \<Rightarrow> item" where
  "meta_enum_item b = Sec ''ENUM'' [] ([Opt ''VALUE'' (show_nat (unat (bi_value b))), Opt ''LABEL'' (bi_set_label b)] @
     (case bi_clear_label b of None \<Rightarrow> [] | Some l \<Rightarrow> [Opt ''UNSET'' l]))"

definition meta_point_item :: "TELMTelemetryInfo \<Rightarrow> item" where
  "meta_point_item p =
     Sec (if ti_computed_by p \<noteq> None then ''VSENSOR'' else ''SENSOR'') []
       ([Opt ''KEY'' (ti_id p), Opt ''LOCATION'' (ti_location p), Opt ''SUBSYSTEM'' (ti_group p), Opt ''UNITS'' (ti_units p), Opt ''DIVISOR'' (show_lf (ti_divisor p)),
         Opt ''OFFSET'' (show_lf (ti_offset p)), Opt ''NAME'' (ti_name p), Opt ''DESCRIPTION'' (ti_desc p)] @
        (case ti_computed_by p of None \<Rightarrow> [] | Some f \<Rightarrow> [Opt ''FUNCTION'' f]) @ (case ti_bitfields p of None \<Rightarrow> [] | Some bs \<Rightarrow> map meta_enum_item bs))"

definition meta_event_item :: "(string \<Rightarrow> nat option) \<Rightarrow> TELMEventInfo \<Rightarrow> item" where
  "meta_event_item services e = Sec ''EVENT'' [] [Opt ''PORT_NAME'' (ei_port_name e), Opt ''PORT'' (port_text services (ei_port_name e)),
     Opt ''ID'' (show_nat (unat (ei_id e))), Opt ''NAME'' (ei_name e), Opt ''DESCRIPTION'' (ei_desc e)]"

definition meta_items :: "(string \<Rightarrow> nat option) \<Rightarrow> TELMTelemetryInfo list \<Rightarrow> TELMEventInfo list \<Rightarrow> item list" where
  "meta_items services points evs = map meta_point_item points @ map (meta_event_item services) evs"

definition point_ok :: "TELMTelemetryInfo \<Rightarrow> bool" where
  "point_ok p =
     (list_all value_ok [ti_id p, ti_location p, ti_group p, ti_units p, ti_name p, ti_desc p] \<and> double_ok (ti_divisor p) \<and> double_ok (ti_offset p) \<and>
      (case ti_computed_by p of None \<Rightarrow> True | Some f \<Rightarrow> value_ok f) \<and>
      (case ti_bitfields p of None \<Rightarrow> True
       | Some bs \<Rightarrow> list_all (\<lambda>b. value_ok (bi_set_label b) \<and> (case bi_clear_label b of None \<Rightarrow> True | Some l \<Rightarrow> value_ok l)) bs))"

definition tevent_ok :: "TELMEventInfo \<Rightarrow> bool" where
  "tevent_ok e = list_all value_ok [ei_port_name e, ei_name e, ei_desc e]"

section \<open>The layout of the exports\<close>

text \<open>Options one after another.\<close>

definition opts_text :: "nat \<Rightarrow> (string \<times> string) list \<Rightarrow> string" where
  "opts_text n os = concat (map (\<lambda>(k, v). kv n k v) os)"

definition opts_items :: "(string \<times> string) list \<Rightarrow> item list" where
  "opts_items os = map (\<lambda>(k, v). Opt k v) os"

lemma layout_opts:
  "list_all (\<lambda>(k, v). key_ok k \<and> value_ok v) os \<Longrightarrow> n < 10 \<Longrightarrow> layout (concat (map item_lines (opts_items os))) (opts_text n os)"
proof (induction os)
  case Nil
  then show ?case by (simp add: opts_text_def opts_items_def layout_end)
next
  case (Cons o1 os)
  obtain k v where o1: "o1 = (k, v)" by fastforce
  have "layout [k @ ''='' @ v] (kv n k v)" using layout_kv Cons.prems o1 by simp
  from layout_append [OF this Cons.IH] Cons.prems show ?case by (simp add: o1 opts_text_def opts_items_def)
qed

lemma layout_map: "(\<And>x. x \<in> set xs \<Longrightarrow> layout (item_lines (f x)) (g x)) \<Longrightarrow> layout (concat (map item_lines (map f xs))) (concat (map g xs))"
  by (induction xs) (auto intro: layout_append layout_end)

lemma keys_ok [simp]:
  "key_ok ''NAME''" "key_ok ''PROC_NAME''" "key_ok ''NUM''" "key_ok ''START_TIME''" "key_ok ''SCHED_TIME''" "key_ok ''DURATION''" "key_ok ''PROC_PATH''" "key_ok ''POWER''" "key_ok ''POWER_PROC''" "key_ok ''PARAM''" "key_ok ''SENSOR_KEY''" "key_ok ''LOCATION''" "key_ok ''GROUPS''" "key_ok ''VALUE''" "key_ok ''LABEL''" "key_ok ''UNSET''" "key_ok ''KEY''" "key_ok ''SUBSYSTEM''" "key_ok ''UNITS''" "key_ok ''DIVISOR''" "key_ok ''OFFSET''" "key_ok ''DESCRIPTION''" "key_ok ''FUNCTION''" "key_ok ''PORT_NAME''" "key_ok ''PORT''" "key_ok ''ID''"
  by (simp_all add: key_ok_def isblank_def NL_def CR_def)

lemma names_ok [simp]:
  "name_ok ''IGNORE''" "name_ok ''SENSOR''" "name_ok ''VSENSOR''" "name_ok ''EVENT''" "name_ok ''SUBPROCESS''" "name_ok ''ENUM''"
  by (simp_all add: name_ok_def plain_def NL_def)

lemma dl_point_layout:
  assumes "point_ok p" "value_ok (dl_name o1)" "dl_mode o1 \<noteq> 1"
  shows "layout (item_lines (dl_point_item o1 p)) (dl_point o1 p)"
proof -
  have "layout (item_lines (Sec ''IGNORE'' [] (opts_items [(''SENSOR_KEY'', ti_id p)]))) (ind 3 (''<'' @ ''IGNORE'' @ ''>'') @ opts_text 6 [(''SENSOR_KEY'', ti_id p)] @ ind 3 (''</'' @ ''IGNORE'' @ ''>''))"
    using assms(1) by (intro layout_section layout_opts) (simp_all add: point_ok_def)
  moreover have "layout (item_lines (Sec ''SENSOR'' [] (opts_items [(''NAME'', dl_name o1), (''SENSOR_KEY'', ti_id p), (''LOCATION'', ti_location p), (''GROUPS'', ti_group p)])))
      (ind 3 (''<'' @ ''SENSOR'' @ ''>'') @ opts_text 6 [(''NAME'', dl_name o1), (''SENSOR_KEY'', ti_id p), (''LOCATION'', ti_location p), (''GROUPS'', ti_group p)] @ ind 3 (''</'' @ ''SENSOR'' @ ''>''))"
    using assms(1,2) by (intro layout_section layout_opts) (simp_all add: point_ok_def)
  ultimately show ?thesis using assms(3) by (simp add: dl_point_def dl_point_item_def opts_text_def opts_items_def Let_def)
qed

lemma dl_range:
  assumes "- (2 ^ 31) \<le> dl_start_time o0" "dl_start_time o0 < 2 ^ 31" "- (2 ^ 31) \<le> dl_period o0" "dl_period o0 < 2 ^ 31"
  shows "- (2 ^ 31) \<le> dl_start_time (fold dl_option os o0)" "dl_start_time (fold dl_option os o0) < 2 ^ 31"
    "- (2 ^ 31) \<le> dl_period (fold dl_option os o0)" "dl_period (fold dl_option os o0) < 2 ^ 31"
proof -
  have r: "- (2 ^ 31) \<le> int32_of i \<and> int32_of i < 2 ^ 31" for i
    using sint_greater_eq [of "word_of_int i :: 32 word"] sint_less [of "word_of_int i :: 32 word"] by (simp add: int32_of_def)
  let ?P = "\<lambda>o1. - (2 ^ 31) \<le> dl_start_time o1 \<and> dl_start_time o1 < 2 ^ 31 \<and> - (2 ^ 31) \<le> dl_period o1 \<and> dl_period o1 < 2 ^ 31"
  have "?P o0 \<Longrightarrow> ?P (fold dl_option os o0)"
  proof (induction os arbitrary: o0)
    case (Cons oa os)
    have "?P (dl_option oa o0)" using Cons.prems r by (simp add: dl_option_def Let_def)
    from Cons.IH [OF this] show ?case by simp
  qed simp
  then show "- (2 ^ 31) \<le> dl_start_time (fold dl_option os o0)" "dl_start_time (fold dl_option os o0) < 2 ^ 31"
    "- (2 ^ 31) \<le> dl_period (fold dl_option os o0)" "dl_period (fold dl_option os o0) < 2 ^ 31"
    using assms by blast+
qed

lemma dl_layout:
  assumes "list_all point_ok points" "value_ok (dl_name o1)" "value_ok (dl_path o1)" "dl_mode o1 \<noteq> 1"
    "value_ok (show_int (dl_start_time o1))" "length (show_int (dl_start_time o1)) < 100" "value_ok (show_int (dl_period o1))"
  shows "layout (concat (map item_lines (dl_items o1 points))) (dl_head o1 @ concat (map (dl_point o1) points) @ ind 0 ''</SUBPROCESS>'')"
proof -
  let ?eos = "[(''NAME'', dl_name o1), (''PROC_NAME'', dl_name o1), (''NUM'', ''0''), (''START_TIME'', ''P+'' @ show_int (dl_start_time o1)),
    (''SCHED_TIME'', show_int (dl_period o1)), (''DURATION'', ''0'')]"
  let ?sos = "[(''NAME'', dl_name o1), (''PROC_PATH'', dl_path o1), (''POWER'', ''1''), (''POWER_PROC'', ''./none''), (''PARAM'', [])]"
  have v: "value_ok (''P+'' @ show_int (dl_start_time o1))" "value_ok ''0''" "value_ok ''1''" "value_ok ''./none''" "value_ok []"
    using assms(5,6) by (simp_all add: value_ok_def NL_def CR_def)
  have e: "layout (item_lines (Sec ''EVENT'' [] (opts_items ?eos))) (ind 0 (''<'' @ ''EVENT'' @ ''>'') @ opts_text 3 ?eos @ ind 0 (''</'' @ ''EVENT'' @ ''>''))"
    using v assms(2,7) by (intro layout_section layout_opts) simp_all
  have "layout (concat (map item_lines (opts_items ?sos))) (opts_text 3 ?sos)" using v assms(2,3) by (intro layout_opts) simp_all
  moreover have "layout (concat (map item_lines (map (dl_point_item o1) points))) (concat (map (dl_point o1) points))"
    using dl_point_layout assms(1,2,4) by (intro layout_map) (simp add: list_all_iff)
  ultimately have "layout (concat (map item_lines (opts_items ?sos @ map (dl_point_item o1) points))) (opts_text 3 ?sos @ ind 0 [] @ concat (map (dl_point o1) points))"
    using layout_append [OF _ layout_append [OF layout_blank_line]] by fastforce
  from layout_append [OF e layout_append [OF layout_blank_line layout_section [OF _ this, of "''SUBPROCESS''" 0]]]
  show ?thesis by (simp add: dl_items_def dl_head_def opts_items_def opts_text_def)
qed

lemma meta_point_layout:
  assumes "point_ok p"
  shows "layout (item_lines (meta_point_item p)) (meta_point p)"
proof -
  let ?type = "if ti_computed_by p \<noteq> None then ''VSENSOR'' else ''SENSOR''"
  let ?os = "[(''KEY'', ti_id p), (''LOCATION'', ti_location p), (''SUBSYSTEM'', ti_group p), (''UNITS'', ti_units p), (''DIVISOR'', show_lf (ti_divisor p)),
    (''OFFSET'', show_lf (ti_offset p)), (''NAME'', ti_name p), (''DESCRIPTION'', ti_desc p)]"
  let ?fos = "case ti_computed_by p of None \<Rightarrow> [] | Some f \<Rightarrow> [(''FUNCTION'', f)]"
  let ?bs = "case ti_bitfields p of None \<Rightarrow> [] | Some bs \<Rightarrow> bs"
  have "layout (item_lines (meta_enum_item b)) (meta_enum b)" if "b \<in> set ?bs" for b
  proof -
    let ?eos = "[(''VALUE'', show_nat (unat (bi_value b))), (''LABEL'', bi_set_label b)] @ (case bi_clear_label b of None \<Rightarrow> [] | Some l \<Rightarrow> [(''UNSET'', l)])"
    have "value_ok (show_nat (unat (bi_value b)))" using unsigned_less [of "bi_value b", where 'a = nat] by (intro value_ok_nat) simp
    then have "layout (item_lines (Sec ''ENUM'' [] (opts_items ?eos))) (ind 3 (''<'' @ ''ENUM'' @ ''>'') @ opts_text 6 ?eos @ ind 3 (''</'' @ ''ENUM'' @ ''>''))"
      using that assms by (intro layout_section layout_opts) (auto simp: point_ok_def list_all_iff split: option.splits)
    then show ?thesis by (simp add: meta_enum_item_def meta_enum_def opts_items_def opts_text_def split: option.splits)
  qed
  then have b: "layout (concat (map item_lines (map meta_enum_item ?bs))) (concat (map meta_enum ?bs))" by (rule layout_map)
  have "layout (concat (map item_lines (opts_items (?os @ ?fos)))) (opts_text 3 (?os @ ?fos))"
    using assms value_ok_lf by (intro layout_opts) (auto simp: point_ok_def split: option.splits)
  from layout_append [OF this b] have "layout (concat (map item_lines (opts_items (?os @ ?fos) @ map meta_enum_item ?bs))) (opts_text 3 (?os @ ?fos) @ concat (map meta_enum ?bs))"
    by simp
  then have "layout (item_lines (Sec ?type [] (opts_items (?os @ ?fos) @ map meta_enum_item ?bs)))
      (ind 0 (''<'' @ ?type @ ''>'') @ (opts_text 3 (?os @ ?fos) @ concat (map meta_enum ?bs)) @ ind 0 (''</'' @ ?type @ ''>''))"
    by (intro layout_section) (auto split: if_splits)
  moreover have "meta_point_item p = Sec ?type [] (opts_items (?os @ ?fos) @ map meta_enum_item ?bs)"
    by (simp add: meta_point_item_def opts_items_def split: option.splits)
  moreover have "meta_point p = ind 0 (''<'' @ ?type @ ''>'') @ (opts_text 3 (?os @ ?fos) @ concat (map meta_enum ?bs)) @ ind 0 (''</'' @ ?type @ ''>'')"
    by (simp add: meta_point_def Let_def opts_text_def split: option.splits)
  ultimately show ?thesis by (simp only:)
qed

lemma port_text_ok: "value_ok (port_text services name)"
  unfolding port_text_def by (rule value_ok_nat) (use pos_mod_bound [of "2 ^ 32 :: int"] in \<open>simp add: nat_less_iff\<close>)

lemma meta_event_layout:
  assumes "tevent_ok e"
  shows "layout (item_lines (meta_event_item services e)) (meta_event services e)"
proof -
  let ?os = "[(''PORT_NAME'', ei_port_name e), (''PORT'', port_text services (ei_port_name e)), (''ID'', show_nat (unat (ei_id e))), (''NAME'', ei_name e), (''DESCRIPTION'', ei_desc e)]"
  have "value_ok (show_nat (unat (ei_id e)))" using unsigned_less [of "ei_id e", where 'a = nat] by (intro value_ok_nat) simp
  then have "layout (item_lines (Sec ''EVENT'' [] (opts_items ?os))) (ind 0 (''<'' @ ''EVENT'' @ ''>'') @ opts_text 3 ?os @ ind 0 (''</'' @ ''EVENT'' @ ''>''))"
    using assms port_text_ok by (intro layout_section layout_opts) (simp_all add: tevent_ok_def)
  then show ?thesis by (simp add: meta_event_item_def meta_event_def opts_items_def opts_text_def)
qed

lemma meta_layout:
  assumes "list_all point_ok points" "list_all tevent_ok evs"
  shows "layout (concat (map item_lines (meta_items services points evs))) (TELM_print_sensor_metadata services points evs)"
proof -
  have "layout (concat (map item_lines (map meta_point_item points))) (concat (map meta_point points))"
    using meta_point_layout assms(1) by (intro layout_map) (simp add: list_all_iff)
  moreover have "layout (concat (map item_lines (map (meta_event_item services) evs))) (concat (map (meta_event services) evs))"
    using meta_event_layout assms(2) by (intro layout_map) (simp add: list_all_iff)
  ultimately show ?thesis using layout_append by (fastforce simp: meta_items_def TELM_print_sensor_metadata_def)
qed

lemma item_ok_opt: "key_ok k \<Longrightarrow> item_ok (Opt k v)"
  by (cases k) (auto simp: key_ok_def)

lemma item_ok_sec: "name_ok n \<Longrightarrow> list_all item_ok its \<Longrightarrow> item_ok (Sec n [] its)"
  by (simp add: name_ok_def)

lemma items_ok: "list_all item_ok (dl_items o1 points)" "list_all item_ok (meta_items services points evs)"
proof -
  have "item_ok (dl_point_item o1 p)" for p
    by (auto simp: dl_point_item_def simp del: item_ok.simps intro!: item_ok_sec item_ok_opt)
  then show "list_all item_ok (dl_items o1 points)"
    by (auto simp: dl_items_def list_all_iff simp del: item_ok.simps intro!: item_ok_sec item_ok_opt)
  have "item_ok (meta_enum_item b)" for b
    by (auto simp: meta_enum_item_def simp del: item_ok.simps intro!: item_ok_sec item_ok_opt split: option.splits)
  then have "item_ok (meta_point_item p)" for p
    by (auto simp: meta_point_item_def list_all_iff simp del: item_ok.simps intro!: item_ok_sec item_ok_opt split: option.splits)
  moreover have "item_ok (meta_event_item services e)" for e
    by (auto simp: meta_event_item_def simp del: item_ok.simps intro!: item_ok_sec item_ok_opt)
  ultimately show "list_all item_ok (meta_items services points evs)" by (auto simp: meta_items_def list_all_iff)
qed

section \<open>The exports are read back\<close>

text \<open>What parsing a file with these items does.\<close>

definition interp_file :: "'h CFG_ParseObj \<Rightarrow> 'h CFG_parseCB \<Rightarrow> item list \<Rightarrow> 'h \<Rightarrow> (ptr \<times> CFG_buffered_obj list \<times> 'h) option" where
  "interp_file robj cb its h =
     (let r0 = cb [] (VStr []) NULL h;
          r1 = fold (interp (po_keys robj)) its r0;
          r2 = run_cb (po_finiCb robj) [] (VStr []) (fst r1) (snd r1)
      in Some (fst r2, [], snd r2))"

definition dl_defaults :: "string \<Rightarrow> string \<Rightarrow> dl_opts" where
  "dl_defaults name path = \<lparr>dl_header = False, dl_mode = 0, dl_start_time = 5, dl_period = 300, dl_name = name, dl_path = path, dl_exclude = []\<rparr>"

text \<open>
  C38: the configuration that is printed for the data logger, and the metadata of the sensors and events, are read back by the parser of configuration
  files: whatever callbacks the reader has, they are called for one section per telemetry point in order, a section that says so for each
  excluded point, with the options of the point as they are in the table.
\<close>

theorem telemetry_exports_parsed:
  assumes "list_all point_ok points" "list_all tevent_ok evs" "getopt (takes ''snxmtp'' ''H'') [] args = Some (os, [])" "o1 = fold dl_option os (dl_defaults name path)"
    "dl_header o1" "dl_mode o1 \<noteq> 1" "dl_mode o1 \<noteq> 2" "value_ok (dl_name o1)" "value_ok (dl_path o1)" "po_initCb robj = Some cb" "direct (po_keys robj)"
    "sum_list (map item_size (dl_items o1 points)) < fuel" "sum_list (map item_size (meta_items services points evs)) < fuel"
  shows "CFG_parseFileAtPath fuel (Some robj) (Some (TELM_print_datalogger_info points name path argv0 args)) h = interp_file robj cb (dl_items o1 points) h \<and>
    CFG_parseFileAtPath fuel (Some robj) (Some (TELM_print_sensor_metadata services points evs)) h = interp_file robj cb (meta_items services points evs) h"
proof
  have "value_ok (show_int (dl_start_time o1)) \<and> length (show_int (dl_start_time o1)) < 100" "value_ok (show_int (dl_period o1))"
    using dl_range [of "dl_defaults name path" os] value_ok_int32 by (auto simp: assms(4) dl_defaults_def)
  then have "layout (concat (map item_lines (dl_items o1 points))) (dl_head o1 @ concat (map (dl_point o1) points) @ ind 0 ''</SUBPROCESS>'')"
    using dl_layout [OF assms(1,8,9,6)] by simp
  moreover have "TELM_print_datalogger_info points name path argv0 args = dl_head o1 @ concat (map (dl_point o1) points) @ ind 0 ''</SUBPROCESS>''"
    unfolding TELM_print_datalogger_info_def assms(3) using assms(4-7) by (simp add: dl_defaults_def Let_def)
  ultimately show "CFG_parseFileAtPath fuel (Some robj) (Some (TELM_print_datalogger_info points name path argv0 args)) h = interp_file robj cb (dl_items o1 points) h"
    using parse_items [OF assms(10,11) items_ok(1) _ assms(12)] by (simp add: interp_file_def)
  show "CFG_parseFileAtPath fuel (Some robj) (Some (TELM_print_sensor_metadata services points evs)) h = interp_file robj cb (meta_items services points evs) h"
    using parse_items [OF assms(10,11) items_ok(2) meta_layout [OF assms(1,2)] assms(13)] by (simp add: interp_file_def)
qed

definition sample_point :: TELMTelemetryInfo where
  "sample_point = \<lparr>ti_id = ''t1'', ti_location = ''bus'', ti_group = ''eps'', ti_units = ''V'', ti_divisor = Fin (5 / 2), ti_offset = NegZero, ti_name = ''v'', ti_desc = ''d'',
     ti_bitfields = Some [\<lparr>bi_value = 1, bi_set_label = ''on'', bi_clear_label = None\<rparr>], ti_computed_by = None\<rparr>"

definition sensor_cb :: "(string \<times> string \<times> cfg_value) list CFG_ParseObj" where
  "sensor_cb = CFG_ParseObj [] (Some (log_cb ''init'' 7)) None [CFG_ParseValue ''KEY'' None (Some (log_cb ''opt'' 7)), CFG_ParseValue ''DIVISOR'' None (Some (log_cb ''opt'' 7))]"

definition sensor_root :: "(string \<times> string \<times> cfg_value) list CFG_ParseObj" where
  "sensor_root = CFG_ParseObj [] (Some (log_cb ''root'' 5)) None [CFG_ParseValue ''SENSOR'' (Some (CFG_static_obj sensor_cb)) (Some (log_cb ''obj'' 5))]"

lemma sensor_direct: "direct (po_keys sensor_root)"
proof -
  have "direct (po_keys sensor_cb)" by (rule directI) (auto simp: sensor_cb_def)
  then show ?thesis by (intro directI [of "po_keys sensor_root"]) (auto simp: sensor_root_def CFG_static_obj_def)
qed

lemma sample_point_ok: "point_ok sample_point"
proof -
  have "(5 / 2 :: rat) < 2 ^ 2" by simp
  also have "(2 :: rat) ^ 2 \<le> 2 ^ 1024" by (rule power_increasing) simp_all
  finally have "double_ok (Fin (5 / 2))" unfolding double_ok_def c_double.case by simp
  then show ?thesis by (simp add: point_ok_def sample_point_def value_ok_def double_ok_def [of NegZero] NL_def CR_def)
qed

lemma sample_interp:
  "interp_file sensor_root (log_cb ''root'' 5) (meta_items services [sample_point] []) [] =
   Some (5, [], [(''root'', [], VStr []), (''init'', ''SENSOR'', VStr []), (''opt'', ''KEY'', VStr ''t1''), (''opt'', ''DIVISOR'', VStr (show_lf (Fin (5 / 2)))),
     (''obj'', ''SENSOR'', VPtr 7)])"
  by (simp add: interp_file_def log_cb_def sensor_root_def sensor_cb_def meta_items_def meta_point_item_def meta_enum_item_def sample_point_def find_key_def find_object_def
      strcaseeq_def tolower_def char_of_def bit_0 CFG_static_obj_def run_cb_def Let_def type_keys_def init_of_def fini_of_def child_keys_def)

theorem telemetry_exports_parsed_witness:
  "CFG_parseFileAtPath 50 (Some sensor_root) (Some (TELM_print_sensor_metadata (\<lambda>_. None) [sample_point] [])) [] =
     Some (5, [], [(''root'', [], VStr []), (''init'', ''SENSOR'', VStr []), (''opt'', ''KEY'', VStr ''t1''), (''opt'', ''DIVISOR'', VStr (show_lf (Fin (5 / 2)))),
       (''obj'', ''SENSOR'', VPtr 7)]) \<and>
   CFG_parseFileAtPath 50 (Some sensor_root) (Some (TELM_print_datalogger_info [sample_point] ''dl'' ''./p'' ''prog'' [''-H'', ''-p'', ''60''])) [] =
     interp_file sensor_root (log_cb ''root'' 5)
       (dl_items \<lparr>dl_header = True, dl_mode = 0, dl_start_time = 5, dl_period = 60, dl_name = ''dl'', dl_path = ''./p'', dl_exclude = []\<rparr> [sample_point]) []"
proof -
  let ?os = "[(CHR ''H'', []), (CHR ''p'', ''60'')]"
  let ?o = "\<lparr>dl_header = True, dl_mode = 0, dl_start_time = 5, dl_period = 60, dl_name = ''dl'', dl_path = ''./p'', dl_exclude = []\<rparr>"
  have "int32_of (atol ''60'') = 60" by code_simp
  then have o: "?o = fold dl_option ?os (dl_defaults ''dl'' ''./p'')" by (simp add: dl_option_def dl_defaults_def)
  have g: "getopt (takes ''snxmtp'' ''H'') [] [''-H'', ''-p'', ''60''] = Some (?os, [])" by (simp add: takes_def)
  have i: "po_initCb sensor_root = Some (log_cb ''root'' 5)" by (simp add: sensor_root_def)
  have s: "sum_list (map item_size (dl_items ?o [sample_point])) < 50" "sum_list (map item_size (meta_items (\<lambda>_. None) [sample_point] [])) < 50"
    by (simp_all add: dl_items_def dl_point_item_def excluded_def meta_items_def meta_point_item_def meta_enum_item_def sample_point_def)
  have v: "value_ok (dl_name ?o)" "value_ok (dl_path ?o)" "dl_header ?o" "dl_mode ?o \<noteq> 1" "dl_mode ?o \<noteq> 2" by (simp_all add: value_ok_def NL_def CR_def)
  have p: "list_all point_ok [sample_point]" "list_all tevent_ok []" using sample_point_ok by simp_all
  show ?thesis
    using telemetry_exports_parsed [OF p g o v(3-5,1,2) i sensor_direct s, of "''prog''" "[]"] unfolding sample_interp by blast
qed

section \<open>The dictionary is JSON\<close>

definition finite_double :: "c_double \<Rightarrow> bool" where
  "finite_double d = (case d of Fin _ \<Rightarrow> True | _ \<Rightarrow> False)"

definition point_json_ok :: "TELMTelemetryInfo \<Rightarrow> bool" where
  "point_json_ok p =
     (list_all json_plain [ti_id p, ti_location p, ti_group p, ti_units p, ti_name p, ti_desc p] \<and> finite_double (ti_divisor p) \<and> finite_double (ti_offset p) \<and>
      (case ti_computed_by p of None \<Rightarrow> True | Some f \<Rightarrow> json_plain f) \<and>
      (case ti_bitfields p of None \<Rightarrow> True
       | Some bs \<Rightarrow> list_all (\<lambda>b. json_plain (bi_set_label b) \<and> (case bi_clear_label b of None \<Rightarrow> True | Some l \<Rightarrow> json_plain l)) bs))"

lemma json_Fin: "json (show_lf (Fin q))"
  using json_number_parts(2) [OF _ digits_pad, of "if q < 0 then ''-'' else []" "round_even (\<bar>q\<bar> * 1000000) div 1000000" 6 "round_even (\<bar>q\<bar> * 1000000) mod 1000000"]
  by (auto simp: show_lf_def Let_def intro: json_num split: if_splits)

lemma json_lf: "finite_double d \<Longrightarrow> json (show_lf d)"
  by (cases d) (simp_all add: finite_double_def json_Fin)

lemma jstr_quoted: "jstr s = quoted s"
  by (simp add: jstr_def quoted_def)

lemma json_blanks [simp]: "json_ws (replicate n (CHR '' ''))"
  by (simp add: json_ws_def list_all_iff)

lemma jkv_run [json_intros]: "json_plain k \<Longrightarrow> json v \<Longrightarrow> json_run (jkv n k v)"
  using json_run_member [OF json_member [of "replicate n (CHR '' '')" k "[]" "'' ''" v "[]"], of "[EOL]"] by (simp add: jkv_def quoted_def)

lemma jlast_members: "json_plain k \<Longrightarrow> json v \<Longrightarrow> json_ws w \<Longrightarrow> json_members (jlast n k v @ w)"
  using json_member [of "replicate n (CHR '' '')" k "[]" "'' ''" v "[EOL] @ w"] by (simp add: jlast_def quoted_def)

lemma object_json: "json_run r \<Longrightarrow> json_plain k \<Longrightarrow> json v \<Longrightarrow> json_ws w \<Longrightarrow> json (''{'' @ ([EOL] @ r @ jlast n k v @ w) @ ''}'')"
  using json_object [OF json_ws_members [OF json_runD [OF _ jlast_members]], of r k v w "[EOL]" n] by simp

lemma enum_elements:
  assumes "json_plain (bi_set_label b)" "case bi_clear_label b of None \<Rightarrow> True | Some l \<Rightarrow> json_plain l"
  shows "json_elements (json_enum True b)" "json_enum False b = '','' @ [EOL] @ json_enum True b"
proof -
  let ?r = "jkv 9 ''value'' (show_nat (unat (bi_value b))) @ (case bi_clear_label b of None \<Rightarrow> [] | Some l \<Rightarrow> jkv 9 ''unset'' (jstr l))"
  have "json_run (case bi_clear_label b of None \<Rightarrow> [] | Some l \<Rightarrow> jkv 9 ''unset'' (jstr l))"
    using assms(2) by (auto simp: jstr_quoted QUOTE_def split: option.splits intro!: jkv_run json_quoted)
  then have "json_run ?r" by (intro json_run_append jkv_run json_show_nat) (simp_all add: QUOTE_def)
  from object_json [OF this _ json_quoted [OF assms(1)], of "''label''" "''   ''" 9]
  show "json_elements (json_enum True b)" using json_element [of "''      ''" _ "[]"] by (fastforce simp: json_enum_def ind_def jstr_quoted QUOTE_def numeral_eq_Suc)
  show "json_enum False b = '','' @ [EOL] @ json_enum True b" by (simp add: json_enum_def)
qed

lemma each_first_later:
  assumes "\<And>x. x \<in> set xs \<Longrightarrow> json_elements (f True x) \<and> f False x = '','' @ [EOL] @ f True x" "json_elements es"
  shows "json_elements (es @ each_first f False xs)"
  using assms
proof (induction xs arbitrary: es)
  case (Cons x xs)
  have "json_elements (es @ f False x)" using json_more_elements [OF Cons.prems(2) json_ws_elements [of "f True x" "[EOL]"]] Cons.prems(1) [of x] by simp
  from Cons.IH [OF _ this] Cons.prems(1) show ?case by simp
qed simp

lemma enums_run:
  assumes "list_all (\<lambda>b. json_plain (bi_set_label b) \<and> (case bi_clear_label b of None \<Rightarrow> True | Some l \<Rightarrow> json_plain l)) bs"
  shows "json_run (''   '' @ jstr ''enums'' @ '': ['' @ [EOL] @ each_first json_enum True bs @ ''   ],'' @ [EOL])"
proof -
  have e: "json_elements (json_enum True b) \<and> json_enum False b = '','' @ [EOL] @ json_enum True b" if "b \<in> set bs" for b
    using enum_elements [of b] that assms by (simp add: list_all_iff)
  have "json (''['' @ ([EOL] @ each_first json_enum True bs @ ''   '') @ '']'')"
  proof (cases bs)
    case Nil
    then show ?thesis using json_no_element [of "[EOL] @ ''   ''"] by simp
  next
    case (Cons b bs')
    then have "json_elements (json_enum True b @ each_first json_enum False bs')" using each_first_later [of bs' json_enum] e by simp
    from json_array [OF json_ws_elements [OF json_elements_ws [OF this], of "''   ''" "[EOL]"]] show ?thesis using Cons by simp
  qed
  from json_run_member [OF json_member [OF _ _ _ _ this, of "''   ''" "''enums''" "[]" "'' ''" "[]"], of "[EOL]"]
  show ?thesis by (simp add: jstr_quoted QUOTE_def)
qed

lemma point_json:
  assumes "point_json_ok p" "json_plain type"
  shows "json (json_point type True p)" "json_point type False p = '','' @ [EOL] @ json_point type True p"
proof -
  show "json_point type False p = '','' @ [EOL] @ json_point type True p" by (simp add: json_point_def)
  let ?f = "case ti_computed_by p of None \<Rightarrow> [] | Some f \<Rightarrow> jkv 3 ''function'' (jstr f)"
  let ?e = "case ti_bitfields p of None \<Rightarrow> [] | Some bs \<Rightarrow> ''   '' @ jstr ''enums'' @ '': ['' @ [EOL] @ each_first json_enum True bs @ ''   ],'' @ [EOL]"
  let ?r = "jkv 3 ''type'' (jstr type) @ jkv 3 ''key'' (jstr (ti_id p)) @ jkv 3 ''location'' (jstr (ti_location p)) @ jkv 3 ''subsystem'' (jstr (ti_group p)) @
    jkv 3 ''units'' (jstr (ti_units p)) @ jkv 3 ''divisor'' (show_lf (ti_divisor p)) @ jkv 3 ''offset'' (show_lf (ti_offset p)) @ jkv 3 ''name'' (jstr (ti_name p)) @ ?f @ ?e"
  have f: "json_run ?f" using assms(1) by (auto simp: point_json_ok_def jstr_quoted QUOTE_def split: option.splits intro!: jkv_run json_quoted)
  have e: "json_run ?e" using assms(1) enums_run by (auto simp: point_json_ok_def split: option.splits)
  have j: "json (jstr type)" "json (jstr (ti_id p))" "json (jstr (ti_location p))" "json (jstr (ti_group p))" "json (jstr (ti_units p))" "json (jstr (ti_name p))" "json (jstr (ti_desc p))"
    "json (show_lf (ti_divisor p))" "json (show_lf (ti_offset p))"
    using assms json_lf by (auto simp: point_json_ok_def jstr_quoted intro: json_quoted)
  have "json_run ?r" using f e j by (intro json_run_append jkv_run) (simp_all add: QUOTE_def)
  from object_json [OF this _ j(7), of "''description''" "[]" 3] show "json (json_point type True p)"
    by (simp add: json_point_def ind_def QUOTE_def)
qed

definition joined :: "string list \<Rightarrow> string" where
  "joined objs = each_first (\<lambda>first x. (if first then [] else '','' @ [EOL]) @ x) True objs"

lemma each_first_joined: "(\<And>x. x \<in> set xs \<Longrightarrow> f False x = '','' @ [EOL] @ f True x) \<Longrightarrow> each_first f True xs = joined (map (f True) xs)"
proof -
  assume f: "\<And>x. x \<in> set xs \<Longrightarrow> f False x = '','' @ [EOL] @ f True x"
  have "each_first f False ys = each_first (\<lambda>first x. (if first then [] else '','' @ [EOL]) @ x) False (map (f True) ys)" if "set ys \<subseteq> set xs" for ys
    using that f by (induction ys) auto
  from this [of "tl xs"] show ?thesis by (cases xs) (auto simp: joined_def)
qed



section \<open>Exports that cannot be read\<close>

text \<open>The entry of an event has an equals sign in front of its number: no reader of JSON takes it.\<close>

lemma event_not_json:
  assumes "json_plain (ei_port_name e)" "json_plain (ei_name e)" "json_plain (ei_desc e)"
  shows "\<not> json (json_event services True e)" "\<not> json_elements (json_event services True e)"
proof -
  let ?a = "ind 0 ''{'' @ ''   '' @ jstr ''port_name'' @ '' : '' @ jstr (ei_port_name e) @ '','' @ [EOL] @
     ''   '' @ jstr ''port'' @ '' : '' @ port_text services (ei_port_name e) @ '','' @ [EOL] @ ''   '' @ jstr ''id'' @ '' : ''"
  have "closed_text (port_text services (ei_port_name e))" using json_closed(1) [OF json_show_nat] by (simp add: port_text_def)
  moreover have "closed_text (ind 0 ''{'')" "closed_text ''   ''" "closed_text '' : ''" "closed_text [EOL]"
    by (simp_all add: closed_text_def structural_def ind_def QUOTE_def EOL_def json_ws_def)
  moreover have "json_plain ''port_name''" "json_plain ''port''" "json_plain ''id''" by (simp_all add: QUOTE_def)
  ultimately have "closed_text ?a" using assms(1) unfolding jstr_quoted by (intro closed_append closed_quoted closed_tokens)
  then have "\<not> in_string False ?a" unfolding closed_text_def by blast
  moreover have "json_event services True e = ?a @ ''='' @ show_nat (unat (ei_id e)) @ '','' @ [EOL] @
     ''   '' @ jstr ''name'' @ '' : '' @ jstr (ei_name e) @ '','' @ [EOL] @ ''   '' @ jstr ''description'' @ '' : '' @ jstr (ei_desc e) @ [EOL] @ ''}''"
    by (simp add: json_event_def)
  ultimately have "CHR ''='' \<in> set (outside False (json_event services True e))"
    by (simp only: outside_append) (simp add: QUOTE_def)
  moreover have "\<not> structural (CHR ''='')" by (simp add: structural_def is_digit_def digit_value_def json_ws_def EOL_def)
  ultimately have "\<not> closed_text (json_event services True e)" by (auto simp: closed_text_def list_all_iff)
  then show "\<not> json (json_event services True e)" "\<not> json_elements (json_event services True e)" using json_closed(1,3) by blast+
qed

text \<open>An event with the number 0 ends the table of the dictionary.\<close>

lemma event_zero_ends:
  "getopt (takes ''xm'' []) [] args = Some (os, []) \<Longrightarrow> fold json_option os ([], 0) = (names, 2) \<Longrightarrow> ei_id e = 0 \<Longrightarrow>
   TELM_print_json_telem_dict services points (e # evs) argv0 args = []"
  by (simp add: TELM_print_json_telem_dict_def selected_def)

end
