(* ===== verification/Exec_Child.thy ===== *)
theory Exec_Child
  imports Child Cmd_Line
begin

text \<open>
  What a forked child does before it becomes another program (the child's side of \<open>PROC_fork_child_fd\<close> in \<open>proclib.c\<close>): the pipes become its standard
  streams, limits are set, and the words of the command line are executed.

  \<^item> A table of descriptors maps numbers to what they are open on. A descriptor that is negative is not given.
  \<^item> A limit is \<open>None\<close> when there is none to set, and otherwise whether setting it succeeds.
\<close>

type_synonym 'r fds = "int \<Rightarrow> 'r option"

datatype 'r child_end = Exit int | Exec "string option list" "'r fds"

section \<open>System calls\<close>

definition sys_close :: "int \<Rightarrow> 'r fds \<Rightarrow> bool \<times> 'r fds" where
  "sys_close fd t = (t fd \<noteq> None, t(fd := None))"

definition sys_dup2 :: "int \<Rightarrow> int \<Rightarrow> 'r fds \<Rightarrow> bool \<times> 'r fds" where
  "sys_dup2 oldfd newfd t = (if t oldfd = None then (False, t) else (True, t(newfd := t oldfd)))"

definition close_end :: "int \<Rightarrow> 'r fds \<Rightarrow> 'r fds" where
  "close_end fd t = (if fd > - 1 then snd (sys_close fd t) else t)"

section \<open>The child\<close>

text \<open>The calls that must succeed, each with the status with which the child exits when it fails.\<close>

fun must :: "(int \<times> ('r fds \<Rightarrow> bool \<times> 'r fds)) list \<Rightarrow> 'r fds \<Rightarrow> int + 'r fds" where
  "must [] t = Inr t"
| "must ((status, f) # fs) t = (let (ok, t1) = f t in if ok then must fs t1 else Inl status)"

definition move_end :: "int \<Rightarrow> int \<Rightarrow> 'r fds \<Rightarrow> bool \<times> 'r fds" where
  "move_end fd target t = (if fd > - 1 then sys_dup2 fd target t else (True, t))"

definition limit_ok :: "bool option \<Rightarrow> 'r fds \<Rightarrow> bool \<times> 'r fds" where
  "limit_ok limit t = (limit \<noteq> Some False, t)"

record ends =
  in_read :: int
  in_write :: int
  out_read :: int
  out_write :: int
  err_read :: int
  err_write :: int

definition end_list :: "ends \<Rightarrow> int list" where
  "end_list e = [in_read e, in_write e, out_read e, out_write e, err_read e, err_write e]"

definition close_ends :: "ends \<Rightarrow> 'r fds \<Rightarrow> bool \<times> 'r fds" where
  "close_ends e t = (True, fold close_end (end_list e) t)"

definition exec_child :: "bool option \<Rightarrow> bool option \<Rightarrow> bool \<Rightarrow> bool \<Rightarrow> ends \<Rightarrow> string option list \<Rightarrow> 'r fds \<Rightarrow> 'r child_end" where
  "exec_child mem_limit cpu_limit prio_ok exec_ok e argv t =
     (case must [(1, sys_close 0), (2, sys_close 1), (3, sys_close 2), (4, move_end (in_read e) 0), (5, move_end (out_write e) 1), (6, move_end (err_write e) 2),
                 (0, close_ends e), (7, limit_ok mem_limit), (8, limit_ok cpu_limit), (9, limit_ok (Some prio_ok))] t of
        Inl status \<Rightarrow> Exit status
      | Inr t1 \<Rightarrow> if exec_ok then Exec argv t1 else Exit 1)"

text \<open>The child of a command line; \<open>None\<close> when the parent gives up before it forks.\<close>

definition fork_command :: "bool option \<Rightarrow> bool option \<Rightarrow> bool \<Rightarrow> bool \<Rightarrow> ends \<Rightarrow> string \<Rightarrow> 'r fds \<Rightarrow> 'r child_end option" where
  "fork_command mem_limit cpu_limit prio_ok exec_ok e cmd t =
     (case parse_cmd True cmd of
        Some (Some (s, i # argv)) \<Rightarrow> Some (exec_child mem_limit cpu_limit prio_ok exec_ok e (map (arg_at s) (i # argv)) t)
      | _ \<Rightarrow> None)"

section \<open>The streams of the child\<close>

text \<open>The descriptors are open, are six different ones, and are not the standard streams.\<close>

definition ends_ok :: "ends \<Rightarrow> 'r fds \<Rightarrow> bool" where
  "ends_ok e t = (distinct (end_list e) \<and> list_all (\<lambda>fd. 2 < fd \<and> t fd \<noteq> None) (end_list e) \<and> t 0 \<noteq> None \<and> t 1 \<noteq> None \<and> t 2 \<noteq> None)"

definition child_table :: "ends \<Rightarrow> 'r fds \<Rightarrow> 'r fds" where
  "child_table e t =
     (\<lambda>fd. if fd = 0 then t (in_read e) else if fd = 1 then t (out_write e) else if fd = 2 then t (err_write e)
           else if fd \<in> set (end_list e) then None else t fd)"

lemma must_append: "must (a @ b) t = (case must a t of Inl status \<Rightarrow> Inl status | Inr t1 \<Rightarrow> must b t1)"
  by (induction a t rule: must.induct) (auto simp: Let_def split: prod.splits)

lemma must_close: "t fd \<noteq> None \<Longrightarrow> must ((status, sys_close fd) # fs) t = must fs (t(fd := None))"
  by (simp add: sys_close_def)

lemma must_move: "- 1 < fd \<Longrightarrow> t fd = Some r \<Longrightarrow> must ((status, move_end fd target) # fs) t = must fs (t(target \<mapsto> r))"
  by (simp add: move_end_def sys_dup2_def)

lemma exec_child_streams:
  assumes "ends_ok e t" "mem_limit \<noteq> Some False" "cpu_limit \<noteq> Some False"
  shows "exec_child mem_limit cpu_limit True True e argv t = Exec argv (child_table e t)"
proof -
  obtain ir iw our ow er ew where e: "e = \<lparr>in_read = ir, in_write = iw, out_read = our, out_write = ow, err_read = er, err_write = ew\<rparr>" by (cases e)
  have o: "2 < ir" "2 < iw" "2 < our" "2 < ow" "2 < er" "2 < ew" "t ir \<noteq> None" "t ow \<noteq> None" "t ew \<noteq> None" "distinct [ir, iw, our, ow, er, ew]"
    "t 0 \<noteq> None" "t 1 \<noteq> None" "t 2 \<noteq> None"
    using assms(1) by (simp_all add: ends_ok_def end_list_def e)
  let ?t = "t(0 := t ir, 1 := t ow, 2 := t ew)"
  let ?first = "[(1, sys_close 0), (2, sys_close 1), (3, sys_close 2), (4, move_end ir 0), (5, move_end ow 1), (6, move_end ew 2)]"
  have n: "ir \<noteq> 0" "ir \<noteq> 1" "ir \<noteq> 2" "ow \<noteq> 0" "ow \<noteq> 1" "ow \<noteq> 2" "ew \<noteq> 0" "ew \<noteq> 1" "ew \<noteq> 2" "- 1 < ir" "- 1 < ow" "- 1 < ew" using o(1-6) by simp_all
  obtain ri rw re where r: "t ir = Some ri" "t ow = Some rw" "t ew = Some re" using o(7-9) by blast
  have "must ?first t = must (drop 3 ?first) (t(0 := None, 1 := None, 2 := None))" using o(11-13) by (simp add: must_close del: must.simps)
  also have "\<dots> = Inr (t(0 := None, 1 := None, 2 := None, 0 := t ir, 1 := t ow, 2 := t ew))"
    using n r must_move [of ir "t(0 := None, 1 := None, 2 := None)"] must_move [of ow "t(0 := None, 1 := None, 2 := None, 0 \<mapsto> ri)"]
      must_move [of ew "t(0 := None, 1 := None, 2 := None, 0 \<mapsto> ri, 1 \<mapsto> rw)"] by (simp del: must.simps(2) fun_upd_upd)
  also have "t(0 := None, 1 := None, 2 := None, 0 := t ir, 1 := t ow, 2 := t ew) = ?t" by (rule ext) simp
  finally have m: "must ?first t = Inr ?t" .
  have "fold close_end xs u = (\<lambda>fd. if fd \<in> set xs then None else u fd)" if "list_all ((<) 2) xs" for xs and u :: "'a fds"
    using that by (induction xs arbitrary: u) (auto simp: close_end_def sys_close_def fun_eq_iff)
  moreover have s: "list_all ((<) 2) (end_list e)" using o(1-6) by (simp add: end_list_def e)
  ultimately have "close_ends e ?t = (True, \<lambda>fd. if fd \<in> set (end_list e) then None else ?t fd)" by (simp only: close_ends_def)
  also have "(\<lambda>fd. if fd \<in> set (end_list e) then None else ?t fd) = child_table e t"
    using s by (auto simp: child_table_def list_all_iff e fun_eq_iff)
  finally have c: "close_ends e ?t = (True, child_table e t)" .
  have "must (?first @ [(0, close_ends e), (7, limit_ok mem_limit), (8, limit_ok cpu_limit), (9, limit_ok (Some True))]) t = Inr (child_table e t)"
    unfolding must_append m using assms(2,3) c by (simp add: limit_ok_def)
  then show ?thesis by (simp add: exec_child_def e)
qed

text \<open>
  C40: a command line started as a child is executed with exactly its words as arguments; its standard streams are the ends of the three pipes that
  the parent does not keep, none of the six pipe descriptors stays open in it besides, and every other descriptor is as in the parent.
\<close>

theorem child_executes_command:
  assumes "cmdline args cmd" "args \<noteq> []" "ends_ok e t" "mem_limit \<noteq> Some False" "cpu_limit \<noteq> Some False"
  shows "fork_command mem_limit cpu_limit True True e cmd t = Some (Exec (map Some args) (child_table e t))"
proof -
  obtain s argv where p: "parse_cmd True cmd = Some (Some (s, argv))" "map (arg_at s) argv = map Some args" using parse_cmdline [OF assms(1)] by blast
  then obtain i argv' where "argv = i # argv'" using assms(2) by (cases argv) auto
  then show ?thesis using p exec_child_streams [OF assms(3-5)] by (simp add: fork_command_def)
qed

definition sample_ends :: ends where
  "sample_ends = \<lparr>in_read = 3, in_write = 4, out_read = 5, out_write = 6, err_read = 7, err_write = 8\<rparr>"

definition sample_fds :: "string fds" where
  "sample_fds fd = (if 0 \<le> fd \<and> fd \<le> 9 then Some (''fd'' @ show_int fd) else None)"

theorem child_executes_command_witness:
  "\<exists>t'. fork_command None (Some True) True True sample_ends (''ls -l'' @ [NUL]) sample_fds = Some (Exec [Some ''ls'', Some ''-l''] t') \<and>
     t' 0 = Some ''fd3'' \<and> t' 1 = Some ''fd6'' \<and> t' 2 = Some ''fd8'' \<and> t' 4 = None \<and> t' 9 = Some ''fd9''"
proof -
  have "token ''ls'' ''ls''" "token ''-l'' ''-l''" by (simp_all add: token_def isspace_def NUL_def SQ_def DQ_def)
  moreover have "isspace (CHR '' '')" by (simp add: isspace_def)
  ultimately have "cmdline [''ls'', ''-l''] ([] @ ''ls'' @ CHR '' '' # [] @ ''-l'' @ [NUL])" by (intro cmdline_more cmdline_last) simp_all
  then have c: "cmdline [''ls'', ''-l''] (''ls -l'' @ [NUL])" by simp
  have e: "ends_ok sample_ends sample_fds" by (simp add: ends_ok_def end_list_def sample_ends_def sample_fds_def)
  have d: "show_int 3 = ''3''" "show_int 6 = ''6''" "show_int 8 = ''8''" "show_int 9 = ''9''" by code_simp+
  show ?thesis
    using child_executes_command [OF c _ e, of None "Some True"] d by (simp add: child_table_def sample_ends_def sample_fds_def end_list_def)
qed

section \<open>Children that go wrong\<close>

text \<open>A process that runs without one of its standard streams cannot start a child.\<close>

lemma closed_stream_stops_child: "t 0 = None \<Longrightarrow> exec_child mem_limit cpu_limit prio_ok exec_ok e argv t = Exit 1"
  by (simp add: exec_child_def sys_close_def)

text \<open>A descriptor that is not given leaves the child without that stream.\<close>

lemma missing_end_closes_stream:
  assumes "ends_ok e t"
  shows "\<exists>t'. exec_child None None True True (e\<lparr>in_read := - 1\<rparr>) argv t = Exec argv t' \<and> t' 0 = None"
  using assms by (auto simp: exec_child_def sys_close_def move_end_def sys_dup2_def close_ends_def close_end_def limit_ok_def ends_ok_def end_list_def)

text \<open>
  The parent's ends of the pipes of an earlier child stay open in a later one: when the parent closes the standard input of the first, the first sees no
  end of file while the second runs.
\<close>

lemma later_child_keeps_pipe:
  assumes "ends_ok e2 t" "t (in_write e1) = Some r" "2 < in_write e1" "in_write e1 \<notin> set (end_list e2)"
  shows "exec_child None None True True e2 argv t = Exec argv (child_table e2 t) \<and> child_table e2 t (in_write e1) = Some r"
  using exec_child_streams [OF assms(1)] assms(2-4) by (simp add: child_table_def)

end
