(* ===== verification/Packet_Arrays.thy ===== *)
theory Packet_Arrays
  imports Packets_Correct Registry_Correct
begin

text \<open>
  The rest of \<open>docs/cmd-pkt.c\<close>: arrays of the packets, the tables of commands, errors and structures, and the constructor that registers them when the library
  is loaded; and the arrays of unions of \<open>xdr.c\<close>. The array coders inherit their correctness from the codecs of the packets.
\<close>

section \<open>Arrays\<close>

definition IPC_Void_encode_array :: "IPC_Void list cptr \<Rightarrow> u8 list option \<Rightarrow> nat \<Rightarrow> int option \<Rightarrow> enc_res" where
  "IPC_Void_encode_array = encode_array_field IPC_Void_encode"
definition IPC_Void_decode_array :: "(nat \<Rightarrow> bool) \<Rightarrow> u8 list \<Rightarrow> nat \<Rightarrow> int option \<Rightarrow> IPC_Void list option dec_res" where
  "IPC_Void_decode_array alloc = decode_array_field alloc 4 (IPC_Void_decode zero_Void)"

definition IPC_Heartbeat_encode_array :: "IPC_Heartbeat list cptr \<Rightarrow> u8 list option \<Rightarrow> nat \<Rightarrow> int option \<Rightarrow> enc_res" where
  "IPC_Heartbeat_encode_array = encode_array_field IPC_Heartbeat_encode"
definition IPC_Heartbeat_decode_array :: "(nat \<Rightarrow> bool) \<Rightarrow> u8 list \<Rightarrow> nat \<Rightarrow> int option \<Rightarrow> IPC_Heartbeat list option dec_res" where
  "IPC_Heartbeat_decode_array alloc = decode_array_field alloc 24 (IPC_Heartbeat_decode zero_Heartbeat)"

definition IPC_DataReq_encode_array :: "(nat \<Rightarrow> bool) \<Rightarrow> IPC_DataReq list cptr \<Rightarrow> u8 list option \<Rightarrow> nat \<Rightarrow> int option \<Rightarrow> enc_res" where
  "IPC_DataReq_encode_array alloc = encode_array_field (IPC_DataReq_encode alloc)"
definition IPC_DataReq_decode_array :: "(nat \<Rightarrow> bool) \<Rightarrow> u8 list \<Rightarrow> nat \<Rightarrow> int option \<Rightarrow> IPC_DataReq list option dec_res" where
  "IPC_DataReq_decode_array alloc = decode_array_field alloc 16 (IPC_DataReq_decode alloc zero_DataReq)"

definition IPC_OpaqueStructArr_encode_array :: "(nat \<Rightarrow> bool) \<Rightarrow> IPC_OpaqueStructArr list cptr \<Rightarrow> u8 list option \<Rightarrow> nat \<Rightarrow> int option \<Rightarrow> enc_res" where
  "IPC_OpaqueStructArr_encode_array alloc = encode_array_field (IPC_OpaqueStructArr_encode alloc)"
definition IPC_OpaqueStructArr_decode_array :: "(nat \<Rightarrow> bool) \<Rightarrow> u8 list \<Rightarrow> nat \<Rightarrow> int option \<Rightarrow> IPC_OpaqueStructArr list option dec_res" where
  "IPC_OpaqueStructArr_decode_array alloc = decode_array_field alloc 16 (IPC_OpaqueStructArr_decode alloc zero_OpaqueStructArr)"

definition IPC_ResponseHeader_encode_array :: "IPC_ResponseHeader list cptr \<Rightarrow> u8 list option \<Rightarrow> nat \<Rightarrow> int option \<Rightarrow> enc_res" where
  "IPC_ResponseHeader_encode_array = encode_array_field IPC_ResponseHeader_encode"
definition IPC_ResponseHeader_decode_array :: "(nat \<Rightarrow> bool) \<Rightarrow> u8 list \<Rightarrow> nat \<Rightarrow> int option \<Rightarrow> IPC_ResponseHeader list option dec_res" where
  "IPC_ResponseHeader_decode_array alloc = decode_array_field alloc 12 (IPC_ResponseHeader_decode zero_ResponseHeader)"

text \<open>A block that \<open>malloc\<close> gave and \<open>memset\<close> cleared: a union of type 0 without data.\<close>

definition zero_Command :: IPC_Command where
  "zero_Command = \<lparr>ic_cmd = 0, ic_ipcref = 0, ic_parameters = \<lparr>un_type = 0, un_data = Null\<rparr>\<rparr>"
definition zero_Response :: IPC_Response where
  "zero_Response = \<lparr>ir_cmd = 0, ir_ipcref = 0, ir_result = 0, ir_data = \<lparr>un_type = 0, un_data = Null\<rparr>\<rparr>"

definition IPC_Command_encode_array :: "(nat \<Rightarrow> bool) \<Rightarrow> IPC_Command list cptr \<Rightarrow> u8 list option \<Rightarrow> nat \<Rightarrow> int option \<Rightarrow> enc_res" where
  "IPC_Command_encode_array alloc = encode_array_field (IPC_Command_encode alloc)"
definition IPC_Command_decode_array :: "(nat \<Rightarrow> bool) \<Rightarrow> u8 list \<Rightarrow> nat \<Rightarrow> int option \<Rightarrow> IPC_Command list option dec_res" where
  "IPC_Command_decode_array alloc = decode_array_field alloc 24 (IPC_Command_decode alloc zero_Command)"

definition IPC_Response_encode_array :: "(nat \<Rightarrow> bool) \<Rightarrow> IPC_Response list cptr \<Rightarrow> u8 list option \<Rightarrow> nat \<Rightarrow> int option \<Rightarrow> enc_res" where
  "IPC_Response_encode_array alloc = encode_array_field (IPC_Response_encode alloc)"
definition IPC_Response_decode_array :: "(nat \<Rightarrow> bool) \<Rightarrow> u8 list \<Rightarrow> nat \<Rightarrow> int option \<Rightarrow> IPC_Response list option dec_res" where
  "IPC_Response_decode_array alloc = decode_array_field alloc 32 (IPC_Response_decode alloc zero_Response)"

definition XDR_encode_union_array :: "(u32 \<Rightarrow> 'v xdr_def option) \<Rightarrow> 'v XDR_Union list cptr \<Rightarrow> u8 list option \<Rightarrow> nat \<Rightarrow> int option \<Rightarrow> enc_res" where
  "XDR_encode_union_array defs = encode_array_field (XDR_encode_union defs)"
definition XDR_decode_union_array :: "(nat \<Rightarrow> bool) \<Rightarrow> (u32 \<Rightarrow> 'v xdr_def option) \<Rightarrow> u8 list \<Rightarrow> nat \<Rightarrow> int option \<Rightarrow> 'v XDR_Union list option dec_res" where
  "XDR_decode_union_array alloc defs = decode_array_field alloc 16 (XDR_decode_union defs)"

section \<open>Arrays: what is encoded is decoded\<close>

text \<open>The wire format of a command, and what holds of the two coders of an array of them.\<close>

definition command_bytes :: "IPC_Command \<Rightarrow> u8 list" where
  "command_bytes s = be32 (ic_cmd s) @ be32 (ic_ipcref s) @ ipc.union_bytes (ic_parameters s)"

definition array_carries ::
  "('a list cptr \<Rightarrow> u8 list option \<Rightarrow> nat \<Rightarrow> int option \<Rightarrow> enc_res) \<Rightarrow> (u8 list \<Rightarrow> nat \<Rightarrow> int option \<Rightarrow> 'a list option dec_res) \<Rightarrow> 'a list \<Rightarrow> nat \<Rightarrow> nat \<Rightarrow> u8 list \<Rightarrow> bool" where
  "array_carries enc dec xs n mx buf \<longleftrightarrow>
     (\<exists>buf'. enc (Ref xs) (Some buf) mx (Some (int (length xs))) = ERet 0 n (Some buf') \<and> length buf' = length buf \<and> drop n buf' = drop n buf \<and>
       dec buf' mx (Some (int (length xs))) = DOk n (Some xs))"

lemma command_array_carries:
  assumes "\<forall>s \<in> set xs. ipc.union_valid (ic_parameters s)" "length (concat (map command_bytes xs)) \<le> mx" "mx \<le> length buf" "mx < 2 ^ 64"
  shows "array_carries (IPC_Command_encode_array (\<lambda>_. True)) (IPC_Command_decode_array (\<lambda>_. True)) xs (length (concat (map command_bytes xs))) mx buf"
  using command.array_roundtrip [of xs mx buf "\<lambda>_. True" 24 zero_Command] assms
  by (simp add: array_carries_def IPC_Command_encode_array_def IPC_Command_decode_array_def IPC_Command_encode_def IPC_Command_decode_def command_bytes_def [abs_def])

lemma heartbeat_array_carries:
  assumes "length (concat (map (\<lambda>s. be64 (hb_commands s) @ be64 (hb_responses s) @ be64 (hb_heartbeats s)) xs)) \<le> mx" "mx \<le> length buf" "mx < 2 ^ 64"
  shows "array_carries IPC_Heartbeat_encode_array (IPC_Heartbeat_decode_array (\<lambda>_. True)) xs
    (length (concat (map (\<lambda>s. be64 (hb_commands s) @ be64 (hb_responses s) @ be64 (hb_heartbeats s)) xs))) mx buf"
  using heartbeat.array_roundtrip [of xs mx buf "\<lambda>_. True" 24] assms
  by (simp add: array_carries_def IPC_Heartbeat_encode_array_def IPC_Heartbeat_decode_array_def IPC_Heartbeat_encode_def IPC_Heartbeat_decode_def)

lemma union_array_carries:
  assumes "\<forall>u \<in> set us. ipc.union_valid u" "length (concat (map ipc.union_bytes us)) \<le> mx" "mx \<le> length buf" "mx < 2 ^ 64"
  shows "array_carries (XDR_encode_union_array (ipc_defs (\<lambda>_. True))) (XDR_decode_union_array (\<lambda>_. True) (ipc_defs (\<lambda>_. True))) us (length (concat (map ipc.union_bytes us))) mx buf"
  using ipc.array_roundtrip [of us mx buf "\<lambda>_. True" 16] assms
  by (simp add: array_carries_def XDR_encode_union_array_def XDR_decode_union_array_def)

section \<open>Tables\<close>

definition IPC_AUTOCMD_3_types :: "u32 list" where
  "IPC_AUTOCMD_3_types = [IPC_TYPES_HEARTBEAT]"

text \<open>\<open>a\<close> is the address of the table; an entry has 56 bytes.\<close>

definition IPC_Commands :: "ptr \<Rightarrow> CMD_XDRCommandInfo list" where
  "IPC_Commands a =
     [\<lparr>ci_addr = a, ci_command = IPC_CMDS_STATUS, ci_params = 0, ci_name = Some ''proc-status'', ci_types = None\<rparr>,
      \<lparr>ci_addr = a + 56, ci_command = IPC_CMDS_DATA_REQ, ci_params = IPC_TYPES_DATAREQ, ci_name = Some ''proc-data-req'', ci_types = None\<rparr>,
      \<lparr>ci_addr = a + 112, ci_command = 0, ci_params = IPC_TYPES_DATAREQ, ci_name = Some ''proc-heartbeat'', ci_types = Some IPC_AUTOCMD_3_types\<rparr>,
      \<lparr>ci_addr = a + 168, ci_command = 0, ci_params = 0, ci_name = None, ci_types = None\<rparr>]"

definition IPC_Errors :: "CMD_ErrorInfo list" where
  "IPC_Errors =
     [\<lparr>ei_id = IPC_RESULTCODE_SUCCESS, ei_name = Some ''SUCCESS'', ei_description = Some ''No error - success''\<rparr>,
      \<lparr>ei_id = IPC_RESULTCODE_INCORRECT_PARAMETER_TYPE, ei_name = Some ''INCORRECT_PARAMETER_TYPE'',
        ei_description = Some (''Type of command parameter didn'' @ [CHR 0x27] @ ''t match the expected type'')\<rparr>,
      \<lparr>ei_id = IPC_RESULTCODE_UNSUPPORTED, ei_name = Some ''UNSUPPORTED'', ei_description = Some ''The target process does not support the command sent''\<rparr>,
      \<lparr>ei_id = IPC_RESULTCODE_ALLOCATION_ERR, ei_name = Some ''ALLOCATION_ERR'', ei_description = Some ''Failed to allocate heap memory''\<rparr>,
      \<lparr>ei_id = 0, ei_name = None, ei_description = None\<rparr>]"

text \<open>
  The structure definitions, 80 bytes each from \<open>a\<close> on; all of them have \<open>XDR_struct_encoder\<close> and \<open>XDR_struct_decoder\<close>, whose addresses are \<open>enc\<close> and \<open>dec\<close>.
\<close>

definition IPC_TYPES_COMMAND :: u32 where "IPC_TYPES_COMMAND = IPC_TYPE_BASE + 3"
definition IPC_TYPES_RESPONSE :: u32 where "IPC_TYPES_RESPONSE = IPC_TYPE_BASE + 4"

definition IPC_Structs :: "ptr \<Rightarrow> nat \<Rightarrow> nat \<Rightarrow> XDR_StructDefinition list" where
  "IPC_Structs a enc dec =
     map (\<lambda>(i, ty). \<lparr>sd_addr = a + 80 * i, sd_type = ty, sd_encoder = enc, sd_decoder = dec\<rparr>)
       [(0, IPC_TYPES_VOID), (1, IPC_TYPES_COMMAND), (2, IPC_TYPES_HEARTBEAT), (3, IPC_TYPES_DATAREQ), (4, IPC_TYPES_OPAQUE_STRUCT),
        (5, IPC_TYPES_OPAQUE_STRUCT_ARR), (6, IPC_TYPES_RESPONSE), (7, IPC_TYPES_RESPONSE_HDR)]"

definition IPC_structs_constructor :: "ptr \<Rightarrow> ptr \<Rightarrow> nat \<Rightarrow> nat \<Rightarrow> XdrRegistry \<times> CmdRegistry \<Rightarrow> XdrRegistry \<times> CmdRegistry" where
  "IPC_structs_constructor a b enc dec rs =
     (let xr = fold (\<lambda>d. XDR_register_struct True True (Some d)) (IPC_Structs b enc dec) (fst rs)
      in (xr, CMD_register_errors (\<lambda>_. (True, True)) IPC_Errors (CMD_register_commands (\<lambda>_. (True, True)) xr (IPC_Commands a) False (snd rs))))"

definition empty_registries :: "XdrRegistry \<times> CmdRegistry" where
  "empty_registries =
     (\<lparr>structHash = None, sd_populate = (\<lambda>_. (0, 0)), sd_print_func = (\<lambda>_. 0)\<rparr>,
      \<lparr>xdrCommandHash = None, xdrDatareqList = [], xdrErrorHash = None, cleanup_reg = False, ci_parameter = (\<lambda>_. None), ci_handler = (\<lambda>_. (0, 0))\<rparr>)"

lemmas registry_defs = XDR_register_struct_def XDR_definition_for_type_def HASH_create_table_def HASH_add_data_def HASH_find_key_def bucket_of_def
  CMD_register_command_def CMD_register_error_def CMD_error_message_def CMD_xdr_cmd_by_number_def set_parameter_def xdr_struct_hash_func_def xdr_struct_key_for_data_def
  xdr_struct_cmp_key_def xdr_cmd_hash_func_def xdr_cmd_key_for_data_def xdr_cmd_cmp_key_def xdr_err_hash_func_def xdr_err_key_for_data_def xdr_err_cmp_key_def
  IPC_TYPES_VOID_def IPC_TYPES_COMMAND_def IPC_TYPES_HEARTBEAT_def IPC_TYPES_DATAREQ_def IPC_TYPES_OPAQUE_STRUCT_def IPC_TYPES_OPAQUE_STRUCT_ARR_def IPC_TYPES_RESPONSE_def
  IPC_TYPES_RESPONSE_HDR_def IPC_TYPE_BASE_def IPC_CMDS_STATUS_def IPC_CMDS_DATA_REQ_def IPC_CMD_BASE_def IPC_RESULTCODE_SUCCESS_def IPC_RESULTCODE_UNSUPPORTED_def
  IPC_RESULTCODE_INCORRECT_PARAMETER_TYPE_def IPC_RESULTCODE_ALLOCATION_ERR_def IPC_ERR_BASE_def

text \<open>After loading, the commands and errors of the protocol are found, and a request for data knows the structure of its parameters.\<close>

lemma constructor_registers:
  "CMD_error_message (snd (IPC_structs_constructor 1000 2000 1 2 empty_registries)) IPC_RESULTCODE_UNSUPPORTED = ''The target process does not support the command sent''"
  "map_option ci_name (CMD_xdr_cmd_by_number (snd (IPC_structs_constructor 1000 2000 1 2 empty_registries)) IPC_CMDS_STATUS) = Some (Some ''proc-status'')"
  "map ci_name (xdrDatareqList (snd (IPC_structs_constructor 1000 2000 1 2 empty_registries))) = [Some ''proc-heartbeat'']"
  "map_option sd_type (ci_parameter (snd (IPC_structs_constructor 1000 2000 1 2 empty_registries)) 1056) = Some IPC_TYPES_DATAREQ"
  by (simp_all add: IPC_structs_constructor_def empty_registries_def IPC_Structs_def IPC_Commands_def IPC_Errors_def registry_defs)

end
