(* ===== verification/Spec2Isabelle.thy ===== *)
theory Spec2Isabelle
  imports Sched_Correct Loop_Correct Registry_Correct Xdr_Bits Packets_Correct Xdr_Dict_Correct Critical_Correct Global_Correct Ipc_Buffer Commands_Correct Util_Correct Data_Req_Correct Zmq_Correct Proc_Queue_Correct Child_Correct Cmd_Line Pseudo_Correct Config_Correct Json_Correct Plugins Sockets_Correct Cmd_Client_Correct Xdr_Free Proc_Init Debug_Report Telemetry_Correct Exec_Child Packet_Arrays
begin

text \<open>
  A verification development of libproc, the process library of PolySat: an event loop for timers
  and descriptors, commands and responses between processes over UDP in XDR encoding, the registries of structures and
  commands, and state that survives a crash.

  \<^bold>\<open>The program and its parts.\<close> A process has one event loop (\<open>events.c\<close>). It keeps two priority queues of timed events
  (\<open>priorityQueue.c\<close>), a hash table of descriptor callbacks, and a timer object (\<open>eventTimer.c\<close>, \<open>globalTimer.c\<close>) that
  says what time it is and how to wait. Packets that arrive on the command socket are given to \<open>cmd.c\<close>, which finds
  the handler in a hash table (\<open>hashtable.c\<close>) and decodes parameters with the coders of \<open>xdr.c\<close> for the structures of
  \<open>docs/cmd-pkt.c\<close>; responses go back through \<open>ipc.c\<close> and are matched with the pending requests. \<open>critical.c\<close> keeps a
  small state on disk in several copies, protected by the digest of \<open>md5.c\<close>.

  \<^bold>\<open>Theories and sources.\<close>
  \<^item> \<open>Prelude\<close>: words, \<open>size_t\<close> arithmetic, list lemmas. \<open>Timeval\<close>: \<open>struct timeval\<close> arithmetic (\<open>events.c\<close>, \<open>sys/time.h\<close> macros).
  \<^item> \<open>Pqueue\<close>, \<open>Pqueue_Heap\<close>: \<open>priorityQueue.c\<close>, every operation; the heap order, the multiset of elements and
    the position each element stores about itself, for any priority callbacks (a locale).
  \<^item> \<open>Event_State\<close>, \<open>Sched\<close>, \<open>Sched_Correct\<close>: the handler state of \<open>events.c\<close> and its timed events
    (\<open>EVT_sched_*\<close>); an invariant over both queues and the memory of events.
  \<^item> \<open>Fd_Events\<close>, \<open>Fd_Correct\<close>: descriptor callbacks (\<open>EVT_fd_*\<close>), the \<open>fd_set\<close>s and \<open>maxFd\<close>.
  \<^item> \<open>Event_Loop\<close>, \<open>Event_Admin\<close>, \<open>Loop_Correct\<close>: one pass of the loop, its exit conditions, teardown, GPIO
    interrupts and the debugger commands.
  \<^item> \<open>Event_Timer\<close>: \<open>eventTimer.c\<close>, the timers behind one interface (a locale, interpreted for each).
    \<open>Global_Timer\<close>, \<open>Global_Correct\<close>: \<open>globalTimer.c\<close> as interleaved steps of processes over the two semaphores.
  \<^item> \<open>Hash_Table\<close>, \<open>Registry\<close>, \<open>Registry_Correct\<close>: \<open>hashtable.c\<close>, and the registries of \<open>xdr.c\<close> and \<open>cmd.c\<close> on it.
  \<^item> \<open>Xdr\<close>, \<open>Xdr_Codec\<close>, \<open>Xdr_Correct\<close>, \<open>Xdr_Bits\<close>: coders of \<open>xdr.c\<close> for scalars, arrays, strings, byte
    arrays and bit fields. \<open>Packets\<close>, \<open>Packets_Correct\<close>: structures and unions, the packets of \<open>docs/cmd-pkt.c\<close>.
    \<open>Xdr_Dict\<close>, \<open>Xdr_Dict_Correct\<close>: dictionaries.
  \<^item> \<open>Md5\<close>, \<open>Md5_Correct\<close>: \<open>md5.c\<close>. \<open>Critical\<close>, \<open>Critical_Correct\<close>: \<open>critical.c\<close> over a file system with crashes.
  \<^item> \<open>Ipc_Buffer\<close>: the byte buffers of \<open>ipc.c\<close>. \<open>Commands\<close>, \<open>Commands_Correct\<close>: dispatch, pending
    responses, multicast and the walk over a response (\<open>cmd.c\<close>), and the sending side (\<open>ipc.c\<close>). \<open>Data_Req\<close>, \<open>Data_Req_Correct\<close>:
    requests for telemetry, from the list of types to the packed answer.
  \<^item> \<open>Util\<close>, \<open>Util_Correct\<close>: \<open>util.c\<close>, a second client of the priority queue.
  \<^item> \<open>Zmq_Lite\<close>, \<open>Zmq_Correct\<close>: \<open>zmqlite.c\<close>, the message server of the debugger, as a client of the byte buffers.
  \<^item> \<open>Proc_Queue\<close>, \<open>Proc_Queue_Correct\<close>: pending writes, datagrams and signals of a process; \<open>Child\<close>, \<open>Child_Correct\<close>: child processes
    and their streams; \<open>Cmd_Line\<close>: the command line of a child (all \<open>proclib.c\<close>).
    \<open>Pseudo_Threads\<close>, \<open>Pseudo_Correct\<close>: cooperative threads (\<open>pseudo_threads.c\<close>).
  \<^item> \<open>C_Text\<close>: reading and printing of numbers as the C library does it, shared by the text formats. \<open>Config\<close>, \<open>Config_Correct\<close>: configuration
    files (\<open>config.c\<close>); parsing is shown to be a recursion over the tree the file describes. \<open>Json\<close>, \<open>Json_Correct\<close>: the reader of \<open>json.c\<close>.
    \<open>Xdr_Text\<close>, \<open>Cmd_Client\<close>, \<open>Cmd_Client_Correct\<close>: printing and scanning of structures (\<open>xdr.c\<close>) and commands typed on a command line (\<open>cmd.c\<close>).
  \<^item> \<open>Plugins\<close>: \<open>plugin.c\<close>. \<open>Sockets\<close>, \<open>Sockets_Correct\<close>: service names, sockets and blocking commands (\<open>ipc.c\<close>). \<open>Xdr_Free\<close>: what the
    deallocators of \<open>xdr.c\<close> free. \<open>Proc_Init\<close>: the files, the watchdog, the command table and the threads of a process (\<open>proclib.c\<close>, \<open>cmd.c\<close>).
  \<^item> \<open>Json_Grammar\<close>: the grammar of JSON, the specification of the texts that are printed. \<open>Debug_Report\<close>: the state of the event loop as it is sent to the
    debugger (\<open>events.c\<close>). \<open>Telemetry\<close>, \<open>Telemetry_Correct\<close>: the exports of telemetry dictionaries (\<open>telm_dict.c\<close>).
  \<^item> \<open>Exec_Child\<close>: what a forked child does before it becomes another program (\<open>proclib.c\<close>). \<open>Packet_Arrays\<close>: arrays of packets and of unions, the tables of
    the protocol and their registration (\<open>docs/cmd-pkt.c\<close>, \<open>xdr.c\<close>).

  \<^bold>\<open>How code is modelled.\<close> State is a record with the fields of the source; an operation is a function from the
  state to its result and the new state, and every early return is a branch. Objects that are shared by pointer
  (timed events, descriptor entries, commands) live in an explicit store. \<open>size_t\<close> is a \<open>nat\<close> with the wrap-around at \<open>2 ^ 64\<close>
  written out (\<open>size_sub\<close>); numbers on the wire are words of their width. An access outside an object is a result of its own
  (\<open>EFault\<close>, \<open>DFault\<close>, \<open>None\<close>), so that a theorem which gives another result also shows memory safety. Whether \<open>malloc\<close>
  succeeds, what system calls return, what callbacks do and what a variable held before it was set are arguments.

  \<^bold>\<open>What the lemmas show.\<close> The queue pops the earliest event and every operation keeps the invariant of the handler; the
  loop runs what is due, ends, and skips nothing; descriptor operations keep table and \<open>fd_set\<close>s together; the
  hash table and the dictionary refine finite maps; encoding then decoding is the identity for every coder in reach, within
  the bounds of the buffer; a save that is cut off at any write leaves a state that loads as the old or the
  new value; in every interleaving at most one process runs under the global clock; a command reaches its handler and the
  response its callback, exactly once; a blocking command returns; what is printed is read back, by the parser of the library or as a text in JSON; a child executes the words of its command line with
  the streams of its pipes; freeing a structure frees
  each of its blocks once. Lemmas about behaviour that is wrong or surprising are stated as well and
  are listed with their source lines as findings.

  \<^bold>\<open>Bounds and fuel.\<close> Loops that callbacks may keep running (\<open>process_loop\<close>, \<open>run_deferred\<close>, \<open>HASH_extract\<close>) or that double
  a size (\<open>grow\<close>) are \<open>partial_function (option)\<close> or carry fuel, and the theorems prove that they return; the fuel of
  \<open>HASH_extract\<close> is the length of the longest bucket, that of the search for plugins the number of sets and one, that of the parser of configuration files
  the sizes of the items and one. Message buffers stay below \<open>2 ^ 62\<close> bytes, so that doubling them does not wrap;
  encoders and decoders get a limit below \<open>2 ^ 64\<close>, as every \<open>size_t\<close> is. Times and the numbers of events are unbounded
  integers. The loop takes a list of clock readings, one for each time it asks; theorems hold for every list.

  \<^bold>\<open>Not modelled.\<close> Debug messages (\<open>debug.c\<close>) and help texts, which only format output; text of floating-point numbers in \<open>xdr.c\<close> and \<open>config.c\<close>; the switch of
  the event loop to another timer (\<open>EVT_enable_virt\<close>, \<open>edbg_init\<close>) and opening and mapping the file of the global timer (\<open>setup_shared_state\<close>); the order of the
  steps of \<open>PROC_init\<close>, which calls operations that are modelled one by one; the vendored \<open>json.hpp\<close> and \<open>zhelpers.hpp\<close>; the test harness \<open>proctest.cpp\<close>, which is
  written on them; programs and tests, which are clients of the library. Freeing memory is modelled only where an object may still be referred to, and in \<open>Xdr_Free\<close>.
\<close>

end
